(* ===== verification/Prelude.thy ===== *)
theory Prelude
  imports Main "HOL-Library.Sublist"
begin

text \<open>
  Shared ground of the development: the result type of fallible Go functions, the collections
  of rewrite rules the components add to, and the generic lemmas on lists, options and maps
  that more than one component uses. Nothing here is specific to one source file.
\<close>

section \<open>Results\<close>

text \<open>
  A Go function that returns \<open>(T, error)\<close> is modelled as a function into \<open>'e + 'a\<close>:
  \<open>Inl e\<close> is a non-nil error, \<open>Inr v\<close> the value returned with a nil error. A function that
  returns only \<open>error\<close> is modelled into \<open>'e option\<close>, \<open>None\<close> standing for nil.
\<close>

definition bindr :: "'e + 'a \<Rightarrow> ('a \<Rightarrow> 'e + 'b) \<Rightarrow> 'e + 'b" where
  "bindr r f = (case r of Inl e \<Rightarrow> Inl e | Inr a \<Rightarrow> f a)"

lemma bindr_simps [simp]:
  "bindr (Inl e) f = Inl e"
  "bindr (Inr a) f = f a"
  by (simp_all add: bindr_def)

lemma bindr_Inr_iff: "bindr r f = Inr b \<longleftrightarrow> (\<exists>a. r = Inr a \<and> f a = Inr b)"
  by (cases r) simp_all

section \<open>Rule collections\<close>

named_theorems go_simps \<open>evaluation rules of the modelled string operations\<close>
named_theorems scan_intros \<open>bounds of scanner positions\<close>
named_theorems inv_intros \<open>preservation of component invariants by single operations\<close>

section \<open>Lists\<close>

lemma takeWhile_dropWhile_split: "xs = takeWhile P xs @ dropWhile P xs"
  by simp

lemma dropWhile_Cons_hd: "dropWhile P xs = y # ys \<Longrightarrow> \<not> P y"
  by (induction xs) (auto split: if_splits)

lemma set_take_mono: "x \<in> set (take n xs) \<Longrightarrow> x \<in> set xs"
  by (rule in_set_takeD)

lemma drop_eq_Cons_nth: "i < length xs \<Longrightarrow> drop i xs = xs ! i # drop (Suc i) xs"
  by (rule Cons_nth_drop_Suc [symmetric])

lemma concat_map_singleton: "concat (map (\<lambda>x. [x]) xs) = xs"
  by (induction xs) simp_all

lemma suffix_drop_append: "suffix (drop n (xs @ ys)) (xs @ ys)"
  by (rule suffix_drop)

lemma suffix_append_both: "suffix xs ys \<Longrightarrow> suffix (xs @ zs) (ys @ zs)"
  by (auto simp: suffix_def)

lemma length_filter_less_ex:
  "x \<in> set xs \<Longrightarrow> \<not> P x \<Longrightarrow> length (filter P xs) < length xs"
  by (rule length_filter_less)

section \<open>Folding over a chain of layers\<close>

text \<open>\<open>first_some\<close> is the value of the first layer that sets one.\<close>

fun first_some :: "'a option list \<Rightarrow> 'a option" where
  "first_some [] = None"
| "first_some (None # xs) = first_some xs"
| "first_some (Some a # xs) = Some a"

lemma first_some_append:
  "first_some (xs @ ys) = (case first_some xs of None \<Rightarrow> first_some ys | Some a \<Rightarrow> Some a)"
  by (induction xs rule: first_some.induct) simp_all

lemma first_some_None_iff: "first_some xs = None \<longleftrightarrow> set xs \<subseteq> {None}"
  by (induction xs rule: first_some.induct) auto

lemma first_some_Some_iff:
  "first_some xs = Some a \<longleftrightarrow>
     (\<exists>i < length xs. xs ! i = Some a \<and> (\<forall>j < i. xs ! j = None))"
proof (induction xs rule: first_some.induct)
  case (2 xs)
  show ?case
  proof
    assume "first_some (None # xs) = Some a"
    then obtain i where "i < length xs" "xs ! i = Some a" "\<forall>j < i. xs ! j = None"
      using 2 by auto
    then show "\<exists>i < length (None # xs). (None # xs) ! i = Some a \<and> (\<forall>j < i. (None # xs) ! j = None)"
      by (intro exI [of _ "Suc i"]) (auto simp: less_Suc_eq_0_disj)
  next
    assume "\<exists>i < length (None # xs). (None # xs) ! i = Some a \<and> (\<forall>j < i. (None # xs) ! j = None)"
    then obtain i where i: "i < Suc (length xs)" "(None # xs) ! i = Some a"
      "\<forall>j < i. (None # xs) ! j = None" by auto
    then obtain k where k: "i = Suc k" by (cases i) auto
    with i have "k < length xs" "xs ! k = Some a" "\<forall>j < k. xs ! j = None" by auto
    then show "first_some (None # xs) = Some a" using 2 by auto
  qed
next
  case (3 b xs)
  show ?case
    by (auto simp: nth_Cons' intro: exI [of _ 0])
qed simp

lemma map_sum_Inr: "map_sum f g r = Inr y \<longleftrightarrow> (\<exists>x. r = Inr x \<and> y = g x)"
  by (cases r) auto

end
