(* ===== verification/GoStrings.thy ===== *)
theory GoStrings
  imports Prelude
begin

text \<open>
  Go strings and the parts of the packages \<open>strings\<close>, \<open>strconv\<close> and \<open>unicode\<close> that the
  modelled source calls. A Go string is a byte sequence, and a HOL \<open>char\<close> is a byte, so a Go
  string is a \<open>char list\<close>, exactly. Where Go decodes UTF-8 (\<open>TrimSpace\<close>, \<open>Fields\<close>, \<open>ToUpper\<close>,
  \<open>range\<close> over a string) the model works on the encoded bytes or decodes them as Go does, an
  invalid byte being the rune 0xFFFD of width 1.
\<close>

section \<open>Bytes\<close>

definition byte :: "char \<Rightarrow> nat" where
  "byte c = of_char c"

definition chr :: "nat \<Rightarrow> char" where
  "chr n = char_of n"

lemma byte_less [simp]: "byte c < 256"
  by (simp add: byte_def)

lemma byte_chr [simp]: "n < 256 \<Longrightarrow> byte (chr n) = n"
  by (simp add: byte_def chr_def)

lemma chr_byte [simp]: "chr (byte c) = c"
  by (simp add: byte_def chr_def)

lemma byte_inject [simp]: "byte a = byte b \<longleftrightarrow> a = b"
  by (metis chr_byte)

abbreviation nl :: char where "nl \<equiv> CHR 0x0A"
abbreviation cr :: char where "cr \<equiv> CHR 0x0D"
abbreviation tab :: char where "tab \<equiv> CHR 0x09"
abbreviation backslash :: char where "backslash \<equiv> CHR 0x5C"
abbreviation squote :: char where "squote \<equiv> CHR 0x27"
abbreviation dquote :: char where "dquote \<equiv> CHR 0x22"
abbreviation backtick :: char where "backtick \<equiv> CHR 0x60"

definition isUpperA :: "char \<Rightarrow> bool" where
  "isUpperA c \<longleftrightarrow> 65 \<le> byte c \<and> byte c \<le> 90"

definition isLowerA :: "char \<Rightarrow> bool" where
  "isLowerA c \<longleftrightarrow> 97 \<le> byte c \<and> byte c \<le> 122"

definition isDigitA :: "char \<Rightarrow> bool" where
  "isDigitA c \<longleftrightarrow> 48 \<le> byte c \<and> byte c \<le> 57"

definition upperA :: "char \<Rightarrow> char" where
  "upperA c = (if isLowerA c then chr (byte c - 32) else c)"

definition lowerA :: "char \<Rightarrow> char" where
  "lowerA c = (if isUpperA c then chr (byte c + 32) else c)"

section \<open>White space\<close>

text \<open>
  \<open>unicode.IsSpace\<close> of the rune at the head of a string, as the number of bytes that rune takes
  (0 when the head is no white space). The white space runes are U+0009 to U+000D, U+0020, U+0085,
  U+00A0, U+1680, U+2000 to U+200A, U+2028, U+2029, U+202F, U+205F and U+3000. Their lead bytes
  are never continuation bytes, so looking at the encoded bytes gives what decoding gives.
\<close>

definition spaceByte :: "char \<Rightarrow> bool" where
  "spaceByte c \<longleftrightarrow> c = CHR '' '' \<or> (9 \<le> byte c \<and> byte c \<le> 13)"

definition space2 :: "char \<Rightarrow> char \<Rightarrow> bool" where
  "space2 a b \<longleftrightarrow> byte a = 0xC2 \<and> (byte b = 0x85 \<or> byte b = 0xA0)"

definition space3 :: "char \<Rightarrow> char \<Rightarrow> char \<Rightarrow> bool" where
  "space3 a b c \<longleftrightarrow>
     byte a = 0xE1 \<and> byte b = 0x9A \<and> byte c = 0x80 \<or>
     byte a = 0xE2 \<and> byte b = 0x80 \<and>
       (0x80 \<le> byte c \<and> byte c \<le> 0x8A \<or> byte c = 0xA8 \<or> byte c = 0xA9 \<or> byte c = 0xAF) \<or>
     byte a = 0xE2 \<and> byte b = 0x81 \<and> byte c = 0x9F \<or>
     byte a = 0xE3 \<and> byte b = 0x80 \<and> byte c = 0x80"

fun spaceLen :: "string \<Rightarrow> nat" where
  "spaceLen [] = 0"
| "spaceLen (a # r) =
     (if spaceByte a then 1
      else case r of [] \<Rightarrow> 0
        | b # r' \<Rightarrow> if space2 a b then 2
            else (case r' of [] \<Rightarrow> 0 | c # _ \<Rightarrow> if space3 a b c then 3 else 0))"

text \<open>The same, for the rune that ends a string, which is given reversed.\<close>

fun spaceLenRev :: "string \<Rightarrow> nat" where
  "spaceLenRev [] = 0"
| "spaceLenRev (a # r) =
     (if spaceByte a then 1
      else case r of [] \<Rightarrow> 0
        | b # r' \<Rightarrow> if space2 b a then 2
            else (case r' of [] \<Rightarrow> 0 | c # _ \<Rightarrow> if space3 c b a then 3 else 0))"

lemma spaceLen_le: "spaceLen s \<le> length s"
  by (cases s) (auto split: list.splits)

lemma spaceLenRev_le: "spaceLenRev s \<le> length s"
  by (cases s) (auto split: list.splits)

text \<open>\<open>strings.TrimSpace\<close>.\<close>

function trimLeftSpace :: "string \<Rightarrow> string" where
  "trimLeftSpace s = (if spaceLen s = 0 then s else trimLeftSpace (drop (spaceLen s) s))"
  by pat_completeness auto
termination
proof (relation "measure length")
  fix s :: string
  assume "spaceLen s \<noteq> 0"
  then show "(drop (spaceLen s) s, s) \<in> measure length"
    using spaceLen_le [of s] by (cases s) auto
qed simp

function trimRevSpace :: "string \<Rightarrow> string" where
  "trimRevSpace s = (if spaceLenRev s = 0 then s else trimRevSpace (drop (spaceLenRev s) s))"
  by pat_completeness auto
termination
proof (relation "measure length")
  fix s :: string
  assume "spaceLenRev s \<noteq> 0"
  then show "(drop (spaceLenRev s) s, s) \<in> measure length"
    using spaceLenRev_le [of s] by (cases s) auto
qed simp

declare trimLeftSpace.simps [simp del] trimRevSpace.simps [simp del]

definition TrimSpace :: "string \<Rightarrow> string" where
  "TrimSpace s = rev (trimRevSpace (rev (trimLeftSpace s)))"

text \<open>\<open>strings.Fields\<close>: the maximal runs of bytes that are no white space.\<close>

function fieldsFrom :: "string \<Rightarrow> string \<Rightarrow> string list" where
  "fieldsFrom cur s =
     (if s = [] then (if cur = [] then [] else [cur])
      else if spaceLen s \<noteq> 0
        then (if cur = [] then [] else [cur]) @ fieldsFrom [] (drop (spaceLen s) s)
      else fieldsFrom (cur @ [hd s]) (tl s))"
  by pat_completeness auto
termination
proof (relation "measure (\<lambda>(cur, s). length s)")
  fix cur s :: string
  assume "s \<noteq> []" "spaceLen s \<noteq> 0"
  then show "(([], drop (spaceLen s) s), cur, s) \<in> measure (\<lambda>(cur, s). length s)"
    by (cases s) auto
qed auto

declare fieldsFrom.simps [simp del]

definition Fields :: "string \<Rightarrow> string list" where
  "Fields s = fieldsFrom [] s"

section \<open>Prefixes, suffixes, searching\<close>

fun HasPrefix :: "string \<Rightarrow> string \<Rightarrow> bool" where
  "HasPrefix s [] = True"
| "HasPrefix [] (p # ps) = False"
| "HasPrefix (c # s) (p # ps) = (c = p \<and> HasPrefix s ps)"

definition HasSuffix :: "string \<Rightarrow> string \<Rightarrow> bool" where
  "HasSuffix s p = HasPrefix (rev s) (rev p)"

definition CutPrefix :: "string \<Rightarrow> string \<Rightarrow> string option" where
  "CutPrefix s p = (if HasPrefix s p then Some (drop (length p) s) else None)"

definition TrimPrefix :: "string \<Rightarrow> string \<Rightarrow> string" where
  "TrimPrefix s p = (if HasPrefix s p then drop (length p) s else s)"

definition TrimSuffix :: "string \<Rightarrow> string \<Rightarrow> string" where
  "TrimSuffix s p = (if HasSuffix s p then take (length s - length p) s else s)"

text \<open>\<open>strings.TrimRight\<close> with an ASCII cutset.\<close>

definition TrimRight :: "string \<Rightarrow> string \<Rightarrow> string" where
  "TrimRight s cs = rev (dropWhile (\<lambda>c. c \<in> set cs) (rev s))"

text \<open>\<open>strings.IndexByte\<close> and \<open>strings.Index\<close>; \<open>None\<close> is the result -1.\<close>

fun IndexByte :: "string \<Rightarrow> char \<Rightarrow> nat option" where
  "IndexByte [] c = None"
| "IndexByte (x # xs) c = (if x = c then Some 0 else map_option Suc (IndexByte xs c))"

fun Index :: "string \<Rightarrow> string \<Rightarrow> nat option" where
  "Index [] p = (if p = [] then Some 0 else None)"
| "Index (x # xs) p = (if HasPrefix (x # xs) p then Some 0 else map_option Suc (Index xs p))"

definition Contains :: "string \<Rightarrow> string \<Rightarrow> bool" where
  "Contains s p \<longleftrightarrow> Index s p \<noteq> None"

text \<open>\<open>strings.ContainsAny\<close> with an ASCII set.\<close>

definition ContainsAny :: "string \<Rightarrow> string \<Rightarrow> bool" where
  "ContainsAny s cs \<longleftrightarrow> list_ex (\<lambda>c. c \<in> set cs) s"

text \<open>\<open>strings.Cut\<close>: what is before and after the first separator.\<close>

definition Cut :: "string \<Rightarrow> string \<Rightarrow> string \<times> string \<times> bool" where
  "Cut s sep = (case Index s sep of
      Some i \<Rightarrow> (take i s, drop (i + length sep) s, True)
    | None \<Rightarrow> (s, [], False))"

section \<open>Splitting, joining, replacing\<close>

text \<open>\<open>strings.Split\<close> on a one-byte separator.\<close>

fun splitByteFrom :: "string \<Rightarrow> string \<Rightarrow> char \<Rightarrow> string list" where
  "splitByteFrom cur [] c = [cur]"
| "splitByteFrom cur (x # xs) c =
     (if x = c then cur # splitByteFrom [] xs c else splitByteFrom (cur @ [x]) xs c)"

definition SplitByte :: "string \<Rightarrow> char \<Rightarrow> string list" where
  "SplitByte s c = splitByteFrom [] s c"

fun Join :: "string list \<Rightarrow> string \<Rightarrow> string" where
  "Join [] sep = []"
| "Join [x] sep = x"
| "Join (x # y # xs) sep = x @ sep @ Join (y # xs) sep"

lemma set_Join: "set (Join ws sep) \<subseteq> \<Union> (set ` set ws) \<union> set sep"
  by (induction ws rule: induct_list012) auto

text \<open>
  \<open>strings.NewReplacer(old, new, ...).Replace\<close>: at each position the first pair, in argument
  order, whose old string starts there is replaced. Old strings are not empty here.
\<close>

fun findRepl :: "(string \<times> string) list \<Rightarrow> string \<Rightarrow> (string \<times> string) option" where
  "findRepl [] s = None"
| "findRepl ((old, new) # ps) s =
     (if old \<noteq> [] \<and> HasPrefix s old then Some (old, new) else findRepl ps s)"

lemma findRepl_Some: "findRepl ps s = Some (old, new) \<Longrightarrow> old \<noteq> [] \<and> HasPrefix s old"
  by (induction ps s rule: findRepl.induct) (auto split: if_splits)

function Replace :: "(string \<times> string) list \<Rightarrow> string \<Rightarrow> string" where
  "Replace ps s = (case s of [] \<Rightarrow> []
     | c # r \<Rightarrow> (case findRepl ps s of
          None \<Rightarrow> c # Replace ps r
        | Some (old, new) \<Rightarrow> new @ Replace ps (drop (length old) s)))"
  by pat_completeness auto
termination
  by (relation "measure (\<lambda>(ps, s). length s)") (auto dest!: findRepl_Some simp: neq_Nil_conv)

declare Replace.simps [simp del]

section \<open>Numbers\<close>

text \<open>
  \<open>strconv.Atoi\<close> on a 64-bit platform: an optional sign, one or more decimal digits, a value
  in the range of \<open>int64\<close>; \<open>None\<close> is any error.
\<close>

fun digitsVal :: "nat \<Rightarrow> string \<Rightarrow> nat option" where
  "digitsVal acc [] = Some acc"
| "digitsVal acc (c # cs) =
     (if isDigitA c then digitsVal (10 * acc + (byte c - 48)) cs else None)"

definition parseInt64 :: "bool \<Rightarrow> string \<Rightarrow> int option" where
  "parseInt64 neg ds = (if ds = [] then None else
     case digitsVal 0 ds of None \<Rightarrow> None
     | Some n \<Rightarrow> if neg then (if n \<le> 2 ^ 63 then Some (- int n) else None)
                 else (if n < 2 ^ 63 then Some (int n) else None))"

definition Atoi :: "string \<Rightarrow> int option" where
  "Atoi s = (case s of [] \<Rightarrow> None
     | c # r \<Rightarrow> if c = CHR ''-'' then parseInt64 True r
                else if c = CHR ''+'' then parseInt64 False r
                else parseInt64 False s)"

text \<open>Decimal digits of a natural number (\<open>%d\<close>, \<open>strconv.Itoa\<close>).\<close>

fun natDigits :: "nat \<Rightarrow> string" where
  "natDigits n = (if n < 10 then [chr (48 + n)] else natDigits (n div 10) @ [chr (48 + n mod 10)])"

declare natDigits.simps [simp del]

definition itoaInt :: "int \<Rightarrow> string" where
  "itoaInt i = (if i < 0 then ''-'' @ natDigits (nat (- i)) else natDigits (nat i))"

section \<open>Facts about the string operations\<close>

definition visible :: "char \<Rightarrow> bool" where
  "visible c \<longleftrightarrow> 33 \<le> byte c \<and> byte c \<le> 126"

lemma byte_space [simp]: "byte CHR '' '' = 32"
  by (simp add: byte_def)

lemma visible_not_space [go_simps]: "visible c \<Longrightarrow> \<not> spaceByte c"
  by (auto simp: visible_def spaceByte_def)

lemma visible_not_space2 [go_simps]:
  "visible a \<Longrightarrow> \<not> space2 a b" "visible b \<Longrightarrow> \<not> space2 a b"
  by (auto simp: visible_def space2_def)

lemma visible_not_space3 [go_simps]:
  "visible a \<Longrightarrow> \<not> space3 a b c" "visible b \<Longrightarrow> \<not> space3 a b c" "visible c \<Longrightarrow> \<not> space3 a b c"
  by (auto simp: visible_def space3_def)

lemma spaceLen_visible [go_simps]: "visible c \<Longrightarrow> spaceLen (c # r) = 0"
  by (auto simp: go_simps split: list.splits)

lemma spaceLenRev_visible [go_simps]: "visible c \<Longrightarrow> spaceLenRev (c # r) = 0"
  by (auto simp: go_simps split: list.splits)

lemma trimLeftSpace_visible: "s = [] \<or> visible (hd s) \<Longrightarrow> trimLeftSpace s = s"
  by (subst trimLeftSpace.simps) (cases s; simp add: go_simps del: spaceLen.simps(2))

lemma trimRevSpace_visible: "s = [] \<or> visible (hd s) \<Longrightarrow> trimRevSpace s = s"
  by (subst trimRevSpace.simps) (cases s; simp add: go_simps del: spaceLenRev.simps(2))

lemma TrimSpace_visible:
  "s = [] \<or> visible (hd s) \<and> visible (last s) \<Longrightarrow> TrimSpace s = s"
  by (cases "s = []") (auto simp: TrimSpace_def trimLeftSpace_visible trimRevSpace_visible hd_rev)

lemma trimLeftSpace_suffix: "suffix (trimLeftSpace s) s"
proof (induction s rule: trimLeftSpace.induct)
  case (1 s)
  show ?case
    using 1 by (subst trimLeftSpace.simps) (auto intro: suffix_order.trans suffix_drop)
qed

lemma trimRevSpace_suffix: "suffix (trimRevSpace s) s"
proof (induction s rule: trimRevSpace.induct)
  case (1 s)
  show ?case
    using 1 by (subst trimRevSpace.simps) (auto intro: suffix_order.trans suffix_drop)
qed

lemma TrimSpace_sublist: "sublist (TrimSpace s) s"
proof -
  have "prefix (rev (trimRevSpace (rev (trimLeftSpace s)))) (trimLeftSpace s)"
    using trimRevSpace_suffix [of "rev (trimLeftSpace s)"] by (simp add: suffix_to_prefix)
  then have "sublist (TrimSpace s) (trimLeftSpace s)"
    by (simp add: TrimSpace_def prefix_imp_sublist)
  then show ?thesis
    using trimLeftSpace_suffix suffix_imp_sublist sublist_order.order.trans by blast
qed

lemma spaceLenRev_trimRevSpace: "spaceLenRev (trimRevSpace s) = 0"
  by (induction s rule: trimRevSpace.induct) (subst trimRevSpace.simps, simp)

lemma spaceLen_trimLeftSpace: "spaceLen (trimLeftSpace s) = 0"
  by (induction s rule: trimLeftSpace.induct) (subst trimLeftSpace.simps, simp)

lemma fieldsFrom_Nil [go_simps]: "fieldsFrom cur [] = (if cur = [] then [] else [cur])"
  by (subst fieldsFrom.simps) simp

lemma fieldsFrom_visible [go_simps]:
  "visible c \<Longrightarrow> fieldsFrom cur (c # r) = fieldsFrom (cur @ [c]) r"
  by (subst fieldsFrom.simps) (simp add: go_simps del: spaceLen.simps(2))

lemma fieldsFrom_space [go_simps]:
  "fieldsFrom cur (CHR '' '' # r) = (if cur = [] then [] else [cur]) @ fieldsFrom [] r"
  by (subst fieldsFrom.simps) (simp add: spaceByte_def)

lemma fieldsFrom_word:
  "list_all visible w \<Longrightarrow> fieldsFrom cur (w @ r) = fieldsFrom (cur @ w) r"
  by (induction w arbitrary: cur) (simp_all add: go_simps)

definition plainWord :: "string \<Rightarrow> bool" where
  "plainWord w \<longleftrightarrow> w \<noteq> [] \<and> list_all visible w"

lemma Fields_Join: "list_all plainWord ws \<Longrightarrow> Fields (Join ws '' '') = ws"
  unfolding Fields_def
proof (induction ws rule: induct_list012)
  case (2 w)
  then show ?case
    using fieldsFrom_word [of w "[]" "[]"] by (simp add: plainWord_def go_simps)
next
  case (3 w v ws)
  then show ?case
    by (simp add: plainWord_def fieldsFrom_word go_simps)
qed (simp add: go_simps)

lemma HasPrefix_iff: "HasPrefix s p \<longleftrightarrow> prefix p s"
  by (induction s p rule: HasPrefix.induct) auto

lemma Contains_iff: "Contains s p \<longleftrightarrow> sublist p s"
proof (induction s)
  case Nil
  show ?case by (simp add: Contains_def)
next
  case (Cons x xs)
  then show ?case
    by (auto simp: Contains_def HasPrefix_iff sublist_Cons_right simp del: HasPrefix.simps)
qed

lemma IndexByte_Some:
  "IndexByte s c = Some i \<Longrightarrow> i < length s \<and> s ! i = c \<and> c \<notin> set (take i s)"
  by (induction s c arbitrary: i rule: IndexByte.induct) (auto split: if_splits)

lemma IndexByte_None_iff: "IndexByte s c = None \<longleftrightarrow> c \<notin> set s"
  by (induction s c rule: IndexByte.induct) auto

lemma Index_Some: "Index s p = Some i \<Longrightarrow> i + length p \<le> length s \<and> take (length p) (drop i s) = p"
proof (induction s p arbitrary: i rule: Index.induct)
  case (2 x xs p)
  show ?case
  proof (cases "HasPrefix (x # xs) p")
    case True
    then have "prefix p (x # xs)" "i = 0" using 2 by (auto simp: HasPrefix_iff simp del: HasPrefix.simps)
    then show ?thesis using prefix_length_le [of p "x # xs"] by (auto simp: prefix_def)
  next
    case False
    then show ?thesis using 2 by auto
  qed
qed (auto split: if_splits)

lemma splitByteFrom_append:
  "splitByteFrom cur (x @ c # y) c = splitByteFrom cur x c @ splitByteFrom [] y c"
  by (induction cur x c rule: splitByteFrom.induct) simp_all

lemma SplitByte_append: "SplitByte (x @ c # y) c = SplitByte x c @ SplitByte y c"
  by (simp add: SplitByte_def splitByteFrom_append)

lemma splitByteFrom_no_sep: "c \<notin> set s \<Longrightarrow> splitByteFrom cur s c = [cur @ s]"
  by (induction cur s c rule: splitByteFrom.induct) auto

lemma SplitByte_no_sep: "c \<notin> set s \<Longrightarrow> SplitByte s c = [s]"
  by (simp add: SplitByte_def splitByteFrom_no_sep)

lemma Replace_Nil [go_simps]: "Replace ps [] = []"
  by (subst Replace.simps) simp

lemma Replace_Cons_None [go_simps]:
  "findRepl ps (c # r) = None \<Longrightarrow> Replace ps (c # r) = c # Replace ps r"
  by (subst Replace.simps) simp

lemma Replace_Cons_Some [go_simps]:
  "findRepl ps (c # r) = Some (old, new) \<Longrightarrow>
     Replace ps (c # r) = new @ Replace ps (drop (length old) (c # r))"
  by (subst Replace.simps) simp

text \<open>A separator byte that no old string can straddle splits a replacement in two.\<close>

lemma Replace_append:
  assumes "\<And>u. u \<noteq> [] \<Longrightarrow> suffix u a \<Longrightarrow> findRepl ps (u @ b) = findRepl ps u"
  shows "Replace ps (a @ b) = Replace ps a @ Replace ps b"
  using assms
proof (induction ps a rule: Replace.induct)
  case (1 ps s)
  show ?case
  proof (cases s)
    case Nil
    then show ?thesis by (simp add: go_simps)
  next
    case (Cons c r)
    have eq: "findRepl ps (c # r @ b) = findRepl ps (c # r)"
      using 1(3) [of "c # r"] Cons by simp
    show ?thesis
    proof (cases "findRepl ps (c # r)")
      case None
      have "Replace ps (r @ b) = Replace ps r @ Replace ps b"
        using 1(1) [OF Cons] None Cons 1(3) by (auto simp: suffix_Cons)
      then show ?thesis using None eq Cons by (simp add: go_simps)
    next
      case (Some on)
      obtain old new where on: "on = (old, new)" by force
      have o: "old \<noteq> []" "prefix old (c # r)"
        using findRepl_Some Some on by (auto simp: HasPrefix_iff simp del: HasPrefix.simps)
      then have le: "length old \<le> length (c # r)" by (metis prefix_length_le)
      have "Replace ps (drop (length old) s @ b) = Replace ps (drop (length old) s) @ Replace ps b"
      proof (rule 1(2) [OF Cons _ on [symmetric]])
        show "findRepl ps s = Some on" using Some Cons by simp
        show "findRepl ps (u @ b) = findRepl ps u" if "u \<noteq> []" "suffix u (drop (length old) s)" for u
          using 1(3) [of u] that suffix_order.trans [OF that(2) suffix_drop] by simp
      qed
      then have "Replace ps (drop (length old) (c # r) @ b) =
          Replace ps (drop (length old) (c # r)) @ Replace ps b"
        using Cons by simp
      moreover have "drop (length old) (c # r @ b) = drop (length old) (c # r) @ b"
        using drop_append [of "length old" "c # r" b] le by (simp del: drop_append)
      ultimately show ?thesis
        using Some on eq Cons by (simp add: go_simps)
    qed
  qed
qed

lemma findRepl_None_iff:
  "findRepl ps s = None \<longleftrightarrow> (\<forall>(old, new) \<in> set ps. old = [] \<or> \<not> prefix old s)"
  by (induction ps s rule: findRepl.induct) (auto simp: HasPrefix_iff split: if_splits)

lemma Replace_id:
  assumes "\<And>old new. (old, new) \<in> set ps \<Longrightarrow> old \<noteq> [] \<Longrightarrow> hd old \<notin> set s"
  shows "Replace ps s = s"
  using assms
proof (induction s)
  case (Cons c r)
  have "findRepl ps (c # r) = None"
    using Cons.prems by (fastforce simp: findRepl_None_iff prefix_Cons)
  then show ?case using Cons by (simp add: go_simps)
qed (simp add: go_simps)

section \<open>Decimal numbers\<close>

lemma digitsVal_append: "digitsVal acc (xs @ ys) = Option.bind (digitsVal acc xs) (\<lambda>v. digitsVal v ys)"
  by (induction acc xs rule: digitsVal.induct) auto

lemma digit_byte: "n < 10 \<Longrightarrow> byte (chr (48 + n)) = 48 + n"
  by (rule byte_chr) simp

lemma digitsVal_natDigits: "digitsVal 0 (natDigits n) = Some n"
proof (induction n rule: natDigits.induct)
  case (1 n)
  have one: "digitsVal v [chr (48 + k)] = Some (10 * v + k)" if "k < 10" for v k
    using digit_byte [OF that] that by (simp add: isDigitA_def)
  show ?case
  proof (cases "n < 10")
    case True
    then show ?thesis using one [of n 0] by (simp add: natDigits.simps [of n])
  next
    case False
    then show ?thesis using 1 one [of "n mod 10" "n div 10"]
      by (simp add: natDigits.simps [of n] digitsVal_append)
  qed
qed

lemma natDigits_digits: "set (natDigits n) \<subseteq> {c. isDigitA c} \<and> natDigits n \<noteq> []"
proof (induction n rule: natDigits.induct)
  case (1 n)
  have "isDigitA (chr (48 + k))" if "k < 10" for k using digit_byte [OF that] that by (simp add: isDigitA_def)
  then show ?case using 1 by (subst (1 2) natDigits.simps) auto
qed

lemma natDigits_length: "0 < k \<Longrightarrow> n < 10 ^ k \<Longrightarrow> length (natDigits n) \<le> k"
proof (induction k arbitrary: n)
  case (Suc k)
  show ?case
  proof (cases "n < 10")
    case False
    then have "0 < k" using Suc.prems by (cases k) auto
    moreover have "n div 10 < 10 ^ k" using Suc.prems by (simp add: less_mult_imp_div_less)
    ultimately show ?thesis using Suc.IH [of "n div 10"] False by (simp add: natDigits.simps [of n])
  qed (simp add: natDigits.simps [of n])
qed simp

lemma Atoi_itoa:
  assumes "- (2 ^ 63) \<le> i" "i < 2 ^ 63"
  shows "Atoi (itoaInt i) = Some i"
proof (cases "i < 0")
  case True
  then show ?thesis using assms natDigits_digits [of "nat (- i)"]
    by (simp add: itoaInt_def Atoi_def parseInt64_def digitsVal_natDigits nat_le_iff)
next
  case False
  obtain c r where cr: "natDigits (nat i) = c # r" "isDigitA c"
    using natDigits_digits [of "nat i"] by (cases "natDigits (nat i)") auto
  then have "c \<noteq> CHR ''-''" "c \<noteq> CHR ''+''" by (auto simp: isDigitA_def byte_def)
  then show ?thesis using False assms cr digitsVal_natDigits [of "nat i"]
    by (simp add: itoaInt_def Atoi_def parseInt64_def nat_less_iff)
qed

lemma itoa_line: "- (2 ^ 63) \<le> i \<Longrightarrow> i < 2 ^ 63 \<Longrightarrow> nl \<notin> set (itoaInt i) \<and> length (itoaInt i) \<le> 21"
proof -
  assume i: "- (2 ^ 63) \<le> i" "i < 2 ^ 63"
  have dig: "nl \<notin> set (natDigits n)" for n
    using natDigits_digits [of n] by (auto simp: isDigitA_def byte_def)
  have len: "length (natDigits n) \<le> 20" if "n \<le> 2 ^ 63" for n
    using natDigits_length [of 20 n] that by simp
  show ?thesis
    using i dig len [of "nat i"] len [of "nat (- i)"] by (auto simp: itoaInt_def nat_le_iff)
qed

end
