(* ===== verification/CmdAllow.thy ===== *)
theory CmdAllow
  imports GoStrings
begin

text \<open>
  The command classifier of the MCP bridge, \<open>internal/ssh/cmdallow.go\<close>: \<open>IsReadOnly\<close> decides
  which commands of an LLM run without an approval modal, \<open>IsDangerous\<close> which ones are held
  back even under the run-everything grant. Both split the line into shell segments, take the
  words of each and look at the leading one. The three regular expressions are written out as
  matchers over the bytes of the line. A slice expression of the source that can go out of
  bounds is a Go panic, the value \<open>None\<close> of \<open>stripPrivilegePrefix\<close> and \<open>IsDangerous\<close>.
\<close>

section \<open>Allowlists\<close>

definition readOnlyCommands :: "string list" where
  "readOnlyCommands = [
     ''cat'', ''ls'', ''head'', ''tail'', ''grep'', ''egrep'', ''fgrep'', ''rg'', ''find'',
     ''locate'', ''file'', ''stat'', ''readlink'', ''realpath'', ''wc'', ''sort'', ''uniq'',
     ''cut'', ''tr'', ''column'', ''nl'', ''journalctl'', ''dmesg'', ''uptime'', ''who'', ''w'',
     ''whoami'', ''id'', ''groups'', ''hostname'', ''uname'', ''date'', ''env'', ''printenv'',
     ''echo'', ''which'', ''type'', ''ps'', ''pstree'', ''top'', ''htop'', ''free'', ''df'',
     ''du'', ''lsblk'', ''lsof'', ''mount'', ''ss'', ''netstat'', ''ip'', ''ifconfig'',
     ''ping'', ''traceroute'', ''dig'', ''nslookup'', ''host'', ''getent'', ''lscpu'',
     ''lsmod'', ''lspci'', ''lsusb'', ''vmstat'', ''iostat'', ''sar'', ''cksum'', ''md5sum'',
     ''sha256sum'', ''tree'', ''basename'', ''dirname'', ''true'', ''false'', ''test'',
     ''sleep'', ''seq'', ''tac'', ''rev'', ''cmp'', ''diff'', ''comm'', ''strings'',
     ''hexdump'', ''od'', ''xxd'', ''tty'', ''pwd'', ''arch'', ''nproc'', ''cal'']"

definition subcommandReadOnly :: "(string \<times> string list) list" where
  "subcommandReadOnly = [
     (''systemctl'', [
        ''status'', ''show'', ''is-active'', ''is-enabled'', ''is-failed'', ''list-units'',
        ''list-unit-files'', ''list-timers'', ''cat'', ''get-default'']),
     (''docker'', [
        ''ps'', ''logs'', ''inspect'', ''images'', ''top'', ''stats'', ''port'', ''version'',
        ''info'', ''events'']),
     (''kubectl'', [
        ''get'', ''describe'', ''logs'', ''top'', ''explain'', ''version'', ''api-resources'']),
     (''git'', [
        ''status'', ''log'', ''diff'', ''show'', ''branch'', ''remote'', ''config'',
        ''rev-parse'', ''describe'', ''ls-files'', ''blame'', ''tag'', ''reflog'', ''shortlog'']),
     (''apt'', [
        ''list'', ''show'', ''policy'', ''search'']),
     (''apt-cache'', [
        ''policy'', ''show'', ''search'', ''showpkg'', ''stats'']),
     (''dpkg'', [
        ''-l'', ''-L'', ''-s'', ''-S'', ''--list'', ''--status'']),
     (''rpm'', [
        ''-q'', ''-qa'', ''-qi'', ''-ql'']),
     (''snap'', [
        ''list'', ''info'', ''version'']),
     (''pip'', [
        ''list'', ''show'', ''freeze'']),
     (''pip3'', [
        ''list'', ''show'', ''freeze'']),
     (''npm'', [
        ''ls'', ''list'', ''view'', ''outdated''])]"


section \<open>Argument tests\<close>

definition anyArg :: "string list \<Rightarrow> string list \<Rightarrow> bool" where
  "anyArg args want \<longleftrightarrow> list_ex (\<lambda>a. list_ex (\<lambda>w. a = w) want) args"

definition anyArgPrefix :: "string list \<Rightarrow> string list \<Rightarrow> bool" where
  "anyArgPrefix args want \<longleftrightarrow> list_ex (\<lambda>a. list_ex (\<lambda>w. HasPrefix a w) want) args"

text \<open>A short-option cluster: a dash, then a byte that is no dash.\<close>

definition shortCluster :: "string \<Rightarrow> bool" where
  "shortCluster a \<longleftrightarrow> (case a of c0 # c1 # _ \<Rightarrow> c0 = CHR ''-'' \<and> c1 \<noteq> CHR ''-'' | _ \<Rightarrow> False)"

definition hasShortFlag :: "string list \<Rightarrow> string \<Rightarrow> bool" where
  "hasShortFlag args letters \<longleftrightarrow>
     list_ex (\<lambda>a. shortCluster a \<and> list_ex (\<lambda>l. IndexByte (tl a) l \<noteq> None) letters) args"

definition onlyFlags :: "string list \<Rightarrow> string list \<Rightarrow> bool" where
  "onlyFlags args allowed \<longleftrightarrow> list_all (\<lambda>a. anyArg [a] allowed) args"

definition nonFlagArgs :: "string list \<Rightarrow> string list" where
  "nonFlagArgs fields = filter (\<lambda>f. \<not> HasPrefix f ''-'') fields"

definition gitDiffArgsReadOnly :: "string list \<Rightarrow> bool" where
  "gitDiffArgsReadOnly a \<longleftrightarrow> \<not> anyArgPrefix a [''--output'', ''--ext-diff'']"

text \<open>The checks of commands with a writing form; \<open>None\<close> is a command missing in the map.\<close>

definition argsReadOnly :: "string \<Rightarrow> (string list \<Rightarrow> bool) option" where
  "argsReadOnly lead = map_of [
     (''find'', \<lambda>a. \<not> anyArg a [''-delete'', ''-exec'', ''-execdir'', ''-ok'', ''-okdir'', ''-fprint'',
        ''-fprint0'', ''-fprintf'', ''-fls'']),
     (''sort'', \<lambda>a. \<not> hasShortFlag a ''o'' \<and> \<not> anyArgPrefix a [''--output'', ''--compress-program'']),
     (''date'', \<lambda>a. \<not> hasShortFlag a ''s'' \<and> \<not> anyArgPrefix a [''--set'']),
     (''hostname'', \<lambda>a. length (nonFlagArgs a) = 0 \<and> \<not> hasShortFlag a ''Fb''
        \<and> \<not> anyArgPrefix a [''--file'', ''--boot'']),
     (''dmesg'', \<lambda>a. \<not> hasShortFlag a ''cCDEn''
        \<and> \<not> anyArgPrefix a [''--clear'', ''--read-clear'', ''--console'']),
     (''journalctl'', \<lambda>a. \<not> anyArgPrefix a [''--vacuum'', ''--rotate'', ''--flush'', ''--sync'',
        ''--relinquish-var'', ''--smart-relinquish-var'', ''--setup-keys'', ''--update-catalog'']),
     (''ss'', \<lambda>a. \<not> hasShortFlag a ''K'' \<and> \<not> anyArgPrefix a [''--kill'']),
     (''file'', \<lambda>a. \<not> hasShortFlag a ''C'' \<and> \<not> anyArgPrefix a [''--compile'']),
     (''tree'', \<lambda>a. \<not> hasShortFlag a ''o''),
     (''sar'', \<lambda>a. \<not> hasShortFlag a ''o''),
     (''rg'', \<lambda>a. \<not> anyArgPrefix a [''--pre'']),
     (''uniq'', \<lambda>a. length (nonFlagArgs a) \<le> 1),
     (''xxd'', \<lambda>a. length (nonFlagArgs a) \<le> 1 \<and> \<not> hasShortFlag a ''r''
        \<and> \<not> anyArgPrefix a [''-revert'']),
     (''mount'', \<lambda>a. length (nonFlagArgs a) = 0 \<and> \<not> hasShortFlag a ''a''),
     (''ifconfig'', \<lambda>a. length (nonFlagArgs a) \<le> 1),
     (''env'', \<lambda>a. length a = 0),
     (''ip'', \<lambda>a. \<not> anyArg a [''add'', ''del'', ''delete'', ''set'', ''flush'', ''change'', ''replace'',
        ''append'', ''prepend'', ''exec'', ''-b'', ''-batch'', ''--batch'', ''-force'', ''save'',
        ''restore'', ''attach'', ''detach''])] lead"

definition subArgsReadOnly :: "string \<Rightarrow> string \<Rightarrow> (string list \<Rightarrow> bool) option" where
  "subArgsReadOnly lead verb = (if lead = ''git'' then map_of [
     (''config'', \<lambda>a. anyArg a [''--get'', ''--get-all'', ''--get-regexp'', ''--list'', ''-l'']
        \<and> \<not> anyArg a [''--unset'', ''--unset-all'', ''--add'', ''--replace-all'', ''--rename-section'',
             ''--remove-section'', ''--edit'', ''-e'']),
     (''branch'', \<lambda>a. onlyFlags a [''-a'', ''-r'', ''-l'', ''-v'', ''-vv'', ''--all'', ''--remotes'',
        ''--list'', ''--show-current'']),
     (''tag'', \<lambda>a. onlyFlags a [''-l'', ''--list'', ''-n'']),
     (''diff'', gitDiffArgsReadOnly),
     (''log'', gitDiffArgsReadOnly),
     (''show'', gitDiffArgsReadOnly),
     (''shortlog'', gitDiffArgsReadOnly),
     (''reflog'', \<lambda>a. gitDiffArgsReadOnly a
        \<and> (case a of [] \<Rightarrow> True
            | a0 # _ \<Rightarrow> HasPrefix a0 ''-'' \<or> a0 = ''show'' \<or> a0 = ''exists'')),
     (''remote'', \<lambda>a. (case a of [] \<Rightarrow> True
            | a0 # _ \<Rightarrow> onlyFlags a [''-v'', ''--verbose''] \<or> a0 = ''show'' \<or> a0 = ''get-url''))] verb
   else None)"

definition safeEnvPrefix :: "string \<Rightarrow> bool" where
  "safeEnvPrefix name \<longleftrightarrow>
     name \<in> set [''LANG'', ''LANGUAGE'', ''TZ'', ''TERM'', ''COLUMNS'', ''LINES'', ''NO_COLOR'']
     \<or> HasPrefix name ''LC_''"

definition mutationTokens :: "string list" where
  "mutationTokens = [
     ''sudo'', ''su'', ''doas'', ''rm'', ''rmdir'', ''mv'', ''cp'', ''dd'', ''tee'',
     ''install'', ''mkdir'', ''touch'', ''ln'', ''chmod'', ''chown'', ''chgrp'', ''truncate'',
     ''shred'', ''kill'', ''killall'', ''pkill'', ''reboot'', ''shutdown'', ''halt'',
     ''poweroff'', ''mkfs'', ''fdisk'', ''parted'', ''wipefs'', ''swapon'', ''swapoff'',
     ''modprobe'', ''insmod'', ''rmmod'', ''iptables'', ''nft'', ''route'', ''sysctl'',
     ''useradd'', ''userdel'', ''usermod'', ''passwd'', ''crontab'', ''at'', ''systemd-run'',
     ''curl'', ''wget'', ''nc'', ''ncat'', ''socat'', ''eval'', ''exec'', ''source'', ''bash'',
     ''sh'', ''zsh'', ''fish'', ''python'', ''python3'', ''perl'', ''ruby'', ''node'', ''php'',
     ''vi'', ''vim'', ''nano'', ''emacs'', ''ed'']"

section \<open>Segments and leading assignments\<close>

abbreviation nul :: char where "nul \<equiv> CHR 0x00"

definition segmentPairs :: "(string \<times> string) list" where
  "segmentPairs = [(''&&'', [nul]), (''||'', [nul]), (''|'', [nul]), ('';'', [nul]),
     ([cr, nl], [nul]), ([nl], [nul]), ([cr], [nul])]"

definition splitSegments :: "string \<Rightarrow> string list" where
  "splitSegments command =
     filter (\<lambda>p. p \<noteq> []) (map TrimSpace (SplitByte (Replace segmentPairs command) nul))"

definition isEnvNameByte :: "char \<Rightarrow> bool" where
  "isEnvNameByte c \<longleftrightarrow> c = CHR ''_'' \<or> isUpperA c \<or> isLowerA c \<or> isDigitA c"

definition isEnvAssignment :: "string \<Rightarrow> bool" where
  "isEnvAssignment tok = (case IndexByte tok CHR ''='' of
      None \<Rightarrow> False
    | Some eq \<Rightarrow> eq > 0 \<and> list_all isEnvNameByte (take eq tok))"

definition stripEnvAssignments :: "string list \<Rightarrow> string list" where
  "stripEnvAssignments fields = dropWhile isEnvAssignment fields"

definition segmentSubcommandOK :: "string list \<Rightarrow> string list \<Rightarrow> bool" where
  "segmentSubcommandOK args verbs = (case args of [] \<Rightarrow> False | a0 # _ \<Rightarrow> a0 \<in> set verbs)"

section \<open>IsReadOnly\<close>

text \<open>\<open>tok[:strings.IndexByte(tok, '=')]\<close> of an assignment.\<close>

definition envPrefixOK :: "string \<Rightarrow> bool" where
  "envPrefixOK tok = (case IndexByte tok CHR ''='' of
      None \<Rightarrow> False | Some eq \<Rightarrow> safeEnvPrefix (take eq tok))"

definition leadReadOnly :: "string list \<Rightarrow> string \<Rightarrow> string list \<Rightarrow> bool" where
  "leadReadOnly extraSet lead args =
     (if lead \<in> set mutationTokens then False
      else if lead \<in> set extraSet then True
      else if lead \<in> set readOnlyCommands
        then (case argsReadOnly lead of Some check \<Rightarrow> check args | None \<Rightarrow> True)
      else case map_of subcommandReadOnly lead of
          Some verbs \<Rightarrow>
            segmentSubcommandOK args verbs \<and>
            (case args of [] \<Rightarrow> False
              | a0 # rest \<Rightarrow> (case subArgsReadOnly lead a0 of Some check \<Rightarrow> check rest | None \<Rightarrow> True))
        | None \<Rightarrow> False)"

definition segmentReadOnly :: "string list \<Rightarrow> string \<Rightarrow> bool" where
  "segmentReadOnly extraSet seg =
     (let fields = Fields seg; cmd = stripEnvAssignments fields in
      if fields = [] then False
      else if cmd = [] then False
      else if \<not> list_all envPrefixOK (take (length fields - length cmd) fields) then False
      else leadReadOnly extraSet (hd cmd) (tl cmd))"

definition opaqueMarkers :: "string list" where
  "opaqueMarkers = [''>'', ''>>'', ''$('', ''${'', [backtick], ''&'', ''<('', ''>('']"

definition IsReadOnly :: "string \<Rightarrow> string list \<Rightarrow> bool" where
  "IsReadOnly command0 extra =
     (let command = TrimSpace command0 in
      if command = [] then False
      else if list_ex (\<lambda>bad. Contains command bad) opaqueMarkers then False
      else
        let extraSet = filter (\<lambda>e. e \<noteq> []) (map TrimSpace extra);
            segments = splitSegments command
        in if segments = [] then False
           else list_all (segmentReadOnly extraSet) segments)"

section \<open>IsDangerous\<close>

text \<open>The byte class \<open>\s\<close> of Go's regular expressions.\<close>

definition reSpace :: "char \<Rightarrow> bool" where
  "reSpace c \<longleftrightarrow> c = tab \<or> c = nl \<or> c = CHR 0x0C \<or> c = cr \<or> c = CHR '' ''"

text \<open>\<open>sd[a-z]|nvme\d|vd[a-z]|hd[a-z]|mmcblk\d|xvd[a-z]\<close> at the head of a string.\<close>

definition blockDevice :: "string \<Rightarrow> bool" where
  "blockDevice s \<longleftrightarrow> list_ex (\<lambda>(p, cls). HasPrefix s p \<and>
       (case drop (length p) s of [] \<Rightarrow> False | c # _ \<Rightarrow> cls c))
     [(''sd'', isLowerA), (''nvme'', isDigitA), (''vd'', isLowerA), (''hd'', isLowerA),
      (''mmcblk'', isDigitA), (''xvd'', isLowerA)]"

definition devicePath :: "string \<Rightarrow> bool" where
  "devicePath s \<longleftrightarrow> HasPrefix s ''/dev/'' \<and> blockDevice (drop 5 s)"

text \<open>\<open>>>?\s*/dev/(...)\<close> at the head, then anywhere in the line.\<close>

definition redirectHere :: "string \<Rightarrow> bool" where
  "redirectHere s = (case s of
      c # r \<Rightarrow> c = CHR ''>'' \<and>
        (devicePath (dropWhile reSpace r) \<or>
         (case r of d # r' \<Rightarrow> d = CHR ''>'' \<and> devicePath (dropWhile reSpace r') | [] \<Rightarrow> False))
    | [] \<Rightarrow> False)"

fun dangerBlockDeviceRedirect :: "string \<Rightarrow> bool" where
  "dangerBlockDeviceRedirect [] = False"
| "dangerBlockDeviceRedirect (c # r) = (redirectHere (c # r) \<or> dangerBlockDeviceRedirect r)"

text \<open>\<open>skipThen c s\<close>: the byte \<open>c\<close> after any \<open>\s*\<close>, and what follows it.\<close>

definition skipThen :: "char \<Rightarrow> string \<Rightarrow> string option" where
  "skipThen c s = (case dropWhile reSpace s of
      d # r \<Rightarrow> if d = c then Some r else None | [] \<Rightarrow> None)"

text \<open>\<open>:\s*\|\s*:\s*&\<close> at the head, and \<open>.*\<close> before it (\<open>.\<close> matches no newline).\<close>

definition forkTail :: "string \<Rightarrow> bool" where
  "forkTail s = (case s of
      c # r \<Rightarrow> c = CHR '':'' \<and>
        Option.bind (Option.bind (skipThen CHR ''|'' r) (skipThen CHR '':'')) (skipThen CHR ''&'') \<noteq> None
    | [] \<Rightarrow> False)"

fun forkBody :: "string \<Rightarrow> bool" where
  "forkBody [] = False"
| "forkBody (c # r) = (forkTail (c # r) \<or> (c \<noteq> nl \<and> forkBody r))"

definition forkHere :: "string \<Rightarrow> bool" where
  "forkHere s = (case s of
      c # r \<Rightarrow> c = CHR '':'' \<and>
        (case Option.bind (Option.bind (skipThen CHR ''('' r) (skipThen CHR '')''))
                (skipThen CHR ''{'') of
           Some r' \<Rightarrow> forkBody r' | None \<Rightarrow> False)
    | [] \<Rightarrow> False)"

fun dangerForkBomb :: "string \<Rightarrow> bool" where
  "dangerForkBomb [] = False"
| "dangerForkBomb (c # r) = (forkHere (c # r) \<or> dangerForkBomb r)"

text \<open>\<open>\bof=/dev/(...)\<close>; \<open>prev\<close> says whether the byte before is a word byte.\<close>

fun ddToDevice :: "bool \<Rightarrow> string \<Rightarrow> bool" where
  "ddToDevice prev [] = False"
| "ddToDevice prev (c # r) =
     ((\<not> prev \<and> HasPrefix (c # r) ''of='' \<and> devicePath (drop 3 (c # r)))
      \<or> ddToDevice (isEnvNameByte c) r)"

definition dangerDDToDevice :: "string \<Rightarrow> bool" where
  "dangerDDToDevice s = ddToDevice False s"

definition sysDirs :: "string list" where
  "sysDirs = [''/etc'', ''/usr'', ''/var'', ''/bin'', ''/sbin'', ''/boot'', ''/lib'', ''/lib64'',
     ''/root'', ''/home'', ''/opt'', ''/sys'', ''/proc'', ''/dev'', ''/srv'']"

definition rootishTarget :: "string \<Rightarrow> bool" where
  "rootishTarget tok =
     (let t = TrimRight (TrimSpace tok) ''/'' in
      if t \<in> set [[], ''/'', ''/*'', ''*'', ''~'', ''~/*'', ''$HOME'', ''${HOME}'', ''.'', ''..'', ''/.'']
        then True
      else if t \<in> set sysDirs then True
      else HasSuffix t ''/*'' \<and> TrimSuffix t ''/*'' \<in> set sysDirs)"

definition hasRecursiveFlag :: "string list \<Rightarrow> bool" where
  "hasRecursiveFlag fields \<longleftrightarrow>
     list_ex (\<lambda>f. f = ''--recursive'' \<or> f = ''--recursive=true'' \<or>
        shortCluster f \<and> ContainsAny (tl f) ''rR'') fields"

text \<open>The index of the wrapped command after \<open>sudo\<close>'s flags; it can end past the list.\<close>

fun privilegeIndex :: "string list \<Rightarrow> nat \<Rightarrow> nat" where
  "privilegeIndex [] i = i"
| "privilegeIndex (tok # toks) i =
     (if HasPrefix tok ''-'' then
        (if tok \<in> set [''-u'', ''-g'', ''-p'', ''-C'', ''-h'']
         then (case toks of [] \<Rightarrow> i + 2 | _ # rest \<Rightarrow> privilegeIndex rest (i + 2))
         else privilegeIndex toks (i + 1))
      else if isEnvAssignment tok then privilegeIndex toks (i + 1)
      else i)"

definition stripPrivilegePrefix :: "string list \<Rightarrow> string list option" where
  "stripPrivilegePrefix cmd = (case cmd of
      [] \<Rightarrow> Some []
    | c0 # rest \<Rightarrow>
        if c0 \<noteq> ''sudo'' \<and> c0 \<noteq> ''doas'' then Some cmd
        else let i = privilegeIndex rest 1 in
             if i \<le> length cmd then Some (drop i cmd) else None)"

definition dangerToken :: "string \<Rightarrow> string" where
  "dangerToken tok =
     (let t = (if length tok \<ge> 2 \<and> (hd tok = dquote \<or> hd tok = squote) \<and> last tok = hd tok
               then butlast (tl tok) else tok)
      in TrimPrefix t [backslash])"

text \<open>\<open>path.Base\<close>.\<close>

definition pathBase :: "string \<Rightarrow> string" where
  "pathBase p =
     (if p = [] then ''.''
      else let t = TrimRight p ''/'';
               b = rev (takeWhile (\<lambda>c. c \<noteq> CHR ''/'') (rev t))
           in if b = [] then ''/'' else b)"

definition dangerousCommand :: "string \<Rightarrow> string list \<Rightarrow> bool" where
  "dangerousCommand lead args =
     (if lead = ''rm'' then
        hasRecursiveFlag args \<and> list_ex rootishTarget (nonFlagArgs args)
      else if lead = ''chmod'' \<or> lead = ''chown'' \<or> lead = ''chgrp'' then
        hasRecursiveFlag args \<and> list_ex rootishTarget (nonFlagArgs args) \<or>
        list_ex (\<lambda>a. a = ''000'' \<and> hasRecursiveFlag args) args
      else if HasPrefix lead ''mkfs'' then True
      else if lead \<in> set [''wipefs'', ''blkdiscard'', ''fdisk'', ''parted'', ''sgdisk'', ''shred'',
                          ''mkswap''] then True
      else if lead = ''swapoff'' then list_ex (\<lambda>a. a = ''-a'' \<or> a = ''--all'') args
      else if lead \<in> set [''shutdown'', ''reboot'', ''halt'', ''poweroff''] then True
      else if lead = ''init'' \<or> lead = ''telinit'' then list_ex (\<lambda>a. a = ''0'' \<or> a = ''6'') args
      else False)"

text \<open>Every position of the words may start the command.\<close>

fun anyPositionDangerous :: "string list \<Rightarrow> bool" where
  "anyPositionDangerous [] = False"
| "anyPositionDangerous (t # ts) =
     (dangerousCommand (pathBase t) ts \<or> anyPositionDangerous ts)"

definition segmentDangerous :: "string \<Rightarrow> bool option" where
  "segmentDangerous seg =
     (let fields = Fields seg in
      if fields = [] then Some False
      else case stripPrivilegePrefix (stripEnvAssignments fields) of
          None \<Rightarrow> None
        | Some cmd \<Rightarrow> Some (anyPositionDangerous (map dangerToken cmd)))"

text \<open>The loop over the segments returns at the first dangerous one; \<open>None\<close> is a panic.\<close>

fun anySegmentDangerous :: "string list \<Rightarrow> bool option" where
  "anySegmentDangerous [] = Some False"
| "anySegmentDangerous (seg # segs) = (case segmentDangerous seg of
      None \<Rightarrow> None
    | Some True \<Rightarrow> Some True
    | Some False \<Rightarrow> anySegmentDangerous segs)"

definition IsDangerous :: "string \<Rightarrow> bool option" where
  "IsDangerous command0 =
     (let command = TrimSpace command0 in
      if command = [] then Some False
      else if dangerBlockDeviceRedirect command \<or> dangerForkBomb command \<or> dangerDDToDevice command
        then Some True
      else anySegmentDangerous (splitSegments command))"

section \<open>Segments of composed lines\<close>

text \<open>
  The segments of a sequence \<open>a ; b\<close>, \<open>a | b\<close> or of two lines are the segments of the parts. The
  side condition keeps a two-byte operator from forming where the parts meet.
\<close>

definition cmdPart :: "string \<Rightarrow> bool" where
  "cmdPart a \<longleftrightarrow> a \<noteq> [] \<and> visible (hd a) \<and> visible (last a) \<and> hd a \<noteq> CHR ''|'' \<and> last a \<noteq> CHR ''|''"

lemma cmdPart_TrimSpace: "cmdPart a \<Longrightarrow> TrimSpace a = a"
  by (simp add: cmdPart_def TrimSpace_visible)

lemma not_visible_ctl [simp]: "\<not> visible nl" "\<not> visible cr" "\<not> visible nul" "\<not> visible CHR '' ''"
  by (simp_all add: visible_def byte_def)

lemma findRepl_segment_straddle:
  assumes "u \<noteq> []" "visible (last u)" "last u \<noteq> CHR ''|'' \<or> hd (r @ [nul]) \<noteq> CHR ''|''"
    "last u \<noteq> CHR ''&'' \<or> hd (r @ [nul]) \<noteq> CHR ''&''"
  shows "findRepl segmentPairs (u @ r) = findRepl segmentPairs u"
proof (cases u)
  case (Cons c v)
  show ?thesis
  proof (cases v)
    case Nil
    then have "u = [c]" "visible c" "c \<noteq> cr" using Cons assms by auto
    then show ?thesis using assms
      by (cases r) (auto simp: segmentPairs_def)
  qed (simp add: Cons segmentPairs_def)
qed (use assms in simp)

lemma Replace_segments_sep:
  assumes "sep = CHR '';'' \<or> sep = nl \<or> sep = CHR ''|'' \<and> hd (b @ [nul]) \<noteq> CHR ''|''"
    "a \<noteq> []" "visible (last a)" "last a \<noteq> CHR ''|''"
  shows "Replace segmentPairs (a @ sep # b) = Replace segmentPairs a @ nul # Replace segmentPairs b"
proof -
  have "findRepl segmentPairs (u @ sep # b) = findRepl segmentPairs u"
    if "u \<noteq> []" "suffix u a" for u
    using that assms
    by (intro findRepl_segment_straddle) (auto simp: suffix_def)
  then have "Replace segmentPairs (a @ sep # b) =
      Replace segmentPairs a @ Replace segmentPairs (sep # b)"
    by (rule Replace_append)
  moreover have "\<exists>old. findRepl segmentPairs (sep # b) = Some (old, [nul]) \<and> length old = 1"
    using assms(1) by (cases b) (auto simp: segmentPairs_def)
  ultimately show ?thesis
    by (auto simp: go_simps)
qed

lemma splitSegments_sep:
  assumes "sep = CHR '';'' \<or> sep = nl \<or> sep = CHR ''|''" "cmdPart a" "cmdPart b"
  shows "splitSegments (a @ sep # b) = splitSegments a @ splitSegments b"
  using assms Replace_segments_sep [of sep b a]
  by (auto simp: splitSegments_def SplitByte_append cmdPart_def)

text \<open>What a splitter of this kind gives its users: tests over all or some segments distribute.\<close>

locale segment_splitter =
  fixes split :: "string \<Rightarrow> string list" and sep :: char and part :: "string \<Rightarrow> bool"
  assumes split_sep: "part a \<Longrightarrow> part b \<Longrightarrow> split (a @ sep # b) = split a @ split b"
begin

lemma all_sep: "part a \<Longrightarrow> part b \<Longrightarrow>
    list_all P (split (a @ sep # b)) \<longleftrightarrow> list_all P (split a) \<and> list_all P (split b)"
  by (simp add: split_sep)

lemma nonempty_sep: "part a \<Longrightarrow> part b \<Longrightarrow>
    split (a @ sep # b) = [] \<longleftrightarrow> split a = [] \<and> split b = []"
  by (simp add: split_sep)

lemma last_part_mem: "part a \<Longrightarrow> part b \<Longrightarrow> x \<in> set (split b) \<Longrightarrow> x \<in> set (split (a @ sep # b))"
  by (simp add: split_sep)

end

interpretation semi: segment_splitter splitSegments "CHR '';''" cmdPart
  by unfold_locales (simp add: splitSegments_sep)

interpretation newline: segment_splitter splitSegments nl cmdPart
  by unfold_locales (simp add: splitSegments_sep)

interpretation pipe: segment_splitter splitSegments "CHR ''|''" cmdPart
  by unfold_locales (simp add: splitSegments_sep)

lemma Contains_short_sep:
  assumes "length p \<le> 2" "sep \<notin> set p" "p \<noteq> []"
  shows "Contains (a @ sep # b) p \<longleftrightarrow> Contains a p \<or> Contains b p"
proof -
  have "\<not> (\<exists>p1 p2. p = p1 @ p2 \<and> p2 \<noteq> [] \<and> prefix p2 (sep # b))"
    using assms(2) by (auto simp: prefix_Cons)
  then show ?thesis using assms
    by (auto simp: Contains_iff sublist_append sublist_Cons_right prefix_Cons)
qed

lemma opaqueMarkers_sep:
  assumes "sep = CHR '';'' \<or> sep = nl \<or> sep = CHR ''|''"
  shows "list_ex (Contains (a @ sep # b)) opaqueMarkers \<longleftrightarrow>
    list_ex (Contains a) opaqueMarkers \<or> list_ex (Contains b) opaqueMarkers"
  using assms by (auto simp: opaqueMarkers_def Contains_short_sep)

lemma cmdPart_sep: "cmdPart a \<Longrightarrow> cmdPart b \<Longrightarrow> cmdPart (a @ sep # b)"
  by (auto simp: cmdPart_def)

lemma splitSegments_nonempty_or:
  "IsReadOnly c extra \<Longrightarrow> splitSegments (TrimSpace c) \<noteq> []"
  by (auto simp: IsReadOnly_def Let_def split: if_splits)

section \<open>Properties of IsReadOnly\<close>

lemma envPrefix_take:
  "take (length fields - length (stripEnvAssignments fields)) fields = takeWhile isEnvAssignment fields"
proof -
  have "length fields = length (takeWhile isEnvAssignment fields) + length (stripEnvAssignments fields)"
    by (metis length_append stripEnvAssignments_def takeWhile_dropWhile_id)
  then show ?thesis
    by (metis diff_add_inverse2 takeWhile_eq_take)
qed

text \<open>The contract of an auto-run segment.\<close>

definition vettedSegment :: "string list \<Rightarrow> string \<Rightarrow> bool" where
  "vettedSegment allowed seg \<longleftrightarrow> (\<exists>env lead args.
     Fields seg = env @ lead # args \<and>
     (\<forall>t \<in> set env. isEnvAssignment t \<and> envPrefixOK t) \<and> \<not> isEnvAssignment lead \<and>
     lead \<notin> set mutationTokens \<and>
     (lead \<in> set allowed \<or>
      lead \<in> set readOnlyCommands \<and> (\<forall>check. argsReadOnly lead = Some check \<longrightarrow> check args) \<or>
      (\<exists>verbs verb rest. map_of subcommandReadOnly lead = Some verbs \<and> args = verb # rest \<and>
         verb \<in> set verbs \<and> (\<forall>check. subArgsReadOnly lead verb = Some check \<longrightarrow> check rest))))"

lemma vettedSegment_mono:
  "vettedSegment A seg \<Longrightarrow> set A \<subseteq> set B \<Longrightarrow> vettedSegment B seg"
  unfolding vettedSegment_def by blast

lemma leadReadOnlyD:
  assumes "leadReadOnly extraSet lead args"
  shows "lead \<notin> set mutationTokens \<and>
     (lead \<in> set extraSet \<or>
      lead \<in> set readOnlyCommands \<and> (\<forall>check. argsReadOnly lead = Some check \<longrightarrow> check args) \<or>
      (\<exists>verbs verb rest. map_of subcommandReadOnly lead = Some verbs \<and> args = verb # rest \<and>
         verb \<in> set verbs \<and> (\<forall>check. subArgsReadOnly lead verb = Some check \<longrightarrow> check rest)))"
  using assms
  by (auto simp: leadReadOnly_def segmentSubcommandOK_def
      split: if_splits option.splits list.splits)

lemma segmentReadOnly_vetted:
  assumes "segmentReadOnly extraSet seg"
  shows "vettedSegment extraSet seg"
proof -
  let ?f = "Fields seg" and ?cmd = "stripEnvAssignments (Fields seg)"
  let ?env = "takeWhile isEnvAssignment ?f"
  from assms have ne: "?cmd \<noteq> []" and env: "list_all envPrefixOK ?env"
    and lead: "leadReadOnly extraSet (hd ?cmd) (tl ?cmd)"
    by (auto simp: segmentReadOnly_def Let_def envPrefix_take split: if_splits)
  have split: "?f = ?env @ hd ?cmd # tl ?cmd"
    using ne by (simp add: stripEnvAssignments_def)
  have hd: "\<not> isEnvAssignment (hd ?cmd)"
    using ne by (simp add: stripEnvAssignments_def hd_dropWhile)
  have all: "\<forall>t \<in> set ?env. isEnvAssignment t \<and> envPrefixOK t"
    using env by (auto simp: list_all_iff dest: set_takeWhileD)
  show ?thesis
    unfolding vettedSegment_def
    using split hd all leadReadOnlyD [OF lead] by blast
qed



text \<open>C0: The classifier is compositional: a sequence \<open>a ; b\<close>, a pipeline \<open>a | b\<close> or two lines
  run without approval exactly when both parts do.\<close>

theorem readonly_sequence:
  assumes "sep = CHR '';'' \<or> sep = nl \<or> sep = CHR ''|''"
    and "cmdPart a" "cmdPart b" "splitSegments a \<noteq> []" "splitSegments b \<noteq> []"
  shows "IsReadOnly (a @ sep # b) extra \<longleftrightarrow> IsReadOnly a extra \<and> IsReadOnly b extra"
proof -
  have trim: "TrimSpace a = a" "TrimSpace b = b" "TrimSpace (a @ sep # b) = a @ sep # b"
    using assms cmdPart_sep cmdPart_TrimSpace by blast+
  have ne: "a \<noteq> []" "b \<noteq> []" using assms(2,3) by (auto simp: cmdPart_def)
  have split: "splitSegments (a @ sep # b) = splitSegments a @ splitSegments b"
    using assms(1) semi.split_sep newline.split_sep pipe.split_sep assms(2,3) by blast
  show ?thesis
    unfolding IsReadOnly_def Let_def trim opaqueMarkers_sep [OF assms(1)] split
    using ne assms(4,5) by auto
qed

theorem readonly_sequence_witness:
  "IsReadOnly ''ls -l|grep x'' [] = (IsReadOnly ''ls -l'' [] \<and> IsReadOnly ''grep x'' [])
   \<and> IsReadOnly ''ls -l'' []"
proof -
  have "cmdPart ''ls -l'' \<and> cmdPart ''grep x'' \<and> splitSegments ''ls -l'' \<noteq> [] \<and> splitSegments ''grep x'' \<noteq> []"
    by code_simp
  moreover have "IsReadOnly ''ls -l'' []" by code_simp
  ultimately show ?thesis
    using readonly_sequence [of "CHR ''|''" "''ls -l''" "''grep x''" "[]"] by simp
qed

text \<open>Entries the user adds to the allowlist only widen it: a command that runs without
  approval still does when more commands are allowed.\<close>

lemma readonly_extra_mono:
  assumes "set extra \<subseteq> set extra'" "IsReadOnly command extra"
  shows "IsReadOnly command extra'"
proof -
  let ?e = "filter (\<lambda>e. e \<noteq> []) (map TrimSpace extra)"
  let ?e' = "filter (\<lambda>e. e \<noteq> []) (map TrimSpace extra')"
  have sub: "set ?e \<subseteq> set ?e'" using assms(1) by auto
  have lead: "leadReadOnly ?e' l args" if "leadReadOnly ?e l args" for l args
    using that sub by (auto simp: leadReadOnly_def split: if_splits)
  have "segmentReadOnly ?e' seg" if "segmentReadOnly ?e seg" for seg
    using that lead by (auto simp: segmentReadOnly_def Let_def split: if_splits)
  then show ?thesis
    using assms(2) by (auto simp: IsReadOnly_def Let_def list_all_iff split: if_splits)
qed

theorem readonly_extra_mono_witness: "IsReadOnly ''foo; ls'' [''bar'', '' foo'']"
proof -
  have "IsReadOnly ''foo; ls'' ['' foo'']" by code_simp
  then show ?thesis by (rule readonly_extra_mono [rotated]) simp
qed

section \<open>Properties of IsDangerous\<close>

text \<open>A shell word without white space, quoting-free of segment operators.\<close>

definition shellWord :: "string \<Rightarrow> bool" where
  "shellWord w \<longleftrightarrow> plainWord w \<and> set w \<inter> {CHR ''|'', CHR '';'', CHR ''&''} = {}"

lemma Join_Cons: "ws \<noteq> [] \<Longrightarrow> Join (w # ws) sep = w @ sep @ Join ws sep"
  by (cases ws) simp_all

lemma hd_Join: "w \<noteq> [] \<Longrightarrow> hd (Join (w # ws) sep) = hd w"
  by (cases ws) simp_all

lemma Join_not_Nil: "w \<noteq> [] \<Longrightarrow> Join (w # ws) sep \<noteq> []"
  by (cases ws) simp_all

lemma last_Join: "ws \<noteq> [] \<Longrightarrow> list_all plainWord ws \<Longrightarrow> last (Join ws '' '') = last (last ws)"
proof (induction ws)
  case (Cons w ws)
  show ?case
  proof (cases ws)
    case Nil
    then show ?thesis by simp
  next
    case (Cons v vs)
    then have "Join ws '' '' \<noteq> []" using Cons.prems by (simp add: Join_not_Nil plainWord_def)
    then show ?thesis using Cons Cons.IH Cons.prems by (simp add: Join_Cons)
  qed
qed simp

lemma plainWord_ends: "plainWord w \<Longrightarrow> visible (hd w) \<and> visible (last w)"
  by (cases w) (auto simp: plainWord_def list_all_iff)

lemma TrimSpace_Join: "list_all plainWord ws \<Longrightarrow> TrimSpace (Join ws '' '') = Join ws '' ''"
proof (cases ws)
  case (Cons w vs)
  assume *: "list_all plainWord ws"
  then have "plainWord w" "plainWord (last ws)"
    using Cons by (auto simp: list_all_iff)
  then have "w \<noteq> []" "visible (hd w)" "visible (last (last ws))"
    using plainWord_ends by (auto simp: plainWord_def)
  then show ?thesis
    using * Cons by (intro TrimSpace_visible) (simp add: hd_Join last_Join)
qed (simp add: TrimSpace_visible)

lemma splitSegments_Join:
  assumes "list_all shellWord ws" "ws \<noteq> []"
  shows "splitSegments (Join ws '' '') = [Join ws '' '']"
proof -
  let ?s = "Join ws '' ''"
  have plain: "list_all plainWord ws" using assms(1) by (auto simp: list_all_iff shellWord_def)
  have byte: "c \<notin> {CHR ''|'', CHR '';'', CHR ''&'', nul, nl, cr}" if "c \<in> set ?s" for c
  proof -
    from that set_Join [of ws "'' ''"] consider w where "w \<in> set ws" "c \<in> set w" | "c = CHR '' ''"
      by auto
    then show ?thesis
    proof cases
      case 1
      then have "shellWord w" using assms(1) by (simp add: list_all_iff)
      then have "visible c" "c \<notin> {CHR ''|'', CHR '';'', CHR ''&''}"
        using 1 by (auto simp: shellWord_def plainWord_def list_all_iff)
      then show ?thesis by auto
    qed simp
  qed
  then have set: "set ?s \<inter> {CHR ''|'', CHR '';'', CHR ''&'', nul, nl, cr} = {}"
    by blast
  then have "Replace segmentPairs ?s = ?s"
    by (intro Replace_id) (auto simp: segmentPairs_def)
  moreover have "SplitByte ?s nul = [?s]"
    using set by (intro SplitByte_no_sep) auto
  moreover have "?s \<noteq> []" using assms by (cases ws) (auto simp: Join_not_Nil shellWord_def plainWord_def)
  ultimately show ?thesis
    using plain by (simp add: splitSegments_def TrimSpace_Join)
qed

lemma anyPositionDangerous_append:
  "dangerousCommand (pathBase t) ts \<Longrightarrow> anyPositionDangerous (pre @ t # ts)"
  by (induction pre) simp_all



text \<open>Where the index of the wrapped command can leave the list.\<close>

definition argFlags :: "string list" where
  "argFlags = [''-u'', ''-g'', ''-p'', ''-C'', ''-h'']"

lemma privilegeIndex_bound:
  "privilegeIndex toks i \<le> Suc (i + length toks) \<and>
   (privilegeIndex toks i = Suc (i + length toks) \<longrightarrow> toks \<noteq> [] \<and> last toks \<in> set argFlags)"
proof (induction toks i rule: privilegeIndex.induct)
  case (2 tok toks i)
  show ?case
    using 2 by (cases toks) (auto simp: argFlags_def)
qed simp

lemma stripPrivilegePrefix_None_iff:
  "stripPrivilegePrefix cmd = None \<longleftrightarrow>
     (\<exists>c0 rest. cmd = c0 # rest \<and> (c0 = ''sudo'' \<or> c0 = ''doas'') \<and>
        privilegeIndex rest 1 = length rest + 2)"
proof (cases cmd)
  case (Cons c0 rest)
  then show ?thesis
    using privilegeIndex_bound [of rest 1] by (auto simp: stripPrivilegePrefix_def Let_def)
qed (simp add: stripPrivilegePrefix_def)

lemma anySegmentDangerous_None:
  "anySegmentDangerous segs = None \<Longrightarrow> \<exists>seg \<in> set segs. segmentDangerous seg = None"
  by (induction segs rule: anySegmentDangerous.induct) (auto split: option.splits bool.splits)

text \<open>C0: The classifier's only runtime failure: it indexes past the end of a segment that runs
  \<open>sudo\<close> or \<open>doas\<close> and ends in a flag that takes an argument.\<close>

theorem dangerous_panics_only_on_cut_sudo:
  assumes "IsDangerous command = None"
  shows "\<exists>seg \<in> set (splitSegments (TrimSpace command)). \<exists>w rest.
    stripEnvAssignments (Fields seg) = w # rest \<and> w \<in> {''sudo'', ''doas''} \<and>
    rest \<noteq> [] \<and> last rest \<in> set argFlags"
proof -
  from assms have "anySegmentDangerous (splitSegments (TrimSpace command)) = None"
    by (auto simp: IsDangerous_def Let_def split: if_splits)
  then obtain seg where seg: "seg \<in> set (splitSegments (TrimSpace command))"
    "segmentDangerous seg = None"
    using anySegmentDangerous_None by blast
  then have "stripPrivilegePrefix (stripEnvAssignments (Fields seg)) = None"
    by (auto simp: segmentDangerous_def Let_def split: if_splits option.splits)
  then show ?thesis
    using seg(1) privilegeIndex_bound [of _ 1] unfolding stripPrivilegePrefix_None_iff
    by fastforce
qed

theorem dangerous_panics_only_on_cut_sudo_witness:
  "IsDangerous ''LANG=C sudo -n -u'' = None \<and>
   (\<exists>seg \<in> set (splitSegments (TrimSpace ''LANG=C sudo -n -u'')). \<exists>w rest.
      stripEnvAssignments (Fields seg) = w # rest \<and> w \<in> {''sudo'', ''doas''} \<and>
      rest \<noteq> [] \<and> last rest \<in> set argFlags)"
proof -
  have "IsDangerous ''LANG=C sudo -n -u'' = None" by code_simp
  then show ?thesis using dangerous_panics_only_on_cut_sudo by blast
qed

text \<open>C0: The argument checks compare flag names as written, so an abbreviated long option, an
  abbreviated \<open>ip\<close> verb and the clock operand of \<open>date\<close> pass for reads although the tools take
  them as writes.\<close>

theorem readonly_abbreviation_gap:
  "IsReadOnly ''sort --out=/etc/hosts in'' [] \<and> \<not> IsReadOnly ''sort --output=/etc/hosts in'' [] \<and>
   IsReadOnly ''ip a a 10.0.0.1/24 dev eth0'' [] \<and> \<not> IsReadOnly ''ip a add 10.0.0.1/24 dev eth0'' [] \<and>
   IsReadOnly ''date 010203042025'' [] \<and> \<not> IsReadOnly ''date -s 010203042025'' []"
  by code_simp

end
