(* ===== verification/StoreModels.thy ===== *)
theory StoreModels
  imports GoStrings "HOL-Library.Word"
begin

text \<open>
  The stored data the resolver works on, \<open>internal/store/models.go\<close>: folders and connections of
  the tree, the settings a folder or a connection may set, one entry of a database list, the
  chain of jump hosts, and the merged settings handed to the SSH layer. A pointer field is an
  \<open>option\<close> (nil: not set here, inherit), a Go map that may be nil an optional HOL map, and an
  unsigned integer keeps its width. The fields carry the Go names after a letter for the struct.
\<close>

section \<open>Jump hosts\<close>

text \<open>One hop; \<open>Via\<close> is the next hop, a finite list as it comes from JSON.\<close>

datatype jumpHostSpec = JumpHostSpec
  (jHostname: string) (jPort: "16 word option") (jUsername: "string option")
  (jAuthRef: "string option") (jConnectionID: "string option") (jVia: "jumpHostSpec option")
  (jName: string)

record jumpHostOverride =
  oKind :: "string"
  oChain :: "jumpHostSpec option"

section \<open>Settings\<close>

record dbTarget =
  tID :: "string"
  tName :: "string"
  tEngine :: "string option"
  tAddr :: "string option"
  tDatabase :: "string option"
  tCredentialRef :: "string option"
  tReadOnly :: "bool option"
  tTLS :: "string option"
  tUseTunnel :: "bool option"
  tInTree :: "bool option"
  tOverride :: "bool"

record inheritableSettings =
  iUsername :: "string option"
  iPort :: "16 word option"
  iAuthRef :: "string option"
  iOTPRef :: "string option"
  iJumpHost :: "jumpHostOverride option"
  iSSHOptions :: "(string \<rightharpoonup> string) option"
  iEnvVars :: "(string \<rightharpoonup> string) option"
  iColorTag :: "string option"
  iBroadcastGroupID :: "string option"
  iKeepaliveInterval :: "32 word option"
  iTerminalType :: "string option"
  iInitialCommand :: "string option"
  iInitialCommandLineDelayMs :: "32 word option"
  iAutoReconnect :: "bool option"
  iVerbose :: "bool option"
  iProbeLiveness :: "bool option"
  iVncEnabled :: "bool option"
  iVncPort :: "16 word option"
  iVncUseTunnel :: "bool option"
  iVncDefault :: "bool option"
  iNetworkProfileID :: "string option"
  iTunnelOnly :: "bool option"
  iTunnelAutostart :: "bool option"
  iKafkaEnabled :: "bool option"
  iKafkaBootstrap :: "string option"
  iKafkaUseTunnel :: "bool option"
  iKafkaDefault :: "bool option"
  iKafkaReadOnly :: "bool option"
  iKafkaTLS :: "bool option"
  iKafkaTLSSkipVerify :: "bool option"
  iKafkaSASL :: "string option"
  iKafkaCredentialRef :: "string option"
  iDbEnabled :: "bool option"
  iDbEngine :: "string option"
  iDbAddr :: "string option"
  iDbName :: "string option"
  iDbUseTunnel :: "bool option"
  iDbDefault :: "bool option"
  iDbReadOnly :: "bool option"
  iDbQueryTimeout :: "32 word option"
  iDbTLS :: "string option"
  iDbCredentialRef :: "string option"
  iDbLabel :: "string option"
  iDbInTree :: "bool option"
  iDbDefaultTarget :: "string option"
  iDbTargets :: "dbTarget list"
  iSensitive :: "bool option"

text \<open>The zero value \<open>InheritableSettings{}\<close>.\<close>

definition noSettings :: inheritableSettings where
  "noSettings = \<lparr>
     iUsername = None, iPort = None, iAuthRef = None, iOTPRef = None, iJumpHost = None,
     iSSHOptions = None, iEnvVars = None, iColorTag = None, iBroadcastGroupID = None,
     iKeepaliveInterval = None, iTerminalType = None, iInitialCommand = None,
     iInitialCommandLineDelayMs = None, iAutoReconnect = None, iVerbose = None,
     iProbeLiveness = None, iVncEnabled = None, iVncPort = None, iVncUseTunnel = None,
     iVncDefault = None, iNetworkProfileID = None, iTunnelOnly = None, iTunnelAutostart = None,
     iKafkaEnabled = None, iKafkaBootstrap = None, iKafkaUseTunnel = None, iKafkaDefault = None,
     iKafkaReadOnly = None, iKafkaTLS = None, iKafkaTLSSkipVerify = None, iKafkaSASL = None,
     iKafkaCredentialRef = None, iDbEnabled = None, iDbEngine = None, iDbAddr = None,
     iDbName = None, iDbUseTunnel = None, iDbDefault = None, iDbReadOnly = None,
     iDbQueryTimeout = None, iDbTLS = None, iDbCredentialRef = None, iDbLabel = None,
     iDbInTree = None, iDbDefaultTarget = None, iDbTargets = [], iSensitive = None\<rparr>"

section \<open>The tree\<close>

record folder =
  fID :: "string"
  fParentID :: "string option"
  fName :: "string"
  fSortOrder :: "64 word"
  fSettings :: "inheritableSettings"
  fIconImageID :: "string option"
  fIconName :: "string option"
  fIconColor :: "string option"
  fCreatedAt :: "64 word"
  fUpdatedAt :: "64 word"

record connection =
  cID :: "string"
  cFolderID :: "string option"
  cName :: "string"
  cHostname :: "string"
  cSortOrder :: "64 word"
  cProtocol :: "string"
  cLocalShellKind :: "string option"
  cLocalShellDir :: "string option"
  cOverrides :: "inheritableSettings"
  cTags :: "string list"
  cNotes :: "string"
  cFavorite :: "bool"
  cOpenHidden :: "bool"
  cIconImageID :: "string option"
  cIconName :: "string option"
  cIconColor :: "string option"
  cLastUsedAt :: "64 word option"
  cCreatedAt :: "64 word"
  cUpdatedAt :: "64 word"
  cPasswordVaultKey :: "string option"
  cVncPasswordVaultKey :: "string option"

section \<open>Resolved settings\<close>

record resolvedSettings =
  rHostname :: "string"
  rUsername :: "string option"
  rPort :: "16 word"
  rAuthRef :: "string option"
  rOTPRef :: "string option"
  rJumpHost :: "jumpHostSpec option"
  rSSHOptions :: "string \<rightharpoonup> string"
  rEnvVars :: "string \<rightharpoonup> string"
  rColorTag :: "string option"
  rBroadcastGroupID :: "string option"
  rKeepaliveInterval :: "32 word"
  rTerminalType :: "string"
  rInitialCommand :: "string"
  rInitialCommandLineDelayMs :: "32 word"
  rAutoReconnect :: "bool"
  rVerbose :: "bool"
  rProbeLiveness :: "bool"
  rVncEnabled :: "bool"
  rVncPort :: "16 word"
  rVncUseTunnel :: "bool"
  rVncDefault :: "bool"
  rNetworkProfileID :: "string option"
  rTunnelOnly :: "bool"
  rTunnelAutostart :: "bool"
  rKafkaEnabled :: "bool"
  rKafkaBootstrap :: "string"
  rKafkaUseTunnel :: "bool"
  rKafkaDefault :: "bool"
  rKafkaReadOnly :: "bool"
  rKafkaTLS :: "bool"
  rKafkaTLSSkipVerify :: "bool"
  rKafkaSASL :: "string"
  rKafkaCredentialRef :: "string option"
  rDbEnabled :: "bool"
  rDbEngine :: "string"
  rDbAddr :: "string"
  rDbName :: "string"
  rDbUseTunnel :: "bool"
  rDbDefault :: "bool"
  rDbReadOnly :: "bool"
  rDbQueryTimeout :: "32 word"
  rDbTLS :: "string"
  rDbCredentialRef :: "string option"
  rDbTargets :: "dbTarget list"
  rDbLabel :: "string"
  rDbDefaultTarget :: "string"
  rSensitive :: "bool"
  rPasswordOverride :: "string option"

end
