(* ===== verification/Resolver.thy ===== *)
theory Resolver
  imports StoreModels
begin

text \<open>
  The settings a connection is opened with, \<open>internal/resolver/resolver.go\<close>: the folder chain of
  the connection is walked from the root down, each folder's settings are merged over what is
  above, the connection's own settings come last, and the merged record is completed with
  defaults. The functions are the source's; \<open>ResolveWith\<close> is the pure core that every connect
  goes through.
\<close>

section \<open>Layers\<close>

text \<open>The five \<open>firstNonNil\<close> functions differ in the type of the pointer only.\<close>

definition firstNonNil :: "'a option \<Rightarrow> 'a option \<Rightarrow> 'a option" where
  "firstNonNil a b = (if a \<noteq> None then a else b)"

text \<open>\<open>if p != nil { x = *p }\<close> over a default, \<open>p != nil && *p\<close>, \<open>p == nil || *p\<close>.\<close>

definition valueOr :: "'a option \<Rightarrow> 'a \<Rightarrow> 'a" where
  "valueOr p d = (case p of Some x \<Rightarrow> x | None \<Rightarrow> d)"

definition setTrue :: "bool option \<Rightarrow> bool" where
  "setTrue p \<longleftrightarrow> p = Some True"

definition notFalse :: "bool option \<Rightarrow> bool" where
  "notFalse p \<longleftrightarrow> p \<noteq> Some False"

definition u32Or :: "32 word option \<Rightarrow> 32 word \<Rightarrow> 32 word" where
  "u32Or p d = (case p of None \<Rightarrow> d | Some x \<Rightarrow> x)"

definition strOr :: "string option \<Rightarrow> string \<Rightarrow> string" where
  "strOr p d = (case p of None \<Rightarrow> d
     | Some x \<Rightarrow> (let v = TrimSpace x in if v \<noteq> [] then v else d))"

text \<open>An explicit empty reference stops an inherited one.\<close>

definition nonBlankRef :: "string option \<Rightarrow> string option" where
  "nonBlankRef p = (if p = Some [] then None else p)"

section \<open>The folder chain\<close>

definition folderIndex :: "folder list \<Rightarrow> (string \<rightharpoonup> folder)" where
  "folderIndex folders = foldl (\<lambda>idx f. idx(fID f \<mapsto> f)) Map.empty folders"

text \<open>The climb from a folder to its root, at most 10000 steps, leaf first.\<close>

function climb :: "(string \<rightharpoonup> folder) \<Rightarrow> string option \<Rightarrow> nat \<Rightarrow> folder list" where
  "climb idx current i =
     (if i < 10000 then
        (case current of
           None \<Rightarrow> []
         | Some fid \<Rightarrow> (case idx fid of
             None \<Rightarrow> []
           | Some f \<Rightarrow> f # climb idx (fParentID f) (Suc i)))
      else [])"
  by pat_completeness auto
termination
  by (relation "measure (\<lambda>(idx, current, i). 10000 - i)") auto

declare climb.simps [simp del]

definition ancestorChain :: "string option \<Rightarrow> folder list \<Rightarrow> folder list" where
  "ancestorChain start folders = rev (climb (folderIndex folders) start 0)"

section \<open>Database lists\<close>

definition blankTarget :: "dbTarget \<Rightarrow> bool" where
  "blankTarget t =
     (let empty = (\<lambda>p. case p of None \<Rightarrow> True | Some x \<Rightarrow> TrimSpace x = []) in
      TrimSpace (tName t) = [] \<and> empty (tDatabase t) \<and> empty (tEngine t) \<and> empty (tAddr t))"

definition adjustTarget :: "dbTarget \<Rightarrow> dbTarget \<Rightarrow> dbTarget" where
  "adjustTarget m t = m\<lparr>
     tName := (if tName t \<noteq> [] then tName t else tName m),
     tEngine := firstNonNil (tEngine t) (tEngine m),
     tAddr := firstNonNil (tAddr t) (tAddr m),
     tDatabase := firstNonNil (tDatabase t) (tDatabase m),
     tCredentialRef := firstNonNil (tCredentialRef t) (tCredentialRef m),
     tReadOnly := firstNonNil (tReadOnly t) (tReadOnly m),
     tTLS := firstNonNil (tTLS t) (tTLS m),
     tUseTunnel := firstNonNil (tUseTunnel t) (tUseTunnel m),
     tInTree := firstNonNil (tInTree t) (tInTree m)\<rparr>"

text \<open>The two loops share the output list and the index of each id in it.\<close>

fun inheritTargets :: "dbTarget list \<Rightarrow> dbTarget list \<Rightarrow> (string \<rightharpoonup> nat) \<Rightarrow>
    dbTarget list \<times> (string \<rightharpoonup> nat)" where
  "inheritTargets [] out idx = (out, idx)"
| "inheritTargets (t # ts) out idx =
     (if tOverride t then inheritTargets ts out idx
      else inheritTargets ts (out @ [t]) (idx(tID t \<mapsto> length out)))"

fun overlayTargets :: "dbTarget list \<Rightarrow> dbTarget list \<Rightarrow> (string \<rightharpoonup> nat) \<Rightarrow> dbTarget list" where
  "overlayTargets [] out idx = out"
| "overlayTargets (t # ts) out idx =
     (case idx (tID t) of
        None \<Rightarrow>
          (if tOverride t \<or> blankTarget t then overlayTargets ts out idx
           else overlayTargets ts (out @ [t]) (idx(tID t \<mapsto> length out)))
      | Some i \<Rightarrow> overlayTargets ts (out[i := adjustTarget (out ! i) t]) idx)"

definition mergeTargets :: "dbTarget list \<Rightarrow> dbTarget list \<Rightarrow> dbTarget list" where
  "mergeTargets base over =
     (if length over = 0 then base
      else case inheritTargets base [] Map.empty of (out, idx) \<Rightarrow> overlayTargets over out idx)"

definition mergeMap :: "(string \<rightharpoonup> string) option \<Rightarrow> (string \<rightharpoonup> string) option \<Rightarrow>
    (string \<rightharpoonup> string) option" where
  "mergeMap base over =
     (if base = None \<and> over = None then None
      else Some (valueOr base Map.empty ++ valueOr over Map.empty))"

section \<open>Merging and completing\<close>

definition mergeSettings :: "inheritableSettings \<Rightarrow> inheritableSettings \<Rightarrow> inheritableSettings" where
  "mergeSettings base over = \<lparr>
     iUsername = firstNonNil (iUsername over) (iUsername base),
     iPort = firstNonNil (iPort over) (iPort base),
     iAuthRef = firstNonNil (iAuthRef over) (iAuthRef base),
     iOTPRef = firstNonNil (iOTPRef over) (iOTPRef base),
     iJumpHost = firstNonNil (iJumpHost over) (iJumpHost base),
     iSSHOptions = mergeMap (iSSHOptions base) (iSSHOptions over),
     iEnvVars = mergeMap (iEnvVars base) (iEnvVars over),
     iColorTag = firstNonNil (iColorTag over) (iColorTag base),
     iBroadcastGroupID = firstNonNil (iBroadcastGroupID over) (iBroadcastGroupID base),
     iKeepaliveInterval = firstNonNil (iKeepaliveInterval over) (iKeepaliveInterval base),
     iTerminalType = firstNonNil (iTerminalType over) (iTerminalType base),
     iInitialCommand = firstNonNil (iInitialCommand over) (iInitialCommand base),
     iInitialCommandLineDelayMs = firstNonNil (iInitialCommandLineDelayMs over) (iInitialCommandLineDelayMs base),
     iAutoReconnect = firstNonNil (iAutoReconnect over) (iAutoReconnect base),
     iVerbose = firstNonNil (iVerbose over) (iVerbose base),
     iProbeLiveness = firstNonNil (iProbeLiveness over) (iProbeLiveness base),
     iVncEnabled = firstNonNil (iVncEnabled over) (iVncEnabled base),
     iVncPort = firstNonNil (iVncPort over) (iVncPort base),
     iVncUseTunnel = firstNonNil (iVncUseTunnel over) (iVncUseTunnel base),
     iVncDefault = firstNonNil (iVncDefault over) (iVncDefault base),
     iNetworkProfileID = firstNonNil (iNetworkProfileID over) (iNetworkProfileID base),
     iTunnelOnly = firstNonNil (iTunnelOnly over) (iTunnelOnly base),
     iTunnelAutostart = firstNonNil (iTunnelAutostart over) (iTunnelAutostart base),
     iKafkaEnabled = firstNonNil (iKafkaEnabled over) (iKafkaEnabled base),
     iKafkaBootstrap = firstNonNil (iKafkaBootstrap over) (iKafkaBootstrap base),
     iKafkaUseTunnel = firstNonNil (iKafkaUseTunnel over) (iKafkaUseTunnel base),
     iKafkaDefault = firstNonNil (iKafkaDefault over) (iKafkaDefault base),
     iKafkaReadOnly = firstNonNil (iKafkaReadOnly over) (iKafkaReadOnly base),
     iKafkaTLS = firstNonNil (iKafkaTLS over) (iKafkaTLS base),
     iKafkaTLSSkipVerify = firstNonNil (iKafkaTLSSkipVerify over) (iKafkaTLSSkipVerify base),
     iKafkaSASL = firstNonNil (iKafkaSASL over) (iKafkaSASL base),
     iKafkaCredentialRef = firstNonNil (iKafkaCredentialRef over) (iKafkaCredentialRef base),
     iDbEnabled = firstNonNil (iDbEnabled over) (iDbEnabled base),
     iDbEngine = firstNonNil (iDbEngine over) (iDbEngine base),
     iDbAddr = firstNonNil (iDbAddr over) (iDbAddr base),
     iDbName = firstNonNil (iDbName over) (iDbName base),
     iDbUseTunnel = firstNonNil (iDbUseTunnel over) (iDbUseTunnel base),
     iDbDefault = firstNonNil (iDbDefault over) (iDbDefault base),
     iDbReadOnly = firstNonNil (iDbReadOnly over) (iDbReadOnly base),
     iDbQueryTimeout = firstNonNil (iDbQueryTimeout over) (iDbQueryTimeout base),
     iDbTLS = firstNonNil (iDbTLS over) (iDbTLS base),
     iDbCredentialRef = firstNonNil (iDbCredentialRef over) (iDbCredentialRef base),
     iDbLabel = iDbLabel over,
     iDbInTree = None,
     iDbDefaultTarget = iDbDefaultTarget over,
     iDbTargets = mergeTargets (iDbTargets base) (iDbTargets over),
     iSensitive = firstNonNil (iSensitive over) (iSensitive base)\<rparr>"

definition effectiveJump :: "jumpHostOverride option \<Rightarrow> jumpHostSpec option" where
  "effectiveJump j = (case j of
      None \<Rightarrow> None
    | Some jh \<Rightarrow> if oKind jh = ''none'' then None
                else if oKind jh = ''chain'' then oChain jh else None)"

definition dbDefaultTarget :: "inheritableSettings \<Rightarrow> string" where
  "dbDefaultTarget s = (case iDbDefaultTarget s of
      None \<Rightarrow> []
    | Some d \<Rightarrow> if d = [] then []
               else if list_ex (\<lambda>t. tID t = d) (iDbTargets s) then d else [])"

definition finalize :: "inheritableSettings \<Rightarrow> string \<Rightarrow> resolvedSettings" where
  "finalize s hostname = \<lparr>
     rHostname = TrimSpace hostname,
     rUsername = iUsername s,
     rPort = valueOr (iPort s) 22,
     rAuthRef = nonBlankRef (iAuthRef s),
     rOTPRef = nonBlankRef (iOTPRef s),
     rJumpHost = effectiveJump (iJumpHost s),
     rSSHOptions = valueOr (iSSHOptions s) Map.empty,
     rEnvVars = valueOr (iEnvVars s) Map.empty,
     rColorTag = iColorTag s,
     rBroadcastGroupID = iBroadcastGroupID s,
     rKeepaliveInterval = valueOr (iKeepaliveInterval s) 0,
     rTerminalType = valueOr (iTerminalType s) ''xterm-256color'',
     rInitialCommand = valueOr (iInitialCommand s) [],
     rInitialCommandLineDelayMs = valueOr (iInitialCommandLineDelayMs s) 0,
     rAutoReconnect = setTrue (iAutoReconnect s),
     rVerbose = setTrue (iVerbose s),
     rProbeLiveness = notFalse (iProbeLiveness s),
     rVncEnabled = setTrue (iVncEnabled s),
     rVncPort = (case iVncPort s of Some p \<Rightarrow> if p \<noteq> 0 then p else 5900 | None \<Rightarrow> 5900),
     rVncUseTunnel = setTrue (iVncUseTunnel s),
     rVncDefault = setTrue (iVncDefault s),
     rNetworkProfileID = nonBlankRef (iNetworkProfileID s),
     rTunnelOnly = setTrue (iTunnelOnly s),
     rTunnelAutostart = setTrue (iTunnelAutostart s),
     rKafkaEnabled = setTrue (iKafkaEnabled s),
     rKafkaBootstrap = TrimSpace (valueOr (iKafkaBootstrap s) []),
     rKafkaUseTunnel = notFalse (iKafkaUseTunnel s),
     rKafkaDefault = setTrue (iKafkaDefault s),
     rKafkaReadOnly = setTrue (iKafkaReadOnly s),
     rKafkaTLS = setTrue (iKafkaTLS s),
     rKafkaTLSSkipVerify = setTrue (iKafkaTLSSkipVerify s),
     rKafkaSASL = valueOr (iKafkaSASL s) [],
     rKafkaCredentialRef = nonBlankRef (iKafkaCredentialRef s),
     rDbEnabled = setTrue (iDbEnabled s),
     rDbEngine = strOr (iDbEngine s) ''postgres'',
     rDbAddr = strOr (iDbAddr s) [],
     rDbName = strOr (iDbName s) [],
     rDbUseTunnel = notFalse (iDbUseTunnel s),
     rDbDefault = setTrue (iDbDefault s),
     rDbReadOnly = setTrue (iDbReadOnly s),
     rDbQueryTimeout = u32Or (iDbQueryTimeout s) 0,
     rDbTLS = strOr (iDbTLS s) ''disable'',
     rDbCredentialRef = nonBlankRef (iDbCredentialRef s),
     rDbTargets = iDbTargets s,
     rDbLabel = strOr (iDbLabel s) [],
     rDbDefaultTarget = dbDefaultTarget s,
     rSensitive = setTrue (iSensitive s),
     rPasswordOverride = None\<rparr>"

definition ResolveWith :: "connection \<Rightarrow> folder list \<Rightarrow> resolvedSettings" where
  "ResolveWith conn folders =
     (let chain = ancestorChain (cFolderID conn) folders;
          merged = foldl (\<lambda>m f. mergeSettings m (fSettings f)) noSettings chain
      in finalize (mergeSettings merged (cOverrides conn)) (cHostname conn))"

section \<open>Properties of the merge\<close>

lemma firstNonNil_simps [simp]:
  "firstNonNil None b = b" "firstNonNil (Some x) b = Some x" "firstNonNil a None = a"
  by (simp_all add: firstNonNil_def)

lemma valueOr_simps [simp]: "valueOr None d = d" "valueOr (Some x) d = x"
  by (simp_all add: valueOr_def)

subsection \<open>Nearest layer wins\<close>

text \<open>
  A field that merging overlays: the folded value is that of the nearest layer which sets it.
  Every scalar setting is such a field, and so is one key of the option maps.
\<close>

locale layered =
  fixes merge :: "'s \<Rightarrow> 's \<Rightarrow> 's" and zero :: 's and field :: "'s \<Rightarrow> 'a option"
  assumes field_merge: "field (merge base over) = firstNonNil (field over) (field base)"
    and field_zero: "field zero = None"
begin

lemma field_foldl: "field (foldl merge zero layers) = first_some (map field (rev layers))"
proof (induction layers rule: rev_induct)
  case (snoc l ls)
  then show ?case by (cases "field l") (simp_all add: field_merge)
qed (simp add: field_zero)

lemma field_unset: "(\<And>l. l \<in> set layers \<Longrightarrow> field l = None) \<Longrightarrow> field (foldl merge zero layers) = None"
  by (auto simp: field_foldl first_some_None_iff)

end

interpretation Username: layered mergeSettings noSettings iUsername
  by unfold_locales (simp_all add: mergeSettings_def noSettings_def)

interpretation Port: layered mergeSettings noSettings iPort
  by unfold_locales (simp_all add: mergeSettings_def noSettings_def)

interpretation AuthRef: layered mergeSettings noSettings iAuthRef
  by unfold_locales (simp_all add: mergeSettings_def noSettings_def)

interpretation JumpHost: layered mergeSettings noSettings iJumpHost
  by unfold_locales (simp_all add: mergeSettings_def noSettings_def)

interpretation NetworkProfile: layered mergeSettings noSettings iNetworkProfileID
  by unfold_locales (simp_all add: mergeSettings_def noSettings_def)

interpretation Sensitive: layered mergeSettings noSettings iSensitive
  by unfold_locales (simp_all add: mergeSettings_def noSettings_def)

interpretation DbReadOnly: layered mergeSettings noSettings iDbReadOnly
  by unfold_locales (simp_all add: mergeSettings_def noSettings_def)

interpretation KafkaReadOnly: layered mergeSettings noSettings iKafkaReadOnly
  by unfold_locales (simp_all add: mergeSettings_def noSettings_def)

lemma mergeMap_apply:
  "valueOr (mergeMap b over) Map.empty k = firstNonNil (valueOr over Map.empty k) (valueOr b Map.empty k)"
  by (auto simp: mergeMap_def map_add_def firstNonNil_def split: option.splits)

interpretation EnvVar: layered mergeSettings noSettings "\<lambda>s. valueOr (iEnvVars s) Map.empty k" for k
  by unfold_locales (simp_all add: mergeSettings_def noSettings_def mergeMap_apply)

interpretation SSHOption: layered mergeSettings noSettings "\<lambda>s. valueOr (iSSHOptions s) Map.empty k" for k
  by unfold_locales (simp_all add: mergeSettings_def noSettings_def mergeMap_apply)

text \<open>The layers of a connection, nearest first: its overrides, its folder, that folder's parent.\<close>

definition settingLayers :: "connection \<Rightarrow> folder list \<Rightarrow> inheritableSettings list" where
  "settingLayers conn folders =
     cOverrides conn # map fSettings (rev (ancestorChain (cFolderID conn) folders))"

lemma foldl_fSettings:
  "foldl (\<lambda>m f. mergeSettings m (fSettings f)) z fs = foldl mergeSettings z (map fSettings fs)"
  by (induction fs arbitrary: z) simp_all

lemma ResolveWith_layers:
  "ResolveWith conn folders =
     finalize (foldl mergeSettings noSettings (rev (settingLayers conn folders))) (cHostname conn)"
  by (simp add: ResolveWith_def settingLayers_def foldl_fSettings rev_map Let_def)

lemmas merged_field =
  Username.field_foldl Port.field_foldl AuthRef.field_foldl JumpHost.field_foldl
  NetworkProfile.field_foldl Sensitive.field_foldl DbReadOnly.field_foldl
  KafkaReadOnly.field_foldl EnvVar.field_foldl SSHOption.field_foldl


subsection \<open>The folder chain\<close>

lemma folderIndex_snoc: "folderIndex (fs @ [f]) = (folderIndex fs)(fID f \<mapsto> f)"
  by (simp add: folderIndex_def)

lemma folderIndex_Some: "folderIndex fs k = Some f \<Longrightarrow> f \<in> set fs \<and> fID f = k"
  by (induction fs rule: rev_induct)
    (auto simp: folderIndex_snoc folderIndex_def [of "[]"] split: if_splits)

lemma folderIndex_None: "folderIndex fs k = None \<longleftrightarrow> k \<notin> fID ` set fs"
  by (induction fs rule: rev_induct) (auto simp: folderIndex_snoc folderIndex_def [of "[]"])

text \<open>A list of folders, leaf first, each the parent of the one before; \<open>stop\<close> comes next.\<close>

fun parentChain :: "string option \<Rightarrow> folder list \<Rightarrow> string option \<Rightarrow> bool" where
  "parentChain cur [] stop = (cur = stop)"
| "parentChain cur (f # fs) stop = (cur = Some (fID f) \<and> parentChain (fParentID f) fs stop)"

lemma climb_props:
  assumes "idx = folderIndex folders" "i \<le> 10000"
  shows "length (climb idx cur i) \<le> 10000 - i \<and> set (climb idx cur i) \<subseteq> set folders \<and>
    (\<exists>stop. parentChain cur (climb idx cur i) stop \<and>
       (length (climb idx cur i) < 10000 - i \<longrightarrow> (\<forall>k. stop = Some k \<longrightarrow> k \<notin> fID ` set folders)))"
  using assms
proof (induction idx cur i rule: climb.induct)
  case (1 idx cur i)
  show ?case
  proof (cases "i < 10000 \<and> (\<exists>k f. cur = Some k \<and> idx k = Some f)")
    case True
    then obtain k f where k: "i < 10000" "cur = Some k" "idx k = Some f" by blast
    then have unfold: "climb idx cur i = f # climb idx (fParentID f) (Suc i)"
      by (subst climb.simps) simp
    have f: "f \<in> set folders" "fID f = k"
      using k(3) 1(2) folderIndex_Some by blast+
    note IH = 1(1) [OF k(1,2,3) 1(2)]
    show ?thesis
      unfolding unfold using IH k f by auto
  next
    case False
    then have "climb idx cur i = []" by (subst climb.simps) (auto split: option.splits)
    then show ?thesis
      using False 1(2,3) by (cases cur) (auto simp: folderIndex_None)
  qed
qed

text \<open>The ancestor chain runs from the connection's folder up through parents that exist,
  at most 10000 of them even when the stored parents form a cycle, and below that bound it stops
  only at a root or at a parent that is not stored.\<close>

lemma ancestorChain_path:
  "length (ancestorChain start folders) \<le> 10000 \<and>
   set (ancestorChain start folders) \<subseteq> set folders \<and>
   (\<exists>stop. parentChain start (rev (ancestorChain start folders)) stop \<and>
      (length (ancestorChain start folders) < 10000 \<longrightarrow>
         (\<forall>k. stop = Some k \<longrightarrow> k \<notin> fID ` set folders)))"
  using climb_props [of "folderIndex folders" folders 0 start] by (simp add: ancestorChain_def)

lemma ancestorChain_path_witness:
  "let f = \<lparr>fID = ''f'', fParentID = Some ''gone'', fName = ''F'', fSortOrder = 0, fSettings = noSettings,
       fIconImageID = None, fIconName = None, fIconColor = None, fCreatedAt = 0, fUpdatedAt = 0\<rparr>
   in length (ancestorChain (Some ''f'') [f]) = 1 \<and>
      (\<exists>stop. parentChain (Some ''f'') (rev (ancestorChain (Some ''f'') [f])) stop \<and> stop \<noteq> Some ''f'')"
proof -
  let ?f = "\<lparr>fID = ''f'', fParentID = Some ''gone'', fName = ''F'', fSortOrder = 0, fSettings = noSettings,
       fIconImageID = None, fIconName = None, fIconColor = None, fCreatedAt = 0, fUpdatedAt = 0\<rparr>"
  have one: "length (ancestorChain (Some ''f'') [?f]) = 1"
    by (simp add: ancestorChain_def climb.simps folderIndex_def)
  then show ?thesis using ancestorChain_path [of "Some ''f''" "[?f]"] by auto
qed

subsection \<open>Database lists\<close>

definition targetsOK :: "dbTarget list \<Rightarrow> bool" where
  "targetsOK ts \<longleftrightarrow> distinct (map tID ts) \<and> (\<forall>t \<in> set ts. \<not> tOverride t)"

definition idxOK :: "dbTarget list \<Rightarrow> (string \<rightharpoonup> nat) \<Rightarrow> bool" where
  "idxOK out idx \<longleftrightarrow> targetsOK out \<and>
     (\<forall>k i. idx k = Some i \<longleftrightarrow> i < length out \<and> tID (out ! i) = k)"

lemma adjustTarget_id [simp]: "tID (adjustTarget m t) = tID m" "tOverride (adjustTarget m t) = tOverride m"
  by (simp_all add: adjustTarget_def)

lemma idxOK_None: "idxOK out idx \<Longrightarrow> idx k = None \<longleftrightarrow> k \<notin> tID ` set out"
proof -
  assume *: "idxOK out idx"
  have "(\<exists>i. idx k = Some i) \<longleftrightarrow> (\<exists>i < length out. tID (out ! i) = k)"
    using * by (auto simp: idxOK_def)
  also have "\<dots> \<longleftrightarrow> k \<in> tID ` set out"
    by (auto simp: in_set_conv_nth image_iff) (metis nth_mem)
  finally show ?thesis by (metis not_None_eq)
qed

lemma idxOK_append:
  assumes "idxOK out idx" "idx (tID t) = None" "\<not> tOverride t"
  shows "idxOK (out @ [t]) (idx(tID t \<mapsto> length out))"
proof -
  have "tID t \<notin> tID ` set out" using assms by (simp add: idxOK_None)
  moreover have "tID (out ! i) \<noteq> tID t" if "i < length out" for i
    using calculation that by (metis image_eqI nth_mem)
  ultimately show ?thesis
    using assms by (auto simp: idxOK_def targetsOK_def nth_append less_Suc_eq)
qed

lemma idxOK_update:
  assumes "idxOK out idx" "i < length out"
  shows "idxOK (out[i := adjustTarget (out ! i) t]) idx"
proof -
  have ids: "map tID (out[i := adjustTarget (out ! i) t]) = map tID out"
    using assms(2) by (simp add: map_update list_update_same_conv)
  then have "tID (out[i := adjustTarget (out ! i) t] ! j) = tID (out ! j)" if "j < length out" for j
    using that by (metis length_list_update nth_map)
  moreover have "\<forall>u \<in> set (out[i := adjustTarget (out ! i) t]). \<not> tOverride u"
    using assms by (auto simp: idxOK_def targetsOK_def dest!: subsetD [OF set_update_subset_insert])
  ultimately show ?thesis
    using assms(1) ids unfolding idxOK_def targetsOK_def by auto
qed

lemma inheritTargets_OK:
  assumes "idxOK out idx" "targetsOK (out @ ts)"
  shows "\<exists>idx'. inheritTargets ts out idx = (out @ ts, idx') \<and> idxOK (out @ ts) idx'"
  using assms
proof (induction ts arbitrary: out idx)
  case (Cons t ts)
  have "\<not> tOverride t" "idx (tID t) = None"
    using Cons.prems by (auto simp: targetsOK_def idxOK_None)
  then have "idxOK (out @ [t]) (idx(tID t \<mapsto> length out))"
    using Cons.prems idxOK_append by blast
  then show ?case
    using Cons.IH [of "out @ [t]"] Cons.prems \<open>\<not> tOverride t\<close> by simp
qed simp

lemma overlayTargets_OK:
  assumes "idxOK out idx"
  shows "targetsOK (overlayTargets ts out idx) \<and>
    prefix (map tID out) (map tID (overlayTargets ts out idx))"
  using assms
proof (induction ts out idx rule: overlayTargets.induct)
  case (2 t ts out idx)
  show ?case
  proof (cases "idx (tID t)")
    case None
    show ?thesis
    proof (cases "tOverride t \<or> blankTarget t")
      case False
      then have "idxOK (out @ [t]) (idx(tID t \<mapsto> length out))"
        using 2(4) None idxOK_append by blast
      note IH = 2(2) [OF None False this]
      have "overlayTargets (t # ts) out idx = overlayTargets ts (out @ [t]) (idx(tID t \<mapsto> length out))"
        using None False by simp
      then show ?thesis
        using IH by (metis append_prefixD map_append)
    qed (use 2 None in auto)
  next
    case (Some i)
    then have "i < length out" using 2(4) by (auto simp: idxOK_def)
    moreover have "map tID (out[i := adjustTarget (out ! i) t]) = map tID out"
      using calculation by (simp add: map_update list_update_same_conv)
    ultimately show ?thesis
      using 2(3) [OF Some idxOK_update] 2(4) Some by simp
  qed
qed (simp add: idxOK_def)

lemma mergeTargets_OK:
  assumes "targetsOK base"
  shows "targetsOK (mergeTargets base over) \<and> prefix (map tID base) (map tID (mergeTargets base over))"
proof -
  have "idxOK [] Map.empty" by (simp add: idxOK_def targetsOK_def)
  then obtain idx where "inheritTargets base [] Map.empty = (base, idx)" "idxOK base idx"
    using inheritTargets_OK [of "[]" Map.empty base] assms by auto
  then show ?thesis
    using assms overlayTargets_OK by (simp add: mergeTargets_def)
qed

lemma merged_targets_OK: "targetsOK (iDbTargets (foldl mergeSettings noSettings layers))"
proof (induction layers rule: rev_induct)
  case (snoc l ls)
  then show ?case using mergeTargets_OK by (simp add: mergeSettings_def)
qed (simp add: noSettings_def targetsOK_def)

text \<open>Whatever the folders and the connection store, the resolved database list has one
  entry per id and no bare override entry, and the default target names an entry of it or none.\<close>

lemma resolved_targets_wellformed:
  "distinct (map tID (rDbTargets (ResolveWith conn folders))) \<and>
   list_all (\<lambda>t. \<not> tOverride t) (rDbTargets (ResolveWith conn folders)) \<and>
   rDbDefaultTarget (ResolveWith conn folders) \<in>
     insert [] (tID ` set (rDbTargets (ResolveWith conn folders)))"
  using merged_targets_OK [of "rev (settingLayers conn folders)"]
  unfolding ResolveWith_layers
  by (auto simp: finalize_def targetsOK_def list_all_iff dbDefaultTarget_def list_ex_iff
      split: option.splits)

text \<open>A connection's own list never reorders or drops what its folders list: the inherited
  databases come first, in the folders' order, under their ids.\<close>

lemma inherited_targets_first:
  "prefix (map tID (iDbTargets (foldl (\<lambda>m f. mergeSettings m (fSettings f)) noSettings
                                 (ancestorChain (cFolderID conn) folders))))
          (map tID (rDbTargets (ResolveWith conn folders)))"
proof -
  let ?m = "foldl (\<lambda>m f. mergeSettings m (fSettings f)) noSettings (ancestorChain (cFolderID conn) folders)"
  have "rDbTargets (ResolveWith conn folders) = mergeTargets (iDbTargets ?m) (iDbTargets (cOverrides conn))"
    by (simp add: ResolveWith_def finalize_def mergeSettings_def Let_def)
  then show ?thesis
    using mergeTargets_OK merged_targets_OK by (simp add: foldl_fSettings)
qed

end
