(* ===== verification/JumpRefs.thy ===== *)
theory JumpRefs
  imports Resolver
begin

text \<open>
  Jump hops that name a saved connection, \<open>internal/resolver/jumprefs.go\<close>: \<open>ExpandJumpRefs\<close> turns
  them into plain hops right before a connect. The recursion follows stored data that may loop,
  so it is a partial function into \<open>option\<close>, \<open>None\<close> meaning that it does not return. The two
  package variables the app wires at startup (\<open>DynamicHostLookup\<close>, \<open>DynamicSelfRef\<close>) and the
  store's queries are arguments.
\<close>

section \<open>References to inventory hosts\<close>

definition DynRefPrefix :: string where
  "DynRefPrefix = ''dyn:''"

definition DynRef :: "string \<Rightarrow> string \<Rightarrow> string" where
  "DynRef folderID externalID = DynRefPrefix @ folderID @ ''/'' @ externalID"

definition ParseDynRef :: "string \<Rightarrow> (string \<times> string) option" where
  "ParseDynRef ref = (case CutPrefix ref DynRefPrefix of
      None \<Rightarrow> None
    | Some rest \<Rightarrow> (case Cut rest ''/'' of
        (folderID, externalID, ok) \<Rightarrow>
          if \<not> ok \<or> folderID = [] \<or> externalID = [] then None else Some (folderID, externalID)))"

section \<open>Looking up a referenced connection\<close>

datatype jumpError =
    DeletedRef string          \<comment> \<open>the jump host connection was deleted\<close>
  | NoInventoryHere            \<comment> \<open>inventory host references are not available here\<close>
  | InventoryError string      \<comment> \<open>whatever the app's lookup reports\<close>
  | NonePicked                 \<comment> \<open>set to a saved connection but none is picked\<close>
  | LoopsBack string           \<comment> \<open>the chain loops back to the named connection\<close>
  | TooManyHops nat            \<comment> \<open>more than \<open>maxJumpHops\<close> hops after expanding\<close>

type_synonym connLookup = "string \<Rightarrow> jumpError + connection"

definition lookupDynamic :: "connLookup option \<Rightarrow> connLookup" where
  "lookupDynamic DynamicHostLookup ref = (case DynamicHostLookup of
      None \<Rightarrow> Inl NoInventoryHere
    | Some f \<Rightarrow> f ref)"

text \<open>\<open>getConnection\<close> is \<open>db.GetConnection\<close>: \<open>None\<close> for an error as for no such row.\<close>

definition DBLookup :: "connLookup option \<Rightarrow> (string \<Rightarrow> connection option) \<Rightarrow> connLookup" where
  "DBLookup dyn getConnection cid =
     (if HasPrefix cid DynRefPrefix then lookupDynamic dyn cid
      else case getConnection cid of None \<Rightarrow> Inl (DeletedRef cid) | Some c \<Rightarrow> Inr c)"

definition connIndex :: "connection list \<Rightarrow> (string \<rightharpoonup> connection)" where
  "connIndex conns = foldl (\<lambda>idx c. idx(cID c \<mapsto> c)) Map.empty conns"

definition LookupFrom :: "connLookup option \<Rightarrow> connection list \<Rightarrow> connLookup" where
  "LookupFrom dyn conns cid =
     (if HasPrefix cid DynRefPrefix then lookupDynamic dyn cid
      else case connIndex conns cid of Some c \<Rightarrow> Inr c | None \<Rightarrow> Inl (DeletedRef cid))"

section \<open>Expanding a chain\<close>

text \<open>The hops of a linked chain, first-dialled first.\<close>

fun hopList :: "jumpHostSpec option \<Rightarrow> jumpHostSpec list" where
  "hopList None = []"
| "hopList (Some (JumpHostSpec h p u a c via n)) = JumpHostSpec h p u a c via n # hopList via"

definition HasJumpRefs :: "jumpHostSpec option \<Rightarrow> bool" where
  "HasJumpRefs spec \<longleftrightarrow> list_ex (\<lambda>h. jConnectionID h \<noteq> None) (hopList spec)"

definition maxJumpHops :: nat where
  "maxJumpHops = 16"

definition setVia :: "jumpHostSpec option \<Rightarrow> jumpHostSpec \<Rightarrow> jumpHostSpec" where
  "setVia via h = JumpHostSpec (jHostname h) (jPort h) (jUsername h) (jAuthRef h)
     (jConnectionID h) via (jName h)"

text \<open>The referenced connection's own hops default to its user and credential.\<close>

definition defaultLogin :: "resolvedSettings \<Rightarrow> jumpHostSpec \<Rightarrow> jumpHostSpec" where
  "defaultLogin rs h = JumpHostSpec (jHostname h) (jPort h)
     (if jUsername h = None then rUsername rs else jUsername h)
     (if jAuthRef h = None then rAuthRef rs else jAuthRef h)
     (jConnectionID h) (jVia h) (jName h)"

definition connectionHop :: "resolvedSettings \<Rightarrow> string \<Rightarrow> jumpHostSpec" where
  "connectionHop rs name = JumpHostSpec (rHostname rs) (Some (rPort rs)) (rUsername rs)
     (rAuthRef rs) None None name"

text \<open>The network profile the referenced connection itself would dial its first hop with.\<close>

definition firstHopNet :: "resolvedSettings \<Rightarrow> string option \<Rightarrow> string option" where
  "firstHopNet rs subNet =
     (if rNetworkProfileID rs = None then subNet else rNetworkProfileID rs)"

text \<open>
  The loop of \<open>expandChain\<close> over \<open>cur\<close>, with what it has collected. Deleting the id from \<open>path\<close>
  after the nested call restores the set it had, since the id was not in it.
\<close>

partial_function (option) expandChain ::
  "folder list \<Rightarrow> connLookup \<Rightarrow> jumpHostSpec option \<Rightarrow> jumpHostSpec list \<Rightarrow> string option \<Rightarrow>
   string set \<Rightarrow> string set \<Rightarrow> (jumpError + jumpHostSpec list \<times> string option) option" where
  "expandChain folders lookup cur hops firstNet path owner =
     (case cur of
        None \<Rightarrow> Some (Inr (hops, firstNet))
      | Some h \<Rightarrow>
        (case jConnectionID h of
           None \<Rightarrow> expandChain folders lookup (jVia h) (hops @ [setVia None h]) firstNet path owner
         | Some rid \<Rightarrow>
             if rid = [] then Some (Inl NonePicked)
             else if rid \<in> owner then Some (Inr (hops, firstNet))
             else (case lookup rid of
                 Inl e \<Rightarrow> Some (Inl e)
               | Inr c \<Rightarrow>
                   if rid \<in> path then Some (Inl (LoopsBack (cName c)))
                   else Option.bind
                     (if hops = []
                      then expandChain folders lookup (rJumpHost (ResolveWith c folders)) [] None
                             (insert rid path) {rid}
                      else Some (Inr ([], None)))
                     (\<lambda>r. case r of
                          Inl e \<Rightarrow> Some (Inl e)
                        | Inr (sub, subNet) \<Rightarrow>
                            expandChain folders lookup (jVia h)
                              (hops @ map (defaultLogin (ResolveWith c folders)) sub @
                                 [connectionHop (ResolveWith c folders) (cName c)])
                              (if hops = [] then firstHopNet (ResolveWith c folders) subNet
                               else firstNet)
                              path owner))))"

fun relink :: "jumpHostSpec list \<Rightarrow> jumpHostSpec option" where
  "relink [] = None"
| "relink (h # hs) = Some (setVia (relink hs) h)"

text \<open>The connection being opened, and the name a hop would use for it when it is dynamic.\<close>

definition selfNames :: "(string \<Rightarrow> string) option \<Rightarrow> string \<Rightarrow> string set" where
  "selfNames DynamicSelfRef selfID =
     (if selfID = [] then {}
      else case DynamicSelfRef of
          None \<Rightarrow> {selfID}
        | Some f \<Rightarrow> (if f selfID = [] then {selfID} else {selfID, f selfID}))"

definition ExpandJumpRefs :: "(string \<Rightarrow> string) option \<Rightarrow> resolvedSettings \<Rightarrow> string \<Rightarrow> folder list \<Rightarrow>
    connLookup \<Rightarrow> (jumpError + resolvedSettings) option" where
  "ExpandJumpRefs DynamicSelfRef rs selfID folders lookup =
     (if \<not> HasJumpRefs (rJumpHost rs) then Some (Inr rs)
      else Option.bind
        (expandChain folders lookup (rJumpHost rs) [] None
           (selfNames DynamicSelfRef selfID) (selfNames DynamicSelfRef selfID))
        (\<lambda>r. case r of
             Inl e \<Rightarrow> Some (Inl e)
           | Inr (hops, firstNet) \<Rightarrow>
               if length hops > maxJumpHops then Some (Inl (TooManyHops (length hops)))
               else Some (Inr (rs\<lparr>rJumpHost := relink hops,
                 rNetworkProfileID := (if rNetworkProfileID rs = None \<and> firstNet \<noteq> None
                                       then firstNet else rNetworkProfileID rs)\<rparr>))))"

definition ResolveWithRefs :: "(string \<Rightarrow> string) option \<Rightarrow> connection \<Rightarrow> folder list \<Rightarrow> connLookup \<Rightarrow>
    (jumpError + resolvedSettings) option" where
  "ResolveWithRefs DynamicSelfRef conn folders lookup =
     ExpandJumpRefs DynamicSelfRef (ResolveWith conn folders) (cID conn) folders lookup"

text \<open>\<open>ResolveConnection\<close>: load, resolve, expand; the store's two queries are arguments.\<close>

datatype resolveError = GetConnectionError | ListFoldersError | JumpFailed jumpError

definition ResolveConnection :: "(string \<Rightarrow> string) option \<Rightarrow> connLookup option \<Rightarrow>
    (string \<Rightarrow> connection option) \<Rightarrow> folder list option \<Rightarrow> string \<Rightarrow>
    (resolveError + resolvedSettings) option" where
  "ResolveConnection DynamicSelfRef dyn getConnection listFolders connectionID =
     (case getConnection connectionID of
        None \<Rightarrow> Some (Inl GetConnectionError)
      | Some conn \<Rightarrow> (case listFolders of
          None \<Rightarrow> Some (Inl ListFoldersError)
        | Some folders \<Rightarrow>
            map_option (map_sum JumpFailed (\<lambda>rs. rs))
              (ExpandJumpRefs DynamicSelfRef (ResolveWith conn folders) (cID conn) folders
                 (DBLookup dyn getConnection))))"

section \<open>Facts about the expansion\<close>

lemma hopList_Some: "hopList (Some h) = h # hopList (jVia h)"
  by (cases h) simp

lemma setVia_simps [simp]:
  "jHostname (setVia v h) = jHostname h" "jPort (setVia v h) = jPort h"
  "jUsername (setVia v h) = jUsername h" "jAuthRef (setVia v h) = jAuthRef h"
  "jConnectionID (setVia v h) = jConnectionID h" "jVia (setVia v h) = v" "jName (setVia v h) = jName h"
  by (simp_all add: setVia_def)

lemma defaultLogin_conn [simp]: "jConnectionID (defaultLogin rs h) = jConnectionID h"
  by (simp add: defaultLogin_def)

lemma connectionHop_conn [simp]: "jConnectionID (connectionHop rs n) = None"
  by (simp add: connectionHop_def)

lemma hopList_relink: "map (setVia None) (hopList (relink hops)) = map (setVia None) hops"
  by (induction hops) (simp_all add: hopList_Some setVia_def)

lemma length_hopList_relink: "length (hopList (relink hops)) = length hops"
  using arg_cong [OF hopList_relink, of length] by simp

lemma HasJumpRefs_relink: "HasJumpRefs (relink hops) \<longleftrightarrow> (\<exists>h \<in> set hops. jConnectionID h \<noteq> None)"
  by (induction hops) (simp_all add: HasJumpRefs_def hopList_Some)

text \<open>One step of the loop, for the shapes of the first hop.\<close>

lemma expandChain_Nil: "expandChain fs lk None hops net path owner = Some (Inr (hops, net))"
  by (subst expandChain.simps) simp

lemma expandChain_plain:
  "jConnectionID h = None \<Longrightarrow> expandChain fs lk (Some h) hops net path owner =
     expandChain fs lk (jVia h) (hops @ [setVia None h]) net path owner"
  by (subst expandChain.simps) simp

lemma expandChain_owner:
  "jConnectionID h = Some rid \<Longrightarrow> rid \<noteq> [] \<Longrightarrow> rid \<in> owner \<Longrightarrow>
     expandChain fs lk (Some h) hops net path owner = Some (Inr (hops, net))"
  by (subst expandChain.simps) simp

lemma expandChain_error:
  "jConnectionID h = Some rid \<Longrightarrow> rid \<noteq> [] \<Longrightarrow> rid \<notin> owner \<Longrightarrow> lk rid = Inl e \<Longrightarrow>
     expandChain fs lk (Some h) hops net path owner = Some (Inl e)"
  by (subst expandChain.simps) simp

lemma expandChain_loop:
  "jConnectionID h = Some rid \<Longrightarrow> rid \<noteq> [] \<Longrightarrow> rid \<notin> owner \<Longrightarrow> lk rid = Inr c \<Longrightarrow> rid \<in> path \<Longrightarrow>
     expandChain fs lk (Some h) hops net path owner = Some (Inl (LoopsBack (cName c)))"
  by (subst expandChain.simps) simp

lemma expandChain_routed:
  "jConnectionID h = Some rid \<Longrightarrow> rid \<noteq> [] \<Longrightarrow> rid \<notin> owner \<Longrightarrow> lk rid = Inr c \<Longrightarrow> rid \<notin> path \<Longrightarrow>
   hops \<noteq> [] \<Longrightarrow>
     expandChain fs lk (Some h) hops net path owner =
       expandChain fs lk (jVia h) (hops @ [connectionHop (ResolveWith c fs) (cName c)]) net path owner"
  by (subst expandChain.simps) simp

definition plainHops :: "jumpHostSpec list \<Rightarrow> bool" where
  "plainHops hops \<longleftrightarrow> (\<forall>h \<in> set hops. jConnectionID h = None)"

lemma plainHops_simps [simp]:
  "plainHops []" "plainHops (h # hs) \<longleftrightarrow> jConnectionID h = None \<and> plainHops hs"
  "plainHops (xs @ ys) \<longleftrightarrow> plainHops xs \<and> plainHops ys"
  "plainHops (map (defaultLogin rs) hs) \<longleftrightarrow> plainHops hs"
  by (auto simp: plainHops_def)

lemma bind_hops_Inr:
  "Option.bind A (\<lambda>r. case r of Inl e \<Rightarrow> Some (Inl e) | Inr (a, b) \<Rightarrow> F a b) = Some (Inr v) \<longleftrightarrow>
     (\<exists>a b. A = Some (Inr (a, b)) \<and> F a b = Some (Inr v))"
  by (cases A) (auto split: sum.splits)

lemma expandChain_no_refs_raw:
  "expandChain fs lk cur hops net path owner = Some r \<Longrightarrow>
     \<forall>v. r = Inr v \<longrightarrow> plainHops hops \<longrightarrow> plainHops (fst v)"
proof (rule expandChain.raw_induct [where P = "\<lambda>fs lk cur hops net path owner r.
      \<forall>v. r = Inr v \<longrightarrow> plainHops hops \<longrightarrow> plainHops (fst v)"], goal_cases)
  case (1 f fs lk cur hops net path owner r)
  note IH = 1(2)
  show ?case
  proof (intro allI impI)
    fix v
    assume "r = Inr v" "plainHops hops"
    with 1(3) show "plainHops (fst v)"
      by (force split: option.splits if_splits sum.splits simp: bind_hops_Inr dest!: IH)
  qed
qed

lemma expandChain_no_refs:
  "expandChain fs lk cur [] net path owner = Some (Inr (out, net')) \<Longrightarrow> plainHops out"
  using expandChain_no_refs_raw by fastforce

lemma expandChain_nested:
  assumes "jConnectionID h = Some rid" "rid \<noteq> []" "rid \<notin> owner" "lk rid = Inr c" "rid \<notin> path"
    and sub: "expandChain fs lk (rJumpHost (ResolveWith c fs)) [] None (insert rid path) {rid} =
      Some (Inr (sub, subNet))"
  shows "expandChain fs lk (Some h) [] net path owner =
    expandChain fs lk (jVia h)
      (map (defaultLogin (ResolveWith c fs)) sub @ [connectionHop (ResolveWith c fs) (cName c)])
      (firstHopNet (ResolveWith c fs) subNet) path owner"
  using assms by (subst expandChain.simps) simp

lemma expandChain_nested_error:
  assumes "jConnectionID h = Some rid" "rid \<noteq> []" "rid \<notin> owner" "lk rid = Inr c" "rid \<notin> path"
    and sub: "expandChain fs lk (rJumpHost (ResolveWith c fs)) [] None (insert rid path) {rid} =
      Some (Inl e)"
  shows "expandChain fs lk (Some h) [] net path owner = Some (Inl e)"
  using assms by (subst expandChain.simps) simp

lemma relink_setVia: "relink (map (setVia None) hops) = relink hops"
  by (induction hops) (simp_all add: setVia_def)

lemma relink_hopList: "relink (hopList cur) = cur"
  by (induction cur rule: hopList.induct) (simp_all add: setVia_def)

subsection \<open>The lookup as an interface\<close>

text \<open>
  What the expansion relies on: only finitely many references can be resolved (a store has
  finitely many connections). Everything else about the lookup is free.
\<close>

locale finite_lookup =
  fixes look :: connLookup
  assumes fin_refs: "finite {rid. \<exists>c. look rid = Inr c}"
begin

lemma expand_step_returns:
  assumes nested: "\<And>rid c. look rid = Inr c \<Longrightarrow> rid \<notin> path \<Longrightarrow>
      \<exists>r. expandChain fs look (rJumpHost (ResolveWith c fs)) [] None (insert rid path) {rid} = Some r"
  shows "\<exists>r. expandChain fs look cur hops net path owner = Some r"
proof (induction cur arbitrary: hops net rule: hopList.induct)
  case 1
  show ?case by (simp add: expandChain_Nil)
next
  case (2 h p u a cid via n)
  let ?h = "JumpHostSpec h p u a cid via n"
  show ?case
  proof (cases cid)
    case None
    then show ?thesis using 2 by (simp add: expandChain_plain)
  next
    case (Some rid)
    consider "rid = []" | "rid \<noteq> []" "rid \<in> owner"
      | e where "rid \<noteq> []" "rid \<notin> owner" "look rid = Inl e"
      | c where "rid \<noteq> []" "rid \<notin> owner" "look rid = Inr c" "rid \<in> path"
      | c where "rid \<noteq> []" "rid \<notin> owner" "look rid = Inr c" "rid \<notin> path" "hops \<noteq> []"
      | c where "rid \<noteq> []" "rid \<notin> owner" "look rid = Inr c" "rid \<notin> path" "hops = []"
      by (cases "look rid") blast+
    then show ?thesis
    proof cases
      case 1
      then show ?thesis using Some by (subst expandChain.simps) simp
    next
      case 6
      then obtain r where r: "expandChain fs look (rJumpHost (ResolveWith c fs)) [] None
          (insert rid path) {rid} = Some r" using nested by blast
      show ?thesis
      proof (cases r)
        case (Inl e)
        with 6 Some r show ?thesis by (simp add: expandChain_nested_error)
      next
        case (Inr v)
        with 6 Some r 2 show ?thesis by (cases v) (simp add: expandChain_nested)
      qed
    qed (use Some 2 in \<open>simp_all add: expandChain_owner expandChain_error expandChain_loop
           expandChain_routed\<close>)
  qed
qed

lemma expand_returns: "\<exists>r. expandChain fs look cur hops net path owner = Some r"
proof (induction "card ({rid. \<exists>c. look rid = Inr c} - path)" arbitrary: cur hops net path owner
    rule: less_induct)
  case less
  show ?case
  proof (rule expand_step_returns)
    fix rid c
    assume "look rid = Inr c" "rid \<notin> path"
    then have "card ({rid. \<exists>c. look rid = Inr c} - insert rid path)
        < card ({rid. \<exists>c. look rid = Inr c} - path)"
      using fin_refs by (intro psubset_card_mono) auto
    then show "\<exists>r. expandChain fs look (rJumpHost (ResolveWith c fs)) [] None (insert rid path) {rid}
        = Some r" by (rule less)
  qed
qed

lemma ExpandJumpRefs_returns: "\<exists>r. ExpandJumpRefs self rs selfID fs look = Some r"
proof -
  obtain r where "expandChain fs look (rJumpHost rs) [] None (selfNames self selfID)
      (selfNames self selfID) = Some r" using expand_returns by blast
  then show ?thesis by (cases r) (auto simp: ExpandJumpRefs_def)
qed

end

lemma foldl_upd: "foldl (\<lambda>idx c. idx(k c \<mapsto> c)) m cs x = Some c \<Longrightarrow> m x = Some c \<or> (c \<in> set cs \<and> k c = x)"
  by (induction cs arbitrary: m) (fastforce split: if_splits)+

lemma connIndex_Some: "connIndex conns cid = Some c \<Longrightarrow> c \<in> set conns \<and> cID c = cid"
  using foldl_upd [of cID Map.empty conns cid c] by (simp add: connIndex_def)

lemma savedOnly_finite: "finite {rid. \<exists>c. LookupFrom None conns rid = Inr c}"
proof (rule finite_subset)
  show "{rid. \<exists>c. LookupFrom None conns rid = Inr c} \<subseteq> cID ` set conns"
    by (auto simp: LookupFrom_def lookupDynamic_def split: if_splits option.splits dest!: connIndex_Some)
qed simp

interpretation saved: finite_lookup "LookupFrom None conns" for conns
  by unfold_locales (rule savedOnly_finite)

lemma dyn_finite:
  assumes "finite {ref. \<exists>c. inventory ref = Inr c}"
  shows "finite {rid. \<exists>c. LookupFrom (Some inventory) conns rid = Inr c}"
proof (rule finite_subset)
  show "{rid. \<exists>c. LookupFrom (Some inventory) conns rid = Inr c} \<subseteq>
      cID ` set conns \<union> {ref. \<exists>c. inventory ref = Inr c}"
    by (auto simp: LookupFrom_def lookupDynamic_def split: if_splits option.splits dest!: connIndex_Some)
qed (simp add: assms)

section \<open>Properties\<close>

text \<open>C18: expanding the jump hosts of a connection always returns, an error or a settled chain,
  whatever the stored connections and folders are: bastions whose stored chains refer to each
  other, or to themselves, do not make it recurse forever. The inventory may be wired or not; it
  need only have finitely many hosts.\<close>
theorem expand_terminates:
  assumes "finite {ref. \<exists>c. inventory ref = Inr c}"
  shows "(\<exists>r. ExpandJumpRefs self rs selfID folders (LookupFrom None conns) = Some r) \<and>
    (\<exists>r. ExpandJumpRefs self rs selfID folders (LookupFrom (Some inventory) conns) = Some r)"
proof -
  have "finite_lookup (LookupFrom (Some inventory) conns)"
    by unfold_locales (rule dyn_finite [OF assms])
  then show ?thesis
    by (simp add: saved.ExpandJumpRefs_returns finite_lookup.ExpandJumpRefs_returns)
qed

text \<open>A small tree for the witnesses: the target \<open>t\<close> and the bastion \<open>b\<close>.\<close>

definition hostNamed :: "string \<Rightarrow> string \<Rightarrow> connection" where
  "hostNamed cid host = \<lparr>cID = cid, cFolderID = None, cName = cid, cHostname = host, cSortOrder = 0,
     cProtocol = ''ssh'', cLocalShellKind = None, cLocalShellDir = None, cOverrides = noSettings,
     cTags = [], cNotes = [], cFavorite = False, cOpenHidden = False, cIconImageID = None,
     cIconName = None, cIconColor = None, cLastUsedAt = None, cCreatedAt = 0, cUpdatedAt = 0,
     cPasswordVaultKey = None, cVncPasswordVaultKey = None\<rparr>"

definition refHop :: "string \<Rightarrow> jumpHostSpec option \<Rightarrow> jumpHostSpec" where
  "refHop rid via = JumpHostSpec [] None None None (Some rid) via []"

definition plainHop :: "string \<Rightarrow> jumpHostSpec option \<Rightarrow> jumpHostSpec" where
  "plainHop host via = JumpHostSpec host None None None None via []"

definition jumpsThrough :: "jumpHostSpec \<Rightarrow> resolvedSettings" where
  "jumpsThrough h = (ResolveWith (hostNamed ''t'' ''target'') [])\<lparr>rJumpHost := Some h\<rparr>"

lemma hop_accessors [simp]:
  "jConnectionID (refHop rid via) = Some rid" "jVia (refHop rid via) = via"
  "jConnectionID (plainHop h via) = None" "jVia (plainHop h via) = via"
  "rJumpHost (jumpsThrough h') = Some h'" "cID (hostNamed i h) = i" "cName (hostNamed i h) = i"
  by (simp_all add: refHop_def plainHop_def jumpsThrough_def hostNamed_def)

lemma selfNames_None [simp]: "selfNames None x = (if x = [] then {} else {x})"
  by (simp add: selfNames_def)

lemma resolve_hostNamed [simp]: "ResolveWith (hostNamed i h) [] =
    finalize (mergeSettings noSettings noSettings) h"
  by (simp add: ResolveWith_def hostNamed_def ancestorChain_def climb.simps)

lemma expand_terminates_witness:
  "(\<exists>r. ExpandJumpRefs None (jumpsThrough (refHop ''t'' None)) ''t'' [] (LookupFrom None []) = Some r) \<and>
   (\<exists>r. ExpandJumpRefs None (jumpsThrough (refHop ''t'' None)) ''t'' []
      (LookupFrom (Some (\<lambda>r. Inl (DeletedRef r))) []) = Some r)"
  by (rule expand_terminates) simp

text \<open>what reaches the SSH layer never holds a reference to a saved connection, has at most
  sixteen hops when it had references, and differs from the resolved settings in the jump chain
  and the network profile only; a profile the connection set itself is kept.\<close>
lemma expanded_chain_is_plain:
  assumes "ExpandJumpRefs self rs selfID folders lookup = Some (Inr rs')"
  shows "\<not> HasJumpRefs (rJumpHost rs') \<and>
    (HasJumpRefs (rJumpHost rs) \<longrightarrow> length (hopList (rJumpHost rs')) \<le> maxJumpHops) \<and>
    rs' = rs\<lparr>rJumpHost := rJumpHost rs', rNetworkProfileID := rNetworkProfileID rs'\<rparr> \<and>
    (rNetworkProfileID rs \<noteq> None \<longrightarrow> rNetworkProfileID rs' = rNetworkProfileID rs)"
proof (cases "HasJumpRefs (rJumpHost rs)")
  case True
  then obtain hops net where ex: "expandChain folders lookup (rJumpHost rs) [] None
        (selfNames self selfID) (selfNames self selfID) = Some (Inr (hops, net))"
    and len: "length hops \<le> maxJumpHops"
    and rs': "rs' = rs\<lparr>rJumpHost := relink hops, rNetworkProfileID :=
        (if rNetworkProfileID rs = None \<and> net \<noteq> None then net else rNetworkProfileID rs)\<rparr>"
    using assms by (auto simp: ExpandJumpRefs_def bind_hops_Inr split: if_splits)
  from expandChain_no_refs [OF ex] have "\<not> HasJumpRefs (relink hops)"
    by (simp add: HasJumpRefs_relink plainHops_def)
  then show ?thesis using len rs' by (simp add: length_hopList_relink)
qed (use assms in \<open>simp add: ExpandJumpRefs_def\<close>)

lemma expanded_chain_is_plain_witness:
  "\<exists>rs'. ExpandJumpRefs None (jumpsThrough (refHop ''b'' None)) ''t'' []
       (LookupFrom None [hostNamed ''b'' ''bastion'']) = Some (Inr rs') \<and>
     \<not> HasJumpRefs (rJumpHost rs')"
proof -
  have "\<exists>rs'. ExpandJumpRefs None (jumpsThrough (refHop ''b'' None)) ''t'' []
       (LookupFrom None [hostNamed ''b'' ''bastion'']) = Some (Inr rs')"
    by (simp add: ExpandJumpRefs_def HasJumpRefs_def hopList_Some expandChain.simps
        LookupFrom_def connIndex_def HasPrefix_iff DynRefPrefix_def maxJumpHops_def
        finalize_def mergeSettings_def noSettings_def effectiveJump_def)
  then show ?thesis using expanded_chain_is_plain by blast
qed

text \<open>A chain whose first hop is a plain host: every later hop stands for exactly one.\<close>

definition routedHop :: "folder list \<Rightarrow> (string \<Rightarrow> connection) \<Rightarrow> jumpHostSpec \<Rightarrow> jumpHostSpec" where
  "routedHop folders conn h = (case jConnectionID h of None \<Rightarrow> setVia None h
     | Some rid \<Rightarrow> connectionHop (ResolveWith (conn rid) folders) (cName (conn rid)))"

lemma expandChain_routed_all:
  assumes "\<forall>h \<in> set (hopList cur). \<forall>rid. jConnectionID h = Some rid \<longrightarrow>
      rid \<noteq> [] \<and> rid \<notin> owner \<and> rid \<notin> path \<and> lookup rid = Inr (conn rid)"
    and "hops \<noteq> []"
  shows "expandChain fs lookup cur hops net path owner =
    Some (Inr (hops @ map (routedHop fs conn) (hopList cur), net))"
  using assms
proof (induction cur arbitrary: hops rule: hopList.induct)
  case (2 h p u a cid via n)
  then show ?case
    by (cases cid) (simp_all add: expandChain_plain expandChain_routed routedHop_def)
qed (simp add: expandChain_Nil)

text \<open>with a plain first hop, the hops before a referenced connection are the route to it: its
  own chain and network profile play no part, every reference becomes one hop with that
  connection's host, port, user and credential, in place, and the others stay as they are.\<close>
lemma route_replaces_own_chain:
  assumes refs: "\<forall>h \<in> set (hopList (Some first)). \<forall>rid. jConnectionID h = Some rid \<longrightarrow>
      rid \<noteq> [] \<and> rid \<notin> selfNames self selfID \<and> lookup rid = Inr (conn rid)"
    and "rJumpHost rs = Some first" "jConnectionID first = None"
    and "length (hopList (Some first)) \<le> maxJumpHops"
    and "HasJumpRefs (Some first)"
  shows "ExpandJumpRefs self rs selfID folders lookup =
    Some (Inr (rs\<lparr>rJumpHost := relink (map (routedHop folders conn) (hopList (Some first)))\<rparr>))"
proof -
  have "expandChain folders lookup (Some first) [] None (selfNames self selfID) (selfNames self selfID)
      = Some (Inr (map (routedHop folders conn) (hopList (Some first)), None))"
    using assms expandChain_routed_all [of "jVia first" _ _ lookup conn "[setVia None first]"]
    by (simp add: expandChain_plain hopList_Some routedHop_def)
  then show ?thesis using assms by (simp add: ExpandJumpRefs_def)
qed

lemma route_replaces_own_chain_witness:
  "ExpandJumpRefs None (jumpsThrough (plainHop ''edge'' (Some (refHop ''b'' None)))) ''t'' []
     (LookupFrom None [hostNamed ''b'' ''bastion'']) =
   Some (Inr ((jumpsThrough (plainHop ''edge'' (Some (refHop ''b'' None))))\<lparr>rJumpHost :=
     relink [plainHop ''edge'' None,
       connectionHop (ResolveWith (hostNamed ''b'' ''bastion'') []) ''b'']\<rparr>))"
  by (subst route_replaces_own_chain [where conn = "\<lambda>_. hostNamed ''b'' ''bastion''" and
        first = "plainHop ''edge'' (Some (refHop ''b'' None))"])
    (simp_all add: hopList_Some HasJumpRefs_def LookupFrom_def connIndex_def HasPrefix_iff
      DynRefPrefix_def maxJumpHops_def routedHop_def setVia_def plainHop_def)

lemma expandChain_plain_prefix:
  "hopList cur = pre @ hopList rest \<Longrightarrow> plainHops pre \<Longrightarrow>
     expandChain fs lookup cur hops net path owner =
     expandChain fs lookup rest (hops @ map (setVia None) pre) net path owner"
proof (induction pre arbitrary: cur hops)
  case Nil
  then show ?case using relink_hopList by (metis append_Nil append_Nil2 list.simps(8))
next
  case (Cons h pre)
  then show ?case by (cases cur) (simp_all add: hopList_Some expandChain_plain)
qed

text \<open>a bastion that meets itself in its (usually inherited) chain keeps only the hops before
  itself: whatever follows the reference to it, resolvable or not, is dropped.\<close>
lemma self_reference_ends_chain:
  assumes "hopList (rJumpHost rs) = pre @ me # rest" "plainHops pre"
    and "jConnectionID me = Some selfID" "selfID \<noteq> []"
    and "length pre \<le> maxJumpHops"
  shows "ExpandJumpRefs self rs selfID folders lookup = Some (Inr (rs\<lparr>rJumpHost := relink pre\<rparr>))"
proof -
  have ex: "\<exists>suf. hopList suf = me # rest"
    using assms(1)
  proof (induction pre arbitrary: rs)
    case Nil
    then show ?case by auto
  next
    case (Cons h pre)
    then obtain x where "rJumpHost rs = Some x" "hopList (jVia x) = pre @ me # rest"
      by (cases "rJumpHost rs") (auto simp: hopList_Some)
    then show ?case using Cons.IH [of "rs\<lparr>rJumpHost := jVia x\<rparr>"] by simp
  qed
  then obtain suf where suf: "hopList suf = me # rest" by blast
  then obtain m where "suf = Some m" by (cases suf) auto
  with suf have "suf = Some me" by (simp add: hopList_Some)
  moreover have "selfID \<in> selfNames self selfID" using assms by (simp add: selfNames_def split: option.split)
  ultimately have "expandChain folders lookup (rJumpHost rs) [] None (selfNames self selfID)
      (selfNames self selfID) = Some (Inr (map (setVia None) pre, None))"
    using assms suf by (subst expandChain_plain_prefix [where rest = suf]) (auto simp: expandChain_owner)
  then show ?thesis
    using assms by (simp add: ExpandJumpRefs_def HasJumpRefs_def relink_setVia)
qed

lemma self_reference_ends_chain_witness:
  "ExpandJumpRefs None (jumpsThrough (plainHop ''edge'' (Some (refHop ''t'' None)))) ''t'' []
     (LookupFrom None []) =
   Some (Inr ((jumpsThrough (plainHop ''edge'' (Some (refHop ''t'' None))))\<lparr>rJumpHost :=
     relink [plainHop ''edge'' (Some (refHop ''t'' None))]\<rparr>))"
  by (rule self_reference_ends_chain [where me = "refHop ''t'' None" and rest = "[]"])
    (simp_all add: hopList_Some maxJumpHops_def)

lemma Index_single: "c \<notin> set f \<Longrightarrow> Index (f @ c # e) [c] = Some (length f)"
  by (induction f) (auto simp: HasPrefix_iff)

lemma Cut_single: "c \<notin> set f \<Longrightarrow> Cut (f @ c # e) [c] = (f, e, True)"
  by (simp add: Cut_def Index_single)

text \<open>A reference to an inventory host reads back as the folder and the provider's id it was
  built from; the id may hold slashes, the folder's may not.\<close>
lemma dynref_roundtrip:
  assumes "CHR ''/'' \<notin> set folderID" "folderID \<noteq> []" "externalID \<noteq> []"
  shows "ParseDynRef (DynRef folderID externalID) = Some (folderID, externalID)"
  using assms by (simp add: ParseDynRef_def DynRef_def Cut_single CutPrefix_def HasPrefix_iff)

lemma dynref_roundtrip_witness:
  "ParseDynRef (DynRef ''f1'' ''node/101'') = Some (''f1'', ''node/101'')"
  by (rule dynref_roundtrip) simp_all

end
