(* ===== verification/Utf8.thy ===== *)
theory Utf8
  imports GoStrings "HOL-Library.Code_Target_Nat"
begin

text \<open>
  Runes: Go's UTF-8 decoding and encoding, and the functions of \<open>unicode\<close> and \<open>strings\<close> that
  work on runes. The tables of \<open>unicode\<close> are written out below U+0100; above that they are the
  argument \<open>ut\<close>, because no part of the modelled source depends on a particular entry.
\<close>

section \<open>Decoding and encoding\<close>

definition contByte :: "char \<Rightarrow> bool" where
  "contByte c \<longleftrightarrow> 0x80 \<le> byte c \<and> byte c \<le> 0xBF"

definition RuneError :: nat where
  "RuneError = 0xFFFD"

text \<open>The second byte a lead byte accepts, as in the table of \<open>unicode/utf8\<close>.\<close>

definition secondOK :: "nat \<Rightarrow> char \<Rightarrow> bool" where
  "secondOK b0 c \<longleftrightarrow> contByte c \<and>
     (b0 = 0xE0 \<longrightarrow> 0xA0 \<le> byte c) \<and> (b0 = 0xED \<longrightarrow> byte c \<le> 0x9F) \<and>
     (b0 = 0xF0 \<longrightarrow> 0x90 \<le> byte c) \<and> (b0 = 0xF4 \<longrightarrow> byte c \<le> 0x8F)"

text \<open>\<open>utf8.DecodeRuneInString\<close> of a non-empty string: the rune and its width.\<close>

definition decodeRune :: "string \<Rightarrow> nat \<times> nat" where
  "decodeRune s = (case s of [] \<Rightarrow> (RuneError, 0)
     | a # r \<Rightarrow>
       let b0 = byte a in
       if b0 < 0x80 then (b0, 1)
       else if b0 < 0xC2 \<or> 0xF4 < b0 then (RuneError, 1)
       else (case r of [] \<Rightarrow> (RuneError, 1)
         | b # r2 \<Rightarrow>
           if \<not> secondOK b0 b then (RuneError, 1)
           else if b0 < 0xE0 then ((b0 - 0xC0) * 64 + (byte b - 0x80), 2)
           else (case r2 of [] \<Rightarrow> (RuneError, 1)
             | c # r3 \<Rightarrow>
               if \<not> contByte c then (RuneError, 1)
               else if b0 < 0xF0
                 then (((b0 - 0xE0) * 64 + (byte b - 0x80)) * 64 + (byte c - 0x80), 3)
               else (case r3 of [] \<Rightarrow> (RuneError, 1)
                 | d # _ \<Rightarrow>
                   if \<not> contByte d then (RuneError, 1)
                   else ((((b0 - 0xF0) * 64 + (byte b - 0x80)) * 64 + (byte c - 0x80)) * 64
                           + (byte d - 0x80), 4)))))"

definition encodeRune :: "nat \<Rightarrow> string" where
  "encodeRune r0 =
     (let r = (if (0xD800 \<le> r0 \<and> r0 \<le> 0xDFFF) \<or> 0x10FFFF < r0 then RuneError else r0) in
      if r < 0x80 then [chr r]
      else if r < 0x800 then [chr (0xC0 + r div 64), chr (0x80 + r mod 64)]
      else if r < 0x10000 then
        [chr (0xE0 + r div 4096), chr (0x80 + r div 64 mod 64), chr (0x80 + r mod 64)]
      else [chr (0xF0 + r div 262144), chr (0x80 + r div 4096 mod 64),
            chr (0x80 + r div 64 mod 64), chr (0x80 + r mod 64)])"

lemma decodeRune_width: "s \<noteq> [] \<Longrightarrow> 1 \<le> snd (decodeRune s) \<and> snd (decodeRune s) \<le> length s"
  by (auto simp: decodeRune_def Let_def split: list.splits)

lemma decodeRune_ascii: "byte c < 0x80 \<Longrightarrow> decodeRune (c # s) = (byte c, 1)"
  by (simp add: decodeRune_def)

text \<open>Decoding never reads past an ASCII byte.\<close>

lemma decodeRune_resync:
  "s \<noteq> [] \<Longrightarrow> byte c < 0x80 \<Longrightarrow> decodeRune (s @ c # b) = decodeRune s"
  by (auto simp: decodeRune_def Let_def contByte_def secondOK_def split: list.splits)

text \<open>The runes of a string, as \<open>range\<close> yields them.\<close>

function runes :: "string \<Rightarrow> nat list" where
  "runes s = (if s = [] then [] else fst (decodeRune s) # runes (drop (snd (decodeRune s)) s))"
  by pat_completeness auto
termination
proof (relation "measure length")
  fix s :: string
  assume "s \<noteq> []"
  then show "(drop (snd (decodeRune s)) s, s) \<in> measure length"
    using decodeRune_width [of s] by (cases s) auto
qed simp

declare runes.simps [simp del]

lemma runes_Nil [simp]: "runes [] = []"
  by (simp add: runes.simps)

lemma runes_ascii: "byte c < 0x80 \<Longrightarrow> runes (c # s) = byte c # runes s"
  by (subst runes.simps) (simp add: decodeRune_ascii)

lemma runes_resync: "byte c < 0x80 \<Longrightarrow> runes (a @ c # b) = runes a @ byte c # runes b"
proof (induction a rule: runes.induct)
  case (1 s)
  show ?case
  proof (cases "s = []")
    case False
    then have "runes (s @ c # b) = fst (decodeRune s) # runes (drop (snd (decodeRune s)) s @ c # b)"
      using 1(2) decodeRune_width [of s] by (subst runes.simps) (simp add: decodeRune_resync)
    then show ?thesis using 1 False by (subst (2) runes.simps) simp
  qed (use 1 in \<open>simp add: runes_ascii\<close>)
qed

section \<open>Letters, digits and case\<close>

record unicodeTables =
  uLetter :: "nat \<Rightarrow> bool"
  uDigit :: "nat \<Rightarrow> bool"
  uUpper :: "nat \<Rightarrow> nat"
  uLower :: "nat \<Rightarrow> nat"

text \<open>Tables that know ASCII only, for concrete inputs.\<close>

definition asciiTables :: unicodeTables where
  "asciiTables = \<lparr>uLetter = \<lambda>_. False, uDigit = \<lambda>_. False, uUpper = \<lambda>r. r, uLower = \<lambda>r. r\<rparr>"

definition IsLetter :: "unicodeTables \<Rightarrow> nat \<Rightarrow> bool" where
  "IsLetter ut r =
     (if r < 0x80 then 65 \<le> r \<and> r \<le> 90 \<or> 97 \<le> r \<and> r \<le> 122
      else if r < 0x100 then r \<in> {0xAA, 0xB5, 0xBA} \<or> 0xC0 \<le> r \<and> r \<noteq> 0xD7 \<and> r \<noteq> 0xF7
      else uLetter ut r)"

definition IsDigit :: "unicodeTables \<Rightarrow> nat \<Rightarrow> bool" where
  "IsDigit ut r = (if r < 0x100 then 48 \<le> r \<and> r \<le> 57 else uDigit ut r)"

text \<open>\<open>unicode.IsSpace\<close> of a rune below U+0100.\<close>

definition IsSpaceLatin1 :: "nat \<Rightarrow> bool" where
  "IsSpaceLatin1 r \<longleftrightarrow> 9 \<le> r \<and> r \<le> 13 \<or> r = 32 \<or> r = 0x85 \<or> r = 0xA0"

definition ToUpperRune :: "unicodeTables \<Rightarrow> nat \<Rightarrow> nat" where
  "ToUpperRune ut r =
     (if r < 0x80 then (if 97 \<le> r \<and> r \<le> 122 then r - 32 else r)
      else if r < 0x100 then
        (if r = 0xB5 then 0x39C else if r = 0xFF then 0x178
         else if 0xE0 \<le> r \<and> r \<noteq> 0xF7 then r - 32 else r)
      else uUpper ut r)"

definition ToLowerRune :: "unicodeTables \<Rightarrow> nat \<Rightarrow> nat" where
  "ToLowerRune ut r =
     (if r < 0x80 then (if 65 \<le> r \<and> r \<le> 90 then r + 32 else r)
      else if r < 0x100 then (if 0xC0 \<le> r \<and> r \<le> 0xDE \<and> r \<noteq> 0xD7 then r + 32 else r)
      else uLower ut r)"

text \<open>
  \<open>strings.ToUpper\<close> and \<open>strings.ToLower\<close>: each rune is mapped and encoded again, an invalid byte
  becoming the encoding of U+FFFD; on an ASCII string this is the byte-wise mapping.
\<close>

definition ToUpper :: "unicodeTables \<Rightarrow> string \<Rightarrow> string" where
  "ToUpper ut s = concat (map (\<lambda>r. encodeRune (ToUpperRune ut r)) (runes s))"

definition ToLower :: "unicodeTables \<Rightarrow> string \<Rightarrow> string" where
  "ToLower ut s = concat (map (\<lambda>r. encodeRune (ToLowerRune ut r)) (runes s))"

text \<open>
  \<open>strings.EqualFold\<close> against an ASCII constant: the only other runes that fold to ASCII letters
  are U+017F (to s) and U+212A (to k).
\<close>

definition foldsTo :: "nat \<Rightarrow> char \<Rightarrow> bool" where
  "foldsTo r c \<longleftrightarrow> (r < 0x80 \<and> lowerA (chr r) = lowerA c) \<or>
     (r = 0x17F \<and> lowerA c = CHR ''s'') \<or> (r = 0x212A \<and> lowerA c = CHR ''k'')"

definition EqualFoldASCII :: "string \<Rightarrow> string \<Rightarrow> bool" where
  "EqualFoldASCII s t = list_all2 foldsTo (runes s) t"

subsection \<open>Facts\<close>

lemma ToUpper_Nil [simp]: "ToUpper ut [] = []"
  by (simp add: ToUpper_def)

lemma encodeRune_ascii: "r < 0x80 \<Longrightarrow> encodeRune r = [chr r]"
  by (simp add: encodeRune_def)

lemma upperRune_ascii: "byte c < 0x80 \<Longrightarrow> encodeRune (ToUpperRune ut (byte c)) = [upperA c]"
  by (simp add: ToUpperRune_def encodeRune_ascii upperA_def isLowerA_def)

lemma lowerRune_ascii: "byte c < 0x80 \<Longrightarrow> encodeRune (ToLowerRune ut (byte c)) = [lowerA c]"
  by (simp add: ToLowerRune_def encodeRune_ascii lowerA_def isUpperA_def)

lemma ToUpper_split: "byte c < 0x80 \<Longrightarrow> ToUpper ut (a @ c # b) = ToUpper ut a @ upperA c # ToUpper ut b"
  by (simp add: ToUpper_def runes_resync upperRune_ascii)

definition asciiStr :: "string \<Rightarrow> bool" where
  "asciiStr s \<longleftrightarrow> list_all (\<lambda>c. byte c < 0x80) s"

lemma runes_asciiStr: "asciiStr s \<Longrightarrow> runes s = map byte s"
  by (induction s) (simp_all add: asciiStr_def runes_ascii)

lemma ToUpper_ascii: "asciiStr s \<Longrightarrow> ToUpper ut s = map upperA s"
  by (induction s) (simp_all add: asciiStr_def ToUpper_def runes_ascii upperRune_ascii)

lemma ToLower_ascii: "asciiStr s \<Longrightarrow> ToLower ut s = map lowerA s"
  by (induction s) (simp_all add: asciiStr_def ToLower_def runes_ascii lowerRune_ascii)

lemma ToUpper_ascii_prefix:
  "asciiStr w \<Longrightarrow> ToUpper ut (w @ b) = map upperA w @ ToUpper ut b"
  by (induction w) (auto simp: asciiStr_def ToUpper_def runes_ascii upperRune_ascii)

end
