(* ===== verification/SqlScan.thy ===== *)
theory SqlScan
  imports Utf8
begin

text \<open>
  The statement scanner of the Database tab, the first half of \<open>internal/dbx/stmt.go\<close>: what is a
  string, a quoted identifier, a comment or a dollar-quoted body in the dialect of each engine,
  and the words of the code that is left. Positions are byte offsets into the whole statement, as
  in the source, because several dialects look at the byte before a quote.
\<close>

section \<open>Engines\<close>

datatype engine = Postgres | MySQL | ClickHouse | OpenSearch | Redis | Oracle | MSSQL | DB2
  | OtherEngine string

section \<open>What is not code\<close>

definition lineEnd :: "string \<Rightarrow> nat \<Rightarrow> nat" where
  "lineEnd s i = (case IndexByte (drop i s) nl of Some j \<Rightarrow> i + j + 1 | None \<Rightarrow> length s)"

function quotedFrom :: "string \<Rightarrow> nat \<Rightarrow> char \<Rightarrow> bool \<Rightarrow> nat" where
  "quotedFrom s j q bs =
     (if j \<ge> length s then length s
      else if s ! j = backslash then quotedFrom s (if bs then j + 2 else j + 1) q bs
      else if s ! j = q then
        (if j + 1 < length s \<and> s ! (j + 1) = q then quotedFrom s (j + 2) q bs else j + 1)
      else quotedFrom s (j + 1) q bs)"
  by pat_completeness auto
termination
  by (relation "measure (\<lambda>(s, j, q, bs). length s - j)") auto

declare quotedFrom.simps [simp del]

definition quoted :: "string \<Rightarrow> nat \<Rightarrow> char \<Rightarrow> bool \<Rightarrow> nat" where
  "quoted s i q bs = quotedFrom s (i + 1) q bs"

definition isIdent :: "unicodeTables \<Rightarrow> nat \<Rightarrow> bool" where
  "isIdent ut c \<longleftrightarrow> c = byte CHR ''_'' \<or> IsLetter ut c \<or> IsDigit ut c"

text \<open>The tag of a dollar quote, \<open>None\<close> when none opens at \<open>i\<close>.\<close>

function dollarTagFrom :: "unicodeTables \<Rightarrow> string \<Rightarrow> nat \<Rightarrow> nat \<Rightarrow> string option" where
  "dollarTagFrom ut s i j =
     (if j \<ge> length s then None
      else if s ! j = CHR ''$'' then Some (take (j + 1 - i) (drop i s))
      else if \<not> isIdent ut (byte (s ! j)) \<or> (j = i + 1 \<and> IsDigit ut (byte (s ! j))) then None
      else dollarTagFrom ut s i (j + 1))"
  by pat_completeness auto
termination
  by (relation "measure (\<lambda>(ut, s, i, j). length s - j)") auto

declare dollarTagFrom.simps [simp del]

definition dollarTag :: "unicodeTables \<Rightarrow> string \<Rightarrow> nat \<Rightarrow> string option" where
  "dollarTag ut s i =
     (if i > 0 \<and> isIdent ut (byte (s ! (i - 1))) then None else dollarTagFrom ut s i (i + 1))"

definition closerOf :: "char \<Rightarrow> char" where
  "closerOf c = (if c = CHR ''['' then CHR '']'' else if c = CHR ''{'' then CHR ''}''
     else if c = CHR ''<'' then CHR ''>'' else if c = CHR ''('' then CHR '')'' else c)"

definition identBefore :: "unicodeTables \<Rightarrow> string \<Rightarrow> nat \<Rightarrow> bool" where
  "identBefore ut s i =
     (if i \<ge> 2 \<and> (s ! (i - 2) = CHR ''n'' \<or> s ! (i - 2) = CHR ''N'')
      then i \<ge> 3 \<and> isIdent ut (byte (s ! (i - 3)))
      else i \<ge> 2 \<and> isIdent ut (byte (s ! (i - 2))))"

text \<open>
  The closing sequence searched is \<open>string(closer)\<close> and a quote: a Go conversion of a byte to a
  string encodes it as a rune.
\<close>

definition oraQQuote :: "unicodeTables \<Rightarrow> string \<Rightarrow> nat \<Rightarrow> nat option" where
  "oraQQuote ut s i =
     (if i = 0 \<or> (s ! (i - 1) \<noteq> CHR ''q'' \<and> s ! (i - 1) \<noteq> CHR ''Q'') \<or> i + 1 \<ge> length s then None
      else if identBefore ut s i then None
      else if s ! (i + 1) \<in> {CHR '' '', tab, nl, cr} then None
      else (case Index (drop (i + 2) s) (encodeRune (byte (closerOf (s ! (i + 1)))) @ [squote]) of
          Some j \<Rightarrow> Some (i + 2 + j + 2)
        | None \<Rightarrow> Some (length s)))"

text \<open>The end of a block comment, nested where the dialect nests them.\<close>

function blockComment :: "bool \<Rightarrow> string \<Rightarrow> nat \<Rightarrow> nat \<Rightarrow> nat" where
  "blockComment nests s j depth =
     (if j + 1 \<ge> length s then length s
      else if s ! j = CHR ''*'' \<and> s ! (j + 1) = CHR ''/'' then
        (if depth - 1 = 0 then j + 2 else blockComment nests s (j + 2) (depth - 1))
      else if s ! j = CHR ''/'' \<and> s ! (j + 1) = CHR ''*'' \<and> nests
        then blockComment nests s (j + 2) (depth + 1)
      else blockComment nests s (j + 1) depth)"
  by pat_completeness auto
termination
  by (relation "measure (\<lambda>(b, s, j, d). length s - j)") auto

declare blockComment.simps [simp del]

definition nestsComments :: "engine \<Rightarrow> bool" where
  "nestsComments eng \<longleftrightarrow> eng \<in> {Postgres, ClickHouse, MSSQL, DB2}"

definition backslashStrings :: "engine \<Rightarrow> string \<Rightarrow> nat \<Rightarrow> bool" where
  "backslashStrings eng s i \<longleftrightarrow>
     eng = MySQL \<or> eng = ClickHouse \<or>
     (\<not> (eng = Oracle \<or> eng = MSSQL \<or> eng = DB2) \<and> i > 0 \<and>
        (s ! (i - 1) = CHR ''E'' \<or> s ! (i - 1) = CHR ''e''))"

text \<open>The cases in the order of the source; \<open>i\<close> is the answer when nothing opens there.\<close>

definition skipNonCode :: "unicodeTables \<Rightarrow> engine \<Rightarrow> string \<Rightarrow> nat \<Rightarrow> nat" where
  "skipNonCode ut eng s i =
     (let c = s ! i; r = drop i s in
      if c = CHR ''-'' \<and> HasPrefix r ''--'' then
        (if eng = MySQL \<and> i + 2 < length s \<and> \<not> IsSpaceLatin1 (byte (s ! (i + 2))) then i
         else lineEnd s i)
      else if c = CHR ''#'' \<and> (eng = MySQL \<or> eng = ClickHouse \<or> eng = OpenSearch) then lineEnd s i
      else if c = CHR ''/'' \<and> HasPrefix r ''//'' \<and> eng = OpenSearch then lineEnd s i
      else if c = CHR ''/'' \<and> HasPrefix r ''/*!'' \<and> eng = MySQL then i
      else if c = CHR ''/'' \<and> HasPrefix r ''/*'' then blockComment (nestsComments eng) s (i + 2) 1
      else if c = squote then
        (case (if eng = Oracle then oraQQuote ut s i else None) of
           Some n \<Rightarrow> n
         | None \<Rightarrow> quoted s i squote (backslashStrings eng s i))
      else if c = CHR ''['' \<and> eng = MSSQL then quoted s i CHR '']'' False
      else if c = dquote then quoted s i dquote (eng = MySQL \<or> eng = ClickHouse)
      else if c = backtick \<and> (eng = MySQL \<or> eng = ClickHouse \<or> eng = OpenSearch)
        then quoted s i backtick (eng = ClickHouse)
      else if c = CHR ''$'' \<and> (eng = Postgres \<or> eng = ClickHouse) then
        (case dollarTag ut s i of
           None \<Rightarrow> i
         | Some tag \<Rightarrow> (case Index (drop (i + length tag) s) tag of
               Some j \<Rightarrow> i + length tag + j + length tag
             | None \<Rightarrow> length s))
      else i)"

section \<open>Where the scanner stops\<close>

lemma lineEnd_bounds: "i < length s \<Longrightarrow> i < lineEnd s i \<and> lineEnd s i \<le> length s"
  using IndexByte_Some [of "drop i s" nl] by (auto simp: lineEnd_def split: option.split)

lemma quotedFrom_bounds: "min j (length s) \<le> quotedFrom s j q bs \<and> quotedFrom s j q bs \<le> length s"
proof (induction s j q bs rule: quotedFrom.induct)
  case (1 s j q bs)
  consider "j \<ge> length s" | "j < length s" "s ! j = backslash"
    | "j < length s" "s ! j \<noteq> backslash" "s ! j = q" | "j < length s" "s ! j \<noteq> backslash" "s ! j \<noteq> q"
    by linarith
  then show ?case
  proof cases
    case 2
    then have "quotedFrom s j q bs = quotedFrom s (if bs then j + 2 else j + 1) q bs"
      by (subst quotedFrom.simps) simp
    then show ?thesis using 1(1) 2 by (cases bs) auto
  next
    case 3
    then have "quotedFrom s j q bs = (if j + 1 < length s \<and> s ! (j + 1) = q
        then quotedFrom s (j + 2) q bs else j + 1)"
      by (subst quotedFrom.simps) simp
    then show ?thesis using 1(2) 3 by (auto split: if_splits)
  next
    case 4
    then have "quotedFrom s j q bs = quotedFrom s (j + 1) q bs"
      by (subst quotedFrom.simps) simp
    then show ?thesis using 1(3) 4 by auto
  qed (simp add: quotedFrom.simps [of s j q bs])
qed

lemma quoted_bounds: "i < length s \<Longrightarrow> i < quoted s i q bs \<and> quoted s i q bs \<le> length s"
  using quotedFrom_bounds [of "i + 1" s q bs] by (simp add: quoted_def)

lemma blockComment_bounds:
  "j \<le> length s \<Longrightarrow> j \<le> blockComment b s j d \<and> blockComment b s j d \<le> length s"
proof (induction b s j d rule: blockComment.induct)
  case (1 b s j d)
  then show ?case by (subst (1 2) blockComment.simps) (auto split: if_splits)
qed

lemma dollarTagFrom_Some:
  "dollarTagFrom ut s i j = Some tag \<Longrightarrow> i < j \<Longrightarrow> i + length tag \<le> length s \<and> 2 \<le> length tag"
proof (induction ut s i j rule: dollarTagFrom.induct)
  case (1 ut s i j)
  then show ?case by (subst (asm) (2) dollarTagFrom.simps) (auto split: if_splits)
qed

lemma dollarTag_Some: "dollarTag ut s i = Some tag \<Longrightarrow> i + length tag \<le> length s \<and> 2 \<le> length tag"
  using dollarTagFrom_Some [of ut s i "i + 1" tag] by (auto simp: dollarTag_def split: if_splits)

lemma oraQQuote_Some: "oraQQuote ut s i = Some n \<Longrightarrow> i < n \<and> n \<le> length s"
proof -
  assume *: "oraQQuote ut s i = Some n"
  then have len: "i + 2 \<le> length s" by (auto simp: oraQQuote_def split: if_splits)
  have pat: "2 \<le> length (encodeRune r @ [squote])" for r by (simp add: encodeRune_def Let_def)
  show ?thesis
  proof (cases "Index (drop (i + 2) s) (encodeRune (byte (closerOf (s ! (i + 1)))) @ [squote])")
    case None
    then show ?thesis using * len by (auto simp: oraQQuote_def split: if_splits)
  next
    case (Some j)
    then have "j + 2 \<le> length (drop (i + 2) s)"
      using Index_Some [OF Some] pat [of "byte (closerOf (s ! (i + 1)))"] by linarith
    then show ?thesis using * len Some by (auto simp: oraQQuote_def split: if_splits)
  qed
qed

lemma skipNonCode_bounds:
  assumes "i < length s"
  shows "i \<le> skipNonCode ut eng s i \<and> skipNonCode ut eng s i \<le> length s"
proof -
  have tag: "i + length tag + j + length tag \<le> length s"
    if "dollarTag ut s i = Some tag" "Index (drop (i + length tag) s) tag = Some j" for tag j
    using Index_Some [OF that(2)] dollarTag_Some [OF that(1)] by auto
  have block: "i \<le> blockComment b s (i + 2) d \<and> blockComment b s (i + 2) d \<le> length s"
    if "HasPrefix (drop i s) ''/*''" for b d
  proof -
    have "2 \<le> length (drop i s)" using that by (cases "drop i s"; cases "tl (drop i s)") auto
    then have "i + 2 \<le> length s" using assms by simp
    then show ?thesis using blockComment_bounds [of "i + 2" s b d] by simp
  qed
  define ok where "ok n \<longleftrightarrow> i \<le> n \<and> n \<le> length s" for n
  have "ok (lineEnd s i)" "ok i" "ok (length s)" "\<And>q b. ok (quoted s i q b)"
    using assms lineEnd_bounds [OF assms] quoted_bounds [OF assms] by (simp_all add: ok_def less_imp_le)
  moreover have "\<And>n. oraQQuote ut s i = Some n \<Longrightarrow> ok n"
    using oraQQuote_Some by (simp add: ok_def less_imp_le)
  moreover have "\<And>b d. HasPrefix (drop i s) ''/*'' \<Longrightarrow> ok (blockComment b s (i + 2) d)"
    using block by (simp add: ok_def)
  moreover have "\<And>tag j. dollarTag ut s i = Some tag \<Longrightarrow> Index (drop (i + length tag) s) tag = Some j \<Longrightarrow>
      ok (i + length tag + j + length tag)"
    using tag by (simp add: ok_def)
  ultimately have "ok (skipNonCode ut eng s i)"
    unfolding skipNonCode_def Let_def by (simp split: option.split)
  then show ?thesis by (simp add: ok_def)
qed

section \<open>Code without its strings and comments\<close>

function codeOnlyFrom :: "unicodeTables \<Rightarrow> engine \<Rightarrow> string \<Rightarrow> nat \<Rightarrow> string" where
  "codeOnlyFrom ut eng s i =
     (if i \<ge> length s then []
      else if skipNonCode ut eng s i > i then CHR '' '' # codeOnlyFrom ut eng s (skipNonCode ut eng s i)
      else s ! i # codeOnlyFrom ut eng s (i + 1))"
  by pat_completeness auto
termination
  by (relation "measure (\<lambda>(ut, e, s, i). length s - i)") auto

declare codeOnlyFrom.simps [simp del]

definition codeOnly :: "unicodeTables \<Rightarrow> engine \<Rightarrow> string \<Rightarrow> string" where
  "codeOnly ut eng s = codeOnlyFrom ut eng s 0"

function stripCommentsFrom :: "unicodeTables \<Rightarrow> engine \<Rightarrow> string \<Rightarrow> nat \<Rightarrow> string" where
  "stripCommentsFrom ut eng s i =
     (if i \<ge> length s then []
      else let n = skipNonCode ut eng s i in
        if n > i then
          (if s ! i \<in> {CHR ''-'', CHR ''#'', CHR ''/''} then '' '' else take (n - i) (drop i s))
            @ stripCommentsFrom ut eng s n
        else s ! i # stripCommentsFrom ut eng s (i + 1))"
  by pat_completeness auto
termination
  by (relation "measure (\<lambda>(ut, e, s, i). length s - i)") auto

declare stripCommentsFrom.simps [simp del]

definition stripComments :: "unicodeTables \<Rightarrow> engine \<Rightarrow> string \<Rightarrow> string" where
  "stripComments ut eng s = stripCommentsFrom ut eng s 0"

section \<open>Words\<close>

text \<open>Where the first keyword starts, past blanks, opening parentheses and comments.\<close>

function leadSkip :: "unicodeTables \<Rightarrow> engine \<Rightarrow> string \<Rightarrow> nat \<Rightarrow> nat" where
  "leadSkip ut eng s i =
     (if i \<ge> length s then i
      else if s ! i \<in> {CHR '' '', tab, nl, cr, CHR ''(''} then leadSkip ut eng s (i + 1)
      else if s ! i \<in> {CHR ''-'', CHR ''#'', CHR ''/''} \<and> skipNonCode ut eng s i > i
        then leadSkip ut eng s (skipNonCode ut eng s i)
      else i)"
  by pat_completeness auto
termination
  by (relation "measure (\<lambda>(ut, e, s, i). length s - i)") auto

declare leadSkip.simps [simp del]

definition leadKeyword :: "unicodeTables \<Rightarrow> engine \<Rightarrow> string \<Rightarrow> string" where
  "leadKeyword ut eng stmt =
     ToUpper ut (takeWhile (\<lambda>c. c = CHR ''_'' \<or> IsLetter ut (byte c))
                   (drop (leadSkip ut eng stmt 0) stmt))"

definition msVarSigil :: "engine \<Rightarrow> nat \<Rightarrow> bool" where
  "msVarSigil eng r \<longleftrightarrow> eng = MSSQL \<and> (r = byte CHR ''@'' \<or> r = byte CHR ''#'')"

text \<open>
  The loop of \<open>leadWords\<close> over the bytes of the code, with the word begun; \<open>n\<close> is how many words
  are still wanted, \<open>None\<close> for all of them.
\<close>

fun leadWordsFrom :: "unicodeTables \<Rightarrow> engine \<Rightarrow> nat option \<Rightarrow> string \<Rightarrow> string \<Rightarrow> string list" where
  "leadWordsFrom ut eng n cur [] =
     (if n = Some 0 \<or> cur = [] then [] else [ToUpper ut cur])"
| "leadWordsFrom ut eng n cur (c # code) =
     (if n = Some 0 then []
      else if isIdent ut (byte c) \<or> (cur = [] \<and> msVarSigil eng (byte c))
        then leadWordsFrom ut eng n (cur @ [c]) code
      else if cur \<noteq> [] then
        ToUpper ut cur # leadWordsFrom ut eng (map_option (\<lambda>k. k - 1) n) [] code
      else leadWordsFrom ut eng n [] code)"

definition leadWords :: "unicodeTables \<Rightarrow> engine \<Rightarrow> string \<Rightarrow> nat option \<Rightarrow> string list" where
  "leadWords ut eng stmt n = leadWordsFrom ut eng n [] (codeOnly ut eng stmt)"

text \<open>The loop of \<open>codeWords\<close> over the runes of the code.\<close>

function codeWordsFrom :: "unicodeTables \<Rightarrow> engine \<Rightarrow> string \<Rightarrow> string \<Rightarrow> string list" where
  "codeWordsFrom ut eng cur s =
     (if s = [] then (if cur = [] then [] else [cur])
      else let (r, w) = decodeRune s in
        if isIdent ut r \<or> (cur = [] \<and> msVarSigil eng r)
          then codeWordsFrom ut eng (cur @ take w s) (drop w s)
        else (if cur = [] then [] else [cur]) @ codeWordsFrom ut eng [] (drop w s))"
  by pat_completeness auto
termination
proof (relation "measure (\<lambda>(ut, e, cur, s). length s)")
  fix ut eng cur and s :: string and x r w
  assume "s \<noteq> []" "x = decodeRune s" "(r, w) = x"
  then have "1 \<le> w" using decodeRune_width [of s] by (metis snd_conv)
  with \<open>s \<noteq> []\<close> show "((ut, eng, cur @ take w s, drop w s), ut, eng, cur, s)
      \<in> measure (\<lambda>(ut, e, cur, s). length s)"
    and "((ut, eng, [], drop w s), ut, eng, cur, s) \<in> measure (\<lambda>(ut, e, cur, s). length s)"
    by auto
qed simp

declare codeWordsFrom.simps [simp del]

definition codeWords :: "unicodeTables \<Rightarrow> engine \<Rightarrow> string \<Rightarrow> string set" where
  "codeWords ut eng stmt = set (codeWordsFrom ut eng [] (ToUpper ut (codeOnly ut eng stmt)))"

end
