(* ===== verification/SqlGuard.thy ===== *)
theory SqlGuard
  imports SqlScan
begin

text \<open>
  The read-only guard of \<open>internal/dbx/stmt.go\<close> for the SQL engines: which statements a read-only
  connection may run, which are blocks with semicolons of their own, and which open or end a
  transaction. The guard works on the words of the code that \<open>SqlScan\<close> leaves.
\<close>

section \<open>Read keywords\<close>

definition readKeywords :: "string list" where
  "readKeywords = [''SELECT'', ''WITH'', ''SHOW'', ''EXPLAIN'', ''VALUES'', ''TABLE'', ''DESCRIBE'', ''DESC'']"

definition readLead :: "engine \<Rightarrow> string \<Rightarrow> bool" where
  "readLead eng k =
     (if eng = Oracle \<or> eng = MSSQL then k = ''SELECT'' \<or> k = ''WITH''
      else if eng = DB2 then k = ''SELECT'' \<or> k = ''WITH'' \<or> k = ''VALUES''
      else k \<in> set readKeywords \<or> (eng = ClickHouse \<and> k = ''EXISTS''))"

definition msWriteWords :: "string list" where
  "msWriteWords = [
     ''INSERT'', ''UPDATE'', ''DELETE'', ''MERGE'', ''TRUNCATE'', ''DROP'', ''CREATE'', ''ALTER'',
     ''EXEC'', ''EXECUTE'', ''GRANT'', ''REVOKE'', ''DENY'', ''BACKUP'', ''RESTORE'', ''DBCC'',
     ''KILL'', ''SHUTDOWN'', ''RECONFIGURE'', ''BULK'', ''INTO'', ''OPENQUERY'', ''OPENROWSET'',
     ''OPENDATASOURCE'', ''WRITETEXT'', ''UPDATETEXT'', ''BEGIN'', ''COMMIT'', ''ROLLBACK'',
     ''SAVE'', ''USE'', ''SET'']"

text \<open>The first write word, \<open>None\<close> for the empty string of the source.\<close>

definition msWriteWord :: "string set \<Rightarrow> string option" where
  "msWriteWord words = find (\<lambda>w. w \<in> words) msWriteWords"

definition sqlIsRead :: "unicodeTables \<Rightarrow> engine \<Rightarrow> string \<Rightarrow> bool" where
  "sqlIsRead ut eng stmt =
     (let lead = leadKeyword ut eng stmt; words = codeWords ut eng stmt in
      if \<not> readLead eng lead then False
      else if ''INTO'' \<in> words then False
      else if lead = ''WITH'' \<and> (''INSERT'' \<in> words \<or> ''UPDATE'' \<in> words \<or> ''DELETE'' \<in> words
                \<or> ''MERGE'' \<in> words) then False
      else if lead = ''EXPLAIN'' \<and> ''ANALYZE'' \<in> words then False
      else if eng = Oracle \<and> lead = ''WITH'' \<and> (''FUNCTION'' \<in> words \<or> ''PROCEDURE'' \<in> words) then False
      else if eng = MSSQL \<and> msWriteWord words \<noteq> None then False
      else if eng = DB2 \<and> (''INSERT'' \<in> words \<or> ''UPDATE'' \<in> words \<or> ''DELETE'' \<in> words
                \<or> ''MERGE'' \<in> words) then False
      else if (eng = MSSQL \<and> ''NEXT'' \<in> words \<and> ''VALUE'' \<in> words) \<or>
              (eng = DB2 \<and> ((''NEXT'' \<in> words \<and> ''VALUE'' \<in> words) \<or> ''NEXTVAL'' \<in> words)) \<or>
              (eng = Oracle \<and> ''NEXTVAL'' \<in> words) then False
      else True)"

definition returnsRows :: "unicodeTables \<Rightarrow> engine \<Rightarrow> string \<Rightarrow> bool" where
  "returnsRows ut eng stmt =
     (let k = leadKeyword ut eng stmt in
      readLead eng k \<or> k = ''CALL'' \<or> k = ''CHECK'' \<or> k = ''ANALYZE'' \<or>
      k = ''OPTIMIZE'' \<or> k = ''REPAIR'' \<or> k = ''HELP'')"

section \<open>The read-only check\<close>

text \<open>The reasons, each with the word its message names.\<close>

datatype readOnlyError =
    StatementNotAllowed string   \<comment> \<open>the lead keyword, lower-cased, or these\<close>
  | SecondStatement string       \<comment> \<open>T-SQL runs a second statement without a semicolon\<close>
  | SequenceNext                 \<comment> \<open>taking a sequence's next value\<close>
  | PlsqlInQuery                 \<comment> \<open>WITH FUNCTION / PROCEDURE\<close>
  | DataChangeTable              \<comment> \<open>a query over INSERT / UPDATE / DELETE / MERGE\<close>
  | ThisWrites string
  | IntoFile                     \<comment> \<open>SELECT ... INTO OUTFILE / DUMPFILE\<close>
  | RestNotAllowed string        \<comment> \<open>an OpenSearch request\<close>
  | RedisSyntax                  \<comment> \<open>a Redis line that cannot be parsed\<close>
  | RedisNotRead string

definition orWord :: "string \<Rightarrow> string" where
  "orWord k = (if k = [] then ''these'' else k)"

definition sqlCheckReadOnly :: "unicodeTables \<Rightarrow> engine \<Rightarrow> string \<Rightarrow> readOnlyError option" where
  "sqlCheckReadOnly ut eng stmt =
     (let k = leadKeyword ut eng stmt; w = codeWords ut eng stmt; code = ToUpper ut (codeOnly ut eng stmt) in
      if \<not> readLead eng k then Some (StatementNotAllowed (ToLower ut (orWord k)))
      else if eng = MSSQL \<and> msWriteWord w \<noteq> None then Some (SecondStatement (the (msWriteWord w)))
      else if ((eng = MSSQL \<or> eng = DB2) \<and> ''NEXT'' \<in> w \<and> ''VALUE'' \<in> w) \<or>
              ((eng = Oracle \<or> eng = DB2) \<and> ''NEXTVAL'' \<in> w) then Some SequenceNext
      else if eng = Oracle \<and> k = ''WITH'' \<and> \<not> sqlIsRead ut eng stmt \<and>
              (''FUNCTION'' \<in> w \<or> ''PROCEDURE'' \<in> w) then Some PlsqlInQuery
      else if eng = DB2 \<and> \<not> sqlIsRead ut eng stmt \<and>
              (''INSERT'' \<in> w \<or> ''UPDATE'' \<in> w \<or> ''DELETE'' \<in> w \<or> ''MERGE'' \<in> w) then Some DataChangeTable
      else if \<not> sqlIsRead ut eng stmt then Some (ThisWrites (ToLower ut k))
      else if eng = MySQL \<and> (Contains code ''OUTFILE'' \<or> Contains code ''DUMPFILE'') then Some IntoFile
      else None)"

section \<open>Blocks and transactions\<close>

definition wordAt :: "string list \<Rightarrow> nat \<Rightarrow> string" where
  "wordAt w i = (if i < length w then w ! i else [])"

definition blockStmt :: "unicodeTables \<Rightarrow> engine \<Rightarrow> string \<Rightarrow> bool" where
  "blockStmt ut eng stmt =
     (let w = leadWords ut eng stmt (Some 5); at = wordAt w in
      if eng = Oracle then
        (if at 0 = ''DECLARE'' \<or> at 0 = ''BEGIN'' then True
         else if at 0 = ''WITH'' then at 1 = ''FUNCTION'' \<or> at 1 = ''PROCEDURE''
         else if at 0 = ''CREATE'' then
           (let i = (if at 1 = ''OR'' \<and> at 2 = ''REPLACE'' then 3 else 1);
                j = (if at i = ''EDITIONABLE'' \<or> at i = ''NONEDITIONABLE'' then i + 1 else i)
            in at j \<in> {''PROCEDURE'', ''FUNCTION'', ''PACKAGE'', ''TRIGGER'', ''TYPE''})
         else False)
      else if eng = DB2 then
        (if at 0 = ''BEGIN'' then True
         else if at 0 = ''CREATE'' then
           (let i = (if at 1 = ''OR'' \<and> at 2 = ''REPLACE'' then 3 else 1)
            in at i \<in> {''PROCEDURE'', ''FUNCTION'', ''TRIGGER'', ''MODULE''})
         else at 0 = ''ALTER'' \<and> at 1 = ''MODULE'')
      else if eng = MSSQL then
        (if at 0 \<in> {''DECLARE'', ''IF'', ''WHILE''} then True
         else if at 0 = ''BEGIN'' then at 1 \<notin> {''TRAN'', ''TRANSACTION'', ''DISTRIBUTED''}
         else if at 0 = ''CREATE'' \<or> at 0 = ''ALTER'' then
           (let i = (if at 0 = ''CREATE'' \<and> at 1 = ''OR'' \<and> at 2 = ''ALTER'' then 3 else 1)
            in at i \<in> {''PROCEDURE'', ''PROC'', ''FUNCTION'', ''TRIGGER''})
         else False)
      else False)"

definition msRoutine :: "unicodeTables \<Rightarrow> engine \<Rightarrow> string \<Rightarrow> bool" where
  "msRoutine ut eng stmt =
     (let w = leadWords ut eng stmt (Some 4) in
      if length w < 2 \<or> (w ! 0 \<noteq> ''CREATE'' \<and> w ! 0 \<noteq> ''ALTER'') then False
      else w ! (if w ! 0 = ''CREATE'' \<and> length w > 3 \<and> w ! 1 = ''OR'' \<and> w ! 2 = ''ALTER'' then 3 else 1)
             \<in> {''PROCEDURE'', ''PROC'', ''FUNCTION'', ''TRIGGER''})"

fun txWord :: "string list \<Rightarrow> bool" where
  "txWord [] = False"
| "txWord (k # ks) =
     (if k \<in> {''COMMIT'', ''ROLLBACK'', ''SAVE''} then True
      else if k = ''BEGIN'' \<and> (case ks of [] \<Rightarrow> False
              | t # _ \<Rightarrow> t \<in> {''TRAN'', ''TRANSACTION'', ''DISTRIBUTED''}) then True
      else txWord ks)"

definition IsTxControl :: "unicodeTables \<Rightarrow> engine \<Rightarrow> string \<Rightarrow> bool" where
  "IsTxControl ut eng stmt =
     (let w = leadWords ut eng stmt (Some 2); second = (if length w > 1 then w ! 1 else []);
          k = leadKeyword ut eng stmt in
      if eng = Oracle then
        (if k \<in> {''COMMIT'', ''ROLLBACK'', ''SAVEPOINT''} then True
         else if k = ''SET'' then second = ''TRANSACTION'' else False)
      else if eng = DB2 then k \<in> {''COMMIT'', ''ROLLBACK'', ''SAVEPOINT'', ''RELEASE''}
      else if eng = MSSQL then
        txWord (if blockStmt ut eng stmt \<and> \<not> msRoutine ut eng stmt then leadWords ut eng stmt None else w)
      else k \<in> {''BEGIN'', ''START'', ''COMMIT'', ''END'', ''ROLLBACK'', ''SAVEPOINT'', ''RELEASE'', ''ABORT''})"

section \<open>Words at ASCII boundaries\<close>

definition wordBreak :: "char \<Rightarrow> bool" where
  "wordBreak c \<longleftrightarrow> byte c < 0x80 \<and> \<not> (isUpperA c \<or> isLowerA c \<or> isDigitA c) \<and>
     c \<notin> {CHR ''_'', CHR ''@'', CHR ''#''}"

lemma wordBreak_props:
  assumes "wordBreak c"
  shows "byte c < 0x80" "\<not> isIdent ut (byte c)" "\<not> msVarSigil eng (byte c)" "upperA c = c"
proof -
  show "byte c < 0x80" using assms by (simp add: wordBreak_def)
  have "c \<noteq> CHR ''_''" "c \<noteq> CHR ''@''" "c \<noteq> CHR ''#''" using assms by (auto simp: wordBreak_def)
  then have "byte c \<noteq> byte CHR ''_''" "byte c \<noteq> byte CHR ''@''" "byte c \<noteq> byte CHR ''#''"
    by simp_all
  with assms show "\<not> isIdent ut (byte c)" "\<not> msVarSigil eng (byte c)"
    by (auto simp: wordBreak_def isIdent_def msVarSigil_def IsLetter_def IsDigit_def isUpperA_def
        isLowerA_def isDigitA_def)
  show "upperA c = c" using assms by (simp add: wordBreak_def upperA_def)
qed

lemma codeWordsFrom_break:
  assumes "wordBreak c"
  shows "codeWordsFrom ut eng cur (a @ c # b) = codeWordsFrom ut eng cur a @ codeWordsFrom ut eng [] b"
proof (induction ut eng cur a rule: codeWordsFrom.induct)
  case (1 ut eng cur s)
  note c = wordBreak_props [OF assms]
  show ?case
  proof (cases "s = []")
    case True
    then show ?thesis using c by (simp add: codeWordsFrom.simps [of _ _ cur] decodeRune_ascii)
  next
    case False
    obtain r w where rw: "decodeRune s = (r, w)" by fastforce
    with False have "w \<le> length s" using decodeRune_width [of s] by simp
    then have "decodeRune (s @ c # b) = (r, w)" "take w (s @ c # b) = take w s"
      "drop w (s @ c # b) = drop w s @ c # b"
      using rw decodeRune_resync [OF False c(1)] by simp_all
    then show ?thesis
      using False rw 1(1) [OF False rw [symmetric] refl] 1(2) [OF False rw [symmetric] refl]
      by (simp add: codeWordsFrom.simps [of _ _ cur s] codeWordsFrom.simps [of _ _ cur "s @ c # b"])
  qed
qed

definition asciiWord :: "string \<Rightarrow> bool" where
  "asciiWord w \<longleftrightarrow> w \<noteq> [] \<and> list_all (\<lambda>c. isUpperA c \<or> isLowerA c \<or> isDigitA c \<or> c = CHR ''_'') w"

lemma asciiWord_ascii: "asciiWord w \<Longrightarrow> asciiStr w"
  by (auto simp: asciiWord_def asciiStr_def list_all_iff isUpperA_def isLowerA_def isDigitA_def byte_def)

lemma codeWordsFrom_word:
  "list_all (\<lambda>c. byte c < 0x80 \<and> isIdent ut (byte c)) w \<Longrightarrow>
     codeWordsFrom ut eng cur w = (if cur @ w = [] then [] else [cur @ w])"
proof (induction w arbitrary: cur)
  case Nil
  then show ?case by (subst codeWordsFrom.simps) simp
next
  case (Cons c w)
  then show ?case by (subst codeWordsFrom.simps) (simp add: decodeRune_ascii)
qed

lemma wordChar_upper:
  assumes "isUpperA c \<or> isLowerA c \<or> isDigitA c \<or> c = CHR ''_''"
  shows "byte (upperA c) < 0x80 \<and> isIdent ut (byte (upperA c))"
proof (cases "isLowerA c")
  case True
  moreover have "byte (chr (byte c - 32)) = byte c - 32"
    by (rule byte_chr) (use byte_less [of c] in linarith)
  moreover have "65 \<le> byte c - 32 \<and> byte c - 32 \<le> 90" using True by (auto simp: isLowerA_def)
  ultimately show ?thesis using True by (simp add: upperA_def isIdent_def IsLetter_def)
next
  case False
  then have "upperA c = c" by (simp add: upperA_def)
  moreover have "isUpperA c \<or> isDigitA c \<or> byte c = byte CHR ''_''" using False assms by blast
  ultimately show ?thesis
    by (elim disjE) (simp_all add: isUpperA_def isDigitA_def isIdent_def IsLetter_def IsDigit_def byte_def)
qed

lemma asciiWord_upper:
  "asciiWord w \<Longrightarrow> list_all (\<lambda>c. byte c < 0x80 \<and> isIdent ut (byte c)) (map upperA w)"
  using wordChar_upper by (simp add: asciiWord_def list_all_iff)

text \<open>A word of the code between breaks is among the words, whatever is around it.\<close>

lemma codeWords_complete:
  assumes code: "codeOnly ut eng stmt = pre @ w @ post" and w: "asciiWord w"
    and pre: "pre = [] \<or> wordBreak (last pre)" and post: "post = [] \<or> wordBreak (hd post)"
  shows "map upperA w \<in> codeWords ut eng stmt"
proof -
  have up: "ToUpper ut (w @ post) = map upperA w @ ToUpper ut post"
    using asciiWord_ascii [OF w] by (rule ToUpper_ascii_prefix)
  have one: "codeWordsFrom ut eng [] (map upperA w) = [map upperA w]"
    using codeWordsFrom_word [OF asciiWord_upper [OF w]] w by (simp add: asciiWord_def)
  have tail: "map upperA w \<in> set (codeWordsFrom ut eng [] (ToUpper ut (w @ post)))"
  proof (cases post)
    case Nil
    then show ?thesis using up one by simp
  next
    case (Cons d post')
    then have d: "wordBreak d" using post by simp
    have "ToUpper ut post = d # ToUpper ut post'"
      using ToUpper_split [of d ut "[]" post'] wordBreak_props [OF d] Cons by simp
    then show ?thesis using up one codeWordsFrom_break [OF d] by simp
  qed
  show ?thesis
  proof (cases "pre = []")
    case True
    then show ?thesis using tail code by (simp add: codeWords_def)
  next
    case False
    then obtain pre' c where pre': "pre = pre' @ [c]" by (metis append_butlast_last_id)
    then have c: "wordBreak c" using pre by simp
    have "ToUpper ut (codeOnly ut eng stmt) = ToUpper ut pre' @ c # ToUpper ut (w @ post)"
      using code pre' ToUpper_split [of c ut pre'] wordBreak_props [OF c] by simp
    then show ?thesis using tail codeWordsFrom_break [OF c] by (simp add: codeWords_def)
  qed
qed

section \<open>Properties\<close>

text \<open>What a read may not hold, as the guard's comments state it.\<close>

definition writeWords :: "engine \<Rightarrow> string \<Rightarrow> string list" where
  "writeWords eng lead = [''INTO'']
     @ (if lead = ''WITH'' \<or> eng = DB2 then [''INSERT'', ''UPDATE'', ''DELETE'', ''MERGE''] else [])
     @ (if lead = ''EXPLAIN'' then [''ANALYZE''] else [])
     @ (if eng = Oracle \<and> lead = ''WITH'' then [''FUNCTION'', ''PROCEDURE''] else [])
     @ (if eng = Oracle \<or> eng = DB2 then [''NEXTVAL''] else [])
     @ (if eng = MSSQL then msWriteWords else [])"

lemma msWriteWord_None: "msWriteWord words = None \<longleftrightarrow> set msWriteWords \<inter> words = {}"
  by (auto simp: msWriteWord_def find_None_iff)

lemma sqlIsRead_D:
  assumes "sqlIsRead ut eng stmt"
  defines "k \<equiv> leadKeyword ut eng stmt" and "W \<equiv> codeWords ut eng stmt"
  shows "readLead eng k" "''INTO'' \<notin> W"
    "k = ''WITH'' \<or> eng = DB2 \<Longrightarrow> ''INSERT'' \<notin> W \<and> ''UPDATE'' \<notin> W \<and> ''DELETE'' \<notin> W \<and> ''MERGE'' \<notin> W"
    "k = ''EXPLAIN'' \<Longrightarrow> ''ANALYZE'' \<notin> W"
    "eng = Oracle \<Longrightarrow> k = ''WITH'' \<Longrightarrow> ''FUNCTION'' \<notin> W \<and> ''PROCEDURE'' \<notin> W"
    "eng = MSSQL \<Longrightarrow> msWriteWord W = None"
    "eng = Oracle \<or> eng = DB2 \<Longrightarrow> ''NEXTVAL'' \<notin> W"
    "eng = MSSQL \<or> eng = DB2 \<Longrightarrow> \<not> (''NEXT'' \<in> W \<and> ''VALUE'' \<in> W)"
  using assms(1) unfolding sqlIsRead_def Let_def k_def [symmetric] W_def [symmetric]
  by (simp_all split: if_splits) blast+

lemma sqlIsRead_words:
  assumes "sqlIsRead ut eng stmt"
  shows "readLead eng (leadKeyword ut eng stmt) \<and>
     set (writeWords eng (leadKeyword ut eng stmt)) \<inter> codeWords ut eng stmt = {}"
proof -
  note r = sqlIsRead_D [OF assms]
  have if_empty: "set (if b then xs else []) \<inter> W = {} \<longleftrightarrow> (b \<longrightarrow> set xs \<inter> W = {})"
    for b W and xs :: "string list" by (cases b) auto
  show ?thesis
    unfolding writeWords_def set_append Int_Un_distrib2 Un_empty if_empty
    using r by (auto simp: msWriteWord_None)
qed

lemma sqlCheckReadOnly_None_iff:
  "sqlCheckReadOnly ut eng stmt = None \<longleftrightarrow> sqlIsRead ut eng stmt \<and>
     \<not> (eng = MySQL \<and> (Contains (ToUpper ut (codeOnly ut eng stmt)) ''OUTFILE'' \<or>
                       Contains (ToUpper ut (codeOnly ut eng stmt)) ''DUMPFILE''))"
proof (cases "sqlIsRead ut eng stmt")
  case True
  note r = sqlIsRead_D [OF True]
  have A: "\<not> (eng = MSSQL \<and> msWriteWord (codeWords ut eng stmt) \<noteq> None)" using r(6) by auto
  have B: "\<not> (((eng = MSSQL \<or> eng = DB2) \<and> ''NEXT'' \<in> codeWords ut eng stmt \<and> ''VALUE'' \<in> codeWords ut eng stmt) \<or>
      ((eng = Oracle \<or> eng = DB2) \<and> ''NEXTVAL'' \<in> codeWords ut eng stmt))" using r(7,8) by blast
  show ?thesis
    unfolding sqlCheckReadOnly_def Let_def if_not_P [OF A] if_not_P [OF B] using True r(1) by auto
qed (simp add: sqlCheckReadOnly_def Let_def)


text \<open>The check run before a statement and the classification shown in the editor agree: a
  statement passes exactly when it is a read and, on MySQL, names no OUTFILE or DUMPFILE.\<close>

lemma readonly_check_is_isread:
  "sqlCheckReadOnly ut eng stmt = None \<longleftrightarrow> sqlIsRead ut eng stmt \<and>
     (eng \<noteq> MySQL \<or> \<not> (Contains (ToUpper ut (codeOnly ut eng stmt)) ''OUTFILE'' \<or>
                       Contains (ToUpper ut (codeOnly ut eng stmt)) ''DUMPFILE''))"
  using sqlCheckReadOnly_None_iff by auto


text \<open>Two places where the scanner and the server disagree: on Postgres a string right after a
  keyword that ends in E, such as LIKE, is taken for an escape string, and on Oracle the closing
  delimiter of a q-quote is looked up as the encoding of its first byte, so a delimiter outside
  ASCII is never found. What follows is hidden from the guard.\<close>

lemma scanner_gaps:
  "sqlIsRead asciiTables Postgres (''SELECT a FROM t WHERE a LIKE'' @ [squote, backslash, squote] @ '' INTO x --'' @ [squote]) \<and>
   \<not> sqlIsRead asciiTables Postgres (''SELECT a FROM t WHERE a LIKE '' @ [squote, backslash, squote] @ '' INTO x --'' @ [squote]) \<and>
   sqlIsRead asciiTables Oracle (''SELECT q'' @ [squote, CHR 0xC3, CHR 0xA9] @ ''a'' @ [CHR 0xC3, CHR 0xA9, squote] @ '' INTO x FROM t'') \<and>
   \<not> sqlIsRead asciiTables Oracle (''SELECT q'' @ [squote, CHR ''!''] @ ''a'' @ [CHR ''!'', squote] @ '' INTO x FROM t'')"
  by code_simp

end
