(* ===== verification/SqlSplit.thy ===== *)
theory SqlSplit
  imports SqlGuard
begin

text \<open>
  Splitting a script into statements, \<open>Split\<close> and \<open>StatementAt\<close> of \<open>internal/dbx/stmt.go\<close>: the
  loop over the script with the statements so far, the start of the one begun, where the last GO
  batch starts, and whether the statement begun is a block. A Go slice expression of the source
  is always within bounds here, which the loop invariant shows.
\<close>

section \<open>Statements\<close>

record stmt =
  sText :: string
  sStart :: nat
  sEnd :: nat

definition slice :: "string \<Rightarrow> nat \<Rightarrow> nat \<Rightarrow> string" where
  "slice s i j = take (j - i) (drop i s)"

text \<open>What \<open>emit(end)\<close> appends.\<close>

definition emit :: "unicodeTables \<Rightarrow> engine \<Rightarrow> string \<Rightarrow> nat \<Rightarrow> nat \<Rightarrow> stmt list" where
  "emit ut eng script start end =
     (let text = TrimSpace (slice script start end) in
      if text \<noteq> [] \<and> leadKeyword ut eng text \<noteq> [] then
        (let off = start + (case Index (slice script start end) text of Some k \<Rightarrow> k | None \<Rightarrow> 0)
         in [\<lparr>sText = text, sStart = off, sEnd = off + length text\<rparr>])
      else [])"

section \<open>GO lines\<close>

definition maxGoStatements :: nat where
  "maxGoStatements = 100000"

definition goFits :: "nat \<Rightarrow> nat \<Rightarrow> nat \<Rightarrow> bool" where
  "goFits tot batch count =
     (if count \<le> 1 \<or> batch = 0 then True
      else tot \<le> maxGoStatements \<and> batch \<le> (maxGoStatements - tot) div (count - 1))"

definition pending :: "unicodeTables \<Rightarrow> engine \<Rightarrow> string \<Rightarrow> nat" where
  "pending ut eng text =
     (let t = TrimSpace text in if t \<noteq> [] \<and> leadKeyword ut eng t \<noteq> [] then 1 else 0)"

text \<open>The next line and the repeat count, when the line at \<open>i\<close> ends a statement or a batch.\<close>

definition terminatorLine :: "engine \<Rightarrow> string \<Rightarrow> nat \<Rightarrow> (nat \<times> nat) option" where
  "terminatorLine eng s i =
     (if eng \<noteq> Oracle \<and> eng \<noteq> MSSQL \<and> eng \<noteq> DB2 then None
      else let n = lineEnd s i; line = TrimSpace (slice s i n) in
        if eng = Oracle then (if line = ''/'' then Some (n, 1) else None)
        else if eng = DB2 then (if line = ''@'' \<or> line = ''/'' then Some (n, 1) else None)
        else let f = Fields (case Index line ''--'' of Some j \<Rightarrow> take j line | None \<Rightarrow> line) in
          if f = [] \<or> length f > 2 \<or> \<not> EqualFoldASCII (f ! 0) ''GO'' then None
          else if length f = 2 then
            (case Atoi (f ! 1) of
               None \<Rightarrow> None
             | Some c \<Rightarrow> if c < 1 \<or> c > int maxGoStatements then None else Some (n, nat c))
          else Some (n, 1))"

section \<open>The loop\<close>

text \<open>The GO line at \<open>i\<close> that the loop acts on.\<close>

definition goLine :: "unicodeTables \<Rightarrow> engine \<Rightarrow> string \<Rightarrow> nat \<Rightarrow> stmt list \<Rightarrow> nat \<Rightarrow> nat \<Rightarrow> (nat \<times> nat) option" where
  "goLine ut eng script i out start batch =
     (if i = 0 \<or> script ! (i - 1) = nl then
        (case terminatorLine eng script i of
           None \<Rightarrow> None
         | Some (n, count) \<Rightarrow>
             (let p = pending ut eng (slice script start i) in
              if goFits (length out + p) (length out - batch + p) count then Some (n, count) else None))
      else None)"

text \<open>
  \<open>blk\<close> is the pair \<open>blockFrom\<close>, \<open>block\<close>, with \<open>None\<close> for the initial -1. A GO line runs its batch
  \<open>count\<close> times.
\<close>

function splitLoop :: "unicodeTables \<Rightarrow> engine \<Rightarrow> string \<Rightarrow> nat \<Rightarrow> stmt list \<Rightarrow> nat \<Rightarrow> nat \<Rightarrow>
    (nat \<times> bool) option \<Rightarrow> stmt list" where
  "splitLoop ut eng script i out start batch blk =
     (if i \<ge> length script then out @ emit ut eng script start (length script)
      else case goLine ut eng script i out start batch of
        Some (n, count) \<Rightarrow>
          (let out1 = out @ emit ut eng script start i;
               out2 = out1 @ concat (replicate (count - 1) (drop batch out1))
           in if n > i then splitLoop ut eng script n out2 n (length out2) blk else out2)
      | None \<Rightarrow>
        if skipNonCode ut eng script i > i
        then splitLoop ut eng script (skipNonCode ut eng script i) out start batch blk
        else if script ! i = CHR '';'' then
          (let blk' = (if map_option fst blk \<noteq> Some start
                       then Some (start, blockStmt ut eng (slice script start i)) else blk)
           in if \<not> (case blk' of Some (_, b) \<Rightarrow> b | None \<Rightarrow> False)
              then splitLoop ut eng script (i + 1) (out @ emit ut eng script start i) (i + 1) batch blk'
              else splitLoop ut eng script (i + 1) out start batch blk')
        else splitLoop ut eng script (i + 1) out start batch blk)"
  by pat_completeness auto
termination
  by (relation "measure (\<lambda>(ut, eng, script, i, out, start, batch, blk). length script - i)") auto

declare splitLoop.simps [simp del]

definition sqlSplit :: "unicodeTables \<Rightarrow> engine \<Rightarrow> string \<Rightarrow> stmt list" where
  "sqlSplit ut eng script = splitLoop ut eng script 0 [] 0 0 None"

text \<open>
  \<open>StatementAt\<close> over the statements of the script: the first whose range holds the offset, else
  the last that starts at or before it, else the first.
\<close>

fun statementFrom :: "stmt list \<Rightarrow> nat \<Rightarrow> stmt \<Rightarrow> stmt" where
  "statementFrom [] offset best = best"
| "statementFrom (s # ss) offset best =
     (let best' = (if sStart s \<le> offset then s else best) in
      if offset \<ge> sStart s \<and> offset \<le> sEnd s then s else statementFrom ss offset best')"

definition statementIn :: "stmt list \<Rightarrow> nat \<Rightarrow> stmt option" where
  "statementIn stmts offset = (case stmts of [] \<Rightarrow> None | s # _ \<Rightarrow> Some (statementFrom stmts offset s))"

section \<open>The loop invariant\<close>

text \<open>A statement is the text of its range, and a range of the script.\<close>

definition stmtOK :: "string \<Rightarrow> stmt \<Rightarrow> bool" where
  "stmtOK script st \<longleftrightarrow> sEnd st \<le> length script \<and> sStart st < sEnd st \<and>
     sText st = slice script (sStart st) (sEnd st)"

lemma Index_le: "Index s p = Some i \<Longrightarrow> i + length p \<le> length s"
  using Index_Some by blast

lemma TrimSpace_Index: "\<exists>k. Index s (TrimSpace s) = Some k"
  using TrimSpace_sublist [of s] by (metis Contains_def Contains_iff option.exhaust)

lemma emit_cases:
  assumes "start \<le> e" "e \<le> length script"
  shows "emit ut eng script start e = [] \<or>
    (\<exists>st. emit ut eng script start e = [st] \<and> stmtOK script st \<and> start \<le> sStart st \<and> sEnd st \<le> e)"
proof (cases "emit ut eng script start e = []")
  case False
  let ?t = "TrimSpace (slice script start e)"
  obtain k where k: "Index (slice script start e) ?t = Some k" using TrimSpace_Index by blast
  then have le: "k + length ?t \<le> e - start" and eq: "take (length ?t) (drop k (slice script start e)) = ?t"
    using Index_Some [OF k] assms by (auto simp: slice_def)
  from le have len: "length ?t \<le> e - (start + k)" by simp
  have "?t \<noteq> []" using False by (auto simp: emit_def Let_def)
  moreover have "emit ut eng script start e =
      [\<lparr>sText = ?t, sStart = start + k, sEnd = start + k + length ?t\<rparr>]"
    using False k by (auto simp: emit_def Let_def split: if_splits)
  moreover have "slice script (start + k) (start + k + length ?t) = ?t"
    using eq len by (simp add: slice_def drop_take add.commute min_absorb1)
  ultimately show ?thesis using le assms by (auto simp: stmtOK_def)
qed simp

lemma emit_pending: "length (emit ut eng script start i) = pending ut eng (slice script start i)"
  by (simp add: emit_def pending_def Let_def)

lemma terminatorLine_next:
  "terminatorLine eng s i = Some (n, count) \<Longrightarrow> i < length s \<Longrightarrow> i < n \<and> n \<le> length s \<and> 1 \<le> count"
  using lineEnd_bounds [of i s]
  by (auto simp: terminatorLine_def Let_def split: if_splits option.splits)

lemma goLine_Some:
  assumes "goLine ut eng script i out start batch = Some (n, count)" "i < length script"
  shows "i < n \<and> n \<le> length script \<and> 1 \<le> count \<and>
    goFits (length out + pending ut eng (slice script start i))
      (length out - batch + pending ut eng (slice script start i)) count"
  using assms terminatorLine_next
  by (auto simp: goLine_def Let_def split: if_splits option.splits prod.splits)

text \<open>
  What is kept by every turn of the loop holds when it ends. The interface: the loop acts on its
  state by a GO line, by moving on, or by ending a statement at a semicolon.
\<close>

locale split_invariant =
  fixes ut :: unicodeTables and eng :: engine and script :: string
    and I :: "nat \<Rightarrow> stmt list \<Rightarrow> nat \<Rightarrow> nat \<Rightarrow> bool"
  assumes go: "I i out start batch \<Longrightarrow> i < length script \<Longrightarrow>
      goLine ut eng script i out start batch = Some (n, count) \<Longrightarrow>
      out1 = out @ emit ut eng script start i \<Longrightarrow>
      out2 = out1 @ concat (replicate (count - 1) (drop batch out1)) \<Longrightarrow>
      I n out2 n (length out2)"
    and move: "I i out start batch \<Longrightarrow> i < j \<Longrightarrow> j \<le> length script \<Longrightarrow> I j out start batch"
    and semi: "I i out start batch \<Longrightarrow> i < length script \<Longrightarrow>
      I (i + 1) (out @ emit ut eng script start i) (i + 1) batch"
begin

lemma loop_end:
  "I i out start batch \<Longrightarrow> \<exists>i' out' start' batch'. length script \<le> i' \<and> I i' out' start' batch' \<and>
     splitLoop ut eng script i out start batch blk = out' @ emit ut eng script start' (length script)"
proof (induction "length script - i" arbitrary: i out start batch blk rule: less_induct)
  case less
  note IH = less(1) and I = less(2)
  let ?L = "splitLoop ut eng script i out start batch blk"
  show ?case
  proof (cases "i < length script")
    case False
    then have "?L = out @ emit ut eng script start (length script)"
      by (subst splitLoop.simps) simp
    then show ?thesis using I False by (meson leI)
  next
    case True
    note step = splitLoop.simps [of ut eng script i out start batch blk]
    show ?thesis
    proof (cases "goLine ut eng script i out start batch")
      case (Some nc)
      obtain n count where nc: "nc = (n, count)" by fastforce
      define out2 where "out2 = (out @ emit ut eng script start i) @
          concat (replicate (count - 1) (drop batch (out @ emit ut eng script start i)))"
      have n: "i < n" using goLine_Some Some nc True by blast
      then have "?L = splitLoop ut eng script n out2 n (length out2) blk"
        using True Some nc by (subst step) (simp add: out2_def Let_def)
      moreover have "I n out2 n (length out2)" using go I True Some nc out2_def by blast
      ultimately show ?thesis using IH [of n] n True by simp
    next
      case None
      let ?j = "skipNonCode ut eng script i"
      consider "?j > i" | "?j \<le> i" "script ! i \<noteq> CHR '';''" | "?j \<le> i" "script ! i = CHR '';''"
        by linarith
      then show ?thesis
      proof cases
        case 1
        then have "?L = splitLoop ut eng script ?j out start batch blk"
          using True None by (subst step) simp
        moreover have "I ?j out start batch" using move I 1 skipNonCode_bounds [OF True] by blast
        ultimately show ?thesis using IH [of ?j] 1 True by simp
      next
        case 2
        then have "?L = splitLoop ut eng script (i + 1) out start batch blk"
          using True None by (subst step) simp
        moreover have "I (i + 1) out start batch" using move I True by simp
        ultimately show ?thesis using IH [of "i + 1"] True by simp
      next
        case 3
        define blk' where "blk' = (if map_option fst blk \<noteq> Some start
            then Some (start, blockStmt ut eng (slice script start i)) else blk)"
        have "?L = (if \<not> (case blk' of Some (_, b) \<Rightarrow> b | None \<Rightarrow> False)
            then splitLoop ut eng script (i + 1) (out @ emit ut eng script start i) (i + 1) batch blk'
            else splitLoop ut eng script (i + 1) out start batch blk')"
          using 3 True None unfolding blk'_def by (subst step) (simp add: Let_def)
        moreover have "I (i + 1) out start batch" using move I True by simp
        moreover have "I (i + 1) (out @ emit ut eng script start i) (i + 1) batch"
          using semi I True by blast
        ultimately show ?thesis using IH [of "i + 1"] True by (auto split: if_splits)
      qed
    qed
  qed
qed

lemma split_end:
  assumes "I 0 [] 0 0"
  obtains i out start batch where "length script \<le> i" "I i out start batch"
    "sqlSplit ut eng script = out @ emit ut eng script start (length script)"
  using loop_end [OF assms, of None] that by (auto simp: sqlSplit_def)

end

subsection \<open>Its three uses\<close>

definition rangesInv :: "string \<Rightarrow> nat \<Rightarrow> stmt list \<Rightarrow> nat \<Rightarrow> nat \<Rightarrow> bool" where
  "rangesInv script i out start batch \<longleftrightarrow> start \<le> i \<and> i \<le> length script \<and> (\<forall>st \<in> set out. stmtOK script st)"

lemma emit_ok: "start \<le> e \<Longrightarrow> e \<le> length script \<Longrightarrow> st \<in> set (emit ut eng script start e) \<Longrightarrow> stmtOK script st"
  using emit_cases [of start e script ut eng] by auto

lemma set_repeat: "set (concat (replicate k (drop b xs))) \<subseteq> set xs"
  by (auto dest: in_set_dropD)

interpretation ranges: split_invariant ut eng script "rangesInv script" for ut eng script
proof (unfold_locales, goal_cases)
  case (1 i out start batch n count out1 out2)
  have "set out2 \<subseteq> set out1" using 1(5) set_repeat [of "count - 1" batch out1] by auto
  then show ?case using 1 goLine_Some [OF 1(3,2)] emit_ok [of start i script _ ut eng]
    by (auto simp: rangesInv_def)
qed (use emit_ok in \<open>auto simp: rangesInv_def\<close>)

definition orderInv :: "engine \<Rightarrow> string \<Rightarrow> nat \<Rightarrow> stmt list \<Rightarrow> nat \<Rightarrow> nat \<Rightarrow> bool" where
  "orderInv eng script i out start batch \<longleftrightarrow> start \<le> i \<and> i \<le> length script \<and>
     (eng \<noteq> MSSQL \<longrightarrow> sorted_wrt (\<lambda>a b. sEnd a \<le> sStart b) out \<and> (\<forall>st \<in> set out. sEnd st \<le> start))"

lemma emit_order:
  assumes "sorted_wrt (\<lambda>a b. sEnd a \<le> sStart b) out" "\<forall>st \<in> set out. sEnd st \<le> start"
    "start \<le> e" "e \<le> length script"
  shows "sorted_wrt (\<lambda>a b. sEnd a \<le> sStart b) (out @ emit ut eng script start e) \<and>
    (\<forall>st \<in> set (out @ emit ut eng script start e). sEnd st \<le> e)"
  using assms emit_cases [of start e script ut eng] by (fastforce simp: sorted_wrt_append)

lemma terminatorLine_count: "terminatorLine eng s i = Some (n, count) \<Longrightarrow> eng \<noteq> MSSQL \<Longrightarrow> count = 1"
  by (auto simp: terminatorLine_def Let_def split: if_splits)

lemma goLine_count: "goLine ut eng s i out start batch = Some (n, count) \<Longrightarrow> eng \<noteq> MSSQL \<Longrightarrow> count = 1"
  using terminatorLine_count by (auto simp: goLine_def Let_def split: if_splits option.splits)

interpretation order: split_invariant ut eng script "orderInv eng script" for ut eng script
proof (unfold_locales, goal_cases)
  case (1 i out start batch n count out1 out2)
  have "eng \<noteq> MSSQL \<Longrightarrow> out2 = out1" using goLine_count [OF 1(3)] 1(5) by simp
  moreover have g: "i < n" "n \<le> length script" using goLine_Some [OF 1(3,2)] by auto
  moreover have "eng \<noteq> MSSQL \<Longrightarrow> sorted_wrt (\<lambda>a b. sEnd a \<le> sStart b) out1 \<and> (\<forall>st \<in> set out1. sEnd st \<le> i)"
    using 1(1,2,4) emit_order [of out start i script ut eng] by (simp add: orderInv_def)
  ultimately show ?case by (fastforce simp: orderInv_def)
next
  case (3 i out start batch)
  then show ?case using emit_order [of out start i script ut eng]
    by (auto simp: orderInv_def intro: le_SucI)
qed (auto simp: orderInv_def)

definition countInv :: "string \<Rightarrow> nat \<Rightarrow> stmt list \<Rightarrow> nat \<Rightarrow> nat \<Rightarrow> bool" where
  "countInv script i out start batch \<longleftrightarrow> start \<le> i \<and> i \<le> length script \<and> batch \<le> length out \<and>
     length out \<le> maxGoStatements + start"

lemma emit_length: "length (emit ut eng script start e) \<le> 1"
  by (simp add: emit_def Let_def)

lemma goFits_bound:
  "goFits tot batch count \<Longrightarrow> tot \<le> maxGoStatements + k \<Longrightarrow> tot + (count - 1) * batch \<le> maxGoStatements + k"
proof -
  assume fit: "goFits tot batch count" and tot: "tot \<le> maxGoStatements + k"
  show ?thesis
  proof (cases "count \<le> 1 \<or> batch = 0")
    case False
    then have "tot \<le> maxGoStatements" "batch \<le> (maxGoStatements - tot) div (count - 1)"
      using fit by (auto simp: goFits_def)
    then have "tot \<le> maxGoStatements" "batch * (count - 1) \<le> maxGoStatements - tot"
      using False by (auto simp: less_eq_div_iff_mult_less_eq)
    then show ?thesis by (simp add: mult.commute)
  qed (use tot in auto)
qed

interpretation counted: split_invariant ut eng script "countInv script" for ut eng script
proof (unfold_locales, goal_cases)
  case (1 i out start batch n count out1 out2)
  let ?p = "pending ut eng (slice script start i)"
  have l1: "length out1 = length out + ?p" "?p \<le> 1"
    using 1(4) by (simp_all add: emit_pending) (simp add: pending_def Let_def)
  have g: "i < n" "n \<le> length script" "goFits (length out + ?p) (length out - batch + ?p) count"
    using goLine_Some [OF 1(3,2)] by auto
  have "length out2 = (length out + ?p) + (count - 1) * (length out - batch + ?p)"
    using 1(1,5) l1 by (simp add: countInv_def length_concat sum_list_replicate)
  moreover have "length out + ?p \<le> maxGoStatements + n"
    using 1(1) g(1) l1(2) by (simp add: countInv_def)
  ultimately have "length out2 \<le> maxGoStatements + n" using goFits_bound [OF g(3)] by simp
  then show ?case using g by (simp add: countInv_def)
next
  case (3 i out start batch)
  then show ?case using emit_length [of ut eng script start i] by (auto simp: countInv_def)
qed (auto simp: countInv_def)

end
