(* ===== verification/RedisStmt.thy ===== *)
theory RedisStmt
  imports SqlSplit
begin

text \<open>
  Redis command lines, \<open>internal/dbx/redis_stmt.go\<close>: splitting a script into lines and a line into
  arguments the way redis-cli does, which commands only read, and the redaction of passwords
  before a command is stored.
\<close>

section \<open>Lines\<close>

function rdSplitFrom :: "string \<Rightarrow> nat \<Rightarrow> stmt list" where
  "rdSplitFrom script off =
     (if off \<ge> length script then []
      else let e = (case IndexByte (drop off script) nl of None \<Rightarrow> length script | Some k \<Rightarrow> k + off);
               line = slice script off e; text = TrimSpace line;
               s = off + (case Index line text of Some k \<Rightarrow> k | None \<Rightarrow> 0)
           in (if text \<noteq> [] \<and> \<not> HasPrefix text ''#'' \<and> \<not> HasPrefix text ''//''
               then [\<lparr>sText = text, sStart = s, sEnd = s + length text\<rparr>] else [])
              @ rdSplitFrom script (e + 1))"
  by pat_completeness auto
termination
  by (relation "measure (\<lambda>(script, off). length script - off)") (auto split: option.splits)

declare rdSplitFrom.simps [simp del]

definition rdSplit :: "string \<Rightarrow> stmt list" where
  "rdSplit script = rdSplitFrom script 0"

section \<open>Arguments\<close>

datatype argError = UnbalancedQuotes | QuoteNotFollowedBySpace

definition rdBlank :: "char \<Rightarrow> bool" where
  "rdBlank c \<longleftrightarrow> c = CHR '' '' \<or> c = tab \<or> c = cr"

definition hexVal :: "char \<Rightarrow> nat option" where
  "hexVal c = (if isDigitA c then Some (byte c - 48)
     else if 97 \<le> byte c \<and> byte c \<le> 102 then Some (byte c - 87)
     else if 65 \<le> byte c \<and> byte c \<le> 70 then Some (byte c - 55) else None)"

definition hexPair :: "char \<Rightarrow> char \<Rightarrow> nat option" where
  "hexPair a b = (case (hexVal a, hexVal b) of (Some x, Some y) \<Rightarrow> Some (16 * x + y) | _ \<Rightarrow> None)"

text \<open>
  The byte a backslash and \<open>e\<close> stand for, and what is left; then the loops inside quotes, which
  return the argument and what follows the closing quote, \<open>None\<close> when there is none.
\<close>

definition dqEscape :: "char \<Rightarrow> string \<Rightarrow> char \<times> string" where
  "dqEscape e r =
     (if e = CHR ''n'' then (nl, r)
      else if e = CHR ''r'' then (cr, r)
      else if e = CHR ''t'' then (tab, r)
      else if e = CHR ''b'' then (CHR 0x08, r)
      else if e = CHR ''a'' then (CHR 0x07, r)
      else if e = CHR ''x'' then
        (case r of h1 # h2 # r2 \<Rightarrow> (case hexPair h1 h2 of Some v \<Rightarrow> (chr v, r2) | None \<Rightarrow> (e, r))
         | _ \<Rightarrow> (e, r))
      else (e, r))"

lemma dqEscape_length: "length (snd (dqEscape e r)) \<le> length r"
  by (auto simp: dqEscape_def split: list.splits option.splits)

function dqArg :: "string \<Rightarrow> string \<Rightarrow> (string \<times> string) option" where
  "dqArg b s = (case s of [] \<Rightarrow> None
     | c # r \<Rightarrow>
       if c = dquote then Some (b, r)
       else if c = backslash \<and> r \<noteq> [] then
         dqArg (b @ [fst (dqEscape (hd r) (tl r))]) (snd (dqEscape (hd r) (tl r)))
       else dqArg (b @ [c]) r)"
  by pat_completeness auto
termination
proof (relation "measure (\<lambda>(b, s). length s)", goal_cases)
  case (2 b s c r)
  then show ?case using dqEscape_length [of "hd r" "tl r"] by (cases r) auto
qed auto

declare dqArg.simps [simp del]

fun sqArg :: "string \<Rightarrow> string \<Rightarrow> (string \<times> string) option" where
  "sqArg b [] = None"
| "sqArg b (c # r) =
     (if c = squote then Some (b, r)
      else if c = backslash then
        (case r of [] \<Rightarrow> sqArg (b @ [c]) r
         | e # r1 \<Rightarrow> if e = squote then sqArg (b @ [squote]) r1 else sqArg (b @ [c]) r)
      else sqArg (b @ [c]) r)"

lemma dqArg_length: "dqArg b s = Some (a, r) \<Longrightarrow> length r < length s"
proof (induction "length s" arbitrary: b s rule: less_induct)
  case less
  show ?case
  proof (cases s)
    case (Cons c t)
    have esc: "t \<noteq> [] \<Longrightarrow> length (snd (dqEscape (hd t) (tl t))) < length s"
      using Cons dqEscape_length [of "hd t" "tl t"] by (cases t) auto
    show ?thesis
      using less(2) Cons less(1) [of "snd (dqEscape (hd t) (tl t))"] less(1) [of t] esc
      by (subst (asm) dqArg.simps) (fastforce split: if_splits)
  qed (use less(2) in \<open>simp add: dqArg.simps\<close>)
qed

lemma sqArg_length: "sqArg b s = Some (a, r) \<Longrightarrow> length r < length s"
  by (induction b s rule: sqArg.induct) (force split: if_splits list.splits)+

function rdArgsFrom :: "string list \<Rightarrow> string \<Rightarrow> argError + string list" where
  "rdArgsFrom out line =
     (case dropWhile rdBlank line of
        [] \<Rightarrow> Inr out
      | c # r \<Rightarrow>
        if c = dquote \<or> c = squote then
          (case (if c = dquote then dqArg [] r else sqArg [] r) of
             None \<Rightarrow> Inl UnbalancedQuotes
           | Some (a, rest) \<Rightarrow>
               if rest \<noteq> [] \<and> \<not> rdBlank (hd rest) then Inl QuoteNotFollowedBySpace
               else rdArgsFrom (out @ [a]) rest)
        else rdArgsFrom (out @ [takeWhile (\<lambda>x. \<not> rdBlank x) (c # r)])
               (dropWhile (\<lambda>x. \<not> rdBlank x) (c # r)))"
  by pat_completeness auto
termination
proof (relation "measure (\<lambda>(out, line). length line)", goal_cases)
  case (2 out line c r x a rest)
  have "length (c # r) \<le> length line" using 2(1) by (metis length_dropWhile_le)
  then show ?case using 2 dqArg_length sqArg_length by (fastforce split: if_splits)
next
  case (3 out line c r)
  have "length (c # r) \<le> length line" "\<not> rdBlank c"
    using 3(1) by (metis length_dropWhile_le) (metis 3(1) dropWhile_Cons_hd)
  then show ?case using length_dropWhile_le [of "\<lambda>x. \<not> rdBlank x" r] by simp
qed simp

declare rdArgsFrom.simps [simp del]

definition rdArgs :: "string \<Rightarrow> argError + string list" where
  "rdArgs line = rdArgsFrom [] line"

section \<open>Commands\<close>

definition rdRefused :: "string list" where
  "rdRefused = [''MONITOR'', ''SUBSCRIBE'', ''PSUBSCRIBE'', ''SSUBSCRIBE'', ''SYNC'', ''PSYNC'',
     ''HELLO'', ''RESET'', ''QUIT'']"

datatype refusal = TakesOver string | ClientReply

text \<open>\<open>None\<close> is the empty reason; the caller has at least one argument.\<close>

definition rdRefuse :: "unicodeTables \<Rightarrow> string list \<Rightarrow> refusal option" where
  "rdRefuse ut args =
     (let cmd = ToUpper ut (hd args) in
      if cmd \<in> set rdRefused then Some (TakesOver cmd)
      else if cmd = ''CLIENT'' \<and> length args > 1 \<and> EqualFoldASCII (args ! 1) ''REPLY'' then Some ClientReply
      else None)"

text \<open>The two maps \<open>init\<close> fills from the words of its literals.\<close>

definition rdReadCmds :: "string list" where
  "rdReadCmds = [
     ''GET'', ''MGET'', ''GETRANGE'', ''SUBSTR'', ''STRLEN'', ''GETBIT'', ''BITCOUNT'',
     ''BITPOS'', ''BITFIELD_RO'', ''LCS'', ''EXISTS'', ''TYPE'', ''TTL'', ''PTTL'',
     ''EXPIRETIME'', ''PEXPIRETIME'', ''KEYS'', ''SCAN'', ''RANDOMKEY'', ''DBSIZE'', ''DUMP'',
     ''SORT_RO'', ''HGET'', ''HMGET'', ''HGETALL'', ''HKEYS'', ''HVALS'', ''HLEN'', ''HEXISTS'',
     ''HSTRLEN'', ''HSCAN'', ''HRANDFIELD'', ''HTTL'', ''HPTTL'', ''HEXPIRETIME'',
     ''HPEXPIRETIME'', ''LRANGE'', ''LLEN'', ''LINDEX'', ''LPOS'', ''SMEMBERS'', ''SISMEMBER'',
     ''SMISMEMBER'', ''SCARD'', ''SRANDMEMBER'', ''SSCAN'', ''SINTER'', ''SUNION'', ''SDIFF'',
     ''SINTERCARD'', ''ZRANGE'', ''ZRANGEBYSCORE'', ''ZRANGEBYLEX'', ''ZREVRANGE'',
     ''ZREVRANGEBYSCORE'', ''ZREVRANGEBYLEX'', ''ZCARD'', ''ZCOUNT'', ''ZLEXCOUNT'', ''ZSCORE'',
     ''ZMSCORE'', ''ZRANK'', ''ZREVRANK'', ''ZSCAN'', ''ZRANDMEMBER'', ''ZINTER'', ''ZUNION'',
     ''ZDIFF'', ''ZINTERCARD'', ''XRANGE'', ''XREVRANGE'', ''XLEN'', ''XPENDING'', ''XREAD'',
     ''GEOPOS'', ''GEODIST'', ''GEOHASH'', ''GEORADIUS_RO'', ''GEORADIUSBYMEMBER_RO'',
     ''GEOSEARCH'', ''PFCOUNT'', ''INFO'', ''PING'', ''ECHO'', ''TIME'', ''LASTSAVE'', ''ROLE'',
     ''SELECT'', ''EVAL_RO'', ''EVALSHA_RO'', ''FCALL_RO'', ''JSON.GET'', ''JSON.MGET'',
     ''JSON.TYPE'', ''JSON.STRLEN'', ''JSON.OBJKEYS'', ''JSON.OBJLEN'', ''JSON.ARRLEN'',
     ''JSON.ARRINDEX'', ''JSON.RESP'', ''FT.SEARCH'', ''FT.INFO'', ''FT._LIST'', ''FT.EXPLAIN'',
     ''FT.PROFILE'', ''FT.TAGVALS'', ''FT.SPELLCHECK'', ''TS.GET'', ''TS.MGET'', ''TS.RANGE'',
     ''TS.REVRANGE'', ''TS.MRANGE'', ''TS.MREVRANGE'', ''TS.INFO'', ''TS.QUERYINDEX'',
     ''BF.EXISTS'', ''BF.MEXISTS'', ''BF.INFO'', ''CF.EXISTS'', ''CF.COUNT'', ''CF.INFO'']"

definition rdReadSubs :: "(string \<times> string list) list" where
  "rdReadSubs = [
     (''OBJECT'', [''ENCODING'', ''FREQ'', ''IDLETIME'', ''REFCOUNT'', ''HELP'']),
     (''MEMORY'', [''USAGE'', ''STATS'', ''DOCTOR'', ''MALLOC-STATS'', ''HELP'']),
     (''XINFO'', [''STREAM'', ''GROUPS'', ''CONSUMERS'', ''HELP'']),
     (''COMMAND'', [''COUNT'', ''DOCS'', ''GETKEYS'', ''GETKEYSANDFLAGS'', ''INFO'', ''LIST'',
       ''HELP'']),
     (''CONFIG'', [''GET'', ''HELP'']),
     (''CLIENT'', [''LIST'', ''INFO'', ''GETNAME'', ''ID'', ''TRACKINGINFO'', ''GETREDIR'',
       ''HELP'']),
     (''SLOWLOG'', [''GET'', ''LEN'', ''HELP'']),
     (''LATENCY'', [''LATEST'', ''HISTORY'', ''DOCTOR'', ''GRAPH'', ''HISTOGRAM'', ''HELP'']),
     (''MODULE'', [''LIST'', ''HELP'']),
     (''ACL'', [''WHOAMI'', ''USERS'', ''CAT'', ''GETUSER'', ''LOG'', ''LIST'', ''DRYRUN'',
       ''HELP'']),
     (''CLUSTER'', [''INFO'', ''NODES'', ''SLOTS'', ''SHARDS'', ''KEYSLOT'', ''COUNTKEYSINSLOT'',
       ''GETKEYSINSLOT'', ''MYID'', ''MYSHARDID'', ''LINKS'', ''HELP'']),
     (''FUNCTION'', [''LIST'', ''STATS'', ''DUMP'', ''HELP'']),
     (''SCRIPT'', [''EXISTS'', ''HELP'']),
     (''PUBSUB'', [''CHANNELS'', ''NUMSUB'', ''NUMPAT'', ''SHARDCHANNELS'', ''SHARDNUMSUB'',
       ''HELP''])]"

text \<open>\<open>None\<close> when the command only reads, else what the message names.\<close>

definition rdReadArgs :: "unicodeTables \<Rightarrow> string list \<Rightarrow> string option" where
  "rdReadArgs ut args =
     (if args = [] then None
      else let cmd = ToUpper ut (hd args) in
        if cmd \<in> set rdReadCmds then None
        else case map_of rdReadSubs cmd of
            Some subs \<Rightarrow>
              (let reset = cmd = ''ACL'' \<and> length args > 2 \<and> EqualFoldASCII (args ! 1) ''LOG'' \<and>
                           EqualFoldASCII (args ! 2) ''RESET'' in
               if length args > 1 \<and> ToUpper ut (args ! 1) \<in> set subs \<and> \<not> reset then None
               else Some (cmd @ (if length args > 1 then '' '' @ ToUpper ut (args ! 1) else [])))
          | None \<Rightarrow> Some cmd)"

definition rdIsRead :: "unicodeTables \<Rightarrow> string \<Rightarrow> bool" where
  "rdIsRead ut stmt = (case rdArgs stmt of Inl _ \<Rightarrow> False | Inr args \<Rightarrow> rdReadArgs ut args = None)"

definition rdCheckReadOnly :: "unicodeTables \<Rightarrow> string \<Rightarrow> readOnlyError option" where
  "rdCheckReadOnly ut stmt = (case rdArgs stmt of
      Inl _ \<Rightarrow> Some RedisSyntax
    | Inr args \<Rightarrow> map_option RedisNotRead (rdReadArgs ut args))"

section \<open>Redaction\<close>

definition isPrintableASCII :: "string \<Rightarrow> bool" where
  "isPrintableASCII s \<longleftrightarrow> list_all (\<lambda>c. 0x20 \<le> byte c \<and> byte c \<le> 0x7e) s"

definition hexDigit :: "nat \<Rightarrow> char" where
  "hexDigit n = (if n < 10 then chr (48 + n) else chr (87 + n))"

definition quoteByte :: "char \<Rightarrow> string" where
  "quoteByte c =
     (if c = dquote \<or> c = backslash then [backslash, c]
      else if c = nl then [backslash, CHR ''n'']
      else if c = cr then [backslash, CHR ''r'']
      else if c = tab then [backslash, CHR ''t'']
      else if byte c < 0x20 \<or> byte c > 0x7e
        then [backslash, CHR ''x'', hexDigit (byte c div 16), hexDigit (byte c mod 16)]
      else [c])"

definition rdQuote :: "string \<Rightarrow> string" where
  "rdQuote a =
     (if a \<noteq> [] \<and> \<not> ContainsAny a [CHR '' '', tab, cr, nl, dquote, squote, backslash] \<and> isPrintableASCII a
      then a else [dquote] @ concat (map quoteByte a) @ [dquote])"

text \<open>
  The positions to hide, as the keys of the Go map \<open>hide\<close> whose value is true; \<open>hideKeys\<close> are all
  its keys, which decide whether the line is rewritten at all.
\<close>

definition aclSecret :: "string \<Rightarrow> bool" where
  "aclSecret a \<longleftrightarrow> (case a of [] \<Rightarrow> False | c # _ \<Rightarrow> c \<in> set ''><#!'')"

definition configSecrets :: "string list" where
  "configSecrets = [''requirepass'', ''masterauth'', ''masteruser'', ''tls-key-file-pass'',
     ''tls-client-key-file-pass'']"

definition hideByCommand :: "unicodeTables \<Rightarrow> string list \<Rightarrow> nat \<Rightarrow> bool" where
  "hideByCommand ut args i =
     (let cmd = ToUpper ut (hd args) in
      if cmd = ''AUTH'' then 1 \<le> i \<and> i < length args \<and> (length args > 3 \<or> i = length args - 1)
      else if cmd = ''CONFIG'' then 3 \<le> i \<and> i < length args \<and> odd i \<and>
        ToLower ut (args ! (i - 1)) \<in> set configSecrets
      else if cmd = ''ACL'' then 2 \<le> i \<and> i < length args \<and> aclSecret (args ! i)
      else False)"

definition hideAfterAuth :: "unicodeTables \<Rightarrow> string list \<Rightarrow> nat \<Rightarrow> bool" where
  "hideAfterAuth ut args i =
     (let cmd = ToUpper ut (hd args) in
      (\<exists>k < length args. 1 \<le> k \<and>
         (ToUpper ut (args ! k) = ''AUTH'' \<and> cmd = ''HELLO'' \<and> i = k + 2 \<or>
          ToUpper ut (args ! k) = ''AUTH'' \<and> cmd \<noteq> ''HELLO'' \<and> cmd \<noteq> ''AUTH'' \<and> i = k + 1 \<or>
          ToUpper ut (args ! k) = ''AUTH2'' \<and> i = k + 2)))"

text \<open>
  The map has a key for each hidden position, and for every argument of an AUTH; a key past the
  last argument counts for its size.
\<close>

definition hideAny :: "unicodeTables \<Rightarrow> string list \<Rightarrow> bool" where
  "hideAny ut args \<longleftrightarrow>
     (ToUpper ut (hd args) = ''AUTH'' \<and> length args > 1) \<or>
     (\<exists>i < length args + 2. hideByCommand ut args i \<or> hideAfterAuth ut args i)"

definition hidden :: "unicodeTables \<Rightarrow> string list \<Rightarrow> nat \<Rightarrow> bool" where
  "hidden ut args i \<longleftrightarrow> hideByCommand ut args i \<or> hideAfterAuth ut args i"

definition stars :: string where "stars = ''***''"

definition rdRedact :: "unicodeTables \<Rightarrow> string \<Rightarrow> string" where
  "rdRedact ut stmt =
     (case rdArgs stmt of
        Inl _ \<Rightarrow> (case Fields stmt of [] \<Rightarrow> stmt | f # _ \<Rightarrow> f @ '' ***'')
      | Inr args \<Rightarrow>
          if args = [] then (case Fields stmt of [] \<Rightarrow> stmt | f # _ \<Rightarrow> f @ '' ***'')
          else if \<not> hideAny ut args then stmt
          else Join (map (\<lambda>i. if hidden ut args i then stars else rdQuote (args ! i)) [0..<length args]) '' '')"

section \<open>Quoting and reading back\<close>

lemma hexVal_hexDigit: "n < 16 \<Longrightarrow> hexVal (hexDigit n) = Some n"
proof -
  assume n: "n < 16"
  show ?thesis
  proof (cases "n < 10")
    case True
    then have "byte (chr (48 + n)) = 48 + n" by (intro byte_chr) simp
    then show ?thesis using True by (simp add: hexVal_def hexDigit_def isDigitA_def)
  next
    case False
    then have "byte (chr (87 + n)) = 87 + n" using n by (intro byte_chr) simp
    then show ?thesis using False n by (simp add: hexVal_def hexDigit_def isDigitA_def)
  qed
qed

lemma hexPair_byte: "hexPair (hexDigit (byte c div 16)) (hexDigit (byte c mod 16)) = Some (byte c)"
proof -
  have "byte c div 16 < 16" using byte_less [of c] by linarith
  then show ?thesis by (simp add: hexPair_def hexVal_hexDigit)
qed

lemma dqArg_quoteByte: "dqArg b (quoteByte c @ r) = dqArg (b @ [c]) r"
  by (subst dqArg.simps) (simp add: quoteByte_def dqEscape_def hexPair_byte)

lemma dqArg_quoted: "dqArg b (concat (map quoteByte a) @ dquote # r) = Some (b @ a, r)"
proof (induction a arbitrary: b)
  case Nil
  show ?case by (simp add: dqArg.simps)
next
  case (Cons c a)
  then show ?case by (simp add: dqArg_quoteByte)
qed

text \<open>A token reads as an argument wherever a line holds it between blanks.\<close>

definition readsAs :: "string \<Rightarrow> string \<Rightarrow> bool" where
  "readsAs t a \<longleftrightarrow> t \<noteq> [] \<and> (\<forall>out rest. rest = [] \<or> rdBlank (hd rest) \<longrightarrow>
     rdArgsFrom out (t @ rest) = rdArgsFrom (out @ [a]) rest)"

lemma rdArgsFrom_blank: "rdBlank c \<Longrightarrow> rdArgsFrom out (c # rest) = rdArgsFrom out rest"
  by (simp add: rdArgsFrom.simps [of out "c # rest"] rdArgsFrom.simps [of out rest])

lemma readsAs_plain:
  assumes "t \<noteq> []" "list_all (\<lambda>c. \<not> rdBlank c \<and> c \<noteq> dquote \<and> c \<noteq> squote) t"
  shows "readsAs t t"
  unfolding readsAs_def
proof (intro conjI allI impI)
  fix out rest
  assume rest: "rest = [] \<or> rdBlank (hd rest)"
  obtain c t' where t: "t = c # t'" using assms(1) by (cases t) auto
  have word: "takeWhile (\<lambda>x. \<not> rdBlank x) (t @ rest) = t" "dropWhile (\<lambda>x. \<not> rdBlank x) (t @ rest) = rest"
    using assms(2) rest by (induction t) (auto simp: takeWhile_eq_Nil_iff dropWhile_eq_self_iff)
  have "dropWhile rdBlank (t @ rest) = t @ rest" using assms(2) t by simp
  then show "rdArgsFrom out (t @ rest) = rdArgsFrom (out @ [t]) rest"
    using assms(2) t word by (subst rdArgsFrom.simps) simp
qed (use assms in simp)

lemma readsAs_quoted: "readsAs ([dquote] @ concat (map quoteByte a) @ [dquote]) a"
  unfolding readsAs_def
proof (intro conjI allI impI)
  fix out rest
  assume rest: "rest = [] \<or> rdBlank (hd rest)"
  have nb: "\<not> rdBlank dquote" by (simp add: rdBlank_def)
  have q: "dqArg [] (concat (map quoteByte a) @ dquote # rest) = Some (a, rest)"
    by (simp add: dqArg_quoted)
  show "rdArgsFrom out (([dquote] @ concat (map quoteByte a) @ [dquote]) @ rest) = rdArgsFrom (out @ [a]) rest"
    using rest nb by (subst rdArgsFrom.simps) (auto simp: q)
qed simp

lemma readsAs_rdQuote: "readsAs (rdQuote a) a"
proof (cases "a \<noteq> [] \<and> \<not> ContainsAny a [CHR '' '', tab, cr, nl, dquote, squote, backslash] \<and> isPrintableASCII a")
  case True
  then have "list_all (\<lambda>c. \<not> rdBlank c \<and> c \<noteq> dquote \<and> c \<noteq> squote) a"
    by (auto simp: ContainsAny_def list_all_iff list_ex_iff rdBlank_def)
  then have "readsAs a a" using True by (intro readsAs_plain) auto
  then show ?thesis unfolding rdQuote_def if_P [OF True] .
next
  case False
  show ?thesis unfolding rdQuote_def if_not_P [OF False] by (rule readsAs_quoted)
qed

lemma readsAs_stars: "readsAs stars stars"
  by (rule readsAs_plain) (simp_all add: stars_def rdBlank_def)

lemma rdArgsFrom_Join:
  "list_all2 readsAs ts as \<Longrightarrow> rdArgsFrom out (Join ts '' '') = Inr (out @ as)"
proof (induction ts as arbitrary: out rule: list_all2_induct)
  case Nil
  show ?case by (simp add: rdArgsFrom.simps)
next
  case (Cons t ts a as)
  have b: "rdBlank CHR '' ''" by (simp add: rdBlank_def)
  show ?case
  proof (cases ts)
    case Nil
    then have "as = []" using Cons by simp
    have "rdArgsFrom out (t @ []) = rdArgsFrom (out @ [a]) []" using Cons(1) unfolding readsAs_def by blast
    then show ?thesis using Nil \<open>as = []\<close> by (simp add: rdArgsFrom.simps [of _ "[]"])
  next
    case (Cons t' ts')
    have "rdArgsFrom out (t @ CHR '' '' # Join ts '' '') = rdArgsFrom (out @ [a]) (CHR '' '' # Join ts '' '')"
      using \<open>readsAs t a\<close> b unfolding readsAs_def by simp
    then show ?thesis using Cons \<open>\<And>out. rdArgsFrom out (Join ts '' '') = Inr (out @ as)\<close> b
      by (simp add: rdArgsFrom_blank)
  qed
qed

section \<open>Properties\<close>

text \<open>an argument list survives quoting: the line built from quoted arguments parses back to
  them, whatever bytes they hold.\<close>
lemma redis_quote_roundtrip: "rdArgs (Join (map rdQuote args) '' '') = Inr args"
proof -
  have "list_all2 readsAs (map rdQuote args) args"
    by (simp add: list_all2_conv_all_nth readsAs_rdQuote)
  then show ?thesis by (simp add: rdArgs_def rdArgsFrom_Join)
qed

lemma hidden_args: "list_all2 readsAs (map (\<lambda>i. if hidden ut args i then stars else rdQuote (args ! i)) [0..<length args])
    (map (\<lambda>i. if hidden ut args i then stars else args ! i) [0..<length args])"
  by (simp add: list_all2_conv_all_nth readsAs_stars readsAs_rdQuote)




text \<open>Folding to a constant without S or K is plain ASCII case folding.\<close>

lemma decodeRune_lt: "fst (decodeRune s) < 0x80 \<Longrightarrow> s \<noteq> [] \<Longrightarrow>
    decodeRune s = (byte (hd s), 1) \<and> byte (hd s) < 0x80"
  by (cases s) (auto simp: decodeRune_def RuneError_def Let_def secondOK_def split: list.splits if_splits)

lemma fold_ascii:
  assumes "list_all2 foldsTo (runes s) t" "list_all (\<lambda>c. lowerA c \<noteq> CHR ''s'' \<and> lowerA c \<noteq> CHR ''k'') t"
  shows "asciiStr s \<and> map lowerA s = map lowerA t"
  using assms
proof (induction s arbitrary: t rule: runes.induct)
  case (1 s)
  show ?case
  proof (cases s)
    case Nil
    then show ?thesis using 1(2) by (simp add: asciiStr_def)
  next
    case (Cons a s')
    then obtain c t' where t: "t = c # t'" "foldsTo (fst (decodeRune s)) c"
      "list_all2 foldsTo (runes (drop (snd (decodeRune s)) s)) t'"
      using 1(2) by (subst (asm) runes.simps) (auto simp: list_all2_Cons1)
    then have lt: "fst (decodeRune s) < 0x80" and low: "lowerA (chr (fst (decodeRune s))) = lowerA c"
      using 1(3) by (auto simp: foldsTo_def)
    then have d: "decodeRune s = (byte a, 1)" "byte a < 0x80" using decodeRune_lt [OF lt] Cons by auto
    have "asciiStr s' \<and> map lowerA s' = map lowerA t'"
      using 1(1) [of t'] 1(3) t d Cons by simp
    then show ?thesis using d low Cons t by (simp add: asciiStr_def)
  qed
qed

lemma lowerA_upperA: "upperA (lowerA c) = upperA c"
  by (auto simp: upperA_def lowerA_def isLowerA_def isUpperA_def)

lemma EqualFold_ToUpper:
  assumes "EqualFoldASCII s t" "list_all (\<lambda>c. lowerA c \<noteq> CHR ''s'' \<and> lowerA c \<noteq> CHR ''k'') t"
  shows "ToUpper ut s = map upperA t"
proof -
  have *: "asciiStr s" "map lowerA s = map lowerA t"
    using fold_ascii assms by (auto simp: EqualFoldASCII_def)
  have "map upperA s = map upperA (map lowerA s)" by (simp add: lowerA_upperA)
  also have "\<dots> = map upperA t" using * by (simp add: lowerA_upperA)
  finally show ?thesis using * by (simp add: ToUpper_ascii)
qed

lemma refused_not_read: "\<forall>c \<in> set rdRefused. c \<notin> set rdReadCmds \<and> map_of rdReadSubs c = None"
  by code_simp

lemma client_subs: "map_of rdReadSubs ''CLIENT'' = Some [''LIST'', ''INFO'', ''GETNAME'', ''ID'',
    ''TRACKINGINFO'', ''GETREDIR'', ''HELP'']" "''CLIENT'' \<notin> set rdReadCmds"
  by code_simp+

text \<open>no command that the read-only check lets through is one of those that would take the
  connection over: the two lists never disagree, in any spelling of the names.\<close>
lemma redis_read_never_refused:
  assumes "rdReadArgs ut args = None" "args \<noteq> []"
  shows "rdRefuse ut args = None"
proof -
  let ?cmd = "ToUpper ut (hd args)"
  have "?cmd \<notin> set rdRefused"
    using assms refused_not_read by (auto simp: rdReadArgs_def Let_def split: if_splits)
  moreover have "\<not> EqualFoldASCII (args ! 1) ''REPLY''" if "?cmd = ''CLIENT''" "length args > 1"
  proof
    assume "EqualFoldASCII (args ! 1) ''REPLY''"
    then have "ToUpper ut (args ! 1) = map upperA ''REPLY''"
      by (rule EqualFold_ToUpper) code_simp
    then have "ToUpper ut (args ! 1) = ''REPLY''" by (simp add: upperA_def isLowerA_def byte_def)
    then show False
      using that assms client_subs by (auto simp: rdReadArgs_def Let_def split: if_splits)
  qed
  ultimately show ?thesis by (auto simp: rdRefuse_def Let_def)
qed

lemma redis_read_never_refused_witness: "rdRefuse asciiTables [''client'', ''list''] = None"
  by (rule redis_read_never_refused; code_simp)

end
