(* ===== verification/DbStatements.thy ===== *)
theory DbStatements
  imports RedisStmt
begin

text \<open>
  \<open>Split\<close> and \<open>StatementAt\<close> for every engine of the Database tab: SQL scripts (\<open>SqlSplit\<close>), Redis
  lines (\<open>RedisStmt\<close>) and the mix of console requests and SQL of OpenSearch
  (\<open>internal/dbx/opensearch_stmt.go\<close>, its splitter here). What is shown holds for all of them.
\<close>

section \<open>The OpenSearch splitter\<close>

definition osMethods :: "string list" where
  "osMethods = [''GET'', ''POST'', ''PUT'', ''DELETE'', ''HEAD'', ''PATCH'']"

definition osMethodLine :: "unicodeTables \<Rightarrow> string \<Rightarrow> nat \<Rightarrow> bool" where
  "osMethodLine ut s i =
     (let line = (case IndexByte (drop i s) nl of Some k \<Rightarrow> take k (drop i s) | None \<Rightarrow> drop i s);
          f = Fields line
      in length f = 2 \<and> ToUpper ut (f ! 0) \<in> set osMethods)"

definition osWordLine :: "unicodeTables \<Rightarrow> string \<Rightarrow> nat \<Rightarrow> bool" where
  "osWordLine ut s i =
     (if i \<ge> length s \<or> \<not> IsLetter ut (byte (s ! i)) then False
      else takeWhile (\<lambda>c. c = CHR ''_'' \<or> IsLetter ut (byte c)) (drop i s)
             \<notin> {''true'', ''false'', ''null''})"

definition skipBlanks :: "string \<Rightarrow> nat \<Rightarrow> nat" where
  "skipBlanks s i = i + length (takeWhile (\<lambda>c. c = CHR '' '' \<or> c = tab) (drop i s))"

definition tripleQuote :: string where
  "tripleQuote = [dquote, dquote, dquote]"

text \<open>
  One turn inside a request body: the next position and whether a triple-quoted text is
  open. The loop below takes the maximum with \<open>i + 1\<close> so that it ends by its definition; the bounds
  shown here say that the maximum is never the other one.
\<close>

definition osBodyStep :: "string \<Rightarrow> nat \<Rightarrow> bool \<Rightarrow> nat \<times> bool" where
  "osBodyStep script i triple =
     (if HasPrefix (drop i script) tripleQuote then (i + 3, \<not> triple)
      else if triple then (i + 1, triple)
      else if script ! i = dquote then
        (let j = quoted script i dquote True in
         (case IndexByte (slice script i j) nl of Some k \<Rightarrow> i + k | None \<Rightarrow> j, triple))
      else if script ! i = CHR ''#'' \<or> HasPrefix (drop i script) ''//'' then (lineEnd script i, triple)
      else (i + 1, triple))"

lemma osBodyStep_bounds:
  assumes "i < length script"
  shows "i < fst (osBodyStep script i t) \<and> fst (osBodyStep script i t) \<le> length script"
proof -
  have triple: "i + 3 \<le> length script" if "HasPrefix (drop i script) tripleQuote"
  proof -
    have "prefix tripleQuote (drop i script)" using that by (simp add: HasPrefix_iff)
    then have "3 \<le> length (drop i script)" using prefix_length_le by (fastforce simp: tripleQuote_def)
    then show ?thesis using assms by simp
  qed
  have str: "i < i + k \<and> i + k \<le> length script"
    if "script ! i = dquote" "IndexByte (slice script i (quoted script i dquote True)) nl = Some k" for k
  proof -
    let ?sl = "slice script i (quoted script i dquote True)"
    have "k < length ?sl" "?sl ! k = nl" using IndexByte_Some [OF that(2)] by auto
    moreover have "?sl ! 0 = dquote"
      using that(1) assms quoted_bounds [OF assms, of dquote True] by (simp add: slice_def)
    moreover have "nl \<noteq> dquote" by simp
    ultimately have "k \<noteq> 0" "k < length ?sl" by (cases k; simp)+
    then show ?thesis by (auto simp: slice_def)
  qed
  define ok where "ok n \<longleftrightarrow> i < n \<and> n \<le> length script" for n
  have "ok (lineEnd script i)" "ok (quoted script i dquote True)" "ok (i + 1)"
    using assms lineEnd_bounds [OF assms] quoted_bounds [OF assms] by (simp_all add: ok_def)
  moreover have "HasPrefix (drop i script) tripleQuote \<Longrightarrow> ok (i + 3)" using triple by (simp add: ok_def)
  moreover have "\<And>k. script ! i = dquote \<Longrightarrow>
      IndexByte (slice script i (quoted script i dquote True)) nl = Some k \<Longrightarrow> ok (i + k)"
    using str by (simp add: ok_def)
  ultimately have "ok (fst (osBodyStep script i t))"
    unfolding osBodyStep_def Let_def by (simp split: option.split)
  then show ?thesis by (simp add: ok_def)
qed

function osSplitLoop :: "unicodeTables \<Rightarrow> string \<Rightarrow> nat \<Rightarrow> stmt list \<Rightarrow> nat \<Rightarrow> bool \<Rightarrow> bool \<Rightarrow> stmt list" where
  "osSplitLoop ut script i out start rest triple =
     (if i \<ge> length script then out @ emit ut OpenSearch script start (length script)
      else
        let bol = (i = 0 \<or> script ! (i - 1) = nl) \<and> \<not> triple; j = skipBlanks script i in
        if bol \<and> osMethodLine ut script j
        then osSplitLoop ut script (max (i + 1) (lineEnd script i)) (out @ emit ut OpenSearch script start i) i True triple
        else
          let sql = bol \<and> rest \<and> osWordLine ut script j;
              out1 = (if sql then out @ emit ut OpenSearch script start i else out);
              start1 = (if sql then i else start);
              rest1 = (if sql then False else rest)
          in if rest1
             then osSplitLoop ut script (max (i + 1) (fst (osBodyStep script i triple))) out1 start1 rest1
                    (snd (osBodyStep script i triple))
             else if skipNonCode ut OpenSearch script i > i
             then osSplitLoop ut script (skipNonCode ut OpenSearch script i) out1 start1 rest1 triple
             else if script ! i = CHR '';''
             then osSplitLoop ut script (i + 1) (out1 @ emit ut OpenSearch script start1 i) (i + 1) rest1 triple
             else osSplitLoop ut script (i + 1) out1 start1 rest1 triple)"
  by pat_completeness auto
termination
  by (relation "measure (\<lambda>(ut, script, i, out, start, rest, triple). length script - i)") auto

declare osSplitLoop.simps [simp del]

definition osSplit :: "unicodeTables \<Rightarrow> string \<Rightarrow> stmt list" where
  "osSplit ut script = osSplitLoop ut script 0 [] 0 False False"

section \<open>All engines\<close>

definition Split :: "unicodeTables \<Rightarrow> engine \<Rightarrow> string \<Rightarrow> stmt list" where
  "Split ut eng script =
     (if eng = OpenSearch then osSplit ut script
      else if eng = Redis then rdSplit script
      else sqlSplit ut eng script)"

text \<open>An offset before the script, which a caller may pass, is an integer below 0.\<close>

definition StatementAt :: "unicodeTables \<Rightarrow> engine \<Rightarrow> string \<Rightarrow> int \<Rightarrow> stmt option" where
  "StatementAt ut eng script offset =
     (if offset < 0 then (case Split ut eng script of [] \<Rightarrow> None | s # _ \<Rightarrow> Some s)
      else statementIn (Split ut eng script) (nat offset))"

section \<open>Ranges and order\<close>

definition wellSplit :: "string \<Rightarrow> stmt list \<Rightarrow> bool" where
  "wellSplit script sts \<longleftrightarrow> (\<forall>st \<in> set sts. stmtOK script st) \<and> sorted_wrt (\<lambda>a b. sEnd a \<le> sStart b) sts"

definition coveredTo :: "string \<Rightarrow> stmt list \<Rightarrow> nat \<Rightarrow> bool" where
  "coveredTo script out start \<longleftrightarrow> wellSplit script out \<and> (\<forall>st \<in> set out. sEnd st \<le> start)"

lemma coveredTo_emit [inv_intros]:
  assumes "coveredTo script out start" "start \<le> i" "i \<le> length script"
  shows "coveredTo script (out @ emit ut eng script start i) i"
  using assms emit_order [of out start i script ut eng] emit_ok [of start i script _ ut eng]
  by (auto simp: coveredTo_def wellSplit_def)

lemma coveredTo_mono: "coveredTo script out start \<Longrightarrow> start \<le> i \<Longrightarrow> coveredTo script out i"
  by (auto simp: coveredTo_def)

lemma osSplitLoop_well:
  "coveredTo script out start \<Longrightarrow> start \<le> i \<Longrightarrow> i \<le> length script \<Longrightarrow>
     wellSplit script (osSplitLoop ut script i out start rest triple)"
proof (induction "length script - i" arbitrary: i out start rest triple rule: less_induct)
  case less
  note IH = less(1) and up = less(2) and le = less(3,4)
  let ?L = "osSplitLoop ut script i out start rest triple"
  show ?case
  proof (cases "i < length script")
    case False
    then have "?L = out @ emit ut OpenSearch script start (length script)"
      by (subst osSplitLoop.simps) simp
    then show ?thesis using coveredTo_emit [OF up, of "length script" ut OpenSearch] le by (simp add: coveredTo_def)
  next
    case True
    have c1: "\<not> length script \<le> i" using True by simp
    note step = osSplitLoop.simps [of ut script i out start rest triple]
    have le_end: "max (i + 1) (lineEnd script i) = lineEnd script i" "lineEnd script i \<le> length script"
      using lineEnd_bounds [OF True] by auto
    have body: "max (i + 1) (fst (osBodyStep script i triple)) = fst (osBodyStep script i triple)"
      "i < fst (osBodyStep script i triple)" "fst (osBodyStep script i triple) \<le> length script"
      using osBodyStep_bounds [OF True, of triple] by auto
    have cut: "coveredTo script (out @ emit ut OpenSearch script start i) i" using up le by (intro inv_intros)
    define bol where "bol \<longleftrightarrow> (i = 0 \<or> script ! (i - 1) = nl) \<and> \<not> triple"
    show ?thesis
    proof (cases "bol \<and> osMethodLine ut script (skipBlanks script i)")
      case m: True
      then have "?L = osSplitLoop ut script (lineEnd script i)
          (out @ emit ut OpenSearch script start i) i True triple"
        using True le_end by (subst step) (simp add: bol_def Let_def)
      moreover have "length script - lineEnd script i < length script - i"
        using lineEnd_bounds [OF True] by linarith
      ultimately show ?thesis
        using IH [OF _ cut, of "lineEnd script i" True triple] lineEnd_bounds [OF True] by simp
    next
      case nm: False
      define sql where "sql \<longleftrightarrow> bol \<and> rest \<and> osWordLine ut script (skipBlanks script i)"
      define out1 where "out1 = (if sql then out @ emit ut OpenSearch script start i else out)"
      define start1 where "start1 = (if sql then i else start)"
      define rest1 where "rest1 = (if sql then False else rest)"
      have up1: "coveredTo script out1 start1" "start1 \<le> i" using up cut le by (simp_all add: out1_def start1_def)
      have L: "?L = (if rest1 then osSplitLoop ut script (fst (osBodyStep script i triple)) out1 start1 rest1
              (snd (osBodyStep script i triple))
          else if skipNonCode ut OpenSearch script i > i
            then osSplitLoop ut script (skipNonCode ut OpenSearch script i) out1 start1 rest1 triple
          else if script ! i = CHR '';''
            then osSplitLoop ut script (i + 1) (out1 @ emit ut OpenSearch script start1 i) (i + 1) rest1 triple
          else osSplitLoop ut script (i + 1) out1 start1 rest1 triple)"
        using step [unfolded Let_def, folded bol_def, folded sql_def, folded out1_def start1_def rest1_def]
        unfolding if_not_P [OF c1] if_not_P [OF nm] body(1) .
      have next1: "wellSplit script (osSplitLoop ut script (i + 1) out1 start1 r t)" for r t
        using IH [OF _ up1(1)] up1(2) True by simp
      have semi: "wellSplit script (osSplitLoop ut script (i + 1)
          (out1 @ emit ut OpenSearch script start1 i) (i + 1) r t)" for r t
      proof (rule IH)
        show "coveredTo script (out1 @ emit ut OpenSearch script start1 i) (i + 1)"
          using coveredTo_mono [OF coveredTo_emit [OF up1 le(2)], of "i + 1"] by simp
      qed (use True in simp_all)
      have jump: "wellSplit script (osSplitLoop ut script j out1 start1 r t)"
        if "i < j" "j \<le> length script" for j r t
        using IH [OF _ up1(1)] up1(2) that by simp
      show ?thesis
        unfolding L using next1 semi jump body skipNonCode_bounds [OF True, of ut OpenSearch] by simp
    qed
  qed
qed

lemma osSplit_well: "wellSplit script (osSplit ut script)"
  unfolding osSplit_def by (rule osSplitLoop_well) (simp_all add: coveredTo_def wellSplit_def)

lemma rdSplit_emit:
  assumes "off \<le> e" "e \<le> length script"
  defines "tx \<equiv> TrimSpace (slice script off e)"
  defines "s \<equiv> off + (case Index (slice script off e) tx of Some k \<Rightarrow> k | None \<Rightarrow> 0)"
  assumes "tx \<noteq> []"
  shows "stmtOK script \<lparr>sText = tx, sStart = s, sEnd = s + length tx\<rparr>" "off \<le> s" "s + length tx \<le> e"
proof -
  obtain k where k: "Index (slice script off e) tx = Some k"
    unfolding tx_def using TrimSpace_Index by blast
  then have le: "k + length tx \<le> e - off" and eq: "take (length tx) (drop k (slice script off e)) = tx"
    using Index_Some [OF k] assms(1,2) by (auto simp: slice_def)
  have s: "s = off + k" using k by (simp add: s_def)
  have "length tx \<le> e - (off + k)" using le by simp
  then have "slice script s (s + length tx) = tx"
    using eq by (simp add: s slice_def drop_take add.commute min_absorb1)
  then show "stmtOK script \<lparr>sText = tx, sStart = s, sEnd = s + length tx\<rparr>" "off \<le> s" "s + length tx \<le> e"
    using le assms(1,2) \<open>tx \<noteq> []\<close> by (auto simp: stmtOK_def s)
qed

lemma rdSplitFrom_well:
  "wellSplit script (rdSplitFrom script off) \<and> (\<forall>st \<in> set (rdSplitFrom script off). off \<le> sStart st)"
proof (induction script off rule: rdSplitFrom.induct)
  case (1 script off)
  show ?case
  proof (cases "off < length script")
    case False
    then show ?thesis by (subst (1 2) rdSplitFrom.simps) (simp add: wellSplit_def)
  next
    case True
    define e where "e = (case IndexByte (drop off script) nl of None \<Rightarrow> length script | Some k \<Rightarrow> k + off)"
    have e: "off \<le> e" "e \<le> length script"
      using True IndexByte_Some [of "drop off script" nl] by (auto simp: e_def split: option.splits)
    define tx where "tx = TrimSpace (slice script off e)"
    define s where "s = off + (case Index (slice script off e) tx of Some k \<Rightarrow> k | None \<Rightarrow> 0)"
    have IH: "wellSplit script (rdSplitFrom script (e + 1))"
      "\<forall>st \<in> set (rdSplitFrom script (e + 1)). e + 1 \<le> sStart st"
      using 1 [of e] True by (auto simp: e_def)
    have L: "rdSplitFrom script off =
        (if tx \<noteq> [] \<and> \<not> HasPrefix tx ''#'' \<and> \<not> HasPrefix tx ''//''
         then [\<lparr>sText = tx, sStart = s, sEnd = s + length tx\<rparr>] else []) @ rdSplitFrom script (e + 1)"
      using True by (subst rdSplitFrom.simps) (simp add: e_def tx_def s_def Let_def)
    show ?thesis
    proof (cases "tx \<noteq> [] \<and> \<not> HasPrefix tx ''#'' \<and> \<not> HasPrefix tx ''//''")
      case True
      then have st: "stmtOK script \<lparr>sText = tx, sStart = s, sEnd = s + length tx\<rparr>" "off \<le> s" "s + length tx \<le> e"
        using rdSplit_emit [OF e] by (simp_all add: tx_def s_def)
      show ?thesis unfolding L if_P [OF True] using st IH e by (fastforce simp: wellSplit_def)
    next
      case False
      show ?thesis unfolding L if_not_P [OF False] using IH e by (fastforce simp: wellSplit_def)
    qed
  qed
qed

lemma sqlSplit_ok: "\<forall>st \<in> set (sqlSplit ut eng script). stmtOK script st"
proof -
  obtain i out start batch where "rangesInv script i out start batch"
    "sqlSplit ut eng script = out @ emit ut eng script start (length script)"
    by (rule ranges.split_end [of script ut eng]) (auto simp: rangesInv_def)
  then show ?thesis using emit_ok [of start "length script" script _ ut eng] by (auto simp: rangesInv_def)
qed

lemma sqlSplit_order:
  assumes "eng \<noteq> MSSQL"
  shows "sorted_wrt (\<lambda>a b. sEnd a \<le> sStart b) (sqlSplit ut eng script)"
proof -
  obtain i out start batch where "orderInv eng script i out start batch"
    "sqlSplit ut eng script = out @ emit ut eng script start (length script)"
    by (rule order.split_end [of eng script ut]) (auto simp: orderInv_def)
  then show ?thesis
    using assms emit_order [of out start "length script" script ut eng] by (auto simp: orderInv_def)
qed

lemma sqlSplit_count: "length (sqlSplit ut eng script) \<le> maxGoStatements + length script + 1"
proof -
  obtain i out start batch where "countInv script i out start batch"
    "sqlSplit ut eng script = out @ emit ut eng script start (length script)"
    by (rule counted.split_end [of script ut eng]) (auto simp: countInv_def)
  then show ?thesis using emit_length [of ut eng script start "length script"] by (auto simp: countInv_def)
qed

lemma wellSplit_count: "wellSplit script sts \<Longrightarrow> length sts \<le> length script"
proof -
  assume w: "wellSplit script sts"
  have "sorted_wrt (\<lambda>a b. sEnd a \<le> sStart b) sts \<Longrightarrow> \<forall>st \<in> set sts. sStart st < sEnd st \<and> k \<le> sStart st \<and> sEnd st \<le> n \<Longrightarrow>
      k \<le> n \<Longrightarrow> length sts \<le> n - k" for k n
  proof (induction sts arbitrary: k)
    case (Cons a sts)
    have "length sts \<le> n - sEnd a" using Cons by (intro Cons.IH) auto
    moreover have "k \<le> sStart a" "sStart a < sEnd a" "sEnd a \<le> n" using Cons.prems by auto
    ultimately show ?case by simp
  qed simp
  from this [of 0 "length script"] w show ?thesis by (simp add: wellSplit_def stmtOK_def)
qed

section \<open>Properties\<close>

text \<open>C21: every statement the splitter yields is a non-empty range of the script, within its bounds,
  and its text is exactly what the script holds there, on every engine.\<close>
theorem split_ranges: "list_all (stmtOK script) (Split ut eng script)"
  using osSplit_well [of script ut] rdSplitFrom_well [of script 0] sqlSplit_ok [of ut eng script]
  by (simp add: Split_def rdSplit_def wellSplit_def list_all_iff)

text \<open>the statements come in the order of the script and do not overlap, except on SQL Server,
  where a GO line with a count repeats its batch.\<close>
lemma split_order:
  assumes "eng \<noteq> MSSQL"
  shows "sorted_wrt (\<lambda>a b. sEnd a \<le> sStart b) (Split ut eng script)"
  using osSplit_well [of script ut] rdSplitFrom_well [of script 0] sqlSplit_order [OF assms, of ut script]
  by (simp add: Split_def rdSplit_def wellSplit_def)

lemma split_order_witness:
  "sorted_wrt (\<lambda>a b. sEnd a \<le> sStart b) (Split asciiTables Postgres ''select 1; select 2'') \<and>
   map sText (Split asciiTables Postgres ''select 1; select 2'') = [''select 1'', ''select 2'']"
  using split_order [of Postgres asciiTables "''select 1; select 2''"] by code_simp

text \<open>GO repeat counts cannot blow the statement list up: whatever counts a script asks for, it
  has at most 100000 statements beyond the ones its length allows.\<close>
lemma split_bounded: "length (Split ut eng script) \<le> maxGoStatements + length script + 1"
  using wellSplit_count [OF osSplit_well [of script ut]]
    wellSplit_count [OF rdSplitFrom_well [THEN conjunct1], of script 0] sqlSplit_count [of ut eng script]
  by (simp add: Split_def rdSplit_def)

lemma statementFrom_in: "best \<in> set all \<Longrightarrow> set ss \<subseteq> set all \<Longrightarrow> statementFrom ss off best \<in> set all"
  by (induction ss off best rule: statementFrom.induct) (auto simp: Let_def split: if_splits)

lemma statementFrom_holds:
  "\<exists>s \<in> set ss. sStart s \<le> off \<and> off \<le> sEnd s \<Longrightarrow>
     sStart (statementFrom ss off best) \<le> off \<and> off \<le> sEnd (statementFrom ss off best)"
  by (induction ss off best rule: statementFrom.induct) (simp, fastforce simp: Let_def)

lemma statementFrom_none:
  assumes "\<not> (\<exists>s \<in> set ss. sStart s \<le> off \<and> off \<le> sEnd s)"
  shows "statementFrom ss off best = last (best # filter (\<lambda>s. sStart s \<le> off) ss)"
  using assms by (induction ss off best rule: statementFrom.induct) (auto simp: Let_def)

text \<open>the statement under the cursor is one of the script's; when some statement's range holds the
  offset the one returned does, otherwise it is the last one that starts at or before the offset,
  or the first; there is none only for a script with no statements.\<close>
lemma statement_at:
  "case StatementAt ut eng script (int offset) of
     None \<Rightarrow> Split ut eng script = []
   | Some st \<Rightarrow> st \<in> set (Split ut eng script) \<and>
       (if list_ex (\<lambda>s. sStart s \<le> offset \<and> offset \<le> sEnd s) (Split ut eng script)
        then sStart st \<le> offset \<and> offset \<le> sEnd st
        else st = last (hd (Split ut eng script) # filter (\<lambda>s. sStart s \<le> offset) (Split ut eng script)))"
proof (cases "Split ut eng script")
  case (Cons s ss)
  have at: "StatementAt ut eng script (int offset) = Some (statementFrom (s # ss) offset s)"
    by (simp add: StatementAt_def statementIn_def Cons del: statementFrom.simps)
  show ?thesis
    unfolding at option.case Cons list_ex_iff list.sel
    using statementFrom_in [of s "s # ss" "s # ss" offset] statementFrom_holds [of "s # ss" offset s]
      statementFrom_none [of "s # ss" offset s]
    by (simp only: list.set_intros subset_refl simp_thms if_split) blast
qed (simp add: StatementAt_def statementIn_def)

end
