(* ===== verification/RedisWire.thy ===== *)
theory RedisWire
  imports GoStrings
begin

text \<open>
  The RESP2 client of \<open>internal/dbx/redis_resp.go\<close>: what \<open>do\<close> sends and what \<open>read\<close> makes of the
  bytes that come back. The connection is the list of bytes still to arrive; a read past its end
  is the error \<open>EndOfInput\<close>. The budget of one pipeline is part of the state that is passed on.
\<close>

section \<open>Replies\<close>

datatype rdReply =
    Simple string           \<comment> \<open>\<open>+\<close>\<close>
  | Failure string          \<comment> \<open>\<open>-\<close>\<close>
  | Integer int             \<comment> \<open>\<open>:\<close>\<close>
  | Bulk string             \<comment> \<open>\<open>$\<close>\<close>
  | NullBulk
  | Array "rdReply list"    \<comment> \<open>\<open>*\<close>\<close>
  | NullArray

datatype rdError = EndOfInput | LineTooLong | EmptyLine | NestedTooDeep | BadInteger | BadBulkLength
  | BadArrayLength | ReplyTooBig | UnexpectedType char

definition MaxResultBytes :: nat where
  "MaxResultBytes = 64 * 1048576"

section \<open>Lines\<close>

text \<open>
  \<open>line\<close> reads through a buffer of 65536 bytes: a line whose newline is not among its first 131072
  bytes fills the buffer twice and is refused.
\<close>

definition lineLimit :: nat where
  "lineLimit = 131072"

definition rdLine :: "string \<Rightarrow> rdError + string \<times> string" where
  "rdLine inp = (case IndexByte inp nl of
      None \<Rightarrow> Inl (if length inp \<ge> lineLimit then LineTooLong else EndOfInput)
    | Some i \<Rightarrow>
        if i \<ge> lineLimit then Inl LineTooLong
        else let l = take i inp in
          Inr (if l \<noteq> [] \<and> last l = cr then butlast l else l, drop (i + 1) inp))"

lemma rdLine_length: "rdLine inp = Inr (l, r) \<Longrightarrow> length r < length inp"
  using IndexByte_Some [of inp nl] by (auto simp: rdLine_def Let_def split: option.splits if_splits)

section \<open>Reading a reply\<close>

text \<open>
  \<open>readReply\<close> is \<open>read\<close>, \<open>readElems\<close> its loop over the elements of an array; both return the
  budget and the input that are left.
\<close>

function (sequential) readReply :: "nat \<Rightarrow> nat \<Rightarrow> string \<Rightarrow> rdError + rdReply \<times> nat \<times> string"
  and readElems :: "nat \<Rightarrow> nat \<Rightarrow> nat \<Rightarrow> string \<Rightarrow> rdError + rdReply list \<times> nat \<times> string" where
  "readReply depth budget inp =
     (if depth > 32 then Inl NestedTooDeep
      else case rdLine inp of
        Inl e \<Rightarrow> Inl e
      | Inr (line, rest) \<Rightarrow>
        (case line of
           [] \<Rightarrow> Inl EmptyLine
         | kind # body \<Rightarrow>
           if kind = CHR ''+'' \<or> kind = CHR ''-'' then
             (if length body > budget then Inl ReplyTooBig
              else Inr (if kind = CHR ''+'' then Simple body else Failure body, budget - length body, rest))
           else if kind = CHR '':'' then
             (case Atoi body of None \<Rightarrow> Inl BadInteger | Some n \<Rightarrow> Inr (Integer n, budget, rest))
           else if kind = CHR ''$'' then
             (case Atoi body of
                None \<Rightarrow> Inl BadBulkLength
              | Some n \<Rightarrow>
                if n < -1 then Inl BadBulkLength
                else if n = -1 then Inr (NullBulk, budget, rest)
                else if n > int budget then Inl ReplyTooBig
                else if length rest < nat n + 2 then Inl EndOfInput
                else Inr (Bulk (take (nat n) rest), budget - nat n, drop (nat n + 2) rest))
           else if kind = CHR ''*'' then
             (case Atoi body of
                None \<Rightarrow> Inl BadArrayLength
              | Some n \<Rightarrow>
                if n < -1 then Inl BadArrayLength
                else if n = -1 then Inr (NullArray, budget, rest)
                else if n > int (budget div 64) then Inl ReplyTooBig
                else (case readElems (depth + 1) (nat n) (budget - nat n * 64) rest of
                    Inl e \<Rightarrow> Inl e
                  | Inr (es, b, r) \<Rightarrow> Inr (Array es, b, r)))
           else Inl (UnexpectedType kind)))"
| "readElems depth 0 budget inp = Inr ([], budget, inp)"
| "readElems depth (Suc n) budget inp =
     (case readReply depth budget inp of
        Inl e \<Rightarrow> Inl e
      | Inr (e, b, r) \<Rightarrow>
          (case readElems depth n b r of
             Inl err \<Rightarrow> Inl err
           | Inr (es, b', r') \<Rightarrow> Inr (e # es, b', r')))"
  by pat_completeness auto
termination
  by (relation "measures [\<lambda>x. case x of Inl (d, b, i) \<Rightarrow> 34 - d | Inr (d, n, b, i) \<Rightarrow> 34 - d,
        \<lambda>x. case x of Inl (d, b, i) \<Rightarrow> 0 | Inr (d, n, b, i) \<Rightarrow> n + 1]") auto

declare readReply.simps [simp del]

section \<open>Commands\<close>

text \<open>What \<open>do\<close> writes for one command, and the replies it reads for a pipeline.\<close>

definition encodeCommand :: "string list \<Rightarrow> string" where
  "encodeCommand cmd = ''*'' @ itoaInt (int (length cmd)) @ [cr, nl] @
     concat (map (\<lambda>a. ''$'' @ itoaInt (int (length a)) @ [cr, nl] @ a @ [cr, nl]) cmd)"

definition readPipeline :: "nat \<Rightarrow> string \<Rightarrow> rdError + rdReply list \<times> nat \<times> string" where
  "readPipeline n inp = readElems 0 n MaxResultBytes inp"

definition rdClientName :: "string \<Rightarrow> string" where
  "rdClientName s = (let b = map (\<lambda>c. if byte c \<le> 0x20 \<or> byte c > 0x7e then CHR ''-'' else c) s
     in if b = [] then ''ssh-tool'' else b)"

text \<open>The commands \<open>rdDial\<close> opens a connection with, and whether it accepts their replies.\<close>

definition loginCommands :: "string \<Rightarrow> string \<Rightarrow> string \<Rightarrow> int \<Rightarrow> string list list" where
  "loginCommands user password appName db =
     (if user \<noteq> [] then [[''AUTH'', user, password]]
      else if password \<noteq> [] then [[''AUTH'', password]] else [])
     @ [[''CLIENT'', ''SETNAME'', rdClientName appName]]
     @ (if db \<noteq> 0 then [[''SELECT'', itoaInt db]] else [])"

fun loginError :: "string list list \<Rightarrow> rdReply list \<Rightarrow> string option" where
  "loginError (cmd # cmds) (r # rs) =
     (case r of Failure msg \<Rightarrow> if hd cmd \<noteq> ''CLIENT'' then Some msg else loginError cmds rs
      | _ \<Rightarrow> loginError cmds rs)"
| "loginError _ _ = None"

section \<open>What a reply costs\<close>

fun replyCost :: "rdReply \<Rightarrow> nat" where
  "replyCost (Simple s) = length s"
| "replyCost (Failure s) = length s"
| "replyCost (Bulk s) = length s"
| "replyCost (Array es) = 64 * length es + sum_list (map replyCost es)"
| "replyCost _ = 0"

fun replyDepth :: "rdReply \<Rightarrow> nat" where
  "replyDepth (Array es) = Max (insert 0 (set (map (\<lambda>e. Suc (replyDepth e)) es)))"
| "replyDepth _ = 0"

lemma reply_budget:
  "readReply depth budget inp = Inr (r, b, rest) \<Longrightarrow>
     b + replyCost r = budget \<and> length rest < length inp \<and> depth + replyDepth r \<le> 32"
  "readElems depth n budget inp = Inr (es, b, rest) \<Longrightarrow>
     b + sum_list (map replyCost es) = budget \<and> length es = n \<and> length rest \<le> length inp \<and>
     (\<forall>e \<in> set es. depth + replyDepth e \<le> 32)"
proof (induction depth budget inp and depth n budget inp arbitrary: r b rest and es b rest
    rule: readReply_readElems.induct)
  case (1 depth budget inp)
  from 1(2) have d: "depth \<le> 32" by (subst (asm) readReply.simps) (simp split: if_splits)
  from 1(2) obtain line inp1 where l: "rdLine inp = Inr (line, inp1)"
    using d by (subst (asm) readReply.simps) (auto split: sum.splits)
  from 1(2) obtain kind body where kb: "line = kind # body"
    using d l by (subst (asm) readReply.simps) (auto split: list.splits)
  have len: "length inp1 < length inp" by (rule rdLine_length [OF l])
  note R = 1(2) [unfolded readReply.simps [of depth budget inp] l kb]
  show ?case
  proof (cases "kind = CHR ''*''")
    case False
    then show ?thesis using R d len by (auto split: if_splits option.splits)
  next
    case True
    then obtain n where n: "Atoi body = Some n" "n \<ge> -1"
      using R d by (auto split: option.splits if_splits)
    show ?thesis
    proof (cases "n = -1")
      case True
      then show ?thesis using R d len \<open>kind = _\<close> n by auto
    next
      case False
      then have fit: "nat n \<le> budget div 64"
        using R d \<open>kind = _\<close> n by (auto split: if_splits)
      with False obtain es where es: "readElems (depth + 1) (nat n) (budget - nat n * 64) inp1 = Inr (es, b, rest)"
        "r = Array es"
        using R d \<open>kind = _\<close> n by (auto split: if_splits sum.splits)
      have IH: "b + sum_list (map replyCost es) = budget - nat n * 64" "length es = nat n"
        "length rest \<le> length inp1" "\<forall>e \<in> set es. depth + 1 + replyDepth e \<le> 32"
        using 1(1) [OF _ l refl kb _ _ _ _ n(1) _ False _ es(1)] d \<open>kind = _\<close> n fit
        by simp_all
      have "nat n * 64 \<le> budget" using fit by simp
      moreover have "replyDepth (Array es) \<le> 32 - depth"
        using IH(4) by fastforce
      ultimately show ?thesis using IH es(2) len d by (simp del: replyDepth.simps(1)) linarith
    qed
  qed
next
  case (3 depth n budget inp)
  then show ?case by (fastforce split: sum.splits)
qed simp


section \<open>Reading back what a server encodes\<close>

text \<open>The protocol's encoding of a reply, and the replies a line can hold.\<close>

definition respLine :: "char \<Rightarrow> string \<Rightarrow> string" where
  "respLine kind body = kind # body @ [cr, nl]"

fun encodeReply :: "rdReply \<Rightarrow> string" where
  "encodeReply (Simple s) = respLine CHR ''+'' s"
| "encodeReply (Failure s) = respLine CHR ''-'' s"
| "encodeReply (Integer i) = respLine CHR '':'' (itoaInt i)"
| "encodeReply (Bulk s) = respLine CHR ''$'' (itoaInt (int (length s))) @ s @ [cr, nl]"
| "encodeReply NullBulk = respLine CHR ''$'' (itoaInt (- 1))"
| "encodeReply (Array es) = respLine CHR ''*'' (itoaInt (int (length es))) @ concat (map encodeReply es)"
| "encodeReply NullArray = respLine CHR ''*'' (itoaInt (- 1))"

fun replyOK :: "rdReply \<Rightarrow> bool" where
  "replyOK (Simple s) = (nl \<notin> set s \<and> length s + 2 < lineLimit)"
| "replyOK (Failure s) = (nl \<notin> set s \<and> length s + 2 < lineLimit)"
| "replyOK (Integer i) = (- (2 ^ 63) \<le> i \<and> i < 2 ^ 63)"
| "replyOK (Array es) = list_all replyOK es"
| "replyOK _ = True"

lemma IndexByte_append: "c \<notin> set a \<Longrightarrow> IndexByte (a @ c # b) c = Some (length a)"
  by (induction a) auto

lemma rdLine_respLine:
  assumes "nl \<notin> set body" "length body + 2 < lineLimit" "kind \<noteq> nl"
  shows "rdLine (respLine kind body @ rest) = Inr (kind # body, rest)"
proof -
  have "IndexByte ((kind # body @ [cr]) @ nl # rest) nl = Some (length (kind # body @ [cr]))"
    using assms by (intro IndexByte_append) auto
  then have "IndexByte (respLine kind body @ rest) nl = Some (length body + 2)"
    by (simp add: respLine_def)
  then show ?thesis using assms by (simp add: rdLine_def respLine_def butlast_append)
qed

lemma rdLine_itoa:
  assumes "- (2 ^ 63) \<le> i" "i < 2 ^ 63" "kind \<noteq> nl"
  shows "rdLine (respLine kind (itoaInt i) @ rest) = Inr (kind # itoaInt i, rest)"
  using itoa_line [OF assms(1,2)] assms(3) by (intro rdLine_respLine) (auto simp: lineLimit_def)

lemma readElems_encoded:
  assumes "\<And>e budget rest. e \<in> set es \<Longrightarrow> replyCost e \<le> budget \<Longrightarrow> budget \<le> MaxResultBytes \<Longrightarrow>
      readReply depth budget (encodeReply e @ rest) = Inr (e, budget - replyCost e, rest)"
    and "sum_list (map replyCost es) \<le> budget" "budget \<le> MaxResultBytes"
  shows "readElems depth (length es) budget (concat (map encodeReply es) @ rest) =
    Inr (es, budget - sum_list (map replyCost es), rest)"
  using assms
proof (induction es arbitrary: budget)
  case (Cons e es)
  then show ?case
    using Cons.IH [of "budget - replyCost e"] by simp
qed simp

lemma readReply_encoded:
  "replyOK r \<Longrightarrow> replyCost r \<le> budget \<Longrightarrow> budget \<le> MaxResultBytes \<Longrightarrow> depth + replyDepth r \<le> 32 \<Longrightarrow>
     readReply depth budget (encodeReply r @ rest) = Inr (r, budget - replyCost r, rest)"
proof (induction r arbitrary: depth budget rest)
  case (Simple s)
  then show ?case by (subst readReply.simps) (simp add: rdLine_respLine)
next
  case (Failure s)
  then show ?case by (subst readReply.simps) (simp add: rdLine_respLine)
next
  case (Integer i)
  then show ?case by (subst readReply.simps) (simp add: rdLine_itoa Atoi_itoa)
next
  case (Bulk s)
  have l: "int (length s) < 2 ^ 63" using Bulk by (simp add: MaxResultBytes_def)
  then have "rdLine (respLine CHR ''$'' (itoaInt (int (length s))) @ s @ cr # nl # rest) =
      Inr (CHR ''$'' # itoaInt (int (length s)), s @ cr # nl # rest)"
    by (intro rdLine_itoa) auto
  then show ?case using Bulk l by (subst readReply.simps) (simp add: Atoi_itoa)
next
  case NullBulk
  have "rdLine (respLine CHR ''$'' (itoaInt (- 1)) @ rest) = Inr (CHR ''$'' # itoaInt (- 1), rest)"
    by (intro rdLine_itoa) auto
  then show ?case using NullBulk by (subst readReply.simps) (simp add: Atoi_itoa)
next
  case (Array es)
  have l: "int (length es) < 2 ^ 63" using Array(3,4) by (simp add: MaxResultBytes_def)
  then have line: "rdLine (respLine CHR ''*'' (itoaInt (int (length es))) @ concat (map encodeReply es) @ rest) =
      Inr (CHR ''*'' # itoaInt (int (length es)), concat (map encodeReply es) @ rest)"
    by (intro rdLine_itoa) auto
  have d: "depth + 1 + replyDepth e \<le> 32" if "e \<in> set es" for e
  proof -
    have "Suc (replyDepth e) \<le> replyDepth (Array es)" using that by (auto intro!: Max_ge)
    then show ?thesis using Array(5) by linarith
  qed
  have "readElems (depth + 1) (length es) (budget - length es * 64) (concat (map encodeReply es) @ rest) =
      Inr (es, budget - length es * 64 - sum_list (map replyCost es), rest)"
    using Array(1,2,3,4) d by (intro readElems_encoded) (auto simp: list_all_iff)
  then show ?case
    using Array(3,5) l line by (subst readReply.simps) (simp add: Atoi_itoa algebra_simps)
next
  case NullArray
  have "rdLine (respLine CHR ''*'' (itoaInt (- 1)) @ rest) = Inr (CHR ''*'' # itoaInt (- 1), rest)"
    by (intro rdLine_itoa) auto
  then show ?case using NullArray by (subst readReply.simps) (simp add: Atoi_itoa)
qed

section \<open>Properties\<close>

text \<open>the replies of one pipeline, however the server nests them, weigh at most the result
  budget: every byte of a string and 64 bytes per array element are charged as they arrive, one
  reply is returned per command, and none nests deeper than 32 levels.\<close>
lemma redis_reply_budget:
  assumes "readPipeline n inp = Inr (rs, left, rest)"
  shows "length rs = n \<and> sum_list (map replyCost rs) + left = MaxResultBytes \<and>
    list_all (\<lambda>r. replyDepth r \<le> 32) rs"
  using reply_budget(2) [OF assms [unfolded readPipeline_def]] by (simp add: list_all_iff)

lemma redis_reply_budget_witness:
  "sum_list (map replyCost [Simple ''OK'']) + (MaxResultBytes - 2) = MaxResultBytes"
proof -
  have "readPipeline (length [Simple ''OK'']) (concat (map encodeReply [Simple ''OK'']) @ []) =
      Inr ([Simple ''OK''], MaxResultBytes - sum_list (map replyCost [Simple ''OK'']), [])"
    unfolding readPipeline_def
    by (intro readElems_encoded readReply_encoded) (auto simp: MaxResultBytes_def lineLimit_def)
  from redis_reply_budget [OF this] show ?thesis by simp
qed

text \<open>C23: what a server encodes is what the client reads, and the input after it is left for the
  next reply: for every reply within the budget and the nesting limit.\<close>
theorem redis_resp_roundtrip:
  assumes "list_all replyOK rs" "list_all (\<lambda>r. replyDepth r \<le> 32) rs"
    and "sum_list (map replyCost rs) \<le> MaxResultBytes"
  shows "readPipeline (length rs) (concat (map encodeReply rs) @ rest) =
    Inr (rs, MaxResultBytes - sum_list (map replyCost rs), rest)"
  unfolding readPipeline_def
  using assms by (intro readElems_encoded readReply_encoded) (auto simp: list_all_iff)

lemma redis_resp_roundtrip_witness:
  "readPipeline (length [Array [Bulk ''k'', Integer 5], NullBulk])
     (concat (map encodeReply [Array [Bulk ''k'', Integer 5], NullBulk]) @ ''next'') =
   Inr ([Array [Bulk ''k'', Integer 5], NullBulk],
     MaxResultBytes - sum_list (map replyCost [Array [Bulk ''k'', Integer 5], NullBulk]), ''next'')"
  by (rule redis_resp_roundtrip) (simp_all add: MaxResultBytes_def)

end
