(* ===== verification/OutBatch.thy ===== *)
theory OutBatch
  imports Prelude
begin

text \<open>
  The coalescer of terminal output, \<open>internal/outbatch/outbatch.go\<close>. Every method runs under the
  lock, so it is a function from state to state; what it hands to \<open>emit\<close> is returned as a list of
  chunks. Times are nanoseconds since the zero \<open>time.Time\<close>, as \<open>int\<close>; \<open>now\<close> is the clock read. The
  timer is \<open>Some d\<close> when it is armed to fire \<open>d\<close> later, and it fires by calling \<open>Flush\<close>.
\<close>

type_synonym octets = "char list"

definition Window :: int where
  "Window = 10000000"

definition MaxBytes :: nat where
  "MaxBytes = 256 * 1024"

record coalescer =
  bBuf :: octets
  bLastEmit :: int
  bTimer :: "int option"
  bClosed :: bool

definition newCoalescer :: coalescer where
  "newCoalescer = \<lparr>bBuf = [], bLastEmit = 0, bTimer = None, bClosed = False\<rparr>"

definition flushLocked :: "int \<Rightarrow> coalescer \<Rightarrow> coalescer \<times> octets list" where
  "flushLocked now c =
     (let c1 = c\<lparr>bTimer := None\<rparr> in
      if bBuf c1 = [] then (c1, [])
      else (c1\<lparr>bBuf := [], bLastEmit := now\<rparr>, [bBuf c1]))"

definition Push :: "int \<Rightarrow> octets \<Rightarrow> coalescer \<Rightarrow> coalescer \<times> octets list" where
  "Push now data c =
     (if data = [] then (c, [])
      else if bClosed c then (c, [data])
      else if bBuf c = [] \<and> now - bLastEmit c \<ge> Window then (c\<lparr>bLastEmit := now\<rparr>, [data])
      else
        let c1 = c\<lparr>bBuf := bBuf c @ data\<rparr> in
        if length (bBuf c1) \<ge> MaxBytes then flushLocked now c1
        else if bTimer c1 = None
        then (c1\<lparr>bTimer := Some (max 0 (Window - (now - bLastEmit c1)))\<rparr>, [])
        else (c1, []))"

definition Flush :: "int \<Rightarrow> coalescer \<Rightarrow> coalescer \<times> octets list" where
  "Flush now c = flushLocked now c"

definition Close :: "int \<Rightarrow> coalescer \<Rightarrow> coalescer \<times> octets list" where
  "Close now c = (case flushLocked now c of (c1, out) \<Rightarrow> (c1\<lparr>bClosed := True\<rparr>, out))"

section \<open>Runs\<close>

datatype batchCall = CPush int octets | CFlush int | CClose int

fun pushedBy :: "batchCall \<Rightarrow> octets" where
  "pushedBy (CPush now data) = data"
| "pushedBy _ = []"

fun callStep :: "batchCall \<Rightarrow> coalescer \<Rightarrow> coalescer \<times> octets list" where
  "callStep (CPush now data) c = Push now data c"
| "callStep (CFlush now) c = Flush now c"
| "callStep (CClose now) c = Close now c"

fun runCalls :: "batchCall list \<Rightarrow> coalescer \<Rightarrow> coalescer \<times> octets list" where
  "runCalls [] c = (c, [])"
| "runCalls (k # ks) c = (case callStep k c of (c1, o1) \<Rightarrow> case runCalls ks c1 of (c2, o2) \<Rightarrow> (c2, o1 @ o2))"

text \<open>What every state between calls satisfies: a held chunk has its timer armed, for at most one
  window, and a closed coalescer holds nothing.\<close>

definition batchOK :: "coalescer \<Rightarrow> bool" where
  "batchOK c \<longleftrightarrow> length (bBuf c) < MaxBytes \<and> (bBuf c \<noteq> [] \<longleftrightarrow> bTimer c \<noteq> None) \<and>
     (bClosed c \<longrightarrow> bBuf c = [])"

lemma MaxBytes_pos [simp]: "0 < MaxBytes"
  by (simp add: MaxBytes_def)

lemma flushLocked_conserves:
  "flushLocked now c = (c', out) \<Longrightarrow> concat out @ bBuf c' = bBuf c \<and> [] \<notin> set out"
  by (auto simp: flushLocked_def Let_def split: if_splits)

lemma callStep_conserves:
  "callStep k c = (c', out) \<Longrightarrow> (bClosed c \<longrightarrow> bBuf c = []) \<Longrightarrow>
     concat out @ bBuf c' = bBuf c @ pushedBy k \<and> [] \<notin> set out"
  using flushLocked_conserves
  by (cases k) (fastforce simp: Push_def Flush_def Close_def Let_def split: if_splits prod.splits)+

lemma flushLocked_OK [inv_intros]: "bTimer (fst (flushLocked now c)) = None \<and> bBuf (fst (flushLocked now c)) = [] \<and>
    bClosed (fst (flushLocked now c)) = bClosed c"
  by (simp add: flushLocked_def Let_def)

lemma callStep_OK:
  assumes "batchOK c"
  shows "batchOK (fst (callStep k c))"
proof (cases k)
  case (CPush now data)
  then show ?thesis
    using assms flushLocked_OK [of now "c\<lparr>bBuf := bBuf c @ data\<rparr>"]
    by (auto simp: Push_def batchOK_def Let_def)
next
  case (CFlush now)
  then show ?thesis using assms flushLocked_OK [of now c] by (simp add: Flush_def batchOK_def)
next
  case (CClose now)
  then show ?thesis using assms flushLocked_OK [of now c] by (auto simp: Close_def batchOK_def split: prod.split)
qed

lemma runCalls_conserves:
  "batchOK c \<Longrightarrow> runCalls ks c = (c', out) \<Longrightarrow>
     batchOK c' \<and> concat out @ bBuf c' = bBuf c @ concat (map pushedBy ks) \<and> [] \<notin> set out"
proof (induction ks arbitrary: c c' out)
  case (Cons k ks)
  obtain c1 o1 where s: "callStep k c = (c1, o1)" by fastforce
  obtain c2 o2 where r: "runCalls ks c1 = (c2, o2)" by fastforce
  have "batchOK c1" using callStep_OK [OF Cons.prems(1), of k] s by simp
  note IH = Cons.IH [OF this r]
  have "concat o1 @ bBuf c1 = bBuf c @ pushedBy k \<and> [] \<notin> set o1"
    using callStep_conserves [OF s] Cons.prems(1) by (simp add: batchOK_def)
  then show ?case using IH Cons.prems(2) s r by auto
qed simp

lemma new_OK: "batchOK newCoalescer"
  by (simp add: batchOK_def newCoalescer_def)

section \<open>Properties\<close>

text \<open>coalescing loses, invents and reorders nothing: after any sequence of pushes, timer fires,
  flushes and closes, what was emitted followed by what is held is the concatenation of what was
  pushed; no emitted chunk is empty; what is held is below the size cap and has its timer armed.\<close>
lemma output_conserved:
  assumes "runCalls ks newCoalescer = (c, out)"
  shows "concat out @ bBuf c = concat (map pushedBy ks) \<and> [] \<notin> set out \<and>
    length (bBuf c) < MaxBytes \<and> (bBuf c \<noteq> [] \<longleftrightarrow> bTimer c \<noteq> None)"
  using runCalls_conserves [OF new_OK assms] by (simp add: newCoalescer_def batchOK_def)

lemma output_conserved_witness:
  "concat [''a'', ''bc''] @ [] = concat (map pushedBy [CPush 20000000 ''a'', CPush 20000001 ''b'', CPush 20000002 ''c'', CClose 20000003])"
proof -
  have "runCalls [CPush 20000000 ''a'', CPush 20000001 ''b'', CPush 20000002 ''c'', CClose 20000003] newCoalescer =
      (\<lparr>bBuf = [], bLastEmit = 20000003, bTimer = None, bClosed = True\<rparr>, [''a'', ''bc''])"
    by (simp add: Push_def Close_def flushLocked_def newCoalescer_def Window_def MaxBytes_def Let_def)
  from output_conserved [OF this] show ?thesis by simp
qed

text \<open>latency: a chunk that comes after a quiet window goes out in the same call, untouched, and a
  held chunk waits for at most one window, as long as the clock does not run backwards.\<close>
lemma output_latency:
  assumes "batchOK c" "\<not> bClosed c" "data \<noteq> []" "now \<ge> bLastEmit c"
    and "Push now data c = (c', out)"
  shows "if bBuf c = [] \<and> now - bLastEmit c \<ge> Window then out = [data] \<and> c' = c\<lparr>bLastEmit := now\<rparr>
    else if length (bBuf c) + length data \<ge> MaxBytes then out = [bBuf c @ data] \<and> bBuf c' = []
    else out = [] \<and> bBuf c' = bBuf c @ data \<and>
      bTimer c' = (if bTimer c = None then Some (Window - (now - bLastEmit c)) else bTimer c) \<and>
      (bTimer c = None \<longrightarrow> Window - (now - bLastEmit c) \<le> Window \<and> 0 < Window - (now - bLastEmit c))"
  using assms by (auto simp: Push_def flushLocked_def batchOK_def Let_def max_def split: if_splits)

lemma output_latency_witness:
  "fst (Push 5 ''x'' newCoalescer) = \<lparr>bBuf = ''x'', bLastEmit = 0, bTimer = Some (Window - 5), bClosed = False\<rparr> \<and>
   0 < Window - (5 - bLastEmit newCoalescer)"
proof -
  have push: "Push 5 ''x'' newCoalescer =
      (\<lparr>bBuf = ''x'', bLastEmit = 0, bTimer = Some (Window - 5), bClosed = False\<rparr>, [])"
    by (simp add: Push_def newCoalescer_def Window_def MaxBytes_def Let_def)
  have "0 < Window - (5 - bLastEmit newCoalescer)"
    using output_latency [OF new_OK _ _ _ push] by (simp add: newCoalescer_def Window_def MaxBytes_def)
  then show ?thesis by (simp add: push)
qed

end
