(* ===== verification/SessionOutput.thy ===== *)
theory SessionOutput
  imports OutBatch GoStrings "HOL-Library.Word" "HOL-Library.Code_Target_Nat"
begin

text \<open>
  The way of a session's output, \<open>internal/ssh/session.go\<close>: \<open>pumpOutput\<close> reads from the remote side, holds
  back a tail that stops inside an escape sequence or a UTF-8 rune (\<open>splitAtSafeBoundary\<close>), pushes the
  rest through the coalescer of \<open>OutBatch\<close>, and every chunk that comes out is appended to the scrollback
  and handed to the sink with the byte count so far. \<open>internal/local\<close> keeps the same scrollback.
\<close>

section \<open>Where a chunk may end\<close>

definition utf8RuneLen :: "char \<Rightarrow> nat" where
  "utf8RuneLen b =
     (if byte b < 0x80 then 1
      else if byte b \<ge> 0xc0 \<and> byte b < 0xe0 then 2
      else if byte b \<ge> 0xe0 \<and> byte b < 0xf0 then 3
      else if byte b \<ge> 0xf0 \<and> byte b < 0xf8 then 4
      else 0)"

abbreviation esc :: char where "esc \<equiv> CHR 0x1B"
abbreviation bel :: char where "bel \<equiv> CHR 0x07"

fun oscEnd :: "octets \<Rightarrow> bool" where
  "oscEnd [] = False"
| "oscEnd (c # r) = (c = bel \<or> (c = esc \<and> r \<noteq> [] \<and> hd r = backslash) \<or> oscEnd r)"

definition csiFinal :: "char \<Rightarrow> bool" where
  "csiFinal c \<longleftrightarrow> byte c \<ge> 0x40 \<and> byte c \<le> 0x7e"

definition escapeComplete :: "octets \<Rightarrow> bool" where
  "escapeComplete s =
     (if length s < 2 then False
      else if s ! 1 = CHR ''['' then list_ex csiFinal (drop 2 s) \<or> length s > 256
      else if s ! 1 = CHR '']'' then oscEnd (drop 2 s) \<or> length s > 512
      else True)"

text \<open>From the last byte back over continuation bytes.\<close>

fun walkBack :: "octets \<Rightarrow> nat \<Rightarrow> nat" where
  "walkBack data 0 = 0"
| "walkBack data (Suc i) =
     (if byte (data ! Suc i) \<ge> 0x80 \<and> byte (data ! Suc i) < 0xc0 then walkBack data i else Suc i)"

text \<open>The scan down from the end: the position of an ESC, unless a control byte comes first.\<close>

fun escScan :: "octets \<Rightarrow> nat \<Rightarrow> nat \<Rightarrow> nat option" where
  "escScan data start 0 = None"
| "escScan data start (Suc i) =
     (if i < start then None
      else if data ! i = esc then Some i
      else if byte (data ! i) < 0x20 then None
      else escScan data start i)"

definition maxSeq :: nat where
  "maxSeq = 64"

definition splitAtSafeBoundary :: "octets \<Rightarrow> octets \<times> octets" where
  "splitAtSafeBoundary data =
     (let n = length data; i = walkBack data (n - 1); need = utf8RuneLen (data ! i) in
      if n = 0 then ([], [])
      else if byte (data ! (n - 1)) \<ge> 0x80 \<and> byte (data ! i) \<ge> 0xc0 \<and> need > 1 \<and> i + need > n
        then (take i data, drop i data)
      else case escScan data (n - maxSeq) n of
        None \<Rightarrow> (data, [])
      | Some k \<Rightarrow> if escapeComplete (drop k data) then (data, []) else (take k data, drop k data))"

section \<open>Scrollback\<close>

definition scrollbackCap :: nat where
  "scrollbackCap = 1024 * 1024"

definition scrollbackSlack :: nat where
  "scrollbackSlack = 128 * 1024"

record scrollbackBuf =
  sbBuf :: octets
  sbTotal :: "64 word"

definition trimToLineStart :: "octets \<Rightarrow> octets" where
  "trimToLineStart buf = (case IndexByte (take (4 * 1024) buf) nl of
      Some i \<Rightarrow> drop (i + 1) buf
    | None \<Rightarrow> buf)"

definition appendAndEmit :: "octets \<Rightarrow> scrollbackBuf \<Rightarrow> scrollbackBuf \<times> (octets \<times> 64 word)" where
  "appendAndEmit data b =
     (let buf = sbBuf b @ data;
          buf' = (if length buf > scrollbackCap + scrollbackSlack
                  then trimToLineStart (drop (length buf - scrollbackCap) buf) else buf);
          t = sbTotal b + of_nat (length data)
      in (\<lparr>sbBuf = buf', sbTotal = t\<rparr>, (data, t)))"

definition snapshot :: "scrollbackBuf \<Rightarrow> octets \<times> 64 word" where
  "snapshot b = (sbBuf b, sbTotal b)"

definition emptyScrollback :: scrollbackBuf where
  "emptyScrollback = \<lparr>sbBuf = [], sbTotal = 0\<rparr>"

section \<open>The pump\<close>

record pumpState =
  pCarry :: octets
  pOut :: coalescer
  pBack :: scrollbackBuf
  pSink :: "(octets \<times> 64 word) list"
  pDone :: bool

definition newPump :: pumpState where
  "newPump = \<lparr>pCarry = [], pOut = newCoalescer, pBack = emptyScrollback, pSink = [], pDone = False\<rparr>"

text \<open>What the coalescer emits goes to the scrollback and the sink.\<close>

definition emitChunk :: "octets \<Rightarrow> pumpState \<Rightarrow> pumpState" where
  "emitChunk data st =
     (case appendAndEmit data (pBack st) of (b, e) \<Rightarrow> st\<lparr>pBack := b, pSink := pSink st @ [e]\<rparr>)"

definition viaCoalescer :: "batchCall \<Rightarrow> pumpState \<Rightarrow> pumpState" where
  "viaCoalescer k st =
     (case callStep k (pOut st) of (c, out) \<Rightarrow> foldl (\<lambda>s d. emitChunk d s) (st\<lparr>pOut := c\<rparr>) out)"

text \<open>A turn of the loop with what was read, the window timer of the coalescer, and the end of the
  stream. A read that returns bytes together with the end is a read and then the end.\<close>

datatype pumpEvent = PRead int octets | PTimer int | PEnd int

fun pumpStep :: "pumpEvent \<Rightarrow> pumpState \<Rightarrow> pumpState" where
  "pumpStep (PRead now bytes) st =
     (if pDone st \<or> bytes = [] then st
      else case splitAtSafeBoundary (pCarry st @ bytes) of
        (emit, hold) \<Rightarrow>
          (let st1 = st\<lparr>pCarry := hold\<rparr> in if emit = [] then st1 else viaCoalescer (CPush now emit) st1))"
| "pumpStep (PTimer now) st = viaCoalescer (CFlush now) st"
| "pumpStep (PEnd now) st =
     (if pDone st then st
      else (viaCoalescer (CClose now) (viaCoalescer (CPush now (pCarry st)) st))\<lparr>pCarry := [], pDone := True\<rparr>)"

fun readBytes :: "pumpEvent list \<Rightarrow> octets" where
  "readBytes [] = []"
| "readBytes (PRead now bytes # es) = bytes @ readBytes es"
| "readBytes (PTimer now # es) = readBytes es"
| "readBytes (PEnd now # es) = []"

section \<open>Splitting loses nothing and holds little\<close>

lemma walkBack_le: "walkBack data i \<le> i"
  by (induction i) auto

lemma escScan_Some: "escScan data start n = Some k \<Longrightarrow> start \<le> k \<and> k < n"
  by (induction n) (auto split: if_splits)

lemma escScan_text: "(\<And>j. start \<le> j \<Longrightarrow> j < n \<Longrightarrow> byte (data ! j) \<ge> 0x20) \<Longrightarrow> escScan data start n = None"
proof (induction n)
  case (Suc n)
  show ?case
  proof (cases "n < start")
    case False
    then have "byte (data ! n) \<ge> 0x20" using Suc.prems by simp
    moreover from this have "data ! n \<noteq> esc" by (auto simp: byte_def)
    ultimately show ?thesis using Suc by simp
  qed simp
qed simp

lemma utf8RuneLen_le: "utf8RuneLen b \<le> 4"
  by (simp add: utf8RuneLen_def)

lemma split_bounds:
  assumes "splitAtSafeBoundary data = (emit, hold)"
  shows "emit @ hold = data \<and> length hold \<le> maxSeq"
proof -
  let ?i = "walkBack data (length data - 1)"
  have i: "?i + utf8RuneLen (data ! ?i) > length data \<Longrightarrow> length data - ?i \<le> maxSeq"
    using utf8RuneLen_le [of "data ! ?i"] by (simp add: maxSeq_def)
  have k: "escScan data (length data - maxSeq) (length data) = Some k \<Longrightarrow> length data - k \<le> maxSeq" for k
    using escScan_Some [of data "length data - maxSeq" "length data" k] by linarith
  show ?thesis
    using assms i k by (auto simp: splitAtSafeBoundary_def Let_def split: if_splits option.splits)
qed

text \<open>The tails that are torn: a rune that lacks bytes, and a control sequence that lacks its final byte
  (or its bracket), no longer than the scan.\<close>

definition tornRune :: "octets \<Rightarrow> bool" where
  "tornRune t \<longleftrightarrow> t \<noteq> [] \<and> byte (hd t) \<ge> 0xc0 \<and> list_all (\<lambda>c. byte c \<ge> 0x80 \<and> byte c < 0xc0) (tl t) \<and>
     length t < utf8RuneLen (hd t)"

definition tornCsi :: "octets \<Rightarrow> bool" where
  "tornCsi t \<longleftrightarrow> t = [esc] \<or>
     (\<exists>ps. t = esc # CHR ''['' # ps \<and> list_all (\<lambda>c. byte c \<ge> 0x20 \<and> byte c < 0x40) ps \<and> length t \<le> maxSeq)"

lemma walkBack_lead:
  assumes "byte c \<ge> 0xc0" "list_all (\<lambda>c. byte c \<ge> 0x80 \<and> byte c < 0xc0) cs" "k \<le> length cs"
  shows "walkBack (pre @ c # cs) (length pre + k) = length pre"
  using assms(3)
proof (induction k)
  case 0
  have "walkBack (pre @ c # cs) (length pre) = length pre"
    using assms(1) by (cases "length pre") (auto simp: nth_append)
  then show ?case by simp
next
  case (Suc k)
  have "(pre @ c # cs) ! Suc (length pre + k) = cs ! k" by (simp add: nth_append)
  moreover have "byte (cs ! k) \<ge> 0x80 \<and> byte (cs ! k) < 0xc0" using assms(2) Suc by (simp add: list_all_length)
  ultimately show ?case using Suc by simp
qed

lemma split_tornRune:
  assumes "tornRune t"
  shows "splitAtSafeBoundary (pre @ t) = (pre, t)"
proof -
  obtain c cs where t: "t = c # cs" "byte c \<ge> 0xc0" "list_all (\<lambda>c. byte c \<ge> 0x80 \<and> byte c < 0xc0) cs"
    "length (c # cs) < utf8RuneLen c"
    using assms by (cases t) (auto simp: tornRune_def)
  let ?d = "pre @ c # cs"
  have w: "walkBack ?d (length ?d - 1) = length pre"
    using walkBack_lead [OF t(2,3) order_refl, of pre] by simp
  have last: "byte (?d ! (length ?d - 1)) \<ge> 0x80"
  proof (cases cs rule: rev_cases)
    case Nil
    then show ?thesis using t(2) by (simp add: nth_append)
  next
    case (snoc ds x)
    then show ?thesis using t(3) by (simp add: nth_append)
  qed
  show ?thesis
    using w last t by (simp add: splitAtSafeBoundary_def Let_def nth_append)
qed

lemma escScan_finds:
  assumes "list_all (\<lambda>c. byte c \<ge> 0x20) r" "start \<le> length pre" "k \<le> length r"
  shows "escScan (pre @ esc # r) start (length pre + 1 + k) = Some (length pre)"
  using assms(3)
proof (induction k)
  case 0
  then show ?case using assms(2) by (simp add: nth_append)
next
  case (Suc k)
  have n: "(pre @ esc # r) ! Suc (length pre + k) = r ! k" by (simp add: nth_append)
  have "byte (r ! k) \<ge> 0x20" using assms(1) Suc by (simp add: list_all_length)
  moreover from this have "r ! k \<noteq> esc" by (auto simp: byte_def)
  ultimately show ?case using Suc assms(2) n by simp
qed

lemma split_tornCsi:
  assumes "tornCsi t"
  shows "splitAtSafeBoundary (pre @ t) = (pre, t)"
proof -
  obtain r where r: "t = esc # r" "list_all (\<lambda>c. byte c \<ge> 0x20 \<and> byte c < 0x80) r" "length r < maxSeq"
    "\<not> escapeComplete t"
  proof (cases "t = [esc]")
    case True
    then show ?thesis using that [of "[]"] by (simp add: escapeComplete_def maxSeq_def)
  next
    case False
    then obtain ps where t: "t = esc # CHR ''['' # ps" "list_all (\<lambda>c. byte c \<ge> 0x20 \<and> byte c < 0x40) ps"
      "length t \<le> maxSeq" using assms by (auto simp: tornCsi_def)
    have "\<not> list_ex csiFinal ps" using t(2) by (auto simp: list_ex_iff list_all_iff csiFinal_def)
    then have "\<not> escapeComplete t" using t(1,3) by (simp add: escapeComplete_def maxSeq_def)
    moreover have "list_all (\<lambda>c. byte c \<ge> 0x20 \<and> byte c < 0x80) (CHR ''['' # ps)"
      using t(2) by (auto simp: list_all_iff byte_def [of "CHR ''[''"])
    ultimately show ?thesis using that [of "CHR ''['' # ps"] t by simp
  qed
  let ?d = "pre @ esc # r"
  have last: "\<not> byte (?d ! (length ?d - 1)) \<ge> 0x80"
  proof (cases r rule: rev_cases)
    case Nil
    then show ?thesis by (simp add: nth_append byte_def)
  next
    case (snoc ds x)
    then show ?thesis using r(2) by (simp add: nth_append)
  qed
  have "escScan ?d (length ?d - maxSeq) (length ?d) = Some (length pre)"
    using escScan_finds [of r "length ?d - maxSeq" pre "length r"] r(2,3) by (simp add: list_all_iff)
  then show ?thesis using last r by (simp add: splitAtSafeBoundary_def Let_def)
qed

section \<open>Scrollback\<close>

text \<open>\<open>hist\<close> is everything appended so far.\<close>

definition backOK :: "octets \<Rightarrow> scrollbackBuf \<Rightarrow> bool" where
  "backOK hist b \<longleftrightarrow> suffix (sbBuf b) hist \<and> sbTotal b = of_nat (length hist) \<and>
     length (sbBuf b) \<le> scrollbackCap + scrollbackSlack \<and>
     (length hist \<le> scrollbackCap + scrollbackSlack \<longrightarrow> sbBuf b = hist)"

lemma backOK_empty: "backOK [] emptyScrollback"
  by (simp add: backOK_def emptyScrollback_def)

lemma trim_suffix: "suffix (trimToLineStart buf) buf"
  by (simp add: trimToLineStart_def suffix_drop split: option.split)

lemma backOK_append [inv_intros]:
  assumes "backOK hist b" "appendAndEmit data b = (b', e)"
  shows "backOK (hist @ data) b' \<and> e = (data, of_nat (length (hist @ data)))"
proof -
  let ?buf = "sbBuf b @ data" and ?lim = "scrollbackCap + scrollbackSlack"
  have s: "suffix ?buf (hist @ data)" using assms(1) suffix_append_both by (auto simp: backOK_def)
  then have len: "length ?buf \<le> length (hist @ data)" by (auto simp: suffix_def)
  have b': "sbBuf b' = (if length ?buf > ?lim then trimToLineStart (drop (length ?buf - scrollbackCap) ?buf) else ?buf)"
    "sbTotal b' = of_nat (length (hist @ data))" "e = (data, sbTotal b')"
    using assms by (auto simp: appendAndEmit_def Let_def backOK_def)
  have "suffix (trimToLineStart (drop (length ?buf - scrollbackCap) ?buf)) ?buf"
    using suffix_order.trans [OF trim_suffix suffix_drop] .
  then have "suffix (sbBuf b') ?buf" unfolding b'(1) by (simp del: length_append drop_append)
  then have "suffix (sbBuf b') (hist @ data)" using s suffix_order.trans by blast
  moreover have "length (sbBuf b') \<le> ?lim"
  proof (cases "length ?buf > ?lim")
    case True
    have "length (trimToLineStart (drop (length ?buf - scrollbackCap) ?buf)) \<le> scrollbackCap"
      using trim_suffix [of "drop (length ?buf - scrollbackCap) ?buf"]
      by (auto simp: suffix_def dest!: arg_cong [where f = length])
    then show ?thesis using True b' by simp
  qed (simp add: b')
  moreover have "length (hist @ data) \<le> ?lim \<longrightarrow> sbBuf b' = hist @ data"
    using assms(1) b' by (auto simp: backOK_def)
  ultimately show ?thesis using b' by (simp add: backOK_def)
qed


section \<open>The pump\<close>

text \<open>The counts of the chunks handed to the sink are the lengths of the stream up to their ends.\<close>

fun cumsFrom :: "nat \<Rightarrow> (octets \<times> 64 word) list \<Rightarrow> bool" where
  "cumsFrom n [] = True"
| "cumsFrom n ((d, c) # es) = (c = of_nat (n + length d) \<and> cumsFrom (n + length d) es)"

lemma cumsFrom_append:
  "cumsFrom n (es @ fs) \<longleftrightarrow> cumsFrom n es \<and> cumsFrom (n + length (concat (map fst es))) fs"
  by (induction n es rule: cumsFrom.induct) (auto simp: add.assoc)

definition sunk :: "pumpState \<Rightarrow> octets" where
  "sunk st = concat (map fst (pSink st))"

definition pumpOK :: "pumpState \<Rightarrow> bool" where
  "pumpOK st \<longleftrightarrow> batchOK (pOut st) \<and> backOK (sunk st) (pBack st) \<and> cumsFrom 0 (pSink st) \<and>
     length (pCarry st) \<le> maxSeq \<and> (pDone st \<longrightarrow> pCarry st = [] \<and> bClosed (pOut st))"

lemma pumpOK_new: "pumpOK newPump"
  by (simp add: pumpOK_def newPump_def new_OK backOK_empty sunk_def)

lemma emitChunk_OK:
  assumes "backOK (sunk st) (pBack st)" "cumsFrom 0 (pSink st)"
  shows "backOK (sunk st @ d) (pBack (emitChunk d st)) \<and> cumsFrom 0 (pSink (emitChunk d st)) \<and>
    sunk (emitChunk d st) = sunk st @ d \<and> pCarry (emitChunk d st) = pCarry st \<and> pOut (emitChunk d st) = pOut st \<and>
    pDone (emitChunk d st) = pDone st"
proof -
  obtain b e where a: "appendAndEmit d (pBack st) = (b, e)" by (metis surj_pair)
  from backOK_append [OF assms(1) a] show ?thesis
    using assms(2) a by (simp add: emitChunk_def sunk_def cumsFrom_append)
qed

lemma emitAll_OK:
  assumes "backOK (sunk st) (pBack st)" "cumsFrom 0 (pSink st)"
  shows "let st' = foldl (\<lambda>s d. emitChunk d s) st ds in
    backOK (sunk st @ concat ds) (pBack st') \<and> cumsFrom 0 (pSink st') \<and> sunk st' = sunk st @ concat ds \<and>
    pCarry st' = pCarry st \<and> pOut st' = pOut st \<and> pDone st' = pDone st"
  using assms
proof (induction ds arbitrary: st)
  case (Cons d ds)
  show ?case using Cons.IH [of "emitChunk d st"] emitChunk_OK [OF Cons.prems, of d] by (simp add: Let_def)
qed simp

text \<open>One call of the coalescer, in the middle of the pump.\<close>

lemma viaCoalescer_OK:
  assumes "pumpOK st" "st' = viaCoalescer k st"
  shows "sunk st' @ bBuf (pOut st') = sunk st @ bBuf (pOut st) @ pushedBy k \<and>
    batchOK (pOut st') \<and> backOK (sunk st') (pBack st') \<and> cumsFrom 0 (pSink st') \<and>
    pCarry st' = pCarry st \<and> pDone st' = pDone st \<and>
    (bClosed (pOut st) \<or> (\<exists>now. k = CClose now) \<longrightarrow> bClosed (pOut st'))"
proof -
  obtain c out where c: "callStep k (pOut st) = (c, out)" by fastforce
  have ok: "batchOK (pOut st)" "backOK (sunk st) (pBack st)" "cumsFrom 0 (pSink st)"
    using assms(1) by (simp_all add: pumpOK_def)
  have "bClosed (pOut st) \<or> (\<exists>now. k = CClose now) \<longrightarrow> bClosed c"
    using c by (cases k) (auto simp: Push_def Flush_def Close_def flushLocked_def Let_def split: if_splits prod.splits)
  moreover have "concat out @ bBuf c = bBuf (pOut st) @ pushedBy k"
    using callStep_conserves [OF c] ok(1) by (simp add: batchOK_def)
  moreover have "batchOK c" using callStep_OK [OF ok(1), of k] c by simp
  ultimately show ?thesis
    using emitAll_OK [of "st\<lparr>pOut := c\<rparr>" out] ok assms(2) c
    by (simp add: viaCoalescer_def Let_def sunk_def [of "st\<lparr>pOut := c\<rparr>"] sunk_def [of st])
qed

lemma pumpStep_OK:
  assumes "pumpOK st" "st' = pumpStep ev st"
  shows "pumpOK st' \<and> sunk st' @ bBuf (pOut st') @ pCarry st' =
    sunk st @ bBuf (pOut st) @ pCarry st @ (case ev of PRead now b \<Rightarrow> if pDone st then [] else b | _ \<Rightarrow> []) \<and>
    (pDone st' \<longleftrightarrow> pDone st \<or> (\<exists>now. ev = PEnd now))"
proof (cases ev)
  case (PRead now b)
  show ?thesis
  proof (cases "pDone st \<or> b = []")
    case False
    obtain e h where s: "splitAtSafeBoundary (pCarry st @ b) = (e, h)" by fastforce
    note sb = split_bounds [OF s]
    have st1: "pumpOK (st\<lparr>pCarry := h\<rparr>)" using assms(1) sb False by (simp add: pumpOK_def sunk_def)
    note v = viaCoalescer_OK [OF st1 refl, of "CPush now e"]
    show ?thesis
    proof (cases "e = []")
      case True
      then show ?thesis using assms(2) PRead False s st1 sb by (simp add: sunk_def)
    next
      case ne: False
      have "pumpOK st'" using v assms(2) PRead False s ne sb by (simp add: pumpOK_def)
      moreover have "sunk st' @ bBuf (pOut st') = sunk st @ bBuf (pOut st) @ e" "pCarry st' = h" "pDone st' = pDone st"
        using v assms(2) PRead False s ne by (simp_all add: sunk_def)
      ultimately show ?thesis using sb PRead False by (metis append.assoc pumpEvent.case(1) pumpEvent.distinct(3))
    qed
  qed (use assms PRead in \<open>auto simp: pumpOK_def\<close>)
next
  case (PTimer now)
  then show ?thesis
    using viaCoalescer_OK [OF assms(1), of st' "CFlush now"] assms by (simp add: pumpOK_def)
next
  case (PEnd now)
  show ?thesis
  proof (cases "pDone st")
    case False
    define s1 where "s1 = viaCoalescer (CPush now (pCarry st)) st"
    define s2 where "s2 = viaCoalescer (CClose now) s1"
    have v1: "sunk s1 @ bBuf (pOut s1) = sunk st @ bBuf (pOut st) @ pCarry st" "pumpOK s1"
      using viaCoalescer_OK [OF assms(1) s1_def] assms(1) False by (simp_all add: pumpOK_def)
    have v2: "sunk s2 @ bBuf (pOut s2) = sunk s1 @ bBuf (pOut s1)" "bClosed (pOut s2)" "batchOK (pOut s2)"
      "backOK (sunk s2) (pBack s2)" "cumsFrom 0 (pSink s2)"
      using viaCoalescer_OK [OF v1(2) s2_def] by auto
    have st': "st' = s2\<lparr>pCarry := [], pDone := True\<rparr>"
      using assms(2) PEnd False by (simp add: s1_def s2_def)
    show ?thesis using v1 v2 PEnd False by (simp add: st' pumpOK_def sunk_def)
  qed (use assms PEnd in \<open>auto simp: pumpOK_def\<close>)
qed

definition runPump :: "pumpEvent list \<Rightarrow> pumpState \<Rightarrow> pumpState" where
  "runPump es st = foldl (\<lambda>s e. pumpStep e s) st es"

lemma runPump_Cons [simp]: "runPump [] st = st" "runPump (e # es) st = runPump es (pumpStep e st)"
  by (simp_all add: runPump_def)

lemma runPump_done: "pumpOK st \<Longrightarrow> pDone st \<Longrightarrow> pumpOK (runPump es st) \<and> pDone (runPump es st) \<and>
    sunk (runPump es st) = sunk st"
proof (induction es arbitrary: st)
  case (Cons e es)
  note s = pumpStep_OK [OF Cons.prems(1) refl, of e]
  have buf: "bBuf (pOut x) = [] \<and> pCarry x = []" if "pumpOK x" "pDone x" for x
    using that by (auto simp: pumpOK_def batchOK_def)
  have "sunk (pumpStep e st) = sunk st"
    using s buf [OF Cons.prems] buf [of "pumpStep e st"] Cons.prems(2) by (cases e) auto
  then show ?case using Cons.IH [of "pumpStep e st"] s Cons.prems(2) by auto
qed simp

lemma runPump_OK:
  "pumpOK st \<Longrightarrow> \<not> pDone st \<Longrightarrow> pumpOK (runPump es st) \<and>
   sunk (runPump es st) @ bBuf (pOut (runPump es st)) @ pCarry (runPump es st) =
     sunk st @ bBuf (pOut st) @ pCarry st @ readBytes es"
proof (induction es arbitrary: st)
  case (Cons e es)
  note s = pumpStep_OK [OF Cons.prems(1) refl, of e]
  show ?case
  proof (cases e)
    case (PEnd now)
    then have d: "pumpOK (pumpStep e st)" "pDone (pumpStep e st)" using s by auto
    have buf: "bBuf (pOut x) = [] \<and> pCarry x = []" if "pumpOK x" "pDone x" for x
      using that by (auto simp: pumpOK_def batchOK_def)
    show ?thesis using runPump_done [OF d, of es] buf [OF d] buf [of "runPump es (pumpStep e st)"] s PEnd by simp
  next
    case (PRead now b)
    then show ?thesis using Cons.IH [of "pumpStep e st"] s Cons.prems(2) by auto
  next
    case (PTimer now)
    then show ?thesis using Cons.IH [of "pumpStep e st"] s Cons.prems(2) by auto
  qed
qed (simp add: )


section \<open>Replay\<close>

lemma emitAll_extends: "\<exists>new. pSink (foldl (\<lambda>s d. emitChunk d s) st ds) = pSink st @ new"
proof (induction ds arbitrary: st)
  case (Cons d ds)
  have "\<exists>e. pSink (emitChunk d st) = pSink st @ [e]"
    by (cases "appendAndEmit d (pBack st)") (simp add: emitChunk_def)
  then show ?case using Cons.IH [of "emitChunk d st"] by fastforce
qed simp

lemma viaCoalescer_extends: "\<exists>new. pSink (viaCoalescer k st) = pSink st @ new"
proof -
  obtain c out where "callStep k (pOut st) = (c, out)" by fastforce
  then show ?thesis using emitAll_extends [of "st\<lparr>pOut := c\<rparr>" out] by (simp add: viaCoalescer_def)
qed

lemma pumpStep_extends: "\<exists>new. pSink (pumpStep ev st) = pSink st @ new"
proof (cases ev)
  case (PRead now b)
  obtain e h where "splitAtSafeBoundary (pCarry st @ b) = (e, h)" by fastforce
  then show ?thesis using PRead viaCoalescer_extends [of "CPush now e" "st\<lparr>pCarry := h\<rparr>"]
    by (cases "e = []") (simp_all add: Let_def)
next
  case (PTimer now)
  then show ?thesis using viaCoalescer_extends by simp
next
  case (PEnd now)
  then show ?thesis
    using viaCoalescer_extends [of "CPush now (pCarry st)" st]
      viaCoalescer_extends [of "CClose now" "viaCoalescer (CPush now (pCarry st)) st"] by auto
qed

lemma runPump_extends: "\<exists>new. pSink (runPump es st) = pSink st @ new"
proof (induction es arbitrary: st)
  case (Cons e es)
  show ?case using Cons.IH [of "pumpStep e st"] pumpStep_extends [of e st] by fastforce
qed simp

lemma unat_cum: "n < 2 ^ 64 \<Longrightarrow> unat (of_nat n :: 64 word) = n"
  by (simp add: unsigned_of_nat take_bit_nat_eq_self)

lemma cumsFrom_old:
  assumes "cumsFrom n es" "n + length (concat (map fst es)) \<le> m" "m < 2 ^ 64"
  shows "filter (\<lambda>e. of_nat m < snd e) es = []"
  using assms
proof (induction n es rule: cumsFrom.induct)
  case (2 n d c es)
  have "unat (of_nat (n + length d) :: 64 word) \<le> unat (of_nat m :: 64 word)"
    using 2(3,4) unat_cum [of m] unat_cum [of "n + length d"] by simp
  then show ?case using 2 by (simp add: word_less_nat_alt add.assoc)
qed simp

lemma cumsFrom_new:
  assumes "cumsFrom n es" "m \<le> n" "n + length (concat (map fst es)) < 2 ^ 64"
  shows "concat (map fst (filter (\<lambda>e. of_nat m < snd e) es)) = concat (map fst es)"
  using assms
proof (induction n es rule: cumsFrom.induct)
  case (2 n d c es)
  have "unat (of_nat (n + length d) :: 64 word) = n + length d" "unat (of_nat m :: 64 word) = m"
    using 2(3,4) by (simp_all add: unat_cum del: of_nat_add)
  then have "(of_nat m :: 64 word) < c \<longleftrightarrow> m < n + length d" using 2(2) by (simp add: word_less_nat_alt)
  then show ?case using 2 by (cases d) auto
qed simp

section \<open>Properties\<close>

text \<open>C29: a terminal sees the remote stream and nothing else: whatever the reads and timers, the chunks
  handed to the sink concatenate to a prefix of the bytes read, each with the count of the stream up
  to its end; what lags behind is under 32 KiB plus 64 bytes of a torn tail; and when the stream ends
  nothing lags. The scrollback is the end of what the sink got, whole as long as it fits.\<close>
theorem pump_delivers_stream:
  assumes "st = runPump es newPump"
  shows "(\<exists>lag. sunk st @ lag = readBytes es \<and> length lag < MaxBytes + maxSeq + 1 \<and> (pDone st \<longrightarrow> lag = [])) \<and>
    cumsFrom 0 (pSink st) \<and> suffix (sbBuf (pBack st)) (sunk st) \<and>
    length (sbBuf (pBack st)) \<le> scrollbackCap + scrollbackSlack \<and>
    (length (sunk st) \<le> scrollbackCap + scrollbackSlack \<longrightarrow> sbBuf (pBack st) = sunk st)"
proof -
  have ok: "pumpOK st" "sunk st @ bBuf (pOut st) @ pCarry st = readBytes es"
    using runPump_OK [OF pumpOK_new, of es] assms by (simp_all add: newPump_def sunk_def newCoalescer_def)
  then show ?thesis
    by (auto simp: pumpOK_def backOK_def batchOK_def intro!: exI [of _ "bBuf (pOut st) @ pCarry st"])
qed

theorem pump_delivers_stream_witness:
  "sunk (runPump [PRead 20000000 ''ls'', PEnd 20000001] newPump) = ''ls''"
proof -
  have "pDone (runPump [PRead 20000000 ''ls'', PEnd 20000001] newPump)"
    by (simp add: newPump_def splitAtSafeBoundary_def)
  with pump_delivers_stream [OF refl, of "[PRead 20000000 ''ls'', PEnd 20000001]"] show ?thesis by auto
qed

text \<open>a UTF-8 rune or a CSI sequence that a read cuts is not passed on in halves: the torn tail is held
  back whole, and everything before it goes out.\<close>
lemma torn_tail_is_held:
  assumes "tornRune t \<or> tornCsi t"
  shows "splitAtSafeBoundary (pre @ t) = (pre, t)"
  using assms split_tornRune split_tornCsi by blast

theorem torn_tail_is_held_witness:
  "splitAtSafeBoundary (''total 12'' @ [esc, CHR ''['', CHR ''0'', CHR ''1'']) = (''total 12'', [esc, CHR ''['', CHR ''0'', CHR ''1''])"
  by (rule torn_tail_is_held) (simp add: tornCsi_def maxSeq_def byte_def)

text \<open>a view that mounts late misses and repeats nothing: the snapshot it takes, followed by the
  chunks whose count lies beyond the snapshot's, is the end of the stream the other views saw.\<close>
lemma snapshot_splices:
  assumes "st1 = runPump es1 newPump" "st2 = runPump es2 st1"
    and "snapshot (pBack st1) = (buf, t)" "length (sunk st2) < 2 ^ 64"
  shows "suffix (buf @ concat (map fst (filter (\<lambda>e. t < snd e) (pSink st2)))) (sunk st2)"
proof -
  obtain new where new: "pSink st2 = pSink st1 @ new" using runPump_extends assms(2) by blast
  have ok1: "backOK (sunk st1) (pBack st1)" "cumsFrom 0 (pSink st1)"
    using runPump_OK [OF pumpOK_new, of es1] assms(1) by (simp_all add: pumpOK_def newPump_def)
  have "st2 = runPump (es1 @ es2) newPump" using assms(1,2) by (simp add: runPump_def)
  then have ok2: "cumsFrom 0 (pSink st2)"
    using runPump_OK [OF pumpOK_new, of "es1 @ es2"] by (simp add: pumpOK_def newPump_def)
  let ?n = "length (sunk st1)"
  have s2: "sunk st2 = sunk st1 @ concat (map fst new)" by (simp add: sunk_def new)
  have t: "t = of_nat ?n" "buf = sbBuf (pBack st1)" using assms(3) ok1(1) by (auto simp: snapshot_def backOK_def)
  have "filter (\<lambda>e. t < snd e) (pSink st1) = []"
    unfolding t using ok1(2) assms(4) s2 by (intro cumsFrom_old [of 0]) (simp_all add: sunk_def)
  moreover have "concat (map fst (filter (\<lambda>e. t < snd e) new)) = concat (map fst new)"
    unfolding t
  proof (rule cumsFrom_new)
    show "cumsFrom ?n new" using ok2 unfolding new by (simp add: cumsFrom_append sunk_def)
  qed (use assms(4) s2 in simp_all)
  ultimately have "buf @ concat (map fst (filter (\<lambda>e. t < snd e) (pSink st2))) = buf @ concat (map fst new)"
    by (simp add: new)
  then show ?thesis using ok1(1) s2 t(2) suffix_append_both by (auto simp: backOK_def)
qed

theorem snapshot_splices_witness:
  "suffix (''ls'' @ concat (map fst (filter (\<lambda>e. 2 < snd e) [(''ls'', 2 :: 64 word), (''ok'', 4)]))) ''lsok''"
proof -
  define st1 where "st1 = runPump [PRead 20000000 ''ls''] newPump"
  define st2 where "st2 = runPump [PRead 20000001 ''ok'', PEnd 20000002] st1"
  have s1: "snapshot (pBack st1) = (''ls'', 2)" and k2: "pSink st2 = [(''ls'', 2), (''ok'', 4)]"
    unfolding st2_def st1_def by code_simp+
  from snapshot_splices [OF st1_def st2_def s1] show ?thesis by (simp add: k2 sunk_def)
qed

text \<open>a chunk can still end inside a sequence: the title sequence that ends in ESC and a backslash is cut between
  its last two bytes or after sixty-four, and the part before the cut goes out.\<close>
lemma torn_title_is_emitted:
  "splitAtSafeBoundary (esc # '']0;title'' @ [esc]) = (esc # '']0;title'', [esc]) \<and>
   splitAtSafeBoundary (esc # '']0;'' @ replicate 70 CHR ''x'') = (esc # '']0;'' @ replicate 70 CHR ''x'', []) \<and>
   \<not> escapeComplete (esc # '']0;title'') \<and> \<not> escapeComplete (esc # '']0;'' @ replicate 70 CHR ''x'')"
proof -
  let ?d = "esc # '']0;'' @ replicate 70 CHR ''x''"
  have x: "byte CHR ''x'' = 120" by (simp add: byte_def)
  have "byte (?d ! j) \<ge> 0x20" if "10 \<le> j" "j < 74" for j
    using that x by (auto simp: nth_Cons' nth_append)
  then have "escScan ?d 10 74 = None" by (intro escScan_text) simp
  then have long: "splitAtSafeBoundary ?d = (?d, [])"
    using x by (simp add: splitAtSafeBoundary_def Let_def maxSeq_def nth_append nth_Cons')
  have "\<not> oscEnd (s @ replicate k CHR ''x'')" if "\<not> oscEnd s" "esc \<notin> set s" for s k
    using that by (induction s) (auto, induction k, auto)
  from this [of "''0;''" 70] have "\<not> escapeComplete ?d" by (simp add: escapeComplete_def)
  moreover have "splitAtSafeBoundary (esc # '']0;title'' @ [esc]) = (esc # '']0;title'', [esc])" by code_simp
  moreover have "\<not> escapeComplete (esc # '']0;title'')" by code_simp
  ultimately show ?thesis using long by simp
qed

end
