(* ===== verification/CmdMarks.thy ===== *)
theory CmdMarks
  imports Prelude "HOL-Library.Word"
begin

text \<open>
  Where the user ran commands in a session's output, \<open>internal/cmdmarks/cmdmarks.go\<close>: a bounded log
  of positions in the output stream. Positions are unsigned 64-bit words and compare as such.
\<close>

record mark =
  mCum :: "64 word"
  mAt :: "64 word"

definition maxMarks :: nat where
  "maxMarks = 10000"

definition addMark :: "64 word \<Rightarrow> 64 word \<Rightarrow> mark list \<Rightarrow> mark list" where
  "addMark cum at marks =
     (let m = marks @ [\<lparr>mCum = cum, mAt = at\<rparr>] in
      if length m > maxMarks then drop (length m - maxMarks) m else m)"

text \<open>\<open>Between\<close>: the marks that are left in the log, and the answer.\<close>

definition Between :: "64 word \<Rightarrow> 64 word \<Rightarrow> mark list \<Rightarrow> mark list \<times> mark list" where
  "Between lo hi marks =
     (let kept = dropWhile (\<lambda>m. mCum m < lo) marks
      in (kept, takeWhile (\<lambda>m. \<not> hi < mCum m) kept))"

datatype markCall = Add "64 word" "64 word" | Ask "64 word" "64 word"

fun markStep :: "markCall \<Rightarrow> mark list \<Rightarrow> mark list" where
  "markStep (Add cum at) marks = addMark cum at marks"
| "markStep (Ask lo hi) marks = fst (Between lo hi marks)"

lemma markStep_bound: "length marks \<le> maxMarks \<Longrightarrow> length (markStep k marks) \<le> maxMarks"
  by (cases k) (auto simp: addMark_def Between_def Let_def intro: order_trans [OF length_dropWhile_le])

lemma foldl_bound: "length marks \<le> maxMarks \<Longrightarrow> length (foldl (\<lambda>m k. markStep k m) marks ks) \<le> maxMarks"
  by (induction ks arbitrary: marks) (simp_all add: markStep_bound)

lemma sorted_dropWhile: "sorted (map f xs) \<Longrightarrow> dropWhile (\<lambda>x. f x < (a :: 'a :: linorder)) xs = filter (\<lambda>x. a \<le> f x) xs"
proof (induction xs)
  case (Cons x xs)
  show ?case
  proof (cases "f x < a")
    case False
    then have "\<forall>y \<in> set (x # xs). a \<le> f y" using Cons.prems by auto
    then have "filter (\<lambda>x. a \<le> f x) (x # xs) = x # xs" by (simp add: filter_id_conv)
    then show ?thesis using False by simp
  qed (use Cons in auto)
qed simp

lemma sorted_takeWhile: "sorted (map f xs) \<Longrightarrow> takeWhile (\<lambda>x. \<not> (a :: 'a :: linorder) < f x) xs = filter (\<lambda>x. f x \<le> a) xs"
proof (induction xs)
  case (Cons x xs)
  show ?case
  proof (cases "a < f x")
    case True
    then have "\<forall>y \<in> set (x # xs). \<not> f y \<le> a" using Cons.prems by auto
    then have "filter (\<lambda>x. f x \<le> a) (x # xs) = []" by (simp add: filter_empty_conv)
    then show ?thesis using True by simp
  qed (use Cons in auto)
qed simp

lemma sorted_filter_map: "sorted (map f xs) \<Longrightarrow> sorted (map f (filter P xs))"
  by (rule sorted_filter)

text \<open>the log never holds more than ten thousand marks, and for marks recorded in stream order
  the answer is exactly those in the asked range, oldest first, while only marks before it are
  forgotten.\<close>
lemma marks_window:
  assumes "sorted (map mCum marks)" "length marks \<le> maxMarks"
  shows "snd (Between lo hi marks) = filter (\<lambda>m. lo \<le> mCum m \<and> mCum m \<le> hi) marks \<and>
    fst (Between lo hi marks) = filter (\<lambda>m. lo \<le> mCum m) marks \<and>
    length (foldl (\<lambda>m k. markStep k m) marks ks) \<le> maxMarks"
proof -
  have d: "dropWhile (\<lambda>m. mCum m < lo) marks = filter (\<lambda>m. lo \<le> mCum m) marks"
    by (rule sorted_dropWhile [OF assms(1)])
  have "takeWhile (\<lambda>m. \<not> hi < mCum m) (filter (\<lambda>m. lo \<le> mCum m) marks) =
      filter (\<lambda>m. mCum m \<le> hi) (filter (\<lambda>m. lo \<le> mCum m) marks)"
    by (rule sorted_takeWhile [OF sorted_filter_map [OF assms(1)]])
  then show ?thesis
    using foldl_bound [OF assms(2)] by (simp add: Between_def Let_def d conj_commute)
qed

lemma marks_window_witness:
  "snd (Between 15 30 [\<lparr>mCum = 10, mAt = 1\<rparr>, \<lparr>mCum = 20, mAt = 2\<rparr>, \<lparr>mCum = 40, mAt = 3\<rparr>]) =
   [\<lparr>mCum = 20, mAt = 2\<rparr>]"
  using marks_window [of "[\<lparr>mCum = 10, mAt = 1\<rparr>, \<lparr>mCum = 20, mAt = 2\<rparr>, \<lparr>mCum = 40, mAt = 3\<rparr>]" 15 30 "[]"]
  by (simp add: maxMarks_def)

end
