(* ===== verification/LazySsh.thy ===== *)
theory LazySsh
  imports Prelude "HOL-Library.Multiset"
begin

text \<open>
  The shared SSH session of the Kafka and Database tabs, \<open>internal/sshchan/lazy.go\<close>. Each critical
  section of the mutex is one function on the state; goroutines interleave them in any order, which
  is the step relation. A session is the number of the connect that opened it. Besides the fields of
  the struct the state keeps what the outside world sees of them: how many connects run, how many
  sessions were opened, which close functions are due (taken out of the struct, to be run with the
  lock released) and which have run.
\<close>

section \<open>The transport\<close>

record lazyssh =
  zClient :: "nat option"        \<comment> \<open>\<open>client\<close> and \<open>closeFn\<close>, set and cleared together\<close>
  zInflight :: bool              \<comment> \<open>\<open>inflight != nil\<close>\<close>
  zLastErr :: "string option"
  zClosed :: bool
  zCancelled :: bool             \<comment> \<open>the connect context is cancelled\<close>
  zRunning :: nat
  zOpened :: nat
  zDue :: "nat list"
  zShut :: "nat list"

definition idleTransport :: lazyssh where
  "idleTransport = \<lparr>zClient = None, zInflight = False, zLastErr = None, zClosed = False,
     zCancelled = False, zRunning = 0, zOpened = 0, zDue = [], zShut = []\<rparr>"

datatype clientResult = TransportClosedErr | Got nat | ConnectErr string | MustWait

text \<open>\<open>Client\<close>, up to the wait: it returns, or waits for the connect that runs, which it starts when
  none does.\<close>

definition clientEnter :: "lazyssh \<Rightarrow> clientResult \<times> lazyssh" where
  "clientEnter l =
     (if zClosed l then (TransportClosedErr, l)
      else case zClient l of
        Some c \<Rightarrow> (Got c, l)
      | None \<Rightarrow>
          (if zInflight l then (MustWait, l)
           else (MustWait, l\<lparr>zInflight := True, zRunning := zRunning l + 1\<rparr>)))"

text \<open>\<open>Client\<close>, after the wait; \<open>MustWait\<close> is the next turn of its loop.\<close>

definition clientRead :: "lazyssh \<Rightarrow> clientResult" where
  "clientRead l = (case zClient l of
      Some c \<Rightarrow> Got c
    | None \<Rightarrow> (case zLastErr l of Some e \<Rightarrow> ConnectErr e | None \<Rightarrow> MustWait))"

text \<open>\<open>connect\<close>, when \<open>Connect\<close> has returned an error or a new session.\<close>

definition connectDone :: "string option \<Rightarrow> lazyssh \<Rightarrow> lazyssh" where
  "connectDone err l0 =
     (let l = l0\<lparr>zRunning := zRunning l0 - 1, zInflight := False\<rparr> in
      case err of
        Some e \<Rightarrow> l\<lparr>zLastErr := Some e\<rparr>
      | None \<Rightarrow>
          (let s = zOpened l; l1 = l\<lparr>zOpened := s + 1\<rparr> in
           if zClosed l1 then l1\<lparr>zDue := zDue l1 @ [s]\<rparr>
           else l1\<lparr>zClient := Some s, zLastErr := None\<rparr>))"

definition Invalidate :: "nat option \<Rightarrow> lazyssh \<Rightarrow> lazyssh" where
  "Invalidate c l =
     (if c = None \<or> zClient l \<noteq> c then l
      else l\<lparr>zClient := None, zDue := zDue l @ (case zClient l of Some s \<Rightarrow> [s] | None \<Rightarrow> [])\<rparr>)"

definition CloseTransport :: "lazyssh \<Rightarrow> lazyssh" where
  "CloseTransport l =
     (if zClosed l then l
      else l\<lparr>zClosed := True, zClient := None, zCancelled := True,
             zDue := zDue l @ (case zClient l of Some s \<Rightarrow> [s] | None \<Rightarrow> [])\<rparr>)"

definition StateOf :: "lazyssh \<Rightarrow> string \<times> string" where
  "StateOf l =
     (if zClosed l then (''closed'', [])
      else if zClient l \<noteq> None then (''connected'', [])
      else if zInflight l then (''connecting'', [])
      else case zLastErr l of Some e \<Rightarrow> (''error'', e) | None \<Rightarrow> (''idle'', []))"

text \<open>A close function that is due runs.\<close>

definition runClose :: "nat \<Rightarrow> lazyssh \<Rightarrow> lazyssh" where
  "runClose s l = l\<lparr>zDue := remove1 s (zDue l), zShut := s # zShut l\<rparr>"

section \<open>Interleavings\<close>

inductive lstep :: "lazyssh \<Rightarrow> lazyssh \<Rightarrow> bool" where
  enter: "lstep l (snd (clientEnter l))"
| connected: "0 < zRunning l \<Longrightarrow> lstep l (connectDone None l)"
| failed: "0 < zRunning l \<Longrightarrow> lstep l (connectDone (Some e) l)"
| invalidate: "lstep l (Invalidate c l)"
| close: "lstep l (CloseTransport l)"
| shut: "s \<in> set (zDue l) \<Longrightarrow> lstep l (runClose s l)"

inductive_cases lstepE: "lstep l l'"

definition lreach :: "lazyssh \<Rightarrow> bool" where
  "lreach l \<longleftrightarrow> lstep\<^sup>*\<^sup>* idleTransport l"

definition clientList :: "lazyssh \<Rightarrow> nat list" where
  "clientList l = (case zClient l of Some s \<Rightarrow> [s] | None \<Rightarrow> [])"

definition linv :: "lazyssh \<Rightarrow> bool" where
  "linv l \<longleftrightarrow> zRunning l = (if zInflight l then 1 else 0) \<and>
     mset (clientList l @ zDue l @ zShut l) = mset [0..<zOpened l] \<and>
     (zClosed l \<or> zInflight l \<longrightarrow> zClient l = None)"

lemma linv_idle: "linv idleTransport"
  by (simp add: linv_def idleTransport_def clientList_def)

lemma linv_enter [inv_intros]: "linv l \<Longrightarrow> linv (snd (clientEnter l))"
  by (auto simp: linv_def clientEnter_def clientList_def split: option.splits)

lemma linv_connect [inv_intros]:
  assumes "linv l" "0 < zRunning l"
  shows "linv (connectDone err l)"
proof -
  have r: "zRunning l = 1" "zInflight l" "zClient l = None"
    using assms by (auto simp: linv_def split: if_splits)
  then show ?thesis
    using assms by (cases err) (auto simp: linv_def connectDone_def clientList_def Let_def simp del: mset_upt)
qed

lemma linv_Invalidate [inv_intros]: "linv l \<Longrightarrow> linv (Invalidate c l)"
  by (auto simp: linv_def Invalidate_def clientList_def split: option.splits)

lemma linv_Close [inv_intros]: "linv l \<Longrightarrow> linv (CloseTransport l)"
  by (auto simp: linv_def CloseTransport_def clientList_def split: option.splits)

lemma linv_runClose [inv_intros]: "linv l \<Longrightarrow> s \<in> set (zDue l) \<Longrightarrow> linv (runClose s l)"
  by (simp add: linv_def runClose_def clientList_def)

lemma linv_step: "lstep l l' \<Longrightarrow> linv l \<Longrightarrow> linv l'"
  by (erule lstepE) (auto intro: inv_intros)

lemma linv_run: "lstep\<^sup>*\<^sup>* l l' \<Longrightarrow> linv l \<Longrightarrow> linv l'"
  by (induction rule: rtranclp_induct) (auto intro: linv_step)

lemma linv_reach: "lreach l \<Longrightarrow> linv l"
  using linv_run linv_idle by (auto simp: lreach_def)

lemma closed_step: "lstep l l' \<Longrightarrow> zClosed l \<Longrightarrow> zClosed l'"
  by (erule lstepE)
    (auto simp: clientEnter_def connectDone_def Invalidate_def CloseTransport_def runClose_def Let_def
      split: option.splits)

lemma closed_run: "lstep\<^sup>*\<^sup>* l l' \<Longrightarrow> zClosed l \<Longrightarrow> zClosed l'"
  by (induction rule: rtranclp_induct) (auto intro: closed_step)

text \<open>Once no connect runs, running the close functions that are due shuts everything.\<close>

lemma run_due:
  "\<exists>l'. lstep\<^sup>*\<^sup>* l l' \<and> zDue l' = [] \<and> zRunning l' = zRunning l \<and> zClosed l' = zClosed l"
proof (induction "length (zDue l)" arbitrary: l)
  case (Suc n)
  then obtain s where s: "s \<in> set (zDue l)" by (cases "zDue l") auto
  have "n = length (zDue (runClose s l))" using Suc(2) s by (simp add: runClose_def length_remove1)
  from Suc(1) [OF this] obtain l' where "lstep\<^sup>*\<^sup>* (runClose s l) l'" "zDue l' = []"
    "zRunning l' = zRunning l" "zClosed l' = zClosed l" by (auto simp: runClose_def)
  then show ?case using lstep.shut [OF s] by (meson converse_rtranclp_into_rtranclp)
qed auto

section \<open>Dialing\<close>

text \<open>
  \<open>Dial\<close> as seen by one caller: \<open>clientR\<close> is what \<open>Client\<close> returns at each attempt, \<open>dialR\<close> how the
  channel open on it ends, \<open>ctxErr\<close> whether the dial's context is over by then. The answer comes with
  the sessions it invalidates.
\<close>

datatype dialEnd = DialOk nat | Refused string | DialFailed string

datatype dialResult = Conn nat | DialErr string

fun dialLoop :: "nat \<Rightarrow> nat \<Rightarrow> (nat \<Rightarrow> string + nat) \<Rightarrow> (nat \<Rightarrow> nat \<Rightarrow> dialEnd) \<Rightarrow> (nat \<Rightarrow> bool) \<Rightarrow> string \<Rightarrow>
    dialResult \<times> nat list" where
  "dialLoop 0 attempt clientR dialR ctxErr err = (DialErr err, [])"
| "dialLoop (Suc n) attempt clientR dialR ctxErr err =
     (case clientR attempt of
        Inl e \<Rightarrow> (DialErr e, [])
      | Inr c \<Rightarrow>
        (case dialR attempt c of
           DialOk conn \<Rightarrow> (Conn conn, [])
         | Refused e \<Rightarrow> (DialErr e, [])
         | DialFailed e \<Rightarrow>
             if ctxErr attempt then (DialErr e, [])
             else (case dialLoop n (attempt + 1) clientR dialR ctxErr e of (r, ds) \<Rightarrow> (r, c # ds))))"

definition Dial :: "(nat \<Rightarrow> string + nat) \<Rightarrow> (nat \<Rightarrow> nat \<Rightarrow> dialEnd) \<Rightarrow> (nat \<Rightarrow> bool) \<Rightarrow> dialResult \<times> nat list" where
  "Dial clientR dialR ctxErr = dialLoop 2 0 clientR dialR ctxErr []"

section \<open>Properties\<close>

text \<open>C27: in every interleaving of dials, invalidations, connects and a close, at most one connect
  runs, and each session that was ever opened is exactly one of: the current one, due to be closed,
  or closed once. None is leaked and none is closed twice.\<close>
theorem transport_accounts_for_sessions:
  assumes "lreach l"
  shows "zRunning l \<le> 1 \<and> (zInflight l \<longleftrightarrow> zRunning l = 1) \<and>
    mset (clientList l @ zDue l @ zShut l) = mset [0..<zOpened l]"
  using linv_reach [OF assms] by (simp add: linv_def)

lemma transport_accounts_for_sessions_witness:
  "mset (clientList (connectDone None (snd (clientEnter idleTransport))) @ [] @ []) = mset [0..<1]"
proof -
  let ?l = "connectDone None (snd (clientEnter idleTransport))"
  have "lstep idleTransport (snd (clientEnter idleTransport))" by (rule lstep.enter)
  moreover have "lstep (snd (clientEnter idleTransport)) ?l"
    by (rule lstep.connected) (simp add: clientEnter_def idleTransport_def)
  ultimately have "lreach ?l" unfolding lreach_def by (meson converse_rtranclp_into_rtranclp rtranclp.rtrancl_refl)
  from transport_accounts_for_sessions [OF this] show ?thesis
    by (simp add: connectDone_def clientEnter_def idleTransport_def Let_def)
qed

text \<open>closing is final: whatever happens later, the transport stays closed and hands out no
  session, every caller is told so, and once the connect that may still run has returned and the due
  close functions have run, every session ever opened is closed.\<close>
lemma closed_transport_stays_closed:
  assumes "lreach l" "lstep\<^sup>*\<^sup>* (CloseTransport l) l'"
  shows "zClosed l' \<and> zClient l' = None \<and> clientEnter l' = (TransportClosedErr, l') \<and>
    StateOf l' = (''closed'', []) \<and>
    (zRunning l' = 0 \<and> zDue l' = [] \<longrightarrow> mset (zShut l') = mset [0..<zOpened l'])"
proof -
  have inv: "linv l'" using linv_run [OF assms(2)] linv_Close [OF linv_reach [OF assms(1)]] .
  have "zClosed l'" using closed_run [OF assms(2)] by (simp add: CloseTransport_def)
  then show ?thesis using inv
    by (auto simp: linv_def clientEnter_def StateOf_def clientList_def)
qed

lemma closed_transport_stays_closed_witness: "StateOf (CloseTransport idleTransport) = (''closed'', [])"
  using closed_transport_stays_closed [of idleTransport "CloseTransport idleTransport"]
  by (simp add: lreach_def)

text \<open>A closed transport always can come to rest: from any state after a close some continuation
  shuts every session that was opened.\<close>
lemma closed_transport_drains:
  assumes "lreach l" "zClosed l"
  shows "\<exists>l'. lstep\<^sup>*\<^sup>* l l' \<and> zRunning l' = 0 \<and> zDue l' = [] \<and> mset (zShut l') = mset [0..<zOpened l']"
proof -
  obtain l1 where l1: "lstep\<^sup>*\<^sup>* l l1" "zRunning l1 = 0" "zClosed l1"
  proof (cases "zRunning l")
    case 0
    then show ?thesis using that assms(2) by blast
  next
    case (Suc n)
    moreover have "zRunning l \<le> 1" using linv_reach [OF assms(1)] by (simp add: linv_def)
    ultimately have "zRunning (connectDone (Some []) l) = 0" "lstep l (connectDone (Some []) l)"
      using lstep.failed [of l "[]"] by (simp_all add: connectDone_def Let_def)
    then show ?thesis using that closed_step assms(2) by blast
  qed
  then obtain l' where l': "lstep\<^sup>*\<^sup>* l1 l'" "zDue l' = []" "zRunning l' = 0" "zClosed l'"
    using run_due [of l1] by auto
  have run: "lstep\<^sup>*\<^sup>* l l'" using l1(1) l'(1) by (rule rtranclp_trans)
  have "linv l'" using linv_run [OF run linv_reach [OF assms(1)]] .
  then show ?thesis using run l' by (auto simp: linv_def clientList_def)
qed

lemma closed_transport_drains_witness:
  "\<exists>l'. lstep\<^sup>*\<^sup>* (CloseTransport idleTransport) l' \<and> zRunning l' = 0 \<and> zDue l' = [] \<and>
     mset (zShut l') = mset [0..<zOpened l']"
proof (rule closed_transport_drains)
  show "lreach (CloseTransport idleTransport)" by (simp add: lreach_def r_into_rtranclp lstep.close)
qed (simp add: CloseTransport_def)

text \<open>a dial tries at most twice, drops a session only when a channel open failed on it for
  another reason than a refusal or the dial's own end, and passes a refusal on as it is.\<close>
lemma dial_retries_once:
  "case Dial clientR dialR ctxErr of (r, dropped) \<Rightarrow>
     length dropped \<le> 2 \<and>
     (\<forall>k < length dropped. \<not> ctxErr k \<and> clientR k = Inr (dropped ! k) \<and>
        (\<exists>e. dialR k (dropped ! k) = DialFailed e)) \<and>
     (\<forall>conn. r = Conn conn \<longrightarrow> (\<exists>c. clientR (length dropped) = Inr c \<and> dialR (length dropped) c = DialOk conn)) \<and>
     (\<forall>c e. clientR 0 = Inr c \<and> dialR 0 c = Refused e \<longrightarrow> r = DialErr e \<and> dropped = [])"
  by (auto simp: Dial_def numeral_2_eq_2 less_Suc_eq nth_Cons' split: sum.splits dialEnd.splits)

lemma dial_retries_once_witness:
  "Dial (\<lambda>k. Inr k) (\<lambda>k c. if k = 0 then DialFailed ''eof'' else DialOk 7) (\<lambda>_. False) = (Conn 7, [0]) \<and>
   (\<exists>e. (if (0 :: nat) = 0 then DialFailed ''eof'' else DialOk 7) = DialFailed e) \<and> length [0 :: nat] \<le> 2"
proof -
  let ?d = "\<lambda>k (c :: nat). if k = (0 :: nat) then DialFailed ''eof'' else DialOk 7"
  have d: "Dial (\<lambda>k. Inr k) ?d (\<lambda>_. False) = (Conn 7, [0])" by (simp add: Dial_def numeral_2_eq_2)
  from dial_retries_once [where clientR = "\<lambda>k. Inr k" and dialR = ?d and ctxErr = "\<lambda>_. False"] show ?thesis
    unfolding d by auto
qed

end
