(* ===== verification/JumpPool.thy ===== *)
theory JumpPool
  imports Prelude
begin

text \<open>
  The pool of shared bastion connections, \<open>app_jumppool.go\<close>. Each part of an operation that runs under
  the pool's mutex is one function on the state; goroutines interleave them in any order, which is the
  step relation. Entries are Go pointers, so they live in a heap and are named by their address; the
  map of the pool holds addresses. A timer is named by a number: stopping one may come too late, when
  its callback already waits for the mutex, so a callback that was armed may run at any later time.
  The build of a prefix, the end of its connection and shutdown are steps of their own.
\<close>

section \<open>State\<close>

record jumpEntry =
  jKey :: string
  jReady :: bool                \<comment> \<open>\<open>ready\<close> is closed\<close>
  jErr :: "string option"
  jCancelled :: bool
  jClient :: bool               \<comment> \<open>\<open>client\<close> and \<open>cleanup\<close>, set together\<close>
  jVia :: string
  jRefs :: int
  jTimer :: "nat option"        \<comment> \<open>\<open>stopTimer\<close>\<close>
  jCallbacks :: "nat set"       \<comment> \<open>timers armed whose callback has not run\<close>
  jWatched :: bool              \<comment> \<open>\<open>watch\<close> has not returned from its wait\<close>
  jEnded :: bool                \<comment> \<open>the connection ended by itself\<close>
  jOnce :: bool                 \<comment> \<open>\<open>closeOnce\<close> is used up\<close>
  jCleanups :: nat              \<comment> \<open>how often the prefix was closed\<close>

record jumpPool =
  jpEntries :: "string \<rightharpoonup> nat"
  jpHeap :: "nat \<Rightarrow> jumpEntry"
  jpNext :: nat
  jpTimers :: nat               \<comment> \<open>timers made so far\<close>
  jpRiders :: "(nat \<times> bool) list" \<comment> \<open>entry and \<open>released\<close> of every rider so far\<close>
  jpDue :: "nat list"           \<comment> \<open>calls of \<open>e.close()\<close> still to run\<close>

definition newEntry :: "string \<Rightarrow> jumpEntry" where
  "newEntry k = \<lparr>jKey = k, jReady = False, jErr = None, jCancelled = False, jClient = False, jVia = [],
     jRefs = 0, jTimer = None, jCallbacks = {}, jWatched = False, jEnded = False, jOnce = False, jCleanups = 0\<rparr>"

definition newJumpPool :: jumpPool where
  "newJumpPool = \<lparr>jpEntries = Map.empty, jpHeap = (\<lambda>_. newEntry []), jpNext = 0, jpTimers = 0, jpRiders = [],
     jpDue = []\<rparr>"

definition updEntry :: "nat \<Rightarrow> (jumpEntry \<Rightarrow> jumpEntry) \<Rightarrow> jumpPool \<Rightarrow> jumpPool" where
  "updEntry e f p = p\<lparr>jpHeap := (jpHeap p)(e := f (jpHeap p e))\<rparr>"

text \<open>\<open>p.entries[key] == e\<close> for the entry's own key.\<close>

definition inPool :: "jumpPool \<Rightarrow> nat \<Rightarrow> bool" where
  "inPool p e \<longleftrightarrow> jpEntries p (jKey (jpHeap p e)) = Some e"

definition dropKey :: "nat \<Rightarrow> jumpPool \<Rightarrow> jumpPool" where
  "dropKey e p = p\<lparr>jpEntries := (jpEntries p)(jKey (jpHeap p e) := None)\<rparr>"

section \<open>Acquire\<close>

datatype acquired = NoPrefix | Building nat | WaitFor nat | AcquireErr string | Again | Riding nat nat

text \<open>The first critical section of \<open>acquire\<close>: start the build, or wait for the one found.\<close>

definition acquireEnter :: "string \<Rightarrow> jumpPool \<Rightarrow> acquired \<times> jumpPool" where
  "acquireEnter key p =
     (if key = [] then (NoPrefix, p)
      else case jpEntries p key of
        None \<Rightarrow> (let e = jpNext p in
          (Building e, p\<lparr>jpEntries := (jpEntries p)(key \<mapsto> e), jpNext := e + 1,
                         jpHeap := (jpHeap p)(e := newEntry key)\<rparr>))
      | Some e \<Rightarrow> (WaitFor e, p))"

text \<open>What both paths of \<open>acquire\<close> end with: one more rider, under the lock still held.\<close>

definition ride :: "nat \<Rightarrow> jumpPool \<Rightarrow> acquired \<times> jumpPool" where
  "ride e p =
     (let p1 = updEntry e (\<lambda>x. x\<lparr>jRefs := jRefs x + 1\<rparr>) p in
      (Riding e (length (jpRiders p)), p1\<lparr>jpRiders := jpRiders p @ [(e, False)]\<rparr>))"

datatype buildEnd = BuildFailed string | NoJumpNeeded | Built string

text \<open>The builder after \<open>p.build\<close>; \<open>ctxDone\<close> is whether its own context is cancelled by then.\<close>

definition buildDone :: "nat \<Rightarrow> buildEnd \<Rightarrow> bool \<Rightarrow> jumpPool \<Rightarrow> acquired \<times> jumpPool" where
  "buildDone e r ctxDone p = (case r of
      BuildFailed err \<Rightarrow>
        (AcquireErr err,
         updEntry e (\<lambda>x. x\<lparr>jErr := Some err, jCancelled := ctxDone, jReady := True\<rparr>) (dropKey e p))
    | NoJumpNeeded \<Rightarrow> (NoPrefix, updEntry e (\<lambda>x. x\<lparr>jReady := True\<rparr>) (dropKey e p))
    | Built via \<Rightarrow>
        if \<not> inPool p e then
          (AcquireErr ''jump pool: shutting down'',
           updEntry e (\<lambda>x. x\<lparr>jErr := Some ''jump pool: shutting down'', jReady := True,
                             jCleanups := jCleanups x + 1\<rparr>) p)
        else ride e (updEntry e (\<lambda>x. x\<lparr>jClient := True, jVia := via, jReady := True, jWatched := True\<rparr>) p))"

text \<open>A waiter once \<open>ready\<close> is closed. A build that found no jump has a nil error.\<close>

definition waiterWakes :: "nat \<Rightarrow> jumpPool \<Rightarrow> acquired \<times> jumpPool" where
  "waiterWakes e p =
     (let x = jpHeap p e in
      if \<not> jClient x then
        (if jCancelled x then (Again, p)
         else (case jErr x of Some err \<Rightarrow> (AcquireErr err, p) | None \<Rightarrow> (NoPrefix, p)))
      else if \<not> inPool p e then (Again, p)
      else ride e (updEntry e (\<lambda>x. x\<lparr>jTimer := None\<rparr>) p))"

section \<open>Release and the end of a bastion\<close>

definition armTimer :: "nat \<Rightarrow> jumpPool \<Rightarrow> jumpPool" where
  "armTimer e p =
     (updEntry e (\<lambda>x. x\<lparr>jTimer := Some (jpTimers p), jCallbacks := insert (jpTimers p) (jCallbacks x)\<rparr>) p)
       \<lparr>jpTimers := jpTimers p + 1\<rparr>"

definition release :: "nat \<Rightarrow> jumpPool \<Rightarrow> jumpPool" where
  "release i p =
     (let (e, released) = jpRiders p ! i in
      if released then p
      else let p1 = (updEntry e (\<lambda>x. x\<lparr>jRefs := jRefs x - 1\<rparr>) p)\<lparr>jpRiders := (jpRiders p)[i := (e, True)]\<rparr> in
        if jRefs (jpHeap p1 e) > 0 \<or> \<not> inPool p1 e then p1 else armTimer e p1)"

text \<open>The callback of timer \<open>t\<close>.\<close>

definition lingerFires :: "nat \<Rightarrow> nat \<Rightarrow> jumpPool \<Rightarrow> jumpPool" where
  "lingerFires e t p =
     (let p1 = updEntry e (\<lambda>x. x\<lparr>jCallbacks := jCallbacks x - {t}\<rparr>) p in
      if jRefs (jpHeap p1 e) > 0 \<or> \<not> inPool p1 e then p1
      else (dropKey e p1)\<lparr>jpDue := jpDue p1 @ [e]\<rparr>)"

text \<open>\<open>watch\<close> after its wait.\<close>

definition watchEnds :: "nat \<Rightarrow> jumpPool \<Rightarrow> jumpPool" where
  "watchEnds e p =
     (let p1 = updEntry e (\<lambda>x. x\<lparr>jWatched := False, jEnded := True\<rparr>) p;
          p2 = (if inPool p1 e then updEntry e (\<lambda>x. x\<lparr>jTimer := None\<rparr>) (dropKey e p1) else p1)
      in p2\<lparr>jpDue := jpDue p2 @ [e]\<rparr>)"

text \<open>\<open>close\<close> of an entry: \<open>cleanup\<close> is nil until the build is done.\<close>

definition closeEntry :: "nat \<Rightarrow> jumpPool \<Rightarrow> jumpPool" where
  "closeEntry e p =
     (let x = jpHeap p e; p1 = p\<lparr>jpDue := remove1 e (jpDue p)\<rparr> in
      if jOnce x then p1
      else updEntry e (\<lambda>x. x\<lparr>jOnce := True, jCleanups := jCleanups x + (if jClient x then 1 else 0)\<rparr>) p1)"

text \<open>\<open>stopAll\<close>: the map is swapped for an empty one and every entry that was in it is closed.\<close>

definition stopAll :: "nat list \<Rightarrow> jumpPool \<Rightarrow> jumpPool" where
  "stopAll es p = p\<lparr>jpEntries := Map.empty, jpDue := jpDue p @ es\<rparr>"

definition peek :: "string \<Rightarrow> jumpPool \<Rightarrow> nat option" where
  "peek key p =
     (if key = [] then None
      else case jpEntries p key of
        Some e \<Rightarrow> if jClient (jpHeap p e) then Some e else None
      | None \<Rightarrow> None)"

section \<open>Interleavings\<close>

text \<open>\<open>pstep shut\<close>: \<open>stopAll\<close> is a step only when \<open>shut\<close>.\<close>

inductive pstep :: "bool \<Rightarrow> jumpPool \<Rightarrow> jumpPool \<Rightarrow> bool" where
  enter: "pstep shut p (snd (acquireEnter key p))"
| built: "e < jpNext p \<Longrightarrow> \<not> jReady (jpHeap p e) \<Longrightarrow> pstep shut p (snd (buildDone e r ctxDone p))"
| wakes: "e < jpNext p \<Longrightarrow> jReady (jpHeap p e) \<Longrightarrow> pstep shut p (snd (waiterWakes e p))"
| release: "i < length (jpRiders p) \<Longrightarrow> pstep shut p (release i p)"
| linger: "e < jpNext p \<Longrightarrow> t \<in> jCallbacks (jpHeap p e) \<Longrightarrow> pstep shut p (lingerFires e t p)"
| ended: "e < jpNext p \<Longrightarrow> jWatched (jpHeap p e) \<Longrightarrow> pstep shut p (watchEnds e p)"
| closing: "e \<in> set (jpDue p) \<Longrightarrow> pstep shut p (closeEntry e p)"
| shutdown: "shut \<Longrightarrow> set es = ran (jpEntries p) \<Longrightarrow> distinct es \<Longrightarrow> pstep shut p (stopAll es p)"

inductive_cases pstepE: "pstep shut p p'"

definition preach :: "bool \<Rightarrow> jumpPool \<Rightarrow> bool" where
  "preach shut p \<longleftrightarrow> (pstep shut)\<^sup>*\<^sup>* newJumpPool p"

definition ridersOf :: "jumpPool \<Rightarrow> nat \<Rightarrow> nat" where
  "ridersOf p e = length (filter (\<lambda>r. r = (e, False)) (jpRiders p))"

section \<open>Invariant\<close>

lemma updEntry_simps [simp]:
  "jpEntries (updEntry e f p) = jpEntries p" "jpNext (updEntry e f p) = jpNext p"
  "jpTimers (updEntry e f p) = jpTimers p" "jpRiders (updEntry e f p) = jpRiders p"
  "jpDue (updEntry e f p) = jpDue p" "jpHeap (updEntry e f p) = (jpHeap p)(e := f (jpHeap p e))"
  by (simp_all add: updEntry_def)

lemma dropKey_simps [simp]:
  "jpEntries (dropKey e p) = (jpEntries p)(jKey (jpHeap p e) := None)" "jpNext (dropKey e p) = jpNext p"
  "jpTimers (dropKey e p) = jpTimers p" "jpRiders (dropKey e p) = jpRiders p"
  "jpDue (dropKey e p) = jpDue p" "jpHeap (dropKey e p) = jpHeap p"
  by (simp_all add: dropKey_def)

text \<open>
  What holds of an entry: its count is that of its riders; a bastion is closed once and not while it is
  in the pool; one in the pool without riders has its linger running. \<open>shut\<close> says whether \<open>stopAll\<close> may
  have run; before that an entry is out of the pool only when its build failed, its connection ended or
  it was left without riders, and then it is closed.
\<close>

definition entryOK :: "bool \<Rightarrow> jumpPool \<Rightarrow> nat \<Rightarrow> bool" where
  "entryOK shut p e \<longleftrightarrow> (let x = jpHeap p e in
     jRefs x = int (ridersOf p e) \<and>
     (jClient x \<longrightarrow> jReady x \<and> jCleanups x = (if jOnce x then 1 else 0)) \<and>
     (\<not> jClient x \<longrightarrow> ridersOf p e = 0 \<and> \<not> jWatched x \<and> jCallbacks x = {} \<and>
        jCleanups x \<le> (if jReady x then 1 else 0)) \<and>
     (inPool p e \<longrightarrow> \<not> jOnce x \<and> jCleanups x = 0 \<and> e \<notin> set (jpDue p) \<and> (jReady x \<longrightarrow> jClient x) \<and>
        (jClient x \<and> jRefs x = 0 \<longrightarrow> (\<exists>t. jTimer x = Some t \<and> t \<in> jCallbacks x))) \<and>
     (\<not> shut \<and> \<not> inPool p e \<longrightarrow> jReady x \<and>
        (jClient x \<longrightarrow> (jOnce x \<or> e \<in> set (jpDue p)) \<and> (jEnded x \<or> jRefs x = 0))))"

definition pinv :: "bool \<Rightarrow> jumpPool \<Rightarrow> bool" where
  "pinv shut p \<longleftrightarrow>
     (\<forall>k e. jpEntries p k = Some e \<longrightarrow> e < jpNext p \<and> jKey (jpHeap p e) = k) \<and>
     (\<forall>r \<in> set (jpRiders p). fst r < jpNext p) \<and>
     (\<forall>e \<in> set (jpDue p). e < jpNext p) \<and>
     (\<forall>e < jpNext p. entryOK shut p e)"

lemma pinv_new: "pinv shut newJumpPool"
  by (simp add: pinv_def newJumpPool_def)

lemma ridersOf_append [simp]:
  "jpRiders p' = jpRiders p @ [(e, False)] \<Longrightarrow> ridersOf p' d = ridersOf p d + (if d = e then 1 else 0)"
  by (simp add: ridersOf_def)

lemma ridersOf_cong: "jpRiders p' = jpRiders p \<Longrightarrow> ridersOf p' e = ridersOf p e"
  by (simp add: ridersOf_def)

lemma ridersOf_release:
  assumes "i < length (jpRiders p)" "jpRiders p ! i = (e, False)" "jpRiders p' = (jpRiders p)[i := (e, True)]"
  shows "ridersOf p d = ridersOf p' d + (if d = e then 1 else 0)"
proof -
  have s: "jpRiders p = take i (jpRiders p) @ (e, False) # drop (Suc i) (jpRiders p)"
    using assms by (metis id_take_nth_drop)
  have s': "jpRiders p' = take i (jpRiders p) @ (e, True) # drop (Suc i) (jpRiders p)"
    using assms by (simp add: upd_conv_take_nth_drop)
  show ?thesis unfolding ridersOf_def by (subst s, subst s') simp
qed

text \<open>An operation that changes one entry keeps what holds of the others, as long as it moves none of
  them into or out of the pool.\<close>

lemma entryOK_frame:
  assumes "entryOK shut p d" "jpHeap p' d = jpHeap p d" "ridersOf p' d = ridersOf p d"
    "inPool p' d = inPool p d" "(d \<in> set (jpDue p')) = (d \<in> set (jpDue p))"
  shows "entryOK shut p' d"
  using assms by (simp add: entryOK_def)

lemma pinvD:
  assumes "pinv shut p"
  shows "jpEntries p k = Some e \<Longrightarrow> e < jpNext p" "jpEntries p k = Some e \<Longrightarrow> jKey (jpHeap p e) = k"
    "r \<in> set (jpRiders p) \<Longrightarrow> fst r < jpNext p" "e \<in> set (jpDue p) \<Longrightarrow> e < jpNext p"
    "e < jpNext p \<Longrightarrow> entryOK shut p e"
  using assms by (simp_all add: pinv_def)

lemma inPool_other:
  assumes "pinv shut p" "inPool p e" "d \<noteq> e"
  shows "inPool (dropKey e p) d = inPool p d"
  using assms by (auto simp: inPool_def)

lemma ridersOf_none: "pinv shut p \<Longrightarrow> jpNext p \<le> e \<Longrightarrow> ridersOf p e = 0"
  using pinvD(3) by (fastforce simp: ridersOf_def filter_empty_conv)

lemma pinv_enter [inv_intros]:
  assumes "pinv shut p"
  shows "pinv shut (snd (acquireEnter key p))"
proof (cases "key = [] \<or> jpEntries p key \<noteq> None")
  case True
  then show ?thesis using assms by (auto simp: acquireEnter_def)
next
  case False
  let ?p = "snd (acquireEnter key p)"
  have p: "jpEntries ?p = (jpEntries p)(key \<mapsto> jpNext p)" "jpNext ?p = jpNext p + 1"
    "jpHeap ?p = (jpHeap p)(jpNext p := newEntry key)" "jpRiders ?p = jpRiders p" "jpDue ?p = jpDue p"
    using False by (auto simp: acquireEnter_def Let_def)
  have new: "entryOK shut ?p (jpNext p)"
    using assms p ridersOf_none [OF assms order_refl] pinvD(4) [OF assms]
    by (fastforce simp: entryOK_def Let_def newEntry_def inPool_def ridersOf_def)
  have old: "entryOK shut ?p e" if "e < jpNext p" for e
    using that False p by (intro entryOK_frame [OF pinvD(5) [OF assms that]])
      (auto simp: ridersOf_def inPool_def)
  show ?thesis
    using assms p new old by (fastforce simp: pinv_def newEntry_def less_Suc_eq)
qed

text \<open>A change of one entry that keeps it in the pool, or out of it.\<close>

lemma pinv_upd:
  assumes inv: "pinv shut p" and e: "e < jpNext p"
    and p': "jpEntries p' = jpEntries p" "jpNext p' = jpNext p" "set (jpDue p') - {e} = set (jpDue p) - {e}"
      "\<forall>d. d \<noteq> e \<longrightarrow> jpHeap p' d = jpHeap p d" "jKey (jpHeap p' e) = jKey (jpHeap p e)"
      "\<forall>r \<in> set (jpRiders p'). fst r < jpNext p" "\<forall>d. d \<noteq> e \<longrightarrow> ridersOf p' d = ridersOf p d"
    and ok: "entryOK shut p e \<Longrightarrow> inPool p' e = inPool p e \<Longrightarrow> entryOK shut p' e"
  shows "pinv shut p'"
proof -
  have key: "jKey (jpHeap p' d) = jKey (jpHeap p d)" for d using p'(4,5) by (cases "d = e") auto
  then have ip: "inPool p' d = inPool p d" for d using p'(1) by (simp add: inPool_def)
  have "entryOK shut p' d" if "d < jpNext p" for d
  proof (cases "d = e")
    case True
    then show ?thesis using ok pinvD(5) [OF inv e] ip by simp
  next
    case False
    then show ?thesis using p' ip by (intro entryOK_frame [OF pinvD(5) [OF inv that]]) auto
  qed
  moreover have "\<forall>d \<in> set (jpDue p'). d < jpNext p" using p'(3) pinvD(4) [OF inv] e by blast
  ultimately show ?thesis using inv p' key by (simp add: pinv_def)
qed

text \<open>A change of one entry that takes it out of the pool.\<close>

lemma pinv_drop:
  assumes inv: "pinv shut p" and e: "e < jpNext p" and ip: "inPool p e"
    and p': "jpEntries p' = (jpEntries p)(jKey (jpHeap p e) := None)" "jpNext p' = jpNext p"
      "set (jpDue p') - {e} = set (jpDue p) - {e}"
      "\<forall>d. d \<noteq> e \<longrightarrow> jpHeap p' d = jpHeap p d" "jKey (jpHeap p' e) = jKey (jpHeap p e)"
      "jpRiders p' = jpRiders p"
    and ok: "entryOK shut p e \<Longrightarrow> \<not> inPool p' e \<Longrightarrow> entryOK shut p' e"
  shows "pinv shut p'"
proof -
  have ip': "inPool p' d = inPool p d" if "d \<noteq> e" for d
    using that ip p' by (auto simp: inPool_def)
  have "\<not> inPool p' e" using p' by (simp add: inPool_def)
  have ok': "entryOK shut p' d" if "d < jpNext p" for d
  proof (cases "d = e")
    case True
    then show ?thesis using ok pinvD(5) [OF inv e] \<open>\<not> inPool p' e\<close> by simp
  next
    case False
    then show ?thesis using p' ip' ridersOf_cong [OF p'(6)]
      by (intro entryOK_frame [OF pinvD(5) [OF inv that]]) auto
  qed
  have due: "\<forall>d \<in> set (jpDue p'). d < jpNext p" using p'(3) pinvD(4) [OF inv] e by blast
  have m: "d < jpNext p \<and> jKey (jpHeap p' d) = k" if "jpEntries p' k = Some d" for k d
  proof -
    have "jpEntries p k = Some d" using that p'(1) by (auto split: if_splits)
    then show ?thesis using pinvD(1,2) [OF inv] p'(4,5) by (cases "d = e") auto
  qed
  show ?thesis unfolding pinv_def using ok' due m p'(2,6) pinvD(3) [OF inv] by simp
qed


lemma ridersOf_updEntry [simp]: "ridersOf (updEntry e f p) d = ridersOf p d"
  by (simp add: ridersOf_def)

lemma ridersOf_dropKey [simp]: "ridersOf (dropKey e p) d = ridersOf p d"
  by (simp add: ridersOf_def)

lemma unmap_entry:
  assumes "entryOK True p d" "jpHeap p' d = jpHeap p d" "ridersOf p' d = ridersOf p d"
    "inPool p' d \<Longrightarrow> inPool p d" "inPool p' d \<Longrightarrow> d \<in> set (jpDue p') \<Longrightarrow> d \<in> set (jpDue p)"
  shows "entryOK True p' d"
  using assms by (auto simp: entryOK_def Let_def)

lemma pinv_unmap:
  assumes "pinv True p"
  shows "pinv True (dropKey e p)"
proof -
  have "entryOK True (dropKey e p) d" if "d < jpNext p" for d
    by (rule unmap_entry [OF pinvD(5) [OF assms that]]) (auto simp: inPool_def split: if_splits)
  then show ?thesis using assms by (auto simp: pinv_def)
qed

lemma jRefs_entry: "entryOK shut p e \<Longrightarrow> jRefs (jpHeap p e) = int (ridersOf p e)"
  by (simp add: entryOK_def Let_def)

text \<open>The builder and a waiter of a bastion in the pool take a seat.\<close>

lemma pinv_ride:
  assumes "pinv shut p" "e < jpNext p" "inPool p e"
    and "jClient x" "jReady x" "jKey x = jKey (jpHeap p e)" "jRefs x = jRefs (jpHeap p e)"
    and "jOnce x = jOnce (jpHeap p e)" "jCleanups x = jCleanups (jpHeap p e)"
  shows "pinv shut (snd (ride e (updEntry e (\<lambda>_. x) p)))"
proof (rule pinv_upd [OF assms(1,2)])
  let ?p = "snd (ride e (updEntry e (\<lambda>_. x) p))"
  have r: "jpRiders ?p = jpRiders p @ [(e, False)]" by (simp add: ride_def Let_def)
  show "entryOK shut ?p e" if "entryOK shut p e" "inPool ?p e = inPool p e"
    using that assms(3-) ridersOf_append [OF r, of e]
    by (auto simp: entryOK_def Let_def ride_def)
  show "\<forall>d. d \<noteq> e \<longrightarrow> ridersOf ?p d = ridersOf p d" using ridersOf_append [OF r] by simp
  show "\<forall>r \<in> set (jpRiders ?p). fst r < jpNext p" using r assms(1,2) by (auto simp: pinv_def)
qed (use assms in \<open>simp_all add: ride_def Let_def\<close>)

lemma pinv_built [inv_intros]:
  assumes inv: "pinv shut p" and e: "e < jpNext p" and r: "\<not> jReady (jpHeap p e)"
  shows "pinv shut (snd (buildDone e res ctxDone p))"
proof -
  note ok = pinvD(5) [OF inv e]
  have c: "\<not> jClient (jpHeap p e)" "jCleanups (jpHeap p e) = 0" "ridersOf p e = 0"
    using ok r by (auto simp: entryOK_def Let_def)
  have fail: "pinv shut (updEntry e f (dropKey e p))"
    if f: "\<And>x. f x = x\<lparr>jErr := a x, jCancelled := b x, jReady := True\<rparr>" for f a b
  proof (cases "inPool p e")
    case True
    show ?thesis
    proof (rule pinv_drop [OF inv e True])
      show "entryOK shut (updEntry e f (dropKey e p)) e"
        if "entryOK shut p e" "\<not> inPool (updEntry e f (dropKey e p)) e"
        using that c by (simp add: entryOK_def Let_def f)
    qed (use f in simp_all)
  next
    case False
    then have shut: "shut" using ok r by (auto simp: entryOK_def Let_def)
    have "pinv True (updEntry e f (dropKey e p))"
    proof (rule pinv_upd)
      show "pinv True (dropKey e p)" using inv shut by (simp add: pinv_unmap)
      show "entryOK True (updEntry e f (dropKey e p)) e"
        if "entryOK True (dropKey e p) e"
          "inPool (updEntry e f (dropKey e p)) e = inPool (dropKey e p) e"
        using that c False by (auto simp: entryOK_def Let_def f inPool_def split: if_splits)
    qed (use e f inv in \<open>auto simp: pinv_def\<close>)
    then show ?thesis using shut by simp
  qed
  show ?thesis
  proof (cases res)
    case (BuildFailed err)
    then show ?thesis by (simp add: buildDone_def fail)
  next
    case NoJumpNeeded
    have "pinv shut (updEntry e (\<lambda>x. x\<lparr>jReady := True\<rparr>) (dropKey e p))"
      by (rule fail [where a = jErr and b = jCancelled]) simp
    then show ?thesis using NoJumpNeeded by (simp add: buildDone_def)
  next
    case (Built via)
    show ?thesis
    proof (cases "inPool p e")
      case True
      have "pinv shut (snd (ride e (updEntry e (\<lambda>_. (jpHeap p e)\<lparr>jClient := True, jVia := via, jReady := True,
          jWatched := True\<rparr>) p)))"
        by (rule pinv_ride [OF inv e True]) simp_all
      moreover have "updEntry e (\<lambda>_. (jpHeap p e)\<lparr>jClient := True, jVia := via, jReady := True, jWatched := True\<rparr>) p
          = updEntry e (\<lambda>x. x\<lparr>jClient := True, jVia := via, jReady := True, jWatched := True\<rparr>) p"
        by (simp add: updEntry_def)
      ultimately show ?thesis using Built True by (simp add: buildDone_def)
    next
      case False
      let ?f = "\<lambda>x. x\<lparr>jErr := Some ''jump pool: shutting down'', jReady := True, jCleanups := jCleanups x + 1\<rparr>"
      have "pinv shut (updEntry e ?f p)"
      proof (rule pinv_upd [OF inv e])
        show "entryOK shut (updEntry e ?f p) e"
          if "entryOK shut p e" "inPool (updEntry e ?f p) e = inPool p e"
          using that c False by (simp add: entryOK_def Let_def)
      qed (use inv in \<open>auto simp: pinv_def\<close>)
      then show ?thesis using Built False by (simp add: buildDone_def)
    qed
  qed
qed

lemma pinv_wakes [inv_intros]:
  assumes inv: "pinv shut p" and e: "e < jpNext p" and r: "jReady (jpHeap p e)"
  shows "pinv shut (snd (waiterWakes e p))"
proof (cases "jClient (jpHeap p e) \<and> inPool p e")
  case True
  have "pinv shut (snd (ride e (updEntry e (\<lambda>_. (jpHeap p e)\<lparr>jTimer := None\<rparr>) p)))"
    by (rule pinv_ride [OF inv e]) (use True r in simp_all)
  moreover have "updEntry e (\<lambda>_. (jpHeap p e)\<lparr>jTimer := None\<rparr>) p = updEntry e (\<lambda>x. x\<lparr>jTimer := None\<rparr>) p"
    by (simp add: updEntry_def)
  ultimately show ?thesis using True by (simp add: waiterWakes_def Let_def)
qed (use inv in \<open>auto simp: waiterWakes_def Let_def split: option.splits\<close>)


lemma pinv_release [inv_intros]:
  assumes inv: "pinv shut p" and i: "i < length (jpRiders p)"
  shows "pinv shut (release i p)"
proof -
  obtain e rel where r: "jpRiders p ! i = (e, rel)" by fastforce
  have e: "e < jpNext p" using pinvD(3) [OF inv, of "(e, rel)"] i r nth_mem by force
  show ?thesis
  proof (cases rel)
    case True
    then show ?thesis using inv r by (simp add: release_def)
  next
    case False
    let ?p = "release i p"
    define p1 where "p1 = (updEntry e (\<lambda>x. x\<lparr>jRefs := jRefs x - 1\<rparr>) p)\<lparr>jpRiders := (jpRiders p)[i := (e, True)]\<rparr>"
    have rel: "?p = (if jRefs (jpHeap p e) - 1 > 0 \<or> \<not> inPool p e then p1 else armTimer e p1)"
      using r False by (simp add: release_def p1_def inPool_def)
    have rs: "jpRiders ?p = (jpRiders p)[i := (e, True)]" by (simp add: rel p1_def armTimer_def)
    have "jpRiders p ! i = (e, False)" using r False by simp
    note cnt = ridersOf_release [OF i this rs]
    obtain n where n: "ridersOf p e = Suc n" "ridersOf ?p e = n" using cnt [of e] by simp
    have h: "jpHeap ?p = (jpHeap p)(e := jpHeap ?p e)" "jpDue ?p = jpDue p" "jpNext ?p = jpNext p"
      "jpEntries ?p = jpEntries p" "jKey (jpHeap ?p e) = jKey (jpHeap p e)"
      by (auto simp: rel p1_def armTimer_def)
    let ?x = "jpHeap p e" and ?y = "jpHeap ?p e"
    have y: "jRefs ?y = jRefs ?x - 1" "jClient ?y = jClient ?x" "jReady ?y = jReady ?x" "jOnce ?y = jOnce ?x"
      "jCleanups ?y = jCleanups ?x" "jWatched ?y = jWatched ?x" "jEnded ?y = jEnded ?x"
      by (auto simp: rel p1_def armTimer_def)
    have z: "jRefs ?y > 0 \<or> \<not> inPool p e \<or> (\<exists>t. jTimer ?y = Some t \<and> t \<in> jCallbacks ?y)"
      by (simp add: rel p1_def armTimer_def)
    show ?thesis
    proof (rule pinv_upd [OF inv e])
      show "entryOK shut ?p e" if ok: "entryOK shut p e" and ip: "inPool ?p e = inPool p e"
        unfolding entryOK_def Let_def
        using ok z unfolding entryOK_def Let_def y ip h(2) n
        by (intro conjI impI) (simp_all, auto)
      show "\<forall>d. d \<noteq> e \<longrightarrow> ridersOf ?p d = ridersOf p d" using cnt by simp
      show "\<forall>r \<in> set (jpRiders ?p). fst r < jpNext p"
        using rs pinvD(3) [OF inv] e set_update_subset_insert [of "jpRiders p" i "(e, True)"] by auto
      show "\<forall>d. d \<noteq> e \<longrightarrow> jpHeap ?p d = jpHeap p d" by (subst h(1)) simp
    qed (use h in simp_all)
  qed
qed

lemma pinv_linger [inv_intros]:
  assumes inv: "pinv shut p" and e: "e < jpNext p" and t: "t \<in> jCallbacks (jpHeap p e)"
  shows "pinv shut (lingerFires e t p)"
proof -
  let ?f = "\<lambda>x. x\<lparr>jCallbacks := jCallbacks x - {t}\<rparr>" and ?p = "lingerFires e t p"
  have ip: "inPool (updEntry e ?f p) e = inPool p e" by (simp add: inPool_def)
  show ?thesis
  proof (cases "jRefs (jpHeap p e) > 0 \<or> \<not> inPool p e")
    case True
    then have "?p = updEntry e ?f p" using ip by (auto simp: lingerFires_def)
    moreover have "pinv shut (updEntry e ?f p)"
    proof (rule pinv_upd [OF inv e])
      show "entryOK shut (updEntry e ?f p) e"
        if "entryOK shut p e" "inPool (updEntry e ?f p) e = inPool p e"
        using that True t by (simp add: entryOK_def Let_def) auto
    qed (use inv in \<open>simp_all add: pinv_def\<close>)
    ultimately show ?thesis by simp
  next
    case False
    then have p: "?p = (dropKey e (updEntry e ?f p))\<lparr>jpDue := jpDue p @ [e]\<rparr>"
      using ip by (simp add: lingerFires_def)
    have r: "ridersOf ?p e = ridersOf p e" by (rule ridersOf_cong) (simp add: p)
    have "e < jpNext p \<Longrightarrow> entryOK shut p e" using pinvD(5) [OF inv] .
    then have c: "jClient (jpHeap p e)" "jReady (jpHeap p e)" using e t by (auto simp: entryOK_def Let_def)
    show ?thesis
    proof (rule pinv_drop [OF inv e])
      show "entryOK shut ?p e" if "entryOK shut p e" "\<not> inPool ?p e"
        using that False c r by (simp add: entryOK_def Let_def p)
    qed (use False in \<open>auto simp: p\<close>)
  qed
qed

lemma pinv_ended [inv_intros]:
  assumes inv: "pinv shut p" and e: "e < jpNext p" and w: "jWatched (jpHeap p e)"
  shows "pinv shut (watchEnds e p)"
proof -
  let ?f = "\<lambda>x. x\<lparr>jWatched := False, jEnded := True\<rparr>" and ?p = "watchEnds e p"
  have ip: "inPool (updEntry e ?f p) e = inPool p e" by (simp add: inPool_def)
  have c: "jClient (jpHeap p e)" "jReady (jpHeap p e)"
    using pinvD(5) [OF inv e] w by (auto simp: entryOK_def Let_def)
  have rs: "jpRiders ?p = jpRiders p" by (simp add: watchEnds_def Let_def)
  note r = ridersOf_cong [OF rs]
  show ?thesis
  proof (cases "inPool p e")
    case True
    then have p: "?p = (updEntry e (\<lambda>x. x\<lparr>jTimer := None\<rparr>) (dropKey e (updEntry e ?f p)))\<lparr>jpDue := jpDue p @ [e]\<rparr>"
      using ip by (simp add: watchEnds_def Let_def)
    show ?thesis
    proof (rule pinv_drop [OF inv e True])
      show "entryOK shut ?p e" if "entryOK shut p e" "\<not> inPool ?p e"
        using that True c r by (simp add: entryOK_def Let_def p)
    qed (use rs in \<open>auto simp: p\<close>)
  next
    case False
    then have p: "?p = (updEntry e ?f p)\<lparr>jpDue := jpDue p @ [e]\<rparr>"
      using ip by (simp add: watchEnds_def Let_def)
    show ?thesis
    proof (rule pinv_upd [OF inv e])
      show "entryOK shut ?p e" if "entryOK shut p e" "inPool ?p e = inPool p e"
        using that False c r by (simp add: entryOK_def Let_def p)
    qed (use r inv in \<open>auto simp: p pinv_def\<close>)
  qed
qed

lemma pinv_closing [inv_intros]:
  assumes inv: "pinv shut p" and d: "e \<in> set (jpDue p)"
  shows "pinv shut (closeEntry e p)"
proof -
  have e: "e < jpNext p" using pinvD(4) [OF inv d] .
  have out: "\<not> inPool p e" using pinvD(5) [OF inv e] d by (auto simp: entryOK_def Let_def)
  have rs: "jpRiders (closeEntry e p) = jpRiders p" by (simp add: closeEntry_def Let_def)
  note r = ridersOf_cong [OF rs]
  have due: "set (remove1 e xs) - {e} = set xs - {e}" for xs :: "nat list"
    by (induction xs) auto
  show ?thesis
  proof (rule pinv_upd [OF inv e])
    let ?x = "jpHeap p e" and ?y = "jpHeap (closeEntry e p) e"
    have y: "jRefs ?y = jRefs ?x" "jClient ?y = jClient ?x" "jReady ?y = jReady ?x" "jOnce ?y"
      "jCleanups ?y = jCleanups ?x + (if jClient ?x \<and> \<not> jOnce ?x then 1 else 0)"
      "jWatched ?y = jWatched ?x" "jEnded ?y = jEnded ?x" "jCallbacks ?y = jCallbacks ?x"
      by (auto simp: closeEntry_def Let_def)
    show "entryOK shut (closeEntry e p) e" if ok: "entryOK shut p e" and ip: "inPool (closeEntry e p) e = inPool p e"
      unfolding entryOK_def Let_def y ip r
      using ok out y(4) unfolding entryOK_def Let_def by (intro conjI impI) (simp_all, auto)
    show "set (jpDue (closeEntry e p)) - {e} = set (jpDue p) - {e}"
      using due by (simp add: closeEntry_def Let_def)
    show "\<forall>r \<in> set (jpRiders (closeEntry e p)). fst r < jpNext p" using rs pinvD(3) [OF inv] by simp
  qed (use r in \<open>simp_all add: closeEntry_def Let_def\<close>)
qed

lemma pinv_stopAll [inv_intros]:
  assumes inv: "pinv True p" and es: "set es = ran (jpEntries p)"
  shows "pinv True (stopAll es p)"
proof -
  have "entryOK True (stopAll es p) d" if "d < jpNext p" for d
    by (rule unmap_entry [OF pinvD(5) [OF inv that]]) (auto simp: stopAll_def inPool_def ridersOf_def)
  moreover have "\<forall>e \<in> set es. e < jpNext p" using es pinvD(1) [OF inv] by (auto simp: ran_def)
  ultimately show ?thesis using inv by (auto simp: pinv_def stopAll_def)
qed

lemma pinv_step: "pstep shut p p' \<Longrightarrow> pinv shut p \<Longrightarrow> pinv shut p'"
  by (induction rule: pstep.induct) (auto intro: inv_intros)

lemma pinv_reach: "preach shut p \<Longrightarrow> pinv shut p"
  unfolding preach_def by (induction rule: rtranclp_induct) (simp_all add: pinv_new pinv_step)

section \<open>Properties\<close>


text \<open>until shutdown nothing is leaked and nothing is pulled from under a rider: a bastion with
  riders stays in the pool, open, unless its own connection ended; one without riders that is still in
  the pool has its linger timer running; and one that left the pool is closed or about to be.\<close>
lemma bastion_never_leaks:
  assumes "preach False p" "e < jpNext p" "jClient (jpHeap p e)"
  shows "(ridersOf p e > 0 \<longrightarrow> inPool p e \<and> jCleanups (jpHeap p e) = 0 \<or> jEnded (jpHeap p e)) \<and>
    (ridersOf p e = 0 \<and> inPool p e \<longrightarrow>
       (\<exists>t. jTimer (jpHeap p e) = Some t \<and> t \<in> jCallbacks (jpHeap p e))) \<and>
    (\<not> inPool p e \<longrightarrow> jCleanups (jpHeap p e) = 1 \<or> e \<in> set (jpDue p))"
  using pinvD(5) [OF pinv_reach [OF assms(1)] assms(2)] assms(3)
  by (auto simp: entryOK_def Let_def)


lemma preach_start: "preach shut newJumpPool"
  by (simp add: preach_def)

lemma preach_step: "preach shut p \<Longrightarrow> pstep shut p p' \<Longrightarrow> preach shut p'"
  by (simp add: preach_def)

lemmas preach_steps = pstep.intros [THEN preach_step [rotated]]

text \<open>A bastion that is built, left and closed by its linger.\<close>

definition sampleLeft :: jumpPool where
  "sampleLeft = release 0 (snd (buildDone 0 (Built []) False (snd (acquireEnter ''jump.example:22'' newJumpPool))))"

lemmas sample_defs = sampleLeft_def buildDone_def acquireEnter_def newJumpPool_def newEntry_def inPool_def ride_def
  release_def armTimer_def dropKey_def updEntry_def Let_def

lemma preach_sampleLeft: "preach False sampleLeft"
  unfolding sampleLeft_def
  by (intro preach_steps(4) preach_steps(2) preach_steps(1) preach_start)
    (simp_all add: sample_defs)


theorem bastion_never_leaks_witness: "\<exists>t. jTimer (jpHeap sampleLeft 0) = Some t \<and> t \<in> jCallbacks (jpHeap sampleLeft 0)"
proof -
  have "0 < jpNext sampleLeft" "jClient (jpHeap sampleLeft 0)" "ridersOf sampleLeft 0 = 0" "inPool sampleLeft 0"
    by (simp_all add: sample_defs ridersOf_def)
  with bastion_never_leaks [OF preach_sampleLeft this(1,2)] show ?thesis by simp
qed

text \<open>a build that fails forgets to look whether the entry under its key is still its own: when
  shutdown emptied the pool during the build and another session opened the same bastion since, the
  failure throws that bastion out of the pool, and it stays open after its last rider left with nothing
  that would ever close it.\<close>
lemma failed_build_orphans_bastion:
  "\<exists>p. preach True p \<and> jClient (jpHeap p 1) \<and> ridersOf p 1 = 0 \<and> \<not> inPool p 1 \<and>
     jCallbacks (jpHeap p 1) = {} \<and> 1 \<notin> set (jpDue p) \<and> jCleanups (jpHeap p 1) = 0 \<and> \<not> jEnded (jpHeap p 1)"
proof -
  define p1 where "p1 = snd (acquireEnter ''k'' newJumpPool)"
  define p2 where "p2 = stopAll [0] p1"
  define p3 where "p3 = snd (acquireEnter ''k'' p2)"
  define p4 where "p4 = snd (buildDone 1 (Built []) False p3)"
  define p5 where "p5 = snd (buildDone 0 (BuildFailed ''refused'') False p4)"
  define p6 where "p6 = release 0 p5"
  note defs = p6_def p5_def p4_def p3_def p2_def p1_def stopAll_def sample_defs
  have "preach True p1" unfolding p1_def by (intro preach_steps preach_start)
  then have "preach True p2" unfolding p2_def
    by (rule preach_step [OF _ pstep.shutdown]) (auto simp: p1_def acquireEnter_def newJumpPool_def Let_def)
  then have "preach True p3" unfolding p3_def by (rule preach_step [OF _ pstep.enter])
  then have "preach True p4" unfolding p4_def
    by (rule preach_step [OF _ pstep.built]) (simp_all add: defs)
  then have "preach True p5" unfolding p5_def
    by (rule preach_step [OF _ pstep.built]) (simp_all add: defs)
  then have "preach True p6" unfolding p6_def
    by (rule preach_step [OF _ pstep.release]) (simp add: defs)
  then show ?thesis
    by (intro exI [of _ p6] conjI) (simp_all add: defs ridersOf_def)
qed

end
