(* ===== verification/Syncer.thy ===== *)
theory Syncer
  imports Prelude "HOL-Library.Word"
begin

text \<open>
  Profile sync, \<open>internal/syncer/syncer.go\<close>: \<open>Push\<close> and \<open>Pull\<close> over a remote that is a map from names
  to blobs. How each transport call of a push ends is part of its environment: a write that fails may
  have left the object as it was or with any other content. \<open>Push\<close> returns the remote after each of
  its writes, so that what a concurrent reader can see is a statement about that list. Sealing and
  restoring the snapshot (\<open>internal/backup\<close>) and the JSON form of the commit record are arguments.
\<close>

section \<open>Remote and commit record\<close>

type_synonym blob = "char list"
type_synonym remote = "string \<rightharpoonup> blob"

definition metaName :: string where "metaName = ''meta.json''"
definition snapshotName :: string where "snapshotName = ''snapshot.stb''"
definition snapshotTmp :: string where "snapshotTmp = ''snapshot.stb.uploading''"

record syncMeta =
  smFormat :: int
  smGeneration :: "64 word"
  smUpdatedAt :: string
  smDevice :: string
  smAppVersion :: string
  smSnapshotSize :: nat

datatype transportError = NotFound | OtherError string

datatype syncError = NoPassphrase | SyncDir string | CorruptMeta | TransportFailed transportError
  | PullFirst "64 word" "64 word" | PersistGeneration string | SealFailed string | SnapshotUpload
  | CommitMeta | NothingToPull | SnapshotMissing | RestoreFailed string

text \<open>How a write ended: done, or failed leaving the object unchanged or with the given content.\<close>

datatype outcome = Done | FailedClean | FailedWith "blob option"

definition writeBlob :: "string \<Rightarrow> blob \<Rightarrow> outcome \<Rightarrow> remote \<Rightarrow> bool \<times> remote" where
  "writeBlob name data oc r = (case oc of
      Done \<Rightarrow> (True, r(name \<mapsto> data))
    | FailedClean \<Rightarrow> (False, r)
    | FailedWith v \<Rightarrow> (False, r(name := v)))"

text \<open>\<open>Move\<close>: the destination is overwritten in one step, or nothing happens.\<close>

definition moveBlob :: "string \<Rightarrow> string \<Rightarrow> bool \<Rightarrow> remote \<Rightarrow> bool \<times> remote" where
  "moveBlob src dst ok r = (if ok \<and> r src \<noteq> None then (True, r(dst := r src, src := None)) else (False, r))"

record syncEnv =
  eDir :: "string option"             \<comment> \<open>the error of \<open>EnsureDir\<close>\<close>
  eGet :: "string option"             \<comment> \<open>the error of reading the meta, besides not found\<close>
  eOnGeneration :: "string option"    \<comment> \<open>the error of the caller's \<open>onGeneration\<close>\<close>
  eSeal :: "string + blob"            \<comment> \<open>\<open>backup.Create\<close> and reading its file\<close>
  ePutTmp :: outcome
  eMove :: bool
  ePutSnapshot :: outcome
  ePutMeta :: outcome
  eNow :: string

definition getBlob :: "string option \<Rightarrow> string \<Rightarrow> remote \<Rightarrow> transportError + blob" where
  "getBlob err name r = (case err of
      Some e \<Rightarrow> Inl (OtherError e)
    | None \<Rightarrow> (case r name of None \<Rightarrow> Inl NotFound | Some b \<Rightarrow> Inr b))"

text \<open>\<open>FetchMeta\<close>; \<open>dec\<close> is \<open>json.Unmarshal\<close> into \<open>Meta\<close>.\<close>

definition FetchMeta :: "(blob \<Rightarrow> syncMeta option) \<Rightarrow> string option \<Rightarrow> remote \<Rightarrow> syncError + syncMeta" where
  "FetchMeta dec err r = (case getBlob err metaName r of
      Inl e \<Rightarrow> Inl (TransportFailed e)
    | Inr raw \<Rightarrow> (case dec raw of None \<Rightarrow> Inl CorruptMeta | Some m \<Rightarrow> Inr m))"

section \<open>Push\<close>

definition nextGeneration :: "64 word \<Rightarrow> syncMeta option \<Rightarrow> 64 word" where
  "nextGeneration known remote =
     (let gen = known + 1 in
      case remote of
        Some m \<Rightarrow> if sint (smGeneration m) \<ge> sint gen then smGeneration m + 1 else gen
      | None \<Rightarrow> gen)"

definition commitRecord :: "64 word \<Rightarrow> string \<Rightarrow> string \<Rightarrow> string \<Rightarrow> blob \<Rightarrow> syncMeta" where
  "commitRecord gen now device appVersion blob = \<lparr>smFormat = 1, smGeneration = gen, smUpdatedAt = now,
     smDevice = device, smAppVersion = appVersion, smSnapshotSize = length blob\<rparr>"

text \<open>The uploads of a push, and the remote after each.\<close>

definition uploads :: "(syncMeta \<Rightarrow> blob) \<Rightarrow> syncEnv \<Rightarrow> blob \<Rightarrow> syncMeta \<Rightarrow> remote \<Rightarrow>
    (syncError + 64 word \<times> nat) \<times> remote list" where
  "uploads enc env blob meta r0 =
     (case writeBlob snapshotTmp blob (ePutTmp env) r0 of
        (False, r1) \<Rightarrow> (Inl (TransportFailed (OtherError [])), [r1])
      | (True, r1) \<Rightarrow>
        (case moveBlob snapshotTmp snapshotName (eMove env) r1 of
           (moved, r2) \<Rightarrow>
             (case (if moved then (True, r2) else writeBlob snapshotName blob (ePutSnapshot env) r2) of
                (False, r3) \<Rightarrow> (Inl SnapshotUpload, [r1, r2, r3])
              | (True, r3) \<Rightarrow>
                (case writeBlob metaName (enc meta) (ePutMeta env) r3 of
                   (False, r4) \<Rightarrow> (Inl CommitMeta, [r1, r2, r3, r4])
                 | (True, r4) \<Rightarrow> (Inr (smGeneration meta, length blob), [r1, r2, r3, r4])))))"

text \<open>
  \<open>onGeneration\<close> is optional; \<open>hasOn\<close> says whether the caller passed one. The second component holds
  the remotes after the writes; a push that stops before its first write has none.
\<close>

definition Push :: "(syncMeta \<Rightarrow> blob) \<Rightarrow> (blob \<Rightarrow> syncMeta option) \<Rightarrow> syncEnv \<Rightarrow> bool \<Rightarrow> string \<Rightarrow> string \<Rightarrow>
    string \<Rightarrow> 64 word \<Rightarrow> bool \<Rightarrow> remote \<Rightarrow> (syncError + 64 word \<times> nat) \<times> remote list" where
  "Push enc dec env hasOn passphrase appVersion device knownGen force r =
     (if passphrase = [] then (Inl NoPassphrase, [])
      else case eDir env of
        Some e \<Rightarrow> (Inl (SyncDir e), [])
      | None \<Rightarrow>
        (case FetchMeta dec (eGet env) r of
           Inl e \<Rightarrow>
             if e \<noteq> TransportFailed NotFound then (Inl e, [])
             else
               (case (if hasOn then eOnGeneration env else None) of
                  Some e \<Rightarrow> (Inl (PersistGeneration e), [])
                | None \<Rightarrow>
                  (case eSeal env of
                     Inl e \<Rightarrow> (Inl (SealFailed e), [])
                   | Inr blob \<Rightarrow>
                       uploads enc env blob (commitRecord (nextGeneration knownGen None) (eNow env) device appVersion blob) r))
         | Inr m \<Rightarrow>
             if smGeneration m \<noteq> knownGen \<and> \<not> force then (Inl (PullFirst (smGeneration m) knownGen), [])
             else
               (case (if hasOn then eOnGeneration env else None) of
                  Some e \<Rightarrow> (Inl (PersistGeneration e), [])
                | None \<Rightarrow>
                  (case eSeal env of
                     Inl e \<Rightarrow> (Inl (SealFailed e), [])
                   | Inr blob \<Rightarrow>
                       uploads enc env blob (commitRecord (nextGeneration knownGen (Some m)) (eNow env) device appVersion blob) r))))"

section \<open>Pull\<close>

text \<open>What is staged on success, besides the answer: the snapshot handed to \<open>backup.Restore\<close>.\<close>

definition Pull :: "(blob \<Rightarrow> syncMeta option) \<Rightarrow> string option \<Rightarrow> string option \<Rightarrow> (blob \<Rightarrow> string option) \<Rightarrow> string \<Rightarrow>
    remote \<Rightarrow> syncError + (64 word \<times> string \<times> string) \<times> blob" where
  "Pull dec metaErr snapErr restore passphrase r =
     (if passphrase = [] then Inl NoPassphrase
      else case FetchMeta dec metaErr r of
        Inl e \<Rightarrow> Inl (if e = TransportFailed NotFound then NothingToPull else e)
      | Inr m \<Rightarrow>
        (case getBlob snapErr snapshotName r of
           Inl NotFound \<Rightarrow> Inl SnapshotMissing
         | Inl e \<Rightarrow> Inl (TransportFailed e)
         | Inr blob \<Rightarrow>
             (case restore blob of
                Some e \<Rightarrow> Inl (RestoreFailed e)
              | None \<Rightarrow> Inr ((smGeneration m, smDevice m, smUpdatedAt m), blob))))"

section \<open>What the uploads leave behind\<close>

lemma names [simp]: "metaName \<noteq> snapshotName" "metaName \<noteq> snapshotTmp" "snapshotName \<noteq> snapshotTmp"
  "snapshotName \<noteq> metaName" "snapshotTmp \<noteq> metaName" "snapshotTmp \<noteq> snapshotName"
  by (simp_all add: metaName_def snapshotName_def snapshotTmp_def)

text \<open>A remote along a push: the meta is untouched, or the snapshot it commits is in place.\<close>

definition committed :: "blob \<Rightarrow> remote \<Rightarrow> remote \<Rightarrow> bool" where
  "committed blob r0 r \<longleftrightarrow> r metaName = r0 metaName \<or> r snapshotName = Some blob"

lemma uploads_committed:
  assumes "uploads enc env blob meta r0 = (res, rs)" "r \<in> set rs"
  shows "committed blob r0 r"
proof -
  have tmp: "\<And>ok r1. writeBlob snapshotTmp blob (ePutTmp env) r0 = (ok, r1) \<Longrightarrow> r1 metaName = r0 metaName"
    by (auto simp: writeBlob_def split: outcome.splits)
  have mv: "\<And>ok r1 r2. moveBlob snapshotTmp snapshotName (eMove env) r1 = (ok, r2) \<Longrightarrow> r2 metaName = r1 metaName"
    by (auto simp: moveBlob_def split: if_splits)
  have sn: "\<And>ok r2 r3. writeBlob snapshotName blob (ePutSnapshot env) r2 = (ok, r3) \<Longrightarrow>
      r3 metaName = r2 metaName \<and> (ok \<longrightarrow> r3 snapshotName = Some blob)"
    by (auto simp: writeBlob_def split: outcome.splits)
  have moved: "\<And>r1 r2. writeBlob snapshotTmp blob (ePutTmp env) r0 = (True, r1) \<Longrightarrow>
      moveBlob snapshotTmp snapshotName (eMove env) r1 = (True, r2) \<Longrightarrow> r2 snapshotName = Some blob"
    by (auto simp: writeBlob_def moveBlob_def split: outcome.splits if_splits)
  have me: "\<And>ok r3 r4. writeBlob metaName (enc meta) (ePutMeta env) r3 = (ok, r4) \<Longrightarrow> r4 snapshotName = r3 snapshotName"
    by (auto simp: writeBlob_def split: outcome.splits)
  obtain ok1 r1 where w1: "writeBlob snapshotTmp blob (ePutTmp env) r0 = (ok1, r1)" by fastforce
  obtain ok2 r2 where w2: "moveBlob snapshotTmp snapshotName (eMove env) r1 = (ok2, r2)" by fastforce
  obtain ok3 r3 where w3: "(if ok2 then (True, r2) else writeBlob snapshotName blob (ePutSnapshot env) r2) = (ok3, r3)"
    by fastforce
  obtain ok4 r4 where w4: "writeBlob metaName (enc meta) (ePutMeta env) r3 = (ok4, r4)" by fastforce
  have m1: "r1 metaName = r0 metaName" by (rule tmp [OF w1])
  have m2: "r2 metaName = r0 metaName" using mv [OF w2] m1 by simp
  have m3: "r3 metaName = r0 metaName \<and> (ok1 \<and> ok3 \<longrightarrow> r3 snapshotName = Some blob)"
  proof (cases ok2)
    case True
    then show ?thesis using w3 m2 moved w1 w2 by auto
  next
    case False
    then show ?thesis using w3 m2 sn [of r2 ok3 r3] by auto
  qed
  have "r = r1 \<or> r = r2 \<or> r = r3 \<or> (ok1 \<and> ok3 \<and> r = r4)"
    using assms w1 w2 w3 w4 by (auto simp: uploads_def split: bool.splits)
  then show ?thesis using m1 m2 m3 me [OF w4] by (auto simp: committed_def)
qed

lemma uploads_done:
  assumes "uploads enc env blob meta r0 = (Inr (gen, n), rs)"
  shows "gen = smGeneration meta \<and> n = length blob \<and> rs \<noteq> [] \<and>
    last rs metaName = Some (enc meta) \<and> last rs snapshotName = Some blob"
  using assms by (auto simp: uploads_def writeBlob_def moveBlob_def split: outcome.splits if_splits)

lemma uploads_nonempty: "uploads enc env blob meta r0 = (res, rs) \<Longrightarrow> rs \<noteq> []"
  by (auto simp: uploads_def split: prod.splits bool.splits)

lemma Push_uploads:
  assumes "Push enc dec env hasOn pass app device known force r = (res, rs)" "rs \<noteq> []"
  obtains blob gen where "uploads enc env blob (commitRecord gen (eNow env) device app blob) r = (res, rs)"
    "eSeal env = Inr blob"
    "(FetchMeta dec (eGet env) r = Inl (TransportFailed NotFound) \<and> gen = nextGeneration known None) \<or>
     (\<exists>m0. FetchMeta dec (eGet env) r = Inr m0 \<and> (force \<or> smGeneration m0 = known) \<and>
        gen = nextGeneration known (Some m0))"
  using assms by (auto simp: Push_def split: if_splits option.splits sum.splits)

lemma Push_done_uploads: "Push enc dec env hasOn pass app device known force r = (Inr v, rs) \<Longrightarrow> rs \<noteq> []"
  by (auto simp: Push_def dest: uploads_nonempty split: if_splits option.splits sum.splits)

lemma commitRecord_sel [simp]: "smGeneration (commitRecord g t d a b) = g" "smDevice (commitRecord g t d a b) = d"
  "smUpdatedAt (commitRecord g t d a b) = t"
  by (simp_all add: commitRecord_def)

section \<open>Properties\<close>

text \<open>C25: the commit record is written last: whatever call of a push fails, and however it fails, at no
  moment does the remote hold a commit record other than the old one without the snapshot that was
  sealed for it being in place; a push that stops before its uploads writes nothing; one that
  succeeds leaves both.\<close>
theorem push_commits_last:
  assumes "Push enc dec env hasOn pass app device known force r0 = (res, rs)"
  shows "(\<forall>r \<in> set rs. \<exists>blob. eSeal env = Inr blob \<and> committed blob r0 r) \<and>
    (\<forall>gen n. res = Inr (gen, n) \<longrightarrow> rs \<noteq> [] \<and> (\<exists>blob m. eSeal env = Inr blob \<and> n = length blob \<and>
       smGeneration m = gen \<and> last rs metaName = Some (enc m) \<and> last rs snapshotName = Some blob))"
proof (cases "rs = []")
  case True
  then show ?thesis using assms Push_done_uploads by fastforce
next
  case False
  from Push_uploads [OF assms False] obtain blob gen where
    up: "uploads enc env blob (commitRecord gen (eNow env) device app blob) r0 = (res, rs)" "eSeal env = Inr blob"
    by metis
  show ?thesis
    using uploads_committed [OF up(1)] uploads_done [of enc env blob _ r0 _ _ rs] up by fastforce
qed

definition sampleEnv :: syncEnv where
  "sampleEnv = \<lparr>eDir = None, eGet = None, eOnGeneration = None, eSeal = Inr ''sealed'', ePutTmp = Done,
     eMove = False, ePutSnapshot = Done, ePutMeta = FailedWith None, eNow = ''2026''\<rparr>"

text \<open>A form of the commit record for the concrete runs below.\<close>

definition sampleEnc :: "syncMeta \<Rightarrow> blob" where
  "sampleEnc m = smDevice m @ ''@'' @ smUpdatedAt m"

lemma push_commits_last_witness:
  "\<exists>res rs. Push sampleEnc (\<lambda>_. None) sampleEnv False ''pw'' ''1.0'' ''laptop'' 0 False Map.empty = (res, rs) \<and>
     res = Inl CommitMeta \<and> length rs = 4 \<and> (\<forall>r \<in> set rs. committed ''sealed'' Map.empty r)"
proof -
  let ?p = "Push sampleEnc (\<lambda>_. None) sampleEnv False ''pw'' ''1.0'' ''laptop'' 0 False Map.empty"
  have p: "fst ?p = Inl CommitMeta" "length (snd ?p) = 4"
    by (simp_all add: Push_def FetchMeta_def getBlob_def uploads_def writeBlob_def moveBlob_def sampleEnv_def)
  have "eSeal sampleEnv = Inr ''sealed''" by (simp add: sampleEnv_def)
  with push_commits_last [of sampleEnc "\<lambda>_. None" sampleEnv False "''pw''" "''1.0''" "''laptop''" 0 False Map.empty
      "fst ?p" "snd ?p"]
  have "\<forall>r \<in> set (snd ?p). committed ''sealed'' Map.empty r" by fastforce
  with p show ?thesis by (metis prod.collapse)
qed

text \<open>a push never overwrites another machine's changes unasked, and generations only grow: it goes
  through only if the remote still has the generation last seen here or the push is forced, and what
  it commits is later than both. (Generations are 64-bit and signed; below the last one they grow.)\<close>
lemma push_generation_grows:
  assumes "Push enc dec env hasOn pass app device known force r0 = (Inr (gen, n), rs)"
    and "FetchMeta dec (eGet env) r0 = Inr m0"
    and "sint known < 2 ^ 63 - 1" "sint (smGeneration m0) < 2 ^ 63 - 1"
  shows "(force \<or> smGeneration m0 = known) \<and> sint known < sint gen \<and> sint (smGeneration m0) < sint gen"
proof -
  from Push_uploads [OF assms(1) Push_done_uploads [OF assms(1)]] obtain blob g where
    m: "uploads enc env blob (commitRecord g (eNow env) device app blob) r0 = (Inr (gen, n), rs)"
    "force \<or> smGeneration m0 = known" "g = nextGeneration known (Some m0)"
    using assms(2) by (metis Inl_Inr_False sum.inject(2))
  have suc: "sint (w + 1) = sint w + 1" if "sint w < 2 ^ 63 - 1" for w :: "64 word"
  proof -
    have "sint w \<ge> - (2 ^ 63)" using sint_greater_eq [of w] by simp
    then show ?thesis using that
      by (simp add: sint_word_ariths signed_take_bit_int_eq_self)
  qed
  have "gen = nextGeneration known (Some m0)" using uploads_done [OF m(1)] m(3) by simp
  then show ?thesis using m(2) suc [OF assms(3)] suc [OF assms(4)]
    by (auto simp: nextGeneration_def Let_def)
qed

lemma push_generation_grows_witness:
  "\<exists>n rs. Push sampleEnc (\<lambda>_. Some (commitRecord 4 [] [] [] [])) (sampleEnv\<lparr>ePutMeta := Done\<rparr>) False ''pw'' ''1.0''
     ''laptop'' 4 False [metaName \<mapsto> ''m''] = (Inr (5, n), rs) \<and> sint (4 :: 64 word) < sint (5 :: 64 word)"
proof -
  let ?p = "Push sampleEnc (\<lambda>_. Some (commitRecord 4 [] [] [] [])) (sampleEnv\<lparr>ePutMeta := Done\<rparr>) False ''pw'' ''1.0''
     ''laptop'' 4 False [metaName \<mapsto> ''m'']"
  have p: "?p = (Inr (5, 6), snd ?p)"
    by (simp add: Push_def FetchMeta_def getBlob_def uploads_def writeBlob_def moveBlob_def sampleEnv_def
        nextGeneration_def)
  have "sint (4 :: 64 word) < sint (5 :: 64 word)"
    using push_generation_grows [OF p, of "commitRecord 4 [] [] [] []"]
    by (simp add: FetchMeta_def getBlob_def sampleEnv_def)
  with p show ?thesis by metis
qed

text \<open>C26: what one machine pushes another pulls: a pull from the remote a successful push left gives
  that push's generation and device, and restores exactly the snapshot it sealed, given that the
  commit record survives its encoding.\<close>
theorem pull_after_push:
  assumes "Push enc dec env hasOn pass app device known force r0 = (Inr (gen, n), rs)"
    and "eSeal env = Inr blob"
    and "dec (enc (commitRecord gen (eNow env) device app blob)) = Some (commitRecord gen (eNow env) device app blob)"
    and "restore blob = None" "pass' \<noteq> []"
  shows "Pull dec None None restore pass' (last rs) = Inr ((gen, device, eNow env), blob)"
proof -
  from Push_uploads [OF assms(1) Push_done_uploads [OF assms(1)]] obtain g where
    m: "uploads enc env blob (commitRecord g (eNow env) device app blob) r0 = (Inr (gen, n), rs)"
    using assms(2) by (metis sum.inject(2))
  have "g = gen" using uploads_done [OF m] by simp
  with uploads_done [OF m] show ?thesis
    using assms(3,4,5) by (simp add: Pull_def FetchMeta_def getBlob_def)
qed

lemma pull_after_push_witness:
  "\<exists>rs. Pull (\<lambda>_. Some (commitRecord 5 ''2026'' ''laptop'' ''1.0'' ''sealed'')) None None (\<lambda>_. None) ''pw'' (last rs) =
     Inr ((5, ''laptop'', ''2026''), ''sealed'')"
proof -
  let ?dec = "\<lambda>_. Some (commitRecord 5 ''2026'' ''laptop'' ''1.0'' ''sealed'')"
  let ?p = "Push sampleEnc ?dec (sampleEnv\<lparr>ePutMeta := Done\<rparr>) False ''pw'' ''1.0'' ''laptop'' 4 True Map.empty"
  have p: "?p = (Inr (5, 6), snd ?p)" and env: "eSeal (sampleEnv\<lparr>ePutMeta := Done\<rparr>) = Inr ''sealed''"
    "eNow (sampleEnv\<lparr>ePutMeta := Done\<rparr>) = ''2026''"
    by (simp_all add: Push_def FetchMeta_def getBlob_def uploads_def writeBlob_def moveBlob_def sampleEnv_def
        nextGeneration_def)
  from pull_after_push [OF p env(1), of "\<lambda>_. None" "''pw''"] show ?thesis
    unfolding env(2) by auto
qed

end
