(* ===== verification/AutoSync.thy ===== *)
theory AutoSync
  imports Syncer GoStrings "HOL-Library.Code_Target_Nat"
begin

text \<open>
  The auto-sync engine, \<open>sync_auto.go\<close>, and the push it runs, \<open>SyncPush\<close> of \<open>app.go\<close>: fingerprints and
  the stamp of the last push, the tick with its quiet period, the check of the remote, and the flush on
  quit. The content signature of the profile (\<open>syncFingerprintBodyNow\<close>) is a field of the state that
  edits change; the settings table is a map. A push takes time, so the content when it ends is an
  argument of its own. Times are in seconds.
\<close>

section \<open>State\<close>

datatype autoEvent = AutoPushed "64 word" | RemoteAhead "64 word" string string bool

record syncApp =
  yBody :: string
  ySettings :: "string \<rightharpoonup> string"
  yStamp :: string               \<comment> \<open>the stamp file, empty when missing\<close>
  yDirtyFP :: string
  yDirtySince :: int
  yLastCheck :: int
  yNotifiedGen :: "64 word"
  yUnlocked :: bool
  yPending :: bool
  yRemote :: remote
  yEvents :: "autoEvent list"

definition autoSyncQuiet :: int where
  "autoSyncQuiet = 90"

section \<open>Settings\<close>

definition syncAutoEnabled :: "syncApp \<Rightarrow> bool" where
  "syncAutoEnabled a \<longleftrightarrow> ySettings a ''sync_auto'' = Some ''1''"

definition syncAutoApplyEnabled :: "syncApp \<Rightarrow> bool" where
  "syncAutoApplyEnabled a \<longleftrightarrow> ySettings a ''sync_auto_apply'' = Some ''1''"

definition syncCheckMinutes :: "syncApp \<Rightarrow> int" where
  "syncCheckMinutes a = (case ySettings a ''sync_check_minutes'' of
      Some v \<Rightarrow> (case Atoi v of Some n \<Rightarrow> if n \<ge> 1 then n else 5 | None \<Rightarrow> 5)
    | None \<Rightarrow> 5)"

definition syncTransportName :: "syncApp \<Rightarrow> string" where
  "syncTransportName a = (case ySettings a ''sync_transport'' of
      Some v \<Rightarrow> if v \<noteq> [] then v else ''webdav''
    | None \<Rightarrow> ''webdav'')"

definition syncGenerationKey :: "syncApp \<Rightarrow> string \<Rightarrow> string" where
  "syncGenerationKey a transport =
     (let t = (if transport = [] then syncTransportName a else transport) in
      if t = ''webdav'' then ''sync_generation'' else ''sync_generation:'' @ t)"

text \<open>\<open>ParseInt(v, 10, 64)\<close> accepts what \<open>Atoi\<close> does on a 64-bit platform.\<close>

definition syncGeneration :: "syncApp \<Rightarrow> 64 word" where
  "syncGeneration a = (case ySettings a (syncGenerationKey a (syncTransportName a)) of
      Some v \<Rightarrow> (case Atoi v of Some n \<Rightarrow> word_of_int n | None \<Rightarrow> 0)
    | None \<Rightarrow> 0)"

definition putSetting :: "string \<Rightarrow> string \<Rightarrow> syncApp \<Rightarrow> syncApp" where
  "putSetting k v a = a\<lparr>ySettings := (ySettings a)(k \<mapsto> v)\<rparr>"

definition setSyncGeneration :: "64 word \<Rightarrow> syncApp \<Rightarrow> syncApp" where
  "setSyncGeneration gen a = putSetting (syncGenerationKey a (syncTransportName a)) (itoaInt (sint gen)) a"

section \<open>Fingerprints\<close>

definition syncFingerprintFormat :: string where
  "syncFingerprintFormat = ''fp3''"

definition syncFingerprint :: "syncApp \<Rightarrow> string" where
  "syncFingerprint a = syncFingerprintFormat @ ''|'' @ yBody a"

definition syncFingerprintBody :: "string \<Rightarrow> string" where
  "syncFingerprintBody fp = (case IndexByte fp CHR ''|'' of Some i \<Rightarrow> drop (i + 1) fp | None \<Rightarrow> fp)"

definition syncPushedFingerprint :: "syncApp \<Rightarrow> string" where
  "syncPushedFingerprint a = TrimSpace (yStamp a)"

definition syncDirty :: "syncApp \<Rightarrow> bool" where
  "syncDirty a \<longleftrightarrow> syncFingerprint a \<noteq> syncPushedFingerprint a"

definition recordSyncPushedFingerprint :: "syncApp \<Rightarrow> syncApp" where
  "recordSyncPushedFingerprint a = a\<lparr>yStamp := syncFingerprint a\<rparr>"

text \<open>\<open>strings.Replace\<close> with a count of one.\<close>

definition canonSyncBody :: "string \<Rightarrow> string" where
  "canonSyncBody body = (case Index body ''network_profiles=0;'' of
      Some i \<Rightarrow> take i body @ drop (i + length ''network_profiles=0;'') body
    | None \<Rightarrow> body)"

definition reconcileSyncStampOnStart :: "syncApp \<Rightarrow> syncApp" where
  "reconcileSyncStampOnStart a =
     (let stamped = syncPushedFingerprint a; cur = syncFingerprint a in
      if stamped = [] then a
      else if cur = stamped then a
      else if canonSyncBody (syncFingerprintBody cur) = canonSyncBody (syncFingerprintBody stamped)
        then a\<lparr>yStamp := cur\<rparr>
      else a)"

definition autoSyncReady :: "syncApp \<Rightarrow> bool" where
  "autoSyncReady a \<longleftrightarrow>
     syncAutoEnabled a \<and>
     (let transport = (case ySettings a ''sync_transport'' of Some t \<Rightarrow> t | None \<Rightarrow> []) in
      if transport = ''sftp'' then ySettings a ''sync_sftp_host'' \<notin> {None, Some []}
      else if transport \<in> {''dropbox'', ''onedrive'', ''gdrive''} then True
      else ySettings a ''sync_webdav_url'' \<notin> {None, Some []}) \<and>
     \<not> yPending a \<and> yUnlocked a"

section \<open>Pushes\<close>

text \<open>
  What the code relies on for a push besides the state: whether \<open>syncClient\<close> gives a transport, how the
  transport's calls end, the JSON form of the commit record, the passphrase and the labels, and the
  content once the upload is over.
\<close>

record pushEnv =
  qClientErr :: "string option"
  qEnv :: syncEnv
  qEnc :: "syncMeta \<Rightarrow> blob"
  qDec :: "blob \<Rightarrow> syncMeta option"
  qPass :: string
  qVersion :: string
  qDevice :: string
  qBodyAfter :: string
  qNowText :: string             \<comment> \<open>\<open>time.Now().Unix()\<close> in decimal\<close>

definition runPush :: "pushEnv \<Rightarrow> bool \<Rightarrow> syncApp \<Rightarrow> (syncError + 64 word \<times> nat) \<times> syncApp" where
  "runPush q force a =
     (case Push (qEnc q) (qDec q) (qEnv q) True (qPass q) (qVersion q) (qDevice q) (syncGeneration a) force (yRemote a) of
        (res, rs) \<Rightarrow> (res, a\<lparr>yRemote := (if rs = [] then yRemote a else last rs), yBody := qBodyAfter q\<rparr>))"

definition SyncPush :: "pushEnv \<Rightarrow> bool \<Rightarrow> syncApp \<Rightarrow> (string + 64 word) \<times> syncApp" where
  "SyncPush q force a = (case qClientErr q of
      Some e \<Rightarrow> (Inl e, a)
    | None \<Rightarrow>
        (let prevGen = syncGeneration a in
         case runPush q force a of
           (Inl e, a1) \<Rightarrow> (Inl ''push failed'', setSyncGeneration prevGen a1)
         | (Inr (gen, n), a1) \<Rightarrow>
             (Inr gen, recordSyncPushedFingerprint (putSetting ''sync_last_at'' (qNowText q) (setSyncGeneration gen a1)))))"

text \<open>The flush on quit pushes on its own, and keeps its generation under the key of the WebDAV transport.\<close>

definition syncFlushOnQuit :: "pushEnv \<Rightarrow> syncApp \<Rightarrow> syncApp" where
  "syncFlushOnQuit q a =
     (if \<not> autoSyncReady a then a
      else if \<not> syncDirty a then a
      else case qClientErr q of
        Some e \<Rightarrow> a
      | None \<Rightarrow>
          (let prevGen = syncGeneration a in
           case runPush q False a of
             (Inl e, a1) \<Rightarrow> putSetting ''sync_generation'' (itoaInt (sint prevGen)) a1
           | (Inr (gen, n), a1) \<Rightarrow>
               recordSyncPushedFingerprint (putSetting ''sync_last_at'' (qNowText q)
                 (putSetting ''sync_generation'' (itoaInt (sint gen)) a1))))"

section \<open>The loop\<close>

definition autoSyncRemoteCheck :: "pushEnv \<Rightarrow> int \<Rightarrow> syncApp \<Rightarrow> syncApp" where
  "autoSyncRemoteCheck q now a0 =
     (if \<not> autoSyncReady a0 then a0
      else let a = a0\<lparr>yLastCheck := now\<rparr> in
        case qClientErr q of Some _ \<Rightarrow> a
        | None \<Rightarrow>
          (case FetchMeta (qDec q) (eGet (qEnv q)) (yRemote a) of
             Inl _ \<Rightarrow> a
           | Inr m \<Rightarrow>
               if sint (smGeneration m) \<le> sint (syncGeneration a) then a
               else if smGeneration m = yNotifiedGen a then a
               else a\<lparr>yNotifiedGen := smGeneration m,
                      yEvents := yEvents a @ [RemoteAhead (smGeneration m) (smDevice m) (smUpdatedAt m)
                        (syncAutoApplyEnabled a \<and> \<not> syncDirty a)]\<rparr>))"

datatype tickPlan = Nothing | PollRemote | PushNow

text \<open>The tick up to the poll or the push it decides on.\<close>

definition tickDecide :: "int \<Rightarrow> syncApp \<Rightarrow> tickPlan \<times> syncApp" where
  "tickDecide now a =
     (if \<not> autoSyncReady a then (Nothing, a)
      else let fp = syncFingerprint a in
        if fp = syncPushedFingerprint a then
          (if now - yLastCheck a \<ge> 60 * syncCheckMinutes a then PollRemote else Nothing, a\<lparr>yDirtyFP := []\<rparr>)
        else if fp \<noteq> yDirtyFP a then (Nothing, a\<lparr>yDirtyFP := fp, yDirtySince := now\<rparr>)
        else if now - yDirtySince a < autoSyncQuiet then (Nothing, a)
        else (PushNow, a))"

definition autoSyncTick :: "pushEnv \<Rightarrow> int \<Rightarrow> int \<Rightarrow> syncApp \<Rightarrow> syncApp" where
  "autoSyncTick q now after a = (case tickDecide now a of
      (Nothing, a1) \<Rightarrow> a1
    | (PollRemote, a1) \<Rightarrow> autoSyncRemoteCheck q now a1
    | (PushNow, a1) \<Rightarrow>
        (let a2 = (case SyncPush q False a1 of
                (Inl _, b) \<Rightarrow> autoSyncRemoteCheck q after b
              | (Inr gen, b) \<Rightarrow> b\<lparr>yEvents := yEvents b @ [AutoPushed gen]\<rparr>)
         in a2\<lparr>yDirtyFP := [], yLastCheck := after\<rparr>))"

section \<open>Runs of the loop\<close>

text \<open>
  The plans of successive ticks: the goroutine of the loop owns the dirty marker, everything else may
  have changed in between and is observed anew, with the time, at each tick. A push ends with the
  marker cleared.
\<close>

fun tickRun :: "string \<Rightarrow> int \<Rightarrow> (int \<times> syncApp) list \<Rightarrow> tickPlan list" where
  "tickRun d s [] = []"
| "tickRun d s ((now, w) # os) =
     (let (plan, a) = tickDecide now (w\<lparr>yDirtyFP := d, yDirtySince := s\<rparr>)
      in plan # tickRun (if plan = PushNow then [] else yDirtyFP a) (yDirtySince a) os)"

lemma syncFingerprint_upd [simp]:
  "syncFingerprint (a\<lparr>yDirtyFP := d\<rparr>) = syncFingerprint a" "syncFingerprint (a\<lparr>yDirtySince := s\<rparr>) = syncFingerprint a"
  "syncPushedFingerprint (a\<lparr>yDirtyFP := d\<rparr>) = syncPushedFingerprint a"
  "syncPushedFingerprint (a\<lparr>yDirtySince := s\<rparr>) = syncPushedFingerprint a"
  "autoSyncReady (a\<lparr>yDirtyFP := d\<rparr>) = autoSyncReady a" "autoSyncReady (a\<lparr>yDirtySince := s\<rparr>) = autoSyncReady a"
  by (simp_all add: syncFingerprint_def syncPushedFingerprint_def autoSyncReady_def syncAutoEnabled_def)

lemma syncFingerprint_not_Nil: "syncFingerprint a \<noteq> []"
  by (simp add: syncFingerprint_def syncFingerprintFormat_def)

text \<open>What a tick leaves in the marker.\<close>

lemma tickDecide_cases:
  assumes "tickDecide now (w\<lparr>yDirtyFP := d, yDirtySince := s\<rparr>) = (plan, a)"
  obtains (off) "\<not> autoSyncReady w" "plan = Nothing" "yDirtyFP a = d" "yDirtySince a = s"
    | (clean) "autoSyncReady w" "plan \<noteq> PushNow" "yDirtyFP a = []"
    | (fresh) "autoSyncReady w" "plan = Nothing" "yDirtyFP a = syncFingerprint w" "yDirtySince a = now"
    | (waiting) "autoSyncReady w" "plan = Nothing" "yDirtyFP a = d" "yDirtySince a = s" "d = syncFingerprint w"
    | (push) "autoSyncReady w" "plan = PushNow" "d = syncFingerprint w" "syncFingerprint w \<noteq> syncPushedFingerprint w"
        "now - s \<ge> autoSyncQuiet"
proof -
  let ?f = "syncFingerprint w" and ?w = "w\<lparr>yDirtyFP := d, yDirtySince := s\<rparr>"
  note t = assms [symmetric, unfolded tickDecide_def Let_def, simplified]
  show thesis
  proof (cases "autoSyncReady w")
    case False
    then show thesis using t by (intro off) simp_all
  next
    case ready: True
    show thesis
    proof (cases "?f = syncPushedFingerprint w")
      case True
      then show thesis using t ready by (intro clean) simp_all
    next
      case dirty: False
      consider "?f \<noteq> d" | "?f = d" "now - s < autoSyncQuiet" | "?f = d" "\<not> now - s < autoSyncQuiet" by blast
      then show thesis
      proof cases
        case 1
        then show thesis using t ready dirty by (intro fresh) simp_all
      next
        case 2
        then show thesis using t ready dirty by (intro waiting) simp_all
      next
        case 3
        then show thesis using t ready dirty by (intro push) simp_all
      qed
    qed
  qed
qed

lemma tickRun_push:
  assumes "n < length os" "tickRun d s os ! n = PushNow"
  shows "(\<exists>i < n. fst (os ! n) - fst (os ! i) \<ge> autoSyncQuiet \<and>
      (\<forall>j. i \<le> j \<and> j \<le> n \<and> autoSyncReady (snd (os ! j)) \<longrightarrow> syncFingerprint (snd (os ! j)) = syncFingerprint (snd (os ! n)))) \<or>
    (d = syncFingerprint (snd (os ! n)) \<and> fst (os ! n) - s \<ge> autoSyncQuiet \<and>
      (\<forall>j \<le> n. autoSyncReady (snd (os ! j)) \<longrightarrow> syncFingerprint (snd (os ! j)) = d))"
  using assms
proof (induction os arbitrary: d s n)
  case (Cons o1 os)
  obtain now w where o1: "o1 = (now, w)" by fastforce
  obtain plan a where t: "tickDecide now (w\<lparr>yDirtyFP := d, yDirtySince := s\<rparr>) = (plan, a)" by fastforce
  show ?case
  proof (cases n)
    case 0
    then have "plan = PushNow" using Cons.prems o1 t by simp
    then show ?thesis using t 0 o1 by (elim tickDecide_cases) auto
  next
    case (Suc m)
    let ?d = "if plan = PushNow then [] else yDirtyFP a"
    have m: "m < length os" "tickRun ?d (yDirtySince a) os ! m = PushNow"
      using Cons.prems o1 t Suc by simp_all
    consider i where "i < m" "fst (os ! m) - fst (os ! i) \<ge> autoSyncQuiet"
        "\<forall>j. i \<le> j \<and> j \<le> m \<and> autoSyncReady (snd (os ! j)) \<longrightarrow> syncFingerprint (snd (os ! j)) = syncFingerprint (snd (os ! m))"
      | "?d = syncFingerprint (snd (os ! m))" "fst (os ! m) - yDirtySince a \<ge> autoSyncQuiet"
        "\<forall>j \<le> m. autoSyncReady (snd (os ! j)) \<longrightarrow> syncFingerprint (snd (os ! j)) = ?d"
      using Cons.IH [OF m] by blast
    then show ?thesis
    proof cases
      case (1 i)
      have "syncFingerprint (snd ((o1 # os) ! j)) = syncFingerprint (snd ((o1 # os) ! n))"
        if "Suc i \<le> j" "j \<le> n" "autoSyncReady (snd ((o1 # os) ! j))" for j
        using that 1(3) Suc by (cases j) auto
      then show ?thesis using 1(1,2) Suc by (intro disjI1 exI [of _ "Suc i"]) auto
    next
      case 2
      have np: "plan \<noteq> PushNow" "yDirtyFP a = syncFingerprint (snd (os ! m))"
        using 2(1) syncFingerprint_not_Nil [of "snd (os ! m)"] by (auto split: if_splits)
      have all: "\<forall>j \<le> m. autoSyncReady (snd (os ! j)) \<longrightarrow> syncFingerprint (snd (os ! j)) = syncFingerprint (snd (os ! m))"
        using 2(3) np by simp
      show ?thesis
        using t
      proof (cases rule: tickDecide_cases)
        case off
        then show ?thesis using 2(2) np all Suc o1 by (intro disjI2) (auto simp: nth_Cons')
      next
        case clean
        then show ?thesis using np syncFingerprint_not_Nil by metis
      next
        case fresh
        then have "syncFingerprint w = syncFingerprint (snd (os ! m))" using np by simp
        then show ?thesis using 2(2) all fresh Suc o1 by (intro disjI1 exI [of _ 0]) (auto simp: nth_Cons')
      next
        case waiting
        then have "syncFingerprint w = syncFingerprint (snd (os ! m))" using np by simp
        then show ?thesis using 2(2) np all waiting Suc o1 by (intro disjI2) (auto simp: nth_Cons')
      next
        case push
        then show ?thesis using np by simp
      qed
    qed
  qed
qed simp

lemma tickRun_push_now:
  "n < length os \<Longrightarrow> tickRun d s os ! n = PushNow \<Longrightarrow>
   autoSyncReady (snd (os ! n)) \<and> syncDirty (snd (os ! n))"
proof (induction os arbitrary: d s n)
  case (Cons o1 os)
  obtain now w where o1: "o1 = (now, w)" by fastforce
  obtain plan a where t: "tickDecide now (w\<lparr>yDirtyFP := d, yDirtySince := s\<rparr>) = (plan, a)" by fastforce
  show ?case
  proof (cases n)
    case 0
    then have "plan = PushNow" using Cons.prems o1 t by simp
    then show ?thesis using t 0 o1 by (elim tickDecide_cases) (auto simp: syncDirty_def)
  next
    case (Suc m)
    then show ?thesis using Cons o1 t by simp
  qed
qed simp

section \<open>Properties\<close>

text \<open>the loop pushes only settled changes: when a tick pushes, auto-sync is on and ready, the content
  differs from the last push, and at least ninety seconds earlier a tick saw the very content the push
  sends, which no tick in between saw changed.\<close>
lemma autosync_pushes_settled:
  assumes "n < length os" "tickRun [] s os ! n = PushNow"
  shows "autoSyncReady (snd (os ! n)) \<and> syncDirty (snd (os ! n)) \<and>
    (\<exists>i < n. fst (os ! n) - fst (os ! i) \<ge> 90 \<and>
      (\<forall>j. i \<le> j \<and> j \<le> n \<and> autoSyncReady (snd (os ! j)) \<longrightarrow> yBody (snd (os ! j)) = yBody (snd (os ! n))))"
proof -
  have fp: "syncFingerprint x = syncFingerprint y \<longleftrightarrow> yBody x = yBody y" for x y by (simp add: syncFingerprint_def)
  show ?thesis
    using tickRun_push [OF assms] tickRun_push_now [OF assms] syncFingerprint_not_Nil [of "snd (os ! n)"]
    by (auto simp: fp autoSyncQuiet_def)
qed

definition sampleSync :: syncApp where
  "sampleSync = \<lparr>yBody = ''connections=2;vault=7'',
     ySettings = [''sync_auto'' \<mapsto> ''1'', ''sync_transport'' \<mapsto> ''sftp'', ''sync_sftp_host'' \<mapsto> ''nas'',
       ''sync_generation:sftp'' \<mapsto> ''4''],
     yStamp = ''fp3|connections=1;vault=7'', yDirtyFP = [], yDirtySince = 0, yLastCheck = 0, yNotifiedGen = 0,
     yUnlocked = True, yPending = False, yRemote = Map.empty, yEvents = []\<rparr>"

lemmas sync_eval = sampleSync_def syncFingerprint_def syncFingerprintFormat_def syncPushedFingerprint_def
  autoSyncReady_def syncAutoEnabled_def syncDirty_def autoSyncQuiet_def

theorem autosync_pushes_settled_witness:
  "tickRun [] 0 [(60, sampleSync), (120, sampleSync), (180, sampleSync)] ! 2 = PushNow \<and>
   (\<exists>i < (2 :: nat). (180 :: int) - fst ([(60, sampleSync), (120, sampleSync), (180, sampleSync)] ! i) \<ge> 90)"
proof -
  let ?os = "[(60 :: int, sampleSync), (120, sampleSync), (180, sampleSync)]"
  have p: "tickRun [] 0 ?os ! 2 = PushNow" by code_simp
  have "\<exists>i < 2. fst (?os ! 2) - fst (?os ! i) \<ge> 90"
    using autosync_pushes_settled [of 2 ?os 0, OF _ p] by auto
  then have "\<exists>i < (2 :: nat). (180 :: int) - fst (?os ! i) \<ge> 90" by simp
  then show ?thesis using p by blast
qed


section \<open>After a push\<close>

lemma TrimSpace_fp: "b \<noteq> [] \<Longrightarrow> visible (last b) \<Longrightarrow> TrimSpace (''fp3|'' @ b) = ''fp3|'' @ b"
  by (rule TrimSpace_visible) (simp add: visible_def byte_def)

lemma syncGeneration_set [simp]: "syncGeneration (setSyncGeneration gen a) = gen"
proof -
  have g: "- (2 ^ 63) \<le> sint gen" "sint gen < 2 ^ 63"
    using sint_greater_eq [of gen] sint_less [of gen] by simp_all
  have key: "syncGenerationKey a (syncTransportName a) \<noteq> ''sync_transport''"
    by (simp add: syncGenerationKey_def Let_def)
  then have "syncTransportName (setSyncGeneration gen a) = syncTransportName a"
    by (simp add: syncTransportName_def setSyncGeneration_def putSetting_def)
  moreover have "syncTransportName a \<noteq> []" by (simp add: syncTransportName_def split: option.split)
  ultimately show ?thesis
    using Atoi_itoa [OF g] by (simp add: syncGeneration_def syncGenerationKey_def setSyncGeneration_def putSetting_def)
qed

lemma syncGeneration_last_at [simp]:
  "syncGeneration (putSetting ''sync_last_at'' t a) = syncGeneration a"
proof -
  have "syncGenerationKey a (syncTransportName a) \<noteq> ''sync_last_at''" by (simp add: syncGenerationKey_def Let_def)
  moreover have "syncTransportName (putSetting ''sync_last_at'' t a) = syncTransportName a"
    by (simp add: syncTransportName_def putSetting_def)
  ultimately show ?thesis by (simp add: syncGeneration_def syncGenerationKey_def putSetting_def)
qed

lemma syncGeneration_stamp [simp]: "syncGeneration (recordSyncPushedFingerprint a) = syncGeneration a"
  by (simp add: recordSyncPushedFingerprint_def syncGeneration_def syncGenerationKey_def syncTransportName_def)

lemma SyncPush_done:
  assumes "SyncPush q force a = (Inr gen, a')"
  obtains n rs where "Push (qEnc q) (qDec q) (qEnv q) True (qPass q) (qVersion q) (qDevice q) (syncGeneration a)
      force (yRemote a) = (Inr (gen, n), rs)" "rs \<noteq> []"
    "a' = recordSyncPushedFingerprint (putSetting ''sync_last_at'' (qNowText q)
       (setSyncGeneration gen (a\<lparr>yRemote := last rs, yBody := qBodyAfter q\<rparr>)))"
proof -
  obtain res rs where p: "Push (qEnc q) (qDec q) (qEnv q) True (qPass q) (qVersion q) (qDevice q) (syncGeneration a)
      force (yRemote a) = (res, rs)" by fastforce
  obtain n where res: "res = Inr (gen, n)" and a': "a' = recordSyncPushedFingerprint (putSetting ''sync_last_at'' (qNowText q)
       (setSyncGeneration gen (a\<lparr>yRemote := (if rs = [] then yRemote a else last rs), yBody := qBodyAfter q\<rparr>)))"
    using assms p by (auto simp: SyncPush_def runPush_def split: option.splits sum.splits)
  have "rs \<noteq> []" using Push_done_uploads p res by blast
  then show ?thesis using that p res a' by simp
qed

text \<open>after a successful push this machine and the remote agree: the content counts as pushed, the
  generation kept here is the one the remote's commit record has, so the next push from here is not
  refused as stale, and the remote holds the snapshot that was sealed. (Given that the generation
  survives the encoding of the commit record and the signature does not end in a blank.)\<close>
lemma syncpush_leaves_in_step:
  assumes "SyncPush q force a = (Inr gen, a')"
    and "\<And>m. map_option smGeneration (qDec q (qEnc q m)) = Some (smGeneration m)"
    and "qBodyAfter q \<noteq> []" "visible (last (qBodyAfter q))"
  shows "\<not> syncDirty a' \<and> syncGeneration a' = gen \<and>
    (\<exists>m blob. FetchMeta (qDec q) None (yRemote a') = Inr m \<and> smGeneration m = syncGeneration a' \<and>
       eSeal (qEnv q) = Inr blob \<and> yRemote a' snapshotName = Some blob)"
proof -
  obtain n rs where p: "Push (qEnc q) (qDec q) (qEnv q) True (qPass q) (qVersion q) (qDevice q) (syncGeneration a)
      force (yRemote a) = (Inr (gen, n), rs)" "rs \<noteq> []"
    and a': "a' = recordSyncPushedFingerprint (putSetting ''sync_last_at'' (qNowText q)
       (setSyncGeneration gen (a\<lparr>yRemote := last rs, yBody := qBodyAfter q\<rparr>)))"
    using SyncPush_done [OF assms(1)] by metis
  obtain blob g where u: "uploads (qEnc q) (qEnv q) blob (commitRecord g (eNow (qEnv q)) (qDevice q) (qVersion q) blob)
      (yRemote a) = (Inr (gen, n), rs)" "eSeal (qEnv q) = Inr blob"
    using Push_uploads [OF p] by metis
  have b: "yBody a' = qBodyAfter q" "yStamp a' = ''fp3|'' @ qBodyAfter q" "yRemote a' = last rs"
    by (simp_all add: a' recordSyncPushedFingerprint_def putSetting_def setSyncGeneration_def syncFingerprint_def
        syncFingerprintFormat_def)
  have "\<not> syncDirty a'"
    using TrimSpace_fp [OF assms(3,4)] b
    by (simp add: syncDirty_def syncPushedFingerprint_def syncFingerprint_def syncFingerprintFormat_def)
  moreover have "syncGeneration a' = gen" by (simp add: a')
  moreover obtain m where "qDec q (qEnc q (commitRecord g (eNow (qEnv q)) (qDevice q) (qVersion q) blob)) = Some m"
    "smGeneration m = g"
    using assms(2) [of "commitRecord g (eNow (qEnv q)) (qDevice q) (qVersion q) blob"] by auto
  ultimately show ?thesis
    using uploads_done [OF u(1)] u(2) b(3) by (simp add: FetchMeta_def getBlob_def)
qed


text \<open>A commit record that is just its generation, for the concrete runs below.\<close>

definition sampleQ :: "string \<Rightarrow> pushEnv" where
  "sampleQ after = \<lparr>qClientErr = None, qEnv = sampleEnv\<lparr>ePutMeta := Done\<rparr>, qEnc = (\<lambda>m. itoaInt (sint (smGeneration m))),
     qDec = (\<lambda>b. map_option (\<lambda>n. commitRecord (word_of_int n) [] [] [] []) (Atoi b)), qPass = ''pw'',
     qVersion = ''1.0'', qDevice = ''laptop'', qBodyAfter = after, qNowText = ''1700000000''\<rparr>"

definition sampleInStep :: syncApp where
  "sampleInStep = sampleSync\<lparr>yRemote := [metaName \<mapsto> ''4'', snapshotName \<mapsto> ''old'']\<rparr>"

lemma sample_values:
  "Atoi ''4'' = Some 4" "itoaInt 4 = ''4''" "itoaInt 5 = ''5''"
  "syncGenerationKey sampleSync (syncTransportName sampleSync) = ''sync_generation:sftp''"
  "autoSyncReady sampleSync" "syncDirty sampleSync" "TrimSpace ''fp3|connections=2;vault=7'' = ''fp3|connections=2;vault=7''"
  "TrimSpace ''fp3|connections=3;vault=7'' = ''fp3|connections=3;vault=7''"
  by code_simp+

lemma sampleInStep_values:
  "syncGeneration sampleInStep = 4" "autoSyncReady sampleInStep" "syncDirty sampleInStep"
  "syncTransportName sampleInStep = ''sftp''" "yRemote sampleInStep = [metaName \<mapsto> ''4'', snapshotName \<mapsto> ''old'']"
proof -
  show "syncTransportName sampleInStep = ''sftp''" by (simp add: sampleInStep_def sampleSync_def syncTransportName_def)
  then show "syncGeneration sampleInStep = 4"
    by (simp add: syncGeneration_def syncGenerationKey_def) (simp add: sampleInStep_def sampleSync_def sample_values)
  show "autoSyncReady sampleInStep"
    by (simp add: sampleInStep_def sampleSync_def autoSyncReady_def syncAutoEnabled_def)
  show "syncDirty sampleInStep"
    using sample_values(6) by (simp add: sampleInStep_def syncDirty_def syncFingerprint_def syncPushedFingerprint_def)
qed (simp add: sampleInStep_def)

lemma samplePush:
  "runPush (sampleQ after) False sampleInStep =
     (Inr (5, 6), sampleInStep\<lparr>yRemote := [metaName \<mapsto> ''5'', snapshotName \<mapsto> ''sealed'', snapshotTmp \<mapsto> ''sealed''],
        yBody := after\<rparr>)"
  by (simp add: runPush_def sampleQ_def sampleInStep_values Push_def FetchMeta_def getBlob_def uploads_def writeBlob_def
      moveBlob_def sampleEnv_def nextGeneration_def sample_values commitRecord_def fun_upd_twist)


lemma SyncPush_sample:
  "SyncPush (sampleQ after) False sampleInStep = (Inr 5, recordSyncPushedFingerprint (putSetting ''sync_last_at'' ''1700000000''
     (setSyncGeneration 5 (sampleInStep\<lparr>yRemote := [metaName \<mapsto> ''5'', snapshotName \<mapsto> ''sealed'', snapshotTmp \<mapsto> ''sealed''],
        yBody := after\<rparr>))))"
  using samplePush [of after] by (simp add: SyncPush_def sampleQ_def Let_def)

theorem syncpush_leaves_in_step_witness:
  "case SyncPush (sampleQ ''connections=2;vault=7'') False sampleInStep of (res, a) \<Rightarrow>
     res = Inr 5 \<and> syncGeneration a = 5 \<and> \<not> syncDirty a"
proof -
  let ?q = "sampleQ ''connections=2;vault=7''"
  have dec: "map_option smGeneration (qDec ?q (qEnc ?q m)) = Some (smGeneration m)" for m
    using Atoi_itoa [of "sint (smGeneration m)"] sint_greater_eq [of "smGeneration m"] sint_less [of "smGeneration m"]
    by (simp add: sampleQ_def)
  have vis: "qBodyAfter ?q \<noteq> []" "visible (last (qBodyAfter ?q))" by (simp_all add: sampleQ_def visible_def byte_def)
  show ?thesis
    using syncpush_leaves_in_step [OF SyncPush_sample dec vis] SyncPush_sample by simp
qed

text \<open>the flush on quit writes the new generation under the WebDAV key whatever the transport is: on
  SFTP the remote has moved on to 5 while this machine still says 4, so its next push is refused as
  stale although nobody else pushed.\<close>
lemma quit_flush_desyncs_generation:
  "let q = sampleQ ''connections=2;vault=7''; a = syncFlushOnQuit q sampleInStep in
     syncGeneration sampleInStep = 4 \<and> yRemote a metaName = Some ''5'' \<and> syncGeneration a = 4 \<and>
     ySettings a ''sync_generation'' = Some ''5'' \<and> fst (runPush q False a) = Inl (PullFirst 5 4)"
proof -
  let ?q = "sampleQ ''connections=2;vault=7''"
  define a where "a = syncFlushOnQuit ?q sampleInStep"
  have a: "a = recordSyncPushedFingerprint (putSetting ''sync_last_at'' ''1700000000'' (putSetting ''sync_generation'' ''5''
      (sampleInStep\<lparr>yRemote := [metaName \<mapsto> ''5'', snapshotName \<mapsto> ''sealed'', snapshotTmp \<mapsto> ''sealed''],
        yBody := ''connections=2;vault=7''\<rparr>)))"
    using samplePush [of "''connections=2;vault=7''"] sampleInStep_values sample_values(3)
    by (simp add: a_def syncFlushOnQuit_def sampleQ_def Let_def)
  have r: "yRemote a metaName = Some ''5''" "ySettings a ''sync_generation'' = Some ''5''"
    by (simp_all add: a recordSyncPushedFingerprint_def putSetting_def)
  have t: "syncTransportName a = ''sftp''"
    by (simp add: a recordSyncPushedFingerprint_def putSetting_def syncTransportName_def sampleInStep_def sampleSync_def)
  then have g: "syncGeneration a = 4"
    by (simp add: syncGeneration_def syncGenerationKey_def)
      (simp add: a recordSyncPushedFingerprint_def putSetting_def sampleInStep_def sampleSync_def sample_values)
  have "fst (runPush ?q False a) = Inl (PullFirst 5 4)"
    using r(1) g Atoi_itoa [of 5]
    by (simp add: runPush_def sampleQ_def Push_def FetchMeta_def getBlob_def sampleEnv_def sample_values(3) Let_def)
  with r g sampleInStep_values(1) show ?thesis by (simp add: a_def [symmetric] Let_def)
qed

text \<open>an edit made while a push uploads is taken for pushed: the stamp is read after the upload, so the
  profile is clean though the snapshot was sealed before the edit, and no later tick pushes it.\<close>
lemma edit_during_push_is_lost:
  "case SyncPush (sampleQ ''connections=3;vault=7'') False sampleInStep of (res, a) \<Rightarrow>
     res = Inr 5 \<and> yBody sampleInStep = ''connections=2;vault=7'' \<and> yBody a = ''connections=3;vault=7'' \<and>
     yRemote a snapshotName = Some ''sealed'' \<and> \<not> syncDirty a \<and>
     fst (tickDecide 1000 a) \<noteq> PushNow"
  unfolding SyncPush_sample
  by (simp add: recordSyncPushedFingerprint_def putSetting_def setSyncGeneration_def syncDirty_def
      syncFingerprint_def syncFingerprintFormat_def syncPushedFingerprint_def tickDecide_def Let_def)
    (simp add: sampleInStep_def sampleSync_def sample_values(8) [simplified])

end
