(* ===== verification/Presence.thy ===== *)
theory Presence
  imports Prelude "HOL-Library.Word"
begin

text \<open>
  Who holds a network tunnel among the machines that share a profile,
  \<open>internal/presence/presence.go\<close>: the presence document with one owner record and one kill request
  per profile, and the operations on it. Times are Unix seconds as Go's \<open>int64\<close>, so a difference
  wraps; \<open>now\<close> is the clock. The JSON form of the document is an argument of \<open>Load\<close> and \<open>Save\<close>.
\<close>

record precord =
  pMachineID :: string
  pMachineName :: string
  pKind :: string
  pSince :: "64 word"
  pHeartbeat :: "64 word"

record pkill =
  kTarget :: string
  kByMachine :: string
  kByName :: string
  kAt :: "64 word"
  kNonce :: string

record presenceFile =
  fFormat :: int
  fPresence :: "string \<rightharpoonup> precord"
  fKills :: "string \<rightharpoonup> pkill"

definition StaleAfter :: int where "StaleAfter = 100"
definition KillTTL :: int where "KillTTL = 600"

definition emptyFile :: presenceFile where
  "emptyFile = \<lparr>fFormat = 1, fPresence = Map.empty, fKills = Map.empty\<rparr>"

definition recordStale :: "64 word \<Rightarrow> precord \<Rightarrow> bool" where
  "recordStale now r \<longleftrightarrow> sint (now - pHeartbeat r) > StaleAfter"

definition killExpired :: "64 word \<Rightarrow> pkill \<Rightarrow> bool" where
  "killExpired now k \<longleftrightarrow> sint (now - kAt k) > KillTTL"

definition gc :: "64 word \<Rightarrow> presenceFile \<Rightarrow> presenceFile" where
  "gc now f = f\<lparr>
     fPresence := (\<lambda>pid. case fPresence f pid of Some r \<Rightarrow> if recordStale now r then None else Some r | None \<Rightarrow> None),
     fKills := (\<lambda>pid. case fKills f pid of Some k \<Rightarrow> if killExpired now k then None else Some k | None \<Rightarrow> None)\<rparr>"

text \<open>
  \<open>Get\<close> either fails, with a not-found error or another one, or returns the raw document; \<open>dec\<close> is
  \<open>json.Unmarshal\<close>, and a nil map of the decoded document is an empty one.
\<close>

datatype loadError = LoadError string

definition Load :: "(string \<Rightarrow> presenceFile option) \<Rightarrow> (string \<times> bool) + string \<Rightarrow> loadError + presenceFile" where
  "Load dec got = (case got of
      Inl (e, notFound) \<Rightarrow> if notFound then Inr emptyFile else Inl (LoadError e)
    | Inr raw \<Rightarrow> (case dec raw of None \<Rightarrow> Inr emptyFile | Some f \<Rightarrow> Inr f))"

definition Save :: "(presenceFile \<Rightarrow> string) \<Rightarrow> 64 word \<Rightarrow> presenceFile \<Rightarrow> presenceFile \<times> string" where
  "Save enc now f = (let f1 = gc now (f\<lparr>fFormat := 1\<rparr>) in (f1, enc f1))"

definition LiveOwner :: "64 word \<Rightarrow> presenceFile \<Rightarrow> string \<Rightarrow> string \<Rightarrow> precord option" where
  "LiveOwner now f profileID selfID = (case fPresence f profileID of
      None \<Rightarrow> None
    | Some r \<Rightarrow> if pMachineID r = selfID then None else if recordStale now r then None else Some r)"

definition PendingKillFor :: "presenceFile \<Rightarrow> string \<Rightarrow> string \<Rightarrow> string set \<Rightarrow> pkill option" where
  "PendingKillFor f profileID selfID handled = (case fKills f profileID of
      None \<Rightarrow> None
    | Some k \<Rightarrow> if kTarget k \<noteq> selfID then None else if kNonce k \<in> handled then None else Some k)"

definition SetOwner :: "string \<Rightarrow> precord \<Rightarrow> presenceFile \<Rightarrow> presenceFile" where
  "SetOwner profileID r f =
     (let r1 = (case fPresence f profileID of
            Some existing \<Rightarrow> if pMachineID existing = pMachineID r then r\<lparr>pSince := pSince existing\<rparr> else r
          | None \<Rightarrow> r)
      in f\<lparr>fPresence := (fPresence f)(profileID \<mapsto> r1)\<rparr>)"

definition ClearOwner :: "string \<Rightarrow> string \<Rightarrow> presenceFile \<Rightarrow> presenceFile" where
  "ClearOwner profileID selfID f = (case fPresence f profileID of
      Some r \<Rightarrow> if pMachineID r = selfID then f\<lparr>fPresence := (fPresence f)(profileID := None)\<rparr> else f
    | None \<Rightarrow> f)"

text \<open>The nonce and \<open>true\<close>, or nothing.\<close>

definition RequestKill :: "64 word \<Rightarrow> string \<Rightarrow> string \<Rightarrow> string \<Rightarrow> string \<Rightarrow> presenceFile \<Rightarrow> string option \<times> presenceFile" where
  "RequestKill now profileID selfID selfName nonce f = (case fPresence f profileID of
      None \<Rightarrow> (None, f)
    | Some r \<Rightarrow>
        if pMachineID r = selfID then (None, f)
        else (Some nonce, f\<lparr>fKills := (fKills f)(profileID \<mapsto> \<lparr>kTarget = pMachineID r, kByMachine = selfID,
               kByName = selfName, kAt = now, kNonce = nonce\<rparr>)\<rparr>))"

definition ClearKill :: "string \<Rightarrow> presenceFile \<Rightarrow> presenceFile" where
  "ClearKill profileID f = f\<lparr>fKills := (fKills f)(profileID := None)\<rparr>"

lemmas presence_defs = gc_def Save_def LiveOwner_def PendingKillFor_def SetOwner_def ClearOwner_def
  RequestKill_def ClearKill_def

section \<open>Properties\<close>

text \<open>the take-over handshake: a request against another machine's live tunnel survives the next
  save, reaches exactly the owner, once per nonce; when the owner stops, clears its claim and the
  request, the profile is free for everyone, and a claim of a third machine is never touched.\<close>
lemma takeover_handshake:
  assumes "LiveOwner now f pid self = Some r"
    and "RequestKill now pid self name nonce f = (res, f1)"
    and "f2 = ClearKill pid (ClearOwner pid (pMachineID r) (gc now f1))"
  shows "res = Some nonce \<and>
    (\<forall>m handled. PendingKillFor (gc now f1) pid m handled \<noteq> None \<longleftrightarrow> m = pMachineID r \<and> nonce \<notin> handled) \<and>
    LiveOwner now (gc now f1) pid self = Some r \<and>
    (\<forall>m handled. LiveOwner now f2 pid m = None \<and> PendingKillFor f2 pid m handled = None) \<and>
    (\<forall>m. m \<noteq> pMachineID r \<longrightarrow> ClearOwner pid m f = f)"
proof -
  have r: "fPresence f pid = Some r" "pMachineID r \<noteq> self" "\<not> recordStale now r"
    using assms(1) by (auto simp: LiveOwner_def split: option.splits if_splits)
  let ?k = "\<lparr>kTarget = pMachineID r, kByMachine = self, kByName = name, kAt = now, kNonce = nonce\<rparr>"
  have f1: "res = Some nonce" "f1 = f\<lparr>fKills := (fKills f)(pid \<mapsto> ?k)\<rparr>"
    using assms(2) r by (simp_all add: RequestKill_def)
  have "\<not> killExpired now ?k" by (simp add: killExpired_def KillTTL_def)
  then have g: "fPresence (gc now f1) pid = Some r" "fKills (gc now f1) pid = Some ?k"
    using r f1 by (simp_all add: gc_def)
  then have f2: "fPresence f2 pid = None" "fKills f2 pid = None"
    by (simp_all add: assms(3) ClearKill_def ClearOwner_def)
  have "ClearOwner pid m f = f" if "m \<noteq> pMachineID r" for m
    using r that by (simp add: ClearOwner_def)
  then show ?thesis
    using f1(1) g f2 r by (simp add: PendingKillFor_def LiveOwner_def)
qed

lemma takeover_handshake_witness:
  "let r = \<lparr>pMachineID = ''A'', pMachineName = ''a'', pKind = ''wireguard'', pSince = 900, pHeartbeat = 990\<rparr>;
       f = emptyFile\<lparr>fPresence := [''wg0'' \<mapsto> r]\<rparr>
   in fst (RequestKill 1000 ''wg0'' ''B'' ''b'' ''n1'' f) = Some ''n1'' \<and> LiveOwner 1000 f ''wg0'' ''B'' = Some r"
proof -
  let ?r = "\<lparr>pMachineID = ''A'', pMachineName = ''a'', pKind = ''wireguard'', pSince = 900, pHeartbeat = 990\<rparr>"
  let ?f = "emptyFile\<lparr>fPresence := [''wg0'' \<mapsto> ?r]\<rparr>"
  have l: "LiveOwner 1000 ?f ''wg0'' ''B'' = Some ?r"
    by (simp add: LiveOwner_def recordStale_def StaleAfter_def)
  from takeover_handshake [OF l surjective_pairing refl, of "''b''" "''n1''"] l show ?thesis by (simp add: Let_def)
qed

text \<open>Ownership: while a machine refreshes its claim within the stale time, every other machine sees
  it as the live owner with the time its tunnel came up, itself it sees no conflict, the claim
  survives every save in that time, and claims on other profiles are not affected.\<close>
lemma heartbeat_keeps_ownership:
  assumes "f1 = SetOwner pid r f" "0 \<le> sint (now - pHeartbeat r)" "sint (now - pHeartbeat r) \<le> StaleAfter"
    and "m \<noteq> pMachineID r"
  shows "LiveOwner now (gc now f1) pid (pMachineID r) = None \<and>
    (\<exists>r'. LiveOwner now (gc now f1) pid m = Some r' \<and> pMachineID r' = pMachineID r \<and> pHeartbeat r' = pHeartbeat r \<and>
       pSince r' = (case fPresence f pid of
           Some old \<Rightarrow> if pMachineID old = pMachineID r then pSince old else pSince r | None \<Rightarrow> pSince r)) \<and>
    (\<forall>q m. q \<noteq> pid \<longrightarrow> LiveOwner now (gc now f1) q m = LiveOwner now f q m)"
  using assms
  by (auto simp: presence_defs recordStale_def Let_def split: option.splits)

lemma heartbeat_keeps_ownership_witness:
  "LiveOwner 1000 (gc 1000 (SetOwner ''wg0'' \<lparr>pMachineID = ''A'', pMachineName = ''a'', pKind = ''wireguard'',
     pSince = 990, pHeartbeat = 990\<rparr> emptyFile)) ''wg0'' ''A'' = None"
  using heartbeat_keeps_ownership [OF refl, of 1000 "\<lparr>pMachineID = ''A'', pMachineName = ''a'',
      pKind = ''wireguard'', pSince = 990, pHeartbeat = 990\<rparr>" "''B''" "''wg0''" emptyFile]
  by (simp add: StaleAfter_def)

text \<open>a record with a heartbeat from the far past is taken for a live owner for ever: the age is a
  wrapping 64-bit difference, so a document with such a number blocks the profile.\<close>
lemma heartbeat_wraps:
  "let r = \<lparr>pMachineID = ''A'', pMachineName = ''a'', pKind = ''wireguard'', pSince = 0, pHeartbeat = - (2 ^ 63)\<rparr>;
       f = emptyFile\<lparr>fPresence := [''wg0'' \<mapsto> r]\<rparr>
   in LiveOwner 1790000000 (gc 1790000000 f) ''wg0'' ''B'' = Some r"
  by (simp add: Let_def LiveOwner_def gc_def recordStale_def StaleAfter_def)

end
