(* ===== verification/Base64.thy ===== *)
theory Base64
  imports GoStrings
begin

text \<open>
  \<open>base64.StdEncoding\<close> of the Go standard library, as the guest's input frames and the tunnel keys
  use it: the decoder skips line breaks, wants the padding, and refuses anything after it.
\<close>

definition b64Val :: "char \<Rightarrow> nat option" where
  "b64Val c =
     (if isUpperA c then Some (byte c - 65)
      else if isLowerA c then Some (byte c - 97 + 26)
      else if isDigitA c then Some (byte c - 48 + 52)
      else if c = CHR ''+'' then Some 62
      else if c = CHR ''/'' then Some 63
      else None)"

definition b64Char :: "nat \<Rightarrow> char" where
  "b64Char n =
     (if n < 26 then chr (65 + n) else if n < 52 then chr (97 + (n - 26))
      else if n < 62 then chr (48 + (n - 52)) else if n = 62 then CHR ''+'' else CHR ''/'')"

fun b64Quads :: "string \<Rightarrow> string option" where
  "b64Quads [] = Some []"
| "b64Quads (a # b # c # d # rest) =
     (case (b64Val a, b64Val b) of
        (Some x, Some y) \<Rightarrow>
          if c = CHR ''='' then
            (if d = CHR ''='' \<and> rest = [] then Some [chr ((x * 4 + y div 16) mod 256)] else None)
          else (case b64Val c of
              None \<Rightarrow> None
            | Some z \<Rightarrow>
                if d = CHR ''='' then
                  (if rest = [] then Some [chr ((x * 4 + y div 16) mod 256), chr ((y * 16 + z div 4) mod 256)] else None)
                else (case b64Val d of
                    None \<Rightarrow> None
                  | Some v \<Rightarrow> map_option (\<lambda>r. chr ((x * 4 + y div 16) mod 256) # chr ((y * 16 + z div 4) mod 256)
                        # chr ((z * 64 + v) mod 256) # r) (b64Quads rest)))
      | _ \<Rightarrow> None)"
| "b64Quads _ = None"

definition b64Decode :: "string \<Rightarrow> string option" where
  "b64Decode s = b64Quads (filter (\<lambda>c. c \<noteq> nl \<and> c \<noteq> cr) s)"

fun b64Encode :: "string \<Rightarrow> string" where
  "b64Encode [] = []"
| "b64Encode [a] = [b64Char (byte a div 4), b64Char (byte a mod 4 * 16), CHR ''='', CHR ''='']"
| "b64Encode [a, b] = [b64Char (byte a div 4), b64Char (byte a mod 4 * 16 + byte b div 16),
     b64Char (byte b mod 16 * 4), CHR ''='']"
| "b64Encode (a # b # c # rest) = b64Char (byte a div 4) # b64Char (byte a mod 4 * 16 + byte b div 16)
     # b64Char (byte b mod 16 * 4 + byte c div 64) # b64Char (byte c mod 64) # b64Encode rest"

lemma b64Val_Char: "n < 64 \<Longrightarrow> b64Val (b64Char n) = Some n \<and> b64Char n \<noteq> CHR ''='' \<and>
    b64Char n \<noteq> nl \<and> b64Char n \<noteq> cr"
proof -
  assume n: "n < 64"
  have up: "byte (chr (65 + n)) = 65 + n" "byte (chr (97 + (n - 26))) = 97 + (n - 26)"
    "byte (chr (48 + (n - 52))) = 48 + (n - 52)"
    using n by (intro byte_chr; simp)+
  have ne: "\<And>k c. chr k = c \<Longrightarrow> byte (chr k) = byte c" by simp
  consider "n < 26" | "26 \<le> n" "n < 52" | "52 \<le> n" "n < 62" | "n = 62" | "n = 63" using n by linarith
  then show ?thesis
  proof cases
    case 1
    then show ?thesis using up by (auto simp: b64Char_def b64Val_def isUpperA_def byte_def dest!: ne)
  next
    case 2
    then show ?thesis using up
      by (auto simp: b64Char_def b64Val_def isUpperA_def isLowerA_def byte_def dest!: ne)
  next
    case 3
    then show ?thesis using up
      by (auto simp: b64Char_def b64Val_def isUpperA_def isLowerA_def isDigitA_def byte_def dest!: ne)
  qed (simp_all add: b64Char_def b64Val_def isUpperA_def isLowerA_def isDigitA_def byte_def)
qed

lemma b64_first: "(byte a div 4 * 4 + (byte a mod 4 * 16 + k) div 16) mod 256 = byte a" if "k < 16"
proof -
  have "(byte a mod 4 * 16 + k) div 16 = byte a mod 4" using that by simp
  then show ?thesis using byte_less [of a] by simp
qed

lemma b64_second: "((x * 16 + byte b div 16) * 16 + (byte b mod 16 * 4 + k) div 4) mod 256 = byte b" if "k < 4"
proof -
  have "(byte b mod 16 * 4 + k) div 4 = byte b mod 16" using that by simp
  then have "(x * 16 + byte b div 16) * 16 + (byte b mod 16 * 4 + k) div 4 = x * 256 + byte b"
    by (simp add: algebra_simps)
  then show ?thesis using byte_less [of b] by simp
qed

lemma b64_third: "((y * 4 + byte c div 64) * 64 + byte c mod 64) mod 256 = byte c"
proof -
  have "(y * 4 + byte c div 64) * 64 + byte c mod 64 = y * 256 + byte c" by (simp add: algebra_simps)
  then show ?thesis using byte_less [of c] by simp
qed

lemma b64_small: "byte a div 4 < 64" "byte a mod 4 * 16 + byte b div 16 < 64"
  "byte b mod 16 * 4 + byte c div 64 < 64" "byte a mod 4 * 16 < 64" "byte b mod 16 * 4 < 64" "byte c mod 64 < 64"
proof -
  show "byte a div 4 < 64" using byte_less [of a] by linarith
  have "byte b div 16 < 16" "byte c div 64 < 4" "byte a mod 4 < 4" "byte b mod 16 < 16"
    using byte_less [of b] byte_less [of c] by (linarith, linarith, simp, simp)
  then show "byte a mod 4 * 16 + byte b div 16 < 64" "byte b mod 16 * 4 + byte c div 64 < 64"
    "byte a mod 4 * 16 < 64" "byte b mod 16 * 4 < 64" by linarith+
qed simp

lemma b64Quads_Encode: "b64Quads (b64Encode s) = Some s"
proof (induction s rule: b64Encode.induct)
  case (2 a)
  show ?case using b64Val_Char [OF b64_small(1), of a] b64Val_Char [OF b64_small(4), of a] b64_first [of 0 a] by simp
next
  case (3 a b)
  have "byte b div 16 < 16" using byte_less [of b] by linarith
  then show ?case
    using b64Val_Char [OF b64_small(1), of a] b64Val_Char [OF b64_small(2), of a b] b64Val_Char [OF b64_small(5), of b]
      b64_first [of "byte b div 16" a] b64_second [of 0 "byte a mod 4" b] by simp
next
  case (4 a b c rest)
  have "byte b div 16 < 16" "byte c div 64 < 4" using byte_less [of b] byte_less [of c] by linarith+
  then show ?case
    using 4 b64Val_Char [OF b64_small(1), of a] b64Val_Char [OF b64_small(2), of a b]
      b64Val_Char [OF b64_small(3), of b c] b64Val_Char [OF b64_small(6), of c]
      b64_first [of "byte b div 16" a] b64_second [of "byte c div 64" "byte a mod 4" b]
      b64_third [of "byte b mod 16" c] by simp
qed simp

lemma b64Encode_plain: "c \<in> set (b64Encode s) \<Longrightarrow> c \<noteq> nl \<and> c \<noteq> cr"
  by (induction s rule: b64Encode.induct) (use b64Val_Char b64_small in auto)

lemma b64_roundtrip: "b64Decode (b64Encode s) = Some s"
proof -
  have "filter (\<lambda>c. c \<noteq> nl \<and> c \<noteq> cr) (b64Encode s) = b64Encode s"
    using b64Encode_plain by (simp add: filter_id_conv)
  then show ?thesis by (simp add: b64Decode_def b64Quads_Encode)
qed

end
