(* ===== verification/GuestShare.thy ===== *)
theory GuestShare
  imports Base64 "HOL-Library.Word"
begin

text \<open>
  Sharing terminal sessions with browser guests, \<open>internal/share\<close>: the binary output frame
  (\<open>protocol.go\<close>), the slot mapping of a share (\<open>session.go\<close>), the fan-out hub (\<open>hub.go\<close>) and the
  guest connection with its input checks (\<open>conn.go\<close>). Shares and connections are Go pointers that
  several maps and goroutines reach, so they live in a store and are named by their address. What is
  written to a session's PTY, and the violations recorded, are logs of the store.
\<close>

section \<open>The output frame\<close>

definition beBytes :: "nat \<Rightarrow> nat \<Rightarrow> string" where
  "beBytes n k = map (\<lambda>i. chr (k div 256 ^ (n - 1 - i) mod 256)) [0..<n]"

definition beVal :: "string \<Rightarrow> nat" where
  "beVal s = foldl (\<lambda>v c. v * 256 + byte c) 0 s"

definition outputFrameKind :: char where
  "outputFrameKind = CHR 0x01"

text \<open>The length of \<open>sid\<close> is converted to 16 bits, \<open>cum\<close> is 64 bits wide.\<close>

definition MarshalOutput :: "string \<Rightarrow> 64 word \<Rightarrow> string \<Rightarrow> string" where
  "MarshalOutput sid cum data =
     [outputFrameKind] @ beBytes 2 (length sid mod 65536) @ sid @ beBytes 8 (unat cum) @ data"

definition ParseOutput :: "string \<Rightarrow> (string \<times> 64 word \<times> string) option" where
  "ParseOutput b =
     (if length b < 1 + 2 + 8 \<or> b ! 0 \<noteq> outputFrameKind then None
      else let sidLen = beVal (take 2 (drop 1 b)) in
        if length b < 3 + sidLen + 8 then None
        else Some (take sidLen (drop 3 b), of_nat (beVal (take 8 (drop (3 + sidLen) b))), drop (3 + sidLen + 8) b))"

definition maxInputFrame :: nat where
  "maxInputFrame = 4 * 1024"

section \<open>A share\<close>

datatype level = LevelRead | LevelControl | OtherLevel string

record sharedSession =
  ssSlot :: string
  ssRealID :: string
  ssName :: string
  ssCols :: "16 word"
  ssRows :: "16 word"
  ssState :: string

record shareSession =
  shId :: string
  shToken :: string
  shLevel :: level
  shScrollback :: bool
  shBind :: string
  shHostName :: string
  shTabsBlob :: string
  shRealBySlot :: "string \<rightharpoonup> string"
  shSlotByReal :: "string \<rightharpoonup> string"
  shMeta :: "string \<rightharpoonup> sharedSession"
  shUsed :: bool
  shActiveTab :: int

text \<open>The three maps, filled by the loops of \<open>newShareSession\<close> and \<open>updateTabs\<close>.\<close>

definition realMap :: "sharedSession list \<Rightarrow> (string \<rightharpoonup> string)" where
  "realMap sessions = foldl (\<lambda>m s. m(ssSlot s \<mapsto> ssRealID s)) Map.empty sessions"

definition slotMap :: "sharedSession list \<Rightarrow> (string \<rightharpoonup> string)" where
  "slotMap sessions = foldl (\<lambda>m s. m(ssRealID s \<mapsto> ssSlot s)) Map.empty sessions"

definition metaMap :: "sharedSession list \<Rightarrow> (string \<rightharpoonup> sharedSession)" where
  "metaMap sessions = foldl (\<lambda>m s. m(ssSlot s \<mapsto> s\<lparr>ssRealID := []\<rparr>)) Map.empty sessions"

definition newShareSession :: "string \<Rightarrow> string \<Rightarrow> string \<Rightarrow> string \<Rightarrow> level \<Rightarrow> bool \<Rightarrow> int \<Rightarrow> string \<Rightarrow>
    sharedSession list \<Rightarrow> shareSession" where
  "newShareSession sid token bind hostName lvl scrollback activeTab tabsBlob sessions =
     \<lparr>shId = sid, shToken = token, shLevel = lvl, shScrollback = scrollback, shBind = bind, shHostName = hostName,
      shTabsBlob = tabsBlob, shRealBySlot = realMap sessions, shSlotByReal = slotMap sessions,
      shMeta = metaMap sessions, shUsed = False, shActiveTab = activeTab\<rparr>"

definition resolveSlot :: "shareSession \<Rightarrow> string \<Rightarrow> string option" where
  "resolveSlot s slot = shRealBySlot s slot"

text \<open>The empty string of the source for a session that is not in the share.\<close>

definition slotFor :: "shareSession \<Rightarrow> string \<Rightarrow> string" where
  "slotFor s realID = (case shSlotByReal s realID of Some slot \<Rightarrow> slot | None \<Rightarrow> [])"

definition updateTabs :: "string \<Rightarrow> sharedSession list \<Rightarrow> int \<Rightarrow> shareSession \<Rightarrow> string list \<times> shareSession" where
  "updateTabs newBlob sessions activeTab s =
     (filter (\<lambda>slot. shRealBySlot s slot = None) (map ssSlot sessions),
      s\<lparr>shRealBySlot := realMap sessions, shSlotByReal := slotMap sessions, shMeta := metaMap sessions,
        shTabsBlob := newBlob, shActiveTab := activeTab\<rparr>)"

definition slotMeta :: "shareSession \<Rightarrow> string \<Rightarrow> sharedSession option" where
  "slotMeta s slot = shMeta s slot"

definition markUsed :: "shareSession \<Rightarrow> shareSession" where
  "markUsed s = s\<lparr>shUsed := True\<rparr>"

definition slotName :: "nat \<Rightarrow> string" where
  "slotName i = ''s'' @ natDigits (i + 1)"

section \<open>Guests\<close>

datatype jsonFrame = FSize string "16 word" "16 word" | FState string string string | FPong

datatype outMsg = Binary string | Json jsonFrame

record guestConn =
  gShare :: nat
  gReady :: "string set"
  gOut :: "outMsg list"
  gSlow :: bool
  gCancelled :: bool
  gKilled :: "string option"      \<comment> \<open>\<open>killOnce\<close> and the reason it ran with\<close>
  gReading :: bool                \<comment> \<open>the read loop has not ended\<close>

definition outBufferFrames :: nat where
  "outBufferFrames = 256"

definition newGuestConn :: "nat \<Rightarrow> guestConn" where
  "newGuestConn share = \<lparr>gShare = share, gReady = {}, gOut = [], gSlow = False, gCancelled = False,
     gKilled = None, gReading = True\<rparr>"

record world =
  wShares :: "nat \<Rightarrow> shareSession"
  wConns :: "nat \<Rightarrow> guestConn"
  wBySession :: "string \<Rightarrow> nat list"     \<comment> \<open>a missing key is the empty list\<close>
  wWrites :: "(string \<times> string) list"
  wViolations :: "(nat \<times> string) list"
  wKillDue :: "(nat \<times> string) list"      \<comment> \<open>\<open>go c.kill(...)\<close> still to run\<close>

definition updConn :: "nat \<Rightarrow> (guestConn \<Rightarrow> guestConn) \<Rightarrow> world \<Rightarrow> world" where
  "updConn c f w = w\<lparr>wConns := (wConns w)(c := f (wConns w c))\<rparr>"

subsection \<open>The hub\<close>

definition attach :: "string \<Rightarrow> nat \<Rightarrow> world \<Rightarrow> world" where
  "attach realID c w = w\<lparr>wBySession := (wBySession w)(realID := wBySession w realID @ [c])\<rparr>"

definition detach :: "string \<Rightarrow> nat \<Rightarrow> world \<Rightarrow> world" where
  "detach realID c w = w\<lparr>wBySession := (wBySession w)(realID := filter (\<lambda>x. x \<noteq> c) (wBySession w realID))\<rparr>"

definition detachAll :: "nat \<Rightarrow> world \<Rightarrow> world" where
  "detachAll c w = w\<lparr>wBySession := (\<lambda>realID. filter (\<lambda>x. x \<noteq> c) (wBySession w realID))\<rparr>"

definition slowKill :: "nat \<Rightarrow> world \<Rightarrow> world" where
  "slowKill c w =
     (if gSlow (wConns w c) then w
      else (updConn c (\<lambda>g. g\<lparr>gSlow := True, gCancelled := True\<rparr>) w)
             \<lparr>wKillDue := wKillDue w @ [(c, ''slow'')]\<rparr>)"

text \<open>\<open>sendBinary\<close> and \<open>sendJSON\<close>: a full buffer drops the guest, never waits.\<close>

definition sendMsg :: "outMsg \<Rightarrow> nat \<Rightarrow> world \<Rightarrow> world" where
  "sendMsg m c w =
     (if length (gOut (wConns w c)) < outBufferFrames
      then updConn c (\<lambda>g. g\<lparr>gOut := gOut g @ [m]\<rparr>) w
      else slowKill c w)"

text \<open>
  The loop of \<open>Publish\<close>, \<open>PublishSize\<close> and \<open>PublishState\<close> over the observers; \<open>mk slot\<close> is the frame. The
  frame cache per slot of \<open>Publish\<close> holds the same bytes \<open>mk\<close> gives.
\<close>

definition publishTo :: "(string \<Rightarrow> outMsg) \<Rightarrow> string \<Rightarrow> nat \<Rightarrow> world \<Rightarrow> world" where
  "publishTo mk realID c w =
     (let slot = slotFor (wShares w (gShare (wConns w c))) realID in
      if slot = [] then w else sendMsg (mk slot) c w)"

definition Publish :: "string \<Rightarrow> string \<Rightarrow> 64 word \<Rightarrow> world \<Rightarrow> world" where
  "Publish realID data cum w =
     foldl (\<lambda>w c. publishTo (\<lambda>slot. Binary (MarshalOutput slot cum data)) realID c w) w (wBySession w realID)"

definition PublishSize :: "string \<Rightarrow> 16 word \<Rightarrow> 16 word \<Rightarrow> world \<Rightarrow> world" where
  "PublishSize realID cols rows w =
     foldl (\<lambda>w c. publishTo (\<lambda>slot. Json (FSize slot cols rows)) realID c w) w (wBySession w realID)"

definition PublishState :: "string \<Rightarrow> string \<Rightarrow> string \<Rightarrow> world \<Rightarrow> world" where
  "PublishState realID state reason w =
     foldl (\<lambda>w c. publishTo (\<lambda>slot. Json (FState slot state reason)) realID c w) w (wBySession w realID)"

subsection \<open>The guest's frames\<close>

definition killConn :: "nat \<Rightarrow> string \<Rightarrow> world \<Rightarrow> world" where
  "killConn c reason w =
     (if gKilled (wConns w c) \<noteq> None then w
      else updConn c (\<lambda>g. g\<lparr>gKilled := Some reason, gCancelled := True\<rparr>) (detachAll c w))"

definition violation :: "nat \<Rightarrow> string \<Rightarrow> world \<Rightarrow> world" where
  "violation c reason w = killConn c ''revoked'' (w\<lparr>wViolations := wViolations w @ [(c, reason)]\<rparr>)"

definition markReady :: "nat \<Rightarrow> string \<Rightarrow> world \<Rightarrow> world" where
  "markReady c slot w = updConn c (\<lambda>g. g\<lparr>gReady := insert slot (gReady g)\<rparr>) w"

datatype handled = Continue | EndLoop

text \<open>
  \<open>alive realID\<close> is whether the pool still has the session, \<open>writeOK\<close> whether its write succeeds: a
  write error ends the loop like a violation does.
\<close>

definition handleInput :: "(string \<Rightarrow> bool) \<Rightarrow> (string \<Rightarrow> bool) \<Rightarrow> nat \<Rightarrow> string \<Rightarrow> string \<Rightarrow> world \<Rightarrow> handled \<times> world" where
  "handleInput alive writeOK c sid b64 w =
     (let sh = wShares w (gShare (wConns w c)) in
      if shLevel sh \<noteq> LevelControl then (EndLoop, violation c ''input on a read-only share'' w)
      else case resolveSlot sh sid of
        None \<Rightarrow> (EndLoop, violation c (''input for unshared session '' @ sid) w)
      | Some realID \<Rightarrow>
          if sid \<notin> gReady (wConns w c) then (Continue, w)
          else case b64Decode b64 of
            None \<Rightarrow> (EndLoop, violation c ''bad or oversized input frame'' w)
          | Some data \<Rightarrow>
              if length data > maxInputFrame then (EndLoop, violation c ''bad or oversized input frame'' w)
              else if \<not> alive realID then (Continue, w)
              else (if writeOK realID then Continue else EndLoop,
                    w\<lparr>wWrites := wWrites w @ [(realID, data)]\<rparr>))"

datatype guestFrame = BinaryFrame | Malformed | InputFrame "(string \<times> string) option" | ReadyFrame "string option"
  | GuestTabFrame | PingFrame | UnknownFrame string

definition dispatch :: "(string \<Rightarrow> bool) \<Rightarrow> (string \<Rightarrow> bool) \<Rightarrow> nat \<Rightarrow> guestFrame \<Rightarrow> world \<Rightarrow> handled \<times> world" where
  "dispatch alive writeOK c f w = (case f of
      BinaryFrame \<Rightarrow> (EndLoop, violation c ''binary frame from guest'' w)
    | Malformed \<Rightarrow> (EndLoop, violation c ''malformed frame'' w)
    | InputFrame None \<Rightarrow> (EndLoop, violation c ''input frame with no body'' w)
    | InputFrame (Some (sid, b64)) \<Rightarrow> handleInput alive writeOK c sid b64 w
    | ReadyFrame None \<Rightarrow> (Continue, w)
    | ReadyFrame (Some sid) \<Rightarrow> (Continue, markReady c sid w)
    | GuestTabFrame \<Rightarrow> (Continue, w)
    | PingFrame \<Rightarrow> (Continue, sendMsg (Json FPong) c w)
    | UnknownFrame t \<Rightarrow> (EndLoop, violation c (''unknown frame type: '' @ t) w))"

text \<open>One turn of \<open>readPump\<close>, and its deferred kill when the loop ends.\<close>

definition readTurn :: "(string \<Rightarrow> bool) \<Rightarrow> (string \<Rightarrow> bool) \<Rightarrow> nat \<Rightarrow> guestFrame \<Rightarrow> world \<Rightarrow> world" where
  "readTurn alive writeOK c f w =
     (if \<not> gReading (wConns w c) then w
      else case dispatch alive writeOK c f w of
        (Continue, w1) \<Rightarrow> w1
      | (EndLoop, w1) \<Rightarrow> killConn c ''revoked'' (updConn c (\<lambda>g. g\<lparr>gReading := False\<rparr>) w1))"

section \<open>The frame codec\<close>

lemma beVal_snoc [simp]: "beVal (xs @ [c]) = beVal xs * 256 + byte c"
  by (simp add: beVal_def)

lemma beBytes_Suc: "beBytes (Suc n) k = beBytes n (k div 256) @ [chr (k mod 256)]"
proof -
  have "k div 256 ^ (n - i) = k div 256 div 256 ^ (n - 1 - i)" if "i < n" for i
  proof -
    have "n - i = Suc (n - 1 - i)" using that by simp
    then show ?thesis by (simp add: div_mult2_eq)
  qed
  then show ?thesis by (simp add: beBytes_def)
qed

lemma beVal_beBytes: "k < 256 ^ n \<Longrightarrow> beVal (beBytes n k) = k"
proof (induction n arbitrary: k)
  case 0
  then show ?case by (simp add: beBytes_def beVal_def)
next
  case (Suc n)
  then have "k div 256 < 256 ^ n" by (simp add: less_mult_imp_div_less mult.commute)
  then show ?case using Suc.IH by (simp add: beBytes_Suc)
qed

lemma length_beBytes [simp]: "length (beBytes n k) = n"
  by (simp add: beBytes_def)

lemma ParseOutput_Marshal:
  assumes "length sid < 65536"
  shows "ParseOutput (MarshalOutput sid cum data) = Some (sid, cum, data)"
proof -
  have l: "beVal (beBytes 2 (length sid)) = length sid" by (rule beVal_beBytes) (use assms in simp)
  have c: "beVal (beBytes 8 (unat cum)) = unat cum"
    using unsigned_less [of cum] by (intro beVal_beBytes) simp
  have a: "drop (3 + length sid) (outputFrameKind # beBytes 2 (length sid) @ sid @ beBytes 8 (unat cum) @ data) =
      beBytes 8 (unat cum) @ data"
    by (simp add: drop_Cons')
  have d: "drop (3 + length sid + 8) (outputFrameKind # beBytes 2 (length sid) @ sid @ beBytes 8 (unat cum) @ data) =
      data"
    by (simp add: drop_Cons')
  show ?thesis
    using assms unfolding ParseOutput_def MarshalOutput_def Let_def
    by (simp add: l c a d [simplified])
qed

section \<open>The slot mapping\<close>

lemma foldl_upd_map_of:
  "foldl (\<lambda>m s. m(k s \<mapsto> v s)) m xs = m ++ map_of (rev (map (\<lambda>s. (k s, v s)) xs))"
  by (induction xs arbitrary: m) simp_all

lemma map_of_distinct_key:
  assumes "distinct (map k xs)" "s \<in> set xs"
  shows "map_of (rev (map (\<lambda>s. (k s, v s)) xs)) (k s) = Some (v s)"
  using assms by (intro map_of_is_SomeI) (auto simp: rev_map [symmetric] comp_def)

lemma map_of_no_key: "q \<notin> k ` set xs \<Longrightarrow> map_of (rev (map (\<lambda>s. (k s, v s)) xs)) q = None"
  by (force simp: map_of_eq_None_iff)

lemma realMap_simps:
  "distinct (map ssSlot ss) \<Longrightarrow> s \<in> set ss \<Longrightarrow> realMap ss (ssSlot s) = Some (ssRealID s)"
  "q \<notin> ssSlot ` set ss \<Longrightarrow> realMap ss q = None"
  by (simp_all add: realMap_def foldl_upd_map_of map_of_distinct_key map_of_no_key)

lemma slotMap_simps:
  "distinct (map ssRealID ss) \<Longrightarrow> s \<in> set ss \<Longrightarrow> slotMap ss (ssRealID s) = Some (ssSlot s)"
  "q \<notin> ssRealID ` set ss \<Longrightarrow> slotMap ss q = None"
  by (simp_all add: slotMap_def foldl_upd_map_of map_of_distinct_key map_of_no_key)

lemma metaMap_blank: "metaMap ss slot = Some m \<Longrightarrow> ssRealID m = []"
  by (auto simp: metaMap_def foldl_upd_map_of dest!: map_of_SomeD)

section \<open>Delivery\<close>

text \<open>What one observer's connection becomes.\<close>

definition deliver :: "(string \<Rightarrow> outMsg) \<Rightarrow> string \<Rightarrow> shareSession \<Rightarrow> guestConn \<Rightarrow> guestConn" where
  "deliver mk realID sh g =
     (if slotFor sh realID = [] then g
      else if length (gOut g) < outBufferFrames then g\<lparr>gOut := gOut g @ [mk (slotFor sh realID)]\<rparr>
      else g\<lparr>gSlow := True, gCancelled := gCancelled g \<or> \<not> gSlow g\<rparr>)"

lemma publishTo_effect:
  "wShares (publishTo mk realID c w) = wShares w \<and> wBySession (publishTo mk realID c w) = wBySession w \<and>
   wWrites (publishTo mk realID c w) = wWrites w \<and>
   wConns (publishTo mk realID c w) = (wConns w)(c := deliver mk realID (wShares w (gShare (wConns w c))) (wConns w c))"
  by (auto simp: publishTo_def sendMsg_def slowKill_def updConn_def deliver_def Let_def fun_eq_iff)

lemma gShare_deliver [simp]: "gShare (deliver mk realID sh g) = gShare g"
  by (simp add: deliver_def)

lemma publish_fold:
  assumes "distinct cs"
  shows "let w' = foldl (\<lambda>w c. publishTo mk realID c w) w cs in
    wShares w' = wShares w \<and> wWrites w' = wWrites w \<and>
    (\<forall>d. wConns w' d = (if d \<in> set cs then deliver mk realID (wShares w (gShare (wConns w d))) (wConns w d)
                        else wConns w d))"
  using assms
proof (induction cs arbitrary: w)
  case (Cons c cs)
  let ?w1 = "publishTo mk realID c w"
  have "let w' = foldl (\<lambda>w c. publishTo mk realID c w) ?w1 cs in
    wShares w' = wShares ?w1 \<and> wWrites w' = wWrites ?w1 \<and>
    (\<forall>d. wConns w' d = (if d \<in> set cs then deliver mk realID (wShares ?w1 (gShare (wConns ?w1 d))) (wConns ?w1 d)
                        else wConns ?w1 d))"
    using Cons by simp
  then show ?case using Cons.prems publishTo_effect [of mk realID c w] by (auto simp: Let_def)
qed simp

lemma killConn_writes [simp]: "wWrites (killConn c r w) = wWrites w"
  by (simp add: killConn_def updConn_def detachAll_def)

lemma killConn_killed: "gKilled (wConns (killConn c r w) c) \<noteq> None"
  by (auto simp: killConn_def updConn_def detachAll_def)

lemma violation_writes [simp]: "wWrites (violation c r w) = wWrites w"
  by (simp add: violation_def)

lemma updConn_writes [simp]: "wWrites (updConn c f w) = wWrites w"
  by (simp add: updConn_def)

lemma sendMsg_writes [simp]: "wWrites (sendMsg m c w) = wWrites w"
  by (simp add: sendMsg_def slowKill_def)

lemma markReady_writes [simp]: "wWrites (markReady c s w) = wWrites w"
  by (simp add: markReady_def)

lemma dispatch_writes:
  assumes "dispatch alive writeOK c f w = (h, w')"
  shows "wWrites w' = wWrites w \<or>
    (\<exists>sid b64 data realID. f = InputFrame (Some (sid, b64)) \<and>
       shLevel (wShares w (gShare (wConns w c))) = LevelControl \<and>
       shRealBySlot (wShares w (gShare (wConns w c))) sid = Some realID \<and>
       sid \<in> gReady (wConns w c) \<and> b64Decode b64 = Some data \<and> length data \<le> maxInputFrame \<and> alive realID \<and>
       wWrites w' = wWrites w @ [(realID, data)])"
  using assms
  by (auto simp: dispatch_def handleInput_def resolveSlot_def Let_def
      split: guestFrame.splits option.splits if_splits)

section \<open>Properties\<close>


text \<open>a guest of a share that is not a control share who sends input is cut off for good: nothing is
  decoded or written, the attempt is recorded, the guest is detached from every session and its read
  loop ends.\<close>
lemma readonly_guest_is_cut:
  assumes "shLevel (wShares w (gShare (wConns w c))) \<noteq> LevelControl" "gReading (wConns w c)"
    and "gKilled (wConns w c) = None"
    and "w' = readTurn alive writeOK c (InputFrame (Some (sid, b64))) w"
  shows "wWrites w' = wWrites w \<and> wViolations w' = wViolations w @ [(c, ''input on a read-only share'')] \<and>
    \<not> gReading (wConns w' c) \<and> gKilled (wConns w' c) = Some ''revoked'' \<and> gCancelled (wConns w' c) \<and>
    (\<forall>realID. c \<notin> set (wBySession w' realID)) \<and>
    (\<forall>f. readTurn alive writeOK c f w' = w')"
  using assms
  by (simp add: readTurn_def dispatch_def handleInput_def violation_def killConn_def updConn_def detachAll_def)

text \<open>output reaches exactly the observers of its session, each under the slot of its own share: an
  observer with room gets one frame more, one whose buffer is full is marked slow and cancelled, and
  every other connection is left alone. No terminal is written to.\<close>
lemma publish_reaches_observers:
  assumes "distinct (wBySession w realID)"
  shows "wConns (Publish realID data cum w) d =
      (if d \<in> set (wBySession w realID)
       then deliver (\<lambda>slot. Binary (MarshalOutput slot cum data)) realID (wShares w (gShare (wConns w d))) (wConns w d)
       else wConns w d) \<and>
    wWrites (Publish realID data cum w) = wWrites w"
  using publish_fold [OF assms, of "\<lambda>slot. Binary (MarshalOutput slot cum data)" realID w]
  by (simp add: Publish_def Let_def)

text \<open>the binary output frame decodes to what it was built from, for every slot name that fits its
  16-bit length.\<close>
lemma output_frame_roundtrip:
  assumes "length sid < 65536"
  shows "ParseOutput (MarshalOutput sid cum data) = Some (sid, cum, data)"
  by (rule ParseOutput_Marshal [OF assms])

lemma output_frame_roundtrip_witness: "ParseOutput (MarshalOutput ''s1'' 258 ''ls'') = Some (''s1'', 258, ''ls'')"
  by (rule output_frame_roundtrip) simp

text \<open>after the host changes the shared tabs, slots and sessions map to each other one to one, a
  session or slot outside the new set resolves to nothing, the guest-facing metadata holds no real
  id, and the slots reported as new are those that had no session before.\<close>
lemma tabs_update_maps_slots:
  assumes "distinct (map ssSlot ss)" "distinct (map ssRealID ss)"
    and "updateTabs blob ss active sh = (fresh, sh')"
  shows "(\<forall>s \<in> set ss. resolveSlot sh' (ssSlot s) = Some (ssRealID s) \<and> slotFor sh' (ssRealID s) = ssSlot s) \<and>
    (\<forall>q. q \<notin> ssSlot ` set ss \<longrightarrow> resolveSlot sh' q = None) \<and>
    (\<forall>q. q \<notin> ssRealID ` set ss \<longrightarrow> slotFor sh' q = []) \<and>
    (\<forall>q m. slotMeta sh' q = Some m \<longrightarrow> ssRealID m = []) \<and>
    set fresh = {q \<in> ssSlot ` set ss. resolveSlot sh q = None} \<and> shLevel sh' = shLevel sh"
  using assms realMap_simps slotMap_simps metaMap_blank
  by (auto simp: updateTabs_def resolveSlot_def slotFor_def slotMeta_def)

definition sampleWorld :: "level \<Rightarrow> world" where
  "sampleWorld lvl = \<lparr>
     wShares = (\<lambda>_. newShareSession ''sh'' ''tok'' '':9000'' ''host'' lvl True 0 []
       [\<lparr>ssSlot = ''s1'', ssRealID = ''real-A'', ssName = ''a'', ssCols = 80, ssRows = 24, ssState = ''connected''\<rparr>]),
     wConns = (\<lambda>_. newGuestConn 0), wBySession = (\<lambda>r. if r = ''real-A'' then [3] else []), wWrites = [],
     wViolations = [], wKillDue = []\<rparr>"

lemma readonly_guest_is_cut_witness:
  "wWrites (readTurn (\<lambda>_. True) (\<lambda>_. True) 3 (InputFrame (Some (''s1'', ''bHM=''))) (sampleWorld LevelRead)) = []"
  using readonly_guest_is_cut [of "sampleWorld LevelRead" 3, OF _ _ _ refl]
  by (simp add: sampleWorld_def newShareSession_def newGuestConn_def)

lemma publish_reaches_observers_witness:
  "gOut (wConns (Publish ''real-A'' ''ls'' 2 (sampleWorld LevelRead)) 3) = [Binary (MarshalOutput ''s1'' 2 ''ls'')] \<and>
   gOut (wConns (Publish ''real-A'' ''ls'' 2 (sampleWorld LevelRead)) 4) = []"
proof -
  have d: "distinct (wBySession (sampleWorld LevelRead) ''real-A'')" by (simp add: sampleWorld_def)
  show ?thesis
    using publish_reaches_observers [OF d, of "''ls''" 2 3] publish_reaches_observers [OF d, of "''ls''" 2 4]
    by (simp add: sampleWorld_def newShareSession_def newGuestConn_def deliver_def slotFor_def slotMap_def
        outBufferFrames_def)
qed

lemma tabs_update_maps_slots_witness:
  "resolveSlot (snd (updateTabs [] [\<lparr>ssSlot = ''s2'', ssRealID = ''real-B'', ssName = ''b'', ssCols = 80, ssRows = 24,
     ssState = []\<rparr>] 0 (wShares (sampleWorld LevelRead) 0))) ''s1'' = None"
  using tabs_update_maps_slots [OF _ _ surjective_pairing, of "[\<lparr>ssSlot = ''s2'', ssRealID = ''real-B'', ssName = ''b'',
      ssCols = 80, ssRows = 24, ssState = []\<rparr>]" "[]" 0 "wShares (sampleWorld LevelRead) 0"]
  by simp

text \<open>the acknowledgement that opens a slot for input is the guest's word, given for any name at any
  time: a guest that claims a slot before it exists can type into the session that gets it later, before
  it has seen that session's snapshot.\<close>
lemma ready_claimed_in_advance:
  "let w1 = readTurn (\<lambda>_. True) (\<lambda>_. True) 3 (ReadyFrame (Some ''s2'')) (sampleWorld LevelControl);
       sh' = snd (updateTabs [] [\<lparr>ssSlot = ''s2'', ssRealID = ''real-B'', ssName = ''b'', ssCols = 80, ssRows = 24,
               ssState = []\<rparr>] 0 (wShares w1 0));
       w2 = readTurn (\<lambda>_. True) (\<lambda>_. True) 3 (InputFrame (Some (''s2'', b64Encode ''ls''))) (w1\<lparr>wShares := \<lambda>_. sh'\<rparr>)
   in resolveSlot (wShares (sampleWorld LevelControl) 0) ''s2'' = None \<and> wWrites w2 = [(''real-B'', ''ls'')]"
  by (simp add: Let_def readTurn_def dispatch_def markReady_def updConn_def sampleWorld_def newGuestConn_def
      newShareSession_def updateTabs_def handleInput_def resolveSlot_def realMap_def b64_roundtrip maxInputFrame_def
      del: b64Encode.simps)

end
