(* ===== verification/GoRegexp.thy ===== *)
theory GoRegexp
  imports GoStrings
begin

text \<open>
  Go's package \<open>regexp\<close> as the source uses it: expressions with groups, matched leftmost and with the
  choice of a backtracking search (the order in which alternatives and repetitions are tried). A state
  of a match is the byte before the position, the rest of the text and the groups captured so far, the
  latest first. A matcher lists every way to match, the preferred first. Matching is on bytes: the
  expressions of the source name ASCII characters and complements of ASCII classes only, so no match
  starts or ends inside a rune.
\<close>

section \<open>Expressions\<close>

datatype rx =
    REmpty
  | RChar "char \<Rightarrow> bool"
  | RSeq rx rx
  | RAlt rx rx
  | RStar bool rx            \<comment> \<open>true: as often as possible, false: as rarely as possible\<close>
  | RGroup nat rx
  | RLineStart               \<comment> \<open>\<open>^\<close> under \<open>(?m)\<close>\<close>
  | RLineEnd                 \<comment> \<open>\<open>$\<close> under \<open>(?m)\<close>\<close>
  | RTextEnd                 \<comment> \<open>\<open>$\<close> otherwise\<close>
  | RWordB                   \<comment> \<open>\<open>\b\<close>\<close>

fun lit :: "string \<Rightarrow> rx" where
  "lit [] = REmpty"
| "lit (c # cs) = RSeq (RChar ((=) c)) (lit cs)"

fun seqs :: "rx list \<Rightarrow> rx" where
  "seqs [] = REmpty"
| "seqs [r] = r"
| "seqs (r # rs) = RSeq r (seqs rs)"

fun alts :: "rx list \<Rightarrow> rx" where
  "alts [] = RChar (\<lambda>_. False)"
| "alts [r] = r"
| "alts (r # rs) = RAlt r (alts rs)"

definition star :: "rx \<Rightarrow> rx" where "star r = RStar True r"
definition plus1 :: "rx \<Rightarrow> rx" where "plus1 r = RSeq r (RStar True r)"
definition plusLazy :: "rx \<Rightarrow> rx" where "plusLazy r = RSeq r (RStar False r)"
definition opt :: "rx \<Rightarrow> rx" where "opt r = RAlt r REmpty"
definition optLazy :: "rx \<Rightarrow> rx" where "optLazy r = RAlt REmpty r"

text \<open>
  A character under \<open>(?i)\<close>: both cases, and for s and k the two runes outside ASCII that fold to them,
  U+017F and U+212A.
\<close>

definition foldChar :: "char \<Rightarrow> rx" where
  "foldChar c =
     (let both = RChar (\<lambda>d. lowerA d = lowerA c) in
      if lowerA c = CHR ''s'' then RAlt both (lit [chr 0xC5, chr 0xBF])
      else if lowerA c = CHR ''k'' then RAlt both (lit [chr 0xE2, chr 0x84, chr 0xAA])
      else both)"

fun litFold :: "string \<Rightarrow> rx" where
  "litFold [] = REmpty"
| "litFold (c # cs) = RSeq (foldChar c) (litFold cs)"

definition hexA :: "char \<Rightarrow> bool" where
  "hexA c \<longleftrightarrow> isDigitA c \<or> 97 \<le> byte c \<and> byte c \<le> 102 \<or> 65 \<le> byte c \<and> byte c \<le> 70"

definition spaceA :: "char \<Rightarrow> bool" where
  "spaceA c \<longleftrightarrow> byte c \<in> {9, 10, 12, 13, 32}"

definition wordA :: "char \<Rightarrow> bool" where
  "wordA c \<longleftrightarrow> isDigitA c \<or> isUpperA c \<or> isLowerA c \<or> c = CHR ''_''"

definition digits1 :: rx where "digits1 = plus1 (RChar isDigitA)"
definition spaces0 :: rx where "spaces0 = star (RChar spaceA)"
definition spaces1 :: rx where "spaces1 = plus1 (RChar spaceA)"
definition nonSpaces1 :: rx where "nonSpaces1 = plus1 (RChar (\<lambda>c. \<not> spaceA c))"

section \<open>Matching\<close>

type_synonym rxState = "char option \<times> string \<times> (nat \<times> string) list"

definition remaining :: "rxState \<Rightarrow> string" where
  "remaining st = fst (snd st)"

definition atWordB :: "char option \<Rightarrow> string \<Rightarrow> bool" where
  "atWordB pv s \<longleftrightarrow>
     (case pv of None \<Rightarrow> False | Some c \<Rightarrow> wordA c) \<noteq> (case s of [] \<Rightarrow> False | c # _ \<Rightarrow> wordA c)"

text \<open>A repetition goes on only when its body moved the position, so the rest of the text bounds it.\<close>

fun iterate :: "(rxState \<Rightarrow> rxState list) \<Rightarrow> bool \<Rightarrow> nat \<Rightarrow> rxState \<Rightarrow> rxState list" where
  "iterate f greedy 0 st = [st]"
| "iterate f greedy (Suc k) st =
     (let more = concat (map (\<lambda>st'. if length (remaining st') < length (remaining st)
                                     then iterate f greedy k st' else []) (f st))
      in if greedy then more @ [st] else st # more)"

primrec ms :: "rx \<Rightarrow> rxState \<Rightarrow> rxState list" where
  "ms REmpty st = [st]"
| "ms (RChar P) st = (case st of (pv, s, cs) \<Rightarrow>
     (case s of [] \<Rightarrow> [] | c # r \<Rightarrow> if P c then [(Some c, r, cs)] else []))"
| "ms (RSeq a b) st = concat (map (ms b) (ms a st))"
| "ms (RAlt a b) st = ms a st @ ms b st"
| "ms (RStar g a) st = iterate (ms a) g (length (remaining st)) st"
| "ms (RGroup n a) st = map (\<lambda>st'. case st' of (pv, r, cs) \<Rightarrow>
     (pv, r, (n, take (length (remaining st) - length r) (remaining st)) # cs)) (ms a st)"
| "ms RLineStart st = (if fst st = None \<or> fst st = Some nl then [st] else [])"
| "ms RLineEnd st = (if remaining st = [] \<or> hd (remaining st) = nl then [st] else [])"
| "ms RTextEnd st = (if remaining st = [] then [st] else [])"
| "ms RWordB st = (if atWordB (fst st) (remaining st) then [st] else [])"

text \<open>The leftmost match: the first position at which there is one, and there the preferred one.\<close>

fun findFrom :: "rx \<Rightarrow> char option \<Rightarrow> string \<Rightarrow> rxState option" where
  "findFrom re pv [] = (case ms re (pv, [], []) of st # _ \<Rightarrow> Some st | [] \<Rightarrow> None)"
| "findFrom re pv (c # r) =
     (case ms re (pv, c # r, []) of st # _ \<Rightarrow> Some st | [] \<Rightarrow> findFrom re (Some c) r)"

text \<open>\<open>m[n]\<close>: the group's last text, empty when the group took no part.\<close>

definition grp :: "rxState \<Rightarrow> nat \<Rightarrow> string" where
  "grp st n = (case map_of (snd (snd st)) n of Some x \<Rightarrow> x | None \<Rightarrow> [])"

definition FindSubmatch :: "rx \<Rightarrow> string \<Rightarrow> (nat \<Rightarrow> string) option" where
  "FindSubmatch re s = map_option grp (findFrom re None s)"

definition MatchString :: "rx \<Rightarrow> string \<Rightarrow> bool" where
  "MatchString re s \<longleftrightarrow> findFrom re None s \<noteq> None"

text \<open>\<open>FindAllStringSubmatch(s, -1)\<close> for expressions that match no empty text: the matches from left to right.\<close>

fun findAllFrom :: "nat \<Rightarrow> rx \<Rightarrow> char option \<Rightarrow> string \<Rightarrow> (nat \<Rightarrow> string) list" where
  "findAllFrom 0 re pv s = []"
| "findAllFrom (Suc k) re pv s =
     (case findFrom re pv s of None \<Rightarrow> []
      | Some st \<Rightarrow> grp st # findAllFrom k re (fst st) (remaining st))"

definition FindAllSubmatch :: "rx \<Rightarrow> string \<Rightarrow> (nat \<Rightarrow> string) list" where
  "FindAllSubmatch re s = findAllFrom (length s) re None s"

section \<open>The language of an expression\<close>

text \<open>The texts an expression can match, an assertion matching the empty one.\<close>

primrec lang :: "rx \<Rightarrow> string set" where
  "lang REmpty = {[]}"
| "lang (RChar P) = {[c] |c. P c}"
| "lang (RSeq a b) = {u @ v |u v. u \<in> lang a \<and> v \<in> lang b}"
| "lang (RAlt a b) = lang a \<union> lang b"
| "lang (RStar g a) = {concat ws |ws. set ws \<subseteq> lang a}"
| "lang (RGroup n a) = lang a"
| "lang RLineStart = {[]}"
| "lang RLineEnd = {[]}"
| "lang RTextEnd = {[]}"
| "lang RWordB = {[]}"

primrec groups :: "rx \<Rightarrow> (nat \<times> rx) set" where
  "groups REmpty = {}"
| "groups (RChar P) = {}"
| "groups (RSeq a b) = groups a \<union> groups b"
| "groups (RAlt a b) = groups a \<union> groups b"
| "groups (RStar g a) = groups a"
| "groups (RGroup n a) = insert (n, a) (groups a)"
| "groups RLineStart = {}"
| "groups RLineEnd = {}"
| "groups RTextEnd = {}"
| "groups RWordB = {}"

primrec plainRx :: "rx \<Rightarrow> bool" where
  "plainRx REmpty = True"
| "plainRx (RChar P) = True"
| "plainRx (RSeq a b) = (plainRx a \<and> plainRx b)"
| "plainRx (RAlt a b) = (plainRx a \<and> plainRx b)"
| "plainRx (RStar g a) = plainRx a"
| "plainRx (RGroup n a) = plainRx a"
| "plainRx RLineStart = False"
| "plainRx RLineEnd = False"
| "plainRx RTextEnd = False"
| "plainRx RWordB = False"

definition capsOK :: "(nat \<times> rx) set \<Rightarrow> string \<Rightarrow> (nat \<times> string) list \<Rightarrow> bool" where
  "capsOK G w new \<longleftrightarrow> (\<forall>(n, x) \<in> set new. sublist x w \<and> (\<exists>q. (n, q) \<in> G \<and> x \<in> lang q))"

definition matchOK :: "string set \<Rightarrow> (nat \<times> rx) set \<Rightarrow> rxState \<Rightarrow> rxState \<Rightarrow> bool" where
  "matchOK L G st st' \<longleftrightarrow> (\<exists>w new. remaining st = w @ remaining st' \<and> w \<in> L \<and>
     snd (snd st') = new @ snd (snd st) \<and> capsOK G w new)"

lemma capsOK_mono: "capsOK G w new \<Longrightarrow> G \<subseteq> G' \<Longrightarrow> sublist w w' \<Longrightarrow> capsOK G' w' new"
  unfolding capsOK_def by (blast intro: sublist_order.order_trans)

lemma capsOK_append: "capsOK G w xs \<Longrightarrow> capsOK G w ys \<Longrightarrow> capsOK G w (xs @ ys)"
  by (auto simp: capsOK_def)

lemma capsOK_Nil [simp]: "capsOK G w []"
  by (simp add: capsOK_def)

lemma matchOK_refl: "[] \<in> L \<Longrightarrow> matchOK L G st st"
  by (auto simp: matchOK_def intro!: exI [of _ "[]"])

lemma matchOK_mono: "matchOK L G st st' \<Longrightarrow> L \<subseteq> L' \<Longrightarrow> G \<subseteq> G' \<Longrightarrow> matchOK L' G' st st'"
  unfolding matchOK_def using capsOK_mono by blast

lemma matchOK_trans:
  assumes "matchOK L1 G1 st st1" "matchOK L2 G2 st1 st2"
    and "\<And>u v. u \<in> L1 \<Longrightarrow> v \<in> L2 \<Longrightarrow> u @ v \<in> L"
  shows "matchOK L (G1 \<union> G2) st st2"
proof -
  obtain u x where 1: "remaining st = u @ remaining st1" "u \<in> L1"
      "snd (snd st1) = x @ snd (snd st)" "capsOK G1 u x"
    using assms(1) by (auto simp: matchOK_def)
  obtain v y where 2: "remaining st1 = v @ remaining st2" "v \<in> L2"
      "snd (snd st2) = y @ snd (snd st1)" "capsOK G2 v y"
    using assms(2) by (auto simp: matchOK_def)
  have "capsOK (G1 \<union> G2) (u @ v) (y @ x)"
    using capsOK_mono [OF 1(4)] capsOK_mono [OF 2(4)] by (intro capsOK_append) auto
  then show ?thesis
    unfolding matchOK_def using 1 2 assms(3) by (intro exI [of _ "u @ v"] exI [of _ "y @ x"]) auto
qed

lemma star_lang_Nil: "[] \<in> {concat ws |ws. set ws \<subseteq> L}"
  by (auto intro: exI [of _ "[]"])

lemma star_lang_Cons: "u \<in> L \<Longrightarrow> v \<in> {concat ws |ws. set ws \<subseteq> L} \<Longrightarrow> u @ v \<in> {concat ws |ws. set ws \<subseteq> L}"
proof -
  assume "u \<in> L" "v \<in> {concat ws |ws. set ws \<subseteq> L}"
  then obtain ws where "v = concat ws" "set ws \<subseteq> L" by auto
  with \<open>u \<in> L\<close> have "u @ v = concat (u # ws)" "set (u # ws) \<subseteq> L" by auto
  then show ?thesis by blast
qed

lemma iterate_sound:
  assumes "\<And>st st'. st' \<in> set (f st) \<Longrightarrow> matchOK L G st st'"
  shows "st' \<in> set (iterate f g k st) \<Longrightarrow> matchOK {concat ws |ws. set ws \<subseteq> L} G st st'"
proof (induction k arbitrary: st)
  case 0
  then have "st' = st" by simp
  then show ?case by (simp only: matchOK_refl star_lang_Nil)
next
  case (Suc k)
  then consider "st' = st"
    | st1 where "st1 \<in> set (f st)" "st' \<in> set (iterate f g k st1)"
    by (auto simp: Let_def split: if_splits)
  then show ?case
  proof cases
    case 1
    then show ?thesis by (simp only: matchOK_refl star_lang_Nil)
  next
    case 2
    have "matchOK {concat ws |ws. set ws \<subseteq> L} (G \<union> G) st st'"
      by (rule matchOK_trans [OF assms [OF 2(1)] Suc.IH [OF 2(2)] star_lang_Cons])
    then show ?thesis by simp
  qed
qed

lemma ms_sound: "st' \<in> set (ms re st) \<Longrightarrow> matchOK (lang re) (groups re) st st'"
proof (induction re arbitrary: st st')
  case (RChar P)
  then show ?case
    by (cases st) (auto simp: matchOK_def remaining_def split: list.splits if_splits)
next
  case (RSeq a b)
  then obtain st1 where st1: "st1 \<in> set (ms a st)" "st' \<in> set (ms b st1)" by auto
  show ?case
    using matchOK_trans [OF RSeq.IH(1) [OF st1(1)] RSeq.IH(2) [OF st1(2)], of "lang (RSeq a b)"] by auto
next
  case (RAlt a b)
  have "st' \<in> set (ms a st) \<or> st' \<in> set (ms b st)" using RAlt.prems by simp
  then have "matchOK (lang a) (groups a) st st' \<or> matchOK (lang b) (groups b) st st'"
    using RAlt.IH by blast
  then show ?case
    using matchOK_mono [of "lang a" "groups a" st st' "lang (RAlt a b)" "groups (RAlt a b)"]
      matchOK_mono [of "lang b" "groups b" st st' "lang (RAlt a b)" "groups (RAlt a b)"]
    by auto
next
  case (RStar g a)
  have "matchOK {concat ws |ws. set ws \<subseteq> lang a} (groups a) st st'"
    using iterate_sound [of "ms a" "lang a" "groups a"] RStar by auto
  then show ?case by simp
next
  case (RGroup n a)
  from RGroup.prems obtain st1 where st1: "st1 \<in> set (ms a st)"
      "st' = (fst st1, remaining st1, (n, take (length (remaining st) - length (remaining st1)) (remaining st)) # snd (snd st1))"
    by (auto simp: remaining_def split: prod.splits)
  obtain w new where w: "remaining st = w @ remaining st1" "w \<in> lang a"
      "snd (snd st1) = new @ snd (snd st)" "capsOK (groups a) w new"
    using RGroup.IH [OF st1(1)] by (auto simp: matchOK_def)
  have "capsOK (insert (n, a) (groups a)) w ((n, w) # new)"
    using w(2,4) unfolding capsOK_def by auto
  then show ?case
    unfolding matchOK_def using w st1(2)
    by (intro exI [of _ w] exI [of _ "(n, w) # new"]) (auto simp: remaining_def)
qed (auto intro: matchOK_refl split: if_splits)

text \<open>And every text of the language is found, when the expression holds no assertion.\<close>

lemma iterate_complete:
  assumes "\<And>w r pv cs. w \<in> L \<Longrightarrow> \<exists>pv' cs'. (pv', r, cs') \<in> set (f (pv, w @ r, cs))"
  shows "set ws \<subseteq> L \<Longrightarrow> [] \<notin> set ws \<Longrightarrow> length (concat ws) \<le> k \<Longrightarrow>
    \<exists>pv' cs'. (pv', r, cs') \<in> set (iterate f g k (pv, concat ws @ r, cs))"
proof (induction ws arbitrary: k pv cs)
  case Nil
  then show ?case by (cases k) (auto simp: Let_def)
next
  case (Cons w ws)
  then obtain k' where k: "k = Suc k'" by (cases k; cases w) auto
  obtain pv1 cs1 where 1: "(pv1, concat ws @ r, cs1) \<in> set (f (pv, w @ concat ws @ r, cs))"
    using assms [of w "concat ws @ r" pv cs] Cons.prems(1) by auto
  have "length (concat ws) \<le> k'" using Cons.prems k by (cases w) auto
  then obtain pv2 cs2 where 2: "(pv2, r, cs2) \<in> set (iterate f g k' (pv1, concat ws @ r, cs1))"
    using Cons.IH Cons.prems by fastforce
  have "0 < length w" using Cons.prems by auto
  then have "(pv2, r, cs2) \<in> set (iterate f g (Suc k') (pv, w @ concat ws @ r, cs))"
    using 1 2 by (force simp: Let_def remaining_def)
  then show ?case using k by auto
qed

lemma concat_nonempty: "concat (filter (\<lambda>w. w \<noteq> []) ws) = concat ws"
  by (induction ws) auto

lemma ms_complete:
  "plainRx re \<Longrightarrow> w \<in> lang re \<Longrightarrow> \<exists>pv' cs'. (pv', r, cs') \<in> set (ms re (pv, w @ r, cs))"
proof (induction re arbitrary: w r pv cs)
  case (RSeq a b)
  then obtain u v where uv: "w = u @ v" "u \<in> lang a" "v \<in> lang b" by auto
  obtain pv1 cs1 where 1: "(pv1, v @ r, cs1) \<in> set (ms a (pv, u @ v @ r, cs))"
    using RSeq uv by fastforce
  obtain pv2 cs2 where "(pv2, r, cs2) \<in> set (ms b (pv1, v @ r, cs1))"
    using RSeq uv by fastforce
  then show ?case using 1 uv by (auto intro!: exI bexI [of _ "(pv1, v @ r, cs1)"])
next
  case (RStar g a)
  then obtain ws where ws: "w = concat ws" "set ws \<subseteq> lang a" by auto
  let ?ws = "filter (\<lambda>w. w \<noteq> []) ws"
  have "\<exists>pv' cs'. (pv', r, cs') \<in> set (iterate (ms a) g (length (w @ r)) (pv, concat ?ws @ r, cs))"
    by (rule iterate_complete [of "lang a"]) (use RStar ws in \<open>auto simp: concat_nonempty\<close>)
  then show ?case using ws by (simp add: concat_nonempty remaining_def)
next
  case (RGroup n a)
  then obtain pv' cs' where "(pv', r, cs') \<in> set (ms a (pv, w @ r, cs))" by fastforce
  then show ?case by (force simp: remaining_def)
next
  case (RAlt a b)
  then have "(\<exists>pv' cs'. (pv', r, cs') \<in> set (ms a (pv, w @ r, cs))) \<or>
      (\<exists>pv' cs'. (pv', r, cs') \<in> set (ms b (pv, w @ r, cs)))" by auto
  then show ?case by auto
qed auto

section \<open>Search\<close>

lemma findFrom_sound:
  "findFrom re pv s = Some st \<Longrightarrow>
     \<exists>u pv'. s = u @ drop (length u) s \<and> st \<in> set (ms re (pv', drop (length u) s, []))"
proof (induction s arbitrary: pv)
  case Nil
  then have "st \<in> set (ms re (pv, [], []))" by (simp split: list.splits)
  then show ?case by auto
next
  case (Cons c s)
  show ?case
  proof (cases "ms re (pv, c # s, [])")
    case Nil
    then obtain u pv' where "s = u @ drop (length u) s" "st \<in> set (ms re (pv', drop (length u) s, []))"
      using Cons by fastforce
    then show ?thesis by (intro exI [of _ "c # u"] exI [of _ pv']) auto
  next
    case (Cons a list)
    then show ?thesis using Cons.prems by (intro exI [of _ "[]"] exI [of _ pv]) auto
  qed
qed

lemma findFrom_None: "findFrom re pv s = None \<Longrightarrow> s = u @ v \<Longrightarrow> \<exists>pv'. ms re (pv', v, []) = []"
proof (induction u arbitrary: pv s)
  case Nil
  then show ?case by (cases s) (auto split: list.splits)
next
  case (Cons c u)
  then show ?case by (auto split: list.splits)
qed

text \<open>What a capture holds: a piece of the text, in the language of its group.\<close>

lemma grp_sound:
  assumes "findFrom re pv s = Some st"
  shows "grp st n = [] \<or> sublist (grp st n) s \<and> (\<exists>q. (n, q) \<in> groups re \<and> grp st n \<in> lang q)"
proof (cases "map_of (snd (snd st)) n")
  case (Some x)
  obtain u pv' where u: "s = u @ drop (length u) s" "st \<in> set (ms re (pv', drop (length u) s, []))"
    using findFrom_sound [OF assms] by blast
  then obtain w new where w: "drop (length u) s = w @ remaining st" "snd (snd st) = new" "capsOK (groups re) w new"
    using ms_sound [OF u(2)] by (auto simp: matchOK_def remaining_def)
  have "(n, x) \<in> set new" using Some w(2) by (simp add: map_of_SomeD)
  then have x: "sublist x w" "\<exists>q. (n, q) \<in> groups re \<and> x \<in> lang q"
    using w(3) by (auto simp: capsOK_def)
  have "sublist w s" using u(1) w(1) by (metis sublist_appendI)
  then show ?thesis using x Some sublist_order.order_trans by (auto simp: grp_def)
qed (simp add: grp_def)

lemma FindSubmatch_sound:
  "FindSubmatch re s = Some m \<Longrightarrow>
     m n = [] \<or> sublist (m n) s \<and> (\<exists>q. (n, q) \<in> groups re \<and> m n \<in> lang q)"
  by (auto simp: FindSubmatch_def simp del: split_paired_Ex dest!: grp_sound [where n = n])

text \<open>The matcher against the language: a match exists exactly when some piece of the text is in it.\<close>

lemma MatchString_iff:
  assumes "plainRx re"
  shows "MatchString re s \<longleftrightarrow> (\<exists>w \<in> lang re. sublist w s)"
proof
  assume "MatchString re s"
  then obtain st where st: "findFrom re None s = Some st" by (auto simp: MatchString_def)
  obtain u pv' where u: "s = u @ drop (length u) s" "st \<in> set (ms re (pv', drop (length u) s, []))"
    using findFrom_sound [OF st] by blast
  then obtain w where "drop (length u) s = w @ remaining st" "w \<in> lang re"
    using ms_sound [OF u(2)] by (auto simp: matchOK_def remaining_def)
  then show "\<exists>w \<in> lang re. sublist w s" using u(1) by (metis sublist_appendI)
next
  assume "\<exists>w \<in> lang re. sublist w s"
  then obtain w u v where w: "w \<in> lang re" "s = u @ w @ v" by (auto simp: sublist_def)
  show "MatchString re s"
  proof (rule ccontr)
    assume "\<not> MatchString re s"
    then have "findFrom re None s = None" by (simp only: MatchString_def not_not)
    then obtain pv' where "ms re (pv', w @ v, []) = []"
      using findFrom_None [OF _ w(2)] by blast
    then show False using ms_complete [OF assms w(1), of v pv' "[]"] by auto
  qed
qed

section \<open>The preferred match\<close>

definition best :: "rxState list \<Rightarrow> rxState option" where
  "best xs = (case xs of [] \<Rightarrow> None | x # _ \<Rightarrow> Some x)"

definition after :: "char option \<Rightarrow> string \<Rightarrow> char option" where
  "after pv w = (if w = [] then pv else Some (last w))"

lemma after_simps [simp]: "after pv [] = pv" "after pv (w @ [c]) = Some c" "after (after pv u) v = after pv (u @ v)"
  by (auto simp: after_def)

lemma after_Cons: "after (Some c) w = after pv (c # w)"
  by (simp add: after_def)

lemma best_concat: "best xs = Some a \<Longrightarrow> best (f a) = Some b \<Longrightarrow> best (concat (map f xs)) = Some b"
  by (cases xs; cases "f a") (auto simp: best_def)

lemma best_seq: "best (ms a st) = Some st1 \<Longrightarrow> best (ms b st1) = Some st2 \<Longrightarrow> best (ms (RSeq a b) st) = Some st2"
  by (simp add: best_concat)

lemma best_char: "P c \<Longrightarrow> best (ms (RChar P) (pv, c # r, cs)) = Some (Some c, r, cs)"
  by (simp add: best_def)

lemma ms_char_fail: "r = [] \<or> \<not> P (hd r) \<Longrightarrow> ms (RChar P) (pv, r, cs) = []"
  by (cases r) simp_all

lemma best_lit: "best (ms (lit w) (pv, w @ r, cs)) = Some (after pv w, r, cs)"
proof (induction w arbitrary: pv)
  case (Cons c w)
  have "best (ms (RSeq (RChar ((=) c)) (lit w)) (pv, c # w @ r, cs)) = Some (after (Some c) w, r, cs)"
    by (rule best_seq [OF best_char Cons.IH]) simp
  then show ?case by (simp add: after_def)
qed (simp add: best_def)

lemma best_opt: "best (ms a st) = Some st1 \<Longrightarrow> best (ms (opt a) st) = Some st1"
  by (cases "ms a st") (simp_all add: opt_def best_def)

lemma best_opt_skip: "ms a st = [] \<Longrightarrow> best (ms (opt a) st) = Some st"
  by (simp add: opt_def best_def)

lemma best_alt: "best (ms a st) = Some st1 \<Longrightarrow> best (ms (RAlt a b) st) = Some st1"
  by (cases "ms a st") (simp_all add: best_def)

lemma best_group:
  "best (ms a (pv, w @ r, cs)) = Some (pv', r, cs') \<Longrightarrow>
     best (ms (RGroup n a) (pv, w @ r, cs)) = Some (pv', r, (n, w) # cs')"
  by (cases "ms a (pv, w @ r, cs)") (simp_all add: best_def remaining_def)

lemma best_iterate:
  assumes "best (f st) = Some st1" "length (remaining st1) < length (remaining st)"
    "best (iterate f True k st1) = Some st2"
  shows "best (iterate f True (Suc k) st) = Some st2"
proof -
  let ?g = "\<lambda>st'. if length (remaining st') < length (remaining st) then iterate f True k st' else []"
  have "best (concat (map ?g (f st))) = Some st2"
    by (rule best_concat [OF assms(1)]) (simp add: assms)
  then show ?thesis by (cases "concat (map ?g (f st))") (simp_all add: best_def Let_def)
qed

lemma iterate_stop: "f st = [] \<Longrightarrow> best (iterate f True k st) = Some st"
  by (cases k) (simp_all add: best_def Let_def)

lemma best_star_chars:
  assumes "list_all P u" "r = [] \<or> \<not> P (hd r)"
  shows "length u \<le> k \<Longrightarrow> best (iterate (ms (RChar P)) True k (pv, u @ r, cs)) = Some (after pv u, r, cs)"
  using assms(1)
proof (induction u arbitrary: k pv)
  case Nil
  then show ?case using ms_char_fail [where r = r and P = P] assms(2) by (simp add: iterate_stop)
next
  case (Cons c u)
  then obtain k' where k: "k = Suc k'" "length u \<le> k'" by (cases k) auto
  have "best (iterate (ms (RChar P)) True k' (Some c, u @ r, cs)) = Some (after (Some c) u, r, cs)"
    using Cons.prems by (intro Cons.IH k(2)) simp
  then have "best (iterate (ms (RChar P)) True (Suc k') (pv, c # u @ r, cs)) = Some (after (Some c) u, r, cs)"
    by (rule best_iterate [where st = "(pv, c # u @ r, cs)", rotated 2])
      (use Cons.prems in \<open>simp_all add: best_def remaining_def\<close>)
  then show ?case unfolding k(1) after_Cons [of c u pv] by (simp only: append_Cons)
qed

lemma best_plus_chars:
  assumes "u \<noteq> []" "list_all P u" "r = [] \<or> \<not> P (hd r)"
  shows "best (ms (plus1 (RChar P)) (pv, u @ r, cs)) = Some (after pv u, r, cs)"
proof -
  obtain c v where u: "u = c # v" using assms(1) by (cases u) auto
  have "best (ms (RStar True (RChar P)) (Some c, v @ r, cs)) = Some (after (Some c) v, r, cs)"
    using best_star_chars [where r = r and P = P and u = v] assms(2,3) u by (simp add: remaining_def)
  then have "best (ms (plus1 (RChar P)) (pv, c # v @ r, cs)) = Some (after (Some c) v, r, cs)"
    unfolding plus1_def by (intro best_seq [OF best_char]) (use assms(2) u in simp)
  then show ?thesis using u by (simp add: after_def)
qed

lemma ms_fail: "\<forall>w v. remaining st = w @ v \<longrightarrow> w \<notin> lang re \<Longrightarrow> ms re st = []"
proof (rule ccontr)
  assume no: "\<forall>w v. remaining st = w @ v \<longrightarrow> w \<notin> lang re" and "ms re st \<noteq> []"
  then obtain st' where "st' \<in> set (ms re st)" by (cases "ms re st") auto
  then show False using ms_sound no unfolding matchOK_def by blast
qed

lemma findFrom_here: "best (ms re (pv, s, [])) = Some st \<Longrightarrow> findFrom re pv s = Some st"
  by (cases s; cases "ms re (pv, s, [])") (simp_all add: best_def)

lemma findFrom_next: "ms re (pv, c # s, []) = [] \<Longrightarrow> findFrom re pv (c # s) = findFrom re (Some c) s"
  by simp

text \<open>The rest of the text is fuel enough: more of it changes nothing.\<close>

lemma iterate_fuel: "length (remaining st) \<le> k \<Longrightarrow> iterate f g k st = iterate f g (length (remaining st)) st"
proof (induction k arbitrary: st rule: less_induct)
  case (less k)
  let ?n = "length (remaining st)"
  show ?case
  proof (cases "k = ?n")
    case False
    then obtain j where j: "k = Suc j" "?n \<le> j" using less.prems by (cases k) auto
    have step: "iterate f g (Suc j) st = (let more = concat (map (\<lambda>st'. if length (remaining st') < ?n
        then iterate f g j st' else []) (f st)) in if g then more @ [st] else st # more)" by simp
    show ?thesis
    proof (cases ?n)
      case 0
      then show ?thesis using j step by (cases g) (simp_all add: concat_eq_Nil_conv Let_def)
    next
      case (Suc m)
      have "(if length (remaining st') < ?n then iterate f g j st' else []) =
          (if length (remaining st') < ?n then iterate f g m st' else [])" for st'
        using less.IH [of j st'] less.IH [of m st'] j Suc by (cases "length (remaining st') < ?n") auto
      then show ?thesis using j step Suc by (simp add: Let_def)
    qed
  qed simp
qed

lemma iterate_first:
  assumes "best (iterate f True (Suc k) st) = Some st2" "st2 \<noteq> st"
    and short: "\<And>st'. st' \<in> set (f st) \<Longrightarrow> length (remaining st') < length (remaining st)"
  shows "\<exists>st1. best (f st) = Some st1 \<and> best (iterate f True k st1) = Some st2"
proof (cases "f st")
  case Nil
  then show ?thesis using assms(1,2) by (simp add: best_def)
next
  case (Cons st1 rest)
  have "iterate f True k st1 \<noteq> []" by (cases k) (simp_all add: Let_def)
  then show ?thesis
    using assms(1) Cons short [of st1] by (cases "iterate f True k st1") (auto simp: best_def Let_def)
qed

lemma best_plus1:
  assumes "best (ms (RStar True a) st) = Some st2" "st2 \<noteq> st" "[] \<notin> lang a"
  shows "best (ms (plus1 a) st) = Some st2"
proof -
  have short: "length (remaining st') < length (remaining st)" if "st' \<in> set (ms a st)" for st'
    using ms_sound [OF that] assms(3) by (metis append_Nil matchOK_def length_append length_greater_0_conv less_add_same_cancel2)
  have "best (iterate (ms a) True (Suc (length (remaining st))) st) = Some st2"
    using assms(1) iterate_fuel [of st "Suc (length (remaining st))" "ms a" True] by simp
  then obtain st1 where 1: "best (ms a st) = Some st1" "best (iterate (ms a) True (length (remaining st)) st1) = Some st2"
    using iterate_first [OF _ assms(2) short] by blast
  have "st1 \<in> set (ms a st)" using 1(1) by (cases "ms a st") (auto simp: best_def)
  then have "length (remaining st1) \<le> length (remaining st)" using short by fastforce
  then have "best (ms (RStar True a) st1) = Some st2"
    using 1(2) iterate_fuel [of st1 "length (remaining st)" "ms a" True] by simp
  then show ?thesis unfolding plus1_def by (rule best_seq [OF 1(1)])
qed

end
