(* ===== verification/PacketBytes.thy ===== *)
theory PacketBytes
  imports GoRegexp "HOL-Library.Monad_Syntax" "HOL-Library.Word" "HOL-Library.Code_Target_Nat"
begin

unbundle bit_operations_syntax

text \<open>
  The bytes of a captured packet, \<open>internal/ssh/tcpdump_tls.go\<close> and the binary decoders of
  \<open>internal/ssh/tcpdump_decode.go\<close>: the hex dump read back, the place of the transport payload, and the
  NTP, SNMP, LDAP, SMB, MQTT and TLS decoders. Every index and slice expression of the source is one of
  the checked accesses below, so a run-time panic is the value \<open>None\<close>; the -1 of an offset and the nil of
  a decoder are \<open>Some None\<close>.
\<close>

section \<open>Checked access\<close>

definition at :: "string \<Rightarrow> nat \<Rightarrow> nat option" where
  "at b i = (if i < length b then Some (byte (b ! i)) else None)"

definition sliceFrom :: "string \<Rightarrow> nat \<Rightarrow> string option" where
  "sliceFrom b i = (if i \<le> length b then Some (drop i b) else None)"

definition slice :: "string \<Rightarrow> nat \<Rightarrow> nat \<Rightarrow> string option" where
  "slice b i j = (if i \<le> j \<and> j \<le> length b then Some (take (j - i) (drop i b)) else None)"

text \<open>Two bytes as a 16-bit number, the high one first.\<close>

definition u16at :: "string \<Rightarrow> nat \<Rightarrow> nat option" where
  "u16at b i = do { h \<leftarrow> at b i; l \<leftarrow> at b (i + 1); Some (push_bit 8 h OR l) }"

section \<open>The hex dump\<close>

definition reHexLine :: rx where
  "reHexLine = seqs [lit ''0x'', plus1 (RChar hexA), lit '':'', spaces1,
     RGroup 1 (plus1 (seqs [RChar hexA, RChar hexA, opt (RSeq (RChar hexA) (opt (RChar hexA))), spaces1]))]"

definition nibble :: "char \<Rightarrow> nat" where
  "nibble c = (if isDigitA c then byte c - 48 else if 97 \<le> byte c then byte c - 87 else byte c - 55)"

text \<open>\<open>hex.DecodeString\<close>; \<open>None\<close> is its error.\<close>

fun unhex :: "string \<Rightarrow> string option" where
  "unhex [] = Some []"
| "unhex [a] = None"
| "unhex (a # b # r) =
     (if hexA a \<and> hexA b then map_option (\<lambda>bs. chr (16 * nibble a + nibble b) # bs) (unhex r) else None)"

definition hexRegion :: "string \<Rightarrow> string" where
  "hexRegion l = (case FindSubmatch reHexLine l of
      None \<Rightarrow> [] | Some m \<Rightarrow> filter (\<lambda>c. c \<noteq> CHR '' '') (m 1))"

definition ExtractHexPayload :: "string list \<Rightarrow> string" where
  "ExtractHexPayload lines = (case unhex (concat (map hexRegion lines)) of None \<Rightarrow> [] | Some b \<Rightarrow> b)"

section \<open>Where the payload starts\<close>

definition findIPStart :: "string \<Rightarrow> nat option option" where
  "findIPStart b =
     (if length b < 20 then Some None
      else do {
        b0 \<leftarrow> at b 0;
        if b0 AND 0xf0 = 0x40 \<or> b0 AND 0xf0 = 0x60 then Some (Some 0)
        else if 14 \<le> length b then do {
          etherType \<leftarrow> u16at b 12;
          Some (if etherType = 0x0800 \<or> etherType = 0x86dd then Some 14 else None) }
        else Some None })"

definition findUDPPayloadOffset :: "string \<Rightarrow> nat option option" where
  "findUDPPayloadOffset b = do {
     start \<leftarrow> findIPStart b;
     case start of None \<Rightarrow> Some None
     | Some ipStart \<Rightarrow>
         if length b < ipStart + 20 then Some None
         else do {
           v \<leftarrow> at b ipStart;
           if v AND 0xf0 = 0x40 then
             (let ihl = (v AND 0x0f) * 4; off = ipStart + ihl + 8
              in Some (if ihl < 20 then None else if length b < off then None else Some off))
           else if v AND 0xf0 = 0x60 then
             (let off = ipStart + 40 + 8 in Some (if length b < off then None else Some off))
           else Some None } }"

definition findTCPPayloadOffset :: "string \<Rightarrow> nat option option" where
  "findTCPPayloadOffset b = do {
     start \<leftarrow> findIPStart b;
     case start of None \<Rightarrow> Some None
     | Some ipStart \<Rightarrow>
         if length b < ipStart + 20 then Some None
         else do {
           v \<leftarrow> at b ipStart;
           let ihl = (v AND 0x0f) * 4;
           let transport = (if v AND 0xf0 = 0x40 then (if ihl < 20 then None else Some (ipStart + ihl))
                            else if v AND 0xf0 = 0x60 then Some (ipStart + 40) else None);
           case transport of None \<Rightarrow> Some None
           | Some t \<Rightarrow>
               if length b < t + 13 then Some None
               else do {
                 d \<leftarrow> at b (t + 12);
                 let dataOff = drop_bit 4 d * 4;
                 Some (if dataOff < 20 then None else if length b < t + dataOff then None
                       else Some (t + dataOff)) } } }"

section \<open>Text payloads\<close>

definition printableASCII :: "string \<Rightarrow> string" where
  "printableASCII b = map (\<lambda>c. if c = cr \<or> c = nl \<or> 0x20 \<le> byte c \<and> byte c < 0x7f then c else CHR ''.'') b"

definition extractASCIIPayload :: "string list \<Rightarrow> string option" where
  "extractASCIIPayload lines =
     (let bytes = ExtractHexPayload lines in
      if bytes = [] then Some []
      else do {
        tcp \<leftarrow> findTCPPayloadOffset bytes;
        off \<leftarrow> (if tcp = None then findUDPPayloadOffset bytes else Some tcp);
        case off of None \<Rightarrow> Some (printableASCII bytes)
        | Some k \<Rightarrow> if length bytes \<le> k then Some (printableASCII bytes)
            else map_option printableASCII (sliceFrom bytes k) })"

section \<open>A dissection\<close>

record packetDecode =
  dType :: string
  dSummary :: string
  dFields :: "string \<Rightarrow> string option"

text \<open>\<open>d.Fields[k]\<close>, empty when the key is missing.\<close>

definition fld :: "(string \<Rightarrow> string option) \<Rightarrow> string \<Rightarrow> string" where
  "fld f k = (case f k of None \<Rightarrow> [] | Some v \<Rightarrow> v)"

section \<open>NTP\<close>

definition ntpModeName :: "nat \<Rightarrow> string" where
  "ntpModeName m =
     (if m = 0 then ''reserved'' else if m = 1 then ''symmetric_active''
      else if m = 2 then ''symmetric_passive'' else if m = 3 then ''client''
      else if m = 4 then ''server'' else if m = 5 then ''broadcast''
      else if m = 6 then ''control'' else if m = 7 then ''private'' else ''?'')"

definition decodeNTP :: "string list \<Rightarrow> packetDecode option option" where
  "decodeNTP payload =
     (let bytes = ExtractHexPayload payload in do {
        start \<leftarrow> findUDPPayloadOffset bytes;
        case start of None \<Rightarrow> Some None
        | Some udpStart \<Rightarrow>
            if length bytes - udpStart < 2 then Some None
            else do {
              body \<leftarrow> sliceFrom bytes udpStart;
              b0 \<leftarrow> at body 0;
              stratum \<leftarrow> at body 1;
              let mode = b0 AND 0x07;
              let version = natDigits (drop_bit 3 b0 AND 0x07);
              let summary =
                    (if mode = 3 then ''NTP client query (v'' @ version @ '')''
                     else if mode = 4 then ''NTP server reply (stratum '' @ natDigits stratum @ '')''
                     else if mode = 5 then ''NTP broadcast''
                     else if mode = 6 then ''NTP control message''
                     else if mode = 7 then ''NTP private (mode 7)''
                     else ''NTP '' @ ntpModeName mode);
              Some (Some \<lparr>dType = ''ntp'', dSummary = summary,
                dFields = [''mode'' \<mapsto> ntpModeName mode, ''version'' \<mapsto> version,
                           ''stratum'' \<mapsto> natDigits stratum]\<rparr>) } })"

section \<open>BER and SNMP\<close>

definition skipBERHeader :: "string \<Rightarrow> nat option option" where
  "skipBERHeader b =
     (if length b < 2 then Some None
      else do {
        lenByte \<leftarrow> at b 1;
        if lenByte AND 0x80 = 0 then Some (Some 2)
        else (let n = lenByte AND 0x7f in
              Some (if n = 0 \<or> length b < 2 + n then None else Some (2 + n))) })"

definition snmpVersionName :: "nat \<Rightarrow> string" where
  "snmpVersionName v = (if v = 0 then ''v1'' else if v = 1 then ''v2c'' else if v = 3 then ''v3'' else ''v?'')"

definition snmpPdu :: "nat \<Rightarrow> string option" where
  "snmpPdu tag = map_of
     [(0xa0, ''GetRequest''), (0xa1, ''GetNextRequest''), (0xa2, ''GetResponse''), (0xa3, ''SetRequest''),
      (0xa4, ''Trap''), (0xa5, ''GetBulkRequest''), (0xa6, ''InformRequest''), (0xa7, ''TrapV2'')] tag"

definition snmpCommunity :: "string \<Rightarrow> nat \<Rightarrow> nat \<Rightarrow> string option option" where
  "snmpCommunity body cur version =
     (if cur < length body \<and> at body cur = Some 0x04 \<and> version \<le> 1 then do {
        cLen \<leftarrow> at body (cur + 1);
        if cur + 2 + cLen \<le> length body then map_option Some (slice body (cur + 2) (cur + 2 + cLen))
        else Some None }
      else Some None)"

definition snmpResult :: "nat \<Rightarrow> string option \<Rightarrow> string option \<Rightarrow> packetDecode" where
  "snmpResult version community pdu =
     (let f1 = [''version'' \<mapsto> snmpVersionName version];
          f2 = (case community of None \<Rightarrow> f1 | Some c \<Rightarrow> f1(''community'' \<mapsto> c));
          f3 = (case pdu of None \<Rightarrow> f2 | Some u \<Rightarrow> f2(''pdu'' \<mapsto> u));
          parts = [''SNMP '' @ fld f3 ''version'']
            @ (if fld f3 ''pdu'' \<noteq> [] then [fld f3 ''pdu''] else [])
            @ (if fld f3 ''community'' \<noteq> [] then [''community='' @ fld f3 ''community''] else [])
      in \<lparr>dType = ''snmp'', dSummary = Join parts '' '', dFields = f3\<rparr>)"

definition snmpBody :: "string \<Rightarrow> packetDecode option option" where
  "snmpBody body = do {
     t \<leftarrow> at body 0;
     if t \<noteq> 0x30 then Some None
     else do {
       skip \<leftarrow> skipBERHeader body;
       case skip of None \<Rightarrow> Some None
       | Some cur \<Rightarrow>
           if length body \<le> cur then Some None
           else do {
             vt \<leftarrow> at body cur;
             if vt \<noteq> 0x02 then Some None
             else do {
               verLen \<leftarrow> at body (cur + 1);
               if length body < cur + 2 + verLen then Some None
               else do {
                 version \<leftarrow> at body (cur + 2);
                 let cur2 = cur + (2 + verLen);
                 community \<leftarrow> snmpCommunity body cur2 version;
                 pdu \<leftarrow> (if cur2 < length body then map_option snmpPdu (at body cur2) else Some None);
                 Some (Some (snmpResult version community pdu)) } } } } }"

definition decodeSNMP :: "string list \<Rightarrow> packetDecode option option" where
  "decodeSNMP payload =
     (let bytes = ExtractHexPayload payload in do {
        start \<leftarrow> findUDPPayloadOffset bytes;
        case start of None \<Rightarrow> Some None
        | Some off \<Rightarrow>
            if length bytes - off < 10 then Some None
            else do { body \<leftarrow> sliceFrom bytes off; snmpBody body } })"

section \<open>LDAP\<close>

text \<open>\<open>strconv.FormatInt(n, 16)\<close> of a non-negative number.\<close>

definition hexChar :: "nat \<Rightarrow> char" where
  "hexChar d = (if d < 10 then chr (48 + d) else chr (87 + d))"

fun hexDigits :: "nat \<Rightarrow> string" where
  "hexDigits n = (if n < 16 then [hexChar n] else hexDigits (n div 16) @ [hexChar (n mod 16)])"

declare hexDigits.simps [simp del]

definition ldapOpName :: "nat \<Rightarrow> string" where
  "ldapOpName tag = (case map_of
     [(0x60, ''bindRequest''), (0x61, ''bindResponse''), (0x42, ''unbindRequest''),
      (0x63, ''searchRequest''), (0x64, ''searchResEntry''), (0x65, ''searchResDone''),
      (0x66, ''modifyRequest''), (0x67, ''modifyResponse''), (0x68, ''addRequest''),
      (0x69, ''addResponse''), (0x4a, ''delRequest''), (0x6b, ''delResponse''),
      (0x6c, ''modDNRequest''), (0x6d, ''modDNResponse''), (0x6e, ''compareRequest''),
      (0x6f, ''compareResponse''), (0x50, ''abandonRequest''), (0x77, ''extendedRequest''),
      (0x78, ''extendedResponse'')] tag of
     Some n \<Rightarrow> n | None \<Rightarrow> ''op_0x'' @ hexDigits tag)"

text \<open>The message number: Go's 64-bit \<open>int\<close>, shifted by eight for every byte.\<close>

fun ldapMsgID :: "string \<Rightarrow> nat \<Rightarrow> nat \<Rightarrow> 64 word \<Rightarrow> 64 word option" where
  "ldapMsgID body pos 0 acc = Some acc"
| "ldapMsgID body pos (Suc n) acc = do {
     b \<leftarrow> at body pos;
     ldapMsgID body (Suc pos) n (push_bit 8 acc OR word_of_nat b) }"

definition ldapBody :: "string \<Rightarrow> packetDecode option option" where
  "ldapBody body = do {
     t \<leftarrow> at body 0;
     if t \<noteq> 0x30 then Some None
     else do {
       skip \<leftarrow> skipBERHeader body;
       case skip of None \<Rightarrow> Some None
       | Some cur \<Rightarrow>
           if length body < cur + 3 then Some None
           else do {
             it \<leftarrow> at body cur;
             if it \<noteq> 0x02 then Some None
             else do {
               idLen \<leftarrow> at body (cur + 1);
               if length body < cur + 2 + idLen then Some None
               else do {
                 msgID \<leftarrow> ldapMsgID body (cur + 2) idLen 0;
                 let cur2 = cur + (2 + idLen);
                 if length body \<le> cur2 then Some None
                 else do {
                   tag \<leftarrow> at body cur2;
                   let op = ldapOpName tag;
                   let num = itoaInt (sint msgID);
                   Some (Some \<lparr>dType = ''ldap'', dSummary = ''LDAP '' @ op @ '' (msg '' @ num @ '')'',
                     dFields = [''message_id'' \<mapsto> num, ''op'' \<mapsto> op]\<rparr>) } } } } } }"

definition decodeLDAP :: "string list \<Rightarrow> packetDecode option option" where
  "decodeLDAP payload =
     (let bytes = ExtractHexPayload payload in do {
        start \<leftarrow> findTCPPayloadOffset bytes;
        case start of None \<Rightarrow> Some None
        | Some off \<Rightarrow>
            if length bytes - off < 6 then Some None
            else do { body \<leftarrow> sliceFrom bytes off; ldapBody body } })"

section \<open>SMB\<close>

definition smb1Command :: "nat \<Rightarrow> string" where
  "smb1Command c = (case map_of
     [(0x72, ''Negotiate''), (0x73, ''SessionSetupAndX''), (0x75, ''TreeConnectAndX''),
      (0xa2, ''NTCreateAndX''), (0x2e, ''ReadAndX''), (0x2f, ''WriteAndX''), (0x04, ''Close'')] c of
     Some n \<Rightarrow> n | None \<Rightarrow> ''cmd_0x'' @ hexDigits c)"

definition smb2Command :: "nat \<Rightarrow> string" where
  "smb2Command c = (case map_of
     [(0x00, ''Negotiate''), (0x01, ''SessionSetup''), (0x02, ''Logoff''), (0x03, ''TreeConnect''),
      (0x04, ''TreeDisconnect''), (0x05, ''Create''), (0x06, ''Close''), (0x08, ''Read''),
      (0x09, ''Write''), (0x0e, ''QueryDirectory''), (0x10, ''QueryInfo''), (0x11, ''SetInfo'')] c of
     Some n \<Rightarrow> n | None \<Rightarrow> ''cmd_0x'' @ hexDigits c)"

definition smbBody :: "string \<Rightarrow> packetDecode option option" where
  "smbBody body =
     (if length body < 8 then Some None
      else do {
        b0 \<leftarrow> at body 0;
        b1 \<leftarrow> at body 1;
        b2 \<leftarrow> at body 2;
        b3 \<leftarrow> at body 3;
        let smb = (b1 = 0x53 \<and> b2 = 0x4d \<and> b3 = 0x42);
        if b0 = 0xff \<and> smb then do {
          c \<leftarrow> at body 4;
          Some (Some \<lparr>dType = ''smb'', dSummary = ''SMB1 '' @ smb1Command c,
            dFields = [''dialect'' \<mapsto> ''SMB1'', ''command'' \<mapsto> smb1Command c]\<rparr>) }
        else if b0 = 0xfe \<and> smb then
          (if length body < 14 then Some None
           else do {
             l \<leftarrow> at body 12;
             h \<leftarrow> at body 13;
             let cmd = l OR push_bit 8 h;
             Some (Some \<lparr>dType = ''smb'', dSummary = ''SMB2 '' @ smb2Command cmd,
               dFields = [''dialect'' \<mapsto> ''SMB2/3'', ''command'' \<mapsto> smb2Command cmd]\<rparr>) })
        else if b0 = 0xfd \<and> smb then
          Some (Some \<lparr>dType = ''smb'', dSummary = ''SMB3 encrypted message'',
            dFields = [''dialect'' \<mapsto> ''SMB3 (encrypted)'']\<rparr>)
        else Some None })"

definition decodeSMB :: "string list \<Rightarrow> packetDecode option option" where
  "decodeSMB payload =
     (let bytes = ExtractHexPayload payload in do {
        start \<leftarrow> findTCPPayloadOffset bytes;
        case start of None \<Rightarrow> Some None
        | Some off \<Rightarrow> do {
            body \<leftarrow> sliceFrom bytes off;
            body2 \<leftarrow> (if 4 \<le> length body then do {
                        b0 \<leftarrow> at body 0;
                        if b0 = 0 then sliceFrom body 4 else Some body }
                      else Some body);
            smbBody body2 } })"

section \<open>MQTT\<close>

definition mqttPacketName :: "nat \<Rightarrow> string" where
  "mqttPacketName t = (case map_of
     [(1, ''CONNECT''), (2, ''CONNACK''), (3, ''PUBLISH''), (4, ''PUBACK''), (5, ''PUBREC''),
      (6, ''PUBREL''), (7, ''PUBCOMP''), (8, ''SUBSCRIBE''), (9, ''SUBACK''), (10, ''UNSUBSCRIBE''),
      (11, ''UNSUBACK''), (12, ''PINGREQ''), (13, ''PINGRESP''), (14, ''DISCONNECT'')] t of
     Some n \<Rightarrow> n | None \<Rightarrow> [])"

text \<open>Past the remaining-length bytes: at most four, until one without its top bit.\<close>

function mqttSkip :: "string \<Rightarrow> nat \<Rightarrow> nat option" where
  "mqttSkip body cur =
     (if cur < 5 \<and> cur < length body then do {
        b \<leftarrow> at body cur;
        if b AND 0x80 = 0 then Some (cur + 1) else mqttSkip body (cur + 1) }
      else Some cur)"
  by pat_completeness auto
termination by (relation "measure (\<lambda>(body, cur). 5 - cur)") auto

declare mqttSkip.simps [simp del]

definition mqttPlain :: "(string \<Rightarrow> string option) \<Rightarrow> string \<Rightarrow> packetDecode" where
  "mqttPlain fs name = \<lparr>dType = ''mqtt'', dSummary = ''MQTT '' @ name, dFields = fs\<rparr>"

definition mqttConnect :: "string \<Rightarrow> nat \<Rightarrow> (string \<Rightarrow> string option) \<Rightarrow> (string \<Rightarrow> string option) option" where
  "mqttConnect body cur fs = do {
     nameLen \<leftarrow> u16at body cur;
     if cur + 2 + nameLen + 1 \<le> length body then do {
       proto \<leftarrow> slice body (cur + 2) (cur + 2 + nameLen);
       v \<leftarrow> at body (cur + 2 + nameLen);
       Some (fs(''protocol'' \<mapsto> proto, ''mqtt_version'' \<mapsto> natDigits v)) }
     else Some fs }"

definition mqttTopic :: "string \<Rightarrow> nat \<Rightarrow> string option option" where
  "mqttTopic body cur = do {
     topicLen \<leftarrow> u16at body cur;
     if cur + 2 + topicLen \<le> length body
     then map_option Some (slice body (cur + 2) (cur + 2 + topicLen)) else Some None }"

definition mqttBody :: "string \<Rightarrow> packetDecode option option" where
  "mqttBody body = do {
     b0 \<leftarrow> at body 0;
     let pktType = drop_bit 4 b0;
     let name = mqttPacketName pktType;
     if name = [] then Some None
     else do {
       let f1 = [''packet_type'' \<mapsto> name];
       cur \<leftarrow> mqttSkip body 1;
       topic \<leftarrow> (if pktType = 3 \<and> cur + 2 \<le> length body then mqttTopic body cur else Some None);
       case topic of
         Some t \<Rightarrow> Some (Some \<lparr>dType = ''mqtt'', dSummary = ''MQTT PUBLISH '' @ t,
           dFields = f1(''topic'' \<mapsto> t)\<rparr>)
       | None \<Rightarrow> do {
           f2 \<leftarrow> (if pktType = 1 \<and> cur + 10 \<le> length body then mqttConnect body cur f1 else Some f1);
           Some (Some (mqttPlain f2 name)) } } }"

definition decodeMQTT :: "string list \<Rightarrow> packetDecode option option" where
  "decodeMQTT payload =
     (let bytes = ExtractHexPayload payload in do {
        start \<leftarrow> findTCPPayloadOffset bytes;
        case start of None \<Rightarrow> Some None
        | Some off \<Rightarrow>
            if length bytes - off < 2 then Some None
            else do { body \<leftarrow> sliceFrom bytes off; mqttBody body } })"

section \<open>TLS\<close>

text \<open>The extensions, one after the other; the loop ends at the server name.\<close>

function walkExtensions :: "string \<Rightarrow> string option" where
  "walkExtensions ext =
     (if length ext < 4 then Some []
      else do {
        etype \<leftarrow> u16at ext 0;
        elen \<leftarrow> u16at ext 2;
        if length ext < 4 + elen then Some []
        else do {
          edata \<leftarrow> slice ext 4 (4 + elen);
          more \<leftarrow> sliceFrom ext (4 + elen);
          if etype = 0 then
            (if length edata < 5 then Some []
             else do {
               kind \<leftarrow> at edata 2;
               if kind \<noteq> 0 then Some []
               else do {
                 nameLen \<leftarrow> u16at edata 3;
                 if length edata < 5 + nameLen then Some []
                 else slice edata 5 (5 + nameLen) } })
          else walkExtensions more } })"
  by pat_completeness auto
termination by (relation "measure length") (auto simp: sliceFrom_def split: if_splits)

declare walkExtensions.simps [simp del]

text \<open>A field with a length of one byte or of two in front of it, skipped; \<open>Some None\<close> when it is cut.\<close>

definition skip8 :: "string \<Rightarrow> string option option" where
  "skip8 body =
     (if length body < 1 then Some None
      else do {
        n \<leftarrow> at body 0;
        if length body < 1 + n then Some None else map_option Some (sliceFrom body (1 + n)) })"

definition skip16 :: "string \<Rightarrow> string option option" where
  "skip16 body =
     (if length body < 2 then Some None
      else do {
        n \<leftarrow> u16at body 0;
        if length body < 2 + n then Some None else map_option Some (sliceFrom body (2 + n)) })"

definition helloExtensions :: "string \<Rightarrow> string option" where
  "helloExtensions body =
     (if length body < 2 then Some []
      else do {
        n \<leftarrow> u16at body 0;
        rest \<leftarrow> sliceFrom body 2;
        let extLen = min n (length rest);
        ext \<leftarrow> slice rest 0 extLen;
        walkExtensions ext })"

definition walkClientHello :: "string \<Rightarrow> string option" where
  "walkClientHello b =
     (if length b < 6 then Some []
      else do {
        t \<leftarrow> at b 0;
        if t \<noteq> 0x01 then Some []
        else do {
          h2 \<leftarrow> at b 1;
          h1 \<leftarrow> at b 2;
          h0 \<leftarrow> at b 3;
          let hsLen = push_bit 16 h2 OR push_bit 8 h1 OR h0;
          body0 \<leftarrow> sliceFrom b 4;
          body1 \<leftarrow> slice body0 0 (min hsLen (length body0));
          if length body1 < 2 + 32 then Some []
          else do {
            body2 \<leftarrow> sliceFrom body1 (2 + 32);
            session \<leftarrow> skip8 body2;
            case session of None \<Rightarrow> Some []
            | Some body3 \<Rightarrow> do {
                suites \<leftarrow> skip16 body3;
                case suites of None \<Rightarrow> Some []
                | Some body4 \<Rightarrow> do {
                    comp \<leftarrow> skip8 body4;
                    case comp of None \<Rightarrow> Some []
                    | Some body5 \<Rightarrow> helloExtensions body5 } } } } })"

text \<open>The scan for the record and handshake signature, from position \<open>i\<close> on.\<close>

function scanHello :: "string \<Rightarrow> nat \<Rightarrow> string option" where
  "scanHello packet i =
     (if i + 10 \<le> length packet then do {
        c0 \<leftarrow> at packet i;
        c1 \<leftarrow> at packet (i + 1);
        c2 \<leftarrow> at packet (i + 2);
        c5 \<leftarrow> at packet (i + 5);
        if c0 \<noteq> 0x16 \<or> c1 \<noteq> 0x03 \<or> (c2 < 0x01 \<or> 0x04 < c2) \<or> c5 \<noteq> 0x01 then scanHello packet (i + 1)
        else do {
          hello \<leftarrow> sliceFrom packet (i + 5);
          host \<leftarrow> walkClientHello hello;
          if host \<noteq> [] then Some host else scanHello packet (i + 1) } }
      else Some [])"
  by pat_completeness auto
termination by (relation "measure (\<lambda>(packet, i). length packet - i)") auto

declare scanHello.simps [simp del]

definition DecodeTLSClientHello :: "string \<Rightarrow> string option" where
  "DecodeTLSClientHello packet = (if length packet < 50 then Some [] else scanHello packet 0)"

definition decodeTLS :: "string list \<Rightarrow> packetDecode option option" where
  "decodeTLS payload =
     (let bytes = ExtractHexPayload payload in
      if bytes = [] then Some None
      else do {
        sni \<leftarrow> DecodeTLSClientHello bytes;
        Some (if sni = [] then None
              else Some \<lparr>dType = ''tls'', dSummary = ''TLS ClientHello SNI: '' @ sni,
                         dFields = [''sni'' \<mapsto> sni]\<rparr>) })"

section \<open>No access out of range\<close>

named_theorems no_panic \<open>composition of steps that do not panic\<close>

lemma bind_no_panic [no_panic]:
  "x \<noteq> None \<Longrightarrow> (\<And>a. x = Some a \<Longrightarrow> f a \<noteq> None) \<Longrightarrow> Option.bind x f \<noteq> None"
  by (cases x) simp_all

lemma if_no_panic [no_panic]: "(c \<Longrightarrow> x \<noteq> None) \<Longrightarrow> (\<not> c \<Longrightarrow> y \<noteq> None) \<Longrightarrow> (if c then x else y) \<noteq> None"
  by simp

lemma case_no_panic [no_panic]:
  "(x = None \<Longrightarrow> a \<noteq> None) \<Longrightarrow> (\<And>v. x = Some v \<Longrightarrow> f v \<noteq> None) \<Longrightarrow>
     (case x of None \<Rightarrow> a | Some v \<Rightarrow> f v) \<noteq> None"
  by (cases x) simp_all

lemma let_no_panic [no_panic]: "(\<And>v. v = x \<Longrightarrow> f v \<noteq> None) \<Longrightarrow> (let v = x in f v) \<noteq> None"
  by simp

lemma Some_no_panic [no_panic]: "Some x \<noteq> None"
  by simp

lemma map_option_no_panic [no_panic]: "x \<noteq> None \<Longrightarrow> map_option f x \<noteq> None"
  by simp

lemma at_Some_iff [simp]: "at b i = Some v \<longleftrightarrow> i < length b \<and> v = byte (b ! i)"
  by (auto simp: at_def)

lemma at_None_iff [simp]: "at b i = None \<longleftrightarrow> length b \<le> i"
  by (auto simp: at_def)

lemma sliceFrom_Some_iff [simp]: "sliceFrom b i = Some v \<longleftrightarrow> i \<le> length b \<and> v = drop i b"
  by (auto simp: sliceFrom_def)

lemma sliceFrom_None_iff [simp]: "sliceFrom b i = None \<longleftrightarrow> length b < i"
  by (auto simp: sliceFrom_def)

lemma slice_Some_iff [simp]: "slice b i j = Some v \<longleftrightarrow> i \<le> j \<and> j \<le> length b \<and> v = take (j - i) (drop i b)"
  by (auto simp: slice_def)

lemma slice_None_iff [simp]: "slice b i j = None \<longleftrightarrow> \<not> (i \<le> j \<and> j \<le> length b)"
  by (auto simp: slice_def)

lemma u16at_Some: "i + 1 < length b \<Longrightarrow> u16at b i = Some (push_bit 8 (byte (b ! i)) OR byte (b ! (i + 1)))"
  by (simp add: u16at_def at_def)

lemma u16at_no_panic: "i + 1 < length b \<Longrightarrow> u16at b i \<noteq> None"
  by (simp add: u16at_Some)

text \<open>An offset, when there is one, lies within the bytes.\<close>

definition within :: "nat \<Rightarrow> nat option option \<Rightarrow> bool" where
  "within n x \<longleftrightarrow> (\<forall>k. x = Some (Some k) \<longrightarrow> k \<le> n)"

lemma within_bind: "(\<And>a. x = Some a \<Longrightarrow> within n (f a)) \<Longrightarrow> within n (Option.bind x f)"
  by (cases x) (simp_all add: within_def)

lemma within_if: "(c \<Longrightarrow> within n x) \<Longrightarrow> (\<not> c \<Longrightarrow> within n y) \<Longrightarrow> within n (if c then x else y)"
  by simp

lemma within_case: "(x = None \<Longrightarrow> within n a) \<Longrightarrow> (\<And>v. x = Some v \<Longrightarrow> within n (f v)) \<Longrightarrow>
    within n (case x of None \<Rightarrow> a | Some v \<Rightarrow> f v)"
  by (cases x) simp_all

lemma within_let: "(\<And>v. within n (f v)) \<Longrightarrow> within n (let v = x in f v)"
  by simp

lemma within_Some_if: "within n (Some x) \<Longrightarrow> within n (Some y) \<Longrightarrow> within n (Some (if c then x else y))"
  by simp

lemma within_None: "within n (Some None)"
  by (simp add: within_def)

lemma within_check: "within n (Some (if n < k then None else Some k))"
  by (simp add: within_def)

lemmas within_intros = within_bind within_case within_let within_None within_check within_Some_if within_if

lemma findIPStart_no_panic: "findIPStart b \<noteq> None"
  unfolding findIPStart_def by (intro no_panic u16at_no_panic) auto

lemma findIPStart_bound: "findIPStart b = Some (Some k) \<Longrightarrow> (k = 0 \<or> k = 14) \<and> 20 \<le> length b"
  unfolding findIPStart_def by (auto simp: bind_eq_Some_conv split: if_splits)

lemma findUDPPayloadOffset_no_panic: "findUDPPayloadOffset b \<noteq> None"
  unfolding findUDPPayloadOffset_def by (intro no_panic findIPStart_no_panic) auto

lemma within_udp: "within (length b) (findUDPPayloadOffset b)"
  unfolding findUDPPayloadOffset_def by (intro within_intros)

lemma findUDPPayloadOffset_bound: "findUDPPayloadOffset b = Some (Some k) \<Longrightarrow> k \<le> length b"
  using within_udp by (simp add: within_def)

lemma findTCPPayloadOffset_no_panic: "findTCPPayloadOffset b \<noteq> None"
  unfolding findTCPPayloadOffset_def by (intro no_panic findIPStart_no_panic) auto

lemma within_tcp: "within (length b) (findTCPPayloadOffset b)"
  unfolding findTCPPayloadOffset_def by (intro within_intros)

lemma findTCPPayloadOffset_bound: "findTCPPayloadOffset b = Some (Some k) \<Longrightarrow> k \<le> length b"
  using within_tcp by (simp add: within_def)

lemma extractASCIIPayload_no_panic: "extractASCIIPayload lines \<noteq> None"
  unfolding extractASCIIPayload_def
  by (intro no_panic findTCPPayloadOffset_no_panic findUDPPayloadOffset_no_panic) auto

lemma decodeNTP_no_panic: "decodeNTP payload \<noteq> None"
  unfolding decodeNTP_def
  by (intro no_panic findUDPPayloadOffset_no_panic) (auto dest: findUDPPayloadOffset_bound)

lemma skipBERHeader_no_panic: "skipBERHeader b \<noteq> None"
  unfolding skipBERHeader_def by (intro no_panic) auto

lemma skipBERHeader_bound: "skipBERHeader b = Some (Some k) \<Longrightarrow> 2 \<le> k \<and> k \<le> length b"
  unfolding skipBERHeader_def by (auto simp: bind_eq_Some_conv Let_def split: if_splits)

lemma ldapMsgID_no_panic: "pos + n \<le> length body \<Longrightarrow> ldapMsgID body pos n acc \<noteq> None"
  by (induction n arbitrary: pos acc) (auto simp: at_def)

lemma ldapBody_no_panic: "body \<noteq> [] \<Longrightarrow> ldapBody body \<noteq> None"
  unfolding ldapBody_def by (intro no_panic skipBERHeader_no_panic ldapMsgID_no_panic) auto

lemma decodeLDAP_no_panic: "decodeLDAP payload \<noteq> None"
  unfolding decodeLDAP_def
  by (intro no_panic findTCPPayloadOffset_no_panic ldapBody_no_panic) (auto dest: findTCPPayloadOffset_bound)

lemma smbBody_no_panic: "smbBody body \<noteq> None"
  unfolding smbBody_def by (intro no_panic) auto

lemma decodeSMB_no_panic: "decodeSMB payload \<noteq> None"
  unfolding decodeSMB_def
  by (intro no_panic findTCPPayloadOffset_no_panic smbBody_no_panic) (auto dest: findTCPPayloadOffset_bound)

lemma mqttSkip_no_panic: "mqttSkip body cur \<noteq> None"
proof (induction body cur rule: mqttSkip.induct)
  case (1 body cur)
  then show ?case by (subst mqttSkip.simps) (intro no_panic, auto)
qed

lemma mqttTopic_no_panic: "cur + 2 \<le> length body \<Longrightarrow> mqttTopic body cur \<noteq> None"
  unfolding mqttTopic_def by (intro no_panic u16at_no_panic) auto

lemma mqttConnect_no_panic: "cur + 2 \<le> length body \<Longrightarrow> mqttConnect body cur fs \<noteq> None"
  unfolding mqttConnect_def by (intro no_panic u16at_no_panic) auto

lemma mqttBody_no_panic: "body \<noteq> [] \<Longrightarrow> mqttBody body \<noteq> None"
  unfolding mqttBody_def
  by (intro no_panic mqttSkip_no_panic mqttTopic_no_panic mqttConnect_no_panic) auto

lemma decodeMQTT_no_panic: "decodeMQTT payload \<noteq> None"
  unfolding decodeMQTT_def
  by (intro no_panic findTCPPayloadOffset_no_panic mqttBody_no_panic) (auto dest: findTCPPayloadOffset_bound)

lemma walkExtensions_no_panic: "walkExtensions ext \<noteq> None"
proof (induction ext rule: walkExtensions.induct)
  case (1 ext)
  show ?case by (subst walkExtensions.simps) (intro no_panic u16at_no_panic 1, auto)
qed

lemma skip8_no_panic: "skip8 b \<noteq> None" and skip16_no_panic: "skip16 b \<noteq> None"
  unfolding skip8_def skip16_def by (intro no_panic u16at_no_panic; auto)+

lemma helloExtensions_no_panic: "helloExtensions b \<noteq> None"
  unfolding helloExtensions_def by (intro no_panic u16at_no_panic walkExtensions_no_panic) auto

lemma walkClientHello_no_panic: "walkClientHello b \<noteq> None"
  unfolding walkClientHello_def
  by (intro no_panic skip8_no_panic skip16_no_panic helloExtensions_no_panic) auto

lemma scanHello_no_panic: "scanHello packet i \<noteq> None"
proof (induction packet i rule: scanHello.induct)
  case (1 packet i)
  then show ?case
    by (subst scanHello.simps) (intro no_panic walkClientHello_no_panic, auto)
qed

lemma decodeTLS_no_panic: "decodeTLS payload \<noteq> None"
  unfolding decodeTLS_def DecodeTLSClientHello_def by (intro no_panic scanHello_no_panic)

section \<open>SNMP, exactly\<close>

definition snmpCut :: "string \<Rightarrow> bool" where
  "snmpCut body \<longleftrightarrow> byte (body ! 0) = 0x30 \<and>
     (\<exists>cur. skipBERHeader body = Some (Some cur) \<and> cur < length body \<and> byte (body ! cur) = 2 \<and>
        (length body = cur + 1 \<or>
         length body = cur + 2 \<and> byte (body ! (cur + 1)) = 0 \<or>
         (let end = cur + 2 + byte (body ! (cur + 1))
          in length body = end + 1 \<and> byte (body ! end) = 4 \<and> byte (body ! (cur + 2)) \<le> 1)))"

lemma snmpCommunity_None_iff:
  "snmpCommunity body cur version = None \<longleftrightarrow>
     length body = cur + 1 \<and> byte (body ! cur) = 4 \<and> version \<le> 1"
  unfolding snmpCommunity_def by (cases "cur + 1 < length body") (auto simp: at_def)

lemma snmpBody_None_iff:
  assumes "body \<noteq> []"
  shows "snmpBody body = None \<longleftrightarrow> snmpCut body"
proof (cases "byte (body ! 0) = 0x30")
  case False
  then show ?thesis using assms by (simp add: snmpBody_def snmpCut_def at_def)
next
  case tag: True
  obtain skip where skip: "skipBERHeader body = Some skip" using skipBERHeader_no_panic [of body] by auto
  show ?thesis
  proof (cases "\<exists>cur. skip = Some cur \<and> cur < length body \<and> byte (body ! cur) = 2")
    case False
    then show ?thesis using assms skip
      by (cases skip) (auto simp: snmpBody_def snmpCut_def at_def)
  next
    case True
    then obtain cur where cur: "skip = Some cur" "cur < length body" "byte (body ! cur) = 2" by blast
    define vl where "vl = byte (body ! (cur + 1))"
    have "snmpBody body = None \<longleftrightarrow>
        length body = cur + 1 \<or>
        cur + 1 < length body \<and> cur + 2 + vl \<le> length body \<and>
          (length body \<le> cur + 2 \<or> snmpCommunity body (cur + (2 + vl)) (byte (body ! (cur + 2))) = None)"
      using assms tag skip cur
      by (cases "snmpCommunity body (cur + (2 + vl)) (byte (body ! (cur + 2)))")
        (auto simp: snmpBody_def at_def vl_def Let_def)
    also have "\<dots> \<longleftrightarrow> length body = cur + 1 \<or> length body = cur + 2 \<and> vl = 0 \<or>
        (length body = cur + 2 + vl + 1 \<and> byte (body ! (cur + 2 + vl)) = 4 \<and> byte (body ! (cur + 2)) \<le> 1)"
      by (auto simp: snmpCommunity_None_iff add.assoc)
    also have "\<dots> \<longleftrightarrow> snmpCut body"
      using tag skip cur by (auto simp: snmpCut_def vl_def Let_def)
    finally show ?thesis .
  qed
qed

lemma decodeSNMP_None_iff:
  "decodeSNMP payload = None \<longleftrightarrow>
     (\<exists>off. findUDPPayloadOffset (ExtractHexPayload payload) = Some (Some off) \<and>
        off + 10 \<le> length (ExtractHexPayload payload) \<and> snmpCut (drop off (ExtractHexPayload payload)))"
proof -
  let ?b = "ExtractHexPayload payload"
  obtain start where start: "findUDPPayloadOffset ?b = Some start"
    using findUDPPayloadOffset_no_panic [of ?b] by auto
  show ?thesis
  proof (cases start)
    case None
    then show ?thesis using start by (simp add: decodeSNMP_def Let_def)
  next
    case (Some off)
    have le: "off \<le> length ?b" using start Some findUDPPayloadOffset_bound by simp
    show ?thesis
    proof (cases "length ?b - off < 10")
      case True
      then have "\<not> off + 10 \<le> length ?b" using le by arith
      then show ?thesis using start Some True by (simp add: decodeSNMP_def Let_def)
    next
      case False
      then have "drop off ?b \<noteq> []" by auto
      then have "snmpBody (drop off ?b) = None \<longleftrightarrow> snmpCut (drop off ?b)" by (rule snmpBody_None_iff)
      moreover have "off + 10 \<le> length ?b" using False by arith
      ultimately show ?thesis using start Some False le by (simp add: decodeSNMP_def Let_def sliceFrom_def)
    qed
  qed
qed

text \<open>What a version 1 or 2c message with a short length is read as.\<close>

definition snmpMessage :: "nat \<Rightarrow> string \<Rightarrow> string \<Rightarrow> string" where
  "snmpMessage version community pdu =
     [chr 0x30, chr (5 + length community + length pdu), chr 2, chr 1, chr version,
      chr 4, chr (length community)] @ community @ pdu"

lemma snmpBody_message:
  assumes "version \<le> 1" "5 + length community + length pdu < 0x80"
  shows "snmpBody (snmpMessage version community pdu) = Some (Some (snmpResult version (Some community) None))"
proof -
  let ?n = "5 + length community + length pdu"
  have bit: "?n AND 0x80 = 0"
  proof -
    have "take_bit 7 ?n = ?n" using assms(2) by (simp add: take_bit_nat_eq_self_iff)
    then have "?n AND 0x80 = (take_bit 7 ?n) AND 0x80" by simp
    also have "\<dots> = ?n AND (mask 7 AND 0x80)" by (simp add: take_bit_eq_mask and.assoc)
    also have "mask 7 AND (0x80 :: nat) = 0" by (simp add: mask_eq_exp_minus_1)
    finally show ?thesis by simp
  qed
  have skip: "skipBERHeader (snmpMessage version community pdu) = Some (Some 2)"
    using assms bit by (simp add: skipBERHeader_def snmpMessage_def at_def)
  have com: "snmpCommunity (snmpMessage version community pdu) 5 version = Some (Some community)"
    using assms by (simp add: snmpCommunity_def snmpMessage_def at_def slice_def)
  show ?thesis
    using assms skip com
    by (simp add: snmpBody_def) (simp add: snmpMessage_def at_def snmpPdu_def)
qed

section \<open>Sixteen-bit numbers\<close>

lemma bit_less_8: "l < 256 \<Longrightarrow> bit l n \<Longrightarrow> n < 8" for l :: nat
proof -
  assume "l < 256" "bit l n"
  then have "take_bit 8 l = l" by (simp add: take_bit_nat_eq_self_iff)
  then show "n < 8" using \<open>bit l n\<close> bit_take_bit_iff [of 8 l n] by simp
qed

lemma u16_or: "l < 256 \<Longrightarrow> push_bit 8 h OR l = 256 * h + l" for h l :: nat
proof -
  assume l: "l < 256"
  have "push_bit 8 h AND l = 0"
    using bit_less_8 [OF l] by (auto simp: bit_eq_iff bit_simps) (meson not_less)
  then have "push_bit 8 h OR l = push_bit 8 h + l" by (simp add: disjunctive_add_eq_or)
  then show ?thesis by (simp add: push_bit_eq_mult)
qed

definition be16 :: "nat \<Rightarrow> string" where
  "be16 n = [chr (n div 256), chr (n mod 256)]"

lemma length_be16 [simp]: "length (be16 n) = 2"
  by (simp add: be16_def)

lemma be16_at: "n < 65536 \<Longrightarrow> u16at (be16 n @ r) 0 = Some n"
  by (simp add: be16_def u16at_def at_def u16_or)

lemma u16at_append: "u16at (a @ b) (length a + i) = u16at b i"
  by (simp add: u16at_def at_def nth_append)

section \<open>Packet headers\<close>

definition etherHeader :: "string \<Rightarrow> bool" where
  "etherHeader e \<longleftrightarrow> e = [] \<or>
     length e = 14 \<and> byte (e ! 0) div 16 \<notin> {4, 6} \<and> (drop 12 e = be16 0x0800 \<or> drop 12 e = be16 0x86dd)"

definition ipHeader :: "string \<Rightarrow> bool" where
  "ipHeader h \<longleftrightarrow>
     (\<exists>ihl \<in> {5..15}. length h = 4 * ihl \<and> byte (h ! 0) = 0x40 + ihl) \<or>
     length h = 40 \<and> byte (h ! 0) div 16 = 6"

definition tcpHeader :: "string \<Rightarrow> bool" where
  "tcpHeader t \<longleftrightarrow> (\<exists>n \<in> {5..15}. length t = 4 * n \<and> byte (t ! 12) div 16 = n)"

lemma high_nibble: "v < 256 \<Longrightarrow> v AND 0xf0 = 16 * (v div 16)" for v :: nat
proof -
  assume v: "v < 256"
  have "(0xf0 :: nat) = push_bit 4 (mask 4)" by (simp add: mask_eq_exp_minus_1 push_bit_eq_mult)
  then have "v AND 0xf0 = push_bit 4 (take_bit 4 (drop_bit 4 v))"
    by (auto simp: bit_eq_iff bit_simps)
  moreover have "take_bit 4 (drop_bit 4 v) = v div 16"
    using v by (simp add: drop_bit_eq_div take_bit_eq_mod)
  ultimately show ?thesis by (simp add: push_bit_eq_mult)
qed

lemma low_nibble: "v AND 0x0f = v mod 16" for v :: nat
proof -
  have "v AND 0x0f = take_bit 4 v" by (simp add: take_bit_eq_mask mask_eq_exp_minus_1)
  then show ?thesis by (simp add: take_bit_eq_mod)
qed

lemma ipHeader_length: "ipHeader h \<Longrightarrow> 20 \<le> length h"
  by (auto simp: ipHeader_def)

lemma ipHeader_nibble: "ipHeader h \<Longrightarrow> byte (h ! 0) AND 0xf0 = 0x40 \<or> byte (h ! 0) AND 0xf0 = 0x60"
proof -
  assume "ipHeader h"
  then have "byte (h ! 0) div 16 = 4 \<or> byte (h ! 0) div 16 = 6" by (auto simp: ipHeader_def)
  then show ?thesis by (auto simp: high_nibble)
qed

lemma findIPStart_packet:
  assumes "etherHeader e" "ipHeader h"
  shows "findIPStart (e @ h @ p) = Some (Some (length e))"
proof (cases "e = []")
  case True
  then show ?thesis
    using ipHeader_length [OF assms(2)] ipHeader_nibble [OF assms(2)]
    by (auto simp: findIPStart_def at_def nth_append)
next
  case False
  then have e: "length e = 14" "byte (e ! 0) div 16 \<notin> {4, 6}"
      "drop 12 e = be16 0x0800 \<or> drop 12 e = be16 0x86dd"
    using assms(1) by (auto simp: etherHeader_def)
  have cut: "take 12 e @ drop 12 e @ h @ p = e @ h @ p" by (simp flip: append_assoc)
  have "u16at (e @ h @ p) 12 = u16at (drop 12 e @ h @ p) 0"
    using u16at_append [of "take 12 e" "drop 12 e @ h @ p" 0] e(1) unfolding cut by simp
  then have "u16at (e @ h @ p) 12 = Some 0x0800 \<or> u16at (e @ h @ p) 12 = Some 0x86dd"
    using e(3) be16_at [of "0x0800" "h @ p"] be16_at [of "0x86dd" "h @ p"] by auto
  moreover have "byte (e ! 0) AND 0xf0 \<noteq> 0x40 \<and> byte (e ! 0) AND 0xf0 \<noteq> 0x60"
    using e(2) by (simp add: high_nibble)
  ultimately show ?thesis
    using e(1) ipHeader_length [OF assms(2)] by (auto simp: findIPStart_def at_def nth_append)
qed

lemma ihl_mod: "n \<le> 15 \<Longrightarrow> (64 + n) mod 16 = n" for n :: nat
proof -
  have "(64 + n) mod 16 = (n + 4 * 16) mod 16" by (simp add: add.commute)
  then show "n \<le> 15 \<Longrightarrow> (64 + n) mod 16 = n" unfolding mod_mult_self1 by simp
qed

lemma findUDPPayloadOffset_packet:
  assumes "etherHeader e" "ipHeader h" "length u = 8"
  shows "findUDPPayloadOffset (e @ h @ u @ body) = Some (Some (length (e @ h @ u)))"
proof -
  note h = ipHeader_length [OF assms(2)]
  have v: "at (e @ h @ u @ body) (length e) = Some (byte (h ! 0))"
    using h by (cases h) (simp_all add: at_def nth_append)
  consider (v4) ihl where "5 \<le> ihl" "ihl \<le> 15" "length h = 4 * ihl" "byte (h ! 0) = 0x40 + ihl"
    | (v6) "length h = 40" "byte (h ! 0) div 16 = 6"
    using assms(2) by (auto simp: ipHeader_def)
  then show ?thesis
  proof cases
    case v4
    moreover have "(64 + ihl) mod 16 = ihl" by (rule ihl_mod [OF v4(2)])
    ultimately have "(byte (h ! 0) AND 0x0f) * 4 = length h" by (simp add: low_nibble)
    moreover have "byte (h ! 0) AND 0xf0 = 0x40" using v4 by (simp add: high_nibble)
    ultimately show ?thesis
      using v assms(3) h unfolding findUDPPayloadOffset_def findIPStart_packet [OF assms(1,2)]
      by (simp add: Let_def del: at_Some_iff)
  next
    case v6
    then have "byte (h ! 0) AND 0xf0 = 0x60" by (simp add: high_nibble)
    then show ?thesis
      using v v6(1) assms(3) h unfolding findUDPPayloadOffset_def findIPStart_packet [OF assms(1,2)]
      by (simp del: at_Some_iff)
  qed
qed

lemma findTCPPayloadOffset_packet:
  assumes "etherHeader e" "ipHeader h" "tcpHeader t"
  shows "findTCPPayloadOffset (e @ h @ t @ body) = Some (Some (length (e @ h @ t)))"
proof -
  note h = ipHeader_length [OF assms(2)]
  obtain n where n: "5 \<le> n" "n \<le> 15" "length t = 4 * n" "byte (t ! 12) div 16 = n"
    using assms(3) by (auto simp: tcpHeader_def)
  have v: "at (e @ h @ t @ body) (length e) = Some (byte (h ! 0))"
    using h by (cases h) (simp_all add: at_def nth_append)
  have d: "at (e @ h @ t @ body) (length e + length h + 12) = Some (byte (t ! 12))"
    using n by (simp add: at_def nth_append)
  have dOff: "drop_bit 4 (byte (t ! 12)) * 4 = length t" using n by (simp add: drop_bit_eq_div)
  consider (v4) ihl where "5 \<le> ihl" "ihl \<le> 15" "length h = 4 * ihl" "byte (h ! 0) = 0x40 + ihl"
    | (v6) "length h = 40" "byte (h ! 0) div 16 = 6"
    using assms(2) by (auto simp: ipHeader_def)
  then show ?thesis
  proof cases
    case v4
    moreover have "(64 + ihl) mod 16 = ihl" by (rule ihl_mod [OF v4(2)])
    ultimately have "(byte (h ! 0) AND 0x0f) * 4 = length h" by (simp add: low_nibble)
    moreover have "byte (h ! 0) AND 0xf0 = 0x40" using v4 by (simp add: high_nibble)
    ultimately show ?thesis
      using v d dOff n(1,3) h unfolding findTCPPayloadOffset_def findIPStart_packet [OF assms(1,2)]
      by (simp add: Let_def del: at_Some_iff)
  next
    case v6
    then have "byte (h ! 0) AND 0xf0 = 0x60" by (simp add: high_nibble)
    then show ?thesis
      using v d dOff v6(1) n(1,3) h unfolding findTCPPayloadOffset_def findIPStart_packet [OF assms(1,2)]
      by (simp add: Let_def mult.commute del: at_Some_iff)
  qed
qed

section \<open>The client hello, written and read\<close>

definition tlsExt :: "nat \<times> string \<Rightarrow> string" where
  "tlsExt e = be16 (fst e) @ be16 (length (snd e)) @ snd e"

definition sniExt :: "string \<Rightarrow> string" where
  "sniExt name = tlsExt (0, be16 (3 + length name) @ [chr 0] @ be16 (length name) @ name)"

definition helloBody :: "string \<Rightarrow> string \<Rightarrow> string \<Rightarrow> string \<Rightarrow> string \<Rightarrow> string" where
  "helloBody random session suites comps exts =
     random @ [chr (length session)] @ session @ be16 (length suites) @ suites
       @ [chr (length comps)] @ comps @ be16 (length exts) @ exts"

definition clientHello :: "string \<Rightarrow> string" where
  "clientHello body =
     [chr 1, chr (length body div 65536), chr (length body div 256 mod 256), chr (length body mod 256)] @ body"

lemma walkExtensions_skip:
  assumes "0 < fst e" "fst e < 65536" "length (snd e) < 65536"
  shows "walkExtensions (tlsExt e @ r) = walkExtensions r"
proof -
  have 1: "u16at (tlsExt e @ r) 0 = Some (fst e)"
    using assms be16_at [of "fst e"] by (simp add: tlsExt_def)
  have 2: "u16at (tlsExt e @ r) 2 = Some (length (snd e))"
    using assms u16at_append [of "be16 (fst e)" "be16 (length (snd e)) @ snd e @ r" 0]
      be16_at [of "length (snd e)"] by (simp add: tlsExt_def)
  have 3: "length (tlsExt e) = 4 + length (snd e)" by (simp add: tlsExt_def)
  show ?thesis
    by (subst walkExtensions.simps) (use 1 2 3 assms(1) in \<open>simp add: slice_def sliceFrom_def\<close>)
qed

lemma walkExtensions_sni:
  assumes "length name < 65531"
  shows "walkExtensions (sniExt name @ r) = Some name"
proof -
  let ?d = "be16 (3 + length name) @ [chr 0] @ be16 (length name) @ name"
  have 1: "u16at (sniExt name @ r) 0 = Some 0"
    using be16_at [of 0] by (simp add: sniExt_def tlsExt_def)
  have "sniExt name @ r = be16 0 @ be16 (length ?d) @ ?d @ r" by (simp add: sniExt_def tlsExt_def)
  then have 2: "u16at (sniExt name @ r) 2 = Some (5 + length name)"
    using assms u16at_append [of "be16 0" "be16 (length ?d) @ ?d @ r" 0]
      be16_at [of "length ?d" "?d @ r"] by simp
  have 3: "length (sniExt name) = 9 + length name" by (simp add: sniExt_def tlsExt_def)
  have 4: "take (5 + length name) (drop 4 (sniExt name @ r)) = ?d"
  proof -
    have "drop 4 (sniExt name @ r) = ?d @ r" by (simp add: sniExt_def tlsExt_def be16_def)
    moreover have "length ?d = 5 + length name" by simp
    ultimately show ?thesis by (simp only: append_eq_conv_conj [THEN iffD1] take_append) simp
  qed
  have 5: "u16at ?d 3 = Some (length name)"
    using assms u16at_append [of "be16 (3 + length name) @ [chr 0]" "be16 (length name) @ name" 0]
      be16_at [of "length name"] by simp
  have 6: "at ?d 2 = Some 0" "length ?d = 5 + length name" "drop 5 ?d = name" by (simp_all add: be16_def)
  define d x where dx: "d = ?d" "x = sniExt name @ r"
  have "4 + (5 + length name) \<le> length x" using 3 dx by simp
  then show ?thesis
    using 1 2 4 5 6 unfolding dx [symmetric]
    by (subst walkExtensions.simps) (simp add: slice_def sliceFrom_def del: at_Some_iff)
qed

lemma walkExtensions_find:
  assumes "\<forall>e \<in> set before. 0 < fst e \<and> fst e < 65536 \<and> length (snd e) < 65536" "length name < 65531"
  shows "walkExtensions (concat (map tlsExt before) @ sniExt name @ r) = Some name"
  using assms by (induction before) (simp_all add: walkExtensions_sni walkExtensions_skip)

lemma skip8_read: "length a < 256 \<Longrightarrow> skip8 ([chr (length a)] @ a @ r) = Some (Some r)"
  by (simp add: skip8_def at_def sliceFrom_def)

lemma skip16_read: "length a < 65536 \<Longrightarrow> skip16 (be16 (length a) @ a @ r) = Some (Some r)"
  by (simp add: skip16_def be16_at sliceFrom_def)

lemma helloExtensions_read:
  "length exts < 65536 \<Longrightarrow> helloExtensions (be16 (length exts) @ exts @ r) = walkExtensions exts"
  by (simp add: helloExtensions_def be16_at sliceFrom_def slice_def)

lemma be24_or: "m < 256 \<Longrightarrow> l < 256 \<Longrightarrow> push_bit 16 h OR push_bit 8 m OR l = 65536 * h + 256 * m + l" for h m l :: nat
proof -
  assume ml: "m < 256" "l < 256"
  have "push_bit 16 h OR push_bit 8 m OR l = push_bit 8 (push_bit 8 h OR m) OR l"
    by (simp add: or.assoc)
  also have "\<dots> = 256 * (256 * h + m) + l" using ml by (simp only: u16_or)
  finally show ?thesis by simp
qed

lemma be24_split: "65536 * (n div 65536) + 256 * (n div 256 mod 256) + n mod 256 = n" for n :: nat
proof -
  have "n div 65536 = n div 256 div 256" by (simp add: div_mult2_eq [of n 256 256, simplified])
  then show ?thesis using mult_div_mod_eq [of 256 "n div 256"] mult_div_mod_eq [of 256 n] by linarith
qed

lemma walkClientHello_read:
  assumes "length random = 34" "length session < 256" "length suites < 65536" "length comps < 256"
    "length exts < 65536"
  shows "walkClientHello (clientHello (helloBody random session suites comps exts) @ r) = walkExtensions exts"
proof -
  let ?body = "helloBody random session suites comps exts"
  have len: "length ?body < 16777216" "34 < length ?body"
    using assms by (simp_all add: helloBody_def)
  define h m l where "h = length ?body div 65536" "m = length ?body div 256 mod 256" "l = length ?body mod 256"
  have hml: "h < 256" "m < 256" "l < 256" "65536 * h + 256 * m + l = length ?body"
    using len be24_split [of "length ?body"] unfolding h_m_l_def by simp_all
  have num: "push_bit 16 h OR push_bit 8 m OR l = length ?body"
    using be24_or [OF hml(2,3)] hml(4) by simp
  have b: "clientHello ?body = [chr 1, chr h, chr m, chr l] @ ?body"
    by (simp add: clientHello_def h_m_l_def)
  have drop34: "drop 34 ?body = [chr (length session)] @ session @ be16 (length suites) @ suites
       @ [chr (length comps)] @ comps @ be16 (length exts) @ exts @ []"
    using assms(1) by (simp add: helloBody_def)
  have s: "skip8 (drop 34 ?body) = Some (Some (be16 (length suites) @ suites
       @ [chr (length comps)] @ comps @ be16 (length exts) @ exts @ []))"
    unfolding drop34 by (rule skip8_read [OF assms(2)])
  show ?thesis
    unfolding walkClientHello_def b
    using len hml(1-3) num s assms(5)
    by (simp add: at_def sliceFrom_def slice_def skip16_read [OF assms(3)]
        skip8_read [OF assms(4), simplified] helloExtensions_read [of exts "[]", simplified])
qed

section \<open>Finding the hello\<close>

definition tlsRecord :: "nat \<Rightarrow> string \<Rightarrow> string" where
  "tlsRecord minor hello = [chr 0x16, chr 3, chr minor] @ be16 (length hello) @ hello"

lemma scanHello_step:
  "i + 10 \<le> length packet \<Longrightarrow> byte (packet ! i) \<noteq> 0x16 \<Longrightarrow> scanHello packet i = scanHello packet (i + 1)"
  by (subst scanHello.simps) (simp add: at_def)

lemma scanHello_skip:
  "k + 9 \<le> length packet \<Longrightarrow> \<forall>j < k. byte (packet ! j) \<noteq> 0x16 \<Longrightarrow> i \<le> k \<Longrightarrow>
     scanHello packet i = scanHello packet k"
proof (induction "k - i" arbitrary: i)
  case (Suc d)
  then have "scanHello packet (i + 1) = scanHello packet k" by simp
  moreover have "scanHello packet i = scanHello packet (i + 1)"
    using Suc by (intro scanHello_step) auto
  ultimately show ?case by simp
qed simp

lemma scanHello_hit:
  assumes "1 \<le> minor" "minor \<le> 4" "walkClientHello (hello @ post) = Some host" "host \<noteq> []"
    "hello = chr 1 # tail0" "5 \<le> length hello"
  shows "scanHello (pre @ tlsRecord minor hello @ post) (length pre) = Some host"
proof -
  let ?p = "pre @ tlsRecord minor hello @ post"
  have at5: "at ?p (length pre) = Some 0x16" "at ?p (length pre + 1) = Some 3"
      "at ?p (length pre + 2) = Some minor" "at ?p (length pre + 5) = Some 1"
    using assms(1,2,5) by (simp_all add: at_def nth_append tlsRecord_def be16_def)
  have "drop (length pre + 5) ?p = hello @ post" by (simp add: tlsRecord_def be16_def)
  moreover have "length pre + 10 \<le> length ?p" using assms(6) by (simp add: tlsRecord_def)
  ultimately show ?thesis
    using at5 assms(1-4) by (subst scanHello.simps) (simp add: sliceFrom_def del: at_Some_iff)
qed

lemma scanHello_from_start:
  assumes "chr 0x16 \<notin> set pre" "1 \<le> minor" "minor \<le> 4" "walkClientHello (hello @ post) = Some host" "host \<noteq> []"
    "hello = chr 1 # tail0" "5 \<le> length hello"
  shows "scanHello (pre @ tlsRecord minor hello @ post) 0 = Some host"
proof -
  let ?p = "pre @ tlsRecord minor hello @ post"
  have "\<forall>j < length pre. byte (?p ! j) \<noteq> 0x16"
  proof (intro allI impI)
    fix j assume "j < length pre"
    then have "?p ! j \<in> set pre" by (simp add: nth_append)
    then show "byte (?p ! j) \<noteq> 0x16" using assms(1) by (metis chr_byte)
  qed
  then have "scanHello ?p 0 = scanHello ?p (length pre)"
    using assms(7) by (intro scanHello_skip) (auto simp: tlsRecord_def)
  then show ?thesis using scanHello_hit [OF assms(2-7)] by simp
qed

section \<open>Words of a hex dump\<close>

text \<open>
  How \<open>tcpdump -X\<close> prints the bytes: sixteen to a line, in words of two, after the offset and before
  two spaces and the gloss, whose characters are graphic.
\<close>

definition hexByte :: "char \<Rightarrow> string" where
  "hexByte c = [hexChar (byte c div 16), hexChar (byte c mod 16)]"

fun hexWords :: "string \<Rightarrow> string" where
  "hexWords [] = []"
| "hexWords [a] = '' '' @ hexByte a"
| "hexWords (a # b # r) = '' '' @ hexByte a @ hexByte b @ hexWords r"

definition glossChar :: "char \<Rightarrow> char" where
  "glossChar c = (if 0x21 \<le> byte c \<and> byte c < 0x7f then c else CHR ''.'')"

definition dumpLine :: "string \<Rightarrow> string \<Rightarrow> nat \<Rightarrow> string" where
  "dumpLine offset bs pad =
     [tab] @ ''0x'' @ offset @ '': '' @ hexWords bs @ replicate (pad + 2) CHR '' '' @ map glossChar bs"

lemma hexChar_hex: "d < 16 \<Longrightarrow> hexA (hexChar d) \<and> nibble (hexChar d) = d \<and> hexChar d \<noteq> CHR '' ''"
proof -
  assume "d < 16"
  then have "byte (hexChar d) = (if d < 10 then 48 + d else 87 + d)" by (simp add: hexChar_def)
  then show ?thesis using \<open>d < 16\<close> byte_space
    by (auto simp: hexA_def nibble_def isDigitA_def simp del: byte_space split: if_splits)
qed

lemma hexByte_hex: "list_all hexA (hexByte c)" "length (hexByte c) = 2" "unhex (hexByte c @ r) = map_option ((#) c) (unhex r)"
  using hexChar_hex [of "byte c div 16"] hexChar_hex [of "byte c mod 16"] byte_less [of c]
  by (simp_all add: hexByte_def div_mult_mod_eq less_mult_imp_div_less)

lemma unhex_words: "unhex (filter (\<lambda>c. c \<noteq> CHR '' '') (hexWords bs) @ r) = map_option ((@) bs) (unhex r)"
proof -
  have keep: "filter (\<lambda>c. c \<noteq> CHR '' '') (hexByte a) = hexByte a" for a
    using hexChar_hex [of "byte a div 16"] hexChar_hex [of "byte a mod 16"]
    by (simp add: hexByte_def less_mult_imp_div_less)
  show ?thesis
    by (induction bs rule: hexWords.induct)
      (simp_all add: keep hexByte_hex(3) option.map_comp o_def option.map_ident)
qed

section \<open>The dump read back\<close>

definition hexWord :: rx where
  "hexWord = seqs [RChar hexA, RChar hexA, opt (RSeq (RChar hexA) (opt (RChar hexA))), spaces1]"

lemma hexWord_seq: "hexWord = RSeq (RChar hexA) (RSeq (RChar hexA)
    (RSeq (opt (RSeq (RChar hexA) (opt (RChar hexA)))) spaces1))"
  by (simp add: hexWord_def)

lemma best_hexWord_tail:
  assumes "hexA a" "hexA b" "best (ms (opt (RSeq (RChar hexA) (opt (RChar hexA)))) (Some b, t, cs)) = Some st"
    "best (ms spaces1 st) = Some st'"
  shows "best (ms hexWord (pv, a # b # t, cs)) = Some st'"
  unfolding hexWord_seq
  by (rule best_seq [OF best_char best_seq [OF best_char best_seq [OF assms(3,4)]]]) (use assms(1,2) in simp_all)

lemma space_facts [simp]: "spaceA CHR '' ''" "\<not> hexA CHR '' ''" "\<not> hexA CHR '':''" "\<not> spaceA tab \<Longrightarrow> False"
  by (simp_all add: spaceA_def hexA_def isDigitA_def byte_def)

lemma hexA_not_space: "hexA c \<Longrightarrow> \<not> spaceA c"
  by (auto simp: spaceA_def hexA_def isDigitA_def)

lemma best_spaces:
  "sp \<noteq> [] \<Longrightarrow> list_all spaceA sp \<Longrightarrow> r = [] \<or> \<not> spaceA (hd r) \<Longrightarrow>
     best (ms spaces1 (pv, sp @ r, cs)) = Some (after pv sp, r, cs)"
  unfolding spaces1_def by (rule best_plus_chars)

lemma best_hexWord4:
  assumes "list_all hexA [a, b, c, d]" "sp \<noteq> []" "list_all spaceA sp" "r = [] \<or> \<not> spaceA (hd r)"
  shows "best (ms hexWord (pv, [a, b, c, d] @ sp @ r, cs)) = Some (Some (last sp), r, cs)"
proof -
  have "best (ms (opt (RSeq (RChar hexA) (opt (RChar hexA)))) (Some b, c # d # sp @ r, cs)) = Some (Some d, sp @ r, cs)"
    by (rule best_opt, rule best_seq [OF best_char best_opt [OF best_char]]) (use assms in simp_all)
  moreover have "best (ms spaces1 (Some d, sp @ r, cs)) = Some (Some (last sp), r, cs)"
    using best_spaces [OF assms(2-4), of "Some d"] assms(2) by (simp add: after_def)
  ultimately show ?thesis using best_hexWord_tail [of a b "c # d # sp @ r"] assms(1) by simp
qed

lemma best_hexWord2:
  assumes "list_all hexA [a, b]" "sp \<noteq> []" "list_all spaceA sp" "r = [] \<or> \<not> spaceA (hd r)"
  shows "best (ms hexWord (pv, [a, b] @ sp @ r, cs)) = Some (Some (last sp), r, cs)"
proof -
  have "\<not> hexA (hd (sp @ r))" using assms(2,3) hexA_not_space by (cases sp) auto
  then have "ms (RSeq (RChar hexA) (opt (RChar hexA))) (Some b, sp @ r, cs) = []"
    using ms_char_fail [of "sp @ r" hexA] by simp
  then have "best (ms (opt (RSeq (RChar hexA) (opt (RChar hexA)))) (Some b, sp @ r, cs)) = Some (Some b, sp @ r, cs)"
    by (rule best_opt_skip)
  moreover have "best (ms spaces1 (Some b, sp @ r, cs)) = Some (Some (last sp), r, cs)"
    using best_spaces [OF assms(2-4), of "Some b"] assms(2) by (simp add: after_def)
  ultimately show ?thesis using best_hexWord_tail [of a b "sp @ r"] assms(1) by simp
qed

lemma lang_seq_spaces:
  assumes "\<forall>w \<in> lang b. \<exists>c \<in> set w. spaceA c"
  shows "\<forall>w \<in> lang (RSeq a b). \<exists>c \<in> set w. spaceA c"
  using assms by fastforce

lemma hexWord_has_space: "\<forall>w \<in> lang hexWord. \<exists>c \<in> set w. spaceA c"
proof -
  have "\<forall>w \<in> lang spaces1. \<exists>c \<in> set w. spaceA c" by (auto simp: spaces1_def plus1_def)
  then show ?thesis unfolding hexWord_seq by (intro lang_seq_spaces)
qed

lemma hexWord_stops: "list_all (\<lambda>c. \<not> spaceA c) g \<Longrightarrow> ms hexWord (pv, g, cs) = []"
proof (rule ms_fail, intro allI impI notI)
  fix w v assume g: "list_all (\<lambda>c. \<not> spaceA c) g" and w: "remaining (pv, g, cs) = w @ v" "w \<in> lang hexWord"
  obtain c where "c \<in> set w" "spaceA c" using w(2) hexWord_has_space by blast
  then show False using g w(1) by (auto simp: remaining_def list_all_iff)
qed

text \<open>All the words of a line, its last one followed by the padding.\<close>

lemma best_hexWords:
  assumes "bs \<noteq> []" "list_all (\<lambda>c. \<not> spaceA c) g" "length bs \<le> k"
  shows "best (iterate (ms hexWord) True k (pv, tl (hexWords bs) @ replicate (Suc p) CHR '' '' @ g, cs)) =
    Some (Some CHR '' '', g, cs)"
  using assms(1,3)
proof (induction bs arbitrary: k pv rule: hexWords.induct)
  case (2 a)
  then obtain k' where k: "k = Suc k'" by (cases k) auto
  obtain u v where uv: "hexByte a = [u, v]" "list_all hexA [u, v]"
    using hexByte_hex(1) [of a] by (auto simp: hexByte_def)
  have g: "g = [] \<or> \<not> spaceA (hd g)" using assms(2) by (cases g) auto
  have "best (ms hexWord (pv, [u, v] @ replicate (Suc p) CHR '' '' @ g, cs)) =
      Some (Some (last (replicate (Suc p) CHR '' '')), g, cs)"
    by (rule best_hexWord2 [OF uv(2) _ _ g]) (simp_all add: list_all_iff)
  then show ?case unfolding k
    by (intro best_iterate [where ?st1.0 = "(Some CHR '' '', g, cs)"] iterate_stop hexWord_stops [OF assms(2)])
      (simp_all add: uv(1) remaining_def)
next
  case (3 a b r)
  then obtain k' where k: "k = Suc k'" "length r \<le> k'" by (cases k) auto
  obtain u v where uv: "hexByte a = [u, v]" "list_all hexA [u, v]"
    using hexByte_hex(1) [of a] by (auto simp: hexByte_def)
  obtain x y where xy: "hexByte b = [x, y]" "list_all hexA [x, y]"
    using hexByte_hex(1) [of b] by (auto simp: hexByte_def)
  have four: "list_all hexA [u, v, x, y]" using uv xy by simp
  have g: "g = [] \<or> \<not> spaceA (hd g)" using assms(2) by (cases g) auto
  show ?case
  proof (cases "r = []")
    case True
    have "best (ms hexWord (pv, [u, v, x, y] @ replicate (Suc p) CHR '' '' @ g, cs)) =
        Some (Some (last (replicate (Suc p) CHR '' '')), g, cs)"
      by (rule best_hexWord4 [OF four _ _ g]) (simp_all add: list_all_iff)
    then show ?thesis unfolding k(1) using True
      by (intro best_iterate [where ?st1.0 = "(Some CHR '' '', g, cs)"] iterate_stop hexWord_stops [OF assms(2)])
        (simp_all add: uv(1) xy(1) remaining_def)
  next
    case False
    define t where "t = tl (hexWords r) @ replicate (Suc p) CHR '' '' @ g"
    have w: "hexWords r = CHR '' '' # tl (hexWords r)" and t: "t = [] \<or> \<not> spaceA (hd t)"
    proof -
      obtain c r' where r: "r = c # r'" using False by (cases r) auto
      have "hexA (hd (hexByte c))" "hexByte c \<noteq> []" using hexByte_hex(1) [of c] by (auto simp: hexByte_def)
      then show "hexWords r = CHR '' '' # tl (hexWords r)" "t = [] \<or> \<not> spaceA (hd t)"
        using hexA_not_space unfolding r t_def by (cases r'; auto simp: neq_Nil_conv)+
    qed
    have "best (ms hexWord (pv, [u, v, x, y] @ '' '' @ t, cs)) = Some (Some (last '' ''), t, cs)"
      by (rule best_hexWord4 [OF four _ _ t]) simp_all
    moreover have "best (iterate (ms hexWord) True k' (Some CHR '' '', t, cs)) = Some (Some CHR '' '', g, cs)"
      unfolding t_def using 3 False k(2) by simp
    moreover have "tl (hexWords (a # b # r)) @ replicate (Suc p) CHR '' '' @ g = [u, v, x, y] @ '' '' @ t"
      using w by (simp add: uv(1) xy(1) t_def)
    ultimately show ?thesis unfolding k(1)
      by (intro best_iterate [where ?st1.0 = "(Some CHR '' '', t, cs)"])
        (simp_all add: remaining_def)
  qed
qed simp

lemma hexA_offset_stop: "hexA c \<Longrightarrow> c \<noteq> CHR '':''"
  by auto

lemma hexWords_lead: "bs \<noteq> [] \<Longrightarrow> hexWords bs = CHR '' '' # tl (hexWords bs)"
  by (cases bs rule: hexWords.cases) simp_all

lemma hexWords_hd: "bs \<noteq> [] \<Longrightarrow> tl (hexWords bs) \<noteq> [] \<and> hexA (hd (tl (hexWords bs)))"
  using hexByte_hex(1) by (cases bs rule: hexWords.cases) (auto simp: hexByte_def)

lemma glossChar_graphic: "\<not> spaceA (glossChar c)"
  by (auto simp: glossChar_def spaceA_def byte_def)

lemma reHexLine_line:
  assumes "offset \<noteq> []" "list_all hexA offset" "bs \<noteq> []"
  shows "FindSubmatch reHexLine (dumpLine offset bs pad) =
    Some (\<lambda>n. if n = 1 then tl (hexWords bs) @ replicate (pad + 2) CHR '' '' else [])"
proof -
  let ?g = "map glossChar bs"
  let ?w = "tl (hexWords bs) @ replicate (pad + 2) CHR '' ''"
  have g: "list_all (\<lambda>c. \<not> spaceA c) ?g" by (simp add: list_all_iff glossChar_graphic)
  have nil: "[] \<notin> lang hexWord" using hexWord_has_space by force
  have hd: "?w @ ?g = [] \<or> \<not> spaceA (hd (?w @ ?g))"
    using hexWords_hd [OF assms(3)] hexA_not_space by (cases "tl (hexWords bs)") auto
  have body: "best (ms (RGroup 1 (plus1 hexWord)) (Some CHR '' '', ?w @ ?g, [])) =
      Some (Some CHR '' '', ?g, [(1, ?w)])"
  proof (intro best_group best_plus1 nil)
    have "length bs \<le> length (hexWords bs)"
      by (induction bs rule: hexWords.induct) (simp_all add: hexByte_hex(2))
    then have "length bs \<le> length (remaining (Some CHR '' '', ?w @ ?g, []))"
      using assms(3) by (simp add: remaining_def)
    from best_hexWords [OF assms(3) g this, of "Some CHR '' ''" "Suc pad" "[]"]
    show "best (ms (RStar True hexWord) (Some CHR '' '', ?w @ ?g, [])) = Some (Some CHR '' '', ?g, [])"
      by (simp only: ms.simps append_assoc add_2_eq_Suc')
  qed simp
  have sp: "best (ms spaces1 (Some CHR '':'', ''  '' @ ?w @ ?g, [])) = Some (Some CHR '' '', ?w @ ?g, [])"
    using best_spaces [of "''  ''" "?w @ ?g" "Some CHR '':''" "[]"] hd by (simp add: after_def)
  have off: "best (ms (plus1 (RChar hexA)) (Some CHR ''x'', offset @ '':'' @ ''  '' @ ?w @ ?g, [])) =
      Some (Some (last offset), '':'' @ ''  '' @ ?w @ ?g, [])"
    using best_plus_chars [of offset hexA "'':'' @ ''  '' @ ?w @ ?g" "Some CHR ''x''" "[]"] assms(1,2)
    by (simp add: after_def)
  have "best (ms reHexLine (Some tab, ''0x'' @ offset @ '':'' @ ''  '' @ ?w @ ?g, [])) =
      Some (Some CHR '' '', ?g, [(1, ?w)])"
    unfolding reHexLine_def seqs.simps hexWord_def [symmetric, unfolded seqs.simps]
    using best_lit [of "''0x''" "Some tab"] best_lit [of "'':''" "Some (last offset)"] off sp body
    by (intro best_seq [where ?st1.0 = "(Some CHR ''x'', offset @ '':'' @ ''  '' @ ?w @ ?g, [])"]
      best_seq [where ?st1.0 = "(Some (last offset), '':'' @ ''  '' @ ?w @ ?g, [])"]
      best_seq [where ?st1.0 = "(Some CHR '':'', ''  '' @ ?w @ ?g, [])"]
      best_seq [where ?st1.0 = "(Some CHR '' '', ?w @ ?g, [])"]) (auto simp: after_def)
  then have "findFrom reHexLine (Some tab) (''0x'' @ offset @ '':'' @ ''  '' @ ?w @ ?g) = Some (Some CHR '' '', ?g, [(1, ?w)])"
    by (rule findFrom_here)
  moreover have "ms reHexLine (None, tab # s, []) = []" for s
    by (simp add: reHexLine_def)
  moreover have "dumpLine offset bs pad = tab # ''0x'' @ offset @ '':'' @ ''  '' @ ?w @ ?g"
    using hexWords_lead [OF assms(3)] by (simp add: dumpLine_def)
  ultimately show ?thesis
    by (auto simp: FindSubmatch_def grp_def fun_eq_iff simp del: ms.simps)
qed

lemma hexRegion_line:
  assumes "offset \<noteq> []" "list_all hexA offset" "bs \<noteq> []"
  shows "hexRegion (dumpLine offset bs pad) = filter (\<lambda>c. c \<noteq> CHR '' '') (hexWords bs)"
proof -
  have "filter (\<lambda>c. c \<noteq> CHR '' '') (tl (hexWords bs)) = filter (\<lambda>c. c \<noteq> CHR '' '') (hexWords bs)"
    by (subst (2) hexWords_lead [OF assms(3)]) simp
  then show ?thesis by (simp add: hexRegion_def reHexLine_line [OF assms])
qed

text \<open>A whole dump.\<close>

definition dumpOf :: "(string \<times> string \<times> nat) list \<Rightarrow> string list" where
  "dumpOf ls = map (\<lambda>(offset, bs, pad). dumpLine offset bs pad) ls"

definition dumpFits :: "(string \<times> string \<times> nat) list \<Rightarrow> bool" where
  "dumpFits ls \<longleftrightarrow> list_all (\<lambda>(offset, bs, pad). offset \<noteq> [] \<and> list_all hexA offset \<and> bs \<noteq> []) ls"

definition dumpBytes :: "(string \<times> string \<times> nat) list \<Rightarrow> string" where
  "dumpBytes ls = concat (map (\<lambda>(offset, bs, pad). bs) ls)"

lemma ExtractHexPayload_dump: "dumpFits ls \<Longrightarrow> ExtractHexPayload (dumpOf ls) = dumpBytes ls"
proof -
  assume "dumpFits ls"
  then have "unhex (concat (map hexRegion (dumpOf ls))) = Some (dumpBytes ls)"
  proof (induction ls)
    case (Cons l ls)
    then show ?case
      by (cases l) (simp add: dumpFits_def dumpOf_def dumpBytes_def hexRegion_line unhex_words)
  qed (simp add: dumpOf_def dumpBytes_def)
  then show ?thesis by (simp add: ExtractHexPayload_def)
qed

section \<open>Properties\<close>

text \<open>hex dump round trip. The bytes read from the lines that tcpdump prints for a packet are the
  packet's bytes, whatever its text gloss shows and however the lines are padded.\<close>

lemma hex_dump_roundtrip:
  assumes "dumpFits ls"
  shows "ExtractHexPayload (dumpOf ls) = dumpBytes ls"
  by (rule ExtractHexPayload_dump [OF assms])

definition sampleDump :: "string \<Rightarrow> (string \<times> string \<times> nat) list" where
  "sampleDump b = [(''0000'', take 16 b, 0), (''0010'', drop 16 b, 5)]"

lemma sampleDump_fits: "17 \<le> length b \<Longrightarrow> dumpFits (sampleDump b) \<and> dumpBytes (sampleDump b) = b"
  by (auto simp: dumpFits_def sampleDump_def dumpBytes_def hexA_def isDigitA_def byte_def)

theorem hex_dump_roundtrip_witness:
  "ExtractHexPayload (dumpOf (sampleDump ''cafe babe dead beef!'')) = ''cafe babe dead beef!''"
  using hex_dump_roundtrip [of "sampleDump ''cafe babe dead beef!''"]
    sampleDump_fits [of "''cafe babe dead beef!''"] by simp

text \<open>the server name of a TLS client hello. From the dump of a packet whose headers hold no byte
  0x16 and whose payload is a client hello with a server name among its extensions, the decoder reads
  exactly that name, whatever the other fields and extensions hold.\<close>

lemma sni_is_read:
  assumes "dumpFits ls" "dumpBytes ls = pre @ tlsRecord minor hello @ post"
    and "hello = clientHello (helloBody random session suites comps
           (concat (map tlsExt before) @ sniExt name @ concat (map tlsExt behind)))"
    and "chr 0x16 \<notin> set pre" "1 \<le> minor" "minor \<le> 4"
    and "length random = 34" "length session < 256" "length suites < 65536" "length comps < 256"
    and "length (concat (map tlsExt before) @ sniExt name @ concat (map tlsExt behind)) < 65536"
    and "\<forall>e \<in> set before. 0 < fst e \<and> fst e < 65536 \<and> length (snd e) < 65536"
    and "name \<noteq> []" "50 \<le> length (dumpBytes ls)"
  shows "decodeTLS (dumpOf ls) = Some (Some
    \<lparr>dType = ''tls'', dSummary = ''TLS ClientHello SNI: '' @ name, dFields = [''sni'' \<mapsto> name]\<rparr>)"
proof -
  have "length name < 65531" using assms(11) by (simp add: sniExt_def tlsExt_def)
  then have "walkClientHello (hello @ post) = Some name"
    using walkClientHello_read [OF assms(7-11)] walkExtensions_find [OF assms(12)] assms(3) by simp
  moreover have "hello = chr 1 # tl hello" "5 \<le> length hello"
    using assms(3,7) by (simp_all add: clientHello_def helloBody_def)
  ultimately have "scanHello (dumpBytes ls) 0 = Some name"
    unfolding assms(2) using scanHello_from_start [OF assms(4-6) _ assms(13)] by blast
  moreover have "dumpBytes ls \<noteq> []" "\<not> length (dumpBytes ls) < 50" using assms(14) by auto
  ultimately show ?thesis
    unfolding decodeTLS_def DecodeTLSClientHello_def ExtractHexPayload_dump [OF assms(1)]
    using assms(13) by simp
qed

definition sampleHello :: string where
  "sampleHello = clientHello (helloBody (replicate 34 CHR ''r'') [] [chr 19, chr 1] [chr 0]
     (concat (map tlsExt [(10, ''ab'')]) @ sniExt ''db.example'' @ concat (map tlsExt [])))"

theorem sni_is_read_witness:
  "decodeTLS (dumpOf (sampleDump (''headers without it'' @ tlsRecord 1 sampleHello @ []))) = Some (Some
    \<lparr>dType = ''tls'', dSummary = ''TLS ClientHello SNI: db.example'', dFields = [''sni'' \<mapsto> ''db.example'']\<rparr>)"
proof -
  let ?b = "''headers without it'' @ tlsRecord 1 sampleHello @ []"
  have fits: "dumpFits (sampleDump ?b)" "dumpBytes (sampleDump ?b) = ?b"
    using sampleDump_fits [of ?b] by simp_all
  have "50 \<le> length (dumpBytes (sampleDump ?b))"
    unfolding fits(2) by (simp add: tlsRecord_def sampleHello_def clientHello_def helloBody_def)
  moreover have "chr 0x16 \<notin> set ''headers without it''" by code_simp
  ultimately have "decodeTLS (dumpOf (sampleDump ?b)) = Some (Some
      \<lparr>dType = ''tls'', dSummary = ''TLS ClientHello SNI: '' @ ''db.example'', dFields = [''sni'' \<mapsto> ''db.example'']\<rparr>)"
    by (intro sni_is_read [OF fits sampleHello_def]) (simp_all add: sniExt_def tlsExt_def)
  then show ?thesis by (simp only: append.simps)
qed

text \<open>SNMP messages. From the dump of a UDP packet that carries a version 1 or 2c message, the
  decoder reads the version and exactly the community string, and reports no kind of message for any
  of them, since it looks for that tag where the community starts.\<close>

lemma snmp_is_read:
  assumes "dumpFits ls" "dumpBytes ls = e @ h @ u @ snmpMessage version community pdu"
    and "etherHeader e" "ipHeader h" "length u = 8"
    and "version \<le> 1" "5 + length community + length pdu < 0x80" "3 \<le> length community + length pdu"
  shows "decodeSNMP (dumpOf ls) = Some (Some (snmpResult version (Some community) None))"
proof -
  let ?m = "snmpMessage version community pdu"
  have "findUDPPayloadOffset (dumpBytes ls) = Some (Some (length (e @ h @ u)))"
    unfolding assms(2) by (rule findUDPPayloadOffset_packet [OF assms(3-5)])
  moreover have "drop (length (e @ h @ u)) (dumpBytes ls) = ?m" unfolding assms(2) by simp
  moreover have "length (dumpBytes ls) = length (e @ h @ u) + length ?m" unfolding assms(2) by simp
  moreover have "10 \<le> length ?m" using assms(8) by (simp add: snmpMessage_def)
  ultimately show ?thesis
    using snmpBody_message [OF assms(6,7)] ExtractHexPayload_dump [OF assms(1)]
    by (simp add: decodeSNMP_def sliceFrom_def)
qed

definition sampleIp :: string where
  "sampleIp = chr 0x45 # replicate 19 (chr 0)"

theorem snmp_is_read_witness:
  "decodeSNMP (dumpOf (sampleDump ([] @ sampleIp @ ''UDPUDPUD'' @ snmpMessage 1 ''public'' [chr 0xa0, chr 0]))) =
     Some (Some (snmpResult 1 (Some ''public'') None))
   \<and> dFields (snmpResult 1 (Some ''public'') None) ''pdu'' = None"
proof -
  let ?b = "[] @ sampleIp @ ''UDPUDPUD'' @ snmpMessage 1 ''public'' [chr 0xa0, chr 0]"
  have fits: "dumpFits (sampleDump ?b)" "dumpBytes (sampleDump ?b) = ?b"
    using sampleDump_fits [of ?b] by (simp_all add: sampleIp_def)
  have ip: "etherHeader []" "ipHeader sampleIp"
    by (auto simp: etherHeader_def ipHeader_def sampleIp_def intro!: bexI [of _ 5])
  have "decodeSNMP (dumpOf (sampleDump ?b)) = Some (Some (snmpResult 1 (Some ''public'') None))"
    by (rule snmp_is_read [OF fits ip]) simp_all
  then show ?thesis by (intro conjI) (assumption, simp add: snmpResult_def Let_def)
qed

definition cutSnmp :: string where
  "cutSnmp = sampleIp @ ''UDPUDPUD'' @ [chr 0x30, chr 0x87] @ replicate 7 (chr 0) @ [chr 2]"

lemma cutSnmp_panics: "decodeSNMP (dumpOf (sampleDump cutSnmp)) = None"
proof -
  have ip: "etherHeader []" "ipHeader sampleIp"
    by (auto simp: etherHeader_def ipHeader_def sampleIp_def intro!: bexI [of _ 5])
  let ?m = "[chr 0x30, chr 0x87] @ replicate 7 (chr 0) @ [chr 2]"
  have b: "ExtractHexPayload (dumpOf (sampleDump cutSnmp)) = [] @ sampleIp @ ''UDPUDPUD'' @ ?m"
    using ExtractHexPayload_dump [of "sampleDump cutSnmp"] sampleDump_fits [of cutSnmp]
    by (simp add: cutSnmp_def sampleIp_def)
  have "skipBERHeader ?m = Some (Some 9)" by (simp add: skipBERHeader_def at_def)
  then have "snmpCut ?m" by (simp add: snmpCut_def nth_append)
  then show ?thesis
    unfolding decodeSNMP_None_iff b
    using findUDPPayloadOffset_packet [OF ip, of "''UDPUDPUD''" ?m] by (simp add: sampleIp_def)
qed

text \<open>the packets that stop the program. The SNMP decoder panics exactly on the packets that end right
  behind the version's tag, hold an empty version at their very end, or end with the tag of the
  community; such packets exist.\<close>

lemma snmp_panics_exactly_on_cut:
  "(decodeSNMP payload = None \<longleftrightarrow>
     (\<exists>off. findUDPPayloadOffset (ExtractHexPayload payload) = Some (Some off) \<and>
        off + 10 \<le> length (ExtractHexPayload payload) \<and> snmpCut (drop off (ExtractHexPayload payload))))
   \<and> decodeSNMP (dumpOf (sampleDump cutSnmp)) = None"
  using decodeSNMP_None_iff cutSnmp_panics by blast

end
