(* ===== verification/PacketText.thy ===== *)
theory PacketText
  imports PacketBytes Utf8
begin

text \<open>
  The text decoders of \<open>internal/ssh/tcpdump_decode.go\<close> (DHCP, DNS, ARP, ICMP, HTTP, SSH banner, CWMP),
  each of its regular expressions as a value of \<open>GoRegexp\<close>, and the dispatch by protocol, port and the
  user's overrides. The decoders that read the hex dump can only fail where its offsets do.
\<close>

section \<open>Packets and fields\<close>

text \<open>The part of \<open>ParsedPacket\<close> the decoders read.\<close>

record parsedPacket =
  pkRaw :: string
  pkProto :: string
  pkSrcIP :: string
  pkSrcPort :: int
  pkDstIP :: string
  pkDstPort :: int
  pkInfo :: string

type_synonym fieldMap = "string \<Rightarrow> string option"

text \<open>\<open>if m := re.FindStringSubmatch(s); m != nil { d.Fields[k] = f(m[1]) }\<close>.\<close>

definition putMatch :: "rx \<Rightarrow> string \<Rightarrow> string \<Rightarrow> (string \<Rightarrow> string) \<Rightarrow> fieldMap \<Rightarrow> fieldMap" where
  "putMatch re s k f fs = (case FindSubmatch re s of None \<Rightarrow> fs | Some m \<Rightarrow> fs(k \<mapsto> f (m 1)))"

definition putIfEmpty :: "rx \<Rightarrow> string \<Rightarrow> string \<Rightarrow> fieldMap \<Rightarrow> fieldMap" where
  "putIfEmpty re s k fs = (if fld fs k = [] then putMatch re s k (\<lambda>x. x) fs else fs)"

definition noneOf :: "string \<Rightarrow> rx" where
  "noneOf cs = RChar (\<lambda>c. c \<notin> set cs)"

definition ipText :: "char \<Rightarrow> bool" where
  "ipText c \<longleftrightarrow> isDigitA c \<or> c = CHR ''.''"

definition macText :: "char \<Rightarrow> bool" where
  "macText c \<longleftrightarrow> isDigitA c \<or> 97 \<le> byte c \<and> byte c \<le> 102 \<or> c = CHR '':''"

definition letterA :: "char \<Rightarrow> bool" where
  "letterA c \<longleftrightarrow> isUpperA c \<or> isLowerA c"

definition firstNonEmpty :: "string \<Rightarrow> string \<Rightarrow> string" where
  "firstNonEmpty a b = (if a \<noteq> [] then a else b)"

definition arrow :: string where
  "arrow = '' '' @ [chr 0xE2, chr 0x86, chr 0x92] @ '' ''"

section \<open>DHCP\<close>

definition isDHCPPort :: "int \<Rightarrow> bool" where
  "isDHCPPort p \<longleftrightarrow> p = 67 \<or> p = 68"

definition afterColon :: "string \<Rightarrow> rx \<Rightarrow> rx" where
  "afterColon word r = seqs [lit word, star (noneOf '':''), lit '':'', spaces0, RGroup 1 r]"

definition afterSpace :: "string \<Rightarrow> rx \<Rightarrow> rx" where
  "afterSpace word r = seqs [lit word, spaces1, RGroup 1 r]"

definition reDHCPMsgType :: rx where
  "reDHCPMsgType = seqs [lit ''DHCP-Message'', spaces0, opt (seqs [lit ''Option'', spaces0, lit ''53'']),
     star (noneOf '':''), lit '':'', spaces0, RGroup 1 (plus1 (RChar wordA))]"

definition reDHCPRequested :: rx where
  "reDHCPRequested = afterColon ''Requested-IP'' (plus1 (RChar ipText))"

definition reDHCPServerID :: rx where
  "reDHCPServerID = afterColon ''Server-ID'' (plus1 (RChar ipText))"

definition reDHCPClientID :: rx where
  "reDHCPClientID = seqs [lit ''Client-Ethernet-Address'', spaces0, RGroup 1 (plus1 (RChar macText))]"

definition reDHCPYIAddr :: rx where
  "reDHCPYIAddr = afterSpace ''Your-IP'' (plus1 (RChar ipText))"

definition reDHCPGateway :: rx where
  "reDHCPGateway = afterColon ''Default-Gateway'' (plus1 (RChar ipText))"

definition reDHCPSubnet :: rx where
  "reDHCPSubnet = afterColon ''Subnet-Mask'' (plus1 (RChar ipText))"

definition reDHCPDomain :: rx where
  "reDHCPDomain = seqs [lit ''Domain-Name'', star (noneOf '':''), lit '':'', spaces0, opt (lit [dquote]),
     RGroup 1 (plusLazy (noneOf [dquote, nl])), opt (lit [dquote]), spaces0, RTextEnd]"

definition reDHCPLeaseTime :: rx where
  "reDHCPLeaseTime = afterColon ''Lease-Time'' digits1"

definition reBOOTPClientIP :: rx where
  "reBOOTPClientIP = afterSpace ''Client-IP'' (plus1 (RChar ipText))"

definition reBOOTPServerIP :: rx where
  "reBOOTPServerIP = afterSpace ''Server-IP'' (plus1 (RChar ipText))"

definition reBOOTPGwIP :: rx where
  "reBOOTPGwIP = afterSpace ''Gateway-IP'' (plus1 (RChar ipText))"

definition reDHCPHeader :: rx where
  "reDHCPHeader = seqs [lit ''BOOTP/DHCP,'', spaces0,
     RGroup 1 (RSeq (plus1 (RChar letterA))
       (opt (seqs [spaces0, lit ''('', star (noneOf '')''), lit '')''])))]"

definition reHeaderXid :: rx where
  "reHeaderXid = seqs [lit ''xid'', spaces1, lit ''0x'', RGroup 1 (plus1 (RChar hexA))]"

definition bogusNumber :: rx where
  "bogusNumber = RAlt
     (RSeq (RChar (\<lambda>c. c = CHR ''0'' \<or> 50 \<le> byte c \<and> byte c \<le> 57)) (RChar isDigitA))
     (seqs [lit ''1'', RChar isDigitA, RChar isDigitA])"

definition reDHCPBogus :: rx where
  "reDHCPBogus = alts [seqs [lit ''BOOTP/DHCP,'', spaces0, lit ''unknown'', RWordB],
     seqs [lit ''htype'', spaces1, bogusNumber], seqs [lit ''hlen'', spaces1, bogusNumber]]"

definition macSuffix :: "fieldMap \<Rightarrow> string" where
  "macSuffix fs = (if fld fs ''client_mac'' \<noteq> [] then '' from '' @ fld fs ''client_mac'' else [])"

text \<open>The header line: direction, operation inferred from the ports, transaction.\<close>

definition dhcpHeaderFields :: "parsedPacket \<Rightarrow> fieldMap" where
  "dhcpHeaderFields p =
     (let f1 = putMatch reDHCPHeader (pkRaw p) ''direction'' TrimSpace Map.empty;
          dir = fld f1 ''direction'';
          f2 = (if HasPrefix dir ''unknown'' \<or> dir = [] then
                  (if pkDstPort p = 67 then
                     (let g = f1(''bootp_op'' \<mapsto> ''Request'')
                      in if dir = [] then g(''direction'' \<mapsto> ''Request'') else g)
                   else if pkSrcPort p = 67 then
                     (let g = f1(''bootp_op'' \<mapsto> ''Reply'')
                      in if dir = [] then g(''direction'' \<mapsto> ''Reply'') else g)
                   else f1)
                else f1)
      in putMatch reHeaderXid (pkRaw p) ''xid'' (\<lambda>x. ''0x'' @ x) f2)"

definition dhcpBodyFields :: "string \<Rightarrow> fieldMap \<Rightarrow> fieldMap" where
  "dhcpBodyFields body f0 =
     (let f1 = putMatch reDHCPMsgType body ''msg_type'' (\<lambda>x. x) f0;
          f2 = putMatch reDHCPRequested body ''requested_ip'' (\<lambda>x. x) f1;
          f3 = putMatch reDHCPServerID body ''server_id'' (\<lambda>x. x) f2;
          f4 = putMatch reDHCPClientID body ''client_mac'' (\<lambda>x. x) f3;
          f5 = putMatch reDHCPYIAddr body ''assigned_ip'' (\<lambda>x. x) f4;
          f6 = putMatch reDHCPGateway body ''gateway'' (\<lambda>x. x) f5;
          f7 = putMatch reDHCPSubnet body ''subnet_mask'' (\<lambda>x. x) f6;
          f8 = putMatch reDHCPDomain body ''domain'' TrimSpace f7;
          f9 = putMatch reDHCPLeaseTime body ''lease_time'' (\<lambda>x. x @ ''s'') f8;
          f10 = putMatch reBOOTPClientIP body ''client_ip'' (\<lambda>x. x) f9;
          f11 = putIfEmpty reBOOTPServerIP body ''server_id'' f10;
          f12 = putIfEmpty reBOOTPGwIP body ''gateway'' f11
      in putIfEmpty reDHCPYIAddr body ''assigned_ip'' f12)"

definition bootpSummary :: "fieldMap \<Rightarrow> string" where
  "bootpSummary fs =
     (let op = (if fld fs ''bootp_op'' = [] then fld fs ''direction'' else fld fs ''bootp_op'');
          yip = fld fs ''assigned_ip'';
          cip = fld fs ''client_ip''
      in if op = ''Request'' \<or> op = ''BOOTREQUEST'' then
           (if cip \<noteq> [] then ''BOOTREQUEST from '' @ cip else ''BOOTREQUEST'')
         else if op = ''Reply'' \<or> op = ''BOOTREPLY'' then
           (if yip \<noteq> [] then ''BOOTREPLY'' @ arrow @ yip else ''BOOTREPLY'')
         else (if yip \<noteq> [] then ''BOOTP ?'' @ arrow @ yip else ''BOOTP ?''))"

definition dhcpSummary :: "unicodeTables \<Rightarrow> fieldMap \<Rightarrow> string" where
  "dhcpSummary ut fs =
     (let msg = ToLower ut (fld fs ''msg_type'');
          given = firstNonEmpty (fld fs ''assigned_ip'') (fld fs ''requested_ip'');
          wanted = firstNonEmpty (fld fs ''requested_ip'') (fld fs ''assigned_ip'')
      in if msg = ''discover'' then ''DHCPDISCOVER'' @ macSuffix fs
         else if msg = ''offer'' then ''DHCPOFFER'' @ arrow @ given
         else if msg = ''request'' then ''DHCPREQUEST '' @ wanted @ macSuffix fs
         else if msg = ''ack'' then ''DHCPACK'' @ arrow @ given
         else if msg = ''nak'' then ''DHCPNAK''
         else if msg = ''release'' then ''DHCPRELEASE''
         else if msg = ''decline'' then ''DHCPDECLINE''
         else if msg = ''inform'' then ''DHCPINFORM''
         else bootpSummary fs)"

definition decodeDHCP :: "unicodeTables \<Rightarrow> parsedPacket \<Rightarrow> string list \<Rightarrow> packetDecode option" where
  "decodeDHCP ut p payload =
     (if MatchString reDHCPBogus (pkRaw p) then None
      else (let fs = dhcpBodyFields (Join payload [nl]) (dhcpHeaderFields p)
            in Some \<lparr>dType = ''dhcp'', dSummary = dhcpSummary ut fs, dFields = fs\<rparr>))"

section \<open>DNS\<close>

definition reDNSQuery :: rx where
  "reDNSQuery = seqs [RGroup 1 digits1, opt (lit ''+''), spaces1, RGroup 2 (plus1 (RChar isUpperA)), lit ''?'',
     spaces1, RGroup 3 (plusLazy (RChar (\<lambda>c. \<not> spaceA c))), opt (lit ''.''), spaces1, lit ''('', digits1, lit '')'']"

definition reDNSReply :: rx where
  "reDNSReply = seqs [RGroup 1 digits1, opt (lit ''*''), spaces1, RGroup 2 digits1, lit ''/'', RGroup 3 digits1,
     lit ''/'', RGroup 4 digits1, spaces1]"

definition reDNSAns :: rx where
  "reDNSAns = seqs [RWordB, RGroup 1 (alts (map lit [''A'', ''AAAA'', ''CNAME'', ''MX'', ''NS'', ''PTR'', ''TXT'',
     ''SOA'', ''SRV''])), spaces1, RGroup 2 nonSpaces1]"

definition decodeDNS :: "parsedPacket \<Rightarrow> string list \<Rightarrow> packetDecode option" where
  "decodeDNS p payload =
     (let body = (if payload \<noteq> [] then pkRaw p @ '' '' @ Join payload '' '' else pkRaw p)
      in case FindSubmatch reDNSQuery body of
           Some m \<Rightarrow> Some \<lparr>dType = ''dns'', dSummary = ''DNS query '' @ m 2 @ '' '' @ m 3,
             dFields = [''txid'' \<mapsto> m 1, ''qtype'' \<mapsto> m 2, ''qname'' \<mapsto> m 3]\<rparr>
         | None \<Rightarrow>
             (case FindSubmatch reDNSReply body of
                None \<Rightarrow> None
              | Some m \<Rightarrow>
                  (let fs = [''txid'' \<mapsto> m 1, ''answers'' \<mapsto> m 2, ''authorities'' \<mapsto> m 3, ''additionals'' \<mapsto> m 4]
                   in case FindSubmatch reDNSAns body of
                        Some a \<Rightarrow> Some \<lparr>dType = ''dns'', dSummary = ''DNS reply '' @ a 1 @ '' '' @ a 2,
                          dFields = fs(''rrtype'' \<mapsto> a 1, ''rdata'' \<mapsto> a 2)\<rparr>
                      | None \<Rightarrow> Some \<lparr>dType = ''dns'', dSummary = ''DNS reply ('' @ m 2 @ '' answers)'',
                          dFields = fs\<rparr>)))"

section \<open>ARP\<close>

definition reARPWhoHas :: rx where
  "reARPWhoHas = seqs [lit ''who-has'', spaces1, RGroup 1 (plus1 (RChar ipText)), spaces1, lit ''tell'', spaces1,
     RGroup 2 (plus1 (RChar ipText))]"

definition reARPIsAt :: rx where
  "reARPIsAt = seqs [RGroup 1 (plus1 (RChar ipText)), spaces1, lit ''is-at'', spaces1,
     RGroup 2 (plus1 (RChar macText))]"

definition decodeARPInfo :: "unicodeTables \<Rightarrow> string \<Rightarrow> packetDecode option" where
  "decodeARPInfo ut info =
     (case FindSubmatch reARPWhoHas info of
        Some m \<Rightarrow> Some \<lparr>dType = ''arp'', dSummary = ''Who has '' @ m 1 @ ''? Tell '' @ m 2,
          dFields = [''op'' \<mapsto> ''request'', ''target'' \<mapsto> m 1, ''sender'' \<mapsto> m 2]\<rparr>
      | None \<Rightarrow>
          (case FindSubmatch reARPIsAt info of
             Some m \<Rightarrow> Some \<lparr>dType = ''arp'', dSummary = m 1 @ '' is at '' @ m 2,
               dFields = [''op'' \<mapsto> ''reply'', ''target'' \<mapsto> m 1, ''target_mac'' \<mapsto> m 2]\<rparr>
           | None \<Rightarrow>
               if Contains (ToLower ut info) ''request'' then
                 Some \<lparr>dType = ''arp'', dSummary = ''ARP request'', dFields = [''op'' \<mapsto> ''request'']\<rparr>
               else if Contains (ToLower ut info) ''reply'' then
                 Some \<lparr>dType = ''arp'', dSummary = ''ARP reply'', dFields = [''op'' \<mapsto> ''reply'']\<rparr>
               else Some \<lparr>dType = ''arp'', dSummary = [], dFields = Map.empty\<rparr>))"

section \<open>ICMP\<close>

definition reICMPEcho :: "string \<Rightarrow> rx" where
  "reICMPEcho word = seqs [lit word, opt (lit '',''), spaces1, lit ''id'', spaces1, RGroup 1 digits1, opt (lit '',''),
     spaces1, lit ''seq'', spaces1, RGroup 2 digits1]"

definition addrTextFold :: "char \<Rightarrow> bool" where
  "addrTextFold c \<longleftrightarrow> hexA c \<or> c = CHR ''.'' \<or> c = CHR '':''"

definition reICMPUnreach :: rx where
  "reICMPUnreach = seqs [RGroup 1 (alts (map litFold [''host'', ''net'', ''port'', ''protocol''])), spaces1,
     litFold ''unreachable'', spaces1, litFold ''for'', spaces1, RGroup 2 (plus1 (RChar addrTextFold))]"

definition reICMPTTL :: rx where
  "reICMPTTL = seqs [litFold ''time'', spaces1, litFold ''exceeded'', star (noneOf [nl]), litFold ''for'', spaces1,
     RGroup 1 (plus1 (RChar addrTextFold))]"

text \<open>\<open>strings.Title\<close> of one word that starts with an ASCII letter.\<close>

definition titleWord :: "string \<Rightarrow> string" where
  "titleWord s = (case s of [] \<Rightarrow> [] | c # r \<Rightarrow> upperA c # r)"

definition icmpOther :: "string \<Rightarrow> packetDecode" where
  "icmpOther low =
     (let named = (\<lambda>op summary. \<lparr>dType = ''icmp'', dSummary = summary, dFields = [''op'' \<mapsto> op]\<rparr>)
      in if Contains low ''redirect'' then named ''redirect'' ''ICMP redirect''
         else if Contains low ''router solicitation'' then named ''router_solicitation'' ''ICMPv6 router solicitation''
         else if Contains low ''router advertisement'' then named ''router_advertisement'' ''ICMPv6 router advertisement''
         else if Contains low ''neighbor solicitation'' then named ''neighbor_solicitation'' ''ICMPv6 neighbor solicitation''
         else if Contains low ''neighbor advertisement'' then named ''neighbor_advertisement'' ''ICMPv6 neighbor advertisement''
         else \<lparr>dType = ''icmp'', dSummary = ''ICMP'', dFields = Map.empty\<rparr>)"

definition decodeICMP :: "unicodeTables \<Rightarrow> parsedPacket \<Rightarrow> packetDecode option" where
  "decodeICMP ut p =
     (let info = (if pkInfo p = [] then pkRaw p else pkInfo p)
      in case FindSubmatch (reICMPEcho ''echo request'') info of
           Some m \<Rightarrow> Some \<lparr>dType = ''icmp'', dSummary = ''ICMP echo request seq='' @ m 2,
             dFields = [''op'' \<mapsto> ''echo_request'', ''id'' \<mapsto> m 1, ''seq'' \<mapsto> m 2]\<rparr>
         | None \<Rightarrow>
      (case FindSubmatch (reICMPEcho ''echo reply'') info of
           Some m \<Rightarrow> Some \<lparr>dType = ''icmp'', dSummary = ''ICMP echo reply seq='' @ m 2,
             dFields = [''op'' \<mapsto> ''echo_reply'', ''id'' \<mapsto> m 1, ''seq'' \<mapsto> m 2]\<rparr>
         | None \<Rightarrow>
      (case FindSubmatch reICMPUnreach info of
           Some m \<Rightarrow> Some \<lparr>dType = ''icmp'', dSummary = titleWord (m 1) @ '' unreachable: '' @ m 2,
             dFields = [''op'' \<mapsto> ToLower ut (m 1) @ ''_unreachable'', ''target'' \<mapsto> m 2]\<rparr>
         | None \<Rightarrow>
      (case FindSubmatch reICMPTTL info of
           Some m \<Rightarrow> Some \<lparr>dType = ''icmp'', dSummary = ''ICMP time exceeded for '' @ m 1,
             dFields = [''op'' \<mapsto> ''time_exceeded'', ''target'' \<mapsto> m 1]\<rparr>
         | None \<Rightarrow> Some (icmpOther (ToLower ut info))))))"

section \<open>HTTP\<close>

definition isHTTPPort :: "int \<Rightarrow> int \<Rightarrow> bool" where
  "isHTTPPort src dst \<longleftrightarrow> src \<in> {80, 8000, 8080, 8081, 8888} \<or> dst \<in> {80, 8000, 8080, 8081, 8888}"

definition httpVersion :: rx where
  "httpVersion = seqs [RChar isDigitA, lit ''.'', RChar isDigitA]"

definition reHTTPReq :: rx where
  "reHTTPReq = seqs [RLineStart, RGroup 1 (alts (map lit [''GET'', ''POST'', ''PUT'', ''DELETE'', ''HEAD'', ''OPTIONS'',
     ''PATCH'', ''TRACE'', ''CONNECT''])), spaces1, RGroup 2 nonSpaces1, spaces1, lit ''HTTP/'', RGroup 3 httpVersion]"

definition reHTTPStatus :: rx where
  "reHTTPStatus = seqs [RLineStart, lit ''HTTP/'', RGroup 1 httpVersion, spaces1,
     RGroup 2 (seqs [RChar isDigitA, RChar isDigitA, RChar isDigitA]), spaces1,
     RGroup 3 (star (noneOf [nl])), RLineEnd]"

definition reHTTPHost :: rx where
  "reHTTPHost = seqs [RLineStart, litFold ''Host:'', spaces0, RGroup 1 nonSpaces1]"

definition reHTTPUA :: rx where
  "reHTTPUA = seqs [RLineStart, litFold ''User-Agent:'', spaces0, RGroup 1 (plusLazy (noneOf [nl])), opt (lit [cr]), RLineEnd]"

definition reHTTPCT :: rx where
  "reHTTPCT = seqs [RLineStart, litFold ''Content-Type:'', spaces0, RGroup 1 nonSpaces1]"

definition httpText :: "string \<Rightarrow> packetDecode option" where
  "httpText text =
     (if text = [] then None
      else case FindSubmatch reHTTPReq text of
        Some m \<Rightarrow>
          (let f1 = [''op'' \<mapsto> ''request'', ''method'' \<mapsto> m 1, ''path'' \<mapsto> m 2, ''version'' \<mapsto> ''HTTP/'' @ m 3];
               f2 = putMatch reHTTPHost text ''host'' (\<lambda>x. x) f1;
               f3 = putMatch reHTTPUA text ''user_agent'' TrimSpace f2;
               host = fld f3 ''host''
           in Some \<lparr>dType = ''http'',
                dSummary = (if host \<noteq> [] then m 1 @ '' '' @ host @ m 2 else m 1 @ '' '' @ m 2), dFields = f3\<rparr>)
      | None \<Rightarrow>
          (case FindSubmatch reHTTPStatus text of
             None \<Rightarrow> None
           | Some m \<Rightarrow>
               (let reason = TrimSpace (TrimRight (m 3) [cr]);
                    f1 = [''op'' \<mapsto> ''response'', ''version'' \<mapsto> ''HTTP/'' @ m 1, ''status'' \<mapsto> m 2, ''reason'' \<mapsto> reason]
                in Some \<lparr>dType = ''http'', dSummary = ''HTTP '' @ m 2 @ '' '' @ reason,
                     dFields = putMatch reHTTPCT text ''content_type'' (\<lambda>x. x) f1\<rparr>)))"

definition decodeHTTP :: "string list \<Rightarrow> packetDecode option option" where
  "decodeHTTP payload = map_option httpText (extractASCIIPayload payload)"

section \<open>SSH banner\<close>

definition reSSHBanner :: rx where
  "reSSHBanner = seqs [lit ''SSH-'', RGroup 1 (seqs [digits1, lit ''.'', digits1]), lit ''-'', RGroup 2 nonSpaces1]"

definition bannerText :: "parsedPacket \<Rightarrow> string \<Rightarrow> packetDecode option" where
  "bannerText p text =
     (if \<not> Contains text ''SSH-'' then None
      else case FindSubmatch reSSHBanner text of
        None \<Rightarrow> None
      | Some m \<Rightarrow>
          (let side = (if pkDstPort p = 22 then ''client'' else ''server'')
           in Some \<lparr>dType = ''ssh'', dSummary = ''SSH banner ('' @ side @ ''): '' @ m 2,
                dFields = [''op'' \<mapsto> ''banner'', ''side'' \<mapsto> side, ''version'' \<mapsto> m 1, ''software'' \<mapsto> m 2]\<rparr>))"

definition decodeSSHBanner :: "parsedPacket \<Rightarrow> string list \<Rightarrow> packetDecode option option" where
  "decodeSSHBanner p payload = map_option (bannerText p) (extractASCIIPayload payload)"

section \<open>CWMP\<close>

definition reCWMPSOAPAction :: rx where
  "reCWMPSOAPAction = seqs [litFold ''SOAPAction:'', spaces0, opt (lit [dquote]), spaces0, opt (litFold ''cwmp:''),
     RGroup 1 (plus1 (RChar letterA))]"

definition cwmpMethods :: "string list" where
  "cwmpMethods = [''Inform'', ''InformResponse'', ''GetParameterValues'', ''GetParameterValuesResponse'',
     ''SetParameterValues'', ''SetParameterValuesResponse'', ''GetParameterNames'', ''GetParameterNamesResponse'',
     ''SetParameterAttributes'', ''GetParameterAttributes'', ''AddObject'', ''DeleteObject'', ''Reboot'', ''RebootResponse'',
     ''Download'', ''DownloadResponse'', ''Upload'', ''TransferComplete'', ''TransferCompleteResponse'', ''GetRPCMethods'',
     ''GetRPCMethodsResponse'', ''FactoryReset'', ''RequestDownload'', ''ScheduleInform'', ''SetParameterAttributesResponse'',
     ''AutonomousTransferComplete'']"

definition reCWMPMethod :: rx where
  "reCWMPMethod = seqs [lit ''<'', opt (RSeq (plus1 (RChar wordA)) (lit '':'')), RGroup 1 (alts (map lit cwmpMethods)), RWordB]"

definition xmlText :: "string \<Rightarrow> rx" where
  "xmlText tag = seqs [lit (''<'' @ tag @ ''>''), spaces0, RGroup 1 (plusLazy (noneOf ''<'')), spaces0, lit (''</'' @ tag @ ''>'')]"

definition reCWMPParamValue :: rx where
  "reCWMPParamValue = seqs [lit ''<Value'', RWordB, star (noneOf ''>''), lit ''>'', RGroup 1 (star (noneOf ''<'')), lit ''</Value>'']"

definition looksLikeCWMP :: "string \<Rightarrow> bool" where
  "looksLikeCWMP text \<longleftrightarrow> Contains text ''cwmp:'' \<or> Contains text ''ParameterValueStruct'' \<or> MatchString reCWMPSOAPAction text"

definition maxParams :: nat where "maxParams = 6"

fun putParams :: "((nat \<Rightarrow> string) \<times> (nat \<Rightarrow> string)) list \<Rightarrow> fieldMap \<Rightarrow> fieldMap" where
  "putParams [] fs = fs"
| "putParams ((n, v) # r) fs =
     (let val = TrimSpace (v 1)
      in putParams r (fs(''param.'' @ n 1 \<mapsto> (if val = [] then ''(empty)'' else val))))"

definition plural :: "nat \<Rightarrow> string" where
  "plural n = (if n = 1 then [] else ''s'')"

definition cwmpFields :: "string \<Rightarrow> string \<Rightarrow> fieldMap" where
  "cwmpFields method text =
     (let f1 = [''method'' \<mapsto> method];
          f2 = (if MatchString reHTTPReq text then f1(''http'' \<mapsto> ''request'')
                else if MatchString reHTTPStatus text then f1(''http'' \<mapsto> ''response'') else f1);
          f3 = putMatch (xmlText ''Manufacturer'') text ''manufacturer'' (\<lambda>x. x) f2;
          f4 = putMatch (xmlText ''OUI'') text ''oui'' (\<lambda>x. x) f3;
          f5 = putMatch (xmlText ''ProductClass'') text ''product_class'' (\<lambda>x. x) f4;
          f6 = putMatch (xmlText ''SerialNumber'') text ''serial'' (\<lambda>x. x) f5;
          events = FindAllSubmatch (xmlText ''EventCode'') text;
          f7 = (if events \<noteq> [] then f6(''events'' \<mapsto> Join (map (\<lambda>e. e 1) events) '', '') else f6);
          names = FindAllSubmatch (xmlText ''Name'') text;
          values = FindAllSubmatch reCWMPParamValue text;
          f8 = putParams (take maxParams (zip names values)) f7
      in if maxParams < length names
         then f8(''params_truncated'' \<mapsto> natDigits (length names - maxParams) @ '' more'') else f8)"

definition cwmpSummary :: "string \<Rightarrow> nat \<Rightarrow> fieldMap \<Rightarrow> string" where
  "cwmpSummary method n fs =
     (if fld fs ''serial'' \<noteq> [] then ''CWMP '' @ method @ '' ('' @ fld fs ''serial'' @ '')''
      else if fld fs ''events'' \<noteq> [] then ''CWMP '' @ method @ '' ['' @ fld fs ''events'' @ '']''
      else if 0 < n then ''CWMP '' @ method @ '' ('' @ natDigits n @ '' param'' @ plural n @ '')''
      else ''CWMP '' @ method)"

definition cwmpText :: "string \<Rightarrow> packetDecode option" where
  "cwmpText text =
     (if text = [] \<or> \<not> looksLikeCWMP text then None
      else (let found = (case FindSubmatch reCWMPMethod text of Some m \<Rightarrow> m 1
                         | None \<Rightarrow> (case FindSubmatch reCWMPSOAPAction text of Some m \<Rightarrow> m 1 | None \<Rightarrow> []));
                names = FindAllSubmatch (xmlText ''Name'') text;
                hasParams = MatchString (xmlText ''Name'') text
            in if found = [] \<and> \<not> hasParams then None
               else (let method = (if found = [] then ''(continuation)'' else found);
                         fs = cwmpFields method text
                     in Some \<lparr>dType = ''cwmp'', dSummary = cwmpSummary method (length names) fs, dFields = fs\<rparr>)))"

definition decodeCWMP :: "string list \<Rightarrow> packetDecode option option" where
  "decodeCWMP payload = map_option cwmpText (extractASCIIPayload payload)"

section \<open>Dispatch\<close>

definition decorateDecoded :: "parsedPacket \<Rightarrow> packetDecode option \<Rightarrow> packetDecode option" where
  "decorateDecoded p d = (case d of None \<Rightarrow> None
     | Some e \<Rightarrow>
         (let f0 = dFields e;
              f1 = (if pkSrcIP p \<noteq> [] \<and> fld f0 ''src'' = []
                    then f0(''src'' \<mapsto> (if 0 < pkSrcPort p then pkSrcIP p @ '':'' @ itoaInt (pkSrcPort p) else pkSrcIP p))
                    else f0);
              f2 = (if pkDstIP p \<noteq> [] \<and> fld f1 ''dst'' = []
                    then f1(''dst'' \<mapsto> (if 0 < pkDstPort p then pkDstIP p @ '':'' @ itoaInt (pkDstPort p) else pkDstIP p))
                    else f1)
          in Some (e\<lparr>dFields := f2\<rparr>)))"

definition overrideProto :: "unicodeTables \<Rightarrow> (int \<Rightarrow> string option) \<Rightarrow> parsedPacket \<Rightarrow> string" where
  "overrideProto ut overrides p =
     (let dst = (case overrides (pkDstPort p) of Some v \<Rightarrow> v | None \<Rightarrow> []);
          src = (case overrides (pkSrcPort p) of Some v \<Rightarrow> v | None \<Rightarrow> [])
      in if dst \<noteq> [] then ToLower ut (TrimSpace dst)
         else if src \<noteq> [] then ToLower ut (TrimSpace src) else [])"

definition decodeByOverride :: "unicodeTables \<Rightarrow> parsedPacket \<Rightarrow> string list \<Rightarrow> (int \<Rightarrow> string option) \<Rightarrow> packetDecode option option" where
  "decodeByOverride ut p payload overrides =
     (let proto = overrideProto ut overrides p
      in if proto = ''http'' then decodeHTTP payload
         else if proto = ''tls'' \<or> proto = ''https'' then decodeTLS payload
         else if proto = ''dns'' then Some (decodeDNS p payload)
         else if proto = ''dhcp'' \<or> proto = ''bootp'' then Some (decodeDHCP ut p payload)
         else if proto = ''ntp'' then decodeNTP payload
         else if proto = ''snmp'' then decodeSNMP payload
         else if proto = ''ldap'' then decodeLDAP payload
         else if proto = ''smb'' \<or> proto = ''smb2'' \<or> proto = ''cifs'' then decodeSMB payload
         else if proto = ''mqtt'' then decodeMQTT payload
         else if proto = ''ssh'' then decodeSSHBanner p payload
         else if proto = ''cwmp'' \<or> proto = ''tr069'' \<or> proto = ''tr-069'' then decodeCWMP payload
         else Some None)"

definition onPort :: "int list \<Rightarrow> parsedPacket \<Rightarrow> bool" where
  "onPort ports p \<longleftrightarrow> pkSrcPort p \<in> set ports \<or> pkDstPort p \<in> set ports"

definition decodeByPort :: "unicodeTables \<Rightarrow> parsedPacket \<Rightarrow> string list \<Rightarrow> packetDecode option option" where
  "decodeByPort ut p payload =
     (let udp = pkProto p = ''udp''; tcp = pkProto p = ''tcp''
      in if pkProto p = ''arp'' then Some (decodeARPInfo ut (pkInfo p))
         else if pkProto p = ''icmp'' \<or> pkProto p = ''icmpv6'' then Some (decodeICMP ut p)
         else if (udp \<or> tcp) \<and> onPort [53] p then Some (decodeDNS p payload)
         else if udp \<and> (isDHCPPort (pkSrcPort p) \<or> isDHCPPort (pkDstPort p)) then Some (decodeDHCP ut p payload)
         else if udp \<and> onPort [123] p then decodeNTP payload
         else if udp \<and> onPort [161, 162] p then decodeSNMP payload
         else if tcp \<and> onPort [443, 8443] p then decodeTLS payload
         else if tcp \<and> isHTTPPort (pkSrcPort p) (pkDstPort p) then decodeHTTP payload
         else if tcp \<and> onPort [22] p then decodeSSHBanner p payload
         else if tcp \<and> onPort [389] p then decodeLDAP payload
         else if tcp \<and> onPort [445] p then decodeSMB payload
         else if tcp \<and> onPort [1883, 8883] p then decodeMQTT payload
         else if tcp \<and> onPort [7547] p then do {
           d \<leftarrow> decodeCWMP payload;
           if d = None then decodeHTTP payload else Some d }
         else Some None)"

definition DecodeWithOverrides :: "unicodeTables \<Rightarrow> parsedPacket \<Rightarrow> string list \<Rightarrow> (int \<Rightarrow> string option) \<Rightarrow> packetDecode option option" where
  "DecodeWithOverrides ut p payload overrides = do {
     d \<leftarrow> decodeByOverride ut p payload overrides;
     if d \<noteq> None then Some (decorateDecoded p d)
     else map_option (decorateDecoded p) (decodeByPort ut p payload) }"

definition Decode :: "unicodeTables \<Rightarrow> parsedPacket \<Rightarrow> string list \<Rightarrow> packetDecode option option" where
  "Decode ut p payload = DecodeWithOverrides ut p payload Map.empty"

section \<open>The dispatch cannot fail but in SNMP\<close>

lemma decodeByOverride_None:
  "decodeByOverride ut p payload ov = None \<Longrightarrow> overrideProto ut ov p = ''snmp'' \<and> decodeSNMP payload = None"
  by (auto simp: decodeByOverride_def Let_def decodeHTTP_def decodeSSHBanner_def decodeCWMP_def
        extractASCIIPayload_no_panic decodeTLS_no_panic decodeNTP_no_panic decodeLDAP_no_panic
        decodeSMB_no_panic decodeMQTT_no_panic simp del: split_paired_Ex not_None_eq split: if_split_asm)

lemma decodeByPort_None:
  "decodeByPort ut p payload = None \<Longrightarrow>
     pkProto p = ''udp'' \<and> onPort [161, 162] p \<and> decodeSNMP payload = None"
  by (auto simp: decodeByPort_def Let_def decodeHTTP_def decodeSSHBanner_def decodeCWMP_def bind_eq_None_conv
        extractASCIIPayload_no_panic decodeTLS_no_panic decodeNTP_no_panic decodeLDAP_no_panic
        decodeSMB_no_panic decodeMQTT_no_panic simp del: split_paired_Ex not_None_eq split: if_split_asm)

text \<open>robustness of the dissection. Whatever a captured packet holds and whatever overrides are set,
  the dispatch either returns or stopped in the SNMP decoder, chosen by an override or by the SNMP
  ports over UDP; no other decoder reads outside its bytes.\<close>

lemma decode_panics_only_in_snmp:
  assumes "DecodeWithOverrides ut p payload overrides = None"
  shows "decodeSNMP payload = None \<and>
    (overrideProto ut overrides p = ''snmp'' \<or> pkProto p = ''udp'' \<and> onPort [161, 162] p)"
proof (cases "decodeByOverride ut p payload overrides")
  case None
  then show ?thesis using decodeByOverride_None by blast
next
  case (Some d)
  then have "decodeByPort ut p payload = None"
    using assms by (auto simp: DecodeWithOverrides_def split: if_split_asm)
  then show ?thesis using decodeByPort_None by blast
qed

definition samplePacket :: parsedPacket where
  "samplePacket = \<lparr>pkRaw = [], pkProto = ''udp'', pkSrcIP = ''10.0.0.9'', pkSrcPort = 40000,
     pkDstIP = ''10.0.0.1'', pkDstPort = 161, pkInfo = []\<rparr>"

theorem decode_panics_only_in_snmp_witness:
  "decodeSNMP (dumpOf (sampleDump cutSnmp)) = None \<and>
    (overrideProto asciiTables Map.empty samplePacket = ''snmp'' \<or>
     pkProto samplePacket = ''udp'' \<and> onPort [161, 162] samplePacket)"
proof (rule decode_panics_only_in_snmp)
  have "decodeByOverride asciiTables samplePacket (dumpOf (sampleDump cutSnmp)) Map.empty = Some None"
    by (simp add: decodeByOverride_def overrideProto_def)
  moreover have "decodeByPort asciiTables samplePacket (dumpOf (sampleDump cutSnmp)) = None"
    using cutSnmp_panics by (simp add: decodeByPort_def samplePacket_def onPort_def isDHCPPort_def)
  ultimately show "DecodeWithOverrides asciiTables samplePacket (dumpOf (sampleDump cutSnmp)) Map.empty = None"
    by (simp add: DecodeWithOverrides_def)
qed

section \<open>What a DHCP dissection shows\<close>

definition keysOK :: "string set \<Rightarrow> (char \<Rightarrow> bool) \<Rightarrow> string \<Rightarrow> fieldMap \<Rightarrow> bool" where
  "keysOK K P body fs \<longleftrightarrow> (\<forall>k \<in> K. list_all P (fld fs k) \<and> sublist (fld fs k) body)"

lemma fld_upd [simp]: "fld (fs(k \<mapsto> v)) k' = (if k' = k then v else fld fs k')"
  by (simp add: fld_def)

lemma fld_empty [simp]: "fld Map.empty k = []"
  by (simp add: fld_def)

lemma putMatch_other: "k \<notin> K \<Longrightarrow> keysOK K P body fs \<Longrightarrow> keysOK K P body (putMatch re s k f fs)"
  by (auto simp: keysOK_def putMatch_def split: option.splits)

lemma lang_plus_chars: "w \<in> lang (plus1 (RChar P)) \<Longrightarrow> list_all P w"
  by (fastforce simp: plus1_def list_all_iff)

lemma capture_chars:
  assumes "FindSubmatch re s = Some m" "groups re = {(1, plus1 (RChar P))}"
  shows "list_all P (m 1) \<and> sublist (m 1) s"
  using FindSubmatch_sound [OF assms(1), of 1] assms(2) lang_plus_chars by auto

lemma putMatch_chars:
  "groups re = {(1, plus1 (RChar P))} \<Longrightarrow> keysOK K P body fs \<Longrightarrow> keysOK K P body (putMatch re body k (\<lambda>x. x) fs)"
  using capture_chars [of re body _ P] by (auto simp: keysOK_def putMatch_def split: option.splits)

lemma putIfEmpty_chars:
  "groups re = {(1, plus1 (RChar P))} \<Longrightarrow> keysOK K P body fs \<Longrightarrow> keysOK K P body (putIfEmpty re body k fs)"
  by (simp add: putIfEmpty_def putMatch_chars)

lemma putIfEmpty_other: "k \<notin> K \<Longrightarrow> keysOK K P body fs \<Longrightarrow> keysOK K P body (putIfEmpty re s k fs)"
  by (simp add: putIfEmpty_def putMatch_other)

lemma groups_lit [simp]: "groups (lit w) = {}"
  by (induction w) simp_all

lemma groups_spaces [simp]: "groups spaces0 = {}" "groups spaces1 = {}" "groups (star (noneOf cs)) = {}"
    "groups (plus1 (RChar P)) = {}"
  by (simp_all add: spaces0_def spaces1_def star_def plus1_def noneOf_def)

lemma groups_afterColon: "groups (afterColon w (plus1 (RChar P))) = {(1, plus1 (RChar P))}"
  by (simp add: afterColon_def)

lemma groups_afterSpace: "groups (afterSpace w (plus1 (RChar P))) = {(1, plus1 (RChar P))}"
  by (simp add: afterSpace_def)

definition dhcpAddressKeys :: "string set" where
  "dhcpAddressKeys = {''requested_ip'', ''server_id'', ''assigned_ip'', ''gateway'', ''subnet_mask'', ''client_ip''}"

lemma dhcpHeader_fresh: "k \<notin> {''direction'', ''bootp_op'', ''xid''} \<Longrightarrow> fld (dhcpHeaderFields p) k = []"
  by (auto simp: dhcpHeaderFields_def Let_def putMatch_def split: option.splits)

lemma dhcpBody_addresses:
  assumes "keysOK dhcpAddressKeys ipText body fs"
  shows "keysOK dhcpAddressKeys ipText body (dhcpBodyFields body fs)"
  unfolding dhcpBodyFields_def Let_def reDHCPRequested_def reDHCPServerID_def reDHCPYIAddr_def reDHCPGateway_def
    reDHCPSubnet_def reBOOTPClientIP_def reBOOTPServerIP_def reBOOTPGwIP_def
  by (intro putIfEmpty_chars putMatch_chars groups_afterColon groups_afterSpace
      putMatch_other [of _ dhcpAddressKeys] assms) (simp_all add: dhcpAddressKeys_def)

lemma dhcpBody_mac:
  assumes "keysOK {''client_mac''} macText body fs"
  shows "keysOK {''client_mac''} macText body (dhcpBodyFields body fs)"
  unfolding dhcpBodyFields_def Let_def reDHCPClientID_def
  by (intro putIfEmpty_other [of _ "{''client_mac''}"] putMatch_other [of _ "{''client_mac''}"] putMatch_chars assms) simp_all

text \<open>what a DHCP dissection shows. Every address of the table is a piece of the packet's own text made
  of digits and dots only, the hardware address one of lower-case hex digits and colons, and a packet
  whose header line is no real BOOTP is not dissected at all.\<close>

lemma dhcp_fields_from_packet:
  assumes "decodeDHCP ut p payload = Some d"
  shows "(\<forall>k \<in> dhcpAddressKeys. list_all ipText (fld (dFields d) k) \<and> sublist (fld (dFields d) k) (Join payload [nl])) \<and>
    list_all macText (fld (dFields d) ''client_mac'') \<and> \<not> MatchString reDHCPBogus (pkRaw p)"
proof -
  have fs: "dFields d = dhcpBodyFields (Join payload [nl]) (dhcpHeaderFields p)" and no: "\<not> MatchString reDHCPBogus (pkRaw p)"
    using assms by (auto simp: decodeDHCP_def Let_def split: if_splits)
  have "keysOK dhcpAddressKeys ipText (Join payload [nl]) (dhcpHeaderFields p)"
    using dhcpHeader_fresh by (simp add: keysOK_def dhcpAddressKeys_def)
  moreover have "keysOK {''client_mac''} macText (Join payload [nl]) (dhcpHeaderFields p)"
    using dhcpHeader_fresh by (simp add: keysOK_def)
  ultimately show ?thesis
    using dhcpBody_addresses dhcpBody_mac no unfolding fs by (fastforce simp: keysOK_def)
qed

definition sampleOffer :: parsedPacket where
  "sampleOffer = \<lparr>pkRaw = ''BOOTP/DHCP, Reply'', pkProto = ''udp'', pkSrcIP = [], pkSrcPort = 67,
     pkDstIP = [], pkDstPort = 68, pkInfo = []\<rparr>"

theorem dhcp_fields_from_packet_witness:
  "\<exists>d. decodeDHCP asciiTables sampleOffer [''Your-IP 10.0.0.7''] = Some d \<and>
     list_all ipText (fld (dFields d) ''assigned_ip'') \<and> fld (dFields d) ''assigned_ip'' = ''10.0.0.7''"
proof -
  have no: "\<not> MatchString reDHCPBogus (pkRaw sampleOffer)" by code_simp
  have ip: "fld (dhcpBodyFields (Join [''Your-IP 10.0.0.7''] [nl]) (dhcpHeaderFields sampleOffer)) ''assigned_ip'' = ''10.0.0.7''"
    by code_simp
  obtain d where d: "decodeDHCP asciiTables sampleOffer [''Your-IP 10.0.0.7''] = Some d"
      "dFields d = dhcpBodyFields (Join [''Your-IP 10.0.0.7''] [nl]) (dhcpHeaderFields sampleOffer)"
    using no by (simp add: decodeDHCP_def Let_def)
  then show ?thesis
    using dhcp_fields_from_packet [OF d(1)] ip by (auto simp: dhcpAddressKeys_def)
qed

section \<open>The SSH banner\<close>

lemma findFrom_skip:
  assumes "c \<notin> set pre" "\<And>pv s. s = [] \<or> hd s \<noteq> c \<Longrightarrow> ms re (pv, s, []) = []"
  shows "\<exists>pv'. findFrom re pv (pre @ s) = findFrom re pv' s"
  using assms(1)
proof (induction pre arbitrary: pv)
  case (Cons d pre)
  then obtain pv' where "findFrom re (Some d) (pre @ s) = findFrom re pv' s" by fastforce
  moreover have "ms re (pv, d # pre @ s, []) = []" using Cons.prems assms(2) by auto
  ultimately show ?case by auto
qed auto

definition bannerLine :: "string \<Rightarrow> string \<Rightarrow> string \<Rightarrow> string" where
  "bannerLine major minor software = ''SSH-'' @ major @ ''.'' @ minor @ ''-'' @ software"

lemma banner_found:
  assumes "major \<noteq> []" "list_all isDigitA major" "minor \<noteq> []" "list_all isDigitA minor"
    "software \<noteq> []" "list_all (\<lambda>c. \<not> spaceA c) software" "rest = [] \<or> spaceA (hd rest)" "CHR ''S'' \<notin> set pre"
  shows "\<exists>m. FindSubmatch reSSHBanner (pre @ bannerLine major minor software @ rest) = Some m \<and>
    m 1 = major @ ''.'' @ minor \<and> m 2 = software"
proof -
  let ?r1 = "''-'' @ software @ rest"
  let ?s = "bannerLine major minor software @ rest"
  have stop: "\<not> isDigitA CHR ''.''" "\<not> isDigitA CHR ''-''" by (simp_all add: isDigitA_def byte_def)
  have version: "\<exists>pv'. best (ms (RGroup 1 (seqs [digits1, lit ''.'', digits1])) (pv, (major @ ''.'' @ minor) @ ?r1, cs)) =
      Some (pv', ?r1, (1, major @ ''.'' @ minor) # cs)" for pv cs
  proof -
    have a: "best (ms digits1 (pv, major @ ''.'' @ minor @ ?r1, cs)) = Some (after pv major, ''.'' @ minor @ ?r1, cs)"
      unfolding digits1_def by (rule best_plus_chars) (use assms stop in simp_all)
    have b: "best (ms digits1 (pv, minor @ ?r1, cs)) = Some (after pv minor, ?r1, cs)" for pv
      unfolding digits1_def by (rule best_plus_chars) (use assms stop in simp_all)
    have "best (ms (seqs [digits1, lit ''.'', digits1]) (pv, major @ ''.'' @ minor @ ?r1, cs)) =
        Some (after (after (after pv major) ''.'') minor, ?r1, cs)"
      unfolding seqs.simps by (rule best_seq [OF a best_seq [OF best_lit b]])
    then have "best (ms (seqs [digits1, lit ''.'', digits1]) (pv, (major @ ''.'' @ minor) @ ?r1, cs)) =
        Some (after (after (after pv major) ''.'') minor, ?r1, cs)" by (simp only: append_assoc)
    then show ?thesis using best_group by blast
  qed
  have soft: "\<exists>pv'. best (ms (RGroup 2 nonSpaces1) (pv, software @ rest, cs)) = Some (pv', rest, (2, software) # cs)" for pv cs
  proof -
    have "best (ms nonSpaces1 (pv, software @ rest, cs)) = Some (after pv software, rest, cs)"
      unfolding nonSpaces1_def by (rule best_plus_chars) (use assms in auto)
    then show ?thesis using best_group by blast
  qed
  have here: "\<exists>pv'. best (ms reSSHBanner (pv, ?s, [])) = Some (pv', rest, [(2, software), (1, major @ ''.'' @ minor)])" for pv
  proof -
    obtain p1 where 1: "best (ms (RGroup 1 (seqs [digits1, lit ''.'', digits1]))
        (after pv ''SSH-'', (major @ ''.'' @ minor) @ ?r1, [])) = Some (p1, ?r1, [(1, major @ ''.'' @ minor)])"
      using version by blast
    obtain p2 where 2: "best (ms (RGroup 2 nonSpaces1) (after p1 ''-'', software @ rest, [(1, major @ ''.'' @ minor)])) =
        Some (p2, rest, [(2, software), (1, major @ ''.'' @ minor)])"
      using soft by blast
    have "best (ms reSSHBanner (pv, ''SSH-'' @ (major @ ''.'' @ minor) @ ?r1, [])) =
        Some (p2, rest, [(2, software), (1, major @ ''.'' @ minor)])"
      unfolding reSSHBanner_def seqs.simps(3) [of "lit ''SSH-''"] seqs.simps(3) [of "RGroup 1 r" for r]
        seqs.simps(3) [of "lit ''-''"] seqs.simps(2)
      by (rule best_seq [OF best_lit best_seq [OF 1 best_seq [OF best_lit 2]]])
    then show ?thesis by (simp add: bannerLine_def)
  qed
  have "ms reSSHBanner (pv, s, []) = []" if "s = [] \<or> hd s \<noteq> CHR ''S''" for pv s
    using that by (cases s) (simp_all add: reSSHBanner_def)
  then obtain pv' where "findFrom reSSHBanner None (pre @ ?s) = findFrom reSSHBanner pv' ?s"
    using findFrom_skip [OF assms(8)] by blast
  moreover obtain pv'' where "findFrom reSSHBanner pv' ?s = Some (pv'', rest, [(2, software), (1, major @ ''.'' @ minor)])"
    using here findFrom_here by blast
  ultimately show ?thesis by (simp add: FindSubmatch_def grp_def)
qed

lemma printableASCII_id: "list_all (\<lambda>c. 0x20 \<le> byte c \<and> byte c < 0x7f) s \<Longrightarrow> printableASCII s = s"
  by (induction s) (simp_all add: printableASCII_def)

lemma printableASCII_append: "printableASCII (a @ b) = printableASCII a @ printableASCII b"
  by (simp add: printableASCII_def)

lemma extractASCIIPayload_tcp:
  assumes "dumpFits ls" "dumpBytes ls = e @ h @ t @ body" "etherHeader e" "ipHeader h" "tcpHeader t" "body \<noteq> []"
  shows "extractASCIIPayload (dumpOf ls) = Some (printableASCII body)"
proof -
  have off: "findTCPPayloadOffset (dumpBytes ls) = Some (Some (length (e @ h @ t)))"
    unfolding assms(2) by (rule findTCPPayloadOffset_packet [OF assms(3-5)])
  have "length (dumpBytes ls) = length (e @ h @ t) + length body" "drop (length (e @ h @ t)) (dumpBytes ls) = body"
    "dumpBytes ls \<noteq> []" "0 < length body"
    unfolding assms(2) using assms(6) by simp_all
  then show ?thesis
    using off unfolding extractASCIIPayload_def ExtractHexPayload_dump [OF assms(1)] by (simp add: sliceFrom_def)
qed

text \<open>the SSH version exchange. From the dump of a TCP packet that carries a banner, over IPv4 or
  IPv6, with or without an Ethernet header and with any options, the decoder reads exactly the
  protocol version and the software name, and takes the packet for the client's when it goes to port 22.\<close>

lemma ssh_banner_is_read:
  assumes "dumpFits ls" "dumpBytes ls = e @ h @ t @ bannerLine major minor software @ rest"
    and "etherHeader e" "ipHeader h" "tcpHeader t"
    and "major \<noteq> []" "list_all isDigitA major" "minor \<noteq> []" "list_all isDigitA minor"
    and "software \<noteq> []" "list_all (\<lambda>c. 0x20 < byte c \<and> byte c < 0x7f) software"
    and "rest = [] \<or> hd rest = cr \<or> hd rest = nl"
  shows "\<exists>d. decodeSSHBanner p (dumpOf ls) = Some (Some d) \<and>
    fld (dFields d) ''version'' = major @ ''.'' @ minor \<and> fld (dFields d) ''software'' = software \<and>
    fld (dFields d) ''side'' = (if pkDstPort p = 22 then ''client'' else ''server'')"
proof -
  let ?line = "bannerLine major minor software"
  have ne: "?line @ rest \<noteq> []" by (simp add: bannerLine_def)
  have dig: "list_all (\<lambda>c. 0x20 \<le> byte c \<and> byte c < 0x7f) w" if "list_all isDigitA w" for w
    using that by (auto simp: list_all_iff isDigitA_def)
  have soft: "list_all (\<lambda>c. 0x20 \<le> byte c \<and> byte c < 0x7f) software" "list_all (\<lambda>c. \<not> spaceA c) software"
    using assms(11) by (auto simp: list_all_iff spaceA_def)
  have "printableASCII ?line = ?line"
    using dig [OF assms(7)] dig [OF assms(9)] soft(1)
    by (intro printableASCII_id) (simp add: bannerLine_def byte_def)
  then have ascii: "extractASCIIPayload (dumpOf ls) = Some ([] @ ?line @ printableASCII rest)"
    using extractASCIIPayload_tcp [OF assms(1) _ assms(3-5) ne] assms(2) by (simp add: printableASCII_append)
  have "printableASCII rest = [] \<or> spaceA (hd (printableASCII rest))"
    using assms(12) by (cases rest) (auto simp: printableASCII_def spaceA_def byte_def)
  then obtain m where m: "FindSubmatch reSSHBanner ([] @ ?line @ printableASCII rest) = Some m"
      "m 1 = major @ ''.'' @ minor" "m 2 = software"
    using banner_found [OF assms(6-10) soft(2), of "printableASCII rest" "[]"] by auto
  have "Contains ([] @ ?line @ printableASCII rest) ''SSH-''"
    by (auto simp: Contains_iff bannerLine_def sublist_def)
  then have "bannerText p ([] @ ?line @ printableASCII rest) =
      Some \<lparr>dType = ''ssh'', dSummary = ''SSH banner ('' @ (if pkDstPort p = 22 then ''client'' else ''server'') @ ''): '' @ m 2,
        dFields = [''op'' \<mapsto> ''banner'', ''side'' \<mapsto> (if pkDstPort p = 22 then ''client'' else ''server''),
          ''version'' \<mapsto> m 1, ''software'' \<mapsto> m 2]\<rparr>"
    unfolding bannerText_def m(1) by (simp add: Let_def)
  then show ?thesis using ascii m(2,3) by (simp add: decodeSSHBanner_def)
qed

definition sampleTcp :: string where
  "sampleTcp = replicate 12 (chr 0) @ chr 0x50 # replicate 7 (chr 0)"

theorem ssh_banner_is_read_witness:
  "\<exists>d. decodeSSHBanner samplePacket
       (dumpOf (sampleDump ([] @ sampleIp @ sampleTcp @ bannerLine ''2'' ''0'' ''OpenSSH_9.6'' @ [cr, nl]))) = Some (Some d) \<and>
     fld (dFields d) ''version'' = ''2'' @ ''.'' @ ''0'' \<and> fld (dFields d) ''software'' = ''OpenSSH_9.6'' \<and>
     fld (dFields d) ''side'' = (if pkDstPort samplePacket = 22 then ''client'' else ''server'')"
proof (rule ssh_banner_is_read)
  let ?b = "[] @ sampleIp @ sampleTcp @ bannerLine ''2'' ''0'' ''OpenSSH_9.6'' @ [cr, nl]"
  show "dumpFits (sampleDump ?b)" "dumpBytes (sampleDump ?b) = ?b"
    using sampleDump_fits [of ?b] by (simp_all add: sampleIp_def)
  show "etherHeader []" "ipHeader sampleIp" "tcpHeader sampleTcp"
    by (auto simp: etherHeader_def ipHeader_def tcpHeader_def sampleIp_def sampleTcp_def nth_append intro!: bexI [of _ 5])
qed (simp_all add: isDigitA_def byte_def)

end
