(* ===== verification/SensitiveGuard.thy ===== *)
theory SensitiveGuard
  imports JumpRefs
begin

text \<open>
  Which saved hosts the language model may not touch, \<open>app_mcp.go\<close>: a connection or a folder resolves
  sensitive through the settings resolver, and a folder may not be changed when it, a folder under it
  or a connection under it does. The folders below one are collected by repeated passes over the list,
  as the source does; a read that failed is \<open>None\<close> and counts as sensitive.
\<close>

section \<open>What is sensitive\<close>

definition connSensitive :: "connection \<Rightarrow> folder list \<Rightarrow> bool" where
  "connSensitive c folders = rSensitive (ResolveWith c folders)"

text \<open>\<open>store.Connection{}\<close>, the zero value.\<close>

definition zeroConnection :: connection where
  "zeroConnection = \<lparr>cID = [], cFolderID = None, cName = [], cHostname = [], cSortOrder = 0, cProtocol = [],
     cLocalShellKind = None, cLocalShellDir = None, cOverrides = noSettings, cTags = [], cNotes = [],
     cFavorite = False, cOpenHidden = False, cIconImageID = None, cIconName = None, cIconColor = None,
     cLastUsedAt = None, cCreatedAt = 0, cUpdatedAt = 0, cPasswordVaultKey = None, cVncPasswordVaultKey = None\<rparr>"

definition folderSensitive :: "string \<Rightarrow> folder list \<Rightarrow> bool" where
  "folderSensitive fid folders = connSensitive (zeroConnection\<lparr>cFolderID := Some fid\<rparr>) folders"

definition isSensitive :: "folder list option \<Rightarrow> connection \<Rightarrow> bool" where
  "isSensitive folders c = (case folders of None \<Rightarrow> True | Some fs \<Rightarrow> connSensitive c fs)"

text \<open>One pass over the folders, and passes until nothing is added.\<close>

fun growPass :: "folder list \<Rightarrow> string list \<Rightarrow> string list" where
  "growPass [] seen = seen"
| "growPass (f # fs) seen = growPass fs
     (if fID f \<notin> set seen \<and> (case fParentID f of None \<Rightarrow> False | Some p \<Rightarrow> p \<in> set seen)
      then seen @ [fID f] else seen)"

lemma growPass_extends: "\<exists>new. growPass fs seen = seen @ new \<and> set new \<subseteq> fID ` set fs - set seen"
proof (induction fs arbitrary: seen)
  case (Cons f fs)
  let ?u = "if fID f \<notin> set seen \<and> (case fParentID f of None \<Rightarrow> False | Some p \<Rightarrow> p \<in> set seen)
      then seen @ [fID f] else seen"
  obtain new where new: "growPass fs ?u = ?u @ new" "set new \<subseteq> fID ` set fs - set ?u"
    using Cons.IH by blast
  show ?case
  proof (cases "?u = seen")
    case True
    then show ?thesis using new by (intro exI [of _ new]) auto
  next
    case False
    then have u: "?u = seen @ [fID f]" "fID f \<notin> set seen" by (auto split: if_splits)
    show ?thesis using new unfolding u(1) by (intro exI [of _ "fID f # new"]) (use u in auto)
  qed
qed simp

function growUnder :: "folder list \<Rightarrow> string list \<Rightarrow> string list" where
  "growUnder folders seen =
     (let next = growPass folders seen
      in if length next = length seen then seen else growUnder folders next)"
  by pat_completeness auto
termination
proof (relation "measure (\<lambda>(folders, seen). card (fID ` set folders - set seen))")
  fix folders seen x
  assume x: "x = growPass folders seen" "length x \<noteq> length seen"
  obtain new where new: "x = seen @ new" "set new \<subseteq> fID ` set folders - set seen"
    using growPass_extends [of folders seen] x(1) by blast
  then have "new \<noteq> []" using x(2) by auto
  then have "fID ` set folders - set x \<subset> fID ` set folders - set seen"
    using new by (cases new) auto
  then show "((folders, x), folders, seen) \<in> measure (\<lambda>(folders, seen). card (fID ` set folders - set seen))"
    by (simp add: psubset_card_mono)
qed simp

declare growUnder.simps [simp del]

definition folderTouchesSensitive :: "folder list option \<Rightarrow> connection list option \<Rightarrow> string \<Rightarrow> bool" where
  "folderTouchesSensitive foldersRead connsRead fid =
     (case foldersRead of None \<Rightarrow> True
      | Some folders \<Rightarrow>
          (let seen = growUnder folders [fid]
           in if list_ex (\<lambda>x. folderSensitive x folders) seen then True
              else (case connsRead of None \<Rightarrow> True
                    | Some conns \<Rightarrow> list_ex (\<lambda>c. (case cFolderID c of None \<Rightarrow> False | Some x \<Rightarrow> x \<in> set seen)
                                              \<and> connSensitive c folders) conns)))"

definition mcpSensitiveIDs :: "folder list \<Rightarrow> connection list \<Rightarrow> string list" where
  "mcpSensitiveIDs folders conns =
     map fID (filter (\<lambda>f. folderSensitive (fID f) folders) folders)
     @ map cID (filter (\<lambda>c. connSensitive c folders) conns)"

section \<open>The folders below one\<close>

definition childOf :: "folder list \<Rightarrow> (string \<times> string) set" where
  "childOf folders = {(p, fID f) |p f. f \<in> set folders \<and> fParentID f = Some p}"

lemma growPass_sound: "set seen \<subseteq> (childOf folders)\<^sup>* `` {r} \<Longrightarrow> set fs \<subseteq> set folders \<Longrightarrow>
    set (growPass fs seen) \<subseteq> (childOf folders)\<^sup>* `` {r}"
proof (induction fs arbitrary: seen)
  case (Cons f fs)
  have "fID f \<in> (childOf folders)\<^sup>* `` {r}" if "fParentID f = Some p" "p \<in> set seen" for p
  proof -
    have "(p, fID f) \<in> childOf folders" using that Cons.prems(2) by (auto simp: childOf_def)
    then show ?thesis using that Cons.prems(1) by (auto intro: rtrancl_into_rtrancl)
  qed
  then show ?case using Cons by (auto split: option.splits)
qed simp

lemma growPass_Cons_extends: "set seen \<subseteq> set (growPass fs seen)"
  using growPass_extends [of fs seen] by auto

lemma growPass_fix:
  assumes "growPass fs seen = seen" "f \<in> set fs" "fParentID f = Some p" "p \<in> set seen"
  shows "fID f \<in> set seen"
  using assms
proof (induction fs arbitrary: seen)
  case (Cons g fs)
  let ?u = "if fID g \<notin> set seen \<and> (case fParentID g of None \<Rightarrow> False | Some p \<Rightarrow> p \<in> set seen)
      then seen @ [fID g] else seen"
  have "?u = seen"
  proof (rule ccontr)
    assume "?u \<noteq> seen"
    then have "length seen < length ?u" by (auto split: if_splits)
    moreover obtain new where "growPass fs ?u = ?u @ new" using growPass_extends by blast
    ultimately have "length seen < length (growPass (g # fs) seen)" by simp
    then show False using Cons.prems(1) by simp
  qed
  then show ?case using Cons by (cases "f = g") (auto split: if_splits)
qed simp

text \<open>What the passes collect: exactly the folder and everything below it.\<close>

lemma growUnder_sound:
  "set seen \<subseteq> (childOf folders)\<^sup>* `` {r} \<Longrightarrow> set (growUnder folders seen) \<subseteq> (childOf folders)\<^sup>* `` {r}"
proof (induction folders seen rule: growUnder.induct)
  case (1 folders seen)
  show ?case
  proof (cases "length (growPass folders seen) = length seen")
    case True
    then show ?thesis using 1(2) by (subst growUnder.simps) simp
  next
    case False
    then have "growUnder folders seen = growUnder folders (growPass folders seen)"
      by (subst growUnder.simps) simp
    moreover have "set (growPass folders seen) \<subseteq> (childOf folders)\<^sup>* `` {r}"
      using growPass_sound [OF 1(2)] by simp
    ultimately show ?thesis using 1(1) False by simp
  qed
qed

lemma growUnder_closed: "set seen \<subseteq> set (growUnder folders seen) \<and>
    growPass folders (growUnder folders seen) = growUnder folders seen"
proof (induction folders seen rule: growUnder.induct)
  case (1 folders seen)
  obtain new where new: "growPass folders seen = seen @ new" using growPass_extends by blast
  show ?case
  proof (cases "length (growPass folders seen) = length seen")
    case True
    then have "growPass folders seen = seen" using new by simp
    then show ?thesis by (subst (1 2 3) growUnder.simps) simp
  next
    case False
    then have "growUnder folders seen = growUnder folders (growPass folders seen)"
      by (subst growUnder.simps) simp
    then show ?thesis using 1 False new by simp
  qed
qed

lemma growUnder_iff: "x \<in> set (growUnder folders [r]) \<longleftrightarrow> (r, x) \<in> (childOf folders)\<^sup>*"
proof
  show "x \<in> set (growUnder folders [r]) \<Longrightarrow> (r, x) \<in> (childOf folders)\<^sup>*"
    using growUnder_sound [of "[r]" folders r] by auto
next
  assume "(r, x) \<in> (childOf folders)\<^sup>*"
  then show "x \<in> set (growUnder folders [r])"
  proof induction
    case base
    then show ?case using growUnder_closed [of "[r]" folders] by simp
  next
    case (step y z)
    then obtain f where f: "f \<in> set folders" "fParentID f = Some y" "fID f = z" by (auto simp: childOf_def)
    then show ?case using growPass_fix [OF _ f(1,2) step.IH] growUnder_closed [of "[r]" folders] by simp
  qed
qed

text \<open>The guard as a condition on the tree.\<close>

lemma folderTouchesSensitive_iff:
  "folderTouchesSensitive (Some folders) (Some conns) r \<longleftrightarrow>
     (\<exists>x. (r, x) \<in> (childOf folders)\<^sup>* \<and>
        (folderSensitive x folders \<or> (\<exists>c \<in> set conns. cFolderID c = Some x \<and> connSensitive c folders)))"
  by (auto simp: folderTouchesSensitive_def Let_def list_ex_iff growUnder_iff split: option.splits)

text \<open>the passes that collect the folders under one implement the condition on the tree: a folder is refused
  exactly when it or a folder below it resolves sensitive, or a connection in one of those does.\<close>

lemma guard_covers_subtree:
  "folderTouchesSensitive (Some folders) (Some conns) r =
     (\<exists>x. (r, x) \<in> (childOf folders)\<^sup>* \<and>
        (folderSensitive x folders \<or> (\<exists>c. c \<in> set conns \<and> cFolderID c = Some x \<and> connSensitive c folders)))"
  unfolding folderTouchesSensitive_iff by blast

section \<open>What a connection resolves from\<close>

text \<open>The folder ids a climb looks up.\<close>

function looked :: "(string \<rightharpoonup> folder) \<Rightarrow> string option \<Rightarrow> nat \<Rightarrow> string list" where
  "looked idx current i =
     (if i < 10000 then
        (case current of None \<Rightarrow> []
         | Some fid \<Rightarrow> fid # (case idx fid of None \<Rightarrow> [] | Some f \<Rightarrow> looked idx (fParentID f) (Suc i)))
      else [])"
  by pat_completeness auto
termination
  by (relation "measure (\<lambda>(idx, current, i). 10000 - i)") auto

declare looked.simps [simp del]

lemma looked_simps:
  "looked idx None i = []"
  "looked idx (Some x) i = (if i < 10000 then x # (case idx x of None \<Rightarrow> [] | Some f \<Rightarrow> looked idx (fParentID f) (Suc i)) else [])"
  by (subst looked.simps, simp)+

lemma climb_cases:
  "climb idx None i = []"
  "climb idx (Some x) i = (if i < 10000 then (case idx x of None \<Rightarrow> [] | Some f \<Rightarrow> f # climb idx (fParentID f) (Suc i)) else [])"
  by (subst climb.simps, simp)+

lemma climb_cong:
  "\<forall>x \<in> set (looked idx current i). idx' x = idx x \<Longrightarrow> climb idx' current i = climb idx current i"
proof (induction idx current i rule: looked.induct)
  case (1 idx current i)
  show ?case
  proof (cases "i < 10000 \<and> current \<noteq> None")
    case True
    then obtain x where x: "current = Some x" by blast
    have "idx' x = idx x" using 1(2) True by (simp add: x looked_simps)
    moreover have "climb idx' (fParentID f) (Suc i) = climb idx (fParentID f) (Suc i)" if "idx x = Some f" for f
      using 1(1) [OF _ x that] 1(2) True that by (simp add: x looked_simps)
    ultimately show ?thesis by (simp add: x climb_cases split: option.splits)
  qed (cases current; auto simp: climb_cases)
qed

lemma looked_below:
  assumes "x \<in> set (looked (folderIndex folders) current i)"
  shows "\<exists>y. current = Some y \<and> (x, y) \<in> (childOf folders)\<^sup>*"
  using assms
proof (induction "folderIndex folders" current i rule: looked.induct)
  case (1 current i)
  show ?case
  proof (cases current)
    case None
    then show ?thesis using 1(2) by (simp add: looked_simps)
  next
    case (Some y)
    show ?thesis
    proof (cases "x = y")
      case False
      then obtain f where f: "folderIndex folders y = Some f" "i < 10000"
          "x \<in> set (looked (folderIndex folders) (fParentID f) (Suc i))"
        using 1(2) Some by (cases "folderIndex folders y") (auto simp: looked_simps split: if_splits)
      then obtain z where z: "fParentID f = Some z" "(x, z) \<in> (childOf folders)\<^sup>*"
        using 1(1) [OF f(2) Some f(1,3)] by blast
      have "(z, y) \<in> childOf folders"
        using folderIndex_Some [OF f(1)] z(1) by (auto simp: childOf_def)
      then show ?thesis using z(2) Some by (auto intro: rtrancl_into_rtrancl)
    qed (simp add: Some)
  qed
qed

lemma ResolveWith_cong:
  assumes "\<forall>x \<in> set (looked (folderIndex folders) (cFolderID c) 0). folderIndex folders' x = folderIndex folders x"
  shows "ResolveWith c folders' = ResolveWith c folders"
  using climb_cong [OF assms] by (simp add: ResolveWith_def ancestorChain_def)

end
