(* ===== verification/PlanStore.thy ===== *)
theory PlanStore
  imports SensitiveGuard
begin

text \<open>
  The rows a provisioning plan writes and the statements it writes them with, \<open>internal/store/tx.go\<close>.
  The state holds the tables as lists in insertion order. A statement returns an error or the new
  state; \<open>WithTx\<close> keeps the old state when the function it runs fails. Foreign keys are enforced, as the
  store opens its database. New ids come from a supply, \<open>newID n\<close> being the n-th; the clock is a field.
\<close>

section \<open>Tables\<close>

record portForward =
  pfID :: string
  pfConn :: string
  pfKind :: string
  pfLocalAddr :: "string option"
  pfLocalPort :: "16 word option"
  pfRemoteHost :: "string option"
  pfRemotePort :: "16 word option"
  pfAutoStart :: bool
  pfDesc :: string
  pfBookmarks :: "(string \<times> string) list"

record storeDb =
  dbFolders :: "folder list"
  dbConns :: "connection list"
  dbForwards :: "portForward list"
  dbImages :: "string list"
  dbCreds :: "string list"
  dbProfiles :: "string list"
  dbEntries :: "(string \<times> string \<times> string) list"   \<comment> \<open>inventory: entry id, folder id, external id\<close>
  dbNext :: nat
  dbNow :: "64 word"

datatype storeError = Validation | ErrNotFound | ForeignKey | BadForward | UnknownField string

definition GetFolder :: "storeDb \<Rightarrow> string \<Rightarrow> folder option" where
  "GetFolder db fid = find (\<lambda>f. fID f = fid) (dbFolders db)"

definition GetConnection :: "storeDb \<Rightarrow> string \<Rightarrow> connection option" where
  "GetConnection db cid = find (\<lambda>c. cID c = cid) (dbConns db)"

text \<open>A nullable reference: absent, or naming a row.\<close>

definition refOK :: "string list \<Rightarrow> string option \<Rightarrow> bool" where
  "refOK ids r = (case r of None \<Rightarrow> True | Some x \<Rightarrow> x \<in> set ids)"

section \<open>Inserts\<close>

record newFolder =
  nfParent :: "string option"
  nfName :: string
  nfSettings :: inheritableSettings

definition insertFolder :: "(nat \<Rightarrow> string) \<Rightarrow> newFolder \<Rightarrow> storeDb \<Rightarrow> storeError + string \<times> storeDb" where
  "insertFolder newID inp db =
     (if nfName inp = [] then Inl Validation
      else if \<not> refOK (map fID (dbFolders db)) (nfParent inp) then Inl ForeignKey
      else (let fid = newID (dbNext db);
                row = \<lparr>fID = fid, fParentID = nfParent inp, fName = nfName inp, fSortOrder = 0,
                       fSettings = nfSettings inp, fIconImageID = None, fIconName = None, fIconColor = None,
                       fCreatedAt = dbNow db, fUpdatedAt = dbNow db\<rparr>
            in Inr (fid, db\<lparr>dbFolders := dbFolders db @ [row], dbNext := Suc (dbNext db)\<rparr>)))"

record newConnection =
  ncFolder :: "string option"
  ncName :: string
  ncHostname :: string
  ncOverrides :: inheritableSettings
  ncTags :: "string list"
  ncNotes :: string

text \<open>\<open>Protocol\<close> is ssh for every row of a plan.\<close>

definition insertConnection :: "(nat \<Rightarrow> string) \<Rightarrow> newConnection \<Rightarrow> storeDb \<Rightarrow> storeError + string \<times> storeDb" where
  "insertConnection newID inp db =
     (if ncName inp = [] then Inl Validation
      else if \<not> refOK (map fID (dbFolders db)) (ncFolder inp) then Inl ForeignKey
      else (let cid = newID (dbNext db);
                row = zeroConnection\<lparr>cID := cid, cFolderID := ncFolder inp, cName := ncName inp,
                       cHostname := TrimSpace (ncHostname inp), cProtocol := ''ssh'', cOverrides := ncOverrides inp,
                       cTags := ncTags inp, cNotes := ncNotes inp, cCreatedAt := dbNow db, cUpdatedAt := dbNow db\<rparr>
            in Inr (cid, db\<lparr>dbConns := dbConns db @ [row], dbNext := Suc (dbNext db)\<rparr>)))"

record newPortForward =
  npConn :: string
  npKind :: string
  npLocalAddr :: "string option"
  npLocalPort :: "16 word option"
  npRemoteHost :: "string option"
  npRemotePort :: "16 word option"
  npAutoStart :: bool
  npDesc :: string

definition insertPortForward :: "(nat \<Rightarrow> string) \<Rightarrow> newPortForward \<Rightarrow> storeDb \<Rightarrow> storeError + string \<times> storeDb" where
  "insertPortForward newID inp db =
     (if npKind inp \<notin> {''local'', ''remote'', ''dynamic''} then Inl BadForward
      else if npConn inp = [] then Inl Validation
      else if npKind inp \<noteq> ''dynamic'' \<and> (npRemoteHost inp = None \<or> npRemotePort inp = None) then Inl BadForward
      else if npConn inp \<notin> cID ` set (dbConns db) then Inl ForeignKey
      else (let pid = newID (dbNext db);
                row = \<lparr>pfID = pid, pfConn = npConn inp, pfKind = npKind inp, pfLocalAddr = npLocalAddr inp,
                       pfLocalPort = npLocalPort inp, pfRemoteHost = npRemoteHost inp, pfRemotePort = npRemotePort inp,
                       pfAutoStart = npAutoStart inp, pfDesc = npDesc inp, pfBookmarks = []\<rparr>
            in Inr (pid, db\<lparr>dbForwards := dbForwards db @ [row], dbNext := Suc (dbNext db)\<rparr>)))"

section \<open>Updates\<close>

text \<open>\<open>UPDATE ... WHERE id = ?\<close>, with \<open>ErrNotFound\<close> when no row was changed.\<close>

definition updFolder :: "string \<Rightarrow> (folder \<Rightarrow> folder) \<Rightarrow> storeDb \<Rightarrow> storeError + storeDb" where
  "updFolder fid g db =
     (if fid \<in> fID ` set (dbFolders db)
      then Inr (db\<lparr>dbFolders := map (\<lambda>f. if fID f = fid then (g f)\<lparr>fUpdatedAt := dbNow db\<rparr> else f) (dbFolders db)\<rparr>)
      else Inl ErrNotFound)"

definition updConn :: "string \<Rightarrow> (connection \<Rightarrow> connection) \<Rightarrow> storeDb \<Rightarrow> storeError + storeDb" where
  "updConn cid g db =
     (if cid \<in> cID ` set (dbConns db)
      then Inr (db\<lparr>dbConns := map (\<lambda>c. if cID c = cid then (g c)\<lparr>cUpdatedAt := dbNow db\<rparr> else c) (dbConns db)\<rparr>)
      else Inl ErrNotFound)"

definition UpdateFolderSettingsTx :: "string \<Rightarrow> inheritableSettings \<Rightarrow> storeDb \<Rightarrow> storeError + storeDb" where
  "UpdateFolderSettingsTx fid s = updFolder fid (\<lambda>f. f\<lparr>fSettings := s\<rparr>)"

definition RenameFolderTx :: "string \<Rightarrow> string \<Rightarrow> storeDb \<Rightarrow> storeError + storeDb" where
  "RenameFolderTx fid name = updFolder fid (\<lambda>f. f\<lparr>fName := name\<rparr>)"

definition SetConnectionNotesTx :: "string \<Rightarrow> string \<Rightarrow> storeDb \<Rightarrow> storeError + storeDb" where
  "SetConnectionNotesTx cid notes = updConn cid (\<lambda>c. c\<lparr>cNotes := notes\<rparr>)"

definition RenameConnectionTx :: "string \<Rightarrow> string \<Rightarrow> storeDb \<Rightarrow> storeError + storeDb" where
  "RenameConnectionTx cid name = updConn cid (\<lambda>c. c\<lparr>cName := name\<rparr>)"

definition SetConnectionHostnameTx :: "string \<Rightarrow> string \<Rightarrow> storeDb \<Rightarrow> storeError + storeDb" where
  "SetConnectionHostnameTx cid host = updConn cid (\<lambda>c. c\<lparr>cHostname := host\<rparr>)"

definition MoveConnectionTx :: "string \<Rightarrow> string option \<Rightarrow> storeDb \<Rightarrow> storeError + storeDb" where
  "MoveConnectionTx cid fid db =
     (if cid \<in> cID ` set (dbConns db) \<and> \<not> refOK (map fID (dbFolders db)) fid then Inl ForeignKey
      else updConn cid (\<lambda>c. c\<lparr>cFolderID := fid\<rparr>) db)"

definition SetConnectionNamedIconTx :: "string \<Rightarrow> string \<Rightarrow> string \<Rightarrow> storeDb \<Rightarrow> storeError + storeDb" where
  "SetConnectionNamedIconTx cid name color = updConn cid (\<lambda>c. c\<lparr>
     cIconName := (if name \<noteq> [] then Some name else None),
     cIconColor := (if name \<noteq> [] \<and> color \<noteq> [] then Some color else None), cIconImageID := None\<rparr>)"

definition SetConnectionIconTx :: "string \<Rightarrow> string \<Rightarrow> storeDb \<Rightarrow> storeError + storeDb" where
  "SetConnectionIconTx cid img db =
     (if cid \<in> cID ` set (dbConns db) \<and> img \<noteq> [] \<and> img \<notin> set (dbImages db) then Inl ForeignKey
      else updConn cid (\<lambda>c. c\<lparr>cIconImageID := (if img \<noteq> [] then Some img else None),
             cIconName := None, cIconColor := None\<rparr>) db)"

definition SetPortForwardBookmarksTx :: "string \<Rightarrow> (string \<times> string) list \<Rightarrow> storeDb \<Rightarrow> storeError + storeDb" where
  "SetPortForwardBookmarksTx pid bs db =
     Inr (db\<lparr>dbForwards := map (\<lambda>p. if pfID p = pid then p\<lparr>pfBookmarks := bs\<rparr> else p) (dbForwards db)\<rparr>)"

definition ImageExists :: "storeDb \<Rightarrow> string \<Rightarrow> bool" where
  "ImageExists db img \<longleftrightarrow> img \<noteq> [] \<and> img \<in> set (dbImages db)"

section \<open>Patching overrides\<close>

text \<open>
  The fields an edit may clear, by their JSON names; deleting a key from the stored object is setting
  the field to nil. \<open>None\<close> is an unknown name.
\<close>

definition overrideFields :: "(string \<times> (inheritableSettings \<Rightarrow> inheritableSettings)) list" where
  "overrideFields = [
     (''username'', iUsername_update (\<lambda>_. None)), (''port'', iPort_update (\<lambda>_. None)),
     (''auth_ref'', iAuthRef_update (\<lambda>_. None)), (''jump_host'', iJumpHost_update (\<lambda>_. None)),
     (''ssh_options'', iSSHOptions_update (\<lambda>_. None)), (''env_vars'', iEnvVars_update (\<lambda>_. None)),
     (''color_tag'', iColorTag_update (\<lambda>_. None)), (''broadcast_group_id'', iBroadcastGroupID_update (\<lambda>_. None)),
     (''keepalive_interval'', iKeepaliveInterval_update (\<lambda>_. None)), (''terminal_type'', iTerminalType_update (\<lambda>_. None)),
     (''initial_command'', iInitialCommand_update (\<lambda>_. None)),
     (''initial_command_line_delay_ms'', iInitialCommandLineDelayMs_update (\<lambda>_. None)),
     (''auto_reconnect'', iAutoReconnect_update (\<lambda>_. None)), (''verbose'', iVerbose_update (\<lambda>_. None)),
     (''probe_liveness'', iProbeLiveness_update (\<lambda>_. None)), (''vnc_enabled'', iVncEnabled_update (\<lambda>_. None)),
     (''vnc_port'', iVncPort_update (\<lambda>_. None)), (''vnc_use_tunnel'', iVncUseTunnel_update (\<lambda>_. None)),
     (''vnc_default'', iVncDefault_update (\<lambda>_. None)), (''network_profile_id'', iNetworkProfileID_update (\<lambda>_. None)),
     (''tunnel_only'', iTunnelOnly_update (\<lambda>_. None)), (''tunnel_autostart'', iTunnelAutostart_update (\<lambda>_. None)),
     (''kafka_enabled'', iKafkaEnabled_update (\<lambda>_. None)), (''kafka_bootstrap'', iKafkaBootstrap_update (\<lambda>_. None)),
     (''kafka_use_tunnel'', iKafkaUseTunnel_update (\<lambda>_. None)), (''kafka_default'', iKafkaDefault_update (\<lambda>_. None)),
     (''kafka_read_only'', iKafkaReadOnly_update (\<lambda>_. None)), (''kafka_tls'', iKafkaTLS_update (\<lambda>_. None)),
     (''kafka_tls_skip_verify'', iKafkaTLSSkipVerify_update (\<lambda>_. None)), (''kafka_sasl'', iKafkaSASL_update (\<lambda>_. None)),
     (''kafka_credential_ref'', iKafkaCredentialRef_update (\<lambda>_. None)), (''db_enabled'', iDbEnabled_update (\<lambda>_. None)),
     (''db_engine'', iDbEngine_update (\<lambda>_. None)), (''db_addr'', iDbAddr_update (\<lambda>_. None)),
     (''db_name'', iDbName_update (\<lambda>_. None)), (''db_use_tunnel'', iDbUseTunnel_update (\<lambda>_. None)),
     (''db_default'', iDbDefault_update (\<lambda>_. None)), (''db_read_only'', iDbReadOnly_update (\<lambda>_. None)),
     (''db_query_timeout'', iDbQueryTimeout_update (\<lambda>_. None)), (''db_tls'', iDbTLS_update (\<lambda>_. None)),
     (''db_credential_ref'', iDbCredentialRef_update (\<lambda>_. None)), (''db_targets'', iDbTargets_update (\<lambda>_. [])),
     (''db_label'', iDbLabel_update (\<lambda>_. None)), (''db_in_tree'', iDbInTree_update (\<lambda>_. None)),
     (''db_default_target'', iDbDefaultTarget_update (\<lambda>_. None))]"

definition clearField :: "string \<Rightarrow> inheritableSettings \<Rightarrow> inheritableSettings option" where
  "clearField f s = map_option (\<lambda>g. g s) (map_of overrideFields f)"

definition ValidOverrideField :: "string \<Rightarrow> bool" where
  "ValidOverrideField f \<longleftrightarrow> clearField f noSettings \<noteq> None"

text \<open>
  The values of a partial settings object laid over another one. The plan's objects hold these seven
  fields and no other.
\<close>

definition overlaySettings :: "inheritableSettings \<Rightarrow> inheritableSettings \<Rightarrow> inheritableSettings" where
  "overlaySettings s base = base\<lparr>
     iUsername := firstNonNil (iUsername s) (iUsername base), iPort := firstNonNil (iPort s) (iPort base),
     iAuthRef := firstNonNil (iAuthRef s) (iAuthRef base), iJumpHost := firstNonNil (iJumpHost s) (iJumpHost base),
     iColorTag := firstNonNil (iColorTag s) (iColorTag base),
     iInitialCommand := firstNonNil (iInitialCommand s) (iInitialCommand base),
     iNetworkProfileID := firstNonNil (iNetworkProfileID s) (iNetworkProfileID base)\<rparr>"

fun clearFields :: "string list \<Rightarrow> inheritableSettings \<Rightarrow> storeError + inheritableSettings" where
  "clearFields [] s = Inr s"
| "clearFields (f # fs) s = (case clearField f s of None \<Rightarrow> Inl (UnknownField f) | Some s' \<Rightarrow> clearFields fs s')"

definition PatchConnectionOverridesTx ::
  "string \<Rightarrow> inheritableSettings \<Rightarrow> string list \<Rightarrow> storeDb \<Rightarrow> storeError + storeDb" where
  "PatchConnectionOverridesTx cid s clear db =
     (case GetConnection db cid of None \<Rightarrow> Inl ErrNotFound
      | Some c \<Rightarrow> bindr (clearFields clear (overlaySettings s (cOverrides c)))
          (\<lambda>out. updConn cid (\<lambda>c. c\<lparr>cOverrides := out\<rparr>) db))"

section \<open>Transactions\<close>

definition WithTx :: "(storeDb \<Rightarrow> 'e + 'a \<times> storeDb) \<Rightarrow> storeDb \<Rightarrow> ('e + 'a) \<times> storeDb" where
  "WithTx fn db = (case fn db of Inl e \<Rightarrow> (Inl e, db) | Inr (a, db') \<Rightarrow> (Inr a, db'))"

section \<open>What every statement keeps\<close>

text \<open>
  The interface of the statements: a property \<open>I\<close> of the store and the ids \<open>okF\<close>, \<open>okC\<close> of the rows that
  may be changed. An insert keeps the property and its new row may be changed; an update of a row that
  may be changed keeps it.
\<close>

definition keepsFolder :: "(folder \<Rightarrow> folder) \<Rightarrow> bool" where
  "keepsFolder g \<longleftrightarrow> (\<forall>f. fID (g f) = fID f \<and> fParentID (g f) = fParentID f)"

definition keepsConn :: "(connection \<Rightarrow> connection) \<Rightarrow> bool" where
  "keepsConn g \<longleftrightarrow> (\<forall>c. cID (g c) = cID c \<and> cFolderID (g c) = cFolderID c)"

locale store_invariant =
  fixes newID :: "nat \<Rightarrow> string" and I :: "storeDb \<Rightarrow> bool" and okF okC :: "string \<Rightarrow> bool"
  assumes add_folder: "I db \<Longrightarrow> insertFolder newID nf db = Inr (rid, db') \<Longrightarrow> I db' \<and> okF rid"
    and add_conn: "I db \<Longrightarrow> insertConnection newID nc db = Inr (rid, db') \<Longrightarrow> I db' \<and> okC rid"
    and add_forward: "I db \<Longrightarrow> insertPortForward newID np db = Inr (rid, db') \<Longrightarrow> I db'"
    and bookmark: "I db \<Longrightarrow> SetPortForwardBookmarksTx pid bs db = Inr db' \<Longrightarrow> I db'"
    and upd_folder: "I db \<Longrightarrow> okF fid \<Longrightarrow> keepsFolder g \<Longrightarrow> updFolder fid g db = Inr db' \<Longrightarrow> I db'"
    and upd_conn: "I db \<Longrightarrow> okC cid \<Longrightarrow> keepsConn h \<Longrightarrow> updConn cid h db = Inr db' \<Longrightarrow> I db'"
    and move_conn: "I db \<Longrightarrow> okC cid \<Longrightarrow> MoveConnectionTx cid to db = Inr db' \<Longrightarrow> I db'"
begin

lemma folder_settings: "I db \<Longrightarrow> okF fid \<Longrightarrow> UpdateFolderSettingsTx fid s db = Inr db' \<Longrightarrow> I db'"
  using upd_folder [of db fid "\<lambda>f. f\<lparr>fSettings := s\<rparr>"] by (simp add: UpdateFolderSettingsTx_def keepsFolder_def)

lemma folder_name: "I db \<Longrightarrow> okF fid \<Longrightarrow> RenameFolderTx fid s db = Inr db' \<Longrightarrow> I db'"
  using upd_folder [of db fid "\<lambda>f. f\<lparr>fName := s\<rparr>"] by (simp add: RenameFolderTx_def keepsFolder_def)

lemma conn_columns:
  assumes "I db" "okC cid"
  shows "RenameConnectionTx cid s db = Inr db' \<Longrightarrow> I db'" "SetConnectionHostnameTx cid s db = Inr db' \<Longrightarrow> I db'"
    "SetConnectionNotesTx cid s db = Inr db' \<Longrightarrow> I db'" "SetConnectionNamedIconTx cid s t db = Inr db' \<Longrightarrow> I db'"
    "SetConnectionIconTx cid s db = Inr db' \<Longrightarrow> I db'"
  by (auto simp: RenameConnectionTx_def SetConnectionHostnameTx_def SetConnectionNotesTx_def keepsConn_def
      SetConnectionNamedIconTx_def SetConnectionIconTx_def split: if_splits
      elim!: upd_conn [OF assms, rotated] simp del: split_paired_All)

lemma conn_overrides:
  "I db \<Longrightarrow> okC cid \<Longrightarrow> PatchConnectionOverridesTx cid s cl db = Inr db' \<Longrightarrow> I db'"
  by (auto simp: PatchConnectionOverridesTx_def keepsConn_def bindr_Inr_iff split: option.splits
      elim!: upd_conn [rotated 3])

end

section \<open>Rows no statement touches\<close>

text \<open>
  \<open>agree\<close>: the folders in \<open>F\<close> and the connections in \<open>C\<close> read as they did in an earlier store, and no
  id to come is one of them.
\<close>

definition agree :: "(nat \<Rightarrow> string) \<Rightarrow> string set \<Rightarrow> string set \<Rightarrow> storeDb \<Rightarrow> storeDb \<Rightarrow> bool" where
  "agree newID F C db0 db \<longleftrightarrow> (\<forall>n \<ge> dbNext db. newID n \<notin> F \<union> C) \<and>
     (\<forall>x \<in> F. folderIndex (dbFolders db) x = folderIndex (dbFolders db0) x) \<and>
     (\<forall>x \<in> C. GetConnection db x = GetConnection db0 x)"

lemma folderIndex_map_other: "x \<noteq> fid \<Longrightarrow> \<forall>f. fID (g f) = fID f \<Longrightarrow>
    folderIndex (map (\<lambda>f. if fID f = fid then g f else f) fs) x = folderIndex fs x"
  by (induction fs rule: rev_induct) (simp_all add: folderIndex_snoc)

lemma find_map_other: "x \<noteq> cid \<Longrightarrow> \<forall>c. cID (h c) = cID c \<Longrightarrow>
    find (\<lambda>c. cID c = x) (map (\<lambda>c. if cID c = cid then h c else c) cs) = find (\<lambda>c. cID c = x) cs"
  by (induction cs) auto

lemma find_append: "find P (xs @ ys) = (case find P xs of None \<Rightarrow> find P ys | Some x \<Rightarrow> Some x)"
  by (induction xs) auto

lemma find_hit: "distinct (map k xs) \<Longrightarrow> x \<in> set xs \<Longrightarrow> find (\<lambda>y. k y = k x) xs = Some x"
  by (induction xs) (auto simp: rev_image_eqI)

text \<open>What a statement that succeeded did.\<close>

lemma insertFolder_Inr:
  assumes "insertFolder newID nf db = Inr (rid, db')"
  obtains row where "rid = newID (dbNext db)" "fID row = rid" "fParentID row = nfParent nf"
    "refOK (map fID (dbFolders db)) (nfParent nf)" "fName row = nfName nf" "fSettings row = nfSettings nf"
    "db' = db\<lparr>dbFolders := dbFolders db @ [row], dbNext := Suc (dbNext db)\<rparr>"
  using assms by (intro that [of "last (dbFolders db')"]) (auto simp: insertFolder_def Let_def split: if_splits)

lemma insertConnection_Inr:
  assumes "insertConnection newID nc db = Inr (rid, db')"
  obtains row where "rid = newID (dbNext db)" "cID row = rid" "cFolderID row = ncFolder nc"
    "refOK (map fID (dbFolders db)) (ncFolder nc)"
    "db' = db\<lparr>dbConns := dbConns db @ [row], dbNext := Suc (dbNext db)\<rparr>"
  using assms by (intro that [of "last (dbConns db')"]) (auto simp: insertConnection_def Let_def split: if_splits)

lemma insertPortForward_Inr:
  assumes "insertPortForward newID np db = Inr (rid, db')"
  obtains row where "rid = newID (dbNext db)" "pfConn row \<in> cID ` set (dbConns db)"
    "db' = db\<lparr>dbForwards := dbForwards db @ [row], dbNext := Suc (dbNext db)\<rparr>"
  using assms by (intro that [of "last (dbForwards db')"]) (auto simp: insertPortForward_def Let_def split: if_splits)

lemma updConn_Inr: "updConn cid h db = Inr db' \<Longrightarrow>
    db' = db\<lparr>dbConns := map (\<lambda>c. if cID c = cid then (h c)\<lparr>cUpdatedAt := dbNow db\<rparr> else c) (dbConns db)\<rparr>"
  by (auto simp: updConn_def split: if_splits)

lemma updFolder_Inr: "updFolder fid g db = Inr db' \<Longrightarrow>
    db' = db\<lparr>dbFolders := map (\<lambda>f. if fID f = fid then (g f)\<lparr>fUpdatedAt := dbNow db\<rparr> else f) (dbFolders db)\<rparr>"
  by (auto simp: updFolder_def split: if_splits)

lemma MoveConnectionTx_Inr: "MoveConnectionTx cid to db = Inr db' \<Longrightarrow>
    updConn cid (\<lambda>c. c\<lparr>cFolderID := to\<rparr>) db = Inr db' \<and> refOK (map fID (dbFolders db)) to"
  by (auto simp: MoveConnectionTx_def updConn_def split: if_splits)

lemma agree_updConn:
  assumes "agree newID F C db0 db" "cid \<notin> C" "\<forall>c. cID (h c) = cID c" "updConn cid h db = Inr db'"
  shows "agree newID F C db0 db'"
proof -
  have "GetConnection db' x = GetConnection db x" if "x \<in> C" for x
    using that assms(2,3) updConn_Inr [OF assms(4)] by (auto simp: GetConnection_def intro!: find_map_other)
  then show ?thesis using assms(1) updConn_Inr [OF assms(4)] by (simp add: agree_def)
qed

interpretation untouched: store_invariant newID "agree newID F C db0" "\<lambda>x. x \<notin> F" "\<lambda>x. x \<notin> C"
  for newID F C db0
proof (unfold_locales, goal_cases)
  case (1 db nf rid db')
  then show ?case
    by (elim insertFolder_Inr) (auto simp: agree_def folderIndex_snoc GetConnection_def)
next
  case (2 db nc rid db')
  then obtain row where row: "rid = newID (dbNext db)" "cID row = rid"
      "db' = db\<lparr>dbConns := dbConns db @ [row], dbNext := Suc (dbNext db)\<rparr>"
    by (elim insertConnection_Inr) auto
  have "rid \<notin> C" using 2(1) row(1) by (simp add: agree_def)
  then have "GetConnection db' x = GetConnection db x" if "x \<in> C" for x
    using that row(2,3) by (auto simp: GetConnection_def find_append split: option.splits)
  then show ?case using 2(1) row \<open>rid \<notin> C\<close> by (simp add: agree_def)
next
  case (3 db np rid db')
  then show ?case by (elim insertPortForward_Inr) (simp add: agree_def GetConnection_def)
next
  case (4 db pid bs db')
  then show ?case by (auto simp: agree_def SetPortForwardBookmarksTx_def GetConnection_def)
next
  case (5 db fid g db')
  have "folderIndex (dbFolders db') x = folderIndex (dbFolders db) x" if "x \<in> F" for x
    using that 5(2,3) updFolder_Inr [OF 5(4)] by (auto simp: keepsFolder_def intro!: folderIndex_map_other)
  then show ?case using 5(1) updFolder_Inr [OF 5(4)] by (simp add: agree_def GetConnection_def)
next
  case (6 db cid h db')
  then show ?case using agree_updConn [of newID F C db0 db cid h db'] by (simp add: keepsConn_def)
next
  case (7 db cid to db')
  then show ?case
    using agree_updConn [of newID F C db0 db cid "\<lambda>c. c\<lparr>cFolderID := to\<rparr>" db'] MoveConnectionTx_Inr by auto
qed

section \<open>A well-formed store\<close>

text \<open>Ids are unique, references name rows, and no id to come is taken.\<close>

definition wfStore :: "(nat \<Rightarrow> string) \<Rightarrow> storeDb \<Rightarrow> bool" where
  "wfStore newID db \<longleftrightarrow> inj newID \<and>
     distinct (map fID (dbFolders db)) \<and> distinct (map cID (dbConns db)) \<and>
     (\<forall>f \<in> set (dbFolders db). refOK (map fID (dbFolders db)) (fParentID f)) \<and>
     (\<forall>c \<in> set (dbConns db). refOK (map fID (dbFolders db)) (cFolderID c)) \<and>
     (\<forall>p \<in> set (dbForwards db). pfConn p \<in> cID ` set (dbConns db)) \<and>
     (\<forall>n \<ge> dbNext db. newID n \<notin> fID ` set (dbFolders db) \<and> newID n \<notin> cID ` set (dbConns db))"

lemma refOK_more: "refOK ids r \<Longrightarrow> set ids \<subseteq> set ids' \<Longrightarrow> refOK ids' r"
  by (auto simp: refOK_def split: option.splits)

lemma map_upd: "(\<And>x. k (g x) = k x) \<Longrightarrow> map k (map (\<lambda>x. if k x = i then g x else x) xs) = map k xs"
  by (induction xs) auto

lemma wf_updConn:
  assumes "wfStore newID db" "updConn cid h db = Inr db'" "\<And>c. cID (h c) = cID c"
    "\<And>c. c \<in> set (dbConns db) \<Longrightarrow> refOK (map fID (dbFolders db)) (cFolderID (h c))"
  shows "wfStore newID db'"
proof -
  let ?h = "\<lambda>c. (h c)\<lparr>cUpdatedAt := dbNow db\<rparr>"
  note db' = updConn_Inr [OF assms(2)]
  have "map cID (dbConns db') = map cID (dbConns db)"
    unfolding db' using map_upd [of cID ?h cid "dbConns db"] assms(3) by simp
  moreover from this have "cID ` set (dbConns db') = cID ` set (dbConns db)" by (metis set_map)
  moreover have "\<forall>c \<in> set (dbConns db'). refOK (map fID (dbFolders db)) (cFolderID c)"
    using assms(1,4) by (auto simp: db' wfStore_def)
  moreover have "dbFolders db' = dbFolders db" "dbForwards db' = dbForwards db" "dbNext db' = dbNext db"
    by (simp_all add: db')
  ultimately show ?thesis using assms(1) unfolding wfStore_def by presburger
qed

lemma wf_updFolder:
  assumes "wfStore newID db" "keepsFolder g" "updFolder fid g db = Inr db'"
  shows "wfStore newID db'"
proof -
  let ?g = "\<lambda>f. (g f)\<lparr>fUpdatedAt := dbNow db\<rparr>"
  note db' = updFolder_Inr [OF assms(3)]
  have "map fID (dbFolders db') = map fID (dbFolders db)"
    unfolding db' using map_upd [of fID ?g fid "dbFolders db"] assms(2) by (simp add: keepsFolder_def)
  moreover from this have "fID ` set (dbFolders db') = fID ` set (dbFolders db)" by (metis set_map)
  moreover have "\<forall>f \<in> set (dbFolders db'). refOK (map fID (dbFolders db)) (fParentID f)"
    using assms(1,2) by (auto simp: db' wfStore_def keepsFolder_def)
  moreover have "dbConns db' = dbConns db" "dbForwards db' = dbForwards db" "dbNext db' = dbNext db"
    by (simp_all add: db')
  ultimately show ?thesis using assms(1) unfolding wfStore_def by presburger
qed

lemma wf_insertFolder:
  assumes "wfStore newID db" "insertFolder newID nf db = Inr (rid, db')"
  shows "wfStore newID db'"
proof -
  obtain row where row: "rid = newID (dbNext db)" "fID row = rid" "fParentID row = nfParent nf"
      "refOK (map fID (dbFolders db)) (nfParent nf)"
      "db' = db\<lparr>dbFolders := dbFolders db @ [row], dbNext := Suc (dbNext db)\<rparr>"
    using assms(2) by (elim insertFolder_Inr) auto
  have new: "newID n \<noteq> rid" if "Suc (dbNext db) \<le> n" for n
    using that assms(1) row(1) by (auto simp: wfStore_def inj_eq)
  have "refOK (map fID (dbFolders db')) r" if "refOK (map fID (dbFolders db)) r" for r
    using that row(5) by (auto elim!: refOK_more)
  then show ?thesis using assms(1) row new by (simp add: wfStore_def)
qed

lemma wf_insertConnection:
  assumes "wfStore newID db" "insertConnection newID nc db = Inr (rid, db')"
  shows "wfStore newID db'"
proof -
  obtain row where row: "rid = newID (dbNext db)" "cID row = rid" "cFolderID row = ncFolder nc"
      "refOK (map fID (dbFolders db)) (ncFolder nc)"
      "db' = db\<lparr>dbConns := dbConns db @ [row], dbNext := Suc (dbNext db)\<rparr>"
    using assms(2) by (elim insertConnection_Inr) auto
  have new: "newID n \<noteq> rid" if "Suc (dbNext db) \<le> n" for n
    using that assms(1) row(1) by (auto simp: wfStore_def inj_eq)
  then show ?thesis using assms(1) row by (simp add: wfStore_def)
qed

interpretation wellformed: store_invariant newID "wfStore newID" "\<lambda>_. True" "\<lambda>_. True"
  for newID
proof (unfold_locales, goal_cases)
  case (1 db nf rid db')
  then show ?case using wf_insertFolder by blast
next
  case (2 db nc rid db')
  then show ?case using wf_insertConnection by blast
next
  case (3 db np rid db')
  then show ?case by (elim insertPortForward_Inr) (simp add: wfStore_def)
next
  case (4 db pid bs db')
  then show ?case by (auto simp: wfStore_def SetPortForwardBookmarksTx_def)
next
  case (5 db fid g db')
  then show ?case using wf_updFolder by blast
next
  case (6 db cid h db')
  then show ?case by (intro wf_updConn [OF 6(1,4)]) (auto simp: keepsConn_def wfStore_def)
next
  case (7 db cid to db')
  show ?case using MoveConnectionTx_Inr [OF 7(3)] wf_updConn [OF 7(1), of cid "\<lambda>c. c\<lparr>cFolderID := to\<rparr>"] by simp
qed

end
