(* ===== verification/McpPlan.thy ===== *)
theory McpPlan
  imports PlanStore GoRegexp Utf8
begin

text \<open>
  The language model's bulk provisioning, \<open>app_mcp_plan.go\<close>: tools stage typed entries in a plan, a commit
  takes the plan out, checks its references, asks the user and writes everything in one transaction.
  Each staging tool is a function on the plan's state; a commit runs over the environment's change of
  state while the approval waits. The store runs on one connection, so a read outside the transaction
  while it is open never returns: an outcome is \<open>None\<close> then. \<open>strings.EqualFold\<close> is an argument, its
  Unicode tables are not modelled.
\<close>

section \<open>Entries\<close>

record planRef =
  refTemp :: string
  refExisting :: string

definition noRef :: planRef where "noRef = \<lparr>refTemp = [], refExisting = []\<rparr>"

definition refEmpty :: "planRef \<Rightarrow> bool" where
  "refEmpty r \<longleftrightarrow> refTemp r = [] \<and> refExisting r = []"

definition parsePlanRef :: "string \<Rightarrow> planRef" where
  "parsePlanRef s0 =
     (let s = TrimSpace s0
      in if s = [] then noRef
         else case CutPrefix s ''tmp:'' of
           Some rest \<Rightarrow> noRef\<lparr>refTemp := rest\<rparr>
         | None \<Rightarrow> noRef\<lparr>refExisting := s\<rparr>)"

record folderSettingsInput =
  siUser :: string
  siPort :: "16 word"
  siAuthRef :: string
  siNetworkProfileID :: string
  siInitialCommand :: string
  siJumpHost :: string
  siJumpUser :: string
  siJumpPort :: "16 word"
  siJumpAuthRef :: string
  siJumpConnection :: string
  siColorTag :: string

definition settingsInputEmpty :: "folderSettingsInput \<Rightarrow> bool" where
  "settingsInputEmpty f \<longleftrightarrow> siUser f = [] \<and> siPort f = 0 \<and> siAuthRef f = [] \<and> siNetworkProfileID f = [] \<and>
     siInitialCommand f = [] \<and> siJumpHost f = [] \<and> siJumpUser f = [] \<and> siJumpPort f = 0 \<and>
     siJumpAuthRef f = [] \<and> siJumpConnection f = [] \<and> siColorTag f = []"

record planFolder =
  pfoTempID :: string
  pfoName :: string
  pfoParent :: planRef
  pfoSettings :: "folderSettingsInput option"

record planJump =
  pjHost :: string
  pjUser :: string
  pjPort :: "16 word"
  pjAuthRef :: string

record planConn =
  pcTempID :: string
  pcName :: string
  pcHost :: string
  pcPort :: "16 word"
  pcUser :: string
  pcFolder :: planRef
  pcAuthRef :: string
  pcNetworkProfileID :: string
  pcJump :: "planJump option"
  pcJumpConn :: string
  pcInitialCommand :: string
  pcTags :: "string list"
  pcNotes :: string
  pcIcon :: string
  pcIconColor :: string
  pcIconImage :: string

record planForward =
  pwTempID :: string
  pwConn :: planRef
  pwKind :: string
  pwLocalAddr :: string
  pwLocalPort :: "16 word"
  pwRemoteHost :: string
  pwRemotePort :: "16 word"
  pwAutoStart :: bool
  pwDesc :: string

record planEditConn =
  peConnID :: string
  peName :: "string option"
  peHost :: "string option"
  peFolder :: "planRef option"
  peNotes :: "string option"
  peSetSettings :: inheritableSettings
  peClearSettings :: "string list"
  peIcon :: "string option"
  peIconColor :: "string option"
  peIconImage :: "string option"

text \<open>The plan; settings of existing folders, renames and bookmark sets are pairs of their two fields.\<close>

record mcpPlan =
  mpFolders :: "planFolder list"
  mpFolderSettings :: "(string \<times> folderSettingsInput) list"
  mpConns :: "planConn list"
  mpForwards :: "planForward list"
  mpBookmarks :: "(planRef \<times> (string \<times> string) list) list"
  mpEditConns :: "planEditConn list"
  mpEditFolders :: "(string \<times> string) list"

definition emptyPlan :: mcpPlan where
  "emptyPlan = \<lparr>mpFolders = [], mpFolderSettings = [], mpConns = [], mpForwards = [], mpBookmarks = [],
     mpEditConns = [], mpEditFolders = []\<rparr>"

record mcpState =
  msManage :: bool
  msPlan :: "mcpPlan option"
  msTemps :: nat                 \<comment> \<open>temp ids handed out so far\<close>

datatype planError =
    ManageOff | FolderNameRequired | FolderExists string | FolderStaged string | RefRequired
  | NoSettingsGiven | BothJumps | NoInventoryHost string | NoJumpConnection string
  | SensitiveConn | SensitiveFolder | UnknownColor string | NoStagedFolder string
  | NameRequired | HostRequired | UnknownIcon string | UnknownIconColor string | ColorNeedsIcon
  | BothIcons | NoImage string | BadKind | RemoteRequired | BookmarkIncomplete | NoConnection string
  | JumpEmpty | OwnJump | NothingToChange | NoFolder string
  | NoPlan | UnknownRef string | UnknownClear string | Rejected | NotCreated string | StoreFailed storeError

definition getOrInitPlan :: "mcpState \<Rightarrow> mcpPlan" where
  "getOrInitPlan st = (case msPlan st of None \<Rightarrow> emptyPlan | Some p \<Rightarrow> p)"

section \<open>Icons and colours\<close>

definition builtinIcons :: "string list" where
  "builtinIcons = [''server'', ''database'', ''container'', ''boxes'', ''cloud'', ''router'', ''network'', ''wifi'',
     ''globe'', ''earth'', ''hard-drive'', ''hard-drive-download'', ''cpu'', ''monitor'', ''laptop'', ''smartphone'',
     ''apple'', ''printer'', ''cctv'', ''terminal'', ''shield-check'', ''lock'', ''key'', ''git-branch'', ''box'',
     ''package'', ''layers'', ''mail'', ''activity'', ''gauge'', ''bug'', ''flame'', ''zap'', ''rocket'', ''cog'',
     ''house'', ''building'', ''folder'', ''bot'', ''sparkles'', ''radio-tower'', ''plug'', ''lightbulb'']"

definition validIconName :: "string \<Rightarrow> bool" where
  "validIconName name \<longleftrightarrow> name \<in> set builtinIcons"

definition iconPaletteColors :: "string list" where
  "iconPaletteColors = [''red'', ''orange'', ''yellow'', ''green'', ''teal'', ''blue'', ''mauve'', ''pink'']"

definition validIconColor :: "string \<Rightarrow> bool" where
  "validIconColor color \<longleftrightarrow> color = [] \<or> color \<in> set iconPaletteColors"

definition validColorTag :: "string \<Rightarrow> bool" where
  "validColorTag c \<longleftrightarrow> c = [] \<or> validIconColor c \<or>
     (length c = 7 \<and> hd c = CHR ''#'' \<and> list_all hexA (tl c))"

section \<open>Jump hosts of an entry\<close>

definition jumpConnOverride :: "string \<Rightarrow> jumpHostOverride" where
  "jumpConnOverride ref = \<lparr>oKind = ''chain'', oChain = Some (JumpHostSpec [] None None None (Some ref) None [])\<rparr>"

text \<open>A non-zero field as a pointer.\<close>

definition nonEmpty :: "string \<Rightarrow> string option" where
  "nonEmpty s = (if s \<noteq> [] then Some s else None)"

definition nonZero :: "16 word \<Rightarrow> 16 word option" where
  "nonZero p = (if p \<noteq> 0 then Some p else None)"

definition inlineJump :: "string \<Rightarrow> string \<Rightarrow> 16 word \<Rightarrow> string \<Rightarrow> jumpHostOverride" where
  "inlineJump host user port auth = \<lparr>oKind = ''chain'',
     oChain = Some (JumpHostSpec host (nonZero port) (nonEmpty user) (nonEmpty auth) None None [])\<rparr>"

definition toInheritable :: "folderSettingsInput \<Rightarrow> inheritableSettings" where
  "toInheritable f = noSettings\<lparr>
     iUsername := nonEmpty (siUser f), iPort := nonZero (siPort f), iAuthRef := nonEmpty (siAuthRef f),
     iNetworkProfileID := nonEmpty (siNetworkProfileID f),
     iInitialCommand := (if TrimSpace (siInitialCommand f) \<noteq> [] then Some (siInitialCommand f) else None),
     iColorTag := nonEmpty (siColorTag f),
     iJumpHost := (if siJumpConnection f \<noteq> [] then Some (jumpConnOverride (siJumpConnection f))
                   else if siJumpHost f \<noteq> [] then
                     Some (inlineJump (siJumpHost f) (siJumpUser f) (siJumpPort f) (siJumpAuthRef f))
                   else None)\<rparr>"

text \<open>\<open>strings.LastIndex(rest, ":")\<close>: what follows the last colon, all of it when there is none.\<close>

definition afterLastColon :: "string \<Rightarrow> string" where
  "afterLastColon rest = rev (takeWhile (\<lambda>c. c \<noteq> CHR '':'') (rev rest))"

definition normalizeJumpConnection :: "storeDb \<Rightarrow> string \<Rightarrow> planError + string" where
  "normalizeJumpConnection db raw0 =
     (let raw = TrimSpace raw0
      in if raw = [] then Inr []
         else if HasPrefix raw ''tmp:'' then Inr raw
         else if ParseDynRef raw \<noteq> None then Inr raw
         else case CutPrefix raw ''dyn:'' of
           Some rest \<Rightarrow>
             (case map_of (dbEntries db) (afterLastColon rest) of
                None \<Rightarrow> Inl (NoInventoryHost raw)
              | Some (folderID, externalID) \<Rightarrow>
                  if externalID = [] then Inl (NoInventoryHost raw) else Inr (DynRef folderID externalID))
         | None \<Rightarrow>
             (case GetConnection db raw of
                None \<Rightarrow> Inl (NoJumpConnection raw)
              | Some c \<Rightarrow> if isSensitive (Some (dbFolders db)) c then Inl SensitiveConn else Inr raw))"

definition hasJumpTemp :: "jumpHostOverride option \<Rightarrow> bool" where
  "hasJumpTemp jh = (case jh of None \<Rightarrow> False
     | Some o' \<Rightarrow> list_ex (\<lambda>h. case jConnectionID h of None \<Rightarrow> False | Some r \<Rightarrow> HasPrefix r ''tmp:'') (hopList (oChain o')))"

fun resolveHops :: "(string \<rightharpoonup> string) \<Rightarrow> jumpHostSpec option \<Rightarrow> planError + jumpHostSpec option" where
  "resolveHops ids None = Inr None"
| "resolveHops ids (Some (JumpHostSpec h p u a c via n)) =
     bindr (case c of None \<Rightarrow> Inr None
            | Some r \<Rightarrow> (case CutPrefix r ''tmp:'' of
                None \<Rightarrow> Inr (Some r)
              | Some tmp \<Rightarrow> (case ids tmp of None \<Rightarrow> Inl (NotCreated r) | Some rid \<Rightarrow> Inr (Some rid))))
       (\<lambda>c'. bindr (resolveHops ids via) (\<lambda>via'. Inr (Some (JumpHostSpec h p u a c' via' n))))"

definition resolveJumpTemps :: "(string \<rightharpoonup> string) \<Rightarrow> jumpHostOverride option \<Rightarrow> planError + jumpHostOverride option" where
  "resolveJumpTemps ids jh = (case jh of None \<Rightarrow> Inr None
     | Some o' \<Rightarrow> bindr (resolveHops ids (oChain o')) (\<lambda>ch. Inr (Some (o'\<lparr>oChain := ch\<rparr>))))"

section \<open>Staging\<close>

text \<open>\<open>newTemp n\<close> is the n-th temp id handed out.\<close>

definition planAddFolder :: "(string \<Rightarrow> string \<Rightarrow> bool) \<Rightarrow> (nat \<Rightarrow> string) \<Rightarrow> storeDb \<Rightarrow> string \<Rightarrow> string \<Rightarrow> mcpState \<Rightarrow>
    (planError + string) \<times> mcpState" where
  "planAddFolder EqualFold newTemp db name0 parent st =
     (if \<not> msManage st then (Inl ManageOff, st)
      else let name = TrimSpace name0; ref = parsePlanRef parent in
      if name = [] then (Inl FolderNameRequired, st)
      else case (if refTemp ref \<noteq> [] then None
                 else find (\<lambda>f. (case fParentID f of None \<Rightarrow> refExisting ref = [] | Some q \<Rightarrow> q = refExisting ref)
                               \<and> EqualFold (fName f) name) (dbFolders db)) of
        Some f \<Rightarrow> (Inl (FolderExists (fID f)), st)
      | None \<Rightarrow>
          (let p = getOrInitPlan st in
           case find (\<lambda>f. pfoParent f = ref \<and> EqualFold (pfoName f) name) (mpFolders p) of
             Some f \<Rightarrow> (Inl (FolderStaged (pfoTempID f)), st\<lparr>msPlan := Some p\<rparr>)
           | None \<Rightarrow>
               (let tid = newTemp (msTemps st);
                    row = \<lparr>pfoTempID = tid, pfoName = name, pfoParent = ref, pfoSettings = None\<rparr>
                in (Inr tid, st\<lparr>msPlan := Some (p\<lparr>mpFolders := mpFolders p @ [row]\<rparr>), msTemps := Suc (msTemps st)\<rparr>))))"

text \<open>The first entry that matches is changed, as the loops with an early return do.\<close>

fun updFirst :: "('a \<Rightarrow> bool) \<Rightarrow> ('a \<Rightarrow> 'a) \<Rightarrow> 'a list \<Rightarrow> 'a list option" where
  "updFirst P g [] = None"
| "updFirst P g (x # xs) = (if P x then Some (g x # xs) else map_option ((#) x) (updFirst P g xs))"

definition planSetFolderSettings :: "storeDb \<Rightarrow> string \<Rightarrow> folderSettingsInput \<Rightarrow> mcpState \<Rightarrow>
    (planError + unit) \<times> mcpState" where
  "planSetFolderSettings db folder s st =
     (if \<not> msManage st then (Inl ManageOff, st)
      else let ref = parsePlanRef folder in
      if refEmpty ref then (Inl RefRequired, st)
      else if settingsInputEmpty s then (Inl NoSettingsGiven, st)
      else if siJumpConnection s \<noteq> [] \<and> siJumpHost s \<noteq> [] then (Inl BothJumps, st)
      else case normalizeJumpConnection db (siJumpConnection s) of
        Inl e \<Rightarrow> (Inl e, st)
      | Inr jc \<Rightarrow>
          (if refExisting ref \<noteq> [] \<and> folderTouchesSensitive (Some (dbFolders db)) (Some (dbConns db)) (refExisting ref)
           then (Inl SensitiveFolder, st)
           else let s' = s\<lparr>siJumpConnection := jc, siColorTag := TrimSpace (siColorTag s)\<rparr> in
           if \<not> validColorTag (siColorTag s') then (Inl (UnknownColor (siColorTag s')), st)
           else let p = getOrInitPlan st in
           if refTemp ref \<noteq> [] then
             (case updFirst (\<lambda>f. pfoTempID f = refTemp ref) (\<lambda>f. f\<lparr>pfoSettings := Some s'\<rparr>) (mpFolders p) of
                Some fs \<Rightarrow> (Inr (), st\<lparr>msPlan := Some (p\<lparr>mpFolders := fs\<rparr>)\<rparr>)
              | None \<Rightarrow> (Inl (NoStagedFolder (refTemp ref)), st\<lparr>msPlan := Some p\<rparr>))
           else
             (case updFirst (\<lambda>e. fst e = refExisting ref) (\<lambda>e. (fst e, s')) (mpFolderSettings p) of
                Some es \<Rightarrow> (Inr (), st\<lparr>msPlan := Some (p\<lparr>mpFolderSettings := es\<rparr>)\<rparr>)
              | None \<Rightarrow> (Inr (), st\<lparr>msPlan := Some (p\<lparr>mpFolderSettings := mpFolderSettings p @ [(refExisting ref, s')]\<rparr>)\<rparr>))))"

record planConnInput =
  piName :: string
  piHost :: string
  piPort :: "16 word"
  piUser :: string
  piFolder :: string
  piAuthRef :: string
  piNetworkProfileID :: string
  piJumpHost :: string
  piJumpUser :: string
  piJumpPort :: "16 word"
  piJumpAuthRef :: string
  piJumpConnection :: string
  piInitialCommand :: string
  piTags :: "string list"
  piNotes :: string
  piIcon :: string
  piIconColor :: string
  piIconImage :: string

text \<open>The checks in front of the staging, as the first error.\<close>

definition connInputError :: "storeDb \<Rightarrow> planConnInput \<Rightarrow> planError option" where
  "connInputError db inp =
     (let icon = TrimSpace (piIcon inp); color = TrimSpace (piIconColor inp); img = TrimSpace (piIconImage inp)
      in if TrimSpace (piName inp) = [] then Some NameRequired
         else if TrimSpace (piHost inp) = [] then Some HostRequired
         else if icon \<noteq> [] \<and> \<not> validIconName icon then Some (UnknownIcon icon)
         else if \<not> validIconColor color then Some (UnknownIconColor color)
         else if icon = [] \<and> color \<noteq> [] then Some ColorNeedsIcon
         else if img \<noteq> [] \<and> icon \<noteq> [] then Some BothIcons
         else if img \<noteq> [] \<and> \<not> ImageExists db img then Some (NoImage img)
         else None)"

definition planAddConnection :: "(nat \<Rightarrow> string) \<Rightarrow> storeDb \<Rightarrow> planConnInput \<Rightarrow> mcpState \<Rightarrow>
    (planError + string) \<times> mcpState" where
  "planAddConnection newTemp db inp st =
     (if \<not> msManage st then (Inl ManageOff, st)
      else case connInputError db inp of Some e \<Rightarrow> (Inl e, st)
      | None \<Rightarrow>
          (let tid = newTemp (msTemps st);
               jh = TrimSpace (piJumpHost inp);
               st1 = st\<lparr>msTemps := Suc (msTemps st)\<rparr>;
               jump = (if jh \<noteq> [] then Some \<lparr>pjHost = jh, pjUser = TrimSpace (piJumpUser inp),
                         pjPort = piJumpPort inp, pjAuthRef = TrimSpace (piJumpAuthRef inp)\<rparr> else None);
               c = \<lparr>pcTempID = tid, pcName = TrimSpace (piName inp), pcHost = TrimSpace (piHost inp),
                    pcPort = piPort inp, pcUser = TrimSpace (piUser inp), pcFolder = parsePlanRef (piFolder inp),
                    pcAuthRef = TrimSpace (piAuthRef inp), pcNetworkProfileID = TrimSpace (piNetworkProfileID inp),
                    pcJump = jump, pcJumpConn = [], pcInitialCommand = piInitialCommand inp, pcTags = piTags inp,
                    pcNotes = TrimSpace (piNotes inp), pcIcon = TrimSpace (piIcon inp),
                    pcIconColor = TrimSpace (piIconColor inp), pcIconImage = TrimSpace (piIconImage inp)\<rparr>;
               add = (\<lambda>c. (Inr tid, st1\<lparr>msPlan := Some ((getOrInitPlan st)\<lparr>mpConns := mpConns (getOrInitPlan st) @ [c]\<rparr>)\<rparr>))
           in if TrimSpace (piJumpConnection inp) = [] then add c
              else if jump \<noteq> None then (Inl BothJumps, st1)
              else case normalizeJumpConnection db (piJumpConnection inp) of
                Inl e \<Rightarrow> (Inl e, st1)
              | Inr jc \<Rightarrow> add (c\<lparr>pcJumpConn := jc\<rparr>)))"

definition planAddForward :: "unicodeTables \<Rightarrow> (nat \<Rightarrow> string) \<Rightarrow> storeDb \<Rightarrow> string \<Rightarrow> planForward \<Rightarrow> mcpState \<Rightarrow>
    (planError + string) \<times> mcpState" where
  "planAddForward ut newTemp db conn inp st =
     (if \<not> msManage st then (Inl ManageOff, st)
      else let kind = TrimSpace (ToLower ut (pwKind inp)); ref = parsePlanRef conn in
      if kind \<notin> {''local'', ''remote'', ''dynamic''} then (Inl BadKind, st)
      else if refEmpty ref then (Inl RefRequired, st)
      else if refExisting ref \<noteq> [] \<and> (case GetConnection db (refExisting ref) of None \<Rightarrow> False
             | Some c \<Rightarrow> isSensitive (Some (dbFolders db)) c) then (Inl SensitiveConn, st)
      else if kind \<noteq> ''dynamic'' \<and> (TrimSpace (pwRemoteHost inp) = [] \<or> pwRemotePort inp = 0) then (Inl RemoteRequired, st)
      else let p = getOrInitPlan st; tid = newTemp (msTemps st);
               row = \<lparr>pwTempID = tid, pwConn = ref, pwKind = kind, pwLocalAddr = TrimSpace (pwLocalAddr inp),
                      pwLocalPort = (if kind = ''dynamic'' then 0 else pwLocalPort inp),
                      pwRemoteHost = TrimSpace (pwRemoteHost inp), pwRemotePort = pwRemotePort inp,
                      pwAutoStart = pwAutoStart inp, pwDesc = pwDesc inp\<rparr>
           in (Inr tid, st\<lparr>msPlan := Some (p\<lparr>mpForwards := mpForwards p @ [row]\<rparr>), msTemps := Suc (msTemps st)\<rparr>))"

definition planSetBookmarks :: "string \<Rightarrow> (string \<times> string) list \<Rightarrow> mcpState \<Rightarrow> (planError + unit) \<times> mcpState" where
  "planSetBookmarks forward bs st =
     (if \<not> msManage st then (Inl ManageOff, st)
      else let ref = parsePlanRef forward in
      if refEmpty ref then (Inl RefRequired, st)
      else if list_ex (\<lambda>(name, url). TrimSpace name = [] \<or> TrimSpace url = []) bs then (Inl BookmarkIncomplete, st)
      else let p = getOrInitPlan st
           in (Inr (), st\<lparr>msPlan := Some (p\<lparr>mpBookmarks := mpBookmarks p @ [(ref, bs)]\<rparr>)\<rparr>))"

record editConnInput =
  eiConnID :: string
  eiName :: "string option"
  eiHost :: "string option"
  eiUser :: "string option"
  eiPort :: "16 word option"
  eiAuthRef :: "string option"
  eiNetworkProfileID :: "string option"
  eiInitialCommand :: "string option"
  eiFolder :: "string option"
  eiNotes :: "string option"
  eiIcon :: "string option"
  eiIconColor :: "string option"
  eiIconImage :: "string option"
  eiJumpConnection :: "string option"
  eiClear :: "string list"

definition settingsEmpty :: "inheritableSettings \<Rightarrow> bool" where
  "settingsEmpty s \<longleftrightarrow> iUsername s = None \<and> iPort s = None \<and> iAuthRef s = None \<and>
     iNetworkProfileID s = None \<and> iInitialCommand s = None \<and> iJumpHost s = None"

definition mergeConnEdit :: "planEditConn \<Rightarrow> planEditConn \<Rightarrow> planEditConn" where
  "mergeConnEdit a b = a\<lparr>
     peName := firstNonNil (peName b) (peName a), peHost := firstNonNil (peHost b) (peHost a),
     peFolder := firstNonNil (peFolder b) (peFolder a), peNotes := firstNonNil (peNotes b) (peNotes a),
     peIcon := firstNonNil (peIcon b) (peIcon a), peIconColor := firstNonNil (peIconColor b) (peIconColor a),
     peIconImage := firstNonNil (peIconImage b) (peIconImage a),
     peSetSettings := (peSetSettings a)\<lparr>
       iUsername := firstNonNil (iUsername (peSetSettings b)) (iUsername (peSetSettings a)),
       iPort := firstNonNil (iPort (peSetSettings b)) (iPort (peSetSettings a)),
       iAuthRef := firstNonNil (iAuthRef (peSetSettings b)) (iAuthRef (peSetSettings a)),
       iNetworkProfileID := firstNonNil (iNetworkProfileID (peSetSettings b)) (iNetworkProfileID (peSetSettings a)),
       iInitialCommand := firstNonNil (iInitialCommand (peSetSettings b)) (iInitialCommand (peSetSettings a)),
       iJumpHost := firstNonNil (iJumpHost (peSetSettings b)) (iJumpHost (peSetSettings a))\<rparr>,
     peClearSettings := peClearSettings a @ peClearSettings b\<rparr>"

text \<open>The jump host of an edit: unset, or a checked reference other than the connection itself.\<close>

definition editJump :: "storeDb \<Rightarrow> editConnInput \<Rightarrow> planError + jumpHostOverride option" where
  "editJump db inp = (case eiJumpConnection inp of None \<Rightarrow> Inr None
     | Some raw \<Rightarrow>
         if TrimSpace raw = [] then Inl JumpEmpty
         else bindr (normalizeJumpConnection db raw)
           (\<lambda>jc. if jc = eiConnID inp then Inl OwnJump else Inr (Some (jumpConnOverride jc))))"

definition editIconError :: "storeDb \<Rightarrow> editConnInput \<Rightarrow> planError option" where
  "editIconError db inp =
     (let icon = map_option TrimSpace (eiIcon inp); color = map_option TrimSpace (eiIconColor inp);
          img = map_option TrimSpace (eiIconImage inp)
      in if icon \<noteq> None \<and> the icon \<noteq> [] \<and> \<not> validIconName (the icon) then Some (UnknownIcon (the icon))
         else if color \<noteq> None \<and> \<not> validIconColor (the color) then Some (UnknownIconColor (the color))
         else if img \<noteq> None \<and> the img \<noteq> [] \<and> icon \<noteq> None \<and> the icon \<noteq> [] then Some BothIcons
         else if img \<noteq> None \<and> the img \<noteq> [] \<and> \<not> ImageExists db (the img) then Some (NoImage (the img))
         else None)"

definition editOf :: "editConnInput \<Rightarrow> jumpHostOverride option \<Rightarrow> planEditConn" where
  "editOf inp jump = \<lparr>peConnID = eiConnID inp, peName = map_option TrimSpace (eiName inp),
     peHost = map_option TrimSpace (eiHost inp), peFolder = map_option parsePlanRef (eiFolder inp),
     peNotes = map_option TrimSpace (eiNotes inp),
     peSetSettings = noSettings\<lparr>iUsername := eiUser inp, iPort := eiPort inp, iAuthRef := eiAuthRef inp,
       iNetworkProfileID := eiNetworkProfileID inp, iInitialCommand := eiInitialCommand inp, iJumpHost := jump\<rparr>,
     peClearSettings = filter (\<lambda>c. c \<noteq> []) (map TrimSpace (eiClear inp)),
     peIcon = map_option TrimSpace (eiIcon inp), peIconColor = map_option TrimSpace (eiIconColor inp),
     peIconImage = map_option TrimSpace (eiIconImage inp)\<rparr>"

definition editChangesNothing :: "planEditConn \<Rightarrow> bool" where
  "editChangesNothing e \<longleftrightarrow> peName e = None \<and> peHost e = None \<and> peFolder e = None \<and> peNotes e = None \<and>
     peIcon e = None \<and> peIconColor e = None \<and> peIconImage e = None \<and> peClearSettings e = [] \<and> settingsEmpty (peSetSettings e)"

definition stageEdit :: "planEditConn \<Rightarrow> mcpPlan \<Rightarrow> mcpPlan" where
  "stageEdit e p = (case updFirst (\<lambda>a. peConnID a = peConnID e) (\<lambda>a. mergeConnEdit a e) (mpEditConns p) of
     Some es \<Rightarrow> p\<lparr>mpEditConns := es\<rparr> | None \<Rightarrow> p\<lparr>mpEditConns := mpEditConns p @ [e]\<rparr>)"

definition planEditConnection :: "storeDb \<Rightarrow> editConnInput \<Rightarrow> mcpState \<Rightarrow> (planError + unit) \<times> mcpState" where
  "planEditConnection db inp st =
     (if \<not> msManage st then (Inl ManageOff, st)
      else if TrimSpace (eiConnID inp) = [] then (Inl RefRequired, st)
      else case GetConnection db (eiConnID inp) of
        None \<Rightarrow> (Inl (NoConnection (eiConnID inp)), st)
      | Some c \<Rightarrow>
          if isSensitive (Some (dbFolders db)) c then (Inl SensitiveConn, st)
          else if eiName inp \<noteq> None \<and> TrimSpace (the (eiName inp)) = [] then (Inl NameRequired, st)
          else if eiHost inp \<noteq> None \<and> TrimSpace (the (eiHost inp)) = [] then (Inl HostRequired, st)
          else (case editJump db inp of Inl e \<Rightarrow> (Inl e, st)
          | Inr jump \<Rightarrow>
              (case editIconError db inp of Some e \<Rightarrow> (Inl e, st)
               | None \<Rightarrow>
                   (let e = editOf inp jump in
                    if editChangesNothing e then (Inl NothingToChange, st)
                    else (Inr (), st\<lparr>msPlan := Some (stageEdit e (getOrInitPlan st))\<rparr>)))))"

definition planRenameFolder :: "storeDb \<Rightarrow> string \<Rightarrow> string \<Rightarrow> mcpState \<Rightarrow> (planError + unit) \<times> mcpState" where
  "planRenameFolder db folder0 name0 st =
     (if \<not> msManage st then (Inl ManageOff, st)
      else let fid = TrimSpace folder0; name = TrimSpace name0 in
      if fid = [] then (Inl RefRequired, st)
      else if name = [] then (Inl NameRequired, st)
      else if GetFolder db fid = None then (Inl (NoFolder fid), st)
      else if folderTouchesSensitive (Some (dbFolders db)) (Some (dbConns db)) fid then (Inl SensitiveFolder, st)
      else let p = getOrInitPlan st in
      (Inr (), st\<lparr>msPlan := Some (case updFirst (\<lambda>e. fst e = fid) (\<lambda>e. (fst e, name)) (mpEditFolders p) of
         Some es \<Rightarrow> p\<lparr>mpEditFolders := es\<rparr> | None \<Rightarrow> p\<lparr>mpEditFolders := mpEditFolders p @ [(fid, name)]\<rparr>)\<rparr>))"

definition planDiscard :: "mcpState \<Rightarrow> mcpState" where
  "planDiscard st = st\<lparr>msPlan := None\<rparr>"

end
