(* ===== verification/PlanStaging.thy ===== *)
theory PlanStaging
  imports McpPlan "HOL-Library.Multiset"
begin

text \<open>
  The plan while it is staged: the tools as steps on the plan's state, over a store that may change
  between two calls, and what every reachable plan satisfies. Temp ids name one entry each, an existing
  row has at most one entry of each kind, and each entry passed the checks of its tool.
\<close>

section \<open>Steps\<close>

inductive planStep :: "(string \<Rightarrow> string \<Rightarrow> bool) \<Rightarrow> (nat \<Rightarrow> string) \<Rightarrow> unicodeTables \<Rightarrow> mcpState \<Rightarrow> mcpState \<Rightarrow> bool"
  for EqualFold newTemp ut where
  step_folder: "planAddFolder EqualFold newTemp db name parent st = (r, st') \<Longrightarrow> planStep EqualFold newTemp ut st st'"
| step_settings: "planSetFolderSettings db folder s st = (r, st') \<Longrightarrow> planStep EqualFold newTemp ut st st'"
| step_conn: "planAddConnection newTemp db inp st = (r, st') \<Longrightarrow> planStep EqualFold newTemp ut st st'"
| step_forward: "planAddForward ut newTemp db conn fw st = (r, st') \<Longrightarrow> planStep EqualFold newTemp ut st st'"
| step_bookmarks: "planSetBookmarks forward bs st = (r, st') \<Longrightarrow> planStep EqualFold newTemp ut st st'"
| step_edit: "planEditConnection db edit st = (r, st') \<Longrightarrow> planStep EqualFold newTemp ut st st'"
| step_rename: "planRenameFolder db folder name st = (r, st') \<Longrightarrow> planStep EqualFold newTemp ut st st'"
| step_take: "planStep EqualFold newTemp ut st (st\<lparr>msPlan := None\<rparr>)"
| step_switch: "planStep EqualFold newTemp ut st (st\<lparr>msManage := b\<rparr>)"

section \<open>Well-formed entries\<close>

definition connEntryOK :: "planConn \<Rightarrow> bool" where
  "connEntryOK c \<longleftrightarrow> pcName c \<noteq> [] \<and> pcHost c \<noteq> [] \<and> (pcJump c = None \<or> pcJumpConn c = []) \<and>
     (pcIcon c = [] \<or> validIconName (pcIcon c)) \<and> validIconColor (pcIconColor c) \<and>
     (pcIconColor c = [] \<or> pcIcon c \<noteq> []) \<and> (pcIconImage c = [] \<or> pcIcon c = [])"

definition forwardEntryOK :: "planForward \<Rightarrow> bool" where
  "forwardEntryOK fw \<longleftrightarrow> \<not> refEmpty (pwConn fw) \<and> pwKind fw \<in> {''local'', ''remote'', ''dynamic''} \<and>
     (if pwKind fw = ''dynamic'' then pwLocalPort fw = 0 else pwRemoteHost fw \<noteq> [] \<and> pwRemotePort fw \<noteq> 0)"

definition settingsEntryOK :: "folderSettingsInput \<Rightarrow> bool" where
  "settingsEntryOK s \<longleftrightarrow> (siJumpConnection s = [] \<or> siJumpHost s = []) \<and> validColorTag (siColorTag s)"

definition jumpNot :: "string \<Rightarrow> jumpHostOverride option \<Rightarrow> bool" where
  "jumpNot cid jh \<longleftrightarrow> (\<forall>o' h. jh = Some o' \<longrightarrow> oChain o' = Some h \<longrightarrow> jConnectionID h \<noteq> Some cid)"

definition editEntryOK :: "planEditConn \<Rightarrow> bool" where
  "editEntryOK e \<longleftrightarrow> peConnID e \<noteq> [] \<and> peName e \<noteq> Some [] \<and> peHost e \<noteq> Some [] \<and>
     jumpNot (peConnID e) (iJumpHost (peSetSettings e)) \<and> iColorTag (peSetSettings e) = None \<and>
     (\<forall>f \<in> set (peClearSettings e). f \<noteq> []) \<and> (case peIcon e of None \<Rightarrow> True | Some i \<Rightarrow> i = [] \<or> validIconName i)"

definition tempsOf :: "mcpPlan \<Rightarrow> string list" where
  "tempsOf p = map pfoTempID (mpFolders p) @ map pcTempID (mpConns p) @ map pwTempID (mpForwards p)"

definition entriesOK :: "mcpPlan \<Rightarrow> bool" where
  "entriesOK p \<longleftrightarrow> (\<forall>f \<in> set (mpFolders p). pfoName f \<noteq> [] \<and> (case pfoSettings f of None \<Rightarrow> True | Some s \<Rightarrow> settingsEntryOK s)) \<and>
     (\<forall>e \<in> set (mpFolderSettings p). fst e \<noteq> [] \<and> settingsEntryOK (snd e)) \<and> (\<forall>c \<in> set (mpConns p). connEntryOK c) \<and>
     (\<forall>fw \<in> set (mpForwards p). forwardEntryOK fw) \<and> (\<forall>e \<in> set (mpBookmarks p). \<not> refEmpty (fst e)) \<and>
     (\<forall>e \<in> set (mpEditConns p). editEntryOK e) \<and> (\<forall>e \<in> set (mpEditFolders p). fst e \<noteq> [] \<and> snd e \<noteq> [])"

definition onePerRow :: "mcpPlan \<Rightarrow> bool" where
  "onePerRow p \<longleftrightarrow> distinct (map fst (mpFolderSettings p)) \<and> distinct (map peConnID (mpEditConns p)) \<and>
     distinct (map fst (mpEditFolders p))"

definition stagedOK :: "(nat \<Rightarrow> string) \<Rightarrow> mcpState \<Rightarrow> bool" where
  "stagedOK newTemp st \<longleftrightarrow> (let p = getOrInitPlan st in entriesOK p \<and> onePerRow p \<and> distinct (tempsOf p) \<and>
     set (tempsOf p) \<subseteq> newTemp ` {..<msTemps st})"

section \<open>The first matching entry\<close>

lemma updFirst_Some: "updFirst P g xs = Some ys \<Longrightarrow>
    \<exists>us x vs. xs = us @ x # vs \<and> P x \<and> (\<forall>u \<in> set us. \<not> P u) \<and> ys = us @ g x # vs"
proof (induction xs arbitrary: ys)
  case (Cons a xs)
  show ?case
  proof (cases "P a")
    case True
    then show ?thesis using Cons.prems by (intro exI [of _ "[]"]) auto
  next
    case False
    then obtain zs where zs: "updFirst P g xs = Some zs" "ys = a # zs" using Cons.prems by auto
    then obtain us x vs where "xs = us @ x # vs" "P x" "\<forall>u \<in> set us. \<not> P u" "zs = us @ g x # vs"
      using Cons.IH by blast
    then show ?thesis using False zs(2) by (intro exI [of _ "a # us"]) auto
  qed
qed simp

lemma updFirst_None: "updFirst P g xs = None \<longleftrightarrow> (\<forall>x \<in> set xs. \<not> P x)"
  by (induction xs) auto

text \<open>Changed in place or added at the end, the keys stay distinct and each entry good.\<close>

lemma upsert_keeps:
  assumes "distinct (map k xs)" "\<And>x. k (g x) = k x"
    "case updFirst (\<lambda>x. k x = key) g xs of Some ys \<Rightarrow> zs = ys | None \<Rightarrow> zs = xs @ [new]" "k new = key"
  shows "distinct (map k zs)"
  using assms updFirst_Some [of "\<lambda>x. k x = key" g xs] updFirst_None [of "\<lambda>x. k x = key" g xs]
  by (auto split: option.splits)

lemma upsert_all:
  assumes "\<forall>x \<in> set xs. Q x" "\<And>x. Q x \<Longrightarrow> k x = key \<Longrightarrow> Q (g x)"
    "case updFirst (\<lambda>x. k x = key) g xs of Some ys \<Rightarrow> zs = ys | None \<Rightarrow> zs = xs @ [new]" "Q new"
  shows "\<forall>x \<in> set zs. Q x"
  using assms updFirst_Some [of "\<lambda>x. k x = key" g xs] by (fastforce split: option.splits)

lemma updFirst_map: "updFirst P g xs = Some ys \<Longrightarrow> (\<And>x. k (g x) = k x) \<Longrightarrow> map k ys = map k xs"
  using updFirst_Some [of P g xs ys] by auto

lemma updFirst_all: "updFirst P g xs = Some ys \<Longrightarrow> \<forall>x \<in> set xs. Q x \<Longrightarrow> (\<And>x. Q x \<Longrightarrow> Q (g x)) \<Longrightarrow> \<forall>y \<in> set ys. Q y"
  using updFirst_Some [of P g xs ys] by auto

section \<open>Each tool keeps the plan well-formed\<close>

lemma parsePlanRef_not_both: "refTemp (parsePlanRef s) = [] \<or> refExisting (parsePlanRef s) = []"
  by (simp add: parsePlanRef_def noRef_def Let_def split: option.splits)

lemma stagedOK_temps: "set ts \<subseteq> newTemp ` {..<(n :: nat)} \<Longrightarrow> inj newTemp \<Longrightarrow> newTemp n \<notin> set ts"
proof
  assume "set ts \<subseteq> newTemp ` {..<n}" "inj newTemp" "newTemp n \<in> set ts"
  then obtain m where m: "m < n" "newTemp n = newTemp m" by blast
  have "n = m" using m(2) \<open>inj newTemp\<close> by (rule injD [rotated])
  then show False using m(1) by simp
qed

lemma stagedOK_fresh:
  assumes "stagedOK newTemp st" "inj newTemp" "entriesOK p" "onePerRow p"
    "mset (tempsOf p) = add_mset (newTemp (msTemps st)) (mset (tempsOf (getOrInitPlan st)))"
  shows "stagedOK newTemp (st\<lparr>msPlan := Some p, msTemps := Suc (msTemps st)\<rparr>)"
proof -
  let ?p = "getOrInitPlan st"
  have old: "distinct (tempsOf ?p)" "set (tempsOf ?p) \<subseteq> newTemp ` {..<msTemps st}"
    using assms(1) by (auto simp: stagedOK_def Let_def)
  have "set (tempsOf p) = insert (newTemp (msTemps st)) (set (tempsOf ?p))"
    using arg_cong [OF assms(5), of set_mset] by simp
  moreover have "mset (tempsOf p) = mset (newTemp (msTemps st) # tempsOf ?p)" using assms(5) by simp
  then have "distinct (tempsOf p)" using mset_eq_imp_distinct_iff old(1) stagedOK_temps [OF old(2) assms(2)]
    by (metis distinct.simps(2))
  ultimately show ?thesis using assms(3,4) old by (auto simp: stagedOK_def getOrInitPlan_def lessThan_Suc)
qed

lemma stagedOK_same:
  "stagedOK newTemp st \<Longrightarrow> entriesOK p \<Longrightarrow> onePerRow p \<Longrightarrow> tempsOf p = tempsOf (getOrInitPlan st) \<Longrightarrow>
    stagedOK newTemp (st\<lparr>msPlan := Some p\<rparr>)"
  by (simp add: stagedOK_def getOrInitPlan_def Let_def)

lemma stagedOK_getOrInit: "stagedOK newTemp st \<Longrightarrow> entriesOK (getOrInitPlan st) \<and> onePerRow (getOrInitPlan st)"
  by (simp add: stagedOK_def Let_def)

lemma stagedOK_skip: "stagedOK newTemp st \<Longrightarrow> stagedOK newTemp (st\<lparr>msTemps := Suc (msTemps st)\<rparr>)"
  by (auto simp: stagedOK_def getOrInitPlan_def Let_def lessThan_Suc)

lemma keeps_planAddFolder:
  assumes "planAddFolder EqualFold newTemp db name parent st = (r, st')" "stagedOK newTemp st" "inj newTemp"
  shows "stagedOK newTemp st'"
proof -
  note ok = stagedOK_getOrInit [OF assms(2)]
  have "stagedOK newTemp (st\<lparr>msPlan := Some (p\<lparr>mpFolders := mpFolders p @ [f]\<rparr>), msTemps := Suc (msTemps st)\<rparr>)"
    if "p = getOrInitPlan st" "pfoTempID f = newTemp (msTemps st)" "pfoName f \<noteq> []" "pfoSettings f = None" for p f
    using ok that by (intro stagedOK_fresh [OF assms(2,3)]) (auto simp: entriesOK_def onePerRow_def tempsOf_def)
  then show ?thesis using assms(1) stagedOK_same [OF assms(2) ok [THEN conjunct1] ok [THEN conjunct2] refl] assms(2)
    by (auto simp: planAddFolder_def Let_def split: if_splits option.splits)
qed

lemma normalizeJumpConnection_Nil: "normalizeJumpConnection db [] = Inr []"
  by (simp add: normalizeJumpConnection_def TrimSpace_visible)

lemma keeps_planSetFolderSettings:
  assumes "planSetFolderSettings db folder s st = (r, st')" "stagedOK newTemp st"
  shows "stagedOK newTemp st'"
proof -
  let ?p = "getOrInitPlan st" and ?ref = "parsePlanRef folder"
  note ok = stagedOK_getOrInit [OF assms(2)]
  have noop: "stagedOK newTemp (st\<lparr>msPlan := Some ?p\<rparr>)" using stagedOK_same [OF assms(2)] ok by blast
  have folders: "stagedOK newTemp (st\<lparr>msPlan := Some (?p\<lparr>mpFolders := fs\<rparr>)\<rparr>)"
    if "updFirst P (\<lambda>f. f\<lparr>pfoSettings := Some t\<rparr>) (mpFolders ?p) = Some fs" "settingsEntryOK t" for P t fs
  proof -
    have "map pfoTempID fs = map pfoTempID (mpFolders ?p)" by (rule updFirst_map [OF that(1)]) simp
    moreover have "\<forall>f \<in> set fs. pfoName f \<noteq> [] \<and> (case pfoSettings f of None \<Rightarrow> True | Some s \<Rightarrow> settingsEntryOK s)"
      by (rule updFirst_all [OF that(1)]) (use ok that(2) in \<open>auto simp: entriesOK_def\<close>)
    ultimately show ?thesis using ok by (intro stagedOK_same [OF assms(2)]) (auto simp: entriesOK_def onePerRow_def tempsOf_def)
  qed
  have rows: "stagedOK newTemp (st\<lparr>msPlan := Some (?p\<lparr>mpFolderSettings := es\<rparr>)\<rparr>)"
    if "case updFirst (\<lambda>e. fst e = key) (\<lambda>e. (fst e, t)) (mpFolderSettings ?p) of Some ys \<Rightarrow> es = ys
          | None \<Rightarrow> es = mpFolderSettings ?p @ [(key, t)]" "settingsEntryOK t" "key \<noteq> []" for key t es
  proof -
    have "distinct (map fst es)" by (rule upsert_keeps [OF _ _ that(1)]) (use ok in \<open>auto simp: onePerRow_def\<close>)
    moreover have "\<forall>e \<in> set es. fst e \<noteq> [] \<and> settingsEntryOK (snd e)"
      by (rule upsert_all [OF _ _ that(1)]) (use ok that in \<open>auto simp: entriesOK_def\<close>)
    ultimately show ?thesis using ok by (intro stagedOK_same [OF assms(2)]) (auto simp: entriesOK_def onePerRow_def tempsOf_def)
  qed
  have rows_upd: "stagedOK newTemp (st\<lparr>msPlan := Some (?p\<lparr>mpFolderSettings := es\<rparr>)\<rparr>)"
    if "updFirst (\<lambda>e. fst e = key) (\<lambda>e. (fst e, t)) (mpFolderSettings ?p) = Some es" "settingsEntryOK t" "key \<noteq> []" for key t es
    using that by (intro rows [where key = key and t = t]) simp_all
  have rows_add: "stagedOK newTemp (st\<lparr>msPlan := Some (?p\<lparr>mpFolderSettings := mpFolderSettings ?p @ [(key, t)]\<rparr>)\<rparr>)"
    if "updFirst (\<lambda>e. fst e = key) (\<lambda>e. (fst e, t)) (mpFolderSettings ?p) = None" "settingsEntryOK t" "key \<noteq> []" for key t
    using that by (intro rows [where key = key and t = t]) simp_all
  show ?thesis
  proof (cases "normalizeJumpConnection db (siJumpConnection s)")
    case (Inl e)
    then show ?thesis using assms by (auto simp: planSetFolderSettings_def Let_def split: if_splits)
  next
    case (Inr jc)
    let ?s = "s\<lparr>siJumpConnection := jc, siColorTag := TrimSpace (siColorTag s)\<rparr>"
    have s: "settingsEntryOK ?s" if "siJumpConnection s = [] \<or> siJumpHost s = []" "validColorTag (siColorTag ?s)"
      using that Inr by (auto simp: settingsEntryOK_def normalizeJumpConnection_Nil)
    then show ?thesis using assms Inr noop
      by (auto intro!: folders rows_upd rows_add simp: planSetFolderSettings_def Let_def refEmpty_def split: if_splits option.splits)
  qed
qed

lemma keeps_planAddConnection:
  assumes "planAddConnection newTemp db inp st = (r, st')" "stagedOK newTemp st" "inj newTemp"
  shows "stagedOK newTemp st'"
proof -
  note ok = stagedOK_getOrInit [OF assms(2)]
  have *: "stagedOK newTemp (st\<lparr>msTemps := Suc (msTemps st), msPlan := Some (p\<lparr>mpConns := mpConns p @ [c]\<rparr>)\<rparr>)"
    if "p = getOrInitPlan st" "pcTempID c = newTemp (msTemps st)" "connEntryOK c" for p c
  proof -
    have "stagedOK newTemp (st\<lparr>msPlan := Some (p\<lparr>mpConns := mpConns p @ [c]\<rparr>), msTemps := Suc (msTemps st)\<rparr>)"
      using ok that by (intro stagedOK_fresh [OF assms(2,3)]) (auto simp: entriesOK_def onePerRow_def tempsOf_def)
    then show ?thesis by (simp add: stagedOK_def getOrInitPlan_def)
  qed
  show ?thesis
  proof (cases "connInputError db inp")
    case None
    then have "TrimSpace (piName inp) \<noteq> []" "TrimSpace (piHost inp) \<noteq> []"
      "TrimSpace (piIcon inp) = [] \<or> validIconName (TrimSpace (piIcon inp))" "validIconColor (TrimSpace (piIconColor inp))"
      "TrimSpace (piIconColor inp) = [] \<or> TrimSpace (piIcon inp) \<noteq> []" "TrimSpace (piIconImage inp) = [] \<or> TrimSpace (piIcon inp) = []"
      by (auto simp: connInputError_def Let_def split: if_splits)
    then show ?thesis using assms(1) None stagedOK_skip [OF assms(2)] assms(2)
      by (auto simp: planAddConnection_def Let_def connEntryOK_def intro!: * split: if_splits sum.splits)
  qed (use assms in \<open>auto simp: planAddConnection_def split: if_splits\<close>)
qed

lemma keeps_planAddForward:
  assumes "planAddForward ut newTemp db conn fw st = (r, st')" "stagedOK newTemp st" "inj newTemp"
  shows "stagedOK newTemp st'"
proof -
  note ok = stagedOK_getOrInit [OF assms(2)]
  have "stagedOK newTemp (st\<lparr>msPlan := Some (p\<lparr>mpForwards := mpForwards p @ [f]\<rparr>), msTemps := Suc (msTemps st)\<rparr>)"
    if "p = getOrInitPlan st" "pwTempID f = newTemp (msTemps st)" "forwardEntryOK f" for p f
    using ok that by (intro stagedOK_fresh [OF assms(2,3)]) (auto simp: entriesOK_def onePerRow_def tempsOf_def)
  then show ?thesis using assms(1,2)
    by (auto simp: planAddForward_def Let_def forwardEntryOK_def split: if_splits)
qed

lemma keeps_planSetBookmarks:
  assumes "planSetBookmarks forward bs st = (r, st')" "stagedOK newTemp st"
  shows "stagedOK newTemp st'"
proof -
  have "stagedOK newTemp (st\<lparr>msPlan := Some (p\<lparr>mpBookmarks := mpBookmarks p @ [(ref, bs)]\<rparr>)\<rparr>)"
    if "p = getOrInitPlan st" "\<not> refEmpty ref" for p ref
    using stagedOK_getOrInit [OF assms(2)] that
    by (intro stagedOK_same [OF assms(2)]) (auto simp: entriesOK_def onePerRow_def tempsOf_def)
  then show ?thesis using assms by (auto simp: planSetBookmarks_def Let_def split: if_splits)
qed

lemma editEntryOK_merge: "editEntryOK a \<Longrightarrow> editEntryOK b \<Longrightarrow> peConnID a = peConnID b \<Longrightarrow> editEntryOK (mergeConnEdit a b)"
  by (auto simp: editEntryOK_def mergeConnEdit_def firstNonNil_def)

lemma editJump_jumpNot: "editJump db inp = Inr jump \<Longrightarrow> jumpNot (eiConnID inp) jump"
  by (auto simp: editJump_def jumpNot_def jumpConnOverride_def bindr_Inr_iff split: option.splits if_splits)

lemma editEntryOK_editOf:
  assumes "editJump db inp = Inr jump" "editIconError db inp = None" "eiConnID inp \<noteq> []"
    "eiName inp = None \<or> TrimSpace (the (eiName inp)) \<noteq> []" "eiHost inp = None \<or> TrimSpace (the (eiHost inp)) \<noteq> []"
  shows "editEntryOK (editOf inp jump)"
proof -
  have "case map_option TrimSpace (eiIcon inp) of None \<Rightarrow> True | Some i \<Rightarrow> i = [] \<or> validIconName i"
    using assms(2) by (auto simp: editIconError_def Let_def split: if_splits option.splits)
  then show ?thesis using assms(3-5) editJump_jumpNot [OF assms(1)]
    by (auto simp: editEntryOK_def editOf_def noSettings_def)
qed

lemma keeps_stageEdit:
  assumes "entriesOK p" "onePerRow p" "editEntryOK e"
  shows "entriesOK (stageEdit e p) \<and> onePerRow (stageEdit e p) \<and> tempsOf (stageEdit e p) = tempsOf p"
proof -
  define es where "es = mpEditConns (stageEdit e p)"
  have p: "stageEdit e p = p\<lparr>mpEditConns := es\<rparr>" by (simp add: es_def stageEdit_def split: option.splits)
  have up: "case updFirst (\<lambda>a. peConnID a = peConnID e) (\<lambda>a. mergeConnEdit a e) (mpEditConns p) of
      Some ys \<Rightarrow> es = ys | None \<Rightarrow> es = mpEditConns p @ [e]"
    by (simp add: es_def stageEdit_def split: option.splits)
  have "distinct (map peConnID es)"
    by (rule upsert_keeps [OF _ _ up]) (use assms(2) in \<open>auto simp: onePerRow_def mergeConnEdit_def\<close>)
  moreover have "\<forall>e \<in> set es. editEntryOK e"
    by (rule upsert_all [OF _ _ up]) (use assms editEntryOK_merge in \<open>auto simp: entriesOK_def\<close>)
  ultimately show ?thesis using assms unfolding p by (auto simp: entriesOK_def onePerRow_def tempsOf_def)
qed

lemma keeps_planEditConnection:
  assumes "planEditConnection db inp st = (r, st')" "stagedOK newTemp st"
  shows "stagedOK newTemp st'"
proof -
  note ok = stagedOK_getOrInit [OF assms(2)]
  have *: "stagedOK newTemp (st\<lparr>msPlan := Some (stageEdit e (getOrInitPlan st))\<rparr>)" if "editEntryOK e" for e
    using stagedOK_same [OF assms(2)] keeps_stageEdit [OF _ _ that] ok by blast
  have id: "TrimSpace (eiConnID inp) \<noteq> [] \<Longrightarrow> eiConnID inp \<noteq> []" by (auto simp: TrimSpace_visible)
  show ?thesis
  proof (cases "st' = st")
    case False
    then obtain jump where "editJump db inp = Inr jump" "editIconError db inp = None" "TrimSpace (eiConnID inp) \<noteq> []"
        "eiName inp = None \<or> TrimSpace (the (eiName inp)) \<noteq> []" "eiHost inp = None \<or> TrimSpace (the (eiHost inp)) \<noteq> []"
        "st' = st\<lparr>msPlan := Some (stageEdit (editOf inp jump) (getOrInitPlan st))\<rparr>"
      using assms(1) by (fastforce simp: planEditConnection_def Let_def split: if_splits option.splits sum.splits)
    then show ?thesis using * editEntryOK_editOf id by blast
  qed (simp add: assms(2))
qed

lemma keeps_planRenameFolder:
  assumes "planRenameFolder db folder name st = (r, st')" "stagedOK newTemp st"
  shows "stagedOK newTemp st'"
proof -
  let ?p = "getOrInitPlan st"
  note ok = stagedOK_getOrInit [OF assms(2)]
  have *: "stagedOK newTemp (st\<lparr>msPlan := Some (?p\<lparr>mpEditFolders := es\<rparr>)\<rparr>)"
    if "case updFirst (\<lambda>e. fst e = key) (\<lambda>e. (fst e, n)) (mpEditFolders ?p) of Some ys \<Rightarrow> es = ys
          | None \<Rightarrow> es = mpEditFolders ?p @ [(key, n)]" "key \<noteq> []" "n \<noteq> []" for key n es
  proof -
    have "distinct (map fst es)" by (rule upsert_keeps [OF _ _ that(1)]) (use ok in \<open>auto simp: onePerRow_def\<close>)
    moreover have "\<forall>e \<in> set es. fst e \<noteq> [] \<and> snd e \<noteq> []"
      by (rule upsert_all [OF _ _ that(1)]) (use ok that in \<open>auto simp: entriesOK_def\<close>)
    ultimately show ?thesis using ok by (intro stagedOK_same [OF assms(2)]) (auto simp: entriesOK_def onePerRow_def tempsOf_def)
  qed
  let ?fid = "TrimSpace folder" and ?n = "TrimSpace name"
  show ?thesis
  proof (cases "updFirst (\<lambda>e. fst e = ?fid) (\<lambda>e. (fst e, ?n)) (mpEditFolders ?p)")
    case None
    then show ?thesis using assms * [where key = ?fid and n = ?n] by (auto simp: planRenameFolder_def Let_def split: if_splits)
  next
    case (Some es)
    then show ?thesis using assms * [where key = ?fid and n = ?n and es = es] by (auto simp: planRenameFolder_def Let_def split: if_splits)
  qed
qed

section \<open>Every reachable plan\<close>

lemma planStep_keeps: "planStep EqualFold newTemp ut st st' \<Longrightarrow> inj newTemp \<Longrightarrow> stagedOK newTemp st \<Longrightarrow> stagedOK newTemp st'"
proof (induction rule: planStep.induct)
  case (step_take st)
  then show ?case
    by (auto simp: stagedOK_def getOrInitPlan_def emptyPlan_def entriesOK_def onePerRow_def tempsOf_def Let_def)
next
  case (step_switch st b)
  then show ?case by (simp add: stagedOK_def getOrInitPlan_def)
qed (blast intro: keeps_planAddFolder keeps_planSetFolderSettings keeps_planAddConnection keeps_planAddForward
    keeps_planSetBookmarks keeps_planEditConnection keeps_planRenameFolder)+


definition tempNo :: "nat \<Rightarrow> string" where
  "tempNo n = CHR ''t'' # replicate n (CHR ''x'')"

definition noRows :: storeDb where
  "noRows = \<lparr>dbFolders = [], dbConns = [], dbForwards = [], dbImages = [], dbCreds = [], dbProfiles = [],
     dbEntries = [], dbNext = 0, dbNow = 0\<rparr>"


end
