(* ===== verification/PlanCommit.thy ===== *)
theory PlanCommit
  imports McpPlan
begin

text \<open>
  Committing a plan, \<open>app_mcp_plan.go\<close>: \<open>validatePlanRefs\<close>, \<open>writePlan\<close> with its order of writes and
  \<open>planCommit\<close> around the user's approval. \<open>None\<close> is a commit that never returns: the icon of an edited
  connection is read outside the open transaction, on a store with a single connection.
\<close>

section \<open>References\<close>

definition checkJumpTemp :: "string list \<Rightarrow> string \<Rightarrow> planError option" where
  "checkJumpTemp tempConns ref = (case CutPrefix ref ''tmp:'' of
     Some tmp \<Rightarrow> if tmp \<in> set tempConns then None else Some (UnknownRef ref) | None \<Rightarrow> None)"

definition checkCred :: "storeDb \<Rightarrow> string \<Rightarrow> planError option" where
  "checkCred db r = (if r \<noteq> [] \<and> r \<notin> set (dbCreds db) then Some (UnknownRef r) else None)"

definition checkProfile :: "storeDb \<Rightarrow> string \<Rightarrow> planError option" where
  "checkProfile db r = (if r \<noteq> [] \<and> r \<notin> set (dbProfiles db) then Some (UnknownRef r) else None)"

definition checkFolderRef :: "storeDb \<Rightarrow> string list \<Rightarrow> planRef \<Rightarrow> planError option" where
  "checkFolderRef db tempFolders r =
     (if refTemp r \<noteq> [] \<and> refTemp r \<notin> set tempFolders then Some (UnknownRef (refTemp r))
      else if refExisting r \<noteq> [] \<and> GetFolder db (refExisting r) = None then Some (UnknownRef (refExisting r))
      else None)"

definition checkFolderSettings :: "storeDb \<Rightarrow> string list \<Rightarrow> folderSettingsInput \<Rightarrow> planError option" where
  "checkFolderSettings db tempConns s = first_some
     [checkJumpTemp tempConns (siJumpConnection s), checkCred db (siAuthRef s), checkCred db (siJumpAuthRef s),
      checkProfile db (siNetworkProfileID s)]"

definition checkPlanFolder :: "storeDb \<Rightarrow> string list \<Rightarrow> string list \<Rightarrow> planFolder \<Rightarrow> planError option" where
  "checkPlanFolder db tempFolders tempConns f = first_some
     [checkFolderRef db tempFolders (pfoParent f),
      (case pfoSettings f of None \<Rightarrow> None | Some s \<Rightarrow> checkFolderSettings db tempConns s)]"

definition checkPlanConn :: "storeDb \<Rightarrow> string list \<Rightarrow> string list \<Rightarrow> planConn \<Rightarrow> planError option" where
  "checkPlanConn db tempFolders tempConns c = first_some
     [checkJumpTemp tempConns (pcJumpConn c),
      (if pcJumpConn c = ''tmp:'' @ pcTempID c then Some OwnJump else None),
      checkCred db (pcAuthRef c),
      (case pcJump c of None \<Rightarrow> None | Some j \<Rightarrow> checkCred db (pjAuthRef j)),
      checkProfile db (pcNetworkProfileID c),
      checkFolderRef db tempFolders (pcFolder c)]"

definition checkEditConn :: "storeDb \<Rightarrow> string list \<Rightarrow> string list \<Rightarrow> planEditConn \<Rightarrow> planError option" where
  "checkEditConn db tempFolders tempConns e = first_some
     ([if GetConnection db (peConnID e) = None then Some (UnknownRef (peConnID e)) else None,
       (case iJumpHost (peSetSettings e) of None \<Rightarrow> None
        | Some jh \<Rightarrow> (case oChain jh of None \<Rightarrow> None
            | Some h \<Rightarrow> (case jConnectionID h of None \<Rightarrow> None | Some r \<Rightarrow> checkJumpTemp tempConns r))),
       (case iAuthRef (peSetSettings e) of None \<Rightarrow> None | Some r \<Rightarrow> checkCred db r),
       (case iNetworkProfileID (peSetSettings e) of None \<Rightarrow> None | Some r \<Rightarrow> checkProfile db r),
       (case peFolder e of None \<Rightarrow> None | Some r \<Rightarrow> checkFolderRef db tempFolders r)]
      @ map (\<lambda>f. if ValidOverrideField f then None else Some (UnknownClear f)) (peClearSettings e))"

definition checkForward :: "storeDb \<Rightarrow> string list \<Rightarrow> planForward \<Rightarrow> planError option" where
  "checkForward db tempConns fw =
     (if refTemp (pwConn fw) \<noteq> [] \<and> refTemp (pwConn fw) \<notin> set tempConns then Some (UnknownRef (refTemp (pwConn fw)))
      else if refExisting (pwConn fw) \<noteq> [] then
        (case GetConnection db (refExisting (pwConn fw)) of
           None \<Rightarrow> Some (UnknownRef (refExisting (pwConn fw)))
         | Some c \<Rightarrow> if isSensitive (Some (dbFolders db)) c then Some SensitiveConn else None)
      else None)"

definition checkBookmarks :: "string list \<Rightarrow> planRef \<Rightarrow> planError option" where
  "checkBookmarks tempForwards r =
     (if refTemp r \<noteq> [] \<and> refTemp r \<notin> set tempForwards then Some (UnknownRef (refTemp r))
      else if refExisting r = [] \<and> refTemp r = [] then Some RefRequired else None)"

definition validatePlanRefs :: "storeDb \<Rightarrow> mcpPlan \<Rightarrow> planError option" where
  "validatePlanRefs db p =
     (let tempFolders = map pfoTempID (mpFolders p); tempConns = map pcTempID (mpConns p);
          tempForwards = map pwTempID (mpForwards p)
      in first_some
        (map (checkPlanFolder db tempFolders tempConns) (mpFolders p)
         @ concat (map (\<lambda>(fid, s). [if GetFolder db fid = None then Some (UnknownRef fid) else None,
                                     checkFolderSettings db tempConns s]) (mpFolderSettings p))
         @ map (checkPlanConn db tempFolders tempConns) (mpConns p)
         @ map (checkEditConn db tempFolders tempConns) (mpEditConns p)
         @ map (\<lambda>(fid, name). if GetFolder db fid = None then Some (UnknownRef fid) else None) (mpEditFolders p)
         @ map (checkForward db tempConns) (mpForwards p)
         @ map (\<lambda>(r, bs). checkBookmarks tempForwards r) (mpBookmarks p)))"

section \<open>Writing\<close>

record txState =
  txFolderIDs :: "string \<rightharpoonup> string"
  txConnIDs :: "string \<rightharpoonup> string"
  txForwardIDs :: "string \<rightharpoonup> string"
  txPendFolders :: "(string \<times> inheritableSettings) list"
  txPendConns :: "(string \<times> jumpHostOverride) list"
  txDb :: storeDb

fun forEach :: "('x \<Rightarrow> 's \<Rightarrow> 'e + 's) \<Rightarrow> 'x list \<Rightarrow> 's \<Rightarrow> 'e + 's" where
  "forEach f [] s = Inr s"
| "forEach f (x # xs) s = bindr (f x s) (forEach f xs)"

definition liftStore :: "storeError + 'a \<Rightarrow> planError + 'a" where
  "liftStore r = (case r of Inl e \<Rightarrow> Inl (StoreFailed e) | Inr a \<Rightarrow> Inr a)"

definition runStore :: "(storeDb \<Rightarrow> storeError + storeDb) \<Rightarrow> txState \<Rightarrow> planError + txState" where
  "runStore op st = bindr (liftStore (op (txDb st))) (\<lambda>db. Inr (st\<lparr>txDb := db\<rparr>))"

text \<open>A reference to a staged or stored row: the pointer that is written.\<close>

definition resolveRef :: "(string \<rightharpoonup> string) \<Rightarrow> planRef \<Rightarrow> planError + string option" where
  "resolveRef ids r =
     (if refTemp r \<noteq> [] then (case ids (refTemp r) of None \<Rightarrow> Inl (NotCreated (refTemp r)) | Some rid \<Rightarrow> Inr (Some rid))
      else if refExisting r \<noteq> [] then Inr (Some (refExisting r)) else Inr None)"

definition writeFolder :: "(nat \<Rightarrow> string) \<Rightarrow> planFolder \<Rightarrow> txState \<Rightarrow> planError + txState" where
  "writeFolder newID f st = bindr (resolveRef (txFolderIDs st) (pfoParent f)) (\<lambda>parent.
     let full = (case pfoSettings f of None \<Rightarrow> noSettings | Some s \<Rightarrow> toInheritable s);
         later = hasJumpTemp (iJumpHost full);
         stored = (if later then full\<lparr>iJumpHost := None\<rparr> else full)
     in bindr (liftStore (insertFolder newID \<lparr>nfParent = parent, nfName = pfoName f, nfSettings = stored\<rparr> (txDb st)))
       (\<lambda>(rid, db). Inr (st\<lparr>txDb := db,
          txPendFolders := (if later then txPendFolders st @ [(rid, full)] else txPendFolders st),
          txFolderIDs := (txFolderIDs st)(pfoTempID f \<mapsto> rid)\<rparr>)))"

definition writeFolderSettings :: "(string \<times> inheritableSettings) \<Rightarrow> txState \<Rightarrow> planError + txState" where
  "writeFolderSettings e st =
     (let merged = snd e; later = hasJumpTemp (iJumpHost merged)
      in runStore (UpdateFolderSettingsTx (fst e) (if later then merged\<lparr>iJumpHost := None\<rparr> else merged))
        (if later then st\<lparr>txPendFolders := txPendFolders st @ [e]\<rparr> else st))"

definition connOverrides :: "planConn \<Rightarrow> inheritableSettings" where
  "connOverrides c = noSettings\<lparr>
     iUsername := nonEmpty (pcUser c), iPort := nonZero (pcPort c), iAuthRef := nonEmpty (pcAuthRef c),
     iNetworkProfileID := nonEmpty (pcNetworkProfileID c),
     iInitialCommand := (if TrimSpace (pcInitialCommand c) \<noteq> [] then Some (pcInitialCommand c) else None),
     iJumpHost := (if pcJumpConn c \<noteq> [] then Some (jumpConnOverride (pcJumpConn c))
                   else map_option (\<lambda>j. inlineJump (pjHost j) (pjUser j) (pjPort j) (pjAuthRef j)) (pcJump c))\<rparr>"

definition writeIcon :: "string \<Rightarrow> planConn \<Rightarrow> storeDb \<Rightarrow> storeError + storeDb" where
  "writeIcon rid c db =
     (if pcIconImage c \<noteq> [] then SetConnectionIconTx rid (pcIconImage c) db
      else if pcIcon c \<noteq> [] then SetConnectionNamedIconTx rid (pcIcon c) (pcIconColor c) db else Inr db)"

definition writeConn :: "(nat \<Rightarrow> string) \<Rightarrow> planConn \<Rightarrow> txState \<Rightarrow> planError + txState" where
  "writeConn newID c st = bindr (resolveRef (txFolderIDs st) (pcFolder c)) (\<lambda>folder.
     let full = connOverrides c;
         later = pcJumpConn c \<noteq> [] \<and> hasJumpTemp (iJumpHost full);
         ov = (if later then full\<lparr>iJumpHost := None\<rparr> else full)
     in bindr (liftStore (insertConnection newID \<lparr>ncFolder = folder, ncName = pcName c, ncHostname = pcHost c,
                ncOverrides = ov, ncTags = pcTags c, ncNotes = pcNotes c\<rparr> (txDb st)))
       (\<lambda>(rid, db). bindr (liftStore (writeIcon rid c db))
         (\<lambda>db. Inr (st\<lparr>txDb := db, txConnIDs := (txConnIDs st)(pcTempID c \<mapsto> rid),
            txPendConns := (if later then txPendConns st @ [(rid, jumpConnOverride (pcJumpConn c))]
                            else txPendConns st)\<rparr>))))"

definition finishFolderJump :: "(string \<times> inheritableSettings) \<Rightarrow> txState \<Rightarrow> planError + txState" where
  "finishFolderJump e st = bindr (resolveJumpTemps (txConnIDs st) (iJumpHost (snd e)))
     (\<lambda>jh. runStore (UpdateFolderSettingsTx (fst e) ((snd e)\<lparr>iJumpHost := jh\<rparr>)) st)"

definition finishConnJump :: "(string \<times> jumpHostOverride) \<Rightarrow> txState \<Rightarrow> planError + txState" where
  "finishConnJump e st = bindr (resolveJumpTemps (txConnIDs st) (Some (snd e)))
     (\<lambda>jh. runStore (PatchConnectionOverridesTx (fst e) (noSettings\<lparr>iJumpHost := jh\<rparr>) []) st)"

definition writeForward :: "(nat \<Rightarrow> string) \<Rightarrow> planForward \<Rightarrow> txState \<Rightarrow> planError + txState" where
  "writeForward newID fw st =
     bindr (if refTemp (pwConn fw) \<noteq> [] then
              (case txConnIDs st (refTemp (pwConn fw)) of None \<Rightarrow> Inl (NotCreated (refTemp (pwConn fw))) | Some r \<Rightarrow> Inr r)
            else Inr (refExisting (pwConn fw)))
       (\<lambda>conn. bindr (liftStore (insertPortForward newID \<lparr>npConn = conn, npKind = pwKind fw,
                 npLocalAddr = nonEmpty (pwLocalAddr fw), npLocalPort = nonZero (pwLocalPort fw),
                 npRemoteHost = nonEmpty (pwRemoteHost fw), npRemotePort = nonZero (pwRemotePort fw),
                 npAutoStart = pwAutoStart fw, npDesc = pwDesc fw\<rparr> (txDb st)))
         (\<lambda>(rid, db). Inr (st\<lparr>txDb := db, txForwardIDs := (txForwardIDs st)(pwTempID fw \<mapsto> rid)\<rparr>)))"

definition writeBookmarks :: "(planRef \<times> (string \<times> string) list) \<Rightarrow> txState \<Rightarrow> planError + txState" where
  "writeBookmarks e st =
     bindr (if refTemp (fst e) \<noteq> [] then
              (case txForwardIDs st (refTemp (fst e)) of None \<Rightarrow> Inl (NotCreated (refTemp (fst e))) | Some r \<Rightarrow> Inr r)
            else Inr (refExisting (fst e)))
       (\<lambda>fid. runStore (SetPortForwardBookmarksTx fid (snd e)) st)"

text \<open>An optional column of an edit.\<close>

definition whenSet :: "'a option \<Rightarrow> ('a \<Rightarrow> txState \<Rightarrow> planError + txState) \<Rightarrow> txState \<Rightarrow> planError + txState" where
  "whenSet x f st = (case x of None \<Rightarrow> Inr st | Some v \<Rightarrow> f v st)"

definition editColumns :: "planEditConn \<Rightarrow> txState \<Rightarrow> planError + txState" where
  "editColumns e st =
     (let cid = peConnID e in
      bindr (whenSet (peName e) (\<lambda>n. runStore (RenameConnectionTx cid n)) st) (\<lambda>st.
      bindr (whenSet (peHost e) (\<lambda>h. runStore (SetConnectionHostnameTx cid h)) st) (\<lambda>st.
      bindr (whenSet (peNotes e) (\<lambda>n. runStore (SetConnectionNotesTx cid n)) st) (\<lambda>st.
      bindr (whenSet (peFolder e) (\<lambda>r st. bindr (resolveRef (txFolderIDs st) r)
               (\<lambda>fid. runStore (MoveConnectionTx cid fid) st)) st) (\<lambda>st.
      if \<not> settingsEmpty (peSetSettings e) \<or> peClearSettings e \<noteq> [] then
        bindr (resolveJumpTemps (txConnIDs st) (iJumpHost (peSetSettings e)))
          (\<lambda>jh. runStore (PatchConnectionOverridesTx cid ((peSetSettings e)\<lparr>iJumpHost := jh\<rparr>) (peClearSettings e)) st)
      else Inr st)))))"

definition writeEdit :: "planEditConn \<Rightarrow> txState \<Rightarrow> (planError + txState) option" where
  "writeEdit e st =
     (case editColumns e st of Inl err \<Rightarrow> Some (Inl err)
      | Inr st1 \<Rightarrow>
          (case peIconImage e of Some img \<Rightarrow> Some (runStore (SetConnectionIconTx (peConnID e) img) st1)
           | None \<Rightarrow> if peIcon e \<noteq> None \<or> peIconColor e \<noteq> None then None else Some (Inr st1)))"

fun writeEdits :: "planEditConn list \<Rightarrow> txState \<Rightarrow> (planError + txState) option" where
  "writeEdits [] st = Some (Inr st)"
| "writeEdits (e # es) st = (case writeEdit e st of None \<Rightarrow> None
     | Some (Inl err) \<Rightarrow> Some (Inl err) | Some (Inr st') \<Rightarrow> writeEdits es st')"

definition writeRows :: "(nat \<Rightarrow> string) \<Rightarrow> (string \<times> inheritableSettings) list \<Rightarrow> mcpPlan \<Rightarrow> txState \<Rightarrow> planError + txState" where
  "writeRows newID merged p st =
     bindr (forEach (writeFolder newID) (mpFolders p) st) (\<lambda>st.
     bindr (forEach writeFolderSettings merged st) (\<lambda>st.
     bindr (forEach (writeConn newID) (mpConns p) st) (\<lambda>st.
     bindr (forEach finishFolderJump (txPendFolders st) st) (\<lambda>st.
     bindr (forEach finishConnJump (txPendConns st) st) (\<lambda>st.
     bindr (forEach (writeForward newID) (mpForwards p) st) (\<lambda>st.
     bindr (forEach writeBookmarks (mpBookmarks p) st) (\<lambda>st.
     forEach (\<lambda>(fid, name). runStore (RenameFolderTx fid name)) (mpEditFolders p) st)))))))"

definition newTx :: "storeDb \<Rightarrow> txState" where
  "newTx db = \<lparr>txFolderIDs = Map.empty, txConnIDs = Map.empty, txForwardIDs = Map.empty,
     txPendFolders = [], txPendConns = [], txDb = db\<rparr>"

text \<open>The guards that are checked again, and the settings merged before the transaction.\<close>

definition commitGuard :: "storeDb \<Rightarrow> mcpPlan \<Rightarrow> planError option" where
  "commitGuard db p =
     (let touches = folderTouchesSensitive (Some (dbFolders db)) (Some (dbConns db))
      in if list_ex (\<lambda>e. touches (fst e)) (mpFolderSettings p) then Some SensitiveFolder
         else if list_ex (\<lambda>e. touches (fst e)) (mpEditFolders p) then Some SensitiveFolder
         else if list_ex (\<lambda>e. case GetConnection db (peConnID e) of None \<Rightarrow> False
                | Some c \<Rightarrow> isSensitive (Some (dbFolders db)) c) (mpEditConns p) then Some SensitiveConn
         else None)"

fun mergeAll :: "storeDb \<Rightarrow> (string \<times> folderSettingsInput) list \<Rightarrow> planError + (string \<times> inheritableSettings) list" where
  "mergeAll db [] = Inr []"
| "mergeAll db ((fid, s) # r) = (case GetFolder db fid of None \<Rightarrow> Inl (StoreFailed ErrNotFound)
     | Some f \<Rightarrow> bindr (mergeAll db r) (\<lambda>m. Inr ((fid, overlaySettings (toInheritable s) (fSettings f)) # m)))"

text \<open>The outcome and the store afterwards: the old one unless the transaction committed.\<close>

definition writePlan :: "(nat \<Rightarrow> string) \<Rightarrow> mcpPlan \<Rightarrow> storeDb \<Rightarrow> ((planError + nat \<times> nat \<times> nat) \<times> storeDb) option" where
  "writePlan newID p db =
     (case commitGuard db p of Some e \<Rightarrow> Some (Inl e, db)
      | None \<Rightarrow>
     (case mergeAll db (mpFolderSettings p) of Inl e \<Rightarrow> Some (Inl e, db)
      | Inr merged \<Rightarrow>
     (case writeRows newID merged p (newTx db) of Inl e \<Rightarrow> Some (Inl e, db)
      | Inr st \<Rightarrow>
     (case writeEdits (mpEditConns p) st of None \<Rightarrow> None
      | Some (Inl e) \<Rightarrow> Some (Inl e, db)
      | Some (Inr st') \<Rightarrow> Some (Inr (length (mpFolders p), length (mpConns p), length (mpForwards p)), txDb st')))))"

section \<open>Committing\<close>

definition planEmpty :: "mcpPlan \<Rightarrow> bool" where
  "planEmpty p \<longleftrightarrow> mpFolders p = [] \<and> mpFolderSettings p = [] \<and> mpConns p = [] \<and> mpForwards p = [] \<and>
     mpBookmarks p = [] \<and> mpEditConns p = [] \<and> mpEditFolders p = []"

text \<open>
  \<open>wait\<close> is what happens between the preview and the answer: the model stages more, the user changes the
  store. The plan is out of the state by then.
\<close>

definition planCommit :: "(nat \<Rightarrow> string) \<Rightarrow> bool \<Rightarrow> (mcpState \<times> storeDb \<Rightarrow> mcpState \<times> storeDb) \<Rightarrow> mcpState \<Rightarrow> storeDb \<Rightarrow>
    ((planError + nat \<times> nat \<times> nat) \<times> mcpState \<times> storeDb) option" where
  "planCommit newID approved wait st db =
     (if \<not> msManage st then Some (Inl ManageOff, st, db)
      else let st1 = st\<lparr>msPlan := None\<rparr> in
      case msPlan st of None \<Rightarrow> Some (Inl NoPlan, st1, db)
      | Some p \<Rightarrow>
          if planEmpty p then Some (Inl NoPlan, st1, db)
          else (case validatePlanRefs db p of Some e \<Rightarrow> Some (Inl e, st1, db)
          | None \<Rightarrow>
              (let (st2, db2) = wait (st1, db) in
               if \<not> approved then Some (Inl Rejected, st2, db2)
               else map_option (\<lambda>(r, db3). (r, st2, db3)) (writePlan newID p db2))))"

section \<open>What a commit keeps\<close>

lemma forEach_keeps:
  assumes "forEach f xs s = Inr s'" "P s" "\<And>x s s'. x \<in> set xs \<Longrightarrow> f x s = Inr s' \<Longrightarrow> P s \<Longrightarrow> P s'"
  shows "P s'"
  using assms by (induction xs arbitrary: s) (auto simp: bindr_Inr_iff)

lemma liftStore_Inr [simp]: "liftStore r = Inr a \<longleftrightarrow> r = Inr a"
  by (auto simp: liftStore_def split: sum.splits)

lemma runStore_Inr: "runStore op st = Inr st' \<longleftrightarrow> (\<exists>db. op (txDb st) = Inr db \<and> st' = st\<lparr>txDb := db\<rparr>)"
  by (auto simp: runStore_def bindr_Inr_iff)

text \<open>The property of the store, and the rows with a jump host to complete, which may be changed.\<close>

definition txKeeps :: "(storeDb \<Rightarrow> bool) \<Rightarrow> (string \<Rightarrow> bool) \<Rightarrow> (string \<Rightarrow> bool) \<Rightarrow> txState \<Rightarrow> bool" where
  "txKeeps I okF okC st \<longleftrightarrow> I (txDb st) \<and> (\<forall>e \<in> set (txPendFolders st). okF (fst e)) \<and>
     (\<forall>e \<in> set (txPendConns st). okC (fst e))"

lemma mergeAll_ids: "mergeAll db es = Inr m \<Longrightarrow> map fst m = map fst es"
  by (induction db es arbitrary: m rule: mergeAll.induct) (auto simp: bindr_Inr_iff split: option.splits)

context store_invariant
begin

lemma keeps_runStore: "runStore op st = Inr st' \<Longrightarrow> txKeeps I okF okC st \<Longrightarrow>
    (\<And>db'. I (txDb st) \<Longrightarrow> op (txDb st) = Inr db' \<Longrightarrow> I db') \<Longrightarrow> txKeeps I okF okC st'"
  by (auto simp: runStore_Inr txKeeps_def)

lemma keeps_writeFolder: "writeFolder newID f st = Inr st' \<Longrightarrow> txKeeps I okF okC st \<Longrightarrow> txKeeps I okF okC st'"
  by (auto simp: writeFolder_def txKeeps_def bindr_Inr_iff Let_def split: if_splits dest!: add_folder [rotated])

lemma keeps_writeFolderSettings: "writeFolderSettings e st = Inr st' \<Longrightarrow> okF (fst e) \<Longrightarrow>
    txKeeps I okF okC st \<Longrightarrow> txKeeps I okF okC st'"
  by (auto simp: writeFolderSettings_def txKeeps_def runStore_Inr Let_def split: if_splits dest: folder_settings)

lemma keeps_writeIcon: "writeIcon cid c db = Inr db' \<Longrightarrow> okC cid \<Longrightarrow> I db \<Longrightarrow> I db'"
  by (auto simp: writeIcon_def split: if_splits dest: conn_columns)

lemma keeps_writeConn:
  assumes "writeConn newID c st = Inr st'" "txKeeps I okF okC st"
  shows "txKeeps I okF okC st'"
proof -
  obtain nc rid db1 db2 pend where *: "insertConnection newID nc (txDb st) = Inr (rid, db1)" "writeIcon rid c db1 = Inr db2"
      "txDb st' = db2" "txPendFolders st' = txPendFolders st" "txPendConns st' = txPendConns st @ pend" "\<forall>e \<in> set pend. fst e = rid"
    using assms(1) by (force simp: writeConn_def bindr_Inr_iff Let_def split: if_splits)
  have "I db1 \<and> okC rid" using add_conn [OF _ *(1)] assms(2) by (simp add: txKeeps_def)
  then show ?thesis using assms(2) * keeps_writeIcon by (auto simp: txKeeps_def)
qed

lemma keeps_finishFolderJump: "finishFolderJump e st = Inr st' \<Longrightarrow> okF (fst e) \<Longrightarrow>
    txKeeps I okF okC st \<Longrightarrow> txKeeps I okF okC st'"
  by (auto simp: finishFolderJump_def bindr_Inr_iff elim!: keeps_runStore dest: folder_settings)

lemma keeps_finishConnJump: "finishConnJump e st = Inr st' \<Longrightarrow> okC (fst e) \<Longrightarrow>
    txKeeps I okF okC st \<Longrightarrow> txKeeps I okF okC st'"
  by (auto simp: finishConnJump_def bindr_Inr_iff elim!: keeps_runStore dest: conn_overrides)

lemma keeps_writeForward: "writeForward newID fw st = Inr st' \<Longrightarrow> txKeeps I okF okC st \<Longrightarrow> txKeeps I okF okC st'"
  by (auto simp: writeForward_def txKeeps_def bindr_Inr_iff dest: add_forward)

lemma keeps_writeBookmarks: "writeBookmarks e st = Inr st' \<Longrightarrow> txKeeps I okF okC st \<Longrightarrow> txKeeps I okF okC st'"
  by (auto simp: writeBookmarks_def txKeeps_def runStore_Inr bindr_Inr_iff dest: bookmark)

lemma keeps_whenSet: "whenSet x f st = Inr st' \<Longrightarrow> P st \<Longrightarrow>
    (\<And>v st'. x = Some v \<Longrightarrow> f v st = Inr st' \<Longrightarrow> P st') \<Longrightarrow> P st'"
  by (cases x) (auto simp: whenSet_def)

lemma keeps_editColumns:
  assumes "editColumns e st = Inr st'" "okC (peConnID e)" "txKeeps I okF okC st"
  shows "txKeeps I okF okC st'"
proof -
  note ok = assms(2)
  obtain s1 s2 s3 s4 where
      1: "whenSet (peName e) (\<lambda>n. runStore (RenameConnectionTx (peConnID e) n)) st = Inr s1" and
      2: "whenSet (peHost e) (\<lambda>h. runStore (SetConnectionHostnameTx (peConnID e) h)) s1 = Inr s2" and
      3: "whenSet (peNotes e) (\<lambda>n. runStore (SetConnectionNotesTx (peConnID e) n)) s2 = Inr s3" and
      4: "whenSet (peFolder e) (\<lambda>r st. bindr (resolveRef (txFolderIDs st) r)
               (\<lambda>fid. runStore (MoveConnectionTx (peConnID e) fid) st)) s3 = Inr s4" and
      5: "s4 = st' \<or> (\<exists>s cl. runStore (PatchConnectionOverridesTx (peConnID e) s cl) s4 = Inr st')"
    using assms(1) by (fastforce simp: editColumns_def Let_def bindr_Inr_iff split: if_splits)
  have "txKeeps I okF okC s1" using 1 assms(3)
    by (rule keeps_whenSet) (auto elim!: keeps_runStore intro: assms(3) conn_columns [OF _ ok])
  with 2 have "txKeeps I okF okC s2" by (rule keeps_whenSet) (use \<open>txKeeps I okF okC s1\<close> in \<open>auto elim!: keeps_runStore intro: conn_columns [OF _ ok]\<close>)
  with 3 have "txKeeps I okF okC s3" by (rule keeps_whenSet) (use \<open>txKeeps I okF okC s2\<close> in \<open>auto elim!: keeps_runStore intro: conn_columns [OF _ ok]\<close>)
  with 4 have "txKeeps I okF okC s4" by (rule keeps_whenSet) (use \<open>txKeeps I okF okC s3\<close> in \<open>auto simp: bindr_Inr_iff elim!: keeps_runStore intro: move_conn [OF _ ok]\<close>)
  with 5 show ?thesis by (auto elim!: keeps_runStore intro: conn_overrides [OF _ ok])
qed

lemma keeps_writeEdits: "writeEdits es st = Some (Inr st') \<Longrightarrow> \<forall>e \<in> set es. okC (peConnID e) \<Longrightarrow>
    txKeeps I okF okC st \<Longrightarrow> txKeeps I okF okC st'"
proof (induction es arbitrary: st)
  case (Cons e es)
  obtain s1 where s1: "writeEdit e st = Some (Inr s1)" "writeEdits es s1 = Some (Inr st')"
    using Cons.prems(1) by (auto split: option.splits sum.splits)
  obtain s0 where s0: "editColumns e st = Inr s0"
      "s1 = s0 \<or> (\<exists>img. runStore (SetConnectionIconTx (peConnID e) img) s0 = Inr s1)"
    using s1(1) by (auto simp: writeEdit_def split: sum.splits option.splits if_splits)
  have "txKeeps I okF okC s0" using keeps_editColumns [OF s0(1)] Cons.prems by simp
  then have "txKeeps I okF okC s1" using s0(2) Cons.prems(2) by (auto elim!: keeps_runStore intro: conn_columns)
  then show ?case using Cons s1(2) by simp
qed simp

lemma keeps_writeRows:
  assumes "writeRows newID merged p st = Inr st'" "txKeeps I okF okC st"
    "\<forall>e \<in> set merged. okF (fst e)" "\<forall>e \<in> set (mpEditFolders p). okF (fst e)"
  shows "txKeeps I okF okC st'"
proof -
  let ?K = "txKeeps I okF okC"
  obtain s1 s2 s3 s4 s5 s6 s7 where
      1: "forEach (writeFolder newID) (mpFolders p) st = Inr s1" and
      2: "forEach writeFolderSettings merged s1 = Inr s2" and
      3: "forEach (writeConn newID) (mpConns p) s2 = Inr s3" and
      4: "forEach finishFolderJump (txPendFolders s3) s3 = Inr s4" and
      5: "forEach finishConnJump (txPendConns s4) s4 = Inr s5" and
      6: "forEach (writeForward newID) (mpForwards p) s5 = Inr s6" and
      7: "forEach writeBookmarks (mpBookmarks p) s6 = Inr s7" and
      8: "forEach (\<lambda>(fid, name). runStore (RenameFolderTx fid name)) (mpEditFolders p) s7 = Inr st'"
    using assms(1) by (auto simp: writeRows_def bindr_Inr_iff)
  have "?K s1" by (rule forEach_keeps [where P = ?K, OF 1 assms(2) keeps_writeFolder])
  then have "?K s2" by (rule forEach_keeps [where P = ?K, OF 2]) (use assms(3) keeps_writeFolderSettings in blast)
  then have k3: "?K s3" by (rule forEach_keeps [where P = ?K, OF 3]) (rule keeps_writeConn)
  then have p3: "\<forall>e \<in> set (txPendFolders s3). okF (fst e)" by (simp add: txKeeps_def)
  have k4: "?K s4" using k3 by (rule forEach_keeps [where P = ?K, OF 4]) (use p3 keeps_finishFolderJump in blast)
  then have p4: "\<forall>e \<in> set (txPendConns s4). okC (fst e)" by (simp add: txKeeps_def)
  have "?K s5" using k4 by (rule forEach_keeps [where P = ?K, OF 5]) (use p4 keeps_finishConnJump in blast)
  then have "?K s6" by (rule forEach_keeps [where P = ?K, OF 6]) (rule keeps_writeForward)
  then have "?K s7" by (rule forEach_keeps [where P = ?K, OF 7]) (rule keeps_writeBookmarks)
  then show ?thesis
    by (rule forEach_keeps [where P = ?K, OF 8]) (use assms(4) in \<open>auto elim!: keeps_runStore dest: folder_name\<close>)
qed

text \<open>A commit that succeeds keeps the property when the rows it changes may be changed.\<close>

lemma keeps_writePlan:
  assumes "writePlan newID p db = Some (Inr r, db')" "I db" "\<forall>e \<in> set (mpFolderSettings p). okF (fst e)"
    "\<forall>e \<in> set (mpEditFolders p). okF (fst e)" "\<forall>e \<in> set (mpEditConns p). okC (peConnID e)"
  shows "I db'"
proof -
  obtain merged st st' where w: "mergeAll db (mpFolderSettings p) = Inr merged" "writeRows newID merged p (newTx db) = Inr st"
      "writeEdits (mpEditConns p) st = Some (Inr st')" "db' = txDb st'"
    using assms(1) by (auto simp: writePlan_def split: option.splits sum.splits)
  have "\<forall>e \<in> set merged. okF (fst e)" using assms(3) arg_cong [OF mergeAll_ids [OF w(1)], of set] by force
  moreover have "txKeeps I okF okC (newTx db)" using assms(2) by (simp add: txKeeps_def newTx_def)
  ultimately have "txKeeps I okF okC st" using keeps_writeRows [OF w(2)] assms(4) by blast
  then have "txKeeps I okF okC st'" using keeps_writeEdits [OF w(3)] assms(5) by blast
  then show ?thesis by (simp add: w(4) txKeeps_def)
qed

end

section \<open>A small store and plan\<close>

definition someIds :: "nat \<Rightarrow> string" where
  "someIds n = CHR ''n'' # replicate n (CHR ''x'')"

definition aFolder :: "string \<Rightarrow> inheritableSettings \<Rightarrow> folder" where
  "aFolder fid s = \<lparr>fID = fid, fParentID = None, fName = fid, fSortOrder = 0, fSettings = s, fIconImageID = None,
     fIconName = None, fIconColor = None, fCreatedAt = 0, fUpdatedAt = 0\<rparr>"

definition aConn :: "string \<Rightarrow> string \<Rightarrow> connection" where
  "aConn cid fid = zeroConnection\<lparr>cID := cid, cFolderID := Some fid, cName := cid, cHostname := cid\<rparr>"

definition aStore :: storeDb where
  "aStore = \<lparr>dbFolders = [aFolder ''web'' noSettings, aFolder ''vault'' (noSettings\<lparr>iSensitive := Some True\<rparr>)],
     dbConns = [aConn ''c1'' ''web'', aConn ''s1'' ''vault''], dbForwards = [], dbImages = [], dbCreds = [],
     dbProfiles = [], dbEntries = [], dbNext = 0, dbNow = 5\<rparr>"

definition anEdit :: planEditConn where
  "anEdit = \<lparr>peConnID = ''c1'', peName = Some ''front'', peHost = None, peFolder = Some (parsePlanRef ''tmp:t0''),
     peNotes = None, peSetSettings = noSettings\<lparr>iUsername := Some ''ops''\<rparr>, peClearSettings = [], peIcon = None,
     peIconColor = None, peIconImage = None\<rparr>"

text \<open>A new folder, an edit that moves a connection into it, and a rename.\<close>

definition aPlan :: mcpPlan where
  "aPlan = emptyPlan\<lparr>mpFolders := [\<lparr>pfoTempID = ''t0'', pfoName = ''front'', pfoParent = noRef, pfoSettings = None\<rparr>],
     mpEditConns := [anEdit], mpEditFolders := [(''web'', ''web-old'')]\<rparr>"

lemma aStore_wf: "wfStore someIds aStore"
  by (auto simp: wfStore_def aStore_def aFolder_def aConn_def someIds_def refOK_def zeroConnection_def inj_on_def)

lemma aPlan_writes: "case writePlan someIds aPlan aStore of Some (Inr r, db') \<Rightarrow> r = (1, 0, 0) | _ \<Rightarrow> False"
  by code_simp

lemma aStore_sensitive: "connSensitive (aConn ''s1'' ''vault'') (dbFolders aStore)"
  by code_simp

end
