(* ===== verification/PlanSafety.thy ===== *)
theory PlanSafety
  imports PlanCommit
begin

text \<open>
  What a committed plan does to the store: the sensitive hosts and what they resolve from are left
  alone, the store stays well-formed, a failed commit writes nothing, and what is staged during the
  approval is not part of it. The proofs instantiate the interface of the store's statements.
\<close>

section \<open>Sensitive hosts\<close>

lemma looked_exist:
  assumes "wfStore newID db" "c \<in> set (dbConns db)"
    "x \<in> set (looked (folderIndex (dbFolders db)) (cFolderID c) 0)"
  shows "x \<in> fID ` set (dbFolders db)"
proof -
  obtain y where y: "cFolderID c = Some y" "(x, y) \<in> (childOf (dbFolders db))\<^sup>*"
    using looked_below [OF assms(3)] by blast
  have "y \<in> fID ` set (dbFolders db)"
    using assms(1,2) y(1) by (auto simp: wfStore_def refOK_def dest!: bspec split: option.splits)
  with y(2) show ?thesis
  proof (induction rule: converse_rtrancl_induct)
    case (step p q)
    then obtain f where "f \<in> set (dbFolders db)" "fParentID f = Some p" by (auto simp: childOf_def)
    then show ?case using assms(1) by (fastforce simp: wfStore_def refOK_def)
  qed simp
qed

lemma commitGuard_None:
  "commitGuard db p = None \<longleftrightarrow>
     (\<forall>x \<in> fst ` set (mpFolderSettings p) \<union> fst ` set (mpEditFolders p).
        \<not> folderTouchesSensitive (Some (dbFolders db)) (Some (dbConns db)) x) \<and>
     (\<forall>e \<in> set (mpEditConns p). \<forall>c. GetConnection db (peConnID e) = Some c \<longrightarrow> \<not> connSensitive c (dbFolders db))"
  by (auto simp: commitGuard_def Let_def list_ex_iff isSensitive_def split: option.splits)

text \<open>The ids of the sensitive connections, and of the folders they resolve from.\<close>

definition guardedConns :: "storeDb \<Rightarrow> string set" where
  "guardedConns db = {cID c |c. c \<in> set (dbConns db) \<and> connSensitive c (dbFolders db)}"

definition guardedFolders :: "storeDb \<Rightarrow> string set" where
  "guardedFolders db = {x. \<exists>c \<in> set (dbConns db). connSensitive c (dbFolders db) \<and>
     x \<in> set (looked (folderIndex (dbFolders db)) (cFolderID c) 0)}"

lemma guard_covers:
  assumes "wfStore newID db" "commitGuard db p = None"
  shows "\<forall>e \<in> set (mpFolderSettings p). fst e \<notin> guardedFolders db"
    "\<forall>e \<in> set (mpEditFolders p). fst e \<notin> guardedFolders db"
    "\<forall>e \<in> set (mpEditConns p). peConnID e \<notin> guardedConns db"
proof -
  have "folderTouchesSensitive (Some (dbFolders db)) (Some (dbConns db)) x" if "x \<in> guardedFolders db" for x
    using that looked_below by (fastforce simp: guardedFolders_def folderTouchesSensitive_iff)
  then show "\<forall>e \<in> set (mpFolderSettings p). fst e \<notin> guardedFolders db"
    "\<forall>e \<in> set (mpEditFolders p). fst e \<notin> guardedFolders db"
    using assms(2) by (auto simp: commitGuard_None)
  have "GetConnection db (cID c) = Some c" if "c \<in> set (dbConns db)" for c
    using that assms(1) find_hit [of cID "dbConns db" c] by (simp add: wfStore_def GetConnection_def)
  then show "\<forall>e \<in> set (mpEditConns p). peConnID e \<notin> guardedConns db"
    using assms(2) by (fastforce simp: commitGuard_None guardedConns_def)
qed

lemma writePlan_guard: "writePlan newID p db = Some (Inr r, db') \<Longrightarrow> commitGuard db p = None"
  by (auto simp: writePlan_def split: option.splits)

lemma writePlan_agrees:
  assumes "wfStore newID db" "writePlan newID p db = Some (Inr r, db')"
  shows "agree newID (guardedFolders db) (guardedConns db) db db'"
proof -
  note g = guard_covers [OF assms(1) writePlan_guard [OF assms(2)]]
  have "guardedFolders db \<subseteq> fID ` set (dbFolders db)" "guardedConns db \<subseteq> cID ` set (dbConns db)"
    using looked_exist [OF assms(1)] by (auto simp: guardedFolders_def guardedConns_def)
  then have "agree newID (guardedFolders db) (guardedConns db) db db"
    using assms(1) unfolding agree_def wfStore_def by blast
  from untouched.keeps_writePlan [OF assms(2) this g] show ?thesis .
qed

text \<open>C8: a commit that succeeds leaves every connection that resolved sensitive as it is stored, and what it
  resolves to, whatever the plan adds, edits, moves or renames.\<close>

theorem sensitive_hosts_untouched:
  assumes "wfStore newID db" "writePlan newID p db = Some (Inr r, db')"
    and c: "c \<in> set (dbConns db)" "connSensitive c (dbFolders db)"
  shows "c \<in> set (dbConns db') \<and> ResolveWith c (dbFolders db') = ResolveWith c (dbFolders db)"
proof -
  note ag = writePlan_agrees [OF assms(1,2)]
  have "GetConnection db (cID c) = Some c"
    using c(1) assms(1) find_hit [of cID "dbConns db" c] by (simp add: wfStore_def GetConnection_def)
  moreover have "cID c \<in> guardedConns db" using c by (auto simp: guardedConns_def)
  ultimately have "GetConnection db' (cID c) = Some c" using ag by (simp add: agree_def)
  then have "c \<in> set (dbConns db')" by (auto simp: GetConnection_def find_Some_iff in_set_conv_nth)
  moreover have "\<forall>x \<in> set (looked (folderIndex (dbFolders db)) (cFolderID c) 0).
      folderIndex (dbFolders db') x = folderIndex (dbFolders db) x"
    using ag c by (auto simp: agree_def guardedFolders_def)
  ultimately show ?thesis using ResolveWith_cong by blast
qed

lemma sensitive_hosts_untouched_witness:
  "\<exists>r db'. writePlan someIds aPlan aStore = Some (Inr r, db') \<and> aConn ''s1'' ''vault'' \<in> set (dbConns db') \<and>
     rSensitive (ResolveWith (aConn ''s1'' ''vault'') (dbFolders db'))"
proof -
  obtain r db' where w: "writePlan someIds aPlan aStore = Some (Inr r, db')"
    using aPlan_writes by (auto split: option.splits sum.splits prod.splits)
  have "aConn ''s1'' ''vault'' \<in> set (dbConns aStore)" by (simp add: aStore_def)
  with sensitive_hosts_untouched [OF aStore_wf w this aStore_sensitive] show ?thesis
    using w aStore_sensitive unfolding connSensitive_def by metis
qed

section \<open>The store after a commit\<close>



lemma writePlan_Inl: "writePlan newID p db = Some (Inl e, db') \<Longrightarrow> db' = db"
  by (auto simp: writePlan_def split: option.splits sum.splits)

text \<open>The state after a commit, by its outcome.\<close>

text \<open>C13: a commit that fails writes nothing, at whatever statement it fails; one that succeeds was approved, passed
  the reference check and wrote the plan taken out before the wait, so what was staged meanwhile stays staged.\<close>

theorem commit_all_or_nothing:
  assumes "planCommit newID approved wait st db = Some (out, st', db')"
  shows "case out of
      Inl e \<Rightarrow> (st', db') \<in> {(st, db), (st\<lparr>msPlan := None\<rparr>, db), wait (st\<lparr>msPlan := None\<rparr>, db)}
    | Inr r \<Rightarrow> approved \<and> msManage st \<and> st' = fst (wait (st\<lparr>msPlan := None\<rparr>, db)) \<and>
        (\<exists>p. msPlan st = Some p \<and> validatePlanRefs db p = None \<and>
             writePlan newID p (snd (wait (st\<lparr>msPlan := None\<rparr>, db))) = Some (Inr r, db'))"
proof -
  obtain st2 db2 where w: "wait (st\<lparr>msPlan := None\<rparr>, db) = (st2, db2)" by fastforce
  consider "out = Inl ManageOff" "st' = st" "db' = db" | e where "out = Inl e" "st' = st\<lparr>msPlan := None\<rparr>" "db' = db"
    | "out = Inl Rejected" "st' = st2" "db' = db2"
    | p where "msPlan st = Some p" "msManage st" "validatePlanRefs db p = None" "approved" "st' = st2" "writePlan newID p db2 = Some (out, db')"
    using assms by (auto simp: planCommit_def Let_def w split: if_splits option.splits)
  then show ?thesis
  proof cases
    case (4 p)
    then show ?thesis using writePlan_Inl [of newID p db2 _ db'] w by (cases out) auto
  qed (simp_all add: w)
qed

text \<open>A commit the user rejects, while another folder is staged.\<close>

lemma commit_all_or_nothing_witness:
  "let st = \<lparr>msManage = True, msPlan = Some aPlan, msTemps = 1\<rparr>; more' = st\<lparr>msPlan := Some emptyPlan, msTemps := 2\<rparr>
   in \<exists>st' db'. planCommit someIds False (\<lambda>(s, d). (more', d)) st aStore = Some (Inl Rejected, st', db') \<and>
        (st', db') \<in> {(st, aStore), (st\<lparr>msPlan := None\<rparr>, aStore), (more', aStore)}"
proof -
  define st where "st = \<lparr>msManage = True, msPlan = Some aPlan, msTemps = 1\<rparr>"
  define w where "w = (\<lambda>(s :: mcpState, d :: storeDb). (st\<lparr>msPlan := Some emptyPlan, msTemps := 2\<rparr>, d))"
  have v: "validatePlanRefs aStore aPlan = None" "\<not> planEmpty aPlan" by code_simp+
  have "planCommit someIds False w st aStore = Some (Inl Rejected, st\<lparr>msPlan := Some emptyPlan, msTemps := 2\<rparr>, aStore)"
    by (simp add: planCommit_def st_def w_def v)
  from this commit_all_or_nothing [OF this] show ?thesis by (simp add: st_def w_def Let_def)
qed

section \<open>Commits that never return\<close>

text \<open>An edit of the icon or its colour, the image left alone.\<close>

definition iconEdit :: "planEditConn \<Rightarrow> bool" where
  "iconEdit e \<longleftrightarrow> peIconImage e = None \<and> (peIcon e \<noteq> None \<or> peIconColor e \<noteq> None)"

lemma writeEdit_None: "writeEdit e st = None \<longleftrightarrow> iconEdit e \<and> (\<exists>s. editColumns e st = Inr s)"
  by (auto simp: writeEdit_def iconEdit_def split: sum.splits option.splits)

lemma writeEdits_None: "writeEdits es st = None \<Longrightarrow> \<exists>e \<in> set es. iconEdit e"
proof (induction es arbitrary: st)
  case (Cons e es)
  show ?case
  proof (cases "writeEdit e st")
    case None
    then show ?thesis using writeEdit_None [of e st] by auto
  next
    case (Some o')
    then show ?thesis using Cons by (cases o') auto
  qed
qed simp

lemma writeEdits_icon: "e \<in> set es \<Longrightarrow> iconEdit e \<Longrightarrow> writeEdits es st \<noteq> Some (Inr st')"
proof (induction es arbitrary: st)
  case (Cons a es)
  have "writeEdit a st \<noteq> Some (Inr s)" if "iconEdit a" for s
    using that by (auto simp: writeEdit_def iconEdit_def split: sum.splits)
  then show ?case using Cons by (auto split: option.splits sum.splits)
qed simp

text \<open>a commit returns when no staged edit touches a named icon or its colour.\<close>

lemma commit_returns_without_icon_edits:
  assumes "\<forall>p. msPlan st = Some p \<longrightarrow> (\<forall>e \<in> set (mpEditConns p). \<not> iconEdit e)"
  shows "\<exists>out. planCommit newID approved wait st db = Some out"
proof -
  have "\<exists>o' db'. writePlan newID p db2 = Some (o', db')" if "\<forall>e \<in> set (mpEditConns p). \<not> iconEdit e" for p db2
    using that writeEdits_None [of "mpEditConns p"]
    by (auto simp: writePlan_def split: option.splits sum.splits)
  then show ?thesis using assms
    by (auto simp: planCommit_def Let_def split: option.splits prod.splits)
qed

lemma commit_returns_without_icon_edits_witness:
  "\<exists>out. planCommit someIds True (\<lambda>x. x) \<lparr>msManage = True, msPlan = Some aPlan, msTemps = 1\<rparr> aStore = Some out"
  by (rule commit_returns_without_icon_edits) (simp add: aPlan_def anEdit_def iconEdit_def)

text \<open>a plan with an edit of a named icon or its colour never commits; when nothing before it fails it never
  returns, because the icon is read outside the transaction on a store with one connection.\<close>

lemma icon_edit_never_commits:
  assumes "msPlan st = Some p" "e \<in> set (mpEditConns p)" "iconEdit e"
  shows "\<nexists>r st' db'. planCommit newID approved wait st db = Some (Inr r, st', db')"
proof -
  have "writePlan newID p db2 \<noteq> Some (Inr r, db')" for db2 r db'
    using writeEdits_icon [OF assms(2,3)] by (auto simp: writePlan_def split: option.splits sum.splits)
  then show ?thesis using assms(1)
    by (auto simp: planCommit_def Let_def split: option.splits prod.splits if_splits)
qed

lemma icon_edit_never_commits_witness:
  "\<nexists>r st' db'. planCommit someIds True (\<lambda>x. x)
     \<lparr>msManage = True, msPlan = Some (emptyPlan\<lparr>mpEditConns := [anEdit\<lparr>peFolder := None, peIcon := Some ''server''\<rparr>]\<rparr>), msTemps = 0\<rparr>
     aStore = Some (Inr r, st', db')"
  by (rule icon_edit_never_commits [where p = "emptyPlan\<lparr>mpEditConns := [anEdit\<lparr>peFolder := None, peIcon := Some ''server''\<rparr>]\<rparr>"
        and e = "anEdit\<lparr>peFolder := None, peIcon := Some ''server''\<rparr>"]) (simp_all add: iconEdit_def anEdit_def)

text \<open>The same plan, checked and approved: the commit waits for ever.\<close>

lemma icon_edit_hangs:
  "planCommit someIds True (\<lambda>x. x)
     \<lparr>msManage = True, msPlan = Some (emptyPlan\<lparr>mpEditConns := [anEdit\<lparr>peFolder := None, peIcon := Some ''server''\<rparr>]\<rparr>), msTemps = 0\<rparr>
     aStore = None"
  by code_simp

section \<open>Two edits of one connection\<close>

text \<open>The seven fields a staged edit can set, and the edits that set none that an earlier one clears.\<close>

definition setsField :: "inheritableSettings \<Rightarrow> string \<Rightarrow> bool" where
  "setsField s f \<longleftrightarrow> (f = ''username'' \<and> iUsername s \<noteq> None) \<or> (f = ''port'' \<and> iPort s \<noteq> None) \<or>
     (f = ''auth_ref'' \<and> iAuthRef s \<noteq> None) \<or> (f = ''jump_host'' \<and> iJumpHost s \<noteq> None) \<or>
     (f = ''color_tag'' \<and> iColorTag s \<noteq> None) \<or> (f = ''initial_command'' \<and> iInitialCommand s \<noteq> None) \<or>
     (f = ''network_profile_id'' \<and> iNetworkProfileID s \<noteq> None)"

lemma overlay_updates: "overlaySettings s t =
    iUsername_update (firstNonNil (iUsername s)) (iPort_update (firstNonNil (iPort s))
    (iAuthRef_update (firstNonNil (iAuthRef s)) (iJumpHost_update (firstNonNil (iJumpHost s))
    (iColorTag_update (firstNonNil (iColorTag s)) (iInitialCommand_update (firstNonNil (iInitialCommand s))
    (iNetworkProfileID_update (firstNonNil (iNetworkProfileID s)) t))))))"
  by (cases t) (simp add: overlaySettings_def)

lemma firstNonNil_None: "firstNonNil None = (\<lambda>x. x)"
  by (simp add: firstNonNil_def fun_eq_iff)

lemma overrideFields_overlay:
  "list_all (\<lambda>(f, g). \<not> setsField s f \<longrightarrow> g (overlaySettings s t) = overlaySettings s (g t)) overrideFields"
  by (simp add: overrideFields_def setsField_def overlay_updates firstNonNil_None o_def cong: imp_cong)

lemma overlay_clearField:
  "\<not> setsField s f \<Longrightarrow> clearField f t = Some t' \<Longrightarrow> clearField f (overlaySettings s t) = Some (overlaySettings s t')"
  using overrideFields_overlay [of s t] by (auto simp: clearField_def list_all_iff dest: map_of_SomeD)

lemma overlay_clearFields:
  "\<forall>f \<in> set cl. \<not> setsField s f \<Longrightarrow> clearFields cl t = Inr t' \<Longrightarrow>
    clearFields cl (overlaySettings s t) = Inr (overlaySettings s t')"
  by (induction cl arbitrary: t) (auto simp: overlay_clearField split: option.splits)

lemma clearFields_append:
  "clearFields (xs @ ys) s = bindr (clearFields xs s) (clearFields ys)"
  by (induction xs arbitrary: s) (auto split: option.splits)

lemma clearFields_Inl: "clearFields cl s = Inl e \<Longrightarrow> clearFields cl t = Inl e"
  by (induction cl arbitrary: s t) (auto simp: clearField_def split: option.splits)

lemma overlay_merge:
  "iColorTag (peSetSettings b) = None \<Longrightarrow>
    overlaySettings (peSetSettings (mergeConnEdit a b)) t = overlaySettings (peSetSettings b) (overlaySettings (peSetSettings a) t)"
  by (simp add: overlaySettings_def mergeConnEdit_def firstNonNil_def)

lemma updConn_twice:
  assumes "updConn cid (\<lambda>c. c\<lparr>cOverrides := t\<rparr>) db = Inr db1"
  shows "updConn cid (\<lambda>c. c\<lparr>cOverrides := u\<rparr>) db1 = updConn cid (\<lambda>c. c\<lparr>cOverrides := u\<rparr>) db"
proof -
  note db1 = updConn_Inr [OF assms]
  have "map cID (dbConns db1) = map cID (dbConns db)"
    unfolding db1 using map_upd [of cID "\<lambda>c. c\<lparr>cOverrides := t, cUpdatedAt := dbNow db\<rparr>" cid "dbConns db"] by simp
  then have "cID ` set (dbConns db1) = cID ` set (dbConns db)" by (metis set_map)
  moreover have "cid \<in> cID ` set (dbConns db)" using assms by (auto simp: updConn_def split: if_splits)
  ultimately have "updConn cid (\<lambda>c. c\<lparr>cOverrides := u\<rparr>) db1 =
      Inr (db1\<lparr>dbConns := map (\<lambda>c. if cID c = cid then (c\<lparr>cOverrides := u\<rparr>)\<lparr>cUpdatedAt := dbNow db1\<rparr> else c) (dbConns db1)\<rparr>)"
    by (simp only: updConn_def if_True)
  then show ?thesis using \<open>cid \<in> cID ` set (dbConns db)\<close>
    by (simp add: db1 updConn_def o_def if_distrib cong: if_cong)
qed

lemma GetConnection_updConn:
  assumes "GetConnection db cid = Some c" "updConn cid (\<lambda>c. c\<lparr>cOverrides := t\<rparr>) db = Inr db1"
  shows "\<exists>c1. GetConnection db1 cid = Some c1 \<and> cOverrides c1 = t"
proof -
  have "find (\<lambda>c. cID c = cid) cs = Some c \<Longrightarrow>
      \<exists>c1. find (\<lambda>c. cID c = cid) (map (\<lambda>c. if cID c = cid then (c\<lparr>cOverrides := t, cUpdatedAt := n\<rparr>) else c) cs) = Some c1 \<and>
        cOverrides c1 = t" for cs n
    by (induction cs) auto
  then show ?thesis using assms(1) updConn_Inr [OF assms(2)] by (simp add: GetConnection_def)
qed

text \<open>The staged merge of two edits against the two patches one after the other.\<close>

text \<open>two staged edits of a connection patch it as one after the other would, when the second sets no field the
  first clears.\<close>

lemma merged_edit_is_both_edits:
  assumes "\<forall>f \<in> set (peClearSettings a). \<not> setsField (peSetSettings b) f" "iColorTag (peSetSettings b) = None"
  shows "PatchConnectionOverridesTx cid (peSetSettings (mergeConnEdit a b)) (peClearSettings (mergeConnEdit a b)) db =
    bindr (PatchConnectionOverridesTx cid (peSetSettings a) (peClearSettings a) db)
      (PatchConnectionOverridesTx cid (peSetSettings b) (peClearSettings b))"
proof (cases "GetConnection db cid")
  case None
  then show ?thesis by (simp add: PatchConnectionOverridesTx_def)
next
  case (Some c)
  let ?sb = "peSetSettings b" and ?ta = "overlaySettings (peSetSettings a) (cOverrides c)"
  have cl: "peClearSettings (mergeConnEdit a b) = peClearSettings a @ peClearSettings b" by (simp add: mergeConnEdit_def)
  show ?thesis
  proof (cases "clearFields (peClearSettings a) ?ta")
    case (Inl e)
    then show ?thesis using Some clearFields_Inl [OF Inl, of "overlaySettings ?sb ?ta"]
      by (simp add: PatchConnectionOverridesTx_def cl clearFields_append overlay_merge [OF assms(2)])
  next
    case (Inr t)
    obtain db1 where db1: "updConn cid (\<lambda>c. c\<lparr>cOverrides := t\<rparr>) db = Inr db1"
      using Some by (auto simp: updConn_def GetConnection_def find_Some_iff)
    obtain c1 where c1: "GetConnection db1 cid = Some c1" "cOverrides c1 = t"
      using GetConnection_updConn [OF Some db1] by blast
    show ?thesis
      using Some Inr db1 c1 overlay_clearFields [OF assms(1) Inr] updConn_twice [OF db1]
      by (simp add: PatchConnectionOverridesTx_def cl clearFields_append overlay_merge [OF assms(2)])
  qed
qed

lemma merged_edit_is_both_edits_witness:
  "let a = anEdit\<lparr>peClearSettings := [''port'']\<rparr>; m = mergeConnEdit a anEdit
   in PatchConnectionOverridesTx ''c1'' (peSetSettings m) (peClearSettings m) aStore =
      bindr (PatchConnectionOverridesTx ''c1'' (peSetSettings a) [''port''] aStore)
        (PatchConnectionOverridesTx ''c1'' (peSetSettings anEdit) [])"
  using merged_edit_is_both_edits [of "anEdit\<lparr>peClearSettings := [''port'']\<rparr>" anEdit "''c1''" aStore]
  by (simp add: anEdit_def setsField_def noSettings_def Let_def)

text \<open>A field that any of the merged edits clears is cleared, whatever a later one set.\<close>

lemma overrideFields_user:
  "list_all (\<lambda>(f, g). iUsername s = None \<longrightarrow> iUsername (g s) = None) overrideFields"
  by (simp add: overrideFields_def)

lemma clearFields_user:
  "clearFields cl s = Inr t \<Longrightarrow> ''username'' \<in> set cl \<or> iUsername s = None \<Longrightarrow> iUsername t = None"
proof (induction cl arbitrary: s)
  case (Cons f cl)
  obtain g where g: "map_of overrideFields f = Some g" "clearFields cl (g s) = Inr t"
    using Cons.prems(1) by (auto simp: clearField_def split: option.splits)
  have "iUsername (g s) = None" if "iUsername s = None"
    using overrideFields_user [of s] map_of_SomeD [OF g(1)] that by (auto simp: list_all_iff)
  moreover have "iUsername (g s) = None" if "f = ''username''"
    using g(1) that by (simp add: overrideFields_def) auto
  ultimately show ?case using Cons.IH [OF g(2)] Cons.prems(2) by auto
qed simp

lemma cleared_username_stays_cleared:
  assumes "PatchConnectionOverridesTx cid (peSetSettings (mergeConnEdit a b)) (peClearSettings (mergeConnEdit a b)) db = Inr db'"
    "''username'' \<in> set (peClearSettings a)" "GetConnection db' cid = Some c"
  shows "iUsername (cOverrides c) = None"
proof -
  obtain c0 t where t: "GetConnection db cid = Some c0" "updConn cid (\<lambda>c. c\<lparr>cOverrides := t\<rparr>) db = Inr db'"
      "clearFields (peClearSettings (mergeConnEdit a b)) (overlaySettings (peSetSettings (mergeConnEdit a b)) (cOverrides c0)) = Inr t"
    using assms(1) by (auto simp: PatchConnectionOverridesTx_def bindr_Inr_iff split: option.splits)
  have "cOverrides c = t" using GetConnection_updConn [OF t(1,2)] assms(3) by auto
  then show ?thesis using clearFields_user [OF t(3)] assms(2) by (simp add: mergeConnEdit_def)
qed

text \<open>Clear the user, then set it: the merged edit leaves it unset.\<close>

lemma clear_then_set_is_lost:
  "let a = anEdit\<lparr>peSetSettings := noSettings, peClearSettings := [''username'']\<rparr>; m = mergeConnEdit a anEdit
   in case (PatchConnectionOverridesTx ''c1'' (peSetSettings m) (peClearSettings m) aStore,
            bindr (PatchConnectionOverridesTx ''c1'' (peSetSettings a) (peClearSettings a) aStore)
              (PatchConnectionOverridesTx ''c1'' (peSetSettings anEdit) (peClearSettings anEdit))) of
        (Inr db1, Inr db2) \<Rightarrow> map_option (iUsername \<circ> cOverrides) (GetConnection db1 ''c1'') = Some None \<and>
                              map_option (iUsername \<circ> cOverrides) (GetConnection db2 ''c1'') = Some (Some ''ops'')
      | _ \<Rightarrow> False"
  by code_simp

end
