(* ===== verification/VaultFile.thy ===== *)
theory VaultFile
  imports Base64 "HOL-Library.AList" "HOL-Library.Word"
begin

text \<open>
  The encrypted file vault, \<open>internal/creds/file_vault.go\<close>: padding, the sealed entries, creating,
  opening, reading, writing and re-keying a vault. XChaCha20-Poly1305, Argon2id and the random source are
  a record of functions, \<open>crypto\<close>; both libraries panic on a malformed nonce or cost, which is the
  outcome \<open>Panicked\<close>. The file on disk is its decoded content or bytes that do not parse; a write
  replaces it or fails, as the rename of a temporary file does.
\<close>

section \<open>What the vault is built on\<close>

record crypto =
  cSeal :: "string \<Rightarrow> string \<Rightarrow> string \<Rightarrow> string"                \<comment> \<open>key, nonce, plaintext\<close>
  cOpen :: "string \<Rightarrow> string \<Rightarrow> string \<Rightarrow> string option"         \<comment> \<open>key, nonce, ciphertext\<close>
  cArgon :: "string \<Rightarrow> string \<Rightarrow> 32 word \<Rightarrow> 32 word \<Rightarrow> 8 word \<Rightarrow> string"
  cRand :: "nat \<Rightarrow> nat \<Rightarrow> string"                            \<comment> \<open>n-th read, number of bytes\<close>

definition nonceSize :: nat where "nonceSize = 24"

text \<open>The documented laws: what was sealed opens with the same key and nonce, and with no other key; sizes.\<close>

definition cryptoOK :: "crypto \<Rightarrow> bool" where
  "cryptoOK cy \<longleftrightarrow> (\<forall>k n p. length k = 32 \<longrightarrow> length n = nonceSize \<longrightarrow> cOpen cy k n (cSeal cy k n p) = Some p) \<and>
     (\<forall>p s t m h. length (cArgon cy p s t m h) = 32) \<and> (\<forall>i m. length (cRand cy i m) = m)"

definition onlyItsKey :: "crypto \<Rightarrow> bool" where
  "onlyItsKey cy \<longleftrightarrow> (\<forall>k k' n p. length k = 32 \<longrightarrow> length k' = 32 \<longrightarrow> k \<noteq> k' \<longrightarrow> cOpen cy k' n (cSeal cy k n p) = None)"

datatype vaultError =
    Locked | WrongPassphrase | Corrupt | UnsupportedKDF | NotBase64 | BadKey | AlreadyInitialized
  | WriteFailed | EmptyPassphrase | NoFile | TooShort | NoMachineID | BadSidecar | Panicked

section \<open>Data\<close>

record kdfParams =
  kAlgo :: string
  kTime :: "32 word"
  kMemory :: "32 word"
  kThreads :: "8 word"
  kSalt :: string

record vaultItem =
  viNonce :: string
  viCT :: string

datatype diskFile = Garbled | VaultFile (dfVersion: int) (dfKDF: kdfParams) (dfEntries: "(string \<times> vaultItem) list")

record uvault =
  uvKey :: string
  uvKDF :: kdfParams
  uvEntries :: "(string \<times> vaultItem) list"

text \<open>The vault file and the random source.\<close>

record vworld =
  vwDisk :: "diskFile option"
  vwRand :: nat

definition fileVersion :: int where "fileVersion = 1"

definition sentinelKey :: string where "sentinelKey = ''__sentinel__''"

definition sentinelPlaintext :: string where "sentinelPlaintext = ''ssh-tool vault sentinel v1''"

section \<open>Padding\<close>

definition padSizeFor :: "nat \<Rightarrow> nat" where
  "padSizeFor n = (if n \<le> 60 then 60 else if n \<le> 1020 then 1020 else if n \<le> 4092 then 4092
     else if n \<le> 16380 then 16380 else (n + 16380 - 1) div 16380 * 16380)"

definition padPlaintext :: "string \<Rightarrow> string" where
  "padPlaintext p = (let n = length p in
     [chr (n div 2 ^ 24 mod 256), chr (n div 2 ^ 16 mod 256), chr (n div 2 ^ 8 mod 256), chr (n mod 256)]
     @ p @ replicate (padSizeFor n - n) (chr 0))"

definition unpadPlaintext :: "string \<Rightarrow> string" where
  "unpadPlaintext b =
     (if length b < 4 then b
      else let declared = byte (b ! 0) * 2 ^ 24 + byte (b ! 1) * 2 ^ 16 + byte (b ! 2) * 2 ^ 8 + byte (b ! 3)
           in if declared \<le> length b - 4 then take declared (drop 4 b) else b)"

section \<open>Keys and sealing\<close>

text \<open>The next random bytes.\<close>

definition readRand :: "crypto \<Rightarrow> nat \<Rightarrow> vworld \<Rightarrow> string \<times> vworld" where
  "readRand cy n w = (cRand cy (vwRand w) n, w\<lparr>vwRand := Suc (vwRand w)\<rparr>)"

definition freshKDFParams :: "crypto \<Rightarrow> vworld \<Rightarrow> kdfParams \<times> vworld" where
  "freshKDFParams cy w = (let (salt, w') = readRand cy 16 w
     in (\<lparr>kAlgo = ''argon2id'', kTime = 2, kMemory = 19 * 1024, kThreads = 1, kSalt = b64Encode salt\<rparr>, w'))"

definition deriveKey :: "crypto \<Rightarrow> string \<Rightarrow> kdfParams \<Rightarrow> vaultError + string" where
  "deriveKey cy pass p =
     (if kAlgo p \<noteq> ''argon2id'' then Inl UnsupportedKDF
      else case b64Decode (kSalt p) of None \<Rightarrow> Inl NotBase64
      | Some salt \<Rightarrow> if kTime p = 0 \<or> kThreads p = 0 then Inl Panicked
                     else Inr (cArgon cy pass salt (kTime p) (kMemory p) (kThreads p)))"

text \<open>\<open>chacha20poly1305.NewX\<close>, and \<open>Open\<close> on it.\<close>

definition NewX :: "string \<Rightarrow> vaultError + unit" where
  "NewX key = (if length key = 32 then Inr () else Inl BadKey)"

definition aeadOpen :: "crypto \<Rightarrow> string \<Rightarrow> string \<Rightarrow> string \<Rightarrow> vaultError + string" where
  "aeadOpen cy key nonce ct =
     (if length nonce \<noteq> nonceSize then Inl Panicked
      else case cOpen cy key nonce ct of None \<Rightarrow> Inl WrongPassphrase | Some p \<Rightarrow> Inr p)"

definition encrypt :: "crypto \<Rightarrow> string \<Rightarrow> string \<Rightarrow> vworld \<Rightarrow> (vaultError + vaultItem) \<times> vworld" where
  "encrypt cy key p w =
     (case NewX key of Inl e \<Rightarrow> (Inl e, w)
      | Inr _ \<Rightarrow> (let (nonce, w') = readRand cy nonceSize w
                  in (Inr \<lparr>viNonce = b64Encode nonce, viCT = b64Encode (cSeal cy key nonce (padPlaintext p))\<rparr>, w')))"

definition decodeB64 :: "string \<Rightarrow> vaultError + string" where
  "decodeB64 s = (case b64Decode s of None \<Rightarrow> Inl NotBase64 | Some b \<Rightarrow> Inr b)"

definition decrypt :: "crypto \<Rightarrow> string \<Rightarrow> vaultItem \<Rightarrow> vaultError + string" where
  "decrypt cy key item =
     bindr (decodeB64 (viNonce item)) (\<lambda>nonce. bindr (decodeB64 (viCT item)) (\<lambda>ct.
     bindr (NewX key) (\<lambda>_. bindr (aeadOpen cy key nonce ct) (\<lambda>p. Inr (unpadPlaintext p)))))"

definition SealBlob :: "crypto \<Rightarrow> string \<Rightarrow> uvault \<Rightarrow> vworld \<Rightarrow> (vaultError + string) \<times> vworld" where
  "SealBlob cy p v w =
     (case NewX (uvKey v) of Inl e \<Rightarrow> (Inl e, w)
      | Inr _ \<Rightarrow> (let (nonce, w') = readRand cy nonceSize w in (Inr (nonce @ cSeal cy (uvKey v) nonce p), w')))"

definition OpenBlob :: "crypto \<Rightarrow> string \<Rightarrow> uvault \<Rightarrow> vaultError + string" where
  "OpenBlob cy blob v =
     bindr (NewX (uvKey v)) (\<lambda>_. if length blob < nonceSize then Inl TooShort
       else aeadOpen cy (uvKey v) (take nonceSize blob) (drop nonceSize blob))"

section \<open>The vault\<close>

text \<open>\<open>ok\<close>: whether writing the file succeeds.\<close>

definition flush :: "bool \<Rightarrow> uvault \<Rightarrow> vworld \<Rightarrow> vaultError option \<times> vworld" where
  "flush ok v w = (if ok then (None, w\<lparr>vwDisk := Some (VaultFile fileVersion (uvKDF v) (uvEntries v))\<rparr>)
     else (Some WriteFailed, w))"

definition InitVault :: "crypto \<Rightarrow> bool \<Rightarrow> string \<Rightarrow> vworld \<Rightarrow> (vaultError + uvault) \<times> vworld" where
  "InitVault cy ok pass w =
     (if vwDisk w \<noteq> None then (Inl AlreadyInitialized, w)
      else let (kdf, w1) = freshKDFParams cy w
      in case deriveKey cy pass kdf of Inl e \<Rightarrow> (Inl e, w1)
         | Inr key \<Rightarrow>
             (case encrypt cy key sentinelPlaintext w1 of (Inl e, w2) \<Rightarrow> (Inl e, w2)
              | (Inr sentinel, w2) \<Rightarrow>
                  (let v = \<lparr>uvKey = key, uvKDF = kdf, uvEntries = [(sentinelKey, sentinel)]\<rparr>
                   in case flush ok v w2 of (Some e, w3) \<Rightarrow> (Inl e, w3) | (None, w3) \<Rightarrow> (Inr v, w3))))"

definition UnlockVault :: "crypto \<Rightarrow> diskFile option \<Rightarrow> string \<Rightarrow> vaultError + uvault" where
  "UnlockVault cy disk pass =
     (case disk of None \<Rightarrow> Inl NoFile
      | Some Garbled \<Rightarrow> Inl Corrupt
      | Some (VaultFile version kdf entries) \<Rightarrow>
          if version \<noteq> fileVersion then Inl Corrupt
          else bindr (deriveKey cy pass kdf) (\<lambda>key.
            case map_of entries sentinelKey of None \<Rightarrow> Inl Corrupt
            | Some sentinel \<Rightarrow> bindr (decrypt cy key sentinel) (\<lambda>pt.
                if pt \<noteq> sentinelPlaintext then Inl WrongPassphrase
                else Inr \<lparr>uvKey = key, uvKDF = kdf, uvEntries = entries\<rparr>)))"

definition uvGet :: "crypto \<Rightarrow> string \<Rightarrow> uvault \<Rightarrow> vaultError + string option" where
  "uvGet cy account v =
     (case map_of (uvEntries v) account of None \<Rightarrow> Inr None
      | Some item \<Rightarrow> bindr (decrypt cy (uvKey v) item) (\<lambda>p. Inr (Some p)))"

definition uvPut :: "crypto \<Rightarrow> bool \<Rightarrow> string \<Rightarrow> string \<Rightarrow> uvault \<Rightarrow> vworld \<Rightarrow> vaultError option \<times> uvault \<times> vworld" where
  "uvPut cy ok account secret v w =
     (case encrypt cy (uvKey v) secret w of (Inl e, w1) \<Rightarrow> (Some e, v, w1)
      | (Inr item, w1) \<Rightarrow>
          (let v' = v\<lparr>uvEntries := AList.update account item (uvEntries v)\<rparr>; (e, w2) = flush ok v' w1 in (e, v', w2)))"

definition uvDelete :: "bool \<Rightarrow> string \<Rightarrow> uvault \<Rightarrow> vworld \<Rightarrow> vaultError option \<times> uvault \<times> vworld" where
  "uvDelete ok account v w =
     (if map_of (uvEntries v) account \<noteq> None then
        (let v' = v\<lparr>uvEntries := AList.delete account (uvEntries v)\<rparr>; (e, w') = flush ok v' w in (e, v', w'))
      else (None, v, w))"

text \<open>The entries under a new key; the sentinel is sealed afresh.\<close>

fun reEncrypt :: "crypto \<Rightarrow> string \<Rightarrow> string \<Rightarrow> (string \<times> vaultItem) list \<Rightarrow> vworld \<Rightarrow>
    (vaultError + (string \<times> vaultItem) list) \<times> vworld" where
  "reEncrypt cy old new [] w = (Inr [], w)"
| "reEncrypt cy old new ((account, item) # rest) w =
     (case (if account = sentinelKey then Inr sentinelPlaintext else decrypt cy old item) of Inl e \<Rightarrow> (Inl e, w)
      | Inr p \<Rightarrow>
          (case encrypt cy new p w of (Inl e, w1) \<Rightarrow> (Inl e, w1)
           | (Inr item', w1) \<Rightarrow>
               (case reEncrypt cy old new rest w1 of (Inl e, w2) \<Rightarrow> (Inl e, w2)
                | (Inr items, w2) \<Rightarrow> (Inr ((account, item') # items), w2))))"

definition uvChangePassphrase :: "crypto \<Rightarrow> bool \<Rightarrow> string \<Rightarrow> uvault \<Rightarrow> vworld \<Rightarrow> vaultError option \<times> uvault \<times> vworld" where
  "uvChangePassphrase cy ok pass v w =
     (if pass = [] then (Some EmptyPassphrase, v, w)
      else let (kdf, w1) = freshKDFParams cy w
      in case deriveKey cy pass kdf of Inl e \<Rightarrow> (Some e, v, w1)
         | Inr key \<Rightarrow>
             (case reEncrypt cy (uvKey v) key (uvEntries v) w1 of (Inl e, w2) \<Rightarrow> (Some e, v, w2)
              | (Inr entries, w2) \<Rightarrow>
                  (let v' = \<lparr>uvKey = key, uvKDF = kdf, uvEntries = entries\<rparr>
                   in case flush ok v' w2 of (Some e, w3) \<Rightarrow> (Some e, v, w3) | (None, w3) \<Rightarrow> (None, v', w3))))"

definition Accounts :: "uvault \<Rightarrow> string list" where
  "Accounts v = filter (\<lambda>a. a \<noteq> sentinelKey) (map fst (uvEntries v))"

section \<open>Padding and sealing\<close>

lemma padSizeFor_ge: "n \<le> padSizeFor n"
proof -
  have "n \<le> (n + 16380 - 1) div 16380 * 16380" using div_mult_mod_eq [of "n + 16379" 16380] by linarith
  then show ?thesis by (simp add: padSizeFor_def)
qed

lemma base256: "n div 16777216 * 16777216 + n div 65536 mod 256 * 65536 + n div 256 mod 256 * 256 + n mod 256 = (n :: nat)"
proof -
  define q1 q2 q3 where "q1 = n div 256" and "q2 = q1 div 256" and "q3 = q2 div 256"
  have e: "n div 65536 = q2" "n div 16777216 = q3" "n div 256 = q1"
    by (simp_all add: q1_def q2_def q3_def div_mult2_eq [symmetric])
  have "n = q1 * 256 + n mod 256" "q1 = q2 * 256 + q1 mod 256" "q2 = q3 * 256 + q2 mod 256"
    by (simp_all add: q1_def q2_def q3_def)
  then show ?thesis unfolding e by linarith
qed

lemma unpad_pad:
  assumes "length p < 2 ^ 32"
  shows "unpadPlaintext (padPlaintext p) = p"
proof -
  have "length (padPlaintext p) = 4 + padSizeFor (length p)"
    using padSizeFor_ge [of "length p"] by (simp add: padPlaintext_def Let_def)
  moreover have "length p div 16777216 < 256" using assms by (simp add: div_less_iff_less_mult)
  ultimately show ?thesis using base256 [of "length p"] padSizeFor_ge [of "length p"]
    by (simp add: unpadPlaintext_def padPlaintext_def Let_def byte_chr)
qed

text \<open>An entry from before the padding, if its first byte is not a control character and it is not huge.\<close>

lemma unpad_legacy: "p \<noteq> [] \<Longrightarrow> 32 \<le> byte (hd p) \<Longrightarrow> length p < 2 ^ 29 \<Longrightarrow> unpadPlaintext p = p"
  by (cases p) (auto simp: unpadPlaintext_def Let_def)

text \<open>\<open>item\<close> holds the secret \<open>p\<close> under \<open>key\<close>.\<close>

definition sealedItem :: "crypto \<Rightarrow> string \<Rightarrow> string \<Rightarrow> vaultItem \<Rightarrow> bool" where
  "sealedItem cy key p item \<longleftrightarrow> (\<exists>nonce q. length nonce = nonceSize \<and> unpadPlaintext q = p \<and> length p < 2 ^ 32 \<and>
     item = \<lparr>viNonce = b64Encode nonce, viCT = b64Encode (cSeal cy key nonce q)\<rparr>)"

lemma encrypt_sealed:
  assumes "cryptoOK cy" "length key = 32" "length p < 2 ^ 32"
  obtains item where "encrypt cy key p w = (Inr item, w\<lparr>vwRand := Suc (vwRand w)\<rparr>)" "sealedItem cy key p item"
proof
  let ?nonce = "cRand cy (vwRand w) nonceSize"
  let ?item = "\<lparr>viNonce = b64Encode ?nonce, viCT = b64Encode (cSeal cy key ?nonce (padPlaintext p))\<rparr>"
  show "encrypt cy key p w = (Inr ?item, w\<lparr>vwRand := Suc (vwRand w)\<rparr>)"
    using assms(2) by (simp add: encrypt_def NewX_def readRand_def)
  show "sealedItem cy key p ?item"
    unfolding sealedItem_def using assms(1,3) unpad_pad
    by (intro exI [of _ ?nonce] exI [of _ "padPlaintext p"]) (simp add: cryptoOK_def)
qed

lemma decrypt_sealed: "cryptoOK cy \<Longrightarrow> length key = 32 \<Longrightarrow> sealedItem cy key p item \<Longrightarrow> decrypt cy key item = Inr p"
  by (auto simp: sealedItem_def decrypt_def decodeB64_def b64_roundtrip NewX_def aeadOpen_def cryptoOK_def)

lemma decrypt_other_key:
  "onlyItsKey cy \<Longrightarrow> length key' = 32 \<Longrightarrow> length key = 32 \<Longrightarrow> key' \<noteq> key \<Longrightarrow> sealedItem cy key p item \<Longrightarrow> decrypt cy key' item = Inl WrongPassphrase"
  by (auto simp: sealedItem_def decrypt_def decodeB64_def b64_roundtrip NewX_def aeadOpen_def onlyItsKey_def)

lemma sealedItem_short: "sealedItem cy key p item \<Longrightarrow> length p < 2 ^ 32"
  by (auto simp: sealedItem_def)

lemma sentinel_short: "length sentinelPlaintext < 2 ^ 32"
  by (simp add: sentinelPlaintext_def)

lemma deriveKey_length: "cryptoOK cy \<Longrightarrow> deriveKey cy pass kdf = Inr key \<Longrightarrow> length key = 32"
  by (auto simp: deriveKey_def cryptoOK_def split: if_splits option.splits)

lemma fresh_derives: "\<exists>key. deriveKey cy pass (fst (freshKDFParams cy w)) = Inr key"
  by (simp add: freshKDFParams_def readRand_def deriveKey_def b64_roundtrip)

lemma vwDisk_fresh [simp]: "vwDisk (snd (freshKDFParams cy w)) = vwDisk w"
  by (simp add: freshKDFParams_def readRand_def)

section \<open>The vault as a map\<close>

text \<open>A vault opened with \<open>pass\<close>, and the secrets in it.\<close>

definition uvOK :: "crypto \<Rightarrow> string \<Rightarrow> uvault \<Rightarrow> bool" where
  "uvOK cy pass v \<longleftrightarrow> deriveKey cy pass (uvKDF v) = Inr (uvKey v) \<and> distinct (map fst (uvEntries v)) \<and>
     (\<forall>e \<in> set (uvEntries v). \<exists>p. sealedItem cy (uvKey v) p (snd e)) \<and>
     (\<exists>item. map_of (uvEntries v) sentinelKey = Some item \<and> sealedItem cy (uvKey v) sentinelPlaintext item)"

definition secrets :: "crypto \<Rightarrow> uvault \<Rightarrow> string \<rightharpoonup> string" where
  "secrets cy v a = (if a = sentinelKey then None else
     case map_of (uvEntries v) a of None \<Rightarrow> None
     | Some item \<Rightarrow> (case decrypt cy (uvKey v) item of Inl e \<Rightarrow> None | Inr p \<Rightarrow> Some p))"

lemma uvGet_secrets:
  assumes "cryptoOK cy" "uvOK cy pass v" "a \<noteq> sentinelKey"
  shows "uvGet cy a v = Inr (secrets cy v a)"
proof (cases "map_of (uvEntries v) a")
  case (Some item)
  then obtain p where "sealedItem cy (uvKey v) p item" using assms(2) map_of_SomeD [OF Some] by (fastforce simp: uvOK_def)
  then have "decrypt cy (uvKey v) item = Inr p"
    using decrypt_sealed assms(1,2) deriveKey_length by (auto simp: uvOK_def)
  then show ?thesis using Some assms(3) by (simp add: uvGet_def secrets_def)
qed (simp add: uvGet_def secrets_def)

lemma UnlockVault_flushed:
  assumes "cryptoOK cy" "uvOK cy pass v"
  shows "UnlockVault cy (Some (VaultFile fileVersion (uvKDF v) (uvEntries v))) pass = Inr v"
proof -
  obtain item where "map_of (uvEntries v) sentinelKey = Some item" "sealedItem cy (uvKey v) sentinelPlaintext item"
    using assms(2) by (auto simp: uvOK_def)
  moreover from this have "decrypt cy (uvKey v) item = Inr sentinelPlaintext"
    using decrypt_sealed [OF assms(1)] deriveKey_length [OF assms(1)] assms(2) by (auto simp: uvOK_def)
  ultimately show ?thesis using assms(2) by (simp add: UnlockVault_def uvOK_def)
qed

text \<open>Another passphrase that derives another key is refused.\<close>

lemma UnlockVault_refuses:
  assumes "cryptoOK cy" "onlyItsKey cy" "uvOK cy pass v" "deriveKey cy pass' (uvKDF v) = Inr key'" "key' \<noteq> uvKey v"
  shows "UnlockVault cy (Some (VaultFile fileVersion (uvKDF v) (uvEntries v))) pass' = Inl WrongPassphrase"
proof -
  obtain item where item: "map_of (uvEntries v) sentinelKey = Some item" "sealedItem cy (uvKey v) sentinelPlaintext item"
    using assms(3) by (auto simp: uvOK_def)
  have "length (uvKey v) = 32" using deriveKey_length [OF assms(1)] assms(3) by (auto simp: uvOK_def)
  then have "decrypt cy key' item = Inl WrongPassphrase"
    using decrypt_other_key [OF assms(2) deriveKey_length [OF assms(1,4)] _ assms(5) item(2)] by blast
  then show ?thesis using assms(4) item(1) by (simp add: UnlockVault_def)
qed

lemma InitVault_OK:
  assumes "cryptoOK cy" "InitVault cy ok pass w = (Inr v, w')"
  shows "uvOK cy pass v \<and> secrets cy v = Map.empty \<and> vwDisk w' = Some (VaultFile fileVersion (uvKDF v) (uvEntries v))"
proof -
  obtain key where key: "deriveKey cy pass (fst (freshKDFParams cy w)) = Inr key" using fresh_derives by blast
  note len = deriveKey_length [OF assms(1) key]
  obtain item where item: "encrypt cy key sentinelPlaintext (snd (freshKDFParams cy w)) =
      (Inr item, (snd (freshKDFParams cy w))\<lparr>vwRand := Suc (vwRand (snd (freshKDFParams cy w)))\<rparr>)"
      "sealedItem cy key sentinelPlaintext item"
    using encrypt_sealed [OF assms(1) len sentinel_short] by blast
  have "v = \<lparr>uvKey = key, uvKDF = fst (freshKDFParams cy w), uvEntries = [(sentinelKey, item)]\<rparr> \<and>
      vwDisk w' = Some (VaultFile fileVersion (uvKDF v) (uvEntries v))"
    using assms(2) key item(1) by (auto simp: InitVault_def Let_def flush_def split: prod.splits if_splits)
  then show ?thesis using key item(2) by (auto simp: uvOK_def secrets_def)
qed

lemma set_update: "x \<in> set (AList.update a b xs) \<Longrightarrow> x = (a, b) \<or> x \<in> set xs"
  by (induction xs) (auto split: if_splits)

lemma uvPut_OK:
  assumes "cryptoOK cy" "uvOK cy pass v" "a \<noteq> sentinelKey" "length s < 2 ^ 32" "uvPut cy ok a s v w = (e, v', w')"
  shows "uvOK cy pass v' \<and> secrets cy v' = (secrets cy v)(a \<mapsto> s) \<and> e = (if ok then None else Some WriteFailed) \<and>
    vwDisk w' = (if ok then Some (VaultFile fileVersion (uvKDF v') (uvEntries v')) else vwDisk w)"
proof -
  have len: "length (uvKey v) = 32" using deriveKey_length assms(1,2) by (auto simp: uvOK_def)
  obtain item where item: "encrypt cy (uvKey v) s w = (Inr item, w\<lparr>vwRand := Suc (vwRand w)\<rparr>)"
      "sealedItem cy (uvKey v) s item"
    using encrypt_sealed [OF assms(1) len assms(4)] by blast
  have v': "v' = v\<lparr>uvEntries := AList.update a item (uvEntries v)\<rparr>"
      "e = (if ok then None else Some WriteFailed)"
      "vwDisk w' = (if ok then Some (VaultFile fileVersion (uvKDF v') (uvEntries v')) else vwDisk w)"
    using assms(5) item(1) by (auto simp: uvPut_def Let_def flush_def split: if_splits)
  have "secrets cy v' = (secrets cy v)(a \<mapsto> s)"
    using assms(3) decrypt_sealed [OF assms(1) len item(2)] by (auto simp: secrets_def v'(1) update_conv' fun_eq_iff split: option.splits)
  moreover have "distinct (map fst (AList.update a item (uvEntries v)))"
    using assms(2) by (simp add: uvOK_def distinct_update)
  moreover have "\<forall>x \<in> set (AList.update a item (uvEntries v)). \<exists>p. sealedItem cy (uvKey v) p (snd x)"
    using assms(2) item(2) set_update by (fastforce simp: uvOK_def)
  ultimately show ?thesis using assms(2,3) v' by (auto simp: uvOK_def update_conv')
qed

lemma uvDelete_OK:
  assumes "uvOK cy pass v" "a \<noteq> sentinelKey" "uvDelete ok a v w = (e, v', w')" "secrets cy v a \<noteq> None"
  shows "uvOK cy pass v' \<and> secrets cy v' = (secrets cy v)(a := None) \<and> e = (if ok then None else Some WriteFailed) \<and>
    vwDisk w' = (if ok then Some (VaultFile fileVersion (uvKDF v') (uvEntries v')) else vwDisk w)"
proof -
  have "map_of (uvEntries v) a \<noteq> None" using assms(2,4) by (auto simp: secrets_def split: option.splits)
  then have v': "v' = v\<lparr>uvEntries := AList.delete a (uvEntries v)\<rparr>" "e = (if ok then None else Some WriteFailed)"
      "vwDisk w' = (if ok then Some (VaultFile fileVersion (uvKDF v') (uvEntries v')) else vwDisk w)"
    using assms(3) by (auto simp: uvDelete_def Let_def flush_def split: if_splits)
  have "secrets cy v' = (secrets cy v)(a := None)"
    using assms(2) by (auto simp: secrets_def v'(1) delete_conv' fun_eq_iff split: option.splits)
  moreover have "set (AList.delete a (uvEntries v)) \<subseteq> set (uvEntries v)" by (auto simp: AList.delete_eq)
  ultimately show ?thesis using assms(1,2) v' by (auto simp: uvOK_def delete_conv' distinct_delete)
qed

lemma uvDelete_absent:
  assumes "cryptoOK cy" "uvOK cy pass v" "a \<noteq> sentinelKey" "secrets cy v a = None"
  shows "uvDelete ok a v w = (None, v, w)"
proof -
  have "map_of (uvEntries v) a = None"
  proof (rule ccontr)
    assume "map_of (uvEntries v) a \<noteq> None"
    then obtain item where i: "map_of (uvEntries v) a = Some item" by blast
    then obtain p where "sealedItem cy (uvKey v) p item" using assms(2) map_of_SomeD [OF i] by (fastforce simp: uvOK_def)
    then have "decrypt cy (uvKey v) item = Inr p"
      using decrypt_sealed [OF assms(1)] deriveKey_length [OF assms(1)] assms(2) by (auto simp: uvOK_def)
    then show False using i assms(3,4) by (simp add: secrets_def)
  qed
  then show ?thesis by (simp add: uvDelete_def)
qed

text \<open>Each entry under the new key holds what it held under the old one.\<close>

definition rekeyed :: "crypto \<Rightarrow> string \<Rightarrow> string \<Rightarrow> string \<times> vaultItem \<Rightarrow> string \<times> vaultItem \<Rightarrow> bool" where
  "rekeyed cy old new x y \<longleftrightarrow> fst y = fst x \<and>
     (\<exists>p. (if fst x = sentinelKey then p = sentinelPlaintext else decrypt cy old (snd x) = Inr p) \<and> sealedItem cy new p (snd y))"

lemma reEncrypt_OK:
  assumes "cryptoOK cy" "length old = 32" "length new = 32" "\<forall>e \<in> set es. \<exists>p. sealedItem cy old p (snd e)"
  shows "\<exists>es' w'. reEncrypt cy old new es w = (Inr es', w') \<and> list_all2 (rekeyed cy old new) es es' \<and> vwDisk w' = vwDisk w"
  using assms(4)
proof (induction es arbitrary: w)
  case (Cons x es)
  obtain a item where x: "x = (a, item)" by (cases x)
  obtain p where "sealedItem cy old p item" using Cons.prems x by auto
  then have p: "decrypt cy old item = Inr p" "length p < 2 ^ 32"
    using decrypt_sealed [OF assms(1,2)] sealedItem_short by auto
  define q where "q = (if a = sentinelKey then sentinelPlaintext else p)"
  have q: "length q < 2 ^ 32" using p(2) sentinel_short by (simp only: q_def split: if_split) blast
  obtain item' where item': "encrypt cy new q w = (Inr item', w\<lparr>vwRand := Suc (vwRand w)\<rparr>)" "sealedItem cy new q item'"
    using encrypt_sealed [OF assms(1,3), of q w] q by blast
  have "\<forall>e \<in> set es. \<exists>p. sealedItem cy old p (snd e)" using Cons.prems by simp
  from Cons.IH [OF this, of "w\<lparr>vwRand := Suc (vwRand w)\<rparr>"]
  obtain es' w' where rest: "reEncrypt cy old new es (w\<lparr>vwRand := Suc (vwRand w)\<rparr>) = (Inr es', w')"
      "list_all2 (rekeyed cy old new) es es'" "vwDisk w' = vwDisk w"
    by auto
  have "(if a = sentinelKey then Inr sentinelPlaintext else decrypt cy old item) = Inr q"
    using p(1) by (simp add: q_def)
  then have "reEncrypt cy old new (x # es) w = (Inr ((a, item') # es'), w')"
    using item'(1) rest(1) by (simp add: x)
  moreover have "rekeyed cy old new x (a, item')"
    using item'(2) p(1) by (cases "a = sentinelKey") (simp_all add: x q_def rekeyed_def)
  ultimately show ?case using rest(2,3) by (intro exI [of _ "(a, item') # es'"] exI [of _ w']) simp
qed simp

lemma rekeyed_keys: "list_all2 (rekeyed cy old new) es es' \<Longrightarrow> map fst es' = map fst es"
  by (induction rule: list_all2_induct) (auto simp: rekeyed_def)

lemma rekeyed_map_of:
  "list_all2 (rekeyed cy old new) es es' \<Longrightarrow>
    (case map_of es a of None \<Rightarrow> map_of es' a = None
     | Some item \<Rightarrow> \<exists>item'. map_of es' a = Some item' \<and> rekeyed cy old new (a, item) (a, item'))"
proof (induction rule: list_all2_induct)
  case (Cons x xs y ys)
  obtain k i i' where "x = (k, i)" "y = (k, i')"
    using Cons.hyps(1) by (cases x; cases y) (simp add: rekeyed_def)
  then show ?case using Cons by (auto split: option.splits)
qed simp

lemma rekeyed_sealed: "list_all2 (rekeyed cy old new) es es' \<Longrightarrow> \<forall>y \<in> set es'. \<exists>p. sealedItem cy new p (snd y)"
  by (induction rule: list_all2_induct) (auto simp: rekeyed_def)

lemma uvChangePassphrase_OK:
  assumes "cryptoOK cy" "uvOK cy pass v" "pass' \<noteq> []" "uvChangePassphrase cy ok pass' v w = (e, v', w')"
  shows "uvOK cy (if ok then pass' else pass) v' \<and> secrets cy v' = secrets cy v \<and> e = (if ok then None else Some WriteFailed) \<and>
    vwDisk w' = (if ok then Some (VaultFile fileVersion (uvKDF v') (uvEntries v')) else vwDisk w)"
proof -
  let ?w1 = "snd (freshKDFParams cy w)" and ?kdf = "fst (freshKDFParams cy w)"
  obtain key where key: "deriveKey cy pass' ?kdf = Inr key" using fresh_derives by blast
  have len: "length (uvKey v) = 32" "length key = 32"
    using deriveKey_length [OF assms(1)] key assms(2) by (auto simp: uvOK_def)
  obtain es w2 where re: "reEncrypt cy (uvKey v) key (uvEntries v) ?w1 = (Inr es, w2)"
      "list_all2 (rekeyed cy (uvKey v) key) (uvEntries v) es" "vwDisk w2 = vwDisk w"
    using reEncrypt_OK [OF assms(1) len, of "uvEntries v" ?w1] assms(2) by (auto simp: uvOK_def)
  let ?v = "\<lparr>uvKey = key, uvKDF = ?kdf, uvEntries = es\<rparr>"
  have out: "v' = (if ok then ?v else v) \<and> e = (if ok then None else Some WriteFailed) \<and>
      vwDisk w' = (if ok then Some (VaultFile fileVersion (uvKDF v') (uvEntries v')) else vwDisk w)"
    using assms(3,4) key re(1,3) by (auto simp: uvChangePassphrase_def Let_def flush_def split: prod.splits if_splits)
  have "uvOK cy pass' ?v"
  proof -
    obtain i where "map_of (uvEntries v) sentinelKey = Some i" using assms(2) by (auto simp: uvOK_def)
    then have "\<exists>i'. map_of es sentinelKey = Some i' \<and> sealedItem cy key sentinelPlaintext i'"
      using rekeyed_map_of [OF re(2), of sentinelKey] by (auto simp: rekeyed_def)
    then show ?thesis using key rekeyed_keys [OF re(2)] rekeyed_sealed [OF re(2)] assms(2) by (simp add: uvOK_def)
  qed
  moreover have "secrets cy ?v a = secrets cy v a" for a
  proof (cases "map_of (uvEntries v) a")
    case None
    then show ?thesis using rekeyed_map_of [OF re(2), of a] by (simp add: secrets_def)
  next
    case (Some item)
    then show ?thesis using rekeyed_map_of [OF re(2), of a] decrypt_sealed [OF assms(1) len(2)]
      by (cases "a = sentinelKey") (auto simp: secrets_def rekeyed_def)
  qed
  ultimately show ?thesis using out assms(2) by (auto simp: fun_eq_iff)
qed

section \<open>The vault refines two maps\<close>

text \<open>
  The specification: the secrets the running vault returns and the ones on disk. A write that fails
  changes the first only; deleting a secret that is not there writes nothing.
\<close>

datatype vaultOp = PutOp string string | DeleteOp string | RekeyOp string

fun specStep :: "bool \<times> vaultOp \<Rightarrow> (string \<rightharpoonup> string) \<times> (string \<rightharpoonup> string) \<Rightarrow> (string \<rightharpoonup> string) \<times> (string \<rightharpoonup> string)" where
  "specStep (ok, PutOp a s) (m, d) = (m(a \<mapsto> s), if ok then m(a \<mapsto> s) else d)"
| "specStep (ok, DeleteOp a) (m, d) = (if m a = None then (m, d) else (m(a := None), if ok then m(a := None) else d))"
| "specStep (ok, RekeyOp p) (m, d) = (m, if ok then m else d)"

fun vaultStep :: "crypto \<Rightarrow> bool \<times> vaultOp \<Rightarrow> uvault \<times> vworld \<Rightarrow> uvault \<times> vworld" where
  "vaultStep cy (ok, PutOp a s) (v, w) = snd (uvPut cy ok a s v w)"
| "vaultStep cy (ok, DeleteOp a) (v, w) = snd (uvDelete ok a v w)"
| "vaultStep cy (ok, RekeyOp p) (v, w) = snd (uvChangePassphrase cy ok p v w)"

fun passAfter :: "bool \<times> vaultOp \<Rightarrow> string \<Rightarrow> string" where
  "passAfter (ok, RekeyOp p) pass = (if ok then p else pass)"
| "passAfter (ok, _) pass = pass"

fun legalOp :: "bool \<times> vaultOp \<Rightarrow> bool" where
  "legalOp (ok, PutOp a s) = (a \<noteq> sentinelKey \<and> length s < 2 ^ 32)"
| "legalOp (ok, DeleteOp a) = (a \<noteq> sentinelKey)"
| "legalOp (ok, RekeyOp p) = (p \<noteq> [])"

definition implements :: "crypto \<Rightarrow> string \<Rightarrow> uvault \<times> vworld \<Rightarrow> (string \<rightharpoonup> string) \<times> (string \<rightharpoonup> string) \<Rightarrow> bool" where
  "implements cy pass s md \<longleftrightarrow> uvOK cy pass (fst s) \<and> secrets cy (fst s) = fst md \<and>
     (\<exists>vd. UnlockVault cy (vwDisk (snd s)) pass = Inr vd \<and> uvOK cy pass vd \<and> secrets cy vd = snd md)"

lemma implements_flushed:
  "cryptoOK cy \<Longrightarrow> uvOK cy pass v \<Longrightarrow> vwDisk w = Some (VaultFile fileVersion (uvKDF v) (uvEntries v)) \<Longrightarrow>
    implements cy pass (v, w) (secrets cy v, secrets cy v)"
  using UnlockVault_flushed by (auto simp: implements_def)

lemma implements_step:
  assumes "cryptoOK cy" "implements cy pass (v, w) (m, d)" "legalOp op"
  shows "implements cy (passAfter op pass) (vaultStep cy op (v, w)) (specStep op (m, d))"
proof -
  have v: "uvOK cy pass v" "secrets cy v = m" using assms(2) by (auto simp: implements_def)
  have keep: "implements cy pass (v', w') (m', d)" if "uvOK cy pass v'" "secrets cy v' = m'" "vwDisk w' = vwDisk w" for v' w' m'
    using assms(2) that by (simp add: implements_def)
  obtain ok p where op: "op = (ok, p)" by (cases op)
  show ?thesis
  proof (cases p)
    case (PutOp a s)
    obtain e v' w' where r: "uvPut cy ok a s v w = (e, v', w')" by (cases "uvPut cy ok a s v w")
    show ?thesis using uvPut_OK [OF assms(1) v(1) _ _ r] assms(3) keep [of v' _ w'] implements_flushed [OF assms(1), of pass v' w'] v(2)
      by (auto simp: op PutOp r split: if_splits)
  next
    case (DeleteOp a)
    show ?thesis
    proof (cases "m a")
      case None
      then show ?thesis using uvDelete_absent [OF assms(1) v(1)] assms(2,3) v(2) by (simp add: op DeleteOp)
    next
      case (Some x)
      obtain e v' w' where r: "uvDelete ok a v w = (e, v', w')" by (cases "uvDelete ok a v w")
      show ?thesis using uvDelete_OK [OF v(1) _ r] assms(3) keep [of v' _ w'] implements_flushed [OF assms(1), of pass v' w'] v(2) Some
        by (auto simp: op DeleteOp r split: if_splits)
    qed
  next
    case (RekeyOp q)
    obtain e v' w' where r: "uvChangePassphrase cy ok q v w = (e, v', w')" by (cases "uvChangePassphrase cy ok q v w")
    show ?thesis using uvChangePassphrase_OK [OF assms(1) v(1) _ r] assms(3) keep [of v' _ w'] implements_flushed [OF assms(1), of q v' w'] v(2)
      by (auto simp: op RekeyOp r split: if_splits)
  qed
qed

lemma implements_run:
  assumes "cryptoOK cy" "\<forall>op \<in> set ops. legalOp op" "implements cy pass s md"
  shows "implements cy (foldl (\<lambda>p op. passAfter op p) pass ops) (foldl (\<lambda>s op. vaultStep cy op s) s ops)
    (foldl (\<lambda>md op. specStep op md) md ops)"
  using assms(2,3)
proof (induction ops arbitrary: pass s md)
  case (Cons op ops)
  obtain v w m d where "s = (v, w)" "md = (m, d)" by (cases s; cases md)
  then show ?case using Cons implements_step [OF assms(1), of pass v w m d op] by simp
qed simp

lemma implements_reads:
  assumes "cryptoOK cy" "implements cy pass (v, w) (m, d)" "a \<noteq> sentinelKey"
  shows "uvGet cy a v = Inr (m a) \<and> (\<exists>vd. UnlockVault cy (vwDisk w) pass = Inr vd \<and> uvGet cy a vd = Inr (d a))"
  using assms uvGet_secrets by (auto simp: implements_def)

text \<open>C32: a vault reads as the map of its secrets, and reopens as the map at its last successful write, after any
  sequence of puts, deletes and changes of the passphrase, with any of the writes failing.\<close>

theorem vault_refines_maps:
  assumes "cryptoOK cy" "InitVault cy True pass w = (Inr v, w1)" "\<forall>op \<in> set ops. legalOp op" "a \<noteq> sentinelKey"
    and "foldl (\<lambda>s op. vaultStep cy op s) (v, w1) ops = (v', w')"
    and "foldl (\<lambda>md op. specStep op md) (Map.empty, Map.empty) ops = (m, d)"
    and "foldl (\<lambda>p op. passAfter op p) pass ops = pass'"
  shows "uvGet cy a v' = Inr (m a) \<and> (\<exists>vd. UnlockVault cy (vwDisk w') pass' = Inr vd \<and> uvGet cy a vd = Inr (d a))"
proof -
  have "implements cy pass (v, w1) (Map.empty, Map.empty)"
    using InitVault_OK [OF assms(1,2)] implements_flushed [OF assms(1)] by metis
  then have "implements cy pass' (v', w') (m, d)" using implements_run [OF assms(1,3)] assms(5-7) by metis
  then show ?thesis using implements_reads [OF assms(1) _ assms(4)] by blast
qed

text \<open>A stand-in for the ciphers and the random source.\<close>

definition plainCrypto :: crypto where
  "plainCrypto = \<lparr>cSeal = (\<lambda>k n p. k @ p), cOpen = (\<lambda>k n c. if take 32 c = k then Some (drop 32 c) else None),
     cArgon = (\<lambda>p s t m h. take 32 (p @ replicate 32 (chr 0))), cRand = (\<lambda>i m. replicate m (chr (i mod 256)))\<rparr>"

lemma plainCrypto_OK: "cryptoOK plainCrypto" "onlyItsKey plainCrypto"
  by (auto simp: cryptoOK_def onlyItsKey_def plainCrypto_def)

lemma vault_refines_maps_witness:
  "\<exists>v w1. InitVault plainCrypto True ''pw'' \<lparr>vwDisk = None, vwRand = 0\<rparr> = (Inr v, w1) \<and>
     (let (v', w') = foldl (\<lambda>s op. vaultStep plainCrypto op s) (v, w1)
            [(True, PutOp ''k'' ''one''), (False, PutOp ''k'' ''two''), (False, RekeyOp ''new'')]
      in uvGet plainCrypto ''k'' v' = Inr (Some ''two'') \<and>
        (\<exists>vd. UnlockVault plainCrypto (vwDisk w') ''pw'' = Inr vd \<and> uvGet plainCrypto ''k'' vd = Inr (Some ''one'')))"
proof -
  let ?w = "\<lparr>vwDisk = None, vwRand = 0\<rparr>"
  let ?ops = "[(True, PutOp ''k'' ''one''), (False, PutOp ''k'' ''two''), (False, RekeyOp ''new'')]"
  obtain v w1 where i: "InitVault plainCrypto True ''pw'' ?w = (Inr v, w1)"
    by (simp add: InitVault_def freshKDFParams_def readRand_def deriveKey_def b64_roundtrip encrypt_def NewX_def
        flush_def plainCrypto_def)
  obtain v' w' where f: "foldl (\<lambda>s op. vaultStep plainCrypto op s) (v, w1) ?ops = (v', w')" by fastforce
  have k: "''k'' \<noteq> sentinelKey" by (simp add: sentinelKey_def)
  have l: "\<forall>op \<in> set ?ops. legalOp op" using k by simp
  have md: "foldl (\<lambda>md op. specStep op md) (Map.empty, Map.empty) ?ops = ([''k'' \<mapsto> ''two''], [''k'' \<mapsto> ''one''])"
    "foldl (\<lambda>p op. passAfter op p) ''pw'' ?ops = ''pw''" by simp_all
  show ?thesis using i f vault_refines_maps [OF plainCrypto_OK(1) i l k f md] by simp
qed

text \<open>a passphrase that derives another key is refused.\<close>

lemma wrong_passphrase_refused:
  assumes "cryptoOK cy" "onlyItsKey cy" "uvOK cy pass v" "deriveKey cy pass' (uvKDF v) = Inr key'" "key' \<noteq> uvKey v"
  shows "UnlockVault cy (Some (VaultFile fileVersion (uvKDF v) (uvEntries v))) pass' = Inl WrongPassphrase"
  by (rule UnlockVault_refuses [OF assms])

lemma wrong_passphrase_refused_witness:
  "\<exists>v. uvOK plainCrypto ''pw'' v \<and>
     UnlockVault plainCrypto (Some (VaultFile fileVersion (uvKDF v) (uvEntries v))) ''wrong'' = Inl WrongPassphrase"
proof -
  let ?w = "\<lparr>vwDisk = None, vwRand = 0\<rparr>"
  obtain v w1 where i: "InitVault plainCrypto True ''pw'' ?w = (Inr v, w1)"
      "uvKey v = take 32 (''pw'' @ replicate 32 (chr 0))" "uvKDF v = fst (freshKDFParams plainCrypto ?w)"
    by (simp add: InitVault_def freshKDFParams_def readRand_def deriveKey_def b64_roundtrip encrypt_def NewX_def
        flush_def plainCrypto_def)
  have v: "uvOK plainCrypto ''pw'' v" using InitVault_OK [OF plainCrypto_OK(1) i(1)] by blast
  have d: "deriveKey plainCrypto ''wrong'' (uvKDF v) = Inr (take 32 (''wrong'' @ replicate 32 (chr 0)))"
    by (simp add: i(3) freshKDFParams_def readRand_def deriveKey_def b64_roundtrip plainCrypto_def)
  show ?thesis using v wrong_passphrase_refused [OF plainCrypto_OK v d] i(2) by auto
qed

text \<open>a delete whose write failed cannot be repeated: the second one finds nothing to delete, reports no
  error and leaves the secret on disk, where the next unlock reads it.\<close>

lemma failed_delete_cannot_be_repeated:
  assumes "cryptoOK cy" "implements cy pass (v, w) (m, d)" "a \<noteq> sentinelKey" "m a \<noteq> None" "d a = Some s"
    and "uvDelete False a v w = (e1, v1, w1)" "uvDelete True a v1 w1 = (e2, v2, w2)"
  shows "e1 = Some WriteFailed \<and> e2 = None \<and>
    (\<exists>vd. UnlockVault cy (vwDisk w2) pass = Inr vd \<and> uvGet cy a vd = Inr (Some s))"
proof -
  let ?op = "\<lambda>ok. (ok, DeleteOp a)"
  have e1: "e1 = Some WriteFailed"
    using uvDelete_OK [OF _ assms(3,6)] assms(2,4) by (auto simp: implements_def)
  have 1: "implements cy pass (v1, w1) (m(a := None), d)"
    using implements_step [OF assms(1,2), of "?op False"] assms(3,4,6) by simp
  then have "uvDelete True a v1 w1 = (None, v1, w1)"
    using uvDelete_absent [OF assms(1) _ assms(3)] by (auto simp: implements_def)
  then have "e2 = None" "w2 = w1" using assms(7) by auto
  then show ?thesis using e1 implements_reads [OF assms(1) 1 assms(3)] assms(5) by simp
qed

lemma failed_delete_cannot_be_repeated_witness:
  "\<exists>v w e1 v1 w1 e2 v2 w2. uvDelete False ''k'' v w = (e1, v1, w1) \<and> uvDelete True ''k'' v1 w1 = (e2, v2, w2) \<and> e2 = None \<and>
     (\<exists>vd. UnlockVault plainCrypto (vwDisk w2) ''pw'' = Inr vd \<and> uvGet plainCrypto ''k'' vd = Inr (Some ''one''))"
proof -
  let ?w = "\<lparr>vwDisk = None, vwRand = 0\<rparr>"
  have k: "''k'' \<noteq> sentinelKey" by (simp add: sentinelKey_def)
  obtain v0 w0 where i: "InitVault plainCrypto True ''pw'' ?w = (Inr v0, w0)"
    by (simp add: InitVault_def freshKDFParams_def readRand_def deriveKey_def b64_roundtrip encrypt_def NewX_def
        flush_def plainCrypto_def)
  obtain v w where p: "vaultStep plainCrypto (True, PutOp ''k'' ''one'') (v0, w0) = (v, w)" by fastforce
  have "implements plainCrypto ''pw'' (v0, w0) (Map.empty, Map.empty)"
    using InitVault_OK [OF plainCrypto_OK(1) i] implements_flushed [OF plainCrypto_OK(1)] by metis
  from implements_step [OF plainCrypto_OK(1) this, of "(True, PutOp ''k'' ''one'')"]
  have imp: "implements plainCrypto ''pw'' (v, w) ([''k'' \<mapsto> ''one''], [''k'' \<mapsto> ''one''])" using k p by simp
  obtain e1 v1 w1 where 1: "uvDelete False ''k'' v w = (e1, v1, w1)" by (cases "uvDelete False ''k'' v w")
  obtain e2 v2 w2 where 2: "uvDelete True ''k'' v1 w1 = (e2, v2, w2)" by (cases "uvDelete True ''k'' v1 w1")
  have "e2 = None \<and> (\<exists>vd. UnlockVault plainCrypto (vwDisk w2) ''pw'' = Inr vd \<and> uvGet plainCrypto ''k'' vd = Inr (Some ''one''))"
    using failed_delete_cannot_be_repeated [OF plainCrypto_OK(1) imp k _ _ 1 2, of "''one''"] by simp
  with 1 2 show ?thesis by blast
qed

text \<open>opening a vault panics exactly on a file with a zero cost or a sentinel nonce of the wrong size.\<close>

lemma open_panics_on_malformed_file:
  assumes "cryptoOK cy"
  shows "UnlockVault cy disk pass = Inl Panicked \<longleftrightarrow>
    (\<exists>kdf es salt. disk = Some (VaultFile fileVersion kdf es) \<and> kAlgo kdf = ''argon2id'' \<and> b64Decode (kSalt kdf) = Some salt \<and>
       (kTime kdf = 0 \<or> kThreads kdf = 0 \<or>
        (\<exists>item nonce ct. map_of es sentinelKey = Some item \<and> b64Decode (viNonce item) = Some nonce \<and>
           b64Decode (viCT item) = Some ct \<and> length nonce \<noteq> nonceSize)))"
proof -
  have "length (cArgon cy p s t m h) = 32" for p s t m h using assms by (simp add: cryptoOK_def)
  then show ?thesis
    by (auto simp: UnlockVault_def deriveKey_def decrypt_def decodeB64_def NewX_def aeadOpen_def bindr_def
        split: option.splits diskFile.splits sum.splits if_splits)
qed

lemma open_panics_on_malformed_file_witness:
  "UnlockVault plainCrypto (Some (VaultFile fileVersion
     \<lparr>kAlgo = ''argon2id'', kTime = 2, kMemory = 8, kThreads = 1, kSalt = []\<rparr> [(sentinelKey, \<lparr>viNonce = [], viCT = []\<rparr>)])) ''pw''
   = Inl Panicked"
  unfolding open_panics_on_malformed_file [OF plainCrypto_OK(1)]
  by (intro exI [of _ "\<lparr>kAlgo = ''argon2id'', kTime = 2, kMemory = 8, kThreads = 1, kSalt = []\<rparr>"]) (auto simp: b64Decode_def nonceSize_def)

end
