(* ===== verification/Sha256.thy ===== *)
theory Sha256
  imports GoStrings "HOL-Library.Word"
begin

text \<open>
  \<open>crypto/sha256\<close>, which the machine-bound keys hash with: the message padded to blocks of 64 bytes,
  the schedule and rounds on 32-bit words, the digest as 32 bytes.
\<close>

unbundle bit_operations_syntax

text \<open>The greatest number below \<open>2 ^ k\<close> whose \<open>e\<close>-th power is at most \<open>x\<close>, bit by bit.\<close>

fun rootBits :: "nat \<Rightarrow> nat \<Rightarrow> nat \<Rightarrow> nat \<Rightarrow> nat" where
  "rootBits e x 0 acc = acc"
| "rootBits e x (Suc k) acc = rootBits e x k (if (acc + 2 ^ k) ^ e \<le> x then acc + 2 ^ k else acc)"

text \<open>The constants are the first 32 bits of the fractions of roots of the first primes.\<close>

definition primesTo :: "nat \<Rightarrow> nat list" where
  "primesTo n = filter (\<lambda>p. list_all (\<lambda>d. p mod d \<noteq> 0) [2..<p]) [2..<Suc n]"

definition rootFraction :: "nat \<Rightarrow> nat \<Rightarrow> 32 word" where
  "rootFraction e p = word_of_nat (rootBits e (p * 2 ^ (32 * e)) 37 0)"

definition roundConstants :: "32 word list" where
  "roundConstants = map (rootFraction 3) (primesTo 311)"

definition initialHash :: "32 word list" where
  "initialHash = map (rootFraction 2) (primesTo 19)"

definition beWord :: "string \<Rightarrow> 32 word" where
  "beWord bs = word_of_nat (foldl (\<lambda>n c. n * 256 + byte c) 0 bs)"

definition wordBytes :: "32 word \<Rightarrow> string" where
  "wordBytes x = map (\<lambda>i. chr (unat (drop_bit i x AND 255))) [24, 16, 8, 0]"

fun chunksOf :: "nat \<Rightarrow> nat \<Rightarrow> string \<Rightarrow> string list" where
  "chunksOf k 0 s = []"
| "chunksOf k (Suc n) s = take k s # chunksOf k n (drop k s)"

definition padMessage :: "string \<Rightarrow> string" where
  "padMessage s = (let n = length s; zeros = (119 - n mod 64) mod 64; bits = 8 * n
     in s @ [chr 128] @ replicate zeros (chr 0) @ map (\<lambda>i. chr (bits div 256 ^ i mod 256)) [7, 6, 5, 4, 3, 2, 1, 0])"

fun extendSchedule :: "nat \<Rightarrow> 32 word list \<Rightarrow> 32 word list" where
  "extendSchedule 0 w = w"
| "extendSchedule (Suc n) w =
     (let i = length w; v1 = w ! (i - 2); v2 = w ! (i - 15);
          t1 = word_rotr 17 v1 XOR word_rotr 19 v1 XOR drop_bit 10 v1;
          t2 = word_rotr 7 v2 XOR word_rotr 18 v2 XOR drop_bit 3 v2
      in extendSchedule n (w @ [t1 + w ! (i - 7) + t2 + w ! (i - 16)]))"

fun shaRound :: "32 word list \<Rightarrow> 32 word \<times> 32 word \<Rightarrow> 32 word list" where
  "shaRound [a, b, c, d, e, f, g, h] (k, w) =
     (let t1 = h + (word_rotr 6 e XOR word_rotr 11 e XOR word_rotr 25 e) + ((e AND f) XOR (NOT e AND g)) + k + w;
          t2 = (word_rotr 2 a XOR word_rotr 13 a XOR word_rotr 22 a) + ((a AND b) XOR (a AND c) XOR (b AND c))
      in [t1 + t2, a, b, c, d + t1, e, f, g])"
| "shaRound hs _ = hs"

definition shaBlock :: "32 word list \<Rightarrow> string \<Rightarrow> 32 word list" where
  "shaBlock hs block =
     map2 (+) hs (foldl shaRound hs (zip roundConstants (extendSchedule 48 (map beWord (chunksOf 4 16 block)))))"

definition sha256 :: "string \<Rightarrow> string" where
  "sha256 s = (let m = padMessage s
     in concat (map wordBytes (foldl shaBlock initialHash (chunksOf 64 (length m div 64) m))))"

lemma length_shaRound: "length (shaRound hs kw) = length hs"
  by (induction hs kw rule: shaRound.induct) (simp_all add: Let_def)

lemma length_shaBlock: "length (shaBlock hs block) = length hs"
proof -
  have "length (foldl shaRound hs xs) = length hs" for xs
    by (induction xs arbitrary: hs) (simp_all add: length_shaRound)
  then show ?thesis by (simp add: shaBlock_def)
qed

lemma length_sha256: "length (sha256 s) = 32"
proof -
  have "length (foldl shaBlock hs bs) = length hs" for hs bs
    by (induction bs arbitrary: hs) (simp_all add: length_shaBlock)
  moreover have "length initialHash = 8" unfolding initialHash_def length_map by code_simp
  ultimately have "length (foldl shaBlock initialHash bs) = 8" for bs by simp
  moreover have "length (concat (map wordBytes ws)) = 4 * length ws" for ws
    by (induction ws) (simp_all add: wordBytes_def)
  ultimately show ?thesis by (simp add: sha256_def Let_def)
qed

end
