(* ===== verification/MachineKey.thy ===== *)
theory MachineKey
  imports VaultFile Sha256
begin

text \<open>
  The machine-bound key of the auto-unlock file, \<open>internal/creds/machine.go\<close> and
  \<open>machine_strong_other.go\<close> (the build for everything but Windows and Android): where the machine's and the
  user's identity come from, the two formats of the file, and sealing for the machine. What the code
  reads from the operating system is a record; the file on disk is its decoded content or bytes that do
  not parse.
\<close>

section \<open>The operating system\<close>

record machineEnv =
  meGOOS :: string
  meEtcID :: "string option"            \<comment> \<open>/etc/machine-id\<close>
  meDbusID :: "string option"           \<comment> \<open>/var/lib/dbus/machine-id\<close>
  meIoreg :: "string option"
  meEnv :: "string \<Rightarrow> string"            \<comment> \<open>empty when unset\<close>
  meProcHostname :: "string option"
  meHostname :: "string option"
  meUser :: "(string \<times> string) option"  \<comment> \<open>user name and id\<close>

section \<open>Identity\<close>

text \<open>The first file that holds more than white space.\<close>

fun firstText :: "string option list \<Rightarrow> string option" where
  "firstText [] = None"
| "firstText (None # fs) = firstText fs"
| "firstText (Some b # fs) = (if TrimSpace b \<noteq> [] then Some (TrimSpace b) else firstText fs)"

definition darwinPlatformUUID :: "machineEnv \<Rightarrow> string" where
  "darwinPlatformUUID me =
     (case meIoreg me of None \<Rightarrow> []
      | Some out \<Rightarrow>
          (case find (\<lambda>line. Contains line ''IOPlatformUUID'' \<and>
                        (let parts = SplitByte line dquote in 4 \<le> length parts \<and> parts ! 3 \<noteq> []))
                  (SplitByte out nl) of
             None \<Rightarrow> [] | Some line \<Rightarrow> SplitByte line dquote ! 3))"

text \<open>The first of some values that is not empty.\<close>

definition firstNonEmptyOf :: "string list \<Rightarrow> string option" where
  "firstNonEmptyOf xs = find (\<lambda>x. x \<noteq> []) xs"

definition machineID :: "machineEnv \<Rightarrow> vaultError + string" where
  "machineID me =
     (case firstText [meEtcID me, meDbusID me] of Some s \<Rightarrow> Inr s
      | None \<Rightarrow>
     (case (if meGOOS me = ''darwin'' then firstNonEmptyOf [darwinPlatformUUID me] else None) of Some s \<Rightarrow> Inr s
      | None \<Rightarrow>
     (case firstNonEmptyOf [meEnv me ''HOSTNAME'', meEnv me ''COMPUTERNAME''] of Some s \<Rightarrow> Inr s
      | None \<Rightarrow>
     (case (if meGOOS me = ''linux'' then firstText [meProcHostname me] else None) of Some s \<Rightarrow> Inr s
      | None \<Rightarrow>
     (case meHostname me of Some h \<Rightarrow> if h \<noteq> [] then Inr h else Inl NoMachineID | None \<Rightarrow> Inl NoMachineID)))))"

definition StableMachineID :: "machineEnv \<Rightarrow> string" where
  "StableMachineID me = (case machineID me of Inl e \<Rightarrow> [] | Inr s \<Rightarrow> s)"

definition userID :: "machineEnv \<Rightarrow> string" where
  "userID me =
     (case firstNonEmptyOf [meEnv me ''USER'', meEnv me ''USERNAME''] of Some s \<Rightarrow> s
      | None \<Rightarrow> (case meUser me of None \<Rightarrow> ''ssh-tool-default-user''
          | Some (name, uid) \<Rightarrow> if name \<noteq> [] then name else if uid \<noteq> [] then ''uid:'' @ uid else ''ssh-tool-default-user''))"

definition appSalt :: string where "appSalt = ''ssh-tool/v1/machine-bound-autounlock''"

definition deriveMachineKey :: "machineEnv \<Rightarrow> vaultError + string" where
  "deriveMachineKey me = bindr (machineID me)
     (\<lambda>mid. Inr (sha256 (appSalt @ ''|machine='' @ mid @ ''|user='' @ userID me)))"

definition platformHasStrongSidecar :: "machineEnv \<Rightarrow> bool" where
  "platformHasStrongSidecar me \<longleftrightarrow> meGOOS me = ''linux'' \<and> firstText [meEtcID me, meDbusID me] \<noteq> None"

definition strongKey :: "machineEnv \<Rightarrow> vaultError + string" where
  "strongKey me = (case firstText [meEtcID me, meDbusID me] of None \<Rightarrow> Inl NoMachineID
     | Some mid \<Rightarrow> Inr (sha256 (''ssh-tool/v2/strong-sidecar'' @ ''|machine-id='' @ mid)))"

section \<open>Sealing for the machine\<close>

text \<open>Nonce and ciphertext in one blob.\<close>

definition sealWith :: "crypto \<Rightarrow> vaultError + string \<Rightarrow> string \<Rightarrow> nat \<Rightarrow> vaultError + string" where
  "sealWith cy key p i = bindr key (\<lambda>k. bindr (NewX k)
     (\<lambda>_. let nonce = cRand cy i nonceSize in Inr (nonce @ cSeal cy k nonce p)))"

definition openWith :: "crypto \<Rightarrow> vaultError + string \<Rightarrow> string \<Rightarrow> vaultError + string" where
  "openWith cy key blob = bindr key (\<lambda>k. bindr (NewX k)
     (\<lambda>_. if length blob < nonceSize then Inl TooShort
          else aeadOpen cy k (take nonceSize blob) (drop nonceSize blob)))"

definition sealStrong :: "crypto \<Rightarrow> machineEnv \<Rightarrow> string \<Rightarrow> nat \<Rightarrow> vaultError + string" where
  "sealStrong cy me = sealWith cy (strongKey me)"

definition openStrong :: "crypto \<Rightarrow> machineEnv \<Rightarrow> string \<Rightarrow> vaultError + string" where
  "openStrong cy me = openWith cy (strongKey me)"

definition SealForMachine :: "crypto \<Rightarrow> machineEnv \<Rightarrow> string \<Rightarrow> nat \<Rightarrow> vaultError + string" where
  "SealForMachine cy me = sealWith cy (deriveMachineKey me)"

definition OpenForMachine :: "crypto \<Rightarrow> machineEnv \<Rightarrow> string \<Rightarrow> vaultError + string" where
  "OpenForMachine cy me = openWith cy (deriveMachineKey me)"

section \<open>The auto-unlock file\<close>

datatype sidecar = BadSidecarFile | Sidecar (scVersion: int) (scNonce: string) (scCT: string)

definition sidecarVersion :: int where "sidecarVersion = 1"

definition sidecarVersionStrong :: int where "sidecarVersionStrong = 2"

definition SidecarExists :: "sidecar option \<Rightarrow> bool" where
  "SidecarExists side \<longleftrightarrow> side \<noteq> None"

definition writeSidecarFile :: "bool \<Rightarrow> sidecar \<Rightarrow> sidecar option \<Rightarrow> vaultError option \<times> sidecar option" where
  "writeSidecarFile ok sc side = (if ok then (None, Some sc) else (Some WriteFailed, side))"

text \<open>\<open>i\<close> is the random read the nonce comes from.\<close>

definition writeSidecarV1 :: "crypto \<Rightarrow> machineEnv \<Rightarrow> bool \<Rightarrow> string \<Rightarrow> nat \<Rightarrow> sidecar option \<Rightarrow> vaultError option \<times> sidecar option" where
  "writeSidecarV1 cy me ok pass i side =
     (case bindr (deriveMachineKey me) (\<lambda>k. bindr (NewX k) (\<lambda>_. Inr k)) of Inl e \<Rightarrow> (Some e, side)
      | Inr k \<Rightarrow> (let nonce = cRand cy i nonceSize
                  in writeSidecarFile ok (Sidecar sidecarVersion (b64Encode nonce) (b64Encode (cSeal cy k nonce pass))) side))"

definition writeSidecarV2 :: "crypto \<Rightarrow> machineEnv \<Rightarrow> bool \<Rightarrow> string \<Rightarrow> nat \<Rightarrow> sidecar option \<Rightarrow> vaultError option \<times> sidecar option" where
  "writeSidecarV2 cy me ok pass i side =
     (case sealStrong cy me pass i of Inl e \<Rightarrow> (Some e, side)
      | Inr blob \<Rightarrow> writeSidecarFile ok (Sidecar sidecarVersionStrong [] (b64Encode blob)) side)"

definition WriteSidecar :: "crypto \<Rightarrow> machineEnv \<Rightarrow> bool \<Rightarrow> string \<Rightarrow> nat \<Rightarrow> sidecar option \<Rightarrow> vaultError option \<times> sidecar option" where
  "WriteSidecar cy me = (if platformHasStrongSidecar me then writeSidecarV2 cy me else writeSidecarV1 cy me)"

definition ReadSidecar :: "crypto \<Rightarrow> machineEnv \<Rightarrow> sidecar option \<Rightarrow> vaultError + string" where
  "ReadSidecar cy me side =
     (case side of None \<Rightarrow> Inr []
      | Some BadSidecarFile \<Rightarrow> Inl BadSidecar
      | Some (Sidecar version nonce64 ct64) \<Rightarrow>
          if version = sidecarVersionStrong then bindr (decodeB64 ct64) (openStrong cy me)
          else if version = sidecarVersion then
            bindr (decodeB64 nonce64) (\<lambda>nonce. bindr (decodeB64 ct64) (\<lambda>ct.
            bindr (deriveMachineKey me) (\<lambda>k. bindr (NewX k) (\<lambda>_. aeadOpen cy k nonce ct))))
          else Inl BadSidecar)"

datatype sidecarStrength = StrengthNone | StrengthWeak | StrengthStrong

definition SidecarStrength :: "sidecar option \<Rightarrow> sidecarStrength" where
  "SidecarStrength side = (case side of None \<Rightarrow> StrengthNone | Some BadSidecarFile \<Rightarrow> StrengthNone
     | Some (Sidecar version _ _) \<Rightarrow> if version = sidecarVersionStrong then StrengthStrong else StrengthWeak)"

section \<open>What the file is bound to\<close>

lemma deriveMachineKey_length: "deriveMachineKey me = Inr k \<Longrightarrow> length k = 32"
  by (auto simp: deriveMachineKey_def bindr_Inr_iff length_sha256)

lemma strongKey_length: "strongKey me = Inr k \<Longrightarrow> length k = 32"
  by (auto simp: strongKey_def length_sha256 split: option.splits)

lemma platformHasStrong_key: "platformHasStrongSidecar me \<Longrightarrow> \<exists>k. strongKey me = Inr k"
  by (auto simp: platformHasStrongSidecar_def strongKey_def)

lemma openWith_sealWith:
  assumes "cryptoOK cy" "\<And>k. key = Inr k \<Longrightarrow> length k = 32" "sealWith cy key p i = Inr blob"
  shows "openWith cy key blob = Inr p"
  using assms by (auto simp: sealWith_def openWith_def bindr_Inr_iff NewX_def aeadOpen_def cryptoOK_def Let_def)

text \<open>Sealed for a machine, the data opens on it.\<close>

lemma OpenForMachine_SealForMachine:
  "cryptoOK cy \<Longrightarrow> SealForMachine cy me p i = Inr blob \<Longrightarrow> OpenForMachine cy me blob = Inr p"
  using openWith_sealWith deriveMachineKey_length by (auto simp: SealForMachine_def OpenForMachine_def)

lemma sidecar_reads_back:
  assumes "cryptoOK cy" "WriteSidecar cy me ok pass i side = (None, side')"
  shows "ReadSidecar cy me side' = Inr pass"
proof (cases "platformHasStrongSidecar me")
  case True
  then obtain blob where "sealStrong cy me pass i = Inr blob" "side' = Some (Sidecar sidecarVersionStrong [] (b64Encode blob))"
    using assms(2) by (auto simp: WriteSidecar_def writeSidecarV2_def writeSidecarFile_def split: sum.splits if_splits)
  then show ?thesis using openWith_sealWith [OF assms(1) strongKey_length]
    by (auto simp: ReadSidecar_def decodeB64_def b64_roundtrip sealStrong_def openStrong_def)
next
  case False
  then obtain k where k: "deriveMachineKey me = Inr k"
      "side' = Some (Sidecar sidecarVersion (b64Encode (cRand cy i nonceSize)) (b64Encode (cSeal cy k (cRand cy i nonceSize) pass)))"
    using assms(2) by (auto simp: WriteSidecar_def writeSidecarV1_def writeSidecarFile_def bindr_Inr_iff Let_def
        split: sum.splits if_splits)
  have "length k = 32" "length (cRand cy i nonceSize) = nonceSize"
    using deriveMachineKey_length [OF k(1)] assms(1) by (auto simp: cryptoOK_def)
  then show ?thesis using k assms(1)
    by (simp add: ReadSidecar_def sidecarVersion_def sidecarVersionStrong_def decodeB64_def b64_roundtrip NewX_def
        aeadOpen_def cryptoOK_def)
qed

text \<open>The strong format depends on the machine id and on nothing else of the machine.\<close>

lemma strongKey_cong: "meEtcID me = meEtcID me' \<Longrightarrow> meDbusID me = meDbusID me' \<Longrightarrow> strongKey me = strongKey me'"
  by (simp add: strongKey_def)

text \<open>The key of the file \<open>me\<close> writes, derived on \<open>me'\<close>.\<close>

definition sidecarKey :: "machineEnv \<Rightarrow> machineEnv \<Rightarrow> vaultError + string" where
  "sidecarKey me me' = (if platformHasStrongSidecar me then strongKey me' else deriveMachineKey me')"

text \<open>the auto-unlock file opens where it was written and wherever the same key is derived; on any other machine
  it gives an error and no passphrase.\<close>

lemma sidecar_bound_to_machine:
  assumes "cryptoOK cy" "onlyItsKey cy" "WriteSidecar cy me ok pass i side = (None, side')"
    and keys: "sidecarKey me me = Inr k" "sidecarKey me me' = Inr k'"
  shows "ReadSidecar cy me' side' = (if k' = k then Inr pass else Inl WrongPassphrase)"
proof -
  let ?nonce = "cRand cy i nonceSize"
  have n: "length ?nonce = nonceSize" using assms(1) by (simp add: cryptoOK_def)
  have len: "length k = 32" "length k' = 32"
    using keys strongKey_length deriveMachineKey_length by (auto simp: sidecarKey_def split: if_splits)
  then have no: "aeadOpen cy k' ?nonce (cSeal cy k ?nonce pass) = (if k' = k then Inr pass else Inl WrongPassphrase)"
    using assms(1,2) n by (auto simp: aeadOpen_def onlyItsKey_def cryptoOK_def)
  show ?thesis
  proof (cases "platformHasStrongSidecar me")
    case True
    then have "side' = Some (Sidecar sidecarVersionStrong [] (b64Encode (?nonce @ cSeal cy k ?nonce pass)))"
      using assms(3) keys len by (auto simp: sidecarKey_def WriteSidecar_def writeSidecarV2_def writeSidecarFile_def sealStrong_def
          sealWith_def Let_def NewX_def split: if_splits)
    then show ?thesis using True keys len n no
      by (simp add: sidecarKey_def ReadSidecar_def decodeB64_def b64_roundtrip openStrong_def openWith_def NewX_def)
  next
    case False
    then have "side' = Some (Sidecar sidecarVersion (b64Encode ?nonce) (b64Encode (cSeal cy k ?nonce pass)))"
      using assms(3) keys len by (auto simp: sidecarKey_def WriteSidecar_def writeSidecarV1_def writeSidecarFile_def NewX_def Let_def
          split: if_splits)
    then show ?thesis using False keys len no
      by (simp add: sidecarKey_def ReadSidecar_def sidecarVersion_def sidecarVersionStrong_def decodeB64_def b64_roundtrip NewX_def)
  qed
qed

definition linuxBox :: "string \<Rightarrow> machineEnv" where
  "linuxBox mid = \<lparr>meGOOS = ''linux'', meEtcID = Some mid, meDbusID = None, meIoreg = None, meEnv = (\<lambda>_. []),
     meProcHostname = None, meHostname = None, meUser = None\<rparr>"

lemma sidecar_bound_to_machine_witness:
  "\<exists>side'. WriteSidecar plainCrypto (linuxBox ''a1'') True ''pw'' 0 None = (None, side') \<and>
     ReadSidecar plainCrypto (linuxBox ''b2'') side' =
       (if sha256 ''ssh-tool/v2/strong-sidecar|machine-id=b2'' = sha256 ''ssh-tool/v2/strong-sidecar|machine-id=a1''
        then Inr ''pw'' else Inl WrongPassphrase)"
proof -
  have trim: "TrimSpace ''a1'' = ''a1''" "TrimSpace ''b2'' = ''b2''" by code_simp+
  obtain side' where w: "WriteSidecar plainCrypto (linuxBox ''a1'') True ''pw'' 0 None = (None, side')"
    by (simp add: WriteSidecar_def platformHasStrongSidecar_def linuxBox_def trim writeSidecarV2_def sealStrong_def sealWith_def
        strongKey_def NewX_def length_sha256 Let_def writeSidecarFile_def)
  have k: "sidecarKey (linuxBox ''a1'') (linuxBox ''a1'') = Inr (sha256 ''ssh-tool/v2/strong-sidecar|machine-id=a1'')"
    "sidecarKey (linuxBox ''a1'') (linuxBox ''b2'') = Inr (sha256 ''ssh-tool/v2/strong-sidecar|machine-id=b2'')"
    by (simp_all add: sidecarKey_def platformHasStrongSidecar_def linuxBox_def trim strongKey_def)
  show ?thesis using w sidecar_bound_to_machine [OF plainCrypto_OK w k] by blast
qed

end
