(* ===== verification/Vault.thy ===== *)
theory Vault
  imports MachineKey
begin

text \<open>
  The vault the program uses, \<open>internal/creds/vault.go\<close>: a memory mirror in front of the file vault. An
  opened file vault is a heap object, \<open>fcFile\<close> the pointer to the current one. Each operation is split
  where the source releases its mutex; run in one go the parts are the operation of a single thread, and
  the steps of section "Several threads" let other threads in between. \<open>ok\<close> says whether a file write
  succeeds. Zeroing a buffer before it is dropped has no effect in the model.
\<close>

section \<open>State\<close>

record facade =
  fcMem :: "string \<rightharpoonup> string"
  fcFile :: "nat option"
  fcHeap :: "uvault list"
  fcWorld :: vworld
  fcSide :: "sidecar option"

definition NewVault :: "vworld \<Rightarrow> sidecar option \<Rightarrow> facade" where
  "NewVault w side = \<lparr>fcMem = Map.empty, fcFile = None, fcHeap = [], fcWorld = w, fcSide = side\<rparr>"

datatype statusKind = StatusNotInitialized | StatusLocked | StatusUnlocked

record vaultStatus =
  vsKind :: statusKind
  vsAuto :: bool
  vsStrength :: sidecarStrength

definition Status :: "facade \<Rightarrow> vaultStatus" where
  "Status f =
     (if fcFile f \<noteq> None then \<lparr>vsKind = StatusUnlocked, vsAuto = False, vsStrength = SidecarStrength (fcSide f)\<rparr>
      else if vwDisk (fcWorld f) = None then \<lparr>vsKind = StatusNotInitialized, vsAuto = False, vsStrength = StrengthNone\<rparr>
      else \<lparr>vsKind = StatusLocked, vsAuto = SidecarExists (fcSide f), vsStrength = SidecarStrength (fcSide f)\<rparr>)"

text \<open>A new object for an opened vault.\<close>

definition alloc :: "uvault \<Rightarrow> facade \<Rightarrow> nat \<times> facade" where
  "alloc v f = (length (fcHeap f), f\<lparr>fcHeap := fcHeap f @ [v]\<rparr>)"

section \<open>Opening and closing\<close>

definition remember :: "crypto \<Rightarrow> machineEnv \<Rightarrow> bool \<Rightarrow> string \<Rightarrow> facade \<Rightarrow> facade" where
  "remember cy me ok pass f =
     (let (i, w) = (vwRand (fcWorld f), (fcWorld f)\<lparr>vwRand := Suc (vwRand (fcWorld f))\<rparr>)
      in f\<lparr>fcSide := snd (WriteSidecar cy me ok pass i (fcSide f)), fcWorld := w\<rparr>)"

definition fInit :: "crypto \<Rightarrow> machineEnv \<Rightarrow> bool \<Rightarrow> string \<Rightarrow> bool \<Rightarrow> facade \<Rightarrow> vaultError option \<times> facade" where
  "fInit cy me ok pass keep f =
     (case InitVault cy ok pass (fcWorld f) of (Inl e, w) \<Rightarrow> (Some e, f\<lparr>fcWorld := w\<rparr>)
      | (Inr v, w) \<Rightarrow>
          (let (p, f1) = alloc v (f\<lparr>fcWorld := w\<rparr>); f2 = f1\<lparr>fcFile := Some p\<rparr>
           in (None, if keep then remember cy me ok pass f2 else f2)))"

definition fUnlock :: "crypto \<Rightarrow> machineEnv \<Rightarrow> bool \<Rightarrow> string \<Rightarrow> bool \<Rightarrow> facade \<Rightarrow> vaultError option \<times> facade" where
  "fUnlock cy me ok pass keep f =
     (case UnlockVault cy (vwDisk (fcWorld f)) pass of Inl e \<Rightarrow> (Some e, f)
      | Inr v \<Rightarrow>
          (let (p, f1) = alloc v f; f2 = f1\<lparr>fcFile := Some p\<rparr>
           in (None, if keep then remember cy me ok pass f2 else f2)))"

text \<open>\<open>AutoUnlock\<close>: before, between and after the two places it holds the mutex.\<close>

definition autoEnter :: "facade \<Rightarrow> bool option" where
  "autoEnter f = (if fcFile f \<noteq> None then Some True else if vwDisk (fcWorld f) = None then Some False else None)"

definition autoRead :: "crypto \<Rightarrow> machineEnv \<Rightarrow> facade \<Rightarrow> (vaultError + uvault option)" where
  "autoRead cy me f = bindr (ReadSidecar cy me (fcSide f))
     (\<lambda>pass. if pass = [] then Inr None
             else bindr (UnlockVault cy (vwDisk (fcWorld f)) pass) (\<lambda>v. Inr (Some v)))"

definition autoSet :: "nat \<Rightarrow> facade \<Rightarrow> facade" where
  "autoSet p f = f\<lparr>fcFile := Some p\<rparr>"

definition fAutoUnlock :: "crypto \<Rightarrow> machineEnv \<Rightarrow> facade \<Rightarrow> (vaultError + bool) \<times> facade" where
  "fAutoUnlock cy me f =
     (case autoEnter f of Some b \<Rightarrow> (Inr b, f)
      | None \<Rightarrow>
          (case autoRead cy me f of Inl e \<Rightarrow> (Inl e, f) | Inr None \<Rightarrow> (Inr False, f)
           | Inr (Some v) \<Rightarrow> (let (p, f1) = alloc v f in (Inr True, autoSet p f1))))"

definition fLock :: "bool \<Rightarrow> facade \<Rightarrow> facade" where
  "fLock forget f = f\<lparr>fcFile := None, fcMem := Map.empty, fcSide := (if forget then None else fcSide f)\<rparr>"

section \<open>Secrets\<close>

text \<open>Caching is refused when the vault was locked or reopened meanwhile.\<close>

definition cache :: "nat \<Rightarrow> string \<Rightarrow> string \<Rightarrow> facade \<Rightarrow> facade" where
  "cache p a s f = (if fcFile f = Some p then f\<lparr>fcMem := (fcMem f)(a \<mapsto> s)\<rparr> else f)"

text \<open>\<open>Get\<close>: a result at once, or the file vault to read.\<close>

definition getEnter :: "string \<Rightarrow> facade \<Rightarrow> string option + nat" where
  "getEnter a f = (case fcMem f a of Some s \<Rightarrow> Inl (Some s)
     | None \<Rightarrow> (case fcFile f of None \<Rightarrow> Inl None | Some p \<Rightarrow> Inr p))"

definition fGet :: "crypto \<Rightarrow> string \<Rightarrow> facade \<Rightarrow> (vaultError + string option) \<times> facade" where
  "fGet cy a f =
     (case getEnter a f of Inl r \<Rightarrow> (Inr r, f)
      | Inr p \<Rightarrow>
          (case uvGet cy a (fcHeap f ! p) of Inl e \<Rightarrow> (Inl e, f) | Inr None \<Rightarrow> (Inr None, f)
           | Inr (Some s) \<Rightarrow> (Inr (Some s), cache p a s f)))"

text \<open>Operations of the file vault \<open>p\<close>, under its own mutex.\<close>

definition filePut :: "crypto \<Rightarrow> bool \<Rightarrow> string \<Rightarrow> string \<Rightarrow> nat \<Rightarrow> facade \<Rightarrow> vaultError option \<times> facade" where
  "filePut cy ok a s p f = (case uvPut cy ok a s (fcHeap f ! p) (fcWorld f) of
     (e, v, w) \<Rightarrow> (e, f\<lparr>fcHeap := (fcHeap f)[p := v], fcWorld := w\<rparr>))"

definition fileDelete :: "bool \<Rightarrow> string \<Rightarrow> nat \<Rightarrow> facade \<Rightarrow> facade" where
  "fileDelete ok a p f = (case uvDelete ok a (fcHeap f ! p) (fcWorld f) of
     (e, v, w) \<Rightarrow> f\<lparr>fcHeap := (fcHeap f)[p := v], fcWorld := w\<rparr>)"

definition fileRekey :: "crypto \<Rightarrow> bool \<Rightarrow> string \<Rightarrow> nat \<Rightarrow> facade \<Rightarrow> vaultError option \<times> facade" where
  "fileRekey cy ok pass p f = (case uvChangePassphrase cy ok pass (fcHeap f ! p) (fcWorld f) of
     (e, v, w) \<Rightarrow> (e, f\<lparr>fcHeap := (fcHeap f)[p := v], fcWorld := w\<rparr>))"

definition fPut :: "crypto \<Rightarrow> bool \<Rightarrow> string \<Rightarrow> string \<Rightarrow> facade \<Rightarrow> vaultError option \<times> facade" where
  "fPut cy ok a s f =
     (case fcFile f of None \<Rightarrow> (Some Locked, f)
      | Some p \<Rightarrow> (case filePut cy ok a s p f of (Some e, f1) \<Rightarrow> (Some e, f1) | (None, f1) \<Rightarrow> (None, cache p a s f1)))"

definition fPutEphemeral :: "string \<Rightarrow> string \<Rightarrow> facade \<Rightarrow> facade" where
  "fPutEphemeral a s f = f\<lparr>fcMem := (fcMem f)(a \<mapsto> s)\<rparr>"

text \<open>The error of the file vault is dropped; the result is always nil.\<close>

definition fDelete :: "bool \<Rightarrow> string \<Rightarrow> facade \<Rightarrow> facade" where
  "fDelete ok a f =
     (let f1 = f\<lparr>fcMem := (fcMem f)(a := None)\<rparr>
      in case fcFile f of None \<Rightarrow> f1 | Some p \<Rightarrow> fileDelete ok a p f1)"

definition fSeal :: "crypto \<Rightarrow> string \<Rightarrow> facade \<Rightarrow> (vaultError + string) \<times> facade" where
  "fSeal cy p f = (case fcFile f of None \<Rightarrow> (Inl Locked, f)
     | Some i \<Rightarrow> (case SealBlob cy p (fcHeap f ! i) (fcWorld f) of (r, w) \<Rightarrow> (r, f\<lparr>fcWorld := w\<rparr>)))"

definition fOpen :: "crypto \<Rightarrow> string \<Rightarrow> facade \<Rightarrow> vaultError + string" where
  "fOpen cy blob f = (case fcFile f of None \<Rightarrow> Inl Locked | Some i \<Rightarrow> OpenBlob cy blob (fcHeap f ! i))"

definition fChangePassphrase :: "crypto \<Rightarrow> machineEnv \<Rightarrow> bool \<Rightarrow> bool \<Rightarrow> string \<Rightarrow> string \<Rightarrow> facade \<Rightarrow> vaultError option \<times> facade" where
  "fChangePassphrase cy me ok okSide old new f =
     (case fcFile f of None \<Rightarrow> (Some Locked, f)
      | Some p \<Rightarrow>
          if new = [] then (Some EmptyPassphrase, f)
          else (case UnlockVault cy (vwDisk (fcWorld f)) old of Inl e \<Rightarrow> (Some e, f)
          | Inr _ \<Rightarrow> (case fileRekey cy ok new p f of (Some e, f1) \<Rightarrow> (Some e, f1)
              | (None, f1) \<Rightarrow> (None, if SidecarExists (fcSide f1) then remember cy me okSide new f1 else f1))))"

definition VaultAccountKey :: "string \<Rightarrow> string" where
  "VaultAccountKey cid = ''cred:'' @ cid"

definition PassphraseAccountKey :: "string \<Rightarrow> string" where
  "PassphraseAccountKey cid = ''cred:'' @ cid @ '':passphrase''"

section \<open>Adopting a pulled vault\<close>

definition isVaultMachineLocalAccount :: "string \<Rightarrow> bool" where
  "isVaultMachineLocalAccount a \<longleftrightarrow> a = ''sync:webdav_password'' \<or> a = ''sync:passphrase''"

text \<open>\<open>wr\<close>: whether the write for an account succeeds.\<close>

fun mergePuts :: "crypto \<Rightarrow> (string \<Rightarrow> bool) \<Rightarrow> uvault \<Rightarrow> string list \<Rightarrow> facade \<Rightarrow> vaultError option \<times> facade" where
  "mergePuts cy wr src [] f = (None, f)"
| "mergePuts cy wr src (a # as) f =
     (case uvGet cy a src of Inl e \<Rightarrow> mergePuts cy wr src as f | Inr None \<Rightarrow> mergePuts cy wr src as f
      | Inr (Some s) \<Rightarrow> (case fPut cy (wr a) a s f of (Some e, f1) \<Rightarrow> (Some e, f1)
          | (None, f1) \<Rightarrow> mergePuts cy wr src as f1))"

definition MergeSnapshotVault :: "crypto \<Rightarrow> (string \<Rightarrow> bool) \<Rightarrow> diskFile option \<Rightarrow> string \<Rightarrow> facade \<Rightarrow> vaultError option \<times> facade" where
  "MergeSnapshotVault cy wr srcDisk srcPass f =
     (case fcFile f of None \<Rightarrow> (Some Locked, f)
      | Some live \<Rightarrow>
          (case UnlockVault cy srcDisk srcPass of Inl e \<Rightarrow> (Some e, f)
           | Inr src \<Rightarrow>
               (case mergePuts cy wr src (Accounts src) f of (Some e, f1) \<Rightarrow> (Some e, f1)
                | (None, f1) \<Rightarrow>
                    (None, foldl (\<lambda>f a. fDelete (wr a) a f) f1
                       (filter (\<lambda>a. a \<notin> set (Accounts src) \<and> \<not> isVaultMachineLocalAccount a) (Accounts (fcHeap f1 ! live)))))))"

section \<open>Several threads\<close>

text \<open>What a thread has still to do, between two holds of a mutex.\<close>

datatype pend =
    GetFile string nat | GetCache string nat string | PutFile string string nat | PutCache string string nat
  | DelFile string nat | AutoRead | AutoSet nat | RekeyVerify nat string string | RekeyFile nat string | RekeySide string

fun runPart :: "crypto \<Rightarrow> machineEnv \<Rightarrow> bool \<Rightarrow> pend \<Rightarrow> facade \<Rightarrow> facade \<times> pend list" where
  "runPart cy me ok (GetFile a p) f = (case uvGet cy a (fcHeap f ! p) of Inr (Some s) \<Rightarrow> (f, [GetCache a p s]) | _ \<Rightarrow> (f, []))"
| "runPart cy me ok (GetCache a p s) f = (cache p a s f, [])"
| "runPart cy me ok (PutFile a s p) f = (case filePut cy ok a s p f of (Some e, f1) \<Rightarrow> (f1, []) | (None, f1) \<Rightarrow> (f1, [PutCache a s p]))"
| "runPart cy me ok (PutCache a s p) f = (cache p a s f, [])"
| "runPart cy me ok (DelFile a p) f = (fileDelete ok a p f, [])"
| "runPart cy me ok AutoRead f = (case autoRead cy me f of Inr (Some v) \<Rightarrow> (let (p, f1) = alloc v f in (f1, [AutoSet p])) | _ \<Rightarrow> (f, []))"
| "runPart cy me ok (AutoSet p) f = (autoSet p f, [])"
| "runPart cy me ok (RekeyVerify p old new) f =
     (case UnlockVault cy (vwDisk (fcWorld f)) old of Inl e \<Rightarrow> (f, []) | Inr _ \<Rightarrow> (f, [RekeyFile p new]))"
| "runPart cy me ok (RekeyFile p new) f = (case fileRekey cy ok new p f of (Some e, f1) \<Rightarrow> (f1, []) | (None, f1) \<Rightarrow> (f1, [RekeySide new]))"
| "runPart cy me ok (RekeySide new) f = (if SidecarExists (fcSide f) then remember cy me ok new f else f, [])"

datatype vaultEvent =
    EvGet string | EvPut string string | EvPutEphemeral string string | EvDelete string | EvLock bool
  | EvInit bool string bool | EvUnlock bool string bool | EvAuto | EvRekey string string
  | EvRun nat bool        \<comment> \<open>the n-th unfinished call goes on\<close>

fun vaultStepT :: "crypto \<Rightarrow> machineEnv \<Rightarrow> vaultEvent \<Rightarrow> facade \<times> pend list \<Rightarrow> facade \<times> pend list" where
  "vaultStepT cy me (EvGet a) (f, ps) = (case getEnter a f of Inl r \<Rightarrow> (f, ps) | Inr p \<Rightarrow> (f, ps @ [GetFile a p]))"
| "vaultStepT cy me (EvPut a s) (f, ps) = (case fcFile f of None \<Rightarrow> (f, ps) | Some p \<Rightarrow> (f, ps @ [PutFile a s p]))"
| "vaultStepT cy me (EvPutEphemeral a s) (f, ps) = (fPutEphemeral a s f, ps)"
| "vaultStepT cy me (EvDelete a) (f, ps) =
     (f\<lparr>fcMem := (fcMem f)(a := None)\<rparr>, case fcFile f of None \<Rightarrow> ps | Some p \<Rightarrow> ps @ [DelFile a p])"
| "vaultStepT cy me (EvLock forget) (f, ps) = (fLock forget f, ps)"
| "vaultStepT cy me (EvInit ok pass keep) (f, ps) = (snd (fInit cy me ok pass keep f), ps)"
| "vaultStepT cy me (EvUnlock ok pass keep) (f, ps) = (snd (fUnlock cy me ok pass keep f), ps)"
| "vaultStepT cy me EvAuto (f, ps) = (case autoEnter f of Some b \<Rightarrow> (f, ps) | None \<Rightarrow> (f, ps @ [AutoRead]))"
| "vaultStepT cy me (EvRekey old new) (f, ps) =
     (case fcFile f of None \<Rightarrow> (f, ps) | Some p \<Rightarrow> if new = [] then (f, ps) else (f, ps @ [RekeyVerify p old new]))"
| "vaultStepT cy me (EvRun i ok) (f, ps) =
     (if i < length ps then (let (f', more') = runPart cy me ok (ps ! i) f in (f', take i ps @ more' @ drop (Suc i) ps)) else (f, ps))"

definition runEvents :: "crypto \<Rightarrow> machineEnv \<Rightarrow> vaultEvent list \<Rightarrow> facade \<times> pend list \<Rightarrow> facade \<times> pend list" where
  "runEvents cy me evs s = foldl (\<lambda>s ev. vaultStepT cy me ev s) s evs"

section \<open>A locked vault\<close>

text \<open>The accounts put in memory only, since the vault was last locked.\<close>

fun ephStep :: "vaultEvent \<Rightarrow> string set \<Rightarrow> string set" where
  "ephStep (EvPutEphemeral a s) E = insert a E"
| "ephStep (EvLock forget) E = {}"
| "ephStep _ E = E"

definition ephSince :: "vaultEvent list \<Rightarrow> string set" where
  "ephSince evs = foldl (\<lambda>E ev. ephStep ev E) {} evs"

definition sealedWhenLocked :: "string set \<Rightarrow> facade \<Rightarrow> bool" where
  "sealedWhenLocked E f \<longleftrightarrow> (fcFile f = None \<longrightarrow> dom (fcMem f) \<subseteq> E)"

lemma remember_mem [simp]: "fcMem (remember cy me ok p f) = fcMem f" "fcFile (remember cy me ok p f) = fcFile f"
  "fcHeap (remember cy me ok p f) = fcHeap f"
  by (simp_all add: remember_def)

lemma file_ops_mem [simp]:
  "fcMem (snd (filePut cy ok a s p f)) = fcMem f" "fcFile (snd (filePut cy ok a s p f)) = fcFile f"
  "fcMem (fileDelete ok a p f) = fcMem f" "fcFile (fileDelete ok a p f) = fcFile f"
  "fcMem (snd (fileRekey cy ok s p f)) = fcMem f" "fcFile (snd (fileRekey cy ok s p f)) = fcFile f"
  by (simp_all add: filePut_def fileDelete_def fileRekey_def split: prod.splits)

lemma filePut_mem: "filePut cy ok a s p f = (e, f') \<Longrightarrow> fcMem f' = fcMem f \<and> fcFile f' = fcFile f"
  by (auto simp: filePut_def split: prod.splits)

lemma fileRekey_mem: "fileRekey cy ok s p f = (e, f') \<Longrightarrow> fcMem f' = fcMem f \<and> fcFile f' = fcFile f"
  by (auto simp: fileRekey_def split: prod.splits)

lemma runPart_sealed:
  assumes "sealedWhenLocked E f" "runPart cy me ok part f = (f', ps)"
  shows "sealedWhenLocked E f'"
proof (cases part)
  case (PutFile a s p)
  then show ?thesis using assms
    by (auto simp: sealedWhenLocked_def split: prod.splits option.splits dest!: filePut_mem)
next
  case (RekeyFile p new)
  then show ?thesis using assms
    by (auto simp: sealedWhenLocked_def split: prod.splits option.splits dest!: fileRekey_mem)
qed (use assms in \<open>auto simp: sealedWhenLocked_def cache_def alloc_def autoSet_def split: sum.splits option.splits if_splits\<close>)

lemma vaultStepT_sealed:
  assumes "sealedWhenLocked E (fst s)"
  shows "sealedWhenLocked (ephStep ev E) (fst (vaultStepT cy me ev s))"
proof -
  obtain f ps where s: "s = (f, ps)" by (cases s)
  show ?thesis
  proof (cases ev)
    case (EvRun i ok)
    then show ?thesis using assms runPart_sealed [of E f cy me ok "ps ! i"]
      by (auto simp: s split: prod.splits)
  next
    case (EvInit ok pass keep)
    then show ?thesis using assms
      by (auto simp: s fInit_def sealedWhenLocked_def alloc_def Let_def split: prod.splits sum.splits)
  next
    case (EvUnlock ok pass keep)
    then show ?thesis using assms
      by (auto simp: s fUnlock_def sealedWhenLocked_def alloc_def Let_def split: prod.splits sum.splits)
  qed (use assms in \<open>auto simp: s sealedWhenLocked_def fPutEphemeral_def fLock_def split: sum.splits option.splits if_splits\<close>)
qed

text \<open>C9: whatever calls are running, a locked vault holds no secret in memory but those put there for memory only
  since it was locked.\<close>

theorem locked_vault_holds_no_secret:
  assumes "runEvents cy me evs (NewVault w side, []) = (f, ps)" "fcFile f = None"
  shows "dom (fcMem f) \<subseteq> ephSince evs"
proof -
  have "sealedWhenLocked (ephSince evs) (fst (runEvents cy me evs (NewVault w side, [])))"
  proof (induction evs rule: rev_induct)
    case Nil
    then show ?case by (simp add: sealedWhenLocked_def runEvents_def NewVault_def)
  next
    case (snoc ev evs)
    then show ?case using vaultStepT_sealed [OF snoc, of ev cy me] by (simp add: runEvents_def ephSince_def)
  qed
  then show ?thesis using assms by (simp add: sealedWhenLocked_def)
qed

section \<open>Secrets of the current vault\<close>

text \<open>The store the rest of the program sees: the mirror over the current file vault.\<close>

definition openVault :: "crypto \<Rightarrow> string \<Rightarrow> facade \<Rightarrow> bool" where
  "openVault cy pass f \<longleftrightarrow> (\<exists>p. fcFile f = Some p \<and> p < length (fcHeap f) \<and> uvOK cy pass (fcHeap f ! p))"

definition visible :: "crypto \<Rightarrow> facade \<Rightarrow> string \<rightharpoonup> string" where
  "visible cy f a = (case fcMem f a of Some s \<Rightarrow> Some s
     | None \<Rightarrow> (case fcFile f of None \<Rightarrow> None | Some p \<Rightarrow> secrets cy (fcHeap f ! p) a))"

lemma fGet_visible:
  assumes "cryptoOK cy" "openVault cy pass f" "a \<noteq> sentinelKey"
  shows "fst (fGet cy a f) = Inr (visible cy f a)"
proof -
  obtain p where p: "fcFile f = Some p" "uvOK cy pass (fcHeap f ! p)" using assms(2) by (auto simp: openVault_def)
  then show ?thesis using uvGet_secrets [OF assms(1) p(2) assms(3)]
    by (auto simp: fGet_def getEnter_def visible_def split: option.splits)
qed

lemma fPut_visible:
  assumes "cryptoOK cy" "openVault cy pass f" "a \<noteq> sentinelKey" "length s < 2 ^ 32"
  shows "fst (fPut cy True a s f) = None \<and> openVault cy pass (snd (fPut cy True a s f)) \<and>
    visible cy (snd (fPut cy True a s f)) = (visible cy f)(a \<mapsto> s) \<and>
    (\<forall>p. fcFile f = Some p \<longrightarrow> fcFile (snd (fPut cy True a s f)) = Some p \<and>
       secrets cy (fcHeap (snd (fPut cy True a s f)) ! p) = (secrets cy (fcHeap f ! p))(a \<mapsto> s)) \<and>
    (\<forall>b. b \<noteq> a \<longrightarrow> fcMem (snd (fPut cy True a s f)) b = fcMem f b)"
proof -
  obtain p where p: "fcFile f = Some p" "p < length (fcHeap f)" "uvOK cy pass (fcHeap f ! p)"
    using assms(2) by (auto simp: openVault_def)
  obtain e v w where r: "uvPut cy True a s (fcHeap f ! p) (fcWorld f) = (e, v, w)"
    by (cases "uvPut cy True a s (fcHeap f ! p) (fcWorld f)")
  note u = uvPut_OK [OF assms(1) p(3) assms(3,4) r]
  have "fPut cy True a s f = (None, f\<lparr>fcHeap := (fcHeap f)[p := v], fcWorld := w, fcMem := (fcMem f)(a \<mapsto> s)\<rparr>)"
    using u p by (simp add: fPut_def filePut_def r cache_def)
  then show ?thesis using u p by (auto simp: openVault_def visible_def fun_eq_iff split: option.splits)
qed

lemma fDelete_visible:
  assumes "cryptoOK cy" "openVault cy pass f" "a \<noteq> sentinelKey"
  shows "openVault cy pass (fDelete ok a f) \<and> visible cy (fDelete ok a f) = (visible cy f)(a := None) \<and>
    (\<forall>p. fcFile f = Some p \<longrightarrow> fcFile (fDelete ok a f) = Some p \<and>
       secrets cy (fcHeap (fDelete ok a f) ! p) = (secrets cy (fcHeap f ! p))(a := None))"
proof -
  obtain p where p: "fcFile f = Some p" "p < length (fcHeap f)" "uvOK cy pass (fcHeap f ! p)"
    using assms(2) by (auto simp: openVault_def)
  obtain e v w where r: "uvDelete ok a (fcHeap f ! p) (fcWorld f) = (e, v, w)"
    by (cases "uvDelete ok a (fcHeap f ! p) (fcWorld f)")
  have u: "uvOK cy pass v \<and> secrets cy v = (secrets cy (fcHeap f ! p))(a := None)"
  proof (cases "secrets cy (fcHeap f ! p) a")
    case None
    then have "v = fcHeap f ! p" using uvDelete_absent [OF assms(1) p(3) assms(3) None] r by auto
    then show ?thesis using p(3) None by auto
  next
    case (Some x)
    then show ?thesis using uvDelete_OK [OF p(3) assms(3) r] by simp
  qed
  have "fDelete ok a f = f\<lparr>fcMem := (fcMem f)(a := None), fcHeap := (fcHeap f)[p := v], fcWorld := w\<rparr>"
    using p by (simp add: fDelete_def fileDelete_def r)
  then show ?thesis using u p by (auto simp: openVault_def visible_def fun_eq_iff split: option.splits)
qed

section \<open>A store of secrets\<close>

text \<open>The interface a merge relies on: what is read after one put and one delete.\<close>

locale secret_store =
  fixes good :: "'s \<Rightarrow> bool" and look :: "'s \<Rightarrow> string \<rightharpoonup> string"
    and put :: "string \<Rightarrow> string \<Rightarrow> 's \<Rightarrow> 's" and del :: "string \<Rightarrow> 's \<Rightarrow> 's"
  assumes put: "good s \<Longrightarrow> a \<noteq> sentinelKey \<Longrightarrow> length x < 2 ^ 32 \<Longrightarrow> good (put a x s) \<and> look (put a x s) = (look s)(a \<mapsto> x)"
    and del: "good s \<Longrightarrow> a \<noteq> sentinelKey \<Longrightarrow> good (del a s) \<and> look (del a s) = (look s)(a := None)"
begin

lemma put_all:
  "good s \<Longrightarrow> \<forall>a \<in> set as. a \<noteq> sentinelKey \<and> length (g a) < 2 ^ 32 \<Longrightarrow>
    good (foldl (\<lambda>s a. put a (g a) s) s as) \<and>
    look (foldl (\<lambda>s a. put a (g a) s) s as) = (\<lambda>a. if a \<in> set as then Some (g a) else look s a)"
proof (induction as arbitrary: s)
  case (Cons a as)
  note p = put [OF Cons.prems(1), of a "g a"]
  have "look (foldl (\<lambda>s a. put a (g a) s) (put a (g a) s) as) = (\<lambda>b. if b \<in> set as then Some (g b) else look (put a (g a) s) b)"
    "good (foldl (\<lambda>s a. put a (g a) s) (put a (g a) s) as)"
    using Cons.IH [of "put a (g a) s"] Cons.prems p by auto
  then show ?case using p Cons.prems(2) by (auto simp: fun_eq_iff)
qed simp

lemma del_all:
  "good s \<Longrightarrow> sentinelKey \<notin> set as \<Longrightarrow>
    good (foldl (\<lambda>s a. del a s) s as) \<and> look (foldl (\<lambda>s a. del a s) s as) = (\<lambda>a. if a \<in> set as then None else look s a)"
proof (induction as arbitrary: s)
  case (Cons a as)
  have d: "good (del a s)" "look (del a s) = (look s)(a := None)" using del [OF Cons.prems(1), of a] Cons.prems(2) by auto
  show ?case using Cons.IH [OF d(1)] Cons.prems(2) d(2) by (auto simp: fun_eq_iff)
qed simp

text \<open>Puts of everything a source has, then deletes.\<close>

lemma mirror:
  assumes "good s" "\<forall>a \<in> set as. a \<noteq> sentinelKey \<and> length (g a) < 2 ^ 32" "sentinelKey \<notin> set ds"
  shows "good (foldl (\<lambda>s a. del a s) (foldl (\<lambda>s a. put a (g a) s) s as) ds) \<and>
    look (foldl (\<lambda>s a. del a s) (foldl (\<lambda>s a. put a (g a) s) s as) ds) =
      (\<lambda>a. if a \<in> set ds then None else if a \<in> set as then Some (g a) else look s a)"
  using del_all [OF _ assms(3)] put_all [OF assms(1,2)] by (simp add: fun_eq_iff)

end

text \<open>What the program sees of the vault, and what its file vault holds.\<close>

interpretation seen: secret_store "\<lambda>f. cryptoOK cy \<and> openVault cy pass f" "visible cy"
    "\<lambda>a x f. snd (fPut cy True a x f)" "fDelete True" for cy pass
  by (unfold_locales; use fPut_visible [of cy pass] fDelete_visible [of cy pass] in simp)

interpretation filed: secret_store "\<lambda>f. cryptoOK cy \<and> openVault cy pass f \<and> fcFile f = Some p"
    "\<lambda>f. secrets cy (fcHeap f ! p)" "\<lambda>a x f. snd (fPut cy True a x f)" "fDelete True" for cy pass p
  by (unfold_locales; use fPut_visible [of cy pass] fDelete_visible [of cy pass] in simp)

section \<open>A pulled vault is mirrored\<close>

lemma Accounts_secrets:
  assumes "cryptoOK cy" "uvOK cy pass v"
  shows "set (Accounts v) = {a. a \<noteq> sentinelKey \<and> secrets cy v a \<noteq> None}"
proof -
  have sec: "secrets cy v a = None \<longleftrightarrow> a \<notin> set (map fst (uvEntries v))" if "a \<noteq> sentinelKey" for a
  proof (cases "map_of (uvEntries v) a")
    case None
    then show ?thesis using map_of_eq_None_iff [of "uvEntries v" a] by (simp add: secrets_def)
  next
    case (Some item)
    then have "a \<in> set (map fst (uvEntries v))" by (auto dest: map_of_SomeD intro: rev_image_eqI)
    then show ?thesis using uvGet_secrets [OF assms that] Some
      by (cases "decrypt cy (uvKey v) item") (auto simp: uvGet_def secrets_def that)
  qed
  show ?thesis
  proof (rule set_eqI)
    fix a
    show "a \<in> set (Accounts v) \<longleftrightarrow> a \<in> {a. a \<noteq> sentinelKey \<and> secrets cy v a \<noteq> None}"
      using sec [of a] unfolding Accounts_def set_filter mem_Collect_eq by argo
  qed
qed

lemma secrets_short:
  assumes "cryptoOK cy" "uvOK cy pass v" "secrets cy v a = Some s"
  shows "length s < 2 ^ 32"
proof -
  obtain item where i: "map_of (uvEntries v) a = Some item" "decrypt cy (uvKey v) item = Inr s"
    using assms(3) by (auto simp: secrets_def split: if_splits option.splits sum.splits)
  obtain p where p: "sealedItem cy (uvKey v) p item" using assms(2) map_of_SomeD [OF i(1)] by (fastforce simp: uvOK_def)
  moreover have "decrypt cy (uvKey v) item = Inr p"
    using decrypt_sealed [OF assms(1) _ p] deriveKey_length [OF assms(1)] assms(2) by (auto simp: uvOK_def)
  ultimately show ?thesis using i(2) sealedItem_short by auto
qed

lemma mergePuts_all:
  assumes "cryptoOK cy" "uvOK cy srcPass src" "openVault cy pass f" "set as \<subseteq> set (Accounts src)"
  shows "mergePuts cy (\<lambda>_. True) src as f = (None, foldl (\<lambda>f a. snd (fPut cy True a (the (secrets cy src a)) f)) f as)"
  using assms(3,4)
proof (induction as arbitrary: f)
  case (Cons a as)
  then have a: "a \<noteq> sentinelKey" "secrets cy src a \<noteq> None" using Accounts_secrets [OF assms(1,2)] by auto
  then obtain s where s: "secrets cy src a = Some s" by blast
  then have g: "uvGet cy a src = Inr (Some s)" using uvGet_secrets [OF assms(1,2) a(1)] by simp
  note p = fPut_visible [OF assms(1) Cons.prems(1) a(1) secrets_short [OF assms(1,2) s]]
  obtain f1 where f1: "fPut cy True a s f = (None, f1)" using p by (cases "fPut cy True a s f") auto
  have "openVault cy pass f1" using p f1 by simp
  then show ?case using Cons.IH [of f1] Cons.prems(2) by (simp add: g f1 s)
qed simp


section \<open>Samples\<close>

text \<open>A vault on disk and in memory that holds given secrets.\<close>

lemma vault_with:
  assumes "\<forall>op \<in> set ops. legalOp op" "foldl (\<lambda>md op. specStep op md) (Map.empty, Map.empty) ops = (m, d)"
    and "foldl (\<lambda>p op. passAfter op p) ''pw'' ops = ''pw''"
  shows "\<exists>v w. implements plainCrypto ''pw'' (v, w) (m, d)"
proof -
  let ?w = "\<lparr>vwDisk = None, vwRand = 0\<rparr>"
  obtain v w where i: "InitVault plainCrypto True ''pw'' ?w = (Inr v, w)"
    by (simp add: InitVault_def freshKDFParams_def readRand_def deriveKey_def b64_roundtrip encrypt_def NewX_def
        flush_def plainCrypto_def)
  have "implements plainCrypto ''pw'' (v, w) (Map.empty, Map.empty)"
    using InitVault_OK [OF plainCrypto_OK(1) i] implements_flushed [OF plainCrypto_OK(1)] by metis
  from implements_run [OF plainCrypto_OK(1) assms(1) this] assms(2,3)
  have "implements plainCrypto ''pw'' (foldl (\<lambda>s op. vaultStep plainCrypto op s) (v, w) ops) (m, d)" by simp
  then show ?thesis by (metis surj_pair)
qed

definition opened :: "uvault \<Rightarrow> vworld \<Rightarrow> facade" where
  "opened v w = \<lparr>fcMem = Map.empty, fcFile = Some 0, fcHeap = [v], fcWorld = w, fcSide = None\<rparr>"

lemma opened_open: "implements cy pass (v, w) (m, d) \<Longrightarrow>
    openVault cy pass (opened v w) \<and> fcFile (opened v w) = Some 0 \<and> fcMem (opened v w) a = None \<and>
    secrets cy (fcHeap (opened v w) ! 0) = m \<and> visible cy (opened v w) = m"
  by (auto simp: implements_def opened_def openVault_def visible_def fun_eq_iff)


section \<open>A read that races with a write\<close>

text \<open>a read that fetched a secret from the file vault before a put or a delete, and caches it after, brings the
  old secret back: later reads return it although the file vault has the new one, or none.\<close>

lemma racing_read_brings_old_secret_back:
  assumes cy: "cryptoOK cy" and "openVault cy pass f" "fcFile f = Some p" "fcMem f a = None"
    and "secrets cy (fcHeap f ! p) a = Some old" "a \<noteq> sentinelKey" "length new < 2 ^ 32"
  shows "\<exists>f1 f2.
    runEvents cy me [EvGet a, EvRun 0 True, EvPut a new, EvRun 1 True, EvRun 1 True, EvRun 0 True] (f, []) = (f1, []) \<and>
      fst (fGet cy a f1) = Inr (Some old) \<and> secrets cy (fcHeap f1 ! p) a = Some new \<and>
    runEvents cy me [EvGet a, EvRun 0 True, EvDelete a, EvRun 1 True, EvRun 0 True] (f, []) = (f2, []) \<and>
      fst (fGet cy a f2) = Inr (Some old) \<and> secrets cy (fcHeap f2 ! p) a = None"
proof -
  have p: "p < length (fcHeap f)" "uvOK cy pass (fcHeap f ! p)" using assms(2,3) by (auto simp: openVault_def)
  have get: "uvGet cy a (fcHeap f ! p) = Inr (Some old)" using uvGet_secrets [OF cy p(2) assms(6)] assms(5) by simp
  obtain e v w where put: "uvPut cy True a new (fcHeap f ! p) (fcWorld f) = (e, v, w)"
    by (cases "uvPut cy True a new (fcHeap f ! p) (fcWorld f)")
  have e: "e = None" "secrets cy v a = Some new" using uvPut_OK [OF cy p(2) assms(6,7) put] by auto
  obtain e' v' w' where del: "uvDelete True a (fcHeap f ! p) (fcWorld f) = (e', v', w')"
    by (cases "uvDelete True a (fcHeap f ! p) (fcWorld f)")
  have v': "secrets cy v' a = None" using uvDelete_OK [OF p(2) assms(6) del] assms(5) by simp
  show ?thesis
    using assms(3,4) p(1) get put e del v'
    by (simp add: runEvents_def getEnter_def filePut_def fileDelete_def cache_def fGet_def numeral_2_eq_2)
qed

lemma racing_read_brings_old_secret_back_witness:
  "\<exists>f f1. runEvents plainCrypto (linuxBox ''a1'') [EvGet ''k'', EvRun 0 True, EvDelete ''k'', EvRun 1 True, EvRun 0 True] (f, []) = (f1, []) \<and>
     fst (fGet plainCrypto ''k'' f1) = Inr (Some ''old'') \<and> secrets plainCrypto (fcHeap f1 ! 0) ''k'' = None"
proof -
  have k: "''k'' \<noteq> sentinelKey" by (simp add: sentinelKey_def)
  obtain v w where v: "implements plainCrypto ''pw'' (v, w) ([''k'' \<mapsto> ''old''], [''k'' \<mapsto> ''old''])"
    using vault_with [of "[(True, PutOp ''k'' ''old'')]"] k by auto
  show ?thesis
    using racing_read_brings_old_secret_back [OF plainCrypto_OK(1), of "''pw''" "opened v w" 0 "''k''" "''old''" "''new''" "linuxBox ''a1''"]
      opened_open [OF v] k by auto
qed

lemma locked_vault_holds_no_secret_witness:
  "\<exists>f ps. runEvents plainCrypto (linuxBox ''a1'')
        [EvInit True ''pw'' False, EvPut ''k'' ''s'', EvLock False, EvRun 0 True, EvPutEphemeral ''t'' ''u'']
        (NewVault \<lparr>vwDisk = None, vwRand = 0\<rparr> None, []) = (f, ps) \<and> fcMem f ''k'' = None"
proof -
  let ?evs = "[EvInit True ''pw'' False, EvPut ''k'' ''s'', EvLock False, EvRun 0 True, EvPutEphemeral ''t'' ''u'']"
  let ?w = "\<lparr>vwDisk = None, vwRand = 0\<rparr>"
  obtain v w where i: "InitVault plainCrypto True ''pw'' ?w = (Inr v, w)"
    by (simp add: InitVault_def freshKDFParams_def readRand_def deriveKey_def b64_roundtrip encrypt_def NewX_def
        flush_def plainCrypto_def)
  obtain f ps where r: "runEvents plainCrypto (linuxBox ''a1'') ?evs (NewVault ?w None, []) = (f, ps)" by fastforce
  obtain e f1 where p: "filePut plainCrypto True ''k'' ''s'' 0
      \<lparr>fcMem = Map.empty, fcFile = None, fcHeap = [v], fcWorld = w, fcSide = None\<rparr> = (e, f1)" by fastforce
  have "fcFile f = None"
    using r i p filePut_mem [OF p]
    by (auto simp: runEvents_def fInit_def NewVault_def alloc_def fLock_def fPutEphemeral_def split: option.splits)
  then have "dom (fcMem f) \<subseteq> {''t''}" using locked_vault_holds_no_secret [OF r] by (simp add: ephSince_def)
  then show ?thesis using r by (auto simp: dom_def)
qed

end
