(* ===== verification/McpOpen.thy ===== *)
theory McpOpen
  imports SensitiveGuard Utf8
begin

text \<open>
  Which hosts a language model may find and open, \<open>app_mcp.go\<close>: the gate before an open, which expands the
  jump chain with a lookup that notes every connection it reads, and the listing. The connection an
  inventory entry stands for is an argument, as are the two variables \<open>JumpRefs\<close> takes from the app.
\<close>

section \<open>The gate\<close>

text \<open>
  \<open>expandChain\<close> with a lookup that sets a flag on a connection \<open>noted\<close> holds of: the flag, and the result.
\<close>

partial_function (option) expandNoting ::
  "(connection \<Rightarrow> bool) \<Rightarrow> folder list \<Rightarrow> connLookup \<Rightarrow> jumpHostSpec option \<Rightarrow> jumpHostSpec list \<Rightarrow> string option \<Rightarrow>
   string set \<Rightarrow> string set \<Rightarrow> (bool \<times> (jumpError + jumpHostSpec list \<times> string option)) option" where
  "expandNoting noted folders lookup cur hops firstNet path owner =
     (case cur of
        None \<Rightarrow> Some (False, Inr (hops, firstNet))
      | Some h \<Rightarrow>
        (case jConnectionID h of
           None \<Rightarrow> expandNoting noted folders lookup (jVia h) (hops @ [setVia None h]) firstNet path owner
         | Some rid \<Rightarrow>
             if rid = [] then Some (False, Inl NonePicked)
             else if rid \<in> owner then Some (False, Inr (hops, firstNet))
             else (case lookup rid of
                 Inl e \<Rightarrow> Some (False, Inl e)
               | Inr c \<Rightarrow>
                   if rid \<in> path then Some (noted c, Inl (LoopsBack (cName c)))
                   else Option.bind
                     (if hops = []
                      then expandNoting noted folders lookup (rJumpHost (ResolveWith c folders)) [] None (insert rid path) {rid}
                      else Some (False, Inr ([], None)))
                     (\<lambda>(s1, r). case r of
                          Inl e \<Rightarrow> Some (noted c \<or> s1, Inl e)
                        | Inr (sub, subNet) \<Rightarrow>
                            Option.bind
                              (expandNoting noted folders lookup (jVia h)
                                 (hops @ map (defaultLogin (ResolveWith c folders)) sub @
                                   [connectionHop (ResolveWith c folders) (cName c)])
                                 (if hops = [] then firstHopNet (ResolveWith c folders) subNet else firstNet)
                                 path owner)
                              (\<lambda>(s2, r2). Some (noted c \<or> s1 \<or> s2, r2))))))"

text \<open>What the gate reads: the folders, the saved connections and what an inventory entry stands for.\<close>

record openEnv =
  oeFolders :: "folder list option"        \<comment> \<open>\<open>ListFolders\<close>, \<open>None\<close> when it fails\<close>
  oeConn :: "string \<Rightarrow> connection option"    \<comment> \<open>\<open>GetConnection\<close>\<close>
  oeDynamic :: "string \<Rightarrow> connection option" \<comment> \<open>by entry id\<close>
  oeHostLookup :: "connLookup option"
  oeSelfRef :: "(string \<Rightarrow> string) option"

definition openTarget :: "openEnv \<Rightarrow> string \<Rightarrow> connection option" where
  "openTarget env connectionID =
     (case CutPrefix connectionID ''dyn:'' of
        Some entryID \<Rightarrow> map_option (\<lambda>c. c\<lparr>cID := connectionID\<rparr>) (oeDynamic env entryID)
      | None \<Rightarrow> oeConn env connectionID)"

text \<open>Whether the target, and whether a connection its chain reads, is sensitive; \<open>Inl\<close> when the folders cannot be read.\<close>

definition sensitiveState :: "openEnv \<Rightarrow> string \<Rightarrow> (unit + bool \<times> bool) option" where
  "sensitiveState env connectionID =
     (case oeFolders env of None \<Rightarrow> Some (Inl ())
      | Some folders \<Rightarrow>
          (case openTarget env connectionID of None \<Rightarrow> Some (Inr (False, False))
           | Some conn \<Rightarrow>
               (let rs = ResolveWith conn folders
                in if \<not> HasJumpRefs (rJumpHost rs) then Some (Inr (rSensitive rs, False))
                   else Option.bind
                     (expandNoting (\<lambda>c. connSensitive c folders) folders (DBLookup (oeHostLookup env) (oeConn env))
                        (rJumpHost rs) [] None (selfNames (oeSelfRef env) (cID conn)) (selfNames (oeSelfRef env) (cID conn)))
                     (\<lambda>(chain, _). Some (Inr (rSensitive rs, chain))))))"

datatype openRefusal = CannotTell | SensitiveTarget | SensitiveChain

definition llmSensitiveRefusal :: "openEnv \<Rightarrow> string \<Rightarrow> openRefusal option option" where
  "llmSensitiveRefusal env connectionID =
     map_option (\<lambda>r. case r of Inl _ \<Rightarrow> Some CannotTell
        | Inr (target, chain) \<Rightarrow> if target then Some SensitiveTarget else if chain then Some SensitiveChain else None)
       (sensitiveState env connectionID)"

definition jumpsThroughSensitive :: "openEnv \<Rightarrow> string \<Rightarrow> bool option" where
  "jumpsThroughSensitive env connectionID =
     map_option (\<lambda>r. case r of Inl _ \<Rightarrow> True | Inr (_, chain) \<Rightarrow> chain) (sensitiveState env connectionID)"

text \<open>Why a host stays out of gathered facts, empty when it may be asked.\<close>

definition factsSensitiveSkip :: "openEnv \<Rightarrow> string \<Rightarrow> string option" where
  "factsSensitiveSkip env cid =
     map_option (\<lambda>r. case r of None \<Rightarrow> []
        | Some SensitiveTarget \<Rightarrow> '': marked sensitive''
        | Some SensitiveChain \<Rightarrow> '': its jump chain goes through a sensitive connection''
        | Some CannotTell \<Rightarrow> '': cannot tell whether it is sensitive'') (llmSensitiveRefusal env cid)"

section \<open>The noting expansion\<close>

text \<open>The store without its sensitive connections.\<close>

definition without :: "(connection \<Rightarrow> bool) \<Rightarrow> connLookup \<Rightarrow> connLookup" where
  "without noted lookup rid = (case lookup rid of Inl e \<Rightarrow> Inl e | Inr c \<Rightarrow> if noted c then Inl (DeletedRef rid) else Inr c)"

text \<open>The result is the connect's; without a noted connection in the store it would be the same.\<close>

lemma expandNoting_sound:
  assumes "expandNoting noted fs lk cur hops net path owner = Some y"
  shows "expandChain fs lk cur hops net path owner = Some (snd y) \<and>
    (\<not> fst y \<longrightarrow> expandChain fs (without noted lk) cur hops net path owner = Some (snd y))"
proof (rule expandNoting.raw_induct [where P = "\<lambda>noted fs lk cur hops net path owner y.
    expandChain fs lk cur hops net path owner = Some (snd y) \<and>
    (\<not> fst y \<longrightarrow> expandChain fs (without noted lk) cur hops net path owner = Some (snd y))", OF _ assms], goal_cases)
  case (1 f noted fs lk cur hops net path owner y)
  note IH = 1(1) and run = 1(2)
  show ?case
  proof (cases cur)
    case None
    then show ?thesis using run by (auto simp: expandChain_Nil)
  next
    case (Some h)
    show ?thesis
    proof (cases "jConnectionID h")
      case None
      then show ?thesis using Some run IH by (auto simp: expandChain_plain)
    next
      case rid: (Some rid)
      show ?thesis
      proof (cases "rid = [] \<or> rid \<in> owner")
        case True
        then show ?thesis using run Some rid
          by (subst (1 2) expandChain.simps) (auto split: if_splits)
      next
        case False
        show ?thesis
        proof (cases "lk rid")
          case (Inl e)
          then have "without noted lk rid = Inl e" by (simp add: without_def)
          then show ?thesis using run Some rid False Inl by (auto simp: expandChain_error)
        next
          case (Inr c)
          have w: "without noted lk rid = (if noted c then Inl (DeletedRef rid) else Inr c)" using Inr by (simp add: without_def)
          show ?thesis
          proof (cases "rid \<in> path")
            case True
            then show ?thesis using run Some rid False Inr w by (auto simp: expandChain_loop)
          next
            case np: False
            show ?thesis
            proof (cases "hops = []")
              case True
              then obtain s1 r where sub: "f noted fs lk (rJumpHost (ResolveWith c fs)) [] None (insert rid path) {rid} = Some (s1, r)"
                using run Some rid False Inr np by (auto simp: bind_eq_Some_conv)
              note ihs = IH [OF sub]
              show ?thesis
              proof (cases r)
                case (Inl e)
                then show ?thesis using run Some rid False Inr np True sub ihs w
                  by (auto simp: expandChain_nested_error)
              next
                case (Inr v)
                obtain sub' subNet where v: "v = (sub', subNet)" by (cases v)
                then obtain s2 r2 where nxt: "f noted fs lk (jVia h)
                     (map (defaultLogin (ResolveWith c fs)) sub' @ [connectionHop (ResolveWith c fs) (cName c)])
                     (firstHopNet (ResolveWith c fs) subNet) path owner = Some (s2, r2)" "y = (noted c \<or> s1 \<or> s2, r2)"
                  using run Some rid False \<open>lk rid = Inr c\<close> np True sub Inr by (auto simp: bind_eq_Some_conv)
                show ?thesis using IH [OF nxt(1)] ihs Some rid False \<open>lk rid = Inr c\<close> np True Inr v w nxt(2)
                  by (auto simp: expandChain_nested)
              qed
            next
              case nh: False
              then obtain s2 r2 where nxt: "f noted fs lk (jVia h) (hops @ [connectionHop (ResolveWith c fs) (cName c)]) net path owner
                  = Some (s2, r2)" "y = (noted c \<or> s2, r2)"
                using run Some rid False Inr np by (auto simp: bind_eq_Some_conv)
              show ?thesis using IH [OF nxt(1)] Some rid False Inr np nh w nxt(2) by (auto simp: expandChain_routed)
            qed
          qed
        qed
      qed
    qed
  qed
qed

lemma expandNoting_returns:
  assumes "expandChain fs lk cur hops net path owner = Some r"
  shows "\<exists>s. expandNoting noted fs lk cur hops net path owner = Some (s, r)"
proof (rule expandChain.raw_induct [where P = "\<lambda>fs lk cur hops net path owner r.
    \<exists>s. expandNoting noted fs lk cur hops net path owner = Some (s, r)", OF _ assms], goal_cases)
  case (1 f fs lk cur hops net path owner r)
  note IH = 1(1) and run = 1(2)
  show ?case
  proof (cases cur)
    case None
    then show ?thesis using run by (subst expandNoting.simps) auto
  next
    case (Some h)
    show ?thesis
    proof (cases "jConnectionID h")
      case None
      then show ?thesis using Some run IH by (subst expandNoting.simps) simp
    next
      case rid: (Some rid)
      show ?thesis
      proof (cases "rid = [] \<or> rid \<in> owner \<or> rid \<in> path \<or> (\<exists>e. lk rid = Inl e)")
        case True
        then show ?thesis using run Some rid
          by (subst expandNoting.simps) (auto split: if_splits sum.splits)
      next
        case False
        then obtain c where c: "lk rid = Inr c" "rid \<noteq> []" "rid \<notin> owner" "rid \<notin> path" by (cases "lk rid") auto
        let ?sub = "if hops = [] then f fs lk (rJumpHost (ResolveWith c fs)) [] None (insert rid path) {rid} else Some (Inr ([], None))"
        obtain q where q: "?sub = Some q" using run Some rid c by (cases ?sub) auto
        have "\<exists>s1. (if hops = [] then expandNoting noted fs lk (rJumpHost (ResolveWith c fs)) [] None (insert rid path) {rid}
            else Some (False, Inr ([], None))) = Some (s1, q)"
        proof (cases "hops = []")
          case True
          then show ?thesis using IH q by simp
        qed (use q in auto)
        then obtain s1 where s1: "(if hops = [] then expandNoting noted fs lk (rJumpHost (ResolveWith c fs)) [] None (insert rid path) {rid}
            else Some (False, Inr ([], None))) = Some (s1, q)" by blast
        show ?thesis
        proof (cases q)
          case (Inl e)
          then show ?thesis using run Some rid c q s1 by (subst expandNoting.simps) auto
        next
          case (Inr v)
          obtain sub subNet where v: "v = (sub, subNet)" by (cases v)
          let ?rs = "ResolveWith c fs"
          have "f fs lk (jVia h) (hops @ map (defaultLogin ?rs) sub @ [connectionHop ?rs (cName c)])
              (if hops = [] then firstHopNet ?rs subNet else net) path owner = Some r"
            using run Some rid c q Inr v by simp
          from IH [OF this] obtain s2 where "expandNoting noted fs lk (jVia h) (hops @ map (defaultLogin ?rs) sub @ [connectionHop ?rs (cName c)])
              (if hops = [] then firstHopNet ?rs subNet else net) path owner = Some (s2, r)" by blast
          then show ?thesis using Some rid c s1 Inr v by (subst expandNoting.simps) simp
        qed
      qed
    qed
  qed
qed

section \<open>What the gate lets through\<close>

text \<open>The settings a connect dials with, of a saved connection or of an inventory entry.\<close>

definition connectSettings :: "openEnv \<Rightarrow> string \<Rightarrow> (resolveError + resolvedSettings) option" where
  "connectSettings env cid =
     (case CutPrefix cid ''dyn:'' of
        None \<Rightarrow> ResolveConnection (oeSelfRef env) (oeHostLookup env) (oeConn env) (oeFolders env) cid
      | Some e \<Rightarrow>
          (case openTarget env cid of None \<Rightarrow> Some (Inl GetConnectionError)
           | Some conn \<Rightarrow>
               (case oeFolders env of None \<Rightarrow> Some (Inl ListFoldersError)
                | Some folders \<Rightarrow> map_option (map_sum JumpFailed (\<lambda>rs. rs))
                    (ResolveWithRefs (oeSelfRef env) conn folders (DBLookup (oeHostLookup env) (oeConn env))))))"

text \<open>The same store without the connections that resolve sensitive.\<close>

definition hideSensitive :: "folder list \<Rightarrow> openEnv \<Rightarrow> openEnv" where
  "hideSensitive folders env =
     (let keep = (\<lambda>r. case r of None \<Rightarrow> None | Some c \<Rightarrow> if connSensitive c folders then None else Some c)
      in env\<lparr>oeConn := (\<lambda>i. keep (oeConn env i)), oeDynamic := (\<lambda>i. keep (oeDynamic env i)),
             oeHostLookup := map_option (without (\<lambda>c. connSensitive c folders)) (oeHostLookup env)\<rparr>)"

lemma DBLookup_hide: "DBLookup (oeHostLookup (hideSensitive fs env)) (oeConn (hideSensitive fs env)) =
    without (\<lambda>c. connSensitive c fs) (DBLookup (oeHostLookup env) (oeConn env))"
  by (rule ext) (auto simp: DBLookup_def hideSensitive_def Let_def without_def lookupDynamic_def split: option.splits sum.splits)

lemma connSensitive_cID: "connSensitive (c\<lparr>cID := i\<rparr>) fs = connSensitive c fs"
  by (simp add: connSensitive_def ResolveWith_def)

lemma openTarget_hide:
  "openTarget env cid = Some c \<Longrightarrow> \<not> connSensitive c fs \<Longrightarrow> openTarget (hideSensitive fs env) cid = Some c"
  by (auto simp: openTarget_def hideSensitive_def Let_def connSensitive_cID split: option.splits)

text \<open>A gate that passes: the target is not sensitive, and its chain expands the same without the sensitive connections.\<close>

lemma passed_expands_same:
  assumes "llmSensitiveRefusal env cid = Some None" "oeFolders env = Some fs" "openTarget env cid = Some conn"
  shows "\<not> connSensitive conn fs \<and>
    ExpandJumpRefs (oeSelfRef env) (ResolveWith conn fs) (cID conn) fs (DBLookup (oeHostLookup env) (oeConn env)) =
    ExpandJumpRefs (oeSelfRef env) (ResolveWith conn fs) (cID conn) fs
      (without (\<lambda>c. connSensitive c fs) (DBLookup (oeHostLookup env) (oeConn env)))"
proof -
  let ?lk = "DBLookup (oeHostLookup env) (oeConn env)" and ?self = "selfNames (oeSelfRef env) (cID conn)"
  let ?rs = "ResolveWith conn fs"
  show ?thesis
  proof (cases "HasJumpRefs (rJumpHost ?rs)")
    case False
    then show ?thesis using assms
      by (auto simp: llmSensitiveRefusal_def sensitiveState_def ExpandJumpRefs_def connSensitive_def split: if_splits)
  next
    case True
    then obtain s r where e: "expandNoting (\<lambda>c. connSensitive c fs) fs ?lk (rJumpHost ?rs) [] None ?self ?self = Some (s, r)"
        "\<not> s" "\<not> rSensitive ?rs"
      using assms by (auto simp: llmSensitiveRefusal_def sensitiveState_def Let_def bind_eq_Some_conv split: if_splits)
    then show ?thesis using expandNoting_sound [OF e(1)] True by (simp add: ExpandJumpRefs_def connSensitive_def)
  qed
qed

text \<open>C10: what the gate lets a language model open is dialled the same as if no sensitive connection were stored: none
  is the target, and none gives the route a hop, a login or a network profile.\<close>

theorem llm_opens_nothing_sensitive:
  assumes "llmSensitiveRefusal env cid = Some None" "oeFolders env = Some folders"
  shows "connectSettings env cid = connectSettings (hideSensitive folders env) cid"
proof (cases "openTarget env cid")
  case None
  then have "openTarget (hideSensitive folders env) cid = None"
    by (auto simp: openTarget_def hideSensitive_def Let_def split: option.splits)
  then show ?thesis using None
    by (auto simp: connectSettings_def ResolveConnection_def openTarget_def split: option.splits)
next
  case (Some conn)
  note same = passed_expands_same [OF assms Some]
  have hid: "openTarget (hideSensitive folders env) cid = Some conn" using openTarget_hide [OF Some] same by blast
  have env: "oeFolders (hideSensitive folders env) = Some folders" "oeSelfRef (hideSensitive folders env) = oeSelfRef env"
    using assms(2) by (simp_all add: hideSensitive_def Let_def)
  show ?thesis
  proof (cases "CutPrefix cid ''dyn:''")
    case None
    then have "oeConn env cid = Some conn" "oeConn (hideSensitive folders env) cid = Some conn"
      using Some hid by (simp_all add: openTarget_def)
    then show ?thesis using None same assms(2) env by (simp add: connectSettings_def ResolveConnection_def DBLookup_hide)
  next
    case (Some e)
    then show ?thesis using \<open>openTarget env cid = Some conn\<close> hid same assms(2) env
      by (simp add: connectSettings_def ResolveWithRefs_def DBLookup_hide)
  qed
qed

text \<open>The gate always answers, whatever the stored chains hold.\<close>

lemma gate_answers:
  assumes "finite {rid. \<exists>c. DBLookup (oeHostLookup env) (oeConn env) rid = Inr c}"
  shows "llmSensitiveRefusal env cid \<noteq> None"
proof -
  have ex: "\<exists>s r. expandNoting noted fs (DBLookup (oeHostLookup env) (oeConn env)) cur [] None self own = Some (s, r)" for noted fs cur self own
  proof -
    obtain r where "expandChain fs (DBLookup (oeHostLookup env) (oeConn env)) cur [] None self own = Some r"
      using finite_lookup.expand_returns [OF finite_lookup.intro [OF assms]] by blast
    then show ?thesis using expandNoting_returns by blast
  qed
  have "sensitiveState env cid \<noteq> None"
  proof (cases "oeFolders env")
    case (Some fs)
    show ?thesis
    proof (cases "openTarget env cid")
      case target: (Some conn)
      obtain s r where "expandNoting (\<lambda>c. connSensitive c fs) fs (DBLookup (oeHostLookup env) (oeConn env)) (rJumpHost (ResolveWith conn fs)) []
          None (selfNames (oeSelfRef env) (cID conn)) (selfNames (oeSelfRef env) (cID conn)) = Some (s, r)" using ex by blast
      then show ?thesis using Some target by (simp add: sensitiveState_def Let_def)
    qed (simp add: sensitiveState_def Some)
  qed (simp add: sensitiveState_def)
  then show ?thesis by (simp add: llmSensitiveRefusal_def)
qed

definition oneHost :: openEnv where
  "oneHost = \<lparr>oeFolders = Some [], oeConn = [''web'' \<mapsto> hostNamed ''web'' ''10.0.0.1''], oeDynamic = Map.empty,
     oeHostLookup = None, oeSelfRef = None\<rparr>"

lemma oneHost_conn: "oeConn oneHost ''web'' = Some (hostNamed ''web'' ''10.0.0.1'')"
  by (simp add: oneHost_def)

lemma oneHost_passes: "llmSensitiveRefusal oneHost ''web'' = Some None"
  by (simp add: llmSensitiveRefusal_def sensitiveState_def openTarget_def CutPrefix_def HasJumpRefs_def Let_def oneHost_def
      finalize_def mergeSettings_def noSettings_def firstNonNil_def effectiveJump_def setTrue_def)

lemma llm_opens_nothing_sensitive_witness:
  "connectSettings oneHost ''web'' = connectSettings (hideSensitive [] oneHost) ''web''"
  by (rule llm_opens_nothing_sensitive [OF oneHost_passes]) (simp add: oneHost_def)

section \<open>Finding a host\<close>

text \<open>
  The path of a folder, the names above it joined by slashes. The source caches paths as it goes, which
  changes nothing unless a chain of parents is longer than its bound.
\<close>

fun pathFrom :: "(string \<rightharpoonup> folder) \<Rightarrow> nat \<Rightarrow> string \<Rightarrow> string" where
  "pathFrom byID 0 fid = []"
| "pathFrom byID (Suc k) fid =
     (case byID fid of None \<Rightarrow> []
      | Some f \<Rightarrow>
          (case fParentID f of None \<Rightarrow> fName f
           | Some p \<Rightarrow> if p = [] then fName f
               else let parent = pathFrom byID k p in if parent \<noteq> [] then parent @ ''/'' @ fName f else fName f))"

definition folderPath :: "folder list option \<Rightarrow> string \<Rightarrow> string" where
  "folderPath foldersRead fid = (case foldersRead of None \<Rightarrow> [] | Some fs \<Rightarrow> pathFrom (folderIndex fs) 65 fid)"

definition mcpDbTargets :: "resolvedSettings \<Rightarrow> (string \<times> string) list" where
  "mcpDbTargets r = (if \<not> rDbEnabled r then []
     else map (\<lambda>t. (tID t, if tName t = [] then valueOr (tDatabase t) [] else tName t)) (rDbTargets r))"

record connectionInfo =
  ciID :: string
  ciName :: string
  ciFolder :: string
  ciDynamic :: bool
  ciKafka :: bool
  ciDb :: bool
  ciTargets :: "(string \<times> string) list"

text \<open>What the listing reads of the inventory: the folders, and a folder's entries as id and name.\<close>

record inventoryEnv =
  ieFolders :: "string list option"
  ieEntries :: "string \<Rightarrow> (string \<times> string) list option"

definition matchesQuery :: "unicodeTables \<Rightarrow> string \<Rightarrow> string \<Rightarrow> string \<Rightarrow> bool" where
  "matchesQuery ut query name folder \<longleftrightarrow>
     (let q = ToLower ut (TrimSpace query) in q = [] \<or> Contains (ToLower ut name) q \<or> Contains (ToLower ut folder) q)"

definition mcpListConnections :: "unicodeTables \<Rightarrow> string \<Rightarrow> connection list option \<Rightarrow> folder list option \<Rightarrow> inventoryEnv \<Rightarrow>
    connectionInfo list option" where
  "mcpListConnections ut query connsRead foldersRead iv =
     (case connsRead of None \<Rightarrow> None
      | Some conns \<Rightarrow>
     (case foldersRead of None \<Rightarrow> None
      | Some folders \<Rightarrow>
          let folderOf = (\<lambda>c. case cFolderID c of None \<Rightarrow> [] | Some f \<Rightarrow> folderPath foldersRead f);
              saved = concat (map (\<lambda>c.
                if connSensitive c folders then []
                else if \<not> matchesQuery ut query (cName c) (folderOf c) then []
                else let r = ResolveWith c folders
                     in [\<lparr>ciID = cID c, ciName = cName c, ciFolder = folderOf c, ciDynamic = False, ciKafka = rKafkaEnabled r,
                          ciDb = rDbEnabled r, ciTargets = mcpDbTargets r\<rparr>]) conns);
              dynamic = (case ieFolders iv of None \<Rightarrow> []
                | Some dfs \<Rightarrow> concat (map (\<lambda>df.
                    if folderSensitive df folders then []
                    else (case ieEntries iv df of None \<Rightarrow> []
                          | Some es \<Rightarrow> concat (map (\<lambda>(eid, ename).
                              if \<not> matchesQuery ut query ename (folderPath foldersRead df) then []
                              else [\<lparr>ciID = ''dyn:'' @ df @ '':'' @ eid, ciName = ename, ciFolder = folderPath foldersRead df,
                                     ciDynamic = True, ciKafka = False, ciDb = False, ciTargets = []\<rparr>]) es))) dfs))
          in Some (saved @ dynamic)))"

section \<open>Gathering facts\<close>

text \<open>A host of the approval: its id, its name and its folder's path; a reason not to offer one.\<close>

type_synonym factHost = "string \<times> string \<times> string"

record factEntry =
  fnID :: string
  fnName :: string
  fnStopped :: bool

text \<open>A host, or why it is left out; \<open>None\<close> when the gate does not answer.\<close>

type_synonym factOffer = "(string list + factHost) option"

definition offerIf :: "openEnv \<Rightarrow> string \<Rightarrow> string \<Rightarrow> string \<Rightarrow> factOffer" where
  "offerIf env cid name path =
     map_option (\<lambda>why. if why \<noteq> [] then Inl [name @ why] else Inr (cid, name, path)) (factsSensitiveSkip env cid)"

fun gatherAll :: "factOffer list \<Rightarrow> (factHost list \<times> string list) option" where
  "gatherAll [] = Some ([], [])"
| "gatherAll (None # rs) = None"
| "gatherAll (Some (Inl sk) # rs) = map_option (apsnd ((@) sk)) (gatherAll rs)"
| "gatherAll (Some (Inr h) # rs) = map_option (apfst ((#) h)) (gatherAll rs)"

definition sshProtocol :: "connection \<Rightarrow> bool" where
  "sshProtocol c \<longleftrightarrow> cProtocol c = [] \<or> cProtocol c = ''ssh''"

text \<open>The hosts under a folder: saved connections, then those of the inventory.\<close>

definition savedOffers :: "openEnv \<Rightarrow> folder list \<Rightarrow> connection list \<Rightarrow> string list \<Rightarrow> factOffer list" where
  "savedOffers env folders conns seen =
     map (\<lambda>c. offerIf env (cID c) (cName c) (folderPath (Some folders) (valueOr (cFolderID c) [])))
       (filter (\<lambda>c. (case cFolderID c of None \<Rightarrow> False | Some f \<Rightarrow> f \<in> set seen) \<and> sshProtocol c) conns)"

definition dynamicOffers :: "openEnv \<Rightarrow> folder list \<Rightarrow> string list \<Rightarrow> (string \<Rightarrow> factEntry list option) \<Rightarrow> string list \<Rightarrow> factOffer list" where
  "dynamicOffers env folders dfs entries seen =
     concat (map (\<lambda>df.
         if folderSensitive df folders then [Some (Inl [folderPath (Some folders) df @ '': marked sensitive''])]
         else (case entries df of None \<Rightarrow> []
               | Some es \<Rightarrow> map (\<lambda>e. offerIf env (''dyn:'' @ fnID e) (fnName e) (folderPath (Some folders) df))
                   (filter (\<lambda>e. \<not> fnStopped e) es)))
       (filter (\<lambda>df. df \<in> set seen) dfs))"

text \<open>\<open>Inl\<close> when the store cannot be read.\<close>

definition folderFactHosts :: "openEnv \<Rightarrow> connection list option \<Rightarrow> string list option \<Rightarrow> (string \<Rightarrow> factEntry list option) \<Rightarrow> string \<Rightarrow>
    (unit + factHost list \<times> string list) option" where
  "folderFactHosts env connsRead dynFolders entries fid =
     (case (oeFolders env, connsRead) of
        (Some folders, Some conns) \<Rightarrow>
          (let seen = growUnder folders [fid]
           in map_option Inr (gatherAll (savedOffers env folders conns seen
                @ dynamicOffers env folders (valueOr dynFolders []) entries seen)))
      | _ \<Rightarrow> Some (Inl ()))"

text \<open>The host an id names; \<open>entry\<close> gives an inventory entry's id, name and folder.\<close>

definition factEntryID :: "string \<Rightarrow> string" where
  "factEntryID rest = (case Cut rest '':'' of (_, e, ok) \<Rightarrow> if ok then e else rest)"

definition sshOnly :: "connection \<Rightarrow> string list + factHost \<Rightarrow> string list + factHost" where
  "sshOnly c r = (case r of Inl sk \<Rightarrow> Inl sk
     | Inr h \<Rightarrow> if sshProtocol c then Inr h else Inl [cName c @ '': not an SSH connection''])"

definition idOffer :: "openEnv \<Rightarrow> (string \<Rightarrow> (string \<times> string \<times> string) option) \<Rightarrow> string \<Rightarrow> factOffer" where
  "idOffer env entry i =
     (case CutPrefix i ''dyn:'' of
        Some rest \<Rightarrow>
          (case entry (factEntryID rest) of None \<Rightarrow> Some (Inl [i @ '': not found''])
           | Some (eid, ename, efolder) \<Rightarrow> offerIf env (''dyn:'' @ eid) ename (folderPath (oeFolders env) efolder))
      | None \<Rightarrow>
          (case oeConn env i of None \<Rightarrow> Some (Inl [i @ '': not found''])
           | Some c \<Rightarrow>
               map_option (sshOnly c)
                 (offerIf env (cID c) (cName c) (case cFolderID c of None \<Rightarrow> [] | Some f \<Rightarrow> folderPath (oeFolders env) f))))"

fun idFactHosts :: "openEnv \<Rightarrow> (string \<Rightarrow> (string \<times> string \<times> string) option) \<Rightarrow> string list \<Rightarrow> string list \<Rightarrow>
    (factHost list \<times> string list) option" where
  "idFactHosts env entry [] seen = Some ([], [])"
| "idFactHosts env entry (i # ids) seen =
     (case idOffer env entry i of None \<Rightarrow> None
      | Some (Inl sk) \<Rightarrow> map_option (apsnd ((@) sk)) (idFactHosts env entry ids seen)
      | Some (Inr h) \<Rightarrow> if fst h \<in> set seen then idFactHosts env entry ids seen
          else map_option (apfst ((#) h)) (idFactHosts env entry ids (fst h # seen)))"

text \<open>The seconds a script may take, and the hosts asked: what the user kept of what was offered.\<close>

definition factsTimeout :: "int \<Rightarrow> int" where
  "factsTimeout t = min 300 (max 5 (if t \<le> 0 then 30 else t))"

definition factsAsked :: "factHost list \<Rightarrow> string list \<Rightarrow> string list" where
  "factsAsked hosts picked = filter (\<lambda>i. i \<in> fst ` set hosts) picked"

lemma gatherAll_hosts: "gatherAll rs = Some (hs, sk) \<Longrightarrow> h \<in> set hs \<Longrightarrow> Some (Inr h) \<in> set rs"
  by (induction rs arbitrary: hs sk rule: gatherAll.induct) auto

lemma offerIf_passed: "offerIf env cid name path = Some (Inr h) \<Longrightarrow> h = (cid, name, path) \<and> llmSensitiveRefusal env cid = Some None"
proof (cases "llmSensitiveRefusal env cid")
  case (Some r)
  assume "offerIf env cid name path = Some (Inr h)"
  then show ?thesis using Some
    by (cases r; cases "the r") (auto simp: offerIf_def factsSensitiveSkip_def)
qed (simp add: offerIf_def factsSensitiveSkip_def)

lemma sshOnly_Inr: "sshOnly c r = Inr h \<longleftrightarrow> r = Inr h \<and> sshProtocol c"
  by (cases r) (auto simp: sshOnly_def)

lemma idOffer_passed: "idOffer env entry i = Some (Inr h) \<Longrightarrow> llmSensitiveRefusal env (fst h) = Some None"
  by (auto simp: idOffer_def sshOnly_Inr split: option.splits dest!: offerIf_passed)

lemma idFactHosts_passed: "idFactHosts env entry ids seen = Some (hs, sk) \<Longrightarrow> h \<in> set hs \<Longrightarrow>
    llmSensitiveRefusal env (fst h) = Some None"
proof (induction ids arbitrary: seen hs sk)
  case (Cons i ids)
  show ?case
  proof (cases "idOffer env entry i")
    case (Some r)
    then show ?thesis using Cons idOffer_passed [of env entry i] by (cases r) (auto split: if_splits)
  qed (use Cons.prems in simp)
qed simp

text \<open>facts are asked only of hosts the user kept, that were offered, and that the gate lets open.\<close>

lemma facts_ask_only_open_hosts:
  assumes "folderFactHosts env connsRead dynFolders entries fid = Some (Inr (hosts, sk)) \<or>
      idFactHosts env entry ids [] = Some (hosts, sk)"
    and "i \<in> set (factsAsked hosts picked)"
  shows "i \<in> set picked \<and> llmSensitiveRefusal env i = Some None"
proof -
  obtain h where h: "h \<in> set hosts" "fst h = i" "i \<in> set picked" using assms(2) by (auto simp: factsAsked_def)
  have "llmSensitiveRefusal env (fst h) = Some None" using assms(1)
  proof
    assume "idFactHosts env entry ids [] = Some (hosts, sk)"
    then show ?thesis using idFactHosts_passed h(1) by blast
  next
    assume f: "folderFactHosts env connsRead dynFolders entries fid = Some (Inr (hosts, sk))"
    then obtain folders conns seen dfs where "gatherAll (savedOffers env folders conns seen @ dynamicOffers env folders dfs entries seen) = Some (hosts, sk)"
      by (auto simp: folderFactHosts_def Let_def split: option.splits)
    from gatherAll_hosts [OF this h(1)] obtain c n p where "offerIf env c n p = Some (Inr h)"
      by (fastforce simp: savedOffers_def dynamicOffers_def split: if_splits option.splits)
    then show ?thesis using offerIf_passed by fastforce
  qed
  then show ?thesis using h by simp
qed


lemma facts_ask_only_open_hosts_witness:
  "\<exists>hosts sk. idFactHosts oneHost (\<lambda>_. None) [''web''] [] = Some (hosts, sk) \<and>
     ''web'' \<in> set (factsAsked hosts [''web'', ''other'']) \<and> ''web'' \<in> set [''web'', ''other''] \<and>
     llmSensitiveRefusal oneHost ''web'' = Some None"
proof -
  have c: "cID (hostNamed ''web'' ''10.0.0.1'') = ''web''" "cProtocol (hostNamed ''web'' ''10.0.0.1'') = ''ssh''"
    "cFolderID (hostNamed ''web'' ''10.0.0.1'') = None" by (simp_all add: hostNamed_def)
  have h: "idFactHosts oneHost (\<lambda>_. None) [''web''] [] = Some ([(''web'', cName (hostNamed ''web'' ''10.0.0.1''), [])], [])"
    by (simp add: oneHost_passes idOffer_def offerIf_def factsSensitiveSkip_def CutPrefix_def c sshProtocol_def oneHost_conn sshOnly_def)
  then have a: "''web'' \<in> set (factsAsked [(''web'', cName (hostNamed ''web'' ''10.0.0.1''), [])] [''web'', ''other''])"
    by (simp add: factsAsked_def)
  show ?thesis using h a facts_ask_only_open_hosts [OF disjI2 [OF h] a] by blast
qed

end
