(* ===== verification/McpFiles.thy ===== *)
theory McpFiles
  imports Utf8 Base64 "HOL-Library.Log_Nat"
begin

text \<open>
  The pure parts of the file tools, \<open>app_mcp_files.go\<close>: names made safe for the download folder and the
  destination of a download, sizes as the user reads them, and what a file or a directory looks like to
  the model. The file system is a predicate saying which paths exist; a path is taken as joined with
  slashes under a root that is clean already, so \<open>filepath.Join\<close> adds separators only.
\<close>

section \<open>Safe names\<close>

definition safeRune :: "nat \<Rightarrow> bool" where
  "safeRune r \<longleftrightarrow> r < 128 \<and> (let c = chr r in isLowerA c \<or> isUpperA c \<or> isDigitA c \<or> c \<in> {CHR ''.'', CHR ''_'', CHR ''-''})"

fun sanitizeRunes :: "nat list \<Rightarrow> string \<Rightarrow> string" where
  "sanitizeRunes [] b = b"
| "sanitizeRunes (r # rs) b =
     (let b' = b @ [if safeRune r then chr r else CHR ''_''] in if length b' \<ge> 128 then b' else sanitizeRunes rs b')"

definition mcpSanitizeSegment :: "string \<Rightarrow> string" where
  "mcpSanitizeSegment s =
     (let out = dropWhile ((=) CHR ''.'') (sanitizeRunes (runes s) []) in if out = [] then ''file'' else out)"

text \<open>\<open>path.Base\<close> and \<open>filepath.Ext\<close>, the latter on a name without separators.\<close>

definition pathBase :: "string \<Rightarrow> string" where
  "pathBase p =
     (if p = [] then ''.''
      else let q = rev (dropWhile ((=) CHR ''/'') (rev p))
           in if q = [] then ''/'' else rev (takeWhile ((\<noteq>) CHR ''/'') (rev q)))"

definition pathExt :: "string \<Rightarrow> string" where
  "pathExt name =
     (if CHR ''.'' \<in> set name then CHR ''.'' # rev (takeWhile ((\<noteq>) CHR ''.'') (rev name)) else [])"

section \<open>The destination of a download\<close>

definition downloadDir :: "string \<Rightarrow> string \<Rightarrow> string" where
  "downloadDir base0 sid = base0 @ ''/'' @ mcpSanitizeSegment sid"

text \<open>The names tried: the name itself, then with a number, 998 in all.\<close>

definition destTries :: "nat list" where "destTries = [2..<999]"

definition destNames :: "string \<Rightarrow> string list" where
  "destNames base =
     (let ext = pathExt base; stem = TrimSuffix base ext
      in base # map (\<lambda>i. stem @ ''-'' @ natDigits i @ ext) destTries)"

definition mcpDownloadDest :: "(string \<Rightarrow> bool) \<Rightarrow> string \<Rightarrow> string \<Rightarrow> string \<Rightarrow> string option" where
  "mcpDownloadDest present base0 sid remote =
     find (\<lambda>d. \<not> present d)
       (map (\<lambda>n. downloadDir base0 sid @ ''/'' @ n) (destNames (mcpSanitizeSegment (pathBase remote))))"

text \<open>A name that is one path segment, not hidden, and neither \<open>.\<close> nor \<open>..\<close>.\<close>

definition safeChar :: "char \<Rightarrow> bool" where
  "safeChar c \<longleftrightarrow> isLowerA c \<or> isUpperA c \<or> isDigitA c \<or> c \<in> {CHR ''.'', CHR ''_'', CHR ''-''}"

definition safeSegment :: "string \<Rightarrow> bool" where
  "safeSegment s \<longleftrightarrow> s \<noteq> [] \<and> hd s \<noteq> CHR ''.'' \<and> list_all safeChar s"

lemma safeChar_simps [simp]: "safeChar CHR ''.''" "safeChar CHR ''_''" "safeChar CHR ''-''" "isDigitA c \<Longrightarrow> safeChar c"
  by (simp_all add: safeChar_def)

lemma safeRune_char: "safeRune r \<Longrightarrow> safeChar (chr r)"
  by (simp add: safeRune_def safeChar_def Let_def)

lemma sanitizeRunes_safe: "list_all safeChar b \<Longrightarrow> length b < 128 \<Longrightarrow>
    list_all safeChar (sanitizeRunes rs b) \<and> length (sanitizeRunes rs b) \<le> 128"
proof (induction rs b rule: sanitizeRunes.induct)
  case (2 r rs b)
  have "list_all safeChar (b @ [if safeRune r then chr r else CHR ''_''])"
    using 2(2) safeRune_char by simp
  then show ?case using 2 by (auto simp: Let_def)
qed simp

lemma sanitize_safe: "safeSegment (mcpSanitizeSegment s) \<and> length (mcpSanitizeSegment s) \<le> 128"
proof -
  let ?raw = "sanitizeRunes (runes s) []"
  let ?out = "dropWhile ((=) CHR ''.'') ?raw"
  have raw: "list_all safeChar ?raw" "length ?raw \<le> 128" using sanitizeRunes_safe [of "[]" "runes s"] by simp_all
  have "list_all safeChar ?out" using raw(1) by (metis list_all_iff set_dropWhileD)
  moreover have "length ?out \<le> 128" using raw(2) length_dropWhile_le le_trans by blast
  moreover have "?out \<noteq> [] \<Longrightarrow> hd ?out \<noteq> CHR ''.''" using hd_dropWhile [of "(=) CHR ''.''" ?raw] by auto
  ultimately show ?thesis
    by (auto simp: mcpSanitizeSegment_def safeSegment_def Let_def safeChar_def isLowerA_def byte_def)
qed

lemma safeSegment_append: "safeSegment a \<Longrightarrow> list_all safeChar b \<Longrightarrow> safeSegment (a @ b)"
  by (cases a) (auto simp: safeSegment_def)

lemma natDigits_safe: "list_all safeChar (natDigits n)"
proof (induction n rule: natDigits.induct)
  case (1 n)
  have "isDigitA (chr (48 + n mod 10))" by (simp add: isDigitA_def)
  moreover have "n < 10 \<Longrightarrow> isDigitA (chr (48 + n))" by (simp add: isDigitA_def)
  ultimately show ?case using 1 by (subst natDigits.simps) auto
qed

lemma pathExt_split: "\<exists>stem. name = stem @ pathExt name \<and> (pathExt name \<noteq> [] \<longrightarrow> hd (pathExt name) = CHR ''.'')"
proof (cases "CHR ''.'' \<in> set name")
  case True
  let ?t = "takeWhile ((\<noteq>) CHR ''.'') (rev name)" and ?d = "dropWhile ((\<noteq>) CHR ''.'') (rev name)"
  have "?d \<noteq> []" using True by (auto simp: dropWhile_eq_Nil_conv)
  then obtain d where d: "?d = CHR ''.'' # d" using hd_dropWhile [of "(\<noteq>) CHR ''.''" "rev name"] by (cases ?d) auto
  have "rev name = ?t @ CHR ''.'' # d" using takeWhile_dropWhile_id [of "(\<noteq>) CHR ''.''" "rev name"] d by simp
  then have "name = rev d @ CHR ''.'' # rev ?t" by (metis append_Cons append_assoc append_Nil rev_append rev.simps(2) rev_rev_ident)
  then show ?thesis using True by (simp add: pathExt_def) blast
qed (simp add: pathExt_def)

lemma TrimSuffix_append: "TrimSuffix (a @ b) b = a"
  by (simp add: TrimSuffix_def HasSuffix_def HasPrefix_iff)

lemma destNames_safe:
  assumes "safeSegment base"
  shows "\<forall>n \<in> set (destNames base). safeSegment n"
proof -
  obtain stem where st: "base = stem @ pathExt base" "pathExt base \<noteq> [] \<longrightarrow> hd (pathExt base) = CHR ''.''"
    using pathExt_split by blast
  have "stem \<noteq> []" using st assms by (cases stem) (auto simp: safeSegment_def)
  then have stem: "safeSegment stem" "list_all safeChar (pathExt base)"
    using assms st(1) by (metis (no_types) hd_append2 list_all_append safeSegment_def)+
  have "TrimSuffix base (pathExt base) = stem" using st(1) TrimSuffix_append by metis
  moreover have "safeSegment (stem @ ''-'' @ natDigits i @ pathExt base)" for i
    using stem natDigits_safe by (intro safeSegment_append) auto
  ultimately show ?thesis using assms unfolding destNames_def Let_def by auto
qed

text \<open>C12: a download goes to a new file two levels under the download folder, under names made of safe characters
  that are not hidden, whatever the session and the remote path are called.\<close>

theorem download_stays_in_folder:
  assumes "mcpDownloadDest present base0 sid remote = Some dest"
  shows "\<exists>dir name. dest = base0 @ ''/'' @ dir @ ''/'' @ name \<and> safeSegment dir \<and> safeSegment name \<and> \<not> present dest"
proof -
  have "dest \<in> set (map (\<lambda>n. downloadDir base0 sid @ ''/'' @ n) (destNames (mcpSanitizeSegment (pathBase remote)))) \<and> \<not> present dest"
    using assms unfolding mcpDownloadDest_def find_Some_iff by (metis nth_mem)
  then obtain n where n: "n \<in> set (destNames (mcpSanitizeSegment (pathBase remote)))"
      "dest = downloadDir base0 sid @ ''/'' @ n" "\<not> present dest" by auto
  then have "safeSegment n" using destNames_safe sanitize_safe by blast
  then show ?thesis using n(2,3) sanitize_safe by (intro exI [of _ "mcpSanitizeSegment sid"] exI [of _ n]) (simp add: downloadDir_def)
qed

lemma download_stays_in_folder_witness:
  "\<exists>dest dir name. mcpDownloadDest (\<lambda>_. False) ''/d'' ''s1'' ''../../etc/passwd'' = Some dest \<and>
     dest = ''/d/'' @ dir @ ''/'' @ name \<and> safeSegment dir \<and> safeSegment name"
proof -
  obtain dest where d: "mcpDownloadDest (\<lambda>_. False) ''/d'' ''s1'' ''../../etc/passwd'' = Some dest"
    by (simp add: mcpDownloadDest_def destNames_def Let_def)
  then show ?thesis using download_stays_in_folder [OF d] by auto
qed

section \<open>What the model reads\<close>

text \<open>An int64 that is not negative as a float64: 53 significant bits, halves to even.\<close>

definition halfEven :: "nat \<Rightarrow> nat \<Rightarrow> nat" where
  "halfEven a b = (let q = a div b; r = a mod b in if 2 * r > b \<or> (2 * r = b \<and> odd q) then Suc q else q)"

definition toFloat :: "nat \<Rightarrow> nat" where
  "toFloat n = (if n < 2 ^ 53 then n else let u = 2 ^ (floorlog 2 n - 53) in halfEven n u * u)"

fun unitsOf :: "nat \<Rightarrow> nat \<Rightarrow> nat \<Rightarrow> nat" where
  "unitsOf 0 v e = e"
| "unitsOf (Suc k) v e = (if v \<ge> 1024 then unitsOf k (v div 1024) (Suc e) else e)"

definition mcpHumanBytes :: "int \<Rightarrow> string" where
  "mcpHumanBytes n =
     (if n < 1024 then itoaInt n @ '' B''
      else let e = unitsOf 3 (nat n div 1024) 0; t = halfEven (10 * toFloat (nat n)) (1024 ^ Suc e)
           in natDigits (t div 10) @ ''.'' @ natDigits (t mod 10) @ '' '' @ [''KMGT'' ! e] @ ''B'')"

text \<open>\<open>utf8.Valid\<close>.\<close>

function utf8Valid :: "string \<Rightarrow> bool" where
  "utf8Valid s = (if s = [] then True
     else if snd (decodeRune s) = 1 \<and> byte (hd s) \<ge> 0x80 then False
     else utf8Valid (drop (snd (decodeRune s)) s))"
  by pat_completeness auto
termination
proof (relation "measure length")
  fix s :: string
  assume "s \<noteq> []"
  then show "(drop (snd (decodeRune s)) s, s) \<in> measure length" using decodeRune_width [of s] by (cases s) auto
qed simp

declare utf8Valid.simps [simp del]

definition mcpTextPrefix :: "string \<Rightarrow> bool \<Rightarrow> string option" where
  "mcpTextPrefix data truncated =
     (if utf8Valid data then Some data
      else if \<not> truncated then None
      else map_option (\<lambda>cut. take (length data - cut) data)
             (find (\<lambda>cut. cut \<le> length data \<and> utf8Valid (take (length data - cut) data)) [1, 2, 3]))"

definition mcpReadFileDefaultCap :: int where "mcpReadFileDefaultCap = 64 * 1024"
definition mcpReadFileHardCap :: int where "mcpReadFileHardCap = 2 ^ 20"
definition mcpListFilesCap :: nat where "mcpListFilesCap = 500"

text \<open>How much of a file is read.\<close>

definition readCap :: "int \<Rightarrow> int" where
  "readCap maxBytes = min (if maxBytes \<le> 0 then mcpReadFileDefaultCap else maxBytes) mcpReadFileHardCap"

definition readFileText :: "string \<Rightarrow> int \<Rightarrow> string \<Rightarrow> string" where
  "readFileText path fsize data =
     path @ '' ('' @ mcpHumanBytes fsize @
     (if int (length data) < fsize then '', first '' @ mcpHumanBytes (int (length data)) @ '' shown - use download_file for the whole file'' else [])
     @ '')'' @ nl #
     (case mcpTextPrefix data (int (length data) < fsize) of
        Some t \<Rightarrow> ''--- BEGIN UNTRUSTED FILE CONTENT ---'' @ nl # t @ nl # ''--- END UNTRUSTED FILE CONTENT ---''
      | None \<Rightarrow> ''binary content, base64:'' @ nl # b64Encode data)"

record fileEntry =
  feMode :: string
  feSize :: int
  feTime :: string        \<comment> \<open>formatted\<close>
  feName :: string
  feIsDir :: bool
  feIsLink :: bool
  feTarget :: string

definition padLeft :: "nat \<Rightarrow> string \<Rightarrow> string" where
  "padLeft w s = replicate (w - length s) (CHR '' '') @ s"

definition listFilesText :: "string \<Rightarrow> fileEntry list \<Rightarrow> string" where
  "listFilesText path es =
     path @ '' ('' @ natDigits (length es) @ '' entries)'' @ nl #
     concat (map (\<lambda>e. feMode e @ ''  '' @ padLeft 10 (mcpHumanBytes (feSize e)) @ ''  '' @ feTime e @ ''  '' @ feName e @
         (if feIsDir e then ''/'' else if feIsLink e then '' -> '' @ feTarget e else []) @ [nl]) (take mcpListFilesCap es))
     @ (if length es > mcpListFilesCap then ''...['' @ natDigits (length es - mcpListFilesCap) @ '' more entries not shown]'' @ [nl] else [])"

lemma utf8Valid_Nil [simp]: "utf8Valid []"
  by (simp add: utf8Valid.simps)

lemma utf8Valid_step: "s \<noteq> [] \<Longrightarrow> utf8Valid s \<longleftrightarrow>
    \<not> (snd (decodeRune s) = 1 \<and> byte (hd s) \<ge> 0x80) \<and> utf8Valid (drop (snd (decodeRune s)) s)"
  by (subst utf8Valid.simps) simp

text \<open>A rune is decoded from its own bytes.\<close>

lemma decodeRune_take: "s \<noteq> [] \<Longrightarrow> snd (decodeRune s) \<noteq> 1 \<or> byte (hd s) < 0x80 \<Longrightarrow> snd (decodeRune s) \<le> n \<Longrightarrow>
    decodeRune (take n s) = decodeRune s"
  by (cases n; cases s) (auto simp: decodeRune_def Let_def take_Cons' split: list.splits if_splits)

lemma decodeRune_le4: "snd (decodeRune s) \<le> 4"
  by (auto simp: decodeRune_def Let_def split: list.splits)

lemma cut_valid: "utf8Valid t \<Longrightarrow> \<exists>cut \<le> 3. cut \<le> length (take n t) \<and> utf8Valid (take (length (take n t) - cut) t)"
proof (induction t arbitrary: n rule: utf8Valid.induct)
  case (1 t)
  show ?case
  proof (cases "t = [] \<or> n = 0")
    case False
    let ?w = "snd (decodeRune t)"
    have w: "1 \<le> ?w" "?w \<le> length t" "?w \<le> 4" using False decodeRune_width decodeRune_le4 by auto
    have ok: "\<not> (?w = 1 \<and> byte (hd t) \<ge> 0x80)" and rest: "utf8Valid (drop ?w t)"
      using utf8Valid_step [of t] 1(2) False by auto
    show ?thesis
    proof (cases "n < ?w")
      case True
      then show ?thesis using w by (intro exI [of _ n]) auto
    next
      case False
      obtain cut where cut: "cut \<le> 3" "cut \<le> length (take (n - ?w) (drop ?w t))"
          "utf8Valid (take (length (take (n - ?w) (drop ?w t)) - cut) (drop ?w t))"
        using 1(1) [of "n - ?w"] \<open>\<not> (t = [] \<or> n = 0)\<close> ok rest by auto
      let ?m = "length (take n t) - cut"
      have m: "?w \<le> ?m" "length (take (n - ?w) (drop ?w t)) - cut = ?m - ?w" using False w cut(2) by auto
      have "take ?m t \<noteq> []" using m(1) w by (cases t) auto
      moreover have "decodeRune (take ?m t) = decodeRune t" using decodeRune_take [of t ?m] ok m(1) \<open>\<not> (t = [] \<or> n = 0)\<close> by auto
      moreover have "hd (take ?m t) = hd t" using m(1) w(1) by (intro hd_take) linarith
      moreover have "drop ?w (take ?m t) = take (?m - ?w) (drop ?w t)" by (simp add: drop_take)
      ultimately have "utf8Valid (take ?m t)" using utf8Valid_step [of "take ?m t"] ok cut(3) m(2) by simp
      then show ?thesis using cut(1,2) by (intro exI [of _ cut]) auto
    qed
  qed auto
qed

text \<open>a text file read up to a cap reaches the model as text, all of it but at most three bytes of a rune that the
  cap cut.\<close>

lemma capped_text_stays_text:
  assumes "utf8Valid t" "data = take n t"
  shows "\<exists>p. mcpTextPrefix data (length data < length t) = Some p \<and> utf8Valid p \<and> prefix p data \<and> length data \<le> length p + 3"
proof (cases "utf8Valid data")
  case True
  then show ?thesis by (simp add: mcpTextPrefix_def)
next
  case False
  then have tr: "length data < length t" using assms by (cases "n < length t") auto
  let ?P = "\<lambda>cut. cut \<le> length data \<and> utf8Valid (take (length data - cut) data)"
  obtain cut where cut: "cut \<le> 3" "cut \<le> length data" "utf8Valid (take (length data - cut) t)"
    using cut_valid [OF assms(1), of n] assms(2) by auto
  have "take (length data - cut) t = take (length data - cut) data" using assms(2) by (simp add: min.absorb1)
  then have P: "?P cut" using cut by simp
  moreover have "cut \<noteq> 0" using P False by (intro notI) simp
  then have "cut \<in> set [1, 2, 3]" using cut(1) by auto
  ultimately have "find ?P [1, 2, 3] \<noteq> None" unfolding find_None_iff by blast
  then obtain c where c: "find ?P [1, 2, 3] = Some c" by blast
  then have "?P c" "c \<le> 3" by (auto split: if_splits)
  then show ?thesis using c False tr by (auto simp: mcpTextPrefix_def take_is_prefix)
qed

lemma capped_text_stays_text_witness:
  "\<exists>p. mcpTextPrefix (take 2 [CHR ''a'', chr 195, chr 169]) (length (take 2 [CHR ''a'', chr 195, chr 169]) < length [CHR ''a'', chr 195, chr 169]) = Some p \<and> utf8Valid p \<and> prefix p (take 2 [CHR ''a'', chr 195, chr 169]) \<and>
     length (take 2 [CHR ''a'', chr 195, chr 169]) \<le> length p + 3"
  by (rule capped_text_stays_text [of _ _ 2]) (code_simp, rule refl)

end
