(* ===== verification/Redaction.thy ===== *)
theory Redaction
  imports DbStatements GoRegexp
begin

text \<open>
  What is hidden in a statement before it is stored, \<open>RedactSecrets\<close> of \<open>internal/dbx/stmt.go\<close> and
  \<open>opensearch_stmt.go\<close>: comments are blanked, then regular expressions find the passwords and a
  replacement keeps what stands before them. The Redis case is \<open>rdRedact\<close> of \<open>RedisStmt\<close>.
\<close>

section \<open>Replacing every match\<close>

text \<open>\<open>ReplaceAllString\<close> with the template \<open>${1}\<close> and a constant, for expressions that match no empty text.\<close>

fun replaceFrom :: "nat \<Rightarrow> rx \<Rightarrow> string \<Rightarrow> char option \<Rightarrow> string \<Rightarrow> string" where
  "replaceFrom 0 re new pv s = s"
| "replaceFrom (Suc k) re new pv s =
     (case s of [] \<Rightarrow> []
      | c # r \<Rightarrow>
          (case ms re (pv, s, []) of [] \<Rightarrow> c # replaceFrom k re new (Some c) r
           | st # _ \<Rightarrow> grp st 1 @ new @ replaceFrom k re new (fst st) (remaining st)))"

definition ReplaceAllString :: "rx \<Rightarrow> string \<Rightarrow> string \<Rightarrow> string" where
  "ReplaceAllString re s new = replaceFrom (length s) re new None s"

section \<open>The expressions\<close>

definition notIn :: "string \<Rightarrow> rx" where
  "notIn cs = RChar (\<lambda>c. c \<notin> set cs)"

definition escaped :: rx where
  "escaped = RSeq (RChar ((=) backslash)) (RChar (\<lambda>c. c \<noteq> nl))"

text \<open>A text between two quotes \<open>q\<close> that doubles a quote, with backslash escapes when \<open>bs\<close>.\<close>

definition quotedBy :: "char \<Rightarrow> bool \<Rightarrow> rx" where
  "quotedBy q bs = seqs [RChar ((=) q),
     star (alts ((if bs then [notIn [q, backslash], escaped] else [notIn [q]]) @ [lit [q, q]])), RChar ((=) q)]"

definition secretRE :: rx where
  "secretRE = RSeq
     (RGroup 1 (alts [
        seqs [RWordB, litFold ''PASSWORD'', spaces1, litFold ''FOR'', spaces1, plusLazy (RChar (\<lambda>c. \<not> spaceA c)), spaces0, lit ''='', spaces0],
        seqs [RWordB, opt (litFold ''OLD_''), litFold ''PASSWORD'', spaces0, opt (RSeq (lit ''='') spaces0)],
        seqs [RWordB, litFold ''IDENTIFIED'', spaces1, opt (seqs [litFold ''WITH'', spaces1, nonSpaces1, spaces1]), litFold ''BY'', spaces1],
        seqs [RWordB, litFold ''REPLACE'', spaces1]]))
     (RGroup 2 (RAlt (RSeq (opt (litFold ''N'')) (quotedBy squote True)) (quotedBy dquote True)))"

text \<open>A password of Oracle or Db2: quoted, or a word.\<close>

definition bareSecret :: rx where
  "bareSecret = RGroup 2 (alts [quotedBy squote False, quotedBy dquote False,
     plus1 (RChar (\<lambda>c. \<not> spaceA c \<and> c \<notin> {CHR '';'', squote, dquote}))])"

definition oraSecretRE :: rx where
  "oraSecretRE = RSeq (RGroup 1 (seqs [RWordB, litFold ''IDENTIFIED'', spaces1, litFold ''BY'', spaces1,
     opt (RSeq (litFold ''VALUES'') spaces1)])) bareSecret"

definition oraReplaceRE :: rx where
  "oraReplaceRE = RSeq (RGroup 1 (seqs [RWordB, litFold ''IDENTIFIED'', spaces1, litFold ''BY'', spaces1,
     opt (RSeq (litFold ''VALUES'') spaces1), lit [squote, CHR ''*'', CHR ''*'', CHR ''*'', squote], spaces1,
     litFold ''REPLACE'', spaces1])) bareSecret"

definition db2SecretRE :: rx where
  "db2SecretRE = RSeq (RGroup 1 (seqs [RWordB, litFold ''USER'', spaces1, nonSpaces1, spaces1, litFold ''USING'', spaces1])) bareSecret"

definition db2RemotePasswdRE :: rx where
  "db2RemotePasswdRE = RSeq (RGroup 1 (seqs [RWordB, litFold ''REMOTE_PASSWORD'', spaces1])) (RGroup 2 (quotedBy squote False))"

definition osSecretRE :: rx where
  "osSecretRE =
     (let dq = RChar ((=) dquote); any = star (notIn [dquote]); colon = seqs [spaces0, lit '':'', spaces0] in
      seqs [RGroup 1 (RAlt
              (seqs [dq, any, alts [litFold ''password'', litFold ''passwd'', litFold ''secret'', litFold ''token'',
                 seqs [litFold ''api'', opt (lit ''_''), litFold ''key''], seqs [litFold ''access'', opt (lit ''_''), litFold ''key''],
                 seqs [litFold ''private'', opt (lit ''_''), litFold ''key''], litFold ''credentials''], any, dq, colon])
              (seqs [dq, litFold ''hash'', dq, colon])),
            dq, star (RAlt (notIn [dquote, backslash]) escaped), dq])"

section \<open>Redaction\<close>

definition starred :: string where
  "starred = [squote, CHR ''*'', CHR ''*'', CHR ''*'', squote]"

text \<open>\<open>osParseREST\<close> as a test: a console block.\<close>

definition isREST :: "unicodeTables \<Rightarrow> string \<Rightarrow> bool" where
  "isREST ut stmt = osMethodLine ut (fst (Cut (TrimSpace stmt) [nl])) 0"

definition osRedact :: "unicodeTables \<Rightarrow> string \<Rightarrow> string" where
  "osRedact ut stmt =
     (if isREST ut stmt then ReplaceAllString osSecretRE stmt [dquote, CHR ''*'', CHR ''*'', CHR ''*'', dquote]
      else ReplaceAllString secretRE (stripComments ut OpenSearch stmt) starred)"

definition RedactSecrets :: "unicodeTables \<Rightarrow> engine \<Rightarrow> string \<Rightarrow> string" where
  "RedactSecrets ut eng stmt =
     (if eng = OpenSearch then osRedact ut stmt
      else if eng = Redis then rdRedact ut stmt
      else (let out = ReplaceAllString secretRE (stripComments ut eng stmt) starred;
                ora = (if eng = Oracle then ReplaceAllString oraReplaceRE (ReplaceAllString oraSecretRE out starred) starred else out)
            in if eng = DB2 then ReplaceAllString db2RemotePasswdRE (ReplaceAllString db2SecretRE ora starred) starred else ora))"

text \<open>C0: a password between plain quotes is hidden; the same password in a Postgres escape string is not, since the
  expression lets only an \<open>N\<close> stand before the quote.\<close>

theorem escape_string_password_is_kept:
  "RedactSecrets asciiTables Postgres (''ALTER ROLE x PASSWORD '' @ squote # ''hunter2'' @ [squote]) =
     ''ALTER ROLE x PASSWORD '' @ squote # ''***'' @ [squote] \<and>
   RedactSecrets asciiTables Postgres (''ALTER ROLE x PASSWORD E'' @ squote # ''hunter2'' @ [squote]) =
     ''ALTER ROLE x PASSWORD E'' @ squote # ''hunter2'' @ [squote]"
  by code_simp

end
