(* ===== verification/McpBridge.thy ===== *)
theory McpBridge
  imports CmdAllow McpPlan McpOpen McpFiles Redaction
begin

text \<open>
  The bridge to a language model, \<open>app_mcp.go\<close> with the acting tools of \<open>app_mcp_db.go\<close>,
  \<open>app_mcp_kafka.go\<close> and \<open>app_mcp_files.go\<close>: the grants the user gives, the approvals a call waits for, the
  activity record, and the tools that open, run, type, write and download. A call that asks the user is split
  where it waits, so other calls and the user go on in between. What a host, a database or a cluster
  answers is an argument.
\<close>

section \<open>State\<close>

datatype grantLevel = GrantNone | GrantReadOnly | GrantReadRun | GrantYolo

text \<open>\<open>mcpGrantLevel(level)\<close> for the levels that may be shared.\<close>

definition shareLevel :: "string \<Rightarrow> grantLevel option" where
  "shareLevel level = map_of [(''read'', GrantReadOnly), (''read-run'', GrantReadRun), (''read-run-yolo'', GrantYolo)] level"

definition canRun :: "grantLevel \<Rightarrow> bool" where
  "canRun lvl \<longleftrightarrow> lvl = GrantReadRun \<or> lvl = GrantYolo"

datatype decision = DecideRun | DecideType | DecideDeny

record activity =
  avSeq :: nat
  avTS :: int
  avSession :: string
  avName :: string
  avKind :: string
  avCommand :: string
  avOutput :: string
  avExit :: string
  avGate :: string

text \<open>What the app knows of an open database handle and of a Kafka cluster.\<close>

record dbInfo =
  dbiName :: string
  dbiEngine :: engine
  dbiAddr :: string
  dbiDatabase :: string
  dbiReadOnly :: bool

definition engineName :: "engine \<Rightarrow> string" where
  "engineName e = (case e of Postgres \<Rightarrow> ''postgres'' | MySQL \<Rightarrow> ''mysql'' | ClickHouse \<Rightarrow> ''clickhouse'' | OpenSearch \<Rightarrow> ''opensearch''
     | Redis \<Rightarrow> ''redis'' | Oracle \<Rightarrow> ''oracle'' | MSSQL \<Rightarrow> ''mssql'' | DB2 \<Rightarrow> ''db2'' | OtherEngine n \<Rightarrow> n)"

record kafkaInfo =
  kiName :: string
  kiBootstrap :: "string list"
  kiReadOnly :: bool

text \<open>What a model may ask for, and what a call does to the outside once nothing refuses it.\<close>

datatype llmReq =
    ReqRun string string | ReqType string string | ReqDownload string string
  | ReqExecute string string string      \<comment> \<open>handle, database, script\<close>
  | ReqProduce string string "int option" "string option" "string option" "(string \<times> string) list"
  | ReqConnect string string             \<comment> \<open>connection, level\<close>
  | ReqOpenKafka string string

datatype llmAct =
    ActRun string string                 \<comment> \<open>session, command\<close>
  | ActType string string                \<comment> \<open>session, text\<close>
  | ActDownload string string int        \<comment> \<open>session, remote path, its size\<close>
  | ActExecute string string string      \<comment> \<open>handle, the database it runs on, script\<close>
  | ActProduce string string "int option" "string option" "string option" "(string \<times> string) list"
                                         \<comment> \<open>cluster, topic, partition, key, value, headers by key\<close>
  | ActOpen bool string string grantLevel \<comment> \<open>a Kafka tab, id, label, level\<close>

text \<open>What happened, newest last; only what is shown below reads it.\<close>

datatype logItem =
    LogGrant string grantLevel
  | LogGate nat string "openRefusal option option" \<comment> \<open>call, connection, what the gate answered\<close>
  | LogCall nat llmAct "string list"     \<comment> \<open>call, act, the user's own read-only commands\<close>
  | LogAsk nat string string             \<comment> \<open>call, kind, the text of the request\<close>
  | LogAnswer nat decision
  | LogDid nat llmAct string             \<comment> \<open>call, what, gate\<close>

record bridge =
  brGrants :: "string \<rightharpoonup> grantLevel"
  brManage :: bool
  brPlan :: "mcpPlan option"
  brApprovals :: "nat \<rightharpoonup> decision option"   \<comment> \<open>the one-slot channel of each pending approval\<close>
  brActivity :: "activity list"
  brSeq :: nat
  brPool :: "string set"
  brMeta :: "string \<rightharpoonup> string \<times> string"   \<comment> \<open>name and host of a session\<close>
  brKafka :: "string \<rightharpoonup> kafkaInfo"
  brDb :: "string \<rightharpoonup> dbInfo"
  brCalls :: "nat \<rightharpoonup> llmAct"                \<comment> \<open>calls that wait for an approval\<close>
  brNext :: nat
  brLog :: "logItem list"

section \<open>Grants\<close>

definition grantLevelOf :: "string \<Rightarrow> bridge \<Rightarrow> grantLevel" where
  "grantLevelOf sid b = (case brGrants b sid of None \<Rightarrow> GrantNone | Some l \<Rightarrow> l)"

definition logB :: "logItem \<Rightarrow> bridge \<Rightarrow> bridge" where
  "logB x b = b\<lparr>brLog := brLog b @ [x]\<rparr>"

datatype shareError = KafkaNotOpen | DatabaseNotOpen | SessionNotConnected | BadLevel

text \<open>\<open>McpShareSession\<close>: the checks, and the insertion under the lock.\<close>

definition shareCheck :: "string \<Rightarrow> string \<Rightarrow> bridge \<Rightarrow> shareError + grantLevel" where
  "shareCheck sid level b =
     (if HasPrefix sid ''kafka:'' \<and> brKafka b sid = None then Inl KafkaNotOpen
      else if \<not> HasPrefix sid ''kafka:'' \<and> HasPrefix sid ''db:'' \<and> brDb b sid = None then Inl DatabaseNotOpen
      else if \<not> HasPrefix sid ''kafka:'' \<and> \<not> HasPrefix sid ''db:'' \<and> sid \<notin> brPool b then Inl SessionNotConnected
      else case shareLevel level of None \<Rightarrow> Inl BadLevel | Some l \<Rightarrow> Inr l)"

definition shareInsert :: "string \<Rightarrow> grantLevel \<Rightarrow> bridge \<Rightarrow> bridge" where
  "shareInsert sid lvl b = logB (LogGrant sid lvl) (b\<lparr>brGrants := (brGrants b)(sid \<mapsto> lvl)\<rparr>)"

definition McpShareSession :: "string \<Rightarrow> string \<Rightarrow> bridge \<Rightarrow> shareError option \<times> bridge" where
  "McpShareSession sid level b =
     (case shareCheck sid level b of Inl e \<Rightarrow> (Some e, b) | Inr l \<Rightarrow> (None, shareInsert sid l b))"

definition McpUnshareSession :: "string \<Rightarrow> bridge \<Rightarrow> bridge" where
  "McpUnshareSession sid b = logB (LogGrant sid GrantNone) (b\<lparr>brGrants := (brGrants b)(sid := None)\<rparr>)"

definition clearMcpGrant :: "string \<Rightarrow> bridge \<Rightarrow> bridge" where
  "clearMcpGrant sid b = McpUnshareSession sid b"

record grantInfo =
  giSession :: string
  giName :: string
  giHostname :: string
  giLevel :: grantLevel
  giKind :: string

text \<open>The source's order is that of a Go map, any.\<close>

definition grantInfoOf :: "string \<Rightarrow> grantLevel \<Rightarrow> bridge \<Rightarrow> grantInfo" where
  "grantInfoOf sid lvl b =
     (let g = \<lparr>giSession = sid, giName = [], giHostname = [], giLevel = lvl, giKind = ''ssh''\<rparr>
      in case brMeta b sid of Some (n, h) \<Rightarrow> g\<lparr>giName := n, giHostname := h\<rparr>
         | None \<Rightarrow> (case brKafka b sid of Some k \<Rightarrow> g\<lparr>giKind := ''kafka'', giName := kiName k @ '' (Kafka)'', giHostname := Join (kiBootstrap k) '',''\<rparr>
         | None \<Rightarrow> (case brDb b sid of Some d \<Rightarrow> g\<lparr>giKind := ''db'', giName := dbiName d @ '' (Database)'',
                       giHostname := engineName (dbiEngine d) @ '' '' @ dbiAddr d\<rparr>
         | None \<Rightarrow> g)))"

text \<open>Turning the manage grant off drops the plan.\<close>

definition McpSetManageStore :: "bool \<Rightarrow> bridge \<Rightarrow> bridge" where
  "McpSetManageStore on b = b\<lparr>brManage := on, brPlan := (if on then brPlan b else None)\<rparr>"

definition mcpManageAllowed :: "bridge \<Rightarrow> bool" where
  "mcpManageAllowed b = brManage b"

section \<open>Activity\<close>

definition mcpActivityCap :: nat where "mcpActivityCap = 500"

definition mcpActivityOutputCap :: nat where "mcpActivityOutputCap = 16 * 1024"

definition noActivity :: activity where
  "noActivity = \<lparr>avSeq = 0, avTS = 0, avSession = [], avName = [], avKind = [], avCommand = [], avOutput = [], avExit = [], avGate = []\<rparr>"

definition capOutput :: "string \<Rightarrow> string" where
  "capOutput out = (if length out > mcpActivityOutputCap then take mcpActivityOutputCap out @ nl # ''...[truncated]'' else out)"

definition recordActivity :: "int \<Rightarrow> activity \<Rightarrow> bridge \<Rightarrow> bridge" where
  "recordActivity now e b =
     (let seq = Suc (brSeq b);
          ring = brActivity b @ [e\<lparr>avOutput := capOutput (avOutput e), avTS := now, avSeq := seq\<rparr>]
      in b\<lparr>brSeq := seq,
           brActivity := (if length ring > mcpActivityCap then drop (length ring - mcpActivityCap) ring else ring)\<rparr>)"

text \<open>What goes to the audit log: settings as they are read, \<open>None\<close> when unset or not readable.\<close>

definition mcpAuditOutputEnabled :: "string option \<Rightarrow> bool" where
  "mcpAuditOutputEnabled v \<longleftrightarrow> v = Some ''1'' \<or> v = Some ''true''"

definition mcpAuditEnabled :: "string option \<Rightarrow> bool" where
  "mcpAuditEnabled v \<longleftrightarrow> v = None \<or> v = Some [] \<or> v = Some ''1'' \<or> v = Some ''true''"

definition auditMeta :: "string option \<Rightarrow> string option \<Rightarrow> activity \<Rightarrow> (string \<times> string) list option" where
  "auditMeta enabled output e =
     (if \<not> mcpAuditEnabled enabled then None
      else Some ([(''session_id'', avSession e), (''command'', avCommand e), (''exit'', avExit e), (''gate'', avGate e)]
             @ (if mcpAuditOutputEnabled output then [(''output'', capOutput (avOutput e))] else [])))"

definition McpActivityList :: "string \<Rightarrow> bridge \<Rightarrow> activity list" where
  "McpActivityList sid b = filter (\<lambda>e. sid = [] \<or> avSession e = sid) (rev (brActivity b))"

section \<open>Approvals\<close>

text \<open>Only the answer the modal of a kind offers counts.\<close>

definition approvalFor :: "string \<Rightarrow> decision \<Rightarrow> decision" where
  "approvalFor kind d = (if d \<noteq> (if kind = ''type'' then DecideType else DecideRun) then DecideDeny else d)"

datatype respondError = NoPending | AlreadyAnswered

definition parseDecision :: "string \<Rightarrow> decision" where
  "parseDecision s = (if s = ''run'' then DecideRun else if s = ''type'' then DecideType else DecideDeny)"

definition McpApprovalRespond :: "nat \<Rightarrow> string \<Rightarrow> bridge \<Rightarrow> respondError option \<times> bridge" where
  "McpApprovalRespond aid answer b =
     (case brApprovals b aid of None \<Rightarrow> (Some NoPending, b)
      | Some (Some d) \<Rightarrow> (Some AlreadyAnswered, b)
      | Some None \<Rightarrow> (None, b\<lparr>brApprovals := (brApprovals b)(aid \<mapsto> Some (parseDecision answer))\<rparr>))"

definition sessionDisplayName :: "string \<Rightarrow> bridge \<Rightarrow> string" where
  "sessionDisplayName sid b = (case brMeta b sid of None \<Rightarrow> sid
     | Some (n, h) \<Rightarrow> if n \<noteq> [] then n else if h \<noteq> [] then h else sid)"

section \<open>The acting tools\<close>

datatype llmError =
    NotSharedForRunning | NotConnected | DeniedByUser | NoLiveClient | RunFailed | TypeFailed
  | FileRefused string | StatFailed | IsDirectory | TooManyCopies | DownloadFailed
  | NotShared | NotThatKind | NeedsReadRun | ReadOnlyConnection | NoStatement | TxControlRefused string
  | ServerError string | MalformedID | HostNotFound | OpenRefused openRefusal

text \<open>What a call does once it passed its checks: go on under a gate, or ask with a kind and a text.\<close>

datatype gateChoice = Go string | Ask string string

definition event :: "string \<Rightarrow> string \<Rightarrow> string \<Rightarrow> string \<Rightarrow> string \<Rightarrow> string \<Rightarrow> string \<Rightarrow> activity" where
  "event sid name kind command out exit gate = noActivity\<lparr>avSession := sid, avName := name, avKind := kind, avCommand := command,
     avOutput := out, avExit := exit, avGate := gate\<rparr>"

text \<open>\<open>mcpRun\<close>. The check for a catastrophic command panics on some input: \<open>None\<close>.\<close>

definition runEnter :: "string list \<Rightarrow> string \<Rightarrow> string \<Rightarrow> bridge \<Rightarrow> (llmError + gateChoice) option" where
  "runEnter extra sid command b =
     (let lvl = grantLevelOf sid b
      in if \<not> canRun lvl then Some (Inl NotSharedForRunning)
         else if sid \<notin> brPool b then Some (Inl NotConnected)
         else if IsReadOnly command extra then Some (Inr (Go ''auto''))
         else if lvl = GrantYolo then
           (case IsDangerous command of None \<Rightarrow> None
            | Some d \<Rightarrow> Some (Inr (if d then Ask ''run'' command else Go ''yolo'')))
         else Some (Inr (Ask ''run'' command)))"

definition runDenied :: "int \<Rightarrow> string \<Rightarrow> string \<Rightarrow> bridge \<Rightarrow> bridge" where
  "runDenied now sid command b = recordActivity now (event sid (sessionDisplayName sid b) ''run'' command [] [] ''denied'') b"

text \<open>\<open>outcome\<close>: no client, or the output and whether the command failed.\<close>

definition runFinish :: "int \<Rightarrow> string \<Rightarrow> string \<Rightarrow> string \<Rightarrow> (string \<times> bool) option \<Rightarrow> bridge \<Rightarrow> (llmError + string) \<times> bridge" where
  "runFinish now sid command gate outcome b =
     (case outcome of None \<Rightarrow> (Inl NoLiveClient, b)
      | Some (out, failed) \<Rightarrow>
          (if failed \<and> out = [] then Inl RunFailed else Inr out,
           recordActivity now (event sid (sessionDisplayName sid b) ''run'' command out (if failed then ''error'' else ''ok'') gate) b))"

definition typeEnter :: "string \<Rightarrow> string \<Rightarrow> bridge \<Rightarrow> llmError + gateChoice" where
  "typeEnter sid txt b =
     (let lvl = grantLevelOf sid b
      in if \<not> canRun lvl then Inl NotSharedForRunning
         else if sid \<notin> brPool b then Inl NotConnected
         else Inr (if lvl = GrantYolo then Go ''yolo'' else Ask ''type'' txt))"

definition typeDenied :: "int \<Rightarrow> string \<Rightarrow> string \<Rightarrow> bridge \<Rightarrow> bridge" where
  "typeDenied now sid txt b = recordActivity now (event sid (sessionDisplayName sid b) ''type'' txt [] [] ''denied'') b"

definition typeFinish :: "int \<Rightarrow> string \<Rightarrow> string \<Rightarrow> string \<Rightarrow> bool \<Rightarrow> bridge \<Rightarrow> (llmError + string) \<times> bridge" where
  "typeFinish now sid txt gate written b =
     (if \<not> written then (Inl TypeFailed, b)
      else (Inr ''typed into terminal (no newline sent; user must press Enter)'',
            recordActivity now (event sid (sessionDisplayName sid b) ''type'' txt [] [] gate) b))"

text \<open>The file tools refuse with a record of the refusal.\<close>

definition mcpFileSession :: "int \<Rightarrow> string \<Rightarrow> string \<Rightarrow> bridge \<Rightarrow> llmError option \<times> bridge" where
  "mcpFileSession now sid action b =
     (let lvl = grantLevelOf sid b;
          refuse = (\<lambda>reason. recordActivity now (event sid (sessionDisplayName sid b) ''file'' action (''refused: '' @ reason) ''error'' ''denied'') b)
      in if \<not> canRun lvl then
           (let reason = (if lvl = GrantNone then ''not shared with the LLM (unknown or stale session id)'' else ''shared read-only'')
            in (Some (FileRefused reason), refuse (''session is '' @ reason)))
         else if sid \<notin> brPool b then (Some NotConnected, refuse ''session not connected'')
         else (None, b))"

definition downloadPrompt :: "string \<Rightarrow> int \<Rightarrow> string" where
  "downloadPrompt path fsize = ''download '' @ path @ '' ('' @ mcpHumanBytes fsize @ '') to the local mcp-downloads folder''"

text \<open>\<open>stat\<close>: what the host says of the path, its kind and size.\<close>

definition downloadEnter :: "int \<Rightarrow> string \<Rightarrow> string \<Rightarrow> (bool \<times> int) option \<Rightarrow> bridge \<Rightarrow> (llmError + gateChoice) \<times> bridge" where
  "downloadEnter now sid path stat b =
     (let lvl = grantLevelOf sid b
      in case mcpFileSession now sid (''download_file '' @ path) b of (Some e, b1) \<Rightarrow> (Inl e, b1)
         | (None, b1) \<Rightarrow>
             (case stat of None \<Rightarrow> (Inl StatFailed, b1)
              | Some (True, _) \<Rightarrow> (Inl IsDirectory, b1)
              | Some (False, fsize) \<Rightarrow> (Inr (if lvl = GrantYolo then Go ''yolo'' else Ask ''file'' (downloadPrompt path fsize)), b1)))"

definition downloadDenied :: "int \<Rightarrow> string \<Rightarrow> string \<Rightarrow> int \<Rightarrow> bridge \<Rightarrow> bridge" where
  "downloadDenied now sid path fsize b =
     recordActivity now (event sid (sessionDisplayName sid b) ''file'' (downloadPrompt path fsize) [] [] ''denied'') b"

text \<open>\<open>dest\<close> as \<open>mcpDownloadDest\<close> gives it; \<open>written\<close>: the bytes of a transfer that succeeded.\<close>

definition downloadFinish :: "int \<Rightarrow> string \<Rightarrow> string \<Rightarrow> int \<Rightarrow> string \<Rightarrow> string option \<Rightarrow> int option \<Rightarrow> bridge \<Rightarrow> (llmError + string) \<times> bridge" where
  "downloadFinish now sid path fsize gate dest written b =
     (case dest of None \<Rightarrow> (Inl TooManyCopies, b)
      | Some d \<Rightarrow>
          (let ev = (\<lambda>out exit. recordActivity now (event sid (sessionDisplayName sid b) ''file'' (downloadPrompt path fsize) out exit gate) b)
           in case written of None \<Rightarrow> (Inl DownloadFailed, ev [] ''error'')
              | Some n \<Rightarrow> (let out = ''downloaded '' @ path @ '' ('' @ mcpHumanBytes n @ '') to '' @ d in (Inr out, ev out ''ok''))))"

section \<open>Databases\<close>

definition dbName :: "dbInfo \<Rightarrow> string" where
  "dbName d = dbiName d @ '' (Database)''"

definition mcpDbHandle :: "string \<Rightarrow> bridge \<Rightarrow> llmError + dbInfo \<times> grantLevel" where
  "mcpDbHandle sid b =
     (let lvl = grantLevelOf sid b
      in if lvl = GrantNone then Inl NotShared
         else case brDb b sid of None \<Rightarrow> Inl NotThatKind | Some d \<Rightarrow> Inr (d, lvl))"

definition mcpDbActivity :: "unicodeTables \<Rightarrow> int \<Rightarrow> string \<Rightarrow> dbInfo \<Rightarrow> string \<Rightarrow> string \<Rightarrow> string option \<Rightarrow> string \<Rightarrow> bridge \<Rightarrow> bridge" where
  "mcpDbActivity ut now sid d command out err gate b =
     recordActivity now (event sid (dbName d) ''db'' (RedactSecrets ut (dbiEngine d) command)
       (case err of None \<Rightarrow> out | Some e \<Rightarrow> e) (if err = None then ''ok'' else ''error'') gate) b"

definition defaultDatabase :: "dbInfo \<Rightarrow> string \<Rightarrow> string" where
  "defaultDatabase d database = (if database \<noteq> [] then database else dbiDatabase d)"

text \<open>The text of the request: the script, after a line that names the database.\<close>

definition executePrompt :: "string \<Rightarrow> string \<Rightarrow> string" where
  "executePrompt database sql = (if database \<noteq> [] then ''-- on '' @ database @ nl # sql else sql)"

definition executeEnter :: "unicodeTables \<Rightarrow> string \<Rightarrow> string \<Rightarrow> string \<Rightarrow> bridge \<Rightarrow> llmError + gateChoice" where
  "executeEnter ut sid database sql b =
     bindr (mcpDbHandle sid b) (\<lambda>(d, lvl).
       if \<not> canRun lvl then Inl NeedsReadRun
       else if dbiReadOnly d then Inl ReadOnlyConnection
       else let stmts = Split ut (dbiEngine d) sql
            in if stmts = [] then Inl NoStatement
               else case find (\<lambda>s. IsTxControl ut (dbiEngine d) (sText s)) stmts of
                 Some s \<Rightarrow> Inl (TxControlRefused (hd (Fields (sText s))))
               | None \<Rightarrow> Inr (if lvl = GrantYolo then Go ''yolo'' else Ask ''run'' (executePrompt (defaultDatabase d database) sql)))"

definition executeDenied :: "unicodeTables \<Rightarrow> int \<Rightarrow> string \<Rightarrow> dbInfo \<Rightarrow> string \<Rightarrow> bridge \<Rightarrow> bridge" where
  "executeDenied ut now sid d sql b = mcpDbActivity ut now sid d sql [] (Some ''denied'') ''denied'' b"

definition clip :: "string \<Rightarrow> nat \<Rightarrow> string" where
  "clip s0 n = (let s = TrimSpace s0 in if length s \<le> n then s else take n s @ ''...'')"

text \<open>\<open>outcome\<close>: an error, or the results as text.\<close>

definition executeFinish :: "unicodeTables \<Rightarrow> int \<Rightarrow> string \<Rightarrow> dbInfo \<Rightarrow> string \<Rightarrow> string \<Rightarrow> string + string \<Rightarrow> bridge \<Rightarrow>
    (llmError + string) \<times> bridge" where
  "executeFinish ut now sid d sql gate outcome b =
     (case outcome of Inl e \<Rightarrow> (Inl (ServerError e), mcpDbActivity ut now sid d sql [] (Some e) gate b)
      | Inr out \<Rightarrow> (Inr out, mcpDbActivity ut now sid d sql (clip out 400) None gate b))"

text \<open>\<open>db_query\<close> runs with the read-only option whatever the grant says: rows and bytes are capped.\<close>

definition kafkaCap :: "int \<Rightarrow> int \<Rightarrow> int \<Rightarrow> int" where
  "kafkaCap v dflt hi = (if v \<le> 0 then dflt else min v hi)"

record runOptions =
  roMaxRows :: int
  roReadOnly :: bool

definition queryOptions :: "int \<Rightarrow> runOptions" where
  "queryOptions maxRows = \<lparr>roMaxRows = kafkaCap maxRows 50 1000, roReadOnly = True\<rparr>"

definition executeOptions :: runOptions where
  "executeOptions = \<lparr>roMaxRows = 50, roReadOnly = False\<rparr>"

section \<open>Kafka\<close>

text \<open>\<open>strconv.Quote\<close>; \<open>pr\<close> says which runes outside ASCII are printable.\<close>

definition lowerHex :: "nat \<Rightarrow> char" where
  "lowerHex d = (if d < 10 then chr (48 + d) else chr (87 + d))"

definition hexPad :: "nat \<Rightarrow> nat \<Rightarrow> string" where
  "hexPad w n = map (\<lambda>i. lowerHex (n div 16 ^ i mod 16)) (rev [0..<w])"

definition quoteRune :: "(nat \<Rightarrow> bool) \<Rightarrow> nat \<Rightarrow> string" where
  "quoteRune pr r =
     (if r = byte dquote \<or> r = byte backslash then [backslash, chr r]
      else if r < 128 \<and> 32 \<le> r \<and> r \<noteq> 127 then [chr r]
      else if r \<ge> 128 \<and> pr r then encodeRune r
      else case map_of [(7, CHR ''a''), (8, CHR ''b''), (12, CHR ''f''), (10, CHR ''n''), (13, CHR ''r''), (9, CHR ''t''), (11, CHR ''v'')] r of
        Some c \<Rightarrow> [backslash, c]
      | None \<Rightarrow>
          if r < 32 \<or> r = 127 then [backslash, CHR ''x''] @ hexPad 2 r
          else if r < 0x10000 then [backslash, CHR ''u''] @ hexPad 4 r
          else [backslash, CHR ''U''] @ hexPad 8 r)"

function quoteBody :: "(nat \<Rightarrow> bool) \<Rightarrow> string \<Rightarrow> string" where
  "quoteBody pr s =
     (if s = [] then []
      else let (r, w) = decodeRune s
           in (if w = 1 \<and> byte (hd s) \<ge> 128 then [backslash, CHR ''x''] @ hexPad 2 (byte (hd s)) else quoteRune pr r) @ quoteBody pr (drop w s))"
  by pat_completeness auto
termination
proof (relation "measure (length \<circ> snd)")
  fix pr :: "nat \<Rightarrow> bool" and s :: string and x r w
  assume "s \<noteq> []" "x = decodeRune s" "(r, w) = x"
  then show "((pr, drop w s), pr, s) \<in> measure (length \<circ> snd)"
    using decodeRune_width [of s] by (cases s) (auto simp: prod_eq_iff)
qed simp

declare quoteBody.simps [simp del]

definition Quote :: "(nat \<Rightarrow> bool) \<Rightarrow> string \<Rightarrow> string" where
  "Quote pr s = dquote # quoteBody pr s @ [dquote]"

definition optText :: "(nat \<Rightarrow> bool) \<Rightarrow> string option \<Rightarrow> string" where
  "optText pr s = (case s of None \<Rightarrow> ''null'' | Some v \<Rightarrow> Quote pr (if length v > 200 then take 200 v @ ''...'' else v))"

definition kafkaName :: "kafkaInfo \<Rightarrow> string" where
  "kafkaName k = kiName k @ '' (Kafka)''"

definition mcpKafkaCluster :: "string \<Rightarrow> bridge \<Rightarrow> llmError + kafkaInfo \<times> grantLevel" where
  "mcpKafkaCluster sid b =
     (let lvl = grantLevelOf sid b
      in if lvl = GrantNone then Inl NotShared
         else case brKafka b sid of None \<Rightarrow> Inl NotThatKind | Some k \<Rightarrow> Inr (k, lvl))"

definition mcpKafkaActivity :: "int \<Rightarrow> string \<Rightarrow> kafkaInfo \<Rightarrow> string \<Rightarrow> string \<Rightarrow> string option \<Rightarrow> string \<Rightarrow> bridge \<Rightarrow> bridge" where
  "mcpKafkaActivity now sid k command out err gate b =
     recordActivity now (event sid (kafkaName k) ''kafka'' command (case err of None \<Rightarrow> out | Some e \<Rightarrow> e)
       (if err = None then ''ok'' else ''error'') gate) b"

text \<open>The request names the record; \<open>headers\<close> sorted by key, as \<open>%v\<close> prints a map.\<close>

definition producePrompt :: "(nat \<Rightarrow> bool) \<Rightarrow> string \<Rightarrow> int option \<Rightarrow> string option \<Rightarrow> string option \<Rightarrow> (string \<times> string) list \<Rightarrow> string" where
  "producePrompt pr topic part key val headers =
     ''produce to '' @ topic @ '' partition='' @ itoaInt (valueOr part (-1)) @ '' key='' @ optText pr key @ '' value='' @ optText pr val @
     '' headers=map['' @ Join (map (\<lambda>(k, v). k @ '':'' @ v) headers) '' '' @ '']''"

definition produceEnter :: "(nat \<Rightarrow> bool) \<Rightarrow> string \<Rightarrow> string \<Rightarrow> int option \<Rightarrow> string option \<Rightarrow> string option \<Rightarrow> (string \<times> string) list \<Rightarrow>
    bridge \<Rightarrow> llmError + gateChoice" where
  "produceEnter pr sid topic part key val headers b =
     bindr (mcpKafkaCluster sid b) (\<lambda>(k, lvl).
       if \<not> canRun lvl then Inl NeedsReadRun
       else if kiReadOnly k then Inl ReadOnlyConnection
       else Inr (if lvl = GrantYolo then Go ''yolo'' else Ask ''run'' (producePrompt pr topic part key val headers)))"

definition produceDenied :: "int \<Rightarrow> string \<Rightarrow> kafkaInfo \<Rightarrow> string \<Rightarrow> bridge \<Rightarrow> bridge" where
  "produceDenied now sid k command b = mcpKafkaActivity now sid k command [] (Some ''denied'') ''denied'' b"

text \<open>\<open>outcome\<close>: an error, or the partition and offset.\<close>

definition produceFinish :: "int \<Rightarrow> string \<Rightarrow> kafkaInfo \<Rightarrow> string \<Rightarrow> string \<Rightarrow> string \<Rightarrow> string + int \<times> int \<Rightarrow> bridge \<Rightarrow>
    (llmError + string) \<times> bridge" where
  "produceFinish now sid k topic command gate outcome b =
     (case outcome of Inl e \<Rightarrow> (Inl (ServerError e), mcpKafkaActivity now sid k command [] (Some e) gate b)
      | Inr (p, off) \<Rightarrow>
          (let out = ''produced to '' @ topic @ '' partition='' @ itoaInt p @ '' offset='' @ itoaInt off
           in (Inr out, mcpKafkaActivity now sid k command out None gate b)))"

text \<open>the request to send a record shows at most 200 bytes of its key and of its value, so the user may approve a
  record without seeing the rest of it.\<close>

lemma produce_request_hides_the_tail:
  assumes "length v = 200" "x \<noteq> []" "y \<noteq> []"
  shows "producePrompt pr topic part key (Some (v @ x)) headers = producePrompt pr topic part key (Some (v @ y)) headers"
  using assms by (simp add: producePrompt_def optText_def)

lemma produce_request_hides_the_tail_witness:
  "producePrompt (\<lambda>_. True) ''orders'' None None (Some (replicate 200 CHR ''a'' @ ''cancel'')) [] =
   producePrompt (\<lambda>_. True) ''orders'' None None (Some (replicate 200 CHR ''a'' @ ''refund'')) []"
  by (rule produce_request_hides_the_tail) simp_all

section \<open>Opening\<close>

text \<open>A model that opens a session never grants itself the level without prompts.\<close>

definition mcpConnectGrant :: "string \<Rightarrow> grantLevel" where
  "mcpConnectGrant level = (if level = ''read'' then GrantReadOnly else GrantReadRun)"

definition tabGrant :: "string \<Rightarrow> grantLevel" where
  "tabGrant level = (if level = ''read-run'' then GrantReadRun else GrantReadOnly)"

definition levelName :: "grantLevel \<Rightarrow> string" where
  "levelName lvl = (case lvl of GrantNone \<Rightarrow> [] | GrantReadOnly \<Rightarrow> ''read'' | GrantReadRun \<Rightarrow> ''read-run'' | GrantYolo \<Rightarrow> ''read-run-yolo'')"

definition inFolder :: "openEnv \<Rightarrow> string option \<Rightarrow> string \<Rightarrow> string" where
  "inFolder env folder name =
     (case folder of None \<Rightarrow> name
      | Some f \<Rightarrow> (let p = folderPath (oeFolders env) f in if p \<noteq> [] then p @ ''/'' @ name else name))"

text \<open>
  The checks of \<open>mcpConnect\<close>: the id other parts of the app know the host by, and the label of the request.
  \<open>entry\<close> gives an inventory entry's id, name and folder.
\<close>

definition connectTarget :: "openEnv \<Rightarrow> (string \<Rightarrow> (string \<times> string \<times> string) option) \<Rightarrow> string \<Rightarrow> llmError + string \<times> string" where
  "connectTarget env entry connectionID =
     (case CutPrefix connectionID ''dyn:'' of
        Some rest \<Rightarrow>
          (case Cut rest '':'' of (folderID, entryID, ok) \<Rightarrow>
             if \<not> ok then Inl MalformedID
             else (case entry entryID of None \<Rightarrow> Inl HostNotFound
               | Some (_, name, fld) \<Rightarrow>
                   if fld \<noteq> folderID then Inl HostNotFound else Inr (''dyn:'' @ entryID, inFolder env (Some folderID) name)))
      | None \<Rightarrow>
          (case oeConn env connectionID of None \<Rightarrow> Inl HostNotFound
           | Some c \<Rightarrow> Inr (connectionID, inFolder env (cFolderID c) (cName c))))"

definition kafkaTarget :: "openEnv \<Rightarrow> string \<Rightarrow> llmError + string \<times> string" where
  "kafkaTarget env connectionID =
     (case oeConn env connectionID of None \<Rightarrow> Inl HostNotFound
      | Some c \<Rightarrow> Inr (connectionID, inFolder env (cFolderID c) (cName c) @ '' (Kafka)''))"

text \<open>The gate, and then the user is always asked; the text of the request is the level.\<close>

definition openEnter :: "openEnv \<Rightarrow> grantLevel \<Rightarrow> llmError + string \<times> string \<Rightarrow> (llmError + (string \<times> string) \<times> gateChoice) option" where
  "openEnter env lvl target =
     (case target of Inl e \<Rightarrow> Some (Inl e)
      | Inr (ui, label) \<Rightarrow>
          map_option (\<lambda>r. case r of Some e \<Rightarrow> Inl (OpenRefused e) | None \<Rightarrow> Inr ((ui, label), Ask ''connect'' (levelName lvl)))
            (llmSensitiveRefusal env ui))"

definition openDenied :: "int \<Rightarrow> string \<Rightarrow> bridge \<Rightarrow> bridge" where
  "openDenied now label b = recordActivity now (event [] label ''connect'' label [] [] ''denied'') b"

text \<open>What an open brings up: a session, a Kafka tab or a database tab.\<close>

datatype opened = OpenedSession string string string | OpenedKafka string kafkaInfo | OpenedDb string dbInfo

definition addOpened :: "opened \<Rightarrow> bridge \<Rightarrow> bridge" where
  "addOpened x b = (case x of
      OpenedSession sid name host \<Rightarrow> b\<lparr>brPool := insert sid (brPool b), brMeta := (brMeta b)(sid \<mapsto> (name, host))\<rparr>
    | OpenedKafka sid k \<Rightarrow> b\<lparr>brKafka := (brKafka b)(sid \<mapsto> k)\<rparr>
    | OpenedDb sid d \<Rightarrow> b\<lparr>brDb := (brDb b)(sid \<mapsto> d)\<rparr>)"

definition openedID :: "opened \<Rightarrow> string" where
  "openedID x = (case x of OpenedSession sid _ _ \<Rightarrow> sid | OpenedKafka sid _ \<Rightarrow> sid | OpenedDb sid _ \<Rightarrow> sid)"

text \<open>After the approval: the open, and sharing what it opened; an error of the share is dropped.\<close>

definition openFinish :: "int \<Rightarrow> string \<Rightarrow> grantLevel \<Rightarrow> string + opened \<Rightarrow> bridge \<Rightarrow> (llmError + string) \<times> bridge" where
  "openFinish now label lvl outcome b =
     (case outcome of
        Inl e \<Rightarrow> (Inl (ServerError e), recordActivity now (event [] label ''connect'' label e ''error'' ''approved'') b)
      | Inr x \<Rightarrow>
          (let b1 = snd (McpShareSession (openedID x) (levelName lvl) (addOpened x b))
           in (Inr (''connected: session_id='' @ openedID x @ '' ('' @ label @ ''), shared at level='' @ levelName lvl),
               recordActivity now (event (openedID x) label ''connect'' label [] ''ok'' ''approved'') b1)))"

end
