(* ===== verification/McpRuns.thy ===== *)
theory McpRuns
  imports McpBridge
begin

text \<open>
  Runs of the bridge: calls of the language model, the user's shares and answers, and sessions that come
  and go, in any order. A call that has to ask waits under the number of its approval; it goes on when
  an answer is in the channel or when its time is over. What holds of every run: an act on the outside
  was called with a sufficient grant and was waived by rule or approved by the user, who saw its text.
\<close>

section \<open>Calls\<close>

text \<open>What a call meets outside: settings, the store, and what the other side answers.\<close>

record callEnv =
  ceNow :: int
  ceExtra :: "string list"                       \<comment> \<open>the setting \<open>mcp_readonly_extra\<close>\<close>
  ceStore :: openEnv
  ceEntry :: "string \<Rightarrow> (string \<times> string \<times> string) option"
  ceStat :: "(bool \<times> int) option"
  ceRun :: "(string \<times> bool) option"
  ceWritten :: bool
  ceDest :: "string option"
  ceBytes :: "int option"
  ceDb :: "string + string"
  ceKafka :: "string + int \<times> int"
  ceOpened :: "string + opened"

text \<open>The act a call comes to and whether it must ask; \<open>None\<close> when the check panics or the gate does not answer.\<close>

definition enter :: "unicodeTables \<Rightarrow> (nat \<Rightarrow> bool) \<Rightarrow> callEnv \<Rightarrow> llmReq \<Rightarrow> bridge \<Rightarrow> (llmError + llmAct \<times> gateChoice) option \<times> bridge" where
  "enter ut pr ce req b =
     (case req of
        ReqRun sid cmd \<Rightarrow> (map_option (map_sum id (Pair (ActRun sid cmd))) (runEnter (ceExtra ce) sid cmd b), b)
      | ReqType sid txt \<Rightarrow> (Some (map_sum id (Pair (ActType sid txt)) (typeEnter sid txt b)), b)
      | ReqDownload sid path \<Rightarrow>
          (case downloadEnter (ceNow ce) sid path (ceStat ce) b of (r, b1) \<Rightarrow>
             (Some (map_sum id (Pair (ActDownload sid path (case ceStat ce of None \<Rightarrow> 0 | Some (_, n) \<Rightarrow> n))) r), b1))
      | ReqExecute sid database sql \<Rightarrow>
          (Some (map_sum id (Pair (ActExecute sid (case brDb b sid of None \<Rightarrow> database | Some d \<Rightarrow> defaultDatabase d database) sql))
             (executeEnter ut sid database sql b)), b)
      | ReqProduce sid topic part key val hs \<Rightarrow>
          (Some (map_sum id (Pair (ActProduce sid topic part key val hs)) (produceEnter pr sid topic part key val hs b)), b)
      | ReqConnect cid level \<Rightarrow>
          (let lvl = mcpConnectGrant level
           in (map_option (map_sum id (\<lambda>((ui, label), g). (ActOpen False ui label lvl, g)))
                 (openEnter (ceStore ce) lvl (connectTarget (ceStore ce) (ceEntry ce) cid)), b))
      | ReqOpenKafka cid level \<Rightarrow>
          (let lvl = tabGrant level
           in (map_option (map_sum id (\<lambda>((ui, label), g). (ActOpen True ui label lvl, g)))
                 (openEnter (ceStore ce) lvl (kafkaTarget (ceStore ce) cid)), b)))"

text \<open>Whether the act reached the outside, and the state after it.\<close>

definition finish :: "unicodeTables \<Rightarrow> (nat \<Rightarrow> bool) \<Rightarrow> callEnv \<Rightarrow> string \<Rightarrow> llmAct \<Rightarrow> bridge \<Rightarrow> bool \<times> bridge" where
  "finish ut pr ce gate act b =
     (case act of
        ActRun sid cmd \<Rightarrow> (ceRun ce \<noteq> None, snd (runFinish (ceNow ce) sid cmd gate (ceRun ce) b))
      | ActType sid txt \<Rightarrow> (ceWritten ce, snd (typeFinish (ceNow ce) sid txt gate (ceWritten ce) b))
      | ActDownload sid path n \<Rightarrow> (ceDest ce \<noteq> None, snd (downloadFinish (ceNow ce) sid path n gate (ceDest ce) (ceBytes ce) b))
      | ActExecute sid database sql \<Rightarrow>
          (case brDb b sid of None \<Rightarrow> (False, b) | Some d \<Rightarrow> (True, snd (executeFinish ut (ceNow ce) sid d sql gate (ceDb ce) b)))
      | ActProduce sid topic part key val hs \<Rightarrow>
          (case brKafka b sid of None \<Rightarrow> (False, b)
           | Some k \<Rightarrow> (True, snd (produceFinish (ceNow ce) sid k topic (producePrompt pr topic part key val hs) gate (ceKafka ce) b)))
      | ActOpen kt ui label lvl \<Rightarrow> (True, snd (openFinish (ceNow ce) label lvl (ceOpened ce) b)))"

definition denied :: "unicodeTables \<Rightarrow> (nat \<Rightarrow> bool) \<Rightarrow> callEnv \<Rightarrow> llmAct \<Rightarrow> bridge \<Rightarrow> bridge" where
  "denied ut pr ce act b =
     (case act of
        ActRun sid cmd \<Rightarrow> runDenied (ceNow ce) sid cmd b
      | ActType sid txt \<Rightarrow> typeDenied (ceNow ce) sid txt b
      | ActDownload sid path n \<Rightarrow> downloadDenied (ceNow ce) sid path n b
      | ActExecute sid database sql \<Rightarrow> (case brDb b sid of None \<Rightarrow> b | Some d \<Rightarrow> executeDenied ut (ceNow ce) sid d sql b)
      | ActProduce sid topic part key val hs \<Rightarrow>
          (case brKafka b sid of None \<Rightarrow> b
           | Some k \<Rightarrow> produceDenied (ceNow ce) sid k (producePrompt pr topic part key val hs) b)
      | ActOpen kt ui label lvl \<Rightarrow> openDenied (ceNow ce) label b)"

definition kindOf :: "llmAct \<Rightarrow> string" where
  "kindOf act = (case act of ActType _ _ \<Rightarrow> ''type'' | ActDownload _ _ _ \<Rightarrow> ''file'' | ActOpen _ _ _ _ \<Rightarrow> ''connect'' | _ \<Rightarrow> ''run'')"

text \<open>A call: refused, gone through at once, or waiting.\<close>

definition actNow :: "unicodeTables \<Rightarrow> (nat \<Rightarrow> bool) \<Rightarrow> callEnv \<Rightarrow> nat \<Rightarrow> string \<Rightarrow> llmAct \<Rightarrow> bridge \<Rightarrow> bridge" where
  "actNow ut pr ce t gate act b =
     (case finish ut pr ce gate act b of (reached, b1) \<Rightarrow> if reached then logB (LogDid t act gate) b1 else b1)"

text \<open>What the gate answered for an open.\<close>

definition gateItems :: "callEnv \<Rightarrow> nat \<Rightarrow> llmAct \<Rightarrow> logItem list" where
  "gateItems ce t act = (case act of ActOpen _ ui _ _ \<Rightarrow> [LogGate t ui (llmSensitiveRefusal (ceStore ce) ui)] | _ \<Rightarrow> [])"

definition callStarts :: "unicodeTables \<Rightarrow> (nat \<Rightarrow> bool) \<Rightarrow> callEnv \<Rightarrow> llmReq \<Rightarrow> bridge \<Rightarrow> bridge" where
  "callStarts ut pr ce req b =
     (case enter ut pr ce req b of
        (Some (Inr (act, choice)), b1) \<Rightarrow>
          (let t = brNext b1;
               b2 = b1\<lparr>brNext := Suc t, brLog := brLog b1 @ gateItems ce t act @ [LogCall t act (ceExtra ce)]\<rparr>
           in case choice of
                Go gate \<Rightarrow> actNow ut pr ce t gate act b2
              | Ask kind txt \<Rightarrow> (logB (LogAsk t kind txt) b2)\<lparr>brApprovals := (brApprovals b2)(t \<mapsto> None), brCalls := (brCalls b2)(t \<mapsto> act)\<rparr>)
      | (_, b1) \<Rightarrow> b1)"

text \<open>The waiting call goes on: with the answer in its channel, or with none when its time is over.\<close>

definition forget :: "nat \<Rightarrow> bridge \<Rightarrow> bridge" where
  "forget t b = b\<lparr>brApprovals := (brApprovals b)(t := None), brCalls := (brCalls b)(t := None)\<rparr>"

definition callResumes :: "unicodeTables \<Rightarrow> (nat \<Rightarrow> bool) \<Rightarrow> callEnv \<Rightarrow> nat \<Rightarrow> bridge \<Rightarrow> bridge" where
  "callResumes ut pr ce t b =
     (case (brCalls b t, brApprovals b t) of
        (Some act, Some (Some d)) \<Rightarrow>
          (let d' = approvalFor (kindOf act) d; b1 = logB (LogAnswer t d') (forget t b)
           in if d' = DecideDeny then denied ut pr ce act b1 else actNow ut pr ce t ''approved'' act b1)
      | _ \<Rightarrow> b)"

definition callTimesOut :: "unicodeTables \<Rightarrow> (nat \<Rightarrow> bool) \<Rightarrow> callEnv \<Rightarrow> nat \<Rightarrow> bridge \<Rightarrow> bridge" where
  "callTimesOut ut pr ce t b =
     (case brCalls b t of None \<Rightarrow> b | Some act \<Rightarrow> denied ut pr ce act (logB (LogAnswer t DecideDeny) (forget t b)))"

section \<open>Runs\<close>

datatype bridgeEvent =
    EvShare string string | EvUnshare string | EvManage bool
  | EvUp opened                \<comment> \<open>the user opens a session or a tab\<close>
  | EvClear string | EvGone string   \<comment> \<open>a session closes: its grant, and then the session\<close>
  | EvAnswer nat string
  | EvCall callEnv llmReq | EvResume callEnv nat | EvTimeout callEnv nat

definition bridgeStep :: "unicodeTables \<Rightarrow> (nat \<Rightarrow> bool) \<Rightarrow> bridgeEvent \<Rightarrow> bridge \<Rightarrow> bridge" where
  "bridgeStep ut pr ev b =
     (case ev of
        EvShare sid level \<Rightarrow> snd (McpShareSession sid level b)
      | EvUnshare sid \<Rightarrow> McpUnshareSession sid b
      | EvManage on \<Rightarrow> McpSetManageStore on b
      | EvUp x \<Rightarrow> addOpened x b
      | EvClear sid \<Rightarrow> clearMcpGrant sid b
      | EvGone sid \<Rightarrow> b\<lparr>brPool := brPool b - {sid}, brMeta := (brMeta b)(sid := None), brKafka := (brKafka b)(sid := None),
                       brDb := (brDb b)(sid := None)\<rparr>
      | EvAnswer t answer \<Rightarrow> snd (McpApprovalRespond t answer b)
      | EvCall ce req \<Rightarrow> callStarts ut pr ce req b
      | EvResume ce t \<Rightarrow> callResumes ut pr ce t b
      | EvTimeout ce t \<Rightarrow> callTimesOut ut pr ce t b)"

definition newMcpState :: bridge where
  "newMcpState = \<lparr>brGrants = Map.empty, brManage = False, brPlan = None, brApprovals = Map.empty, brActivity = [], brSeq = 0,
     brPool = {}, brMeta = Map.empty, brKafka = Map.empty, brDb = Map.empty, brCalls = Map.empty, brNext = 0, brLog = []\<rparr>"

definition bridgeRun :: "unicodeTables \<Rightarrow> (nat \<Rightarrow> bool) \<Rightarrow> bridgeEvent list \<Rightarrow> bridge \<Rightarrow> bridge" where
  "bridgeRun ut pr evs b = foldl (\<lambda>b ev. bridgeStep ut pr ev b) b evs"

section \<open>What allows an act\<close>

text \<open>The grant of a session after what happened so far.\<close>

definition levelAt :: "logItem list \<Rightarrow> string \<Rightarrow> grantLevel" where
  "levelAt lg sid = foldl (\<lambda>l x. case x of LogGrant s g \<Rightarrow> if s = sid then g else l | _ \<Rightarrow> l) GrantNone lg"

definition sessionOf :: "llmAct \<Rightarrow> string option" where
  "sessionOf act = (case act of ActRun sid _ \<Rightarrow> Some sid | ActType sid _ \<Rightarrow> Some sid | ActDownload sid _ _ \<Rightarrow> Some sid
     | ActExecute sid _ _ \<Rightarrow> Some sid | ActProduce sid _ _ _ _ _ \<Rightarrow> Some sid | ActOpen _ _ _ _ \<Rightarrow> None)"

text \<open>What may be done without asking: under auto-run all but a catastrophic command, under read-run a reading command.\<close>

definition waived :: "string list \<Rightarrow> grantLevel \<Rightarrow> llmAct \<Rightarrow> bool" where
  "waived extra lvl act =
     (case act of ActRun _ cmd \<Rightarrow> IsReadOnly cmd extra \<or> (lvl = GrantYolo \<and> IsDangerous cmd = Some False)
      | ActOpen _ _ _ _ \<Rightarrow> False | _ \<Rightarrow> lvl = GrantYolo)"

text \<open>The text the user sees before an act.\<close>

definition promptFor :: "(nat \<Rightarrow> bool) \<Rightarrow> llmAct \<Rightarrow> string" where
  "promptFor pr act =
     (case act of ActRun _ cmd \<Rightarrow> cmd | ActType _ txt \<Rightarrow> txt | ActDownload _ path n \<Rightarrow> downloadPrompt path n
      | ActExecute _ database sql \<Rightarrow> executePrompt database sql
      | ActProduce _ topic part key val hs \<Rightarrow> producePrompt pr topic part key val hs
      | ActOpen _ _ _ lvl \<Rightarrow> levelName lvl)"

text \<open>The grant, or for an open the gate, at the time of the call.\<close>

definition permitted :: "logItem list \<Rightarrow> nat \<Rightarrow> llmAct \<Rightarrow> bool" where
  "permitted lg t act =
     (case act of ActOpen _ ui _ _ \<Rightarrow> LogGate t ui (Some None) \<in> set lg
      | _ \<Rightarrow> (case sessionOf act of None \<Rightarrow> False | Some sid \<Rightarrow> canRun (levelAt lg sid)))"

definition levelFor :: "logItem list \<Rightarrow> llmAct \<Rightarrow> grantLevel" where
  "levelFor lg act = (case sessionOf act of None \<Rightarrow> GrantNone | Some sid \<Rightarrow> levelAt lg sid)"

definition asked :: "(nat \<Rightarrow> bool) \<Rightarrow> logItem list \<Rightarrow> nat \<Rightarrow> llmAct \<Rightarrow> bool" where
  "asked pr lg t act \<longleftrightarrow> (\<exists>p q extra. lg = p @ LogCall t act extra # q \<and> permitted p t act \<and>
     LogAsk t (kindOf act) (promptFor pr act) \<in> set q)"

definition mayGo :: "(nat \<Rightarrow> bool) \<Rightarrow> logItem list \<Rightarrow> nat \<Rightarrow> llmAct \<Rightarrow> bool" where
  "mayGo pr lg t act \<longleftrightarrow> (\<exists>p q extra. lg = p @ LogCall t act extra # q \<and> permitted p t act \<and>
     (waived extra (levelFor p act) act \<or>
      (LogAsk t (kindOf act) (promptFor pr act) \<in> set q \<and>
       LogAnswer t (if kindOf act = ''type'' then DecideType else DecideRun) \<in> set q)))"

section \<open>Every run\<close>

lemma canRun_simps [simp]: "\<not> canRun GrantNone" "\<not> canRun GrantReadOnly" "canRun GrantReadRun" "canRun GrantYolo"
  by (simp_all add: canRun_def)

text \<open>A change that leaves grants, history and waiting calls alone.\<close>

definition quiet :: "bridge \<Rightarrow> bridge \<Rightarrow> bool" where
  "quiet b b' \<longleftrightarrow> brGrants b' = brGrants b \<and> brLog b' = brLog b \<and> brCalls b' = brCalls b"

lemma quiet_refl [simp]: "quiet b b"
  by (simp add: quiet_def)

lemma quiet_record [simp]: "quiet b (recordActivity now e b)"
  by (simp add: quiet_def recordActivity_def Let_def)

lemma quiet_denied: "quiet b (denied ut pr ce act b)"
  by (cases act) (simp_all add: denied_def runDenied_def typeDenied_def downloadDenied_def executeDenied_def produceDenied_def
      openDenied_def mcpDbActivity_def mcpKafkaActivity_def split: option.splits)

lemma quiet_enter: "quiet b (snd (enter ut pr ce req b))"
  by (cases req) (auto simp: enter_def downloadEnter_def mcpFileSession_def Let_def split: option.splits prod.splits bool.splits if_splits)

lemma grantLevelOf_quiet: "quiet b b' \<Longrightarrow> grantLevelOf sid b' = grantLevelOf sid b"
  by (simp add: quiet_def grantLevelOf_def)

text \<open>What a finished act adds to the history is a grant at most.\<close>

lemma quiet_finish:
  assumes "\<nexists>kt ui label lvl. act = ActOpen kt ui label lvl"
  shows "quiet b (snd (finish ut pr ce gate act b))"
  using assms
  by (cases act) (simp_all add: finish_def runFinish_def typeFinish_def downloadFinish_def executeFinish_def produceFinish_def
      mcpDbActivity_def mcpKafkaActivity_def Let_def split: option.splits sum.splits prod.splits)

lemma addOpened_quiet: "quiet b (addOpened x b)"
  by (cases x) (simp_all add: addOpened_def quiet_def)

definition grantsLogged :: "bridge \<Rightarrow> bool" where
  "grantsLogged b \<longleftrightarrow> (\<forall>sid. grantLevelOf sid b = levelAt (brLog b) sid)"

lemma levelAt_snoc: "levelAt (lg @ [x]) sid = (case x of LogGrant s g \<Rightarrow> if s = sid then g else levelAt lg sid | _ \<Rightarrow> levelAt lg sid)"
  by (simp add: levelAt_def split: logItem.splits)

text \<open>A step of the history: items that are no acts, with the grants in step.\<close>

definition extends :: "bridge \<Rightarrow> bridge \<Rightarrow> bool" where
  "extends b b' \<longleftrightarrow> brCalls b' = brCalls b \<and> (grantsLogged b \<longrightarrow> grantsLogged b') \<and>
     (\<exists>xs. brLog b' = brLog b @ xs \<and> (\<forall>t act gate. LogDid t act gate \<notin> set xs))"

lemma quiet_extends: "quiet b b' \<Longrightarrow> extends b b'"
  by (auto simp: extends_def quiet_def grantsLogged_def grantLevelOf_def)

lemma extends_trans: "extends b b' \<Longrightarrow> extends b' b'' \<Longrightarrow> extends b b''"
  unfolding extends_def by (metis append.assoc set_append Un_iff)

lemma share_extends: "extends b (snd (McpShareSession sid level b))"
  by (auto simp: McpShareSession_def shareInsert_def logB_def extends_def grantsLogged_def grantLevelOf_def levelAt_snoc
      split: sum.splits)

lemma unshare_extends: "extends b (McpUnshareSession sid b)"
  by (auto simp: McpUnshareSession_def logB_def extends_def grantsLogged_def grantLevelOf_def levelAt_snoc)

lemma finish_extends: "extends b (snd (finish ut pr ce gate act b))"
proof (cases "\<exists>kt ui label lvl. act = ActOpen kt ui label lvl")
  case False
  then show ?thesis using quiet_finish quiet_extends by blast
next
  case True
  then obtain kt ui label lvl where act: "act = ActOpen kt ui label lvl" by blast
  show ?thesis
  proof (cases "ceOpened ce")
    case (Inl e)
    then show ?thesis by (simp add: act finish_def openFinish_def quiet_extends)
  next
    case (Inr x)
    have "extends b (snd (McpShareSession (openedID x) (levelName lvl) (addOpened x b)))"
      using extends_trans [OF quiet_extends [OF addOpened_quiet] share_extends] .
    then show ?thesis using Inr extends_trans [OF _ quiet_extends [OF quiet_record]] by (simp add: act finish_def openFinish_def Let_def)
  qed
qed

lemma mayGo_append: "mayGo pr lg t act \<Longrightarrow> mayGo pr (lg @ xs) t act"
proof -
  assume "mayGo pr lg t act"
  then obtain p q extra where l: "lg = p @ LogCall t act extra # q" "permitted p t act"
      "waived extra (levelFor p act) act \<or> (LogAsk t (kindOf act) (promptFor pr act) \<in> set q \<and>
        LogAnswer t (if kindOf act = ''type'' then DecideType else DecideRun) \<in> set q)" unfolding mayGo_def by blast
  show ?thesis unfolding mayGo_def
    by (rule exI [of _ p], rule exI [of _ "q @ xs"], rule exI [of _ extra]) (use l in auto)
qed

lemma asked_append: "asked pr lg t act \<Longrightarrow> asked pr (lg @ xs) t act"
proof -
  assume "asked pr lg t act"
  then obtain p q extra where l: "lg = p @ LogCall t act extra # q" "permitted p t act"
      "LogAsk t (kindOf act) (promptFor pr act) \<in> set q" unfolding asked_def by blast
  show ?thesis unfolding asked_def
    by (rule exI [of _ p], rule exI [of _ "q @ xs"], rule exI [of _ extra]) (use l in auto)
qed

lemma asked_answered:
  assumes "asked pr lg t act"
  shows "mayGo pr (lg @ LogAnswer t (if kindOf act = ''type'' then DecideType else DecideRun) # xs) t act"
proof -
  obtain p q extra where l: "lg = p @ LogCall t act extra # q" "permitted p t act"
      "LogAsk t (kindOf act) (promptFor pr act) \<in> set q" using assms by (auto simp: asked_def)
  then show ?thesis unfolding mayGo_def
    by (intro exI [of _ p] exI [of _ "q @ LogAnswer t (if kindOf act = ''type'' then DecideType else DecideRun) # xs"] exI [of _ extra]) auto
qed

definition actsAllowed :: "(nat \<Rightarrow> bool) \<Rightarrow> logItem list \<Rightarrow> bool" where
  "actsAllowed pr lg \<longleftrightarrow> (\<forall>pre t act gate post. lg = pre @ LogDid t act gate # post \<longrightarrow> mayGo pr pre t act)"

lemma actsAllowed_append:
  assumes "actsAllowed pr lg" "\<forall>t act gate. LogDid t act gate \<notin> set xs"
  shows "actsAllowed pr (lg @ xs)"
  unfolding actsAllowed_def
proof (intro allI impI)
  fix pre t act gate post
  assume e: "lg @ xs = pre @ LogDid t act gate # post"
  then obtain us where "lg = pre @ us \<and> us @ xs = LogDid t act gate # post \<or> lg @ us = pre \<and> xs = us @ LogDid t act gate # post"
    by (auto simp: append_eq_append_conv2)
  then show "mayGo pr pre t act"
  proof
    assume u: "lg = pre @ us \<and> us @ xs = LogDid t act gate # post"
    then obtain us' where "us = LogDid t act gate # us'" using assms(2) by (cases us) auto
    then show ?thesis using u assms(1) by (auto simp: actsAllowed_def)
  next
    assume "lg @ us = pre \<and> xs = us @ LogDid t act gate # post"
    then show ?thesis using assms(2) by auto
  qed
qed

lemma actsAllowed_did:
  assumes "actsAllowed pr lg" "mayGo pr lg t act"
  shows "actsAllowed pr (lg @ [LogDid t act gate])"
  unfolding actsAllowed_def
proof (intro allI impI)
  fix pre t' act' gate' post
  assume e: "lg @ [LogDid t act gate] = pre @ LogDid t' act' gate' # post"
  show "mayGo pr pre t' act'"
  proof (cases post rule: rev_cases)
    case Nil
    then show ?thesis using e assms(2) by simp
  next
    case (snoc ps z)
    then have "lg = pre @ LogDid t' act' gate' # ps" using e by simp
    then show ?thesis using assms(1) by (auto simp: actsAllowed_def)
  qed
qed

definition bridgeOK :: "(nat \<Rightarrow> bool) \<Rightarrow> bridge \<Rightarrow> bool" where
  "bridgeOK pr b \<longleftrightarrow> grantsLogged b \<and> actsAllowed pr (brLog b) \<and> (\<forall>t act. brCalls b t = Some act \<longrightarrow> asked pr (brLog b) t act)"

lemma bridgeOK_extends: "bridgeOK pr b \<Longrightarrow> extends b b' \<Longrightarrow> bridgeOK pr b'"
  unfolding bridgeOK_def extends_def using actsAllowed_append asked_append by metis

lemma actNow_OK:
  assumes "bridgeOK pr b" "mayGo pr (brLog b) t act"
  shows "bridgeOK pr (actNow ut pr ce t gate act b)"
proof -
  obtain r b1 where f: "finish ut pr ce gate act b = (r, b1)" by fastforce
  have ext: "extends b b1" using finish_extends [of b ut pr ce gate act] f by simp
  then have ok: "bridgeOK pr b1" using bridgeOK_extends assms(1) by blast
  have "mayGo pr (brLog b1) t act" using ext assms(2) mayGo_append by (auto simp: extends_def)
  then have "bridgeOK pr (logB (LogDid t act gate) b1)" using ok actsAllowed_did
    by (auto simp: bridgeOK_def logB_def grantsLogged_def grantLevelOf_def levelAt_snoc asked_append)
  then show ?thesis using ok f by (simp add: actNow_def)
qed

lemma level_logged: "grantsLogged b \<Longrightarrow> levelAt (brLog b) sid = grantLevelOf sid b"
  by (simp add: grantsLogged_def)

lemma enter_run_allows:
  assumes "grantsLogged b" "runEnter (ceExtra ce) sid cmd b = Some (Inr choice)"
  shows "canRun (levelAt (brLog b) sid) \<and>
    (case choice of Go g \<Rightarrow> waived (ceExtra ce) (levelAt (brLog b) sid) (ActRun sid cmd) | Ask kind txt \<Rightarrow> kind = ''run'' \<and> txt = cmd)"
  using assms by (auto simp: runEnter_def Let_def level_logged waived_def split: if_splits option.splits)

lemma enter_allows:
  assumes "grantsLogged b" "enter ut pr ce req b = (Some (Inr (act, choice)), b1)"
  shows "permitted (brLog b @ gateItems ce t act) t act \<and>
    (case choice of Go g \<Rightarrow> waived (ceExtra ce) (levelFor (brLog b @ gateItems ce t act) act) act
     | Ask kind txt \<Rightarrow> kind = kindOf act \<and> txt = promptFor pr act)"
proof (cases req)
  case (ReqRun sid cmd)
  then have e: "act = ActRun sid cmd" "runEnter (ceExtra ce) sid cmd b = Some (Inr choice)"
    using assms(2) by (auto simp: enter_def map_sum_Inr)
  then show ?thesis using enter_run_allows [OF assms(1) e(2)]
    by (cases choice) (simp_all add: permitted_def gateItems_def levelFor_def sessionOf_def kindOf_def promptFor_def)
next
  case (ReqType sid tx)
  then show ?thesis using assms
    by (auto simp: enter_def typeEnter_def Let_def permitted_def gateItems_def levelFor_def sessionOf_def kindOf_def promptFor_def
        waived_def level_logged split: if_splits)
next
  case (ReqDownload sid path)
  then show ?thesis using assms
    by (auto simp: enter_def downloadEnter_def mcpFileSession_def Let_def permitted_def gateItems_def levelFor_def sessionOf_def
        kindOf_def promptFor_def waived_def level_logged split: if_splits option.splits prod.splits bool.splits)
next
  case (ReqExecute sid database sql)
  then show ?thesis using assms
    by (auto simp: enter_def executeEnter_def mcpDbHandle_def bindr_def Let_def permitted_def gateItems_def levelFor_def sessionOf_def
        kindOf_def promptFor_def waived_def level_logged split: if_splits option.splits sum.splits)
next
  case (ReqProduce sid topic part key val hs)
  then show ?thesis using assms
    by (auto simp: enter_def produceEnter_def mcpKafkaCluster_def bindr_def Let_def permitted_def gateItems_def levelFor_def sessionOf_def
        kindOf_def promptFor_def waived_def level_logged split: if_splits option.splits sum.splits)
next
  case (ReqConnect cid level)
  then show ?thesis using assms
    by (auto simp: enter_def openEnter_def Let_def permitted_def gateItems_def kindOf_def promptFor_def map_sum_Inr
        split: option.splits sum.splits)
next
  case (ReqOpenKafka cid level)
  then show ?thesis using assms
    by (auto simp: enter_def openEnter_def Let_def permitted_def gateItems_def kindOf_def promptFor_def map_sum_Inr
        split: option.splits sum.splits)
qed


lemma brCalls_enter: "enter ut pr ce req b = (r, b1) \<Longrightarrow> quiet b b1"
  using quiet_enter [of b ut pr ce req] by simp

text \<open>A call that starts: the state after its gate and its entry in the history.\<close>

lemma call_logged:
  assumes "bridgeOK pr b" "enter ut pr ce req b = (Some (Inr (act, choice)), b1)"
    "b2 = b1\<lparr>brNext := n, brLog := brLog b1 @ gateItems ce t act @ [LogCall t act (ceExtra ce)]\<rparr>"
  shows "bridgeOK pr b2"
proof -
  have q: "quiet b b1" using brCalls_enter assms(2) by blast
  have "extends b b2" using q
    by (auto simp: assms(3) extends_def quiet_def grantsLogged_def grantLevelOf_def levelAt_def gateItems_def split: llmAct.splits)
  then show ?thesis using bridgeOK_extends assms(1) by blast
qed

lemma callStarts_OK:
  assumes "bridgeOK pr b"
  shows "bridgeOK pr (callStarts ut pr ce req b)"
proof (cases "\<exists>act choice b1. enter ut pr ce req b = (Some (Inr (act, choice)), b1)")
  case False
  obtain r b1 where e: "enter ut pr ce req b = (r, b1)" by fastforce
  then have "callStarts ut pr ce req b = b1" using False by (auto simp: callStarts_def split: option.splits sum.splits)
  then show ?thesis using bridgeOK_extends [OF assms quiet_extends [OF brCalls_enter [OF e]]] by simp
next
  case True
  then obtain act choice b1 where e: "enter ut pr ce req b = (Some (Inr (act, choice)), b1)" by blast
  define t where "t = brNext b1"
  define b2 where "b2 = b1\<lparr>brNext := Suc t, brLog := brLog b1 @ gateItems ce t act @ [LogCall t act (ceExtra ce)]\<rparr>"
  have ok: "bridgeOK pr b2" using call_logged [OF assms e b2_def] .
  have lg: "brLog b2 = (brLog b @ gateItems ce t act) @ LogCall t act (ceExtra ce) # []"
    using brCalls_enter [OF e] by (simp add: b2_def quiet_def)
  have a: "permitted (brLog b @ gateItems ce t act) t act"
    "case choice of Go g \<Rightarrow> waived (ceExtra ce) (levelFor (brLog b @ gateItems ce t act) act) act
     | Ask kind txt \<Rightarrow> kind = kindOf act \<and> txt = promptFor pr act"
    using enter_allows [OF _ e, of t] assms by (auto simp: bridgeOK_def)
  show ?thesis
  proof (cases choice)
    case (Go g)
    have "mayGo pr (brLog b2) t act" unfolding mayGo_def using lg a Go
      by (intro exI [of _ "brLog b @ gateItems ce t act"] exI [of _ "[]"] exI [of _ "ceExtra ce"]) simp
    then show ?thesis using actNow_OK [OF ok] Go e by (simp add: callStarts_def Let_def b2_def t_def)
  next
    case (Ask kind tx)
    let ?b = "(logB (LogAsk t kind tx) b2)\<lparr>brApprovals := (brApprovals b2)(t \<mapsto> None), brCalls := (brCalls b2)(t \<mapsto> act)\<rparr>"
    have "asked pr (brLog ?b) t act" unfolding asked_def using lg a Ask
      by (intro exI [of _ "brLog b @ gateItems ce t act"] exI [of _ "[LogAsk t kind tx]"] exI [of _ "ceExtra ce"]) (simp add: logB_def)
    moreover have "extends b2 (logB (LogAsk t kind tx) b2)"
      by (auto simp: extends_def logB_def grantsLogged_def grantLevelOf_def levelAt_snoc)
    then have "bridgeOK pr (logB (LogAsk t kind tx) b2)" using bridgeOK_extends [OF ok] by blast
    ultimately have "bridgeOK pr ?b" by (auto simp: bridgeOK_def grantsLogged_def grantLevelOf_def logB_def)
    then show ?thesis using Ask e by (simp add: callStarts_def Let_def b2_def t_def)
  qed
qed

lemma forget_OK:
  assumes "bridgeOK pr b"
  shows "bridgeOK pr (forget t b)"
  using assms by (auto simp: bridgeOK_def forget_def grantsLogged_def grantLevelOf_def)

lemma answer_OK:
  assumes "bridgeOK pr b"
  shows "bridgeOK pr (logB (LogAnswer t d) b)"
proof -
  have "extends b (logB (LogAnswer t d) b)"
    by (auto simp: extends_def logB_def grantsLogged_def grantLevelOf_def levelAt_snoc)
  then show ?thesis using bridgeOK_extends assms by blast
qed

lemma denied_OK: "bridgeOK pr b \<Longrightarrow> bridgeOK pr (denied ut pr ce act b)"
  using bridgeOK_extends quiet_extends [OF quiet_denied] by blast

lemma approved_kind:
  "approvalFor kind d \<noteq> DecideDeny \<Longrightarrow> approvalFor kind d = (if kind = ''type'' then DecideType else DecideRun)"
  by (auto simp: approvalFor_def split: if_splits decision.splits)

lemma callResumes_OK:
  assumes "bridgeOK pr b"
  shows "bridgeOK pr (callResumes ut pr ce t b)"
proof (cases "\<exists>act d. brCalls b t = Some act \<and> brApprovals b t = Some (Some d)")
  case False
  then show ?thesis using assms by (auto simp: callResumes_def split: option.splits)
next
  case True
  then obtain act d where c: "brCalls b t = Some act" "brApprovals b t = Some (Some d)" by blast
  let ?d = "approvalFor (kindOf act) d"
  let ?b = "logB (LogAnswer t ?d) (forget t b)"
  have ok: "bridgeOK pr ?b" using answer_OK forget_OK assms by blast
  have "mayGo pr (brLog ?b) t act" if "?d \<noteq> DecideDeny"
    using asked_answered [of pr "brLog b" t act "[]"] assms c approved_kind [OF that]
    by (simp add: bridgeOK_def logB_def forget_def)
  then have "bridgeOK pr (if ?d = DecideDeny then denied ut pr ce act ?b else actNow ut pr ce t ''approved'' act ?b)"
    using actNow_OK [OF ok] denied_OK [OF ok, of ut ce act] by (auto split: if_splits)
  then show ?thesis using c by (simp add: callResumes_def Let_def)
qed

lemma callTimesOut_OK: "bridgeOK pr b \<Longrightarrow> bridgeOK pr (callTimesOut ut pr ce t b)"
  using denied_OK answer_OK forget_OK by (simp add: callTimesOut_def split: option.splits)

lemma bridgeStep_OK:
  assumes "bridgeOK pr b"
  shows "bridgeOK pr (bridgeStep ut pr ev b)"
proof (cases ev)
  case (EvShare sid level)
  then show ?thesis using bridgeOK_extends [OF assms share_extends] by (simp add: bridgeStep_def)
next
  case (EvUnshare sid)
  then show ?thesis using bridgeOK_extends [OF assms unshare_extends] by (simp add: bridgeStep_def)
next
  case (EvManage on)
  then have "quiet b (bridgeStep ut pr ev b)" by (simp add: bridgeStep_def McpSetManageStore_def quiet_def Let_def)
  then show ?thesis using bridgeOK_extends [OF assms quiet_extends] by blast
next
  case (EvUp x)
  then show ?thesis using bridgeOK_extends [OF assms quiet_extends [OF addOpened_quiet]] by (simp add: bridgeStep_def)
next
  case (EvClear sid)
  have "extends b (clearMcpGrant sid b)" by (simp add: clearMcpGrant_def unshare_extends)
  then show ?thesis using EvClear bridgeOK_extends [OF assms] by (simp add: bridgeStep_def)
next
  case (EvGone sid)
  then have "quiet b (bridgeStep ut pr ev b)" by (simp add: bridgeStep_def quiet_def)
  then show ?thesis using bridgeOK_extends [OF assms quiet_extends] by blast
next
  case (EvAnswer t answer)
  then have "quiet b (bridgeStep ut pr ev b)"
    by (simp add: bridgeStep_def McpApprovalRespond_def quiet_def split: option.splits)
  then show ?thesis using bridgeOK_extends [OF assms quiet_extends] by blast
next
  case (EvCall ce req)
  then show ?thesis using callStarts_OK [OF assms] by (simp add: bridgeStep_def)
next
  case (EvResume ce t)
  then show ?thesis using callResumes_OK [OF assms] by (simp add: bridgeStep_def)
next
  case (EvTimeout ce t)
  then show ?thesis using callTimesOut_OK [OF assms] by (simp add: bridgeStep_def)
qed

lemma bridgeRun_OK: "bridgeOK pr b \<Longrightarrow> bridgeOK pr (bridgeRun ut pr evs b)"
  by (induction evs arbitrary: b) (simp_all add: bridgeRun_def bridgeStep_OK)

lemma newBridge_OK: "bridgeOK pr newMcpState"
  by (simp add: bridgeOK_def newMcpState_def grantsLogged_def grantLevelOf_def levelAt_def actsAllowed_def)

section \<open>What holds of every run\<close>


subsection \<open>A concrete run\<close>

definition plainEnv :: callEnv where
  "plainEnv = \<lparr>ceNow = 0, ceExtra = [], ceStore = oneHost, ceEntry = (\<lambda>_. None), ceStat = None, ceRun = Some (''done'', False),
     ceWritten = True, ceDest = None, ceBytes = None, ceDb = Inr [], ceKafka = Inr (0, 0), ceOpened = Inl []\<rparr>"

definition asksThenTypes :: "bridgeEvent list" where
  "asksThenTypes = [EvUp (OpenedSession ''s'' ''web'' ''web.example''), EvShare ''s'' ''read-run'',
     EvCall plainEnv (ReqType ''s'' ''reboot''), EvAnswer 0 ''type'', EvResume plainEnv 0]"

lemma asksThenTypes_log:
  "brLog (bridgeRun ut pr asksThenTypes newMcpState) =
     [LogGrant ''s'' GrantReadRun, LogCall 0 (ActType ''s'' ''reboot'') [], LogAsk 0 ''type'' ''reboot'', LogAnswer 0 DecideType] @
     LogDid 0 (ActType ''s'' ''reboot'') ''approved'' # []"
  by (simp add: asksThenTypes_def bridgeRun_def bridgeStep_def newMcpState_def addOpened_def McpShareSession_def shareCheck_def
      shareInsert_def shareLevel_def callStarts_def enter_def typeEnter_def grantLevelOf_def Let_def gateItems_def logB_def
      McpApprovalRespond_def parseDecision_def callResumes_def kindOf_def approvalFor_def forget_def actNow_def finish_def
      typeFinish_def recordActivity_def plainEnv_def event_def noActivity_def sessionDisplayName_def capOutput_def)


section \<open>The level without prompts\<close>

text \<open>Nothing but a share of the user gives it: opens that wait, and opens that finish, carry no more than running with prompts.\<close>

definition yoloShared :: "string set \<Rightarrow> bridge \<Rightarrow> bool" where
  "yoloShared U b \<longleftrightarrow> (\<forall>sid. brGrants b sid = Some GrantYolo \<longrightarrow> sid \<in> U) \<and>
     (\<forall>t kt ui label. brCalls b t \<noteq> Some (ActOpen kt ui label GrantYolo))"

lemma yolo_quiet: "quiet b b' \<Longrightarrow> yoloShared U b \<Longrightarrow> yoloShared U b'"
  by (simp add: quiet_def yoloShared_def)

lemma shareLevel_yolo: "shareLevel level = Some GrantYolo \<longleftrightarrow> level = ''read-run-yolo''"
  by (simp add: shareLevel_def)

lemma yolo_share:
  assumes "yoloShared U b" "level = ''read-run-yolo'' \<Longrightarrow> sid \<in> U"
  shows "yoloShared U (snd (McpShareSession sid level b))"
  using assms shareLevel_yolo [of level]
  by (auto simp: McpShareSession_def shareCheck_def shareInsert_def yoloShared_def logB_def split: if_splits option.splits)

lemma yolo_unshare: "yoloShared U b \<Longrightarrow> yoloShared U (McpUnshareSession sid b)"
  by (auto simp: McpUnshareSession_def yoloShared_def logB_def)

lemma yolo_finish:
  assumes "yoloShared U b" "\<nexists>kt ui label. act = ActOpen kt ui label GrantYolo"
  shows "yoloShared U (snd (finish ut pr ce gate act b))"
proof (cases "\<exists>kt ui label lvl. act = ActOpen kt ui label lvl")
  case False
  then show ?thesis using yolo_quiet [OF quiet_finish assms(1)] by blast
next
  case True
  then obtain kt ui label lvl where act: "act = ActOpen kt ui label lvl" by blast
  then have "levelName lvl \<noteq> ''read-run-yolo''" using assms(2) by (cases lvl) (auto simp: levelName_def)
  then show ?thesis using act assms(1) yolo_quiet [OF addOpened_quiet] yolo_quiet [OF quiet_record] yolo_share
    by (auto simp: finish_def openFinish_def Let_def split: sum.splits)
qed

lemma yolo_actNow:
  "yoloShared U b \<Longrightarrow> \<nexists>kt ui label. act = ActOpen kt ui label GrantYolo \<Longrightarrow> yoloShared U (actNow ut pr ce t gate act b)"
  using yolo_finish [of U b act ut pr ce gate]
  by (auto simp: actNow_def yoloShared_def logB_def split: prod.splits)

lemma enter_no_yolo: "enter ut pr ce req b = (Some (Inr (act, choice)), b1) \<Longrightarrow> act \<noteq> ActOpen kt ui label GrantYolo"
  by (cases req) (auto simp: enter_def map_sum_Inr mcpConnectGrant_def tabGrant_def Let_def split: prod.splits if_splits)

lemma yolo_step:
  assumes "yoloShared U b" "\<And>sid. ev = EvShare sid ''read-run-yolo'' \<Longrightarrow> sid \<in> U"
  shows "yoloShared U (bridgeStep ut pr ev b)"
proof (cases ev)
  case (EvCall ce req)
  obtain r b1 where e: "enter ut pr ce req b = (r, b1)" by fastforce
  have ok: "yoloShared U b1" using yolo_quiet [OF brCalls_enter [OF e] assms(1)] .
  show ?thesis
  proof (cases "\<exists>act choice. r = Some (Inr (act, choice))")
    case False
    then show ?thesis using EvCall e ok by (auto simp: bridgeStep_def callStarts_def split: option.splits sum.splits)
  next
    case True
    then obtain act choice where r: "r = Some (Inr (act, choice))" by blast
    then have n: "\<nexists>kt ui label. act = ActOpen kt ui label GrantYolo" using enter_no_yolo e by blast
    let ?b = "b1\<lparr>brNext := Suc (brNext b1), brLog := brLog b1 @ gateItems ce (brNext b1) act @ [LogCall (brNext b1) act (ceExtra ce)]\<rparr>"
    have b: "yoloShared U ?b" using ok by (simp add: yoloShared_def)
    show ?thesis
    proof (cases choice)
      case (Go g)
      then show ?thesis using EvCall e r yolo_actNow [OF b n] by (simp add: bridgeStep_def callStarts_def Let_def)
    next
      case (Ask k tx)
      then show ?thesis using EvCall e r b n by (auto simp: bridgeStep_def callStarts_def Let_def yoloShared_def logB_def)
    qed
  qed
next
  case (EvResume ce t)
  have f: "yoloShared U (logB x (forget t b))" for x using assms(1) by (auto simp: yoloShared_def logB_def forget_def)
  have n: "\<nexists>kt ui label. act = ActOpen kt ui label GrantYolo" if "brCalls b t = Some act" for act
    using that assms(1) by (auto simp: yoloShared_def)
  have "yoloShared U (callResumes ut pr ce t b)"
    using assms(1) yolo_actNow [OF f n] yolo_quiet [OF quiet_denied f]
    by (auto simp: callResumes_def Let_def split: option.splits simp del: not_ex)
  then show ?thesis using EvResume by (simp add: bridgeStep_def)
next
  case (EvTimeout ce t)
  have f: "yoloShared U (logB x (forget t b))" for x using assms(1) by (auto simp: yoloShared_def logB_def forget_def)
  show ?thesis
    using EvTimeout assms(1) yolo_quiet [OF quiet_denied f] by (auto simp: bridgeStep_def callTimesOut_def split: option.splits)
next
  case (EvUp x)
  then show ?thesis using yolo_quiet [OF addOpened_quiet assms(1)] by (simp add: bridgeStep_def)
next
  case (EvShare sid level)
  then show ?thesis using yolo_share [OF assms(1), of level sid] assms(2) by (simp add: bridgeStep_def)
next
  case (EvUnshare sid)
  then show ?thesis using yolo_unshare [OF assms(1)] by (simp add: bridgeStep_def)
next
  case (EvClear sid)
  then show ?thesis using yolo_unshare [OF assms(1)] by (simp add: bridgeStep_def clearMcpGrant_def)
next
  case (EvManage on)
  then have "quiet b (bridgeStep ut pr ev b)" by (simp add: bridgeStep_def McpSetManageStore_def quiet_def)
  then show ?thesis using yolo_quiet assms(1) by blast
next
  case (EvGone sid)
  then have "quiet b (bridgeStep ut pr ev b)" by (simp add: bridgeStep_def quiet_def)
  then show ?thesis using yolo_quiet assms(1) by blast
next
  case (EvAnswer t answer)
  then have "quiet b (bridgeStep ut pr ev b)"
    by (simp add: bridgeStep_def McpApprovalRespond_def quiet_def split: option.splits)
  then show ?thesis using yolo_quiet assms(1) by blast
qed

lemma yolo_run:
  "yoloShared U b \<Longrightarrow> (\<And>sid. EvShare sid ''read-run-yolo'' \<in> set evs \<Longrightarrow> sid \<in> U) \<Longrightarrow> yoloShared U (bridgeRun ut pr evs b)"
  by (induction evs arbitrary: b) (simp_all add: bridgeRun_def yolo_step)

text \<open>C11: however the model opens sessions and tabs, and whatever it asks for, a session holds the level that runs without prompts
  only when the user shared that session at that level.\<close>

theorem only_the_user_waives_prompts:
  assumes "brGrants (bridgeRun ut pr evs newMcpState) sid = Some GrantYolo"
  shows "EvShare sid ''read-run-yolo'' \<in> set evs"
  using yolo_run [of "{s. EvShare s ''read-run-yolo'' \<in> set evs}" newMcpState evs ut pr] assms
  by (auto simp: yoloShared_def newMcpState_def)

definition sharesYolo :: "bridgeEvent list" where
  "sharesYolo = [EvUp (OpenedSession ''s'' ''web'' ''web.example''), EvShare ''s'' ''read-run-yolo'']"

lemma only_the_user_waives_prompts_witness: "EvShare ''s'' ''read-run-yolo'' \<in> set sharesYolo"
  by (rule only_the_user_waives_prompts [of asciiTables "\<lambda>_. True"])
    (simp add: sharesYolo_def bridgeRun_def bridgeStep_def newMcpState_def addOpened_def McpShareSession_def shareCheck_def
      shareInsert_def shareLevel_def logB_def)

section \<open>A grant that outlives its session\<close>

text \<open>closing a session removes its grant before the session leaves the pool, so a share that falls between the two leaves a
  grant for a session that is gone.\<close>

lemma grant_outlives_session:
  assumes "sid \<in> brPool b" "shareLevel level = Some lvl" "\<not> HasPrefix sid ''kafka:''" "\<not> HasPrefix sid ''db:''"
  shows "let b' = bridgeRun ut pr [EvClear sid, EvShare sid level, EvGone sid] b
         in sid \<notin> brPool b' \<and> brGrants b' sid = Some lvl"
  using assms
  by (simp add: bridgeRun_def bridgeStep_def clearMcpGrant_def McpUnshareSession_def McpShareSession_def shareCheck_def
      shareInsert_def logB_def)

lemma grant_outlives_session_witness:
  "let b' = bridgeRun asciiTables (\<lambda>_. True) [EvClear ''s'', EvShare ''s'' ''read-run'', EvGone ''s'']
              (addOpened (OpenedSession ''s'' ''web'' ''web.example'') newMcpState)
   in ''s'' \<notin> brPool b' \<and> brGrants b' ''s'' = Some GrantReadRun"
  by (rule grant_outlives_session) (simp_all add: addOpened_def shareLevel_def)

end
