(* ===== verification/NetAddr.thy ===== *)
theory NetAddr
  imports GoStrings
begin

text \<open>
  Addresses and prefixes of the standard library's \<open>netip\<close>, which the network parts use: reading, printing,
  masking and containment. An address is its number with its family; only an IPv6 address has a zone.
\<close>

section \<open>Addresses\<close>

datatype ipAddr = IP4 nat | IP6 nat string

type_synonym prefix = "ipAddr \<times> nat"

definition BitLen :: "ipAddr \<Rightarrow> nat" where
  "BitLen a = (case a of IP4 _ \<Rightarrow> 32 | IP6 _ _ \<Rightarrow> 128)"

definition addrValue :: "ipAddr \<Rightarrow> nat" where
  "addrValue a = (case a of IP4 n \<Rightarrow> n | IP6 n _ \<Rightarrow> n)"

definition Is4 :: "ipAddr \<Rightarrow> bool" where
  "Is4 a = (case a of IP4 _ \<Rightarrow> True | IP6 _ _ \<Rightarrow> False)"

definition zoneOf :: "ipAddr \<Rightarrow> string" where
  "zoneOf a = (case a of IP4 _ \<Rightarrow> [] | IP6 _ z \<Rightarrow> z)"

definition withoutZone :: "ipAddr \<Rightarrow> ipAddr" where
  "withoutZone a = (case a of IP4 n \<Rightarrow> IP4 n | IP6 n _ \<Rightarrow> IP6 n [])"

definition Is4In6 :: "ipAddr \<Rightarrow> bool" where
  "Is4In6 a = (case a of IP4 _ \<Rightarrow> False | IP6 n _ \<Rightarrow> n div 2 ^ 32 = 0xffff)"

definition Unmap :: "ipAddr \<Rightarrow> ipAddr" where
  "Unmap a = (if Is4In6 a then IP4 (addrValue a mod 2 ^ 32) else a)"

definition bytesValue :: "nat list \<Rightarrow> nat" where
  "bytesValue bs = foldl (\<lambda>v b. v * 256 + b) 0 bs"

definition AddrFromSlice :: "nat list \<Rightarrow> ipAddr option" where
  "AddrFromSlice bs = (if length bs = 4 then Some (IP4 (bytesValue bs)) else if length bs = 16 then Some (IP6 (bytesValue bs) []) else None)"

section \<open>Reading\<close>

text \<open>The four fields of an IPv4 address: the value and the digits of the field being read, then the fields before it.\<close>

fun v4Fields :: "nat \<Rightarrow> nat \<Rightarrow> nat list \<Rightarrow> string \<Rightarrow> nat list option" where
  "v4Fields val digits fs [] = (if length fs < 3 then None else Some (fs @ [val]))"
| "v4Fields val digits fs (c # r) =
     (if isDigitA c then
        (if digits = 1 \<and> val = 0 then None
         else let v = val * 10 + (byte c - 48) in if v > 255 then None else v4Fields v (digits + 1) fs r)
      else if c = CHR ''.'' then
        (if r = [] \<or> digits = 0 then None
         else if length fs = 3 then None
         else v4Fields 0 0 (fs @ [val]) r)
      else None)"

definition parseIPv4Fields :: "string \<Rightarrow> nat list option" where
  "parseIPv4Fields s = v4Fields 0 0 [] s"

definition hexVal :: "char \<Rightarrow> nat option" where
  "hexVal c = (if isDigitA c then Some (byte c - 48)
     else if 97 \<le> byte c \<and> byte c \<le> 102 then Some (byte c - 87)
     else if 65 \<le> byte c \<and> byte c \<le> 70 then Some (byte c - 55)
     else None)"

text \<open>The hexadecimal digits at the front: how many, and their value; at most four.\<close>

fun hexRun :: "nat \<Rightarrow> nat \<Rightarrow> string \<Rightarrow> (nat \<times> nat) option" where
  "hexRun off acc [] = Some (off, acc)"
| "hexRun off acc (c # r) =
     (case hexVal c of None \<Rightarrow> Some (off, acc)
      | Some d \<Rightarrow> if off > 3 then None else if acc * 16 + d > 0xffff then None else hexRun (off + 1) (acc * 16 + d) r)"

text \<open>The groups of an IPv6 address: the bytes so far, where the double colon stood, and what is left.\<close>

function v6Loop :: "string \<Rightarrow> nat list \<Rightarrow> nat option \<Rightarrow> (nat list \<times> nat option \<times> string) option" where
  "v6Loop s bs ell =
     (if length bs \<ge> 16 then Some (bs, ell, s)
      else case hexRun 0 0 s of None \<Rightarrow> None
        | Some (off, acc) \<Rightarrow>
            if off = 0 then None
            else if off < length s \<and> s ! off = CHR ''.'' then
              (if ell = None \<and> length bs \<noteq> 12 then None
               else if length bs + 4 > 16 then None
               else map_option (\<lambda>fs. (bs @ fs, ell, [])) (parseIPv4Fields s))
            else (let bs' = bs @ [acc div 256, acc mod 256]; s1 = drop off s
              in if s1 = [] then Some (bs', ell, [])
                 else if hd s1 \<noteq> CHR '':'' then None
                 else if tl s1 = [] then None
                 else if hd (tl s1) \<noteq> CHR '':'' then v6Loop (tl s1) bs' ell
                 else if ell \<noteq> None then None
                 else if tl (tl s1) = [] then Some (bs', Some (length bs'), [])
                 else v6Loop (tl (tl s1)) bs' (Some (length bs'))))"
  by pat_completeness auto
termination by (relation "measure (\<lambda>(s, bs, ell). length s)") auto

declare v6Loop.simps [simp del]

definition v6From :: "string \<Rightarrow> string \<Rightarrow> ipAddr option" where
  "v6From s0 zone =
     (let lead = HasPrefix s0 ''::''; s = (if lead then drop 2 s0 else s0)
      in if lead \<and> s = [] then Some (IP6 0 zone)
         else case v6Loop s [] (if lead then Some 0 else None) of None \<Rightarrow> None
           | Some (bs, ell, rest) \<Rightarrow>
               if rest \<noteq> [] then None
               else case ell of
                 None \<Rightarrow> if length bs < 16 then None else Some (IP6 (bytesValue bs) zone)
               | Some e \<Rightarrow> if length bs < 16 then Some (IP6 (bytesValue (take e bs @ replicate (16 - length bs) 0 @ drop e bs)) zone) else None)"

definition parseIPv6 :: "string \<Rightarrow> ipAddr option" where
  "parseIPv6 input =
     (case IndexByte input CHR ''%'' of
        Some i \<Rightarrow> if drop (i + 1) input = [] then None else v6From (take i input) (drop (i + 1) input)
      | None \<Rightarrow> v6From input [])"

definition parseIPv4 :: "string \<Rightarrow> ipAddr option" where
  "parseIPv4 s = map_option (\<lambda>fs. IP4 (bytesValue fs)) (parseIPv4Fields s)"

definition ParseAddr :: "string \<Rightarrow> ipAddr option" where
  "ParseAddr s =
     (case find (\<lambda>c. c = CHR ''.'' \<or> c = CHR '':'' \<or> c = CHR ''%'') s of
        Some c \<Rightarrow> if c = CHR ''.'' then parseIPv4 s else if c = CHR '':'' then parseIPv6 s else None
      | None \<Rightarrow> None)"

text \<open>What stands before and after the last slash.\<close>

definition cutLast :: "char \<Rightarrow> string \<Rightarrow> (string \<times> string) option" where
  "cutLast c s = (if c \<in> set s
     then Some (rev (tl (dropWhile (\<lambda>x. x \<noteq> c) (rev s))), rev (takeWhile (\<lambda>x. x \<noteq> c) (rev s))) else None)"

definition ParsePrefix :: "string \<Rightarrow> prefix option" where
  "ParsePrefix s =
     (case cutLast CHR ''/'' s of None \<Rightarrow> None
      | Some (ipText, bitsStr) \<Rightarrow>
     (case ParseAddr ipText of None \<Rightarrow> None
      | Some ip \<Rightarrow>
          if zoneOf ip \<noteq> [] then None
          else if length bitsStr > 1 \<and> \<not> (49 \<le> byte (hd bitsStr) \<and> byte (hd bitsStr) \<le> 57) then None
          else case Atoi bitsStr of None \<Rightarrow> None
            | Some bits \<Rightarrow> if bits < 0 \<or> bits > int (BitLen ip) then None else Some (ip, nat bits)))"

section \<open>Printing\<close>

definition string4 :: "nat \<Rightarrow> string" where
  "string4 n = Join (map (\<lambda>i. natDigits (n div 256 ^ i mod 256)) [3, 2, 1, 0]) ''.''"

definition lowHex :: "nat \<Rightarrow> char" where
  "lowHex d = (if d < 10 then chr (48 + d) else chr (87 + d))"

text \<open>A group without leading zeros.\<close>

definition appendHex :: "nat \<Rightarrow> string" where
  "appendHex n = (if n \<ge> 0x1000 then [lowHex (n div 0x1000)] else []) @ (if n \<ge> 0x100 then [lowHex (n div 0x100 mod 16)] else [])
     @ (if n \<ge> 0x10 then [lowHex (n div 0x10 mod 16)] else []) @ [lowHex (n mod 16)]"

definition groupsOf :: "nat \<Rightarrow> nat list" where
  "groupsOf n = map (\<lambda>i. n div 0x10000 ^ i mod 0x10000) (rev [0..<8])"

text \<open>The first longest run of at least two zero groups, from and to; (255, 255) when there is none.\<close>

definition zeroRun :: "nat list \<Rightarrow> nat \<times> nat" where
  "zeroRun gs = foldl (\<lambda>(zs, ze) i. let j = i + length (takeWhile (\<lambda>g. g = 0) (drop i gs))
       in if j - i \<ge> 2 \<and> j - i > ze - zs then (i, j) else (zs, ze)) (255, 255) [0..<8]"

definition string6 :: "nat \<Rightarrow> string \<Rightarrow> string" where
  "string6 n zone =
     (let gs = groupsOf n; groups = (\<lambda>xs. Join (map appendHex xs) '':'')
      in (case zeroRun gs of (zs, ze) \<Rightarrow>
            if zs = 255 then groups gs
            else groups (take zs gs) @ ''::'' @ groups (drop ze gs))
         @ (if zone \<noteq> [] then CHR ''%'' # zone else []))"

definition AddrString :: "ipAddr \<Rightarrow> string" where
  "AddrString a =
     (case a of IP4 n \<Rightarrow> string4 n
      | IP6 n zone \<Rightarrow> if Is4In6 a then ''::ffff:'' @ string4 (n mod 2 ^ 32) @ (if zone \<noteq> [] then CHR ''%'' # zone else [])
          else string6 n zone)"

definition PrefixString :: "prefix \<Rightarrow> string" where
  "PrefixString p = AddrString (fst p) @ ''/'' @ natDigits (snd p)"

section \<open>Prefixes\<close>

definition PrefixFrom :: "ipAddr \<Rightarrow> nat \<Rightarrow> prefix" where
  "PrefixFrom a bits = (withoutZone a, bits)"

text \<open>The prefix of one address.\<close>

definition hostPrefix :: "ipAddr \<Rightarrow> prefix" where
  "hostPrefix a = PrefixFrom a (BitLen a)"

definition Masked :: "prefix \<Rightarrow> prefix" where
  "Masked p = (case p of (IP4 n, b) \<Rightarrow> (IP4 (n div 2 ^ (32 - b) * 2 ^ (32 - b)), b)
     | (IP6 n z, b) \<Rightarrow> (IP6 (n div 2 ^ (128 - b) * 2 ^ (128 - b)) [], b))"

definition prefixContains :: "prefix \<Rightarrow> ipAddr \<Rightarrow> bool" where
  "prefixContains p a \<longleftrightarrow> zoneOf a = [] \<and> Is4 a = Is4 (fst p) \<and>
     addrValue a div 2 ^ (BitLen a - snd p) = addrValue (fst p) div 2 ^ (BitLen a - snd p)"

end
