(* ===== verification/ProxyRoutes.thy ===== *)
theory ProxyRoutes
  imports NetAddr JumpRefs Utf8 "HOL-Library.List_Lexorder"
begin

text \<open>
  The app proxy's routing, \<open>app_sharedproxy.go\<close>, \<open>app_localproxy.go\<close> and \<open>app_bastionproxy.go\<close>: what a profile
  reaches, the table built from the profiles, the connections and the runner's extra hosts, and the pick of
  a profile or a jump host for a destination. A profile stands for what its stored config decodes to; the
  table is the one a rebuild gives, which the source keeps for fifteen seconds.
\<close>

section \<open>Text\<close>

definition Trim :: "string \<Rightarrow> string \<Rightarrow> string" where
  "Trim s cs = rev (dropWhile (\<lambda>c. c \<in> set cs) (rev (dropWhile (\<lambda>c. c \<in> set cs) s)))"

definition sortStrings :: "string list \<Rightarrow> string list" where
  "sortStrings xs = sort_key (map byte) xs"

definition stringLess :: "string \<Rightarrow> string \<Rightarrow> bool" where
  "stringLess a b \<longleftrightarrow> map byte a < map byte b"

text \<open>The name of a host as the table of connection names has it.\<close>

definition hostKey :: "unicodeTables \<Rightarrow> string \<Rightarrow> string" where
  "hostKey ut h = ToLower ut (TrimSuffix h ''.'')"

section \<open>A profile\<close>

record localProxyConfig =
  lpEnabled :: bool
  lpShared :: bool
  lpBind :: string
  lpPort :: int
  lpNetworks :: "string list"
  lpDomains :: "string list"

record profileRow =
  npID :: string
  npName :: string
  npKind :: string
  npAllowedIPs :: "string list"       \<comment> \<open>of the peers, in order\<close>
  npLastRoutes :: "string list"
  npLastDomains :: "string list"
  npLastSearch :: "string list"
  npProxy :: localProxyConfig

definition domainRune :: "char \<Rightarrow> bool" where
  "domainRune c \<longleftrightarrow> isLowerA c \<or> isDigitA c \<or> c = CHR ''-'' \<or> c = CHR ''_''"

definition goodLabel :: "string \<Rightarrow> bool" where
  "goodLabel l \<longleftrightarrow> l \<noteq> [] \<and> length l \<le> 63 \<and> list_all domainRune l"

datatype domainError = EmptyDomain | LongDomain | NumericEnd | NotADomain

definition normalizeDomain :: "unicodeTables \<Rightarrow> string \<Rightarrow> domainError + string" where
  "normalizeDomain ut s =
     (let d = Trim (TrimPrefix (ToLower ut (TrimSpace s)) ''*.'') ''.''; labels = SplitByte d CHR ''.''
      in if d = [] then Inl EmptyDomain
         else if length d > 253 then Inl LongDomain
         else if Trim (last labels) ''0123456789'' = [] then Inl NumericEnd
         else if list_all goodLabel labels then Inr d else Inl NotADomain)"

text \<open>The domain a host is in, the longest; empty when none.\<close>

definition inDomain :: "string \<Rightarrow> string \<Rightarrow> bool" where
  "inDomain h d \<longleftrightarrow> h = d \<or> HasSuffix h (CHR ''.'' # d)"

definition domainOf :: "unicodeTables \<Rightarrow> string \<Rightarrow> string list \<Rightarrow> string" where
  "domainOf ut host domains =
     foldl (\<lambda>best d. if inDomain (hostKey ut host) d \<and> length d > length best then d else best) [] domains"

definition goodDomains :: "unicodeTables \<Rightarrow> string list \<Rightarrow> string list" where
  "goodDomains ut ds = concat (map (\<lambda>d. case normalizeDomain ut d of Inl _ \<Rightarrow> [] | Inr n \<Rightarrow> [n]) ds)"

text \<open>The list without repetitions, the first of each kept.\<close>

definition distinctFirst :: "'a list \<Rightarrow> 'a list" where
  "distinctFirst xs = rev (remdups (rev xs))"

definition profileDomains :: "unicodeTables \<Rightarrow> profileRow \<Rightarrow> string list \<times> string list \<times> string list" where
  "profileDomains ut row =
     (let gateway = distinctFirst (goodDomains ut (npLastDomains row)); hand = goodDomains ut (lpDomains (npProxy row))
      in (distinctFirst (gateway @ hand), gateway, distinctFirst (goodDomains ut (npLastSearch row) @ hand)))"

definition parseRoute :: "string \<Rightarrow> prefix option" where
  "parseRoute s0 =
     (let s = TrimSpace (fst (Cut s0 '' ''))
      in case ParsePrefix s of Some p \<Rightarrow> Some (Masked p) | None \<Rightarrow> map_option hostPrefix (ParseAddr s))"

text \<open>Default routes are left out.\<close>

definition routeOf :: "string \<Rightarrow> prefix option" where
  "routeOf s = (case parseRoute s of None \<Rightarrow> None | Some p \<Rightarrow> if snd p = 0 then None else Some p)"

definition kindWireguard :: string where "kindWireguard = ''wireguard''"

text \<open>\<open>conns\<close> when they can be read.\<close>

definition connRoutes :: "profileRow \<Rightarrow> connection list \<Rightarrow> folder list \<Rightarrow> prefix list" where
  "connRoutes row conns folders =
     List.map_filter (\<lambda>c. let rs = ResolveWith c folders
        in if rNetworkProfileID rs \<noteq> Some (npID row) then None
           else case ParseAddr (rHostname rs) of None \<Rightarrow> None | Some ip \<Rightarrow> routeOf (AddrString ip)) conns"

definition ownRoutes :: "profileRow \<Rightarrow> prefix list" where
  "ownRoutes row = List.map_filter routeOf (if npKind row = kindWireguard then npAllowedIPs row else npLastRoutes row)"

definition profileRoutes :: "profileRow \<Rightarrow> connection list \<Rightarrow> folder list \<Rightarrow> string list" where
  "profileRoutes row conns folders =
     sortStrings (map PrefixString (remdups
       (ownRoutes row @ connRoutes row conns folders @ List.map_filter routeOf (lpNetworks (npProxy row)))))"

text \<open>Without the routes another route covers.\<close>

definition keepRoutes :: "prefix list \<Rightarrow> prefix list" where
  "keepRoutes ps = foldl (\<lambda>keep p. if list_ex (\<lambda>k. snd k \<le> snd p \<and> prefixContains k (fst p)) keep then keep else keep @ [p]) []
     (sort_key snd ps)"

definition collapseRoutes :: "string list \<Rightarrow> string list" where
  "collapseRoutes routes =
     sortStrings (map PrefixString (keepRoutes (List.map_filter (\<lambda>r. map_option Masked (ParsePrefix r)) routes)))"

section \<open>The table\<close>

text \<open>What the rebuild reads; \<open>peOrder\<close> is the order in which the source ranges over the map of jump names.\<close>

record proxyEnv =
  peProfiles :: "profileRow list option"
  peConns :: "connection list option"
  peFolders :: "folder list"
  peJump :: bool                      \<comment> \<open>the setting that lets jump hosts through\<close>
  peExtra :: "string list"            \<comment> \<open>the runner's \<open>name:ip\<close> entries\<close>
  peOrder :: "(string \<times> string) list \<Rightarrow> (string \<times> string) list"

record sharedRoute =
  srPrefix :: prefix
  srProfile :: string
  srName :: string
  srPinned :: bool

record sharedDomain =
  sdSuffix :: string
  sdProfile :: string
  sdName :: string
  sdGateway :: bool

record sharedSearch =
  ssProfile :: string
  ssName :: string
  ssDomains :: "string list"

record sharedTable =
  stRoutes :: "sharedRoute list"
  stHosts :: "string \<rightharpoonup> string"
  stDomains :: "sharedDomain list"
  stSearch :: "sharedSearch list"

definition jumpRoutePrefix :: string where "jumpRoutePrefix = ''jump:''"

definition jumpRouteID :: "string \<Rightarrow> string" where "jumpRouteID cid = jumpRoutePrefix @ cid"

definition jumpConnOf :: "string \<Rightarrow> string" where
  "jumpConnOf i = (case CutPrefix i jumpRoutePrefix of Some c \<Rightarrow> c | None \<Rightarrow> [])"

definition jumpRouteName :: string where "jumpRouteName = ''connections with a jump host''"

definition sharedProfiles :: "proxyEnv \<Rightarrow> profileRow list" where
  "sharedProfiles env = filter (\<lambda>r. lpShared (npProxy r)) (valueOr (peProfiles env) [])"

text \<open>Where a connection of a shared profile goes: its address pinned to the profile, or its name.\<close>

definition sharedConn :: "unicodeTables \<Rightarrow> proxyEnv \<Rightarrow> connection \<Rightarrow> (string \<times> prefix + string \<times> string) option" where
  "sharedConn ut env c =
     (let rs = ResolveWith c (peFolders env)
      in case rNetworkProfileID rs of None \<Rightarrow> None
         | Some pid \<Rightarrow>
             if rHostname rs = [] \<or> pid \<notin> npID ` set (sharedProfiles env) then None
             else case ParseAddr (TrimSuffix (rHostname rs) ''.'') of
               Some ip \<Rightarrow> Some (Inl (pid, hostPrefix (Unmap ip)))
             | None \<Rightarrow> Some (Inr (hostKey ut (rHostname rs), pid)))"

definition profilePins :: "unicodeTables \<Rightarrow> proxyEnv \<Rightarrow> profileRow \<Rightarrow> prefix list" where
  "profilePins ut env r =
     List.map_filter parseRoute (lpNetworks (npProxy r)) @
     List.map_filter (\<lambda>c. case sharedConn ut env c of Some (Inl (pid, p)) \<Rightarrow> if pid = npID r then Some p else None | _ \<Rightarrow> None)
       (valueOr (peConns env) [])"

definition connHosts :: "unicodeTables \<Rightarrow> proxyEnv \<Rightarrow> string \<rightharpoonup> string" where
  "connHosts ut env =
     foldl (\<lambda>m c. case sharedConn ut env c of Some (Inr (k, pid)) \<Rightarrow> m(k \<mapsto> pid) | _ \<Rightarrow> m) Map.empty (valueOr (peConns env) [])"

definition profileTable :: "unicodeTables \<Rightarrow> proxyEnv \<Rightarrow> profileRow \<Rightarrow> sharedRoute list" where
  "profileTable ut env r =
     map (\<lambda>p. \<lparr>srPrefix = p, srProfile = npID r, srName = npName r, srPinned = p \<in> set (profilePins ut env r)\<rparr>)
       (List.map_filter ParsePrefix (profileRoutes r (valueOr (peConns env) []) (peFolders env)))"

text \<open>
  The connections with a jump host, by address or name: the first one's id and its path, the id empty when another
  with a different path has the same address or name.
\<close>

type_synonym jumpPath = "jumpHostSpec \<times> string option"

definition addJump :: "string \<Rightarrow> string \<Rightarrow> jumpPath \<Rightarrow> (string \<times> string \<times> jumpPath) list \<Rightarrow> (string \<times> string \<times> jumpPath) list" where
  "addJump key rid path es =
     (if key \<in> fst ` set es then map (\<lambda>(k, i, p). if k = key \<and> p \<noteq> path then (k, [], p) else (k, i, p)) es
      else es @ [(key, rid, path)])"

definition jumpEntries :: "unicodeTables \<Rightarrow> connection list \<Rightarrow> folder list \<Rightarrow> (string \<times> string \<times> jumpPath) list" where
  "jumpEntries ut conns folders =
     foldl (\<lambda>es c. let rs = ResolveWith c folders
        in case rJumpHost rs of None \<Rightarrow> es
           | Some j \<Rightarrow>
               if rHostname rs = [] then es
               else addJump (case ParseAddr (rHostname rs) of Some ip \<Rightarrow> AddrString (Unmap ip) | None \<Rightarrow> ToLower ut (rHostname rs))
                      (jumpRouteID (cID c)) (j, rNetworkProfileID rs) es) [] conns"

definition jumpConnRoutes :: "unicodeTables \<Rightarrow> connection list \<Rightarrow> folder list \<Rightarrow>
    sharedRoute list \<times> (string \<times> string) list \<times> (string \<rightharpoonup> jumpPath)" where
  "jumpConnRoutes ut conns folders =
     (let es = filter (\<lambda>(k, i, p). i \<noteq> []) (jumpEntries ut conns folders)
      in (List.map_filter (\<lambda>(k, i, p). map_option
            (\<lambda>ip. \<lparr>srPrefix = hostPrefix ip, srProfile = i, srName = jumpRouteName, srPinned = True\<rparr>) (ParseAddr k)) es,
          List.map_filter (\<lambda>(k, i, p). if ParseAddr k = None then Some (k, i) else None) es,
          map_of (rev (map (\<lambda>(k, i, p). (i, p)) es))))"

definition routeName :: "sharedRoute list \<Rightarrow> string \<Rightarrow> string" where
  "routeName routes i =
     (if jumpConnOf i \<noteq> [] then jumpRouteName
      else case find (\<lambda>r. srProfile r = i) routes of Some r \<Rightarrow> srName r | None \<Rightarrow> i)"

text \<open>The runner's names that the table has, by address: the paths they go, each with the first id seen on it.\<close>

definition addPin :: "ipAddr \<Rightarrow> jumpPath + string \<Rightarrow> string \<Rightarrow> (ipAddr \<times> ((jumpPath + string) \<times> string) list) list \<Rightarrow>
    (ipAddr \<times> ((jumpPath + string) \<times> string) list) list" where
  "addPin ip path i ps =
     (if ip \<in> fst ` set ps then map (\<lambda>(a, xs). if a = ip \<and> path \<notin> fst ` set xs then (a, xs @ [(path, i)]) else (a, xs)) ps
      else ps @ [(ip, [(path, i)])])"

definition extraPins :: "unicodeTables \<Rightarrow> string list \<Rightarrow> (string \<rightharpoonup> string) \<Rightarrow> (string \<rightharpoonup> jumpPath) \<Rightarrow>
    (ipAddr \<times> ((jumpPath + string) \<times> string) list) list" where
  "extraPins ut extra hosts paths =
     foldl (\<lambda>ps h. case Cut h '':'' of (name, addr, _) \<Rightarrow>
        (case hosts (hostKey ut name) of None \<Rightarrow> ps
         | Some i \<Rightarrow>
             (case ParseAddr (Trim addr ''[]'') of None \<Rightarrow> ps
              | Some ip \<Rightarrow> addPin (Unmap ip) (case paths i of Some p \<Rightarrow> Inl p | None \<Rightarrow> Inr i) i ps))) [] extra"

definition pinRoutes :: "(ipAddr \<times> ((jumpPath + string) \<times> string) list) list \<Rightarrow> sharedRoute list \<Rightarrow> sharedRoute list" where
  "pinRoutes ps routes =
     foldl (\<lambda>rs (ip, xs). case xs of
        [(_, i)] \<Rightarrow> rs @ [\<lparr>srPrefix = hostPrefix ip, srProfile = i, srName = routeName rs i, srPinned = True\<rparr>]
      | _ \<Rightarrow> rs) routes ps"

text \<open>The routes, the names and the paths of the jump hosts, none with the setting off.\<close>

definition jumpPart :: "unicodeTables \<Rightarrow> proxyEnv \<Rightarrow> sharedRoute list \<times> (string \<times> string) list \<times> (string \<rightharpoonup> jumpPath)" where
  "jumpPart ut env = (if peJump env then jumpConnRoutes ut (valueOr (peConns env) []) (peFolders env) else ([], [], Map.empty))"

definition tableHosts :: "unicodeTables \<Rightarrow> proxyEnv \<Rightarrow> string \<rightharpoonup> string" where
  "tableHosts ut env =
     foldl (\<lambda>m (k, i). m(hostKey ut k \<mapsto> i)) (connHosts ut env) (peOrder env (fst (snd (jumpPart ut env))))"

definition tableRoutes :: "unicodeTables \<Rightarrow> proxyEnv \<Rightarrow> sharedRoute list" where
  "tableRoutes ut env =
     pinRoutes (extraPins ut (peExtra env) (tableHosts ut env) (snd (snd (jumpPart ut env))))
       (concat (map (profileTable ut env) (sharedProfiles env)) @ fst (jumpPart ut env))"

definition tableDomains :: "unicodeTables \<Rightarrow> proxyEnv \<Rightarrow> sharedDomain list" where
  "tableDomains ut env = concat (map (\<lambda>r. case profileDomains ut r of (ds, gw, _) \<Rightarrow>
     map (\<lambda>d. \<lparr>sdSuffix = d, sdProfile = npID r, sdName = npName r, sdGateway = d \<in> set gw\<rparr>) ds) (sharedProfiles env))"

definition tableSearch :: "unicodeTables \<Rightarrow> proxyEnv \<Rightarrow> sharedSearch list" where
  "tableSearch ut env = concat (map (\<lambda>r. case profileDomains ut r of (_, _, s) \<Rightarrow>
     if s = [] then [] else [\<lparr>ssProfile = npID r, ssName = npName r, ssDomains = s\<rparr>]) (sharedProfiles env))"

definition sharedRoutes :: "unicodeTables \<Rightarrow> proxyEnv \<Rightarrow> sharedTable" where
  "sharedRoutes ut env =
     \<lparr>stRoutes = tableRoutes ut env, stHosts = tableHosts ut env, stDomains = tableDomains ut env, stSearch = tableSearch ut env\<rparr>"

section \<open>The pick\<close>

text \<open>A profile's place in the priorities, the first of it.\<close>

definition rankOf :: "string list \<Rightarrow> string \<rightharpoonup> nat" where
  "rankOf priority i = (if i \<in> set priority then Some (length (takeWhile (\<lambda>p. p \<noteq> i) priority)) else None)"

text \<open>Ranked profiles first, by rank; then those whose tunnel is up; then by name.\<close>

definition rankLess :: "(string \<rightharpoonup> nat) \<Rightarrow> (string \<Rightarrow> bool) \<Rightarrow> string \<times> string \<Rightarrow> string \<times> string \<Rightarrow> bool" where
  "rankLess rank up a b =
     (case (rank (fst a), rank (fst b)) of
        (Some i, None) \<Rightarrow> True
      | (None, Some j) \<Rightarrow> False
      | (ri, rj) \<Rightarrow>
          if ri \<noteq> rj then the ri < the rj
          else if up (fst a) \<noteq> up (fst b) then up (fst a)
          else stringLess (snd a) (snd b))"

text \<open>The front of a stable sort: the first one nothing comes before.\<close>

fun firstBy :: "('a \<Rightarrow> 'a \<Rightarrow> bool) \<Rightarrow> 'a \<Rightarrow> 'a list \<Rightarrow> 'a" where
  "firstBy bef x [] = x"
| "firstBy bef x (y # ys) = firstBy bef (if bef y x then y else x) ys"

definition sharedByDomain :: "unicodeTables \<Rightarrow> string \<Rightarrow> sharedDomain list \<Rightarrow> (string \<rightharpoonup> nat) \<Rightarrow> (string \<Rightarrow> bool) \<Rightarrow> sharedDomain option" where
  "sharedByDomain ut host domains rank up =
     (let suffix = domainOf ut host (map sdSuffix domains)
      in if suffix = [] then None
         else case filter (\<lambda>d. sdSuffix d = suffix) domains of [] \<Rightarrow> None
           | d # ds \<Rightarrow> Some (firstBy (\<lambda>a b. rankLess rank up (sdProfile a, sdName a) (sdProfile b, sdName b)) d ds))"

definition sharedBySearch :: "unicodeTables \<Rightarrow> string \<Rightarrow> sharedSearch list \<Rightarrow> (string \<rightharpoonup> nat) \<Rightarrow> (string \<Rightarrow> bool) \<Rightarrow>
    (sharedSearch \<times> string list) option" where
  "sharedBySearch ut host search rank up =
     (if host = [] \<or> CHR ''.'' \<in> set host then None
      else case search of [] \<Rightarrow> None
        | s # ss \<Rightarrow>
            (let p = firstBy (\<lambda>a b. rankLess rank up (ssProfile a, ssName a) (ssProfile b, ssName b)) s ss
             in Some (p, map (\<lambda>d. ToLower ut host @ ''.'' @ d) (ssDomains p))))"

text \<open>The longest prefix; between equal ones a jump host first, then as above.\<close>

definition routeLess :: "(string \<rightharpoonup> nat) \<Rightarrow> (string \<Rightarrow> bool) \<Rightarrow> sharedRoute \<Rightarrow> sharedRoute \<Rightarrow> bool" where
  "routeLess rank up a b =
     (let ja = jumpConnOf (srProfile a) \<noteq> []; jb = jumpConnOf (srProfile b) \<noteq> []
      in if ja \<noteq> jb then ja else rankLess rank up (srProfile a, srName a) (srProfile b, srName b))"

definition mostSpecific :: "sharedRoute \<Rightarrow> sharedRoute list \<Rightarrow> (string \<rightharpoonup> nat) \<Rightarrow> (string \<Rightarrow> bool) \<Rightarrow> sharedRoute" where
  "mostSpecific r rs rank up =
     (let best = foldl (\<lambda>b x. max b (snd (srPrefix x))) (snd (srPrefix r)) rs;
          pick = filter (\<lambda>x. snd (srPrefix x) = best) (r # rs)
      in case pick of [] \<Rightarrow> r | x # xs \<Rightarrow> firstBy (routeLess rank up) x xs)"

datatype pickError = UnknownName | NotCovered ipAddr

datatype pickWhy = ByName bool | ByDomain string bool | BySearch "string list"
  | ByJump "ipAddr option" | ByPin "ipAddr option" prefix | ByPriority "ipAddr option" prefix nat | BySpecific "ipAddr option" prefix

text \<open>The address the decision is made on: of several, the first one some route contains.\<close>

definition decideOn :: "sharedRoute list \<Rightarrow> ipAddr \<Rightarrow> ipAddr list \<Rightarrow> ipAddr" where
  "decideOn routes a as =
     (case find (\<lambda>x. list_ex (\<lambda>r. prefixContains (srPrefix r) (Unmap x)) routes) (a # as) of
        Some x \<Rightarrow> Unmap x | None \<Rightarrow> Unmap a)"

definition pickByAddr :: "sharedRoute list \<Rightarrow> string list \<Rightarrow> (string \<Rightarrow> bool) \<Rightarrow> ipAddr \<Rightarrow> ipAddr option \<Rightarrow>
    pickError + string \<times> pickWhy \<times> string list" where
  "pickByAddr routes priority up ip resolved =
     (let every = filter (\<lambda>r. prefixContains (srPrefix r) ip) routes; dials = [AddrString ip]
      in case every of [] \<Rightarrow> Inl (NotCovered ip)
         | a # as \<Rightarrow>
         (case filter srPinned every of
            p # ps \<Rightarrow>
              (let r = mostSpecific p ps (rankOf priority) up
               in Inr (srProfile r, if jumpConnOf (srProfile r) \<noteq> [] then ByJump resolved else ByPin resolved (srPrefix r), dials))
          | [] \<Rightarrow>
              (case filter (\<lambda>r. rankOf priority (srProfile r) \<noteq> None) every of
                 t # ts \<Rightarrow>
                   (let r = firstBy (\<lambda>x y. the (rankOf priority (srProfile x)) < the (rankOf priority (srProfile y))) t ts
                    in Inr (srProfile r, ByPriority resolved (srPrefix r) (the (rankOf priority (srProfile r)) + 1), dials))
               | [] \<Rightarrow> (let r = mostSpecific a as Map.empty up in Inr (srProfile r, BySpecific resolved (srPrefix r), dials)))))"

text \<open>\<open>lookup\<close>: what the local resolver answers, \<open>None\<close> for an error.\<close>

definition sharedPickHosts :: "unicodeTables \<Rightarrow> sharedTable \<Rightarrow> string list \<Rightarrow> (string \<Rightarrow> bool) \<Rightarrow> (string \<Rightarrow> ipAddr list option) \<Rightarrow> string \<Rightarrow>
    pickError + string \<times> pickWhy \<times> string list" where
  "sharedPickHosts ut t priority up lookup host =
     (case stHosts t (hostKey ut host) of
        Some i \<Rightarrow> Inr (i, ByName (jumpConnOf i \<noteq> []), [host])
      | None \<Rightarrow>
     (case ParseAddr (TrimSuffix host ''.'') of
        Some ip \<Rightarrow> pickByAddr (stRoutes t) priority up ip None
      | None \<Rightarrow>
     (case sharedByDomain ut host (stDomains t) (rankOf priority) up of
        Some d \<Rightarrow> Inr (sdProfile d, ByDomain (sdSuffix d) (sdGateway d), [hostKey ut host])
      | None \<Rightarrow>
     (case valueOr (lookup host) [] of
        a # as \<Rightarrow> (let ip = decideOn (stRoutes t) a as in pickByAddr (stRoutes t) priority up ip (Some ip))
      | [] \<Rightarrow>
          (case sharedBySearch ut host (stSearch t) (rankOf priority) up of
             Some (s, names) \<Rightarrow> Inr (ssProfile s, BySearch (ssDomains s), names)
           | None \<Rightarrow> Inl UnknownName)))))"

definition sharedPick :: "unicodeTables \<Rightarrow> sharedTable \<Rightarrow> string list \<Rightarrow> (string \<Rightarrow> bool) \<Rightarrow> (string \<Rightarrow> ipAddr list option) \<Rightarrow> string \<Rightarrow>
    pickError + string \<times> string list" where
  "sharedPick ut t priority up lookup host = map_sum id (\<lambda>(i, _, hs). (i, hs)) (sharedPickHosts ut t priority up lookup host)"

section \<open>Facts about prefixes\<close>

lemma cutLast_append: "c \<notin> set y \<Longrightarrow> cutLast c (x @ c # y) = Some (x, y)"
proof -
  assume n: "c \<notin> set y"
  have a: "z \<noteq> c" if "z \<in> set (rev y)" for z using that n by auto
  have "dropWhile (\<lambda>z. z \<noteq> c) (rev y @ c # rev x) = c # rev x" "takeWhile (\<lambda>z. z \<noteq> c) (rev y @ c # rev x) = rev y"
    using dropWhile_append2 [of "rev y" "\<lambda>z. z \<noteq> c" "c # rev x"] takeWhile_append2 [of "rev y" "\<lambda>z. z \<noteq> c" "c # rev x"] a by simp_all
  then show ?thesis by (simp add: cutLast_def)
qed

lemma Atoi_natDigits: "n < 2 ^ 63 \<Longrightarrow> Atoi (natDigits n) = Some (int n)"
  using Atoi_itoa [of "int n"] by (simp add: itoaInt_def)

lemma ParsePrefix_bits:
  assumes "ParsePrefix (PrefixString p) = Some q" "snd p \<le> 128"
  shows "snd q = snd p"
proof -
  have "cutLast CHR ''/'' (PrefixString p) = Some (AddrString (fst p), natDigits (snd p))"
    unfolding PrefixString_def using natDigits_digits [of "snd p"]
    by (simp, intro cutLast_append) (auto simp: isDigitA_def byte_def)
  moreover have "Atoi (natDigits (snd p)) = Some (int (snd p))"
    by (rule Atoi_natDigits) (rule le_less_trans [OF assms(2)], simp)
  ultimately show ?thesis using assms(1)
    by (auto simp: ParsePrefix_def Let_def split: option.splits if_splits)
qed

lemma ParsePrefix_small: "ParsePrefix s = Some p \<Longrightarrow> snd p \<le> BitLen (fst p)"
  by (auto simp: ParsePrefix_def Let_def split: option.splits if_splits)

lemma BitLen_le: "BitLen a \<le> 128" "BitLen a \<noteq> 0" "0 < BitLen a"
  by (simp_all add: BitLen_def split: ipAddr.splits)

lemma BitLen_withoutZone [simp]: "BitLen (withoutZone a) = BitLen a"
  by (simp add: BitLen_def withoutZone_def split: ipAddr.splits)

lemma hostPrefix_bits: "snd (hostPrefix a) = BitLen a" "snd (hostPrefix a) \<noteq> 0"
  by (simp_all add: hostPrefix_def PrefixFrom_def BitLen_le)

lemma Masked_bits: "snd (Masked p) = snd p" "BitLen (fst (Masked p)) = BitLen (fst p)"
  by (cases p; cases "fst p"; simp add: Masked_def BitLen_def)+

lemma routeOf_bits: "routeOf s = Some p \<Longrightarrow> snd p \<noteq> 0 \<and> snd p \<le> 128"
proof -
  assume r: "routeOf s = Some p"
  then have p: "parseRoute s = Some p" "snd p \<noteq> 0" by (auto simp: routeOf_def split: option.splits if_splits)
  show ?thesis
  proof (cases "ParsePrefix (TrimSpace (fst (Cut s '' '')))")
    case None
    then show ?thesis using p BitLen_le by (auto simp: parseRoute_def hostPrefix_bits)
  next
    case (Some q)
    then have "snd p \<le> BitLen (fst q)" using p ParsePrefix_small by (auto simp: parseRoute_def Masked_bits)
    then show ?thesis using p(2) BitLen_le [of "fst q"] by simp
  qed
qed

lemma set_map_filter: "set (List.map_filter f xs) = {y. \<exists>x\<in>set xs. f x = Some y}"
  by (auto simp: List.map_filter_def image_def)

lemma set_sortStrings [simp]: "set (sortStrings xs) = set xs"
  by (simp add: sortStrings_def)

lemma profileRoutes_bits:
  assumes "s \<in> set (profileRoutes r conns folders)" "ParsePrefix s = Some q"
  shows "snd q \<noteq> 0"
proof -
  have h: "\<exists>p. s = PrefixString p \<and> snd p \<noteq> 0 \<and> snd p \<le> 128"
    using assms(1) routeOf_bits
    by (fastforce simp: profileRoutes_def ownRoutes_def connRoutes_def set_map_filter Let_def split: if_splits option.splits)
  then show ?thesis using ParsePrefix_bits assms(2) by metis
qed

section \<open>What the table holds\<close>

lemma firstBy_in: "firstBy bef x ys \<in> set (x # ys)"
  by (induction bef x ys rule: firstBy.induct) auto

definition routeSource :: "proxyEnv \<Rightarrow> string \<Rightarrow> bool" where
  "routeSource env i \<longleftrightarrow> i \<in> npID ` set (sharedProfiles env) \<or>
     (peJump env \<and> (\<exists>c\<in>set (valueOr (peConns env) []). i = jumpRouteID (cID c) \<and> rJumpHost (ResolveWith c (peFolders env)) \<noteq> None))"

lemma addJump_ids: "(k, i, p) \<in> set (addJump key rid path es) \<Longrightarrow> i = [] \<or> i = rid \<or> (\<exists>k p. (k, i, p) \<in> set es)"
  by (cases p) (auto simp: addJump_def split: if_splits)

lemma jumpEntries_source:
  assumes "(k, i, p) \<in> set (jumpEntries ut conns folders)" "i \<noteq> []"
  shows "\<exists>c\<in>set conns. i = jumpRouteID (cID c) \<and> rJumpHost (ResolveWith c folders) \<noteq> None"
  using assms unfolding jumpEntries_def
proof (induction conns arbitrary: k i p rule: rev_induct)
  case Nil
  then show ?case by simp
next
  case (snoc c cs)
  show ?case
  proof (cases "rJumpHost (ResolveWith c folders) = None \<or> rHostname (ResolveWith c folders) = []")
    case True
    then show ?thesis using snoc.IH [of k i p] snoc.prems by (auto simp: Let_def split: option.splits if_splits)
  next
    case False
    then obtain j where j: "rJumpHost (ResolveWith c folders) = Some j" by auto
    then show ?thesis using snoc.prems False
      by (simp add: Let_def) (drule addJump_ids, use snoc.IH in \<open>fastforce simp: Let_def\<close>)
  qed
qed

lemma jumpConnRoutes_source:
  assumes "jumpConnRoutes ut conns folders = (jr, jh, paths)"
  shows "\<forall>r\<in>set jr. (\<exists>c\<in>set conns. srProfile r = jumpRouteID (cID c) \<and> rJumpHost (ResolveWith c folders) \<noteq> None) \<and> snd (srPrefix r) \<noteq> 0"
    "\<forall>(k, i)\<in>set jh. \<exists>c\<in>set conns. i = jumpRouteID (cID c) \<and> rJumpHost (ResolveWith c folders) \<noteq> None"
proof -
  let ?es = "filter (\<lambda>(k, i, p). i \<noteq> []) (jumpEntries ut conns folders)"
  have e: "\<exists>c\<in>set conns. i = jumpRouteID (cID c) \<and> rJumpHost (ResolveWith c folders) \<noteq> None"
    if "(k, i, p) \<in> set ?es" for k i p
    using that jumpEntries_source [of k i p ut conns folders] by auto
  have j: "jr = List.map_filter (\<lambda>(k, i, p). map_option
        (\<lambda>ip. \<lparr>srPrefix = hostPrefix ip, srProfile = i, srName = jumpRouteName, srPinned = True\<rparr>) (ParseAddr k)) ?es"
    "jh = List.map_filter (\<lambda>(k, i, p). if ParseAddr k = None then Some (k, i) else None) ?es"
    using assms by (simp_all add: jumpConnRoutes_def Let_def)
  show "\<forall>r\<in>set jr. (\<exists>c\<in>set conns. srProfile r = jumpRouteID (cID c) \<and> rJumpHost (ResolveWith c folders) \<noteq> None) \<and> snd (srPrefix r) \<noteq> 0"
  proof
    fix r assume "r \<in> set jr"
    then obtain k i p ip where x: "(k, i, p) \<in> set ?es" "ParseAddr k = Some ip"
        "r = \<lparr>srPrefix = hostPrefix ip, srProfile = i, srName = jumpRouteName, srPinned = True\<rparr>"
      unfolding j(1) set_map_filter by auto
    show "(\<exists>c\<in>set conns. srProfile r = jumpRouteID (cID c) \<and> rJumpHost (ResolveWith c folders) \<noteq> None) \<and> snd (srPrefix r) \<noteq> 0"
      using e [OF x(1)] by (simp add: x(3) hostPrefix_bits BitLen_le)
  qed
  show "\<forall>(k, i)\<in>set jh. \<exists>c\<in>set conns. i = jumpRouteID (cID c) \<and> rJumpHost (ResolveWith c folders) \<noteq> None"
  proof (clarify)
    fix k i assume "(k, i) \<in> set jh"
    then obtain p where "(k, i, p) \<in> set ?es" unfolding j(2) set_map_filter by (auto split: if_splits)
    then show "\<exists>c\<in>set conns. i = jumpRouteID (cID c) \<and> rJumpHost (ResolveWith c folders) \<noteq> None" using e by blast
  qed
qed

lemma profileTable_source:
  assumes "r \<in> set (profileTable ut env row)"
  shows "srProfile r = npID row \<and> snd (srPrefix r) \<noteq> 0"
  using assms profileRoutes_bits by (fastforce simp: profileTable_def set_map_filter)

lemma foldl_upd_source:
  assumes "foldl (\<lambda>m (k, i). m(f k \<mapsto> i)) m0 xs k = Some (i :: 'v)"
  shows "m0 k = Some i \<or> i \<in> snd ` set xs"
  using assms by (induction xs arbitrary: m0) (fastforce split: if_splits prod.splits)+

lemma connHosts_source: "connHosts ut env k = Some i \<Longrightarrow> i \<in> npID ` set (sharedProfiles env)"
proof -
  have "foldl (\<lambda>m c. case sharedConn ut env c of Some (Inr (k, pid)) \<Rightarrow> m(k \<mapsto> pid) | _ \<Rightarrow> m) m0 cs k = Some i \<Longrightarrow>
      m0 k = Some i \<or> i \<in> npID ` set (sharedProfiles env)" for m0 cs
  proof (induction cs arbitrary: m0)
    case (Cons c cs)
    show ?case using Cons.IH [OF Cons.prems [simplified]]
      by (auto simp: sharedConn_def Let_def split: option.splits if_splits)
  qed simp
  from this [of Map.empty] show "connHosts ut env k = Some i \<Longrightarrow> i \<in> npID ` set (sharedProfiles env)"
    by (auto simp: connHosts_def)
qed

definition pinsFrom :: "(string \<Rightarrow> bool) \<Rightarrow> (ipAddr \<times> ((jumpPath + string) \<times> string) list) list \<Rightarrow> bool" where
  "pinsFrom P ps \<longleftrightarrow> (\<forall>(ip, xs)\<in>set ps. \<forall>(q, i)\<in>set xs. P i)"

lemma addPin_source: "pinsFrom P ps \<Longrightarrow> P j \<Longrightarrow> pinsFrom P (addPin a path j ps)"
  by (auto simp: addPin_def pinsFrom_def split: if_splits; blast)

lemma extraPins_source: "pinsFrom (\<lambda>i. \<exists>k. hosts k = Some i) (extraPins ut extra hosts paths)"
  unfolding extraPins_def
proof (induction extra rule: rev_induct)
  case (snoc h hs)
  then show ?case by (auto split: option.splits prod.splits intro!: addPin_source)
qed (simp add: pinsFrom_def)

lemma pinRoutes_source:
  assumes "r \<in> set (pinRoutes ps routes)"
  shows "r \<in> set routes \<or> (\<exists>ip xs q. (ip, xs) \<in> set ps \<and> (q, srProfile r) \<in> set xs) \<and> snd (srPrefix r) \<noteq> 0"
  using assms unfolding pinRoutes_def
proof (induction ps arbitrary: routes)
  case (Cons p ps)
  obtain ip xs where p: "p = (ip, xs)" by fastforce
  show ?case
  proof (cases "\<exists>q i. xs = [(q, i)]")
    case True
    then obtain q i where x: "xs = [(q, i)]" by blast
    let ?n = "\<lparr>srPrefix = hostPrefix ip, srProfile = i, srName = routeName routes i, srPinned = True\<rparr>"
    have m: "(ip, xs) \<in> set (p # ps) \<and> (q, srProfile ?n) \<in> set xs" "snd (srPrefix ?n) \<noteq> 0"
      by (simp_all add: p x hostPrefix_bits BitLen_le)
    have "r \<in> set (routes @ [?n]) \<or> (\<exists>ip xs q. (ip, xs) \<in> set ps \<and> (q, srProfile r) \<in> set xs) \<and> snd (srPrefix r) \<noteq> 0"
      by (rule Cons.IH) (use Cons.prems in \<open>simp add: p x\<close>)
    moreover have "r = ?n \<Longrightarrow> (\<exists>ip xs q. (ip, xs) \<in> set (p # ps) \<and> (q, srProfile r) \<in> set xs) \<and> snd (srPrefix r) \<noteq> 0"
      using m by blast
    ultimately show ?thesis by (auto simp del: not_gr_zero)
  next
    case False
    then have "foldl (\<lambda>rs (ip, xs). case xs of
        [(_, i)] \<Rightarrow> rs @ [\<lparr>srPrefix = hostPrefix ip, srProfile = i, srName = routeName rs i, srPinned = True\<rparr>]
      | _ \<Rightarrow> rs) routes (p # ps) = foldl (\<lambda>rs (ip, xs). case xs of
        [(_, i)] \<Rightarrow> rs @ [\<lparr>srPrefix = hostPrefix ip, srProfile = i, srName = routeName rs i, srPinned = True\<rparr>]
      | _ \<Rightarrow> rs) routes ps" by (auto simp: p split: list.splits)
    then show ?thesis using Cons.IH [of routes] Cons.prems by (auto simp: p)
  qed
qed simp

lemma jumpPart_source:
  "\<forall>r\<in>set (fst (jumpPart ut env)). routeSource env (srProfile r) \<and> snd (srPrefix r) \<noteq> 0"
  "\<forall>(k, i)\<in>set (fst (snd (jumpPart ut env))). routeSource env i"
proof -
  obtain jr jh paths where j: "jumpConnRoutes ut (valueOr (peConns env) []) (peFolders env) = (jr, jh, paths)" by (metis prod_cases3)
  show "\<forall>r\<in>set (fst (jumpPart ut env)). routeSource env (srProfile r) \<and> snd (srPrefix r) \<noteq> 0"
    using jumpConnRoutes_source(1) [OF j] j by (auto simp: jumpPart_def routeSource_def)
  show "\<forall>(k, i)\<in>set (fst (snd (jumpPart ut env))). routeSource env i"
  proof (clarify)
    fix k i assume m: "(k, i) \<in> set (fst (snd (jumpPart ut env)))"
    then have p: "peJump env" "(k, i) \<in> set jh" using j by (auto simp: jumpPart_def split: if_splits)
    then show "routeSource env i" using jumpConnRoutes_source(2) [OF j] unfolding routeSource_def by blast
  qed
qed

lemma table_hosts:
  assumes "\<And>xs. set (peOrder env xs) = set xs" "tableHosts ut env k = Some i"
  shows "routeSource env i"
proof -
  have "connHosts ut env k = Some i \<or> i \<in> snd ` set (fst (snd (jumpPart ut env)))"
    using foldl_upd_source [of "hostKey ut" "connHosts ut env"] assms unfolding tableHosts_def by fastforce
  then show ?thesis using connHosts_source [of ut env k i] jumpPart_source(2) [of ut env] by (auto simp: routeSource_def)
qed

lemma table_routes:
  assumes "\<And>xs. set (peOrder env xs) = set xs" "r \<in> set (tableRoutes ut env)"
  shows "routeSource env (srProfile r) \<and> snd (srPrefix r) \<noteq> 0"
proof -
  let ?ps = "extraPins ut (peExtra env) (tableHosts ut env) (snd (snd (jumpPart ut env)))"
  have "pinsFrom (routeSource env) ?ps"
    using extraPins_source [of "tableHosts ut env" ut "peExtra env"] table_hosts [OF assms(1)] by (fastforce simp: pinsFrom_def)
  moreover have "r \<in> set (concat (map (profileTable ut env) (sharedProfiles env)) @ fst (jumpPart ut env)) \<or>
      (\<exists>ip xs q. (ip, xs) \<in> set ?ps \<and> (q, srProfile r) \<in> set xs) \<and> snd (srPrefix r) \<noteq> 0"
    using pinRoutes_source assms(2) unfolding tableRoutes_def by blast
  moreover have "routeSource env (srProfile r) \<and> snd (srPrefix r) \<noteq> 0" if "r \<in> set (profileTable ut env p)" "p \<in> set (sharedProfiles env)" for p
    using profileTable_source [OF that(1)] that(2) by (simp add: routeSource_def)
  ultimately show ?thesis using jumpPart_source(1) [of ut env] unfolding pinsFrom_def by fastforce
qed

section \<open>Facts about the pick\<close>

lemma foldl_max_ge: "b \<le> foldl (\<lambda>b x. max b (f x)) b xs" "x \<in> set xs \<Longrightarrow> f x \<le> foldl (\<lambda>b x. max b (f x)) (b :: nat) xs"
proof -
  show ge: "b \<le> foldl (\<lambda>b x. max b (f x)) b xs" for b xs by (induction xs arbitrary: b) (auto intro: order_trans [OF max.cobounded1])
  show "x \<in> set xs \<Longrightarrow> f x \<le> foldl (\<lambda>b x. max b (f x)) (b :: nat) xs"
    by (induction xs arbitrary: b) (auto intro: order_trans [OF max.cobounded2 ge])
qed

lemma foldl_max_in: "foldl (\<lambda>b x. max b (f x)) b xs \<in> insert (b :: nat) (f ` set xs)"
  by (induction xs arbitrary: b) (auto simp: max_def split: if_splits)

lemma foldl_max_ex: "\<exists>z\<in>set (r # rs). f z = foldl (\<lambda>b x. max b (f x)) (f r :: nat) rs"
proof -
  have "foldl (\<lambda>b x. max b (f x)) (f r) rs = f r \<or> (\<exists>z\<in>set rs. foldl (\<lambda>b x. max b (f x)) (f r) rs = f z)"
    using foldl_max_in [of f "f r" rs] by blast
  then show ?thesis by auto
qed

lemma mostSpecific_in:
  "mostSpecific r rs rank up \<in> set (r # rs) \<and> (\<forall>x\<in>set (r # rs). snd (srPrefix x) \<le> snd (srPrefix (mostSpecific r rs rank up)))"
proof -
  let ?best = "foldl (\<lambda>b x. max b (snd (srPrefix x))) (snd (srPrefix r)) rs"
  have top: "snd (srPrefix x) \<le> ?best" if "x \<in> set (r # rs)" for x
    using that foldl_max_ge by (auto simp: foldl_max_ge)
  obtain z where "z \<in> set (r # rs)" "snd (srPrefix z) = ?best"
    using foldl_max_ex [of r rs "\<lambda>x. snd (srPrefix x)"] by blast
  then have "filter (\<lambda>x. snd (srPrefix x) = ?best) (r # rs) \<noteq> []" unfolding filter_empty_conv by blast
  then obtain x xs where f: "filter (\<lambda>x. snd (srPrefix x) = ?best) (r # rs) = x # xs" unfolding neq_Nil_conv by blast
  have m: "mostSpecific r rs rank up \<in> set (filter (\<lambda>x. snd (srPrefix x) = ?best) (r # rs))"
    unfolding mostSpecific_def Let_def f using firstBy_in by (simp only: list.case)
  then have "mostSpecific r rs rank up \<in> set (r # rs)" "snd (srPrefix (mostSpecific r rs rank up)) = ?best"
    unfolding set_filter by blast+
  then show ?thesis using top by simp
qed

lemma filter_split: "filter P xs = y # ys \<Longrightarrow> set (y # ys) = {x \<in> set xs. P x}"
  by (metis set_filter)

lemma pickByAddr_sound:
  assumes "pickByAddr routes priority up ip resolved = Inr (i, why, hs)"
  shows "hs = [AddrString ip] \<and> (\<exists>r\<in>set routes. srProfile r = i \<and> prefixContains (srPrefix r) ip)"
proof -
  let ?every = "filter (\<lambda>r. prefixContains (srPrefix r) ip) routes"
  have every: "\<exists>r\<in>set routes. srProfile r = i \<and> prefixContains (srPrefix r) ip" if "r \<in> set ?every" "i = srProfile r" for r
    using that by auto
  obtain a as where e: "?every = a # as" using assms by (auto simp: pickByAddr_def Let_def split: list.splits)
  have sub: "set (x # xs) \<subseteq> set ?every" if "filter P ?every = x # xs" for P x xs
    using that by (metis filter_is_subset)
  show ?thesis
  proof (cases "filter srPinned ?every")
    case c: (Cons p ps)
    then have "i = srProfile (mostSpecific p ps (rankOf priority) up) \<and> hs = [AddrString ip]"
      using assms unfolding pickByAddr_def Let_def e by (simp add: e)
    then show ?thesis using every sub [OF c] mostSpecific_in [of p ps "rankOf priority" up] by blast
  next
    case n: Nil
    show ?thesis
    proof (cases "filter (\<lambda>r. rankOf priority (srProfile r) \<noteq> None) ?every")
      case c: (Cons t ts)
      let ?b = "\<lambda>x y. the (rankOf priority (srProfile x)) < the (rankOf priority (srProfile y))"
      have "i = srProfile (firstBy ?b t ts) \<and> hs = [AddrString ip]"
        using assms n c unfolding pickByAddr_def Let_def e by simp
      then show ?thesis using every sub [OF c] firstBy_in [of ?b t ts] by blast
    next
      case c: Nil
      have "i = srProfile (mostSpecific a as Map.empty up) \<and> hs = [AddrString ip]"
        using assms n c unfolding pickByAddr_def Let_def e by simp
      then show ?thesis using every mostSpecific_in [of a as Map.empty up] e by (metis (no_types))
    qed
  qed
qed

section \<open>What the proxy reaches\<close>

lemma domainOf_fold:
  defines "f \<equiv> \<lambda>h best d. if inDomain h d \<and> length d > length best then d else best"
  shows "foldl (f h) b ds = b \<or> foldl (f h) b ds \<in> set ds \<and> inDomain h (foldl (f h) b ds)"
    "length b \<le> length (foldl (f h) b ds)"
    "d \<in> set ds \<Longrightarrow> inDomain h d \<Longrightarrow> length d \<le> length (foldl (f h) b ds)"
proof -
  have step: "f h b x = b \<or> f h b x = x \<and> inDomain h x" "length b \<le> length (f h b x)" for b x by (auto simp: f_def)
  show "foldl (f h) b ds = b \<or> foldl (f h) b ds \<in> set ds \<and> inDomain h (foldl (f h) b ds)"
  proof (induction ds arbitrary: b)
    case (Cons x xs)
    show ?case unfolding foldl.simps using Cons.IH [of "f h b x"] step(1) [of b x] by (metis list.set_intros)
  qed simp
  have mono: "length b \<le> length (foldl (f h) b ds)" for b ds
  proof (induction ds arbitrary: b)
    case (Cons x xs)
    show ?case unfolding foldl.simps by (rule order_trans [OF step(2) Cons.IH])
  qed simp
  show "length b \<le> length (foldl (f h) b ds)" by (rule mono)
  show "d \<in> set ds \<Longrightarrow> inDomain h d \<Longrightarrow> length d \<le> length (foldl (f h) b ds)"
  proof (induction ds arbitrary: b)
    case (Cons x xs)
    show ?case
    proof (cases "x = d")
      case True
      have "length d \<le> length (f h b d)" using Cons.prems(2) by (auto simp: f_def)
      then show ?thesis using mono [of "f h b d" xs] True by simp
    qed (use Cons in simp)
  qed simp
qed

lemma domainOf_sound:
  assumes "domainOf ut host ds \<noteq> []"
  shows "domainOf ut host ds \<in> set ds \<and> inDomain (hostKey ut host) (domainOf ut host ds)"
  using assms domainOf_fold(1) [of "hostKey ut host" "[]" ds] unfolding domainOf_def by blast

lemma domainOf_longest: "d \<in> set ds \<Longrightarrow> inDomain (hostKey ut host) d \<Longrightarrow> length d \<le> length (domainOf ut host ds)"
  using domainOf_fold(3) unfolding domainOf_def by blast

lemma tableDomains_source:
  assumes "d \<in> set (tableDomains ut env)"
  shows "\<exists>p\<in>set (sharedProfiles env). npID p = sdProfile d \<and> sdSuffix d \<in> set (fst (profileDomains ut p))"
proof -
  obtain p where p: "p \<in> set (sharedProfiles env)" "d \<in> set (case profileDomains ut p of (ds, gw, _) \<Rightarrow>
      map (\<lambda>d. \<lparr>sdSuffix = d, sdProfile = npID p, sdName = npName p, sdGateway = d \<in> set gw\<rparr>) ds)"
    using assms unfolding tableDomains_def set_concat set_map by blast
  obtain ds gw se where "profileDomains ut p = (ds, gw, se)" by (metis prod_cases3)
  then show ?thesis using p by auto
qed

lemma sharedByDomain_sound:
  assumes "sharedByDomain ut host (tableDomains ut env) rank up = Some d"
  shows "\<exists>p\<in>set (sharedProfiles env). npID p = sdProfile d \<and> sdSuffix d \<in> set (fst (profileDomains ut p)) \<and>
    inDomain (hostKey ut host) (sdSuffix d)"
proof -
  let ?s = "domainOf ut host (map sdSuffix (tableDomains ut env))"
  have s: "?s \<noteq> []" using assms by (auto simp: sharedByDomain_def Let_def)
  obtain x xs where f: "filter (\<lambda>d. sdSuffix d = ?s) (tableDomains ut env) = x # xs"
      "d = firstBy (\<lambda>a b. rankLess rank up (sdProfile a, sdName a) (sdProfile b, sdName b)) x xs"
    using assms s by (auto simp: sharedByDomain_def Let_def split: list.splits)
  have "d \<in> set (filter (\<lambda>d. sdSuffix d = ?s) (tableDomains ut env))" unfolding f using firstBy_in by fast
  then have "d \<in> set (tableDomains ut env)" "sdSuffix d = ?s" by simp_all
  then show ?thesis using tableDomains_source [of d ut env] domainOf_sound [OF s] by metis
qed

lemma sharedBySearch_sound:
  assumes "sharedBySearch ut host (tableSearch ut env) rank up = Some (s, names)"
  shows "\<exists>p\<in>set (sharedProfiles env). npID p = ssProfile s \<and> CHR ''.'' \<notin> set host \<and>
    names = map (\<lambda>d. ToLower ut host @ ''.'' @ d) (snd (snd (profileDomains ut p)))"
proof -
  obtain x xs where t: "tableSearch ut env = x # xs" "s = firstBy (\<lambda>a b. rankLess rank up (ssProfile a, ssName a) (ssProfile b, ssName b)) x xs"
      "names = map (\<lambda>d. ToLower ut host @ ''.'' @ d) (ssDomains s)" "CHR ''.'' \<notin> set host"
    using assms by (auto simp: sharedBySearch_def Let_def split: list.splits if_splits)
  have "s \<in> set (tableSearch ut env)" unfolding t(1,2) using firstBy_in by fast
  then obtain p where p: "p \<in> set (sharedProfiles env)" "s \<in> set (case profileDomains ut p of (_, _, s) \<Rightarrow>
      if s = [] then [] else [\<lparr>ssProfile = npID p, ssName = npName p, ssDomains = s\<rparr>])"
    unfolding tableSearch_def set_concat set_map by blast
  obtain ds gw se where "profileDomains ut p = (ds, gw, se)" by (metis prod_cases3)
  then have "s = \<lparr>ssProfile = npID p, ssName = npName p, ssDomains = se\<rparr>" "snd (snd (profileDomains ut p)) = se"
    using p(2) by (auto split: if_splits)
  then show ?thesis using p(1) t(3,4) by (intro bexI [of _ p]) simp_all
qed

text \<open>
  What a destination may become: the name of a connection that goes there, an address in a network that is no default
  route, a name in one of the profile's own domains, or a short name in its search domains.
\<close>

definition proxyAllows :: "unicodeTables \<Rightarrow> proxyEnv \<Rightarrow> string \<Rightarrow> string \<Rightarrow> string list \<Rightarrow> bool" where
  "proxyAllows ut env host i hs \<longleftrightarrow>
     tableHosts ut env (hostKey ut host) = Some i \<and> hs = [host] \<or>
     (\<exists>r\<in>set (tableRoutes ut env). \<exists>ip. srProfile r = i \<and> prefixContains (srPrefix r) ip \<and> snd (srPrefix r) \<noteq> 0 \<and> hs = [AddrString ip]) \<or>
     (\<exists>p\<in>set (sharedProfiles env). npID p = i \<and>
        ((\<exists>d\<in>set (fst (profileDomains ut p)). inDomain (hostKey ut host) d \<and> hs = [hostKey ut host]) \<or>
         (CHR ''.'' \<notin> set host \<and> hs = map (\<lambda>d. ToLower ut host @ ''.'' @ d) (snd (snd (profileDomains ut p))))))"

lemma routeSource_shared: "p \<in> set (sharedProfiles env) \<Longrightarrow> routeSource env (npID p)"
  by (simp add: routeSource_def)

lemma proxy_pick_sound:
  assumes "\<And>xs. set (peOrder env xs) = set xs"
    "sharedPick ut (sharedRoutes ut env) priority up lookup host = Inr (i, hs)"
  shows "routeSource env i \<and> proxyAllows ut env host i hs"
proof -
  let ?t = "sharedRoutes ut env"
  have st: "stHosts ?t = tableHosts ut env" "stRoutes ?t = tableRoutes ut env" "stDomains ?t = tableDomains ut env"
      "stSearch ?t = tableSearch ut env" by (simp_all add: sharedRoutes_def)
  have addr: ?thesis if "pickByAddr (tableRoutes ut env) priority up ip resolved = Inr (i, why, hs)" for ip why resolved
    using pickByAddr_sound [OF that] table_routes [OF assms(1)] unfolding proxyAllows_def by blast
  obtain why where w: "sharedPickHosts ut ?t priority up lookup host = Inr (i, why, hs)"
    using assms(2) by (auto simp: sharedPick_def map_sum_Inr)
  show ?thesis
  proof (cases "tableHosts ut env (hostKey ut host)")
    case (Some j)
    then show ?thesis using w table_hosts [OF assms(1), of ut "hostKey ut host"] by (auto simp: sharedPickHosts_def st proxyAllows_def)
  next
    case no_name: None
    show ?thesis
    proof (cases "ParseAddr (TrimSuffix host ''.'')")
      case (Some ip)
      then show ?thesis using w no_name by (intro addr) (simp add: sharedPickHosts_def st)
    next
      case no_addr: None
      show ?thesis
      proof (cases "sharedByDomain ut host (tableDomains ut env) (rankOf priority) up")
        case (Some d)
        then have "i = sdProfile d" "hs = [hostKey ut host]" using w no_name no_addr by (simp_all add: sharedPickHosts_def st)
        then show ?thesis using sharedByDomain_sound [OF Some] routeSource_shared [of _ env] unfolding proxyAllows_def by metis
      next
        case no_dom: None
        show ?thesis
        proof (cases "valueOr (lookup host) []")
          case (Cons a as)
          then show ?thesis using w no_name no_addr no_dom by (intro addr) (simp add: sharedPickHosts_def st Let_def)
        next
          case Nil
          then obtain s where s: "sharedBySearch ut host (tableSearch ut env) (rankOf priority) up = Some (s, hs)" "i = ssProfile s"
            using w no_name no_addr no_dom by (auto simp: sharedPickHosts_def st split: option.splits)
          then show ?thesis using sharedBySearch_sound [OF s(1)] routeSource_shared [of _ env] unfolding proxyAllows_def by metis
        qed
      qed
    qed
  qed
qed


definition officeProfile :: profileRow where
  "officeProfile = \<lparr>npID = ''p'', npName = ''office'', npKind = kindWireguard, npAllowedIPs = [''10.0.0.0/8''], npLastRoutes = [],
     npLastDomains = [], npLastSearch = [],
     npProxy = \<lparr>lpEnabled = False, lpShared = True, lpBind = [], lpPort = 0, lpNetworks = [], lpDomains = [''example.com'']\<rparr>\<rparr>"

definition officeOnly :: proxyEnv where
  "officeOnly = \<lparr>peProfiles = Some [officeProfile], peConns = Some [], peFolders = [], peJump = False, peExtra = [], peOrder = \<lambda>x. x\<rparr>"

lemma office_pick: "sharedPick asciiTables (sharedRoutes asciiTables officeOnly) [] (\<lambda>_. False) (\<lambda>_. None) ''10.1.2.3'' = Inr (''p'', [''10.1.2.3''])"
  by code_simp

section \<open>Precedence\<close>

lemma firstBy_least:
  fixes f :: "'a \<Rightarrow> nat"
  shows "y \<in> set (x # ys) \<Longrightarrow> f (firstBy (\<lambda>a b. f a < f b) x ys) \<le> f y"
proof (induction "\<lambda>a b. f a < f b" x ys arbitrary: y rule: firstBy.induct)
  case (2 x z zs)
  have *: "f (firstBy (\<lambda>a b. f a < f b) (if f z < f x then z else x) zs) \<le> f (if f z < f x then z else x)"
    by (rule 2(1)) simp
  show ?case
  proof (cases "y \<in> set zs")
    case True
    then show ?thesis using 2(1) by simp
  next
    case False
    then have "y = x \<or> y = z" using 2(2) by simp
    then show ?thesis using * by (auto split: if_splits)
  qed
qed simp

text \<open>C4: an address goes where it is pinned, by the most specific pin; else to the profile listed first among those whose networks
  hold it; else by the most specific route. Only an address no route holds is refused.\<close>

theorem pick_order:
  fixes routes :: "sharedRoute list"
  defines "holds \<equiv> \<lambda>ip r. prefixContains (srPrefix r) ip"
  assumes "r \<in> set routes" "holds ip r"
  shows "\<exists>w why. w \<in> set routes \<and> holds ip w \<and> pickByAddr routes priority up ip res = Inr (srProfile w, why, [AddrString ip]) \<and>
    (srPinned r \<longrightarrow> srPinned w \<and> snd (srPrefix r) \<le> snd (srPrefix w)) \<and>
    ((\<forall>x\<in>set routes. holds ip x \<longrightarrow> \<not> srPinned x) \<longrightarrow>
      (case rankOf priority (srProfile r) of
         Some k \<Rightarrow> (\<exists>j\<le>k. rankOf priority (srProfile w) = Some j)
       | None \<Rightarrow> rankOf priority (srProfile w) = None \<longrightarrow> snd (srPrefix r) \<le> snd (srPrefix w)))"
proof -
  let ?every = "filter (\<lambda>r. prefixContains (srPrefix r) ip) routes"
  have r: "r \<in> set ?every" using assms by simp
  have hold: "x \<in> set routes \<and> holds ip x" if "x \<in> set ?every" for x using that by (simp add: holds_def)
  obtain a as where e: "?every = a # as" using r by (cases ?every) auto
  show ?thesis
  proof (cases "filter srPinned ?every")
    case c: (Cons p ps)
    let ?w = "mostSpecific p ps (rankOf priority) up"
    have w: "?w \<in> set (p # ps)" "\<And>x. x \<in> set (p # ps) \<Longrightarrow> snd (srPrefix x) \<le> snd (srPrefix ?w)"
      using mostSpecific_in [of p ps "rankOf priority" up] by blast+
    then have "?w \<in> set ?every" "srPinned ?w" unfolding c [symmetric] by simp_all
    moreover have "snd (srPrefix r) \<le> snd (srPrefix ?w)" if "srPinned r" using w(2) r that unfolding c [symmetric] by simp
    moreover have "pickByAddr routes priority up ip res =
        Inr (srProfile ?w, if jumpConnOf (srProfile ?w) \<noteq> [] then ByJump res else ByPin res (srPrefix ?w), [AddrString ip])"
      using c unfolding pickByAddr_def Let_def e by simp
    ultimately show ?thesis using hold [of ?w]
      by (intro exI [of _ ?w] exI [of _ "if jumpConnOf (srProfile ?w) \<noteq> [] then ByJump res else ByPin res (srPrefix ?w)"]) auto
  next
    case n: Nil
    then have np: "\<not> srPinned r" using r by (auto simp: filter_empty_conv)
    show ?thesis
    proof (cases "filter (\<lambda>r. rankOf priority (srProfile r) \<noteq> None) ?every")
      case c: (Cons t ts)
      let ?f = "\<lambda>x. the (rankOf priority (srProfile x))"
      let ?w = "firstBy (\<lambda>x y. ?f x < ?f y) t ts"
      have "?w \<in> set (t # ts)" by (rule firstBy_in)
      then have w: "?w \<in> set ?every" "rankOf priority (srProfile ?w) \<noteq> None" unfolding c [symmetric] by simp_all
      have le: "?f ?w \<le> ?f r" if "rankOf priority (srProfile r) \<noteq> None"
        using firstBy_least [of r t ts ?f] r that unfolding c [symmetric] by simp
      have "pickByAddr routes priority up ip res = Inr (srProfile ?w, ByPriority res (srPrefix ?w) (?f ?w + 1), [AddrString ip])"
        using n c unfolding pickByAddr_def Let_def e by simp
      then show ?thesis using hold [OF w(1)] np w(2) le
        by (intro exI [of _ ?w] exI [of _ "ByPriority res (srPrefix ?w) (?f ?w + 1)"]) (auto split: option.splits)
    next
      case c: Nil
      let ?w = "mostSpecific a as Map.empty up"
      have w: "?w \<in> set ?every" "snd (srPrefix r) \<le> snd (srPrefix ?w)"
        using mostSpecific_in [of a as Map.empty up] r unfolding e by blast+
      have nr: "rankOf priority (srProfile r) = None" using c r by (auto simp: filter_empty_conv)
      have "pickByAddr routes priority up ip res = Inr (srProfile ?w, BySpecific res (srPrefix ?w), [AddrString ip])"
        using n c unfolding pickByAddr_def Let_def e by simp
      then show ?thesis using hold [OF w(1)] np w(2) nr
        by (intro exI [of _ ?w] exI [of _ "BySpecific res (srPrefix ?w)"]) auto
    qed
  qed
qed

definition nestedRoutes :: "sharedRoute list" where
  "nestedRoutes = [\<lparr>srPrefix = (IP4 0x0A000000, 8), srProfile = ''a'', srName = ''a'', srPinned = False\<rparr>,
     \<lparr>srPrefix = (IP4 0x0A010000, 16), srProfile = ''b'', srName = ''b'', srPinned = False\<rparr>]"

lemma pick_order_witness:
  "\<exists>w why. w \<in> set nestedRoutes \<and> prefixContains (srPrefix w) (IP4 0x0A010203) \<and>
    pickByAddr nestedRoutes [''a''] (\<lambda>_. True) (IP4 0x0A010203) None = Inr (srProfile w, why, [AddrString (IP4 0x0A010203)]) \<and>
    (srPinned (hd nestedRoutes) \<longrightarrow> srPinned w \<and> snd (srPrefix (hd nestedRoutes)) \<le> snd (srPrefix w)) \<and>
    ((\<forall>x\<in>set nestedRoutes. prefixContains (srPrefix x) (IP4 0x0A010203) \<longrightarrow> \<not> srPinned x) \<longrightarrow>
      (case rankOf [''a''] (srProfile (hd nestedRoutes)) of
         Some k \<Rightarrow> (\<exists>j\<le>k. rankOf [''a''] (srProfile w) = Some j)
       | None \<Rightarrow> rankOf [''a''] (srProfile w) = None \<longrightarrow> snd (srPrefix (hd nestedRoutes)) \<le> snd (srPrefix w)))"
  by (rule pick_order) (simp_all add: nestedRoutes_def prefixContains_def zoneOf_def Is4_def addrValue_def BitLen_def)

section \<open>Collapsing routes\<close>

lemma div_pow_mono:
  assumes "(a :: nat) div 2 ^ k = b div 2 ^ k" "k \<le> m"
  shows "a div 2 ^ m = b div 2 ^ m"
proof -
  have "a div 2 ^ m = a div 2 ^ k div 2 ^ (m - k)" using assms(2) by (simp flip: div_mult2_eq power_add)
  also have "\<dots> = b div 2 ^ m" using assms by (simp flip: div_mult2_eq power_add)
  finally show ?thesis .
qed

lemma contains_trans:
  assumes "prefixContains k (fst p)" "snd k \<le> snd p" "prefixContains p a"
  shows "prefixContains k a"
proof -
  have b: "BitLen a = BitLen (fst p)" "BitLen a = BitLen (fst k)"
    using assms by (auto simp: prefixContains_def Is4_def BitLen_def split: ipAddr.splits)
  have "addrValue a div 2 ^ (BitLen a - snd k) = addrValue (fst p) div 2 ^ (BitLen a - snd k)"
    by (rule div_pow_mono [of _ "BitLen a - snd p"]) (use assms in \<open>auto simp: prefixContains_def\<close>)
  then show ?thesis using assms b by (auto simp: prefixContains_def)
qed

lemma keep_fold:
  fixes ps :: "prefix list"
  defines "f \<equiv> \<lambda>keep p. if list_ex (\<lambda>k. snd k \<le> snd p \<and> prefixContains k (fst p)) keep then keep else keep @ [p]"
  shows "set (foldl f keep ps) \<subseteq> set keep \<union> set ps" "set keep \<subseteq> set (foldl f keep ps)"
    "p \<in> set ps \<Longrightarrow> \<exists>k\<in>set (foldl f keep ps). k = p \<or> snd k \<le> snd p \<and> prefixContains k (fst p)"
proof -
  have mono: "set keep \<subseteq> set (foldl f keep ps)" for keep ps
  proof (induction ps arbitrary: keep)
    case (Cons q qs)
    have "set keep \<subseteq> set (f keep q)" by (auto simp: f_def)
    then show ?case using Cons.IH [of "f keep q"] by auto
  qed simp
  show "set keep \<subseteq> set (foldl f keep ps)" by (rule mono)
  show "set (foldl f keep ps) \<subseteq> set keep \<union> set ps"
  proof (induction ps arbitrary: keep)
    case (Cons q qs)
    have "set (f keep q) \<subseteq> set keep \<union> {q}" by (auto simp: f_def)
    then show ?case using Cons.IH [of "f keep q"] by auto
  qed simp
  show "p \<in> set ps \<Longrightarrow> \<exists>k\<in>set (foldl f keep ps). k = p \<or> snd k \<le> snd p \<and> prefixContains k (fst p)"
  proof (induction ps arbitrary: keep)
    case (Cons q qs)
    show ?case
    proof (cases "p \<in> set qs")
      case True
      then show ?thesis using Cons.IH [of "f keep q"] by simp
    next
      case False
      then have "\<exists>k\<in>set (f keep p). k = p \<or> snd k \<le> snd p \<and> prefixContains k (fst p)" by (auto simp: f_def list_ex_iff)
      then show ?thesis using mono [of "f keep p" qs] False Cons.prems by auto
    qed
  qed simp
qed

lemma keepRoutes_antichain:
  "sorted_wrt (\<lambda>k p. \<not> (snd k \<le> snd p \<and> prefixContains k (fst p))) (keepRoutes ps)"
proof -
  let ?R = "\<lambda>k p. \<not> (snd k \<le> snd p \<and> prefixContains k (fst p))"
  have "sorted_wrt ?R keep \<Longrightarrow> sorted_wrt ?R
      (foldl (\<lambda>keep p. if list_ex (\<lambda>k. snd k \<le> snd p \<and> prefixContains k (fst p)) keep then keep else keep @ [p]) keep qs)" for keep qs
    by (induction qs arbitrary: keep) (simp_all add: sorted_wrt_append list_ex_iff)
  then show ?thesis unfolding keepRoutes_def by simp
qed


section \<open>Domains\<close>

lemma Trim_empty_iff: "Trim s cs = [] \<longleftrightarrow> set s \<subseteq> set cs"
proof
  assume "Trim s cs = []"
  then have "\<forall>x\<in>set (dropWhile (\<lambda>c. c \<in> set cs) s). x \<in> set cs"
    by (simp only: Trim_def rev_is_Nil_conv dropWhile_eq_Nil_conv set_rev)
  then have "dropWhile (\<lambda>c. c \<in> set cs) s = []" by (metis hd_dropWhile hd_in_set)
  then show "set s \<subseteq> set cs" by (auto simp: dropWhile_eq_Nil_conv)
next
  assume "set s \<subseteq> set cs"
  then have "dropWhile (\<lambda>c. c \<in> set cs) s = []" by (auto simp: dropWhile_eq_Nil_conv)
  then show "Trim s cs = []" by (simp only: Trim_def dropWhile.simps rev.simps)
qed

lemma splitByteFrom_sub:
  "c \<notin> set cur \<Longrightarrow> l \<in> set (splitByteFrom cur s c) \<Longrightarrow> set l \<subseteq> (set cur \<union> set s) - {c}"
  by (induction cur s c arbitrary: l rule: splitByteFrom.induct) (fastforce split: if_splits)+

lemma SplitByte_sub: "l \<in> set (SplitByte s c) \<Longrightarrow> set l \<subseteq> set s - {c}"
  using splitByteFrom_sub [of c "[]" l s] by (simp add: SplitByte_def)

lemma splitByteFrom_ne: "splitByteFrom cur s c \<noteq> []"
  by (induction cur s c rule: splitByteFrom.induct) simp_all

lemma v4Fields_chars: "v4Fields v d fs s = Some bs \<Longrightarrow> x \<in> set s \<Longrightarrow> isDigitA x \<or> x = CHR ''.''"
  by (induction v d fs s rule: v4Fields.induct) (auto simp: Let_def split: if_splits)

lemma digit_in: "isDigitA x \<Longrightarrow> x \<in> set ''0123456789''"
proof -
  assume "isDigitA x"
  then have "byte x = 48 + (byte x - 48)" "byte x - 48 < 10" unfolding isDigitA_def by arith+
  then have "byte x \<in> (+) 48 ` {0, 1, 2, 3, 4, 5, 6, 7, 8, 9}" by (intro image_eqI [of _ _ "byte x - 48"]) (simp_all, arith)
  moreover have "byte ` set ''0123456789'' = (+) 48 ` {0, 1, 2, 3, 4, 5, 6, 7, 8, 9}" by (simp add: byte_def)
  ultimately have "byte x \<in> byte ` set ''0123456789''" by simp
  then show "x \<in> set ''0123456789''" by (metis byte_inject imageE)
qed

text \<open>an IPv4 address is in no domain that a profile can have, so it cannot pass as a name in one.\<close>

lemma address_in_no_domain:
  assumes "parseIPv4 h = Some a" "normalizeDomain ut s = Inr d"
  shows "\<not> inDomain h d"
proof
  assume i: "inDomain h d"
  have "set d \<subseteq> set h" using i by (auto simp: inDomain_def HasSuffix_def HasPrefix_iff prefix_def dest: arg_cong [where f = set])
  then have c: "isDigitA x \<or> x = CHR ''.''" if "x \<in> set d" for x
    using \<open>set d \<subseteq> set h\<close> that assms(1) v4Fields_chars [of 0 0 "[]" h _ x] by (auto simp: parseIPv4_def parseIPv4Fields_def)
  have "last (SplitByte d CHR ''.'') \<in> set (SplitByte d CHR ''.'')" using splitByteFrom_ne by (auto simp: SplitByte_def)
  then have "set (last (SplitByte d CHR ''.'')) \<subseteq> set ''0123456789''" using SplitByte_sub c digit_in by fast
  then have "Trim (last (SplitByte d CHR ''.'')) ''0123456789'' = []" by (simp add: Trim_empty_iff)
  then show False using assms(2) by (auto simp: normalizeDomain_def Let_def split: if_splits)
qed

lemma address_in_no_domain_witness: "\<not> inDomain ''10.1.2.3'' ''example.com''"
  by (rule address_in_no_domain [of _ "IP4 0x0A010203" asciiTables "''*.Example.com.''"]) code_simp+

section \<open>Where the table goes wrong\<close>

lemma half_routes:
  "routeOf ''0.0.0.0/1'' = Some (IP4 0, 1)" "routeOf ''128.0.0.0/1'' = Some (IP4 0x80000000, 1)"
  "ParsePrefix (PrefixString (IP4 0, 1)) = Some (IP4 0, 1)" "ParsePrefix (PrefixString (IP4 0x80000000, 1)) = Some (IP4 0x80000000, 1)"
  by code_simp+

text \<open>only a route of length zero is left out, so a full tunnel written as two halves, the usual way to write one, takes every
  IPv4 address into the profile.\<close>

lemma halves_take_every_address:
  assumes "npKind row = kindWireguard" "{''0.0.0.0/1'', ''128.0.0.0/1''} \<subseteq> set (npAllowedIPs row)" "n < 2 ^ 32"
  shows "\<exists>s\<in>set (profileRoutes row conns folders). \<exists>p. ParsePrefix s = Some p \<and> prefixContains p (IP4 n)"
proof -
  have "(IP4 0, 1) \<in> set (ownRoutes row)" "(IP4 0x80000000, 1) \<in> set (ownRoutes row)"
    using assms(1,2) half_routes by (auto simp: ownRoutes_def set_map_filter)
  then have m: "PrefixString (IP4 0, 1) \<in> set (profileRoutes row conns folders)"
      "PrefixString (IP4 0x80000000, 1) \<in> set (profileRoutes row conns folders)"
    by (auto simp: profileRoutes_def)
  have "n div 2 ^ 31 < 2" using assms(3) by (simp add: less_mult_imp_div_less)
  then have "n div 2 ^ 31 = 0 \<or> n div 2 ^ 31 = 1" by linarith
  then show ?thesis
  proof
    assume "n div 2 ^ 31 = 0"
    then show ?thesis using m(1) half_routes(3)
      by (intro bexI [OF _ m(1)] exI [of _ "(IP4 0, 1)"]) (simp add: prefixContains_def zoneOf_def Is4_def addrValue_def BitLen_def)
  next
    assume "n div 2 ^ 31 = 1"
    then show ?thesis using m(2) half_routes(4)
      by (intro bexI [OF _ m(2)] exI [of _ "(IP4 0x80000000, 1)"]) (simp add: prefixContains_def zoneOf_def Is4_def addrValue_def BitLen_def)
  qed
qed

definition halvesProfile :: profileRow where
  "halvesProfile = officeProfile\<lparr>npAllowedIPs := [''0.0.0.0/1'', ''128.0.0.0/1'']\<rparr>"

lemma halves_take_every_address_witness:
  "\<exists>s\<in>set (profileRoutes halvesProfile [] []). \<exists>p. ParsePrefix s = Some p \<and> prefixContains p (IP4 0x08080808)"
  by (rule halves_take_every_address) (simp_all add: halvesProfile_def officeProfile_def)

definition viaOffice :: "string \<Rightarrow> string \<Rightarrow> connection" where
  "viaOffice cid host = (hostNamed cid host)\<lparr>cOverrides := noSettings\<lparr>iNetworkProfileID := Some ''p''\<rparr>\<rparr>"

definition officeWith :: "string list \<Rightarrow> connection list \<Rightarrow> proxyEnv" where
  "officeWith nets conns = officeOnly\<lparr>peProfiles := Some [officeProfile\<lparr>npAllowedIPs := nets\<rparr>], peConns := Some conns\<rparr>"

text \<open>a connection's address written with a trailing dot is taken for an address and pinned to its profile, but the routes of the
  profile are read without the dot and lack it: the proxy refuses the address, and takes it written without the dot.\<close>

lemma dotted_address_is_not_routed:
  "sharedPick asciiTables (sharedRoutes asciiTables (officeWith [] [viaOffice ''c'' ''192.0.2.1.''])) [] (\<lambda>_. False) (\<lambda>_. None) ''192.0.2.1'' =
     Inl (NotCovered (IP4 0xC0000201)) \<and>
   sharedPick asciiTables (sharedRoutes asciiTables (officeWith [] [viaOffice ''c'' ''192.0.2.1''])) [] (\<lambda>_. False) (\<lambda>_. None) ''192.0.2.1'' =
     Inr (''p'', [''192.0.2.1''])"
  by code_simp

definition viaHop :: "string \<Rightarrow> string \<Rightarrow> string \<Rightarrow> connection" where
  "viaHop cid host hop = (hostNamed cid host)\<lparr>cOverrides := noSettings\<lparr>iJumpHost := Some \<lparr>oKind = ''chain'', oChain = Some (plainHop hop None)\<rparr>\<rparr>\<rparr>"

definition twoPaths :: "((string \<times> string) list \<Rightarrow> (string \<times> string) list) \<Rightarrow> proxyEnv" where
  "twoPaths ord = \<lparr>peProfiles = Some [], peConns = Some [viaHop ''c1'' ''db1'' ''a'', viaHop ''c2'' ''db1.'' ''b''], peFolders = [], peJump = True,
     peExtra = [], peOrder = ord\<rparr>"

text \<open>two connections with one name, of which one is written with its trailing dot, and different jump hosts are not seen as
  ambiguous: which jump host the name goes through depends on the order in which a map is walked.\<close>

lemma jump_host_depends_on_map_order:
  "sharedPick asciiTables (sharedRoutes asciiTables (twoPaths (\<lambda>x. x))) [] (\<lambda>_. False) (\<lambda>_. None) ''db1'' = Inr (jumpRouteID ''c2'', [''db1'']) \<and>
   sharedPick asciiTables (sharedRoutes asciiTables (twoPaths rev)) [] (\<lambda>_. False) (\<lambda>_. None) ''db1'' = Inr (jumpRouteID ''c1'', [''db1''])"
  by code_simp

end
