(* ===== verification/ProxyServer.thy ===== *)
theory ProxyServer
  imports ProxyRoutes "HOL-Library.Word"
begin

text \<open>
  The proxies themselves, \<open>app_localproxy.go\<close>, \<open>app_sharedproxy.go\<close> and \<open>app_profilebrowser.go\<close>: the SOCKS5
  conversation with a client as a function of the bytes it sends, the dial that follows, the settings of
  the shared proxy and of a profile's own. What the network answers is a parameter.
\<close>

unbundle bit_operations_syntax

section \<open>The conversation\<close>

definition localProxyUser :: string where "localProxyUser = ''ssh-tool''"

definition subtleEqual :: "string \<Rightarrow> string \<Rightarrow> bool" where
  "subtleEqual a b \<longleftrightarrow> length a = length b \<and>
     foldl (\<lambda>v (x, y). v OR (word_of_nat (byte x) XOR word_of_nat (byte y))) (0 :: 8 word) (zip a b) = 0"

text \<open>\<open>io.ReadFull\<close> of \<open>n\<close> bytes, and what follows.\<close>

definition readN :: "nat \<Rightarrow> string \<Rightarrow> (string \<times> string) option" where
  "readN n s = (if length s < n then None else Some (take n s, drop n s))"

definition byteAt :: "string \<Rightarrow> nat \<Rightarrow> nat" where
  "byteAt s i = byte (s ! i)"

definition readSOCKSAuth :: "string \<Rightarrow> (string \<times> string \<times> string) option" where
  "readSOCKSAuth s =
     Option.bind (readN 2 s) (\<lambda>(h, s1). if byteAt h 0 \<noteq> 1 then None else
     Option.bind (readN (byteAt h 1) s1) (\<lambda>(u, s2).
     Option.bind (readN 1 s2) (\<lambda>(pl, s3).
     Option.bind (readN (byteAt pl 0) s3) (\<lambda>(p, s4). Some (u, p, s4)))))"

text \<open>How a conversation ends: closed, or a dial for a profile or jump host, with what the client sent after its request.\<close>

datatype socksEnd = SocksClosed | SocksDial string "string list" string string

definition reply :: "nat \<Rightarrow> string" where
  "reply code = map chr [5, code, 0, 1, 0, 0, 0, 0, 0, 0]"

text \<open>The host of a request; \<open>None\<close> for a kind of address that is not known, else what could be read.\<close>

definition socksHost :: "nat \<Rightarrow> string \<Rightarrow> (string \<times> string) option option" where
  "socksHost atyp s =
     (if atyp = 1 \<or> atyp = 4 then
        Some (map_option (\<lambda>(b, r). (case AddrFromSlice (map byte b) of Some ip \<Rightarrow> AddrString ip | None \<Rightarrow> ''invalid IP'', r))
               (readN (if atyp = 4 then 16 else 4) s))
      else if atyp = 3 then Some (Option.bind (readN 1 s) (\<lambda>(l, r). readN (byteAt l 0) r))
      else None)"

definition socksRequest :: "(string \<Rightarrow> 'e + string \<times> string list) \<Rightarrow> string \<Rightarrow> string \<Rightarrow> string \<times> socksEnd" where
  "socksRequest pick out s =
     (case readN 4 s of None \<Rightarrow> (out, SocksClosed)
      | Some (req, s1) \<Rightarrow>
          if byteAt req 1 \<noteq> 1 then (out @ reply 7, SocksClosed)
          else case socksHost (byteAt req 3) s1 of None \<Rightarrow> (out @ reply 8, SocksClosed)
            | Some None \<Rightarrow> (out, SocksClosed)
            | Some (Some (host, s2)) \<Rightarrow>
                (case readN 2 s2 of None \<Rightarrow> (out, SocksClosed)
                 | Some (pb, rest) \<Rightarrow>
                     (case pick host of Inl _ \<Rightarrow> (out @ reply 2, SocksClosed)
                      | Inr (i, hs) \<Rightarrow>
                          if hs = [] then (out @ reply 2, SocksClosed)
                          else (out, SocksDial i hs (natDigits (byteAt pb 0 * 256 + byteAt pb 1)) rest))))"

text \<open>Without a password check the browser's own proxy takes clients that offer no authentication.\<close>

definition serveSOCKS :: "(string \<Rightarrow> bool) option \<Rightarrow> (string \<Rightarrow> 'e + string \<times> string list) \<Rightarrow> string \<Rightarrow> string \<times> socksEnd" where
  "serveSOCKS checkPass pick s =
     (case readN 2 s of None \<Rightarrow> ([], SocksClosed)
      | Some (hdr, s1) \<Rightarrow>
          if byteAt hdr 0 \<noteq> 5 then ([], SocksClosed)
          else case readN (byteAt hdr 1) s1 of None \<Rightarrow> ([], SocksClosed)
            | Some (methods, s2) \<Rightarrow>
                (let want = (if checkPass = None then 0 else 2)
                 in if chr want \<notin> set methods then (map chr [5, 0xff], SocksClosed)
                    else case checkPass of
                      None \<Rightarrow> socksRequest pick (map chr [5, 0]) s2
                    | Some ok \<Rightarrow>
                        (case readSOCKSAuth s2 of None \<Rightarrow> (map chr [5, 2], SocksClosed)
                         | Some (user, pass, s3) \<Rightarrow>
                             if user \<noteq> localProxyUser \<or> \<not> ok pass then (map chr [5, 2, 1, 1], SocksClosed)
                             else socksRequest pick (map chr [5, 2, 1, 0]) s3)))"

section \<open>The dial\<close>

text \<open>What an address answers; the bound of the whole dial may be over.\<close>

datatype dialed = DialOK | DialFailed | DialTimeUp

record dialEnv =
  deRow :: "string \<Rightarrow> bool"        \<comment> \<open>the profile is there\<close>
  deTunnel :: "string \<Rightarrow> bool"     \<comment> \<open>its tunnel is up or comes up\<close>
  deJump :: "string \<Rightarrow> string \<Rightarrow> bool" \<comment> \<open>connection, target\<close>
  deDial :: "string \<Rightarrow> string \<Rightarrow> dialed" \<comment> \<open>profile, target\<close>

fun dialEach :: "(string \<Rightarrow> dialed) \<Rightarrow> string list \<Rightarrow> string option" where
  "dialEach r [] = None"
| "dialEach r (h # hs) = (case r h of DialOK \<Rightarrow> Some h | DialTimeUp \<Rightarrow> None | DialFailed \<Rightarrow> dialEach r hs)"

text \<open>\<open>net.JoinHostPort\<close>.\<close>

definition JoinHostPort :: "string \<Rightarrow> string \<Rightarrow> string" where
  "JoinHostPort host port = (if CHR '':'' \<in> set host then ''['' @ host @ '']:'' @ port else host @ '':'' @ port)"

text \<open>The reply's code, and the target connected to.\<close>

definition socksDial :: "dialEnv \<Rightarrow> string \<Rightarrow> string list \<Rightarrow> string \<Rightarrow> nat \<times> string option" where
  "socksDial env i hs port =
     (let target = (\<lambda>h. JoinHostPort h port)
      in if jumpConnOf i \<noteq> [] then
           (if deJump env (jumpConnOf i) (target (hd hs)) then (0, Some (target (hd hs))) else (5, None))
         else if i \<noteq> [] \<and> \<not> (deRow env i \<and> deTunnel env i) then (1, None)
         else case dialEach (deDial env i) (map target hs) of Some t \<Rightarrow> (0, Some t) | None \<Rightarrow> (5, None))"

section \<open>The browser's pick\<close>

text \<open>
  \<open>routes\<close>: the profile's, or \<open>None\<close> when the profile is gone; \<open>named\<close>: a connection of the profile has this
  host name. An empty profile is a direct dial.
\<close>

definition inRoutes :: "string list \<Rightarrow> ipAddr \<Rightarrow> bool" where
  "inRoutes routes ip \<longleftrightarrow> list_ex (\<lambda>r. case ParsePrefix r of Some p \<Rightarrow> prefixContains p ip | None \<Rightarrow> False) routes"

definition browserPickAll :: "string list option \<Rightarrow> (string \<Rightarrow> bool) \<Rightarrow> (string \<Rightarrow> ipAddr list option) \<Rightarrow> string \<Rightarrow> string \<Rightarrow>
    unit + string \<times> string list" where
  "browserPickAll routes named lookup i host =
     (case routes of None \<Rightarrow> Inl ()
      | Some rs \<Rightarrow>
     (case ParseAddr host of
        Some ip \<Rightarrow> Inr (if inRoutes rs (Unmap ip) then i else [], [host])
      | None \<Rightarrow>
     (case valueOr (lookup host) [] of
        [] \<Rightarrow> Inr (i, [host])
      | a # as \<Rightarrow>
          (let inside = map (\<lambda>x. AddrString (Unmap x)) (filter (\<lambda>x. inRoutes rs (Unmap x)) (a # as))
           in if inside \<noteq> [] then Inr (i, inside) else Inr (if named host then i else [], [host])))))"

section \<open>Settings\<close>

datatype proxyError = BadListen string | BadPort | BadNetwork string | BadDomain string domainError
  | NoPassword | ListenFailed | SaveFailed | NoProfile

definition listenOn :: "string \<Rightarrow> string" where
  "listenOn b = (let t = TrimSpace b in if t = [] then ''127.0.0.1'' else t)"

fun normNetworks :: "string list \<Rightarrow> proxyError + string list" where
  "normNetworks [] = Inr []"
| "normNetworks (n # ns) =
     (let t = TrimSpace n
      in if t = [] then normNetworks ns
         else case parseRoute t of None \<Rightarrow> Inl (BadNetwork t)
           | Some p \<Rightarrow> map_sum id ((#) (PrefixString p)) (normNetworks ns))"

fun normDomains :: "unicodeTables \<Rightarrow> string list \<Rightarrow> proxyError + string list" where
  "normDomains ut [] = Inr []"
| "normDomains ut (d # ds) =
     (if TrimSpace d = [] then normDomains ut ds
      else case normalizeDomain ut d of Inl e \<Rightarrow> Inl (BadDomain (TrimSpace d) e)
        | Inr n \<Rightarrow> map_sum id ((#) n) (normDomains ut ds))"

definition checkListen :: "bool \<Rightarrow> string \<Rightarrow> int \<Rightarrow> proxyError option" where
  "checkListen enabled b port =
     (if enabled then (if ParseAddr b = None then Some (BadListen b) else if port < 1 \<or> port > 65535 then Some BadPort else None) else None)"

definition normalize :: "unicodeTables \<Rightarrow> localProxyConfig \<Rightarrow> proxyError + localProxyConfig" where
  "normalize ut c =
     (let b = listenOn (lpBind c)
      in case checkListen (lpEnabled c) b (lpPort c) of Some e \<Rightarrow> Inl e
         | None \<Rightarrow>
             bindr (normNetworks (lpNetworks c)) (\<lambda>nets.
             bindr (normDomains ut (lpDomains c)) (\<lambda>doms.
               Inr (c\<lparr>lpBind := b, lpNetworks := nets, lpDomains := distinctFirst doms\<rparr>))))"

text \<open>The shared proxy: what is synced, what is this machine's, and the listener.\<close>

record sharedProxyConfig =
  spPriority :: "string list"
  spUse :: string
  spJump :: bool

record sharedProxyListen =
  slEnabled :: bool
  slBind :: string
  slPort :: int

record proxyState =
  psSynced :: "(sharedProxyConfig \<times> sharedProxyListen) option" \<comment> \<open>an older profile carries a listen part\<close>
  psListen :: "sharedProxyListen option"
  psListener :: "(string \<times> int) option"

definition priorityOf :: "string list \<Rightarrow> string \<Rightarrow> string list" where
  "priorityOf priority use = (if priority = [] \<and> use \<noteq> [] then [use] else priority)"

definition sharedConfig :: "proxyState \<Rightarrow> sharedProxyConfig \<times> sharedProxyListen" where
  "sharedConfig st =
     (let (c, l0) = valueOr (psSynced st) (\<lparr>spPriority = [], spUse = [], spJump = False\<rparr>, \<lparr>slEnabled = False, slBind = [], slPort = 0\<rparr>);
          l = valueOr (psListen st) l0
      in (c\<lparr>spPriority := priorityOf (spPriority c) (spUse c), spUse := []\<rparr>,
          if slBind l = [] then l\<lparr>slBind := ''127.0.0.1''\<rparr> else l))"

text \<open>What the steps of a save meet: the password, the port, the two stores, and the way back.\<close>

record saveEnv =
  sePassword :: bool
  sePort :: bool
  seLocal :: bool
  seStore :: bool
  seRestore :: bool

definition NetworkSharedProxySet :: "saveEnv \<Rightarrow> sharedProxyConfig \<Rightarrow> sharedProxyListen \<Rightarrow> proxyState \<Rightarrow> proxyError option \<times> proxyState" where
  "NetworkSharedProxySet env c0 l0 st =
     (let l = l0\<lparr>slBind := listenOn (slBind l0)\<rparr>;
          c = c0\<lparr>spPriority := priorityOf (spPriority c0) (spUse c0), spUse := []\<rparr>
      in case checkListen (slEnabled l) (slBind l) (slPort l) of Some e \<Rightarrow> (Some e, st)
         | None \<Rightarrow>
             if slEnabled l \<and> \<not> sePassword env then (Some NoPassword, st)
             else let st1 = st\<lparr>psListener := None\<rparr>
               in if slEnabled l \<and> \<not> sePort env then (Some ListenFailed, st1)
                  else if \<not> seLocal env then (Some SaveFailed, st1)
                  else let st2 = st1\<lparr>psListener := (if slEnabled l then Some (slBind l, slPort l) else None), psListen := Some l\<rparr>
                    in if \<not> seStore env then
                         (Some SaveFailed, st2\<lparr>psListener := None,
                            psListen := (if seRestore env then psListen st else Some l)\<rparr>)
                       else (None, st2\<lparr>psSynced := Some (c, \<lparr>slEnabled = False, slBind = [], slPort = 0\<rparr>)\<rparr>))"

section \<open>Reading\<close>

lemma readN_append [simp]: "readN (length a) (a @ b) = Some (a, b)"
  by (simp add: readN_def)

lemma readN_Some: "readN n s = Some (a, b) \<longleftrightarrow> length a = n \<and> s = a @ b"
  by (auto simp: readN_def)

lemma byteAt_simps [simp]: "byteAt (c # s) 0 = byte c" "byteAt (c # s) (Suc i) = byteAt s i"
  by (simp_all add: byteAt_def)

lemma length2: "length a = 2 \<Longrightarrow> \<exists>x y. a = [x, y]" "length a = 1 \<Longrightarrow> \<exists>x. a = [x]"
  by (auto simp: numeral_2_eq_2 length_Suc_conv)

lemma readSOCKSAuth_Some:
  assumes "readSOCKSAuth s = Some (u, p, r)"
  shows "s = [chr 1, chr (length u)] @ u @ [chr (length p)] @ p @ r \<and> length u < 256 \<and> length p < 256"
proof -
  obtain h s1 s2 pl s3 where r: "readN 2 s = Some (h, s1)" "byteAt h 0 = 1" "readN (byteAt h 1) s1 = Some (u, s2)"
      "readN 1 s2 = Some (pl, s3)" "readN (byteAt pl 0) s3 = Some (p, r)"
    using assms by (auto simp: readSOCKSAuth_def Option.bind_eq_Some_conv split: if_splits)
  obtain x y where h: "h = [x, y]" using r(1) length2(1) [of h] by (auto simp: readN_Some)
  obtain z where z: "pl = [z]" using r(4) length2(2) [of pl] by (auto simp: readN_Some)
  have "x = chr 1" "y = chr (length u)" "z = chr (length p)" "length u < 256" "length p < 256"
    using r h z by (auto simp: readN_Some simp flip: byte_inject)
  then show ?thesis using r h z by (auto simp: readN_Some)
qed

lemma socksRequest_dial:
  assumes "socksRequest pick out s = (o2, SocksDial i hs port rest)"
  shows "o2 = out \<and> (\<exists>host. pick host = Inr (i, hs)) \<and> hs \<noteq> []"
  using assms by (auto simp: socksRequest_def split: option.splits prod.splits sum.splits if_splits)

lemma socks_authenticated:
  assumes "serveSOCKS (Some ok) pick s = (out, SocksDial i hs port rest)"
  shows "\<exists>methods pass req. s = [chr 5, chr (length methods)] @ methods @
      [chr 1, chr (length localProxyUser)] @ localProxyUser @ [chr (length pass)] @ pass @ req \<and>
    chr 2 \<in> set methods \<and> ok pass \<and> (\<exists>host. pick host = Inr (i, hs)) \<and> hs \<noteq> []"
proof -
  obtain hdr s1 methods s2 user pass s3 where r: "readN 2 s = Some (hdr, s1)" "byteAt hdr 0 = 5"
      "readN (byteAt hdr 1) s1 = Some (methods, s2)" "chr 2 \<in> set methods" "readSOCKSAuth s2 = Some (user, pass, s3)"
      "user = localProxyUser" "ok pass" "socksRequest pick (map chr [5, 2, 1, 0]) s3 = (out, SocksDial i hs port rest)"
    using assms by (auto simp: serveSOCKS_def Let_def split: option.splits prod.splits if_splits)
  obtain x y where h: "hdr = [x, y]" using r(1) length2(1) [of hdr] by (auto simp: readN_Some)
  have "x = chr 5" "y = chr (length methods)"
    using r(2,3) h by (auto simp: readN_Some simp flip: byte_inject)
  then have "s = [chr 5, chr (length methods)] @ methods @ s2" using r(1,3) h by (auto simp: readN_Some)
  then show ?thesis using readSOCKSAuth_Some [OF r(5)] r socksRequest_dial [OF r(8)]
    by (intro exI [of _ methods] exI [of _ pass] exI [of _ s3]) simp
qed

section \<open>A client that follows the protocol\<close>

definition socksHello :: "string \<Rightarrow> string" where
  "socksHello pass = map chr [5, 1, 2] @ [chr 1, chr (length localProxyUser)] @ localProxyUser @ [chr (length pass)] @ pass"

definition socksConnect :: "string \<Rightarrow> nat \<Rightarrow> string" where
  "socksConnect host port = map chr [5, 1, 0, 3, length host] @ host @ map chr [port div 256, port mod 256]"

lemma socks_follows:
  assumes "ok pass" "length pass < 256" "length host < 256" "port < 65536" "pick host = Inr (i, h # hs)"
  shows "serveSOCKS (Some ok) pick (socksHello pass @ socksConnect host port @ rest) =
    (map chr [5, 2, 1, 0], SocksDial i (h # hs) (natDigits port) rest)"
proof -
  have auth: "readSOCKSAuth ([chr 1, chr (length localProxyUser)] @ localProxyUser @ [chr (length pass)] @ pass @ r) =
      Some (localProxyUser, pass, r)" for r
    using assms(2) by (simp add: readSOCKSAuth_def readN_def localProxyUser_def byteAt_def)
  have p: "port div 256 < 256" using assms(4) by (simp add: less_mult_imp_div_less)
  have req: "socksRequest pick out (socksConnect host port @ rest) = (out, SocksDial i (h # hs) (natDigits port) rest)" for out
    using assms(3,5) p by (simp add: socksRequest_def socksConnect_def readN_def byteAt_def socksHost_def div_mult_mod_eq)
  have "serveSOCKS (Some ok) pick (map chr [5, 1, 2] @ r) =
      (case readSOCKSAuth r of None \<Rightarrow> (map chr [5, 2], SocksClosed)
       | Some (user, pass, s3) \<Rightarrow> if user \<noteq> localProxyUser \<or> \<not> ok pass then (map chr [5, 2, 1, 1], SocksClosed)
           else socksRequest pick (map chr [5, 2, 1, 0]) s3)" for r
    by (simp add: serveSOCKS_def readN_def byteAt_def)
  then show ?thesis unfolding socksHello_def append_assoc using auth req assms(1) by (simp del: list.map)
qed

text \<open>a client that sends the right password and asks for a host by name gets the dial its pick allows, with the port it asked
  for and everything it sent after the request.\<close>

lemma socks_request_is_read:
  assumes "ok pass" "length pass < 256" "length host < 256" "port < 65536" "pick host = Inr (i, h # hs)"
  shows "serveSOCKS (Some ok) pick (socksHello pass @ socksConnect host port @ rest) =
    (map chr [5, 2, 1, 0], SocksDial i (h # hs) (natDigits port) rest)"
  by (rule socks_follows) (fact assms)+

lemma socks_request_is_read_witness:
  "serveSOCKS (Some ((=) ''pw'')) (\<lambda>h. (Inr (''p'', [h]) :: unit + string \<times> string list)) (socksHello ''pw'' @ socksConnect ''db1'' 5432 @ ''x'') =
     (map chr [5, 2, 1, 0], SocksDial ''p'' [''db1''] (natDigits 5432) ''x'')"
  by (rule socks_request_is_read) simp_all

section \<open>The shared proxy, end to end\<close>

lemma word_xor_eq_0: "a XOR b = 0 \<longleftrightarrow> a = b" for a b :: "'a::len word"
proof
  assume "a XOR b = 0"
  then have "(a XOR b) XOR b = b" by simp
  then show "a = b" by (simp add: xor.assoc)
qed simp

lemma byte_word_inject: "(word_of_nat (byte x) :: 8 word) = word_of_nat (byte y) \<longleftrightarrow> x = y"
proof
  assume "(word_of_nat (byte x) :: 8 word) = word_of_nat (byte y)"
  then have "unat (word_of_nat (byte x) :: 8 word) = unat (word_of_nat (byte y) :: 8 word)" by (rule arg_cong)
  then have "byte x = byte y" by (simp add: unat_of_nat)
  then show "x = y" by (simp only: byte_inject)
qed simp

lemma subtle_fold: "foldl (\<lambda>v (x, y). v OR (word_of_nat (byte x) XOR word_of_nat (byte y))) (v :: 8 word) xs = 0 \<longleftrightarrow>
    v = 0 \<and> (\<forall>(x, y)\<in>set xs. x = y)"
  by (induction xs arbitrary: v) (auto simp: or_eq_0_iff word_xor_eq_0 byte_word_inject)

lemma subtleEqual_eq: "subtleEqual a b \<longleftrightarrow> a = b"
  unfolding subtleEqual_def subtle_fold by (auto simp: list_eq_iff_zip_eq)

text \<open>C3: whatever a client of the shared proxy sends, it is dialled for only with the proxy's own password, only through a shared
  profile or a jump host that the setting lets through, and only to what that profile or connection reaches.\<close>

theorem shared_proxy_is_no_way_out:
  assumes "\<And>xs. set (peOrder env xs) = set xs"
    "serveSOCKS (Some (\<lambda>pw. subtleEqual pw want)) (sharedPick ut (sharedRoutes ut env) priority up lookup) s = (out, SocksDial i hs port rest)"
  shows "routeSource env i \<and> (\<exists>host. proxyAllows ut env host i hs) \<and>
    (\<exists>methods req. s = [chr 5, chr (length methods)] @ methods @
       [chr 1, chr (length localProxyUser)] @ localProxyUser @ [chr (length want)] @ want @ req)"
proof -
  obtain methods pass req host where d: "s = [chr 5, chr (length methods)] @ methods @
      [chr 1, chr (length localProxyUser)] @ localProxyUser @ [chr (length pass)] @ pass @ req"
      "subtleEqual pass want" "sharedPick ut (sharedRoutes ut env) priority up lookup host = Inr (i, hs)"
    using socks_authenticated [OF assms(2)] by blast
  then show ?thesis using proxy_pick_sound [OF assms(1) d(3)] unfolding subtleEqual_eq by blast
qed

lemma shared_proxy_is_no_way_out_witness:
  "routeSource officeOnly ''p'' \<and> (\<exists>host. proxyAllows asciiTables officeOnly host ''p'' [''10.1.2.3'']) \<and>
    (\<exists>methods req. socksHello ''pw'' @ socksConnect ''10.1.2.3'' 443 @ [] = [chr 5, chr (length methods)] @ methods @
       [chr 1, chr (length localProxyUser)] @ localProxyUser @ [chr (length ''pw'')] @ ''pw'' @ req)"
  by (rule shared_proxy_is_no_way_out [OF _ socks_follows, where ut = asciiTables and priority = "[]" and up = "\<lambda>_. False" and lookup = "\<lambda>_. None"])
    (simp_all add: subtleEqual_eq office_pick, simp_all add: officeOnly_def)

section \<open>What the page shows\<close>

definition displayHost :: "string \<Rightarrow> string" where
  "displayHost b = (if b = [] \<or> b = ''0.0.0.0'' then ''127.0.0.1'' else if b = ''::'' then ''::1'' else b)"

definition slugStep :: "string \<Rightarrow> nat \<Rightarrow> string" where
  "slugStep b r =
     (if 97 \<le> r \<and> r \<le> 122 \<or> 48 \<le> r \<and> r \<le> 57 then b @ [chr r]
      else if b \<noteq> [] \<and> \<not> HasSuffix b ''-'' then b @ ''-'' else b)"

definition slugName :: "unicodeTables \<Rightarrow> string \<Rightarrow> string" where
  "slugName ut s = Trim (foldl slugStep [] (runes (ToLower ut s))) ''-''"

definition tun2socksImage :: string where "tun2socksImage = ''xjasonlyu/tun2socks:v2.6.0''"

definition gatewayCommand :: "string \<Rightarrow> string \<Rightarrow> int \<Rightarrow> string list \<Rightarrow> string" where
  "gatewayCommand name pw port routes = Join
     [''docker run -d --name '' @ name @ '' --restart unless-stopped'',
      ''--cap-add NET_ADMIN --device /dev/net/tun'',
      ''--add-host host.docker.internal:host-gateway'',
      ''-e PROXY=socks5://'' @ localProxyUser @ '':'' @ pw @ ''@host.docker.internal:'' @ itoaInt port,
      ''-e TUN_INCLUDED_ROUTES='' @ Join routes '','',
      ''-e EXTRA_COMMANDS='' @ [chr 39] @ ''ip rule del not fwmark 0x22b table 0x22b'' @ [chr 39],
      tun2socksImage] '' ''"

definition proxyURL :: "localProxyConfig \<Rightarrow> string \<Rightarrow> string" where
  "proxyURL cfg pw = ''socks5://'' @ localProxyUser @ '':'' @ pw @ ''@'' @ JoinHostPort (displayHost (lpBind cfg)) (itoaInt (lpPort cfg))"

section \<open>What a tunnel reports\<close>

record gatewayReport =
  grRoutes :: "string list option"
  grSearch :: "string list"
  grSplitDNS :: "string list"

text \<open>A remembered list is replaced, and cleared only by a report of the whole tunnel.\<close>

definition remembered :: "bool \<Rightarrow> string list \<Rightarrow> string list \<Rightarrow> string list" where
  "remembered complete old val = (if val = [] then (if complete then [] else old) else val)"

definition rememberGateway :: "unicodeTables \<Rightarrow> gatewayReport \<Rightarrow> profileRow \<Rightarrow> profileRow" where
  "rememberGateway ut v row =
     (let routes = map PrefixString (List.map_filter routeOf (valueOr (grRoutes v) []));
          search = distinctFirst (goodDomains ut (grSearch v));
          domains = distinctFirst (goodDomains ut (grSearch v @ grSplitDNS v));
          complete = (grRoutes v \<noteq> None)
      in if \<not> complete \<and> domains = [] then row
         else row\<lparr>npLastRoutes := remembered complete (npLastRoutes row) routes,
                  npLastDomains := remembered complete (npLastDomains row) domains,
                  npLastSearch := remembered complete (npLastSearch row) search\<rparr>)"

section \<open>The page of the app proxy\<close>

text \<open>Two routes to the same network: who wins, by the order of the profiles.\<close>

definition overlapWinner :: "string list \<Rightarrow> sharedRoute \<Rightarrow> sharedRoute \<Rightarrow> string" where
  "overlapWinner priority r other =
     (case filter (\<lambda>p. p = srProfile r \<or> p = srProfile other) priority of
        [] \<Rightarrow> ''whichever is connected''
      | p # _ \<Rightarrow> if p = srProfile r then srName r else srName other)"

fun overlaps :: "string list \<Rightarrow> (prefix \<Rightarrow> sharedRoute option) \<Rightarrow> sharedRoute list \<Rightarrow> (prefix \<times> string \<times> string \<times> string) list" where
  "overlaps priority seen [] = []"
| "overlaps priority seen (r # rs) =
     (case seen (srPrefix r) of
        Some other \<Rightarrow> if srProfile other \<noteq> srProfile r
          then (srPrefix r, srName other, srName r, overlapWinner priority r other) # overlaps priority seen rs
          else overlaps priority (seen(srPrefix r \<mapsto> r)) rs
      | None \<Rightarrow> overlaps priority (seen(srPrefix r \<mapsto> r)) rs)"

section \<open>The command is what it looks like\<close>

definition plainChar :: "char \<Rightarrow> bool" where
  "plainChar c \<longleftrightarrow> isLowerA c \<or> isUpperA c \<or> isDigitA c \<or> c \<in> set ''-_./:''"

abbreviation odd' :: "string \<Rightarrow> string" where "odd' s \<equiv> filter (\<lambda>c. \<not> plainChar c) s"

lemma plainChar_digit: "isDigitA c \<Longrightarrow> plainChar c"
  by (simp add: plainChar_def)

lemma odd_natDigits: "odd' (natDigits n) = []"
  using natDigits_digits [of n] by (auto simp: filter_empty_conv plainChar_def)

lemma odd_itoaInt: "odd' (itoaInt i) = []"
  by (simp add: itoaInt_def odd_natDigits) (simp add: plainChar_def)

lemma odd_Join: "(\<And>x. x \<in> set xs \<Longrightarrow> odd' x = []) \<Longrightarrow> odd' (Join xs sep) = concat (replicate (length xs - 1) (odd' sep))"
  by (induction xs sep rule: Join.induct) simp_all

lemma Trim_sub: "set (Trim s cs) \<subseteq> set s"
  unfolding Trim_def by (auto dest!: set_dropWhileD)

lemma slug_plain: "odd' (slugName ut s) = []"
proof -
  have "set (foldl slugStep b rs) \<subseteq> {c. plainChar c}" if "set b \<subseteq> {c. plainChar c}" for b rs
    using that
  proof (induction rs arbitrary: b)
    case (Cons r rs)
    have "plainChar (chr r)" if "97 \<le> r \<and> r \<le> 122 \<or> 48 \<le> r \<and> r \<le> 57"
      using that by (auto simp: plainChar_def isLowerA_def isDigitA_def)
    moreover have "plainChar CHR ''-''" by (simp add: plainChar_def)
    ultimately have "set (slugStep b r) \<subseteq> {c. plainChar c}" using Cons.prems by (auto simp: slugStep_def)
    then show ?case using Cons.IH by simp
  qed simp
  from this [of "[]"] have "set (slugName ut s) \<subseteq> {c. plainChar c}"
    unfolding slugName_def using Trim_sub [of "foldl slugStep [] (runes (ToLower ut s))" "''-''"] by auto
  then show ?thesis by (auto simp: filter_empty_conv)
qed

lemma odd_lowHex: "d < 16 \<Longrightarrow> plainChar (lowHex d)"
  by (auto simp: lowHex_def plainChar_def isDigitA_def isLowerA_def)

lemma odd_appendHex: "n < 0x10000 \<Longrightarrow> odd' (appendHex n) = []"
  by (simp add: appendHex_def odd_lowHex)

lemma odd_groups: "set gs \<subseteq> {..<0x10000} \<Longrightarrow> odd' (Join (map appendHex gs) '':'') = []"
proof -
  have "odd' '':'' = []" by (simp add: plainChar_def)
  then show "set gs \<subseteq> {..<0x10000} \<Longrightarrow> odd' (Join (map appendHex gs) '':'') = []"
    by (subst odd_Join) (auto simp: odd_appendHex)
qed

lemma odd_string4: "odd' (string4 n) = []"
  unfolding string4_def by (simp add: odd_natDigits) (simp add: plainChar_def)

lemma odd_AddrString:
  assumes "zoneOf a = []"
  shows "odd' (AddrString a) = []"
proof (cases a)
  case (IP6 n z)
  have g: "set (groupsOf n) \<subseteq> {..<0x10000}" by (auto simp: groupsOf_def)
  have sub: "set (take k (groupsOf n)) \<subseteq> {..<0x10000}" "set (drop k (groupsOf n)) \<subseteq> {..<0x10000}" for k
    using g set_take_subset set_drop_subset by fast+
  have c: "plainChar CHR '':''" "plainChar CHR ''f''" by (simp_all add: plainChar_def isLowerA_def byte_def)
  have "odd' (string6 n []) = []"
    by (simp add: string6_def Let_def odd_groups g sub c split: prod.splits)
  then show ?thesis using IP6 assms by (simp add: AddrString_def zoneOf_def odd_string4 c)
qed (simp add: AddrString_def odd_string4)

lemma odd_PrefixString: "zoneOf (fst p) = [] \<Longrightarrow> odd' (PrefixString p) = []"
  by (simp add: PrefixString_def odd_AddrString odd_natDigits) (simp add: plainChar_def)

lemma Masked_zone: "zoneOf (fst (Masked p)) = []"
  by (auto simp: Masked_def zoneOf_def split: prod.splits ipAddr.splits)

lemma odd_collapseRoutes: "r \<in> set (collapseRoutes rs) \<Longrightarrow> odd' r = []"
proof -
  let ?ps = "List.map_filter (\<lambda>r. map_option Masked (ParsePrefix r)) rs"
  assume "r \<in> set (collapseRoutes rs)"
  then obtain p where p: "p \<in> set (keepRoutes ?ps)" "r = PrefixString p" by (auto simp: collapseRoutes_def)
  have "p \<in> set ?ps" using keep_fold(1) [of "[]" "sort_key snd ?ps"] p(1) unfolding keepRoutes_def by auto
  then show ?thesis unfolding p(2) by (intro odd_PrefixString) (auto simp: set_map_filter Masked_zone)
qed

text \<open>C0: whatever the profile is called and whatever routes it has, the gateway command the page offers to paste into a shell is the
  one it looks like: apart from the commas between the routes, every character that is not a letter, a digit or one of
  \<open>-_./:\<close> is one of the template's own.\<close>

theorem gateway_command_is_plain:
  assumes "list_all plainChar pw"
  shows "filter (\<lambda>c. \<not> plainChar c \<and> c \<noteq> CHR '','')
      (gatewayCommand (''sshtool-gw-'' @ slugName ut name) pw port (collapseRoutes routes)) =
    filter (\<lambda>c. \<not> plainChar c \<and> c \<noteq> CHR '','') (gatewayCommand [] [] 0 [])"
proof -
  have sub: "odd' s = [] \<Longrightarrow> filter (\<lambda>c. \<not> plainChar c \<and> c \<noteq> CHR '','') s = []" for s by (auto simp: filter_empty_conv)
  have rs: "filter (\<lambda>c. \<not> plainChar c \<and> c \<noteq> CHR '','') (Join (collapseRoutes routes) '','') = []"
    using set_Join [of "collapseRoutes routes" "'',''"] odd_collapseRoutes by (fastforce simp: filter_empty_conv)
  have pw: "filter (\<lambda>c. \<not> plainChar c \<and> c \<noteq> CHR '','') pw = []"
    using assms by (auto simp: filter_empty_conv list_all_iff)
  have gw: "filter (\<lambda>c. \<not> plainChar c \<and> c \<noteq> CHR '','') ''sshtool-gw-'' = []" by code_simp
  show ?thesis unfolding gatewayCommand_def Join.simps filter_append rs pw gw sub [OF slug_plain] sub [OF odd_itoaInt] by simp
qed

lemma gateway_command_is_plain_witness:
  "filter (\<lambda>c. \<not> plainChar c \<and> c \<noteq> CHR '','')
      (gatewayCommand (''sshtool-gw-'' @ slugName asciiTables ''Office (EU); rm'') ''pW_1-x'' 1080 (collapseRoutes [''10.0.0.0/8'', ''10.1.0.0/16''])) =
    filter (\<lambda>c. \<not> plainChar c \<and> c \<noteq> CHR '','') (gatewayCommand [] [] 0 [])"
  by (rule gateway_command_is_plain) code_simp

section \<open>A change of the setting\<close>

text \<open>a change of the shared proxy that is accepted is the setting from then on, and the proxy listens where it says, or not at
  all; one that is refused leaves the synced part alone, and this machine's too unless putting it back fails.\<close>

lemma shared_proxy_setting:
  "case NetworkSharedProxySet env c l st of
     (None, st') \<Rightarrow>
       sharedConfig st' = (c\<lparr>spPriority := priorityOf (spPriority c) (spUse c), spUse := []\<rparr>, l\<lparr>slBind := listenOn (slBind l)\<rparr>) \<and>
       psListener st' = (if slEnabled l then Some (listenOn (slBind l), slPort l) else None)
   | (Some e, st') \<Rightarrow>
       psSynced st' = psSynced st \<and> psListener st' \<in> {psListener st, None} \<and>
       psListen st' = (if e = SaveFailed \<and> seLocal env \<and> \<not> seRestore env then Some (l\<lparr>slBind := listenOn (slBind l)\<rparr>) else psListen st)"
proof -
  have b: "listenOn x \<noteq> []" for x by (simp add: listenOn_def Let_def)
  have e: "checkListen en b p \<noteq> Some SaveFailed" for en b p by (simp add: checkListen_def)
  show ?thesis
    using e by (auto simp: NetworkSharedProxySet_def Let_def sharedConfig_def priorityOf_def valueOr_def b split: option.splits)
qed

text \<open>A change that cannot listen takes down the proxy that was listening; its setting stays, enabled.\<close>

lemma failed_change_stops_the_proxy:
  assumes "checkListen True (listenOn (slBind l)) (slPort l) = None" "slEnabled l" "sePassword env" "\<not> sePort env"
  shows "NetworkSharedProxySet env c l st = (Some ListenFailed, st\<lparr>psListener := None\<rparr>)"
  using assms by (simp add: NetworkSharedProxySet_def)

section \<open>What is remembered\<close>

lemma full_report_replaces:
  assumes "grRoutes v = Some rs"
  shows "npLastRoutes (rememberGateway ut v row) = map PrefixString (List.map_filter routeOf rs)"
    "rememberGateway ut v (rememberGateway ut w row) = rememberGateway ut v row"
  using assms by (auto simp: rememberGateway_def Let_def remembered_def valueOr_def)

lemma partial_report_keeps_routes:
  "grRoutes v = None \<Longrightarrow> npLastRoutes (rememberGateway ut v row) = npLastRoutes row"
  by (simp add: rememberGateway_def Let_def remembered_def valueOr_def List.map_filter_def)

section \<open>The browser's traffic is split\<close>

text \<open>A destination outside the profile's networks that the local resolver knows leaves directly, unless a connection of the
  profile has its name.\<close>

lemma browser_goes_direct:
  assumes "browserPickAll (Some rs) named lookup i host = Inr ([], hs)" "i \<noteq> []"
  shows "hs = [host] \<and> (case ParseAddr host of Some ip \<Rightarrow> \<not> inRoutes rs (Unmap ip)
    | None \<Rightarrow> \<not> named host \<and> (\<exists>as. lookup host = Some as \<and> as \<noteq> [] \<and> (\<forall>a\<in>set as. \<not> inRoutes rs (Unmap a))))"
  using assms by (auto simp: browserPickAll_def valueOr_def Let_def filter_empty_conv split: option.splits list.splits if_splits)

end
