(* ===== verification/WgProfile.thy ===== *)
theory WgProfile
  imports ProxyServer Base64
begin

text \<open>
  WireGuard profiles, \<open>internal/wg/profile.go\<close>, and what a tunnel is configured with,
  \<open>internal/wg/manager.go\<close>: reading a wg-quick file, writing one for the edit form, the checks, and the text the
  device reads. The answer of the system's resolver is a parameter.
\<close>

section \<open>Addresses with a port\<close>

text \<open>\<open>net.SplitHostPort\<close>.\<close>

definition SplitHostPort :: "string \<Rightarrow> (string \<times> string) option" where
  "SplitHostPort s =
     (case cutLast CHR '':'' s of None \<Rightarrow> None
      | Some (a, port) \<Rightarrow>
          if HasPrefix s ''['' then
            (let h = takeWhile (\<lambda>c. c \<noteq> CHR '']'') (tl a)
             in if a = CHR ''['' # h @ '']''
                  \<and> CHR ''['' \<notin> set h \<and> CHR ''['' \<notin> set port \<and> CHR '']'' \<notin> set port then Some (h, port) else None)
          else if CHR '':'' \<in> set a \<or> CHR ''['' \<in> set s \<or> CHR '']'' \<in> set s then None
          else Some (a, port))"

text \<open>\<open>netip.AddrPort.String\<close>.\<close>

definition AddrPortString :: "ipAddr \<Rightarrow> nat \<Rightarrow> string" where
  "AddrPortString a port = (if Is4 a then AddrString a else ''['' @ AddrString a @ '']'') @ '':'' @ natDigits port"

section \<open>Profiles\<close>

record wgPeer =
  wpPublicKey :: string
  wpPresharedKey :: string
  wpHasPSK :: bool
  wpEndpoint :: string
  wpAllowedIPs :: "string list"
  wpKeepalive :: int

record wgProfile =
  wgMode :: string
  wgPaused :: bool
  wgPrivateKey :: string
  wgAddresses :: "string list"
  wgDNS :: "string list"
  wgMTU :: int
  wgPeers :: "wgPeer list"

definition KeepSecret :: string where "KeepSecret = ''**KEEP**''"

definition emptyPeer :: wgPeer where
  "emptyPeer = \<lparr>wpPublicKey = [], wpPresharedKey = [], wpHasPSK = False, wpEndpoint = [], wpAllowedIPs = [], wpKeepalive = 0\<rparr>"

definition emptyProfile :: wgProfile where
  "emptyProfile = \<lparr>wgMode = [], wgPaused = False, wgPrivateKey = [], wgAddresses = [], wgDNS = [], wgMTU = 0, wgPeers = []\<rparr>"

section \<open>Writing\<close>

definition confLine :: "string \<Rightarrow> string \<Rightarrow> string" where
  "confLine k v = k @ '' = '' @ v @ [nl]"

definition renderPeer :: "wgPeer \<Rightarrow> string" where
  "renderPeer p = [nl] @ ''[Peer]'' @ [nl] @ confLine ''PublicKey'' (wpPublicKey p)
     @ (if wpHasPSK p then confLine ''PresharedKey'' KeepSecret else [])
     @ (if wpEndpoint p \<noteq> [] then confLine ''Endpoint'' (wpEndpoint p) else [])
     @ (if wpAllowedIPs p \<noteq> [] then confLine ''AllowedIPs'' (Join (wpAllowedIPs p) '', '') else [])
     @ (if wpKeepalive p > 0 then confLine ''PersistentKeepalive'' (itoaInt (wpKeepalive p)) else [])"

definition RenderConf :: "wgProfile \<Rightarrow> string" where
  "RenderConf p = ''[Interface]'' @ [nl] @ confLine ''PrivateKey'' KeepSecret
     @ (if wgAddresses p \<noteq> [] then confLine ''Address'' (Join (wgAddresses p) '', '') else [])
     @ (if wgDNS p \<noteq> [] then confLine ''DNS'' (Join (wgDNS p) '', '') else [])
     @ (if wgMTU p > 0 then confLine ''MTU'' (itoaInt (wgMTU p)) else [])
     @ concat (map renderPeer (wgPeers p))"

section \<open>Checks\<close>

datatype profileError = NoAddress | BadAddress string | BadDNS string | NoPeers | NoPublicKey nat | BadPublicKey nat
  | NoEndpoint nat | NoAllowedIPs nat | BadAllowedIP nat string

definition parseAddr :: "string \<Rightarrow> ipAddr option" where
  "parseAddr s = (case ParsePrefix s of Some p \<Rightarrow> Some (fst p) | None \<Rightarrow> ParseAddr s)"

definition normalizeCIDR :: "string \<Rightarrow> string" where
  "normalizeCIDR s =
     (if CHR ''/'' \<in> set s then s
      else case ParseAddr s of None \<Rightarrow> s | Some a \<Rightarrow> s @ (if Is4 a then ''/32'' else ''/128''))"

definition keyByte :: "char \<Rightarrow> string" where
  "keyByte c = [lowHex (byte c div 16), lowHex (byte c mod 16)]"

definition keyToHex :: "string \<Rightarrow> string option" where
  "keyToHex b64 =
     (case b64Decode b64 of None \<Rightarrow> None
      | Some raw \<Rightarrow> if length raw \<noteq> 32 then None else Some (concat (map keyByte raw)))"

fun firstError :: "('a \<Rightarrow> 'e option) \<Rightarrow> 'a list \<Rightarrow> 'e option" where
  "firstError f [] = None"
| "firstError f (x # xs) = (case f x of Some e \<Rightarrow> Some e | None \<Rightarrow> firstError f xs)"

text \<open>The number of a peer counts from 1.\<close>

definition peerError :: "nat \<times> wgPeer \<Rightarrow> profileError option" where
  "peerError = (\<lambda>(i, p).
     if wpPublicKey p = [] then Some (NoPublicKey i)
     else if keyToHex (wpPublicKey p) = None then Some (BadPublicKey i)
     else if wpEndpoint p = [] then Some (NoEndpoint i)
     else if wpAllowedIPs p = [] then Some (NoAllowedIPs i)
     else firstError (\<lambda>c. if ParsePrefix (normalizeCIDR c) = None then Some (BadAllowedIP i c) else None) (wpAllowedIPs p))"

definition Validate :: "wgProfile \<Rightarrow> profileError option" where
  "Validate p =
     (if wgAddresses p = [] then Some NoAddress
      else case firstError (\<lambda>a. if parseAddr a = None then Some (BadAddress a) else None) (wgAddresses p) of Some e \<Rightarrow> Some e
      | None \<Rightarrow> (case firstError (\<lambda>d. if ParseAddr d = None then Some (BadDNS d) else None) (wgDNS p) of Some e \<Rightarrow> Some e
      | None \<Rightarrow> if wgPeers p = [] then Some NoPeers
                else firstError peerError (zip [1..<Suc (length (wgPeers p))] (wgPeers p))))"

section \<open>Reading\<close>

datatype confSection = NoSection | InInterface | InPeer

datatype confError = UnknownSection nat string | NoKeyValue nat | BadMTU nat string | UnknownInterfaceKey nat string
  | BadKeepalive nat string | UnknownPeerKey nat string | OutsideSection nat | InvalidProfile profileError

definition splitList :: "string \<Rightarrow> string list" where
  "splitList v = filter (\<lambda>s. s \<noteq> []) (map TrimSpace (SplitByte v CHR '',''))"

text \<open>A line without its comment.\<close>

definition confText :: "string \<Rightarrow> string" where
  "confText raw =
     (let line = TrimSpace raw
      in if CHR ''#'' \<in> set line \<or> CHR '';'' \<in> set line
         then TrimSpace (takeWhile (\<lambda>c. c \<noteq> CHR ''#'' \<and> c \<noteq> CHR '';'') line) else line)"

definition ignoredKeys :: "string list" where
  "ignoredKeys = [''listenport'', ''table'', ''fwmark'', ''saveconfig'', ''preup'', ''postup'', ''predown'', ''postdown'']"

definition interfaceKey :: "nat \<Rightarrow> string \<Rightarrow> string \<Rightarrow> string \<Rightarrow> wgProfile \<Rightarrow> confError + wgProfile" where
  "interfaceKey ln k key val p =
     (if key = ''privatekey'' then Inr (p\<lparr>wgPrivateKey := val\<rparr>)
      else if key = ''address'' then Inr (p\<lparr>wgAddresses := wgAddresses p @ splitList val\<rparr>)
      else if key = ''dns'' then Inr (p\<lparr>wgDNS := wgDNS p @ splitList val\<rparr>)
      else if key = ''mtu'' then (case Atoi val of None \<Rightarrow> Inl (BadMTU ln val) | Some n \<Rightarrow> Inr (p\<lparr>wgMTU := n\<rparr>))
      else if key \<in> set ignoredKeys then Inr p
      else Inl (UnknownInterfaceKey ln k))"

definition peerKey :: "nat \<Rightarrow> string \<Rightarrow> string \<Rightarrow> string \<Rightarrow> wgPeer \<Rightarrow> confError + wgPeer" where
  "peerKey ln k key val p =
     (if key = ''publickey'' then Inr (p\<lparr>wpPublicKey := val\<rparr>)
      else if key = ''presharedkey'' then Inr (p\<lparr>wpPresharedKey := val, wpHasPSK := (val \<noteq> [])\<rparr>)
      else if key = ''endpoint'' then Inr (p\<lparr>wpEndpoint := val\<rparr>)
      else if key = ''allowedips'' then Inr (p\<lparr>wpAllowedIPs := wpAllowedIPs p @ splitList val\<rparr>)
      else if key = ''persistentkeepalive'' then
        (case Atoi val of None \<Rightarrow> Inl (BadKeepalive ln val) | Some n \<Rightarrow> Inr (p\<lparr>wpKeepalive := n\<rparr>))
      else Inl (UnknownPeerKey ln k))"

definition confStep :: "unicodeTables \<Rightarrow> nat \<Rightarrow> string \<Rightarrow> confSection \<times> wgProfile \<Rightarrow> confError + confSection \<times> wgProfile" where
  "confStep ut ln raw = (\<lambda>(sec, p).
     let line = confText raw; low = ToLower ut line
     in if line = [] then Inr (sec, p)
        else if low = ''[interface]'' then Inr (InInterface, p)
        else if low = ''[peer]'' then Inr (InPeer, p\<lparr>wgPeers := wgPeers p @ [emptyPeer]\<rparr>)
        else if HasPrefix line ''['' then Inl (UnknownSection ln line)
        else (case Cut line ''='' of (k, v, ok) \<Rightarrow>
          if \<not> ok then Inl (NoKeyValue ln)
          else (let key = ToLower ut (TrimSpace k); val = TrimSpace v
            in case sec of
              InInterface \<Rightarrow> map_sum id (\<lambda>q. (sec, q)) (interfaceKey ln k key val p)
            | InPeer \<Rightarrow> map_sum id (\<lambda>q. (sec, p\<lparr>wgPeers := butlast (wgPeers p) @ [q]\<rparr>)) (peerKey ln k key val (last (wgPeers p)))
            | NoSection \<Rightarrow> Inl (OutsideSection ln))))"

fun confLines :: "unicodeTables \<Rightarrow> nat \<Rightarrow> string list \<Rightarrow> confSection \<times> wgProfile \<Rightarrow> confError + confSection \<times> wgProfile" where
  "confLines ut ln [] st = Inr st"
| "confLines ut ln (l # ls) st = bindr (confStep ut ln l st) (confLines ut (Suc ln) ls)"

definition ParseConf :: "unicodeTables \<Rightarrow> string \<Rightarrow> confError + wgProfile" where
  "ParseConf ut s =
     bindr (confLines ut 1 (SplitByte s nl) (NoSection, emptyProfile)) (\<lambda>(_, p).
       case Validate p of Some e \<Rightarrow> Inl (InvalidProfile e) | None \<Rightarrow> Inr p)"

section \<open>The device's configuration\<close>

definition parsePort :: "string \<Rightarrow> nat option" where
  "parsePort s =
     (if s = [] then None
      else case digitsVal 0 s of None \<Rightarrow> None | Some n \<Rightarrow> if n = 0 \<or> n > 65535 then None else Some n)"

text \<open>\<open>lookup\<close>: what the system's resolver answers, \<open>None\<close> for an error.\<close>

definition pickIP :: "ipAddr list \<Rightarrow> ipAddr option" where
  "pickIP ips = (case find (\<lambda>a. Is4 a \<or> Is4In6 a) ips of Some a \<Rightarrow> Some a
     | None \<Rightarrow> (case ips of [] \<Rightarrow> None | a # _ \<Rightarrow> Some a))"

definition resolveEndpoint :: "(string \<Rightarrow> ipAddr list option) \<Rightarrow> string \<Rightarrow> string option" where
  "resolveEndpoint lookup ep =
     Option.bind (SplitHostPort ep) (\<lambda>(host, port).
     case ParseAddr host of
       Some a \<Rightarrow> map_option (AddrPortString a) (parsePort port)
     | None \<Rightarrow> Option.bind (lookup host) (\<lambda>ips. Option.bind (pickIP ips) (\<lambda>a.
         map_option (AddrPortString (Unmap a)) (parsePort port))))"

datatype uapiError = UapiPrivateKey | UapiPublicKey nat | UapiPresharedKey nat | UapiEndpoint nat string

definition uapiPeer :: "(string \<Rightarrow> ipAddr list option) \<Rightarrow> nat \<times> wgPeer \<Rightarrow> uapiError + string" where
  "uapiPeer lookup = (\<lambda>(i, p).
     case keyToHex (wpPublicKey p) of None \<Rightarrow> Inl (UapiPublicKey i)
     | Some pub \<Rightarrow>
     (case (if wpPresharedKey p = [] then Some [] else map_option (\<lambda>h. ''preshared_key='' @ h @ [nl]) (keyToHex (wpPresharedKey p))) of
        None \<Rightarrow> Inl (UapiPresharedKey i)
      | Some psk \<Rightarrow>
      (case resolveEndpoint lookup (wpEndpoint p) of None \<Rightarrow> Inl (UapiEndpoint i (wpEndpoint p))
       | Some ep \<Rightarrow> Inr (''public_key='' @ pub @ [nl] @ psk @ ''endpoint='' @ ep @ [nl]
           @ (if wpKeepalive p > 0 then ''persistent_keepalive_interval='' @ itoaInt (wpKeepalive p) @ [nl] else [])
           @ concat (map (\<lambda>c. ''allowed_ip='' @ normalizeCIDR c @ [nl]) (wpAllowedIPs p))))))"

fun uapiPeers :: "(string \<Rightarrow> ipAddr list option) \<Rightarrow> (nat \<times> wgPeer) list \<Rightarrow> uapiError + string" where
  "uapiPeers lookup [] = Inr []"
| "uapiPeers lookup (p # ps) = bindr (uapiPeer lookup p) (\<lambda>s. map_sum id ((@) s) (uapiPeers lookup ps))"

definition buildUAPI :: "(string \<Rightarrow> ipAddr list option) \<Rightarrow> wgProfile \<Rightarrow> uapiError + string" where
  "buildUAPI lookup p =
     (case keyToHex (wgPrivateKey p) of None \<Rightarrow> Inl UapiPrivateKey
      | Some priv \<Rightarrow> map_sum id ((@) (''private_key='' @ priv @ [nl]))
          (uapiPeers lookup (zip [1..<Suc (length (wgPeers p))] (wgPeers p))))"

section \<open>Trimmed text\<close>

definition trimmed :: "string \<Rightarrow> bool" where
  "trimmed s \<longleftrightarrow> spaceLen s = 0 \<and> spaceLenRev (rev s) = 0"

lemma TrimSpace_trimmed: "trimmed s \<Longrightarrow> TrimSpace s = s"
  by (simp add: trimmed_def TrimSpace_def trimLeftSpace.simps trimRevSpace.simps)

lemma spaceLen_prefix: "spaceLen (p @ q) = 0 \<Longrightarrow> spaceLen p = 0"
  by (cases p rule: spaceLen.cases) (auto split: list.splits if_splits)

lemma trimmed_TrimSpace: "trimmed (TrimSpace s)"
proof -
  obtain q where "rev (trimLeftSpace s) = q @ trimRevSpace (rev (trimLeftSpace s))"
    using trimRevSpace_suffix unfolding suffix_def by blast
  then have "trimLeftSpace s = TrimSpace s @ rev q" unfolding TrimSpace_def by (metis rev_append rev_rev_ident)
  then have "spaceLen (TrimSpace s) = 0" using spaceLen_prefix spaceLen_trimLeftSpace by metis
  then show ?thesis by (simp add: trimmed_def TrimSpace_def spaceLenRev_trimRevSpace)
qed

lemma trimmed_Nil [simp]: "trimmed []"
  by (simp add: trimmed_def)

lemma TrimSpace_blank: "TrimSpace (CHR '' '' # s) = TrimSpace s"
  unfolding TrimSpace_def by (subst trimLeftSpace.simps) (simp add: spaceByte_def)

text \<open>An ASCII byte next to a trimmed text does not complete a white space rune.\<close>

lemma ascii_no_space: "byte c < 0x80 \<Longrightarrow> \<not> space2 a c \<and> \<not> space2 c a \<and> \<not> space3 a c b \<and> \<not> space3 a b c \<and> \<not> space3 c a b"
  by (auto simp: space2_def space3_def)

lemma spaceLen_ascii:
  assumes "spaceLen x = 0" "x \<noteq> []" "byte c < 0x80"
  shows "spaceLen (x @ c # r) = 0"
proof -
  consider a where "x = [a]" | a b where "x = [a, b]" | a b d y where "x = a # b # d # y"
    using assms(2) by (metis list.exhaust)
  then show ?thesis using assms(1) ascii_no_space [OF assms(3)] by cases (auto split: list.splits if_splits)
qed

lemma spaceLenRev_ascii:
  assumes "spaceLenRev x = 0" "x \<noteq> []" "byte c < 0x80"
  shows "spaceLenRev (x @ c # r) = 0"
proof -
  consider a where "x = [a]" | a b where "x = [a, b]" | a b d y where "x = a # b # d # y"
    using assms(2) by (metis list.exhaust)
  then show ?thesis using assms(1) ascii_no_space [OF assms(3)] by cases (auto split: list.splits if_splits)
qed

lemma trimmed_append:
  assumes "trimmed x" "x \<noteq> []" "trimmed y" "y \<noteq> []" "byte c < 0x80" "byte d < 0x80"
  shows "trimmed (x @ c # z @ d # y)"
proof -
  have "spaceLenRev (rev y @ d # rev z @ c # rev x) = 0"
    using assms by (intro spaceLenRev_ascii) (auto simp: trimmed_def)
  then show ?thesis using assms spaceLen_ascii [of x c "z @ d # y"] by (simp add: trimmed_def)
qed

section \<open>Text that survives a line\<close>

definition cleanText :: "string \<Rightarrow> bool" where
  "cleanText s \<longleftrightarrow> set s \<inter> {CHR ''#'', CHR '';'', nl} = {}"

definition cleanVal :: "string \<Rightarrow> bool" where
  "cleanVal s \<longleftrightarrow> cleanText s \<and> trimmed s"

definition cleanItem :: "string \<Rightarrow> bool" where
  "cleanItem s \<longleftrightarrow> cleanVal s \<and> s \<noteq> [] \<and> CHR '','' \<notin> set s"

definition cleanPeer :: "wgPeer \<Rightarrow> bool" where
  "cleanPeer p \<longleftrightarrow> cleanVal (wpPublicKey p) \<and> cleanVal (wpEndpoint p) \<and> list_all cleanItem (wpAllowedIPs p) \<and> wpKeepalive p < 2 ^ 63"

definition cleanProfile :: "wgProfile \<Rightarrow> bool" where
  "cleanProfile p \<longleftrightarrow> list_all cleanItem (wgAddresses p) \<and> list_all cleanItem (wgDNS p) \<and> wgMTU p < 2 ^ 63 \<and> list_all cleanPeer (wgPeers p)"

lemma cleanText_sub: "cleanText s \<Longrightarrow> set t \<subseteq> set s \<Longrightarrow> cleanText t"
  by (auto simp: cleanText_def)

lemma cleanText_append [simp]: "cleanText (a @ b) \<longleftrightarrow> cleanText a \<and> cleanText b"
  "cleanText (c # b) \<longleftrightarrow> c \<noteq> CHR ''#'' \<and> c \<noteq> CHR '';'' \<and> c \<noteq> nl \<and> cleanText b" "cleanText []"
  by (auto simp: cleanText_def)

lemma TrimSpace_sub: "set (TrimSpace s) \<subseteq> set s"
  using TrimSpace_sublist [of s] by (auto dest: set_mono_sublist)

lemma cleanVal_TrimSpace: "cleanText s \<Longrightarrow> cleanVal (TrimSpace s)"
  by (simp add: cleanVal_def trimmed_TrimSpace cleanText_sub [OF _ TrimSpace_sub])

lemma cleanVal_confText: "nl \<notin> set raw \<Longrightarrow> cleanVal (confText raw)"
proof -
  assume n: "nl \<notin> set raw"
  let ?l = "TrimSpace raw"
  have "nl \<notin> set ?l" using n TrimSpace_sub by blast
  moreover have "set (takeWhile (\<lambda>c. c \<noteq> CHR ''#'' \<and> c \<noteq> CHR '';'') ?l) \<inter> {CHR ''#'', CHR '';''} = {}"
    by (auto dest: set_takeWhileD)
  ultimately have "cleanText (takeWhile (\<lambda>c. c \<noteq> CHR ''#'' \<and> c \<noteq> CHR '';'') ?l)"
    by (auto simp: cleanText_def dest: set_takeWhileD)
  then show ?thesis using \<open>nl \<notin> set ?l\<close>
    by (auto simp: confText_def Let_def cleanVal_TrimSpace) (auto simp: cleanVal_def cleanText_def trimmed_TrimSpace)
qed

lemma cleanItem_splitList: "cleanText v \<Longrightarrow> list_all cleanItem (splitList v)"
proof -
  assume v: "cleanText v"
  have "cleanItem (TrimSpace s)" if "s \<in> set (SplitByte v CHR '','')" "TrimSpace s \<noteq> []" for s
  proof -
    have "set s \<subseteq> set v - {CHR '',''}" using SplitByte_sub [OF that(1)] .
    then show ?thesis using that(2) v TrimSpace_sub [of s]
      by (auto simp: cleanItem_def intro!: cleanVal_TrimSpace cleanText_sub [OF v])
  qed
  then show ?thesis by (auto simp: splitList_def list_all_iff)
qed

lemma Atoi_bound: "Atoi s = Some n \<Longrightarrow> n < 2 ^ 63"
  by (auto simp: Atoi_def parseInt64_def split: list.splits if_splits option.splits)

section \<open>What reading gives\<close>

lemma cleanProfile_peer: "cleanProfile p \<Longrightarrow> cleanPeer q \<Longrightarrow> cleanProfile (p\<lparr>wgPeers := butlast (wgPeers p) @ [q]\<rparr>)"
  "cleanProfile p \<Longrightarrow> cleanPeer q \<Longrightarrow> cleanProfile (p\<lparr>wgPeers := wgPeers p @ [q]\<rparr>)"
  "cleanProfile p \<Longrightarrow> wgPeers p \<noteq> [] \<Longrightarrow> cleanPeer (last (wgPeers p))"
  by (auto simp: cleanProfile_def list_all_iff dest: in_set_butlastD)

lemma interfaceKey_peers: "interfaceKey ln k key v p = Inr q \<Longrightarrow> wgPeers q = wgPeers p"
  by (auto simp: interfaceKey_def split: if_splits option.splits)

lemma interfaceKey_clean:
  "cleanVal v \<Longrightarrow> cleanProfile p \<Longrightarrow> interfaceKey ln k key v p = Inr q \<Longrightarrow> cleanProfile q"
  using Atoi_bound by (fastforce simp: interfaceKey_def cleanProfile_def cleanVal_def cleanItem_splitList split: if_splits option.splits)

lemma peerKey_clean:
  "cleanVal v \<Longrightarrow> cleanPeer p \<Longrightarrow> peerKey ln k key v p = Inr q \<Longrightarrow> cleanPeer q"
  using Atoi_bound by (fastforce simp: peerKey_def cleanPeer_def cleanVal_def cleanItem_splitList split: if_splits option.splits)

lemma cleanPeer_empty [simp]: "cleanPeer emptyPeer"
  by (simp add: cleanPeer_def emptyPeer_def cleanVal_def)

definition readInv :: "confSection \<times> wgProfile \<Rightarrow> bool" where
  "readInv = (\<lambda>(sec, p). cleanProfile p \<and> (sec = InPeer \<longrightarrow> wgPeers p \<noteq> []))"

lemma Cut_sub: "Cut s sep = (a, b, ok) \<Longrightarrow> set a \<subseteq> set s \<and> set b \<subseteq> set s"
  by (auto simp: Cut_def split: option.splits dest: in_set_takeD in_set_dropD)

lemma confStep_inv:
  assumes "nl \<notin> set raw" "readInv st" "confStep ut ln raw st = Inr st'"
  shows "readInv st'"
proof -
  obtain sec p where st: "st = (sec, p)" by fastforce
  obtain k v ok where cut: "Cut (confText raw) ''='' = (k, v, ok)" by (cases "Cut (confText raw) ''=''") auto
  have "cleanText v" using cleanVal_confText [OF assms(1)] Cut_sub [OF cut] by (auto simp: cleanVal_def intro: cleanText_sub)
  then have v: "cleanVal (TrimSpace v)" by (rule cleanVal_TrimSpace)
  have p: "cleanProfile p" "sec = InPeer \<Longrightarrow> wgPeers p \<noteq> []" using assms(2) by (auto simp: readInv_def st)
  show ?thesis
  proof (cases sec)
    case InPeer
    then show ?thesis using assms(3) p cleanProfile_peer [OF p(1)] peerKey_clean [OF v]
      by (auto simp: st confStep_def Let_def cut readInv_def map_sum_Inr split: if_splits)
  qed (use assms(3) p cleanProfile_peer [OF p(1)] interfaceKey_clean [OF v p(1)] in
      \<open>auto simp: st confStep_def Let_def cut readInv_def map_sum_Inr split: if_splits\<close>)
qed

lemma confLines_inv:
  "readInv st \<Longrightarrow> (\<And>l. l \<in> set ls \<Longrightarrow> nl \<notin> set l) \<Longrightarrow> confLines ut ln ls st = Inr st' \<Longrightarrow> readInv st'"
proof (induction ls arbitrary: ln st)
  case (Cons l ls)
  then obtain st1 where "confStep ut ln l st = Inr st1" "confLines ut (Suc ln) ls st1 = Inr st'" by (auto simp: bindr_Inr_iff)
  then show ?case using Cons confStep_inv [of l st ut ln st1] by simp
qed simp

lemma ParseConf_clean: "ParseConf ut s = Inr p \<Longrightarrow> cleanProfile p \<and> Validate p = None"
proof -
  assume "ParseConf ut s = Inr p"
  then obtain sec where l: "confLines ut 1 (SplitByte s nl) (NoSection, emptyProfile) = Inr (sec, p)" "Validate p = None"
    by (auto simp: ParseConf_def bindr_Inr_iff split: option.splits)
  have "readInv (sec, p)"
    by (rule confLines_inv [OF _ _ l(1)])
      (use SplitByte_sub in \<open>auto simp: readInv_def cleanProfile_def emptyProfile_def\<close>)
  then show ?thesis using l(2) by (simp add: readInv_def)
qed

section \<open>Lines that are written\<close>

definition keyWord :: "string \<Rightarrow> bool" where
  "keyWord k \<longleftrightarrow> k \<noteq> [] \<and> list_all (\<lambda>c. isUpperA c \<or> isLowerA c) k"

lemma letter_facts:
  assumes "isUpperA c \<or> isLowerA c"
  shows "visible c" "byte c < 0x80" "c \<noteq> CHR ''#''" "c \<noteq> CHR '';''" "c \<noteq> nl" "c \<noteq> CHR ''=''" "c \<noteq> CHR ''[''" "lowerA c \<noteq> CHR ''[''"
proof -
  have "byte (lowerA c) \<ge> 97" using assms by (auto simp: lowerA_def isUpperA_def isLowerA_def byte_chr)
  then show "lowerA c \<noteq> CHR ''[''" by (auto simp: byte_def)
qed (use assms in \<open>auto simp: visible_def isUpperA_def isLowerA_def byte_def\<close>)

lemma trimmed_visible:
  assumes "s \<noteq> []" "visible (hd s)" "visible (last s)"
  shows "trimmed s"
proof -
  have "spaceLen (hd s # tl s) = 0" "spaceLenRev (hd (rev s) # tl (rev s)) = 0"
    using assms by (simp_all only: spaceLen_visible spaceLenRev_visible hd_rev)
  then show ?thesis using assms(1) by (simp add: trimmed_def del: spaceLen.simps spaceLenRev.simps)
qed

lemma keyWord_facts:
  assumes "keyWord k"
  shows "cleanText k" "asciiStr k" "CHR ''='' \<notin> set k" "TrimSpace (k @ '' '') = k"
proof -
  have l: "isUpperA c \<or> isLowerA c" if "c \<in> set k" for c using assms that by (auto simp: keyWord_def list_all_iff)
  show "CHR ''='' \<notin> set k" using letter_facts(6) [OF l] by blast
  show "asciiStr k" using letter_facts(2) [OF l] by (auto simp: asciiStr_def list_all_iff)
  have "\<forall>c\<in>set k. c \<noteq> CHR ''#'' \<and> c \<noteq> CHR '';'' \<and> c \<noteq> nl" using letter_facts [OF l] by blast
  then show "cleanText k" by (auto simp: cleanText_def)
  have "k \<noteq> []" "visible (hd k)" "visible (last k)" using assms letter_facts(1) [OF l] by (auto simp: keyWord_def)
  then show "TrimSpace (k @ '' '') = k"
    unfolding TrimSpace_def
    by (simp add: trimLeftSpace_visible) (subst trimRevSpace.simps, simp add: spaceByte_def trimRevSpace_visible hd_rev)
qed

lemma ToLower_Cons: "byte c < 0x80 \<Longrightarrow> ToLower ut (c # s) = lowerA c # ToLower ut s"
  by (simp add: ToLower_def runes_ascii lowerRune_ascii)

lemma confText_clean: "cleanText l \<Longrightarrow> trimmed l \<Longrightarrow> confText l = l"
  by (auto simp: confText_def Let_def TrimSpace_trimmed cleanText_def)

definition keyLine :: "string \<Rightarrow> string \<Rightarrow> string" where
  "keyLine k v = k @ '' = '' @ v"

lemma keyLine_clean:
  assumes "keyWord k" "cleanVal v" "v \<noteq> []"
  shows "confText (keyLine k v) = keyLine k v" "nl \<notin> set (keyLine k v)"
proof -
  have "trimmed k" using assms(1) letter_facts(1) by (intro trimmed_visible) (auto simp: keyWord_def list_all_iff)
  then have "trimmed (k @ CHR '' '' # ''='' @ CHR '' '' # v)"
    using assms by (intro trimmed_append) (auto simp: cleanVal_def keyWord_def)
  moreover have "cleanText (keyLine k v)" using assms keyWord_facts(1) by (simp add: keyLine_def cleanVal_def)
  ultimately show "confText (keyLine k v) = keyLine k v" "nl \<notin> set (keyLine k v)"
    by (auto intro: confText_clean simp: keyLine_def cleanText_def)
qed

lemma confStep_key:
  assumes "keyWord k" "cleanVal v" "v \<noteq> []"
  shows "confStep ut ln (keyLine k v) (InInterface, p) = map_sum id (\<lambda>q. (InInterface, q)) (interfaceKey ln (k @ '' '') (map lowerA k) v p)"
    "confStep ut ln (keyLine k v) (InPeer, p\<lparr>wgPeers := ps @ [w]\<rparr>) =
       map_sum id (\<lambda>q. (InPeer, p\<lparr>wgPeers := ps @ [q]\<rparr>)) (peerKey ln (k @ '' '') (map lowerA k) v w)"
proof -
  obtain c r where k: "k = c # r" "isUpperA c \<or> isLowerA c" using assms(1) by (cases k) (auto simp: keyWord_def)
  note c = letter_facts [OF k(2)]
  have low: "ToLower ut (keyLine k v) \<noteq> ''[interface]''" "ToLower ut (keyLine k v) \<noteq> ''[peer]''"
    using c by (simp_all add: keyLine_def k(1) ToLower_Cons)
  have cut: "Cut (keyLine k v) ''='' = (k @ '' '', CHR '' '' # v, True)"
    using Cut_single [of "CHR ''=''" "k @ '' ''" "CHR '' '' # v"] keyWord_facts(3) [OF assms(1)] by (simp add: keyLine_def)
  have key: "ToLower ut (TrimSpace (k @ '' '')) = map lowerA k"
    using keyWord_facts [OF assms(1)] by (simp add: ToLower_ascii)
  have val: "TrimSpace (CHR '' '' # v) = v" using assms(2) by (simp add: TrimSpace_blank TrimSpace_trimmed cleanVal_def)
  have ne: "keyLine k v \<noteq> []" "\<not> HasPrefix (keyLine k v) ''[''" using c by (simp_all add: keyLine_def k(1))
  show "confStep ut ln (keyLine k v) (InInterface, p) = map_sum id (\<lambda>q. (InInterface, q)) (interfaceKey ln (k @ '' '') (map lowerA k) v p)"
    "confStep ut ln (keyLine k v) (InPeer, p\<lparr>wgPeers := ps @ [w]\<rparr>) =
       map_sum id (\<lambda>q. (InPeer, p\<lparr>wgPeers := ps @ [q]\<rparr>)) (peerKey ln (k @ '' '') (map lowerA k) v w)"
    using low ne by (simp_all add: confStep_def Let_def keyLine_clean(1) [OF assms] cut key val)
qed

section \<open>Lists\<close>

lemma splitList_Join_aux:
  "list_all cleanItem xs \<Longrightarrow> xs \<noteq> [] \<Longrightarrow> pre \<in> {[], '' ''} \<Longrightarrow> map TrimSpace (SplitByte (pre @ Join xs '', '') CHR '','') = xs"
proof (induction xs arbitrary: pre rule: induct_list012)
  case (2 x)
  then show ?case by (auto simp: cleanItem_def SplitByte_no_sep TrimSpace_blank TrimSpace_trimmed cleanVal_def)
next
  case (3 x y xs)
  have "CHR '','' \<notin> set (pre @ x)" using 3(3,5) by (auto simp: cleanItem_def)
  then have "SplitByte (pre @ Join (x # y # xs) '', '') CHR '','' = (pre @ x) # SplitByte ('' '' @ Join (y # xs) '', '') CHR '',''"
    using SplitByte_append [of "pre @ x" "CHR '',''" "'' '' @ Join (y # xs) '', ''"] by (simp add: SplitByte_no_sep)
  moreover have "TrimSpace (pre @ x) = x" using 3(3,5) by (auto simp: cleanItem_def TrimSpace_blank TrimSpace_trimmed cleanVal_def)
  ultimately show ?case using 3(2) [of "'' ''"] 3(3) by simp
qed simp

lemma splitList_Join: "list_all cleanItem xs \<Longrightarrow> xs \<noteq> [] \<Longrightarrow> splitList (Join xs '', '') = xs"
  using splitList_Join_aux [of xs "[]"] by (auto simp: splitList_def list_all_iff cleanItem_def intro: filter_True)

lemma Join_clean: "list_all cleanItem xs \<Longrightarrow> xs \<noteq> [] \<Longrightarrow> cleanVal (Join xs '', '') \<and> Join xs '', '' \<noteq> []"
proof (induction xs rule: induct_list012)
  case (2 x)
  then show ?case by (simp add: cleanItem_def)
next
  case (3 x y xs)
  then have "cleanVal (Join (y # xs) '', '')" "Join (y # xs) '', '' \<noteq> []" "cleanVal x" "x \<noteq> []" by (simp_all add: cleanItem_def)
  moreover have "byte CHR '','' < 0x80" "byte CHR '' '' < 0x80" by (simp_all add: byte_def)
  ultimately show ?case using trimmed_append [of x "Join (y # xs) '', ''" "CHR '',''" "CHR '' ''" "[]"]
    by (simp add: cleanVal_def)
qed simp

lemma itoaInt_clean: "cleanVal (itoaInt i) \<and> itoaInt i \<noteq> []" if "0 < i"
proof -
  have d: "set (natDigits (nat i)) \<subseteq> {c. isDigitA c}" "natDigits (nat i) \<noteq> []" using natDigits_digits [of "nat i"] by simp_all
  have v: "isDigitA c \<Longrightarrow> visible c" for c by (simp add: isDigitA_def visible_def)
  have "trimmed (natDigits (nat i))" using d v by (intro trimmed_visible) (auto simp: subset_iff)
  moreover have "cleanText (natDigits (nat i))" using d by (auto simp: cleanText_def isDigitA_def byte_def)
  ultimately show ?thesis using that d by (simp add: itoaInt_def cleanVal_def)
qed

section \<open>What is written reads back\<close>

definition peerLines :: "wgPeer \<Rightarrow> string list" where
  "peerLines p = [[], ''[Peer]'', keyLine ''PublicKey'' (wpPublicKey p)]
     @ (if wpHasPSK p then [keyLine ''PresharedKey'' KeepSecret] else [])
     @ (if wpEndpoint p \<noteq> [] then [keyLine ''Endpoint'' (wpEndpoint p)] else [])
     @ (if wpAllowedIPs p \<noteq> [] then [keyLine ''AllowedIPs'' (Join (wpAllowedIPs p) '', '')] else [])
     @ (if wpKeepalive p > 0 then [keyLine ''PersistentKeepalive'' (itoaInt (wpKeepalive p))] else [])"

definition headLines :: "wgProfile \<Rightarrow> string list" where
  "headLines p = [''[Interface]'', keyLine ''PrivateKey'' KeepSecret]
     @ (if wgAddresses p \<noteq> [] then [keyLine ''Address'' (Join (wgAddresses p) '', '')] else [])
     @ (if wgDNS p \<noteq> [] then [keyLine ''DNS'' (Join (wgDNS p) '', '')] else [])
     @ (if wgMTU p > 0 then [keyLine ''MTU'' (itoaInt (wgMTU p))] else [])"

lemma RenderConf_lines:
  "RenderConf p = concat (map (\<lambda>l. l @ [nl]) (headLines p @ concat (map peerLines (wgPeers p))))"
proof -
  have "renderPeer q = concat (map (\<lambda>l. l @ [nl]) (peerLines q))" for q
    by (simp add: renderPeer_def peerLines_def confLine_def keyLine_def)
  then have "concat (map renderPeer ps) = concat (map (\<lambda>l. l @ [nl]) (concat (map peerLines ps)))" for ps
    by (induction ps) simp_all
  then show ?thesis by (simp add: RenderConf_def headLines_def confLine_def keyLine_def)
qed

lemma SplitByte_lines: "(\<And>l. l \<in> set ls \<Longrightarrow> c \<notin> set l) \<Longrightarrow> SplitByte (concat (map (\<lambda>l. l @ [c]) ls)) c = ls @ [[]]"
  by (induction ls) (simp_all add: SplitByte_append SplitByte_no_sep)

text \<open>What the edit form gets: placeholders for the secrets, the connect policy left out.\<close>

definition shownPeer :: "wgPeer \<Rightarrow> wgPeer" where
  "shownPeer p = p\<lparr>wpPresharedKey := (if wpHasPSK p then KeepSecret else []), wpKeepalive := max 0 (wpKeepalive p)\<rparr>"

definition shownProfile :: "wgProfile \<Rightarrow> wgProfile" where
  "shownProfile p = p\<lparr>wgMode := [], wgPaused := False, wgPrivateKey := KeepSecret, wgMTU := max 0 (wgMTU p), wgPeers := map shownPeer (wgPeers p)\<rparr>"

lemma confLines_append: "confLines ut ln (a @ b) st = bindr (confLines ut ln a st) (confLines ut (ln + length a) b)"
  by (induction a arbitrary: ln st) (auto simp: bindr_def split: sum.splits)

lemma keyWords:
  "keyWord ''PrivateKey''" "keyWord ''Address''" "keyWord ''DNS''" "keyWord ''MTU''" "keyWord ''PublicKey''" "keyWord ''PresharedKey''" "keyWord ''Endpoint''" "keyWord ''AllowedIPs''" "keyWord ''PersistentKeepalive''"
  by code_simp+

lemma lowerKeys:
  "map lowerA ''PrivateKey'' = ''privatekey''"
  "map lowerA ''Address'' = ''address''"
  "map lowerA ''DNS'' = ''dns''"
  "map lowerA ''MTU'' = ''mtu''"
  "map lowerA ''PublicKey'' = ''publickey''"
  "map lowerA ''PresharedKey'' = ''presharedkey''"
  "map lowerA ''Endpoint'' = ''endpoint''"
  "map lowerA ''AllowedIPs'' = ''allowedips''"
  "map lowerA ''PersistentKeepalive'' = ''persistentkeepalive''"
  by code_simp+

lemma KeepSecret_clean: "cleanVal KeepSecret \<and> KeepSecret \<noteq> []"
  by code_simp

lemma section_lines:
  "confStep ut ln ''[Interface]'' (sec, p) = Inr (InInterface, p)"
  "confStep ut ln ''[Peer]'' (sec, p) = Inr (InPeer, p\<lparr>wgPeers := wgPeers p @ [emptyPeer]\<rparr>)"
  "confStep ut ln [] (sec, p) = Inr (sec, p)"
proof -
  have "confText ''[Interface]'' = ''[Interface]''" "confText ''[Peer]'' = ''[Peer]''" "confText [] = []" by code_simp+
  moreover have "ToLower ut ''[Interface]'' = ''[interface]''" "ToLower ut ''[Peer]'' = ''[peer]''"
    by (subst ToLower_ascii, code_simp, code_simp)+
  ultimately show "confStep ut ln ''[Interface]'' (sec, p) = Inr (InInterface, p)"
    "confStep ut ln ''[Peer]'' (sec, p) = Inr (InPeer, p\<lparr>wgPeers := wgPeers p @ [emptyPeer]\<rparr>)" "confStep ut ln [] (sec, p) = Inr (sec, p)"
    by (simp_all add: confStep_def)
qed

declare confLines.simps(2) [simp del]

lemma line_sections:
  "confLines ut n (''[Interface]'' # ls) (sec, p) = confLines ut (Suc n) ls (InInterface, p)"
  "confLines ut n (''[Peer]'' # ls) (sec, p) = confLines ut (Suc n) ls (InPeer, p\<lparr>wgPeers := wgPeers p @ [emptyPeer]\<rparr>)"
  "confLines ut n ([] # ls) (sec, p) = confLines ut (Suc n) ls (sec, p)"
  by (simp_all add: confLines.simps(2) section_lines)

lemma confLines_key:
  assumes "keyWord k" "cleanVal v" "v \<noteq> []"
  shows "interfaceKey ln (k @ '' '') (map lowerA k) v p = Inr q \<Longrightarrow>
      confLines ut ln (keyLine k v # ls) (InInterface, p) = confLines ut (Suc ln) ls (InInterface, q)"
    "peerKey ln (k @ '' '') (map lowerA k) v w = Inr w' \<Longrightarrow>
      confLines ut ln (keyLine k v # ls) (InPeer, p\<lparr>wgPeers := ps @ [w]\<rparr>) = confLines ut (Suc ln) ls (InPeer, p\<lparr>wgPeers := ps @ [w']\<rparr>)"
  using confStep_key [OF assms] by (simp_all add: confLines.simps(2))

lemma line_private:
  "cleanVal v \<Longrightarrow> v \<noteq> [] \<Longrightarrow> confLines ut n (keyLine ''PrivateKey'' v # ls) (InInterface, q) = confLines ut (Suc n) ls (InInterface, q\<lparr>wgPrivateKey := v\<rparr>)"
  by (rule confLines_key(1) [OF keyWords(1)], assumption, assumption, unfold lowerKeys) (simp add: interfaceKey_def)

lemma line_address:
  "cleanVal v \<Longrightarrow> v \<noteq> [] \<Longrightarrow> confLines ut n (keyLine ''Address'' v # ls) (InInterface, q) = confLines ut (Suc n) ls (InInterface, q\<lparr>wgAddresses := wgAddresses q @ splitList v\<rparr>)"
  by (rule confLines_key(1) [OF keyWords(2)], assumption, assumption, unfold lowerKeys) (simp add: interfaceKey_def)

lemma line_dns:
  "cleanVal v \<Longrightarrow> v \<noteq> [] \<Longrightarrow> confLines ut n (keyLine ''DNS'' v # ls) (InInterface, q) = confLines ut (Suc n) ls (InInterface, q\<lparr>wgDNS := wgDNS q @ splitList v\<rparr>)"
  by (rule confLines_key(1) [OF keyWords(3)], assumption, assumption, unfold lowerKeys) (simp add: interfaceKey_def)

lemma line_mtu:
  "cleanVal v \<Longrightarrow> v \<noteq> [] \<Longrightarrow> Atoi v = Some i \<Longrightarrow> confLines ut n (keyLine ''MTU'' v # ls) (InInterface, q) = confLines ut (Suc n) ls (InInterface, q\<lparr>wgMTU := i\<rparr>)"
  by (rule confLines_key(1) [OF keyWords(4)], assumption, assumption, unfold lowerKeys) (simp add: interfaceKey_def)

lemma line_public:
  "cleanVal v \<Longrightarrow> v \<noteq> [] \<Longrightarrow> confLines ut n (keyLine ''PublicKey'' v # ls) (InPeer, p\<lparr>wgPeers := ps @ [q]\<rparr>) = confLines ut (Suc n) ls (InPeer, p\<lparr>wgPeers := ps @ [q\<lparr>wpPublicKey := v\<rparr>]\<rparr>)"
  by (rule confLines_key(2) [OF keyWords(5)], assumption, assumption, unfold lowerKeys) (simp add: peerKey_def)

lemma line_psk:
  "cleanVal v \<Longrightarrow> v \<noteq> [] \<Longrightarrow> confLines ut n (keyLine ''PresharedKey'' v # ls) (InPeer, p\<lparr>wgPeers := ps @ [q]\<rparr>) = confLines ut (Suc n) ls (InPeer, p\<lparr>wgPeers := ps @ [q\<lparr>wpPresharedKey := v, wpHasPSK := True\<rparr>]\<rparr>)"
  by (rule confLines_key(2) [OF keyWords(6)], assumption, assumption, unfold lowerKeys) (simp add: peerKey_def)

lemma line_endpoint:
  "cleanVal v \<Longrightarrow> v \<noteq> [] \<Longrightarrow> confLines ut n (keyLine ''Endpoint'' v # ls) (InPeer, p\<lparr>wgPeers := ps @ [q]\<rparr>) = confLines ut (Suc n) ls (InPeer, p\<lparr>wgPeers := ps @ [q\<lparr>wpEndpoint := v\<rparr>]\<rparr>)"
  by (rule confLines_key(2) [OF keyWords(7)], assumption, assumption, unfold lowerKeys) (simp add: peerKey_def)

lemma line_ips:
  "cleanVal v \<Longrightarrow> v \<noteq> [] \<Longrightarrow> confLines ut n (keyLine ''AllowedIPs'' v # ls) (InPeer, p\<lparr>wgPeers := ps @ [q]\<rparr>) = confLines ut (Suc n) ls (InPeer, p\<lparr>wgPeers := ps @ [q\<lparr>wpAllowedIPs := wpAllowedIPs q @ splitList v\<rparr>]\<rparr>)"
  by (rule confLines_key(2) [OF keyWords(8)], assumption, assumption, unfold lowerKeys) (simp add: peerKey_def)

lemma line_keepalive:
  "cleanVal v \<Longrightarrow> v \<noteq> [] \<Longrightarrow> Atoi v = Some i \<Longrightarrow> confLines ut n (keyLine ''PersistentKeepalive'' v # ls) (InPeer, p\<lparr>wgPeers := ps @ [q]\<rparr>) = confLines ut (Suc n) ls (InPeer, p\<lparr>wgPeers := ps @ [q\<lparr>wpKeepalive := i\<rparr>]\<rparr>)"
  by (rule confLines_key(2) [OF keyWords(9)], assumption, assumption, unfold lowerKeys) (simp add: peerKey_def)

lemma confLines_head:
  assumes "cleanProfile p" "0 \<le> wgMTU p"
  shows "\<exists>m. confLines ut ln (headLines p @ ls) (NoSection, emptyProfile) =
    confLines ut m ls (InInterface, emptyProfile\<lparr>wgPrivateKey := KeepSecret, wgAddresses := wgAddresses p, wgDNS := wgDNS p, wgMTU := wgMTU p\<rparr>)"
proof -
  have c: "list_all cleanItem (wgAddresses p)" "list_all cleanItem (wgDNS p)" "wgMTU p < 2 ^ 63" using assms(1) by (simp_all add: cleanProfile_def)
  have addr: "\<exists>m. confLines ut n ((if wgAddresses p \<noteq> [] then [keyLine ''Address'' (Join (wgAddresses p) '', '')] else []) @ ls) (InInterface, q) =
      confLines ut m ls (InInterface, q\<lparr>wgAddresses := wgAddresses q @ wgAddresses p\<rparr>)" for n q ls
    using Join_clean [OF c(1)] splitList_Join [OF c(1)] by (auto simp: line_address)
  have dns: "\<exists>m. confLines ut n ((if wgDNS p \<noteq> [] then [keyLine ''DNS'' (Join (wgDNS p) '', '')] else []) @ ls) (InInterface, q) =
      confLines ut m ls (InInterface, q\<lparr>wgDNS := wgDNS q @ wgDNS p\<rparr>)" for n q ls
    using Join_clean [OF c(2)] splitList_Join [OF c(2)] by (auto simp: line_dns)
  have mtu: "\<exists>m. confLines ut n ((if wgMTU p > 0 then [keyLine ''MTU'' (itoaInt (wgMTU p))] else []) @ ls) (InInterface, q) =
      confLines ut m ls (InInterface, q\<lparr>wgMTU := wgMTU p\<rparr>)" if "wgMTU q = 0" for n q ls
    using itoaInt_clean [of "wgMTU p"] Atoi_itoa [of "wgMTU p"] c(3) assms(2) that by (cases q) (auto simp: line_mtu)
  let ?q = "emptyProfile\<lparr>wgPrivateKey := KeepSecret\<rparr>"
  let ?mtu = "if wgMTU p > 0 then [keyLine ''MTU'' (itoaInt (wgMTU p))] else []"
  let ?dns = "if wgDNS p \<noteq> [] then [keyLine ''DNS'' (Join (wgDNS p) '', '')] else []"
  obtain m1 where "confLines ut ln (headLines p @ ls) (NoSection, emptyProfile) =
      confLines ut m1 (?dns @ ?mtu @ ls) (InInterface, ?q\<lparr>wgAddresses := wgAddresses p\<rparr>)"
    using addr [of "Suc (Suc ln)" "?dns @ ?mtu @ ls" ?q]
    by (auto simp: headLines_def line_sections line_private KeepSecret_clean emptyProfile_def)
  moreover obtain m2 where "confLines ut m1 (?dns @ ?mtu @ ls) (InInterface, ?q\<lparr>wgAddresses := wgAddresses p\<rparr>) =
      confLines ut m2 (?mtu @ ls) (InInterface, ?q\<lparr>wgAddresses := wgAddresses p, wgDNS := wgDNS p\<rparr>)"
    using dns [of m1 "?mtu @ ls" "?q\<lparr>wgAddresses := wgAddresses p\<rparr>"] by (auto simp: emptyProfile_def)
  moreover obtain m3 where "confLines ut m2 (?mtu @ ls) (InInterface, ?q\<lparr>wgAddresses := wgAddresses p, wgDNS := wgDNS p\<rparr>) =
      confLines ut m3 ls (InInterface, ?q\<lparr>wgAddresses := wgAddresses p, wgDNS := wgDNS p, wgMTU := wgMTU p\<rparr>)"
    using mtu [of "?q\<lparr>wgAddresses := wgAddresses p, wgDNS := wgDNS p\<rparr>" m2 ls] by (auto simp: emptyProfile_def)
  ultimately show ?thesis by auto
qed

lemma confLines_peer:
  assumes "cleanPeer w" "wpPublicKey w \<noteq> []" "0 \<le> wpKeepalive w"
  shows "\<exists>m. confLines ut ln (peerLines w @ ls) (sec, p) = confLines ut m ls (InPeer, p\<lparr>wgPeers := wgPeers p @ [shownPeer w]\<rparr>)"
proof -
  have c: "cleanVal (wpPublicKey w)" "cleanVal (wpEndpoint w)" "list_all cleanItem (wpAllowedIPs w)" "wpKeepalive w < 2 ^ 63"
    using assms(1) by (simp_all add: cleanPeer_def)
  let ?ps = "wgPeers p"
  let ?at = "\<lambda>q. (InPeer, p\<lparr>wgPeers := ?ps @ [q]\<rparr>)"
  let ?psk = "if wpHasPSK w then [keyLine ''PresharedKey'' KeepSecret] else []"
  let ?ep = "if wpEndpoint w \<noteq> [] then [keyLine ''Endpoint'' (wpEndpoint w)] else []"
  let ?ips = "if wpAllowedIPs w \<noteq> [] then [keyLine ''AllowedIPs'' (Join (wpAllowedIPs w) '', '')] else []"
  let ?ka = "if wpKeepalive w > 0 then [keyLine ''PersistentKeepalive'' (itoaInt (wpKeepalive w))] else []"
  have psk: "\<exists>m. confLines ut n (?psk @ ls) (?at q) =
      confLines ut m ls (?at (q\<lparr>wpPresharedKey := (if wpHasPSK w then KeepSecret else []), wpHasPSK := wpHasPSK w\<rparr>))"
    if "\<not> wpHasPSK q" "wpPresharedKey q = []" for n q ls
    using KeepSecret_clean that by (cases q) (auto simp: line_psk)
  have ep: "\<exists>m. confLines ut n (?ep @ ls) (?at q) = confLines ut m ls (?at (q\<lparr>wpEndpoint := wpEndpoint w\<rparr>))" if "wpEndpoint q = []" for n q ls
    using c(2) that by (cases q) (auto simp: line_endpoint)
  have ips: "\<exists>m. confLines ut n (?ips @ ls) (?at q) = confLines ut m ls (?at (q\<lparr>wpAllowedIPs := wpAllowedIPs w\<rparr>))" if "wpAllowedIPs q = []" for n q ls
    using Join_clean [OF c(3)] splitList_Join [OF c(3)] that by (cases q) (auto simp: line_ips)
  have ka: "\<exists>m. confLines ut n (?ka @ ls) (?at q) = confLines ut m ls (?at (q\<lparr>wpKeepalive := wpKeepalive w\<rparr>))" if "wpKeepalive q = 0" for n q ls
    using itoaInt_clean [of "wpKeepalive w"] Atoi_itoa [of "wpKeepalive w"] c(4) assms(3) that by (cases q) (auto simp: line_keepalive)
  let ?w0 = "emptyPeer\<lparr>wpPublicKey := wpPublicKey w\<rparr>"
  let ?w1 = "?w0\<lparr>wpPresharedKey := (if wpHasPSK w then KeepSecret else []), wpHasPSK := wpHasPSK w\<rparr>"
  let ?w2 = "?w1\<lparr>wpEndpoint := wpEndpoint w\<rparr>"
  let ?w3 = "?w2\<lparr>wpAllowedIPs := wpAllowedIPs w\<rparr>"
  have "confLines ut ln (peerLines w @ ls) (sec, p) = confLines ut (Suc (Suc (Suc ln))) (?psk @ ?ep @ ?ips @ ?ka @ ls) (?at ?w0)"
    by (simp add: peerLines_def line_sections line_public c assms(2))
  moreover obtain m1 where "confLines ut (Suc (Suc (Suc ln))) (?psk @ ?ep @ ?ips @ ?ka @ ls) (?at ?w0) = confLines ut m1 (?ep @ ?ips @ ?ka @ ls) (?at ?w1)"
    using psk [of ?w0 "Suc (Suc (Suc ln))" "?ep @ ?ips @ ?ka @ ls"] by (auto simp: emptyPeer_def)
  moreover obtain m2 where "confLines ut m1 (?ep @ ?ips @ ?ka @ ls) (?at ?w1) = confLines ut m2 (?ips @ ?ka @ ls) (?at ?w2)"
    using ep [of ?w1 m1 "?ips @ ?ka @ ls"] by (auto simp: emptyPeer_def)
  moreover obtain m3 where "confLines ut m2 (?ips @ ?ka @ ls) (?at ?w2) = confLines ut m3 (?ka @ ls) (?at ?w3)"
    using ips [of ?w2 m2 "?ka @ ls"] by (auto simp: emptyPeer_def)
  moreover obtain m4 where "confLines ut m3 (?ka @ ls) (?at ?w3) = confLines ut m4 ls (?at (?w3\<lparr>wpKeepalive := wpKeepalive w\<rparr>))"
    using ka [of ?w3 m3 ls] by (auto simp: emptyPeer_def)
  moreover have "?w3\<lparr>wpKeepalive := wpKeepalive w\<rparr> = shownPeer w" using assms(3) by (simp add: emptyPeer_def shownPeer_def)
  ultimately show ?thesis by metis
qed

section \<open>The edit form's round trip\<close>

lemma confLines_peers:
  "list_all (\<lambda>w. cleanPeer w \<and> wpPublicKey w \<noteq> [] \<and> 0 \<le> wpKeepalive w) ws \<Longrightarrow> ws \<noteq> [] \<Longrightarrow>
    \<exists>m. confLines ut ln (concat (map peerLines ws) @ ls) (sec, p) = confLines ut m ls (InPeer, p\<lparr>wgPeers := wgPeers p @ map shownPeer ws\<rparr>)"
proof (induction ws arbitrary: ln sec p)
  case (Cons w ws)
  then obtain m where m: "confLines ut ln (peerLines w @ concat (map peerLines ws) @ ls) (sec, p) =
      confLines ut m (concat (map peerLines ws) @ ls) (InPeer, p\<lparr>wgPeers := wgPeers p @ [shownPeer w]\<rparr>)"
    using confLines_peer [of w ut ln "concat (map peerLines ws) @ ls" sec p] by auto
  show ?case
  proof (cases "ws = []")
    case True
    then show ?thesis using m by auto
  next
    case False
    then show ?thesis using m Cons.IH [of m InPeer "p\<lparr>wgPeers := wgPeers p @ [shownPeer w]\<rparr>"] Cons.prems by auto
  qed
qed simp

text \<open>A negative MTU or keepalive is not written, as zero is not.\<close>

definition nonNegative :: "wgProfile \<Rightarrow> wgProfile" where
  "nonNegative p = p\<lparr>wgMTU := max 0 (wgMTU p), wgPeers := map (\<lambda>w. w\<lparr>wpKeepalive := max 0 (wpKeepalive w)\<rparr>) (wgPeers p)\<rparr>"

lemma RenderConf_nonNegative: "RenderConf (nonNegative p) = RenderConf p"
proof -
  have "peerLines (w\<lparr>wpKeepalive := max 0 (wpKeepalive w)\<rparr>) = peerLines w" for w by (simp add: peerLines_def max_def)
  moreover have "headLines (nonNegative p) = headLines p" by (simp add: headLines_def nonNegative_def max_def)
  ultimately show ?thesis by (simp add: RenderConf_lines nonNegative_def comp_def)
qed

lemma shown_nonNegative: "shownProfile (nonNegative p) = shownProfile p"
  by (simp add: shownProfile_def nonNegative_def shownPeer_def)

lemma firstError_cong: "map f xs = map g ys \<Longrightarrow> firstError f xs = firstError g ys"
  by (induction xs arbitrary: ys) (auto split: option.splits)

lemma Validate_shown: "Validate (shownProfile p) = Validate p"
proof -
  have p: "peerError (i, shownPeer w) = peerError (i, w)" for i w by (simp add: peerError_def shownPeer_def)
  have "firstError peerError (zip ns (map shownPeer ws)) = firstError peerError (zip ns ws)" for ns ws
    by (rule firstError_cong) (simp add: zip_map2 p split_def)
  then show ?thesis by (auto simp: Validate_def shownProfile_def simp del: upt_Suc split: option.splits)
qed

lemma firstError_None: "firstError f xs = None \<longleftrightarrow> (\<forall>x\<in>set xs. f x = None)"
  by (induction xs) (auto split: option.splits)

lemma Validate_peers:
  assumes "Validate p = None"
  shows "wgPeers p \<noteq> []" "w \<in> set (wgPeers p) \<Longrightarrow> \<exists>i. peerError (i, w) = None"
proof -
  show "wgPeers p \<noteq> []" using assms by (auto simp: Validate_def split: if_splits option.splits)
  then have "firstError peerError (zip [1..<Suc (length (wgPeers p))] (wgPeers p)) = None"
    using assms by (auto simp: Validate_def simp del: upt_Suc split: if_splits option.splits)
  moreover assume "w \<in> set (wgPeers p)"
  then obtain i where "(i, w) \<in> set (zip [1..<Suc (length (wgPeers p))] (wgPeers p))"
    using in_set_impl_in_set_zip2 [of "[1..<Suc (length (wgPeers p))]" "wgPeers p" w] by (auto simp del: upt_Suc)
  ultimately show "\<exists>i. peerError (i, w) = None" unfolding firstError_None by blast
qed

lemma peerLines_no_nl:
  assumes "cleanPeer w" "wpPublicKey w \<noteq> []" "l \<in> set (peerLines w)"
  shows "nl \<notin> set l"
proof -
  have c: "cleanVal (wpPublicKey w)" "cleanVal (wpEndpoint w)" "list_all cleanItem (wpAllowedIPs w)" using assms(1) by (simp_all add: cleanPeer_def)
  show ?thesis using assms(2,3) c KeepSecret_clean Join_clean [OF c(3)] itoaInt_clean
    by (auto simp: peerLines_def keyLine_clean(2) keyWords split: if_splits)
qed

lemma headLines_no_nl:
  assumes "cleanProfile p" "l \<in> set (headLines p)"
  shows "nl \<notin> set l"
proof -
  have c: "list_all cleanItem (wgAddresses p)" "list_all cleanItem (wgDNS p)" using assms(1) by (simp_all add: cleanProfile_def)
  show ?thesis using assms(2) c KeepSecret_clean Join_clean [OF c(1)] Join_clean [OF c(2)] itoaInt_clean
    by (auto simp: headLines_def keyLine_clean(2) keyWords split: if_splits)
qed

lemma conf_of_clean:
  assumes "cleanProfile p" "Validate p = None"
  shows "ParseConf ut (RenderConf p) = Inr (shownProfile p)"
proof -
  let ?p = "nonNegative p"
  let ?ls = "headLines ?p @ concat (map peerLines (wgPeers ?p))"
  have pub: "wpPublicKey w \<noteq> []" if "w \<in> set (wgPeers p)" for w
    using Validate_peers(2) [OF assms(2) that] by (auto simp: peerError_def split: if_splits)
  have cl: "cleanProfile ?p" using assms(1) by (auto simp: cleanProfile_def nonNegative_def list_all_iff cleanPeer_def)
  have mtu: "0 \<le> wgMTU ?p" by (simp add: nonNegative_def)
  have peers: "list_all (\<lambda>w. cleanPeer w \<and> wpPublicKey w \<noteq> [] \<and> 0 \<le> wpKeepalive w) (wgPeers ?p)"
    using cl pub by (auto simp: cleanProfile_def nonNegative_def list_all_iff)
  have no_nl: "nl \<notin> set l" if "l \<in> set ?ls" for l
    using that peers headLines_no_nl [OF cl] peerLines_no_nl by (auto simp: list_all_iff)
  obtain m where m: "confLines ut 1 (headLines ?p @ concat (map peerLines (wgPeers ?p)) @ [[]]) (NoSection, emptyProfile) =
      confLines ut m (concat (map peerLines (wgPeers ?p)) @ [[]]) (InInterface, emptyProfile\<lparr>wgPrivateKey := KeepSecret,
        wgAddresses := wgAddresses ?p, wgDNS := wgDNS ?p, wgMTU := wgMTU ?p\<rparr>)"
    using confLines_head [OF cl mtu, of ut 1 "concat (map peerLines (wgPeers ?p)) @ [[]]"] by blast
  have ne: "wgPeers ?p \<noteq> []" using Validate_peers(1) [OF assms(2)] by (simp add: nonNegative_def)
  let ?q = "emptyProfile\<lparr>wgPrivateKey := KeepSecret, wgAddresses := wgAddresses ?p, wgDNS := wgDNS ?p, wgMTU := wgMTU ?p\<rparr>"
  obtain m' where m': "confLines ut m (concat (map peerLines (wgPeers ?p)) @ [[]]) (InInterface, ?q) =
      confLines ut m' [[]] (InPeer, ?q\<lparr>wgPeers := wgPeers ?q @ map shownPeer (wgPeers ?p)\<rparr>)"
    using confLines_peers [OF peers ne, of ut m "[[]]" InInterface ?q] by blast
  have r: "confLines ut m' [[]] (InPeer, ?q\<lparr>wgPeers := wgPeers ?q @ map shownPeer (wgPeers ?p)\<rparr>) = Inr (InPeer, shownProfile ?p)"
    by (simp add: line_sections emptyProfile_def shownProfile_def nonNegative_def)
  have "RenderConf p = concat (map (\<lambda>l. l @ [nl]) ?ls)" using RenderConf_lines [of ?p] by (simp only: RenderConf_nonNegative)
  then have "SplitByte (RenderConf p) nl = ?ls @ [[]]" using SplitByte_lines [of ?ls nl, OF no_nl] by presburger
  then have "confLines ut 1 (SplitByte (RenderConf p) nl) (NoSection, emptyProfile) = Inr (InPeer, shownProfile ?p)"
    unfolding append_assoc by (simp only: m m' r)
  then show ?thesis using assms(2) by (simp add: ParseConf_def shown_nonNegative Validate_shown)
qed

text \<open>C35: what the edit form shows of a profile reads back as the profile it was made from, with placeholders for the secrets and
  without the connect policy; a negative MTU or keepalive reads back as zero.\<close>

theorem conf_edit_roundtrip:
  assumes "ParseConf ut s = Inr p"
  shows "ParseConf ut (RenderConf p) = Inr (shownProfile p)"
  using conf_of_clean ParseConf_clean [OF assms] by blast

definition sampleConf :: string where
  "sampleConf = ''[interface]'' @ [nl] @ ''privatekey=aaa # mine'' @ [nl] @ ''Address=10.0.0.2/24,fd00::2'' @ [nl]
    @ ''MTU = 1300'' @ [nl] @ ''PostUp = iptables'' @ [nl, nl] @ ''[Peer]'' @ [nl]
    @ ''PublicKey = '' @ replicate 43 CHR ''A'' @ ''='' @ [nl] @ ''PresharedKey = x'' @ [nl]
    @ ''Endpoint = vpn.example.com:51820'' @ [nl] @ ''AllowedIPs = 10.0.0.0/8,  192.168.1.1'' @ [nl]"

definition sampleProfile :: wgProfile where
  "sampleProfile = \<lparr>wgMode = [], wgPaused = False, wgPrivateKey = ''aaa'', wgAddresses = [''10.0.0.2/24'', ''fd00::2''], wgDNS = [], wgMTU = 1300,
     wgPeers = [\<lparr>wpPublicKey = replicate 43 CHR ''A'' @ ''='', wpPresharedKey = ''x'', wpHasPSK = True, wpEndpoint = ''vpn.example.com:51820'',
       wpAllowedIPs = [''10.0.0.0/8'', ''192.168.1.1''], wpKeepalive = 0\<rparr>]\<rparr>"

lemma sample_parsed: "ParseConf asciiTables sampleConf = Inr sampleProfile"
  by code_simp

lemma conf_edit_roundtrip_witness:
  "ParseConf asciiTables (RenderConf sampleProfile) = Inr (shownProfile sampleProfile)"
  by (rule conf_edit_roundtrip [OF sample_parsed])

section \<open>What the device reads\<close>

definition uapiPeerLines :: "(string \<Rightarrow> ipAddr list option) \<Rightarrow> wgPeer \<Rightarrow> string list" where
  "uapiPeerLines lookup p =
     [''public_key='' @ the (keyToHex (wpPublicKey p))]
     @ (if wpPresharedKey p = [] then [] else [''preshared_key='' @ the (keyToHex (wpPresharedKey p))])
     @ [''endpoint='' @ the (resolveEndpoint lookup (wpEndpoint p))]
     @ (if wpKeepalive p > 0 then [''persistent_keepalive_interval='' @ itoaInt (wpKeepalive p)] else [])
     @ map (\<lambda>c. ''allowed_ip='' @ normalizeCIDR c) (wpAllowedIPs p)"

definition uapiLines :: "(string \<Rightarrow> ipAddr list option) \<Rightarrow> wgProfile \<Rightarrow> string list" where
  "uapiLines lookup p = (''private_key='' @ the (keyToHex (wgPrivateKey p))) # concat (map (uapiPeerLines lookup) (wgPeers p))"

lemma uapiPeer_lines: "uapiPeer lookup (i, p) = Inr s \<Longrightarrow> s = concat (map (\<lambda>l. l @ [nl]) (uapiPeerLines lookup p))"
  by (auto simp: uapiPeer_def uapiPeerLines_def comp_def split: option.splits if_splits)

lemma uapiPeers_lines:
  "uapiPeers lookup ps = Inr s \<Longrightarrow> s = concat (map (\<lambda>l. l @ [nl]) (concat (map (uapiPeerLines lookup \<circ> snd) ps))) \<and>
     (\<forall>(i, p)\<in>set ps. \<exists>t. uapiPeer lookup (i, p) = Inr t)"
proof (induction ps arbitrary: s)
  case (Cons q ps)
  obtain i p where q: "q = (i, p)" by fastforce
  obtain t u where "uapiPeer lookup (i, p) = Inr t" "uapiPeers lookup ps = Inr u" "s = t @ u"
    using Cons.prems by (auto simp: q bindr_Inr_iff map_sum_Inr)
  then show ?case using Cons.IH [of u] uapiPeer_lines [of lookup i p t] by (auto simp: q)
qed simp

text \<open>No value the device gets holds a line break.\<close>

lemma plainChar_nl: "\<not> plainChar nl"
  by (simp add: plainChar_def isLowerA_def isUpperA_def isDigitA_def byte_def)

lemma nl_not_hex: "keyToHex k = Some h \<Longrightarrow> nl \<notin> set h"
proof -
  assume "keyToHex k = Some h"
  then have "\<exists>raw. h = concat (map keyByte raw)" by (auto simp: keyToHex_def split: option.splits if_splits)
  moreover have "plainChar c" if "c \<in> set (keyByte b)" for b c
  proof -
    have "byte b div 16 < 16" "byte b mod 16 < 16" using byte_less [of b] by (simp_all add: less_mult_imp_div_less)
    then show ?thesis using that odd_lowHex by (auto simp: keyByte_def)
  qed
  ultimately show ?thesis using plainChar_nl by auto
qed

lemma nl_not_plain: "odd' s = [] \<Longrightarrow> nl \<notin> set s"
  using plainChar_nl by (auto simp: filter_empty_conv)

lemma nl_not_addr: "nl \<notin> set (zoneOf a) \<Longrightarrow> nl \<notin> set (AddrString a)"
proof (cases a)
  case (IP6 n z)
  assume z: "nl \<notin> set (zoneOf a)"
  have "AddrString (IP6 n z) = AddrString (IP6 n []) @ (if z = [] then [] else CHR ''%'' # z)"
    by (simp add: AddrString_def Is4In6_def string6_def Let_def split: prod.splits)
  moreover have "nl \<notin> set (AddrString (IP6 n []))" by (rule nl_not_plain) (simp add: odd_AddrString zoneOf_def)
  ultimately show ?thesis using z IP6 by (auto simp: zoneOf_def)
next
  case (IP4 n)
  then show ?thesis using nl_not_plain [OF odd_AddrString [of a]] by (simp add: zoneOf_def)
qed

lemma ParseAddr_zone: "ParseAddr s = Some a \<Longrightarrow> set (zoneOf a) \<subseteq> set s"
  by (auto simp: ParseAddr_def parseIPv4_def parseIPv6_def v6From_def zoneOf_def Let_def
      split: option.splits if_splits prod.splits dest: in_set_dropD)

lemma set_tl: "set (tl xs) \<subseteq> set xs"
  by (cases xs) auto

lemma cutLast_sub: "cutLast c s = Some (a, b) \<Longrightarrow> set a \<subseteq> set s"
proof -
  assume "cutLast c s = Some (a, b)"
  then have "set a = set (tl (dropWhile (\<lambda>x. x \<noteq> c) (rev s)))" by (auto simp: cutLast_def split: if_splits)
  also have "\<dots> \<subseteq> set (dropWhile (\<lambda>x. x \<noteq> c) (rev s))" by (rule set_tl)
  also have "\<dots> \<subseteq> set s" by (auto dest: set_dropWhileD)
  finally show "set a \<subseteq> set s" .
qed

lemma SplitHostPort_sub: "SplitHostPort s = Some (h, p) \<Longrightarrow> set h \<subseteq> set s"
  by (auto simp: SplitHostPort_def Let_def split: option.splits if_splits dest!: cutLast_sub dest: set_takeWhileD)

lemma AddrPort_no_nl: "nl \<notin> set (zoneOf a) \<Longrightarrow> nl \<notin> set (AddrPortString a n)"
  using nl_not_addr [of a] nl_not_plain [OF odd_natDigits] by (simp add: AddrPortString_def)

lemma resolveEndpoint_no_nl:
  assumes "\<And>h ips a. lookup h = Some ips \<Longrightarrow> a \<in> set ips \<Longrightarrow> zoneOf a = []" "nl \<notin> set ep" "resolveEndpoint lookup ep = Some e"
  shows "nl \<notin> set e"
proof -
  obtain host port where hp: "SplitHostPort ep = Some (host, port)" using assms(3) by (auto simp: resolveEndpoint_def Option.bind_eq_Some_conv)
  have h: "nl \<notin> set host" using SplitHostPort_sub [OF hp] assms(2) by blast
  have pick: "pickIP ips = Some a \<Longrightarrow> a \<in> set ips" for ips a
    by (auto simp: pickIP_def find_Some_iff split: option.splits list.splits)
  have unmap: "zoneOf a = [] \<Longrightarrow> zoneOf (Unmap a) = []" for a by (auto simp: Unmap_def zoneOf_def split: ipAddr.splits if_splits)
  show ?thesis
  proof (cases "ParseAddr host")
    case None
    then obtain ips a n where "lookup host = Some ips" "pickIP ips = Some a" "e = AddrPortString (Unmap a) n"
      using assms(3) hp by (auto simp: resolveEndpoint_def Option.bind_eq_Some_conv)
    then show ?thesis using AddrPort_no_nl [of "Unmap a" n] unmap [OF assms(1)] pick by fastforce
  next
    case (Some a)
    then obtain n where "e = AddrPortString a n" using assms(3) hp by (auto simp: resolveEndpoint_def)
    then show ?thesis using AddrPort_no_nl [of a n] ParseAddr_zone [OF Some] h by blast
  qed
qed

lemma normalizeCIDR_no_nl: "nl \<notin> set c \<Longrightarrow> nl \<notin> set (normalizeCIDR c)"
  by (auto simp: normalizeCIDR_def split: option.splits)

lemma uapiPeerLines_no_nl:
  assumes "\<And>h ips a. lookup h = Some ips \<Longrightarrow> a \<in> set ips \<Longrightarrow> zoneOf a = []" "cleanPeer p" "uapiPeer lookup (i, p) = Inr t"
    "l \<in> set (uapiPeerLines lookup p)"
  shows "nl \<notin> set l"
proof -
  have c: "nl \<notin> set (wpEndpoint p)" "\<And>x. x \<in> set (wpAllowedIPs p) \<Longrightarrow> nl \<notin> set x"
    using assms(2) by (auto simp: cleanPeer_def cleanVal_def cleanText_def cleanItem_def list_all_iff)
  have "nl \<notin> set e" if "resolveEndpoint lookup (wpEndpoint p) = Some e" for e
    by (rule resolveEndpoint_no_nl [OF assms(1) c(1) that])
  then show ?thesis
    using assms(3,4) c(2) nl_not_hex nl_not_plain [OF odd_itoaInt] normalizeCIDR_no_nl
    by (auto simp: uapiPeer_def uapiPeerLines_def split: option.splits if_splits)
qed

definition withSecrets :: "string \<Rightarrow> (wgPeer \<Rightarrow> string) \<Rightarrow> wgProfile \<Rightarrow> wgProfile" where
  "withSecrets key psk p = p\<lparr>wgPrivateKey := key, wgPeers := map (\<lambda>q. q\<lparr>wpPresharedKey := psk q\<rparr>) (wgPeers p)\<rparr>"

lemma uapi_of_clean:
  assumes "list_all cleanPeer (wgPeers p)" "buildUAPI lookup p = Inr u" "\<And>h ips a. lookup h = Some ips \<Longrightarrow> a \<in> set ips \<Longrightarrow> zoneOf a = []"
  shows "SplitByte u nl = uapiLines lookup p @ [[]]"
proof -
  have cl: "cleanPeer q" if "q \<in> set (wgPeers p)" for q using that assms(1) by (auto simp: list_all_iff)
  let ?zs = "zip [1..<Suc (length (wgPeers p))] (wgPeers p)"
  obtain priv v where u: "keyToHex (wgPrivateKey p) = Some priv" "uapiPeers lookup ?zs = Inr v"
      "u = ''private_key='' @ priv @ [nl] @ v"
    using assms(2) by (auto simp: buildUAPI_def map_sum_Inr simp del: upt_Suc split: option.splits)
  have snd: "map snd ?zs = wgPeers p" by (simp del: upt_Suc)
  have v: "v = concat (map (\<lambda>l. l @ [nl]) (concat (map (uapiPeerLines lookup) (wgPeers p))))"
    using uapiPeers_lines [OF u(2)] by (simp only: list.map_comp [symmetric] snd)
  have "nl \<notin> set l" if l: "l \<in> set (uapiLines lookup p)" for l
  proof (cases "l = ''private_key='' @ priv")
    case True
    then show ?thesis using nl_not_hex [OF u(1)] by simp
  next
    case False
    then obtain q where q: "q \<in> set (wgPeers p)" "l \<in> set (uapiPeerLines lookup q)" using l u(1) by (auto simp: uapiLines_def)
    then obtain i where "(i, q) \<in> set ?zs"
      using in_set_impl_in_set_zip2 [of "[1..<Suc (length (wgPeers p))]" "wgPeers p" q] by (auto simp del: upt_Suc)
    then obtain t where "uapiPeer lookup (i, q) = Inr t" using uapiPeers_lines [OF u(2)] by blast
    then show ?thesis by (intro uapiPeerLines_no_nl [OF _ cl [OF q(1)] _ q(2)]) (rule assms(3))
  qed
  moreover have "u = concat (map (\<lambda>l. l @ [nl]) (uapiLines lookup p))" using u by (simp add: uapiLines_def v)
  ultimately show ?thesis using SplitByte_lines [of "uapiLines lookup p" nl] by presburger
qed


definition sampleSecrets :: wgProfile where
  "sampleSecrets = withSecrets (replicate 43 CHR ''B'' @ ''='') (\<lambda>_. replicate 43 CHR ''C'' @ ''='') sampleProfile"

lemma sample_uapi:
  "case buildUAPI (\<lambda>h. if h = ''vpn.example.com'' then Some [IP6 1 [], IP4 0x01020304] else None) sampleSecrets of Inr u \<Rightarrow> True | Inl _ \<Rightarrow> False"
  by code_simp


end
