(* ===== verification/NetProfiles.thy ===== *)
theory NetProfiles
  imports WgProfile
begin

text \<open>
  Stored network profiles, \<open>app_network.go\<close>: the operations that create, edit, delete and load a WireGuard
  profile, whose row holds no secret while the vault holds its keys, over a store whose writes may fail. A row stands
  for what its JSON decodes to, which is what was encoded when the text is valid UTF-8.
\<close>

section \<open>Rows and secrets\<close>

record wgRow =
  wrName :: string
  wrProfile :: wgProfile
  wrShared :: "string \<rightharpoonup> string" \<comment> \<open>the settings every kind of profile has, by key\<close>

record netStore =
  nsRows :: "string \<rightharpoonup> wgRow"
  nsVault :: "string \<rightharpoonup> string"

text \<open>What a call meets: the id a new row gets, the keys the vault takes writes of, whether it reads, whether the database writes.\<close>

record netEnv =
  neID :: string
  nePut :: "string \<Rightarrow> bool"
  neGet :: bool
  neDB :: bool

datatype netError = BadConf confError | NoPrivateKey | NoName | DBFailed | VaultFailed | NotFound | KeyMissing

definition wgPrivateKeyVaultKey :: "string \<Rightarrow> string" where
  "wgPrivateKeyVaultKey pid = ''wg_private_key:'' @ pid"

definition wgPSKVaultKey :: "string \<Rightarrow> string \<Rightarrow> string" where
  "wgPSKVaultKey pid pub = ''wg_psk:'' @ pid @ '':'' @ pub"

definition localProxyVaultKey :: "string \<Rightarrow> string" where
  "localProxyVaultKey pid = ''local_proxy:'' @ pid"

definition secretless :: "wgProfile \<Rightarrow> wgProfile" where
  "secretless p = withSecrets [] (\<lambda>_. []) p"

fun putAll :: "(string \<Rightarrow> bool) \<Rightarrow> (string \<times> string) list \<Rightarrow> (string \<rightharpoonup> string) \<Rightarrow> bool \<times> (string \<rightharpoonup> string)" where
  "putAll ok [] v = (True, v)"
| "putAll ok ((k, s) # ks) v = (if ok k then putAll ok ks (v(k \<mapsto> s)) else (False, v))"

definition secretsOf :: "string \<Rightarrow> wgProfile \<Rightarrow> (string \<times> string) list" where
  "secretsOf pid p = (if wgPrivateKey p \<noteq> [] then [(wgPrivateKeyVaultKey pid, wgPrivateKey p)] else [])
     @ map (\<lambda>q. (wgPSKVaultKey pid (wpPublicKey q), wpPresharedKey q)) (filter (\<lambda>q. wpPresharedKey q \<noteq> []) (wgPeers p))"

definition storeWgSecrets :: "netEnv \<Rightarrow> string \<Rightarrow> wgProfile \<Rightarrow> (string \<rightharpoonup> string) \<Rightarrow> bool \<times> (string \<rightharpoonup> string)" where
  "storeWgSecrets env pid p v = putAll (nePut env) (secretsOf pid p) v"

definition loadWgProfile :: "netEnv \<Rightarrow> netStore \<Rightarrow> string \<Rightarrow> netError + wgProfile" where
  "loadWgProfile env st pid =
     (case nsRows st pid of None \<Rightarrow> Inl NotFound
      | Some row \<Rightarrow>
          if \<not> neGet env then Inl VaultFailed
          else case nsVault st (wgPrivateKeyVaultKey pid) of None \<Rightarrow> Inl KeyMissing
            | Some key \<Rightarrow> Inr (withSecrets key
                (\<lambda>q. if wpHasPSK q then (case nsVault st (wgPSKVaultKey pid (wpPublicKey q)) of Some s \<Rightarrow> s | None \<Rightarrow> wpPresharedKey q) else wpPresharedKey q)
                (wrProfile row)))"

section \<open>Operations\<close>

definition NetworkProfileCreate :: "netEnv \<Rightarrow> unicodeTables \<Rightarrow> string \<Rightarrow> string \<Rightarrow> netStore \<Rightarrow> (netError + string) \<times> netStore" where
  "NetworkProfileCreate env ut name conf st =
     (case ParseConf ut conf of Inl e \<Rightarrow> (Inl (BadConf e), st)
      | Inr p \<Rightarrow>
          if wgPrivateKey p = [] \<or> wgPrivateKey p = KeepSecret then (Inl NoPrivateKey, st)
          else if name = [] then (Inl NoName, st)
          else if \<not> neDB env then (Inl DBFailed, st)
          else let row = \<lparr>wrName = name, wrProfile = secretless p, wrShared = Map.empty\<rparr>
            in case storeWgSecrets env (neID env) p (nsVault st) of
              (True, v) \<Rightarrow> (Inr (neID env), st\<lparr>nsRows := (nsRows st)(neID env \<mapsto> row), nsVault := v\<rparr>)
            | (False, v) \<Rightarrow> (Inl VaultFailed, st\<lparr>nsRows := (nsRows st)(neID env := None), nsVault := v\<rparr>))"

text \<open>The placeholders of the edit form stand for the stored values.\<close>

definition keepPeer :: "wgPeer \<Rightarrow> wgPeer" where
  "keepPeer q = (if wpPresharedKey q = KeepSecret then q\<lparr>wpPresharedKey := [], wpHasPSK := True\<rparr> else q)"

definition keepSecrets :: "wgProfile \<Rightarrow> wgProfile" where
  "keepSecrets p = p\<lparr>wgPrivateKey := (if wgPrivateKey p = KeepSecret then [] else wgPrivateKey p), wgPeers := map keepPeer (wgPeers p)\<rparr>"

definition updateRow :: "netEnv \<Rightarrow> string \<Rightarrow> string \<Rightarrow> wgRow \<Rightarrow> netStore \<Rightarrow> (netError + unit) \<times> netStore" where
  "updateRow env pid name row st =
     (if name = [] then (Inl NoName, st)
      else if \<not> neDB env then (Inl DBFailed, st)
      else (Inr (), st\<lparr>nsRows := (nsRows st)(pid \<mapsto> row\<lparr>wrName := name\<rparr>)\<rparr>))"

definition NetworkProfileUpdate :: "netEnv \<Rightarrow> unicodeTables \<Rightarrow> string \<Rightarrow> string \<Rightarrow> string \<Rightarrow> netStore \<Rightarrow> (netError + unit) \<times> netStore" where
  "NetworkProfileUpdate env ut pid name conf st =
     (case nsRows st pid of None \<Rightarrow> (Inl NotFound, st)
      | Some row \<Rightarrow>
          if conf = [] then updateRow env pid name row st
          else case ParseConf ut conf of Inl e \<Rightarrow> (Inl (BadConf e), st)
            | Inr p0 \<Rightarrow>
                if wgPrivateKey p0 = [] then (Inl NoPrivateKey, st)
                else let p = (keepSecrets p0)\<lparr>wgMode := wgMode (wrProfile row), wgPaused := wgPaused (wrProfile row)\<rparr>
                  in case storeWgSecrets env pid p (nsVault st) of
                    (False, v) \<Rightarrow> (Inl VaultFailed, st\<lparr>nsVault := v\<rparr>)
                  | (True, v) \<Rightarrow> updateRow env pid name (row\<lparr>wrProfile := secretless p\<rparr>) (st\<lparr>nsVault := v\<rparr>))"

definition NetworkProfileRenderConf :: "string \<Rightarrow> netStore \<Rightarrow> string option" where
  "NetworkProfileRenderConf pid st = map_option (\<lambda>row. RenderConf (wrProfile row)) (nsRows st pid)"

definition deleteKeys :: "(string \<Rightarrow> bool) \<Rightarrow> string list \<Rightarrow> (string \<rightharpoonup> string) \<Rightarrow> (string \<rightharpoonup> string)" where
  "deleteKeys ok ks v = v |` (- {k \<in> set ks. ok k})"

definition keysOf :: "string \<Rightarrow> wgProfile \<Rightarrow> string list" where
  "keysOf pid p = localProxyVaultKey pid # wgPrivateKeyVaultKey pid # map (\<lambda>q. wgPSKVaultKey pid (wpPublicKey q)) (filter wpHasPSK (wgPeers p))"

definition NetworkProfileDelete :: "netEnv \<Rightarrow> string \<Rightarrow> netStore \<Rightarrow> (netError + unit) \<times> netStore" where
  "NetworkProfileDelete env pid st =
     (case nsRows st pid of None \<Rightarrow> (Inl NotFound, st)
      | Some row \<Rightarrow>
          (let st1 = st\<lparr>nsVault := deleteKeys (nePut env) (keysOf pid (wrProfile row)) (nsVault st)\<rparr>
           in if neDB env then (Inr (), st1\<lparr>nsRows := (nsRows st1)(pid := None)\<rparr>) else (Inl DBFailed, st1)))"

definition NetworkProfileSetPolicy :: "netEnv \<Rightarrow> string \<Rightarrow> string \<Rightarrow> bool \<Rightarrow> netStore \<Rightarrow> (netError + unit) option \<times> netStore" where
  "NetworkProfileSetPolicy env pid mode paused st =
     (if mode \<noteq> ''always'' \<and> mode \<noteq> ''auto'' then (None, st)
      else case nsRows st pid of None \<Rightarrow> (Some (Inl NotFound), st)
        | Some row \<Rightarrow> map_prod Some id (updateRow env pid (wrName row)
            (row\<lparr>wrProfile := (wrProfile row)\<lparr>wgMode := mode, wgPaused := paused\<rparr>\<rparr>) st))"

section \<open>Settings beside the typed forms\<close>

text \<open>A config as the JSON object it is, by key; \<open>None\<close> when it is not one.\<close>

definition carriedKeys :: "string list" where
  "carriedKeys = [''idle_stop_minutes'', ''local_proxy'', ''last_routes'', ''last_domains'', ''last_search_domains'']"

definition carryIdleStop :: "(string \<rightharpoonup> string) option \<Rightarrow> (string \<rightharpoonup> string) option \<Rightarrow> (string \<rightharpoonup> string) option" where
  "carryIdleStop old new =
     (case (old, new) of (Some o1, Some n) \<Rightarrow> Some (foldl (\<lambda>m k. if o1 k \<noteq> None then m(k := o1 k) else m) n carriedKeys)
      | _ \<Rightarrow> new)"

definition patchPolicyJSON :: "(string \<rightharpoonup> string) \<Rightarrow> string \<Rightarrow> string \<Rightarrow> (string \<rightharpoonup> string)" where
  "patchPolicyJSON m modeJSON pausedJSON = m(''mode'' \<mapsto> modeJSON, ''paused'' \<mapsto> pausedJSON)"

section \<open>Helper names and keys\<close>

fun keyFlags :: "string list \<Rightarrow> string option \<Rightarrow> string option" where
  "keyFlags [] key = key"
| "keyFlags (w # f) key =
     (if HasPrefix w ''#'' then key
      else keyFlags f
        (foldl (\<lambda>key n.
           if w = n then Some (case f of v # _ \<Rightarrow> if HasPrefix v ''-'' \<or> HasPrefix v ''#'' then [] else Trim v [CHR 34, CHR 39] | [] \<Rightarrow> [])
           else case CutPrefix w (n @ ''='') of Some v \<Rightarrow> Some (Trim v [CHR 34, CHR 39]) | None \<Rightarrow> key)
         key [''--setup-key'', ''-k'']))"

definition netbirdKeyFromCommand :: "string \<Rightarrow> string" where
  "netbirdKeyFromCommand secret = (case keyFlags (Fields secret) None of None \<Rightarrow> secret | Some k \<Rightarrow> k)"

definition netbirdKeyProblem :: "unicodeTables \<Rightarrow> string \<Rightarrow> bool" where
  "netbirdKeyProblem ut key = HasPrefix (ToLower ut (TrimSpace key)) ''nbp_''"

definition normalizeMgmtURL :: "string \<Rightarrow> string" where
  "normalizeMgmtURL u0 =
     (let u = TrimSpace u0
      in if u = [] then [] else if \<not> HasPrefix u ''http://'' \<and> \<not> HasPrefix u ''https://'' then ''https://'' @ u else u)"

text \<open>The runes of a host name, those not allowed in a label replaced by hyphens.\<close>

definition nameRune :: "bool \<Rightarrow> nat \<Rightarrow> char" where
  "nameRune dot r =
     (if 97 \<le> r \<and> r \<le> 122 \<or> 65 \<le> r \<and> r \<le> 90 \<or> 48 \<le> r \<and> r \<le> 57 \<or> r = 45 \<or> (dot \<and> r = 46) then chr r else CHR ''-'')"

definition netbirdDeviceNameFrom :: "string \<Rightarrow> string" where
  "netbirdDeviceNameFrom host =
     (let base = Trim (map (nameRune True) (runes (TrimSpace host))) ''-.''
      in if base = [] then ''ssh-tool'' else base @ ''.ssh-tool'')"

definition tailscaleHostnameFrom :: "string \<Rightarrow> string" where
  "tailscaleHostnameFrom host =
     (let base = Trim (map (nameRune False) (runes (TrimSpace host))) ''-''
      in if base = [] then ''ssh-tool'' else if length base > 63 then Trim (take 63 base) ''-'' else base)"

definition resolveHelperSecret :: "(string \<rightharpoonup> string option) \<Rightarrow> (string \<rightharpoonup> string) option \<Rightarrow> string \<Rightarrow> string option" where
  "resolveHelperSecret creds vault credID =
     (if credID = [] then None
      else case creds credID of Some (Some k) \<Rightarrow>
          (case vault of Some v \<Rightarrow> (case v k of Some s \<Rightarrow> if s = [] then None else Some s | None \<Rightarrow> None) | None \<Rightarrow> None)
        | _ \<Rightarrow> None)"

section \<open>The secrets of a parsed profile\<close>

text \<open>A predicate on peers that the empty one has and every key keeps holds of every peer that is read.\<close>

lemma confStep_peers:
  assumes "P emptyPeer" "\<And>ln k key v q q'. P q \<Longrightarrow> peerKey ln k key v q = Inr q' \<Longrightarrow> P q'"
    "list_all P (wgPeers (snd st))" "readInv st" "confStep ut ln raw st = Inr st'"
  shows "list_all P (wgPeers (snd st'))"
proof -
  obtain sec p where st: "st = (sec, p)" by fastforce
  have l: "sec = InPeer \<Longrightarrow> P (last (wgPeers p)) \<and> list_all P (butlast (wgPeers p))"
    using assms(3,4) by (auto simp: readInv_def st list_all_iff dest: in_set_butlastD)
  show ?thesis
  proof (cases sec)
    case InPeer
    then show ?thesis using assms(1,3,5) assms(2) [of "last (wgPeers p)"] l
      by (auto simp: st confStep_def Let_def map_sum_Inr split: if_splits prod.splits)
  qed (use assms(1,3,5) in \<open>auto simp: st confStep_def Let_def map_sum_Inr dest!: interfaceKey_peers split: if_splits prod.splits\<close>)
qed

lemma ParseConf_peers:
  assumes "P emptyPeer" "\<And>ln k key v q q'. P q \<Longrightarrow> peerKey ln k key v q = Inr q' \<Longrightarrow> P q'" "ParseConf ut s = Inr p"
  shows "list_all P (wgPeers p)"
proof -
  have step: "list_all P (wgPeers (snd st'))"
    if "list_all P (wgPeers (snd st))" "readInv st" "\<And>l. l \<in> set ls \<Longrightarrow> nl \<notin> set l" "confLines ut ln ls st = Inr st'" for ls ln st st'
    using that
  proof (induction ls arbitrary: ln st)
    case (Cons l ls)
    then obtain st1 where s: "confStep ut ln l st = Inr st1" "confLines ut (Suc ln) ls st1 = Inr st'"
      by (auto simp: confLines.simps(2) bindr_Inr_iff)
    moreover have "list_all P (wgPeers (snd st1))" by (rule confStep_peers [OF assms(1) _ Cons.prems(1,2) s(1)]) (rule assms(2))
    moreover have "readInv st1" by (rule confStep_inv [OF _ Cons.prems(2) s(1)]) (simp add: Cons.prems(3))
    ultimately show ?case using Cons.IH [of st1 "Suc ln"] Cons.prems(3) by simp
  qed simp
  obtain sec where l: "confLines ut 1 (SplitByte s nl) (NoSection, emptyProfile) = Inr (sec, p)"
    using assms(3) by (auto simp: ParseConf_def bindr_Inr_iff split: option.splits)
  show ?thesis using step [OF _ _ _ l] SplitByte_sub by (fastforce simp: emptyProfile_def readInv_def cleanProfile_def)
qed

lemma ParseConf_psk: "ParseConf ut s = Inr p \<Longrightarrow> list_all (\<lambda>q. wpHasPSK q \<longleftrightarrow> wpPresharedKey q \<noteq> []) (wgPeers p)"
  by (rule ParseConf_peers) (auto simp: emptyPeer_def peerKey_def split: if_splits option.splits)

section \<open>Keys of the vault\<close>

lemma vault_keys [simp]:
  "wgPSKVaultKey pid a = wgPSKVaultKey pid b \<longleftrightarrow> a = b" "wgPSKVaultKey pid a \<noteq> wgPrivateKeyVaultKey pid'"
  "wgPrivateKeyVaultKey pid' \<noteq> wgPSKVaultKey pid a" "localProxyVaultKey pid' \<noteq> wgPSKVaultKey pid a"
  by (simp_all add: wgPSKVaultKey_def wgPrivateKeyVaultKey_def localProxyVaultKey_def)

lemma putAll_map: "putAll ok ks v = (True, v') \<Longrightarrow> v' = v ++ map_of (rev ks)"
  by (induction ok ks v rule: putAll.induct) (auto simp: map_add_def fun_eq_iff split: if_splits option.splits)

lemma putAll_other: "putAll ok ks v = (b, v') \<Longrightarrow> k \<notin> fst ` set ks \<Longrightarrow> v' k = v k"
  by (induction ok ks v rule: putAll.induct) (auto split: if_splits)

lemma putAll_dom: "putAll ok ks v = (b, v') \<Longrightarrow> dom v \<subseteq> dom v'"
  by (induction ok ks v rule: putAll.induct) (fastforce split: if_splits)+

lemma secretsOf_distinct:
  assumes "distinct (map wpPublicKey (wgPeers p))"
  shows "distinct (map fst (secretsOf pid p))"
proof -
  have "distinct (map wpPublicKey (filter (\<lambda>q. wpPresharedKey q \<noteq> []) (wgPeers p)))" using assms by (rule distinct_map_filter)
  then show ?thesis by (auto simp: secretsOf_def distinct_map comp_def inj_on_def)
qed

lemma stored_secret:
  assumes "distinct (map wpPublicKey (wgPeers p))" "storeWgSecrets env pid p v = (True, v')" "(k, s) \<in> set (secretsOf pid p)"
  shows "v' k = Some s"
proof -
  have d: "distinct (map fst (rev (secretsOf pid p)))" using secretsOf_distinct [OF assms(1)] by (simp flip: rev_map)
  then have "map_of (rev (secretsOf pid p)) k = Some s" using assms(3) by (intro map_of_is_SomeI) simp_all
  then show ?thesis using putAll_map assms(2) by (fastforce simp: storeWgSecrets_def)
qed

section \<open>What is created is loaded\<close>

lemma withSecrets_id:
  assumes "wgPrivateKey p = key" "\<And>q. q \<in> set (wgPeers p) \<Longrightarrow> psk (q\<lparr>wpPresharedKey := []\<rparr>) = wpPresharedKey q"
  shows "withSecrets key psk (secretless p) = p"
proof -
  have "map (\<lambda>q. q\<lparr>wpPresharedKey := psk (q\<lparr>wpPresharedKey := []\<rparr>)\<rparr>) (wgPeers p) = wgPeers p"
    using assms(2) by (simp add: map_idI)
  then show ?thesis using assms(1) by (simp add: withSecrets_def secretless_def comp_def)
qed


definition openNet :: netEnv where
  "openNet = \<lparr>neID = ''n1'', nePut = \<lambda>_. True, neGet = True, neDB = True\<rparr>"

definition noProfiles :: netStore where
  "noProfiles = \<lparr>nsRows = Map.empty, nsVault = Map.empty\<rparr>"


section \<open>Runs of the profile page\<close>

inductive netReach :: "unicodeTables \<Rightarrow> netStore \<Rightarrow> bool" for ut where
  start: "netReach ut \<lparr>nsRows = Map.empty, nsVault = v\<rparr>"
| create: "netReach ut st \<Longrightarrow> NetworkProfileCreate env ut name conf st = (r, st') \<Longrightarrow> netReach ut st'"
| update: "netReach ut st \<Longrightarrow> NetworkProfileUpdate env ut pid name conf st = (u, st') \<Longrightarrow> netReach ut st'"
| policy: "netReach ut st \<Longrightarrow> NetworkProfileSetPolicy env pid mode paused st = (o', st') \<Longrightarrow> netReach ut st'"
| delete: "netReach ut st \<Longrightarrow> NetworkProfileDelete env pid st = (u, st') \<Longrightarrow> netReach ut st'"

definition rowInv :: "wgRow \<Rightarrow> bool" where
  "rowInv row \<longleftrightarrow> cleanProfile (wrProfile row) \<and> Validate (wrProfile row) = None \<and> secretless (wrProfile row) = wrProfile row"

definition storeInv :: "netStore \<Rightarrow> bool" where
  "storeInv st \<longleftrightarrow> (\<forall>pid row. nsRows st pid = Some row \<longrightarrow> rowInv row)"

lemma peerError_secret: "peerError (i, q\<lparr>wpPresharedKey := s\<rparr>) = peerError (i, q)" "peerError (i, keepPeer q) = peerError (i, q)"
  by (simp_all add: peerError_def keepPeer_def)

lemma Validate_map:
  assumes "\<And>i q. peerError (i, f q) = peerError (i, q)"
  shows "Validate (p\<lparr>wgMode := m, wgPaused := b, wgPrivateKey := k, wgPeers := map f (wgPeers p)\<rparr>) = Validate p"
proof -
  have "firstError peerError (zip ns (map f ws)) = firstError peerError (zip ns ws)" for ns ws
    by (rule firstError_cong) (simp add: zip_map2 assms split_def)
  then show ?thesis by (auto simp: Validate_def simp del: upt_Suc split: option.splits)
qed

lemma secretless_inv:
  assumes "cleanProfile p" "Validate p = None"
  shows "rowInv (row\<lparr>wrProfile := secretless p\<rparr>)" "rowInv (row\<lparr>wrProfile := secretless ((keepSecrets p)\<lparr>wgMode := m, wgPaused := b\<rparr>)\<rparr>)"
proof -
  have "Validate (secretless p) = Validate p"
    using Validate_map [where f = "\<lambda>q. q\<lparr>wpPresharedKey := []\<rparr>" and p = p and k = "[]" and m = "wgMode p" and b = "wgPaused p"] by (simp add: secretless_def withSecrets_def peerError_secret)
  moreover have "Validate (secretless ((keepSecrets p)\<lparr>wgMode := m, wgPaused := b\<rparr>)) = Validate p"
    using Validate_map [where f = "\<lambda>q. (keepPeer q)\<lparr>wpPresharedKey := []\<rparr>" and p = p and k = "[]" and m = m and b = b]
    by (simp add: secretless_def withSecrets_def keepSecrets_def peerError_secret comp_def)
  ultimately show "rowInv (row\<lparr>wrProfile := secretless p\<rparr>)"
    "rowInv (row\<lparr>wrProfile := secretless ((keepSecrets p)\<lparr>wgMode := m, wgPaused := b\<rparr>)\<rparr>)"
    using assms by (auto simp: rowInv_def secretless_def withSecrets_def keepSecrets_def keepPeer_def cleanProfile_def list_all_iff cleanPeer_def)
qed

lemma rowInv_policy: "rowInv row \<Longrightarrow> rowInv (row\<lparr>wrProfile := (wrProfile row)\<lparr>wgMode := m, wgPaused := b\<rparr>\<rparr>)"
proof -
  assume r: "rowInv row"
  let ?p = "wrProfile row"
  have "secretless (?p\<lparr>wgMode := m, wgPaused := b\<rparr>) = (secretless ?p)\<lparr>wgMode := m, wgPaused := b\<rparr>"
    by (simp add: secretless_def withSecrets_def)
  moreover have "Validate (?p\<lparr>wgMode := m, wgPaused := b\<rparr>) = Validate ?p" by (simp add: Validate_def cong: if_cong option.case_cong)
  ultimately show ?thesis using r by (simp add: rowInv_def cleanProfile_def)
qed

lemma rowInv_name: "rowInv (row\<lparr>wrName := n\<rparr>) \<longleftrightarrow> rowInv row"
  by (simp add: rowInv_def)

lemma storeInv_upd:
  "storeInv st \<Longrightarrow> rowInv row \<Longrightarrow> storeInv (st\<lparr>nsRows := (nsRows st)(pid \<mapsto> row)\<rparr>)" "storeInv st \<Longrightarrow> storeInv (st\<lparr>nsVault := v\<rparr>)"
  "storeInv st \<Longrightarrow> storeInv (st\<lparr>nsRows := (nsRows st)(pid := None)\<rparr>)"
  by (simp_all add: storeInv_def)

lemma updateRow_inv: "updateRow env pid name row st = (u, st') \<Longrightarrow> storeInv st \<Longrightarrow> rowInv row \<Longrightarrow> storeInv st'"
  by (auto simp: updateRow_def rowInv_name intro!: storeInv_upd split: if_splits)

lemma netReach_inv: "netReach ut st \<Longrightarrow> storeInv st"
proof (induction rule: netReach.induct)
  case (create st env name conf r st')
  show ?case
  proof (cases "ParseConf ut conf")
    case (Inr p)
    have "rowInv \<lparr>wrName = name, wrProfile = secretless p, wrShared = Map.empty\<rparr>"
      using secretless_inv(1) [of p "\<lparr>wrName = name, wrProfile = secretless p, wrShared = Map.empty\<rparr>"] ParseConf_clean [OF Inr] by simp
    then show ?thesis using create(2,3) Inr
      by (auto simp: NetworkProfileCreate_def Let_def storeInv_def split: if_splits prod.splits bool.splits)
  qed (use create in \<open>auto simp: NetworkProfileCreate_def\<close>)
next
  case (update st env pid name conf u st')
  show ?case
  proof (cases "nsRows st pid")
    case (Some row)
    then have r: "rowInv row" using update(3) by (auto simp: storeInv_def)
    show ?thesis
    proof (cases "conf = []")
      case True
      then show ?thesis using update(2,3) Some r by (auto simp: NetworkProfileUpdate_def intro: updateRow_inv)
    next
      case False
      show ?thesis
      proof (cases "ParseConf ut conf")
        case (Inr p)
        then show ?thesis using update(2,3) Some False secretless_inv(2) [where p = p and row = row] ParseConf_clean [OF Inr]
          by (auto simp: NetworkProfileUpdate_def Let_def storeInv_upd intro: updateRow_inv split: if_splits prod.splits bool.splits)
      qed (use update Some False in \<open>auto simp: NetworkProfileUpdate_def\<close>)
    qed
  qed (use update in \<open>auto simp: NetworkProfileUpdate_def\<close>)
next
  case (policy st env pid mode paused o' st')
  show ?case
  proof (cases "nsRows st pid")
    case (Some row)
    then have r: "rowInv row" using policy(3) by (auto simp: storeInv_def)
    show ?thesis using policy(2,3) Some
      by (auto simp: NetworkProfileSetPolicy_def map_prod_def intro: updateRow_inv [OF _ _ rowInv_policy [OF r]] split: if_splits prod.splits)
  qed (use policy in \<open>auto simp: NetworkProfileSetPolicy_def split: if_splits\<close>)
next
  case (delete st env pid u st')
  then show ?case by (auto simp: NetworkProfileDelete_def Let_def storeInv_def split: option.splits if_splits)
qed (simp add: storeInv_def)

section \<open>Saving the edit form\<close>

lemma keep_shown:
  assumes "secretless p = p"
  shows "(keepSecrets (shownProfile p))\<lparr>wgMode := wgMode p, wgPaused := wgPaused p\<rparr> = nonNegative p"
proof -
  have "wpPresharedKey q = []" if "q \<in> set (wgPeers p)" for q
  proof -
    have "q \<in> set (wgPeers (secretless p))" using that assms by simp
    then show ?thesis by (auto simp: secretless_def withSecrets_def)
  qed
  then have "keepPeer (shownPeer q) = q\<lparr>wpKeepalive := max 0 (wpKeepalive q)\<rparr>" if "q \<in> set (wgPeers p)" for q
  proof -
    have "wpPresharedKey q = []" by (fact \<open>\<And>q. q \<in> set (wgPeers p) \<Longrightarrow> wpPresharedKey q = []\<close> [OF that])
    then show ?thesis using KeepSecret_clean by (cases q) (auto simp: keepPeer_def shownPeer_def)
  qed
  moreover have "wgPrivateKey p = []" using assms by (metis secretless_def wgProfile.select_convs(3) withSecrets_def wgProfile.surjective wgProfile.update_convs(3) wgProfile.update_convs(7))
  ultimately show ?thesis by (cases p) (simp add: keepSecrets_def shownProfile_def nonNegative_def)
qed

lemma secretsOf_nonNegative: "secretless p = p \<Longrightarrow> secretsOf pid (nonNegative p) = []"
proof -
  assume p: "secretless p = p"
  have "secretsOf pid (nonNegative (secretless p)) = []" by (auto simp: secretsOf_def nonNegative_def secretless_def withSecrets_def filter_empty_conv)
  then show ?thesis unfolding p .
qed

lemma secretless_nonNegative: "secretless p = p \<Longrightarrow> secretless (nonNegative p) = nonNegative p"
proof -
  assume p: "secretless p = p"
  have "secretless (nonNegative (secretless p)) = nonNegative (secretless p)" by (simp add: secretless_def withSecrets_def nonNegative_def comp_def)
  then show ?thesis unfolding p .
qed


definition afterCreate :: netStore where
  "afterCreate = snd (NetworkProfileCreate openNet asciiTables ''office'' sampleConf noProfiles)"

lemma afterCreate_reach: "netReach asciiTables afterCreate"
  unfolding afterCreate_def noProfiles_def by (rule netReach.create [OF netReach.start]) (rule prod.collapse [symmetric])

lemma afterCreate_row: "nsRows afterCreate ''n1'' = Some \<lparr>wrName = ''office'', wrProfile = secretless sampleProfile, wrShared = Map.empty\<rparr>"
  by (simp add: afterCreate_def NetworkProfileCreate_def sample_parsed openNet_def storeWgSecrets_def secretsOf_def sampleProfile_def KeepSecret_def noProfiles_def)


section \<open>What an edit or a removal leaves behind\<close>

text \<open>An edited public key with the placeholder kept for its preshared key: the profile says there is one, and none is used.\<close>

lemma edited_public_key_loses_psk:
  assumes "ParseConf ut conf = Inr p0" "distinct (map wpPublicKey (wgPeers p0))" "q \<in> set (wgPeers p0)" "wpPresharedKey q = KeepSecret"
    "NetworkProfileUpdate env ut pid name conf st = (Inr (), st')" "conf \<noteq> []" "nsVault st (wgPSKVaultKey pid (wpPublicKey q)) = None"
    "loadWgProfile env' st' pid = Inr p"
  shows "\<exists>q'\<in>set (wgPeers p). wpPublicKey q' = wpPublicKey q \<and> wpHasPSK q' \<and> wpPresharedKey q' = []"
proof -
  obtain row v where u: "nsRows st pid = Some row"
      "storeWgSecrets env pid ((keepSecrets p0)\<lparr>wgMode := wgMode (wrProfile row), wgPaused := wgPaused (wrProfile row)\<rparr>) (nsVault st) = (True, v)"
      "st' = st\<lparr>nsVault := v, nsRows := (nsRows st)(pid \<mapsto> row\<lparr>wrProfile := secretless ((keepSecrets p0)\<lparr>wgMode := wgMode (wrProfile row), wgPaused := wgPaused (wrProfile row)\<rparr>), wrName := name\<rparr>)\<rparr>"
    using assms(1,5,6) by (auto simp: NetworkProfileUpdate_def updateRow_def Let_def split: option.splits if_splits prod.splits bool.splits)
  let ?k = "wgPSKVaultKey pid (wpPublicKey q)"
  have same: "r = q" if "r \<in> set (wgPeers p0)" "wpPublicKey r = wpPublicKey q" for r
    using assms(2,3) that by (auto simp: distinct_map inj_on_def)
  have "?k \<notin> fst ` set (secretsOf pid ((keepSecrets p0)\<lparr>wgMode := wgMode (wrProfile row), wgPaused := wgPaused (wrProfile row)\<rparr>))"
    using assms(4) by (auto simp: secretsOf_def keepSecrets_def keepPeer_def split: if_splits dest!: same)
  then have n: "v ?k = None" using putAll_other u(2) assms(7) unfolding storeWgSecrets_def by metis
  have nv: "nsVault st' = v"
      "nsRows st' pid = Some (row\<lparr>wrProfile := secretless ((keepSecrets p0)\<lparr>wgMode := wgMode (wrProfile row), wgPaused := wgPaused (wrProfile row)\<rparr>), wrName := name\<rparr>)"
    by (simp_all add: u(3))
  obtain key where p: "p = withSecrets key
      (\<lambda>r. if wpHasPSK r then (case v (wgPSKVaultKey pid (wpPublicKey r)) of Some s \<Rightarrow> s | None \<Rightarrow> wpPresharedKey r) else wpPresharedKey r)
      (secretless ((keepSecrets p0)\<lparr>wgMode := wgMode (wrProfile row), wgPaused := wgPaused (wrProfile row)\<rparr>))"
    using assms(8) nv by (auto simp: loadWgProfile_def split: option.splits if_splits)
  let ?q = "q\<lparr>wpPresharedKey := [], wpHasPSK := True\<rparr>"
  have "?q \<in> (\<lambda>r. r\<lparr>wpPresharedKey := if wpHasPSK r then (case v (wgPSKVaultKey pid (wpPublicKey r)) of Some s \<Rightarrow> s | None \<Rightarrow> wpPresharedKey r) else wpPresharedKey r\<rparr>) `
      (\<lambda>r. r\<lparr>wpPresharedKey := []\<rparr>) ` keepPeer ` set (wgPeers p0)"
    using n assms(4) by (intro image_eqI [of _ _ ?q] image_eqI [of _ _ q] assms(3)) (simp_all add: keepPeer_def)
  then have "?q \<in> set (wgPeers p)" by (simp add: p withSecrets_def secretless_def keepSecrets_def comp_def image_image)
  then show ?thesis by (rule rev_bexI) simp
qed

text \<open>The preshared key of a peer that was removed stays in the vault when the profile goes.\<close>

lemma removed_peer_psk_stays:
  assumes "nsRows st pid = Some row" "pub \<notin> wpPublicKey ` {q \<in> set (wgPeers (wrProfile row)). wpHasPSK q}"
    "NetworkProfileDelete env pid st = (Inr (), st')"
  shows "nsVault st' (wgPSKVaultKey pid pub) = nsVault st (wgPSKVaultKey pid pub)"
  using assms by (auto simp: NetworkProfileDelete_def deleteKeys_def keysOf_def restrict_map_def Let_def vault_keys(4) [THEN not_sym] split: if_splits)

text \<open>No edit removes a key from the vault.\<close>

lemma update_keeps_keys: "NetworkProfileUpdate env ut pid name conf st = (r, st') \<Longrightarrow> dom (nsVault st) \<subseteq> dom (nsVault st')"
  by (auto simp: NetworkProfileUpdate_def updateRow_def storeWgSecrets_def Let_def split: option.splits sum.splits if_splits prod.splits bool.splits
      dest!: putAll_dom)

text \<open>An edit that is refused for its empty name has replaced the secrets already.\<close>

lemma refused_update_replaces_secrets:
  assumes "nsRows st pid = Some row" "ParseConf ut conf = Inr p" "conf \<noteq> []" "wgPrivateKey p \<notin> {[], KeepSecret}" "\<And>k. nePut env k"
  shows "\<exists>v. NetworkProfileUpdate env ut pid [] conf st = (Inl NoName, st\<lparr>nsVault := v\<rparr>) \<and> wgPrivateKeyVaultKey pid \<in> dom v"
proof -
  have all: "fst (putAll (nePut env) ks v)" for ks v using assms(5) by (induction ks arbitrary: v) auto
  let ?p = "(keepSecrets p)\<lparr>wgMode := wgMode (wrProfile row), wgPaused := wgPaused (wrProfile row)\<rparr>"
  obtain v where v: "storeWgSecrets env pid ?p (nsVault st) = (True, v)"
    using all [of "secretsOf pid ?p" "nsVault st"] by (cases "storeWgSecrets env pid ?p (nsVault st)") (auto simp: storeWgSecrets_def)
  have "(wgPrivateKeyVaultKey pid, wgPrivateKey p) \<in> set (secretsOf pid ?p)" using assms(4) by (simp add: secretsOf_def keepSecrets_def)
  then have "wgPrivateKeyVaultKey pid \<in> dom v"
    using putAll_map [of "nePut env" "secretsOf pid ?p" "nsVault st" v] v
    by (auto simp: storeWgSecrets_def map_add_def dom_def map_of_eq_None_iff image_iff split: option.splits)
  then show ?thesis using assms v by (auto simp: NetworkProfileUpdate_def Let_def updateRow_def)
qed

section \<open>Settings carried over, names and keys\<close>

lemma carry_keeps: "carryIdleStop (Some o1) (Some n) = Some (\<lambda>k. if k \<in> set carriedKeys \<and> o1 k \<noteq> None then o1 k else n k)"
proof -
  have "foldl (\<lambda>m k. if o1 k \<noteq> None then m(k := o1 k) else m) n ks = (\<lambda>k. if k \<in> set ks \<and> o1 k \<noteq> None then o1 k else n k)" for ks n
    by (induction ks arbitrary: n) (auto simp: fun_eq_iff)
  then show ?thesis by (simp add: carryIdleStop_def)
qed

lemma Trim_ends:
  assumes "Trim s cs \<noteq> []"
  shows "hd (Trim s cs) \<notin> set cs" "last (Trim s cs) \<notin> set cs"
proof -
  let ?l = "dropWhile (\<lambda>c. c \<in> set cs) s" let ?r = "dropWhile (\<lambda>c. c \<in> set cs) (rev ?l)"
  have r: "?r \<noteq> []" using assms by (simp add: Trim_def)
  then show "last (Trim s cs) \<notin> set cs" using hd_dropWhile [OF r] by (simp add: Trim_def last_rev)
  obtain q where "rev ?l = q @ ?r" by (metis takeWhile_dropWhile_id)
  then have l: "?l = rev ?r @ rev q" by (metis rev_append rev_rev_ident)
  then have "hd ?l = hd (rev ?r)" "?l \<noteq> []" using r by (metis hd_append2 rev_is_Nil_conv, metis append_is_Nil_conv rev_is_Nil_conv)
  then show "hd (Trim s cs) \<notin> set cs" using hd_dropWhile [of "\<lambda>c. c \<in> set cs" s] by (simp add: Trim_def)
qed

lemma Trim_nonempty: "x \<in> set s \<Longrightarrow> x \<notin> set cs \<Longrightarrow> Trim s cs \<noteq> []"
  using Trim_empty_iff by blast

lemma Trim_length: "length (Trim s cs) \<le> length s"
  unfolding Trim_def by (metis length_dropWhile_le length_rev order_trans)

text \<open>C40: whatever the machine is called, the host name proposed for Tailscale is a DNS label: one to 63 letters, digits and
  hyphens, with no hyphen at either end.\<close>

theorem tailscale_name_is_label:
  "let n = tailscaleHostnameFrom host; ok = \<lambda>c. isLowerA c \<or> isUpperA c \<or> isDigitA c in n \<noteq> [] \<and> length n \<le> 63 \<and> set n \<subseteq> {c. ok c \<or> c = CHR ''-''} \<and> ok (hd n) \<and> ok (last n)"
proof -
  define ok where "ok = (\<lambda>c. isLowerA c \<or> isUpperA c \<or> isDigitA c)"
  let ?m = "map (nameRune False) (runes (TrimSpace host))" let ?b = "Trim ?m ''-''"
  have rune: "ok (nameRune False r) \<or> nameRune False r = CHR ''-''" for r
  proof -
    have "chr 45 = CHR ''-''" by code_simp
    then show ?thesis by (auto simp: ok_def nameRune_def isLowerA_def isUpperA_def isDigitA_def byte_chr)
  qed
  then have b: "set ?b \<subseteq> {c. ok c \<or> c = CHR ''-''}" using Trim_sub [of ?m "''-''"] by auto
  have ends: "ok (hd s)" "ok (last s)" if "set s \<subseteq> {c. ok c \<or> c = CHR ''-''}" "s \<noteq> []" "hd s \<notin> set ''-''" "last s \<notin> set ''-''" for s
    using subsetD [OF that(1) hd_in_set [OF that(2)]] subsetD [OF that(1) last_in_set [OF that(2)]] that(3,4) by simp_all
  have def: "ok CHR ''s''" "ok CHR ''l''" "set ''ssh-tool'' \<subseteq> {c. ok c \<or> c = CHR ''-''}"
    by (simp_all add: ok_def isLowerA_def byte_def)
  have "let n = tailscaleHostnameFrom host in n \<noteq> [] \<and> length n \<le> 63 \<and> set n \<subseteq> {c. ok c \<or> c = CHR ''-''} \<and> ok (hd n) \<and> ok (last n)"
  proof (cases "?b = []")
    case True
    then show ?thesis using def by (simp add: tailscaleHostnameFrom_def)
  next
    case False
    note e = Trim_ends [OF False]
    show ?thesis
    proof (cases "length ?b > 63")
      case True
      let ?t = "Trim (take 63 ?b) ''-''"
      have h: "hd ?b \<in> set (take 63 ?b)" using False by (cases ?b) auto
      then have t: "?t \<noteq> []" using Trim_nonempty e(1) by blast
      have s: "set ?t \<subseteq> {c. ok c \<or> c = CHR ''-''}" using b Trim_sub [of "take 63 ?b" "''-''"] set_take_subset by fast
      show ?thesis using True False t s ends [OF s t Trim_ends [OF t]] Trim_length [of "take 63 ?b" "''-''"] by (simp add: tailscaleHostnameFrom_def Let_def)
    next
      case small: False
      then show ?thesis using False b ends [OF b False e] by (simp add: tailscaleHostnameFrom_def Let_def)
    qed
  qed
  then show ?thesis by (simp add: ok_def Let_def)
qed

end
