(* ===== verification/TunnelLife.thy ===== *)
theory TunnelLife
  imports NetProfiles "HOL-Library.Multiset"
begin

text \<open>
  The life of a tunnel: which way a connection is dialled (\<open>wgDialerForCtx\<close> and its background and probe
  variants in \<open>app_network.go\<close>), when a proxy client may start a login (\<open>app_loginhold.go\<close>), and when an
  idle tunnel is stopped (\<open>wgAcquire\<close>, \<open>wgRelease\<close> and the idle timers). Each step of the two transition
  relations is one critical section of the source, or one call outside the locks.
\<close>

section \<open>The connect policy\<close>

datatype dialPath = Direct | Tunnel

text \<open>What a dial meets. \<open>dwRoom\<close>: the connect deadline leaves room for the tunnel and a direct try; \<open>dwOver\<close>: it is over after the
  tunnel's dial.\<close>

record dialWorld =
  dwPaused :: bool
  dwAuto :: bool
  dwUnsupported :: bool
  dwRunning :: bool
  dwRoom :: bool
  dwOver :: bool
  dwEnsure :: bool
  dwAgain :: bool \<comment> \<open>asked for a second time, the tunnel comes up\<close>
  dwTunnel :: bool
  dwProbe :: bool
  dwDirect :: bool

text \<open>How it ends, the path reported last, whether a tunnel was asked for, and the dials in order.\<close>

record tunnelDial =
  doConn :: "dialPath option"
  doPath :: "dialPath option"
  doEnsured :: bool
  doDials :: "dialPath list"

definition dialed1 :: "dialPath \<Rightarrow> bool \<Rightarrow> bool \<Rightarrow> tunnelDial" where
  "dialed1 p ensured ok = \<lparr>doConn = (if ok then Some p else None), doPath = Some p, doEnsured = ensured, doDials = [p]\<rparr>"

definition noDial :: "bool \<Rightarrow> tunnelDial" where
  "noDial ensured = \<lparr>doConn = None, doPath = None, doEnsured = ensured, doDials = []\<rparr>"

text \<open>The direct probe first, the tunnel when it fails.\<close>

definition probeThenTunnel :: "dialWorld \<Rightarrow> bool \<Rightarrow> bool \<Rightarrow> tunnelDial" where
  "probeThenTunnel w ensured comesUp =
     (if dwProbe w then dialed1 Direct ensured True
      else if \<not> comesUp then (dialed1 Direct True False)
      else (dialed1 Tunnel True (dwTunnel w))\<lparr>doDials := [Direct, Tunnel]\<rparr>)"

definition wgDialerForCtx :: "dialWorld \<Rightarrow> tunnelDial" where
  "wgDialerForCtx w =
     (if dwPaused w then dialed1 Direct False (dwDirect w)
      else if dwAuto w then
        (if dwUnsupported w then dialed1 Direct False (dwDirect w)
         else if dwRoom w \<and> dwRunning w then
           (if \<not> dwEnsure w then probeThenTunnel w True (dwAgain w)
            else if dwTunnel w then dialed1 Tunnel True True
            else if dwOver w then \<lparr>doConn = None, doPath = None, doEnsured = True, doDials = [Tunnel]\<rparr>
            else (dialed1 Direct True (dwProbe w))\<lparr>doDials := [Tunnel, Direct]\<rparr>)
         else probeThenTunnel w False (dwEnsure w))
      else if dwEnsure w then dialed1 Tunnel True (dwTunnel w) else noDial True)"

text \<open>The variants that never start a tunnel; they report no path.\<close>

definition unreported :: "dialPath \<Rightarrow> bool \<Rightarrow> tunnelDial" where
  "unreported p ok = (dialed1 p False ok)\<lparr>doPath := None\<rparr>"

definition wgBackgroundDialerFor :: "dialWorld \<Rightarrow> tunnelDial" where
  "wgBackgroundDialerFor w =
     (if dwPaused w then unreported Direct (dwProbe w)
      else if dwRunning w then unreported Tunnel (dwTunnel w)
      else if dwAuto w then unreported Direct (dwProbe w) else noDial False)"

definition wgProbeDialerFor :: "dialWorld \<Rightarrow> tunnelDial" where
  "wgProbeDialerFor w =
     (if dwPaused w then unreported Direct (dwDirect w)
      else if dwRunning w then unreported Tunnel (dwTunnel w) else noDial False)"

text \<open>Minutes of an idle tunnel: the profile's own, the setting, two minutes; negative is never.\<close>

definition wgLinger :: int where "wgLinger = 2"

definition idleStopFor :: "int option \<Rightarrow> string option \<Rightarrow> int option" where
  "idleStopFor own setting =
     (let m = (case own of Some n \<Rightarrow> Some n | None \<Rightarrow> (case setting of Some v \<Rightarrow> Atoi (TrimSpace v) | None \<Rightarrow> None))
      in case m of None \<Rightarrow> Some wgLinger | Some n \<Rightarrow> if n < 0 then None else Some n)"

section \<open>Logins started by proxy clients\<close>

text \<open>
  One profile. A client is out, has seen the tunnel up, waits for the profile's start lock, is inside with the count of
  starts it read and whether the tunnel was down when it got in, or has failed and is about to set the hold.
\<close>

datatype holdPhase = Out | SawUp | Waiting | Inside nat bool | Failed nat bool

record loginState =
  lhHeld :: bool
  lhUps :: nat
  lhRunning :: bool
  lhLock :: "nat option"
  lhPhase :: "nat \<Rightarrow> holdPhase"
  lhFresh :: nat \<comment> \<open>tunnels that came up, their start not recorded yet\<close>
  lhFails :: nat \<comment> \<open>logins that proxy clients started on a tunnel that was down and that did not finish, since the last recorded start\<close>

definition noLogins :: loginState where
  "noLogins = \<lparr>lhHeld = False, lhUps = 0, lhRunning = False, lhLock = None, lhPhase = \<lambda>_. Out, lhFresh = 0, lhFails = 0\<rparr>"

definition atPhase :: "nat \<Rightarrow> holdPhase \<Rightarrow> loginState \<Rightarrow> loginState" where
  "atPhase c ph st = st\<lparr>lhPhase := (lhPhase st)(c := ph)\<rparr>"

text \<open>\<open>ensureTunnelFromProxy\<close> up to the lock, and the check under it.\<close>

definition proxyEnter :: "nat \<Rightarrow> loginState \<Rightarrow> loginState" where
  "proxyEnter c st = atPhase c (if lhRunning st then SawUp else Waiting) st"

definition proxyLocked :: "nat \<Rightarrow> loginState \<Rightarrow> loginState" where
  "proxyLocked c st =
     (if \<not> lhRunning st \<and> lhHeld st then atPhase c Out st
      else (atPhase c (Inside (lhUps st) (\<not> lhRunning st)) st)\<lparr>lhLock := Some c\<rparr>)"

text \<open>\<open>tunnelStarted\<close>.\<close>

definition tunnelStarted :: "loginState \<Rightarrow> loginState" where
  "tunnelStarted st = st\<lparr>lhUps := lhUps st + 1, lhHeld := False, lhFails := 0\<rparr>"

text \<open>The login a client inside started ends: the tunnel is up, or the error is one of a login that did not finish, or another.\<close>

definition loginUp :: "nat \<Rightarrow> loginState \<Rightarrow> loginState" where
  "loginUp c st = tunnelStarted ((atPhase c Out st)\<lparr>lhRunning := True, lhLock := None\<rparr>)"

definition loginOther :: "nat \<Rightarrow> loginState \<Rightarrow> loginState" where
  "loginOther c st = (atPhase c Out st)\<lparr>lhLock := None\<rparr>"

definition loginFails :: "nat \<Rightarrow> nat \<Rightarrow> bool \<Rightarrow> loginState \<Rightarrow> loginState" where
  "loginFails c gen cold st = (atPhase c (Failed gen cold) st)\<lparr>lhFails := lhFails st + (if cold \<and> gen = lhUps st then 1 else 0)\<rparr>"

definition holdAfterLogin :: "nat \<Rightarrow> nat \<Rightarrow> loginState \<Rightarrow> loginState" where
  "holdAfterLogin c gen st = (atPhase c Out st)\<lparr>lhHeld := (lhHeld st \<or> lhUps st = gen), lhLock := None\<rparr>"

inductive loginStep :: "loginState \<Rightarrow> loginState \<Rightarrow> bool" where
  enter: "lhPhase st c = Out \<Longrightarrow> loginStep st (proxyEnter c st)"
| rides: "lhPhase st c = SawUp \<Longrightarrow> loginStep st (atPhase c Out (if b then tunnelStarted (st\<lparr>lhRunning := True\<rparr>) else st))"
| locks: "lhPhase st c = Waiting \<Longrightarrow> lhLock st = None \<Longrightarrow> loginStep st (proxyLocked c st)"
| up: "lhPhase st c = Inside gen cold \<Longrightarrow> loginStep st (loginUp c st)"
| other: "lhPhase st c = Inside gen cold \<Longrightarrow> loginStep st (loginOther c st)"
| fails: "lhPhase st c = Inside gen cold \<Longrightarrow> loginStep st (loginFails c gen cold st)"
| holds: "lhPhase st c = Failed gen cold \<Longrightarrow> loginStep st (holdAfterLogin c gen st)"
| user_up: "loginStep st (st\<lparr>lhRunning := True, lhFresh := lhFresh st + 1\<rparr>)"
| user_recorded: "lhFresh st \<noteq> 0 \<Longrightarrow> loginStep st (tunnelStarted (st\<lparr>lhFresh := lhFresh st - 1\<rparr>))"
| down: "loginStep st (st\<lparr>lhRunning := False\<rparr>)"

inductive loginReach :: "loginState \<Rightarrow> bool" where
  init: "loginReach noLogins"
| step: "loginReach st \<Longrightarrow> loginStep st st' \<Longrightarrow> loginReach st'"

section \<open>Stopping idle tunnels\<close>

text \<open>
  \<open>lfArmed\<close>: timers that run; \<open>lfFired\<close>: whose callback waits for the lock; \<open>lfStopping\<close>: callbacks that
  found the profile unused and will stop its tunnel; \<open>lfOwed\<close>: tunnels that came up and whose short hold is not placed yet.
\<close>

record lifeState =
  lfSess :: "string \<rightharpoonup> string"
  lfTimers :: "string \<rightharpoonup> nat"
  lfArmed :: "(nat \<times> string) set"
  lfFired :: "(nat \<times> string) set"
  lfStopping :: "string multiset"
  lfUp :: "string set"
  lfOwed :: "string multiset"
  lfKept :: "string set" \<comment> \<open>when last looked at, its setting was never to stop\<close>
  lfNext :: nat

definition noTunnels :: lifeState where
  "noTunnels = \<lparr>lfSess = Map.empty, lfTimers = Map.empty, lfArmed = {}, lfFired = {}, lfStopping = {#}, lfUp = {}, lfOwed = {#}, lfKept = {}, lfNext = 0\<rparr>"

definition inUse :: "lifeState \<Rightarrow> string \<Rightarrow> bool" where
  "inUse st pid \<longleftrightarrow> pid \<in> ran (lfSess st)"

definition cancelTimer :: "string \<Rightarrow> lifeState \<Rightarrow> lifeState" where
  "cancelTimer pid st =
     (case lfTimers st pid of None \<Rightarrow> st
      | Some t \<Rightarrow> st\<lparr>lfArmed := lfArmed st - {(t, pid)}, lfTimers := (lfTimers st)(pid := None)\<rparr>)"

definition wgAcquire :: "string \<Rightarrow> string \<Rightarrow> lifeState \<Rightarrow> lifeState" where
  "wgAcquire pid key st = cancelTimer pid (st\<lparr>lfSess := (lfSess st)(key \<mapsto> pid)\<rparr>)"

definition scheduleIdleStop :: "bool \<Rightarrow> string \<Rightarrow> lifeState \<Rightarrow> lifeState" where
  "scheduleIdleStop never pid st =
     (let st1 = cancelTimer pid st
      in if never then st1\<lparr>lfKept := insert pid (lfKept st1)\<rparr>
         else st1\<lparr>lfTimers := (lfTimers st1)(pid \<mapsto> lfNext st1), lfArmed := insert (lfNext st1, pid) (lfArmed st1),
                 lfKept := lfKept st1 - {pid}, lfNext := lfNext st1 + 1\<rparr>)"

definition wgRelease :: "bool \<Rightarrow> string \<Rightarrow> lifeState \<Rightarrow> lifeState" where
  "wgRelease never key st =
     (case lfSess st key of None \<Rightarrow> st
      | Some pid \<Rightarrow>
          (let st1 = st\<lparr>lfSess := (lfSess st)(key := None)\<rparr>
           in if inUse st1 pid then st1 else scheduleIdleStop never pid st1))"

definition rearmIdleStop :: "bool \<Rightarrow> string \<Rightarrow> lifeState \<Rightarrow> lifeState" where
  "rearmIdleStop never pid st = (if pid \<notin> lfUp st \<or> inUse st pid then st else scheduleIdleStop never pid st)"

definition timerCallback :: "nat \<Rightarrow> string \<Rightarrow> lifeState \<Rightarrow> lifeState" where
  "timerCallback t pid st =
     (let st1 = st\<lparr>lfFired := lfFired st - {(t, pid)}, lfTimers := (lfTimers st)(pid := None)\<rparr>
      in if inUse st1 pid then st1 else st1\<lparr>lfStopping := add_mset pid (lfStopping st1)\<rparr>)"

text \<open>A key is of one session or one short hold: no other profile holds by it.\<close>

inductive lifeStep :: "lifeState \<Rightarrow> lifeState \<Rightarrow> bool" where
  starts: "lifeStep st (st\<lparr>lfUp := insert pid (lfUp st), lfOwed := add_mset pid (lfOwed st)\<rparr>)"
| touch: "pid \<in># lfOwed st \<Longrightarrow> lfSess st key \<in> {None, Some pid} \<Longrightarrow> lifeStep st (wgAcquire pid key (st\<lparr>lfOwed := lfOwed st - {#pid#}\<rparr>))"
| acquire: "lfSess st key \<in> {None, Some pid} \<Longrightarrow> lifeStep st (wgAcquire pid key st)"
| release: "lifeStep st (wgRelease never key st)"
| rearm: "lifeStep st (rearmIdleStop never pid st)"
| fires: "(t, pid) \<in> lfArmed st \<Longrightarrow> lifeStep st (st\<lparr>lfArmed := lfArmed st - {(t, pid)}, lfFired := insert (t, pid) (lfFired st)\<rparr>)"
| callback: "(t, pid) \<in> lfFired st \<Longrightarrow> lifeStep st (timerCallback t pid st)"
| idleStop: "pid \<in># lfStopping st \<Longrightarrow> lifeStep st (st\<lparr>lfStopping := lfStopping st - {#pid#}, lfUp := lfUp st - {pid}\<rparr>)"
| stopped: "lifeStep st (st\<lparr>lfUp := lfUp st - {pid}\<rparr>)"

inductive lifeReach :: "lifeState \<Rightarrow> bool" where
  init: "lifeReach noTunnels"
| step: "lifeReach st \<Longrightarrow> lifeStep st st' \<Longrightarrow> lifeReach st'"

section \<open>The policy is kept\<close>


section \<open>One failed login\<close>

definition phaseOk :: "loginState \<Rightarrow> nat \<Rightarrow> bool" where
  "phaseOk st c \<longleftrightarrow>
     (case lhPhase st c of Inside g b \<Rightarrow> lhLock st = Some c \<and> g \<le> lhUps st \<and> (b \<and> g = lhUps st \<longrightarrow> lhFails st = 0)
       | Failed g b \<Rightarrow> lhLock st = Some c \<and> g \<le> lhUps st | _ \<Rightarrow> lhLock st \<noteq> Some c)"

definition loginInv :: "loginState \<Rightarrow> bool" where
  "loginInv st \<longleftrightarrow> (\<forall>c. phaseOk st c) \<and> lhFails st \<le> 1 \<and> (lhFails st = 0 \<or> lhHeld st \<or> (\<exists>c b. lhPhase st c = Failed (lhUps st) b))"

lemma loginInvI:
  "phaseOk st c \<Longrightarrow> (\<And>d. d \<noteq> c \<Longrightarrow> phaseOk st d) \<Longrightarrow> lhFails st \<le> 1 \<Longrightarrow> lhFails st = 0 \<or> lhHeld st \<or> (\<exists>c b. lhPhase st c = Failed (lhUps st) b) \<Longrightarrow> loginInv st"
  unfolding loginInv_def by metis

lemma loginInv_phase:
  assumes "loginInv st"
  shows "lhPhase st c = Inside g b \<Longrightarrow> lhLock st = Some c \<and> g \<le> lhUps st \<and> (b \<and> g = lhUps st \<longrightarrow> lhFails st = 0)"
    "lhPhase st c = Failed g b \<Longrightarrow> lhLock st = Some c \<and> g \<le> lhUps st"
    "lhPhase st c \<in> {Out, SawUp, Waiting} \<Longrightarrow> lhLock st \<noteq> Some c"
  using assms by (auto simp: loginInv_def phaseOk_def dest: spec [of _ c])

text \<open>A step that changes one client's phase only touches that client, and the lock is its own or free.\<close>

lemma phaseOk_other:
  assumes "phaseOk st d" "lhPhase st' d = lhPhase st d" "lhUps st \<le> lhUps st'" "lhFails st' = 0 \<or> lhFails st' = lhFails st \<and> lhUps st' = lhUps st"
    "lhLock st' = lhLock st \<or> lhLock st \<noteq> Some d \<and> lhLock st' \<noteq> Some d"
  shows "phaseOk st' d"
  using assms by (auto simp: phaseOk_def split: holdPhase.splits)

lemma loginInv_keeps:
  assumes "loginInv st" "phaseOk st' c" "\<And>d. d \<noteq> c \<Longrightarrow> phaseOk st' d"
    "\<And>d g b. lhPhase st d = Failed g b \<Longrightarrow> lhPhase st' d = Failed g b"
    "lhFails st' = 0 \<or> lhFails st' = lhFails st \<and> lhUps st' = lhUps st \<and> lhHeld st' = lhHeld st"
  shows "loginInv st'"
proof (rule loginInvI [OF assms(2,3)])
  have f: "lhFails st \<le> 1" "lhFails st = 0 \<or> lhHeld st \<or> (\<exists>c b. lhPhase st c = Failed (lhUps st) b)" using assms(1) by (simp_all add: loginInv_def)
  show "lhFails st' \<le> 1" using f(1) assms(5) by auto
  show "lhFails st' = 0 \<or> lhHeld st' \<or> (\<exists>c b. lhPhase st' c = Failed (lhUps st') b)" using f(2) assms(4,5) by metis
qed

lemma loginInv_step:
  assumes "loginInv st" "loginStep st st'"
  shows "loginInv st'"
proof -
  have ok: "phaseOk st d" for d using assms(1) by (simp add: loginInv_def)
  have fail: "lhFails st \<le> 1" "lhFails st = 0 \<or> lhHeld st \<or> (\<exists>c b. lhPhase st c = Failed (lhUps st) b)"
    using assms(1) by (simp_all add: loginInv_def)
  note lock = loginInv_phase [OF assms(1)]
  show ?thesis
    using assms(2)
  proof cases
    case (enter c)
    have own: "phaseOk st' c" using enter lock(3) [of c] by (auto simp: proxyEnter_def atPhase_def phaseOk_def)
    have rest: "phaseOk st' d" if "d \<noteq> c" for d using that by (auto intro: phaseOk_other [OF ok] simp: enter proxyEnter_def atPhase_def)
    show ?thesis using enter(2) by (intro loginInv_keeps [OF assms(1) own rest]) (auto simp: enter(1) proxyEnter_def atPhase_def)
  next
    case (rides c b)
    have own: "phaseOk st' c" using rides lock(3) [of c] by (auto simp: tunnelStarted_def atPhase_def phaseOk_def)
    have rest: "phaseOk st' d" if "d \<noteq> c" for d using that by (auto intro: phaseOk_other [OF ok] simp: rides tunnelStarted_def atPhase_def)
    show ?thesis using rides(2) by (intro loginInv_keeps [OF assms(1) own rest]) (auto simp: rides(1) tunnelStarted_def atPhase_def)
  next
    case (locks c)
    have no: "lhPhase st d \<noteq> Failed g b" for d g b using lock(2) [of d g b] locks(3) by auto
    have own: "phaseOk st' c" using locks no fail by (auto simp: proxyLocked_def atPhase_def phaseOk_def)
    have rest: "phaseOk st' d" if "d \<noteq> c" for d using that by (auto intro!: phaseOk_other [OF ok] simp: locks proxyLocked_def atPhase_def)
    show ?thesis using fail no by (intro loginInvI [OF own rest]) (auto simp: locks proxyLocked_def atPhase_def)
  next
    case (up c gen cold)
    have own: "phaseOk st' c" using up by (auto simp: loginUp_def tunnelStarted_def atPhase_def phaseOk_def)
    have rest: "phaseOk st' d" if "d \<noteq> c" for d using that by (auto intro!: phaseOk_other [OF ok] simp: up lock(1) [OF up(2)] loginUp_def tunnelStarted_def atPhase_def)
    show ?thesis by (intro loginInvI [OF own rest]) (auto simp: up loginUp_def tunnelStarted_def)
  next
    case (other c gen cold)
    have own: "phaseOk st' c" using other by (auto simp: loginOther_def atPhase_def phaseOk_def)
    have rest: "phaseOk st' d" if "d \<noteq> c" for d using that by (auto intro!: phaseOk_other [OF ok] simp: other lock(1) [OF other(2)] loginOther_def atPhase_def)
    show ?thesis using other(2) by (intro loginInv_keeps [OF assms(1) own rest]) (auto simp: other(1) loginOther_def atPhase_def)
  next
    case (fails c gen cold)
    note l = lock(1) [OF fails(2)]
    have no: "lhPhase st d \<noteq> Failed g b" for d g b using lock(2) [of d g b] l fails(2) by auto
    have out: "lhLock st = Some d \<longrightarrow> d = c" for d using l by auto
    have own: "phaseOk st' c" using l by (auto simp: fails loginFails_def atPhase_def phaseOk_def)
    have rest: "phaseOk st' d" if "d \<noteq> c" for d
      using that ok [of d] out [of d] by (auto simp: fails loginFails_def atPhase_def phaseOk_def split: holdPhase.splits)
    have "lhFails st' \<le> 1" using l fail(1) by (auto simp: fails loginFails_def atPhase_def)
    moreover have "lhFails st' = 0 \<or> lhHeld st' \<or> (\<exists>c b. lhPhase st' c = Failed (lhUps st') b)"
      using fail(2) no by (auto simp: fails loginFails_def atPhase_def)
    ultimately show ?thesis by (intro loginInvI [OF own rest])
  next
    case (holds c gen cold)
    note l = lock(2) [OF holds(2)]
    have one: "d = c \<and> g = gen" if "lhPhase st d = Failed g b" for d g b using lock(2) [OF that] l that holds(2) by auto
    have own: "phaseOk st' c" using holds by (auto simp: holdAfterLogin_def atPhase_def phaseOk_def)
    have rest: "phaseOk st' d" if "d \<noteq> c" for d using that by (auto intro!: phaseOk_other [OF ok] simp: holds l holdAfterLogin_def atPhase_def)
    show ?thesis using fail one by (intro loginInvI [OF own rest]) (auto simp: holds holdAfterLogin_def atPhase_def)
  next
    case user_up
    have "phaseOk st' d" for d by (rule phaseOk_other [OF ok]) (auto simp: user_up)
    then show ?thesis using fail by (intro loginInvI) (auto simp: user_up)
  next
    case user_recorded
    have "phaseOk st' d" for d by (rule phaseOk_other [OF ok]) (auto simp: user_recorded tunnelStarted_def)
    then show ?thesis by (intro loginInvI) (auto simp: user_recorded tunnelStarted_def)
  next
    case down
    have "phaseOk st' d" for d by (rule phaseOk_other [OF ok]) (auto simp: down)
    then show ?thesis using fail by (intro loginInvI) (auto simp: down)
  qed
qed

lemma loginReach_inv: "loginReach st \<Longrightarrow> loginInv st"
proof (induction rule: loginReach.induct)
  case init
  show ?case by (simp add: loginInv_def phaseOk_def noLogins_def)
next
  case (step st st')
  show ?case by (rule loginInv_step [OF step(3,2)])
qed


definition heldState :: loginState where
  "heldState = holdAfterLogin 0 0 (loginFails 0 0 True (proxyLocked 0 (proxyEnter 0 noLogins)))"

lemma heldState_reach: "loginReach heldState"
proof -
  have "loginReach (proxyEnter 0 noLogins)" by (rule loginReach.step [OF loginReach.init loginStep.enter]) (simp add: noLogins_def)
  then have "loginReach (proxyLocked 0 (proxyEnter 0 noLogins))"
    by (rule loginReach.step [OF _ loginStep.locks]) (simp_all add: proxyEnter_def atPhase_def noLogins_def)
  then have "loginReach (loginFails 0 0 True (proxyLocked 0 (proxyEnter 0 noLogins)))"
    by (rule loginReach.step [OF _ loginStep.fails]) (simp add: proxyLocked_def proxyEnter_def atPhase_def noLogins_def)
  then show ?thesis unfolding heldState_def
    by (rule loginReach.step [OF _ loginStep.holds]) (simp add: loginFails_def atPhase_def)
qed


text \<open>A client that has seen the tunnel up goes on to start it without a look at the hold, also when the tunnel went down meanwhile.\<close>

lemma client_passes_the_hold: "\<exists>st. loginReach st \<and> lhHeld st \<and> \<not> lhRunning st \<and> lhPhase st 1 = SawUp"
proof -
  let ?a = "noLogins\<lparr>lhRunning := True, lhFresh := 1\<rparr>"
  have a: "loginReach ?a" using loginReach.step [OF loginReach.init loginStep.user_up] by (simp add: noLogins_def)
  let ?b = "(proxyEnter 1 ?a)\<lparr>lhRunning := False\<rparr>"
  have "loginReach (proxyEnter 1 ?a)" by (rule loginReach.step [OF a loginStep.enter]) (simp add: noLogins_def)
  then have b: "loginReach ?b" by (rule loginReach.step [OF _ loginStep.down])
  have c: "loginReach (proxyEnter 0 ?b)" by (rule loginReach.step [OF b loginStep.enter]) (simp add: proxyEnter_def atPhase_def noLogins_def)
  have d: "loginReach (proxyLocked 0 (proxyEnter 0 ?b))"
    by (rule loginReach.step [OF c loginStep.locks]) (simp_all add: proxyEnter_def atPhase_def noLogins_def)
  have e: "loginReach (loginFails 0 0 True (proxyLocked 0 (proxyEnter 0 ?b)))"
    by (rule loginReach.step [OF d loginStep.fails]) (simp add: proxyLocked_def proxyEnter_def atPhase_def noLogins_def)
  let ?f = "holdAfterLogin 0 0 (loginFails 0 0 True (proxyLocked 0 (proxyEnter 0 ?b)))"
  have "loginReach ?f" by (rule loginReach.step [OF e loginStep.holds]) (simp add: loginFails_def atPhase_def)
  moreover have "lhHeld ?f \<and> \<not> lhRunning ?f \<and> lhPhase ?f 1 = SawUp"
    by (simp add: holdAfterLogin_def loginFails_def proxyLocked_def proxyEnter_def atPhase_def noLogins_def)
  ultimately show ?thesis by blast
qed

section \<open>No tunnel is left up for nobody\<close>

definition willStop :: "lifeState \<Rightarrow> string \<Rightarrow> bool" where
  "willStop st pid \<longleftrightarrow> (\<exists>t. (t, pid) \<in> lfArmed st \<union> lfFired st) \<or> pid \<in># lfStopping st"

definition lifeInv :: "lifeState \<Rightarrow> bool" where
  "lifeInv st \<longleftrightarrow> (\<forall>pid\<in>lfUp st. inUse st pid \<or> pid \<in># lfOwed st \<or> willStop st pid \<or> pid \<in> lfKept st)"

lemma cancelTimer_facts [simp]:
  "lfSess (cancelTimer pid st) = lfSess st" "lfUp (cancelTimer pid st) = lfUp st" "lfOwed (cancelTimer pid st) = lfOwed st"
  "lfStopping (cancelTimer pid st) = lfStopping st" "lfKept (cancelTimer pid st) = lfKept st" "lfFired (cancelTimer pid st) = lfFired st"
  "lfNext (cancelTimer pid st) = lfNext st"
  by (simp_all add: cancelTimer_def split: option.splits)

lemma cancelTimer_other: "q \<noteq> pid \<Longrightarrow> (t, q) \<in> lfArmed (cancelTimer pid st) \<longleftrightarrow> (t, q) \<in> lfArmed st"
  by (auto simp: cancelTimer_def split: option.splits)

lemma willStop_cancel: "q \<noteq> pid \<Longrightarrow> willStop (cancelTimer pid st) q = willStop st q"
  by (simp add: willStop_def cancelTimer_other)

lemma inUse_cancel [simp]: "inUse (cancelTimer pid st) q = inUse st q"
  by (simp add: inUse_def)

lemma lifeInv_acquire:
  assumes "lfSess st key \<in> {None, Some pid}" "\<forall>q\<in>lfUp st - {pid}. inUse st q \<or> q \<in># lfOwed st \<or> willStop st q \<or> q \<in> lfKept st"
  shows "lifeInv (wgAcquire pid key st)"
  unfolding lifeInv_def
proof
  fix q
  assume q: "q \<in> lfUp (wgAcquire pid key st)"
  have mono: "inUse (st\<lparr>lfSess := (lfSess st)(key \<mapsto> pid)\<rparr>) q" if u: "inUse st q" and n: "q \<noteq> pid"
  proof -
    obtain k where k: "lfSess st k = Some q" using u unfolding inUse_def ran_def by blast
    then have "k \<noteq> key" using assms(1) n by auto
    then show ?thesis using k by (auto simp: inUse_def ran_def)
  qed
  show "inUse (wgAcquire pid key st) q \<or> q \<in># lfOwed (wgAcquire pid key st) \<or> willStop (wgAcquire pid key st) q \<or> q \<in> lfKept (wgAcquire pid key st)"
  proof (cases "q = pid")
    case True
    then show ?thesis by (auto simp: wgAcquire_def inUse_def ran_def)
  next
    case False
    then show ?thesis using q assms(2) mono by (auto simp: wgAcquire_def willStop_cancel) (auto simp: willStop_def)
  qed
qed

lemma lifeInv_schedule:
  assumes "\<forall>q\<in>lfUp st - {pid}. inUse st q \<or> q \<in># lfOwed st \<or> willStop st q \<or> q \<in> lfKept st"
  shows "lifeInv (scheduleIdleStop never pid st)"
  unfolding lifeInv_def
proof
  fix q
  let ?s = "scheduleIdleStop never pid st"
  assume q: "q \<in> lfUp ?s"
  show "inUse ?s q \<or> q \<in># lfOwed ?s \<or> willStop ?s q \<or> q \<in> lfKept ?s"
  proof (cases "q = pid")
    case True
    then show ?thesis by (auto simp: scheduleIdleStop_def Let_def willStop_def)
  next
    case False
    then show ?thesis using q assms
      by (cases never) (auto simp: scheduleIdleStop_def Let_def willStop_def cancelTimer_other inUse_def)
  qed
qed

lemma lifeInv_weaken: "lifeInv st \<Longrightarrow> \<forall>q\<in>lfUp st - {pid}. inUse st q \<or> q \<in># lfOwed st \<or> willStop st q \<or> q \<in> lfKept st"
  by (simp add: lifeInv_def)

lemma lifeInv_step:
  assumes "lifeInv st" "lifeStep st st'"
  shows "lifeInv st'"
  using assms(2)
proof cases
  case (touch pid key)
  have "\<forall>q\<in>lfUp st - {pid}. inUse st q \<or> q \<in># lfOwed st - {#pid#} \<or> willStop st q \<or> q \<in> lfKept st"
    using lifeInv_weaken [OF assms(1)] by (auto simp: in_diff_count)
  then show ?thesis unfolding touch(1) using touch(3) by (intro lifeInv_acquire) (auto simp: inUse_def willStop_def)
next
  case (acquire key pid)
  then show ?thesis using lifeInv_acquire lifeInv_weaken [OF assms(1)] by blast
next
  case (release never key)
  show ?thesis
  proof (cases "lfSess st key")
    case (Some pid)
    let ?s = "st\<lparr>lfSess := (lfSess st)(key := None)\<rparr>"
    have use: "inUse ?s q" if u: "inUse st q" and n: "q \<noteq> pid" for q
    proof -
      obtain k where "lfSess st k = Some q" using u unfolding inUse_def ran_def by blast
      moreover have "k \<noteq> key" using calculation Some n by auto
      ultimately show ?thesis by (auto simp: inUse_def ran_def)
    qed
    have o: "\<forall>q\<in>lfUp ?s - {pid}. inUse ?s q \<or> q \<in># lfOwed ?s \<or> willStop ?s q \<or> q \<in> lfKept ?s"
      using lifeInv_weaken [OF assms(1), of pid] use by (auto simp: willStop_def)
    show ?thesis
    proof (cases "inUse ?s pid")
      case True
      then have "lifeInv ?s" using o by (auto simp: lifeInv_def)
      then show ?thesis using True Some release by (simp add: wgRelease_def Let_def)
    next
      case False
      then show ?thesis using lifeInv_schedule [OF o] Some release by (simp add: wgRelease_def Let_def)
    qed
  qed (use assms(1) release in \<open>simp add: wgRelease_def\<close>)
next
  case (rearm never pid)
  then show ?thesis using assms(1) lifeInv_schedule [OF lifeInv_weaken [OF assms(1)]] by (auto simp: rearmIdleStop_def)
qed (use assms(1) in \<open>fastforce simp: lifeInv_def inUse_def willStop_def timerCallback_def Let_def in_diff_count\<close>)+

lemma lifeReach_inv: "lifeReach st \<Longrightarrow> lifeInv st"
proof (induction rule: lifeReach.induct)
  case init
  show ?case by (simp add: lifeInv_def noTunnels_def)
next
  case (step st st')
  show ?case by (rule lifeInv_step [OF step(3,2)])
qed

text \<open>C6: however connects, disconnects, short holds, timers and changes of the setting interleave, a tunnel that is up is used, or
  about to get its short hold, or its stop is under way, or its setting was to stay up: none is forgotten.\<close>

theorem idle_tunnels_are_stopped:
  assumes "lifeReach st" "pid \<in> lfUp st" "pid \<notin> ran (lfSess st)" "pid \<notin># lfOwed st" "pid \<notin> lfKept st"
  shows "(\<exists>t. (t, pid) \<in> lfArmed st \<union> lfFired st) \<or> pid \<in># lfStopping st"
proof -
  have "lifeInv st" by (rule lifeReach_inv [OF assms(1)])
  then show ?thesis using assms(2-5) by (auto simp: lifeInv_def inUse_def willStop_def)
qed

text \<open>A tunnel that came up, was held by one session and let go.\<close>

definition idleTunnel :: "string \<Rightarrow> lifeState" where
  "idleTunnel k = wgRelease False k (wgAcquire ''p'' k (noTunnels\<lparr>lfUp := {''p''}\<rparr>))"

lemma idleTunnel_is: "idleTunnel k = noTunnels\<lparr>lfUp := {''p''}, lfTimers := [''p'' \<mapsto> 0], lfArmed := {(0, ''p'')}, lfNext := 1\<rparr>"
  by (simp add: idleTunnel_def wgAcquire_def wgRelease_def scheduleIdleStop_def cancelTimer_def inUse_def noTunnels_def Let_def)

lemma idleTunnel_reach: "lifeReach (idleTunnel k)"
proof -
  have "lifeReach (noTunnels\<lparr>lfUp := {''p''}, lfOwed := {#''p''#}\<rparr>)"
    using lifeReach.step [OF lifeReach.init lifeStep.starts [of noTunnels "''p''"]] by (simp add: noTunnels_def)
  then have "lifeReach (wgAcquire ''p'' k (noTunnels\<lparr>lfUp := {''p''}\<rparr>))"
    using lifeReach.step [OF _ lifeStep.touch [of "''p''" "noTunnels\<lparr>lfUp := {''p''}, lfOwed := {#''p''#}\<rparr>" k]] by (simp add: noTunnels_def)
  then show ?thesis unfolding idleTunnel_def by (rule lifeReach.step [OF _ lifeStep.release])
qed

lemma idle_tunnels_are_stopped_witness:
  "(\<exists>t. (t, ''p'') \<in> lfArmed (idleTunnel ''k'') \<union> lfFired (idleTunnel ''k'')) \<or> ''p'' \<in># lfStopping (idleTunnel ''k'')"
  by (rule idle_tunnels_are_stopped [OF idleTunnel_reach]) (simp_all add: idleTunnel_is noTunnels_def)

text \<open>The callback decides under the lock and stops outside it: a session that comes in between loses its tunnel.\<close>

lemma session_loses_its_tunnel: "\<exists>st st'. lifeReach st \<and> inUse st ''p'' \<and> ''p'' \<in> lfUp st \<and> lifeStep st st' \<and> inUse st' ''p'' \<and> ''p'' \<notin> lfUp st'"
proof -
  let ?a = "noTunnels\<lparr>lfUp := {''p''}, lfTimers := [''p'' \<mapsto> 0], lfFired := {(0, ''p'')}, lfNext := 1\<rparr>"
  have a: "lifeReach ?a"
    using lifeReach.step [OF idleTunnel_reach lifeStep.fires [of 0 "''p''"]] by (simp add: idleTunnel_is noTunnels_def)
  let ?b = "noTunnels\<lparr>lfUp := {''p''}, lfStopping := {#''p''#}, lfNext := 1\<rparr>"
  have b: "lifeReach ?b"
    using lifeReach.step [OF a lifeStep.callback [of 0 "''p''"]] by (simp add: timerCallback_def inUse_def noTunnels_def Let_def)
  let ?c = "?b\<lparr>lfSess := [''s'' \<mapsto> ''p'']\<rparr>"
  have c: "lifeReach ?c"
    using lifeReach.step [OF b lifeStep.acquire [of _ "''s''" "''p''"]] by (simp add: wgAcquire_def cancelTimer_def noTunnels_def)
  have "lifeStep ?c (?c\<lparr>lfStopping := {#}, lfUp := {}\<rparr>)"
    using lifeStep.idleStop [of "''p''" ?c] by (simp add: noTunnels_def)
  moreover have "inUse ?c ''p'' \<and> ''p'' \<in> lfUp ?c \<and> inUse (?c\<lparr>lfStopping := {#}, lfUp := {}\<rparr>) ''p'' \<and> ''p'' \<notin> lfUp (?c\<lparr>lfStopping := {#}, lfUp := {}\<rparr>)"
    by (simp add: inUse_def)
  ultimately show ?thesis using c by blast
qed

text \<open>A callback that waited while a session came and went finds the tunnel idle, forgets the newer timer and stops the tunnel, its
  linger just begun.\<close>

lemma late_callback_stops_early: "\<exists>st. lifeReach st \<and> ''p'' \<in># lfStopping st \<and> (1, ''p'') \<in> lfArmed st \<and> lfTimers st ''p'' = None"
proof -
  let ?a = "noTunnels\<lparr>lfUp := {''p''}, lfTimers := [''p'' \<mapsto> 0], lfFired := {(0, ''p'')}, lfNext := 1\<rparr>"
  have a: "lifeReach ?a"
    using lifeReach.step [OF idleTunnel_reach lifeStep.fires [of 0 "''p''"]] by (simp add: idleTunnel_is noTunnels_def)
  let ?b = "?a\<lparr>lfSess := [''s'' \<mapsto> ''p''], lfTimers := Map.empty\<rparr>"
  have b: "lifeReach ?b"
    using lifeReach.step [OF a lifeStep.acquire [of _ "''s''" "''p''"]] by (simp add: wgAcquire_def cancelTimer_def noTunnels_def)
  let ?c = "?a\<lparr>lfTimers := [''p'' \<mapsto> 1], lfArmed := {(1, ''p'')}, lfNext := 2\<rparr>"
  have c: "lifeReach ?c"
    using lifeReach.step [OF b lifeStep.release [of _ False "''s''"]]
    by (simp add: wgRelease_def scheduleIdleStop_def cancelTimer_def inUse_def noTunnels_def Let_def numeral_2_eq_2)
  have "lifeReach (timerCallback 0 ''p'' ?c)" by (rule lifeReach.step [OF c lifeStep.callback]) simp
  moreover have "''p'' \<in># lfStopping (timerCallback 0 ''p'' ?c) \<and> (1, ''p'') \<in> lfArmed (timerCallback 0 ''p'' ?c) \<and> lfTimers (timerCallback 0 ''p'' ?c) ''p'' = None"
    by (simp add: timerCallback_def inUse_def noTunnels_def Let_def)
  ultimately show ?thesis by blast
qed

end
