(* ===== verification/ArchiveStore.thy ===== *)
theory ArchiveStore
  imports PlanStore VaultFile
begin

text \<open>
  The store as an import writes it, \<open>internal/store\<close>: folders, connections, credentials and their folders, icon
  images, inventory folders and port forwards, with the statements \<open>internal/exporter\<close> calls. Foreign keys and
  unique names are enforced, every statement may fail on its own, and a row that was written reads back.
\<close>

section \<open>Rows\<close>

text \<open>A value of a JSON configuration: a text or anything else.\<close>

datatype cfgValue = CfgText string | CfgOther string

record credentialRow =
  crID :: string
  crFolder :: "string option"
  crName :: string
  crKind :: string
  crMode :: string
  crHint :: string
  crTags :: "string list"
  crConfig :: "string \<rightharpoonup> cfgValue"
  crPublicKey :: "string option"
  crVaultKey :: "string option"
  crUser :: "string option"
  crIconImageID :: "string option"
  crIconName :: "string option"
  crIconColor :: "string option"

record credFolderRow =
  cfID :: string
  cfParent :: "string option"
  cfName :: string
  cfIconImageID :: "string option"
  cfIconName :: "string option"
  cfIconColor :: "string option"

record dynFolderRow =
  dfFolder :: string
  dfProvider :: string
  dfConfig :: "string \<rightharpoonup> cfgValue"
  dfRefresh :: int

record imageRow =
  imID :: string
  imHash :: string
  imMIME :: string
  imData :: string

record archiveDb =
  adFolders :: "folder list"
  adConns :: "connection list"
  adCreds :: "credentialRow list"
  adCredFolders :: "credFolderRow list"
  adDyn :: "dynFolderRow list"
  adImages :: "imageRow list"
  adForwards :: "portForward list"
  adVault :: "string \<rightharpoonup> string"
  adTick :: nat \<comment> \<open>statements so far\<close>

text \<open>
  What a run meets: the id the n-th statement draws, whether it succeeds, which of the lists at the start can be
  read, the hash of images, the clock and the cryptography.
\<close>

record archiveEnv =
  aeNewID :: "nat \<Rightarrow> string"
  aeOK :: "nat \<Rightarrow> bool"
  aeRead :: "nat \<Rightarrow> bool"
  aeMd5 :: "string \<Rightarrow> string"
  aeNow :: "64 word"
  aeCrypto :: crypto

datatype dbError = DiskError | EmptyName | NoRow | NoTarget | NameTaken | CyclicTree | WrongForward | NoImage

text \<open>One statement: it fails, or its effect and answer are those of \<open>f\<close>, which may refuse.\<close>

definition statement :: "archiveEnv \<Rightarrow> (string \<Rightarrow> archiveDb \<Rightarrow> dbError + 'a \<times> archiveDb) \<Rightarrow> archiveDb \<Rightarrow> (dbError + 'a) \<times> archiveDb" where
  "statement env f db =
     (let db1 = db\<lparr>adTick := Suc (adTick db)\<rparr>
      in if \<not> aeOK env (adTick db) then (Inl DiskError, db1)
         else case f (aeNewID env (adTick db)) db1 of Inl e \<Rightarrow> (Inl e, db1) | Inr (a, db2) \<Rightarrow> (Inr a, db2))"

section \<open>Folders\<close>

definition CreateFolder :: "archiveEnv \<Rightarrow> newFolder \<Rightarrow> archiveDb \<Rightarrow> (dbError + string) \<times> archiveDb" where
  "CreateFolder env inp db =
     (if nfName inp = [] then (Inl EmptyName, db)
      else statement env (\<lambda>fid db.
        if \<not> refOK (map fID (adFolders db)) (nfParent inp) then Inl NoTarget
        else Inr (fid, db\<lparr>adFolders := adFolders db @ [\<lparr>fID = fid, fParentID = nfParent inp, fName = nfName inp, fSortOrder = 0,
          fSettings = nfSettings inp, fIconImageID = None, fIconName = None, fIconColor = None,
          fCreatedAt = aeNow env, fUpdatedAt = aeNow env\<rparr>]\<rparr>)) db)"

text \<open>Whether the walk up from \<open>cur\<close> meets \<open>moving\<close> or goes on for too long.\<close>

fun checkNoCycle :: "nat \<Rightarrow> folder list \<Rightarrow> string \<Rightarrow> string \<Rightarrow> bool" where
  "checkNoCycle n fs moving cur =
     (if n = 0 \<or> cur = moving then False
      else case find (\<lambda>f. fID f = cur) fs of None \<Rightarrow> True
        | Some f \<Rightarrow> (case fParentID f of None \<Rightarrow> True | Some p \<Rightarrow> checkNoCycle (n - 1) fs moving p))"

declare checkNoCycle.simps [simp del]

definition UpdateFolder :: "archiveEnv \<Rightarrow> string \<Rightarrow> string option \<Rightarrow> inheritableSettings option \<Rightarrow> archiveDb \<Rightarrow> (dbError + unit) \<times> archiveDb" where
  "UpdateFolder env fid name settings db =
     (case find (\<lambda>f. fID f = fid) (adFolders db) of None \<Rightarrow> (Inl NoRow, db)
      | Some f \<Rightarrow>
          if fParentID f \<noteq> None \<and> (fParentID f = Some fid \<or> \<not> checkNoCycle 10000 (adFolders db) fid (the (fParentID f))) then (Inl CyclicTree, db)
          else if valueOr name (fName f) = [] then (Inl EmptyName, db)
          else statement env (\<lambda>_ db. Inr ((), db\<lparr>adFolders := map (\<lambda>g. if fID g = fid
            then g\<lparr>fName := valueOr name (fName f), fSettings := valueOr settings (fSettings f), fUpdatedAt := aeNow env\<rparr> else g) (adFolders db)\<rparr>)) db)"

section \<open>Connections\<close>

record newConn =
  nwFolder :: "string option"
  nwName :: string
  nwHostname :: string
  nwProtocol :: string
  nwShell :: "string option"
  nwOverrides :: inheritableSettings
  nwTags :: "string list"
  nwNotes :: string

definition CreateConnection :: "archiveEnv \<Rightarrow> newConn \<Rightarrow> archiveDb \<Rightarrow> (dbError + string) \<times> archiveDb" where
  "CreateConnection env inp db =
     (if nwName inp = [] then (Inl EmptyName, db)
      else statement env (\<lambda>cid db.
        if \<not> refOK (map fID (adFolders db)) (nwFolder inp) then Inl NoTarget
        else Inr (cid, db\<lparr>adConns := adConns db @ [zeroConnection\<lparr>cID := cid, cFolderID := nwFolder inp, cName := nwName inp,
          cHostname := TrimSpace (nwHostname inp), cProtocol := (if nwProtocol inp = [] then ''ssh'' else nwProtocol inp),
          cLocalShellKind := nwShell inp, cOverrides := nwOverrides inp, cTags := nwTags inp, cNotes := nwNotes inp,
          cCreatedAt := aeNow env, cUpdatedAt := aeNow env\<rparr>]\<rparr>)) db)"

record updateConn =
  ucFolder :: "string option"
  ucName :: "string option"
  ucHostname :: "string option"
  ucProtocol :: "string option"
  ucShell :: "string option"
  ucClearShell :: bool
  ucOverrides :: "inheritableSettings option"
  ucTags :: "string list option"
  ucNotes :: "string option"
  ucFavorite :: "bool option"

definition patchConn :: "archiveEnv \<Rightarrow> updateConn \<Rightarrow> connection \<Rightarrow> connection" where
  "patchConn env u c = c\<lparr>
     cFolderID := (case ucFolder u of Some f \<Rightarrow> Some f | None \<Rightarrow> cFolderID c), cName := valueOr (ucName u) (cName c),
     cHostname := (case ucHostname u of Some h \<Rightarrow> TrimSpace h | None \<Rightarrow> cHostname c),
     cProtocol := (let p = (case ucProtocol u of Some p \<Rightarrow> if p \<noteq> [] then p else cProtocol c | None \<Rightarrow> cProtocol c) in if p = [] then ''ssh'' else p),
     cLocalShellKind := (if ucClearShell u then None else case ucShell u of Some k \<Rightarrow> Some k | None \<Rightarrow> cLocalShellKind c),
     cOverrides := valueOr (ucOverrides u) (cOverrides c), cTags := valueOr (ucTags u) (cTags c), cNotes := valueOr (ucNotes u) (cNotes c),
     cFavorite := valueOr (ucFavorite u) (cFavorite c), cUpdatedAt := aeNow env\<rparr>"

definition UpdateConnection :: "archiveEnv \<Rightarrow> string \<Rightarrow> updateConn \<Rightarrow> archiveDb \<Rightarrow> (dbError + unit) \<times> archiveDb" where
  "UpdateConnection env cid u db =
     (case find (\<lambda>c. cID c = cid) (adConns db) of None \<Rightarrow> (Inl NoRow, db)
      | Some c \<Rightarrow>
          if valueOr (ucName u) (cName c) = [] then (Inl EmptyName, db)
          else statement env (\<lambda>_ db.
            if \<not> refOK (map fID (adFolders db)) (cFolderID (patchConn env u c)) then Inl NoTarget
            else Inr ((), db\<lparr>adConns := map (\<lambda>d. if cID d = cid then patchConn env u d else d) (adConns db)\<rparr>)) db)"

definition SetConnectionPasswordKey :: "archiveEnv \<Rightarrow> string \<Rightarrow> string \<Rightarrow> archiveDb \<Rightarrow> (dbError + unit) \<times> archiveDb" where
  "SetConnectionPasswordKey env cid key = statement env (\<lambda>_ db. Inr ((), db\<lparr>adConns :=
     map (\<lambda>c. if cID c = cid then c\<lparr>cPasswordVaultKey := Some key, cUpdatedAt := aeNow env\<rparr> else c) (adConns db)\<rparr>))"

section \<open>Credentials\<close>

definition CreateCredential :: "archiveEnv \<Rightarrow> (string \<Rightarrow> credentialRow) \<Rightarrow> archiveDb \<Rightarrow> (dbError + string) \<times> archiveDb" where
  "CreateCredential env row db =
     (if TrimSpace (crName (row [])) = [] then (Inl EmptyName, db)
      else statement env (\<lambda>rid db.
        if crName (row rid) \<in> crName ` set (adCreds db) then Inl NameTaken
        else if \<not> refOK (map cfID (adCredFolders db)) (crFolder (row rid)) then Inl NoTarget
        else Inr (rid, db\<lparr>adCreds := adCreds db @ [row rid]\<rparr>)) db)"

definition updCred :: "archiveEnv \<Rightarrow> string \<Rightarrow> (credentialRow \<Rightarrow> credentialRow) \<Rightarrow> archiveDb \<Rightarrow> (dbError + unit) \<times> archiveDb" where
  "updCred env rid g = statement env (\<lambda>_ db. Inr ((), db\<lparr>adCreds := map (\<lambda>c. if crID c = rid then g c else c) (adCreds db)\<rparr>))"

definition SetCredentialVaultKey :: "archiveEnv \<Rightarrow> string \<Rightarrow> string \<Rightarrow> archiveDb \<Rightarrow> (dbError + unit) \<times> archiveDb" where
  "SetCredentialVaultKey env rid key = updCred env rid (\<lambda>c. c\<lparr>crVaultKey := Some key\<rparr>)"

definition CreateCredentialFolder :: "archiveEnv \<Rightarrow> string \<Rightarrow> string option \<Rightarrow> archiveDb \<Rightarrow> (dbError + string) \<times> archiveDb" where
  "CreateCredentialFolder env name parent db =
     (if TrimSpace name = [] then (Inl EmptyName, db)
      else statement env (\<lambda>fid db.
        if \<not> refOK (map cfID (adCredFolders db)) parent then Inl NoTarget
        else Inr (fid, db\<lparr>adCredFolders := adCredFolders db @ [\<lparr>cfID = fid, cfParent = parent, cfName = name,
          cfIconImageID = None, cfIconName = None, cfIconColor = None\<rparr>]\<rparr>)) db)"

text \<open>\<open>storeSecret\<close> of an import: the vault under a key of its own.\<close>

definition storeSecret :: "archiveEnv \<Rightarrow> string \<Rightarrow> string \<Rightarrow> archiveDb \<Rightarrow> (dbError + string) \<times> archiveDb" where
  "storeSecret env rid plain = statement env (\<lambda>_ db. Inr (''imp:'' @ rid, db\<lparr>adVault := (adVault db)(''imp:'' @ rid \<mapsto> plain)\<rparr>))"

section \<open>Icons\<close>

datatype iconOf = FolderIcon string | ConnIcon string | CredIcon string | CredFolderIcon string

text \<open>The statements that set an icon image or a built-in icon differ in the table.\<close>

definition iconUpdate :: "iconOf \<Rightarrow> string option \<Rightarrow> string option \<Rightarrow> string option \<Rightarrow> archiveDb \<Rightarrow> archiveDb" where
  "iconUpdate w img name color db =
     (case w of
        FolderIcon i \<Rightarrow> db\<lparr>adFolders := map (\<lambda>f. if fID f = i then f\<lparr>fIconImageID := img, fIconName := name, fIconColor := color\<rparr> else f) (adFolders db)\<rparr>
      | ConnIcon i \<Rightarrow> db\<lparr>adConns := map (\<lambda>c. if cID c = i then c\<lparr>cIconImageID := img, cIconName := name, cIconColor := color\<rparr> else c) (adConns db)\<rparr>
      | CredIcon i \<Rightarrow> db\<lparr>adCreds := map (\<lambda>c. if crID c = i then c\<lparr>crIconImageID := img, crIconName := name, crIconColor := color\<rparr> else c) (adCreds db)\<rparr>
      | CredFolderIcon i \<Rightarrow> db\<lparr>adCredFolders := map (\<lambda>f. if cfID f = i then f\<lparr>cfIconImageID := img, cfIconName := name, cfIconColor := color\<rparr> else f) (adCredFolders db)\<rparr>)"

definition linkIcon :: "archiveEnv \<Rightarrow> iconOf \<Rightarrow> string \<Rightarrow> archiveDb \<Rightarrow> (dbError + unit) \<times> archiveDb" where
  "linkIcon env w img = statement env (\<lambda>_ db.
     if img \<noteq> [] \<and> img \<notin> imID ` set (adImages db) then Inl NoTarget
     else Inr ((), iconUpdate w (if img \<noteq> [] then Some img else None) None None db))"

definition linkNamedIcon :: "archiveEnv \<Rightarrow> iconOf \<Rightarrow> string \<Rightarrow> string \<Rightarrow> archiveDb \<Rightarrow> (dbError + unit) \<times> archiveDb" where
  "linkNamedIcon env w name color = statement env (\<lambda>_ db. Inr ((), iconUpdate w None (if name \<noteq> [] then Some name else None)
     (if name \<noteq> [] \<and> color \<noteq> [] then Some color else None) db))"

definition PutImage :: "archiveEnv \<Rightarrow> string \<Rightarrow> string \<Rightarrow> archiveDb \<Rightarrow> (dbError + string) \<times> archiveDb" where
  "PutImage env data mime db =
     (if data = [] then (Inl NoImage, db)
      else statement env (\<lambda>iid db.
        case find (\<lambda>i. imHash i = aeMd5 env data) (adImages db) of Some i \<Rightarrow> Inr (imID i, db)
        | None \<Rightarrow> Inr (iid, db\<lparr>adImages := adImages db @ [\<lparr>imID = iid, imHash = aeMd5 env data,
            imMIME = (if mime = [] then ''image/png'' else mime), imData = data\<rparr>]\<rparr>)) db)"

section \<open>Inventory folders and forwards\<close>

definition CreateDynamicFolder :: "archiveEnv \<Rightarrow> dynFolderRow \<Rightarrow> archiveDb \<Rightarrow> (dbError + unit) \<times> archiveDb" where
  "CreateDynamicFolder env row = statement env (\<lambda>_ db.
     if dfFolder row \<in> dfFolder ` set (adDyn db) then Inl NameTaken
     else if dfFolder row \<notin> fID ` set (adFolders db) then Inl NoTarget
     else Inr ((), db\<lparr>adDyn := adDyn db @ [row]\<rparr>))"

definition UpdateDynamicFolder :: "archiveEnv \<Rightarrow> dynFolderRow \<Rightarrow> archiveDb \<Rightarrow> (dbError + unit) \<times> archiveDb" where
  "UpdateDynamicFolder env row = statement env (\<lambda>_ db.
     Inr ((), db\<lparr>adDyn := map (\<lambda>d. if dfFolder d = dfFolder row then row else d) (adDyn db)\<rparr>))"

definition CreatePortForward :: "archiveEnv \<Rightarrow> newPortForward \<Rightarrow> archiveDb \<Rightarrow> (dbError + string) \<times> archiveDb" where
  "CreatePortForward env inp db =
     (if npKind inp \<notin> {''local'', ''remote'', ''dynamic''} \<or> npConn inp = [] \<or>
         (npKind inp \<noteq> ''dynamic'' \<and> (npRemoteHost inp = None \<or> npRemotePort inp = None)) then (Inl WrongForward, db)
      else statement env (\<lambda>pid db.
        if npConn inp \<notin> cID ` set (adConns db) then Inl NoTarget
        else Inr (pid, db\<lparr>adForwards := adForwards db @ [\<lparr>pfID = pid, pfConn = npConn inp, pfKind = npKind inp, pfLocalAddr = npLocalAddr inp,
          pfLocalPort = npLocalPort inp, pfRemoteHost = npRemoteHost inp, pfRemotePort = npRemotePort inp,
          pfAutoStart = npAutoStart inp, pfDesc = npDesc inp, pfBookmarks = []\<rparr>]\<rparr>)) db)"

definition SetPortForwardBookmarks :: "archiveEnv \<Rightarrow> string \<Rightarrow> (string \<times> string) list \<Rightarrow> archiveDb \<Rightarrow> (dbError + unit) \<times> archiveDb" where
  "SetPortForwardBookmarks env pid bs = statement env (\<lambda>_ db.
     if pid \<notin> pfID ` set (adForwards db) then Inl NoRow
     else Inr ((), db\<lparr>adForwards := map (\<lambda>p. if pfID p = pid then p\<lparr>pfBookmarks := bs\<rparr> else p) (adForwards db)\<rparr>))"

end
