(* ===== verification/ArchiveImport.thy ===== *)
theory ArchiveImport
  imports ArchiveStore ProxyRoutes
begin

text \<open>
  Importing an archive, \<open>Apply\<close> of \<open>internal/exporter/importer.go\<close>: icons, credential folders, credentials with
  their secrets, folders, connections, jump host references, connection passwords and port forwards, in this order,
  each pass over the state the one before left. A failed statement is a warning and the import goes on.
\<close>

section \<open>Archives\<close>

text \<open>Credentials and their folders, and port forwards, are archived as their rows, without the vault key.\<close>

record archiveFolder =
  afID :: string
  afParent :: "string option"
  afName :: string
  afIconImageID :: "string option"
  afIconName :: "string option"
  afIconColor :: "string option"
  afSettings :: inheritableSettings
  afDynamic :: "dynFolderRow option"

record archiveConn =
  acID :: string
  acFolder :: "string option"
  acName :: string
  acHostname :: string
  acProtocol :: string
  acShell :: "string option"
  acOverrides :: inheritableSettings
  acTags :: "string list"
  acNotes :: string
  acFavorite :: bool
  acIconImageID :: "string option"
  acIconName :: "string option"
  acIconColor :: "string option"

record archiveImage =
  aiID :: string
  aiMIME :: string
  aiB64 :: string

record secretBlock =
  sbSalt :: string
  sbMemory :: "32 word"
  sbIterations :: "32 word"
  sbParallel :: "8 word"
  sbCipherBy :: "string \<rightharpoonup> string"
  sbConnCipherBy :: "(string \<times> string) list"

record archive =
  arVersion :: int
  arFolders :: "archiveFolder list"
  arConns :: "archiveConn list"
  arCreds :: "credentialRow list"
  arCredFolders :: "credFolderRow list"
  arImages :: "archiveImage list"
  arForwards :: "portForward list"
  arSecrets :: "secretBlock option"

definition dynCredConfigKeys :: "string list" where
  "dynCredConfigKeys = [''api_token_credential_id'', ''jump_credential_id'', ''override_credential_id'']"

text \<open>What \<open>Decode\<close> looks at before it parses: the text after leading comment lines, and whether it is JSON.\<close>

definition isSpaceA :: "char \<Rightarrow> bool" where
  "isSpaceA c \<longleftrightarrow> c \<in> {CHR '' '', CHR 0x09, CHR 0x0A, CHR 0x0D}"

function skipLeadingComments :: "string \<Rightarrow> string" where
  "skipLeadingComments text =
     (case dropWhile isSpaceA text of
        [] \<Rightarrow> []
      | c # rest \<Rightarrow> if c \<noteq> CHR ''#'' then c # rest
          else case dropWhile (\<lambda>c. c \<noteq> CHR 0x0A) rest of [] \<Rightarrow> [] | _ # tail \<Rightarrow> skipLeadingComments tail)"
  by auto
termination
proof (relation "measure length")
  fix s c rest d tail
  assume "dropWhile isSpaceA s = c # rest" "dropWhile (\<lambda>c. c \<noteq> CHR 0x0A) rest = d # tail"
  then have "length (c # rest) \<le> length s" "length (d # tail) \<le> length rest" by (metis length_dropWhile_le)+
  then show "(tail, s) \<in> measure length" by simp
qed simp

declare skipLeadingComments.simps [simp del]

text \<open>The two parsers are arguments; the version is checked after either.\<close>

datatype decodeError = ParseFailed | NoVersion | NewerVersion int

definition currentSchemaVersion :: int where "currentSchemaVersion = 1"

definition DecodeArchive :: "(string \<Rightarrow> archive option) \<Rightarrow> (string \<Rightarrow> archive option) \<Rightarrow> string \<Rightarrow> decodeError + archive" where
  "DecodeArchive json toml s =
     (let t = skipLeadingComments s
      in case (if HasPrefix t ''{'' then json t else toml s) of None \<Rightarrow> Inl ParseFailed
        | Some arc \<Rightarrow> if arVersion arc = 0 then Inl NoVersion
            else if arVersion arc > currentSchemaVersion then Inl (NewerVersion (arVersion arc)) else Inr arc)"

section \<open>Options and summary\<close>

text \<open>Any other mode than the three known ones creates rows under their names.\<close>

datatype conflictMode = ConflictSkip | ConflictRename | ConflictOverwrite | ConflictOther

record importOptions =
  ioConflict :: conflictMode
  ioDryRun :: bool
  ioPassphrase :: string
  ioTarget :: string

text \<open>A failed statement, something the archive lacks, a secret without a passphrase, the dropped references.\<close>

datatype importWarning = Failed string string | Lacks string string | NoPassphrase string | DroppedRefs nat

record importSummary =
  suFoldersCreated :: "string list"
  suFoldersUpdated :: "string list"
  suFoldersSkipped :: "string list"
  suConnsCreated :: "string list"
  suConnsUpdated :: "string list"
  suConnsSkipped :: "string list"
  suCredsCreated :: "string list"
  suCredsSkipped :: "string list"
  suCredFoldersCreated :: "string list"
  suCredFoldersSkipped :: "string list"
  suSecrets :: nat
  suImages :: nat
  suPasswords :: nat
  suForwards :: nat
  suWarnings :: "importWarning list"

definition emptySummary :: importSummary where
  "emptySummary = \<lparr>suFoldersCreated = [], suFoldersUpdated = [], suFoldersSkipped = [], suConnsCreated = [], suConnsUpdated = [],
     suConnsSkipped = [], suCredsCreated = [], suCredsSkipped = [], suCredFoldersCreated = [], suCredFoldersSkipped = [],
     suSecrets = 0, suImages = 0, suPasswords = 0, suForwards = 0, suWarnings = []\<rparr>"

section \<open>Rewriting references\<close>

definition remapFolderID :: "string option \<Rightarrow> (string \<rightharpoonup> string) \<Rightarrow> string option" where
  "remapFolderID old m = (case old of None \<Rightarrow> None | Some i \<Rightarrow> m i)"

definition remapAuth :: "(string \<Rightarrow> string option) \<Rightarrow> string option \<Rightarrow> string option \<times> string list" where
  "remapAuth resolve r = (case r of None \<Rightarrow> (None, []) | Some i \<Rightarrow> (case resolve i of Some n \<Rightarrow> (Some n, []) | None \<Rightarrow> (None, [i])))"

fun remapJumpChain :: "(string \<Rightarrow> string option) \<Rightarrow> jumpHostSpec option \<Rightarrow> jumpHostSpec option \<times> string list" where
  "remapJumpChain resolve None = (None, [])"
| "remapJumpChain resolve (Some (JumpHostSpec h p u a c via n)) =
     (let (a', d1) = remapAuth resolve a; (via', d2) = remapJumpChain resolve via
      in (Some (JumpHostSpec h p u a' c via' n), d1 @ d2))"

definition remapAuthRefInSettings :: "(string \<Rightarrow> string option) \<Rightarrow> inheritableSettings \<Rightarrow> inheritableSettings \<times> string list" where
  "remapAuthRefInSettings resolve s =
     (let (a', d1) = remapAuth resolve (iAuthRef s);
          (j', d2) = (case iJumpHost s of None \<Rightarrow> (None, [])
            | Some o1 \<Rightarrow> (let (ch, d) = remapJumpChain resolve (oChain o1) in (Some (o1\<lparr>oChain := ch\<rparr>), d)))
      in (s\<lparr>iAuthRef := a', iJumpHost := j'\<rparr>, d1 @ d2))"

definition chainHasConnRef :: "jumpHostOverride option \<Rightarrow> bool" where
  "chainHasConnRef j = (case j of None \<Rightarrow> False
     | Some o1 \<Rightarrow> list_ex (\<lambda>h. jConnectionID h \<noteq> None \<and> jConnectionID h \<noteq> Some []) (hopList (oChain o1)))"

fun remapJumpConnRefs :: "(string \<Rightarrow> string \<times> bool) \<Rightarrow> jumpHostSpec option \<Rightarrow> jumpHostSpec option \<times> string list" where
  "remapJumpConnRefs remap None = (None, [])"
| "remapJumpConnRefs remap (Some (JumpHostSpec h p u a c via n)) =
     (let (via', m) = remapJumpConnRefs remap via
      in if c = None \<or> c = Some [] then (Some (JumpHostSpec h p u a c via' n), m)
         else let (i, ok) = remap (the c) in (Some (JumpHostSpec h p u a (Some i) via' n), (if ok then m else the c # m)))"

definition remapDynCredRefs :: "(string \<Rightarrow> cfgValue option) \<Rightarrow> (string \<rightharpoonup> string) \<Rightarrow> (string \<rightharpoonup> cfgValue) \<times> string list" where
  "remapDynCredRefs cfg creds =
     foldl (\<lambda>(out, cleared) key.
       (case out key of
          Some (CfgText i) \<Rightarrow> (if i = [] then (out, cleared)
            else case creds i of Some n \<Rightarrow> (out(key \<mapsto> CfgText n), cleared) | None \<Rightarrow> (out(key := None), cleared @ [key]))
        | _ \<Rightarrow> (out, cleared))) (cfg, []) dynCredConfigKeys"

section \<open>Folders before their children\<close>

text \<open>Depth first over the lists of children; the pending rest of every list is the stack.\<close>

definition keyOf :: "('a \<Rightarrow> string option) \<Rightarrow> 'a \<Rightarrow> string" where
  "keyOf parent f = (case parent f of None \<Rightarrow> [] | Some p \<Rightarrow> p)"

definition byParent :: "('a \<Rightarrow> string option) \<Rightarrow> 'a list \<Rightarrow> string \<Rightarrow> 'a list" where
  "byParent parent fs k = filter (\<lambda>f. keyOf parent f = k) fs"

function visitAll :: "('a \<Rightarrow> string) \<Rightarrow> ('a \<Rightarrow> string option) \<Rightarrow> 'a list \<Rightarrow> 'a list \<Rightarrow> string list \<Rightarrow> 'a list" where
  "visitAll idf parent fs [] visited = []"
| "visitAll idf parent fs (f # todo) visited =
     (if idf f \<in> set visited \<or> idf f \<notin> idf ` set fs then visitAll idf parent fs todo visited
      else f # visitAll idf parent fs (byParent parent fs (idf f) @ todo) (idf f # visited))"
  by pat_completeness auto
termination
proof (relation "measures [\<lambda>(idf, parent, fs, todo, visited). card (idf ` set fs - set visited), \<lambda>(idf, parent, fs, todo, visited). length todo]")
  fix idf :: "'a \<Rightarrow> string" and parent fs f todo visited
  assume "\<not> (idf f \<in> set visited \<or> idf f \<notin> idf ` set fs)"
  then have "idf ` set fs - set (idf f # visited) \<subset> idf ` set fs - set visited" by auto
  then have "card (idf ` set fs - set (idf f # visited)) < card (idf ` set fs - set visited)" by (intro psubset_card_mono) auto
  then show "((idf, parent, fs, byParent parent fs (idf f) @ todo, idf f # visited), idf, parent, fs, f # todo, visited)
      \<in> measures [\<lambda>(idf, parent, fs, todo, visited). card (idf ` set fs - set visited), \<lambda>(idf, parent, fs, todo, visited). length todo]"
    by simp
qed auto

definition parentOf :: "archiveFolder list \<Rightarrow> string \<Rightarrow> string option" where
  "parentOf fs i = (case map_of (rev (map (\<lambda>f. (afID f, afParent f)) fs)) i of None \<Rightarrow> None | Some p \<Rightarrow> p)"

lemma parentOf_Some: "parentOf fs i = Some p \<Longrightarrow> i \<in> afID ` set fs"
  by (auto simp: parentOf_def split: option.splits dest!: map_of_SomeD)

function comesBack :: "archiveFolder list \<Rightarrow> string list \<Rightarrow> string option \<Rightarrow> bool" where
  "comesBack fs seen None = False"
| "comesBack fs seen (Some cur) = (if cur \<in> set seen then True else comesBack fs (cur # seen) (parentOf fs cur))"
  by pat_completeness auto
termination
proof (relation "measure (\<lambda>(fs, seen, cur). case cur of None \<Rightarrow> 0 | Some _ \<Rightarrow> Suc (card (afID ` set fs - set seen)))")
  fix fs seen and cur :: string
  assume "cur \<notin> set seen"
  show "((fs, cur # seen, parentOf fs cur), fs, seen, Some cur)
      \<in> measure (\<lambda>(fs, seen, cur). case cur of None \<Rightarrow> 0 | Some _ \<Rightarrow> Suc (card (afID ` set fs - set seen)))"
  proof (cases "parentOf fs cur")
    case (Some p)
    then have "cur \<in> afID ` set fs" by (rule parentOf_Some)
    then have "card (afID ` set fs - set (cur # seen)) < card (afID ` set fs - set seen)"
      using \<open>cur \<notin> set seen\<close> by (intro psubset_card_mono) auto
    then show ?thesis using Some by simp
  qed simp
qed simp

definition hasCycle :: "string \<Rightarrow> archiveFolder list \<Rightarrow> bool" where
  "hasCycle start fs = comesBack fs [start] (parentOf fs start)"

fun appendRest :: "archiveFolder list \<Rightarrow> archiveFolder list \<Rightarrow> archiveFolder list \<Rightarrow> string + archiveFolder list" where
  "appendRest fs [] out = Inr out"
| "appendRest fs (f # rest) out =
     (if afID f \<in> afID ` set out then appendRest fs rest out
      else if hasCycle (afID f) fs then Inl (afID f)
      else appendRest fs rest (out @ [f]))"

definition topoSortFolders :: "archiveFolder list \<Rightarrow> string + archiveFolder list" where
  "topoSortFolders fs = appendRest fs fs (visitAll afID afParent fs (byParent afParent fs []) [])"

definition topoSortCredFolders :: "credFolderRow list \<Rightarrow> credFolderRow list" where
  "topoSortCredFolders fs =
     (let out = visitAll cfID cfParent fs (byParent cfParent fs []) [] in out @ filter (\<lambda>f. cfID f \<notin> cfID ` set out) fs)"

section \<open>The state of an import\<close>

record importState =
  isDb :: archiveDb
  isSum :: importSummary
  isImages :: "string \<rightharpoonup> string"
  isCredFolders :: "string \<rightharpoonup> string"
  isNamed :: "string \<times> string \<rightharpoonup> string" \<comment> \<open>credential folders by parent and name\<close>
  isCreds :: "string \<rightharpoonup> string"
  isFolders :: "string \<rightharpoonup> string"
  isWritten :: "string list"
  isConns :: "string \<rightharpoonup> string"
  isEligible :: "string list"
  isDropped :: "string list"
  isPanic :: bool \<comment> \<open>the key derivation panicked\<close>

text \<open>The ids of the rows that were there at the start: folders, connections, credentials.\<close>

record existing =
  exFolders :: "string list"
  exConns :: "string list"
  exCreds :: "string list"

definition existingRows :: "archiveEnv \<Rightarrow> archiveDb \<Rightarrow> existing" where
  "existingRows env db = \<lparr>exFolders = (if aeRead env 0 then map fID (adFolders db) else []),
     exConns = (if aeRead env 1 then map cID (adConns db) else []), exCreds = (if aeRead env 2 then map crID (adCreds db) else [])\<rparr>"

definition inSum :: "(importSummary \<Rightarrow> importSummary) \<Rightarrow> importState \<Rightarrow> importState" where
  "inSum g st = st\<lparr>isSum := g (isSum st)\<rparr>"

definition warn :: "importWarning list \<Rightarrow> importState \<Rightarrow> importState" where
  "warn ws = inSum (suWarnings_update (\<lambda>old. old @ ws))"

text \<open>A statement of the store, and one whose failure is only a warning.\<close>

definition inDb :: "(archiveDb \<Rightarrow> (dbError + 'a) \<times> archiveDb) \<Rightarrow> importState \<Rightarrow> (dbError + 'a) \<times> importState" where
  "inDb act st = (let (r, db) = act (isDb st) in (r, st\<lparr>isDb := db\<rparr>))"

definition tryDb :: "string \<Rightarrow> string \<Rightarrow> (archiveDb \<Rightarrow> (dbError + unit) \<times> archiveDb) \<Rightarrow> importState \<Rightarrow> importState" where
  "tryDb what name act st = (case inDb act st of (Inl _, st') \<Rightarrow> warn [Failed what name] st' | (Inr _, st') \<Rightarrow> st')"

definition resolveAuthRef :: "existing \<Rightarrow> importState \<Rightarrow> string \<Rightarrow> string option" where
  "resolveAuthRef ex st i = (case isCreds st i of Some n \<Rightarrow> Some n | None \<Rightarrow> if i \<in> set (exCreds ex) then Some i else None)"

definition noteDropped :: "string list \<Rightarrow> importState \<Rightarrow> importState" where
  "noteDropped ids st = st\<lparr>isDropped := isDropped st @ ids\<rparr>"

definition setIcon :: "archiveEnv \<Rightarrow> importOptions \<Rightarrow> string option \<Rightarrow> iconOf \<Rightarrow> string \<Rightarrow> importState \<Rightarrow> importState" where
  "setIcon env opts old w name st =
     (case old of None \<Rightarrow> st
      | Some i \<Rightarrow> if ioDryRun opts then st
          else case isImages st i of None \<Rightarrow> st | Some n \<Rightarrow> tryDb ''icon link'' name (linkIcon env w n) st)"

definition setNamedIcon :: "archiveEnv \<Rightarrow> importOptions \<Rightarrow> string option \<Rightarrow> string option \<Rightarrow> iconOf \<Rightarrow> string \<Rightarrow> importState \<Rightarrow> importState" where
  "setNamedIcon env opts icon color w name st =
     (if ioDryRun opts \<or> icon = None \<or> icon = Some [] then st
      else tryDb ''named icon'' name (linkNamedIcon env w (the icon) (valueOr color [])) st)"

section \<open>Secrets\<close>

definition decryptBlob :: "archiveEnv \<Rightarrow> string \<Rightarrow> secretBlock \<Rightarrow> string \<Rightarrow> vaultError + string" where
  "decryptBlob env pass block b64 =
     bindr (decodeB64 (sbSalt block)) (\<lambda>salt. bindr (decodeB64 b64) (\<lambda>raw.
     if sbIterations block = 0 \<or> sbParallel block = 0 then Inl Panicked
     else let key = cArgon (aeCrypto env) pass salt (sbIterations block) (sbMemory block) (sbParallel block)
       in bindr (NewX key) (\<lambda>_. if length raw < nonceSize then Inl TooShort
            else aeadOpen (aeCrypto env) key (take nonceSize raw) (drop nonceSize raw))))"

definition DecryptSecret :: "archiveEnv \<Rightarrow> string \<Rightarrow> secretBlock \<Rightarrow> string \<Rightarrow> vaultError + string" where
  "DecryptSecret env pass block credID = (case sbCipherBy block credID of None \<Rightarrow> Inl Corrupt | Some b \<Rightarrow> decryptBlob env pass block b)"

definition DecryptConnPassword :: "archiveEnv \<Rightarrow> string \<Rightarrow> secretBlock \<Rightarrow> string \<Rightarrow> vaultError + string" where
  "DecryptConnPassword env pass block connID =
     (case map_of (sbConnCipherBy block) connID of None \<Rightarrow> Inl Corrupt | Some b \<Rightarrow> decryptBlob env pass block b)"

section \<open>The passes\<close>

definition importImage :: "archiveEnv \<Rightarrow> importOptions \<Rightarrow> archiveImage \<Rightarrow> importState \<Rightarrow> importState" where
  "importImage env opts img st =
     (case b64Decode (aiB64 img) of None \<Rightarrow> warn [Failed ''image data'' (aiID img)] st
      | Some data \<Rightarrow>
          if data = [] then warn [Failed ''image data'' (aiID img)] st
          else if ioDryRun opts then inSum (suImages_update Suc) (st\<lparr>isImages := (isImages st)(aiID img \<mapsto> aiID img)\<rparr>)
          else case inDb (PutImage env data (aiMIME img)) st of
              (Inl _, st1) \<Rightarrow> warn [Failed ''image store'' (aiID img)] st1
            | (Inr n, st1) \<Rightarrow> inSum (suImages_update Suc) (st1\<lparr>isImages := (isImages st1)(aiID img \<mapsto> n)\<rparr>))"

text \<open>\<open>have\<close>: the credential folders there at the start.\<close>

definition importCredFolder :: "archiveEnv \<Rightarrow> importOptions \<Rightarrow> string list \<Rightarrow> credFolderRow \<Rightarrow> importState \<Rightarrow> importState" where
  "importCredFolder env opts have f st =
     (if cfID f \<in> set have
      then inSum (suCredFoldersSkipped_update (\<lambda>l. l @ [cfName f])) (st\<lparr>isCredFolders := (isCredFolders st)(cfID f \<mapsto> cfID f)\<rparr>)
      else let parent = remapFolderID (cfParent f) (isCredFolders st);
             st1 = (if cfParent f \<noteq> None \<and> parent = None then warn [Lacks ''credential folder parent'' (cfName f)] st else st);
             key = (valueOr parent [], cfName f)
        in case isNamed st1 key of
             Some i \<Rightarrow> inSum (suCredFoldersSkipped_update (\<lambda>l. l @ [cfName f])) (st1\<lparr>isCredFolders := (isCredFolders st1)(cfID f \<mapsto> i)\<rparr>)
           | None \<Rightarrow>
               (let st2 = inSum (suCredFoldersCreated_update (\<lambda>l. l @ [cfName f])) st1
                in if ioDryRun opts then st2\<lparr>isCredFolders := (isCredFolders st2)(cfID f \<mapsto> cfID f)\<rparr>
                   else case inDb (CreateCredentialFolder env (cfName f) parent) st2 of
                       (Inl _, st3) \<Rightarrow> warn [Failed ''credential folder create'' (cfName f)] st3
                     | (Inr n, st3) \<Rightarrow>
                         setIcon env opts (cfIconImageID f) (CredFolderIcon n) (cfName f)
                           (setNamedIcon env opts (cfIconName f) (cfIconColor f) (CredFolderIcon n) (cfName f)
                             (st3\<lparr>isCredFolders := (isCredFolders st3)(cfID f \<mapsto> n), isNamed := (isNamed st3)(key \<mapsto> n)\<rparr>))))"

definition restoreSecret :: "archiveEnv \<Rightarrow> importOptions \<Rightarrow> secretBlock option \<Rightarrow> credentialRow \<Rightarrow> string \<Rightarrow> importState \<Rightarrow> importState" where
  "restoreSecret env opts block c n st =
     (case block of None \<Rightarrow> st
      | Some b \<Rightarrow>
          if sbCipherBy b (crID c) = None then st
          else if ioPassphrase opts = [] then warn [NoPassphrase (crName c)] st
          else case DecryptSecret env (ioPassphrase opts) b (crID c) of
              Inl e \<Rightarrow> if e = Panicked then st\<lparr>isPanic := True\<rparr> else warn [Failed ''decrypt'' (crName c)] st
            | Inr plain \<Rightarrow>
                (case inDb (storeSecret env n plain) st of
                    (Inl _, st1) \<Rightarrow> warn [Failed ''vault write'' (crName c)] st1
                  | (Inr key, st1) \<Rightarrow>
                      (case inDb (SetCredentialVaultKey env n key) st1 of
                          (Inl _, st2) \<Rightarrow> warn [Failed ''vault_key link'' (crName c)] st2
                        | (Inr _, st2) \<Rightarrow> inSum (suSecrets_update Suc) st2)))"

definition importCred :: "archiveEnv \<Rightarrow> importOptions \<Rightarrow> existing \<Rightarrow> secretBlock option \<Rightarrow> credentialRow \<Rightarrow> importState \<Rightarrow> importState" where
  "importCred env opts ex block c st =
     (if crID c \<in> set (exCreds ex)
      then inSum (suCredsSkipped_update (\<lambda>l. l @ [crName c])) (st\<lparr>isCreds := (isCreds st)(crID c \<mapsto> crID c)\<rparr>)
      else let st1 = inSum (suCredsCreated_update (\<lambda>l. l @ [crName c])) st
        in if ioDryRun opts then st1\<lparr>isCreds := (isCreds st1)(crID c \<mapsto> crID c)\<rparr>
           else case inDb (CreateCredential env (\<lambda>i. c\<lparr>crID := i, crFolder := remapFolderID (crFolder c) (isCredFolders st1),
                    crVaultKey := None, crIconImageID := None, crIconName := None, crIconColor := None\<rparr>)) st1 of
               (Inl _, st2) \<Rightarrow> warn [Failed ''cred create'' (crName c)] st2
             | (Inr n, st2) \<Rightarrow>
                 restoreSecret env opts block c n
                   (setNamedIcon env opts (crIconName c) (crIconColor c) (CredIcon n) (crName c)
                     (setIcon env opts (crIconImageID c) (CredIcon n) (crName c)
                       (st2\<lparr>isCreds := (isCreds st2)(crID c \<mapsto> n)\<rparr>))))"

section \<open>Folders\<close>

definition dynamicRow :: "archiveFolder \<Rightarrow> dynFolderRow \<Rightarrow> string \<Rightarrow> importState \<Rightarrow> dynFolderRow \<times> importState" where
  "dynamicRow f d fid st =
     (let (cfg, cleared) = remapDynCredRefs (dfConfig d) (isCreds st)
      in (d\<lparr>dfFolder := fid, dfConfig := cfg\<rparr>, warn (map (\<lambda>k. Lacks k (afName f)) cleared) st))"

definition overwriteDynamic :: "archiveEnv \<Rightarrow> archiveFolder \<Rightarrow> importState \<Rightarrow> importState" where
  "overwriteDynamic env f st =
     (case afDynamic f of None \<Rightarrow> st
      | Some d \<Rightarrow>
          (let (row, st1) = dynamicRow f d (afID f) st;
               st2 = st1\<lparr>isDb := (isDb st1)\<lparr>adTick := Suc (adTick (isDb st1))\<rparr>\<rparr>
           in if aeOK env (adTick (isDb st1)) \<and> afID f \<in> dfFolder ` set (adDyn (isDb st1))
              then tryDb ''dynamic config'' (afName f) (UpdateDynamicFolder env row) st2
              else tryDb ''dynamic config'' (afName f) (CreateDynamicFolder env row) st2))"

definition overwriteFolder :: "archiveEnv \<Rightarrow> importOptions \<Rightarrow> existing \<Rightarrow> archiveFolder \<Rightarrow> importState \<Rightarrow> importState" where
  "overwriteFolder env opts ex f st =
     (let st1 = inSum (suFoldersUpdated_update (\<lambda>l. l @ [afName f]))
                  (st\<lparr>isFolders := (isFolders st)(afID f \<mapsto> afID f), isWritten := afID f # isWritten st\<rparr>)
      in if ioDryRun opts then st1
         else let (settings, dropped) = remapAuthRefInSettings (resolveAuthRef ex st1) (afSettings f)
           in overwriteDynamic env f
                (setNamedIcon env opts (afIconName f) (afIconColor f) (FolderIcon (afID f)) (afName f)
                  (setIcon env opts (afIconImageID f) (FolderIcon (afID f)) (afName f)
                    (tryDb ''folder overwrite'' (afName f) (UpdateFolder env (afID f) (Some (afName f)) (Some settings)) (noteDropped dropped st1)))))"

definition createFolder :: "archiveEnv \<Rightarrow> importOptions \<Rightarrow> existing \<Rightarrow> archiveFolder \<Rightarrow> importState \<Rightarrow> importState" where
  "createFolder env opts ex f st =
     (let st1 = inSum (suFoldersCreated_update (\<lambda>l. l @ [afName f])) st;
          parent = remapFolderID (afParent f) (isFolders st1);
          st2 = (if afParent f \<noteq> None \<and> parent = None then warn [Lacks ''folder parent'' (afName f)] st1 else st1);
          target = (if parent = None \<and> ioTarget opts \<noteq> [] then Some (ioTarget opts) else parent);
          (settings, dropped) = remapAuthRefInSettings (resolveAuthRef ex st2) (afSettings f);
          st3 = noteDropped dropped st2
      in if ioDryRun opts then st3\<lparr>isFolders := (isFolders st3)(afID f \<mapsto> afID f)\<rparr>
         else case inDb (CreateFolder env \<lparr>nfParent = target, nfName = afName f, nfSettings = settings\<rparr>) st3 of
             (Inl _, st4) \<Rightarrow> warn [Failed ''folder create'' (afName f)] st4
           | (Inr n, st4) \<Rightarrow>
               (let st5 = setNamedIcon env opts (afIconName f) (afIconColor f) (FolderIcon n) (afName f)
                      (setIcon env opts (afIconImageID f) (FolderIcon n) (afName f)
                        (st4\<lparr>isFolders := (isFolders st4)(afID f \<mapsto> n), isWritten := afID f # isWritten st4\<rparr>))
                in case afDynamic f of None \<Rightarrow> st5
                   | Some d \<Rightarrow> (let (row, st6) = dynamicRow f d n st5 in tryDb ''dynamic config'' (afName f) (CreateDynamicFolder env row) st6)))"

definition imported :: "string \<Rightarrow> string" where
  "imported name = name @ '' (imported)''"

definition importFolder :: "archiveEnv \<Rightarrow> importOptions \<Rightarrow> existing \<Rightarrow> archiveFolder \<Rightarrow> importState \<Rightarrow> importState" where
  "importFolder env opts ex f st =
     (if afID f \<notin> set (exFolders ex) then createFolder env opts ex f st
      else case ioConflict opts of
          ConflictSkip \<Rightarrow> inSum (suFoldersSkipped_update (\<lambda>l. l @ [afName f])) (st\<lparr>isFolders := (isFolders st)(afID f \<mapsto> afID f)\<rparr>)
        | ConflictOverwrite \<Rightarrow> overwriteFolder env opts ex f st
        | ConflictRename \<Rightarrow> createFolder env opts ex (f\<lparr>afName := imported (afName f)\<rparr>) st
        | ConflictOther \<Rightarrow> createFolder env opts ex f st)"

section \<open>Connections\<close>

definition connFolder :: "importOptions \<Rightarrow> string option \<Rightarrow> string option" where
  "connFolder opts fid = (if fid = None \<and> ioTarget opts \<noteq> [] then Some (ioTarget opts) else fid)"

definition noChange :: updateConn where
  "noChange = \<lparr>ucFolder = None, ucName = None, ucHostname = None, ucProtocol = None, ucShell = None, ucClearShell = False,
     ucOverrides = None, ucTags = None, ucNotes = None, ucFavorite = None\<rparr>"

definition overwriteConn :: "archiveEnv \<Rightarrow> importOptions \<Rightarrow> existing \<Rightarrow> archiveConn \<Rightarrow> importState \<Rightarrow> importState" where
  "overwriteConn env opts ex c st =
     (let st1 = inSum (suConnsUpdated_update (\<lambda>l. l @ [acName c])) (st\<lparr>isEligible := acID c # isEligible st\<rparr>);
          st2 = (if ioDryRun opts then st1
            else let (overrides, dropped) = remapAuthRefInSettings (resolveAuthRef ex st1) (acOverrides c)
              in setNamedIcon env opts (acIconName c) (acIconColor c) (ConnIcon (acID c)) (acName c)
                  (setIcon env opts (acIconImageID c) (ConnIcon (acID c)) (acName c)
                    (tryDb ''conn overwrite'' (acName c) (UpdateConnection env (acID c)
                      \<lparr>ucFolder = connFolder opts (remapFolderID (acFolder c) (isFolders st1)), ucName = Some (acName c), ucHostname = Some (acHostname c),
                       ucProtocol = Some (acProtocol c), ucShell = acShell c, ucClearShell = (acShell c = None), ucOverrides = Some overrides,
                       ucTags = Some (acTags c), ucNotes = Some (acNotes c), ucFavorite = Some (acFavorite c)\<rparr>) (noteDropped dropped st1))))
      in st2\<lparr>isConns := (isConns st2)(acID c \<mapsto> acID c)\<rparr>)"

definition createConn :: "archiveEnv \<Rightarrow> importOptions \<Rightarrow> existing \<Rightarrow> archiveConn \<Rightarrow> importState \<Rightarrow> importState" where
  "createConn env opts ex c st =
     (let st1 = inSum (suConnsCreated_update (\<lambda>l. l @ [acName c])) (st\<lparr>isEligible := acID c # isEligible st\<rparr>)
      in if ioDryRun opts then st1\<lparr>isConns := (isConns st1)(acID c \<mapsto> acID c)\<rparr>
         else let fid = remapFolderID (acFolder c) (isFolders st1);
                st2 = (if acFolder c \<noteq> None \<and> fid = None then warn [Lacks ''conn folder'' (acName c)] st1 else st1);
                (overrides, dropped) = remapAuthRefInSettings (resolveAuthRef ex st2) (acOverrides c)
           in case inDb (CreateConnection env \<lparr>nwFolder = connFolder opts fid, nwName = acName c, nwHostname = acHostname c, nwProtocol = acProtocol c,
                  nwShell = acShell c, nwOverrides = overrides, nwTags = acTags c, nwNotes = acNotes c\<rparr>) (noteDropped dropped st2) of
               (Inl _, st3) \<Rightarrow> warn [Failed ''conn create'' (acName c)] st3
             | (Inr n, st3) \<Rightarrow>
                 setNamedIcon env opts (acIconName c) (acIconColor c) (ConnIcon n) (acName c)
                   (setIcon env opts (acIconImageID c) (ConnIcon n) (acName c)
                     (st3\<lparr>isConns := (isConns st3)(acID c \<mapsto> n)\<rparr>)))"

definition importConn :: "archiveEnv \<Rightarrow> importOptions \<Rightarrow> existing \<Rightarrow> archiveConn \<Rightarrow> importState \<Rightarrow> importState" where
  "importConn env opts ex c st =
     (if acID c \<notin> set (exConns ex) then createConn env opts ex c st
      else case ioConflict opts of
          ConflictSkip \<Rightarrow> inSum (suConnsSkipped_update (\<lambda>l. l @ [acName c])) (st\<lparr>isConns := (isConns st)(acID c \<mapsto> acID c)\<rparr>)
        | ConflictOverwrite \<Rightarrow> overwriteConn env opts ex c st
        | ConflictRename \<Rightarrow> createConn env opts ex (c\<lparr>acName := imported (acName c)\<rparr>) st
        | ConflictOther \<Rightarrow> createConn env opts ex c st)"

section \<open>Jump hosts, passwords, forwards\<close>

definition remapRef :: "existing \<Rightarrow> importState \<Rightarrow> string \<Rightarrow> string \<times> bool" where
  "remapRef ex st i =
     (case ParseDynRef i of
        Some (fid, ext) \<Rightarrow> (case isFolders st fid of Some nf \<Rightarrow> (DynRef nf ext, True) | None \<Rightarrow> (i, fid \<in> set (exFolders ex)))
      | None \<Rightarrow> (case isConns st i of Some n \<Rightarrow> (n, True) | None \<Rightarrow> (i, i \<in> set (exConns ex))))"

text \<open>The settings with their credentials and their jump connections rewritten, and the jump connections that are nowhere.\<close>

definition remapBoth :: "existing \<Rightarrow> importState \<Rightarrow> inheritableSettings \<Rightarrow> inheritableSettings \<times> string list" where
  "remapBoth ex st s0 =
     (let s = fst (remapAuthRefInSettings (resolveAuthRef ex st) s0)
      in case iJumpHost s of None \<Rightarrow> (s, [])
         | Some o1 \<Rightarrow> (let (ch, missing) = remapJumpConnRefs (remapRef ex st) (oChain o1) in (s\<lparr>iJumpHost := Some (o1\<lparr>oChain := ch\<rparr>)\<rparr>, missing)))"

definition folderJumps :: "archiveEnv \<Rightarrow> existing \<Rightarrow> archiveFolder \<Rightarrow> importState \<Rightarrow> importState" where
  "folderJumps env ex f st =
     (if afID f \<notin> set (isWritten st) \<or> \<not> chainHasConnRef (iJumpHost (afSettings f)) then st
      else let (settings, missing) = remapBoth ex st (afSettings f)
        in tryDb ''folder jump host remap'' (afName f) (UpdateFolder env (valueOr (isFolders st (afID f)) []) None (Some settings))
             (warn (map (Lacks ''jump host connection'') missing) st))"

definition connJumps :: "archiveEnv \<Rightarrow> existing \<Rightarrow> archiveConn \<Rightarrow> importState \<Rightarrow> importState" where
  "connJumps env ex c st =
     (case isConns st (acID c) of None \<Rightarrow> st
      | Some n \<Rightarrow>
          if acID c \<notin> set (isEligible st) \<or> \<not> chainHasConnRef (iJumpHost (acOverrides c)) then st
          else let (overrides, missing) = remapBoth ex st (acOverrides c)
            in tryDb ''conn jump host remap'' (acName c) (UpdateConnection env n (noChange\<lparr>ucOverrides := Some overrides\<rparr>))
                 (warn (map (Lacks ''jump host connection'') missing) st))"

definition importPassword :: "archiveEnv \<Rightarrow> importOptions \<Rightarrow> secretBlock \<Rightarrow> string \<Rightarrow> importState \<Rightarrow> importState" where
  "importPassword env opts b old st =
     (if old \<notin> set (isEligible st) then st
      else if ioPassphrase opts = [] then warn [NoPassphrase old] st
      else if ioDryRun opts then inSum (suPasswords_update Suc) st
      else case isConns st old of None \<Rightarrow> st
        | Some n \<Rightarrow>
            (case DecryptConnPassword env (ioPassphrase opts) b old of
                Inl e \<Rightarrow> if e = Panicked then st\<lparr>isPanic := True\<rparr> else warn [Failed ''password decrypt'' old] st
              | Inr plain \<Rightarrow>
                  (case inDb (storeSecret env n plain) st of
                      (Inl _, st1) \<Rightarrow> warn [Failed ''password vault write'' old] st1
                    | (Inr key, st1) \<Rightarrow>
                        (case inDb (SetConnectionPasswordKey env n key) st1 of
                            (Inl _, st2) \<Rightarrow> warn [Failed ''password link'' old] st2
                          | (Inr _, st2) \<Rightarrow> inSum (suPasswords_update Suc) st2))))"

definition importForward :: "archiveEnv \<Rightarrow> importOptions \<Rightarrow> portForward \<Rightarrow> importState \<Rightarrow> importState" where
  "importForward env opts f st =
     (case isConns st (pfConn f) of None \<Rightarrow> warn [Lacks ''forward connection'' (pfID f)] st
      | Some n \<Rightarrow>
          if ioDryRun opts then inSum (suForwards_update Suc) st
          else case inDb (CreatePortForward env \<lparr>npConn = n, npKind = pfKind f, npLocalAddr = pfLocalAddr f, npLocalPort = pfLocalPort f,
                  npRemoteHost = pfRemoteHost f, npRemotePort = pfRemotePort f, npAutoStart = pfAutoStart f, npDesc = pfDesc f\<rparr>) st of
              (Inl _, st1) \<Rightarrow> warn [Failed ''forward'' (pfConn f)] st1
            | (Inr p, st1) \<Rightarrow> inSum (suForwards_update Suc)
                (if pfBookmarks f = [] then st1 else tryDb ''forward bookmarks'' (pfConn f) (SetPortForwardBookmarks env p (pfBookmarks f)) st1))"

section \<open>Apply\<close>

text \<open>Nothing runs after a panic.\<close>

definition alive :: "('a \<Rightarrow> importState \<Rightarrow> importState) \<Rightarrow> importState \<Rightarrow> 'a \<Rightarrow> importState" where
  "alive f st x = (if isPanic st then st else f x st)"

definition pass :: "('a \<Rightarrow> importState \<Rightarrow> importState) \<Rightarrow> 'a list \<Rightarrow> importState \<Rightarrow> importState" where
  "pass f xs st = foldl (alive f) st xs"

definition newImport :: "archiveEnv \<Rightarrow> archiveDb \<Rightarrow> importState" where
  "newImport env db = \<lparr>isDb = db, isSum = emptySummary, isImages = Map.empty, isCredFolders = Map.empty,
     isNamed = foldl (\<lambda>m f. m((valueOr (cfParent f) [], cfName f) \<mapsto> cfID f)) Map.empty (if aeRead env 3 then adCredFolders db else []),
     isCreds = Map.empty, isFolders = Map.empty, isWritten = [], isConns = Map.empty, isEligible = [], isDropped = [], isPanic = False\<rparr>"

definition importSecrets :: "archiveEnv \<Rightarrow> importOptions \<Rightarrow> archiveDb \<Rightarrow> archive \<Rightarrow> importState" where
  "importSecrets env opts db arc =
     pass (importCred env opts (existingRows env db) (arSecrets arc)) (arCreds arc)
       (pass (importCredFolder env opts (if aeRead env 3 then map cfID (adCredFolders db) else [])) (topoSortCredFolders (arCredFolders arc))
         (pass (importImage env opts) (arImages arc) (newImport env db)))"

definition importTree :: "archiveEnv \<Rightarrow> importOptions \<Rightarrow> existing \<Rightarrow> archive \<Rightarrow> archiveFolder list \<Rightarrow> importState \<Rightarrow> importState" where
  "importTree env opts ex arc order st =
     (let st1 = pass (importConn env opts ex) (arConns arc) (pass (importFolder env opts ex) order st)
      in if ioDryRun opts then st1
         else pass (connJumps env ex) (arConns arc) (pass (folderJumps env ex) (arFolders arc) st1))"

definition importRest :: "archiveEnv \<Rightarrow> importOptions \<Rightarrow> archive \<Rightarrow> importState \<Rightarrow> importState" where
  "importRest env opts arc st =
     (let st1 = (case arSecrets arc of None \<Rightarrow> st
            | Some b \<Rightarrow> pass (importPassword env opts b) (sortStrings (map fst (sbConnCipherBy b))) st);
          st2 = pass (importForward env opts) (arForwards arc) st1
      in if isPanic st2 \<or> isDropped st2 = [] then st2 else warn [DroppedRefs (length (remdups (isDropped st2)))] st2)"

datatype importResult = ImportPanicked | FolderCycle string | Imported importSummary

definition Apply :: "archiveEnv \<Rightarrow> importOptions \<Rightarrow> archive \<Rightarrow> archiveDb \<Rightarrow> importResult \<times> archiveDb" where
  "Apply env opts arc db =
     (let st = importSecrets env opts db arc
      in if isPanic st then (ImportPanicked, isDb st)
         else case topoSortFolders (arFolders arc) of
             Inl f \<Rightarrow> (FolderCycle f, isDb st)
           | Inr order \<Rightarrow>
               (let st1 = importRest env opts arc (importTree env opts (existingRows env db) arc order st)
                in (if isPanic st1 then ImportPanicked else Imported (isSum st1), isDb st1)))"

section \<open>An example\<close>

text \<open>A store with one folder and one connection, and an archive of a login, two folders, two connections, of which one jumps
  over the other, a password and a forward. The cryptography of the example hides nothing.\<close>

definition exEnv :: archiveEnv where
  "exEnv = \<lparr>aeNewID = (\<lambda>n. ''new-'' @ replicate n (CHR ''i'')), aeOK = (\<lambda>_. True), aeRead = (\<lambda>_. True), aeMd5 = (\<lambda>s. s), aeNow = 0,
     aeCrypto = \<lparr>cSeal = (\<lambda>_ _ p. p), cOpen = (\<lambda>_ _ c. Some c), cArgon = (\<lambda>_ _ _ _ _. replicate 32 (CHR ''k'')), cRand = (\<lambda>_ n. replicate n (CHR ''r''))\<rparr>\<rparr>"

definition exFolder :: "string \<Rightarrow> string option \<Rightarrow> archiveFolder" where
  "exFolder i p = \<lparr>afID = i, afParent = p, afName = i, afIconImageID = None, afIconName = None, afIconColor = None,
     afSettings = noSettings\<lparr>iAuthRef := Some ''login''\<rparr>, afDynamic = None\<rparr>"

definition exConn :: "string \<Rightarrow> string option \<Rightarrow> inheritableSettings \<Rightarrow> archiveConn" where
  "exConn i f s = \<lparr>acID = i, acFolder = f, acName = i, acHostname = ''host'', acProtocol = ''ssh'', acShell = None, acOverrides = s,
     acTags = [], acNotes = [], acFavorite = False, acIconImageID = None, acIconName = None, acIconColor = None\<rparr>"

definition exArchive :: archive where
  "exArchive = \<lparr>arVersion = 1, arFolders = [exFolder ''inner'' (Some ''outer''), exFolder ''outer'' None],
     arConns = [exConn ''web'' (Some ''inner'') (noSettings\<lparr>iJumpHost := Some \<lparr>oKind = ''chain'',
         oChain = Some (JumpHostSpec [] None None None (Some ''bastion'') None [])\<rparr>\<rparr>),
       exConn ''bastion'' (Some ''outer'') noSettings],
     arCreds = [\<lparr>crID = ''login'', crFolder = None, crName = ''login'', crKind = ''password'', crMode = ''stored'', crHint = [], crTags = [],
       crConfig = Map.empty, crPublicKey = None, crVaultKey = None, crUser = None, crIconImageID = None, crIconName = None, crIconColor = None\<rparr>],
     arCredFolders = [], arImages = [],
     arForwards = [\<lparr>pfID = ''p'', pfConn = ''web'', pfKind = ''local'', pfLocalAddr = None, pfLocalPort = Some 8080, pfRemoteHost = Some ''db'',
       pfRemotePort = Some 5432, pfAutoStart = False, pfDesc = [], pfBookmarks = []\<rparr>],
     arSecrets = Some \<lparr>sbSalt = [], sbMemory = 65536, sbIterations = 3, sbParallel = 4, sbCipherBy = Map.empty,
       sbConnCipherBy = [(''web'', b64Encode (replicate 24 (CHR ''n'') @ ''pw''))]\<rparr>\<rparr>"

definition exDb :: archiveDb where
  "exDb = \<lparr>adFolders = [\<lparr>fID = ''old'', fParentID = None, fName = ''old'', fSortOrder = 0, fSettings = noSettings, fIconImageID = None,
       fIconName = None, fIconColor = None, fCreatedAt = 0, fUpdatedAt = 0\<rparr>],
     adConns = [], adCreds = [], adCredFolders = [], adDyn = [], adImages = [], adForwards = [],
     adVault = Map.empty, adTick = 0\<rparr>"

definition exOpts :: importOptions where
  "exOpts = \<lparr>ioConflict = ConflictSkip, ioDryRun = False, ioPassphrase = ''secret'', ioTarget = []\<rparr>"

end
