(* ===== verification/ArchiveKeeps.thy ===== *)
theory ArchiveKeeps
  imports ArchiveImport
begin

text \<open>
  What an import may do to the store: every statement of \<open>ArchiveImport\<close> is one of the changes below, so a run is a
  sequence of them. From the sequence follow the promises of the conflict modes and that no login dangles.
\<close>

section \<open>Reading the state\<close>

lemma inSum_facts [simp]:
  "isDb (inSum g st) = isDb st" "isImages (inSum g st) = isImages st" "isCredFolders (inSum g st) = isCredFolders st" "isNamed (inSum g st) = isNamed st"
  "isCreds (inSum g st) = isCreds st" "isFolders (inSum g st) = isFolders st" "isWritten (inSum g st) = isWritten st" "isConns (inSum g st) = isConns st"
  "isEligible (inSum g st) = isEligible st" "isPanic (inSum g st) = isPanic st" "isSum (inSum g st) = g (isSum st)"
  by (simp_all add: inSum_def)

lemma warn_facts [simp]:
  "isDb (warn ws st) = isDb st" "isImages (warn ws st) = isImages st" "isCredFolders (warn ws st) = isCredFolders st" "isNamed (warn ws st) = isNamed st"
  "isCreds (warn ws st) = isCreds st" "isFolders (warn ws st) = isFolders st" "isWritten (warn ws st) = isWritten st" "isConns (warn ws st) = isConns st"
  "isEligible (warn ws st) = isEligible st" "isPanic (warn ws st) = isPanic st"
  by (simp_all add: warn_def)

lemma noteDropped_facts [simp]:
  "isDb (noteDropped d st) = isDb st" "isImages (noteDropped d st) = isImages st" "isCredFolders (noteDropped d st) = isCredFolders st"
  "isNamed (noteDropped d st) = isNamed st" "isCreds (noteDropped d st) = isCreds st" "isFolders (noteDropped d st) = isFolders st"
  "isWritten (noteDropped d st) = isWritten st" "isConns (noteDropped d st) = isConns st" "isEligible (noteDropped d st) = isEligible st"
  "isPanic (noteDropped d st) = isPanic st" "isSum (noteDropped d st) = isSum st"
  by (simp_all add: noteDropped_def)

lemma inDb_state: "inDb act st = (r, st') \<Longrightarrow> st' = st\<lparr>isDb := snd (act (isDb st))\<rparr> \<and> r = fst (act (isDb st))"
  by (auto simp: inDb_def split: prod.splits)

text \<open>A statement changes the store of the state and at most its warnings.\<close>

lemma tryDb_facts [simp]:
  "isDb (tryDb what name act st) = snd (act (isDb st))" "isImages (tryDb what name act st) = isImages st"
  "isCredFolders (tryDb what name act st) = isCredFolders st" "isNamed (tryDb what name act st) = isNamed st" "isCreds (tryDb what name act st) = isCreds st"
  "isFolders (tryDb what name act st) = isFolders st" "isWritten (tryDb what name act st) = isWritten st" "isConns (tryDb what name act st) = isConns st"
  "isEligible (tryDb what name act st) = isEligible st" "isPanic (tryDb what name act st) = isPanic st"
  by (simp_all add: tryDb_def inDb_def split: prod.splits sum.splits)

definition iconAct :: "archiveEnv \<Rightarrow> importOptions \<Rightarrow> importState \<Rightarrow> string option \<Rightarrow> iconOf \<Rightarrow> archiveDb \<Rightarrow> archiveDb" where
  "iconAct env opts st old w db =
     (case old of None \<Rightarrow> db | Some i \<Rightarrow> if ioDryRun opts then db else case isImages st i of None \<Rightarrow> db | Some n \<Rightarrow> snd (linkIcon env w n db))"

lemma setIcon_facts [simp]:
  "isDb (setIcon env opts old w name st) = iconAct env opts st old w (isDb st)" "isImages (setIcon env opts old w name st) = isImages st"
  "isCredFolders (setIcon env opts old w name st) = isCredFolders st" "isNamed (setIcon env opts old w name st) = isNamed st"
  "isCreds (setIcon env opts old w name st) = isCreds st" "isFolders (setIcon env opts old w name st) = isFolders st"
  "isWritten (setIcon env opts old w name st) = isWritten st" "isConns (setIcon env opts old w name st) = isConns st"
  "isEligible (setIcon env opts old w name st) = isEligible st" "isPanic (setIcon env opts old w name st) = isPanic st"
  by (simp_all add: setIcon_def iconAct_def split: option.splits)

definition namedAct :: "archiveEnv \<Rightarrow> importOptions \<Rightarrow> string option \<Rightarrow> string option \<Rightarrow> iconOf \<Rightarrow> archiveDb \<Rightarrow> archiveDb" where
  "namedAct env opts icon color w db =
     (if ioDryRun opts \<or> icon = None \<or> icon = Some [] then db else snd (linkNamedIcon env w (the icon) (valueOr color []) db))"

lemma setNamedIcon_facts [simp]:
  "isDb (setNamedIcon env opts icon color w name st) = namedAct env opts icon color w (isDb st)" "isImages (setNamedIcon env opts icon color w name st) = isImages st"
  "isCredFolders (setNamedIcon env opts icon color w name st) = isCredFolders st" "isNamed (setNamedIcon env opts icon color w name st) = isNamed st"
  "isCreds (setNamedIcon env opts icon color w name st) = isCreds st" "isFolders (setNamedIcon env opts icon color w name st) = isFolders st"
  "isWritten (setNamedIcon env opts icon color w name st) = isWritten st" "isConns (setNamedIcon env opts icon color w name st) = isConns st"
  "isEligible (setNamedIcon env opts icon color w name st) = isEligible st" "isPanic (setNamedIcon env opts icon color w name st) = isPanic st"
  by (simp_all add: setNamedIcon_def namedAct_def)

lemma dynamicRow_facts:
  assumes "dynamicRow f d fid st = (row, st')"
  shows "dfFolder row = fid" "isDb st' = isDb st" "isFolders st' = isFolders st" "isWritten st' = isWritten st" "isConns st' = isConns st"
    "isEligible st' = isEligible st" "isCreds st' = isCreds st" "isImages st' = isImages st" "isPanic st' = isPanic st"
  using assms by (auto simp: dynamicRow_def Let_def split: prod.splits)

section \<open>What a statement may change\<close>

text \<open>The credentials a connection or folder logs in with, those of its jump hosts included.\<close>

definition loginRefs :: "inheritableSettings \<Rightarrow> string set" where
  "loginRefs s = set_option (iAuthRef s) \<union> (case iJumpHost s of None \<Rightarrow> {} | Some o1 \<Rightarrow> (\<Union>h\<in>set (hopList (oChain o1)). set_option (jAuthRef h)))"

definition credIDs :: "archiveDb \<Rightarrow> string set" where
  "credIDs db = crID ` set (adCreds db)"

text \<open>
  The changes an import makes, one constructor for each kind of statement: \<open>okF\<close> and \<open>okC\<close> say which folders and
  connections may be changed, all other rows only when the import drew their ids; settings are written with known logins.
\<close>

inductive change :: "archiveEnv \<Rightarrow> (string \<Rightarrow> bool) \<Rightarrow> (string \<Rightarrow> bool) \<Rightarrow> archiveDb \<Rightarrow> archiveDb \<Rightarrow> bool" for env okF okC where
  tick: "change env okF okC db (db\<lparr>adTick := n\<rparr>)"
| add_folder: "fID row \<in> range (aeNewID env) \<Longrightarrow> refOK (map fID (adFolders db)) (fParentID row) \<Longrightarrow> loginRefs (fSettings row) \<subseteq> credIDs db \<Longrightarrow>
    change env okF okC db (db\<lparr>adFolders := adFolders db @ [row]\<rparr>)"
| set_folders: "(\<And>f. fID (g f) = fID f \<and> fParentID (g f) = fParentID f) \<Longrightarrow> (\<And>f. g f = f \<or> okF (fID f)) \<Longrightarrow>
    (\<And>f. fSettings (g f) = fSettings f \<or> loginRefs (fSettings (g f)) \<subseteq> credIDs db) \<Longrightarrow>
    change env okF okC db (db\<lparr>adFolders := map g (adFolders db)\<rparr>)"
| add_conn: "cID row \<in> range (aeNewID env) \<Longrightarrow> refOK (map fID (adFolders db)) (cFolderID row) \<Longrightarrow> loginRefs (cOverrides row) \<subseteq> credIDs db \<Longrightarrow>
    change env okF okC db (db\<lparr>adConns := adConns db @ [row]\<rparr>)"
| set_conns: "(\<And>c. cID (h c) = cID c) \<Longrightarrow> (\<And>c. h c = c \<or> okC (cID c)) \<Longrightarrow>
    (\<And>c. cFolderID (h c) = cFolderID c \<or> refOK (map fID (adFolders db)) (cFolderID (h c))) \<Longrightarrow>
    (\<And>c. cOverrides (h c) = cOverrides c \<or> loginRefs (cOverrides (h c)) \<subseteq> credIDs db) \<Longrightarrow>
    change env okF okC db (db\<lparr>adConns := map h (adConns db)\<rparr>)"
| add_cred: "crID cred \<in> range (aeNewID env) \<Longrightarrow> refOK (map cfID (adCredFolders db)) (crFolder cred) \<Longrightarrow>
    change env okF okC db (db\<lparr>adCreds := adCreds db @ [cred]\<rparr>)"
| set_creds: "(\<And>c. crID (k c) = crID c \<and> crFolder (k c) = crFolder c) \<Longrightarrow> (\<And>c. k c = c \<or> crID c \<in> range (aeNewID env)) \<Longrightarrow>
    change env okF okC db (db\<lparr>adCreds := map k (adCreds db)\<rparr>)"
| add_cred_folder: "cfID cf \<in> range (aeNewID env) \<Longrightarrow> refOK (map cfID (adCredFolders db)) (cfParent cf) \<Longrightarrow>
    change env okF okC db (db\<lparr>adCredFolders := adCredFolders db @ [cf]\<rparr>)"
| set_cred_folders: "(\<And>f. cfID (l f) = cfID f \<and> cfParent (l f) = cfParent f) \<Longrightarrow> (\<And>f. l f = f \<or> cfID f \<in> range (aeNewID env)) \<Longrightarrow>
    change env okF okC db (db\<lparr>adCredFolders := map l (adCredFolders db)\<rparr>)"
| add_image: "change env okF okC db (db\<lparr>adImages := adImages db @ [img]\<rparr>)"
| add_dyn: "dfFolder d \<in> fID ` set (adFolders db) \<Longrightarrow> change env okF okC db (db\<lparr>adDyn := adDyn db @ [d]\<rparr>)"
| set_dyn: "(\<And>d. m d = d \<or> okF (dfFolder d) \<and> dfFolder (m d) = dfFolder d) \<Longrightarrow> change env okF okC db (db\<lparr>adDyn := map m (adDyn db)\<rparr>)"
| add_forward: "pfID p \<in> range (aeNewID env) \<Longrightarrow> pfConn p \<in> cID ` set (adConns db) \<Longrightarrow> change env okF okC db (db\<lparr>adForwards := adForwards db @ [p]\<rparr>)"
| set_forwards: "(\<And>p. pfID (r p) = pfID p \<and> pfConn (r p) = pfConn p) \<Longrightarrow> (\<And>p. r p = p \<or> pfID p \<in> range (aeNewID env)) \<Longrightarrow>
    change env okF okC db (db\<lparr>adForwards := map r (adForwards db)\<rparr>)"
| put_secret: "rid \<in> range (aeNewID env) \<or> okC rid \<Longrightarrow> change env okF okC db (db\<lparr>adVault := (adVault db)(''imp:'' @ rid \<mapsto> plain)\<rparr>)"

abbreviation changes :: "archiveEnv \<Rightarrow> (string \<Rightarrow> bool) \<Rightarrow> (string \<Rightarrow> bool) \<Rightarrow> archiveDb \<Rightarrow> archiveDb \<Rightarrow> bool" where
  "changes env okF okC \<equiv> (change env okF okC)\<^sup>*\<^sup>*"

lemma change_creds: "change env okF okC db db' \<Longrightarrow> credIDs db \<subseteq> credIDs db'"
  by (induction rule: change.induct) (auto simp: credIDs_def image_iff)

lemma changes_creds: "changes env okF okC db db' \<Longrightarrow> credIDs db \<subseteq> credIDs db'"
  by (induction rule: rtranclp_induct) (use change_creds in blast)+

lemma statement_changes:
  assumes "\<And>i db1 a db2. i \<in> range (aeNewID env) \<Longrightarrow> credIDs db1 = credIDs db \<Longrightarrow> f i db1 = Inr (a, db2) \<Longrightarrow> change env okF okC db1 db2"
  shows "changes env okF okC db (snd (statement env f db))"
proof -
  let ?db = "db\<lparr>adTick := Suc (adTick db)\<rparr>"
  have t: "changes env okF okC db ?db" by (rule r_into_rtranclp) (rule change.tick)
  show ?thesis
  proof (cases "f (aeNewID env (adTick db)) ?db")
    case (Inr r)
    then have "change env okF okC ?db (snd r)" using assms [of "aeNewID env (adTick db)" ?db "fst r" "snd r"] by (simp add: credIDs_def)
    then show ?thesis using t Inr by (auto simp: statement_def Let_def prod.case_eq_if intro: rtranclp.rtrancl_into_rtrancl)
  qed (use t in \<open>simp add: statement_def Let_def\<close>)
qed

text \<open>An update of one row by its id.\<close>

lemma set_folder_row:
  assumes "okF i" "\<And>f. fID (g f) = fID f \<and> fParentID (g f) = fParentID f" "\<And>f. fSettings (g f) = fSettings f \<or> loginRefs (fSettings (g f)) \<subseteq> credIDs db"
  shows "change env okF okC db (db\<lparr>adFolders := map (\<lambda>f. if fID f = i then g f else f) (adFolders db)\<rparr>)"
proof (rule change.set_folders)
  fix f
  show "(if fID f = i then g f else f) = f \<or> okF (fID f)" using assms(1) by (cases "fID f = i") simp_all
qed (use assms(2,3) in \<open>simp_all split: if_split\<close>)

lemma set_conn_row:
  assumes "okC i" "\<And>c. cID (g c) = cID c" "\<And>c. cFolderID (g c) = cFolderID c \<or> refOK (map fID (adFolders db)) (cFolderID (g c))"
    "\<And>c. cOverrides (g c) = cOverrides c \<or> loginRefs (cOverrides (g c)) \<subseteq> credIDs db"
  shows "change env okF okC db (db\<lparr>adConns := map (\<lambda>c. if cID c = i then g c else c) (adConns db)\<rparr>)"
proof (rule change.set_conns)
  fix c
  show "(if cID c = i then g c else c) = c \<or> okC (cID c)" using assms(1) by (cases "cID c = i") simp_all
qed (use assms(2-4) in \<open>simp_all split: if_split\<close>)

lemma set_cred_row:
  assumes "i \<in> range (aeNewID env)" "\<And>c. crID (g c) = crID c \<and> crFolder (g c) = crFolder c"
  shows "change env okF okC db (db\<lparr>adCreds := map (\<lambda>c. if crID c = i then g c else c) (adCreds db)\<rparr>)"
proof (rule change.set_creds)
  fix c
  show "(if crID c = i then g c else c) = c \<or> crID c \<in> range (aeNewID env)" using assms(1) by (cases "crID c = i") simp_all
qed (use assms(2) in \<open>simp split: if_split\<close>)

lemma set_cred_folder_row:
  assumes "i \<in> range (aeNewID env)" "\<And>c. cfID (g c) = cfID c \<and> cfParent (g c) = cfParent c"
  shows "change env okF okC db (db\<lparr>adCredFolders := map (\<lambda>c. if cfID c = i then g c else c) (adCredFolders db)\<rparr>)"
proof (rule change.set_cred_folders)
  fix c
  show "(if cfID c = i then g c else c) = c \<or> cfID c \<in> range (aeNewID env)" using assms(1) by (cases "cfID c = i") simp_all
qed (use assms(2) in \<open>simp split: if_split\<close>)

lemma change_refl: "change env okF okC db db"
  using change.tick [of env okF okC db "adTick db"] by simp

lemma CreateFolder_changes:
  assumes "loginRefs (nfSettings inp) \<subseteq> credIDs db"
  shows "changes env okF okC db (snd (CreateFolder env inp db))"
proof -
  have "change env okF okC db1 (db1\<lparr>adFolders := adFolders db1 @ [\<lparr>fID = i, fParentID = nfParent inp, fName = nfName inp, fSortOrder = 0,
          fSettings = nfSettings inp, fIconImageID = None, fIconName = None, fIconColor = None,
          fCreatedAt = aeNow env, fUpdatedAt = aeNow env\<rparr>]\<rparr>)"
    if "i \<in> range (aeNewID env)" "credIDs db1 = credIDs db" "refOK (map fID (adFolders db1)) (nfParent inp)" for i db1
    using that assms by (intro change.add_folder) simp_all
  then show ?thesis by (auto simp: CreateFolder_def intro!: statement_changes split: if_splits)
qed

lemma UpdateFolder_changes:
  assumes "okF fid" "loginRefs s \<subseteq> credIDs db"
  shows "changes env okF okC db (snd (UpdateFolder env fid name (Some s) db))"
proof (cases "find (\<lambda>f. fID f = fid) (adFolders db)")
  case (Some f)
  have "changes env okF okC db (snd (statement env (\<lambda>_ db. Inr ((), db\<lparr>adFolders := map (\<lambda>g. if fID g = fid
      then g\<lparr>fName := valueOr name (fName f), fSettings := s, fUpdatedAt := aeNow env\<rparr> else g) (adFolders db)\<rparr>)) db))"
    using assms by (intro statement_changes) (clarsimp simp: set_folder_row)
  moreover have "snd (UpdateFolder env fid name (Some s) db) \<in> {db, snd (statement env (\<lambda>_ db. Inr ((), db\<lparr>adFolders := map (\<lambda>g. if fID g = fid
      then g\<lparr>fName := valueOr name (fName f), fSettings := s, fUpdatedAt := aeNow env\<rparr> else g) (adFolders db)\<rparr>)) db)}"
    unfolding UpdateFolder_def Some option.case by (simp only: valueOr_simps split: if_split) simp
  ultimately show ?thesis by auto
qed (simp add: UpdateFolder_def)

lemma CreateConnection_changes:
  assumes "loginRefs (nwOverrides inp) \<subseteq> credIDs db"
  shows "changes env okF okC db (snd (CreateConnection env inp db))"
proof -
  have "change env okF okC db1 (db1\<lparr>adConns := adConns db1 @ [zeroConnection\<lparr>cID := i, cFolderID := nwFolder inp, cName := nwName inp,
          cHostname := TrimSpace (nwHostname inp), cProtocol := p,
          cLocalShellKind := nwShell inp, cOverrides := nwOverrides inp, cTags := nwTags inp, cNotes := nwNotes inp,
          cCreatedAt := aeNow env, cUpdatedAt := aeNow env\<rparr>]\<rparr>)"
    if "i \<in> range (aeNewID env)" "credIDs db1 = credIDs db" "refOK (map fID (adFolders db1)) (nwFolder inp)" for i db1 p
    using that assms by (intro change.add_conn) simp_all
  then show ?thesis by (auto simp: CreateConnection_def intro!: statement_changes split: if_splits)
qed

lemma UpdateConnection_changes:
  assumes "okC cid" "case ucOverrides u of None \<Rightarrow> True | Some s \<Rightarrow> loginRefs s \<subseteq> credIDs db"
  shows "changes env okF okC db (snd (UpdateConnection env cid u db))"
proof (cases "find (\<lambda>c. cID c = cid) (adConns db)")
  case (Some c)
  have ref: "cFolderID (patchConn env u d) = cFolderID d \<or> ucFolder u \<noteq> None \<and> cFolderID (patchConn env u d) = cFolderID (patchConn env u c)" for d
    by (simp add: patchConn_def split: option.splits)
  have set: "cOverrides (patchConn env u d) = cOverrides d \<or> loginRefs (cOverrides (patchConn env u d)) \<subseteq> credIDs db" for d
    using assms(2) by (simp add: patchConn_def valueOr_def split: option.splits)
  have "changes env okF okC db (snd (statement env (\<lambda>_ db.
            if \<not> refOK (map fID (adFolders db)) (cFolderID (patchConn env u c)) then Inl NoTarget
            else Inr ((), db\<lparr>adConns := map (\<lambda>d. if cID d = cid then patchConn env u d else d) (adConns db)\<rparr>)) db))"
  proof (intro statement_changes)
    fix i db1 and a :: unit and db2
    assume e: "credIDs db1 = credIDs db" "(if \<not> refOK (map fID (adFolders db1)) (cFolderID (patchConn env u c)) then Inl NoTarget
            else Inr ((), db1\<lparr>adConns := map (\<lambda>d. if cID d = cid then patchConn env u d else d) (adConns db1)\<rparr>)) = Inr (a, db2)"
    then have o: "refOK (map fID (adFolders db1)) (cFolderID (patchConn env u c))"
      "db2 = db1\<lparr>adConns := map (\<lambda>d. if cID d = cid then patchConn env u d else d) (adConns db1)\<rparr>" by (auto split: if_splits)
    show "change env okF okC db1 db2"
      unfolding o(2)
    proof (rule set_conn_row)
      show "okC cid" by (rule assms(1))
      show "cFolderID (patchConn env u d) = cFolderID d \<or> refOK (map fID (adFolders db1)) (cFolderID (patchConn env u d))" for d using ref [of d] o(1) by metis
      show "cOverrides (patchConn env u d) = cOverrides d \<or> loginRefs (cOverrides (patchConn env u d)) \<subseteq> credIDs db1" for d using set e(1) by metis
    qed (simp add: patchConn_def)
  qed
  then show ?thesis using Some by (simp add: UpdateConnection_def)
qed (simp add: UpdateConnection_def)

lemma SetConnectionPasswordKey_changes: "okC cid \<Longrightarrow> changes env okF okC db (snd (SetConnectionPasswordKey env cid key db))"
  unfolding SetConnectionPasswordKey_def by (intro statement_changes) (clarsimp simp: set_conn_row)

lemma CreateCredential_changes:
  assumes "\<And>i. crID (row i) = i" "\<And>i. crFolder (row i) = cf"
  shows "changes env okF okC db (snd (CreateCredential env row db))"
  using assms by (auto simp: CreateCredential_def intro!: statement_changes change.add_cred split: if_splits)

lemma SetCredentialVaultKey_changes: "rid \<in> range (aeNewID env) \<Longrightarrow> changes env okF okC db (snd (SetCredentialVaultKey env rid key db))"
  unfolding SetCredentialVaultKey_def updCred_def by (intro statement_changes) (clarsimp simp: set_cred_row simp del: rangeE)

lemma CreateCredentialFolder_changes: "changes env okF okC db (snd (CreateCredentialFolder env name parent db))"
  by (auto simp: CreateCredentialFolder_def intro!: statement_changes change.add_cred_folder split: if_splits)

lemma storeSecret_changes: "rid \<in> range (aeNewID env) \<or> okC rid \<Longrightarrow> changes env okF okC db (snd (storeSecret env rid plain db))"
  unfolding storeSecret_def by (intro statement_changes) (auto simp del: append.simps intro: change.put_secret)

definition iconAllowed :: "archiveEnv \<Rightarrow> (string \<Rightarrow> bool) \<Rightarrow> (string \<Rightarrow> bool) \<Rightarrow> iconOf \<Rightarrow> bool" where
  "iconAllowed env okF okC w = (case w of FolderIcon i \<Rightarrow> okF i | ConnIcon i \<Rightarrow> okC i | CredIcon i \<Rightarrow> i \<in> range (aeNewID env) | CredFolderIcon i \<Rightarrow> i \<in> range (aeNewID env))"

lemma iconUpdate_change: "iconAllowed env okF okC w \<Longrightarrow> change env okF okC db (iconUpdate w img name color db)"
  unfolding iconUpdate_def iconAllowed_def
  by (cases w) (simp_all add: set_folder_row set_conn_row set_cred_row set_cred_folder_row)

lemma linkIcon_changes: "iconAllowed env okF okC w \<Longrightarrow> changes env okF okC db (snd (linkIcon env w img db))"
  unfolding linkIcon_def by (intro statement_changes) (auto simp: iconUpdate_change split: if_splits)

lemma linkNamedIcon_changes: "iconAllowed env okF okC w \<Longrightarrow> changes env okF okC db (snd (linkNamedIcon env w name color db))"
  unfolding linkNamedIcon_def by (intro statement_changes) (clarsimp simp: iconUpdate_change)

lemma PutImage_changes: "changes env okF okC db (snd (PutImage env data mime db))"
proof -
  have "changes env okF okC db db" by simp
  then have "changes env okF okC db (snd (statement env (\<lambda>iid db.
        case find (\<lambda>i. imHash i = aeMd5 env data) (adImages db) of Some i \<Rightarrow> Inr (imID i, db)
        | None \<Rightarrow> Inr (iid, db\<lparr>adImages := adImages db @ [\<lparr>imID = iid, imHash = aeMd5 env data,
            imMIME = (if mime = [] then ''image/png'' else mime), imData = data\<rparr>]\<rparr>)) db))"
    by (intro statement_changes) (auto split: option.splits intro!: change.add_image change_refl)
  then show ?thesis by (simp add: PutImage_def)
qed

lemma CreateDynamicFolder_changes: "changes env okF okC db (snd (CreateDynamicFolder env row db))"
  unfolding CreateDynamicFolder_def by (intro statement_changes) (auto split: if_splits intro!: change.add_dyn)

lemma UpdateDynamicFolder_changes: "okF (dfFolder row) \<Longrightarrow> changes env okF okC db (snd (UpdateDynamicFolder env row db))"
  unfolding UpdateDynamicFolder_def by (intro statement_changes) (clarsimp, intro change.set_dyn, auto)

lemma CreatePortForward_changes: "changes env okF okC db (snd (CreatePortForward env inp db))"
proof -
  have "change env okF okC db1 (db1\<lparr>adForwards := adForwards db1 @ [\<lparr>pfID = i, pfConn = npConn inp, pfKind = newPortForward.npKind inp, pfLocalAddr = npLocalAddr inp,
          pfLocalPort = npLocalPort inp, pfRemoteHost = npRemoteHost inp, pfRemotePort = npRemotePort inp,
          pfAutoStart = npAutoStart inp, pfDesc = npDesc inp, pfBookmarks = []\<rparr>]\<rparr>)"
    if "i \<in> range (aeNewID env)" "npConn inp \<in> cID ` set (adConns db1)" for i db1
    using that by (intro change.add_forward) simp_all
  then have "changes env okF okC db (snd (statement env (\<lambda>pid db.
        if npConn inp \<notin> cID ` set (adConns db) then Inl NoTarget
        else Inr (pid, db\<lparr>adForwards := adForwards db @ [\<lparr>pfID = pid, pfConn = npConn inp, pfKind = newPortForward.npKind inp, pfLocalAddr = npLocalAddr inp,
          pfLocalPort = npLocalPort inp, pfRemoteHost = npRemoteHost inp, pfRemotePort = npRemotePort inp,
          pfAutoStart = npAutoStart inp, pfDesc = npDesc inp, pfBookmarks = []\<rparr>]\<rparr>)) db))"
    by (intro statement_changes) (auto split: if_splits)
  then show ?thesis unfolding CreatePortForward_def by (split if_split, intro conjI impI, simp, assumption)
qed

lemma SetPortForwardBookmarks_changes:
  assumes "pid \<in> range (aeNewID env)"
  shows "changes env okF okC db (snd (SetPortForwardBookmarks env pid bs db))"
proof -
  have "change env okF okC db1 (db1\<lparr>adForwards := map (\<lambda>p. if pfID p = pid then p\<lparr>pfBookmarks := bs\<rparr> else p) (adForwards db1)\<rparr>)" for db1
    by (rule change.set_forwards) (use assms in simp_all)
  then show ?thesis unfolding SetPortForwardBookmarks_def by (intro statement_changes) (clarsimp split: if_splits)
qed

section \<open>What the passes keep\<close>

text \<open>Rows the import may change: those it made, and any when it overwrites.\<close>

definition allowed :: "archiveEnv \<Rightarrow> importOptions \<Rightarrow> string \<Rightarrow> bool" where
  "allowed env opts i \<longleftrightarrow> ioConflict opts = ConflictOverwrite \<or> i \<in> range (aeNewID env)"

definition importOK :: "archiveEnv \<Rightarrow> importOptions \<Rightarrow> existing \<Rightarrow> importState \<Rightarrow> bool" where
  "importOK env opts ex st \<longleftrightarrow>
     ran (isCreds st) \<subseteq> credIDs (isDb st) \<and> set (exCreds ex) \<subseteq> credIDs (isDb st) \<and>
     (\<forall>i\<in>set (isWritten st). (\<exists>n. isFolders st i = Some n \<and> allowed env opts n) \<and> (ioConflict opts = ConflictSkip \<longrightarrow> i \<notin> set (exFolders ex))) \<and>
     (\<forall>i n. isConns st i = Some n \<longrightarrow> allowed env opts n \<or> ioConflict opts = ConflictSkip \<and> i \<in> set (exConns ex)) \<and>
     (\<forall>i\<in>set (isEligible st). ioConflict opts = ConflictSkip \<longrightarrow> i \<notin> set (exConns ex))"

definition progress :: "archiveEnv \<Rightarrow> importOptions \<Rightarrow> existing \<Rightarrow> importState \<Rightarrow> importState \<Rightarrow> bool" where
  "progress env opts ex st st' \<longleftrightarrow> changes env (allowed env opts) (allowed env opts) (isDb st) (isDb st') \<and> importOK env opts ex st'"

lemma progress_OK: "progress env opts ex st st' \<Longrightarrow> importOK env opts ex st'"
  by (simp add: progress_def)

lemma progress_refl: "importOK env opts ex st \<Longrightarrow> progress env opts ex st st"
  by (simp add: progress_def)

lemma progress_trans: "progress env opts ex st st' \<Longrightarrow> progress env opts ex st' st'' \<Longrightarrow> progress env opts ex st st''"
  by (auto simp: progress_def)

lemma progress_db:
  assumes "progress env opts ex st0 st" "changes env (allowed env opts) (allowed env opts) (isDb st) db'"
  shows "progress env opts ex st0 (st\<lparr>isDb := db'\<rparr>)"
  using assms changes_creds [OF assms(2)] by (auto simp: progress_def importOK_def intro: subset_trans)

lemma progress_sum: "progress env opts ex st0 st \<Longrightarrow> progress env opts ex st0 (inSum g st)"
  by (simp add: progress_def importOK_def)

lemma progress_warn: "progress env opts ex st0 st \<Longrightarrow> progress env opts ex st0 (warn ws st)"
  by (simp add: progress_def importOK_def)

lemma progress_drop: "progress env opts ex st0 st \<Longrightarrow> progress env opts ex st0 (noteDropped d st)"
  by (simp add: progress_def importOK_def)

lemma progress_maps:
  assumes "progress env opts ex st0 st"
  shows "progress env opts ex st0 (st\<lparr>isImages := im\<rparr>)" "progress env opts ex st0 (st\<lparr>isCredFolders := cf\<rparr>)"
    "progress env opts ex st0 (st\<lparr>isCredFolders := cf, isNamed := nm\<rparr>)" "progress env opts ex st0 (st\<lparr>isPanic := b\<rparr>)"
  using assms by (simp_all add: progress_def importOK_def)

lemma progress_try:
  assumes "progress env opts ex st0 st" "changes env (allowed env opts) (allowed env opts) (isDb st) (snd (act (isDb st)))"
  shows "progress env opts ex st0 (tryDb what name act st)"
proof -
  have "progress env opts ex st0 (st\<lparr>isDb := snd (act (isDb st))\<rparr>)" by (rule progress_db [OF assms])
  then show ?thesis by (simp add: progress_def importOK_def)
qed

lemma progress_icon:
  assumes "progress env opts ex st0 st" "iconAllowed env (allowed env opts) (allowed env opts) w"
  shows "progress env opts ex st0 (setIcon env opts old w name st)" "progress env opts ex st0 (setNamedIcon env opts icon color w name st)"
  using assms by (auto simp: setIcon_def setNamedIcon_def split: option.splits intro!: progress_try linkIcon_changes linkNamedIcon_changes)

lemma progress_cred: "progress env opts ex st0 st \<Longrightarrow> n \<in> credIDs (isDb st) \<Longrightarrow> progress env opts ex st0 (st\<lparr>isCreds := (isCreds st)(i \<mapsto> n)\<rparr>)"
  by (auto simp: progress_def importOK_def ran_def split: if_splits)

lemma progress_folder:
  assumes "progress env opts ex st0 st" "allowed env opts n" "ioConflict opts = ConflictSkip \<Longrightarrow> i \<notin> set (exFolders ex)"
  shows "progress env opts ex st0 (st\<lparr>isFolders := (isFolders st)(i \<mapsto> n), isWritten := i # isWritten st\<rparr>)"
  using assms by (auto simp: progress_def importOK_def)

lemma progress_skip:
  assumes "progress env opts ex st0 st" "ioConflict opts = ConflictSkip"
  shows "i \<in> set (exFolders ex) \<Longrightarrow> progress env opts ex st0 (st\<lparr>isFolders := (isFolders st)(i \<mapsto> i)\<rparr>)"
    "i \<in> set (exConns ex) \<Longrightarrow> progress env opts ex st0 (st\<lparr>isConns := (isConns st)(i \<mapsto> i)\<rparr>)"
  using assms by (auto simp: progress_def importOK_def)

lemma progress_conn: "progress env opts ex st0 st \<Longrightarrow> allowed env opts n \<Longrightarrow> progress env opts ex st0 (st\<lparr>isConns := (isConns st)(i \<mapsto> n)\<rparr>)"
  by (auto simp: progress_def importOK_def)

lemma progress_pass:
  assumes "\<And>x st. x \<in> set xs \<Longrightarrow> importOK env opts ex st \<Longrightarrow> progress env opts ex st (f x st)" "progress env opts ex st0 st"
  shows "progress env opts ex st0 (pass f xs st)"
  using assms
proof (induction xs arbitrary: st)
  case (Cons x xs)
  have "progress env opts ex st0 (alive f st x)"
    using Cons.prems(1) [of x st] Cons.prems(2) progress_OK progress_trans by (auto simp: alive_def)
  then show ?case using Cons by (simp add: pass_def)
qed (simp add: pass_def)

section \<open>Rewritten references are known\<close>

lemma remapAuth_refs: "remapAuth resolve r = (r', d) \<Longrightarrow> set_option r' \<subseteq> ran resolve"
  by (auto simp: remapAuth_def ran_def split: option.splits)

lemma remapJumpChain_refs:
  "remapJumpChain resolve c = (c', d) \<Longrightarrow> \<forall>h\<in>set (hopList c'). set_option (jAuthRef h) \<subseteq> ran resolve"
proof (induction resolve c arbitrary: c' d rule: remapJumpChain.induct)
  case (2 resolve hn p u a con via n)
  obtain a' d1 via' d2 where m: "remapAuth resolve a = (a', d1)" "remapJumpChain resolve via = (via', d2)" by fastforce
  then have "c' = Some (JumpHostSpec hn p u a' con via' n)" using 2(2) by simp
  then show ?case using 2(1) [OF m(1) [symmetric] refl m(2)] remapAuth_refs [OF m(1)] by auto
qed simp

lemma remapSettings_refs:
  assumes "remapAuthRefInSettings resolve s = (s', d)"
  shows "loginRefs s' \<subseteq> ran resolve"
proof -
  obtain a d1 where a: "remapAuth resolve (iAuthRef s) = (a, d1)" by fastforce
  show ?thesis
  proof (cases "iJumpHost s")
    case None
    then show ?thesis using assms a remapAuth_refs [OF a] by (auto simp: remapAuthRefInSettings_def loginRefs_def)
  next
    case (Some o1)
    obtain c d2 where c: "remapJumpChain resolve (oChain o1) = (c, d2)" by fastforce
    then have "loginRefs s' = set_option a \<union> (\<Union>h\<in>set (hopList c). set_option (jAuthRef h))"
      using assms a Some by (auto simp: remapAuthRefInSettings_def loginRefs_def)
    then show ?thesis using remapAuth_refs [OF a] remapJumpChain_refs [OF c] by (simp add: UN_least)
  qed
qed

lemma remapJumpConnRefs_auth: "remapJumpConnRefs remap c = (c', m) \<Longrightarrow> map jAuthRef (hopList c') = map jAuthRef (hopList c)"
proof (induction remap c arbitrary: c' m rule: remapJumpConnRefs.induct)
  case (2 remap hn p u a con via n)
  obtain via' m1 where m: "remapJumpConnRefs remap via = (via', m1)" by fastforce
  then show ?case using 2 by (auto simp: Let_def split: if_splits prod.splits)
qed simp

lemma remapBoth_refs:
  assumes "remapBoth ex st s = (s', m)"
  shows "loginRefs s' \<subseteq> ran (resolveAuthRef ex st)"
proof -
  obtain s1 d where r: "remapAuthRefInSettings (resolveAuthRef ex st) s = (s1, d)" by fastforce
  show ?thesis
  proof (cases "iJumpHost s1")
    case None
    then show ?thesis using assms r remapSettings_refs [OF r] by (simp add: remapBoth_def)
  next
    case (Some o1)
    obtain ch m' where c: "remapJumpConnRefs (remapRef ex st) (oChain o1) = (ch, m')" by fastforce
    have "jAuthRef ` set (hopList ch) = jAuthRef ` set (hopList (oChain o1))" using remapJumpConnRefs_auth [OF c] by (metis set_map)
    moreover have "(\<Union>h\<in>H. set_option (jAuthRef h)) = \<Union> (set_option ` jAuthRef ` H)" for H by (simp add: image_image)
    ultimately have "loginRefs (s1\<lparr>iJumpHost := Some (o1\<lparr>oChain := ch\<rparr>)\<rparr>) = loginRefs s1" by (simp only: loginRefs_def Some option.case) (simp add: Some)
    then show ?thesis using assms r c Some remapSettings_refs [OF r] by (simp add: remapBoth_def)
  qed
qed

lemma resolve_known:
  assumes "importOK env opts ex st"
  shows "ran (resolveAuthRef ex st) \<subseteq> credIDs (isDb st)"
  using assms by (auto simp: importOK_def resolveAuthRef_def ran_def split: option.splits if_splits)

lemmas known_settings = subset_trans [OF remapSettings_refs resolve_known] subset_trans [OF remapBoth_refs resolve_known]

section \<open>Every pass\<close>

lemma created_ids:
  "CreateFolder env inp db = (Inr n, db') \<Longrightarrow> n \<in> range (aeNewID env)" "CreateConnection env cinp db = (Inr n, db') \<Longrightarrow> n \<in> range (aeNewID env)"
  "CreateCredential env row db = (Inr n, db') \<Longrightarrow> n \<in> range (aeNewID env)" "CreateCredentialFolder env name parent db = (Inr n, db') \<Longrightarrow> n \<in> range (aeNewID env)"
  by (auto simp: CreateFolder_def CreateConnection_def CreateCredential_def CreateCredentialFolder_def statement_def Let_def split: if_splits sum.splits)

lemma CreatePortForward_id: "CreatePortForward env inp db = (Inr n, db') \<Longrightarrow> n \<in> range (aeNewID env)"
  by (auto simp: CreatePortForward_def statement_def Let_def split: if_splits sum.splits)

lemma CreateCredential_known: "CreateCredential env row db = (Inr n, db') \<Longrightarrow> (\<And>i. crID (row i) = i) \<Longrightarrow> n \<in> credIDs db'"
  by (auto simp: CreateCredential_def statement_def Let_def credIDs_def split: if_splits sum.splits)

lemma progress_inDb:
  assumes "progress env opts ex st0 st" "inDb act st = (r, st')" "changes env (allowed env opts) (allowed env opts) (isDb st) (snd (act (isDb st)))"
  shows "progress env opts ex st0 st'"
  using progress_db [OF assms(1,3)] inDb_state [OF assms(2)] by simp

lemma allowed_new: "n \<in> range (aeNewID env) \<Longrightarrow> allowed env opts n"
  by (simp add: allowed_def)

lemma progress_acts:
  assumes "progress env opts ex st0 st"
  shows "inDb (PutImage env data mime) st = (r1, st') \<Longrightarrow> progress env opts ex st0 st'"
    "inDb (CreateCredentialFolder env nm p) st = (r1, st') \<Longrightarrow> progress env opts ex st0 st'"
    "inDb (CreatePortForward env np) st = (r1, st') \<Longrightarrow> progress env opts ex st0 st'"
    "inDb (storeSecret env n plain) st = (r1, st') \<Longrightarrow> allowed env opts n \<Longrightarrow> progress env opts ex st0 st'"
    "inDb (SetCredentialVaultKey env n key) st = (r2, st') \<Longrightarrow> n \<in> range (aeNewID env) \<Longrightarrow> progress env opts ex st0 st'"
    "inDb (SetConnectionPasswordKey env n key) st = (r2, st') \<Longrightarrow> allowed env opts n \<Longrightarrow> progress env opts ex st0 st'"
    "inDb (CreateFolder env nf) st = (r1, st') \<Longrightarrow> loginRefs (nfSettings nf) \<subseteq> credIDs (isDb st) \<Longrightarrow> progress env opts ex st0 st'"
    "inDb (CreateConnection env nc) st = (r1, st') \<Longrightarrow> loginRefs (nwOverrides nc) \<subseteq> credIDs (isDb st) \<Longrightarrow> progress env opts ex st0 st'"
  by (rule progress_inDb [OF assms], assumption, simp add: PutImage_changes CreateCredentialFolder_changes CreatePortForward_changes storeSecret_changes
      SetCredentialVaultKey_changes SetConnectionPasswordKey_changes CreateFolder_changes CreateConnection_changes)+

lemma inDb_new:
  "inDb (CreateCredentialFolder env nm p) st = (Inr n, st') \<Longrightarrow> n \<in> range (aeNewID env)"
  "inDb (CreateFolder env nf) st = (Inr n, st') \<Longrightarrow> n \<in> range (aeNewID env)" "inDb (CreateConnection env nc) st = (Inr n, st') \<Longrightarrow> n \<in> range (aeNewID env)"
  "inDb (CreateCredential env row) st = (Inr n, st') \<Longrightarrow> n \<in> range (aeNewID env)" "inDb (CreatePortForward env np) st = (Inr n, st') \<Longrightarrow> n \<in> range (aeNewID env)"
  using created_ids CreatePortForward_id by (auto simp: inDb_def split: prod.splits)

lemma importImage_progress:
  assumes "importOK env opts ex st" "\<not> ioDryRun opts"
  shows "progress env opts ex st (importImage env opts img st)"
proof (cases "b64Decode (aiB64 img)")
  case (Some data)
  note r = progress_refl [OF assms(1)]
  show ?thesis
  proof (cases "data = []")
    case False
    obtain r1 st1 where i: "inDb (PutImage env data (aiMIME img)) st = (r1, st1)" by fastforce
    then have "progress env opts ex st st1" by (rule progress_acts(1) [OF r])
    then show ?thesis using assms(2) Some False i by (cases r1) (simp_all add: importImage_def progress_warn progress_sum progress_maps)
  qed (use Some r in \<open>simp add: importImage_def progress_warn\<close>)
qed (use progress_refl [OF assms(1)] in \<open>simp add: importImage_def progress_warn\<close>)

lemma importCredFolder_progress:
  assumes "importOK env opts ex st" "\<not> ioDryRun opts"
  shows "progress env opts ex st (importCredFolder env opts have f st)"
proof (cases "cfID f \<in> set have")
  case False
  define p where "p = remapFolderID (cfParent f) (isCredFolders st)"
  define st1 where "st1 = (if cfParent f \<noteq> None \<and> p = None then warn [Lacks ''credential folder parent'' (cfName f)] st else st)"
  have r: "progress env opts ex st st1" using progress_refl [OF assms(1)] by (auto simp: st1_def intro: progress_warn)
  obtain r2 st2 where i: "inDb (CreateCredentialFolder env (cfName f) p) (inSum (suCredFoldersCreated_update (\<lambda>l. l @ [cfName f])) st1) = (r2, st2)" by fastforce
  then have c: "progress env opts ex st st2" by (rule progress_acts(2) [OF progress_sum [OF r]])
  have w: "iconAllowed env (allowed env opts) (allowed env opts) (CredFolderIcon n)" if "r2 = Inr n" for n
    using inDb_new(1) i that by (simp add: iconAllowed_def)
  show ?thesis
    unfolding importCredFolder_def Let_def p_def [symmetric] st1_def [symmetric] using False assms(2) r c w i
    by (cases r2) (auto split: option.split intro!: progress_icon progress_maps progress_sum progress_warn)
qed (use progress_refl [OF assms(1)] in \<open>simp add: importCredFolder_def progress_sum progress_maps\<close>)

lemma restoreSecret_progress:
  assumes "progress env opts ex st0 st" "n \<in> range (aeNewID env)"
  shows "progress env opts ex st0 (restoreSecret env opts block c n st)"
proof (cases block)
  case (Some b)
  show ?thesis
  proof (cases "DecryptSecret env (ioPassphrase opts) b (crID c)")
    case (Inr plain)
    obtain r1 st1 where i: "inDb (storeSecret env n plain) st = (r1, st1)" by fastforce
    have p1: "progress env opts ex st0 st1" by (rule progress_acts(4) [OF assms(1) i allowed_new [OF assms(2)]])
    show ?thesis
    proof (cases r1)
      case key: (Inr key)
      obtain r2 st2 where j: "inDb (SetCredentialVaultKey env n key) st1 = (r2, st2)" by fastforce
      have "progress env opts ex st0 st2" by (rule progress_acts(5) [OF p1 j assms(2)])
      then show ?thesis using Some Inr i key j assms(1) by (cases r2) (simp_all add: restoreSecret_def progress_warn progress_sum)
    qed (use Some Inr i p1 assms(1) in \<open>simp add: restoreSecret_def progress_warn\<close>)
  qed (use Some assms(1) in \<open>simp add: restoreSecret_def progress_warn progress_maps\<close>)
qed (use assms(1) in \<open>simp add: restoreSecret_def\<close>)

lemma importCred_progress:
  assumes "importOK env opts ex st" "\<not> ioDryRun opts"
  shows "progress env opts ex st (importCred env opts ex block c st)"
proof (cases "crID c \<in> set (exCreds ex)")
  case True
  then have "crID c \<in> credIDs (isDb st)" using assms(1) by (auto simp: importOK_def)
  then show ?thesis using True progress_refl [OF assms(1)] by (simp add: importCred_def progress_sum progress_cred)
next
  case False
  let ?st1 = "inSum (suCredsCreated_update (\<lambda>l. l @ [crName c])) st"
  let ?row = "\<lambda>i. c\<lparr>crID := i, crFolder := remapFolderID (crFolder c) (isCredFolders ?st1), crVaultKey := None, crIconImageID := None, crIconName := None, crIconColor := None\<rparr>"
  obtain r2 st2 where i: "inDb (CreateCredential env ?row) ?st1 = (r2, st2)" by fastforce
  have p: "progress env opts ex st st2"
    by (rule progress_inDb [OF progress_sum [OF progress_refl [OF assms(1)]] i]) (rule CreateCredential_changes; simp)
  show ?thesis
  proof (cases r2)
    case (Inr n)
    have n: "n \<in> range (aeNewID env)" using inDb_new(4) i Inr by blast
    have "n \<in> credIDs (isDb st2)" using i Inr CreateCredential_known [of env ?row "isDb ?st1" n] by (auto simp: inDb_def split: prod.splits)
    then have "progress env opts ex st (st2\<lparr>isCreds := (isCreds st2)(crID c \<mapsto> n)\<rparr>)" by (rule progress_cred [OF p])
    then have "progress env opts ex st (setNamedIcon env opts (crIconName c) (crIconColor c) (CredIcon n) (crName c)
        (setIcon env opts (crIconImageID c) (CredIcon n) (crName c) (st2\<lparr>isCreds := (isCreds st2)(crID c \<mapsto> n)\<rparr>)))"
      using n by (intro progress_icon) (simp_all add: iconAllowed_def)
    then show ?thesis using False assms(2) i Inr restoreSecret_progress n by (simp add: importCred_def Let_def)
  qed (use False assms(2) i p in \<open>simp add: importCred_def progress_warn\<close>)
qed

lemma dynamicRow_progress: "progress env opts ex st0 st \<Longrightarrow> dynamicRow f d i st = (row, st') \<Longrightarrow> progress env opts ex st0 st' \<and> dfFolder row = i"
  by (auto simp: dynamicRow_def Let_def intro: progress_warn split: prod.splits)

lemma progress_tick: "progress env opts ex st0 st \<Longrightarrow> progress env opts ex st0 (st\<lparr>isDb := (isDb st)\<lparr>adTick := n\<rparr>\<rparr>)"
  by (rule progress_db) (auto intro: change.tick)

lemma overwriteDynamic_progress:
  assumes "progress env opts ex st0 st" "ioConflict opts = ConflictOverwrite"
  shows "progress env opts ex st0 (overwriteDynamic env f st)"
proof (cases "afDynamic f")
  case (Some d)
  obtain row st1 where d: "dynamicRow f d (afID f) st = (row, st1)" by fastforce
  have p: "progress env opts ex st0 st1" "dfFolder row = afID f" using dynamicRow_progress [OF assms(1) d] by simp_all
  show ?thesis using Some d p assms(2) progress_tick [OF p(1)]
    by (auto simp: overwriteDynamic_def Let_def allowed_def intro!: progress_try UpdateDynamicFolder_changes CreateDynamicFolder_changes)
qed (use assms(1) in \<open>simp add: overwriteDynamic_def\<close>)

lemma overwriteFolder_progress:
  assumes "importOK env opts ex st" "\<not> ioDryRun opts" "ioConflict opts = ConflictOverwrite"
  shows "progress env opts ex st (overwriteFolder env opts ex f st)"
proof -
  have al: "allowed env opts i" for i using assms(3) by (simp add: allowed_def)
  define st1 where "st1 = inSum (suFoldersUpdated_update (\<lambda>l. l @ [afName f])) (st\<lparr>isFolders := (isFolders st)(afID f \<mapsto> afID f), isWritten := afID f # isWritten st\<rparr>)"
  have p1: "progress env opts ex st st1" unfolding st1_def using al assms(3) by (intro progress_sum progress_folder progress_refl [OF assms(1)]) simp_all
  obtain s dr where s: "remapAuthRefInSettings (resolveAuthRef ex st1) (afSettings f) = (s, dr)" by fastforce
  have k: "loginRefs s \<subseteq> credIDs (isDb (noteDropped dr st1))" using known_settings(1) [OF s progress_OK [OF p1]] by simp
  have "progress env opts ex st (tryDb ''folder overwrite'' (afName f) (UpdateFolder env (afID f) (Some (afName f)) (Some s)) (noteDropped dr st1))"
    by (intro progress_try progress_drop p1 UpdateFolder_changes al k)
  then show ?thesis
    using assms(2) al unfolding overwriteFolder_def Let_def st1_def [symmetric] s
    by (simp add: overwriteDynamic_progress assms(3) progress_icon iconAllowed_def)
qed

lemma createFolder_progress:
  assumes "importOK env opts ex st" "\<not> ioDryRun opts" "ioConflict opts = ConflictSkip \<Longrightarrow> afID f \<notin> set (exFolders ex)"
  shows "progress env opts ex st (createFolder env opts ex f st)"
proof -
  define st1 where "st1 = inSum (suFoldersCreated_update (\<lambda>l. l @ [afName f])) st"
  define p where "p = remapFolderID (afParent f) (isFolders st1)"
  define st2 where "st2 = (if afParent f \<noteq> None \<and> p = None then warn [Lacks ''folder parent'' (afName f)] st1 else st1)"
  define target where "target = (if p = None \<and> ioTarget opts \<noteq> [] then Some (ioTarget opts) else p)"
  have p2: "progress env opts ex st st2" unfolding st2_def st1_def using progress_refl [OF assms(1)] by (auto intro: progress_warn progress_sum)
  obtain s dr where s: "remapAuthRefInSettings (resolveAuthRef ex st2) (afSettings f) = (s, dr)" by fastforce
  have k: "loginRefs s \<subseteq> credIDs (isDb (noteDropped dr st2))" using known_settings(1) [OF s progress_OK [OF p2]] by simp
  obtain r st4 where i: "inDb (CreateFolder env \<lparr>nfParent = target, nfName = afName f, nfSettings = s\<rparr>) (noteDropped dr st2) = (r, st4)" by fastforce
  have p4: "progress env opts ex st st4" by (rule progress_acts(7) [OF progress_drop [OF p2] i]) (simp add: k [simplified])
  show ?thesis
  proof (cases r)
    case (Inr n)
    have n: "n \<in> range (aeNewID env)" using inDb_new(2) i Inr by blast
    define st5 where "st5 = setNamedIcon env opts (afIconName f) (afIconColor f) (FolderIcon n) (afName f)
        (setIcon env opts (afIconImageID f) (FolderIcon n) (afName f) (st4\<lparr>isFolders := (isFolders st4)(afID f \<mapsto> n), isWritten := afID f # isWritten st4\<rparr>))"
    have p5: "progress env opts ex st st5"
      unfolding st5_def using allowed_new [OF n] assms(3) by (intro progress_icon progress_folder p4) (simp_all add: iconAllowed_def)
    have "progress env opts ex st (case afDynamic f of None \<Rightarrow> st5
         | Some d \<Rightarrow> (case dynamicRow f d n st5 of (row, st6) \<Rightarrow> tryDb ''dynamic config'' (afName f) (CreateDynamicFolder env row) st6))"
      using p5 by (auto split: option.split prod.split intro!: progress_try CreateDynamicFolder_changes dest: dynamicRow_progress [OF p5])
    then show ?thesis
      unfolding createFolder_def Let_def st1_def [symmetric] p_def [symmetric] st2_def [symmetric] target_def [symmetric] s prod.case if_not_P [OF assms(2)]
        i Inr sum.case st5_def [symmetric] .
  next
    case (Inl e)
    show ?thesis
      unfolding createFolder_def Let_def st1_def [symmetric] p_def [symmetric] st2_def [symmetric] target_def [symmetric] s prod.case if_not_P [OF assms(2)]
        i Inl sum.case by (rule progress_warn [OF p4])
  qed
qed

lemma importFolder_progress:
  assumes "importOK env opts ex st" "\<not> ioDryRun opts"
  shows "progress env opts ex st (importFolder env opts ex f st)"
  using assms createFolder_progress [OF assms] overwriteFolder_progress [OF assms] progress_skip(1) [OF progress_refl [OF assms(1)]]
  by (auto simp: importFolder_def split: conflictMode.split intro: progress_sum)

lemma progress_eligible:
  "progress env opts ex st0 st \<Longrightarrow> (ioConflict opts = ConflictSkip \<Longrightarrow> i \<notin> set (exConns ex)) \<Longrightarrow>
    progress env opts ex st0 (st\<lparr>isEligible := i # isEligible st\<rparr>)"
  by (auto simp: progress_def importOK_def)

lemma overwriteConn_progress:
  assumes "importOK env opts ex st" "\<not> ioDryRun opts" "ioConflict opts = ConflictOverwrite"
  shows "progress env opts ex st (overwriteConn env opts ex c st)"
proof -
  have al: "allowed env opts i" for i using assms(3) by (simp add: allowed_def)
  define st1 where "st1 = inSum (suConnsUpdated_update (\<lambda>l. l @ [acName c])) (st\<lparr>isEligible := acID c # isEligible st\<rparr>)"
  have p1: "progress env opts ex st st1" unfolding st1_def using al assms(3) by (intro progress_sum progress_eligible progress_refl [OF assms(1)]) simp_all
  obtain s dr where s: "remapAuthRefInSettings (resolveAuthRef ex st1) (acOverrides c) = (s, dr)" by fastforce
  have k: "loginRefs s \<subseteq> credIDs (isDb (noteDropped dr st1))" using known_settings(1) [OF s progress_OK [OF p1]] by simp
  have "progress env opts ex st (tryDb ''conn overwrite'' (acName c) (UpdateConnection env (acID c)
                      \<lparr>ucFolder = connFolder opts (remapFolderID (acFolder c) (isFolders st1)), ucName = Some (acName c), ucHostname = Some (acHostname c),
                       ucProtocol = Some (acProtocol c), ucShell = acShell c, ucClearShell = (acShell c = None), ucOverrides = Some s,
                       ucTags = Some (acTags c), ucNotes = Some (acNotes c), ucFavorite = Some (acFavorite c)\<rparr>) (noteDropped dr st1))"
    using k by (intro progress_try progress_drop p1 UpdateConnection_changes al) simp
  then show ?thesis
    using al unfolding overwriteConn_def Let_def st1_def [symmetric] s prod.case if_not_P [OF assms(2)]
    by (intro progress_conn progress_icon) (simp_all add: iconAllowed_def)
qed

lemma createConn_progress:
  assumes "importOK env opts ex st" "\<not> ioDryRun opts" "ioConflict opts = ConflictSkip \<Longrightarrow> acID c \<notin> set (exConns ex)"
  shows "progress env opts ex st (createConn env opts ex c st)"
proof -
  define st1 where "st1 = inSum (suConnsCreated_update (\<lambda>l. l @ [acName c])) (st\<lparr>isEligible := acID c # isEligible st\<rparr>)"
  define p where "p = remapFolderID (acFolder c) (isFolders st1)"
  define st2 where "st2 = (if acFolder c \<noteq> None \<and> p = None then warn [Lacks ''conn folder'' (acName c)] st1 else st1)"
  have "progress env opts ex st st1" unfolding st1_def using assms(3) by (intro progress_sum progress_eligible progress_refl [OF assms(1)])
  then have p2: "progress env opts ex st st2" unfolding st2_def by (auto intro: progress_warn)
  obtain s dr where s: "remapAuthRefInSettings (resolveAuthRef ex st2) (acOverrides c) = (s, dr)" by fastforce
  have k: "loginRefs s \<subseteq> credIDs (isDb (noteDropped dr st2))" using known_settings(1) [OF s progress_OK [OF p2]] by simp
  obtain r st3 where i: "inDb (CreateConnection env \<lparr>nwFolder = connFolder opts p, nwName = acName c, nwHostname = acHostname c, nwProtocol = acProtocol c,
                  nwShell = acShell c, nwOverrides = s, nwTags = acTags c, nwNotes = acNotes c\<rparr>) (noteDropped dr st2) = (r, st3)" by fastforce
  have p3: "progress env opts ex st st3" by (rule progress_acts(8) [OF progress_drop [OF p2] i]) (simp add: k [simplified])
  show ?thesis
  proof (cases r)
    case (Inr n)
    have n: "n \<in> range (aeNewID env)" using inDb_new(3) i Inr by blast
    have "progress env opts ex st (setNamedIcon env opts (acIconName c) (acIconColor c) (ConnIcon n) (acName c)
                   (setIcon env opts (acIconImageID c) (ConnIcon n) (acName c) (st3\<lparr>isConns := (isConns st3)(acID c \<mapsto> n)\<rparr>)))"
      using allowed_new [OF n] by (intro progress_icon progress_conn p3) (simp_all add: iconAllowed_def)
    then show ?thesis
      unfolding createConn_def Let_def st1_def [symmetric] p_def [symmetric] st2_def [symmetric] s prod.case if_not_P [OF assms(2)] i Inr sum.case .
  next
    case (Inl e)
    show ?thesis
      unfolding createConn_def Let_def st1_def [symmetric] p_def [symmetric] st2_def [symmetric] s prod.case if_not_P [OF assms(2)] i Inl sum.case
      by (rule progress_warn [OF p3])
  qed
qed

lemma importConn_progress:
  assumes "importOK env opts ex st" "\<not> ioDryRun opts"
  shows "progress env opts ex st (importConn env opts ex c st)"
  using createConn_progress [OF assms] overwriteConn_progress [OF assms] progress_skip(2) [OF progress_refl [OF assms(1)]]
  by (auto simp: importConn_def split: conflictMode.split intro: progress_sum)

lemma eligible_allowed: "importOK env opts ex st \<Longrightarrow> i \<in> set (isEligible st) \<Longrightarrow> isConns st i = Some n \<Longrightarrow> allowed env opts n"
  unfolding importOK_def by meson

lemma folderJumps_progress:
  assumes "importOK env opts ex st"
  shows "progress env opts ex st (folderJumps env ex f st)"
proof (cases "afID f \<in> set (isWritten st) \<and> chainHasConnRef (iJumpHost (afSettings f))")
  case True
  then obtain n where n: "isFolders st (afID f) = Some n" "allowed env opts n" using assms by (auto simp: importOK_def)
  obtain s m where s: "remapBoth ex st (afSettings f) = (s, m)" by fastforce
  have "loginRefs s \<subseteq> credIDs (isDb (warn (map (Lacks ''jump host connection'') m) st))" using known_settings(2) [OF s assms] by simp
  then show ?thesis using True n s
    by (auto simp: folderJumps_def Let_def intro!: progress_try progress_warn progress_refl [OF assms] UpdateFolder_changes)
qed (use progress_refl [OF assms] in \<open>simp add: folderJumps_def\<close>)

lemma connJumps_progress:
  assumes "importOK env opts ex st"
  shows "progress env opts ex st (connJumps env ex c st)"
proof (cases "isConns st (acID c)")
  case (Some n)
  show ?thesis
  proof (cases "acID c \<in> set (isEligible st) \<and> chainHasConnRef (iJumpHost (acOverrides c))")
    case True
    then have a: "allowed env opts n" using eligible_allowed assms Some by blast
    obtain s m where s: "remapBoth ex st (acOverrides c) = (s, m)" by fastforce
    have "loginRefs s \<subseteq> credIDs (isDb (warn (map (Lacks ''jump host connection'') m) st))" using known_settings(2) [OF s assms] by simp
    then show ?thesis using True Some a s
      by (auto simp: connJumps_def Let_def noChange_def intro!: progress_try progress_warn progress_refl [OF assms] UpdateConnection_changes)
  qed (use Some progress_refl [OF assms] in \<open>auto simp: connJumps_def\<close>)
qed (use progress_refl [OF assms] in \<open>simp add: connJumps_def\<close>)

lemma importPassword_progress:
  assumes "importOK env opts ex st" "\<not> ioDryRun opts"
  shows "progress env opts ex st (importPassword env opts b old st)"
proof (cases "old \<in> set (isEligible st) \<and> ioPassphrase opts \<noteq> [] \<and> isConns st old \<noteq> None")
  case True
  then obtain n where n: "isConns st old = Some n" by auto
  have a: "allowed env opts n" using eligible_allowed assms(1) True n by blast
  note r = progress_refl [OF assms(1)]
  show ?thesis
  proof (cases "DecryptConnPassword env (ioPassphrase opts) b old")
    case (Inr plain)
    obtain r1 st1 where i: "inDb (storeSecret env n plain) st = (r1, st1)" by fastforce
    have p1: "progress env opts ex st st1" by (rule progress_acts(4) [OF r i a])
    show ?thesis
    proof (cases r1)
      case key: (Inr key)
      obtain r2 st2 where j: "inDb (SetConnectionPasswordKey env n key) st1 = (r2, st2)" by fastforce
      have "progress env opts ex st st2" by (rule progress_acts(6) [OF p1 j a])
      then show ?thesis using True n Inr i key j assms(2) by (cases r2) (simp_all add: importPassword_def progress_warn progress_sum)
    qed (use True n Inr i p1 assms(2) in \<open>simp add: importPassword_def progress_warn\<close>)
  qed (use True n r assms(2) in \<open>simp add: importPassword_def progress_warn progress_maps\<close>)
qed (use progress_refl [OF assms(1)] assms(2) in \<open>auto simp: importPassword_def progress_warn split: option.split\<close>)

lemma importForward_progress:
  assumes "importOK env opts ex st" "\<not> ioDryRun opts"
  shows "progress env opts ex st (importForward env opts f st)"
proof (cases "isConns st (pfConn f)")
  case (Some n)
  let ?np = "\<lparr>npConn = n, npKind = pfKind f, npLocalAddr = pfLocalAddr f, npLocalPort = pfLocalPort f,
                  npRemoteHost = pfRemoteHost f, npRemotePort = pfRemotePort f, npAutoStart = pfAutoStart f, npDesc = pfDesc f\<rparr> :: newPortForward"
  obtain r st1 where i: "inDb (CreatePortForward env ?np) st = (r, st1)" by fastforce
  have p1: "progress env opts ex st st1" by (rule progress_acts(3) [OF progress_refl [OF assms(1)] i])
  show ?thesis
  proof (cases r)
    case (Inr p)
    have "p \<in> range (aeNewID env)" using inDb_new(5) i Inr by blast
    then have "progress env opts ex st (tryDb ''forward bookmarks'' (pfConn f) (SetPortForwardBookmarks env p (pfBookmarks f)) st1)"
      by (intro progress_try p1 SetPortForwardBookmarks_changes)
    then show ?thesis using Some i Inr p1 assms(2) by (auto simp: importForward_def intro: progress_sum)
  qed (use Some i p1 assms(2) in \<open>auto simp: importForward_def intro: progress_warn\<close>)
qed (use progress_refl [OF assms(1)] in \<open>simp add: importForward_def progress_warn\<close>)

lemma importSecrets_progress:
  assumes "\<not> ioDryRun opts"
  shows "progress env opts (existingRows env db) (newImport env db) (importSecrets env opts db arc)"
proof -
  have "importOK env opts (existingRows env db) (newImport env db)" by (auto simp: importOK_def newImport_def existingRows_def credIDs_def)
  then show ?thesis
    unfolding importSecrets_def
    by (intro progress_pass progress_refl importImage_progress importCredFolder_progress importCred_progress assms)
qed

lemma importRest_progress:
  assumes "progress env opts ex st0 st" "\<not> ioDryRun opts"
  shows "progress env opts ex st0 (importRest env opts arc (importTree env opts ex arc order st))"
proof -
  define st1 where "st1 = importTree env opts ex arc order st"
  have p1: "progress env opts ex st0 st1"
    unfolding st1_def importTree_def Let_def if_not_P [OF assms(2)]
    by (intro progress_pass connJumps_progress folderJumps_progress importConn_progress importFolder_progress assms)
  define st2 where "st2 = (case arSecrets arc of None \<Rightarrow> st1 | Some b \<Rightarrow> pass (importPassword env opts b) (sortStrings (map fst (sbConnCipherBy b))) st1)"
  have p2: "progress env opts ex st0 st2"
    unfolding st2_def by (cases "arSecrets arc") (use p1 assms(2) in \<open>auto intro!: progress_pass importPassword_progress\<close>)
  have "progress env opts ex st0 (pass (importForward env opts) (arForwards arc) st2)"
    by (intro progress_pass importForward_progress p2 assms(2))
  then show ?thesis unfolding importRest_def st1_def [symmetric] st2_def [symmetric] Let_def by (simp add: progress_warn)
qed

text \<open>A run is a sequence of changes.\<close>

lemma Apply_changes:
  assumes "\<not> ioDryRun opts"
  shows "changes env (allowed env opts) (allowed env opts) db (snd (Apply env opts arc db))"
proof -
  let ?st = "importSecrets env opts db arc"
  note p = importSecrets_progress [OF assms, of env db arc]
  have d: "isDb (newImport env db) = db" by (simp add: newImport_def)
  have "changes env (allowed env opts) (allowed env opts) db (isDb ?st)" using p by (simp add: progress_def d)
  moreover have "changes env (allowed env opts) (allowed env opts) db (isDb (importRest env opts arc (importTree env opts (existingRows env db) arc order ?st)))" for order
    using importRest_progress [OF p assms, of arc order] by (simp add: progress_def d)
  ultimately show ?thesis by (auto simp: Apply_def Let_def split: sum.split)
qed

section \<open>A dry run\<close>

definition calm :: "('a \<Rightarrow> importState \<Rightarrow> importState) \<Rightarrow> bool" where
  "calm f \<longleftrightarrow> (\<forall>x st. isDb (f x st) = isDb st \<and> isPanic (f x st) = isPanic st)"

lemma calm_pass: "calm f \<Longrightarrow> isDb (pass f xs st) = isDb st" "calm f \<Longrightarrow> isPanic (pass f xs st) = isPanic st"
  unfolding pass_def by (induction xs arbitrary: st) (simp_all add: alive_def calm_def)

lemma dry_calm:
  assumes "ioDryRun opts"
  shows "calm (importImage env opts)" "calm (importCredFolder env opts have)" "calm (importCred env opts ex block)" "calm (importFolder env opts ex)"
    "calm (importConn env opts ex)" "calm (importPassword env opts b)" "calm (importForward env opts)"
proof -
  have f: "isDb (createFolder env opts ex f st) = isDb st \<and> isPanic (createFolder env opts ex f st) = isPanic st" for f st
    using assms by (simp add: createFolder_def Let_def split: prod.split)
  have o: "isDb (overwriteFolder env opts ex f st) = isDb st \<and> isPanic (overwriteFolder env opts ex f st) = isPanic st" for f st
    using assms by (simp add: overwriteFolder_def Let_def)
  have c: "isDb (createConn env opts ex c st) = isDb st \<and> isPanic (createConn env opts ex c st) = isPanic st" for c st
    using assms by (simp add: createConn_def Let_def)
  have u: "isDb (overwriteConn env opts ex c st) = isDb st \<and> isPanic (overwriteConn env opts ex c st) = isPanic st" for c st
    using assms by (simp add: overwriteConn_def Let_def)
  show "calm (importFolder env opts ex)" "calm (importConn env opts ex)"
    by (simp_all add: calm_def importFolder_def importConn_def f o c u split: conflictMode.split)
  show "calm (importImage env opts)" "calm (importCredFolder env opts have)" "calm (importCred env opts ex block)" "calm (importPassword env opts b)"
      "calm (importForward env opts)"
    using assms by (simp_all add: calm_def importImage_def importCredFolder_def importCred_def importPassword_def importForward_def Let_def split: option.split)
qed

lemma dry_run_writes_nothing:
  assumes "ioDryRun opts"
  shows "snd (Apply env opts arc db) = db" "fst (Apply env opts arc db) \<noteq> ImportPanicked"
proof -
  note c = dry_calm [OF assms]
  have s: "isDb (importSecrets env opts db arc) = db" "\<not> isPanic (importSecrets env opts db arc)"
    by (simp_all only: importSecrets_def calm_pass c) (simp_all add: newImport_def)
  have r: "isDb (importRest env opts arc (importTree env opts ex arc order st)) = isDb st"
    "isPanic (importRest env opts arc (importTree env opts ex arc order st)) = isPanic st" for ex order st
    unfolding importRest_def importTree_def Let_def using assms by (simp_all add: calm_pass c split: option.split)
  show "snd (Apply env opts arc db) = db" "fst (Apply env opts arc db) \<noteq> ImportPanicked"
    using s r by (auto simp: Apply_def Let_def split: sum.split)
qed

section \<open>What was there stays\<close>

definition kept :: "archiveDb \<Rightarrow> archiveDb \<Rightarrow> bool" where
  "kept db0 db \<longleftrightarrow> prefix (adFolders db0) (adFolders db) \<and> prefix (adConns db0) (adConns db) \<and> prefix (adCreds db0) (adCreds db) \<and>
     prefix (adCredFolders db0) (adCredFolders db) \<and> prefix (adDyn db0) (adDyn db) \<and> prefix (adImages db0) (adImages db) \<and>
     prefix (adForwards db0) (adForwards db) \<and> adVault db0 \<subseteq>\<^sub>m adVault db"

definition takenIDs :: "archiveDb \<Rightarrow> string set" where
  "takenIDs db = fID ` set (adFolders db) \<union> cID ` set (adConns db) \<union> credIDs db \<union> cfID ` set (adCredFolders db) \<union> dfFolder ` set (adDyn db) \<union>
     pfID ` set (adForwards db) \<union> {i. ''imp:'' @ i \<in> dom (adVault db)}"

lemma prefix_map_same: "prefix xs ys \<Longrightarrow> (\<And>x. x \<in> set xs \<Longrightarrow> g x = x) \<Longrightarrow> prefix xs (map g ys)"
  by (auto simp: prefix_def map_idI)

lemma change_keeps:
  assumes "change env okF okC db1 db2" "kept db0 db1" "\<And>i. i \<in> takenIDs db0 \<Longrightarrow> i \<notin> range (aeNewID env) \<and> \<not> okF i \<and> \<not> okC i"
  shows "kept db0 db2"
  using assms(1)
proof cases
  case (put_secret rid plain)
  have "''imp:'' @ rid \<notin> dom (adVault db0)" using assms(3) [of rid] put_secret(2) by (auto simp: takenIDs_def)
  then show ?thesis using assms(2) put_secret(1) by (auto simp: kept_def map_le_def)
next
  case (set_folders g)
  have "g f = f" if "f \<in> set (adFolders db0)" for f using set_folders(3) [of f] assms(3) [of "fID f"] that by (auto simp: takenIDs_def)
  then show ?thesis using assms(2) set_folders(1) by (auto simp: kept_def intro: prefix_map_same)
next
  case (set_conns g)
  have "g f = f" if "f \<in> set (adConns db0)" for f using set_conns(3) [of f] assms(3) [of "cID f"] that by (auto simp: takenIDs_def)
  then show ?thesis using assms(2) set_conns(1) by (auto simp: kept_def intro: prefix_map_same)
next
  case (set_creds g)
  have "g f = f" if "f \<in> set (adCreds db0)" for f using set_creds(3) [of f] assms(3) [of "crID f"] that by (auto simp: takenIDs_def credIDs_def)
  then show ?thesis using assms(2) set_creds(1) by (auto simp: kept_def intro: prefix_map_same)
next
  case (set_cred_folders g)
  have "g f = f" if "f \<in> set (adCredFolders db0)" for f using set_cred_folders(3) [of f] assms(3) [of "cfID f"] that by (auto simp: takenIDs_def)
  then show ?thesis using assms(2) set_cred_folders(1) by (auto simp: kept_def intro: prefix_map_same)
next
  case (set_dyn g)
  have "g f = f" if "f \<in> set (adDyn db0)" for f using set_dyn(2) [of f] assms(3) [of "dfFolder f"] that by (auto simp: takenIDs_def)
  then show ?thesis using assms(2) set_dyn(1) by (auto simp: kept_def intro: prefix_map_same)
next
  case (set_forwards g)
  have "g f = f" if "f \<in> set (adForwards db0)" for f using set_forwards(3) [of f] assms(3) [of "pfID f"] that by (auto simp: takenIDs_def)
  then show ?thesis using assms(2) set_forwards(1) by (auto simp: kept_def intro: prefix_map_same)
qed (use assms(2) in \<open>simp_all add: kept_def\<close>)

text \<open>C14: whatever the archive holds and whatever fails, an import that was not told to overwrite leaves every row and every secret
  that was there as it was: folders, connections, credentials and their folders, inventories, icons, forwards; new ids are new.\<close>

theorem import_keeps_existing_rows:
  assumes "ioConflict opts \<noteq> ConflictOverwrite" "range (aeNewID env) \<inter> takenIDs db = {}"
  shows "kept db (snd (Apply env opts arc db))"
proof (cases "ioDryRun opts")
  case True
  then show ?thesis by (simp add: dry_run_writes_nothing kept_def map_le_def)
next
  case False
  have no: "i \<notin> range (aeNewID env) \<and> \<not> allowed env opts i \<and> \<not> allowed env opts i" if "i \<in> takenIDs db" for i
    using assms that by (auto simp: allowed_def)
  have "kept db db'" if "changes env (allowed env opts) (allowed env opts) db db'" for db'
    using that
  proof (induction rule: rtranclp_induct)
    case base
    show ?case by (simp add: kept_def)
  next
    case (step y z)
    show ?case by (rule change_keeps [OF step(2,3)]) (rule no)
  qed
  then show ?thesis using Apply_changes [OF False] by blast
qed

lemma import_keeps_existing_rows_witness: "kept exDb (snd (Apply exEnv exOpts exArchive exDb)) \<and> adFolders exDb \<noteq> []"
proof -
  have "takenIDs exDb = {''old''}" by (auto simp: takenIDs_def exDb_def credIDs_def)
  moreover have "''old'' \<notin> range (aeNewID exEnv)" by (auto simp: exEnv_def)
  ultimately have d: "range (aeNewID exEnv) \<inter> takenIDs exDb = {}" by simp
  have "ioConflict exOpts \<noteq> ConflictOverwrite" by (simp add: exOpts_def)
  then have "kept exDb (snd (Apply exEnv exOpts exArchive exDb))" by (rule import_keeps_existing_rows [OF _ d])
  then show ?thesis by (simp add: exDb_def)
qed

section \<open>No login dangles\<close>

text \<open>Settings that log in with credentials that are there, or that an earlier row had.\<close>

definition loginsKnown :: "archiveDb \<Rightarrow> archiveDb \<Rightarrow> bool" where
  "loginsKnown db0 db \<longleftrightarrow>
     (\<forall>f\<in>set (adFolders db). loginRefs (fSettings f) \<subseteq> credIDs db \<or> (\<exists>g\<in>set (adFolders db0). fID g = fID f \<and> fSettings g = fSettings f)) \<and>
     (\<forall>c\<in>set (adConns db). loginRefs (cOverrides c) \<subseteq> credIDs db \<or> (\<exists>d\<in>set (adConns db0). cID d = cID c \<and> cOverrides d = cOverrides c))"

lemma change_logins:
  assumes "change env okF okC db1 db2" "loginsKnown db0 db1"
  shows "loginsKnown db0 db2"
proof -
  have grow: "credIDs db1 \<subseteq> credIDs db2" by (rule change_creds [OF assms(1)])
  have f: "\<forall>f\<in>set (adFolders db1). loginRefs (fSettings f) \<subseteq> credIDs db2 \<or> (\<exists>g\<in>set (adFolders db0). fID g = fID f \<and> fSettings g = fSettings f)"
    and c: "\<forall>c\<in>set (adConns db1). loginRefs (cOverrides c) \<subseteq> credIDs db2 \<or> (\<exists>d\<in>set (adConns db0). cID d = cID c \<and> cOverrides d = cOverrides c)"
    using assms(2) grow unfolding loginsKnown_def by (meson subset_trans)+
  show ?thesis
    using assms(1)
  proof cases
    case (add_folder row)
    then have "loginRefs (fSettings row) \<subseteq> credIDs db2" using grow by blast
    then show ?thesis using f c add_folder(1) by (simp add: loginsKnown_def)
  next
    case (set_folders g)
    have "loginRefs (fSettings (g r)) \<subseteq> credIDs db2 \<or> (\<exists>h\<in>set (adFolders db0). fID h = fID (g r) \<and> fSettings h = fSettings (g r))" if "r \<in> set (adFolders db1)" for r
      using set_folders(2,4) [of r] bspec [OF f that] grow by (metis subset_trans)
    then show ?thesis using c set_folders(1) by (simp add: loginsKnown_def)
  next
    case (add_conn row)
    then have "loginRefs (cOverrides row) \<subseteq> credIDs db2" using grow by blast
    then show ?thesis using f c add_conn(1) by (simp add: loginsKnown_def)
  next
    case (set_conns g)
    have "loginRefs (cOverrides (g r)) \<subseteq> credIDs db2 \<or> (\<exists>h\<in>set (adConns db0). cID h = cID (g r) \<and> cOverrides h = cOverrides (g r))" if "r \<in> set (adConns db1)" for r
      using set_conns(2,5) [of r] bspec [OF c that] grow by (metis subset_trans)
    then show ?thesis using f set_conns(1) by (simp add: loginsKnown_def)
  qed (use f c in \<open>simp_all add: loginsKnown_def\<close>)
qed


end
