(* ===== verification/ArchiveOrder.thy ===== *)
theory ArchiveOrder
  imports ArchiveImport
begin

text \<open>
  The order in which an archive's folders are imported, \<open>topoSortFolders\<close> of \<open>internal/exporter/importer.go\<close>: what the
  depth first walk lists, that what it misses runs in a circle, and where an import falls short on concrete archives.
\<close>

section \<open>The walk over the lists of children\<close>

lemma visitAll_sub: "set todo \<subseteq> set fs \<Longrightarrow> set (visitAll idf parent fs todo visited) \<subseteq> set fs"
  by (induction idf parent fs todo visited rule: visitAll.induct) (auto simp: byParent_def)

lemma visitAll_ids: "distinct (map idf (visitAll idf parent fs todo visited)) \<and> idf ` set (visitAll idf parent fs todo visited) \<inter> set visited = {}"
  by (induction idf parent fs todo visited rule: visitAll.induct) auto

lemma visitAll_parents:
  assumes "\<And>f. f \<in> set todo \<Longrightarrow> keyOf parent f \<in> insert [] (set visited)" "visitAll idf parent fs todo visited = xs @ f # ys"
  shows "keyOf parent f \<in> insert [] (set visited \<union> idf ` set xs)"
  using assms
proof (induction idf parent fs todo visited arbitrary: xs rule: visitAll.induct)
  case (2 idf parent fs g todo visited)
  show ?case
  proof (cases "idf g \<in> set visited \<or> idf g \<notin> idf ` set fs")
    case True
    then show ?thesis using 2 by simp
  next
    case False
    show ?thesis
    proof (cases xs)
      case Nil
      then show ?thesis using False "2.prems" by simp
    next
      case (Cons x xs')
      then have "x = g" "visitAll idf parent fs (byParent parent fs (idf g) @ todo) (idf g # visited) = xs' @ f # ys"
        using False "2.prems"(2) Cons by auto
      then show ?thesis using "2.IH"(2) [OF False, of xs'] "2.prems"(1) Cons by (fastforce simp: byParent_def)
    qed
  qed
qed simp

lemma visitAll_closed:
  assumes "set todo \<subseteq> set fs"
  shows "idf ` set todo \<subseteq> set visited \<union> idf ` set (visitAll idf parent fs todo visited)"
    and "f \<in> set (visitAll idf parent fs todo visited) \<Longrightarrow> g \<in> set fs \<Longrightarrow> keyOf parent g = idf f \<Longrightarrow>
      idf g \<in> set visited \<union> idf ` set (visitAll idf parent fs todo visited)"
  using assms
proof (induction idf parent fs todo visited arbitrary: f g rule: visitAll.induct)
  case (2 idf parent fs h todo visited)
  {
    case 1
    show ?case
    proof (cases "idf h \<in> set visited \<or> idf h \<notin> idf ` set fs")
      case False
      then show ?thesis using 1 "2.IH"(3) [OF False] by (auto simp: byParent_def)
    qed (use 1 2 in auto)
  next
    case 2
    show ?case
    proof (cases "idf h \<in> set visited \<or> idf h \<notin> idf ` set fs")
      case False
      have s: "set (byParent parent fs (idf h) @ todo) \<subseteq> set fs" using 2 by (auto simp: byParent_def)
      show ?thesis
      proof (cases "f = h")
        case True
        then have "g \<in> set (byParent parent fs (idf h) @ todo)" using 2 by (simp add: byParent_def)
        then show ?thesis using "2.IH"(3) [OF False s] False by auto
      next
        case neq: False
        then show ?thesis using "2.IH"(4) [OF False _ _ _ s, of f g] 2 False by auto
      qed
    qed (use 2 "2.IH"(2) [of f g] in auto)
  }
qed simp_all

section \<open>Folders\<close>

text \<open>The parents of the folders of an archive.\<close>

definition upward :: "archiveFolder list \<Rightarrow> (string \<times> string) set" where
  "upward fs = {(i, p). parentOf fs i = Some p}"

text \<open>Different ids, none empty, and every parent in the archive: what the exporter writes.\<close>

definition wholeTree :: "archiveFolder list \<Rightarrow> bool" where
  "wholeTree fs \<longleftrightarrow> distinct (map afID fs) \<and> [] \<notin> afID ` set fs \<and> (\<forall>f\<in>set fs. \<forall>p. afParent f = Some p \<longrightarrow> p \<in> afID ` set fs)"

lemma parentOf_folder:
  assumes "distinct (map afID fs)" "f \<in> set fs"
  shows "parentOf fs (afID f) = afParent f"
proof -
  have "map_of (rev (map (\<lambda>f. (afID f, afParent f)) fs)) (afID f) = Some (afParent f)"
    using assms by (intro map_of_is_SomeI) (auto simp: rev_map [symmetric] comp_def)
  then show ?thesis by (simp add: parentOf_def)
qed

lemma comesBack_cycle: "comesBack fs seen cur \<Longrightarrow> \<forall>c. cur = Some c \<longrightarrow> (\<forall>s\<in>set seen. (s, c) \<in> (upward fs)\<^sup>+) \<Longrightarrow> \<not> acyclic (upward fs)"
proof (induction fs seen cur rule: comesBack.induct)
  case (2 fs seen cur)
  show ?case
  proof (cases "cur \<in> set seen")
    case True
    then show ?thesis using 2 by (auto simp: acyclic_def)
  next
    case False
    have "(s, c) \<in> (upward fs)\<^sup>+" if "parentOf fs cur = Some c" "s \<in> set (cur # seen)" for s c
      using that 2(3) by (auto simp: upward_def intro: trancl.trancl_into_trancl)
    then show ?thesis using 2(1,2) False by auto
  qed
qed simp

lemma hasCycle_cycle: "hasCycle i fs \<Longrightarrow> \<not> acyclic (upward fs)"
  unfolding hasCycle_def by (erule comesBack_cycle) (auto simp: upward_def)

text \<open>A walk that can always go on comes back.\<close>

lemma endless_comes_back:
  "\<forall>i\<in>S. \<exists>p\<in>S. parentOf fs i = Some p \<Longrightarrow> cur \<in> Some ` S \<Longrightarrow> comesBack fs seen cur"
proof (induction fs seen cur rule: comesBack.induct)
  case (2 fs seen cur)
  then obtain p where "p \<in> S" "parentOf fs cur = Some p" by auto
  then show ?case using "2.IH" "2.prems"(1) by (cases "cur \<in> set seen") auto
qed simp

lemma appendRest_find:
  "\<forall>f\<in>set xs. afID f \<notin> afID ` set out \<longrightarrow> hasCycle (afID f) fs \<Longrightarrow>
    appendRest fs xs out = (case find (\<lambda>f. afID f \<notin> afID ` set out) xs of None \<Rightarrow> Inr out | Some f \<Rightarrow> Inl (afID f))"
  by (induction xs) (auto simp del: image_iff)

abbreviation reached :: "archiveFolder list \<Rightarrow> archiveFolder list" where
  "reached fs \<equiv> visitAll afID afParent fs (byParent afParent fs []) []"

lemma reached_facts:
  "set (reached fs) \<subseteq> set fs" "distinct (map afID (reached fs))"
  "f \<in> set fs \<Longrightarrow> keyOf afParent f = [] \<Longrightarrow> afID f \<in> afID ` set (reached fs)"
  "f \<in> set (reached fs) \<Longrightarrow> g \<in> set fs \<Longrightarrow> keyOf afParent g = afID f \<Longrightarrow> afID g \<in> afID ` set (reached fs)"
  "reached fs = xs @ f # ys \<Longrightarrow> keyOf afParent f \<in> insert [] (afID ` set xs)"
proof -
  have r: "set (byParent afParent fs []) \<subseteq> set fs" by (auto simp: byParent_def)
  show "set (reached fs) \<subseteq> set fs" by (rule visitAll_sub [OF r])
  show "distinct (map afID (reached fs))" using visitAll_ids by blast
  show "afID f \<in> afID ` set (reached fs)" if "f \<in> set fs" "keyOf afParent f = []"
    using visitAll_closed(1) [OF r, of afID "[]" afParent] that by (auto simp: byParent_def)
  show "afID g \<in> afID ` set (reached fs)" if "f \<in> set (reached fs)" "g \<in> set fs" "keyOf afParent g = afID f"
    using visitAll_closed(2) [OF r that(1-3)] by simp
  show "keyOf afParent f \<in> insert [] (afID ` set xs)" if "reached fs = xs @ f # ys"
    using visitAll_parents [OF _ that] by (simp add: byParent_def)
qed

lemma unreached_cycle:
  assumes "wholeTree fs" "f \<in> set fs" "afID f \<notin> afID ` set (reached fs)"
  shows "hasCycle (afID f) fs"
proof -
  define S where "S = afID ` {g \<in> set fs. afID g \<notin> afID ` set (reached fs)}"
  have step: "\<exists>p\<in>S. parentOf fs (afID g) = Some p" if g: "g \<in> set fs" "afID g \<notin> afID ` set (reached fs)" for g
  proof -
    obtain p where p: "afParent g = Some p" "p \<noteq> []" using reached_facts(3) [OF g(1)] g(2) by (cases "afParent g") (auto simp: keyOf_def)
    have "p \<in> afID ` set fs" using assms(1) g(1) p(1) by (simp add: wholeTree_def)
    then obtain h where h: "h \<in> set fs" "afID h = p" by blast
    have "afID h \<notin> afID ` set (reached fs)"
    proof
      assume "afID h \<in> afID ` set (reached fs)"
      then obtain k where "k \<in> set (reached fs)" "afID k = p" using h(2) by auto
      then show False using reached_facts(4) [of k fs g] g p(1) by (simp add: keyOf_def)
    qed
    then have "p \<in> S" using h by (auto simp: S_def)
    moreover have "parentOf fs (afID g) = Some p" using parentOf_folder g(1) assms(1) p(1) by (simp add: wholeTree_def)
    ultimately show ?thesis by blast
  qed
  then have all: "\<forall>i\<in>S. \<exists>p\<in>S. parentOf fs i = Some p" by (auto simp: S_def)
  show ?thesis unfolding hasCycle_def by (rule endless_comes_back [OF all]) (use step [OF assms(2,3)] in auto)
qed

lemma reached_all:
  assumes "wholeTree fs" "afID ` set fs \<subseteq> afID ` set (reached fs)"
  shows "distinct (reached fs)" "set (reached fs) = set fs" "acyclic (upward fs)" "sorted_wrt (\<lambda>a b. afParent a \<noteq> Some (afID b)) (reached fs)"
proof -
  let ?out = "reached fs"
  have d: "distinct (map afID fs)" "distinct (map afID ?out)" using assms(1) reached_facts(2) by (simp_all add: wholeTree_def)
  have "set fs \<subseteq> set ?out"
  proof
    fix f
    assume f: "f \<in> set fs"
    then have "afID f \<in> afID ` set ?out" using assms(2) by blast
    then obtain g where "g \<in> set ?out" "afID g = afID f" by auto
    then show "f \<in> set ?out" using f d(1) reached_facts(1) [of fs] unfolding distinct_map inj_on_def by blast
  qed
  then have same: "set ?out = set fs" using reached_facts(1) by blast
  then show "set ?out = set fs" .
  show "distinct ?out" using d(2) by (simp add: distinct_map)
  have before: "p \<in> afID ` set xs" if "?out = xs @ f # ys" "afParent f = Some p" for xs f ys p
    using reached_facts(5) [OF that(1)] that assms(1) same by (auto simp: keyOf_def wholeTree_def)
  define place where "place i = length (takeWhile (\<lambda>f. afID f \<noteq> i) ?out)" for i
  have "place p < place i" if "(i, p) \<in> upward fs" for i p
  proof -
    have "i \<in> afID ` set fs" using that parentOf_Some by (simp add: upward_def)
    then obtain f where f: "f \<in> set fs" "afID f = i" by blast
    then have p: "afParent f = Some p" using that parentOf_folder [OF d(1) f(1)] by (simp add: upward_def)
    obtain xs ys where o: "?out = xs @ f # ys" using f(1) same by (metis split_list)
    have xs: "i \<notin> afID ` set xs" "p \<in> afID ` set xs" using d(2) f(2) before [OF o p] by (auto simp: o)
    have "place i = length xs" using xs(1) f(2) unfolding place_def o by (subst takeWhile_append2) (auto intro: rev_image_eqI)
    moreover have "place p < length xs"
    proof -
      obtain g where g: "g \<in> set xs" "afID g = p" using xs(2) by blast
      then have "takeWhile (\<lambda>f. afID f \<noteq> p) ?out = takeWhile (\<lambda>f. afID f \<noteq> p) xs" unfolding o by (intro takeWhile_append1) auto
      moreover have "length (takeWhile (\<lambda>f. afID f \<noteq> p) xs) < length xs"
        using g by (metis (mono_tags, lifting) length_takeWhile_le nat_less_le set_takeWhileD takeWhile_eq_take take_all_iff)
      ultimately show ?thesis by (simp add: place_def)
    qed
    ultimately show ?thesis by simp
  qed
  then show "acyclic (upward fs)" by (rule acyclicI_order)
  show "sorted_wrt (\<lambda>a b. afParent a \<noteq> Some (afID b)) ?out"
  proof (unfold sorted_wrt_iff_nth_less, intro allI impI notI)
    fix m n
    assume mn: "m < n" "n < length ?out" and p: "afParent (?out ! m) = Some (afID (?out ! n))"
    have "afID (?out ! n) \<in> afID ` set (take m ?out)" using before [OF id_take_nth_drop p] mn by simp
    then obtain k where "k < m" "afID (?out ! k) = afID (?out ! n)" using mn by (auto simp: in_set_conv_nth)
    then show False using d(2) mn by (auto simp: distinct_conv_nth)
  qed
qed



section \<open>Where an import falls short\<close>

text \<open>Folders whose parents run in a circle are refused, but the credentials were written before the order is computed.\<close>

lemma refused_archive_leaves_credentials:
  "case Apply exEnv exOpts (exArchive\<lparr>arFolders := [exFolder ''a'' (Some ''b''), exFolder ''b'' (Some ''a'')]\<rparr>) exDb of
     (FolderCycle _, db) \<Rightarrow> map crName (adCreds db) = [''login''] | _ \<Rightarrow> False"
  by code_simp

text \<open>The login of a database or Kafka tab keeps the id of the other machine, as does the network profile.\<close>

lemma database_login_dangles:
  "case Apply exEnv exOpts (exArchive\<lparr>arConns := [exConn ''web'' None (noSettings\<lparr>iAuthRef := Some ''login'', iDbCredentialRef := Some ''login''\<rparr>)]\<rparr>) exDb of
     (Imported s, db) \<Rightarrow> suWarnings s = [] \<and> map crID (adCreds db) = [''new-''] \<and>
        map (\<lambda>c. (iAuthRef (cOverrides c), iDbCredentialRef (cOverrides c))) (adConns db) = [(Some ''new-'', Some ''login'')] | _ \<Rightarrow> False"
  by code_simp

text \<open>A connection that was there is skipped, its forward is created again.\<close>

lemma skipped_connection_gets_forwards_again:
  "let db = snd (Apply exEnv exOpts exArchive exDb);
       again = exArchive\<lparr>arConns := [exConn ''new-iii'' None noSettings], arForwards := map (\<lambda>f. f\<lparr>pfConn := ''new-iii''\<rparr>) (arForwards exArchive), arSecrets := None\<rparr>
   in case Apply exEnv exOpts again db of
        (Imported s, db') \<Rightarrow> suConnsSkipped s = [''new-iii''] \<and> map pfConn (adForwards db) = [''new-iii''] \<and> map pfConn (adForwards db') = [''new-iii'', ''new-iii'']
      | _ \<Rightarrow> False"
  by code_simp

text \<open>A favourite comes in as an ordinary connection.\<close>

lemma favourite_is_lost:
  "case Apply exEnv exOpts (exArchive\<lparr>arConns := [(exConn ''web'' None noSettings)\<lparr>acFavorite := True\<rparr>]\<rparr>) exDb of
     (Imported s, db) \<Rightarrow> suWarnings s = [] \<and> map cFavorite (adConns db) = [False] | _ \<Rightarrow> False"
  by code_simp

text \<open>Key derivation parameters from the archive are used as they are, and zero is too few.\<close>

lemma zero_iterations_panic:
  "fst (Apply exEnv exOpts (exArchive\<lparr>arSecrets := map_option (sbIterations_update (\<lambda>_. 0)) (arSecrets exArchive)\<rparr>) exDb) = ImportPanicked"
  by code_simp

text \<open>A folder listed before its parent, whose own parent is missing, is sorted before it and goes to the root.\<close>

lemma orphans_child_goes_to_the_root:
  "case Apply exEnv exOpts (exArchive\<lparr>arFolders := [exFolder ''child'' (Some ''orphan''), exFolder ''orphan'' (Some ''missing'')], arConns := [], arForwards := []\<rparr>) exDb of
     (Imported s, db) \<Rightarrow> map (\<lambda>f. (fName f, fParentID f)) (adFolders db) = [(''old'', None), (''child'', None), (''orphan'', None)] | _ \<Rightarrow> False"
  by code_simp

text \<open>A dynamic folder whose credential is on this machine but not in the archive loses it.\<close>

lemma local_inventory_login_is_cleared:
  "let st = newImport exEnv (exDb\<lparr>adCreds := map (crID_update (\<lambda>_. ''here'')) (arCreds exArchive)\<rparr>);
       d = \<lparr>dfFolder = ''x'', dfProvider = ''proxmox'', dfConfig = [''jump_credential_id'' \<mapsto> CfgText ''here''], dfRefresh = 60\<rparr>;
       (row, st') = dynamicRow (exFolder ''x'' None) d ''x'' st
   in resolveAuthRef (existingRows exEnv (isDb st)) st ''here'' = Some ''here'' \<and> dfConfig row ''jump_credential_id'' = None"
  by code_simp

text \<open>When the connections cannot be listed, an import that should skip what is there creates it again.\<close>

lemma unreadable_list_duplicates:
  "let db = snd (Apply exEnv exOpts exArchive exDb)
   in case Apply (exEnv\<lparr>aeRead := (\<lambda>n. n \<noteq> 1), aeNewID := (\<lambda>n. ''later-'' @ replicate n (CHR ''i''))\<rparr>) exOpts (exArchive\<lparr>arConns := [exConn ''new-iii'' None noSettings], arSecrets := None, arForwards := []\<rparr>) db of
        (Imported s, db') \<Rightarrow> suConnsSkipped s = [] \<and> suConnsCreated s = [''new-iii''] \<and> length (adConns db') = 3 | _ \<Rightarrow> False"
  by code_simp

text \<open>Two credential folders of one name under one parent: the dry run announces two, the import makes one.\<close>

lemma preview_counts_credential_folders_twice:
  "let f = \<lambda>i. \<lparr>cfID = i, cfParent = None, cfName = ''ops'', cfIconImageID = None, cfIconName = None, cfIconColor = None\<rparr>;
       arc = exArchive\<lparr>arCredFolders := [f ''a'', f ''b'']\<rparr>
   in case (fst (Apply exEnv (exOpts\<lparr>ioDryRun := True\<rparr>) arc exDb), fst (Apply exEnv exOpts arc exDb)) of
        (Imported s, Imported s') \<Rightarrow> suCredFoldersCreated s = [''ops'', ''ops''] \<and> suCredFoldersCreated s' = [''ops''] | _ \<Rightarrow> False"
  by code_simp

end
