(* ===== verification/ArchivePreview.thy ===== *)
theory ArchivePreview
  imports ArchiveKeeps ArchiveOrder
begin

text \<open>
  The dry run of an import as its preview: run side by side with the import, it keeps the same summary as long as no
  statement fails. \<open>tracks\<close> says so of one pass, and the passes are put together at the end.
\<close>

section \<open>What a preview shows\<close>

text \<open>
  What a dry run shows: the names of the rows and the counts. Credential folders are left out, as a dry run counts two of
  one name under one parent twice, and so are restored secrets, which it does not count.
\<close>

definition previewOf :: "importSummary \<Rightarrow> importSummary" where
  "previewOf s = s\<lparr>suCredFoldersCreated := [], suCredFoldersSkipped := [], suSecrets := 0, suWarnings := []\<rparr>"

text \<open>No statement failed and no secret was unreadable.\<close>

definition noFailure :: "importSummary \<Rightarrow> bool" where
  "noFailure s \<longleftrightarrow> (\<forall>w\<in>set (suWarnings s). \<forall>a b. w \<noteq> Failed a b)"

abbreviation fine :: "importState \<Rightarrow> bool" where
  "fine st \<equiv> noFailure (isSum st) \<and> \<not> isPanic st"

definition alike :: "importState \<Rightarrow> importState \<Rightarrow> bool" where
  "alike d r \<longleftrightarrow> previewOf (isSum d) = previewOf (isSum r) \<and> dom (isConns d) = dom (isConns r) \<and> set (isEligible d) = set (isEligible r) \<and>
     set (isEligible r) \<subseteq> dom (isConns r) \<and> \<not> isPanic d"

lemma previewOf_parts:
  "previewOf (suWarnings_update a s) = previewOf s" "previewOf (suCredFoldersCreated_update b s) = previewOf s"
  "previewOf (suCredFoldersSkipped_update b s) = previewOf s" "previewOf (suSecrets_update c s) = previewOf s"
  by (simp_all add: previewOf_def)

lemma previewOf_cong:
  "previewOf s = previewOf t \<Longrightarrow> previewOf (suFoldersCreated_update f s) = previewOf (suFoldersCreated_update f t)"
  "previewOf s = previewOf t \<Longrightarrow> previewOf (suFoldersUpdated_update f s) = previewOf (suFoldersUpdated_update f t)"
  "previewOf s = previewOf t \<Longrightarrow> previewOf (suFoldersSkipped_update f s) = previewOf (suFoldersSkipped_update f t)"
  "previewOf s = previewOf t \<Longrightarrow> previewOf (suConnsCreated_update f s) = previewOf (suConnsCreated_update f t)"
  "previewOf s = previewOf t \<Longrightarrow> previewOf (suConnsUpdated_update f s) = previewOf (suConnsUpdated_update f t)"
  "previewOf s = previewOf t \<Longrightarrow> previewOf (suConnsSkipped_update f s) = previewOf (suConnsSkipped_update f t)"
  "previewOf s = previewOf t \<Longrightarrow> previewOf (suCredsCreated_update f s) = previewOf (suCredsCreated_update f t)"
  "previewOf s = previewOf t \<Longrightarrow> previewOf (suCredsSkipped_update f s) = previewOf (suCredsSkipped_update f t)"
  "previewOf s = previewOf t \<Longrightarrow> previewOf (suImages_update g s) = previewOf (suImages_update g t)"
  "previewOf s = previewOf t \<Longrightarrow> previewOf (suPasswords_update g s) = previewOf (suPasswords_update g t)"
  "previewOf s = previewOf t \<Longrightarrow> previewOf (suForwards_update g s) = previewOf (suForwards_update g t)"
  by (cases s, cases t, simp add: previewOf_def)+

lemma noFailure_parts:
  "noFailure (suFoldersCreated_update f s) = noFailure s" "noFailure (suFoldersUpdated_update f s) = noFailure s" "noFailure (suFoldersSkipped_update f s) = noFailure s"
  "noFailure (suConnsCreated_update f s) = noFailure s" "noFailure (suConnsUpdated_update f s) = noFailure s" "noFailure (suConnsSkipped_update f s) = noFailure s"
  "noFailure (suCredsCreated_update f s) = noFailure s" "noFailure (suCredsSkipped_update f s) = noFailure s" "noFailure (suCredFoldersCreated_update f s) = noFailure s"
  "noFailure (suCredFoldersSkipped_update f s) = noFailure s" "noFailure (suImages_update g s) = noFailure s" "noFailure (suPasswords_update g s) = noFailure s"
  "noFailure (suForwards_update g s) = noFailure s" "noFailure (suSecrets_update g s) = noFailure s"
  "noFailure (suWarnings_update (\<lambda>old. old @ ws) s) \<longleftrightarrow> noFailure s \<and> (\<forall>w\<in>set ws. \<forall>a b. w \<noteq> Failed a b)"
  by (auto simp: noFailure_def)

text \<open>The rewriting above, the state's fields and what the statements leave alone.\<close>

lemma sum_facts:
  "previewOf (isSum (warn ws st)) = previewOf (isSum st)" "previewOf (isSum (tryDb what name act st)) = previewOf (isSum st)"
  "previewOf (isSum (setIcon env opts old w name st)) = previewOf (isSum st)" "previewOf (isSum (setNamedIcon env opts icon color w name st)) = previewOf (isSum st)"
  "noFailure (isSum (warn ws st)) \<longleftrightarrow> noFailure (isSum st) \<and> (\<forall>w\<in>set ws. \<forall>a b. w \<noteq> Failed a b)"
  by (simp_all add: warn_def tryDb_def setIcon_def setNamedIcon_def previewOf_parts noFailure_parts inDb_def split: option.split prod.split sum.split)

lemma earlier_fine:
  "noFailure (isSum (tryDb what name act st)) \<Longrightarrow> noFailure (isSum st)" "noFailure (isSum (setIcon env opts old w name st)) \<Longrightarrow> noFailure (isSum st)"
  "noFailure (isSum (setNamedIcon env opts icon color w name st)) \<Longrightarrow> noFailure (isSum st)"
  by (auto simp: tryDb_def setIcon_def setNamedIcon_def inDb_def warn_def noFailure_parts split: option.splits prod.splits sum.splits if_splits)

lemma inDb_facts:
  assumes "inDb act st = (r, st')"
  shows "isSum st' = isSum st" "isConns st' = isConns st" "isEligible st' = isEligible st" "isPanic st' = isPanic st"
  using inDb_state [OF assms] by simp_all

lemma alike_real:
  "alike d (warn ws r) = alike d r" "alike d (tryDb what name act r) = alike d r" "alike d (setIcon env opts old w name r) = alike d r"
  "alike d (setNamedIcon env opts icon color w name r) = alike d r" "alike d (noteDropped ds r) = alike d r"
  "alike (warn ws d) r = alike d r" "alike (noteDropped ds d) r = alike d r"
  "alike d (r\<lparr>isImages := im\<rparr>) = alike d r" "alike d (r\<lparr>isCredFolders := cf\<rparr>) = alike d r" "alike d (r\<lparr>isCredFolders := cf, isNamed := nm\<rparr>) = alike d r"
  "alike d (r\<lparr>isCreds := cm\<rparr>) = alike d r" "alike d (r\<lparr>isFolders := fo\<rparr>) = alike d r" "alike d (r\<lparr>isFolders := fo, isWritten := wr\<rparr>) = alike d r"
  "alike (d\<lparr>isImages := im\<rparr>) r = alike d r" "alike (d\<lparr>isCredFolders := cf\<rparr>) r = alike d r" "alike (d\<lparr>isCreds := cm\<rparr>) r = alike d r"
  "alike (d\<lparr>isFolders := fo\<rparr>) r = alike d r" "alike (d\<lparr>isFolders := fo, isWritten := wr\<rparr>) r = alike d r"
  by (simp_all add: alike_def sum_facts)

lemma alike_sum:
  assumes "alike d r" "\<And>s t. previewOf s = previewOf t \<Longrightarrow> previewOf (g s) = previewOf (g t)"
  shows "alike (inSum g d) (inSum g r)"
  using assms(1) assms(2) [of "isSum d" "isSum r"] by (simp add: alike_def)

lemma alike_secret: "alike d (inSum (suSecrets_update g) r) = alike d r" "alike d (inSum (suCredFoldersCreated_update f) r) = alike d r"
  "alike d (inSum (suCredFoldersSkipped_update f) r) = alike d r" "alike (inSum (suCredFoldersCreated_update f) d) r = alike d r"
  "alike (inSum (suCredFoldersSkipped_update f) d) r = alike d r"
  by (simp_all add: alike_def previewOf_parts)

lemma alike_db: "inDb act r = (x, r') \<Longrightarrow> alike d r' = alike d r"
  by (simp only: alike_def inDb_facts)

lemma fine_db: "inDb act r = (x, r') \<Longrightarrow> fine r' = fine r"
  by (simp only: inDb_facts)

definition tracks :: "('a \<Rightarrow> importState \<Rightarrow> importState) \<Rightarrow> ('a \<Rightarrow> importState \<Rightarrow> importState) \<Rightarrow> bool" where
  "tracks fd fr \<longleftrightarrow> (\<forall>x d r. (fine (fr x r) \<longrightarrow> fine r) \<and> (alike d r \<and> fine (fr x r) \<longrightarrow> alike (fd x d) (fr x r)))"

lemma tracks_pass:
  assumes "tracks fd fr"
  shows "fine (pass fr xs r) \<Longrightarrow> fine r \<and> (alike d r \<longrightarrow> alike (pass fd xs d) (pass fr xs r))"
proof (induction xs arbitrary: d r)
  case (Cons x xs)
  have "fine (alive fr r x) \<and> (alike (alive fd d x) (alive fr r x) \<longrightarrow> alike (pass fd (x # xs) d) (pass fr (x # xs) r))"
    using Cons.IH [of "alive fr r x" "alive fd d x"] Cons.prems by (simp add: pass_def)
  moreover have "fine (alive fr r x) \<Longrightarrow> fine r \<and> (alike d r \<longrightarrow> alike (alive fd d x) (alive fr r x))"
    using spec [OF spec [OF spec [OF assms [unfolded tracks_def], of x], of d], of r]
    by (cases "isPanic r"; cases "isPanic d") (simp_all add: alive_def alike_def)
  ultimately show ?case by blast
qed (simp add: pass_def)

lemma tracksI:
  assumes "\<And>x r. fine (fr x r) \<Longrightarrow> fine r" "\<And>x d r. alike d r \<Longrightarrow> fine (fr x r) \<Longrightarrow> alike (fd x d) (fr x r)"
  shows "tracks fd fr"
  unfolding tracks_def
proof (intro allI conjI impI)
  fix x d r
  show "noFailure (isSum r)" "\<not> isPanic r" if "fine (fr x r)" using assms(1) [OF that] by simp_all
  show "alike (fd x d) (fr x r)" if "alike d r \<and> fine (fr x r)" using assms(2) that by blast
qed

abbreviation dried :: "importOptions \<Rightarrow> importOptions" where
  "dried opts \<equiv> opts\<lparr>ioDryRun := True\<rparr>"

lemma tracks_image:
  assumes "\<not> ioDryRun opts"
  shows "tracks (importImage env (dried opts)) (importImage env opts)"
proof (rule tracksI)
  fix img :: archiveImage and d r
  obtain x r1 where i: "inDb (PutImage env (the (b64Decode (aiB64 img))) (aiMIME img)) r = (x, r1)" by fastforce
  show "fine r" if "fine (importImage env opts img r)"
    using that assms i fine_db [OF i] by (auto simp: importImage_def sum_facts noFailure_parts split: option.splits sum.splits if_splits)
  show "alike (importImage env (dried opts) img d) (importImage env opts img r)" if "alike d r" "fine (importImage env opts img r)"
    using that assms i alike_db [OF i, of d]
    by (auto simp: importImage_def alike_real sum_facts split: option.splits sum.splits if_splits intro!: alike_sum previewOf_cong)
qed

lemma tracks_cred_folder:
  assumes "\<not> ioDryRun opts"
  shows "tracks (importCredFolder env (dried opts) have) (importCredFolder env opts have)"
proof (rule tracksI)
  fix f :: credFolderRow and d r :: importState
  define p where "p = remapFolderID (cfParent f) (isCredFolders r)"
  define r1 where "r1 = (if cfParent f \<noteq> None \<and> p = None then warn [Lacks ''credential folder parent'' (cfName f)] r else r)"
  have r1: "fine r1 = fine r" "alike d r1 = alike d r" for d by (auto simp: r1_def sum_facts alike_real)
  obtain x r2 where i: "inDb (CreateCredentialFolder env (cfName f) p) (inSum (suCredFoldersCreated_update (\<lambda>l. l @ [cfName f])) r1) = (x, r2)" by fastforce
  note real = importCredFolder_def [of env opts "have" f r, unfolded Let_def, folded p_def, folded r1_def]
  show "fine r" if "fine (importCredFolder env opts have f r)"
  proof -
    have "fine r1" using that assms i fine_db [OF i] unfolding real
      by (auto simp: sum_facts noFailure_parts r1(1) [simplified] split: option.splits sum.splits if_splits dest!: earlier_fine)
    then show ?thesis using r1(1) by blast
  qed
  show "alike (importCredFolder env (dried opts) have f d) (importCredFolder env opts have f r)" if a: "alike d r" "fine (importCredFolder env opts have f r)"
  proof -
    have dr: "alike (importCredFolder env (dried opts) have f d) s = alike d s" for s
      by (auto simp: importCredFolder_def Let_def alike_real alike_secret split: option.split)
    have "alike d (importCredFolder env opts have f r) = alike d r"
      unfolding real using assms i alike_db [OF i, of d] r1(2) [of d] by (auto simp: alike_real alike_secret split: option.split sum.split)
    then show ?thesis using dr a(1) by simp
  qed
qed

text \<open>Steps that only touch the store and the warnings: they keep what the preview shows and repair nothing.\<close>

definition harmless :: "importState \<Rightarrow> importState \<Rightarrow> bool" where
  "harmless r r' \<longleftrightarrow> (fine r' \<longrightarrow> fine r) \<and> previewOf (isSum r') = previewOf (isSum r) \<and> dom (isConns r') = dom (isConns r) \<and> isEligible r' = isEligible r"

lemma harmless_same: "harmless r r"
  by (simp add: harmless_def)

lemma harmless_alike: "harmless r r' \<Longrightarrow> alike d r' = alike d r"
  by (simp add: harmless_def alike_def)

lemma harmless_steps:
  assumes "harmless r s"
  shows "harmless r (warn ws s)" "harmless r (tryDb what name act s)" "harmless r (setIcon env opts old w name s)"
    "harmless r (setNamedIcon env opts icon color w name s)" "harmless r (noteDropped ds s)" "harmless r (inSum (suSecrets_update g) s)"
    "harmless r (s\<lparr>isPanic := True\<rparr>)" "harmless r (s\<lparr>isDb := db\<rparr>)"
    "harmless r (s\<lparr>isImages := im\<rparr>)" "harmless r (s\<lparr>isCreds := cm\<rparr>)" "harmless r (s\<lparr>isFolders := fm, isWritten := wr\<rparr>)"
    "harmless r (inSum (suCredFoldersCreated_update f) s)" "harmless r (inSum (suCredFoldersSkipped_update f) s)"
  using assms by (auto simp: harmless_def sum_facts previewOf_parts noFailure_parts dest: earlier_fine)

lemma harmless_db:
  assumes "harmless r s" "inDb act s = (x, s')"
  shows "harmless r s'"
  using assms(1) unfolding harmless_def inDb_facts [OF assms(2)] .

lemma restoreSecret_harmless:
  assumes "harmless r s"
  shows "harmless r (restoreSecret env opts block c n s)"
proof (cases block)
  case (Some b)
  show ?thesis
  proof (cases "DecryptSecret env (ioPassphrase opts) b (crID c)")
    case (Inr plain)
    obtain r1 st1 where i: "inDb (storeSecret env n plain) s = (r1, st1)" by fastforce
    show ?thesis
    proof (cases r1)
      case key: (Inr key)
      obtain r2 st2 where j: "inDb (SetCredentialVaultKey env n key) st1 = (r2, st2)" by fastforce
      show ?thesis using Some Inr i key j harmless_db [OF harmless_db [OF assms i] j] assms
        by (cases r2) (simp_all add: restoreSecret_def harmless_steps)
    qed (use Some Inr i harmless_db [OF assms i] assms in \<open>simp add: restoreSecret_def harmless_steps\<close>)
  qed (use Some assms in \<open>simp add: restoreSecret_def harmless_steps\<close>)
qed (use assms in \<open>simp add: restoreSecret_def\<close>)


lemma tracks_harmless:
  assumes "\<And>x r. fine (fr x r) \<Longrightarrow> \<exists>m. harmless m (fr x r) \<and> (fine m \<longrightarrow> fine r) \<and> (\<forall>d. alike d r \<longrightarrow> alike (fd x d) m)"
  shows "tracks fd fr"
proof (rule tracksI)
  fix x d r
  assume f: "fine (fr x r)"
  obtain m where m: "harmless m (fr x r)" "fine m \<longrightarrow> fine r" "\<forall>d. alike d r \<longrightarrow> alike (fd x d) m" using assms [OF f] by blast
  show "fine r" using m(1,2) f by (simp add: harmless_def)
  show "alike (fd x d) (fr x r)" if "alike d r" using m(3) that harmless_alike [OF m(1)] by blast
qed

lemma tracks_cred:
  assumes "\<not> ioDryRun opts"
  shows "tracks (importCred env (dried opts) ex block) (importCred env opts ex block)"
proof (rule tracks_harmless)
  fix c :: credentialRow and r :: importState
  let ?r1 = "inSum (suCredsCreated_update (\<lambda>l. l @ [crName c])) r"
  obtain x r2 where i: "inDb (CreateCredential env (\<lambda>i. c\<lparr>crID := i, crFolder := remapFolderID (crFolder c) (isCredFolders ?r1),
                    crVaultKey := None, crIconImageID := None, crIconName := None, crIconColor := None\<rparr>)) ?r1 = (x, r2)" by fastforce
  show "\<exists>m. harmless m (importCred env opts ex block c r) \<and> (fine m \<longrightarrow> fine r) \<and> (\<forall>d. alike d r \<longrightarrow> alike (importCred env (dried opts) ex block c d) m)"
  proof (cases "crID c \<in> set (exCreds ex)")
    case True
    then have "alike (importCred env (dried opts) ex block c d) (importCred env opts ex block c r)" if "alike d r" for d
      using that by (auto simp: importCred_def alike_real intro!: alike_sum previewOf_cong)
    then show ?thesis using True by (intro exI [of _ "importCred env opts ex block c r"]) (simp add: harmless_same importCred_def noFailure_parts)
  next
    case False
    have "harmless ?r1 r2" by (rule harmless_db [OF harmless_same i])
    then have "harmless ?r1 (importCred env opts ex block c r)"
      using False assms i by (auto simp: importCred_def Let_def harmless_steps restoreSecret_harmless split: sum.split)
    moreover have "alike (importCred env (dried opts) ex block c d) ?r1" if "alike d r" for d
      using that False by (auto simp: importCred_def alike_real intro!: alike_sum previewOf_cong)
    ultimately show ?thesis by (intro exI [of _ ?r1]) (simp add: noFailure_parts)
  qed
qed

lemma overwriteDynamic_harmless: "harmless r s \<Longrightarrow> harmless r (overwriteDynamic env f s)"
  by (auto simp: overwriteDynamic_def dynamicRow_def Let_def harmless_steps split: option.split prod.split)

lemma overwriteFolder_harmless:
  "harmless (inSum (suFoldersUpdated_update (\<lambda>l. l @ [afName f])) r) (overwriteFolder env opts ex f r)"
  (is "harmless ?m _")
proof -
  have "harmless ?m (inSum (suFoldersUpdated_update (\<lambda>l. l @ [afName f])) (r\<lparr>isFolders := fm, isWritten := wr\<rparr>))" for fm wr
    by (simp add: harmless_def)
  then show ?thesis
    by (auto simp: overwriteFolder_def Let_def overwriteDynamic_harmless harmless_steps split: prod.split)
qed

lemma createFolder_harmless:
  assumes "\<not> ioDryRun opts"
  shows "harmless (inSum (suFoldersCreated_update (\<lambda>l. l @ [afName f])) r) (createFolder env opts ex f r)"
  (is "harmless ?m _")
proof -
  define st1 where "st1 = ?m"
  define parent where "parent = remapFolderID (afParent f) (isFolders st1)"
  define st2 where "st2 = (if afParent f \<noteq> None \<and> parent = None then warn [Lacks ''folder parent'' (afName f)] st1 else st1)"
  define target where "target = (if parent = None \<and> ioTarget opts \<noteq> [] then Some (ioTarget opts) else parent)"
  obtain settings dropped where s: "remapAuthRefInSettings (resolveAuthRef ex st2) (afSettings f) = (settings, dropped)" by fastforce
  obtain x st4 where i: "inDb (CreateFolder env \<lparr>nfParent = target, nfName = afName f, nfSettings = settings\<rparr>) (noteDropped dropped st2) = (x, st4)"
    by fastforce
  have "harmless ?m st1" by (simp add: st1_def harmless_same)
  then have "harmless ?m st2" by (auto simp: st2_def harmless_steps)
  then have q: "harmless ?m st4" by (intro harmless_db [OF _ i] harmless_steps)
  note real = createFolder_def [of env opts ex f r, unfolded Let_def, folded st1_def, folded parent_def, folded target_def st2_def, unfolded s prod.case i]
  show ?thesis
    unfolding real using assms q i
    by (auto simp: dynamicRow_def Let_def harmless_steps split: sum.split option.split prod.split)
qed

lemma dry_folder:
  "alike (createFolder env (dried opts) ex f d) r = alike (inSum (suFoldersCreated_update (\<lambda>l. l @ [afName f])) d) r"
  "alike (overwriteFolder env (dried opts) ex f d) r = alike (inSum (suFoldersUpdated_update (\<lambda>l. l @ [afName f])) d) r"
proof -
  have warned: "alike (if b then warn ws s else s) r = alike s r" for b ws s by (simp add: alike_real)
  have dry: "ioDryRun (dried opts)" by simp
  show "alike (createFolder env (dried opts) ex f d) r = alike (inSum (suFoldersCreated_update (\<lambda>l. l @ [afName f])) d) r"
    by (simp only: createFolder_def Let_def dry if_True prod.case_eq_if alike_real warned)
  show "alike (overwriteFolder env (dried opts) ex f d) r = alike (inSum (suFoldersUpdated_update (\<lambda>l. l @ [afName f])) d) r"
    by (simp add: overwriteFolder_def alike_def)
qed

text \<open>A count or a name that both runs add.\<close>

lemma both_add:
  assumes "\<And>s t. previewOf s = previewOf t \<Longrightarrow> previewOf (g s) = previewOf (g t)" "\<And>s. noFailure (g s) = noFailure s"
    "harmless (inSum g r) r'" "\<And>d. alike (f d) (inSum g r) = alike (inSum g d) (inSum g r)"
  shows "\<exists>m. harmless m r' \<and> (fine m \<longrightarrow> fine r) \<and> (\<forall>d. alike d r \<longrightarrow> alike (f d) m)"
proof (intro exI conjI allI impI)
  show "harmless (inSum g r) r'" by (rule assms(3))
  show "noFailure (isSum r)" "\<not> isPanic r" if "fine (inSum g r)" using that by (simp_all add: assms(2))
  show "alike (f d) (inSum g r)" if "alike d r" for d unfolding assms(4) using that assms(1) by (rule alike_sum)
qed

lemma tracks_folder:
  assumes "\<not> ioDryRun opts"
  shows "tracks (importFolder env (dried opts) ex) (importFolder env opts ex)"
proof (rule tracks_harmless)
  fix f :: archiveFolder and r :: importState
  have create: "\<exists>m. harmless m (createFolder env opts ex g r) \<and> (fine m \<longrightarrow> fine r) \<and> (\<forall>d. alike d r \<longrightarrow> alike (createFolder env (dried opts) ex g d) m)" for g
    by (rule both_add [OF previewOf_cong(1) noFailure_parts(1) createFolder_harmless [OF assms] dry_folder(1)])
  have over: "\<exists>m. harmless m (overwriteFolder env opts ex f r) \<and> (fine m \<longrightarrow> fine r) \<and> (\<forall>d. alike d r \<longrightarrow> alike (overwriteFolder env (dried opts) ex f d) m)"
    by (rule both_add [OF previewOf_cong(2) noFailure_parts(2) overwriteFolder_harmless dry_folder(2)])
  have skip: "\<exists>m. harmless m (inSum (suFoldersSkipped_update g) (r\<lparr>isFolders := (isFolders r)(i \<mapsto> i)\<rparr>)) \<and> (fine m \<longrightarrow> fine r) \<and>
      (\<forall>d. alike d r \<longrightarrow> alike (inSum (suFoldersSkipped_update g) (d\<lparr>isFolders := (isFolders d)(i \<mapsto> i)\<rparr>)) m)" for g i
  proof (rule both_add [OF previewOf_cong(3) noFailure_parts(3)])
    show "harmless (inSum (suFoldersSkipped_update g) r) (inSum (suFoldersSkipped_update g) (r\<lparr>isFolders := (isFolders r)(i \<mapsto> i)\<rparr>))" by (simp add: harmless_def)
    show "alike (inSum (suFoldersSkipped_update g) (d\<lparr>isFolders := (isFolders d)(i \<mapsto> i)\<rparr>)) s = alike (inSum (suFoldersSkipped_update g) d) s" for d s
      by (simp add: alike_def)
  qed assumption
  show "\<exists>m. harmless m (importFolder env opts ex f r) \<and> (fine m \<longrightarrow> fine r) \<and> (\<forall>d. alike d r \<longrightarrow> alike (importFolder env (dried opts) ex f d) m)"
    using create over skip by (cases "ioConflict opts"; cases "afID f \<in> set (exFolders ex)") (simp_all add: importFolder_def)
qed

text \<open>A connection is entered into the table of connections as well, under an id of its own.\<close>

lemma both_enter:
  assumes "\<And>s t. previewOf s = previewOf t \<Longrightarrow> previewOf (g s) = previewOf (g t)" "\<And>s. noFailure (g s) = noFailure s"
    "harmless (inSum g (r\<lparr>isEligible := i # isEligible r\<rparr>)) r1" "harmless (r1\<lparr>isConns := (isConns r1)(i \<mapsto> n)\<rparr>) r'"
    "\<And>d s. alike (f d) s = alike (inSum g (d\<lparr>isEligible := i # isEligible d, isConns := (isConns d)(i \<mapsto> i)\<rparr>)) s"
  shows "\<exists>m. harmless m r' \<and> (fine m \<longrightarrow> fine r) \<and> (\<forall>d. alike d r \<longrightarrow> alike (f d) m)"
proof (intro exI conjI allI impI)
  show "harmless (r1\<lparr>isConns := (isConns r1)(i \<mapsto> n)\<rparr>) r'" by (rule assms(4))
  show "noFailure (isSum r)" "\<not> isPanic r" if "fine (r1\<lparr>isConns := (isConns r1)(i \<mapsto> n)\<rparr>)"
    using that assms(3) by (simp_all add: harmless_def assms(2))
  fix d
  assume a: "alike d r"
  then have "previewOf (g (isSum d)) = previewOf (g (isSum r))" by (intro assms(1)) (simp add: alike_def)
  moreover have "previewOf (isSum r1) = previewOf (g (isSum r))" "dom (isConns r1) = dom (isConns r)" "isEligible r1 = i # isEligible r"
    using assms(3) by (simp_all add: harmless_def)
  ultimately show "alike (f d) (r1\<lparr>isConns := (isConns r1)(i \<mapsto> n)\<rparr>)"
    using a unfolding assms(5) unfolding alike_def by auto
qed

lemma createConn_enters:
  assumes "\<not> ioDryRun opts" "fine (createConn env opts ex c r)"
  shows "\<exists>r1 n. harmless (inSum (suConnsCreated_update (\<lambda>l. l @ [acName c])) (r\<lparr>isEligible := acID c # isEligible r\<rparr>)) r1 \<and>
    harmless (r1\<lparr>isConns := (isConns r1)(acID c \<mapsto> n)\<rparr>) (createConn env opts ex c r)"
proof -
  define st1 where "st1 = inSum (suConnsCreated_update (\<lambda>l. l @ [acName c])) (r\<lparr>isEligible := acID c # isEligible r\<rparr>)"
  define fid where "fid = remapFolderID (acFolder c) (isFolders st1)"
  define st2 where "st2 = (if acFolder c \<noteq> None \<and> fid = None then warn [Lacks ''conn folder'' (acName c)] st1 else st1)"
  obtain overrides dropped where s: "remapAuthRefInSettings (resolveAuthRef ex st2) (acOverrides c) = (overrides, dropped)" by fastforce
  obtain x st3 where i: "inDb (CreateConnection env \<lparr>nwFolder = connFolder opts fid, nwName = acName c, nwHostname = acHostname c, nwProtocol = acProtocol c,
                  nwShell = acShell c, nwOverrides = overrides, nwTags = acTags c, nwNotes = acNotes c\<rparr>) (noteDropped dropped st2) = (x, st3)" by fastforce
  have "harmless st1 st2" by (auto simp: st2_def intro: harmless_steps harmless_same)
  then have q: "harmless st1 st3" by (intro harmless_db [OF _ i] harmless_steps)
  note real = createConn_def [of env opts ex c r, unfolded Let_def, folded st1_def, folded fid_def, folded st2_def, unfolded s prod.case i, unfolded if_not_P [OF assms(1)]]
  obtain n where n: "x = Inr n" using assms(2) unfolding real by (cases x) (simp_all add: sum_facts)
  have "harmless (st3\<lparr>isConns := (isConns st3)(acID c \<mapsto> n)\<rparr>) (createConn env opts ex c r)"
    unfolding real n by (simp add: harmless_steps harmless_same)
  then show ?thesis using q unfolding st1_def by blast
qed

lemma overwriteConn_enters:
  "\<exists>r1 n. harmless (inSum (suConnsUpdated_update (\<lambda>l. l @ [acName c])) (r\<lparr>isEligible := acID c # isEligible r\<rparr>)) r1 \<and>
    harmless (r1\<lparr>isConns := (isConns r1)(acID c \<mapsto> n)\<rparr>) (overwriteConn env opts ex c r)"
proof -
  define st1 where "st1 = inSum (suConnsUpdated_update (\<lambda>l. l @ [acName c])) (r\<lparr>isEligible := acID c # isEligible r\<rparr>)"
  obtain overrides dropped where s: "remapAuthRefInSettings (resolveAuthRef ex st1) (acOverrides c) = (overrides, dropped)" by fastforce
  have "\<exists>st2. harmless st1 st2 \<and> overwriteConn env opts ex c r = st2\<lparr>isConns := (isConns st2)(acID c \<mapsto> acID c)\<rparr>"
    unfolding overwriteConn_def Let_def st1_def [symmetric] s prod.case by (rule exI, rule conjI [rotated], rule refl) (simp add: harmless_steps harmless_same)
  then show ?thesis unfolding st1_def using harmless_same by metis
qed

lemma dry_conn:
  "alike (createConn env (dried opts) ex c d) s =
     alike (inSum (suConnsCreated_update (\<lambda>l. l @ [acName c])) (d\<lparr>isEligible := acID c # isEligible d, isConns := (isConns d)(acID c \<mapsto> acID c)\<rparr>)) s"
  "alike (overwriteConn env (dried opts) ex c d) s =
     alike (inSum (suConnsUpdated_update (\<lambda>l. l @ [acName c])) (d\<lparr>isEligible := acID c # isEligible d, isConns := (isConns d)(acID c \<mapsto> acID c)\<rparr>)) s"
  by (simp_all add: createConn_def overwriteConn_def alike_def)

lemma tracks_conn:
  assumes "\<not> ioDryRun opts"
  shows "tracks (importConn env (dried opts) ex) (importConn env opts ex)"
proof (rule tracks_harmless)
  fix c :: archiveConn and r :: importState
  assume f: "fine (importConn env opts ex c r)"
  have create: "\<exists>m. harmless m (createConn env opts ex g r) \<and> (fine m \<longrightarrow> fine r) \<and> (\<forall>d. alike d r \<longrightarrow> alike (createConn env (dried opts) ex g d) m)"
    if "fine (createConn env opts ex g r)" for g
    using createConn_enters [OF assms that] by (elim exE conjE) (rule both_enter [OF previewOf_cong(4) noFailure_parts(4) _ _ dry_conn(1)])
  have over: "\<exists>m. harmless m (overwriteConn env opts ex c r) \<and> (fine m \<longrightarrow> fine r) \<and> (\<forall>d. alike d r \<longrightarrow> alike (overwriteConn env (dried opts) ex c d) m)"
    using overwriteConn_enters [of c r env opts ex] by (elim exE conjE) (rule both_enter [OF previewOf_cong(5) noFailure_parts(5) _ _ dry_conn(2)])
  have skip: "\<exists>m. harmless m (inSum (suConnsSkipped_update g) (r\<lparr>isConns := (isConns r)(i \<mapsto> i)\<rparr>)) \<and> (fine m \<longrightarrow> fine r) \<and>
      (\<forall>d. alike d r \<longrightarrow> alike (inSum (suConnsSkipped_update g) (d\<lparr>isConns := (isConns d)(i \<mapsto> i)\<rparr>)) m)" for g i
  proof (intro exI conjI allI impI)
    show "alike (inSum (suConnsSkipped_update g) (d\<lparr>isConns := (isConns d)(i \<mapsto> i)\<rparr>)) (inSum (suConnsSkipped_update g) (r\<lparr>isConns := (isConns r)(i \<mapsto> i)\<rparr>))"
      if "alike d r" for d
      using that by (intro alike_sum previewOf_cong) (auto simp: alike_def)
  qed (simp_all add: harmless_same noFailure_parts)
  show "\<exists>m. harmless m (importConn env opts ex c r) \<and> (fine m \<longrightarrow> fine r) \<and> (\<forall>d. alike d r \<longrightarrow> alike (importConn env (dried opts) ex c d) m)"
    using create over skip f by (cases "ioConflict opts"; cases "acID c \<in> set (exConns ex)") (simp_all add: importConn_def)
qed

lemma jumps_harmless: "harmless r s \<Longrightarrow> harmless r (folderJumps env ex f s)" "harmless r s \<Longrightarrow> harmless r (connJumps env ex c s)"
  by (auto simp: folderJumps_def connJumps_def Let_def harmless_steps split: option.split prod.split)

lemma pass_harmless: "(\<And>x r s. harmless r s \<Longrightarrow> harmless r (fr x s)) \<Longrightarrow> harmless r s \<Longrightarrow> harmless r (pass fr xs s)"
  by (induction xs arbitrary: s) (simp_all add: pass_def alive_def)

lemma tracks_forward:
  assumes "\<not> ioDryRun opts"
  shows "tracks (importForward env (dried opts)) (importForward env opts)"
proof (rule tracks_harmless)
  fix f :: portForward and r :: importState
  assume f: "fine (importForward env opts f r)"
  show "\<exists>m. harmless m (importForward env opts f r) \<and> (fine m \<longrightarrow> fine r) \<and> (\<forall>d. alike d r \<longrightarrow> alike (importForward env (dried opts) f d) m)"
  proof (cases "isConns r (pfConn f)")
    case None
    then have "isConns d (pfConn f) = None" if "alike d r" for d using that by (auto simp: alike_def)
    then show ?thesis using None by (intro exI [of _ r]) (simp add: importForward_def harmless_steps harmless_same alike_real)
  next
    case (Some n)
    obtain x st1 where i: "inDb (CreatePortForward env \<lparr>npConn = n, newPortForward.npKind = pfKind f, npLocalAddr = pfLocalAddr f, npLocalPort = pfLocalPort f,
                  npRemoteHost = pfRemoteHost f, npRemotePort = pfRemotePort f, npAutoStart = pfAutoStart f, npDesc = pfDesc f\<rparr>) r = (x, st1)" by fastforce
    have x: "\<exists>p. x = Inr p" using f Some assms i by (cases x) (auto simp: importForward_def sum_facts)
    define st2 where "st2 = (if pfBookmarks f = [] then st1 else tryDb ''forward bookmarks'' (pfConn f) (SetPortForwardBookmarks env (projr x) (pfBookmarks f)) st1)"
    have "harmless r st2" unfolding st2_def using harmless_db [OF harmless_same i] by (simp add: harmless_steps)
    then have q: "harmless (inSum (suForwards_update Suc) r) (inSum (suForwards_update Suc) st2)" by (auto simp: harmless_def noFailure_parts intro: previewOf_cong)
    have real: "importForward env opts f r = inSum (suForwards_update Suc) st2" using Some assms i x by (auto simp: importForward_def st2_def)
    have "alike (importForward env (dried opts) f d) (inSum (suForwards_update Suc) r)" if "alike d r" for d
    proof -
      have "isConns d (pfConn f) \<noteq> None" using that Some by (auto simp: alike_def)
      then show ?thesis using that by (auto simp: importForward_def intro!: alike_sum previewOf_cong)
    qed
    then show ?thesis using q unfolding real by (intro exI [of _ "inSum (suForwards_update Suc) r"]) (simp add: noFailure_parts)
  qed
qed

lemma importPassword_harmless:
  assumes "\<not> ioDryRun opts" "fine (importPassword env opts b old r)" "old \<in> set (isEligible r)" "ioPassphrase opts \<noteq> []" "isConns r old = Some n"
  shows "\<exists>s. harmless r s \<and> importPassword env opts b old r = inSum (suPasswords_update Suc) s"
proof -
  obtain plain where p: "DecryptConnPassword env (ioPassphrase opts) b old = Inr plain"
    using assms by (cases "DecryptConnPassword env (ioPassphrase opts) b old") (auto simp: importPassword_def sum_facts split: if_splits)
  obtain r1 st1 where i: "inDb (storeSecret env n plain) r = (r1, st1)" by fastforce
  obtain key where k: "r1 = Inr key" using assms p i by (cases r1) (auto simp: importPassword_def sum_facts)
  obtain r2 st2 where j: "inDb (SetConnectionPasswordKey env n key) st1 = (r2, st2)" by fastforce
  have "\<exists>u. r2 = Inr u" using assms p i k j by (cases r2) (auto simp: importPassword_def sum_facts)
  then have "importPassword env opts b old r = inSum (suPasswords_update Suc) st2" using assms p i k j by (auto simp: importPassword_def)
  then show ?thesis using harmless_db [OF harmless_db [OF harmless_same i] j] by blast
qed

lemma tracks_password:
  assumes "\<not> ioDryRun opts"
  shows "tracks (importPassword env (dried opts) b) (importPassword env opts b)"
proof (rule tracksI)
  fix old r
  assume f: "fine (importPassword env opts b old r)"
  have kinds: "(old \<in> set (isEligible r) \<and> ioPassphrase opts \<noteq> [] \<and> isConns r old \<noteq> None \<and>
        (\<exists>s. harmless r s \<and> importPassword env opts b old r = inSum (suPasswords_update Suc) s)) \<or>
      (old \<notin> set (isEligible r) \<or> ioPassphrase opts = [] \<or> isConns r old = None) \<and> harmless r (importPassword env opts b old r)"
    if "fine (importPassword env opts b old r)" for r
    using importPassword_harmless [OF assms that]
    by (cases "isConns r old"; cases "old \<in> set (isEligible r)"; cases "ioPassphrase opts = []")
      (simp_all add: importPassword_def harmless_steps harmless_same assms)
  show "fine r" using kinds [OF f] f by (auto simp: harmless_def noFailure_parts)
next
  fix old d r
  assume a: "alike d r" and f: "fine (importPassword env opts b old r)"
  have e: "old \<in> set (isEligible d) \<longleftrightarrow> old \<in> set (isEligible r)" using a by (simp add: alike_def)
  show "alike (importPassword env (dried opts) b old d) (importPassword env opts b old r)"
  proof (cases "old \<in> set (isEligible r) \<and> ioPassphrase opts \<noteq> []")
    case True
    obtain n where "isConns r old = Some n" using True a by (auto simp: alike_def)
    then obtain s where s: "harmless r s" "importPassword env opts b old r = inSum (suPasswords_update Suc) s"
      using importPassword_harmless [OF assms f] True by blast
    have "alike (inSum (suPasswords_update Suc) d) (inSum (suPasswords_update Suc) s)"
      using a s(1) by (intro alike_sum previewOf_cong) (simp add: harmless_alike)
    moreover have "importPassword env (dried opts) b old d = inSum (suPasswords_update Suc) d" using True e by (simp add: importPassword_def)
    ultimately show ?thesis by (simp only: s(2))
  next
    case False
    then show ?thesis using a e by (auto simp: importPassword_def alike_real)
  qed
qed

lemma dried_rest:
  assumes "\<not> ioDryRun opts" "fine (importRest env opts arc (importTree env opts ex arc order r))"
  shows "fine r" "alike d r \<Longrightarrow>
    alike (importRest env (dried opts) arc (importTree env (dried opts) ex arc order d)) (importRest env opts arc (importTree env opts ex arc order r))"
proof -
  let ?tree = "\<lambda>o1 s. pass (importConn env o1 ex) (arConns arc) (pass (importFolder env o1 ex) order s)"
  let ?jumps = "\<lambda>s. pass (connJumps env ex) (arConns arc) (pass (folderJumps env ex) (arFolders arc) s)"
  let ?words = "\<lambda>o1 s. case arSecrets arc of None \<Rightarrow> s | Some b \<Rightarrow> pass (importPassword env o1 b) (sortStrings (map fst (sbConnCipherBy b))) s"
  let ?forwards = "\<lambda>o1 s. pass (importForward env o1) (arForwards arc) s"
  let ?last = "\<lambda>s. if isPanic s \<or> isDropped s = [] then s else warn [DroppedRefs (length (remdups (isDropped s)))] s"
  define r1 where "r1 = ?tree opts r"
  define r2 where "r2 = ?words opts (?jumps r1)"
  define r3 where "r3 = ?forwards opts r2"
  define d1 where "d1 = ?tree (dried opts) d"
  define d2 where "d2 = ?words (dried opts) d1"
  define d3 where "d3 = ?forwards (dried opts) d2"
  have real: "importRest env opts arc (importTree env opts ex arc order r) = ?last r3"
    unfolding importRest_def importTree_def Let_def if_not_P [OF assms(1)] r3_def r2_def r1_def ..
  have "ioDryRun (dried opts)" by simp
  note dry = importRest_def [of env "dried opts", unfolded Let_def] importTree_def [of env "dried opts", unfolded Let_def if_P [OF this]]
  have dry: "importRest env (dried opts) arc (importTree env (dried opts) ex arc order d) = ?last d3"
    unfolding dry d3_def d2_def d1_def ..
  have last: "fine (?last s) = fine s" "alike e (?last s) = alike e s" "alike (?last e) s = alike e s" for e s
    by (simp_all add: sum_facts alike_real)
  have "fine r3" using assms(2) unfolding real last .
  then have 3: "fine r2" "alike d2 r2 \<longrightarrow> alike d3 r3"
    unfolding r3_def d3_def using tracks_pass [OF tracks_forward [OF assms(1)]] by blast+
  have words: "fine s \<and> (alike e s \<longrightarrow> alike (?words (dried opts) e) (?words opts s))" if "fine (?words opts s)" for e s
  proof (cases "arSecrets arc")
    case (Some b)
    show ?thesis using tracks_pass [OF tracks_password [OF assms(1), of env b]] that unfolding Some option.case by blast
  qed (use that in simp)
  have 2: "fine (?jumps r1)" "alike d1 (?jumps r1) \<longrightarrow> alike d2 r2"
    using 3(1) unfolding r2_def d2_def using words by blast+
  have j: "harmless r1 (?jumps r1)" by (intro pass_harmless jumps_harmless harmless_same)
  have 1: "fine r1" "alike d1 r1 \<longrightarrow> alike d2 r2" using 2 j harmless_alike [OF j] by (auto simp: harmless_def)
  have 0: "fine (pass (importFolder env opts ex) order r)"
    "alike (pass (importFolder env (dried opts) ex) order d) (pass (importFolder env opts ex) order r) \<longrightarrow> alike d1 r1"
    using 1(1) unfolding r1_def d1_def using tracks_pass [OF tracks_conn [OF assms(1)]] by blast+
  show "fine r" using tracks_pass [OF tracks_folder [OF assms(1)] 0(1)] by blast
  show "alike (importRest env (dried opts) arc (importTree env (dried opts) ex arc order d)) (importRest env opts arc (importTree env opts ex arc order r))"
    if "alike d r"
    unfolding real dry last using tracks_pass [OF tracks_folder [OF assms(1)] 0(1), of d] that 0(2) 1(2) 3(2) by blast
qed

lemma dried_secrets:
  assumes "\<not> ioDryRun opts" "fine (importSecrets env opts db arc)"
  shows "alike (importSecrets env (dried opts) db arc) (importSecrets env opts db arc)"
proof -
  let ?have = "if aeRead env 3 then map cfID (adCredFolders db) else []"
  note t = tracks_pass [OF tracks_cred [OF assms(1)]] tracks_pass [OF tracks_cred_folder [OF assms(1)]] tracks_pass [OF tracks_image [OF assms(1)]]
  have a: "alike (newImport env db) (newImport env db)" by (simp add: alike_def newImport_def)
  have 1: "fine (pass (importCredFolder env opts ?have) (topoSortCredFolders (arCredFolders arc)) (pass (importImage env opts) (arImages arc) (newImport env db)))"
    using t(1) [OF assms(2) [unfolded importSecrets_def]] by blast
  have 2: "fine (pass (importImage env opts) (arImages arc) (newImport env db))" using t(2) [OF 1] by blast
  show ?thesis unfolding importSecrets_def
    using t(1) [OF assms(2) [unfolded importSecrets_def]] t(2) [OF 1] t(3) [OF 2] a by blast
qed


lemma exImport:
  "case Apply exEnv exOpts exArchive exDb of (Imported s, db) \<Rightarrow> suWarnings s = [] \<and> suConnsCreated s = [''web'', ''bastion''] \<and> suPasswords s = 1 | _ \<Rightarrow> False"
  by code_simp


end
