(* ===== verification/Spec2Isabelle.thy ===== *)
theory Spec2Isabelle
  imports CmdAllow JumpRefs DbStatements RedisWire SessionOutput CmdMarks LazySsh JumpPool AutoSync Presence GuestShare PacketText PlanStaging PlanSafety Vault McpRuns TunnelLife ArchivePreview
begin

text \<open>
  Verified parts of an SSH connection manager written in Go: a desktop program with saved connections in a tree of
  folders, terminals, a database and a Kafka tab, tunnels, an encrypted vault, profile sync, shared terminals and
  a bridge that lets a language model work under the user's control. This library models the parts that decide
  something and proves what they are meant to guarantee. All paths below are under \<open>src/\<close>.

  \<^bold>\<open>How the parts depend on one another.\<close> A connection is stored with its overrides
  (\<open>internal/store\<close>), resolved through its folders (\<open>internal/resolver\<close>), its jump hosts are expanded, and it is
  dialled, possibly through a network profile's tunnel (\<open>app_network.go\<close>) and through bastions shared in a pool
  (\<open>app_jumppool.go\<close>). The session's output passes the pump (\<open>internal/ssh/session.go\<close>) and the coalescer
  (\<open>internal/outbatch\<close>) and may be shared with guests (\<open>internal/share\<close>). Secrets come from the vault
  (\<open>internal/creds\<close>). The Database tab checks statements (\<open>internal/dbx\<close>) before it sends them, and the bridge
  (\<open>app_mcp.go\<close> and its companions) calls nearly all of these behind its gates. The app proxy
  (\<open>app_sharedproxy.go\<close>, \<open>app_localproxy.go\<close>) routes other programs' connections over the tunnels.

  \<^bold>\<open>Ground.\<close> \<open>Prelude\<close> has the result type \<open>'e + 'a\<close> of a Go function that returns an error, its
  bind, and the rewrite collections; \<open>GoStrings\<close> (\<open>strings\<close>, \<open>strconv\<close>), \<open>Utf8\<close> (runes and \<open>unicode\<close>), \<open>Base64\<close>,
  \<open>NetAddr\<close> (\<open>netip\<close>), \<open>Sha256\<close> and \<open>GoRegexp\<close> (leftmost matching, with the groups) are models of the standard
  library's functions the source calls. A Go string is a list of bytes; a rune is a number. What the Unicode tables
  say is an argument (\<open>unicodeTables\<close>).

  \<^bold>\<open>Theories and sources.\<close>
  \<^item> Connections: \<open>StoreModels\<close> (\<open>internal/store/models.go\<close>), \<open>Resolver\<close> (\<open>internal/resolver/resolver.go\<close>:
    \<open>Resolve\<close>, its merging and defaults), \<open>JumpRefs\<close> (\<open>jumprefs.go\<close>: \<open>ExpandJumpRefs\<close> as a partial function, with
    the proof that it returns on every store). Lemmas: the nearest layer wins, expansion ends and leaves no reference.
  \<^item> Sessions: \<open>OutBatch\<close> and \<open>SessionOutput\<close> (pump, chunk boundaries, scrollback; reads and timers are
    events), \<open>CmdMarks\<close>, \<open>LazySsh\<close> (\<open>internal/sshchan/lazy.go\<close>) and \<open>JumpPool\<close>: step relations whose steps are the
    critical sections of the source, with counting invariants by rule induction (nothing is lost, closed twice or leaked).
  \<^item> Statements: \<open>SqlScan\<close>, \<open>SqlGuard\<close>, \<open>SqlSplit\<close> (\<open>internal/dbx/stmt.go\<close>), \<open>RedisStmt\<close>, \<open>DbStatements\<close> (splitting
    for every engine), \<open>RedisWire\<close> (\<open>redis_resp.go\<close>), \<open>Redaction\<close> (\<open>RedactSecrets\<close>): a statement is cut into in-bounds
    ranges, a read-only one holds no write word, replies are decoded exactly within their budget.
  \<^item> Commands: \<open>CmdAllow\<close> (\<open>internal/ssh/cmdallow.go\<close>): which commands run without approval, which are flagged.
  \<^item> Captured packets: \<open>PacketBytes\<close> and \<open>PacketText\<close> (\<open>internal/ssh/tcpdump_tls.go\<close>, \<open>tcpdump_decode.go\<close>); every index
    and slice is checked, a panic of the source is the value \<open>None\<close>.
  \<^item> Secrets: \<open>VaultFile\<close>, \<open>MachineKey\<close>, \<open>Vault\<close> (\<open>internal/creds\<close>): the file vault refines a map; a locked vault keeps no
    secret in any interleaving. The cipher, argon2 and randomness are parameters with their documented laws.
  \<^item> Sync: \<open>Syncer\<close> (\<open>internal/syncer\<close>) over a remote whose calls may fail, \<open>AutoSync\<close> (\<open>sync_auto.go\<close>, \<open>SyncPush\<close>),
    \<open>Presence\<close> (\<open>internal/presence\<close>, 64-bit clocks that wrap).
  \<^item> Sharing: \<open>GuestShare\<close> (\<open>internal/share\<close>): frames, the hub, and the checks on a guest's input.
  \<^item> The bridge to a language model: \<open>SensitiveGuard\<close>, \<open>McpOpen\<close>, \<open>McpFiles\<close>, \<open>McpBridge\<close>, \<open>McpRuns\<close> (\<open>app_mcp.go\<close>,
    \<open>app_mcp_db.go\<close>, \<open>app_mcp_files.go\<close>, \<open>app_mcp_facts.go\<close>): calls, approvals and answers in any order; and its plans: \<open>PlanStore\<close>
    (\<open>internal/store/tx.go\<close>), \<open>McpPlan\<close>, \<open>PlanStaging\<close>, \<open>PlanCommit\<close>, \<open>PlanSafety\<close> (\<open>app_mcp_plan.go\<close>), where a locale
    states what a statement on the store keeps and its interpretation on the model's statements gives the properties.
  \<^item> Networks: \<open>ProxyRoutes\<close>, \<open>ProxyServer\<close> (the app proxy), \<open>WgProfile\<close> (\<open>internal/wg/profile.go\<close>, \<open>buildUAPI\<close>),
    \<open>NetProfiles\<close> (the profile page of \<open>app_network.go\<close> over rows and vault), \<open>TunnelLife\<close> (connect policy,
    \<open>app_loginhold.go\<close>, idle stop).
  \<^item> Archives: \<open>ArchiveStore\<close> (the statements of \<open>internal/store\<close> an import runs), \<open>ArchiveImport\<close>
    (\<open>internal/exporter/importer.go\<close>, unsealing from \<open>exporter.go\<close>), \<open>ArchiveKeeps\<close> (a run is a sequence of allowed
    changes: what was there stays, no login dangles), \<open>ArchiveOrder\<close> (parents first, cycles refused, and runs that fall
    short), \<open>ArchivePreview\<close> (the dry run and the import keep one summary).

  \<^bold>\<open>Conventions.\<close> A struct is a record, an enum a datatype, an error a value of an error type, a Go panic \<open>None\<close>
  where it can happen. State is passed explicitly; concurrency is a step relation whose steps are critical sections, so
  the reachability predicates (such as \<open>loginReach\<close> and \<open>lifeReach\<close>) cover every interleaving. Machine
  integers that may wrap are words (sequence numbers, clocks, lengths in frames); an \<open>int\<close> of the source that cannot
  reach its bound is an integer. Recursion that is not structural has a measure; only the expansion of jump hosts
  is a partial function, and its termination is a theorem. No theorem rests on fuel that might run out.

  \<^bold>\<open>Parameters.\<close> What is not under \<open>src/\<close> is an argument: the cipher and the key derivation, the name resolver and
  the network, JSON as a codec with its round trip, the remote's transport, the SSH library, the database drivers, the
  clock and timers, the order in which Go ranges over a map. Their laws are hypotheses of the theorems that need them,
  each with a witness that has a concrete instance.

  \<^bold>\<open>Not modelled.\<close> Listed with the reason in the manifest: the user interface (not Go); SQL statements run
  by the driver; the drivers, catalogue queries and result rows of the Database tab and the Kafka client; the sync transports and
  certificates; what an export collects (\<open>Build\<close>) and the two archive syntaxes; readers of other programs' files; cloud inventories and clients of other password managers; the recorder, updater and
  processes; the userspace network stacks. Of \<open>app.go\<close> most methods are bindings between the interface and the packages
  above. These call third-party code in nearly every line, so a model would consist of parameters.
\<close>

end
